(* ===== verification/Prelude.thy ===== *)
theory Prelude
  imports Main "HOL-Library.AList" "HOL-Library.Word" "HOL-Library.Multiset"
begin

text \<open>
  Shared vocabulary of the development: the machine integers the Go code uses, Go maps as
  association lists with distinct keys, \<open>sort.Slice\<close> as an insertion sort together with
  the contract its callers rely on, and the named collections of simplification rules the
  component theories add to.
\<close>

section \<open>Machine integers and error values\<close>

type_synonym u8 = "8 word"
type_synonym u16 = "16 word"
type_synonym u32 = "32 word"
type_synonym u64 = "64 word"

text \<open>A Go \<open>error\<close> value is nil or carries a message.\<close>

type_synonym go_error = "string option"

named_theorems vars_simps \<open>equations of the variable scopes\<close>
named_theorems sched_simps \<open>field equations of the task scheduler\<close>
named_theorems cache_simps \<open>field equations of the block caches\<close>
named_theorems wallet_simps \<open>field equations of the wallet\<close>

section \<open>Go maps as association lists\<close>

text \<open>
  A Go map that the code iterates over is an association list. Assignment is
  \<open>AList.update\<close>, \<open>delete\<close> is \<open>AList.delete\<close>, a lookup is \<^const>\<open>map_of\<close>. Every list
  built by these operations from the empty one has distinct keys.
\<close>

definition go_map :: "('k \<times> 'v) list \<Rightarrow> bool" where
  "go_map m \<longleftrightarrow> distinct (map fst m)"

lemma go_map_Nil [simp]: "go_map []"
  by (simp add: go_map_def)

lemma go_map_update [simp]: "go_map m \<Longrightarrow> go_map (AList.update k v m)"
  by (simp add: go_map_def distinct_update)

lemma go_map_delete [simp]: "go_map m \<Longrightarrow> go_map (AList.delete k m)"
  by (simp add: go_map_def distinct_delete)

lemma update_new: "k \<notin> fst ` set m \<Longrightarrow> AList.update k v m = m @ [(k, v)]"
  by (induction m) auto

lemma map_of_update [simp]: "map_of (AList.update k v m) = (map_of m)(k \<mapsto> v)"
  by (rule update_conv')

lemma map_of_delete [simp]: "map_of (AList.delete k m) = (map_of m)(k := None)"
  by (rule delete_conv')

lemma go_map_lookup_iff: "go_map m \<Longrightarrow> map_of m k = Some v \<longleftrightarrow> (k, v) \<in> set m"
  by (simp add: go_map_def)

lemma fst_set_update: "fst ` set (AList.update k v m) = insert k (fst ` set m)"
  by (induction m) auto

lemma set_update_subset: "set (AList.update k v m) \<subseteq> insert (k, v) (set m)"
  by (induction m) auto

lemma snd_set_updateD: "x \<in> snd ` set (AList.update k v m) \<Longrightarrow> x = v \<or> x \<in> snd ` set m"
  using set_update_subset [of k v m] by fastforce

section \<open>Slices\<close>

text \<open>Reading a slice out of range panics in Go; the model returns \<^const>\<open>None\<close>.\<close>

definition slice_get :: "'a list \<Rightarrow> nat \<Rightarrow> 'a option" where
  "slice_get xs i = (if i < length xs then Some (xs ! i) else None)"

lemma slice_get_Some_iff: "slice_get xs i = Some x \<longleftrightarrow> i < length xs \<and> xs ! i = x"
  by (auto simp: slice_get_def)

lemma slice_get_append_fresh [simp]: "slice_get (xs @ [x]) (length xs) = Some x"
  by (simp add: slice_get_def)

lemma slice_get_append_old [simp]: "i < length xs \<Longrightarrow> slice_get (xs @ ys) i = slice_get xs i"
  by (simp add: slice_get_def nth_append)

lemma slice_get_update:
  "slice_get (xs[i := x]) j = (if i = j \<and> i < length xs then Some x else slice_get xs j)"
  by (auto simp: slice_get_def)

section \<open>sort.Slice\<close>

text \<open>
  \<open>sort.Slice(xs, less)\<close> rearranges \<open>xs\<close> so that no element is \<open>less\<close> than an earlier one.
  Go sorts slices of up to twelve elements by insertion; the model uses insertion for every
  length. The callers' lemmas rest on the contract \<open>slice_sorter\<close> only, which leaves the
  order of elements that \<open>less\<close> does not separate open, as Go's documentation does.
\<close>

fun insert_slice :: "('a \<Rightarrow> 'a \<Rightarrow> bool) \<Rightarrow> 'a \<Rightarrow> 'a list \<Rightarrow> 'a list" where
  "insert_slice lt x [] = [x]"
| "insert_slice lt x (y # ys) =
     (if lt y x then y # insert_slice lt x ys else x # y # ys)"

fun sort_slice :: "('a \<Rightarrow> 'a \<Rightarrow> bool) \<Rightarrow> 'a list \<Rightarrow> 'a list" where
  "sort_slice lt [] = []"
| "sort_slice lt (x # xs) = insert_slice lt x (sort_slice lt xs)"

text \<open>A comparator \<open>sort.Slice\<close> may be called with: a strict weak order on the elements.\<close>

definition slice_order :: "('a \<Rightarrow> 'a \<Rightarrow> bool) \<Rightarrow> 'a set \<Rightarrow> bool" where
  "slice_order lt A \<longleftrightarrow>
     (\<forall>x\<in>A. \<not> lt x x) \<and>
     (\<forall>x\<in>A. \<forall>y\<in>A. lt x y \<longrightarrow> \<not> lt y x) \<and>
     (\<forall>x\<in>A. \<forall>y\<in>A. \<forall>z\<in>A. lt x z \<longrightarrow> lt x y \<or> lt y z)"

lemma slice_orderD:
  assumes "slice_order lt A"
  shows "x \<in> A \<Longrightarrow> \<not> lt x x"
    and "x \<in> A \<Longrightarrow> y \<in> A \<Longrightarrow> lt x y \<Longrightarrow> \<not> lt y x"
    and "x \<in> A \<Longrightarrow> y \<in> A \<Longrightarrow> z \<in> A \<Longrightarrow> lt x z \<Longrightarrow> lt x y \<or> lt y z"
  using assms unfolding slice_order_def by blast+

lemma slice_order_subset: "slice_order lt A \<Longrightarrow> B \<subseteq> A \<Longrightarrow> slice_order lt B"
  unfolding slice_order_def by (meson subsetD)

lemma sorted_wrt_arrangement_unique:
  assumes "mset xs = mset ys" and "sorted_wrt lt xs" and "sorted_wrt lt ys"
    and "\<And>x. x \<in> set xs \<Longrightarrow> \<not> lt x x"
    and "\<And>x y. x \<in> set xs \<Longrightarrow> y \<in> set xs \<Longrightarrow> lt x y \<Longrightarrow> \<not> lt y x"
  shows "xs = ys"
  using assms
proof (induction xs arbitrary: ys)
  case Nil
  then show ?case by simp
next
  case (Cons x xs)
  from Cons.prems(1) obtain y zs where ys: "ys = y # zs" by (cases ys) auto
  have sets: "set (x # xs) = set (y # zs)" using Cons.prems(1) ys mset_eq_setD by blast
  have "x = y"
  proof (rule ccontr)
    assume neq: "x \<noteq> y"
    then have "y \<in> set xs" "x \<in> set zs" using sets by auto
    then have "lt x y" "lt y x" using Cons.prems(2,3) ys by auto
    then show False using Cons.prems(5) \<open>y \<in> set xs\<close> by auto
  qed
  moreover have "xs = zs"
  proof (rule Cons.IH)
    show "mset xs = mset zs" using Cons.prems(1) ys \<open>x = y\<close> by simp
    show "sorted_wrt lt xs" "sorted_wrt lt zs" using Cons.prems(2,3) ys by simp_all
  qed (use Cons.prems(4,5) in auto)
  ultimately show ?case using ys by simp
qed

locale slice_sorter =
  fixes srt :: "('a \<Rightarrow> 'a \<Rightarrow> bool) \<Rightarrow> 'a list \<Rightarrow> 'a list"
  assumes srt_mset: "mset (srt lt xs) = mset xs"
    and srt_sorted: "slice_order lt (set xs) \<Longrightarrow> sorted_wrt (\<lambda>x y. \<not> lt y x) (srt lt xs)"
begin

lemma srt_set: "set (srt lt xs) = set xs"
  using srt_mset [of lt xs] by (rule mset_eq_setD)

lemma srt_length: "length (srt lt xs) = length xs"
  using srt_mset [of lt xs] by (rule mset_eq_length)

lemma srt_distinct: "distinct (srt lt xs) = distinct xs"
  using srt_mset [of lt xs] by (rule mset_eq_imp_distinct_iff)

text \<open>The first element is not preceded by any other.\<close>

lemma srt_hd_minimal:
  assumes "slice_order lt (set xs)" and "y \<in> set xs"
  shows "\<not> lt y (hd (srt lt xs))"
proof -
  have "y \<in> set (srt lt xs)" using assms(2) by (simp add: srt_set)
  then obtain z zs where eq: "srt lt xs = z # zs" by (cases "srt lt xs") auto
  have "sorted_wrt (\<lambda>x y. \<not> lt y x) (z # zs)" using srt_sorted [OF assms(1)] eq by simp
  moreover have "\<not> lt z z"
    using slice_orderD(1) [OF assms(1)] srt_set [of lt xs] eq by auto
  ultimately show ?thesis using \<open>y \<in> set (srt lt xs)\<close> eq by auto
qed

text \<open>
  Where the comparator separates any two different elements, the contract determines the
  result: it is the only ascending arrangement of the elements.
\<close>

lemma srt_unique:
  assumes ord: "slice_order lt (set xs)" and dist: "distinct xs"
    and total: "\<And>x y. x \<in> set xs \<Longrightarrow> y \<in> set xs \<Longrightarrow> x \<noteq> y \<Longrightarrow> lt x y \<or> lt y x"
    and ys: "mset ys = mset xs" "sorted_wrt lt ys"
  shows "srt lt xs = ys"
proof -
  let ?zs = "srt lt xs"
  have set_zs: "set ?zs = set xs" by (rule srt_set)
  have "sorted_wrt (\<lambda>x y. \<not> lt y x) ?zs" using srt_sorted [OF ord] .
  moreover have "distinct ?zs" using dist by (simp add: srt_distinct)
  ultimately have asc: "sorted_wrt lt ?zs"
    unfolding sorted_wrt_iff_nth_less distinct_conv_nth
    by (metis nth_mem set_zs total less_irrefl_nat order_less_trans)
  show ?thesis
  proof (rule sorted_wrt_arrangement_unique [OF _ asc ys(2)])
    show "mset ?zs = mset ys" using ys(1) srt_mset [of lt xs] by simp
    show "\<And>x. x \<in> set ?zs \<Longrightarrow> \<not> lt x x" using slice_orderD(1) [OF ord] set_zs by blast
    show "\<And>x y. x \<in> set ?zs \<Longrightarrow> y \<in> set ?zs \<Longrightarrow> lt x y \<Longrightarrow> \<not> lt y x"
      using slice_orderD(2) [OF ord] set_zs by blast
  qed
qed

end

lemma mset_insert_slice: "mset (insert_slice lt x xs) = add_mset x (mset xs)"
  by (induction xs) auto

lemma mset_sort_slice: "mset (sort_slice lt xs) = mset xs"
  by (induction xs) (auto simp: mset_insert_slice)

lemma set_insert_slice: "set (insert_slice lt x xs) = insert x (set xs)"
  by (induction xs) auto

lemma sorted_insert_slice:
  assumes "slice_order lt (insert x (set xs))" and "sorted_wrt (\<lambda>a b. \<not> lt b a) xs"
  shows "sorted_wrt (\<lambda>a b. \<not> lt b a) (insert_slice lt x xs)"
  using assms
proof (induction xs)
  case Nil
  then show ?case by simp
next
  case (Cons y ys)
  have ord: "slice_order lt (insert x (set ys))"
    using Cons.prems(1) by (rule slice_order_subset) auto
  show ?case
  proof (cases "lt y x")
    case True
    then have "\<not> lt x y" using slice_orderD(2) [OF Cons.prems(1)] by auto
    with True Cons.IH [OF ord] Cons.prems(2) show ?thesis by (auto simp: set_insert_slice)
  next
    case False
    have "\<not> lt b x" if "b \<in> set ys" for b
    proof
      assume "lt b x"
      then have "lt b y \<or> lt y x" using slice_orderD(3) [OF Cons.prems(1), of b y x] that by auto
      with False that Cons.prems(2) show False by auto
    qed
    with False Cons.prems(2) show ?thesis by auto
  qed
qed

lemma sorted_sort_slice:
  "slice_order lt (set xs) \<Longrightarrow> sorted_wrt (\<lambda>a b. \<not> lt b a) (sort_slice lt xs)"
proof (induction xs)
  case Nil
  then show ?case by simp
next
  case (Cons x xs)
  have set_eq: "set (sort_slice lt xs) = set xs"
    using mset_sort_slice [of lt xs] by (rule mset_eq_setD)
  have "slice_order lt (set xs)" using Cons.prems by (rule slice_order_subset) auto
  then show ?case using Cons sorted_insert_slice [of lt x "sort_slice lt xs"] by (simp add: set_eq)
qed

interpretation go_sort: slice_sorter sort_slice
  by unfold_locales (simp_all add: mset_sort_slice sorted_sort_slice)

section \<open>Counting up\<close>

lemma unat_max: "unat (- 1 :: u64) = 18446744073709551615"
  by (simp add: unsigned_minus_1_eq_mask mask_eq_exp_minus_1)

lemma unat_succ: "(a :: u64) < - 1 \<Longrightarrow> unat (a + 1) = Suc (unat a)"
  by (simp add: word_less_nat_alt unat_word_ariths unat_max)

section \<open>Printing\<close>

text \<open>The decimal digits of a number, as \<open>%v\<close> prints it.\<close>

fun showNat :: "nat \<Rightarrow> string" where
  "showNat n = (if n < 10 then [char_of (48 + n)] else showNat (n div 10) @ [char_of (48 + n mod 10)])"

declare showNat.simps [simp del]

section \<open>Results of fallible operations\<close>

lemma case_Some_Inr:
  assumes "case x of None \<Rightarrow> False | Some (Inl e, s) \<Rightarrow> False | Some (Inr j, s) \<Rightarrow> P j s"
  obtains j s where "x = Some (Inr j, s)" and "P j s"
proof (cases x)
  case (Some p)
  then show ?thesis using assms that by (cases p; cases "fst p") auto
qed (use assms in simp)

lemma case_Some_None:
  assumes "case x of None \<Rightarrow> False | Some (None, s) \<Rightarrow> P s | Some (Some e, s) \<Rightarrow> False"
  obtains s where "x = Some (None, s)" and "P s"
  using assms by (cases x) (auto split: option.splits)

end
