(* ===== verification/Variables.thy ===== *)
theory Variables
  imports Prelude
begin

text \<open>
  The variable scopes of \<open>pkg/coordinator/vars\<close>: \<open>Variables\<close> objects with a parent scope,
  sub scopes and defaults, the \<open>ScopeFilter\<close> wrapper, the flattening \<open>GetVarsMap\<close>, lookup,
  placeholder and query resolution and the trimming of floating point text.

  Scopes are shared and mutated through pointers, so the model keeps an explicit heap: a
  reference is a position in a list of objects and allocation appends. Two outcomes of the Go
  code are kept apart from its results: \<^const>\<open>None\<close> of \<open>GetVarsMap\<close> is a call that has not
  returned within the given recursion depth, and the theorems say how much depth is enough.
\<close>

section \<open>Values and objects\<close>

text \<open>
  \<open>interface{}\<close> values. \<open>VFloat64\<close> carries the IEEE bit pattern, whose decimal text is a
  parameter where the code prints it.
\<close>

datatype var_value =
    VNil
  | VBool bool
  | VInt int
  | VUint8 u8
  | VUint64 u64
  | VFloat64 u64
  | VStr string
  | VSlice "var_value list"
  | VMap "(string \<times> var_value) list"

type_synonym vars_map = "(string \<times> var_value) list"
type_synonym vref = nat

record variableValue =
  isDefined :: bool
  varVal :: var_value

record variables =
  parentScope :: "vref option"
  varsMap :: "(string \<times> variableValue) list"
  defaultsMap :: "(string \<times> variableValue) list"
  subScopes :: "(string \<times> vref) list"

text \<open>The two implementations of \<open>types.Variables\<close>.\<close>

datatype var_obj = VarScope variables | VarFilter vref

type_synonym var_heap = "var_obj list"

text \<open>Reading a missing key of a Go map yields the zero value.\<close>

definition vars_get :: "(string \<times> variableValue) list \<Rightarrow> string \<Rightarrow> variableValue" where
  "vars_get m name =
     (case map_of m name of Some v \<Rightarrow> v | None \<Rightarrow> \<lparr>isDefined = False, varVal = VNil\<rparr>)"

definition empty_scope :: "vref option \<Rightarrow> variables" where
  "empty_scope parent = \<lparr>parentScope = parent, varsMap = [], defaultsMap = [], subScopes = []\<rparr>"

definition newVariables :: "var_heap \<Rightarrow> vref option \<Rightarrow> var_heap \<times> vref" where
  "newVariables h parent = (h @ [VarScope (empty_scope parent)], length h)"

definition NewVariables :: "var_heap \<Rightarrow> vref option \<Rightarrow> var_heap \<times> vref" where
  "NewVariables h parent = newVariables h parent"

definition NewScopeFilter :: "var_heap \<Rightarrow> vref \<Rightarrow> var_heap \<times> vref" where
  "NewScopeFilter h v = (h @ [VarFilter v], length h)"

text \<open>
  A filter forwards to the object it wraps, which was allocated before it; \<open>scope_of\<close> follows
  filters to the underlying \<open>Variables\<close> object. A reference that does not lead to one cannot be
  built (\<open>heap_wf\<close> below); the operations leave the heap alone there.
\<close>

fun scope_of :: "var_heap \<Rightarrow> vref \<Rightarrow> vref option" where
  "scope_of h r =
     (case slice_get h r of
        None \<Rightarrow> None
      | Some (VarScope v) \<Rightarrow> Some r
      | Some (VarFilter t) \<Rightarrow> if t < r then scope_of h t else None)"

declare scope_of.simps [simp del]

definition upd_scope :: "var_heap \<Rightarrow> vref \<Rightarrow> (variables \<Rightarrow> variables) \<Rightarrow> var_heap" where
  "upd_scope h r f =
     (case scope_of h r of
        None \<Rightarrow> h
      | Some t \<Rightarrow> (case h ! t of VarScope v \<Rightarrow> h[t := VarScope (f v)] | VarFilter _ \<Rightarrow> h))"

section \<open>Operations\<close>

definition SetVar :: "var_heap \<Rightarrow> vref \<Rightarrow> string \<Rightarrow> var_value \<Rightarrow> var_heap" where
  "SetVar h r name x =
     upd_scope h r (\<lambda>v. v\<lparr>varsMap :=
       AList.update name \<lparr>isDefined = True, varVal = x\<rparr> (varsMap v)\<rparr>)"

definition SetDefaultVar :: "var_heap \<Rightarrow> vref \<Rightarrow> string \<Rightarrow> var_value \<Rightarrow> var_heap" where
  "SetDefaultVar h r name x =
     upd_scope h r (\<lambda>v. v\<lparr>defaultsMap :=
       AList.update name \<lparr>isDefined = True, varVal = x\<rparr> (defaultsMap v)\<rparr>)"

definition SetSubScope :: "var_heap \<Rightarrow> vref \<Rightarrow> string \<Rightarrow> vref \<Rightarrow> var_heap" where
  "SetSubScope h r name s =
     upd_scope h r (\<lambda>v. v\<lparr>subScopes := AList.update name s (subScopes v)\<rparr>)"

definition NewSubScope :: "var_heap \<Rightarrow> vref \<Rightarrow> string \<Rightarrow> var_heap \<times> vref" where
  "NewSubScope h r name =
     (let (h1, s) = newVariables h None in (SetSubScope h1 r name s, s))"

definition NewScope :: "var_heap \<Rightarrow> vref \<Rightarrow> var_heap \<times> vref" where
  "NewScope h r = (case scope_of h r of Some t \<Rightarrow> NewVariables h (Some t) | None \<Rightarrow> (h, r))"

text \<open>
  \<open>GetSubScope\<close> first asks the parent, which may create the sub scope in every ancestor, and
  then creates its own with the ancestor's as parent.
\<close>

fun GetSubScope :: "var_heap \<Rightarrow> vref \<Rightarrow> string \<Rightarrow> var_heap \<times> vref" where
  "GetSubScope h r name =
     (case slice_get h r of
        None \<Rightarrow> (h, r)
      | Some (VarFilter t) \<Rightarrow> if t < r then GetSubScope h t name else (h, r)
      | Some (VarScope v) \<Rightarrow>
          (let (h1, parentSubScope) =
             (case parentScope v of
                None \<Rightarrow> (h, None)
              | Some p \<Rightarrow>
                  if p < r then (let (h', s) = GetSubScope h p name in (h', Some s)) else (h, None))
           in case slice_get h1 r of
                Some (VarScope v1) \<Rightarrow>
                  (case map_of (subScopes v1) name of
                     Some s \<Rightarrow> (h1, s)
                   | None \<Rightarrow>
                       (let (h2, s) = newVariables h1 parentSubScope
                        in (SetSubScope h2 r name s, s)))
              | _ \<Rightarrow> (h1, r)))"

declare GetSubScope.simps [simp del]

text \<open>The three loops of \<open>GetVarsMap\<close>: a key that is already present is kept.\<close>

fun addVars :: "(string \<times> variableValue) list \<Rightarrow> vars_map \<Rightarrow> vars_map" where
  "addVars [] acc = acc"
| "addVars ((k, vd) # xs) acc =
     addVars xs (if map_of acc k \<noteq> None then acc else acc @ [(k, varVal vd)])"

fun addSubScopes ::
    "(vref \<Rightarrow> vars_map option) \<Rightarrow> (string \<times> vref) list \<Rightarrow> vars_map \<Rightarrow> vars_map option" where
  "addSubScopes get [] acc = Some acc"
| "addSubScopes get ((k, s) # xs) acc =
     (if map_of acc k \<noteq> None then addSubScopes get xs acc
      else case get s of
             None \<Rightarrow> None
           | Some m \<Rightarrow> addSubScopes get xs (acc @ [(k, VMap m)]))"

primrec GetVarsMap :: "nat \<Rightarrow> var_heap \<Rightarrow> vref \<Rightarrow> vars_map \<Rightarrow> bool \<Rightarrow> vars_map option" where
  "GetVarsMap 0 h r acc skipParent = None"
| "GetVarsMap (Suc n) h r acc skipParent =
     (case slice_get h r of
        None \<Rightarrow> None
      | Some (VarFilter t) \<Rightarrow> GetVarsMap n h t acc True
      | Some (VarScope v) \<Rightarrow>
          (case addSubScopes (\<lambda>s. GetVarsMap n h s [] skipParent) (subScopes v) acc of
             None \<Rightarrow> None
           | Some m1 \<Rightarrow>
               (let m2 = addVars (varsMap v) m1;
                    m3 = (case parentScope v of
                            None \<Rightarrow> Some m2
                          | Some p \<Rightarrow> if skipParent then Some m2 else GetVarsMap n h p m2 False)
                in case m3 of None \<Rightarrow> None | Some m \<Rightarrow> Some (addVars (defaultsMap v) m))))"

text \<open>
  \<open>LookupVar\<close> and \<open>GetVar\<close>: sub scope, own variable, parent, own default, in this order. The
  first argument is the recursion depth granted to \<open>GetVarsMap\<close>.
\<close>

fun LookupVar :: "nat \<Rightarrow> var_heap \<Rightarrow> vref \<Rightarrow> string \<Rightarrow> (var_value \<times> bool) option" where
  "LookupVar n h r name =
     (case slice_get h r of
        None \<Rightarrow> None
      | Some (VarFilter t) \<Rightarrow> if t < r then LookupVar n h t name else None
      | Some (VarScope v) \<Rightarrow>
          (case map_of (subScopes v) name of
             Some s \<Rightarrow> map_option (\<lambda>m. (VMap m, True)) (GetVarsMap n h s [] False)
           | None \<Rightarrow>
               if isDefined (vars_get (varsMap v) name)
               then Some (varVal (vars_get (varsMap v) name), True)
               else (case parentScope v of
                       Some p \<Rightarrow> if p < r then LookupVar n h p name else None
                     | None \<Rightarrow>
                         if isDefined (vars_get (defaultsMap v) name)
                         then Some (varVal (vars_get (defaultsMap v) name), True)
                         else Some (VNil, False))))"

declare LookupVar.simps [simp del]

fun GetVar :: "nat \<Rightarrow> var_heap \<Rightarrow> vref \<Rightarrow> string \<Rightarrow> var_value option" where
  "GetVar n h r name =
     (case slice_get h r of
        None \<Rightarrow> None
      | Some (VarFilter t) \<Rightarrow> if t < r then GetVar n h t name else None
      | Some (VarScope v) \<Rightarrow>
          (case map_of (subScopes v) name of
             Some s \<Rightarrow> map_option VMap (GetVarsMap n h s [] False)
           | None \<Rightarrow>
               if isDefined (vars_get (varsMap v) name)
               then Some (varVal (vars_get (varsMap v) name))
               else (case parentScope v of
                       Some p \<Rightarrow> if p < r then GetVar n h p name else None
                     | None \<Rightarrow>
                         if isDefined (vars_get (defaultsMap v) name)
                         then Some (varVal (vars_get (defaultsMap v) name))
                         else Some VNil)))"

declare GetVar.simps [simp del]

section \<open>Queries, config variables and placeholders\<close>

text \<open>
  YAML, the jq interpreter and \<open>fmt\<close> verbs are parameters: the YAML round trip that generalises
  a variable map, the first result of a jq query (an error text, no result, or a value) and the
  printed forms of a value.
\<close>

record vars_libs =
  yamlGeneralize :: "vars_map \<Rightarrow> string + vars_map"
  jqFirst :: "string \<Rightarrow> vars_map \<Rightarrow> string + var_value option"
  sprintfV :: "var_value \<Rightarrow> string"
  sprintfF :: "u64 \<Rightarrow> string"

definition getGeneralizedVarsMap ::
    "vars_libs \<Rightarrow> nat \<Rightarrow> var_heap \<Rightarrow> vref \<Rightarrow> (string + vars_map) option" where
  "getGeneralizedVarsMap L n h r =
     (case scope_of h r of
        None \<Rightarrow> None
      | Some t \<Rightarrow> map_option (yamlGeneralize L) (GetVarsMap n h t [] False))"

definition ResolveQuery ::
    "vars_libs \<Rightarrow> nat \<Rightarrow> var_heap \<Rightarrow> vref \<Rightarrow> string \<Rightarrow> (string + var_value option) option" where
  "ResolveQuery L n h r queryStr =
     (case getGeneralizedVarsMap L n h r of
        None \<Rightarrow> None
      | Some (Inl e) \<Rightarrow> Some (Inl e)
      | Some (Inr m) \<Rightarrow> Some (jqFirst L (''.'' @ queryStr) m))"

text \<open>\<open>CopyVars\<close> assigns one variable per query; the first failing query ends the loop.\<close>

fun CopyVars ::
    "vars_libs \<Rightarrow> nat \<Rightarrow> var_heap \<Rightarrow> vref \<Rightarrow> vref \<Rightarrow> (string \<times> string) list \<Rightarrow>
     (string option \<times> var_heap) option" where
  "CopyVars L n h r source [] = Some (None, h)"
| "CopyVars L n h r source ((cfgName, varQuery) # xs) =
     (case ResolveQuery L n h source varQuery of
        None \<Rightarrow> None
      | Some (Inl e) \<Rightarrow> Some (Some e, h)
      | Some (Inr None) \<Rightarrow> CopyVars L n h r source xs
      | Some (Inr (Some x)) \<Rightarrow> CopyVars L n (SetVar h r cfgName x) r source xs)"

text \<open>
  \<open>getTrimmedFloat\<close> cuts trailing zeros and then a trailing dot; indexing the empty string
  panics.
\<close>

definition trimZeros :: "string \<Rightarrow> string" where
  "trimZeros str = rev (dropWhile (\<lambda>c. c = CHR ''0'') (rev str))"

definition getTrimmedFloat :: "string \<Rightarrow> string option" where
  "getTrimmedFloat printed =
     (let str = trimZeros printed
      in if str = [] then None
         else if last str = CHR ''.'' then Some (butlast str) else Some str)"

text \<open>
  \<open>ConsumeVars\<close> collects the results of the queries; a float is replaced by its trimmed text.
  Marshalling the collected map into the task's config struct is left to the caller.
\<close>

fun consumeQueries ::
    "vars_libs \<Rightarrow> vars_map \<Rightarrow> (string \<times> string) list \<Rightarrow> vars_map \<Rightarrow> string + vars_map" where
  "consumeQueries L m [] applyMap = Inr applyMap"
| "consumeQueries L m ((cfgName, varQuery) # xs) applyMap =
     (case jqFirst L (''.'' @ varQuery) m of
        Inl e \<Rightarrow> Inl e
      | Inr None \<Rightarrow> consumeQueries L m xs applyMap
      | Inr (Some x) \<Rightarrow>
          (let y = (case x of
                      VFloat64 f \<Rightarrow>
                        map_option VStr (getTrimmedFloat (sprintfF L f))
                    | _ \<Rightarrow> Some x)
           in case y of
                None \<Rightarrow> Inl ''panic: index out of range''
              | Some z \<Rightarrow> consumeQueries L m xs (AList.update cfgName z applyMap)))"

definition ConsumeVars ::
    "vars_libs \<Rightarrow> nat \<Rightarrow> var_heap \<Rightarrow> vref \<Rightarrow> (string \<times> string) list \<Rightarrow> (string + vars_map) option" where
  "ConsumeVars L n h r consumeMap =
     (case getGeneralizedVarsMap L n h r of
        None \<Rightarrow> None
      | Some (Inl e) \<Rightarrow> Some (Inl e)
      | Some (Inr m) \<Rightarrow> Some (consumeQueries L m consumeMap []))"

text \<open>
  The two passes of \<open>ResolvePlaceholders\<close>. The first replaces a dollar sign, an opening brace,
  at least one character other than a closing brace, and a closing brace. The second replaces
  the double-brace form, whose body is the shortest text without a newline before two closing
  braces. \<open>f\<close> gives the replacement for a body, \<^const>\<open>None\<close> if it does not return.
\<close>

abbreviation dollar :: char where "dollar \<equiv> CHR 0x24"
abbreviation lbrace :: char where "lbrace \<equiv> CHR 0x7B"
abbreviation rbrace :: char where "rbrace \<equiv> CHR 0x7D"
abbreviation newline :: char where "newline \<equiv> CHR 0x0A"

function replaceVars :: "(string \<Rightarrow> string option) \<Rightarrow> string \<Rightarrow> string option" where
  "replaceVars f [] = Some []"
| "replaceVars f (c # cs) =
     (let body = takeWhile (\<lambda>x. x \<noteq> rbrace) (tl cs);
          rest = dropWhile (\<lambda>x. x \<noteq> rbrace) (tl cs)
      in if c = dollar \<and> cs \<noteq> [] \<and> hd cs = lbrace \<and> body \<noteq> [] \<and> rest \<noteq> []
         then (case f body of
                 None \<Rightarrow> None
               | Some s \<Rightarrow> map_option (\<lambda>t. s @ t) (replaceVars f (tl rest)))
         else map_option (\<lambda>t. c # t) (replaceVars f cs))"
  by pat_completeness auto
termination
proof (relation "measure (\<lambda>(f, cs). length cs)", goal_cases)
  case (2 f c cs body rest s)
  have "length (tl (dropWhile (\<lambda>x. x \<noteq> rbrace) (tl cs))) \<le> length cs"
    using length_dropWhile_le [of "\<lambda>x. x \<noteq> rbrace" "tl cs"] by auto
  with 2 show ?case by auto
qed auto

declare replaceVars.simps(2) [simp del]

fun splitClose :: "string \<Rightarrow> (string \<times> string) option" where
  "splitClose (a # b # cs) =
     (if a = rbrace \<and> b = rbrace then Some ([], cs)
      else if a = newline then None
      else map_option (\<lambda>(body, rest). (a # body, rest)) (splitClose (b # cs)))"
| "splitClose cs = None"

lemma splitClose_length: "splitClose cs = Some (body, rest) \<Longrightarrow> length rest < length cs"
  by (induction cs arbitrary: body rest rule: splitClose.induct)
     (auto split: if_splits simp: less_SucI)

function replaceQueries :: "(string \<Rightarrow> string option) \<Rightarrow> string \<Rightarrow> string option" where
  "replaceQueries f [] = Some []"
| "replaceQueries f (c # cs) =
     (case (if c = dollar \<and> take 2 cs = [lbrace, lbrace] then splitClose (drop 2 cs) else None) of
        Some (body, rest) \<Rightarrow>
          (case f body of
             None \<Rightarrow> None
           | Some s \<Rightarrow> map_option (\<lambda>t. s @ t) (replaceQueries f rest))
      | None \<Rightarrow> map_option (\<lambda>t. c # t) (replaceQueries f cs))"
  by pat_completeness auto
termination
  by (relation "measure (\<lambda>(f, cs). length cs)")
     (auto split: if_splits dest!: splitClose_length)

declare replaceQueries.simps(2) [simp del]

definition varReplacement ::
    "vars_libs \<Rightarrow> nat \<Rightarrow> var_heap \<Rightarrow> vref \<Rightarrow> string \<Rightarrow> string option" where
  "varReplacement L n h r name =
     (case LookupVar n h r name of
        None \<Rightarrow> None
      | Some (x, True) \<Rightarrow> Some (sprintfV L x)
      | Some (x, False) \<Rightarrow> Some ([dollar, lbrace] @ name @ [rbrace]))"

definition queryReplacement ::
    "vars_libs \<Rightarrow> nat \<Rightarrow> var_heap \<Rightarrow> vref \<Rightarrow> string \<Rightarrow> string option" where
  "queryReplacement L n h r q =
     (case ResolveQuery L n h r q of
        None \<Rightarrow> None
      | Some (Inl e) \<Rightarrow> Some ''?''
      | Some (Inr None) \<Rightarrow> Some ''?''
      | Some (Inr (Some x)) \<Rightarrow> Some (sprintfV L x))"

definition ResolvePlaceholders ::
    "vars_libs \<Rightarrow> nat \<Rightarrow> var_heap \<Rightarrow> vref \<Rightarrow> string \<Rightarrow> string option" where
  "ResolvePlaceholders L n h r str =
     (case replaceVars (varReplacement L n h r) str of
        None \<Rightarrow> None
      | Some s1 \<Rightarrow> replaceQueries (queryReplacement L n h r) s1)"

section \<open>Well-formed heaps\<close>

text \<open>
  Parents and filtered objects are older than the object that refers to them, sub scopes are
  allocated objects, the Go maps have distinct keys and hold defined values only.
\<close>

definition obj_wf :: "nat \<Rightarrow> vref \<Rightarrow> var_obj \<Rightarrow> bool" where
  "obj_wf n r ob =
     (case ob of
        VarFilter t \<Rightarrow> t < r
      | VarScope v \<Rightarrow>
          (case parentScope v of None \<Rightarrow> True | Some p \<Rightarrow> p < r) \<and>
          (\<forall>s\<in>snd ` set (subScopes v). s < n) \<and>
          go_map (varsMap v) \<and> go_map (defaultsMap v) \<and> go_map (subScopes v) \<and>
          (\<forall>x\<in>snd ` set (varsMap v). isDefined x) \<and>
          (\<forall>x\<in>snd ` set (defaultsMap v). isDefined x))"

definition heap_wf :: "var_heap \<Rightarrow> bool" where
  "heap_wf h \<longleftrightarrow> (\<forall>r<length h. obj_wf (length h) r (h ! r))"

lemma heap_wf_Nil [simp]: "heap_wf []"
  by (simp add: heap_wf_def)

lemma obj_wf_mono: "obj_wf n r ob \<Longrightarrow> n \<le> m \<Longrightarrow> obj_wf m r ob"
  by (fastforce simp: obj_wf_def split: var_obj.splits)

lemma heap_wf_alloc:
  assumes "heap_wf h" and "obj_wf (Suc (length h)) (length h) ob"
  shows "heap_wf (h @ [ob])"
  using assms unfolding heap_wf_def by (auto simp: nth_append less_Suc_eq intro: obj_wf_mono)

lemma heap_wf_scopeD:
  assumes "heap_wf h" and "slice_get h r = Some (VarScope v)"
  shows "\<And>p. parentScope v = Some p \<Longrightarrow> p < r"
    and "\<And>k s. map_of (subScopes v) k = Some s \<Longrightarrow> s < length h"
    and "\<And>s. s \<in> snd ` set (subScopes v) \<Longrightarrow> s < length h"
    and "go_map (varsMap v)" "go_map (defaultsMap v)" "go_map (subScopes v)"
    and "\<And>x. x \<in> snd ` set (varsMap v) \<Longrightarrow> isDefined x"
    and "\<And>x. x \<in> snd ` set (defaultsMap v) \<Longrightarrow> isDefined x"
    and "r < length h"
proof -
  have "r < length h" "h ! r = VarScope v" using assms(2) by (auto simp: slice_get_Some_iff)
  then have *: "obj_wf (length h) r (VarScope v)" using assms(1) by (metis heap_wf_def)
  then show "\<And>p. parentScope v = Some p \<Longrightarrow> p < r"
    and "\<And>s. s \<in> snd ` set (subScopes v) \<Longrightarrow> s < length h"
    and "go_map (varsMap v)" "go_map (defaultsMap v)" "go_map (subScopes v)"
    and "\<And>x. x \<in> snd ` set (varsMap v) \<Longrightarrow> isDefined x"
    and "\<And>x. x \<in> snd ` set (defaultsMap v) \<Longrightarrow> isDefined x"
    by (auto simp: obj_wf_def)
  show "s < length h" if "map_of (subScopes v) k = Some s" for k s
  proof -
    have "s \<in> snd ` set (subScopes v)" using map_of_SomeD [OF that] by force
    then show ?thesis using * by (auto simp: obj_wf_def)
  qed
  show "r < length h" by fact
qed

lemma heap_wf_filterD:
  assumes "heap_wf h" and "slice_get h r = Some (VarFilter t)"
  shows "t < r"
proof -
  have "obj_wf (length h) r (VarFilter t)"
    using assms by (metis heap_wf_def slice_get_Some_iff)
  then show ?thesis by (simp add: obj_wf_def)
qed

lemma scope_of_wf:
  assumes "heap_wf h" and "r < length h"
  obtains t v where "scope_of h r = Some t" and "t \<le> r" and "h ! t = VarScope v"
proof -
  have "\<exists>t v. scope_of h r = Some t \<and> t \<le> r \<and> h ! t = VarScope v"
    using assms
  proof (induction r rule: less_induct)
    case (less r)
    show ?case
    proof (cases "h ! r")
      case (VarScope v)
      then show ?thesis using less.prems by (auto simp: scope_of.simps [of h r] slice_get_def)
    next
      case (VarFilter t)
      then have "slice_get h r = Some (VarFilter t)" using less.prems by (simp add: slice_get_def)
      moreover from this have "t < r" using less.prems(1) by (rule heap_wf_filterD [rotated])
      ultimately show ?thesis
        using less.IH [of t] less.prems by (auto simp: scope_of.simps [of h r])
    qed
  qed
  then show thesis using that by blast
qed

lemma scope_of_scope [simp]: "slice_get h r = Some (VarScope v) \<Longrightarrow> scope_of h r = Some r"
  by (simp add: scope_of.simps)

lemma length_upd_scope [simp]: "length (upd_scope h r f) = length h"
  by (simp add: upd_scope_def split: option.split var_obj.split)

lemma upd_scope_wf:
  assumes "heap_wf h"
    and "\<And>t v. obj_wf (length h) t (VarScope v) \<Longrightarrow> obj_wf (length h) t (VarScope (f v))"
  shows "heap_wf (upd_scope h r f)"
proof -
  have "heap_wf (h[t := VarScope (f v)])" if "h ! t = VarScope v" for t v
    using assms that unfolding heap_wf_def
    by (cases "t < length h") (auto simp: nth_list_update list_update_beyond)
  then show ?thesis using assms(1) by (simp add: upd_scope_def split: option.split var_obj.split)
qed

lemma slice_get_upd_scope:
  assumes "scope_of h r = Some t" and "slice_get h t = Some (VarScope v)"
  shows "slice_get (upd_scope h r f) t' =
    (if t' = t then Some (VarScope (f v)) else slice_get h t')"
  using assms by (auto simp: upd_scope_def slice_get_def split: var_obj.split if_splits)

lemma newVariables_wf:
  assumes "heap_wf h" and "\<And>p. parent = Some p \<Longrightarrow> p < length h"
  shows "heap_wf (fst (newVariables h parent))"
    and "snd (newVariables h parent) = length h"
    and "length (fst (newVariables h parent)) = Suc (length h)"
  using assms
  by (auto simp: newVariables_def empty_scope_def obj_wf_def intro!: heap_wf_alloc split: option.split)

lemma NewScopeFilter_wf:
  "heap_wf h \<Longrightarrow> t < length h \<Longrightarrow> heap_wf (fst (NewScopeFilter h t))"
  by (auto simp: NewScopeFilter_def obj_wf_def intro!: heap_wf_alloc)

lemma SetVar_wf [simp]: "heap_wf h \<Longrightarrow> heap_wf (SetVar h r name x)"
  unfolding SetVar_def
  by (rule upd_scope_wf) (auto simp: obj_wf_def dest!: snd_set_updateD [OF imageI])

lemma SetDefaultVar_wf [simp]: "heap_wf h \<Longrightarrow> heap_wf (SetDefaultVar h r name x)"
  unfolding SetDefaultVar_def
  by (rule upd_scope_wf) (auto simp: obj_wf_def dest!: snd_set_updateD [OF imageI])

lemma SetSubScope_wf: "heap_wf h \<Longrightarrow> s < length h \<Longrightarrow> heap_wf (SetSubScope h r name s)"
  unfolding SetSubScope_def
  by (rule upd_scope_wf) (fastforce simp: obj_wf_def dest!: snd_set_updateD [OF imageI])+

lemma length_SetVar [simp]: "length (SetVar h r name x) = length h"
  by (simp add: SetVar_def)

lemma length_SetSubScope [simp]: "length (SetSubScope h r name s) = length h"
  by (simp add: SetSubScope_def)

text \<open>
  \<open>GetSubScope\<close> keeps the heap well formed, only adds objects, leaves every object from the
  asking scope's reference upwards as it was (but for the scope itself), and registers the sub
  scope it returns.
\<close>

lemma GetSubScope_scope:
  assumes "slice_get h r = Some (VarScope v)"
    and "(case parentScope v of None \<Rightarrow> (h, None)
          | Some p \<Rightarrow> if p < r then (let (h', s) = GetSubScope h p name in (h', Some s)) else (h, None))
         = (h1, ps)"
    and "slice_get h1 r = Some (VarScope v1)"
  shows "GetSubScope h r name =
    (case map_of (subScopes v1) name of Some s \<Rightarrow> (h1, s)
     | None \<Rightarrow> (SetSubScope (h1 @ [VarScope (empty_scope ps)]) r name (length h1), length h1))"
  using assms
  by (subst GetSubScope.simps) (simp add: newVariables_def split: option.split)

lemma GetSubScope_inv:
  assumes "heap_wf h" and "r < length h" and "GetSubScope h r name = (h', s)"
  shows "heap_wf h' \<and> length h \<le> length h' \<and> s < length h' \<and>
    (\<forall>t>r. t < length h \<longrightarrow> slice_get h' t = slice_get h t) \<and>
    (\<exists>t v. scope_of h' r = Some t \<and> slice_get h' t = Some (VarScope v) \<and>
       map_of (subScopes v) name = Some s)"
  using assms
proof (induction r arbitrary: h' s rule: less_induct)
  case (less r)
  show ?case
  proof (cases "h ! r")
    case (VarFilter t)
    then have sl: "slice_get h r = Some (VarFilter t)"
      using less.prems(2) by (simp add: slice_get_def)
    then have lt: "t < r" using less.prems(1) by (rule heap_wf_filterD [rotated])
    then have *: "GetSubScope h t name = (h', s)"
      using less.prems(3) sl by (simp add: GetSubScope.simps [of h r])
    have IH: "heap_wf h' \<and> length h \<le> length h' \<and> s < length h' \<and>
      (\<forall>u>t. u < length h \<longrightarrow> slice_get h' u = slice_get h u) \<and>
      (\<exists>u v. scope_of h' t = Some u \<and> slice_get h' u = Some (VarScope v) \<and>
         map_of (subScopes v) name = Some s)"
      using less.IH [OF lt less.prems(1) _ *] lt less.prems(2) by simp
    then have "slice_get h' r = Some (VarFilter t)" using lt less.prems(2) sl by simp
    then have "scope_of h' r = scope_of h' t" using lt by (simp add: scope_of.simps [of h' r])
    then show ?thesis using IH lt by auto
  next
    case (VarScope v)
    then have sl: "slice_get h r = Some (VarScope v)"
      using less.prems(2) by (simp add: slice_get_def)
    obtain h1 ps where par: "(case parentScope v of None \<Rightarrow> (h, None)
          | Some p \<Rightarrow> if p < r then (let (h', s) = GetSubScope h p name in (h', Some s)) else (h, None))
         = (h1, ps)" by (meson surj_pair)
    have h1: "heap_wf h1 \<and> length h \<le> length h1 \<and> (\<forall>q. ps = Some q \<longrightarrow> q < length h1) \<and>
      (\<forall>t\<ge>r. t < length h \<longrightarrow> slice_get h1 t = slice_get h t)"
    proof (cases "parentScope v")
      case None
      then show ?thesis using par less.prems by auto
    next
      case (Some p)
      then have pr: "p < r" using heap_wf_scopeD(1) [OF less.prems(1) sl] by simp
      obtain h2 q where g: "GetSubScope h p name = (h2, q)" by (meson surj_pair)
      then have "h1 = h2" "ps = Some q" using par Some pr by auto
      then show ?thesis using less.IH [OF pr less.prems(1) _ g] pr less.prems(2) by auto
    qed
    then have sl1: "slice_get h1 r = Some (VarScope v)" using sl less.prems(2) by simp
    note eq = GetSubScope_scope [OF sl par sl1]
    show ?thesis
    proof (cases "map_of (subScopes v) name")
      case (Some q)
      then have "h' = h1" "s = q" using eq less.prems(3) by auto
      then show ?thesis
        using h1 sl1 Some heap_wf_scopeD(2) [of h1 r v name q] scope_of_scope [OF sl1] by auto
    next
      case None
      let ?h2 = "h1 @ [VarScope (empty_scope ps)]"
      have h': "h' = SetSubScope ?h2 r name (length h1)" "s = length h1"
        using eq None less.prems(3) by auto
      have wf2: "heap_wf ?h2"
        using newVariables_wf(1) [of h1 ps] h1 by (simp add: newVariables_def)
      have rl: "r < length h1" using h1 less.prems(2) by simp
      then have sl2: "slice_get ?h2 r = Some (VarScope v)" using sl1 by simp
      have sl': "slice_get h' t = (if t = r
          then Some (VarScope (v\<lparr>subScopes := AList.update name (length h1) (subScopes v)\<rparr>))
          else slice_get ?h2 t)" for t
        unfolding h' SetSubScope_def
        by (rule slice_get_upd_scope [OF scope_of_scope [OF sl2] sl2])
      have "heap_wf h'" unfolding h' by (rule SetSubScope_wf [OF wf2]) simp
      moreover have "slice_get h' t = slice_get h t" if "r < t" "t < length h" for t
        using that h1 by (simp add: sl')
      moreover have "scope_of h' r = Some r" by (rule scope_of_scope) (simp add: sl')
      ultimately show ?thesis using h1 sl' h' by auto
    qed
  qed
qed

text \<open>
  Once a sub scope exists along the whole parent chain, asking again changes nothing, and the
  answer depends only on the chain.
\<close>

lemma GetSubScope_settled_frame:
  assumes "heap_wf h" and "r < length h" and "GetSubScope h r name = (h, s)"
    and "heap_wf k" and "\<And>t. t \<le> r \<Longrightarrow> slice_get k t = slice_get h t"
  shows "GetSubScope k r name = (k, s)"
  using assms(2,3,5)
proof (induction r arbitrary: s rule: less_induct)
  case (less r)
  have kr: "slice_get k r = slice_get h r" using less.prems(3) by simp
  show ?case
  proof (cases "h ! r")
    case (VarFilter t)
    then have sl: "slice_get h r = Some (VarFilter t)" using less.prems(1) by (simp add: slice_get_def)
    then have lt: "t < r" using assms(1) by (rule heap_wf_filterD [rotated])
    then have "GetSubScope h t name = (h, s)"
      using less.prems(2) sl by (simp add: GetSubScope.simps [of h r])
    then have "GetSubScope k t name = (k, s)" using less.IH [OF lt] lt less.prems by simp
    then show ?thesis using sl kr lt by (simp add: GetSubScope.simps [of k r])
  next
    case (VarScope v)
    then have sl: "slice_get h r = Some (VarScope v)" using less.prems(1) by (simp add: slice_get_def)
    obtain h1 ps where par: "(case parentScope v of None \<Rightarrow> (h, None)
          | Some p \<Rightarrow> if p < r then (let (h', s) = GetSubScope h p name in (h', Some s)) else (h, None))
         = (h1, ps)" by (meson surj_pair)
    have h1: "length h \<le> length h1 \<and> slice_get h1 r = Some (VarScope v)"
    proof (cases "parentScope v")
      case None
      then show ?thesis using par sl by auto
    next
      case (Some p)
      then have pr: "p < r" using heap_wf_scopeD(1) [OF assms(1) sl] by simp
      obtain h2 q where g: "GetSubScope h p name = (h2, q)" by (meson surj_pair)
      then have "h1 = h2" using par Some pr by auto
      then show ?thesis using GetSubScope_inv [OF assms(1) _ g] pr less.prems(1) sl by auto
    qed
    note eq = GetSubScope_scope [OF sl par conjunct2 [OF h1]]
    have sub: "map_of (subScopes v) name = Some s" and hh: "h1 = h"
    proof -
      have "map_of (subScopes v) name \<noteq> None"
      proof
        assume "map_of (subScopes v) name = None"
        then have "h = SetSubScope (h1 @ [VarScope (empty_scope ps)]) r name (length h1)"
          using eq less.prems(2) by simp
        then have "length h = Suc (length h1)"
          by (metis length_SetSubScope length_append_singleton)
        then show False using h1 by simp
      qed
      then show "map_of (subScopes v) name = Some s" "h1 = h" using eq less.prems(2) by auto
    qed
    have slk: "slice_get k r = Some (VarScope v)" using sl kr by simp
    have "(case parentScope v of None \<Rightarrow> (k, None)
          | Some p \<Rightarrow> if p < r then (let (h', s) = GetSubScope k p name in (h', Some s)) else (k, None))
         = (k, ps)"
    proof (cases "parentScope v")
      case (Some p)
      then have pr: "p < r" using heap_wf_scopeD(1) [OF assms(1) sl] by simp
      obtain q where "GetSubScope h p name = (h, q)" "ps = Some q"
        using par Some pr hh by (auto split: prod.splits)
      then show ?thesis using less.IH [OF pr, of q] pr less.prems Some by simp
    qed (use par in auto)
    then show ?thesis using GetSubScope_scope [OF slk _ slk] sub by simp
  qed
qed

lemma GetSubScope_scope_cases:
  assumes "heap_wf h" and "slice_get h r = Some (VarScope v)" and "GetSubScope h r name = (h', s)"
  obtains h1 ps v' where
    "(case parentScope v of None \<Rightarrow> h1 = h \<and> ps = None
      | Some p \<Rightarrow> p < r \<and> (\<exists>q. GetSubScope h p name = (h1, q) \<and> ps = Some q))"
    and "heap_wf h1" and "r < length h1" and "\<forall>t<r. slice_get h' t = slice_get h1 t"
    and "slice_get h' r = Some (VarScope v')" and "parentScope v' = parentScope v"
    and "map_of (subScopes v') name = Some s"
proof -
  have rl: "r < length h" using assms(2) by (simp add: slice_get_Some_iff)
  obtain h1 ps where par: "(case parentScope v of None \<Rightarrow> (h, None)
        | Some p \<Rightarrow> if p < r then (let (h', s) = GetSubScope h p name in (h', Some s)) else (h, None))
       = (h1, ps)" by (meson surj_pair)
  have step: "case parentScope v of None \<Rightarrow> h1 = h \<and> ps = None
      | Some p \<Rightarrow> p < r \<and> (\<exists>q. GetSubScope h p name = (h1, q) \<and> ps = Some q)"
    using par heap_wf_scopeD(1) [OF assms(1,2)] by (auto split: option.splits prod.splits)
  have h1: "heap_wf h1 \<and> r < length h1 \<and> slice_get h1 r = Some (VarScope v)"
  proof (cases "parentScope v")
    case (Some p)
    then obtain q where "p < r" "GetSubScope h p name = (h1, q)" using step by auto
    then show ?thesis using GetSubScope_inv [OF assms(1) _ \<open>GetSubScope h p name = (h1, q)\<close>] rl assms(2)
      by auto
  qed (use step assms rl in auto)
  note eq = GetSubScope_scope [OF assms(2) par conjunct2 [OF conjunct2 [OF h1]]]
  show thesis
  proof (cases "map_of (subScopes v) name")
    case (Some q)
    then show thesis using that [OF step, of v] h1 eq assms(3) by auto
  next
    case None
    let ?h2 = "h1 @ [VarScope (empty_scope ps)]"
    have sl2: "slice_get ?h2 r = Some (VarScope v)" using h1 by simp
    have h': "h' = SetSubScope ?h2 r name (length h1)" "s = length h1" using eq None assms(3) by auto
    have "slice_get h' t = (if t = r
        then Some (VarScope (v\<lparr>subScopes := AList.update name (length h1) (subScopes v)\<rparr>))
        else slice_get ?h2 t)" for t
      unfolding h' SetSubScope_def by (rule slice_get_upd_scope [OF scope_of_scope [OF sl2] sl2])
    then show thesis using that [OF step] h1 h' by auto
  qed
qed

lemma GetSubScope_settled:
  assumes "heap_wf h" and "r < length h" and "GetSubScope h r name = (h', s)"
  shows "GetSubScope h' r name = (h', s)"
  using assms
proof (induction r arbitrary: h' s rule: less_induct)
  case (less r)
  have wf': "heap_wf h'" using GetSubScope_inv [OF less.prems] by simp
  show ?case
  proof (cases "h ! r")
    case (VarFilter t)
    then have sl: "slice_get h r = Some (VarFilter t)" using less.prems(2) by (simp add: slice_get_def)
    then have lt: "t < r" using less.prems(1) by (rule heap_wf_filterD [rotated])
    then have *: "GetSubScope h t name = (h', s)"
      using less.prems(3) sl by (simp add: GetSubScope.simps [of h r])
    then have "slice_get h' r = Some (VarFilter t)"
      using GetSubScope_inv [OF less.prems(1) _ *] lt less.prems(2) sl by auto
    then show ?thesis
      using less.IH [OF lt less.prems(1) _ *] lt less.prems(2) by (simp add: GetSubScope.simps [of h' r])
  next
    case (VarScope v)
    then have sl: "slice_get h r = Some (VarScope v)" using less.prems(2) by (simp add: slice_get_def)
    obtain h1 ps v' where step: "case parentScope v of None \<Rightarrow> h1 = h \<and> ps = None
        | Some p \<Rightarrow> p < r \<and> (\<exists>q. GetSubScope h p name = (h1, q) \<and> ps = Some q)"
      and h1: "heap_wf h1" "r < length h1" "\<forall>t<r. slice_get h' t = slice_get h1 t"
      and sl': "slice_get h' r = Some (VarScope v')" and ps': "parentScope v' = parentScope v"
      and sub: "map_of (subScopes v') name = Some s"
      by (rule GetSubScope_scope_cases [OF less.prems(1) sl less.prems(3)])
    have "(case parentScope v' of None \<Rightarrow> (h', None)
        | Some p \<Rightarrow> if p < r then (let (h'', s) = GetSubScope h' p name in (h'', Some s)) else (h', None))
       = (h', ps)"
    proof (cases "parentScope v")
      case (Some p)
      then obtain q where pq: "p < r" "GetSubScope h p name = (h1, q)" "ps = Some q" using step by auto
      have "p < length h" using pq(1) less.prems(2) by simp
      then have settled: "GetSubScope h1 p name = (h1, q)"
        by (rule less.IH [OF pq(1) less.prems(1) _ pq(2)])
      have "GetSubScope h' p name = (h', q)"
        by (rule GetSubScope_settled_frame [OF h1(1) _ settled wf']) (use pq(1) h1 in simp_all)
      then show ?thesis using Some ps' pq by simp
    qed (use step ps' in simp)
    then show ?thesis using GetSubScope_scope [OF sl' _ sl'] sub by simp
  qed
qed

section \<open>Flattening\<close>

lemma addVars_lookup:
  "go_map xs \<Longrightarrow> map_of (addVars xs acc) k =
    (case map_of acc k of Some y \<Rightarrow> Some y | None \<Rightarrow> map_option varVal (map_of xs k))"
proof (induction xs arbitrary: acc)
  case Nil
  then show ?case by (simp split: option.split)
next
  case (Cons x xs)
  obtain k' vd where x: "x = (k', vd)" by (cases x)
  have "map_of xs k' = None" and "go_map xs"
    using Cons.prems x by (auto simp: go_map_def map_of_eq_None_iff)
  then show ?case
    using Cons.IH x by (auto simp: map_of_append map_add_def split: option.splits)
qed

text \<open>A sub scope is flattened only where its key is not present yet.\<close>

lemma addSubScopes_lookup:
  assumes "go_map xs" and "addSubScopes get xs acc = Some m"
  shows "(case map_of acc k of
      Some y \<Rightarrow> map_of m k = Some y
    | None \<Rightarrow>
        (case map_of xs k of
           None \<Rightarrow> map_of m k = None
         | Some s \<Rightarrow> (\<exists>y. get s = Some y \<and> map_of m k = Some (VMap y))))"
  using assms
proof (induction xs arbitrary: acc)
  case Nil
  then show ?case by (simp split: option.split)
next
  case (Cons x xs)
  obtain k' s where x: "x = (k', s)" by (cases x)
  have fresh: "map_of xs k' = None" and gm: "go_map xs"
    using Cons.prems(1) x by (auto simp: go_map_def map_of_eq_None_iff)
  show ?case
  proof (cases "map_of acc k'")
    case (Some y)
    then show ?thesis using Cons.IH [OF gm, of acc] Cons.prems(2) x by (auto split: option.splits)
  next
    case None
    then obtain y where y: "get s = Some y" "addSubScopes get xs (acc @ [(k', VMap y)]) = Some m"
      using Cons.prems(2) x by (auto split: option.splits)
    show ?thesis using Cons.IH [OF gm y(2)] None x y(1) fresh
      by (auto simp: map_of_append map_add_def split: option.splits if_splits)
  qed
qed

lemma addSubScopes_mono:
  assumes "addSubScopes get xs acc = Some m"
    and "\<And>s y. s \<in> snd ` set xs \<Longrightarrow> get s = Some y \<Longrightarrow> get' s = Some y"
  shows "addSubScopes get' xs acc = Some m"
  using assms
  by (induction xs arbitrary: acc) (auto split: option.splits if_splits)

lemma addSubScopes_returns:
  assumes "\<And>s. s \<in> snd ` set xs \<Longrightarrow> \<exists>y. get s = Some y"
  shows "\<exists>m. addSubScopes get xs acc = Some m"
  using assms by (induction xs arbitrary: acc) (fastforce split: option.splits)+

lemma GetVarsMap_scope_iff:
  assumes "slice_get h r = Some (VarScope v)"
  shows "GetVarsMap (Suc n) h r acc sk = Some m \<longleftrightarrow>
    (\<exists>m1 m3. addSubScopes (\<lambda>s. GetVarsMap n h s [] sk) (subScopes v) acc = Some m1 \<and>
      (if sk \<or> parentScope v = None then m3 = addVars (varsMap v) m1
       else GetVarsMap n h (the (parentScope v)) (addVars (varsMap v) m1) False = Some m3) \<and>
      m = addVars (defaultsMap v) m3)"
  using assms by (auto simp: Let_def split: option.splits)

lemma GetVarsMap_filter:
  "slice_get h r = Some (VarFilter t) \<Longrightarrow> GetVarsMap (Suc n) h r acc sk = GetVarsMap n h t acc True"
  by simp

declare GetVarsMap.simps(2) [simp del]

text \<open>More depth never changes a flattening that returned.\<close>

lemma GetVarsMap_Suc:
  "GetVarsMap n h r acc sk = Some m \<Longrightarrow> GetVarsMap (Suc n) h r acc sk = Some m"
proof (induction n arbitrary: r acc sk m)
  case 0
  then show ?case by simp
next
  case (Suc n)
  from Suc.prems obtain ob where ob: "slice_get h r = Some ob"
    by (auto simp: GetVarsMap.simps(2) split: option.splits)
  show ?case
  proof (cases ob)
    case (VarFilter t)
    then show ?thesis using Suc ob by (simp add: GetVarsMap_filter)
  next
    case (VarScope v)
    note iff = GetVarsMap_scope_iff [OF ob [unfolded VarScope]]
    obtain m1 m3 where m1: "addSubScopes (\<lambda>s. GetVarsMap n h s [] sk) (subScopes v) acc = Some m1"
      and m3: "if sk \<or> parentScope v = None then m3 = addVars (varsMap v) m1
        else GetVarsMap n h (the (parentScope v)) (addVars (varsMap v) m1) False = Some m3"
      and m: "m = addVars (defaultsMap v) m3"
      using iff [THEN iffD1, OF Suc.prems] by blast
    have "addSubScopes (\<lambda>s. GetVarsMap (Suc n) h s [] sk) (subScopes v) acc = Some m1"
      by (rule addSubScopes_mono [OF m1]) (rule Suc.IH)
    moreover have "if sk \<or> parentScope v = None then m3 = addVars (varsMap v) m1
        else GetVarsMap (Suc n) h (the (parentScope v)) (addVars (varsMap v) m1) False = Some m3"
      using m3 Suc.IH by (auto split: if_splits)
    ultimately show ?thesis using m iff by blast
  qed
qed

lemma GetVarsMap_mono:
  "GetVarsMap n h r acc sk = Some m \<Longrightarrow> n \<le> k \<Longrightarrow> GetVarsMap k h r acc sk = Some m"
  by (induction k) (auto simp: le_Suc_eq intro: GetVarsMap_Suc)

lemma GetVarsMap_unique:
  assumes "GetVarsMap n h r acc sk = Some m" and "GetVarsMap k h r acc sk = Some m'"
  shows "m = m'"
  using GetVarsMap_mono [OF assms(1), of "max n k"] GetVarsMap_mono [OF assms(2), of "max n k"] by simp

text \<open>
  A ranking of the calls of \<open>GetVarsMap\<close>: each call of the flattening of \<open>r\<close>, with or without
  its parents, has a smaller rank. It exists exactly when no scope is reached again through its
  sub scopes and parents.
\<close>

definition scope_rank :: "var_heap \<Rightarrow> (vref \<Rightarrow> bool \<Rightarrow> nat) \<Rightarrow> bool" where
  "scope_rank h rk \<longleftrightarrow>
     (\<forall>r<length h. \<forall>sk.
        (case h ! r of
           VarFilter t \<Rightarrow> rk t True < rk r sk
         | VarScope v \<Rightarrow>
             (\<forall>s\<in>snd ` set (subScopes v). rk s sk < rk r sk) \<and>
             (case parentScope v of None \<Rightarrow> True | Some p \<Rightarrow> sk \<or> rk p False < rk r sk)))"

lemma scope_rankD:
  assumes "scope_rank h rk" and "r < length h"
  shows "h ! r = VarFilter t \<Longrightarrow> rk t True < rk r sk"
    and "h ! r = VarScope v \<Longrightarrow> s \<in> snd ` set (subScopes v) \<Longrightarrow> rk s sk < rk r sk"
    and "h ! r = VarScope v \<Longrightarrow> parentScope v = Some p \<Longrightarrow> \<not> sk \<Longrightarrow> rk p False < rk r sk"
proof -
  have "case h ! r of
      VarFilter t \<Rightarrow> rk t True < rk r sk
    | VarScope v \<Rightarrow>
        (\<forall>s\<in>snd ` set (subScopes v). rk s sk < rk r sk) \<and>
        (case parentScope v of None \<Rightarrow> True | Some p \<Rightarrow> sk \<or> rk p False < rk r sk)"
    using assms unfolding scope_rank_def by blast
  then show "h ! r = VarFilter t \<Longrightarrow> rk t True < rk r sk"
    and "h ! r = VarScope v \<Longrightarrow> s \<in> snd ` set (subScopes v) \<Longrightarrow> rk s sk < rk r sk"
    and "h ! r = VarScope v \<Longrightarrow> parentScope v = Some p \<Longrightarrow> \<not> sk \<Longrightarrow> rk p False < rk r sk"
    by auto
qed

text \<open>A flattening whose calls are ranked returns within a recursion depth of its rank.\<close>

lemma GetVarsMap_ranked:
  assumes "heap_wf h" and "scope_rank h rk" and "r < length h" and "rk r sk < n"
  shows "\<exists>m. GetVarsMap n h r acc sk = Some m"
  using assms(3,4)
proof (induction n arbitrary: r acc sk)
  case 0
  then show ?case by simp
next
  case (Suc n)
  show ?case
  proof (cases "h ! r")
    case (VarFilter t)
    then have sl: "slice_get h r = Some (VarFilter t)" using Suc.prems by (simp add: slice_get_def)
    have "t < length h" using heap_wf_filterD [OF assms(1) sl] Suc.prems by simp
    moreover have "rk t True < n"
      using scope_rankD(1) [OF assms(2) Suc.prems(1) VarFilter, of sk] Suc.prems(2) by simp
    ultimately have "\<exists>m. GetVarsMap n h t acc True = Some m" by (rule Suc.IH)
    then show ?thesis using sl by (simp add: GetVarsMap_filter)
  next
    case (VarScope v)
    then have sl: "slice_get h r = Some (VarScope v)" using Suc.prems by (simp add: slice_get_def)
    have sub: "\<exists>y. GetVarsMap n h s [] sk = Some y" if "s \<in> snd ` set (subScopes v)" for s
    proof (rule Suc.IH)
      show "s < length h" using heap_wf_scopeD(3) [OF assms(1) sl that] .
      show "rk s sk < n"
        using scope_rankD(2) [OF assms(2) Suc.prems(1) VarScope that, of sk] Suc.prems(2) by simp
    qed
    obtain m1 where m1: "addSubScopes (\<lambda>s. GetVarsMap n h s [] sk) (subScopes v) acc = Some m1"
      using addSubScopes_returns [of "subScopes v" "\<lambda>s. GetVarsMap n h s [] sk", OF sub] by blast
    have "\<exists>m3. (if sk \<or> parentScope v = None then m3 = addVars (varsMap v) m1
        else GetVarsMap n h (the (parentScope v)) (addVars (varsMap v) m1) False = Some m3)"
    proof (cases "sk \<or> parentScope v = None")
      case False
      then obtain p where p: "parentScope v = Some p" "\<not> sk" by auto
      have "p < length h" using heap_wf_scopeD(1) [OF assms(1) sl p(1)] Suc.prems(1) by simp
      moreover have "rk p False < n"
        using scope_rankD(3) [OF assms(2) Suc.prems(1) VarScope p] Suc.prems(2) by simp
      ultimately obtain m3
        where "GetVarsMap n h p (addVars (varsMap v) m1) False = Some m3" using Suc.IH by blast
      then show ?thesis using p by simp
    qed auto
    then obtain m3 where m3: "if sk \<or> parentScope v = None then m3 = addVars (varsMap v) m1
        else GetVarsMap n h (the (parentScope v)) (addVars (varsMap v) m1) False = Some m3" ..
    have "GetVarsMap (Suc n) h r acc sk = Some (addVars (defaultsMap v) m3)"
      unfolding GetVarsMap_scope_iff [OF sl]
      by (intro exI [of _ m1] exI [of _ m3] conjI m1 m3 refl)
    then show ?thesis ..
  qed
qed

text \<open>
  The scopes the coordinator builds: a root scope 0, its \<open>tasks\<close> sub scope 1, the status scope 2
  of a task with an id, its outputs 3, and a child scope 4 below the root that the task publishes
  in its outputs, either through the filter 5 or directly.
\<close>

definition child_scope_heap :: "bool \<Rightarrow> var_heap" where
  "child_scope_heap filtered =
     (let (h0, root) = NewVariables [] None;
          (h1, tasks) = GetSubScope h0 root ''tasks'';
          (h2, st) = NewVariables h1 None;
          (h3, out) = NewVariables h2 None;
          h4 = SetSubScope h3 st ''outputs'' out;
          h5 = SetSubScope h4 tasks ''id'' st;
          (h6, child) = NewScope h5 root;
          h7 = SetVar h6 child ''scopeOwner'' (VUint64 1);
          (h8, flt) = NewScopeFilter h7 child
      in SetSubScope h8 out ''childScope'' (if filtered then flt else child))"

lemma child_scope_heap_eval:
  "child_scope_heap filtered =
    [VarScope \<lparr>parentScope = None, varsMap = [], defaultsMap = [], subScopes = [(''tasks'', 1)]\<rparr>,
     VarScope \<lparr>parentScope = None, varsMap = [], defaultsMap = [], subScopes = [(''id'', 2)]\<rparr>,
     VarScope \<lparr>parentScope = None, varsMap = [], defaultsMap = [], subScopes = [(''outputs'', 3)]\<rparr>,
     VarScope \<lparr>parentScope = None, varsMap = [], defaultsMap = [],
       subScopes = [(''childScope'', if filtered then 5 else 4)]\<rparr>,
     VarScope \<lparr>parentScope = Some 0,
       varsMap = [(''scopeOwner'', \<lparr>isDefined = True, varVal = VUint64 1\<rparr>)],
       defaultsMap = [], subScopes = []\<rparr>,
     VarFilter 4]"
  by (simp add: child_scope_heap_def NewVariables_def newVariables_def empty_scope_def
      GetSubScope.simps SetSubScope_def SetVar_def NewScope_def NewScopeFilter_def upd_scope_def
      scope_of.simps slice_get_def)

text \<open>The filter is what makes the published child scope readable: without it the flattening of
  every scope on the cycle never returns, at any recursion depth.
\<close>

theorem unfiltered_child_scope_diverges:
  "r \<le> 4 \<Longrightarrow> GetVarsMap n (child_scope_heap False) r [] False = None"
proof -
  have "r \<le> 4 \<Longrightarrow> acc \<in> {[], [(''scopeOwner'', VUint64 1)]} \<Longrightarrow>
    GetVarsMap n (child_scope_heap False) r acc False = None" for acc
  proof (induction n arbitrary: r acc)
    case (Suc n)
    then have "r = 0 \<or> r = 1 \<or> r = 2 \<or> r = 3 \<or> r = 4" by auto
    moreover have "GetVarsMap n (child_scope_heap False) q a False = None"
      if "q \<le> 4" "a \<in> {[], [(''scopeOwner'', VUint64 1)]}" for q a
      by (rule Suc.IH) (use that in auto)
    ultimately show ?case using Suc.prems(2)
      by (auto simp: GetVarsMap.simps(2) child_scope_heap_eval slice_get_def Let_def)
  qed simp
  then show "r \<le> 4 \<Longrightarrow> GetVarsMap n (child_scope_heap False) r [] False = None" by simp
qed

theorem unfiltered_child_scope_diverges_witness:
  "(4::nat) \<le> 4 \<and> GetVarsMap 1000 (child_scope_heap False) 4 [] False = None"
  using unfiltered_child_scope_diverges [of 4 1000] by simp

section \<open>Lookup\<close>

text \<open>Scopes with a parent have no defaults of their own, and parents are not filters.\<close>

definition defaults_at_root :: "var_heap \<Rightarrow> bool" where
  "defaults_at_root h \<longleftrightarrow>
     (\<forall>r v p. slice_get h r = Some (VarScope v) \<and> parentScope v = Some p \<longrightarrow>
        defaultsMap v = [] \<and> (\<exists>w. slice_get h p = Some (VarScope w)))"

lemma vars_get_defined:
  assumes "\<And>x. x \<in> snd ` set m \<Longrightarrow> isDefined x"
  shows "isDefined (vars_get m k) \<longleftrightarrow> map_of m k \<noteq> None"
    and "map_of m k = Some x \<Longrightarrow> vars_get m k = x"
proof -
  have "isDefined x" if "map_of m k = Some x" for x
    by (rule assms) (use map_of_SomeD [OF that] in force)
  then show "isDefined (vars_get m k) \<longleftrightarrow> map_of m k \<noteq> None"
    by (auto simp: vars_get_def split: option.splits)
  show "map_of m k = Some x \<Longrightarrow> vars_get m k = x" by (simp add: vars_get_def)
qed

lemma GetVarsMap_keeps:
  assumes "heap_wf h" and "GetVarsMap n h r acc sk = Some m" and "map_of acc k = Some y"
  shows "map_of m k = Some y"
  using assms(2,3)
proof (induction n arbitrary: r acc sk m)
  case 0
  then show ?case by simp
next
  case (Suc n)
  from Suc.prems(1) obtain ob where ob: "slice_get h r = Some ob"
    by (auto simp: GetVarsMap.simps(2) split: option.splits)
  show ?case
  proof (cases ob)
    case (VarFilter t)
    then show ?thesis using Suc.IH [of t acc True m] Suc.prems ob by (simp add: GetVarsMap_filter)
  next
    case (VarScope v)
    note sl = ob [unfolded VarScope]
    note maps = heap_wf_scopeD(4-6) [OF assms(1) sl]
    obtain m1 m3 where m1: "addSubScopes (\<lambda>s. GetVarsMap n h s [] sk) (subScopes v) acc = Some m1"
      and m3: "if sk \<or> parentScope v = None then m3 = addVars (varsMap v) m1
        else GetVarsMap n h (the (parentScope v)) (addVars (varsMap v) m1) False = Some m3"
      and m: "m = addVars (defaultsMap v) m3"
      using GetVarsMap_scope_iff [OF sl, THEN iffD1, OF Suc.prems(1)] by blast
    have k2: "map_of (addVars (varsMap v) m1) k = Some y"
      using addSubScopes_lookup [OF maps(3) m1, of k] addVars_lookup [OF maps(1), of m1 k] Suc.prems(2)
      by simp
    then have "map_of m3 k = Some y" using m3 Suc.IH by (auto split: if_splits)
    then show ?thesis using m addVars_lookup [OF maps(2), of m3 k] by simp
  qed
qed

lemma GetVarsMap_lookup:
  assumes wf: "heap_wf h" and dar: "defaults_at_root h"
    and "slice_get h r = Some (VarScope v)"
    and "GetVarsMap n h r acc False = Some m" and "LookupVar d h r k = Some (x, found)"
  shows "map_of m k =
    (case map_of acc k of Some y \<Rightarrow> Some y | None \<Rightarrow> if found then Some x else None)"
  using assms(3-)
proof (induction n arbitrary: r v acc m)
  case 0
  then show ?case by simp
next
  case (Suc n)
  note sl = Suc.prems(1)
  note maps = heap_wf_scopeD(4-6) [OF wf sl]
  obtain m1 m3 where m1: "addSubScopes (\<lambda>s. GetVarsMap n h s [] False) (subScopes v) acc = Some m1"
    and m3: "if parentScope v = None then m3 = addVars (varsMap v) m1
      else GetVarsMap n h (the (parentScope v)) (addVars (varsMap v) m1) False = Some m3"
    and m: "m = addVars (defaultsMap v) m3"
    using GetVarsMap_scope_iff [OF sl, THEN iffD1, OF Suc.prems(2)] by auto
  note L1 = addSubScopes_lookup [OF maps(3) m1, of k]
  note L2 = addVars_lookup [OF maps(1), of m1 k]
  note L3 = addVars_lookup [OF maps(2), of m3 k]
  note vd = vars_get_defined [where m = "varsMap v" and k = k, OF heap_wf_scopeD(7) [OF wf sl]]
  note dd = vars_get_defined [where m = "defaultsMap v" and k = k, OF heap_wf_scopeD(8) [OF wf sl]]
  note lk = Suc.prems(3) [unfolded LookupVar.simps [of d h r] sl]
  have own: "found \<and> x = y"
    if acc0: "map_of acc k = None" and y: "map_of (addVars (varsMap v) m1) k = Some y" for y
  proof (cases "map_of (subScopes v) k")
    case (Some s)
    then obtain z where "GetVarsMap n h s [] False = Some z" "y = VMap z"
      using L1 L2 acc0 y by auto
    moreover obtain z' where "GetVarsMap d h s [] False = Some z'" "x = VMap z'" "found"
      using lk Some by auto
    ultimately show ?thesis using GetVarsMap_unique by blast
  next
    case None
    then have "map_option varVal (map_of (varsMap v) k) = Some y" using L1 L2 acc0 y by simp
    then obtain vv where "map_of (varsMap v) k = Some vv" "y = varVal vv" by auto
    then show ?thesis using lk None vd by auto
  qed
  have other: "map_of acc k = None \<and> map_of (subScopes v) k = None \<and> \<not> isDefined (vars_get (varsMap v) k)"
    if "map_of (addVars (varsMap v) m1) k = None"
    using L1 L2 vd(1) that by (auto split: option.splits)
  have kept: "map_of (addVars (varsMap v) m1) k = Some y" if "map_of acc k = Some y" for y
    using L1 L2 that by simp
  show ?case
  proof (cases "map_of (addVars (varsMap v) m1) k")
    case (Some y)
    have "map_of m3 k = Some y"
      using m3 Some GetVarsMap_keeps [OF wf _ Some] by (auto split: if_splits)
    then have "map_of m k = Some y" using m L3 by simp
    then show ?thesis using own Some kept by (auto split: option.splits)
  next
    case None
    note oth = other [OF None]
    show ?thesis
    proof (cases "parentScope v")
      case (Some p)
      then obtain w where w: "slice_get h p = Some (VarScope w)" and nod: "defaultsMap v = []"
        using dar sl unfolding defaults_at_root_def by blast
      have g3: "GetVarsMap n h p (addVars (varsMap v) m1) False = Some m3" using m3 Some by simp
      have "LookupVar d h p k = Some (x, found)" using lk oth Some by (auto split: if_splits)
      then show ?thesis using Suc.IH [OF w g3] None oth m nod by simp
    next
      case parNone: None
      then show ?thesis using m m3 L3 None oth lk dd by (auto split: option.splits if_splits)
    qed
  qed
qed

text \<open>C12. Where defaults are set on root scopes only, \<open>LookupVar\<close> and the flattened map agree: a name
  is found by a lookup exactly if it is a key of the map, with the same value.
\<close>

theorem LookupVar_matches_GetVarsMap:
  assumes "heap_wf h" and "defaults_at_root h" and "slice_get h r = Some (VarScope v)"
    and "GetVarsMap n h r [] False = Some m" and "LookupVar d h r k = Some (x, found)"
  shows "map_of m k = (if found then Some x else None)"
  using GetVarsMap_lookup [OF assms] by simp

theorem LookupVar_matches_GetVarsMap_witness:
  "(let h = child_scope_heap True
    in map_of (the (GetVarsMap 7 h 4 [] False)) ''scopeOwner'' = Some (VUint64 1))"
proof -
  let ?h = "child_scope_heap True"
  let ?v = "\<lparr>parentScope = Some 0,
    varsMap = [(''scopeOwner'', \<lparr>isDefined = True, varVal = VUint64 1\<rparr>)],
    defaultsMap = [], subScopes = []\<rparr>"
  have wf: "heap_wf ?h"
    by (simp add: child_scope_heap_eval heap_wf_def obj_wf_def go_map_def All_less_Suc numeral_eq_Suc)
  have dar: "defaults_at_root ?h"
    by (auto simp: child_scope_heap_eval defaults_at_root_def slice_get_def nth_Cons'
        split: if_splits)
  have sl: "slice_get ?h 4 = Some (VarScope ?v)"
    by (simp add: child_scope_heap_eval slice_get_def)
  have gm: "GetVarsMap 7 ?h 4 [] False = Some (the (GetVarsMap 7 ?h 4 [] False))"
    by (simp add: child_scope_heap_eval numeral_eq_Suc GetVarsMap.simps(2) slice_get_def)
  have lk: "LookupVar 0 ?h 4 ''scopeOwner'' = Some (VUint64 1, True)"
    by (simp add: LookupVar.simps sl vars_get_def)
  show ?thesis using LookupVar_matches_GetVarsMap [OF wf dar sl gm lk] by simp
qed

text \<open>
  A default set on a scope that has a parent is in the flattened map, which queries read, but
  \<open>LookupVar\<close> does not find it: it asks the parent and returns the parent's answer.
\<close>

theorem default_below_parent_not_found:
  assumes "heap_wf h" and "slice_get h r = Some (VarScope v)" and "parentScope v = Some p"
    and "map_of (subScopes v) k = None" and "map_of (varsMap v) k = None"
    and "map_of (defaultsMap v) k = Some dv" and "LookupVar d h p k = Some (VNil, False)"
    and "GetVarsMap n h r [] False = Some m"
  shows "LookupVar d h r k = Some (VNil, False) \<and> (\<exists>y. map_of m k = Some y)"
proof
  have "p < r" using heap_wf_scopeD(1) [OF assms(1,2,3)] .
  then show "LookupVar d h r k = Some (VNil, False)"
    using assms by (simp add: LookupVar.simps [of d h r] vars_get_def)
  obtain n' where n: "n = Suc n'" using assms(8) by (cases n) auto
  obtain m3 where "m = addVars (defaultsMap v) m3"
    using GetVarsMap_scope_iff [OF assms(2), THEN iffD1, OF assms(8) [unfolded n]] by blast
  then show "\<exists>y. map_of m k = Some y"
    using addVars_lookup [OF heap_wf_scopeD(5) [OF assms(1,2)], of m3 k] assms(6)
    by (auto split: option.splits)
qed

definition external_test_heap :: var_heap where
  "external_test_heap =
     (let (h0, globalVars) = NewVariables [] None;
          (h1, testVars) = NewScope h0 globalVars
      in SetDefaultVar h1 testVars ''x'' (VInt 5))"

lemma external_test_heap_eval:
  "external_test_heap =
    [VarScope (empty_scope None),
     VarScope (empty_scope (Some 0)\<lparr>defaultsMap := [(''x'', \<lparr>isDefined = True, varVal = VInt 5\<rparr>)]\<rparr>)]"
  by (simp add: external_test_heap_def NewVariables_def newVariables_def empty_scope_def
      SetDefaultVar_def NewScope_def upd_scope_def scope_of.simps slice_get_def)

theorem default_below_parent_not_found_witness:
  "LookupVar 0 external_test_heap 1 ''x'' = Some (VNil, False) \<and>
   (\<exists>y. map_of (the (GetVarsMap 2 external_test_heap 1 [] False)) ''x'' = Some y)"
proof -
  let ?v = "empty_scope (Some 0)\<lparr>defaultsMap := [(''x'', \<lparr>isDefined = True, varVal = VInt 5\<rparr>)]\<rparr>"
  have wf: "heap_wf external_test_heap"
    by (simp add: external_test_heap_eval heap_wf_def obj_wf_def go_map_def All_less_Suc
        numeral_eq_Suc empty_scope_def)
  have sl: "slice_get external_test_heap 1 = Some (VarScope ?v)"
    by (simp add: external_test_heap_eval slice_get_def)
  have lk: "LookupVar 0 external_test_heap 0 ''x'' = Some (VNil, False)"
    by (simp add: LookupVar.simps external_test_heap_eval slice_get_def empty_scope_def vars_get_def)
  have gm: "GetVarsMap 2 external_test_heap 1 [] False =
      Some (the (GetVarsMap 2 external_test_heap 1 [] False))"
    by (simp add: external_test_heap_eval numeral_eq_Suc GetVarsMap.simps(2) slice_get_def empty_scope_def)
  have pr: "parentScope ?v = Some 0" "map_of (subScopes ?v) ''x'' = None"
    "map_of (varsMap ?v) ''x'' = None"
    "map_of (defaultsMap ?v) ''x'' = Some \<lparr>isDefined = True, varVal = VInt 5\<rparr>"
    by (simp_all add: empty_scope_def)
  show ?thesis using default_below_parent_not_found [OF wf sl pr lk gm] by simp
qed

section \<open>Assignment\<close>

text \<open>
  The contract of a scope as a store of variables: what its clients (the test, the registry, the
  tasks) rely on when they assign whole maps, one \<open>SetVar\<close> per key.
\<close>

locale var_store =
  fixes setv :: "'h \<Rightarrow> 'r \<Rightarrow> 'k \<Rightarrow> 'x \<Rightarrow> 'h"
    and own :: "'h \<Rightarrow> 'r \<Rightarrow> 'k \<Rightarrow> 'x option"
    and valid :: "'h \<Rightarrow> 'r \<Rightarrow> bool"
  assumes own_set: "valid h r \<Longrightarrow> own (setv h r k x) r k' = (if k' = k then Some x else own h r k')"
    and valid_set: "valid h r \<Longrightarrow> valid (setv h r k x) r"
begin

lemma valid_set_all: "valid h r \<Longrightarrow> valid (foldl (\<lambda>h (k, x). setv h r k x) h m) r"
  by (induction m arbitrary: h) (auto simp: valid_set)

lemma own_set_all:
  assumes "valid h r" and "go_map m"
  shows "own (foldl (\<lambda>h (k, x). setv h r k x) h m) r k =
    (case map_of m k of Some x \<Rightarrow> Some x | None \<Rightarrow> own h r k)"
  using assms
proof (induction m arbitrary: h)
  case Nil
  then show ?case by simp
next
  case (Cons a m)
  obtain k' x where a: "a = (k', x)" by (cases a)
  have "map_of m k' = None" "go_map m"
    using Cons.prems(2) a by (auto simp: go_map_def map_of_eq_None_iff)
  then show ?case
    using Cons.IH [of "setv h r k' x"] Cons.prems(1) a
    by (auto simp: own_set valid_set split: option.splits)
qed

end

definition ownVar :: "var_heap \<Rightarrow> vref \<Rightarrow> string \<Rightarrow> var_value option" where
  "ownVar h r k =
     (case scope_of h r of
        None \<Rightarrow> None
      | Some t \<Rightarrow>
          (case h ! t of
             VarScope v \<Rightarrow> map_option varVal (map_of (varsMap v) k)
           | VarFilter _ \<Rightarrow> None))"

definition SetVars :: "var_heap \<Rightarrow> vref \<Rightarrow> vars_map \<Rightarrow> var_heap" where
  "SetVars h r m = foldl (\<lambda>h (k, x). SetVar h r k x) h m"

lemma upd_scope_scope:
  assumes "scope_of h r = Some t" and "h ! t = VarScope v"
  shows "upd_scope h r f = h[t := VarScope (f v)]"
  using assms by (simp add: upd_scope_def)

lemma scope_of_lt: "scope_of h r = Some t \<Longrightarrow> t < length h"
proof (induction r rule: less_induct)
  case (less r)
  show ?case
    using less.prems
    by (auto simp: scope_of.simps [of h r] slice_get_Some_iff dest!: less.IH
        split: option.splits var_obj.splits if_splits)
qed

lemma scope_of_list_update:
  assumes "h ! t = VarScope v"
  shows "scope_of (h[t := VarScope w]) r = scope_of h r"
proof (induction r rule: less_induct)
  case (less r)
  show ?case
  proof (cases "r = t \<and> t < length h")
    case True
    then show ?thesis using assms by (simp add: scope_of.simps [of _ r] slice_get_def)
  next
    case False
    then have "slice_get (h[t := VarScope w]) r = slice_get h r" by (auto simp: slice_get_def)
    then show ?thesis
      using less by (simp add: scope_of.simps [of _ r] split: option.split var_obj.split)
  qed
qed

lemma scope_of_upd_scope [simp]: "scope_of (upd_scope h r f) q = scope_of h q"
  by (simp add: upd_scope_def scope_of_list_update split: option.split var_obj.split)

interpretation vs: var_store SetVar ownVar "\<lambda>h r. heap_wf h \<and> r < length h"
proof unfold_locales
  fix h r k x k'
  assume "heap_wf h \<and> r < length h"
  then obtain t v where t: "scope_of h r = Some t" "h ! t = VarScope v"
    using scope_of_wf [of h r] by blast
  then have "t < length h" using scope_of_lt by blast
  then show "ownVar (SetVar h r k x) r k' = (if k' = k then Some x else ownVar h r k')"
    using t by (simp add: ownVar_def SetVar_def upd_scope_scope scope_of_list_update)
qed simp

lemma SetVars_scope:
  assumes "scope_of h r = Some r" and "h ! r = VarScope v"
  shows "\<exists>v'. slice_get (SetVars h r m) r = Some (VarScope v') \<and> subScopes v' = subScopes v"
  using assms unfolding SetVars_def
proof (induction m arbitrary: h v)
  case Nil
  have "r < length h" using Nil.prems(1) by (rule scope_of_lt)
  then show ?case using Nil.prems(2) by (simp add: slice_get_def)
next
  case (Cons a m)
  obtain k x where a: "a = (k, x)" by (cases a)
  let ?v = "v\<lparr>varsMap := AList.update k \<lparr>isDefined = True, varVal = x\<rparr> (varsMap v)\<rparr>"
  have h1: "SetVar h r k x = h[r := VarScope ?v]"
    using Cons.prems by (simp add: SetVar_def upd_scope_scope)
  have "r < length h" using Cons.prems(1) by (rule scope_of_lt)
  then have "h[r := VarScope ?v] ! r = VarScope ?v" by simp
  moreover have "scope_of (h[r := VarScope ?v]) r = Some r"
    using Cons.prems by (simp add: scope_of_list_update)
  ultimately show ?case using Cons.IH [of "h[r := VarScope ?v]" ?v] a h1 by simp
qed

text \<open>After a map has been assigned to a scope key by key, each of its keys that is not also the
  name of a sub scope is found with its value, whatever the scope and its ancestors held.
\<close>

theorem SetVars_LookupVar:
  assumes "heap_wf h" and "scope_of h r = Some r" and "h ! r = VarScope v"
    and "map_of (subScopes v) k = None" and "go_map m" and "map_of m k = Some x"
  shows "LookupVar d (SetVars h r m) r k = Some (x, True)"
proof -
  let ?h = "SetVars h r m"
  have rl: "r < length h" using assms(2) by (rule scope_of_lt)
  obtain v' where v': "slice_get ?h r = Some (VarScope v')" "subScopes v' = subScopes v"
    using SetVars_scope [OF assms(2,3)] by blast
  have wf: "heap_wf ?h"
    using vs.valid_set_all [of h r m] assms(1) rl by (simp add: SetVars_def)
  have "ownVar ?h r k = Some x"
    using vs.own_set_all [of h r m k] assms rl by (simp add: SetVars_def)
  then obtain vv where vv: "map_of (varsMap v') k = Some vv" "varVal vv = x"
    using v' by (auto simp: ownVar_def slice_get_Some_iff)
  moreover have "isDefined vv"
    by (rule heap_wf_scopeD(7) [OF wf v'(1)]) (use map_of_SomeD [OF vv(1)] in force)
  ultimately show ?thesis
    using v' assms(4) by (simp add: LookupVar.simps [of d ?h r] vars_get_def)
qed

theorem SetVars_LookupVar_witness:
  "LookupVar 0 (SetVars (child_scope_heap True) 4 [(''x'', VInt 1), (''y'', VInt 2)]) 4 ''y''
     = Some (VInt 2, True)"
proof -
  let ?h = "child_scope_heap True"
  let ?v = "\<lparr>parentScope = Some 0,
    varsMap = [(''scopeOwner'', \<lparr>isDefined = True, varVal = VUint64 1\<rparr>)],
    defaultsMap = [], subScopes = []\<rparr>"
  have wf: "heap_wf ?h"
    by (simp add: child_scope_heap_eval heap_wf_def obj_wf_def go_map_def All_less_Suc numeral_eq_Suc)
  have sc: "scope_of ?h 4 = Some 4" "?h ! 4 = VarScope ?v"
    by (simp_all add: child_scope_heap_eval scope_of.simps slice_get_def)
  show ?thesis
    by (rule SetVars_LookupVar [OF wf sc]) (simp_all add: go_map_def)
qed

text \<open>A variable set in a scope is not visible from an older scope, in particular not from its
  ancestors: a lookup there of any name that is not a sub scope gives what it gave before.
\<close>

theorem SetVar_invisible_to_older_scopes:
  assumes "heap_wf h" and "scope_of h r = Some t" and "p < t"
    and "\<forall>q\<le>p. \<forall>v. slice_get h q = Some (VarScope v) \<longrightarrow> map_of (subScopes v) k = None"
  shows "LookupVar d (SetVar h r k' x) p k = LookupVar d h p k"
proof -
  have same: "slice_get (SetVar h r k' x) q = slice_get h q" if "q < t" for q
    using assms(2) that
    by (auto simp: SetVar_def upd_scope_def slice_get_def nth_list_update split: var_obj.split)
  show ?thesis using assms(3,4)
  proof (induction p rule: less_induct)
    case (less p)
    have older: "LookupVar d (SetVar h r k' x) u k = LookupVar d h u k" if "u < p" for u
    proof (rule less.IH [OF that])
      show "u < t" using that less.prems(1) by simp
      show "\<forall>q\<le>u. \<forall>v. slice_get h q = Some (VarScope v) \<longrightarrow> map_of (subScopes v) k = None"
        using that less.prems(2) by (meson less_imp_le order_trans)
    qed
    show ?case
    proof (cases "slice_get h p")
      case None
      then show ?thesis using same [OF less.prems(1)] by (simp add: LookupVar.simps [of _ _ p])
    next
      case (Some ob)
      show ?thesis
      proof (cases ob)
        case (VarFilter u)
        have "u < p" using heap_wf_filterD [OF assms(1)] Some VarFilter by simp
        then show ?thesis
          using older [OF \<open>u < p\<close>] same [OF less.prems(1)] Some VarFilter by (simp add: LookupVar.simps [of _ _ p])
      next
        case (VarScope v)
        then have "map_of (subScopes v) k = None" using less.prems(2) Some by blast
        then show ?thesis
          using older same [OF less.prems(1)] Some VarScope
          by (simp add: LookupVar.simps [of _ _ p] split: option.split)
      qed
    qed
  qed
qed

theorem SetVar_invisible_to_older_scopes_witness:
  "LookupVar 0 (SetVar (child_scope_heap True) 5 ''x'' (VInt 1)) 0 ''x'' =
   LookupVar 0 (child_scope_heap True) 0 ''x''"
proof (rule SetVar_invisible_to_older_scopes [where t = 4])
  show "heap_wf (child_scope_heap True)"
    by (simp add: child_scope_heap_eval heap_wf_def obj_wf_def go_map_def All_less_Suc numeral_eq_Suc)
  show "scope_of (child_scope_heap True) 5 = Some 4"
    by (simp add: child_scope_heap_eval scope_of.simps slice_get_def)
qed (simp_all add: child_scope_heap_eval slice_get_def)

section \<open>Placeholders and printed floats\<close>

lemma replaceVars_plain: "dollar \<notin> set s \<Longrightarrow> replaceVars f (s @ t) = map_option (\<lambda>u. s @ u) (replaceVars f t)"
  by (cases "replaceVars f t"; induction s) (auto simp: replaceVars.simps(2))

lemma replaceQueries_plain:
  "dollar \<notin> set s \<Longrightarrow> replaceQueries f (s @ t) = map_option (\<lambda>u. s @ u) (replaceQueries f t)"
  by (cases "replaceQueries f t"; induction s) (auto simp: replaceQueries.simps(2))

lemmas replaceVars_no_dollar = replaceVars_plain [where t = "[]", simplified]
lemmas replaceQueries_no_dollar = replaceQueries_plain [where t = "[]", simplified]

lemma takeWhile_stop: "\<forall>x\<in>set xs. P x \<Longrightarrow> \<not> P y \<Longrightarrow> takeWhile P (xs @ y # ys) = xs"
  by (induction xs) auto

lemma dropWhile_stop: "\<forall>x\<in>set xs. P x \<Longrightarrow> \<not> P y \<Longrightarrow> dropWhile P (xs @ y # ys) = y # ys"
  by (induction xs) auto

lemma replaceVars_placeholder:
  assumes "name \<noteq> []" and "rbrace \<notin> set name"
  shows "replaceVars f ([dollar, lbrace] @ name @ rbrace # post) =
    (case f name of None \<Rightarrow> None | Some s \<Rightarrow> map_option (\<lambda>u. s @ u) (replaceVars f post))"
proof -
  have all: "\<forall>x\<in>set name. x \<noteq> rbrace" using assms(2) by auto
  have "takeWhile (\<lambda>x. x \<noteq> rbrace) (name @ rbrace # post) = name"
    using takeWhile_stop [OF all] by simp
  moreover have "dropWhile (\<lambda>x. x \<noteq> rbrace) (name @ rbrace # post) = rbrace # post"
    using dropWhile_stop [OF all] by simp
  ultimately show ?thesis using assms(1) by (simp add: replaceVars.simps(2) split: option.split)
qed

text \<open>A placeholder for a known variable is replaced by the printed value and the surrounding
  text is kept, if neither that text nor the printed value contains a dollar sign.
\<close>

theorem ResolvePlaceholders_known_variable:
  assumes "LookupVar n h r name = Some (x, True)" and "name \<noteq> []" and "rbrace \<notin> set name"
    and "dollar \<notin> set (pre @ post @ sprintfV L x)"
  shows "ResolvePlaceholders L n h r (pre @ [dollar, lbrace] @ name @ rbrace # post) =
    Some (pre @ sprintfV L x @ post)"
proof -
  have "replaceVars (varReplacement L n h r) (pre @ [dollar, lbrace] @ name @ rbrace # post) =
      Some (pre @ sprintfV L x @ post)"
    using assms replaceVars_placeholder [OF assms(2,3), of "varReplacement L n h r" post]
      replaceVars_no_dollar [of post] replaceVars_plain [of pre]
    by (simp add: varReplacement_def)
  then show ?thesis
    using assms(4) replaceQueries_no_dollar [of "pre @ sprintfV L x @ post"]
    by (simp add: ResolvePlaceholders_def)
qed

definition plain_libs :: vars_libs where
  "plain_libs = \<lparr>yamlGeneralize = Inr, jqFirst = (\<lambda>_ _. Inr None),
     sprintfV = (\<lambda>x. case x of VStr s \<Rightarrow> s | _ \<Rightarrow> ''<nil>''), sprintfF = (\<lambda>_. ''0.000000'')\<rparr>"

theorem ResolvePlaceholders_known_variable_witness:
  "ResolvePlaceholders plain_libs 0 [VarScope (empty_scope None\<lparr>varsMap :=
      [(''who'', \<lparr>isDefined = True, varVal = VStr ''bob''\<rparr>)]\<rparr>)] 0
      (''hi '' @ [dollar, lbrace] @ ''who'' @ rbrace # ''!'') = Some (''hi '' @ ''bob'' @ ''!'')"
proof -
  let ?h = "[VarScope (empty_scope None\<lparr>varsMap :=
      [(''who'', \<lparr>isDefined = True, varVal = VStr ''bob''\<rparr>)]\<rparr>)]"
  have lk: "LookupVar 0 ?h 0 ''who'' = Some (VStr ''bob'', True)"
    by (simp add: LookupVar.simps slice_get_def empty_scope_def vars_get_def)
  show ?thesis
    using ResolvePlaceholders_known_variable [OF lk, of "''hi ''" "''!''" plain_libs]
    by (simp add: plain_libs_def)
qed

lemma trimZeros_split: "\<exists>k. s = trimZeros s @ replicate k (CHR ''0'')"
proof (induction s rule: rev_induct)
  case (snoc c s)
  then obtain k where k: "s = trimZeros s @ replicate k (CHR ''0'')" by blast
  show ?case
  proof (cases "c = CHR ''0''")
    case True
    then have "trimZeros (s @ [c]) = trimZeros s" by (simp add: trimZeros_def)
    moreover have "s @ [c] = trimZeros s @ replicate (Suc k) (CHR ''0'')"
      using arg_cong [OF k, of "\<lambda>z. z @ [c]"] True by (simp add: replicate_append_same)
    ultimately show ?thesis by metis
  qed (simp add: trimZeros_def exI [of _ 0])
qed (simp add: trimZeros_def)

lemma trimZeros_last: "trimZeros s \<noteq> [] \<Longrightarrow> last (trimZeros s) \<noteq> CHR ''0''"
  unfolding trimZeros_def
  using hd_dropWhile [of "\<lambda>c. c = CHR ''0''" "rev s"] by (simp only: last_rev rev_is_Nil_conv not_False_eq_True simp_thms)

lemma trimZeros_append:
  "trimZeros (a @ CHR ''.'' # b) =
    (if trimZeros b = [] then a @ [CHR ''.''] else a @ CHR ''.'' # trimZeros b)"
  by (auto simp: trimZeros_def dropWhile_append)

text \<open>
  The trimmed text of a printed float \<open>ds.fs\<close> drops only zeros at the end of the fraction,
  and the dot when the whole fraction goes, so it denotes the same number.
\<close>

theorem getTrimmedFloat_drops_trailing_zeros:
  assumes "CHR ''.'' \<notin> set fs"
  shows "\<exists>k. fs = trimZeros fs @ replicate k (CHR ''0'') \<and>
    getTrimmedFloat (ds @ CHR ''.'' # fs) =
      Some (if trimZeros fs = [] then ds else ds @ CHR ''.'' # trimZeros fs) \<and>
    (trimZeros fs \<noteq> [] \<longrightarrow> last (trimZeros fs) \<noteq> CHR ''0'')"
proof -
  obtain k where k: "fs = trimZeros fs @ replicate k (CHR ''0'')" using trimZeros_split by blast
  have "getTrimmedFloat (ds @ CHR ''.'' # fs) =
      Some (if trimZeros fs = [] then ds else ds @ CHR ''.'' # trimZeros fs)"
  proof (cases "trimZeros fs = []")
    case False
    moreover have "set (trimZeros fs) \<subseteq> set fs" by (auto simp: trimZeros_def dest: set_dropWhileD)
    ultimately have "last (trimZeros fs) \<in> set fs" using last_in_set by blast
    then have "last (trimZeros fs) \<noteq> CHR ''.''" using assms by metis
    with False show ?thesis by (simp add: getTrimmedFloat_def trimZeros_append)
  qed (simp add: getTrimmedFloat_def trimZeros_append)
  then show ?thesis using k trimZeros_last [of fs] by blast
qed

theorem getTrimmedFloat_drops_trailing_zeros_witness:
  "getTrimmedFloat ''12.500000'' = Some ''12.5'' \<and> getTrimmedFloat ''32.000000'' = Some ''32''"
  using getTrimmedFloat_drops_trailing_zeros [of "''500000''" "''12''"]
    getTrimmedFloat_drops_trailing_zeros [of "''000000''" "''32''"]
  by (simp add: trimZeros_def)

section \<open>Every read returns\<close>

text \<open>A heap whose flattenings all return within a recursion depth of \<open>n\<close>.\<close>

definition scope_ranked :: "nat \<Rightarrow> var_heap \<Rightarrow> bool" where
  "scope_ranked n h \<longleftrightarrow> heap_wf h \<and> (\<exists>rk. scope_rank h rk \<and> (\<forall>r sk. rk r sk < n))"

lemma scope_ranked_wf: "scope_ranked n h \<Longrightarrow> heap_wf h"
  by (simp add: scope_ranked_def)

lemma scope_ranked_GetVarsMap:
  "scope_ranked n h \<Longrightarrow> r < length h \<Longrightarrow> \<exists>m. GetVarsMap n h r acc sk = Some m"
  using GetVarsMap_ranked [of h _ r sk n acc] unfolding scope_ranked_def by blast

text \<open>Assigning a variable does not touch the links between scopes.\<close>

lemma scope_rank_relink:
  assumes "scope_rank h rk" and "h ! t = VarScope v" and "t < length h"
    and "subScopes v' = subScopes v" and "parentScope v' = parentScope v"
  shows "scope_rank (h[t := VarScope v']) rk"
  unfolding scope_rank_def
proof (intro allI impI)
  fix r sk
  assume r: "r < length (h[t := VarScope v'])"
  have old: "case h ! r of VarFilter t \<Rightarrow> rk t True < rk r sk
      | VarScope v \<Rightarrow> (\<forall>s\<in>snd ` set (subScopes v). rk s sk < rk r sk) \<and>
          (case parentScope v of None \<Rightarrow> True | Some p \<Rightarrow> sk \<or> rk p False < rk r sk)"
    using assms(1) r unfolding scope_rank_def by simp
  show "case h[t := VarScope v'] ! r of VarFilter t \<Rightarrow> rk t True < rk r sk
      | VarScope v \<Rightarrow> (\<forall>s\<in>snd ` set (subScopes v). rk s sk < rk r sk) \<and>
          (case parentScope v of None \<Rightarrow> True | Some p \<Rightarrow> sk \<or> rk p False < rk r sk)"
  proof (cases "r = t")
    case True
    then show ?thesis using old assms(2-5) by simp
  next
    case False
    then show ?thesis using old by simp
  qed
qed

lemma scope_rank_SetVar:
  assumes "scope_rank h rk"
  shows "scope_rank (SetVar h r name x) rk"
proof (cases "scope_of h r")
  case None
  then show ?thesis using assms by (simp add: SetVar_def upd_scope_def)
next
  case (Some t)
  then show ?thesis
    using assms scope_of_lt [OF Some] scope_rank_relink [OF assms, of t]
    by (cases "h ! t") (simp_all add: SetVar_def upd_scope_def)
qed

lemma scope_ranked_SetVar [simp]: "scope_ranked n h \<Longrightarrow> scope_ranked n (SetVar h r name x)"
  unfolding scope_ranked_def using scope_rank_SetVar [of h] SetVar_wf [of h] by blast

lemma LookupVar_returns:
  assumes "scope_ranked n h" and "r < length h"
  shows "\<exists>y. LookupVar n h r name = Some y"
  using assms(2)
proof (induction r rule: less_induct)
  case (less r)
  note wf = scope_ranked_wf [OF assms(1)]
  show ?case
  proof (cases "h ! r")
    case (VarFilter t)
    then have sl: "slice_get h r = Some (VarFilter t)" using less.prems by (simp add: slice_get_def)
    have "t < r" using heap_wf_filterD [OF wf sl] .
    then show ?thesis using less sl by (simp add: LookupVar.simps [of n h r])
  next
    case (VarScope v)
    then have sl: "slice_get h r = Some (VarScope v)" using less.prems by (simp add: slice_get_def)
    have sub: "\<exists>m. GetVarsMap n h s [] False = Some m" if "map_of (subScopes v) name = Some s" for s
      using scope_ranked_GetVarsMap [OF assms(1)] heap_wf_scopeD(3) [OF wf sl] map_of_SomeD [OF that] by force
    have par: "p < r \<and> (\<exists>y. LookupVar n h p name = Some y)" if "parentScope v = Some p" for p
      using less heap_wf_scopeD(1) [OF wf sl that] by simp
    show ?thesis
      using sl sub par
      by (cases "map_of (subScopes v) name"; cases "parentScope v")
         (auto simp: LookupVar.simps [of n h r])
  qed
qed

lemma ResolveQuery_returns:
  assumes "scope_ranked n h" and "r < length h"
  shows "\<exists>y. ResolveQuery L n h r q = Some y"
proof -
  obtain t v where t: "scope_of h r = Some t" "h ! t = VarScope v"
    using scope_of_wf [OF scope_ranked_wf [OF assms(1)] assms(2)] by blast
  then obtain m where "GetVarsMap n h t [] False = Some m"
    using scope_ranked_GetVarsMap [OF assms(1) scope_of_lt] by blast
  then show ?thesis using t by (simp add: ResolveQuery_def getGeneralizedVarsMap_def split: sum.split)
qed

lemma replaceVars_returns: "(\<And>b. \<exists>y. f b = Some y) \<Longrightarrow> \<exists>y. replaceVars f str = Some y"
proof (induction f str rule: replaceVars.induct)
  case (2 f c cs)
  obtain y where "f (takeWhile (\<lambda>x. x \<noteq> rbrace) (tl cs)) = Some y" using 2(3) by blast
  then show ?case using 2 by (auto simp: replaceVars.simps(2) Let_def)
qed simp

lemma replaceQueries_returns: "(\<And>b. \<exists>y. f b = Some y) \<Longrightarrow> \<exists>y. replaceQueries f str = Some y"
proof (induction f str rule: replaceQueries.induct)
  case (2 f c cs)
  show ?case
  proof (cases "if c = dollar \<and> take 2 cs = [lbrace, lbrace] then splitClose (drop 2 cs) else None")
    case None
    then show ?thesis using 2 by (auto simp: replaceQueries.simps(2))
  next
    case (Some br)
    obtain body rest where br: "br = (body, rest)" by (cases br)
    obtain y where "f body = Some y" using 2(3) by blast
    then show ?thesis using 2(2) [OF Some br [symmetric]] 2(3) Some br by (auto simp: replaceQueries.simps(2))
  qed
qed simp

lemma ResolvePlaceholders_total:
  assumes "scope_ranked n h" and "r < length h"
  shows "\<exists>y. ResolvePlaceholders L n h r str = Some y"
proof -
  have "\<exists>y. varReplacement L n h r b = Some y" for b
    using LookupVar_returns [OF assms, of b] by (auto simp: varReplacement_def split: bool.split)
  moreover have "\<exists>y. queryReplacement L n h r b = Some y" for b
    using ResolveQuery_returns [OF assms, of L b]
    by (auto simp: queryReplacement_def split: sum.split option.split)
  ultimately show ?thesis
    using replaceVars_returns [of "varReplacement L n h r" str]
      replaceQueries_returns [of "queryReplacement L n h r"]
    by (auto simp: ResolvePlaceholders_def)
qed

end
