(* ===== verification/FlowConfig.thy ===== *)
theory FlowConfig
  imports Variables
begin

text \<open>
  The configuration structs of the control flow tasks (\<open>run_tasks\<close>, \<open>run_tasks_concurrent\<close>,
  \<open>run_task_matrix\<close>, \<open>run_task_options\<close>, \<open>run_task_background\<close>, \<open>run_external_tasks\<close>) and of \<open>sleep\<close>, with
  their defaults, their validation and the value \<open>Config\<close> hands out, and the fields a task object
  keeps between \<open>LoadConfig\<close> and \<open>Execute\<close>. Child tasks are given as raw YAML, here a
  \<^typ>\<open>var_value\<close>; durations are in nanoseconds.
\<close>

section \<open>Structs\<close>

record RunTasksConfig =
  rtTasks :: "var_value list"
  rtStopChildOnResult :: bool
  rtExpectFailure :: bool
  rtContinueOnFailure :: bool
  rtNewVariableScope :: bool

record ConcurrentConfig =
  ccSucceedTaskCount :: u64
  ccFailTaskCount :: u64
  ccFailOnUndecided :: bool
  ccNewVariableScope :: bool
  ccTasks :: "var_value list"

record MatrixConfig =
  mcRunConcurrent :: bool
  mcSucceedTaskCount :: u64
  mcFailTaskCount :: u64
  mcFailOnUndecided :: bool
  mcMatrixValues :: "var_value list"
  mcMatrixVar :: string
  mcTask :: "var_value option"

record OptionsConfig =
  ocTask :: "var_value option"
  ocPropagateResult :: bool
  ocExitOnResult :: bool
  ocInvertResult :: bool
  ocExpectFailure :: bool
  ocIgnoreFailure :: bool
  ocRetryOnFailure :: bool
  ocMaxRetryCount :: u64
  ocNewVariableScope :: bool

record BackgroundConfig =
  bcForegroundTask :: "var_value option"
  bcBackgroundTask :: "var_value option"
  bcExitOnForegroundSuccess :: bool
  bcExitOnForegroundFailure :: bool
  bcOnBackgroundComplete :: string
  bcNewVariableScope :: bool

record ExternalConfig =
  ecTestFile :: string
  ecTestConfig :: "(string \<times> var_value) list"
  ecTestConfigVars :: "(string \<times> string) list"
  ecExpectFailure :: bool
  ecIgnoreFailure :: bool

record SleepConfig =
  scDuration :: int

section \<open>Defaults and validation\<close>

definition RunTasksDefault :: RunTasksConfig where
  "RunTasksDefault = \<lparr>rtTasks = [], rtStopChildOnResult = True, rtExpectFailure = False,
     rtContinueOnFailure = False, rtNewVariableScope = False\<rparr>"

text \<open>The zero value of the struct, which a task object holds until \<open>LoadConfig\<close> assigns it.\<close>

definition RunTasksZero :: RunTasksConfig where
  "RunTasksZero = \<lparr>rtTasks = [], rtStopChildOnResult = False, rtExpectFailure = False,
     rtContinueOnFailure = False, rtNewVariableScope = False\<rparr>"

definition ConcurrentDefault :: ConcurrentConfig where
  "ConcurrentDefault = \<lparr>ccSucceedTaskCount = 0, ccFailTaskCount = 1, ccFailOnUndecided = False,
     ccNewVariableScope = True, ccTasks = []\<rparr>"

definition MatrixDefault :: MatrixConfig where
  "MatrixDefault = \<lparr>mcRunConcurrent = False, mcSucceedTaskCount = 0, mcFailTaskCount = 0,
     mcFailOnUndecided = True, mcMatrixValues = [], mcMatrixVar = '''', mcTask = None\<rparr>"

definition OptionsDefault :: OptionsConfig where
  "OptionsDefault = \<lparr>ocTask = None, ocPropagateResult = False, ocExitOnResult = False,
     ocInvertResult = False, ocExpectFailure = False, ocIgnoreFailure = False,
     ocRetryOnFailure = False, ocMaxRetryCount = 0, ocNewVariableScope = False\<rparr>"

definition BackgroundDefault :: BackgroundConfig where
  "BackgroundDefault = \<lparr>bcForegroundTask = None, bcBackgroundTask = None,
     bcExitOnForegroundSuccess = False, bcExitOnForegroundFailure = False,
     bcOnBackgroundComplete = '''', bcNewVariableScope = False\<rparr>"

definition ExternalDefault :: ExternalConfig where
  "ExternalDefault = \<lparr>ecTestFile = '''', ecTestConfig = [], ecTestConfigVars = [],
     ecExpectFailure = False, ecIgnoreFailure = False\<rparr>"

definition SleepDefault :: SleepConfig where
  "SleepDefault = \<lparr>scDuration = 0\<rparr>"

definition RunTasksValidate :: "RunTasksConfig \<Rightarrow> go_error" where
  "RunTasksValidate c = (if rtTasks c = [] then Some ''at least one task must be specified'' else None)"

definition ConcurrentValidate :: "ConcurrentConfig \<Rightarrow> go_error" where
  "ConcurrentValidate c = (if ccTasks c = [] then Some ''at least one task must be specified'' else None)"

definition MatrixValidate :: "MatrixConfig \<Rightarrow> go_error" where
  "MatrixValidate c = (if mcTask c = None then Some ''child task must be specified'' else None)"

definition OptionsValidate :: "OptionsConfig \<Rightarrow> go_error" where
  "OptionsValidate c = (if ocTask c = None then Some ''child task must be specified'' else None)"

definition BackgroundValidate :: "BackgroundConfig \<Rightarrow> go_error" where
  "BackgroundValidate c =
     (if bcForegroundTask c = None then Some ''foreground task must be specified'' else None)"

definition ExternalValidate :: "ExternalConfig \<Rightarrow> go_error" where
  "ExternalValidate c = (if ecTestFile c = '''' then Some ''testFile is missing'' else None)"

definition SleepValidate :: "SleepConfig \<Rightarrow> go_error" where
  "SleepValidate c = (if scDuration c \<le> 0 then Some ''duration must be greater than 0'' else None)"

section \<open>Task objects\<close>

text \<open>
  The fields of the task objects that matter after \<open>LoadConfig\<close>: the configuration and the indices
  of the child tasks. \<open>FlowOther\<close> stands for every other kind of task.
\<close>

datatype flow_instance =
    FlowOther
  | FlowRunTasks RunTasksConfig "nat list"
  | FlowConcurrent ConcurrentConfig "nat list"
  | FlowMatrix MatrixConfig "nat list"
  | FlowOptions OptionsConfig
  | FlowBackground BackgroundConfig nat nat
  | FlowExternal ExternalConfig
  | FlowSleep SleepConfig

fun flowTasks :: "flow_instance \<Rightarrow> nat list" where
  "flowTasks (FlowRunTasks c js) = js"
| "flowTasks (FlowConcurrent c js) = js"
| "flowTasks (FlowMatrix c js) = js"
| "flowTasks (FlowBackground c fg bg) = (if bg = 0 then [fg] else [bg, fg])"
| "flowTasks _ = []"

text \<open>
  \<open>Config\<close> as a value, by the YAML tags of the structs. A masked raw message has no exported field
  and shows as an empty map, a nil one as null.
\<close>

definition maskedValue :: "var_value \<Rightarrow> var_value" where
  "maskedValue raw = VMap []"

definition rawValue :: "var_value option \<Rightarrow> var_value" where
  "rawValue r = (case r of Some x \<Rightarrow> maskedValue x | None \<Rightarrow> VNil)"

fun flowConfig :: "flow_instance \<Rightarrow> var_value" where
  "flowConfig FlowOther = VNil"
| "flowConfig (FlowRunTasks c js) =
     VMap [(''tasks'', VSlice (map maskedValue (rtTasks c))), (''stopChildOnResult'', VBool (rtStopChildOnResult c)),
       (''expectFailure'', VBool (rtExpectFailure c)), (''continueOnFailure'', VBool (rtContinueOnFailure c)),
       (''newVariableScope'', VBool (rtNewVariableScope c))]"
| "flowConfig (FlowConcurrent c js) =
     VMap [(''succeedTaskCount'', VUint64 (ccSucceedTaskCount c)), (''failTaskCount'', VUint64 (ccFailTaskCount c)),
       (''failOnUndecided'', VBool (ccFailOnUndecided c)), (''newVariableScope'', VBool (ccNewVariableScope c)),
       (''tasks'', VSlice (map maskedValue (ccTasks c)))]"
| "flowConfig (FlowMatrix c js) =
     VMap [(''runConcurrent'', VBool (mcRunConcurrent c)), (''succeedTaskCount'', VUint64 (mcSucceedTaskCount c)),
       (''failTaskCount'', VUint64 (mcFailTaskCount c)), (''failOnUndecided'', VBool (mcFailOnUndecided c)),
       (''matrixValues'', VSlice (mcMatrixValues c)), (''matrixVar'', VStr (mcMatrixVar c)),
       (''task'', rawValue (mcTask c))]"
| "flowConfig (FlowOptions c) =
     VMap [(''task'', rawValue (ocTask c)), (''propagateResult'', VBool (ocPropagateResult c)),
       (''exitOnResult'', VBool (ocExitOnResult c)), (''invertResult'', VBool (ocInvertResult c)),
       (''expectFailure'', VBool (ocExpectFailure c)), (''ignoreFailure'', VBool (ocIgnoreFailure c)),
       (''retryOnFailure'', VBool (ocRetryOnFailure c)), (''maxRetryCount'', VUint64 (ocMaxRetryCount c)),
       (''newVariableScope'', VBool (ocNewVariableScope c))]"
| "flowConfig (FlowBackground c fg bg) =
     VMap [(''foregroundTask'', rawValue (bcForegroundTask c)), (''backgroundTask'', rawValue (bcBackgroundTask c)),
       (''exitOnForegroundSuccess'', VBool (bcExitOnForegroundSuccess c)),
       (''exitOnForegroundFailure'', VBool (bcExitOnForegroundFailure c)),
       (''onBackgroundComplete'', VStr (bcOnBackgroundComplete c)),
       (''newVariableScope'', VBool (bcNewVariableScope c))]"
| "flowConfig (FlowExternal c) =
     VMap [(''testFile'', VStr (ecTestFile c)), (''testConfig'', VMap (ecTestConfig c)),
       (''testConfigVars'', VMap (map (\<lambda>(k, v). (k, VStr v)) (ecTestConfigVars c))),
       (''expectFailure'', VBool (ecExpectFailure c)), (''ignoreFailure'', VBool (ecIgnoreFailure c))]"
| "flowConfig (FlowSleep c) = VMap [(''duration'', VInt (scDuration c))]"

end
