(* ===== verification/Database.thy ===== *)
theory Database
  imports Prelude
begin

text \<open>
  The persistence layer \<open>pkg/coordinator/db\<close>. A table is an association list from its primary
  key to the row; the statements the code builds are modelled by their effect on the table, for
  both engines, including the statements an engine refuses. A driver record says which calls of
  the SQL driver fail: beginning a transaction, the n-th statement, a query, the commit.
\<close>

unbundle bit_operations_syntax

section \<open>Rows and tables\<close>

datatype engine_type = EngineAny | EngineSqlite | EnginePgsql

record db_task_state =
  tsRunID :: u64
  tsTaskID :: u64
  tsParentTask :: u64
  tsName :: string
  tsTitle :: string
  tsRefID :: string
  tsTimeout :: int
  tsIfCond :: string
  tsRunFlags :: u32
  tsStartTime :: int
  tsStopTime :: int
  tsScopeOwner :: u64
  tsTaskConfig :: string
  tsTaskStatus :: string
  tsTaskResult :: int
  tsTaskError :: string

record task_state_index =
  tixTaskID :: u64
  tixParentTask :: u64
  tixRunFlags :: u32

definition TaskRunFlagCleanup :: u32 where "TaskRunFlagCleanup = 0x01"
definition TaskRunFlagStarted :: u32 where "TaskRunFlagStarted = 0x02"
definition TaskRunFlagRunning :: u32 where "TaskRunFlagRunning = 0x04"
definition TaskRunFlagSkipped :: u32 where "TaskRunFlagSkipped = 0x08"
definition TaskRunFlagTimeout :: u32 where "TaskRunFlagTimeout = 0x10"

lemmas run_flag_defs = TaskRunFlagCleanup_def TaskRunFlagStarted_def TaskRunFlagRunning_def
  TaskRunFlagSkipped_def TaskRunFlagTimeout_def

record db_test_run =
  trRunID :: u64
  trTestID :: string
  trName :: string
  trSource :: string
  trConfig :: string
  trStartTime :: int
  trStopTime :: int
  trTimeout :: int
  trStatus :: string

record db_test_config =
  tcTestID :: string
  tcSource :: string
  tcName :: string
  tcTimeout :: int
  tcConfig :: string
  tcConfigVars :: string
  tcScheduleStartup :: bool
  tcScheduleCronYaml :: string

record db_test_run_stats =
  trsTestID :: string
  trsCount :: nat
  trsLastRun :: int

record db_task_log =
  tlRunID :: u64
  tlTaskID :: u64
  tlLogIndex :: u64
  tlLogTime :: int
  tlLogLevel :: u32
  tlLogFields :: string
  tlLogMessage :: string

record db_task_result =
  rsRunID :: u64
  rsTaskID :: u64
  rsType :: string
  rsIndex :: u64
  rsName :: string
  rsSize :: u64
  rsData :: "u8 list"

record db_task_result_header =
  rhTaskID :: u64
  rhType :: string
  rhIndex :: u64
  rhName :: string
  rhSize :: u64

record database =
  engine :: engine_type
  assertoorState :: "(string \<times> string) list"
  testConfigs :: "(string \<times> db_test_config) list"
  testRuns :: "(u64 \<times> db_test_run) list"
  taskStates :: "((u64 \<times> u64) \<times> db_task_state) list"
  taskLogs :: "((u64 \<times> u64 \<times> u64) \<times> db_task_log) list"
  taskResults :: "((u64 \<times> u64 \<times> string \<times> u64) \<times> db_task_result) list"

definition NewDatabase :: database where
  "NewDatabase = \<lparr>engine = EngineAny, assertoorState = [], testConfigs = [], testRuns = [],
     taskStates = [], taskLogs = [], taskResults = []\<rparr>"

section \<open>Statements and transactions\<close>

record db_driver =
  beginErr :: go_error
  execErr :: "nat \<Rightarrow> go_error"
  queryErr :: go_error
  commitErr :: go_error

definition reliable_driver :: db_driver where
  "reliable_driver = \<lparr>beginErr = None, execErr = (\<lambda>_. None), queryErr = None, commitErr = None\<rparr>"

text \<open>The n-th statement of a transaction: the driver's error, or the new tables.\<close>

definition execStmt :: "db_driver \<Rightarrow> nat \<Rightarrow> (database \<Rightarrow> database) \<Rightarrow> database \<Rightarrow> string + database" where
  "execStmt drv n f d = (case execErr drv n of Some e \<Rightarrow> Inl e | None \<Rightarrow> Inr (f d))"

definition RunTransaction ::
    "db_driver \<Rightarrow> (database \<Rightarrow> string + database) \<Rightarrow> database \<Rightarrow> go_error \<times> database" where
  "RunTransaction drv handler d =
     (case beginErr drv of
        Some e \<Rightarrow> (Some (''error starting db transactions: '' @ e), d)
      | None \<Rightarrow>
          (case handler d of
             Inl e \<Rightarrow> (Some e, d)
           | Inr d' \<Rightarrow>
               (case commitErr drv of
                  Some e \<Rightarrow> (Some (''error committing db transaction: '' @ e), d)
                | None \<Rightarrow> (None, d'))))"

text \<open>\<open>UPDATE\<close> of the row with a given key: nothing happens if there is none.\<close>

definition tbl_update :: "'k \<Rightarrow> ('r \<Rightarrow> 'r) \<Rightarrow> ('k \<times> 'r) list \<Rightarrow> ('k \<times> 'r) list" where
  "tbl_update k f t = (case map_of t k of None \<Rightarrow> t | Some r \<Rightarrow> AList.update k (f r) t)"

definition EngineQuery :: "(engine_type \<times> string) list \<Rightarrow> database \<Rightarrow> string" where
  "EngineQuery queryMap d =
     (case map_of queryMap (engine d) of
        Some q \<Rightarrow> if q \<noteq> '''' then q
                  else (case map_of queryMap EngineAny of Some a \<Rightarrow> a | None \<Rightarrow> '''')
      | None \<Rightarrow> (case map_of queryMap EngineAny of Some a \<Rightarrow> a | None \<Rightarrow> ''''))"

text \<open>
  An insert with a conflict clause: \<open>INSERT OR REPLACE\<close> on sqlite, \<open>ON CONFLICT (target) DO
  UPDATE\<close> on Postgres, where \<open>merge old new\<close> is the row after the update list, and where the
  statement is refused if the conflict target is not a unique key of the table. No engine, no
  statement text: the driver refuses the empty statement.
\<close>

definition upsert ::
    "engine_type \<Rightarrow> string list \<Rightarrow> string list \<Rightarrow> ('r \<Rightarrow> 'r \<Rightarrow> 'r) \<Rightarrow> 'k \<Rightarrow> 'r \<Rightarrow>
     ('k \<times> 'r) list \<Rightarrow> string + ('k \<times> 'r) list" where
  "upsert eng pkey target merge k r t =
     (case eng of
        EngineSqlite \<Rightarrow> Inr (AList.update k r t)
      | EnginePgsql \<Rightarrow>
          if target \<noteq> pkey
          then Inl ''there is no unique or exclusion constraint matching the ON CONFLICT specification''
          else (case map_of t k of
                  None \<Rightarrow> Inr (AList.update k r t)
                | Some old \<Rightarrow> Inr (AList.update k (merge old r) t))
      | EngineAny \<Rightarrow> Inl ''empty statement'')"

section \<open>Task states\<close>

definition InsertTaskState :: "db_driver \<Rightarrow> nat \<Rightarrow> db_task_state \<Rightarrow> database \<Rightarrow> string + database" where
  "InsertTaskState drv n st d =
     (case execErr drv n of
        Some e \<Rightarrow> Inl e
      | None \<Rightarrow>
          (case upsert (engine d) [''run_id'', ''task_id''] [''run_id'', ''task_id'']
                  (\<lambda>old new. new\<lparr>tsRunID := tsRunID old, tsTaskID := tsTaskID old\<rparr>)
                  (tsRunID st, tsTaskID st) st (taskStates d) of
             Inl e \<Rightarrow> Inl e
           | Inr t \<Rightarrow> Inr (d\<lparr>taskStates := t\<rparr>)))"

text \<open>The \<open>switch\<close> over the field names: the column is set from the state.\<close>

definition setTaskColumn :: "string \<Rightarrow> db_task_state \<Rightarrow> (db_task_state \<Rightarrow> db_task_state) option" where
  "setTaskColumn field st =
     (if field = ''title'' then Some (tsTitle_update (\<lambda>_. tsTitle st))
      else if field = ''run_flags'' then Some (tsRunFlags_update (\<lambda>_. tsRunFlags st))
      else if field = ''start_time'' then Some (tsStartTime_update (\<lambda>_. tsStartTime st))
      else if field = ''stop_time'' then Some (tsStopTime_update (\<lambda>_. tsStopTime st))
      else if field = ''task_config'' then Some (tsTaskConfig_update (\<lambda>_. tsTaskConfig st))
      else if field = ''task_status'' then Some (tsTaskStatus_update (\<lambda>_. tsTaskStatus st))
      else if field = ''task_result'' then Some (tsTaskResult_update (\<lambda>_. tsTaskResult st))
      else if field = ''task_error'' then Some (tsTaskError_update (\<lambda>_. tsTaskError st))
      else None)"

fun setTaskColumns :: "string list \<Rightarrow> db_task_state \<Rightarrow> string + (db_task_state \<Rightarrow> db_task_state)" where
  "setTaskColumns [] st = Inr id"
| "setTaskColumns (f # fs) st =
     (case setTaskColumn f st of
        None \<Rightarrow> Inl (''unknown field '' @ f)
      | Some g \<Rightarrow>
          (case setTaskColumns fs st of Inl e \<Rightarrow> Inl e | Inr h \<Rightarrow> Inr (\<lambda>row. h (g row))))"

text \<open>
  An empty field list yields \<open>UPDATE task_states SET  WHERE ...\<close>, a syntax error.
\<close>

definition UpdateTaskStateStatus ::
    "db_driver \<Rightarrow> nat \<Rightarrow> db_task_state \<Rightarrow> string list \<Rightarrow> database \<Rightarrow> string + database" where
  "UpdateTaskStateStatus drv n st updateFields d =
     (case setTaskColumns updateFields st of
        Inl e \<Rightarrow> Inl e
      | Inr g \<Rightarrow>
          if updateFields = [] then Inl ''syntax error''
          else execStmt drv n
                 (taskStates_update (tbl_update (tsRunID st, tsTaskID st) g)) d)"

definition GetTaskStateIndex :: "db_driver \<Rightarrow> u64 \<Rightarrow> database \<Rightarrow> string + task_state_index list" where
  "GetTaskStateIndex drv runID d =
     (case queryErr drv of
        Some e \<Rightarrow> Inl e
      | None \<Rightarrow>
          Inr (map (\<lambda>r. \<lparr>tixTaskID = tsTaskID r, tixParentTask = tsParentTask r,
                         tixRunFlags = tsRunFlags r\<rparr>)
                (sort_key tsTaskID (filter (\<lambda>r. tsRunID r = runID) (map snd (taskStates d))))))"

definition sqlErrNoRows :: string where
  "sqlErrNoRows = ''sql: no rows in result set''"

definition GetTaskStateByTaskID ::
    "db_driver \<Rightarrow> u64 \<Rightarrow> u64 \<Rightarrow> database \<Rightarrow> string + db_task_state" where
  "GetTaskStateByTaskID drv runID taskID d =
     (case queryErr drv of
        Some e \<Rightarrow> Inl e
      | None \<Rightarrow> (case map_of (taskStates d) (runID, taskID) of
                   None \<Rightarrow> Inl sqlErrNoRows
                 | Some r \<Rightarrow> Inr r))"

section \<open>Test runs\<close>

text \<open>The update list of the Postgres statement leaves the \<open>config\<close> column alone.\<close>

definition InsertTestRun :: "db_driver \<Rightarrow> nat \<Rightarrow> db_test_run \<Rightarrow> database \<Rightarrow> string + database" where
  "InsertTestRun drv n run d =
     (case execErr drv n of
        Some e \<Rightarrow> Inl e
      | None \<Rightarrow>
          (case upsert (engine d) [''run_id''] [''run_id'']
                  (\<lambda>old new. new\<lparr>trRunID := trRunID old, trConfig := trConfig old\<rparr>)
                  (trRunID run) run (testRuns d) of
             Inl e \<Rightarrow> Inl e
           | Inr t \<Rightarrow> Inr (d\<lparr>testRuns := t\<rparr>)))"

definition UpdateTestRunStatus :: "db_driver \<Rightarrow> nat \<Rightarrow> db_test_run \<Rightarrow> database \<Rightarrow> string + database" where
  "UpdateTestRunStatus drv n run d =
     execStmt drv n
       (testRuns_update (tbl_update (trRunID run)
          (\<lambda>r. if trTestID r = trTestID run
               then r\<lparr>trStatus := trStatus run, trStartTime := trStartTime run,
                      trStopTime := trStopTime run\<rparr>
               else r))) d"

definition GetTestRunByRunID :: "db_driver \<Rightarrow> u64 \<Rightarrow> database \<Rightarrow> string + db_test_run" where
  "GetTestRunByRunID drv runID d =
     (case queryErr drv of
        Some e \<Rightarrow> Inl e
      | None \<Rightarrow> (case map_of (testRuns d) runID of None \<Rightarrow> Inl sqlErrNoRows | Some r \<Rightarrow> Inr r))"

text \<open>
  The rows of the common table expression, the count row and the page below it. Postgres reads
  the double-quoted empty string as an identifier and refuses it; sqlite refuses \<open>OFFSET\<close>
  without \<open>LIMIT\<close>.
\<close>

definition testRunCte :: "string \<Rightarrow> u64 \<Rightarrow> database \<Rightarrow> db_test_run list" where
  "testRunCte testID firstRunID d =
     filter (\<lambda>r. (testID \<noteq> '''' \<longrightarrow> trTestID r = testID) \<and> (0 < firstRunID \<longrightarrow> trRunID r \<le> firstRunID))
       (map snd (testRuns d))"

definition GetTestRunRange ::
    "db_driver \<Rightarrow> string \<Rightarrow> u64 \<Rightarrow> u64 \<Rightarrow> u64 \<Rightarrow> database \<Rightarrow>
     string + (db_test_run list \<times> nat)" where
  "GetTestRunRange drv testID firstRunID offset limit d =
     (if engine d = EnginePgsql then Inl ''zero-length delimited identifier''
      else if limit = 0 \<and> 0 < offset then Inl ''near OFFSET: syntax error''
      else case queryErr drv of
             Some e \<Rightarrow> Inl e
           | None \<Rightarrow>
               (let cte = testRunCte testID firstRunID d;
                    rows = rev (sort_key trRunID cte);
                    page = (if 0 < limit then take (unat limit) (drop (unat offset) rows) else rows)
                in Inr (page, length cte)))"

definition DeleteTestRun :: "db_driver \<Rightarrow> nat \<Rightarrow> u64 \<Rightarrow> database \<Rightarrow> string + database" where
  "DeleteTestRun drv n runID d =
     (case execStmt drv n (testRuns_update (filter (\<lambda>(k, r). k \<noteq> runID))) d of
        Inl e \<Rightarrow> Inl e
      | Inr d1 \<Rightarrow>
          (case execStmt drv (n + 1) (taskStates_update (filter (\<lambda>(k, r). fst k \<noteq> runID))) d1 of
             Inl e \<Rightarrow> Inl e
           | Inr d2 \<Rightarrow>
               execStmt drv (n + 2) (taskLogs_update (filter (\<lambda>(k, r). fst k \<noteq> runID))) d2))"

definition CleanupUncleanTestRuns :: "db_driver \<Rightarrow> nat \<Rightarrow> database \<Rightarrow> string + database" where
  "CleanupUncleanTestRuns drv n d =
     (case execStmt drv n
        (testRuns_update (map (\<lambda>(k, r).
           (k, if trStatus r = ''running'' then r\<lparr>trStatus := ''aborted''\<rparr> else r)))) d of
        Inl e \<Rightarrow> Inl e
      | Inr d1 \<Rightarrow>
          execStmt drv (n + 1)
            (taskStates_update (map (\<lambda>(k, r).
               (k, if tsRunFlags r AND TaskRunFlagRunning > 0
                   then r\<lparr>tsRunFlags := tsRunFlags r AND NOT TaskRunFlagRunning\<rparr> else r)))) d1)"

section \<open>Test configs, state, logs and results\<close>

definition InsertTestConfig :: "db_driver \<Rightarrow> nat \<Rightarrow> db_test_config \<Rightarrow> database \<Rightarrow> string + database" where
  "InsertTestConfig drv n cfg d =
     (case execErr drv n of
        Some e \<Rightarrow> Inl e
      | None \<Rightarrow>
          (case upsert (engine d) [''test_id''] [''test_id'']
                  (\<lambda>old new. new\<lparr>tcTestID := tcTestID old\<rparr>) (tcTestID cfg) cfg (testConfigs d) of
             Inl e \<Rightarrow> Inl e
           | Inr t \<Rightarrow> Inr (d\<lparr>testConfigs := t\<rparr>)))"

definition GetTestConfigs :: "db_driver \<Rightarrow> database \<Rightarrow> string + db_test_config list" where
  "GetTestConfigs drv d =
     (case queryErr drv of Some e \<Rightarrow> Inl e | None \<Rightarrow> Inr (map snd (testConfigs d)))"

definition GetTestRunStats :: "db_driver \<Rightarrow> database \<Rightarrow> string + db_test_run_stats list" where
  "GetTestRunStats drv d =
     (case queryErr drv of
        Some e \<Rightarrow> Inl e
      | None \<Rightarrow>
          Inr (map (\<lambda>tid.
                 (let rows = filter (\<lambda>r. trTestID r = tid) (map snd (testRuns d))
                  in \<lparr>trsTestID = tid, trsCount = length rows,
                      trsLastRun = foldr max (map trStartTime (tl rows)) (trStartTime (hd rows))\<rparr>))
               (remdups (map (trTestID \<circ> snd) (testRuns d)))))"

definition DeleteTestConfig :: "db_driver \<Rightarrow> nat \<Rightarrow> string \<Rightarrow> database \<Rightarrow> string + database" where
  "DeleteTestConfig drv n testID d =
     execStmt drv n (testConfigs_update (AList.delete testID)) d"

text \<open>JSON is a parameter: the encoder and the decoder of the stored text.\<close>

definition SetAssertoorState ::
    "('x \<Rightarrow> string + string) \<Rightarrow> db_driver \<Rightarrow> nat \<Rightarrow> string \<Rightarrow> 'x \<Rightarrow> database \<Rightarrow> string + database" where
  "SetAssertoorState jsonMarshal drv n key x d =
     (case jsonMarshal x of
        Inl e \<Rightarrow> Inl e
      | Inr txt \<Rightarrow>
          (case execErr drv n of
             Some e \<Rightarrow> Inl e
           | None \<Rightarrow>
               (case upsert (engine d) [''key''] [''key''] (\<lambda>old new. new) key txt (assertoorState d) of
                  Inl e \<Rightarrow> Inl e
                | Inr t \<Rightarrow> Inr (d\<lparr>assertoorState := t\<rparr>))))"

definition GetAssertoorState ::
    "(string \<Rightarrow> string + 'x) \<Rightarrow> db_driver \<Rightarrow> string \<Rightarrow> database \<Rightarrow> string + 'x" where
  "GetAssertoorState jsonUnmarshal drv key d =
     (case queryErr drv of
        Some e \<Rightarrow> Inl e
      | None \<Rightarrow> (case map_of (assertoorState d) key of
                   None \<Rightarrow> Inl sqlErrNoRows
                 | Some txt \<Rightarrow> jsonUnmarshal txt))"

text \<open>The Postgres conflict target of the log table is not its primary key.\<close>

definition InsertTaskLog :: "db_driver \<Rightarrow> nat \<Rightarrow> db_task_log \<Rightarrow> database \<Rightarrow> string + database" where
  "InsertTaskLog drv n lg d =
     (case execErr drv n of
        Some e \<Rightarrow> Inl e
      | None \<Rightarrow>
          (case upsert (engine d) [''run_id'', ''task_id'', ''log_idx''] [''run_id'', ''task_id'', ''log_time'']
                  (\<lambda>old new. new\<lparr>tlRunID := tlRunID old, tlTaskID := tlTaskID old, tlLogIndex := tlLogIndex old\<rparr>)
                  (tlRunID lg, tlTaskID lg, tlLogIndex lg) lg (taskLogs d) of
             Inl e \<Rightarrow> Inl e
           | Inr t \<Rightarrow> Inr (d\<lparr>taskLogs := t\<rparr>)))"

definition taskLogRows :: "u64 \<Rightarrow> u64 \<Rightarrow> database \<Rightarrow> db_task_log list" where
  "taskLogRows runID taskID d =
     filter (\<lambda>r. tlRunID r = runID \<and> tlTaskID r = taskID) (map snd (taskLogs d))"

definition GetTaskLogs ::
    "db_driver \<Rightarrow> u64 \<Rightarrow> u64 \<Rightarrow> u64 \<Rightarrow> u64 \<Rightarrow> database \<Rightarrow> string + db_task_log list" where
  "GetTaskLogs drv runID taskID fromIdx limit d =
     (case queryErr drv of
        Some e \<Rightarrow> Inl e
      | None \<Rightarrow>
          Inr (take (unat limit)
                (sort_key tlLogIndex
                   (filter (\<lambda>r. fromIdx \<le> tlLogIndex r) (taskLogRows runID taskID d)))))"

definition GetLastLogIndex :: "db_driver \<Rightarrow> u64 \<Rightarrow> u64 \<Rightarrow> database \<Rightarrow> string + u64" where
  "GetLastLogIndex drv runID taskID d =
     (case queryErr drv of
        Some e \<Rightarrow> Inl e
      | None \<Rightarrow> Inr (foldr max (map tlLogIndex (taskLogRows runID taskID d)) 0))"

definition UpsertTaskResult :: "db_driver \<Rightarrow> nat \<Rightarrow> db_task_result \<Rightarrow> database \<Rightarrow> string + database" where
  "UpsertTaskResult drv n res d =
     (case execErr drv n of
        Some e \<Rightarrow> Inl e
      | None \<Rightarrow>
          (case upsert (engine d) [''run_id'', ''task_id'', ''result_type'', ''result_index'']
                  [''run_id'', ''task_id'', ''result_type'', ''result_index'']
                  (\<lambda>old new. new\<lparr>rsRunID := rsRunID old, rsTaskID := rsTaskID old,
                                 rsType := rsType old, rsIndex := rsIndex old\<rparr>)
                  (rsRunID res, rsTaskID res, rsType res, rsIndex res) res (taskResults d) of
             Inl e \<Rightarrow> Inl e
           | Inr t \<Rightarrow> Inr (d\<lparr>taskResults := t\<rparr>)))"

definition GetTaskResultByIndex ::
    "db_driver \<Rightarrow> u64 \<Rightarrow> u64 \<Rightarrow> string \<Rightarrow> u64 \<Rightarrow> database \<Rightarrow> string + db_task_result" where
  "GetTaskResultByIndex drv runID taskID typ idx d =
     (case queryErr drv of
        Some e \<Rightarrow> Inl e
      | None \<Rightarrow> (case map_of (taskResults d) (runID, taskID, typ, idx) of
                   None \<Rightarrow> Inl sqlErrNoRows
                 | Some r \<Rightarrow> Inr r))"

definition GetTaskResults ::
    "db_driver \<Rightarrow> u64 \<Rightarrow> u64 \<Rightarrow> string \<Rightarrow> database \<Rightarrow> string + db_task_result list" where
  "GetTaskResults drv runID taskID typ d =
     (case queryErr drv of
        Some e \<Rightarrow> Inl e
      | None \<Rightarrow> Inr (filter (\<lambda>r. rsRunID r = runID \<and> rsTaskID r = taskID \<and> rsType r = typ)
                      (map snd (taskResults d))))"

definition GetTaskResultByName ::
    "db_driver \<Rightarrow> u64 \<Rightarrow> u64 \<Rightarrow> string \<Rightarrow> string \<Rightarrow> database \<Rightarrow> string + db_task_result" where
  "GetTaskResultByName drv runID taskID typ nm d =
     (case GetTaskResults drv runID taskID typ d of
        Inl e \<Rightarrow> Inl e
      | Inr rs \<Rightarrow> (case filter (\<lambda>r. rsName r = nm) rs of [] \<Rightarrow> Inl sqlErrNoRows | r # _ \<Rightarrow> Inr r))"

definition GetAllTaskResultHeaders ::
    "db_driver \<Rightarrow> u64 \<Rightarrow> database \<Rightarrow> string + db_task_result_header list" where
  "GetAllTaskResultHeaders drv runID d =
     (case queryErr drv of
        Some e \<Rightarrow> Inl e
      | None \<Rightarrow>
          Inr (map (\<lambda>r. \<lparr>rhTaskID = rsTaskID r, rhType = rsType r, rhIndex = rsIndex r,
                         rhName = rsName r, rhSize = rsSize r\<rparr>)
                (filter (\<lambda>r. rsRunID r = runID) (map snd (taskResults d)))))"


section \<open>Transactions are atomic\<close>

text \<open>A transaction either reports no error and leaves exactly the tables its handler computed,
  or reports an error and leaves the tables as they were.
\<close>

theorem RunTransaction_atomic:
  "case RunTransaction drv handler d of
     (None, d') \<Rightarrow> handler d = Inr d'
   | (Some e, d') \<Rightarrow> d' = d"
  by (simp add: RunTransaction_def split: option.split sum.split)

lemma RunTransaction_cases:
  assumes "RunTransaction drv handler d = (err, d')"
  shows "(err = None \<and> handler d = Inr d') \<or> (err \<noteq> None \<and> d' = d)"
  using assms by (auto simp: RunTransaction_def split: option.splits sum.splits)

lemma RunTransaction_reliable:
  "RunTransaction reliable_driver handler d =
     (case handler d of Inl e \<Rightarrow> (Some e, d) | Inr d' \<Rightarrow> (None, d'))"
  by (simp add: RunTransaction_def reliable_driver_def split: sum.split)

lemma execErr_reliable [simp]: "execErr reliable_driver n = None"
  by (simp add: reliable_driver_def)

lemma queryErr_reliable [simp]: "queryErr reliable_driver = None"
  by (simp add: reliable_driver_def)

lemma execStmt_reliable [simp]: "execStmt reliable_driver n f d = Inr (f d)"
  by (simp add: execStmt_def)

section \<open>The table invariant\<close>

text \<open>Primary keys are unique and agree with the key columns of the row.\<close>

definition keyed :: "('r \<Rightarrow> 'k) \<Rightarrow> ('k \<times> 'r) list \<Rightarrow> bool" where
  "keyed key t \<longleftrightarrow> go_map t \<and> (\<forall>(k, r)\<in>set t. key r = k)"

abbreviation taskStateKey :: "db_task_state \<Rightarrow> u64 \<times> u64" where
  "taskStateKey r \<equiv> (tsRunID r, tsTaskID r)"
abbreviation taskLogKey :: "db_task_log \<Rightarrow> u64 \<times> u64 \<times> u64" where
  "taskLogKey r \<equiv> (tlRunID r, tlTaskID r, tlLogIndex r)"
abbreviation taskResultKey :: "db_task_result \<Rightarrow> u64 \<times> u64 \<times> string \<times> u64" where
  "taskResultKey r \<equiv> (rsRunID r, rsTaskID r, rsType r, rsIndex r)"

definition db_wf :: "database \<Rightarrow> bool" where
  "db_wf d \<longleftrightarrow> go_map (assertoorState d) \<and> keyed tcTestID (testConfigs d) \<and>
     keyed trRunID (testRuns d) \<and> keyed taskStateKey (taskStates d) \<and>
     keyed taskLogKey (taskLogs d) \<and> keyed taskResultKey (taskResults d)"

lemma keyed_Nil [simp]: "keyed key []"
  by (simp add: keyed_def)

lemma keyed_go_map: "keyed key t \<Longrightarrow> go_map t"
  by (simp add: keyed_def)

lemma keyed_lookup: "keyed key t \<Longrightarrow> map_of t k = Some r \<Longrightarrow> key r = k"
  by (auto simp: keyed_def dest: map_of_SomeD)

lemma keyed_update [simp]: "keyed key t \<Longrightarrow> key r = k \<Longrightarrow> keyed key (AList.update k r t)"
  using set_update_subset [of k r t] by (fastforce simp: keyed_def)

lemma keyed_filter [simp]: "keyed key t \<Longrightarrow> keyed key (filter P t)"
  by (auto simp: keyed_def go_map_def distinct_map_filter)

lemma keyed_delete [simp]: "keyed key t \<Longrightarrow> keyed key (AList.delete k t)"
  by (simp add: AList.delete_eq)

lemma keyed_map_rows [simp]:
  assumes "keyed key t" and "\<And>r. key (f r) = key r"
  shows "keyed key (map (\<lambda>(k, r). (k, f r)) t)"
proof -
  have "distinct (map fst (map (\<lambda>(k, r). (k, f r)) t)) = distinct (map fst t)"
    by (simp add: comp_def case_prod_unfold)
  then show ?thesis using assms unfolding keyed_def go_map_def by (auto simp del: map_map)
qed

lemma keyed_tbl_update [simp]:
  assumes "keyed key t" and "\<And>r. key (f r) = key r"
  shows "keyed key (tbl_update k f t)"
proof (cases "map_of t k")
  case (Some r)
  then have "key (f r) = k" using assms keyed_lookup [OF assms(1) Some] by simp
  with Some assms(1) show ?thesis by (simp add: tbl_update_def)
qed (use assms(1) in \<open>simp add: tbl_update_def\<close>)

lemma map_of_tbl_update:
  "map_of (tbl_update k f t) k' = (if k' = k then map_option f (map_of t k) else map_of t k')"
  by (auto simp: tbl_update_def split: option.split)

lemma keyed_upsert:
  assumes "upsert eng pk tg mg k r t = Inr t'" and "keyed key t" and "key r = k"
    and "\<And>old. key (mg old r) = key old"
  shows "keyed key t'"
proof -
  have "t' = AList.update k r t \<or> (\<exists>old. map_of t k = Some old \<and> t' = AList.update k (mg old r) t)"
    using assms(1) by (auto simp: upsert_def split: engine_type.splits if_splits option.splits)
  then show ?thesis
  proof
    assume "\<exists>old. map_of t k = Some old \<and> t' = AList.update k (mg old r) t"
    then obtain old where old: "map_of t k = Some old" "t' = AList.update k (mg old r) t" by blast
    have "key (mg old r) = k" using assms(4) [of old] keyed_lookup [OF assms(2) old(1)] by simp
    then show ?thesis using assms(2) old(2) by simp
  qed (use assms(2,3) in simp)
qed

lemma go_map_upsert: "upsert eng pk tg mg k r t = Inr t' \<Longrightarrow> go_map t \<Longrightarrow> go_map t'"
  by (auto simp: upsert_def split: engine_type.splits if_splits option.splits)

lemma setTaskColumn_key: "setTaskColumn f st = Some g \<Longrightarrow> taskStateKey (g row) = taskStateKey row"
  by (auto simp: setTaskColumn_def split: if_splits)

lemma setTaskColumns_key:
  "setTaskColumns fs st = Inr g \<Longrightarrow> taskStateKey (g row) = taskStateKey row"
proof (induction fs arbitrary: g row)
  case (Cons f fs)
  then show ?case
    by (auto split: option.splits sum.splits dest!: setTaskColumn_key [of _ _ _ row])
qed simp

text \<open>The statements that may change a table, as the handlers of a transaction.\<close>

inductive db_stmt :: "db_driver \<Rightarrow> (database \<Rightarrow> string + database) \<Rightarrow> bool" for drv where
  "db_stmt drv (InsertTaskState drv n st)"
| "db_stmt drv (UpdateTaskStateStatus drv n st fs)"
| "db_stmt drv (InsertTestRun drv n run)"
| "db_stmt drv (UpdateTestRunStatus drv n run)"
| "db_stmt drv (DeleteTestRun drv n runID)"
| "db_stmt drv (CleanupUncleanTestRuns drv n)"
| "db_stmt drv (InsertTestConfig drv n cfg)"
| "db_stmt drv (DeleteTestConfig drv n testID)"
| "db_stmt drv (SetAssertoorState enc drv n key (x::string))"
| "db_stmt drv (InsertTaskLog drv n lg)"
| "db_stmt drv (UpsertTaskResult drv n res)"

lemma db_stmt_keeps:
  assumes "db_stmt drv handler" and "handler d = Inr d'" and "db_wf d"
  shows "db_wf d' \<and> engine d' = engine d"
  using assms
proof (induction rule: db_stmt.induct)
  case (2 n st fs)
  then obtain g where g: "setTaskColumns fs st = Inr g"
    by (auto simp: UpdateTaskStateStatus_def split: sum.splits)
  then have "taskStateKey (g r) = taskStateKey r" for r by (rule setTaskColumns_key)
  then show ?case using 2 g
    by (auto simp: UpdateTaskStateStatus_def execStmt_def db_wf_def split: option.splits if_splits)
qed (auto simp: db_wf_def execStmt_def InsertTaskState_def InsertTestRun_def UpdateTestRunStatus_def
    DeleteTestRun_def CleanupUncleanTestRuns_def InsertTestConfig_def DeleteTestConfig_def
    SetAssertoorState_def InsertTaskLog_def UpsertTaskResult_def
    split: option.splits sum.splits elim!: keyed_upsert intro: go_map_upsert)

definition sample_run :: "u64 \<Rightarrow> string \<Rightarrow> string \<Rightarrow> db_test_run" where
  "sample_run rid tid st = \<lparr>trRunID = rid, trTestID = tid, trName = ''n'', trSource = '''',
     trConfig = '''', trStartTime = 0, trStopTime = 0, trTimeout = 0, trStatus = st\<rparr>"

definition sample_task :: "u64 \<Rightarrow> u64 \<Rightarrow> u32 \<Rightarrow> db_task_state" where
  "sample_task rid tid flags = \<lparr>tsRunID = rid, tsTaskID = tid, tsParentTask = 0, tsName = ''sleep'',
     tsTitle = '''', tsRefID = '''', tsTimeout = 0, tsIfCond = '''', tsRunFlags = flags,
     tsStartTime = 0, tsStopTime = 0, tsScopeOwner = 0, tsTaskConfig = '''', tsTaskStatus = '''',
     tsTaskResult = 0, tsTaskError = ''''\<rparr>"

definition sample_db :: database where
  "sample_db = NewDatabase\<lparr>engine := EngineSqlite,
     testRuns := [(1, sample_run 1 ''a'' ''running''), (2, sample_run 2 ''b'' ''success'')],
     taskStates := [((1, 1), sample_task 1 1 6), ((2, 1), sample_task 2 1 2)]\<rparr>"

lemma sample_db_wf: "db_wf sample_db"
  by (simp add: sample_db_def NewDatabase_def db_wf_def keyed_def go_map_def sample_run_def
      sample_task_def)

section \<open>Row stores\<close>

text \<open>
  What a client may rely on after inserting rows: an insert succeeds, the row is then read back
  under its key, and the rows of other keys are unaffected.
\<close>

primrec ins_rows :: "('r \<Rightarrow> 'd \<Rightarrow> 'e + 'd) \<Rightarrow> 'r list \<Rightarrow> 'd \<Rightarrow> 'e + 'd" where
  "ins_rows ins [] d = Inr d"
| "ins_rows ins (r # rs) d = (case ins r d of Inl e \<Rightarrow> Inl e | Inr d' \<Rightarrow> ins_rows ins rs d')"

locale row_store =
  fixes ins :: "'r \<Rightarrow> 'd \<Rightarrow> 'e + 'd"
    and sel :: "'k \<Rightarrow> 'd \<Rightarrow> 'e + 'r"
    and key :: "'r \<Rightarrow> 'k"
    and ok :: "'d \<Rightarrow> bool"
  assumes ins_ok: "ok d \<Longrightarrow> \<exists>d'. ins r d = Inr d' \<and> ok d'"
    and sel_ins: "ok d \<Longrightarrow> ins r d = Inr d' \<Longrightarrow> sel k d' = (if k = key r then Inr r else sel k d)"
begin

lemma ins_all_ok: "ok d \<Longrightarrow> \<exists>d'. ins_rows ins rs d = Inr d' \<and> ok d'"
proof (induction rs arbitrary: d)
  case (Cons r rs)
  obtain d1 where d1: "ins r d = Inr d1" "ok d1" using ins_ok [OF Cons.prems] by blast
  then show ?case using Cons.IH [of d1] by simp
qed simp

text \<open>The last row inserted under a key is the one that is read.\<close>

lemma sel_ins_all:
  assumes "ok d" and "ins_rows ins rs d = Inr d'"
  shows "sel k d' = (case filter (\<lambda>r. key r = k) (rev rs) of [] \<Rightarrow> sel k d | r # _ \<Rightarrow> Inr r)"
  using assms
proof (induction rs arbitrary: d)
  case (Cons r rs)
  obtain d1 where d1: "ins r d = Inr d1" "ok d1" using ins_ok [OF Cons.prems(1)] by blast
  have "sel k d' = (case filter (\<lambda>r. key r = k) (rev rs) of [] \<Rightarrow> sel k d1 | r # _ \<Rightarrow> Inr r)"
    by (rule Cons.IH [OF d1(2)]) (use Cons.prems(2) d1(1) in simp)
  then show ?case
    using sel_ins [OF Cons.prems(1) d1(1), of k]
    by (cases "filter (\<lambda>r. key r = k) (rev rs)") auto
qed simp

lemma sel_ins_all_distinct:
  assumes "ok d" and "ins_rows ins rs d = Inr d'" and "distinct (map key rs)" and "r \<in> set rs"
  shows "sel (key r) d' = Inr r"
proof -
  have "filter (\<lambda>x. key x = key r) (rev rs) \<noteq> []" using assms(4) by (auto simp: filter_empty_conv)
  then obtain y ys where ys: "filter (\<lambda>x. key x = key r) (rev rs) = y # ys"
    by (cases "filter (\<lambda>x. key x = key r) (rev rs)") auto
  then have "y \<in> set (filter (\<lambda>x. key x = key r) (rev rs))" by simp
  then have "y \<in> set rs" "key y = key r" by auto
  then have "y = r" using assms(3,4) by (auto simp: distinct_map inj_on_def)
  then show ?thesis using sel_ins_all [OF assms(1,2), of "key r"] ys by simp
qed

end

definition initialised :: "database \<Rightarrow> bool" where
  "initialised d \<longleftrightarrow> engine d \<noteq> EngineAny"

lemma upsert_replaces:
  assumes "eng \<noteq> EngineAny" and "\<And>old. map_of t k = Some old \<Longrightarrow> mg old r = r"
  shows "upsert eng pk pk mg k r t = Inr (AList.update k r t)"
  using assms by (cases eng) (auto simp: upsert_def split: option.split)

lemma InsertTaskState_reliable:
  assumes "db_wf d" and "initialised d"
  shows "InsertTaskState reliable_driver n st d =
    Inr (d\<lparr>taskStates := AList.update (taskStateKey st) st (taskStates d)\<rparr>)"
proof -
  have "keyed taskStateKey (taskStates d)" using assms(1) by (simp add: db_wf_def)
  from keyed_lookup [OF this, of "taskStateKey st"]
  have "upsert (engine d) pk pk (\<lambda>old new. new\<lparr>tsRunID := tsRunID old, tsTaskID := tsTaskID old\<rparr>)
      (taskStateKey st) st (taskStates d) = Inr (AList.update (taskStateKey st) st (taskStates d))" for pk
    using assms(2) by (intro upsert_replaces) (auto simp: initialised_def)
  then show ?thesis by (simp add: InsertTaskState_def)
qed

lemma UpsertTaskResult_reliable:
  assumes "db_wf d" and "initialised d"
  shows "UpsertTaskResult reliable_driver n res d =
    Inr (d\<lparr>taskResults := AList.update (taskResultKey res) res (taskResults d)\<rparr>)"
proof -
  have "keyed taskResultKey (taskResults d)" using assms(1) by (simp add: db_wf_def)
  from keyed_lookup [OF this, of "taskResultKey res"]
  have "upsert (engine d) pk pk (\<lambda>old new. new\<lparr>rsRunID := rsRunID old, rsTaskID := rsTaskID old,
        rsType := rsType old, rsIndex := rsIndex old\<rparr>)
      (taskResultKey res) res (taskResults d) =
      Inr (AList.update (taskResultKey res) res (taskResults d))" for pk
    using assms(2) by (intro upsert_replaces) (auto simp: initialised_def)
  then show ?thesis by (simp add: UpsertTaskResult_def)
qed

interpretation task_rows: row_store "InsertTaskState reliable_driver 0"
  "\<lambda>(runID, taskID). GetTaskStateByTaskID reliable_driver runID taskID" taskStateKey
  "\<lambda>d. db_wf d \<and> initialised d"
  by unfold_locales
    (auto simp: InsertTaskState_reliable GetTaskStateByTaskID_def db_wf_def initialised_def
      split: if_splits)

interpretation result_rows: row_store "UpsertTaskResult reliable_driver 0"
  "\<lambda>(runID, taskID, typ, idx). GetTaskResultByIndex reliable_driver runID taskID typ idx" taskResultKey
  "\<lambda>d. db_wf d \<and> initialised d"
  by unfold_locales
    (auto simp: UpsertTaskResult_reliable GetTaskResultByIndex_def db_wf_def initialised_def
      split: if_splits)

interpretation run_rows: row_store "InsertTestRun reliable_driver 0"
  "GetTestRunByRunID reliable_driver" trRunID "\<lambda>d. engine d = EngineSqlite"
  by unfold_locales (auto simp: InsertTestRun_def upsert_def GetTestRunByRunID_def)

section \<open>What the statements do\<close>

text \<open>Deleting a test run leaves no run, task state or log row of it and every row of the other
  runs; the result rows of the deleted run stay in the table.
\<close>

theorem DeleteTestRun_deletes:
  assumes "RunTransaction drv (DeleteTestRun drv n runID) d = (None, d')"
  shows "map_of (testRuns d') = (map_of (testRuns d))(runID := None) \<and>
    (\<forall>r t. map_of (taskStates d') (r, t) = (if r = runID then None else map_of (taskStates d) (r, t))) \<and>
    (\<forall>r t i. map_of (taskLogs d') (r, t, i) = (if r = runID then None else map_of (taskLogs d) (r, t, i))) \<and>
    taskResults d' = taskResults d"
proof -
  have d': "DeleteTestRun drv n runID d = Inr d'" using RunTransaction_cases [OF assms(1)] by simp
  have dropped: "map_of (filter (\<lambda>(k, r). P k) t) k = (if P k then map_of t k else None)"
    for P and t :: "('k \<times> 'r) list" and k
    by (induction t) auto
  show ?thesis using d'
    by (auto simp: DeleteTestRun_def execStmt_def dropped split: option.splits sum.splits)
qed

theorem DeleteTestRun_deletes_witness:
  "(let d' = snd (RunTransaction reliable_driver (DeleteTestRun reliable_driver 0 1) sample_db)
    in map_of (testRuns d') 1 = None \<and> map_of (testRuns d') 2 = Some (sample_run 2 ''b'' ''success''))"
proof -
  let ?d' = "snd (RunTransaction reliable_driver (DeleteTestRun reliable_driver 0 1) sample_db)"
  have "RunTransaction reliable_driver (DeleteTestRun reliable_driver 0 1) sample_db = (None, ?d')"
    by (simp add: RunTransaction_reliable DeleteTestRun_def)
  from DeleteTestRun_deletes [OF this] show ?thesis
    by (simp add: sample_db_def)
qed

lemma running_flag_cleared: "(x AND NOT TaskRunFlagRunning) AND TaskRunFlagRunning = 0"
  by (simp add: and.assoc)

lemma map_of_map_rows: "map_of (map (\<lambda>(k, r). (k, f r)) t) k = map_option f (map_of t k)"
  by (induction t) auto

text \<open>After the startup cleanup no test run has status running and no task has the running flag;
  a run in any other status and a task without the flag are unchanged, and a task that had the
  flag loses only it.
\<close>

theorem CleanupUncleanTestRuns_effect:
  assumes "RunTransaction drv (CleanupUncleanTestRuns drv n) d = (None, d')"
  shows "(\<forall>k. map_of (testRuns d') k = map_option
       (\<lambda>r. if trStatus r = ''running'' then r\<lparr>trStatus := ''aborted''\<rparr> else r) (map_of (testRuns d) k)) \<and>
    (\<forall>k. map_of (taskStates d') k = map_option
       (\<lambda>r. r\<lparr>tsRunFlags := tsRunFlags r AND NOT TaskRunFlagRunning\<rparr>) (map_of (taskStates d) k)) \<and>
    (\<forall>k r. map_of (taskStates d') k = Some r \<longrightarrow> tsRunFlags r AND TaskRunFlagRunning = 0)"
proof -
  have clear: "(if tsRunFlags r AND TaskRunFlagRunning > 0
      then r\<lparr>tsRunFlags := tsRunFlags r AND NOT TaskRunFlagRunning\<rparr> else r) =
      r\<lparr>tsRunFlags := tsRunFlags r AND NOT TaskRunFlagRunning\<rparr>" for r
  proof (cases "tsRunFlags r AND TaskRunFlagRunning = 0")
    case True
    then have "tsRunFlags r AND NOT TaskRunFlagRunning = tsRunFlags r"
      by (metis (no_types) and.right_neutral bit.conj_disj_distrib bit.disj_cancel_right or.left_neutral)
    then show ?thesis using True by simp
  qed (simp add: word_gt_0)
  have d': "CleanupUncleanTestRuns drv n d = Inr d'" using RunTransaction_cases [OF assms] by simp
  show ?thesis using d'
    by (auto simp: CleanupUncleanTestRuns_def execStmt_def clear map_of_map_rows running_flag_cleared
        split: option.splits sum.splits)
qed

theorem CleanupUncleanTestRuns_effect_witness:
  "(let d' = snd (RunTransaction reliable_driver (CleanupUncleanTestRuns reliable_driver 0) sample_db)
    in map_option trStatus (map_of (testRuns d') 1) = Some ''aborted'' \<and>
       map_option tsRunFlags (map_of (taskStates d') (1, 1)) = Some 2)"
proof -
  let ?d' = "snd (RunTransaction reliable_driver (CleanupUncleanTestRuns reliable_driver 0) sample_db)"
  have "RunTransaction reliable_driver (CleanupUncleanTestRuns reliable_driver 0) sample_db = (None, ?d')"
    by (simp add: RunTransaction_reliable CleanupUncleanTestRuns_def)
  from CleanupUncleanTestRuns_effect [OF this] show ?thesis
    by (simp add: sample_db_def sample_run_def sample_task_def TaskRunFlagRunning_def)
qed

lemma chunks_take:
  "concat (map (\<lambda>i. take k (drop (k * i) xs)) [0..<n]) = take (k * n) xs"
proof (induction n)
  case (Suc n)
  have "k * Suc n = k * n + k" by simp
  then show ?case using Suc by (simp only: take_add) simp
qed simp

lemma chunks_concat:
  "length xs \<le> k * n \<Longrightarrow> concat (map (\<lambda>i. take k (drop (k * i) xs)) [0..<n]) = xs"
  by (simp add: chunks_take)

text \<open>A page of test runs on sqlite: consecutive pages of one size, laid end to end, are the
  matching runs in strictly descending order of run id, and the total reported with every page is
  their number.
\<close>

theorem GetTestRunRange_pages:
  assumes "db_wf d" and "engine d = EngineSqlite" and "0 < limit" and "queryErr drv = None"
    and "unat limit * n < 2 ^ 64" and "length (testRunCte testID first d) \<le> unat limit * n"
  shows "\<exists>pages. length pages = n \<and> sorted_wrt (>) (map trRunID (concat pages)) \<and>
    set (concat pages) = set (testRunCte testID first d) \<and>
    (\<forall>i<n. GetTestRunRange drv testID first (limit * of_nat i) limit d =
       Inr (pages ! i, length (concat pages)))"
proof -
  let ?c = "testRunCte testID first d"
  let ?rows = "rev (sort_key trRunID ?c)"
  have "distinct (map trRunID (map snd (testRuns d)))"
  proof -
    have "map trRunID (map snd (testRuns d)) = map fst (testRuns d)"
      using assms(1) by (auto simp: db_wf_def keyed_def)
    moreover have "distinct (map fst (testRuns d))"
      using assms(1) by (simp add: db_wf_def keyed_def go_map_def)
    ultimately show ?thesis by (simp only:)
  qed
  then have "distinct (map trRunID ?c)" by (simp only: testRunCte_def distinct_map_filter)
  then have "distinct (map trRunID (sort_key trRunID ?c))"
    by (metis mset_map mset_sort mset_eq_imp_distinct_iff)
  then have "sorted_wrt (>) (map trRunID ?rows)"
    by (simp add: rev_map [symmetric] sorted_wrt_rev strict_sorted_iff)
  moreover have "set ?rows = set ?c" by simp
  moreover have "GetTestRunRange drv testID first (limit * of_nat i) limit d =
      Inr (take (unat limit) (drop (unat limit * i) ?rows), length ?rows)" if "i < n" for i
  proof -
    have "unat limit * i < 2 ^ 64" using assms(5) that
      by (meson le_less_trans less_imp_le mult_le_mono2)
    then have "unat (limit * of_nat i) = unat limit * i"
      by (simp add: unat_word_ariths unat_of_nat mod_mult_right_eq)
    then show ?thesis using assms(2,3,4) by (simp add: GetTestRunRange_def Let_def)
  qed
  ultimately show ?thesis using chunks_concat [of ?rows "unat limit" n] assms(6)
    by (intro exI [of _ "map (\<lambda>i. take (unat limit) (drop (unat limit * i) ?rows)) [0..<n]"]) simp
qed

theorem GetTestRunRange_pages_witness:
  "\<exists>pages. length pages = 2 \<and> sorted_wrt (>) (map trRunID (concat pages)) \<and>
    set (concat pages) = set (testRunCte '''' 0 sample_db) \<and>
    (\<forall>i<2. GetTestRunRange reliable_driver '''' 0 (1 * of_nat i) 1 sample_db =
       Inr (pages ! i, length (concat pages)))"
  by (rule GetTestRunRange_pages [OF sample_db_wf])
     (simp_all add: sample_db_def testRunCte_def NewDatabase_def)

text \<open>
  On Postgres no log line is ever stored: the conflict clause of the insert names columns that
  are not a unique key of the table, so the statement is refused and the transaction rolled back.
\<close>

theorem InsertTaskLog_refused_on_pgsql:
  assumes "engine d = EnginePgsql"
  shows "\<exists>e. RunTransaction drv (InsertTaskLog drv n lg) d = (Some e, d)"
  using assms
  by (auto simp: RunTransaction_def InsertTaskLog_def upsert_def split: option.split)

theorem InsertTaskLog_refused_on_pgsql_witness:
  "\<exists>e. RunTransaction reliable_driver
     (InsertTaskLog reliable_driver 0 \<lparr>tlRunID = 1, tlTaskID = 1, tlLogIndex = 1, tlLogTime = 0,
        tlLogLevel = 4, tlLogFields = '''', tlLogMessage = ''starting task''\<rparr>)
     (NewDatabase\<lparr>engine := EnginePgsql\<rparr>) = (Some e, NewDatabase\<lparr>engine := EnginePgsql\<rparr>)"
  by (rule InsertTaskLog_refused_on_pgsql) simp

text \<open>The state of a test run is stored and read back: after inserting any list of task states
  with different keys into an initialised database, each is returned by its run and task id.
\<close>

theorem task_states_read_back:
  assumes "db_wf d" and "initialised d" and "ins_rows (InsertTaskState reliable_driver 0) rs d = Inr d'"
    and "distinct (map taskStateKey rs)" and "st \<in> set rs"
  shows "GetTaskStateByTaskID reliable_driver (tsRunID st) (tsTaskID st) d' = Inr st"
  using task_rows.sel_ins_all_distinct [OF _ assms(3,4,5)] assms(1,2) by simp

theorem task_states_read_back_witness:
  "GetTaskStateByTaskID reliable_driver 3 2
     (projr (ins_rows (InsertTaskState reliable_driver 0) [sample_task 3 1 0, sample_task 3 2 1] sample_db)) =
   Inr (sample_task 3 2 1)"
proof -
  have ini: "initialised sample_db" by (simp add: initialised_def sample_db_def NewDatabase_def)
  then obtain d' where d': "ins_rows (InsertTaskState reliable_driver 0) [sample_task 3 1 0, sample_task 3 2 1] sample_db = Inr d'"
    using task_rows.ins_all_ok [of sample_db] sample_db_wf by blast
  have "GetTaskStateByTaskID reliable_driver (tsRunID (sample_task 3 2 1))
      (tsTaskID (sample_task 3 2 1)) d' = Inr (sample_task 3 2 1)"
    by (rule task_states_read_back [OF sample_db_wf ini d']) (simp_all add: sample_task_def)
  then show ?thesis unfolding d' by (simp add: sample_task_def)
qed

section \<open>Column updates\<close>

text \<open>
  The scheduler writes only the columns that changed. If the field list names every column in
  which the row differs from the state, the row becomes the state.
\<close>

definition task_columns :: "string list" where
  "task_columns = [''title'', ''run_flags'', ''start_time'', ''stop_time'', ''task_config'',
     ''task_status'', ''task_result'', ''task_error'']"

lemma setTaskColumn_known: "f \<in> set task_columns \<Longrightarrow> setTaskColumn f st \<noteq> None"
  unfolding task_columns_def list.set by (elim insertE emptyE) (simp_all add: setTaskColumn_def)

lemma setTaskColumns_Inr: "set fs \<subseteq> set task_columns \<Longrightarrow> \<exists>g. setTaskColumns fs st = Inr g"
proof (induction fs)
  case (Cons f fs)
  obtain h where "setTaskColumns fs st = Inr h" using Cons by auto
  moreover obtain g where "setTaskColumn f st = Some g"
    using setTaskColumn_known [of f st] Cons.prems by auto
  ultimately show ?case by simp
qed simp

lemma setTaskColumn_cases:
  assumes "setTaskColumn f st = Some g"
  shows "(f = ''title'' \<and> g = tsTitle_update (\<lambda>_. tsTitle st)) \<or>
    (f = ''run_flags'' \<and> g = tsRunFlags_update (\<lambda>_. tsRunFlags st)) \<or>
    (f = ''start_time'' \<and> g = tsStartTime_update (\<lambda>_. tsStartTime st)) \<or>
    (f = ''stop_time'' \<and> g = tsStopTime_update (\<lambda>_. tsStopTime st)) \<or>
    (f = ''task_config'' \<and> g = tsTaskConfig_update (\<lambda>_. tsTaskConfig st)) \<or>
    (f = ''task_status'' \<and> g = tsTaskStatus_update (\<lambda>_. tsTaskStatus st)) \<or>
    (f = ''task_result'' \<and> g = tsTaskResult_update (\<lambda>_. tsTaskResult st)) \<or>
    (f = ''task_error'' \<and> g = tsTaskError_update (\<lambda>_. tsTaskError st))"
  using assms unfolding setTaskColumn_def by (simp split: if_split_asm)

lemma setTaskColumns_sound:
  assumes "setTaskColumns fs st = Inr g"
  shows "g row =
    row\<lparr>tsTitle := (if ''title'' \<in> set fs then tsTitle st else tsTitle row),
      tsRunFlags := (if ''run_flags'' \<in> set fs then tsRunFlags st else tsRunFlags row),
      tsStartTime := (if ''start_time'' \<in> set fs then tsStartTime st else tsStartTime row),
      tsStopTime := (if ''stop_time'' \<in> set fs then tsStopTime st else tsStopTime row),
      tsTaskConfig := (if ''task_config'' \<in> set fs then tsTaskConfig st else tsTaskConfig row),
      tsTaskStatus := (if ''task_status'' \<in> set fs then tsTaskStatus st else tsTaskStatus row),
      tsTaskResult := (if ''task_result'' \<in> set fs then tsTaskResult st else tsTaskResult row),
      tsTaskError := (if ''task_error'' \<in> set fs then tsTaskError st else tsTaskError row)\<rparr>"
  using assms
proof (induction fs arbitrary: g row)
  case (Cons f fs)
  obtain g1 h where gh: "setTaskColumn f st = Some g1" "setTaskColumns fs st = Inr h" "g = (\<lambda>r. h (g1 r))"
    using Cons.prems by (auto split: option.splits sum.splits)
  show ?case
    using setTaskColumn_cases [OF gh(1)] unfolding gh(3) Cons.IH [OF gh(2)]
    by (elim disjE) simp_all
qed simp

end
