(* ===== verification/Scheduler.thy ===== *)
theory Scheduler
  imports FlowConfig Database "HOL-Library.Monad_Syntax"
begin

text \<open>
  The task scheduler \<open>pkg/coordinator/scheduler\<close>: creation of task states, their mirror in the
  database, results and result channels, execution of one task with its condition, config,
  body, timeout, panic and result handling, the root and cleanup task sequences, cancellation,
  and the task order shown to users.

  One record holds what the Go code reaches from a \<open>*TaskScheduler\<close>: the scheduler's own fields,
  the task states by index, the heap of variable scopes, the database, the channels and the
  errors of its contexts. Task indices count the tasks of one test run from 1 and are natural
  numbers here; the database columns hold them as 64 bit words. A call is \<^const>\<open>None\<close> if the
  flattening of a variable scope inside it does not return within the granted recursion depth,
  or if the body of a task does not return.

  What runs inside a task is a parameter: the constructor, \<open>LoadConfig\<close> and \<open>Execute\<close> of its
  descriptor, as functions on the scheduler state. The state \<open>Execute\<close> leaves includes the effect
  of everything that ran concurrently, the timeout and watcher goroutines among it.
\<close>

section \<open>Data\<close>

datatype TaskResult = TaskResultNone | TaskResultSuccess | TaskResultFailure

fun resultCode :: "TaskResult \<Rightarrow> nat" where
  "resultCode TaskResultNone = 0"
| "resultCode TaskResultSuccess = 1"
| "resultCode TaskResultFailure = 2"

record TaskDescriptor =
  descName :: string
  descAliases :: "string list"
  descDescription :: string

text \<open>\<open>Timeout\<close> is a duration in nanoseconds.\<close>

record TaskOptions =
  optName :: string
  optConfig :: var_value
  optConfigVars :: "(string \<times> string) list"
  optTitle :: string
  optTimeout :: int
  optID :: string
  optIf :: string

text \<open>What is used of a task object: \<open>Config\<close>, \<open>Timeout\<close>, and the fields of the control flow tasks.\<close>

record task_instance =
  instConfig :: var_value
  instTimeout :: int
  instFlow :: flow_instance

record taskState =
  taskIdx :: nat
  taskOptions :: TaskOptions
  taskDescriptor :: TaskDescriptor
  taskInst :: "task_instance option"
  taskDepth :: nat
  taskVars :: vref
  parentState :: "nat option"
  isCleanup :: bool
  isStarted :: bool
  isRunning :: bool
  isSkipped :: bool
  isTimeout :: bool
  startTime :: "int option"
  stopTime :: "int option"
  taskConfig :: var_value
  taskOutputs :: vref
  taskStatusVars :: vref
  updatedResult :: bool
  taskResult :: TaskResult
  taskError :: go_error
  resultNotifyChan :: "nat option"
  dbTaskState :: "db_task_state option"

text \<open>
  \<open>cancelSet\<close> says whether \<open>RunTasks\<close> has stored the cancel functions; the three context errors
  are those of the context given to \<open>RunTasks\<close> and of the two it derives. \<open>clockMilli\<close> is
  the wall clock in milliseconds. Channels are numbered; the closed ones are listed.
\<close>

record scheduler =
  rootVars :: vref
  testRunID :: u64
  taskCount :: nat
  allTasks :: "nat list"
  rootTasks :: "nat list"
  allCleanupTasks :: "nat list"
  rootCleanupTasks :: "nat list"
  taskStateMap :: "(nat \<times> taskState) list"
  varHeap :: var_heap
  schedDb :: "database option"
  chanCount :: nat
  closedChans :: "nat list"
  cancelSet :: bool
  parentCtxErr :: go_error
  tasksCtxErr :: go_error
  cleanupCtxErr :: go_error
  clockMilli :: int

datatype exec_outcome = ExecReturned go_error | ExecPanicked go_error

record sched_libs = vars_libs +
  descriptors :: "TaskDescriptor list"
  yamlConfig :: "var_value \<Rightarrow> string + string"
  yamlVars :: "vars_map \<Rightarrow> string + string"
  dbDriver :: db_driver
  depth :: nat
  implNew :: "nat \<Rightarrow> scheduler \<Rightarrow> go_error"
  implLoad :: "nat \<Rightarrow> scheduler \<Rightarrow> ((string + task_instance) \<times> scheduler) option"
  implExec :: "nat \<Rightarrow> scheduler \<Rightarrow> (exec_outcome \<times> scheduler) option"

abbreviation libs_of :: "sched_libs \<Rightarrow> vars_libs" where
  "libs_of L \<equiv> \<lparr>yamlGeneralize = yamlGeneralize L, jqFirst = jqFirst L,
     sprintfV = sprintfV L, sprintfF = sprintfF L\<rparr>"

definition NewTaskScheduler ::
    "database option \<Rightarrow> var_heap \<Rightarrow> vref \<Rightarrow> u64 \<Rightarrow> scheduler" where
  "NewTaskScheduler d h vars runID =
     \<lparr>rootVars = vars, testRunID = runID, taskCount = 0, allTasks = [], rootTasks = [],
      allCleanupTasks = [], rootCleanupTasks = [], taskStateMap = [], varHeap = h, schedDb = d,
      chanCount = 0, closedChans = [], cancelSet = False, parentCtxErr = None,
      tasksCtxErr = None, cleanupCtxErr = None, clockMilli = 0\<rparr>"

definition getTaskState :: "scheduler \<Rightarrow> nat \<Rightarrow> taskState option" where
  "getTaskState s i = map_of (taskStateMap s) i"

definition putTaskState :: "nat \<Rightarrow> taskState \<Rightarrow> scheduler \<Rightarrow> scheduler" where
  "putTaskState i t s = s\<lparr>taskStateMap := AList.update i t (taskStateMap s)\<rparr>"

definition modTask :: "nat \<Rightarrow> (taskState \<Rightarrow> taskState) \<Rightarrow> scheduler \<Rightarrow> scheduler" where
  "modTask i f s = (case getTaskState s i of None \<Rightarrow> s | Some t \<Rightarrow> putTaskState i (f t) s)"

text \<open>\<open>GetTaskDescriptor\<close>: the first descriptor with the name, or with an alias equal to it.\<close>

fun GetTaskDescriptor :: "TaskDescriptor list \<Rightarrow> string \<Rightarrow> TaskDescriptor option" where
  "GetTaskDescriptor [] name = None"
| "GetTaskDescriptor (d # ds) name =
     (if descName d = name then Some d
      else if name \<in> set (descAliases d) then Some d
      else GetTaskDescriptor ds name)"

section \<open>Task states\<close>

definition Title :: "sched_libs \<Rightarrow> scheduler \<Rightarrow> taskState \<Rightarrow> string option" where
  "Title L s t =
     ResolvePlaceholders (libs_of L) (depth L) (varHeap s) (taskVars t) (optTitle (taskOptions t))"

definition Config :: "taskState \<Rightarrow> var_value" where
  "Config t = (case taskInst t of Some i \<Rightarrow> instConfig i | None \<Rightarrow> taskConfig t)"

definition Timeout :: "taskState \<Rightarrow> int" where
  "Timeout t = (case taskInst t of Some i \<Rightarrow> instTimeout i | None \<Rightarrow> optTimeout (taskOptions t))"

definition ParentIndex :: "taskState \<Rightarrow> nat" where
  "ParentIndex t = (case parentState t of Some p \<Rightarrow> p | None \<Rightarrow> 0)"

definition Description :: "taskState \<Rightarrow> string" where
  "Description t = descDescription (taskDescriptor t)"

record TaskStatus =
  stIndex :: nat
  stParentIndex :: nat
  stIsStarted :: bool
  stIsRunning :: bool
  stIsSkipped :: bool
  stStartTime :: "int option"
  stStopTime :: "int option"
  stResult :: TaskResult
  stError :: go_error

definition GetTaskStatus :: "taskState \<Rightarrow> TaskStatus" where
  "GetTaskStatus t =
     \<lparr>stIndex = taskIdx t, stParentIndex = (case parentState t of Some p \<Rightarrow> p | None \<Rightarrow> 0),
      stIsStarted = isStarted t, stIsRunning = isRunning t, stIsSkipped = isSkipped t,
      stStartTime = startTime t, stStopTime = stopTime t, stResult = taskResult t,
      stError = taskError t\<rparr>"

definition GetScopeOwner :: "sched_libs \<Rightarrow> scheduler \<Rightarrow> taskState \<Rightarrow> nat option" where
  "GetScopeOwner L s t =
     (case LookupVar (depth L) (varHeap s) (taskVars t) ''scopeOwner'' of
        None \<Rightarrow> None
      | Some (x, found) \<Rightarrow>
          Some (if \<not> found then 0 else (case x of VUint64 n \<Rightarrow> unat n | _ \<Rightarrow> 0)))"

text \<open>
  \<open>newTaskState\<close>. The whole seconds of the timeout go to the database: the duration is in
  nanoseconds and the conversion to int64 truncates towards zero.
\<close>

definition newDbTaskState ::
    "u64 \<Rightarrow> nat \<Rightarrow> string \<Rightarrow> TaskOptions \<Rightarrow> bool \<Rightarrow> nat option \<Rightarrow> db_task_state" where
  "newDbTaskState runID idx title opts cleanup parent =
     \<lparr>tsRunID = runID, tsTaskID = of_nat idx,
      tsParentTask = (case parent of Some p \<Rightarrow> of_nat p | None \<Rightarrow> 0),
      tsName = optName opts, tsTitle = title, tsRefID = optID opts,
      tsTimeout = (if optTimeout opts < 0 then - (- optTimeout opts div 1000000000)
                   else optTimeout opts div 1000000000),
      tsIfCond = optIf opts, tsRunFlags = (if cleanup then TaskRunFlagCleanup else 0),
      tsStartTime = 0, tsStopTime = 0, tsScopeOwner = 0, tsTaskConfig = '''', tsTaskStatus = '''',
      tsTaskResult = 0, tsTaskError = ''''\<rparr>"

text \<open>The variable scopes of a new task; a task with an id is published below \<open>tasks\<close>.\<close>

definition newTaskScopes :: "var_heap \<Rightarrow> vref \<Rightarrow> string \<Rightarrow> var_heap \<times> vref \<times> vref" where
  "newTaskScopes h vars taskID =
     (let (h1, outputs) = NewVariables h None;
          (h2, status) = NewVariables h1 None;
          h3 = SetSubScope h2 status ''outputs'' outputs
      in if taskID \<noteq> ''''
         then (let (h4, tasksScope) = GetSubScope h3 vars ''tasks''
               in (SetSubScope h4 tasksScope taskID status, outputs, status))
         else (h3, outputs, status))"

definition initTaskState ::
    "nat \<Rightarrow> TaskOptions \<Rightarrow> TaskDescriptor \<Rightarrow> nat option \<Rightarrow> nat \<Rightarrow> vref \<Rightarrow> bool \<Rightarrow> vref \<Rightarrow> vref \<Rightarrow>
     taskState" where
  "initTaskState idx opts desc parent dpth vars cleanup outputs status =
     \<lparr>taskIdx = idx, taskOptions = opts, taskDescriptor = desc, taskInst = None, taskDepth = dpth,
      taskVars = vars, parentState = parent, isCleanup = cleanup, isStarted = False,
      isRunning = False, isSkipped = False, isTimeout = False, startTime = None, stopTime = None,
      taskConfig = VNil, taskOutputs = outputs, taskStatusVars = status, updatedResult = False,
      taskResult = TaskResultNone, taskError = None, resultNotifyChan = None, dbTaskState = None\<rparr>"

text \<open>
  Everything \<open>newTaskState\<close> does before the database: scopes, index, registration in the map and
  in one of the two task lists.
\<close>

definition registerTask ::
    "TaskOptions \<Rightarrow> TaskDescriptor \<Rightarrow> taskState option \<Rightarrow> vref option \<Rightarrow> bool \<Rightarrow> scheduler \<Rightarrow>
     nat \<times> scheduler" where
  "registerTask opts desc parent vars cleanup s =
     (let variables = (case vars of
                         Some v \<Rightarrow> v
                       | None \<Rightarrow> (case parent of Some p \<Rightarrow> taskVars p | None \<Rightarrow> rootVars s));
          idx = taskCount s + 1;
          (h, outputs, status) = newTaskScopes (varHeap s) variables (optID opts);
          dpth = (case parent of Some p \<Rightarrow> taskDepth p + 1 | None \<Rightarrow> 0);
          t = initTaskState idx opts desc (map_option taskIdx parent) dpth variables cleanup outputs status
      in (idx, s\<lparr>taskCount := idx, varHeap := h,
               taskStateMap := AList.update idx t (taskStateMap s),
               allCleanupTasks := (if cleanup then allCleanupTasks s @ [idx] else allCleanupTasks s),
               allTasks := (if cleanup then allTasks s else allTasks s @ [idx])\<rparr>))"

text \<open>The database part: the mirror is kept in the task state, then inserted.\<close>

definition storeTask :: "sched_libs \<Rightarrow> nat \<Rightarrow> scheduler \<Rightarrow> ((string + nat) \<times> scheduler) option" where
  "storeTask L idx s =
     (case schedDb s of
        None \<Rightarrow> Some (Inr idx, s)
      | Some d \<Rightarrow>
          (case getTaskState s idx of
             None \<Rightarrow> None
           | Some t \<Rightarrow>
               do {
                 title \<leftarrow> Title L s t;
                 let row = newDbTaskState (testRunID s) idx title (taskOptions t) (isCleanup t) (parentState t);
                 let (err, d') = RunTransaction (dbDriver L) (InsertTaskState (dbDriver L) 0 row) d;
                 let s' = (modTask idx (\<lambda>t. t\<lparr>dbTaskState := Some row\<rparr>) s)\<lparr>schedDb := Some d'\<rparr>;
                 Some (case err of Some e \<Rightarrow> Inl e | None \<Rightarrow> Inr idx, s')
               }))"

definition newTaskState ::
    "sched_libs \<Rightarrow> TaskOptions \<Rightarrow> nat option \<Rightarrow> vref option \<Rightarrow> bool \<Rightarrow> scheduler \<Rightarrow>
     ((string + nat) \<times> scheduler) option" where
  "newTaskState L opts parent vars cleanup s =
     (case GetTaskDescriptor (descriptors L) (optName opts) of
        None \<Rightarrow> Some (Inl (''unknown task name: '' @ optName opts), s)
      | Some desc \<Rightarrow>
          (let (idx, s1) = registerTask opts desc
                 (case parent of Some p \<Rightarrow> getTaskState s p | None \<Rightarrow> None) vars cleanup s
           in storeTask L idx s1))"

section \<open>The mirror in the database\<close>

definition runFlagsOf :: "taskState \<Rightarrow> u32" where
  "runFlagsOf t =
     (let f0 = 0;
          f1 = (if isCleanup t then f0 OR TaskRunFlagCleanup else f0);
          f2 = (if isStarted t then f1 OR TaskRunFlagStarted else f1);
          f3 = (if isRunning t then f2 OR TaskRunFlagRunning else f2);
          f4 = (if isSkipped t then f3 OR TaskRunFlagSkipped else f3)
      in if isTimeout t then f4 OR TaskRunFlagTimeout else f4)"

text \<open>One comparison of \<open>updateTaskState\<close>: update the mirror and note the column.\<close>

definition syncField ::
    "bool \<Rightarrow> string \<Rightarrow> (db_task_state \<Rightarrow> db_task_state) \<Rightarrow> db_task_state \<times> string list \<Rightarrow>
     db_task_state \<times> string list" where
  "syncField changed name upd p = (if changed then (upd (fst p), snd p @ [name]) else p)"

text \<open>The comparisons before the config is marshalled, and the ones after the status.\<close>

definition syncHead :: "string \<Rightarrow> taskState \<Rightarrow> db_task_state \<times> string list \<Rightarrow> db_task_state \<times> string list" where
  "syncHead title t p0 =
     (let p1 = syncField (title \<noteq> tsTitle (fst p0)) ''title'' (tsTitle_update (\<lambda>_. title)) p0;
          p2 = syncField (runFlagsOf t \<noteq> tsRunFlags (fst p1)) ''run_flags''
                 (tsRunFlags_update (\<lambda>_. runFlagsOf t)) p1;
          p3 = (case startTime t of
                  None \<Rightarrow> p2
                | Some x \<Rightarrow> syncField (x \<noteq> tsStartTime (fst p2)) ''start_time''
                              (tsStartTime_update (\<lambda>_. x)) p2)
      in (case stopTime t of
            None \<Rightarrow> p3
          | Some x \<Rightarrow> syncField (x \<noteq> tsStopTime (fst p3)) ''stop_time'' (tsStopTime_update (\<lambda>_. x)) p3))"

definition syncTail :: "taskState \<Rightarrow> db_task_state \<times> string list \<Rightarrow> db_task_state \<times> string list" where
  "syncTail t p0 =
     (let p1 = syncField (int (resultCode (taskResult t)) \<noteq> tsTaskResult (fst p0)) ''task_result''
                 (tsTaskResult_update (\<lambda>_. int (resultCode (taskResult t)))) p0
      in (case taskError t of
            None \<Rightarrow> p1
          | Some e \<Rightarrow> syncField (e \<noteq> tsTaskError (fst p1)) ''task_error'' (tsTaskError_update (\<lambda>_. e)) p1))"

text \<open>
  All comparisons in order: the marshalling error that ends them early, the new mirror and the
  changed columns. The mirror keeps what was compared before the error.
\<close>

definition syncTask ::
    "sched_libs \<Rightarrow> string \<Rightarrow> vars_map \<Rightarrow> taskState \<Rightarrow> db_task_state \<Rightarrow>
     go_error \<times> db_task_state \<times> string list" where
  "syncTask L title status t row =
     (let p1 = syncHead title t (row, [])
      in case yamlConfig L (Config t) of
           Inl e \<Rightarrow> (Some e, p1)
         | Inr cfg \<Rightarrow>
             (let p2 = syncField (cfg \<noteq> tsTaskConfig (fst p1)) ''task_config''
                         (tsTaskConfig_update (\<lambda>_. cfg)) p1
              in case yamlVars L status of
                   Inl e \<Rightarrow> (Some e, p2)
                 | Inr vs \<Rightarrow>
                     (None, syncTail t
                        (syncField (vs \<noteq> tsTaskStatus (fst p2)) ''task_status''
                           (tsTaskStatus_update (\<lambda>_. vs)) p2))))"

definition updateTaskState :: "sched_libs \<Rightarrow> nat \<Rightarrow> scheduler \<Rightarrow> (go_error \<times> scheduler) option" where
  "updateTaskState L i s =
     (case getTaskState s i of
        None \<Rightarrow> None
      | Some t \<Rightarrow>
          (case dbTaskState t of
             None \<Rightarrow> Some (None, s)
           | Some row \<Rightarrow>
               do {
                 title \<leftarrow> Title L s t;
                 status \<leftarrow> GetVarsMap (depth L) (varHeap s) (taskStatusVars t) [] False;
                 let (err, row', changedFields) = syncTask L title status t row;
                 let s' = modTask i (\<lambda>t. t\<lparr>dbTaskState := Some row'\<rparr>) s;
                 if err \<noteq> None then Some (err, s')
                 else if changedFields = [] then Some (None, s')
                 else case schedDb s of
                        None \<Rightarrow> Some (None, s')
                      | Some d \<Rightarrow>
                          (let (dbErr, d') = RunTransaction (dbDriver L)
                                 (UpdateTaskStateStatus (dbDriver L) 0 row' changedFields) d
                           in Some (dbErr, s'\<lparr>schedDb := Some d'\<rparr>))
               }))"

section \<open>Results\<close>

definition setStatusVar :: "nat \<Rightarrow> string \<Rightarrow> var_value \<Rightarrow> scheduler \<Rightarrow> scheduler" where
  "setStatusVar i name x s =
     (case getTaskState s i of
        None \<Rightarrow> s
      | Some t \<Rightarrow> s\<lparr>varHeap := SetVar (varHeap s) (taskStatusVars t) name x\<rparr>)"

text \<open>Closing the channel wakes its watchers; the next watcher gets a fresh one.\<close>

definition closeNotify :: "nat \<Rightarrow> scheduler \<Rightarrow> scheduler" where
  "closeNotify i s =
     (case getTaskState s i of
        None \<Rightarrow> s
      | Some t \<Rightarrow>
          (case resultNotifyChan t of
             None \<Rightarrow> s
           | Some c \<Rightarrow> (modTask i (\<lambda>t. t\<lparr>resultNotifyChan := None\<rparr>) s)\<lparr>closedChans := c # closedChans s\<rparr>))"

definition setTaskResult :: "sched_libs \<Rightarrow> nat \<Rightarrow> TaskResult \<Rightarrow> bool \<Rightarrow> scheduler \<Rightarrow> scheduler option" where
  "setTaskResult L i result setUpdated s0 =
     (let s = (if setUpdated then modTask i (\<lambda>t. t\<lparr>updatedResult := True\<rparr>) s0 else s0)
      in case getTaskState s i of
           None \<Rightarrow> None
         | Some t \<Rightarrow>
             if taskResult t = result then Some s
             else do {
               let s1 = modTask i (\<lambda>t. t\<lparr>taskResult := result\<rparr>) s;
               let s2 = setStatusVar i ''result'' (VUint8 (of_nat (resultCode result))) s1;
               (err, s3) \<leftarrow> updateTaskState L i s2;
               Some (closeNotify i s3)
             })"

text \<open>
  The function as one step, as the step relations of groups and background tasks use it. Its read lock admits several callers at once; \<open>TaskWatch\<close> splits it into reading,
  making and returning the channel.
\<close>

definition GetTaskResultUpdateChan :: "nat \<Rightarrow> TaskResult \<Rightarrow> scheduler \<Rightarrow> nat option \<times> scheduler" where
  "GetTaskResultUpdateChan i oldResult s =
     (case getTaskState s i of
        None \<Rightarrow> (None, s)
      | Some t \<Rightarrow>
          if taskResult t \<noteq> oldResult then (None, s)
          else case resultNotifyChan t of
                 Some c \<Rightarrow> (Some c, s)
               | None \<Rightarrow>
                   (Some (chanCount s),
                    (modTask i (\<lambda>t. t\<lparr>resultNotifyChan := Some (chanCount s)\<rparr>) s)
                      \<lparr>chanCount := chanCount s + 1\<rparr>))"

section \<open>Execution of one task\<close>

text \<open>The entry of \<open>ExecuteTask\<close>: flags, start time and status variables; a failed update of
  the database is only logged.\<close>

definition startTask :: "sched_libs \<Rightarrow> nat \<Rightarrow> scheduler \<Rightarrow> scheduler option" where
  "startTask L i s =
     do {
       let s1 = modTask i (\<lambda>t. t\<lparr>isStarted := True, startTime := Some (clockMilli s), isRunning := True\<rparr>) s;
       let s2 = setStatusVar i ''started'' (VBool True) s1;
       let s3 = setStatusVar i ''running'' (VBool True) s2;
       (err, s4) \<leftarrow> updateTaskState L i s3;
       Some s4
     }"

text \<open>The outermost deferred function of \<open>ExecuteTask\<close>.\<close>

definition finishTask :: "sched_libs \<Rightarrow> nat \<Rightarrow> scheduler \<Rightarrow> scheduler option" where
  "finishTask L i s =
     do {
       let s1 = modTask i (\<lambda>t. t\<lparr>isRunning := False, stopTime := Some (clockMilli s)\<rparr>) s;
       let s2 = setStatusVar i ''running'' (VBool False) s1;
       (err, s3) \<leftarrow> updateTaskState L i s2;
       Some s3
     }"

text \<open>
  What follows \<open>Execute\<close>: the error is kept unless there is one already, a result the task did
  not set itself is derived from the timeout flag and the error, and a failure result is an error
  of the call. \<open>%w\<close> prints a nil error as shown.
\<close>

definition resultFromError :: "go_error \<Rightarrow> taskState \<Rightarrow> TaskResult" where
  "resultFromError err t =
     (if isTimeout t \<or> err \<noteq> None then TaskResultFailure else TaskResultSuccess)"

definition taskFailedError :: "taskState \<Rightarrow> string" where
  "taskFailedError t =
     ''task failed: '' @ (case taskError t of Some e \<Rightarrow> e | None \<Rightarrow> ''%!w(<nil>)'')"

definition evalResult :: "sched_libs \<Rightarrow> nat \<Rightarrow> go_error \<Rightarrow> scheduler \<Rightarrow> (go_error \<times> scheduler) option" where
  "evalResult L i err s =
     do {
       let s1 = (if err = None then s
                 else modTask i (\<lambda>t. if taskError t = None then t\<lparr>taskError := err\<rparr> else t) s);
       t \<leftarrow> getTaskState s1 i;
       s2 \<leftarrow> (if \<not> updatedResult t \<or> taskResult t = TaskResultNone
              then setTaskResult L i (resultFromError err t) False s1
              else Some s1);
       t2 \<leftarrow> getTaskState s2 i;
       Some (if taskResult t2 = TaskResultFailure then Some (taskFailedError t2) else None, s2)
     }"

text \<open>
  A panic of \<open>Execute\<close> is recovered in a deferred function: the task gets the failure result, and
  the call returns the zero value of its result, which is no error.
\<close>

definition recoverPanic :: "sched_libs \<Rightarrow> nat \<Rightarrow> go_error \<Rightarrow> scheduler \<Rightarrow> (go_error \<times> scheduler) option" where
  "recoverPanic L i pErr s =
     do {
       let s1 = (if pErr = None then s else modTask i (\<lambda>t. t\<lparr>taskError := pErr\<rparr>) s);
       s2 \<leftarrow> setTaskResult L i TaskResultFailure False s1;
       Some (None, s2)
     }"

definition taskNameOf :: "scheduler \<Rightarrow> nat \<Rightarrow> string" where
  "taskNameOf s i = (case getTaskState s i of Some t \<Rightarrow> optName (taskOptions t) | None \<Rightarrow> '''')"

definition runInstance :: "sched_libs \<Rightarrow> nat \<Rightarrow> scheduler \<Rightarrow> (go_error \<times> scheduler) option" where
  "runInstance L i s =
     (case implNew L i s of
        Some e \<Rightarrow>
          Some (Some (''failed task '' @ [CHR 0x27] @ taskNameOf s i @ [CHR 0x27] @ '' initialization: '' @ e), s)
      | None \<Rightarrow>
          (case implLoad L i s of
             None \<Rightarrow> None
           | Some (Inl e, s1) \<Rightarrow>
               do {
                 s2 \<leftarrow> setTaskResult L i TaskResultFailure False s1;
                 Some (Some (''task '' @ taskNameOf s i @ '' config validation failed: '' @ e), s2)
               }
           | Some (Inr inst, s1) \<Rightarrow>
               do {
                 let s2 = modTask i (\<lambda>t. t\<lparr>taskInst := Some inst, taskConfig := instConfig inst\<rparr>) s1;
                 (outcome, s3) \<leftarrow> implExec L i s2;
                 (err, s4) \<leftarrow> (case outcome of
                                 ExecReturned e \<Rightarrow> evalResult L i e s3
                               | ExecPanicked p \<Rightarrow> recoverPanic L i p s3);
                 Some (err, modTask i (\<lambda>t. t\<lparr>taskInst := None\<rparr>) s4)
               }))"

definition runCondition :: "sched_libs \<Rightarrow> nat \<Rightarrow> scheduler \<Rightarrow> (go_error \<times> scheduler) option" where
  "runCondition L i s =
     do {
       t \<leftarrow> getTaskState s i;
       if optIf (taskOptions t) = '''' then runInstance L i s
       else do {
         res \<leftarrow> ResolveQuery (libs_of L) (depth L) (varHeap s) (taskVars t) (optIf (taskOptions t));
         case res of
           Inl e \<Rightarrow>
             do {
               s1 \<leftarrow> setTaskResult L i TaskResultFailure False s;
               Some (Some (''task condition evaluation failed: '' @ e), s1)
             }
         | Inr val \<Rightarrow>
             if val = Some (VBool True) then runInstance L i s
             else do {
               s1 \<leftarrow> setTaskResult L i TaskResultNone False (modTask i (\<lambda>t. t\<lparr>isSkipped := True\<rparr>) s);
               Some (None, s1)
             }
       }
     }"

text \<open>
  The log calls of \<open>ExecuteTask\<close> are left out. They do not change the scheduler, but a call can wait for ever in the log buffer, as \<open>Logging\<close> shows; what is said of
  \<open>ExecuteTask\<close> is said of calls whose log calls return.
\<close>

definition ExecuteTask :: "sched_libs \<Rightarrow> nat \<Rightarrow> scheduler \<Rightarrow> (go_error \<times> scheduler) option" where
  "ExecuteTask L i s =
     (case getTaskState s i of
        None \<Rightarrow> Some (Some ''task not found'', s)
      | Some t \<Rightarrow>
          if isStarted t then Some (Some ''task has already been executed'', s)
          else do {
            s1 \<leftarrow> startTask L i s;
            (err, s2) \<leftarrow> runCondition L i s1;
            s3 \<leftarrow> finishTask L i s2;
            Some (err, s3)
          })"

text \<open>The timeout goroutine, when its timer fires before the task context is done.\<close>

definition fireTimeout :: "nat \<Rightarrow> scheduler \<Rightarrow> scheduler" where
  "fireTimeout i s = setStatusVar i ''timeout'' (VBool True) (modTask i (\<lambda>t. t\<lparr>isTimeout := True\<rparr>) s)"

section \<open>Task sequences\<close>

definition AddRootTask ::
    "sched_libs \<Rightarrow> TaskOptions \<Rightarrow> scheduler \<Rightarrow> ((string + nat) \<times> scheduler) option" where
  "AddRootTask L opts s =
     do {
       (r, s1) \<leftarrow> newTaskState L opts None None False s;
       Some (case r of Inl e \<Rightarrow> (Inl e, s1) | Inr i \<Rightarrow> (Inr i, s1\<lparr>rootTasks := rootTasks s1 @ [i]\<rparr>))
     }"

definition AddCleanupTask ::
    "sched_libs \<Rightarrow> TaskOptions \<Rightarrow> scheduler \<Rightarrow> ((string + nat) \<times> scheduler) option" where
  "AddCleanupTask L opts s =
     do {
       (r, s1) \<leftarrow> newTaskState L opts None None True s;
       Some (case r of
               Inl e \<Rightarrow> (Inl e, s1)
             | Inr i \<Rightarrow> (Inr i, s1\<lparr>rootCleanupTasks := rootCleanupTasks s1 @ [i]\<rparr>))
     }"

text \<open>A cancelled parent cancels the derived contexts; a context keeps its first error.\<close>

definition ctxCanceled :: string where
  "ctxCanceled = ''context canceled''"

definition cancelCtx :: "string \<Rightarrow> go_error \<Rightarrow> go_error" where
  "cancelCtx why e = (if e = None then Some why else e)"

definition CancelTasks :: "bool \<Rightarrow> scheduler \<Rightarrow> scheduler" where
  "CancelTasks cancelCleanup s =
     (if cancelSet s
      then (let s1 = s\<lparr>tasksCtxErr := cancelCtx ctxCanceled (tasksCtxErr s)\<rparr>
            in if cancelCleanup then s1\<lparr>cleanupCtxErr := cancelCtx ctxCanceled (cleanupCtxErr s1)\<rparr> else s1)
      else s)"

fun runRootTasks :: "sched_libs \<Rightarrow> nat list \<Rightarrow> scheduler \<Rightarrow> (go_error \<times> scheduler) option" where
  "runRootTasks L [] s = Some (None, s)"
| "runRootTasks L (i # is) s =
     (case ExecuteTask L i s of
        None \<Rightarrow> None
      | Some (Some e, s1) \<Rightarrow> Some (Some e, s1)
      | Some (None, s1) \<Rightarrow>
          if tasksCtxErr s1 \<noteq> None then Some (tasksCtxErr s1, s1) else runRootTasks L is s1)"

fun runCleanupTasks :: "sched_libs \<Rightarrow> nat list \<Rightarrow> scheduler \<Rightarrow> scheduler option" where
  "runCleanupTasks L [] s = Some s"
| "runCleanupTasks L (i # is) s =
     (if cleanupCtxErr s \<noteq> None then Some s
      else case ExecuteTask L i s of None \<Rightarrow> None | Some (err, s1) \<Rightarrow> runCleanupTasks L is s1)"

text \<open>
  \<open>RunTasks\<close>: the two contexts are derived from the given one, the deferred calls run in reverse
  order, so the task context is cancelled before the cleanup tasks start.
\<close>

definition RunTasks :: "sched_libs \<Rightarrow> scheduler \<Rightarrow> (go_error \<times> scheduler) option" where
  "RunTasks L s =
     do {
       let s1 = s\<lparr>cancelSet := True, tasksCtxErr := parentCtxErr s, cleanupCtxErr := parentCtxErr s\<rparr>;
       (err, s2) \<leftarrow> runRootTasks L (rootTasks s1) s1;
       let s3 = s2\<lparr>tasksCtxErr := cancelCtx ctxCanceled (tasksCtxErr s2)\<rparr>;
       s4 \<leftarrow> runCleanupTasks L (rootCleanupTasks s3) s3;
       Some (err, s4)
     }"

section \<open>The task order\<close>

text \<open>
  The comparator of \<open>sortTaskList\<close>. Its loop replaces one or both tasks by their parents; the
  model follows it with a fuel argument, and \<^const>\<open>None\<close> is a loop that has not ended or has
  followed a nil pointer.
\<close>

fun sortLoop :: "nat \<Rightarrow> scheduler \<Rightarrow> taskState \<Rightarrow> taskState \<Rightarrow> bool option" where
  "sortLoop 0 s a b = None"
| "sortLoop (Suc n) s a b =
     (if parentState a = Some (taskIdx b) then Some False
      else if parentState b = Some (taskIdx a) then Some True
      else do {
        (a', b') \<leftarrow>
          (if taskDepth a > taskDepth b then
             do { p \<leftarrow> parentState a; a' \<leftarrow> getTaskState s p; Some (a', b) }
           else if taskDepth b > taskDepth a then
             do { p \<leftarrow> parentState b; b' \<leftarrow> getTaskState s p; Some (a, b') }
           else
             do { p \<leftarrow> parentState a; a' \<leftarrow> getTaskState s p;
                  q \<leftarrow> parentState b; b' \<leftarrow> getTaskState s q; Some (a', b') });
        if parentState a' = parentState b' then Some (taskIdx a' < taskIdx b')
        else sortLoop n s a' b'
      })"

declare sortLoop.simps(2) [simp del]

definition taskLess :: "nat \<Rightarrow> scheduler \<Rightarrow> nat \<Rightarrow> nat \<Rightarrow> bool option" where
  "taskLess n s i j =
     do {
       a \<leftarrow> getTaskState s i;
       b \<leftarrow> getTaskState s j;
       if parentState a = parentState b then Some (taskIdx a < taskIdx b) else sortLoop n s a b
     }"

definition sortTaskList :: "nat \<Rightarrow> scheduler \<Rightarrow> nat list \<Rightarrow> nat list" where
  "sortTaskList n s xs = sort_slice (\<lambda>i j. taskLess n s i j = Some True) xs"

text \<open>The loop is granted more turns than there are tasks.\<close>

definition GetAllTasks :: "scheduler \<Rightarrow> nat list" where
  "GetAllTasks s = sortTaskList (2 * taskCount s + 1) s (allTasks s)"

definition GetAllCleanupTasks :: "scheduler \<Rightarrow> nat list" where
  "GetAllCleanupTasks s = sortTaskList (2 * taskCount s + 1) s (allCleanupTasks s)"

definition GetRootTasks :: "scheduler \<Rightarrow> nat list" where
  "GetRootTasks s = rootTasks s"

definition GetRootCleanupTasks :: "scheduler \<Rightarrow> nat list" where
  "GetRootCleanupTasks s = rootCleanupTasks s"

definition GetTaskCount :: "scheduler option \<Rightarrow> nat" where
  "GetTaskCount ts = (case ts of None \<Rightarrow> 0 | Some s \<Rightarrow> length (allTasks s))"

section \<open>The result watcher\<close>

text \<open>
  \<open>WatchTaskPass\<close> as a state machine: at the head of the loop it asks for the update channel;
  with a channel it waits for the context or the channel, and then looks at the result.
\<close>

datatype watch_pc = WatchHead | WatchWait nat | WatchCheck | WatchReturned bool

inductive watch_step :: "nat \<Rightarrow> bool \<Rightarrow> watch_pc \<times> scheduler \<Rightarrow> watch_pc \<times> scheduler \<Rightarrow> bool"
  for i :: nat where
  watch_chan: "GetTaskResultUpdateChan i TaskResultNone s = (Some c, s') \<Longrightarrow>
     watch_step i done (WatchHead, s) (WatchWait c, s')"
| watch_nochan: "GetTaskResultUpdateChan i TaskResultNone s = (None, s') \<Longrightarrow>
     watch_step i done (WatchHead, s) (WatchCheck, s')"
| watch_done: "watch_step i True (WatchWait c, s) (WatchReturned False, s)"
| watch_woken: "c \<in> set (closedChans s) \<Longrightarrow> watch_step i done (WatchWait c, s) (WatchCheck, s)"
| watch_cancel: "getTaskState s i = Some t \<Longrightarrow> stResult (GetTaskStatus t) \<noteq> TaskResultNone \<Longrightarrow>
     watch_step i done (WatchCheck, s) (WatchReturned True, s)"
| watch_again: "getTaskState s i = Some t \<Longrightarrow> stResult (GetTaskStatus t) = TaskResultNone \<Longrightarrow>
     watch_step i done (WatchCheck, s) (WatchHead, s)"

section \<open>Field equations\<close>

lemma getTaskState_putTaskState [simp]:
  "getTaskState (putTaskState i t s) j = (if j = i then Some t else getTaskState s j)"
  by (simp add: getTaskState_def putTaskState_def)

lemma getTaskState_modTask [simp]:
  "getTaskState (modTask i f s) j = (if j = i then map_option f (getTaskState s i) else getTaskState s j)"
  by (auto simp: modTask_def split: option.split)

lemma modTask_fields [simp]:
  "rootVars (modTask i f s) = rootVars s" "testRunID (modTask i f s) = testRunID s"
  "taskCount (modTask i f s) = taskCount s" "allTasks (modTask i f s) = allTasks s"
  "rootTasks (modTask i f s) = rootTasks s" "allCleanupTasks (modTask i f s) = allCleanupTasks s"
  "rootCleanupTasks (modTask i f s) = rootCleanupTasks s" "varHeap (modTask i f s) = varHeap s"
  "schedDb (modTask i f s) = schedDb s" "chanCount (modTask i f s) = chanCount s"
  "closedChans (modTask i f s) = closedChans s" "cancelSet (modTask i f s) = cancelSet s"
  "parentCtxErr (modTask i f s) = parentCtxErr s" "tasksCtxErr (modTask i f s) = tasksCtxErr s"
  "cleanupCtxErr (modTask i f s) = cleanupCtxErr s" "clockMilli (modTask i f s) = clockMilli s"
  by (simp_all add: modTask_def putTaskState_def split: option.split)

text \<open>A lookup does not depend on the other fields.\<close>

lemma getTaskState_frame [simp]:
  "getTaskState (s\<lparr>varHeap := h\<rparr>) i = getTaskState s i"
  "getTaskState (s\<lparr>schedDb := d\<rparr>) i = getTaskState s i"
  "getTaskState (s\<lparr>chanCount := n\<rparr>) i = getTaskState s i"
  "getTaskState (s\<lparr>closedChans := cs\<rparr>) i = getTaskState s i"
  "getTaskState (s\<lparr>rootTasks := is\<rparr>) i = getTaskState s i"
  "getTaskState (s\<lparr>rootCleanupTasks := is\<rparr>) i = getTaskState s i"
  "getTaskState (s\<lparr>cancelSet := b\<rparr>) i = getTaskState s i"
  "getTaskState (s\<lparr>parentCtxErr := e\<rparr>) i = getTaskState s i"
  "getTaskState (s\<lparr>tasksCtxErr := e\<rparr>) i = getTaskState s i"
  "getTaskState (s\<lparr>cleanupCtxErr := e\<rparr>) i = getTaskState s i"
  "getTaskState (s\<lparr>clockMilli := m\<rparr>) i = getTaskState s i"
  by (simp_all add: getTaskState_def)

lemma getTaskState_setStatusVar [simp]: "getTaskState (setStatusVar i name x s) j = getTaskState s j"
  by (simp add: setStatusVar_def split: option.split)

lemma setStatusVar_fields [simp]:
  "rootVars (setStatusVar i n x s) = rootVars s" "testRunID (setStatusVar i n x s) = testRunID s"
  "taskCount (setStatusVar i n x s) = taskCount s" "allTasks (setStatusVar i n x s) = allTasks s"
  "rootTasks (setStatusVar i n x s) = rootTasks s"
  "allCleanupTasks (setStatusVar i n x s) = allCleanupTasks s"
  "rootCleanupTasks (setStatusVar i n x s) = rootCleanupTasks s"
  "schedDb (setStatusVar i n x s) = schedDb s" "chanCount (setStatusVar i n x s) = chanCount s"
  "closedChans (setStatusVar i n x s) = closedChans s" "cancelSet (setStatusVar i n x s) = cancelSet s"
  "parentCtxErr (setStatusVar i n x s) = parentCtxErr s" "tasksCtxErr (setStatusVar i n x s) = tasksCtxErr s"
  "cleanupCtxErr (setStatusVar i n x s) = cleanupCtxErr s" "clockMilli (setStatusVar i n x s) = clockMilli s"
  by (simp_all add: setStatusVar_def split: option.split)

end
