(* ===== verification/SchedulerInv.thy ===== *)
theory SchedulerInv
  imports Scheduler
begin

text \<open>
  What the operations of the scheduler change and keep: their effect on single tasks, the
  invariant of the scheduler state, and its preservation by every operation.
\<close>

section \<open>What the updates change\<close>

lemma syncField_key [simp]:
  "(\<And>r. tsRunID (upd r) = tsRunID r) \<Longrightarrow> tsRunID (fst (syncField c n upd p)) = tsRunID (fst p)"
  "(\<And>r. tsTaskID (upd r) = tsTaskID r) \<Longrightarrow> tsTaskID (fst (syncField c n upd p)) = tsTaskID (fst p)"
  by (simp_all add: syncField_def)

lemma syncHead_key [simp]:
  "tsRunID (fst (syncHead title t p)) = tsRunID (fst p)" "tsTaskID (fst (syncHead title t p)) = tsTaskID (fst p)"
  by (cases "startTime t"; cases "stopTime t"; simp add: syncHead_def Let_def)+

lemma syncTail_key [simp]:
  "tsRunID (fst (syncTail t p)) = tsRunID (fst p)" "tsTaskID (fst (syncTail t p)) = tsTaskID (fst p)"
  by (cases "taskError t"; simp add: syncTail_def Let_def)+

text \<open>
  \<open>updateTaskState\<close> touches the mirror of its task and the database, nothing else, and it keeps
  the key of the mirror.
\<close>

lemma modTask_id: "getTaskState s i = Some t \<Longrightarrow> f t = t \<Longrightarrow> modTask i f s = s"
  by (simp add: modTask_def putTaskState_def getTaskState_def update_triv)

lemma syncTask_key: "taskStateKey (fst (snd (syncTask L title status t row))) = taskStateKey row"
  by (simp add: syncTask_def Let_def split: sum.split)

lemma updateTaskState_shape:
  assumes "updateTaskState L i s = Some (err, s')" and "getTaskState s i = Some t"
  shows "\<exists>row d. s' = (modTask i (\<lambda>t. t\<lparr>dbTaskState := row\<rparr>) s)\<lparr>schedDb := d\<rparr> \<and>
    map_option taskStateKey row = map_option taskStateKey (dbTaskState t) \<and>
    (d = None \<longleftrightarrow> schedDb s = None)"
proof (cases "dbTaskState t")
  case None
  then have "s' = (modTask i (\<lambda>t. t\<lparr>dbTaskState := None\<rparr>) s)\<lparr>schedDb := schedDb s\<rparr>"
    using assms by (auto simp: updateTaskState_def modTask_id)
  then show ?thesis using None by auto
next
  case (Some row)
  obtain title status where ts: "Title L s t = Some title"
      "GetVarsMap (depth L) (varHeap s) (taskStatusVars t) [] False = Some status"
    using assms Some by (auto simp: updateTaskState_def bind_eq_Some_conv)
  obtain e row' fs where syn: "syncTask L title status t row = (e, row', fs)"
    by (cases "syncTask L title status t row")
  have keep: "modTask i f s = (modTask i f s)\<lparr>schedDb := schedDb s\<rparr>" for f
    by (simp add: modTask_def putTaskState_def split: option.split)
  have "s' = modTask i (\<lambda>t. t\<lparr>dbTaskState := Some row'\<rparr>) s \<or>
      (schedDb s \<noteq> None \<and> (\<exists>d'. s' = (modTask i (\<lambda>t. t\<lparr>dbTaskState := Some row'\<rparr>) s)\<lparr>schedDb := Some d'\<rparr>))"
    using assms Some ts syn
    by (cases "schedDb s") (auto simp: updateTaskState_def Let_def split: if_splits prod.splits)
  then have "\<exists>d. s' = (modTask i (\<lambda>t. t\<lparr>dbTaskState := Some row'\<rparr>) s)\<lparr>schedDb := d\<rparr> \<and>
      (d = None \<longleftrightarrow> schedDb s = None)"
  proof
    assume "s' = modTask i (\<lambda>t. t\<lparr>dbTaskState := Some row'\<rparr>) s"
    then show ?thesis using keep by (intro exI [of _ "schedDb s"]) simp
  qed auto
  then show ?thesis
    using syncTask_key [of L title status t row] syn Some by (intro exI [of _ "Some row'"]) auto
qed

lemma updateTaskState_fields:
  assumes "updateTaskState L i s = Some (err, s')" and "getTaskState s i = Some t"
  shows "\<exists>row. getTaskState s' i = Some (t\<lparr>dbTaskState := row\<rparr>) \<and>
      map_option taskStateKey row = map_option taskStateKey (dbTaskState t)"
    and "j \<noteq> i \<Longrightarrow> getTaskState s' j = getTaskState s j"
    and "rootVars s' = rootVars s" "testRunID s' = testRunID s" "taskCount s' = taskCount s"
      "allTasks s' = allTasks s" "rootTasks s' = rootTasks s" "allCleanupTasks s' = allCleanupTasks s"
      "rootCleanupTasks s' = rootCleanupTasks s" "varHeap s' = varHeap s" "chanCount s' = chanCount s"
      "closedChans s' = closedChans s" "cancelSet s' = cancelSet s" "parentCtxErr s' = parentCtxErr s"
      "tasksCtxErr s' = tasksCtxErr s" "cleanupCtxErr s' = cleanupCtxErr s" "clockMilli s' = clockMilli s"
  using updateTaskState_shape [OF assms] assms(2) by auto

lemma updateTaskState_known: "updateTaskState L i s = Some r \<Longrightarrow> \<exists>t. getTaskState s i = Some t"
  by (auto simp: updateTaskState_def split: option.splits)

lemma closeNotify_fields [simp]:
  "rootVars (closeNotify i s) = rootVars s" "testRunID (closeNotify i s) = testRunID s"
  "taskCount (closeNotify i s) = taskCount s" "allTasks (closeNotify i s) = allTasks s"
  "rootTasks (closeNotify i s) = rootTasks s" "allCleanupTasks (closeNotify i s) = allCleanupTasks s"
  "rootCleanupTasks (closeNotify i s) = rootCleanupTasks s" "varHeap (closeNotify i s) = varHeap s"
  "schedDb (closeNotify i s) = schedDb s" "chanCount (closeNotify i s) = chanCount s"
  "cancelSet (closeNotify i s) = cancelSet s" "parentCtxErr (closeNotify i s) = parentCtxErr s"
  "tasksCtxErr (closeNotify i s) = tasksCtxErr s" "cleanupCtxErr (closeNotify i s) = cleanupCtxErr s"
  "clockMilli (closeNotify i s) = clockMilli s"
  by (simp_all add: closeNotify_def split: option.split)

lemma getTaskState_closeNotify [simp]:
  "getTaskState (closeNotify i s) j =
    (if j = i then map_option (\<lambda>t. t\<lparr>resultNotifyChan := None\<rparr>) (getTaskState s i) else getTaskState s j)"
  by (auto simp: closeNotify_def split: option.split)

lemma closedChans_closeNotify:
  "closedChans (closeNotify i s) =
    (case getTaskState s i of
       None \<Rightarrow> closedChans s
     | Some t \<Rightarrow> (case resultNotifyChan t of None \<Rightarrow> closedChans s | Some c \<Rightarrow> c # closedChans s))"
  by (simp add: closeNotify_def split: option.split)

text \<open>
  \<open>setTaskResult\<close>: the result is set, its channel is closed exactly if the result changed, the
  update mark is set if asked for; other tasks and the rest of the scheduler stay.
\<close>

lemma setTaskResult_known: "setTaskResult L i r u s = Some s' \<Longrightarrow> \<exists>t. getTaskState s i = Some t"
  by (cases "getTaskState s i") (simp_all add: setTaskResult_def Let_def split: if_splits)

lemma modTask_modTask [simp]: "modTask i f (modTask i g s) = modTask i (f \<circ> g) s"
  by (simp add: modTask_def putTaskState_def getTaskState_def split: option.split)

lemma modTask_frame [simp]:
  "modTask i f (s\<lparr>varHeap := h\<rparr>) = (modTask i f s)\<lparr>varHeap := h\<rparr>"
  "modTask i f (s\<lparr>schedDb := d\<rparr>) = (modTask i f s)\<lparr>schedDb := d\<rparr>"
  "modTask i f (s\<lparr>closedChans := cs\<rparr>) = (modTask i f s)\<lparr>closedChans := cs\<rparr>"
  by (simp_all add: modTask_def putTaskState_def getTaskState_def split: option.split)

lemma setTaskResult_shape:
  assumes "setTaskResult L i r u s = Some s'" and "getTaskState s i = Some t"
  shows "\<exists>row d. map_option taskStateKey row = map_option taskStateKey (dbTaskState t) \<and>
    (taskResult t = r \<longrightarrow> s' = modTask i (\<lambda>t. t\<lparr>updatedResult := updatedResult t \<or> u\<rparr>) s \<and>
       row = dbTaskState t) \<and>
    (taskResult t \<noteq> r \<longrightarrow>
       s' = closeNotify i ((modTask i (\<lambda>t. t\<lparr>updatedResult := updatedResult t \<or> u, taskResult := r,
         dbTaskState := row\<rparr>) s)\<lparr>varHeap := SetVar (varHeap s) (taskStatusVars t) ''result''
           (VUint8 (of_nat (resultCode r))), schedDb := d\<rparr>))"
proof -
  let ?s = "if u then modTask i (\<lambda>t. t\<lparr>updatedResult := True\<rparr>) s else s"
  have s1: "?s = modTask i (\<lambda>t. t\<lparr>updatedResult := updatedResult t \<or> u\<rparr>) s"
    using assms(2) modTask_id [of s i t "\<lambda>t. t\<lparr>updatedResult := updatedResult t\<rparr>"] by simp
  note res = assms(1) [unfolded setTaskResult_def Let_def s1]
  show ?thesis
  proof (cases "taskResult t = r")
    case True
    then show ?thesis using res assms(2) by auto
  next
    case False
    then obtain err s3 where upd: "updateTaskState L i (setStatusVar i ''result'' (VUint8 (of_nat (resultCode r)))
        (modTask i (\<lambda>t. t\<lparr>updatedResult := updatedResult t \<or> u, taskResult := r\<rparr>) s)) = Some (err, s3)"
      and s': "s' = closeNotify i s3"
      using res assms(2) by (auto simp: bind_eq_Some_conv comp_def)
    from updateTaskState_shape [OF upd] obtain row d where
      "s3 = (modTask i (\<lambda>t. t\<lparr>dbTaskState := row\<rparr>) (setStatusVar i ''result'' (VUint8 (of_nat (resultCode r)))
        (modTask i (\<lambda>t. t\<lparr>updatedResult := updatedResult t \<or> u, taskResult := r\<rparr>) s)))\<lparr>schedDb := d\<rparr>"
      "map_option taskStateKey row = map_option taskStateKey (dbTaskState t)"
      using assms(2) by auto
    then show ?thesis using s' False assms(2) by (auto simp: setStatusVar_def comp_def)
  qed
qed

lemma setTaskResult_cases:
  assumes "setTaskResult L i r u s = Some s'" and "getTaskState s i = Some t"
  obtains (same) "taskResult t = r" and "s' = modTask i (\<lambda>t. t\<lparr>updatedResult := updatedResult t \<or> u\<rparr>) s"
  | (changed) row d where "taskResult t \<noteq> r"
      and "map_option taskStateKey row = map_option taskStateKey (dbTaskState t)"
      and "s' = closeNotify i ((modTask i (\<lambda>t. t\<lparr>updatedResult := updatedResult t \<or> u, taskResult := r,
         dbTaskState := row\<rparr>) s)\<lparr>varHeap := SetVar (varHeap s) (taskStatusVars t) ''result''
           (VUint8 (of_nat (resultCode r))), schedDb := d\<rparr>)"
  using setTaskResult_shape [OF assms] by (cases "taskResult t = r") blast+

lemma setTaskResult_self:
  assumes "setTaskResult L i r u s = Some s'" and "getTaskState s i = Some t"
  shows "\<exists>row. map_option taskStateKey row = map_option taskStateKey (dbTaskState t) \<and>
      getTaskState s' i = Some (t\<lparr>updatedResult := updatedResult t \<or> u, taskResult := r,
        resultNotifyChan := (if taskResult t = r then resultNotifyChan t else None), dbTaskState := row\<rparr>)"
  using assms
proof (cases rule: setTaskResult_cases)
  case same
  then show ?thesis using assms(2) by (intro exI [of _ "dbTaskState t"]) simp
next
  case (changed row d)
  then show ?thesis using assms(2) by (intro exI [of _ row]) simp
qed

lemma setTaskResult_fields:
  assumes "setTaskResult L i r u s = Some s'" and "getTaskState s i = Some t"
  shows "j \<noteq> i \<Longrightarrow> getTaskState s' j = getTaskState s j"
    and "rootVars s' = rootVars s" "testRunID s' = testRunID s" "taskCount s' = taskCount s"
      "allTasks s' = allTasks s" "rootTasks s' = rootTasks s" "allCleanupTasks s' = allCleanupTasks s"
      "rootCleanupTasks s' = rootCleanupTasks s"
      "varHeap s' = (if taskResult t = r then varHeap s
         else SetVar (varHeap s) (taskStatusVars t) ''result'' (VUint8 (of_nat (resultCode r))))"
      "chanCount s' = chanCount s"
      "closedChans s' = (if taskResult t = r then closedChans s
         else (case resultNotifyChan t of None \<Rightarrow> closedChans s | Some c \<Rightarrow> c # closedChans s))"
      "cancelSet s' = cancelSet s" "parentCtxErr s' = parentCtxErr s"
      "tasksCtxErr s' = tasksCtxErr s" "cleanupCtxErr s' = cleanupCtxErr s" "clockMilli s' = clockMilli s"
  subgoal by (cases rule: setTaskResult_cases [OF assms]) simp_all
  by (cases rule: setTaskResult_cases [OF assms];
      simp add: closedChans_closeNotify assms(2) split: option.split)+

section \<open>The scheduler invariant\<close>

text \<open>
  The tree of tasks: indices run from 1 to the task count, a task has its own index, a parent is
  older, one level higher and on the same side of the cleanup divide.
\<close>

definition tree_inv :: "scheduler \<Rightarrow> bool" where
  "tree_inv s \<longleftrightarrow>
     (\<forall>i. getTaskState s i \<noteq> None \<longleftrightarrow> 1 \<le> i \<and> i \<le> taskCount s) \<and>
     (\<forall>i t. getTaskState s i = Some t \<longrightarrow> taskIdx t = i) \<and>
     (\<forall>i t. getTaskState s i = Some t \<and> parentState t = None \<longrightarrow> taskDepth t = 0) \<and>
     (\<forall>i t p. getTaskState s i = Some t \<and> parentState t = Some p \<longrightarrow>
        p < i \<and> (\<exists>pt. getTaskState s p = Some pt \<and> taskDepth t = Suc (taskDepth pt) \<and>
                      isCleanup pt = isCleanup t))"

text \<open>The task lists hold every task of their kind once, oldest first; root tasks have no parent.\<close>

definition list_inv :: "scheduler \<Rightarrow> bool" where
  "list_inv s \<longleftrightarrow>
     sorted_wrt (<) (allTasks s) \<and> sorted_wrt (<) (allCleanupTasks s) \<and>
     sorted_wrt (<) (rootTasks s) \<and> sorted_wrt (<) (rootCleanupTasks s) \<and>
     (\<forall>i. i \<in> set (allTasks s) \<longleftrightarrow> (\<exists>t. getTaskState s i = Some t \<and> \<not> isCleanup t)) \<and>
     (\<forall>i. i \<in> set (allCleanupTasks s) \<longleftrightarrow> (\<exists>t. getTaskState s i = Some t \<and> isCleanup t)) \<and>
     (\<forall>i\<in>set (rootTasks s). \<exists>t. getTaskState s i = Some t \<and> \<not> isCleanup t \<and> parentState t = None) \<and>
     (\<forall>i\<in>set (rootCleanupTasks s). \<exists>t. getTaskState s i = Some t \<and> isCleanup t \<and> parentState t = None)"

definition scope_inv :: "scheduler \<Rightarrow> bool" where
  "scope_inv s \<longleftrightarrow> heap_wf (varHeap s) \<and> rootVars s < length (varHeap s) \<and>
     (\<forall>i t. getTaskState s i = Some t \<longrightarrow>
        taskVars t < length (varHeap s) \<and> taskOutputs t < length (varHeap s) \<and>
        taskStatusVars t < length (varHeap s))"

text \<open>The life of one task: not started, running, or stopped, with the times to match.\<close>

definition life_inv :: "taskState \<Rightarrow> bool" where
  "life_inv t \<longleftrightarrow> (isRunning t \<longrightarrow> isStarted t) \<and> (isSkipped t \<longrightarrow> isStarted t) \<and>
     (startTime t \<noteq> None \<longleftrightarrow> isStarted t) \<and>
     (stopTime t \<noteq> None \<longleftrightarrow> isStarted t \<and> \<not> isRunning t)"

text \<open>The current channel of a task is open and belongs to no other task.\<close>

definition chan_inv :: "scheduler \<Rightarrow> bool" where
  "chan_inv s \<longleftrightarrow>
     (\<forall>c\<in>set (closedChans s). c < chanCount s) \<and>
     (\<forall>i t c. getTaskState s i = Some t \<and> resultNotifyChan t = Some c \<longrightarrow>
        c < chanCount s \<and> c \<notin> set (closedChans s)) \<and>
     (\<forall>i j t u c. getTaskState s i = Some t \<and> getTaskState s j = Some u \<and>
        resultNotifyChan t = Some c \<and> resultNotifyChan u = Some c \<longrightarrow> i = j)"

definition mirror_inv :: "scheduler \<Rightarrow> bool" where
  "mirror_inv s \<longleftrightarrow>
     (\<forall>i t row. getTaskState s i = Some t \<and> dbTaskState t = Some row \<longrightarrow>
        taskStateKey row = (testRunID s, of_nat i))"

definition sched_inv :: "scheduler \<Rightarrow> bool" where
  "sched_inv s \<longleftrightarrow> tree_inv s \<and> list_inv s \<and> scope_inv s \<and>
     (\<forall>i t. getTaskState s i = Some t \<longrightarrow> life_inv t) \<and> chan_inv s \<and> mirror_inv s"

text \<open>
  Most operations leave the tree alone: \<open>same_tree\<close> says that the lists, the counters and the
  parts of every task that never change after its creation are the same, and that the heap has
  only grown. Such a step keeps the first three parts of the invariant.
\<close>

definition taskStatic :: "taskState \<Rightarrow> nat \<times> TaskOptions \<times> TaskDescriptor \<times> nat \<times> vref \<times> nat option \<times> bool \<times> vref \<times> vref" where
  "taskStatic t = (taskIdx t, taskOptions t, taskDescriptor t, taskDepth t, taskVars t,
     parentState t, isCleanup t, taskOutputs t, taskStatusVars t)"

definition same_tree :: "scheduler \<Rightarrow> scheduler \<Rightarrow> bool" where
  "same_tree s s' \<longleftrightarrow>
     rootVars s' = rootVars s \<and> testRunID s' = testRunID s \<and> taskCount s' = taskCount s \<and>
     allTasks s' = allTasks s \<and> rootTasks s' = rootTasks s \<and>
     allCleanupTasks s' = allCleanupTasks s \<and> rootCleanupTasks s' = rootCleanupTasks s \<and>
     (\<forall>i. map_option taskStatic (getTaskState s' i) = map_option taskStatic (getTaskState s i)) \<and>
     (heap_wf (varHeap s) \<longrightarrow> heap_wf (varHeap s') \<and> length (varHeap s) \<le> length (varHeap s'))"

lemma same_tree_refl [simp]: "same_tree s s"
  by (simp add: same_tree_def)

lemma same_tree_trans: "same_tree a b \<Longrightarrow> same_tree b c \<Longrightarrow> same_tree a c"
  by (auto simp: same_tree_def)

lemma same_tree_task:
  assumes "same_tree s s'"
  shows "getTaskState s' i = None \<longleftrightarrow> getTaskState s i = None"
    and "getTaskState s' i = Some t' \<Longrightarrow> \<exists>t. getTaskState s i = Some t \<and> taskStatic t' = taskStatic t"
    and "getTaskState s i = Some t \<Longrightarrow> \<exists>t'. getTaskState s' i = Some t' \<and> taskStatic t' = taskStatic t"
proof -
  have eq: "map_option taskStatic (getTaskState s' i) = map_option taskStatic (getTaskState s i)"
    using assms unfolding same_tree_def by blast
  show "getTaskState s' i = None \<longleftrightarrow> getTaskState s i = None"
    using eq by (cases "getTaskState s i"; cases "getTaskState s' i") auto
  show "getTaskState s' i = Some t' \<Longrightarrow> \<exists>t. getTaskState s i = Some t \<and> taskStatic t' = taskStatic t"
    using eq by (cases "getTaskState s i") auto
  show "getTaskState s i = Some t \<Longrightarrow> \<exists>t'. getTaskState s' i = Some t' \<and> taskStatic t' = taskStatic t"
    using eq by (cases "getTaskState s' i") auto
qed

lemma taskStatic_eqD:
  assumes "taskStatic t' = taskStatic t"
  shows "taskIdx t' = taskIdx t" "taskOptions t' = taskOptions t" "taskDescriptor t' = taskDescriptor t"
    "taskDepth t' = taskDepth t" "taskVars t' = taskVars t" "parentState t' = parentState t"
    "isCleanup t' = isCleanup t" "taskOutputs t' = taskOutputs t" "taskStatusVars t' = taskStatusVars t"
  using assms by (simp_all add: taskStatic_def)

lemma tree_invD:
  assumes "tree_inv s"
  shows "getTaskState s i \<noteq> None \<longleftrightarrow> 1 \<le> i \<and> i \<le> taskCount s"
    and "getTaskState s i = Some t \<Longrightarrow> taskIdx t = i"
    and "getTaskState s i = Some t \<Longrightarrow> parentState t = None \<Longrightarrow> taskDepth t = 0"
    and "getTaskState s i = Some t \<Longrightarrow> parentState t = Some p \<Longrightarrow> p < i"
    and "getTaskState s i = Some t \<Longrightarrow> parentState t = Some p \<Longrightarrow>
      \<exists>pt. getTaskState s p = Some pt \<and> taskDepth t = Suc (taskDepth pt) \<and> isCleanup pt = isCleanup t"
  using assms unfolding tree_inv_def by blast+

lemma same_tree_tree_inv:
  assumes "same_tree s s'" and "tree_inv s"
  shows "tree_inv s'"
  unfolding tree_inv_def
proof (intro conjI allI impI)
  have cnt: "taskCount s' = taskCount s" using assms(1) by (simp add: same_tree_def)
  show "getTaskState s' i \<noteq> None \<longleftrightarrow> 1 \<le> i \<and> i \<le> taskCount s'" for i
    using tree_invD(1) [OF assms(2), of i] same_tree_task(1) [OF assms(1), of i] cnt by simp
  fix i t
  {
    assume "getTaskState s' i = Some t"
    then obtain u where u: "getTaskState s i = Some u" "taskStatic t = taskStatic u"
      using same_tree_task(2) [OF assms(1)] by blast
    note st = taskStatic_eqD [OF u(2)]
    show "taskIdx t = i" using tree_invD(2) [OF assms(2) u(1)] st by simp
  }
  {
    assume "getTaskState s' i = Some t \<and> parentState t = None"
    then obtain u where u: "getTaskState s i = Some u" "taskStatic t = taskStatic u" "parentState t = None"
      using same_tree_task(2) [OF assms(1)] by blast
    note st = taskStatic_eqD [OF u(2)]
    show "taskDepth t = 0" using tree_invD(3) [OF assms(2) u(1)] st u(3) by simp
  }
  fix p
  {
    assume "getTaskState s' i = Some t \<and> parentState t = Some p"
    then obtain u where u: "getTaskState s i = Some u" "taskStatic t = taskStatic u" "parentState t = Some p"
      using same_tree_task(2) [OF assms(1)] by blast
    note st = taskStatic_eqD [OF u(2)]
    have pu: "parentState u = Some p" using u(3) st by simp
    show "p < i" using tree_invD(4) [OF assms(2) u(1) pu] .
    obtain q where q: "getTaskState s p = Some q" "taskDepth u = Suc (taskDepth q)" "isCleanup q = isCleanup u"
      using tree_invD(5) [OF assms(2) u(1) pu] by blast
    obtain q' where q': "getTaskState s' p = Some q'" "taskStatic q' = taskStatic q"
      using same_tree_task(3) [OF assms(1) q(1)] by blast
    show "\<exists>pt. getTaskState s' p = Some pt \<and> taskDepth t = Suc (taskDepth pt) \<and> isCleanup pt = isCleanup t"
      using q q' st taskStatic_eqD [OF q'(2)] by auto
  }
qed

lemma same_tree_list_inv:
  assumes "same_tree s s'" and "list_inv s"
  shows "list_inv s'"
proof -
  have ex: "(\<exists>t. getTaskState s' i = Some t \<and> P (taskStatic t)) \<longleftrightarrow>
      (\<exists>t. getTaskState s i = Some t \<and> P (taskStatic t))" for i P
    using same_tree_task(2,3) [OF assms(1), of i] by metis
  from ex [of _ "\<lambda>(_, _, _, _, _, _, c, _, _). c"] ex [of _ "\<lambda>(_, _, _, _, _, _, c, _, _). \<not> c"]
    ex [of _ "\<lambda>(_, _, _, _, _, p, c, _, _). c \<and> p = None"]
    ex [of _ "\<lambda>(_, _, _, _, _, p, c, _, _). \<not> c \<and> p = None"]
  have "(\<exists>t. getTaskState s' i = Some t \<and> isCleanup t) \<longleftrightarrow> (\<exists>t. getTaskState s i = Some t \<and> isCleanup t)"
    "(\<exists>t. getTaskState s' i = Some t \<and> \<not> isCleanup t) \<longleftrightarrow> (\<exists>t. getTaskState s i = Some t \<and> \<not> isCleanup t)"
    "(\<exists>t. getTaskState s' i = Some t \<and> isCleanup t \<and> parentState t = None) \<longleftrightarrow>
     (\<exists>t. getTaskState s i = Some t \<and> isCleanup t \<and> parentState t = None)"
    "(\<exists>t. getTaskState s' i = Some t \<and> \<not> isCleanup t \<and> parentState t = None) \<longleftrightarrow>
     (\<exists>t. getTaskState s i = Some t \<and> \<not> isCleanup t \<and> parentState t = None)" for i
    by (simp_all add: taskStatic_def)
  then show ?thesis using assms unfolding list_inv_def same_tree_def by simp
qed

lemma same_tree_scope_inv:
  assumes "same_tree s s'" and "scope_inv s"
  shows "scope_inv s'"
proof -
  have h: "heap_wf (varHeap s')" "length (varHeap s) \<le> length (varHeap s')" "rootVars s' = rootVars s"
    using assms by (auto simp: same_tree_def scope_inv_def)
  have "taskVars t < length (varHeap s') \<and> taskOutputs t < length (varHeap s') \<and>
      taskStatusVars t < length (varHeap s')" if t: "getTaskState s' i = Some t" for i t
  proof -
    obtain u where u: "getTaskState s i = Some u" "taskStatic t = taskStatic u"
      using same_tree_task(2) [OF assms(1) t] by blast
    have "taskVars u < length (varHeap s) \<and> taskOutputs u < length (varHeap s) \<and>
        taskStatusVars u < length (varHeap s)"
      using assms(2) u(1) unfolding scope_inv_def by blast
    then show ?thesis using h(2) taskStatic_eqD [OF u(2)] by auto
  qed
  then show ?thesis using h assms(2) by (auto simp: scope_inv_def)
qed

text \<open>
  The operations on a single task. \<open>only_task i\<close> relates states whose difference is confined to
  the changing parts of task \<open>i\<close>, the heap, the database, the channels and the contexts.
\<close>

definition only_task :: "nat \<Rightarrow> scheduler \<Rightarrow> scheduler \<Rightarrow> bool" where
  "only_task i s s' \<longleftrightarrow> same_tree s s' \<and> (\<forall>j. j \<noteq> i \<longrightarrow> getTaskState s' j = getTaskState s j)"

lemma only_task_refl [simp]: "only_task i s s"
  by (simp add: only_task_def)

lemma only_task_trans: "only_task i a b \<Longrightarrow> only_task i b c \<Longrightarrow> only_task i a c"
  unfolding only_task_def using same_tree_trans [of a b c] by simp

lemma only_task_modTask [simp]: "(\<And>t. taskStatic (f t) = taskStatic t) \<Longrightarrow> only_task i s (modTask i f s)"
  by (simp add: only_task_def same_tree_def option.map_comp comp_def)

lemma only_task_setStatusVar [simp]: "only_task i s (setStatusVar i name x s)"
  by (simp add: only_task_def same_tree_def setStatusVar_def SetVar_wf length_SetVar split: option.split)

lemma only_task_updateTaskState:
  assumes "updateTaskState L i s = Some (err, s')"
  shows "only_task i s s'"
proof -
  obtain t where t: "getTaskState s i = Some t" using updateTaskState_known [OF assms] by blast
  obtain row where "getTaskState s' i = Some (t\<lparr>dbTaskState := row\<rparr>)"
    using updateTaskState_fields(1) [OF assms t] by blast
  then have "map_option taskStatic (getTaskState s' j) = map_option taskStatic (getTaskState s j)" for j
    using updateTaskState_fields(2) [OF assms t, of j] t by (cases "j = i") (simp_all add: taskStatic_def)
  then show ?thesis
    by (simp add: only_task_def same_tree_def updateTaskState_fields [OF assms t])
qed

lemma only_task_setTaskResult:
  assumes "setTaskResult L i r u s = Some s'"
  shows "only_task i s s'"
proof -
  obtain t where t: "getTaskState s i = Some t" using setTaskResult_known [OF assms] by blast
  obtain row where "getTaskState s' i = Some (t\<lparr>updatedResult := updatedResult t \<or> u, taskResult := r,
        resultNotifyChan := (if taskResult t = r then resultNotifyChan t else None), dbTaskState := row\<rparr>)"
    using setTaskResult_self [OF assms t] by blast
  then have "map_option taskStatic (getTaskState s' j) = map_option taskStatic (getTaskState s j)" for j
    using setTaskResult_fields(1) [OF assms t, of j] t by (cases "j = i") (simp_all add: taskStatic_def)
  then show ?thesis
    by (simp add: only_task_def same_tree_def setTaskResult_fields [OF assms t] SetVar_wf length_SetVar)
qed

lemma sched_invD:
  assumes "sched_inv s"
  shows "tree_inv s" "list_inv s" "scope_inv s" "chan_inv s" "mirror_inv s"
    and "getTaskState s i = Some t \<Longrightarrow> life_inv t"
  using assms by (auto simp: sched_inv_def)

lemma mirror_inv_only_task:
  assumes "mirror_inv s" and "only_task i s s'" and "getTaskState s i = Some t"
    and "getTaskState s' i = Some t'"
    and "map_option taskStateKey (dbTaskState t') = map_option taskStateKey (dbTaskState t)"
  shows "mirror_inv s'"
  unfolding mirror_inv_def
proof (intro allI impI)
  fix j u row
  assume u: "getTaskState s' j = Some u \<and> dbTaskState u = Some row"
  have run: "testRunID s' = testRunID s" using assms(2) by (simp add: only_task_def same_tree_def)
  show "taskStateKey row = (testRunID s', word_of_nat j)"
  proof (cases "j = i")
    case True
    then have "u = t'" using u assms(4) by simp
    then obtain row0 where "dbTaskState t = Some row0" "taskStateKey row0 = taskStateKey row"
      using assms(5) u by (cases "dbTaskState t") auto
    then show ?thesis using assms(1,3) run True unfolding mirror_inv_def by metis
  next
    case False
    then have "getTaskState s j = Some u" using u assms(2) by (simp add: only_task_def)
    then show ?thesis using assms(1) u run unfolding mirror_inv_def by metis
  qed
qed

lemma sched_inv_only_task:
  assumes "sched_inv s" and "only_task i s s'" and "getTaskState s i = Some t"
    and "getTaskState s' i = Some t'" and "life_inv t'" and "chan_inv s'"
    and "map_option taskStateKey (dbTaskState t') = map_option taskStateKey (dbTaskState t)"
  shows "sched_inv s'"
proof -
  have st: "same_tree s s'" using assms(2) by (simp add: only_task_def)
  have "life_inv u" if "getTaskState s' j = Some u" for j u
    using that assms(1,2,4,5) by (cases "j = i") (auto simp: only_task_def sched_inv_def)
  then show ?thesis
    using same_tree_tree_inv [OF st] same_tree_list_inv [OF st] same_tree_scope_inv [OF st]
      mirror_inv_only_task [OF _ assms(2,3,4,7)] assms(1,6)
    by (auto simp: sched_inv_def)
qed

lemma chan_inv_same:
  assumes "chan_inv s" and "only_task i s s'" and "getTaskState s i = Some t"
    and "getTaskState s' i = Some t'" and "resultNotifyChan t' = resultNotifyChan t"
    and "chanCount s' = chanCount s" and "closedChans s' = closedChans s"
  shows "chan_inv s'"
proof -
  have eq: "\<exists>v. getTaskState s j = Some v \<and> resultNotifyChan v = resultNotifyChan u"
    if "getTaskState s' j = Some u" for j u
    using that assms(2,3,4,5) by (cases "j = i") (auto simp: only_task_def)
  show ?thesis
    unfolding chan_inv_def assms(6,7)
  proof (intro conjI allI impI ballI)
    fix j k u v c
    assume "getTaskState s' j = Some u \<and> getTaskState s' k = Some v \<and>
      resultNotifyChan u = Some c \<and> resultNotifyChan v = Some c"
    then obtain u' v' where "getTaskState s j = Some u'" "resultNotifyChan u' = Some c"
      "getTaskState s k = Some v'" "resultNotifyChan v' = Some c"
      using eq [of j u] eq [of k v] by auto
    then show "j = k" using assms(1) unfolding chan_inv_def by blast
  next
    fix j u c
    assume "getTaskState s' j = Some u \<and> resultNotifyChan u = Some c"
    then obtain u' where "getTaskState s j = Some u'" "resultNotifyChan u' = Some c"
      using eq [of j u] by auto
    then show "c < chanCount s" "c \<notin> set (closedChans s)" using assms(1) unfolding chan_inv_def by blast+
  qed (use assms(1) in \<open>auto simp: chan_inv_def\<close>)
qed

text \<open>A change of one task that leaves its channel and its mirror key alone.\<close>

lemma sched_inv_quiet:
  assumes "sched_inv s" and "only_task i s s'" and "getTaskState s i = Some t"
    and "getTaskState s' i = Some t'" and "life_inv t'"
    and "resultNotifyChan t' = resultNotifyChan t" and "chanCount s' = chanCount s"
    and "closedChans s' = closedChans s"
    and "map_option taskStateKey (dbTaskState t') = map_option taskStateKey (dbTaskState t)"
  shows "sched_inv s'"
  by (rule sched_inv_only_task [OF assms(1-5) chan_inv_same [OF sched_invD(4) [OF assms(1)] assms(2-4,6-8)] assms(9)])

lemma sched_inv_modTask:
  assumes "sched_inv s" and "getTaskState s i = Some t" and "\<And>t. taskStatic (f t) = taskStatic t"
    and "life_inv (f t)" and "resultNotifyChan (f t) = resultNotifyChan t"
    and "map_option taskStateKey (dbTaskState (f t)) = map_option taskStateKey (dbTaskState t)"
  shows "sched_inv (modTask i f s)"
  by (rule sched_inv_quiet [OF assms(1) only_task_modTask assms(2), where t' = "f t"]) (use assms in simp_all)

lemma sched_inv_setStatusVar:
  assumes "sched_inv s"
  shows "sched_inv (setStatusVar i name x s)"
proof (cases "getTaskState s i")
  case (Some t)
  then show ?thesis
    using sched_invD(6) [OF assms Some]
    by (intro sched_inv_quiet [OF assms only_task_setStatusVar Some]) auto
qed (use assms in \<open>simp add: setStatusVar_def\<close>)

lemma sched_inv_updateTaskState:
  assumes "sched_inv s" and "updateTaskState L i s = Some (err, s')"
  shows "sched_inv s'"
proof -
  obtain t where t: "getTaskState s i = Some t" using updateTaskState_known [OF assms(2)] by blast
  obtain row where row: "getTaskState s' i = Some (t\<lparr>dbTaskState := row\<rparr>)"
    "map_option taskStateKey row = map_option taskStateKey (dbTaskState t)"
    using updateTaskState_fields(1) [OF assms(2) t] by blast
  show ?thesis
    using sched_invD(6) [OF assms(1) t] row(2)
    by (intro sched_inv_quiet [OF assms(1) only_task_updateTaskState [OF assms(2)] t row(1)])
       (auto simp: updateTaskState_fields [OF assms(2) t] life_inv_def)
qed

text \<open>Setting a result closes the task's channel, which no other task shares.\<close>

lemma chan_inv_setTaskResult:
  assumes "chan_inv s" and "setTaskResult L i r u s = Some s'" and t: "getTaskState s i = Some t"
  shows "chan_inv s'"
proof (cases "taskResult t = r")
  case True
  obtain row where "getTaskState s' i = Some (t\<lparr>updatedResult := updatedResult t \<or> u, taskResult := r,
        resultNotifyChan := (if taskResult t = r then resultNotifyChan t else None), dbTaskState := row\<rparr>)"
    using setTaskResult_self [OF assms(2) t] by blast
  from chan_inv_same [OF assms(1) only_task_setTaskResult [OF assms(2)] t this]
  show ?thesis using True by (simp add: setTaskResult_fields [OF assms(2) t])
next
  case False
  have self: "\<exists>v. getTaskState s' i = Some v \<and> resultNotifyChan v = None"
    using setTaskResult_self [OF assms(2) t] False by auto
  have other: "j \<noteq> i \<and> getTaskState s j = Some v"
    if "getTaskState s' j = Some v" "resultNotifyChan v = Some c" for j v c
    using that self setTaskResult_fields(1) [OF assms(2) t, of j] by (cases "j = i") auto
  have cc: "chanCount s' = chanCount s" by (rule setTaskResult_fields [OF assms(2) t])
  have cl: "set (closedChans s') \<subseteq> set (closedChans s) \<union> set_option (resultNotifyChan t)"
    using False by (auto simp: setTaskResult_fields(11) [OF assms(2) t] split: option.splits)
  show ?thesis
    unfolding chan_inv_def cc
  proof (intro conjI allI impI ballI)
    fix c assume "c \<in> set (closedChans s')"
    then show "c < chanCount s" using cl assms(1) t unfolding chan_inv_def
      by (auto split: option.splits)
  next
    fix j v c
    assume "getTaskState s' j = Some v \<and> resultNotifyChan v = Some c"
    then have v: "j \<noteq> i" "getTaskState s j = Some v" "resultNotifyChan v = Some c" using other by auto
    then show "c < chanCount s" using assms(1) unfolding chan_inv_def by blast
    have "c \<notin> set (closedChans s)" using v assms(1) unfolding chan_inv_def by blast
    moreover have "resultNotifyChan t \<noteq> Some c" using v t assms(1) unfolding chan_inv_def by blast
    ultimately show "c \<notin> set (closedChans s')" using cl by auto
  next
    fix j k v w c
    assume "getTaskState s' j = Some v \<and> getTaskState s' k = Some w \<and>
      resultNotifyChan v = Some c \<and> resultNotifyChan w = Some c"
    then have "getTaskState s j = Some v" "getTaskState s k = Some w"
      "resultNotifyChan v = Some c" "resultNotifyChan w = Some c"
      using other by auto
    then show "j = k" using assms(1) unfolding chan_inv_def by blast
  qed
qed

lemma sched_inv_setTaskResult:
  assumes "sched_inv s" and "setTaskResult L i r u s = Some s'"
  shows "sched_inv s'"
proof -
  obtain t where t: "getTaskState s i = Some t" using setTaskResult_known [OF assms(2)] by blast
  obtain row where row: "map_option taskStateKey row = map_option taskStateKey (dbTaskState t)"
    "getTaskState s' i = Some (t\<lparr>updatedResult := updatedResult t \<or> u, taskResult := r,
        resultNotifyChan := (if taskResult t = r then resultNotifyChan t else None), dbTaskState := row\<rparr>)"
    using setTaskResult_self [OF assms(2) t] by blast
  show ?thesis
    using sched_invD(6) [OF assms(1) t] row(1)
    by (intro sched_inv_only_task [OF assms(1) only_task_setTaskResult [OF assms(2)] t row(2)]
        chan_inv_setTaskResult [OF sched_invD(4) [OF assms(1)] assms(2) t])
       (auto simp: life_inv_def)
qed

lemma sched_inv_updateChan:
  assumes "sched_inv s" and "GetTaskResultUpdateChan i old s = (c, s')"
  shows "sched_inv s'"
proof (cases "s' = s")
  case False
  then obtain t where t: "getTaskState s i = Some t" "resultNotifyChan t = None"
    "s' = (modTask i (\<lambda>t. t\<lparr>resultNotifyChan := Some (chanCount s)\<rparr>) s)\<lparr>chanCount := chanCount s + 1\<rparr>"
    using assms(2) by (auto simp: GetTaskResultUpdateChan_def split: option.splits if_splits)
  have "only_task i s s'"
    using t(1) unfolding t(3) by (simp add: only_task_def same_tree_def taskStatic_def)
  moreover have ci: "chan_inv s" using assms(1) by (rule sched_invD)
  have fresh: "c < chanCount s" if "getTaskState s j = Some v" "resultNotifyChan v = Some c" for j v c
    using ci that unfolding chan_inv_def by blast
  have "chan_inv s'"
    unfolding chan_inv_def
  proof (intro conjI allI impI ballI)
    fix c assume "c \<in> set (closedChans s')"
    then show "c < chanCount s'" using ci unfolding t(3) by (auto simp: chan_inv_def intro: less_SucI)
  next
    fix j v c
    assume v: "getTaskState s' j = Some v \<and> resultNotifyChan v = Some c"
    show "c < chanCount s'" using v t fresh [of j] by (cases "j = i") (auto simp: less_SucI)
    show "c \<notin> set (closedChans s')"
      using v t ci by (cases "j = i") (auto simp: chan_inv_def)
  next
    fix j k v w c
    assume "getTaskState s' j = Some v \<and> getTaskState s' k = Some w \<and>
      resultNotifyChan v = Some c \<and> resultNotifyChan w = Some c"
    then have both: "getTaskState s' j = Some v" "getTaskState s' k = Some w"
      "resultNotifyChan v = Some c" "resultNotifyChan w = Some c" by auto
    have old: "getTaskState s m = Some x" if "m \<noteq> i" "getTaskState s' m = Some x" for m x
      using that t(3) by simp
    have own: "c = chanCount s" if "m = i" "getTaskState s' m = Some x" "resultNotifyChan x = Some c" for m x
      using that t(1,3) by auto
    show "j = k"
    proof (cases "j = i \<or> k = i")
      case True
      then have "c = chanCount s" using own both by blast
      then show ?thesis using fresh old both by (metis less_irrefl)
    next
      case False
      then show ?thesis using ci old both unfolding chan_inv_def by blast
    qed
  qed
  moreover have "getTaskState s' i = Some (t\<lparr>resultNotifyChan := Some (chanCount s)\<rparr>)"
    using t(1,3) by simp
  moreover have "life_inv (t\<lparr>resultNotifyChan := Some (chanCount s)\<rparr>)"
    using sched_invD(6) [OF assms(1) t(1)] by (simp add: life_inv_def)
  ultimately show ?thesis using sched_inv_only_task [OF assms(1) _ t(1)] by simp
qed (use assms in simp)

lemma sched_inv_startTask:
  assumes "sched_inv s" and "getTaskState s i = Some t" and "\<not> isStarted t" and "startTask L i s = Some s'"
  shows "sched_inv s'"
proof -
  let ?f = "\<lambda>t. t\<lparr>isStarted := True, startTime := Some (clockMilli s), isRunning := True\<rparr>"
  have "life_inv (?f t)" using sched_invD(6) [OF assms(1,2)] assms(3) by (auto simp: life_inv_def)
  then have "sched_inv (modTask i ?f s)"
    by (intro sched_inv_modTask [OF assms(1,2)]) (simp_all add: taskStatic_def)
  then show ?thesis
    using assms(4) by (auto simp: startTask_def Let_def bind_eq_Some_conv
        elim!: sched_inv_updateTaskState [rotated] intro!: sched_inv_setStatusVar)
qed

lemma sched_inv_finishTask:
  assumes "sched_inv s" and "getTaskState s i = Some t" and "isStarted t" and "finishTask L i s = Some s'"
  shows "sched_inv s'"
proof -
  let ?f = "\<lambda>t. t\<lparr>isRunning := False, stopTime := Some (clockMilli s)\<rparr>"
  have "life_inv (?f t)" using sched_invD(6) [OF assms(1,2)] assms(3) by (auto simp: life_inv_def)
  then have "sched_inv (modTask i ?f s)"
    by (intro sched_inv_modTask [OF assms(1,2)]) (simp_all add: taskStatic_def)
  then show ?thesis
    using assms(4) by (auto simp: finishTask_def Let_def bind_eq_Some_conv
        elim!: sched_inv_updateTaskState [rotated] intro!: sched_inv_setStatusVar)
qed

lemma sched_inv_fireTimeout:
  assumes "sched_inv s"
  shows "sched_inv (fireTimeout i s)"
proof (cases "getTaskState s i")
  case None
  then show ?thesis using assms by (simp add: fireTimeout_def modTask_def sched_inv_setStatusVar)
next
  case (Some t)
  have "sched_inv (modTask i (\<lambda>t. t\<lparr>isTimeout := True\<rparr>) s)"
    using sched_invD(6) [OF assms Some]
    by (intro sched_inv_modTask [OF assms Some]) (simp_all add: taskStatic_def life_inv_def)
  then show ?thesis by (simp add: fireTimeout_def sched_inv_setStatusVar)
qed

section \<open>New tasks\<close>

lemma newTaskScopes_wf:
  assumes "heap_wf h" and "vars < length h" and "newTaskScopes h vars taskID = (h', outputs, status)"
  shows "heap_wf h' \<and> length h \<le> length h' \<and> outputs < length h' \<and> status < length h' \<and>
    outputs = length h \<and> status = Suc (length h)"
proof -
  let ?h1 = "h @ [VarScope (empty_scope None)]"
  let ?h2 = "?h1 @ [VarScope (empty_scope None)]"
  let ?h3 = "SetSubScope ?h2 (Suc (length h)) ''outputs'' (length h)"
  have w1: "heap_wf ?h1" using newVariables_wf(1) [OF assms(1), of None] by (simp add: newVariables_def)
  have w2: "heap_wf ?h2" using newVariables_wf(1) [OF w1, of None] by (simp add: newVariables_def)
  have w3: "heap_wf ?h3" using SetSubScope_wf [OF w2] by simp
  obtain h4 ts where g: "GetSubScope ?h3 vars ''tasks'' = (h4, ts)"
    by (cases "GetSubScope ?h3 vars ''tasks''")
  have "heap_wf h4 \<and> length ?h3 \<le> length h4 \<and> ts < length h4"
    using GetSubScope_inv [OF w3 _ g] assms(2) by simp
  then show ?thesis
    using assms(3) w3 g SetSubScope_wf [of h4 "Suc (length h)" ts taskID]
    by (auto simp: newTaskScopes_def NewVariables_def newVariables_def Let_def split: if_splits)
qed

text \<open>
  \<open>grown\<close> relates a state to the one after a task has been registered: the tree below is the
  same, the new task has the next index and sits in one of the lists.
\<close>

definition grown :: "scheduler \<Rightarrow> nat \<Rightarrow> taskState \<Rightarrow> scheduler \<Rightarrow> bool" where
  "grown s i t s' \<longleftrightarrow>
     i = taskCount s + 1 \<and> taskCount s' = i \<and> rootVars s' = rootVars s \<and> testRunID s' = testRunID s \<and>
     rootTasks s' = rootTasks s \<and> rootCleanupTasks s' = rootCleanupTasks s \<and>
     allTasks s' = (if isCleanup t then allTasks s else allTasks s @ [i]) \<and>
     allCleanupTasks s' = (if isCleanup t then allCleanupTasks s @ [i] else allCleanupTasks s) \<and>
     (\<forall>j. getTaskState s' j = (if j = i then Some t else getTaskState s j)) \<and>
     taskIdx t = i \<and> life_inv t \<and> resultNotifyChan t = None \<and> dbTaskState t = None \<and>
     chanCount s' = chanCount s \<and> closedChans s' = closedChans s \<and>
     heap_wf (varHeap s') \<and> length (varHeap s) \<le> length (varHeap s') \<and>
     taskVars t < length (varHeap s') \<and> taskOutputs t < length (varHeap s') \<and>
     taskStatusVars t < length (varHeap s')"

lemma grown_registerTask:
  assumes "scope_inv s" and "registerTask opts desc parent vars cleanup s = (i, s')"
    and "\<And>v. vars = Some v \<Longrightarrow> v < length (varHeap s)"
    and "\<And>p. parent = Some p \<Longrightarrow> taskVars p < length (varHeap s)"
  shows "\<exists>t. grown s i t s' \<and> isCleanup t = cleanup \<and> parentState t = map_option taskIdx parent \<and>
    taskDepth t = (case parent of Some p \<Rightarrow> taskDepth p + 1 | None \<Rightarrow> 0) \<and> \<not> isStarted t \<and>
    taskResult t = TaskResultNone"
proof -
  let ?v = "case vars of Some v \<Rightarrow> v | None \<Rightarrow> (case parent of Some p \<Rightarrow> taskVars p | None \<Rightarrow> rootVars s)"
  let ?d = "case parent of Some p \<Rightarrow> taskDepth p + 1 | None \<Rightarrow> 0"
  obtain h out st where n: "newTaskScopes (varHeap s) ?v (optID opts) = (h, out, st)"
    by (cases "newTaskScopes (varHeap s) ?v (optID opts)") auto
  have v: "?v < length (varHeap s)"
    using assms(1,3,4) by (auto simp: scope_inv_def split: option.split)
  note wf = newTaskScopes_wf [OF _ v n]
  let ?t = "initTaskState (taskCount s + 1) opts desc (map_option taskIdx parent) ?d ?v cleanup out st"
  have "grown s i ?t s'"
    using assms(1,2) wf v n
    by (auto simp: registerTask_def Let_def grown_def scope_inv_def getTaskState_def initTaskState_def life_inv_def)
  then show ?thesis by (intro exI [of _ ?t]) (simp add: initTaskState_def)
qed

lemma sched_inv_grown:
  assumes inv: "sched_inv s" and g: "grown s i t s'"
    and par: "\<And>p. parentState t = Some p \<Longrightarrow>
      \<exists>pt. getTaskState s p = Some pt \<and> taskDepth t = Suc (taskDepth pt) \<and> isCleanup pt = isCleanup t"
    and root: "parentState t = None \<Longrightarrow> taskDepth t = 0"
  shows "sched_inv s'"
proof -
  have get: "getTaskState s' j = (if j = i then Some t else getTaskState s j)" for j
    using g unfolding grown_def by blast
  note gs = g [unfolded grown_def]
  have dom: "getTaskState s j \<noteq> None \<longleftrightarrow> 1 \<le> j \<and> j \<le> taskCount s" for j
    by (rule tree_invD(1) [OF sched_invD(1) [OF inv]])
  have fresh: "getTaskState s i = None" using dom [of i] gs by auto
  have below: "p < i" if "getTaskState s p = Some q" for p q
    using dom [of p] that gs by simp
  have keeps: "getTaskState s' p = Some q" if "getTaskState s p = Some q" for p q
    using that fresh get by auto
  have "tree_inv s'"
    unfolding tree_inv_def
  proof (intro conjI allI impI)
    show "getTaskState s' j \<noteq> None \<longleftrightarrow> 1 \<le> j \<and> j \<le> taskCount s'" for j
      using dom [of j] get [of j] gs by auto
    fix j u
    show "getTaskState s' j = Some u \<Longrightarrow> taskIdx u = j"
      using get [of j] gs tree_invD(2) [OF sched_invD(1) [OF inv]] by (auto split: if_splits)
    show "getTaskState s' j = Some u \<and> parentState u = None \<Longrightarrow> taskDepth u = 0"
      using get [of j] root tree_invD(3) [OF sched_invD(1) [OF inv]] by (auto split: if_splits)
    fix p
    assume u: "getTaskState s' j = Some u \<and> parentState u = Some p"
    have "\<exists>pt. getTaskState s p = Some pt \<and> taskDepth u = Suc (taskDepth pt) \<and> isCleanup pt = isCleanup u"
      using u get [of j] par tree_invD(5) [OF sched_invD(1) [OF inv], of j u p] by (auto split: if_splits)
    then show "\<exists>pt. getTaskState s' p = Some pt \<and> taskDepth u = Suc (taskDepth pt) \<and> isCleanup pt = isCleanup u"
      using keeps by blast
    show "p < j"
      using u get [of j] par below tree_invD(4) [OF sched_invD(1) [OF inv], of j u p] by (auto split: if_splits)
  qed
  moreover have "list_inv s'"
  proof -
    note li = sched_invD(2) [OF inv, unfolded list_inv_def]
    have lt: "\<forall>j\<in>set (allTasks s) \<union> set (allCleanupTasks s). j < i" using li below by blast
    have mem: "(\<exists>u. getTaskState s' j = Some u \<and> P u) \<longleftrightarrow>
        (if j = i then P t else (\<exists>u. getTaskState s j = Some u \<and> P u))" for j P
      using get [of j] by auto
    have roots: "\<forall>j\<in>set (rootTasks s) \<union> set (rootCleanupTasks s). j < i" using li below by blast
    show ?thesis
      unfolding list_inv_def mem using li gs lt roots
      by (auto simp: sorted_wrt_append)
  qed
  moreover have "scope_inv s'"
    using sched_invD(3) [OF inv] gs get unfolding scope_inv_def
    by (auto split: if_splits intro: less_le_trans)
  moreover have "life_inv u" if "getTaskState s' j = Some u" for j u
    using that get [of j] gs sched_invD(6) [OF inv] by (auto split: if_splits)
  moreover have "chan_inv s'"
    using sched_invD(4) [OF inv] gs get unfolding chan_inv_def by (simp split: if_splits)
  moreover have "mirror_inv s'"
    using sched_invD(5) [OF inv] gs get unfolding mirror_inv_def by (simp split: if_splits)
  ultimately show ?thesis by (simp add: sched_inv_def)
qed

lemma storeTask_shape:
  assumes "storeTask L i s = Some (r, s')"
  shows "s' = s \<or> (\<exists>t row d. getTaskState s i = Some t \<and>
      taskStateKey row = (testRunID s, of_nat i) \<and>
      s' = (modTask i (\<lambda>t. t\<lparr>dbTaskState := Some row\<rparr>) s)\<lparr>schedDb := Some d\<rparr>)"
proof (cases "schedDb s")
  case None
  then show ?thesis using assms by (simp add: storeTask_def)
next
  case (Some d)
  obtain t title where t: "getTaskState s i = Some t" "Title L s t = Some title"
    using assms Some by (auto simp: storeTask_def bind_eq_Some_conv split: option.splits)
  let ?row = "newDbTaskState (testRunID s) i title (taskOptions t) (isCleanup t) (parentState t)"
  have "\<exists>d. s' = (modTask i (\<lambda>x. x\<lparr>dbTaskState := Some ?row\<rparr>) s)\<lparr>schedDb := Some d\<rparr>"
    using assms Some t by (auto simp: storeTask_def Let_def split: prod.splits)
  moreover have "taskStateKey ?row = (testRunID s, of_nat i)" by (simp add: newDbTaskState_def)
  ultimately show ?thesis using t(1) by blast
qed

lemma only_task_schedDb [simp]: "only_task i s (s'\<lparr>schedDb := d\<rparr>) = only_task i s s'"
  by (simp add: only_task_def same_tree_def)

lemma mirror_inv_store:
  assumes "mirror_inv s" and "taskStateKey row = (testRunID s, of_nat i)"
  shows "mirror_inv ((modTask i (\<lambda>t. t\<lparr>dbTaskState := Some row\<rparr>) s)\<lparr>schedDb := d\<rparr>)"
  using assms by (auto simp: mirror_inv_def split: if_splits)

lemma sched_inv_storeTask:
  assumes "sched_inv s" and "storeTask L i s = Some (r, s')"
  shows "sched_inv s' \<and> only_task i s s'"
  using storeTask_shape [OF assms(2)]
proof (elim disjE exE conjE)
  fix t row d
  assume t: "getTaskState s i = Some t" and key: "taskStateKey row = (testRunID s, of_nat i)"
    and s': "s' = (modTask i (\<lambda>t. t\<lparr>dbTaskState := Some row\<rparr>) s)\<lparr>schedDb := Some d\<rparr>"
  have ot: "only_task i s s'" unfolding s' by (simp add: taskStatic_def)
  then have st: "same_tree s s'" by (simp add: only_task_def)
  have get: "getTaskState s' i = Some (t\<lparr>dbTaskState := Some row\<rparr>)" unfolding s' using t by simp
  have "chan_inv s'"
    by (rule chan_inv_same [OF sched_invD(4) [OF assms(1)] ot t get]) (simp_all add: s')
  moreover have "mirror_inv s'" unfolding s' by (rule mirror_inv_store [OF sched_invD(5) [OF assms(1)] key])
  moreover have "life_inv u" if "getTaskState s' j = Some u" for j u
  proof (cases "j = i")
    case True
    then have "u = t\<lparr>dbTaskState := Some row\<rparr>" using that get by simp
    then show ?thesis using sched_invD(6) [OF assms(1) t] by (simp add: life_inv_def)
  next
    case False
    then have "getTaskState s j = Some u" using that ot by (simp add: only_task_def)
    then show ?thesis by (rule sched_invD(6) [OF assms(1)])
  qed
  ultimately have "sched_inv s'"
    using same_tree_tree_inv [OF st] same_tree_list_inv [OF st] same_tree_scope_inv [OF st]
      sched_invD(1-3) [OF assms(1)]
    by (auto simp: sched_inv_def)
  with ot show ?thesis by blast
qed (use assms in simp)

text \<open>
  \<open>newTaskState\<close> for a parent that exists and is on the same side of the cleanup divide, as the
  task context arranges it.
\<close>

definition valid_parent :: "scheduler \<Rightarrow> nat option \<Rightarrow> bool \<Rightarrow> bool" where
  "valid_parent s parent cleanup \<longleftrightarrow>
     (case parent of
        None \<Rightarrow> True
      | Some p \<Rightarrow> (\<exists>t. getTaskState s p = Some t \<and> isCleanup t = cleanup))"

lemma newTaskState_grows:
  assumes inv: "sched_inv s" and vp: "valid_parent s parent cleanup"
    and vars: "\<And>v. vars = Some v \<Longrightarrow> v < length (varHeap s)"
    and res: "newTaskState L opts parent vars cleanup s = Some (r, s')"
    and known: "GetTaskDescriptor (descriptors L) (optName opts) = Some desc"
  shows "\<exists>i t s1. grown s i t s1 \<and> sched_inv s1 \<and> sched_inv s' \<and> only_task i s1 s' \<and> isCleanup t = cleanup \<and>
    parentState t = parent \<and> \<not> isStarted t \<and> taskResult t = TaskResultNone \<and> storeTask L i s1 = Some (r, s')"
proof -
  let ?p = "case parent of Some p \<Rightarrow> getTaskState s p | None \<Rightarrow> None"
  obtain i s1 where reg: "registerTask opts desc ?p vars cleanup s = (i, s1)"
    by (cases "registerTask opts desc ?p vars cleanup s")
  have st: "storeTask L i s1 = Some (r, s')" using res known reg by (simp add: newTaskState_def)
  have par: "\<exists>pt. parent = Some q \<and> getTaskState s q = Some pt \<and> taskIdx pt = q \<and> isCleanup pt = cleanup \<and> ?p = Some pt"
    if "parent = Some q" for q
    using that vp tree_invD(2) [OF sched_invD(1) [OF inv]] by (auto simp: valid_parent_def)
  have "taskVars p < length (varHeap s)" if "?p = Some p" for p
    using that sched_invD(3) [OF inv] unfolding scope_inv_def by (auto split: option.splits)
  from grown_registerTask [OF sched_invD(3) [OF inv] reg vars this]
  obtain t where t: "grown s i t s1" "isCleanup t = cleanup" "parentState t = map_option taskIdx ?p"
    "taskDepth t = (case ?p of Some p \<Rightarrow> taskDepth p + 1 | None \<Rightarrow> 0)" "\<not> isStarted t"
    "taskResult t = TaskResultNone"
    by blast
  have pt: "parentState t = parent" using t(3) par by (cases parent) auto
  have "sched_inv s1"
  proof (rule sched_inv_grown [OF inv t(1)])
    show "parentState t = None \<Longrightarrow> taskDepth t = 0" using t(4) pt by simp
    show "\<exists>pt. getTaskState s p = Some pt \<and> taskDepth t = Suc (taskDepth pt) \<and> isCleanup pt = isCleanup t"
      if "parentState t = Some p" for p
      using that pt t(2,4) par [of p] by auto
  qed
  then show ?thesis using sched_inv_storeTask [OF _ st] t pt st by blast
qed

lemma sched_inv_newTaskState:
  assumes "sched_inv s" and "valid_parent s parent cleanup"
    and "\<And>v. vars = Some v \<Longrightarrow> v < length (varHeap s)"
    and "newTaskState L opts parent vars cleanup s = Some (r, s')"
  shows "sched_inv s'"
proof (cases "GetTaskDescriptor (descriptors L) (optName opts)")
  case None
  then show ?thesis using assms(1,4) by (simp add: newTaskState_def)
next
  case (Some desc)
  show ?thesis using newTaskState_grows [OF assms(1-4) Some] by blast
qed

end
