(* ===== verification/TaskExecution.thy ===== *)
theory TaskExecution
  imports SchedulerInv
begin

text \<open>
  Interleaved use of the scheduler and the execution of tasks: a step relation with one rule per
  atomic operation, the invariant over all reachable states, what a task may rely on while other
  goroutines run, and from that the contract of \<open>ExecuteTask\<close>, \<open>RunTasks\<close>, the result watcher and
  the task order.
\<close>

section \<open>Steps\<close>

text \<open>
  \<open>sched_step L A\<close> is one atomic operation of some goroutine, where \<open>A\<close> holds the tasks whose
  \<open>ExecuteTask\<close> call is in the hands of the goroutines that move. A running task body reports
  results through its context (with the update mark), timers fire at any time, variables
  are assigned, watchers ask for channels, contexts are cancelled and time passes. Index 0, which
  no task has, stands for the owner of the scheduler, who adds the root tasks.
\<close>

inductive sched_step :: "sched_libs \<Rightarrow> nat set \<Rightarrow> scheduler \<Rightarrow> scheduler \<Rightarrow> bool"
  for L :: sched_libs and A :: "nat set" where
  step_new: "valid_parent s parent cleanup \<Longrightarrow> (\<forall>v. vars = Some v \<longrightarrow> v < length (varHeap s)) \<Longrightarrow>
     newTaskState L opts parent vars cleanup s = Some (r, s') \<Longrightarrow> sched_step L A s s'"
| step_root: "0 \<in> A \<Longrightarrow> newTaskState L opts None None False s = Some (Inr i, s') \<Longrightarrow>
     sched_step L A s (s'\<lparr>rootTasks := rootTasks s' @ [i]\<rparr>)"
| step_cleanup: "0 \<in> A \<Longrightarrow> newTaskState L opts None None True s = Some (Inr i, s') \<Longrightarrow>
     sched_step L A s (s'\<lparr>rootCleanupTasks := rootCleanupTasks s' @ [i]\<rparr>)"
| step_start: "i \<in> A \<Longrightarrow> getTaskState s i = Some t \<Longrightarrow> \<not> isStarted t \<Longrightarrow> startTask L i s = Some s' \<Longrightarrow>
     sched_step L A s s'"
| step_finish: "i \<in> A \<Longrightarrow> getTaskState s i = Some t \<Longrightarrow> isStarted t \<Longrightarrow> finishTask L i s = Some s' \<Longrightarrow>
     sched_step L A s s'"
| step_report: "i \<in> A \<or> (\<exists>t. getTaskState s i = Some t \<and> isRunning t) \<Longrightarrow>
     setTaskResult L i r True s = Some s' \<Longrightarrow> sched_step L A s s'"
| step_result: "i \<in> A \<Longrightarrow> setTaskResult L i r False s = Some s' \<Longrightarrow> sched_step L A s s'"
| step_skip: "i \<in> A \<Longrightarrow> getTaskState s i = Some t \<Longrightarrow> isStarted t \<Longrightarrow>
     sched_step L A s (modTask i (\<lambda>t. t\<lparr>isSkipped := True\<rparr>) s)"
| step_inst: "i \<in> A \<Longrightarrow> sched_step L A s (modTask i (\<lambda>t. t\<lparr>taskInst := inst, taskConfig := cfg t\<rparr>) s)"
| step_error: "i \<in> A \<Longrightarrow> sched_step L A s (modTask i (\<lambda>t. t\<lparr>taskError := err t\<rparr>) s)"
| step_timeout: "sched_step L A s (fireTimeout i s)"
| step_chan: "GetTaskResultUpdateChan i old s = (c, s') \<Longrightarrow> sched_step L A s s'"
| step_vars: "heap_wf h \<Longrightarrow> length (varHeap s) \<le> length h \<Longrightarrow> sched_step L A s (s\<lparr>varHeap := h\<rparr>)"
| step_db: "sched_step L A s (s\<lparr>schedDb := d\<rparr>)"
| step_ctx: "sched_step L A s (s\<lparr>cancelSet := b, parentCtxErr := e1, tasksCtxErr := e2, cleanupCtxErr := e3\<rparr>)"
| step_clock: "sched_step L A s (s\<lparr>clockMilli := m\<rparr>)"

abbreviation sched_steps :: "sched_libs \<Rightarrow> nat set \<Rightarrow> scheduler \<Rightarrow> scheduler \<Rightarrow> bool" where
  "sched_steps L A \<equiv> (sched_step L A)\<^sup>*\<^sup>*"

lemma sched_step_mono: "sched_step L A s s' \<Longrightarrow> A \<subseteq> B \<Longrightarrow> sched_step L B s s'"
  by (induction rule: sched_step.induct) (auto intro: sched_step.intros)

lemma sched_steps_mono: "sched_steps L A s s' \<Longrightarrow> A \<subseteq> B \<Longrightarrow> sched_steps L B s s'"
  by (induction rule: rtranclp_induct) (auto intro: sched_step_mono rtranclp.rtrancl_into_rtrancl)

section \<open>Every step keeps the invariant\<close>

lemma sched_inv_frame:
  assumes "sched_inv s" and "same_tree s s'" and "\<And>i. getTaskState s' i = getTaskState s i"
    and "chanCount s' = chanCount s" and "closedChans s' = closedChans s"
  shows "sched_inv s'"
proof -
  have "testRunID s' = testRunID s" using assms(2) by (simp add: same_tree_def)
  then show ?thesis
    using same_tree_tree_inv [OF assms(2)] same_tree_list_inv [OF assms(2)]
      same_tree_scope_inv [OF assms(2)] assms(1)
    unfolding sched_inv_def chan_inv_def mirror_inv_def assms(3,4,5) by simp
qed

text \<open>A root task is the newest task.\<close>

lemma newTaskState_Inr:
  assumes "sched_inv s" and "valid_parent s parent cleanup"
    and "\<And>v. vars = Some v \<Longrightarrow> v < length (varHeap s)"
    and "newTaskState L opts parent vars cleanup s = Some (Inr i, s')"
  shows "sched_inv s' \<and> i = taskCount s + 1 \<and> taskCount s' = i \<and>
    rootTasks s' = rootTasks s \<and> rootCleanupTasks s' = rootCleanupTasks s \<and>
    (\<exists>t. getTaskState s' i = Some t \<and> isCleanup t = cleanup \<and> parentState t = parent \<and> \<not> isStarted t) \<and>
    (\<forall>j. j \<noteq> i \<longrightarrow> getTaskState s' j = getTaskState s j)"
proof -
  obtain desc where known: "GetTaskDescriptor (descriptors L) (optName opts) = Some desc"
    using assms(4) by (cases "GetTaskDescriptor (descriptors L) (optName opts)") (auto simp: newTaskState_def)
  obtain k t s1 where k: "grown s k t s1" "sched_inv s'" "only_task k s1 s'" "isCleanup t = cleanup"
    "parentState t = parent" "\<not> isStarted t" "storeTask L k s1 = Some (Inr i, s')"
    using newTaskState_grows [OF assms known] by blast
  have ik: "i = k"
    using k(7) by (auto simp: storeTask_def bind_eq_Some_conv Let_def case_prod_unfold split: option.splits)
  have g1: "getTaskState s1 k = Some t" "taskCount s1 = k" "k = taskCount s + 1" "rootTasks s1 = rootTasks s"
    "rootCleanupTasks s1 = rootCleanupTasks s" "\<And>j. j \<noteq> k \<Longrightarrow> getTaskState s1 j = getTaskState s j"
    using k(1) by (auto simp: grown_def)
  have st: "same_tree s1 s'" using k(3) by (simp add: only_task_def)
  have "\<exists>t'. getTaskState s' k = Some t' \<and> isCleanup t' = cleanup \<and> parentState t' = parent \<and> \<not> isStarted t'"
    using storeTask_shape [OF k(7)] g1(1) k(4-6) by (elim disjE exE conjE) auto
  then show ?thesis
    using k(2,3) ik g1 st by (auto simp: only_task_def same_tree_def)
qed

lemma sched_inv_push_root:
  assumes "sched_inv s" and "getTaskState s i = Some t" and "parentState t = None"
    and "\<forall>j\<in>set (rootTasks s) \<union> set (rootCleanupTasks s). j < i"
  shows "\<not> isCleanup t \<Longrightarrow> sched_inv (s\<lparr>rootTasks := rootTasks s @ [i]\<rparr>)"
    and "isCleanup t \<Longrightarrow> sched_inv (s\<lparr>rootCleanupTasks := rootCleanupTasks s @ [i]\<rparr>)"
  using assms
  by (auto simp: sched_inv_def tree_inv_def list_inv_def scope_inv_def chan_inv_def mirror_inv_def
      sorted_wrt_append)

lemma sched_inv_roots_below:
  assumes "sched_inv s" and "j \<in> set (rootTasks s) \<union> set (rootCleanupTasks s)"
  shows "j \<le> taskCount s"
proof -
  have "getTaskState s j \<noteq> None" using assms sched_invD(2) [OF assms(1)] by (auto simp: list_inv_def)
  then show ?thesis using tree_invD(1) [OF sched_invD(1) [OF assms(1)]] by blast
qed

lemma sched_inv_step:
  assumes "sched_step L A s s'" and "sched_inv s"
  shows "sched_inv s'"
  using assms
proof (induction rule: sched_step.induct)
  case (step_new s parent cleanup vars opts r s')
  then show ?case using sched_inv_newTaskState [of s parent cleanup vars L opts r s'] by blast
next
  case (step_root opts s i s')
  have "valid_parent s None False" by (simp add: valid_parent_def)
  from newTaskState_Inr [OF step_root(3) this _ step_root(2)] obtain t where
    n: "sched_inv s'" "i = taskCount s + 1" "rootTasks s' = rootTasks s"
    "rootCleanupTasks s' = rootCleanupTasks s" "getTaskState s' i = Some t" "\<not> isCleanup t" "parentState t = None"
    by auto
  show ?case
    by (rule sched_inv_push_root(1) [OF n(1,5,7) _ n(6)])
       (use sched_inv_roots_below [OF step_root(3)] n(2,3,4) in fastforce)
next
  case (step_cleanup opts s i s')
  have "valid_parent s None True" by (simp add: valid_parent_def)
  from newTaskState_Inr [OF step_cleanup(3) this _ step_cleanup(2)] obtain t where
    n: "sched_inv s'" "i = taskCount s + 1" "rootTasks s' = rootTasks s"
    "rootCleanupTasks s' = rootCleanupTasks s" "getTaskState s' i = Some t" "isCleanup t" "parentState t = None"
    by auto
  show ?case
    by (rule sched_inv_push_root(2) [OF n(1,5,7) _ n(6)])
       (use sched_inv_roots_below [OF step_cleanup(3)] n(2,3,4) in fastforce)
next
  case (step_skip i s t)
  then show ?case
    using sched_invD(6) [OF step_skip(4,2)]
    by (intro sched_inv_modTask [OF step_skip(4,2)]) (simp_all add: taskStatic_def life_inv_def)
next
  case (step_inst i s inst cfg)
  show ?case
  proof (cases "getTaskState s i")
    case (Some t)
    then show ?thesis using sched_invD(6) [OF step_inst(2) Some]
      by (intro sched_inv_modTask [OF step_inst(2) Some]) (simp_all add: taskStatic_def life_inv_def)
  qed (use step_inst in \<open>simp add: modTask_def\<close>)
next
  case (step_error i s err)
  show ?case
  proof (cases "getTaskState s i")
    case (Some t)
    then show ?thesis using sched_invD(6) [OF step_error(2) Some]
      by (intro sched_inv_modTask [OF step_error(2) Some]) (simp_all add: taskStatic_def life_inv_def)
  qed (use step_error in \<open>simp add: modTask_def\<close>)
next
  case (step_start i s t s')
  then show ?case using sched_inv_startTask by blast
next
  case (step_finish i s t s')
  then show ?case using sched_inv_finishTask by blast
next
  case (step_report i r s s')
  then show ?case using sched_inv_setTaskResult by blast
next
  case (step_result i r s s')
  then show ?case using sched_inv_setTaskResult by blast
next
  case (step_timeout s i)
  then show ?case by (rule sched_inv_fireTimeout)
next
  case (step_chan i old s c s')
  then show ?case using sched_inv_updateChan by blast
next
  case (step_vars h s)
  then show ?case by (intro sched_inv_frame [OF step_vars(3)]) (simp_all add: same_tree_def)
qed (rule sched_inv_frame, assumption, simp_all add: same_tree_def)+

lemma sched_inv_steps: "sched_steps L A s s' \<Longrightarrow> sched_inv s \<Longrightarrow> sched_inv s'"
  by (induction rule: rtranclp_induct) (auto intro: sched_inv_step)

lemma sched_inv_NewTaskScheduler:
  "heap_wf h \<Longrightarrow> vars < length h \<Longrightarrow> sched_inv (NewTaskScheduler d h vars runID)"
  by (simp add: NewTaskScheduler_def sched_inv_def tree_inv_def list_inv_def scope_inv_def chan_inv_def
      mirror_inv_def getTaskState_def)

text \<open>C1. Whatever the goroutines of a test run do, in any order, the scheduler state stays well
  formed: task indices are consecutive, parents are older and on the same side of the cleanup
  divide, every task is in exactly the list of its kind in creation order, started, running,
  skipped and stopped flags agree with the times, every current result channel is open and owned
  by one task, and the database mirror carries the key of its task.
\<close>

theorem scheduler_invariant:
  assumes "heap_wf h" and "vars < length h"
    and "sched_steps L UNIV (NewTaskScheduler d h vars runID) s"
  shows "sched_inv s"
  using sched_inv_steps [OF assms(3)] sched_inv_NewTaskScheduler [OF assms(1,2)] by simp

definition free_scheduler :: scheduler where
  "free_scheduler = NewTaskScheduler None (fst (NewVariables [] None)) 0 1"

section \<open>What a running task may rely on\<close>

lemma startTask_task:
  assumes "startTask L i s = Some s'" and "getTaskState s i = Some t"
  shows "\<exists>row. getTaskState s' i = Some (t\<lparr>isStarted := True, startTime := Some (clockMilli s),
      isRunning := True, dbTaskState := row\<rparr>)"
    and "only_task i s s'"
proof -
  let ?s1 = "modTask i (\<lambda>t. t\<lparr>isStarted := True, startTime := Some (clockMilli s), isRunning := True\<rparr>) s"
  let ?s3 = "setStatusVar i ''running'' (VBool True) (setStatusVar i ''started'' (VBool True) ?s1)"
  obtain err where upd: "updateTaskState L i ?s3 = Some (err, s')"
    using assms(1) by (auto simp: startTask_def Let_def bind_eq_Some_conv)
  have "getTaskState ?s3 i = Some (t\<lparr>isStarted := True, startTime := Some (clockMilli s), isRunning := True\<rparr>)"
    using assms(2) by simp
  from updateTaskState_fields(1) [OF upd this]
  show "\<exists>row. getTaskState s' i = Some (t\<lparr>isStarted := True, startTime := Some (clockMilli s),
      isRunning := True, dbTaskState := row\<rparr>)"
    by auto
  have "only_task i s ?s1" by (simp add: taskStatic_def)
  then show "only_task i s s'"
    using only_task_updateTaskState [OF upd] only_task_trans only_task_setStatusVar by meson
qed

lemma finishTask_task:
  assumes "finishTask L i s = Some s'" and "getTaskState s i = Some t"
  shows "\<exists>row. getTaskState s' i = Some (t\<lparr>isRunning := False, stopTime := Some (clockMilli s), dbTaskState := row\<rparr>)"
    and "only_task i s s'"
proof -
  let ?s1 = "modTask i (\<lambda>t. t\<lparr>isRunning := False, stopTime := Some (clockMilli s)\<rparr>) s"
  let ?s3 = "setStatusVar i ''running'' (VBool False) ?s1"
  obtain err where upd: "updateTaskState L i ?s3 = Some (err, s')"
    using assms(1) by (auto simp: finishTask_def Let_def bind_eq_Some_conv)
  have "getTaskState ?s3 i = Some (t\<lparr>isRunning := False, stopTime := Some (clockMilli s)\<rparr>)"
    using assms(2) by simp
  from updateTaskState_fields(1) [OF upd this]
  show "\<exists>row. getTaskState s' i = Some (t\<lparr>isRunning := False, stopTime := Some (clockMilli s), dbTaskState := row\<rparr>)"
    by auto
  have "only_task i s ?s1" by (simp add: taskStatic_def)
  then show "only_task i s s'"
    using only_task_updateTaskState [OF upd] only_task_trans only_task_setStatusVar by meson
qed

lemma only_task_fireTimeout: "only_task i s (fireTimeout i s)"
  unfolding fireTimeout_def
  by (rule only_task_trans [OF only_task_modTask only_task_setStatusVar]) (simp add: taskStatic_def)

lemma only_task_updateChan: "GetTaskResultUpdateChan i old s = (c, s') \<Longrightarrow> only_task i s s'"
  by (auto simp: GetTaskResultUpdateChan_def only_task_def same_tree_def taskStatic_def
      split: option.splits if_splits)

text \<open>
  The parts of a task that only its own \<open>ExecuteTask\<close> writes are kept, marks are never taken back,
  and without an update mark, or when the task does not run, the result is what it was.
\<close>

definition kept :: "taskState \<Rightarrow> taskState \<Rightarrow> bool" where
  "kept t t' \<longleftrightarrow> taskStatic t' = taskStatic t \<and> isStarted t' = isStarted t \<and> isRunning t' = isRunning t \<and>
     isSkipped t' = isSkipped t \<and> startTime t' = startTime t \<and> stopTime t' = stopTime t \<and>
     taskInst t' = taskInst t \<and> taskConfig t' = taskConfig t \<and> taskError t' = taskError t \<and>
     (updatedResult t \<longrightarrow> updatedResult t') \<and> (isTimeout t \<longrightarrow> isTimeout t') \<and>
     (\<not> updatedResult t' \<or> \<not> isRunning t \<longrightarrow> taskResult t' = taskResult t)"

lemma kept_refl [simp]: "kept t t"
  by (simp add: kept_def)

lemma kept_trans: "kept a b \<Longrightarrow> kept b c \<Longrightarrow> kept a c"
  by (auto simp: kept_def)

lemma rely_other:
  assumes "only_task j s s'" and "j \<noteq> i" and "getTaskState s i = Some t"
  shows "\<exists>t'. getTaskState s' i = Some t' \<and> kept t t'"
  using assms by (simp add: only_task_def)

lemma rely_step:
  assumes "sched_step L A s s'" and "i \<notin> A" and "getTaskState s i = Some t"
    and "sched_inv s"
  shows "\<exists>t'. getTaskState s' i = Some t' \<and> kept t t'"
  using assms
proof (induction rule: sched_step.induct)
  case (step_new s parent cleanup vars opts r s')
  show ?case
  proof (cases "GetTaskDescriptor (descriptors L) (optName opts)")
    case None
    then show ?thesis using step_new by (simp add: newTaskState_def)
  next
    case (Some desc)
    from newTaskState_grows [OF step_new(6,1) _ step_new(3) Some] step_new(2)
    obtain k u s1 where k: "grown s k u s1" "only_task k s1 s'" by blast
    have "k \<noteq> i" using k(1) step_new(5) tree_invD(1) [OF sched_invD(1) [OF step_new(6)], of i]
      by (auto simp: grown_def)
    moreover from this have "getTaskState s1 i = Some t" using k(1) step_new(5) by (auto simp: grown_def)
    ultimately show ?thesis using rely_other [OF k(2)] by blast
  qed
next
  case (step_root opts s k s')
  have "valid_parent s None False" by (simp add: valid_parent_def)
  from newTaskState_Inr [OF step_root(5) this _ step_root(2)]
  have "k = taskCount s + 1" "\<forall>j. j \<noteq> k \<longrightarrow> getTaskState s' j = getTaskState s j" by auto
  moreover have "i \<le> taskCount s"
    using tree_invD(1) [OF sched_invD(1) [OF step_root(5)], of i] step_root(4) by simp
  ultimately show ?case using step_root(4) by simp
next
  case (step_cleanup opts s k s')
  have "valid_parent s None True" by (simp add: valid_parent_def)
  from newTaskState_Inr [OF step_cleanup(5) this _ step_cleanup(2)]
  have "k = taskCount s + 1" "\<forall>j. j \<noteq> k \<longrightarrow> getTaskState s' j = getTaskState s j" by auto
  moreover have "i \<le> taskCount s"
    using tree_invD(1) [OF sched_invD(1) [OF step_cleanup(5)], of i] step_cleanup(4) by simp
  ultimately show ?case using step_cleanup(4) by simp
next
  case (step_start j s u s')
  then have "j \<noteq> i" by auto
  then show ?case using rely_other [OF startTask_task(2) [OF step_start(4,2)]] step_start(6) by blast
next
  case (step_finish j s u s')
  then have "j \<noteq> i" by auto
  then show ?case using rely_other [OF finishTask_task(2) [OF step_finish(4,2)]] step_finish(6) by blast
next
  case (step_report j s r s')
  show ?case
  proof (cases "j = i")
    case True
    then obtain row where "getTaskState s' i = Some (t\<lparr>updatedResult := updatedResult t \<or> True, taskResult := r,
        resultNotifyChan := (if taskResult t = r then resultNotifyChan t else None), dbTaskState := row\<rparr>)"
      using setTaskResult_self [of L i r True s s' t] step_report by blast
    moreover have "isRunning t" using step_report True by auto
    ultimately show ?thesis by (simp add: kept_def taskStatic_def)
  next
    case False
    then show ?thesis using rely_other [OF only_task_setTaskResult [OF step_report(2)]] step_report(4) by blast
  qed
next
  case (step_result j r s s')
  then have "j \<noteq> i" by auto
  then show ?case using rely_other [OF only_task_setTaskResult [OF step_result(2)]] step_result(4) by blast
next
  case (step_timeout s j)
  then show ?case
    by (cases "j = i") (auto simp: fireTimeout_def kept_def taskStatic_def)
next
  case (step_chan j old s c s')
  show ?case
  proof (cases "j = i")
    case True
    then show ?thesis using step_chan
      by (auto simp: GetTaskResultUpdateChan_def kept_def taskStatic_def split: option.splits if_splits)
  next
    case False
    then show ?thesis using rely_other [OF only_task_updateChan [OF step_chan(1)]] step_chan(3) by blast
  qed
qed (auto split: if_splits)

lemma rely_steps:
  assumes "sched_steps L A s s'" and "i \<notin> A" and "getTaskState s i = Some t"
    and "sched_inv s"
  shows "\<exists>t'. getTaskState s' i = Some t' \<and> kept t t'"
  using assms(1)
proof (induction rule: rtranclp_induct)
  case base
  then show ?case using assms(3) by auto
next
  case (step s1 s2)
  then obtain t1 where t1: "getTaskState s1 i = Some t1" "kept t t1" by blast
  then obtain t2 where "getTaskState s2 i = Some t2" "kept t1 t2"
    using rely_step [OF step(2) assms(2) t1(1)] sched_inv_steps [OF step(1) assms(4)] by blast
  then show ?case using kept_trans [OF t1(2)] by blast
qed

text \<open>Only the owner adds root tasks.\<close>

lemma newTaskState_roots:
  assumes "newTaskState L opts parent vars cleanup s = Some (r, s')"
  shows "rootTasks s' = rootTasks s \<and> rootCleanupTasks s' = rootCleanupTasks s"
proof (cases "GetTaskDescriptor (descriptors L) (optName opts)")
  case None
  then show ?thesis using assms by (simp add: newTaskState_def)
next
  case (Some desc)
  let ?r = "registerTask opts desc (case parent of Some p \<Rightarrow> getTaskState s p | None \<Rightarrow> None) vars cleanup s"
  have "storeTask L (fst ?r) (snd ?r) = Some (r, s')"
    using assms Some by (simp add: newTaskState_def Let_def case_prod_unfold)
  moreover have "rootTasks (snd ?r) = rootTasks s" "rootCleanupTasks (snd ?r) = rootCleanupTasks s"
    by (simp_all add: registerTask_def Let_def case_prod_unfold)
  ultimately show ?thesis by (auto dest!: storeTask_shape)
qed

lemma roots_step:
  assumes "sched_step L A s s'" and "0 \<notin> A"
  shows "rootTasks s' = rootTasks s \<and> rootCleanupTasks s' = rootCleanupTasks s"
proof -
  have ot: "rootTasks b = rootTasks a \<and> rootCleanupTasks b = rootCleanupTasks a" if "only_task i a b" for i a b
    using that by (simp add: only_task_def same_tree_def)
  show ?thesis using assms
  proof (induction rule: sched_step.induct)
    case (step_new s parent cleanup vars opts r s')
    then show ?case using newTaskState_roots by blast
  next
    case (step_start i s t s')
    then show ?case using ot startTask_task(2) by blast
  next
    case (step_finish i s t s')
    then show ?case using ot finishTask_task(2) by blast
  next
    case (step_report i s r s')
    then show ?case using ot only_task_setTaskResult by blast
  next
    case (step_result i r s s')
    then show ?case using ot only_task_setTaskResult by blast
  next
    case (step_timeout s i)
    then show ?case using ot only_task_fireTimeout by blast
  next
    case (step_chan i old s c s')
    then show ?case using ot only_task_updateChan by blast
  qed simp_all
qed

lemma roots_steps:
  "sched_steps L A s s' \<Longrightarrow> 0 \<notin> A \<Longrightarrow> rootTasks s' = rootTasks s \<and> rootCleanupTasks s' = rootCleanupTasks s"
  by (induction rule: rtranclp_induct) (auto dest: roots_step)

text \<open>Tasks are never removed.\<close>

lemma newTaskState_grown:
  assumes "sched_inv s" and "valid_parent s parent cleanup"
    and "\<And>v. vars = Some v \<Longrightarrow> v < length (varHeap s)"
    and "newTaskState L opts parent vars cleanup s = Some (r, s')"
  shows "taskCount s \<le> taskCount s' \<and> length (varHeap s) \<le> length (varHeap s')"
proof (cases "GetTaskDescriptor (descriptors L) (optName opts)")
  case None
  then show ?thesis using assms(4) by (simp add: newTaskState_def)
next
  case (Some desc)
  from newTaskState_grows [OF assms Some] obtain i t s1 where
    g: "grown s i t s1" "only_task i s1 s'" by blast
  then show ?thesis unfolding grown_def only_task_def same_tree_def by linarith
qed

lemma only_task_grown:
  "only_task i s s' \<Longrightarrow> sched_inv s \<Longrightarrow> taskCount s \<le> taskCount s' \<and> length (varHeap s) \<le> length (varHeap s')"
  by (simp add: only_task_def same_tree_def sched_inv_def scope_inv_def)

lemma grown_step:
  assumes "sched_step L A s s'" and "sched_inv s"
  shows "taskCount s \<le> taskCount s' \<and> length (varHeap s) \<le> length (varHeap s')"
  using assms(1,2)
proof (induction rule: sched_step.induct)
  case (step_new s parent cleanup vars opts r s')
  then show ?case using newTaskState_grown by blast
next
  case (step_root opts s i s')
  have "valid_parent s None False" by (simp add: valid_parent_def)
  from newTaskState_grown [OF step_root(3) this _ step_root(2)] show ?case by simp
next
  case (step_cleanup opts s i s')
  have "valid_parent s None True" by (simp add: valid_parent_def)
  from newTaskState_grown [OF step_cleanup(3) this _ step_cleanup(2)] show ?case by simp
next
  case (step_start i s t s')
  then show ?case using startTask_task(2) only_task_grown by blast
next
  case (step_finish i s t s')
  then show ?case using finishTask_task(2) only_task_grown by blast
next
  case (step_report i s r s')
  then show ?case using only_task_setTaskResult only_task_grown by blast
next
  case (step_result i r s s')
  then show ?case using only_task_setTaskResult only_task_grown by blast
next
  case (step_timeout s i)
  then show ?case using only_task_fireTimeout only_task_grown by blast
next
  case (step_chan i old s c s')
  then show ?case using only_task_updateChan only_task_grown by blast
qed simp_all

lemma grown_steps:
  assumes "sched_steps L A s s'" and "sched_inv s"
  shows "taskCount s \<le> taskCount s' \<and> length (varHeap s) \<le> length (varHeap s')"
  using assms(1)
proof (induction rule: rtranclp_induct)
  case (step s1 s2)
  then show ?case using grown_step [OF step(2) sched_inv_steps [OF step(1) assms(2)]] by simp
qed simp

text \<open>A set that holds every task still to be created.\<close>

definition covers :: "nat set \<Rightarrow> scheduler \<Rightarrow> bool" where
  "covers A s \<longleftrightarrow> (\<forall>j. taskCount s < j \<longrightarrow> j \<in> A)"

lemma covers_steps: "sched_steps L B s s' \<Longrightarrow> sched_inv s \<Longrightarrow> covers A s \<Longrightarrow> covers A s'"
  using grown_steps [of L B s s'] by (auto simp: covers_def)

lemma covers_step: "sched_step L B s s' \<Longrightarrow> sched_inv s \<Longrightarrow> covers A s \<Longrightarrow> covers A s'"
  using grown_step [of L B s s'] by (auto simp: covers_def)

lemma covers_above [simp]: "covers {j. n < j} s \<longleftrightarrow> n \<le> taskCount s"
  by (auto simp: covers_def)

section \<open>The contract of a task body\<close>

text \<open>
  What \<open>ExecuteTask\<close> expects of the code it runs for task \<open>i\<close>: whatever happens from the call to
  the return of \<open>LoadConfig\<close> and of \<open>Execute\<close>, by the body and by every other goroutine, is a
  sequence of scheduler steps that leaves the execution of \<open>i\<close> itself alone.
\<close>

lemma modTask_cong: "getTaskState s i = Some t \<Longrightarrow> f t = g t \<Longrightarrow> modTask i f s = modTask i g s"
  by (simp add: modTask_def)

text \<open>The child tasks a loaded task keeps are in its hands.\<close>

definition inst_ok :: "nat set \<Rightarrow> task_instance \<Rightarrow> bool" where
  "inst_ok A inst \<longleftrightarrow> set (flowTasks (instFlow inst)) \<subseteq> A"

locale task_body =
  fixes L :: sched_libs and i :: nat and A :: "nat set"
  assumes own: "i \<notin> A"
    and load_steps: "sched_inv s \<Longrightarrow> covers A s \<Longrightarrow> implLoad L i s = Some (r, s') \<Longrightarrow> sched_steps L A s s'"
    and load_inst: "sched_inv s \<Longrightarrow> covers A s \<Longrightarrow> implLoad L i s = Some (Inr inst, s') \<Longrightarrow> inst_ok A inst"
    and exec_steps: "sched_inv s \<Longrightarrow> covers A s \<Longrightarrow> getTaskState s i = Some t \<Longrightarrow> isRunning t \<Longrightarrow>
      taskInst t = Some inst \<Longrightarrow> inst_ok A inst \<Longrightarrow> implExec L i s = Some (out, s') \<Longrightarrow> sched_steps L A s s'"
begin

lemma steps_own: "sched_steps L A s s' \<Longrightarrow> sched_steps L (insert i A) s s'"
  by (rule sched_steps_mono) auto

lemma step_own: "sched_step L (insert i A) s s' \<Longrightarrow> sched_steps L (insert i A) s s'"
  by blast

text \<open>What follows the body is again made of steps, and ends with the result the code documents.\<close>

lemma evalResult_spec:
  assumes "evalResult L i err s = Some (out, s')" and t: "getTaskState s i = Some t"
  shows "sched_steps L (insert i A) s s'"
    and "\<exists>t'. getTaskState s' i = Some t' \<and> taskStatic t' = taskStatic t \<and> isStarted t' = isStarted t \<and>
      isRunning t' = isRunning t \<and> isSkipped t' = isSkipped t \<and>
      taskResult t' = (if updatedResult t \<and> taskResult t \<noteq> TaskResultNone then taskResult t
                       else resultFromError err t) \<and>
      (out \<noteq> None \<longleftrightarrow> taskResult t' = TaskResultFailure) \<and>
      taskError t' = (if taskError t = None then err else taskError t)"
proof -
  let ?f = "\<lambda>u. u\<lparr>taskError := (if taskError u = None then err else taskError u)\<rparr>"
  let ?s1 = "modTask i ?f s"
  have s1: "(if err = None then s else modTask i (\<lambda>t. if taskError t = None then t\<lparr>taskError := err\<rparr> else t) s) = ?s1"
  proof (cases "err = None")
    case True
    then show ?thesis using t modTask_id [OF t, of ?f] by (cases "taskError t") auto
  next
    case False
    then show ?thesis using modTask_cong [OF t, of "\<lambda>t. if taskError t = None then t\<lparr>taskError := err\<rparr> else t" ?f]
      by auto
  qed
  have t1: "getTaskState ?s1 i = Some (?f t)" using t by simp
  have st1: "sched_step L (insert i A) s ?s1" by (rule step_error) simp
  have ev: "evalResult L i err s = Option.bind
      (if \<not> updatedResult t \<or> taskResult t = TaskResultNone
       then setTaskResult L i (resultFromError err t) False ?s1 else Some ?s1)
      (\<lambda>s2. Option.bind (getTaskState s2 i) (\<lambda>t2.
         Some (if taskResult t2 = TaskResultFailure then Some (taskFailedError t2) else None, s2)))"
    unfolding evalResult_def Let_def s1 t1 by (simp add: resultFromError_def)
  from assms(1) [unfolded ev] obtain s2 t2 where s2: "(if \<not> updatedResult t \<or> taskResult t = TaskResultNone
      then setTaskResult L i (resultFromError err t) False ?s1 else Some ?s1) = Some s2"
    "getTaskState s2 i = Some t2" "s' = s2"
    "out = (if taskResult t2 = TaskResultFailure then Some (taskFailedError t2) else None)"
    by (elim bind_eq_Some_conv [THEN iffD1, elim_format] exE conjE) simp
  show "sched_steps L (insert i A) s s'"
    using s2(1,3) st1 step_result [of i "insert i A" L "resultFromError err t" ?s1 s2]
    by (auto split: if_splits intro: converse_rtranclp_into_rtranclp)
  show "\<exists>t'. getTaskState s' i = Some t' \<and> taskStatic t' = taskStatic t \<and> isStarted t' = isStarted t \<and>
      isRunning t' = isRunning t \<and> isSkipped t' = isSkipped t \<and>
      taskResult t' = (if updatedResult t \<and> taskResult t \<noteq> TaskResultNone then taskResult t
                       else resultFromError err t) \<and>
      (out \<noteq> None \<longleftrightarrow> taskResult t' = TaskResultFailure) \<and>
      taskError t' = (if taskError t = None then err else taskError t)"
  proof (cases "updatedResult t \<and> taskResult t \<noteq> TaskResultNone")
    case True
    then have t2: "t2 = ?f t" using s2(1,2) t1 by auto
    have "getTaskState s' i = Some t2" using s2(2,3) by simp
    then show ?thesis using s2(4) True unfolding t2 by (intro exI [of _ "?f t"]) (simp add: taskStatic_def)
  next
    case False
    then have "setTaskResult L i (resultFromError err t) False ?s1 = Some s2" using s2(1) by auto
    from setTaskResult_self [OF this t1] s2(2) show ?thesis
      using s2(3,4) False by (auto simp: taskStatic_def)
  qed
qed

lemma recoverPanic_spec:
  assumes "recoverPanic L i p s = Some (out, s')" and t: "getTaskState s i = Some t"
  shows "sched_steps L (insert i A) s s'"
    and "out = None \<and> (\<exists>t'. getTaskState s' i = Some t' \<and> taskStatic t' = taskStatic t \<and>
      isStarted t' = isStarted t \<and> isRunning t' = isRunning t \<and> isSkipped t' = isSkipped t \<and>
      taskResult t' = TaskResultFailure)"
proof -
  let ?f = "\<lambda>u. u\<lparr>taskError := (if p = None then taskError u else p)\<rparr>"
  have s1: "(if p = None then s else modTask i (\<lambda>t. t\<lparr>taskError := p\<rparr>) s) = modTask i ?f s"
    using modTask_id [OF t, of "\<lambda>t. t"] modTask_cong [OF t, of "\<lambda>t. t\<lparr>taskError := p\<rparr>" ?f] by auto
  have t1: "getTaskState (modTask i ?f s) i = Some (?f t)" using t by simp
  have res: "out = None" "setTaskResult L i TaskResultFailure False (modTask i ?f s) = Some s'"
    using assms(1) unfolding recoverPanic_def Let_def s1 by (auto simp: bind_eq_Some_conv)
  have "sched_step L (insert i A) s (modTask i ?f s)" by (rule step_error) simp
  moreover have "sched_step L (insert i A) (modTask i ?f s) s'" by (rule step_result [OF _ res(2)]) simp
  ultimately show "sched_steps L (insert i A) s s'" by (meson r_into_rtranclp rtranclp_trans)
  show "out = None \<and> (\<exists>t'. getTaskState s' i = Some t' \<and> taskStatic t' = taskStatic t \<and>
      isStarted t' = isStarted t \<and> isRunning t' = isRunning t \<and> isSkipped t' = isSkipped t \<and>
      taskResult t' = TaskResultFailure)"
    using setTaskResult_self [OF res(2) t1] res(1) by (auto simp: taskStatic_def)
qed

text \<open>The end of a task as its caller sees it.\<close>

definition ended :: "taskState \<Rightarrow> go_error \<Rightarrow> taskState \<Rightarrow> bool" where
  "ended t err t' \<longleftrightarrow> taskStatic t' = taskStatic t \<and> isStarted t' \<and> isRunning t' = isRunning t \<and>
     ((\<forall>s. implNew L i s = None) \<and> err \<noteq> None \<longrightarrow> taskResult t' = TaskResultFailure) \<and>
     (err = None \<and> (\<forall>s p s'. implExec L i s \<noteq> Some (ExecPanicked p, s')) \<longrightarrow>
        (isSkipped t' \<and> taskResult t' = TaskResultNone) \<or> taskResult t' \<noteq> TaskResultFailure)"

lemma runInstance_spec:
  assumes inv: "sched_inv s" and cov: "covers A s" and t: "getTaskState s i = Some t" "isStarted t" and run: "isRunning t"
    and res: "runInstance L i s = Some (err, s')"
  shows "sched_steps L (insert i A) s s' \<and> (\<exists>t'. getTaskState s' i = Some t' \<and> ended t err t')"
proof (cases "implNew L i s")
  case (Some e)
  then show ?thesis using res t by (auto simp: runInstance_def ended_def)
next
  case None
  obtain r s1 where ld: "implLoad L i s = Some (r, s1)"
    using res None by (auto simp: runInstance_def split: option.splits)
  have st1: "sched_steps L A s s1" by (rule load_steps [OF inv cov ld])
  have inv1: "sched_inv s1" by (rule sched_inv_steps [OF st1 inv])
  obtain t1 where t1: "getTaskState s1 i = Some t1" "kept t t1" using rely_steps [OF st1 own t(1) inv] by blast
  have st1': "sched_steps L (insert i A) s s1" by (rule steps_own [OF st1])
  show ?thesis
  proof (cases r)
    case (Inl e)
    then obtain x where x: "setTaskResult L i TaskResultFailure False s1 = Some s'" "err = Some x"
      using res None ld by (auto simp: runInstance_def bind_eq_Some_conv)
    have "sched_step L (insert i A) s1 s'" by (rule step_result [OF _ x(1)]) simp
    then show ?thesis
      using st1' setTaskResult_self [OF x(1) t1(1)] x(2) t1(2) t(2)
      by (auto simp: ended_def kept_def taskStatic_def)
  next
    case (Inr inst)
    let ?s2 = "modTask i (\<lambda>t. t\<lparr>taskInst := Some inst, taskConfig := instConfig inst\<rparr>) s1"
    let ?t2 = "t1\<lparr>taskInst := Some inst, taskConfig := instConfig inst\<rparr>"
    obtain out s3 s4 where ex: "implExec L i ?s2 = Some (out, s3)"
      and ev: "(case out of ExecReturned e \<Rightarrow> evalResult L i e s3 | ExecPanicked p \<Rightarrow> recoverPanic L i p s3) = Some (err, s4)"
      and s': "s' = modTask i (\<lambda>t. t\<lparr>taskInst := None\<rparr>) s4"
      using res None ld Inr by (auto simp: runInstance_def Let_def bind_eq_Some_conv)
    have stp2: "sched_step L (insert i A) s1 ?s2"
      by (rule step_inst) simp
    have inv2: "sched_inv ?s2" by (rule sched_inv_step [OF stp2 inv1])
    have cov2: "covers A ?s2" using covers_steps [OF st1 inv cov] by (simp add: covers_def)
    have get2: "getTaskState ?s2 i = Some ?t2" using t1 by simp
    have st3: "sched_steps L A ?s2 s3"
      by (rule exec_steps [OF inv2 cov2 get2 _ _ load_inst [OF inv cov] ex])
        (use ld Inr t1(2) run in \<open>simp_all add: kept_def\<close>)
    from rely_steps [OF st3 own get2 inv2] obtain t3 where t3: "getTaskState s3 i = Some t3" "kept ?t2 t3" by blast
    have k3: "taskStatic t3 = taskStatic t \<and> isStarted t3 \<and> isRunning t3 = isRunning t \<and> isSkipped t3 = isSkipped t"
      using t3(2) t1(2) t(2) by (simp add: kept_def taskStatic_def)
    have st4: "sched_steps L (insert i A) s3 s4 \<and> (\<exists>t4. getTaskState s4 i = Some t4 \<and>
        taskStatic t4 = taskStatic t \<and> isStarted t4 \<and> isRunning t4 = isRunning t \<and>
        (err \<noteq> None \<longrightarrow> taskResult t4 = TaskResultFailure) \<and>
        (err = None \<and> (\<forall>p. out \<noteq> ExecPanicked p) \<longrightarrow> taskResult t4 \<noteq> TaskResultFailure))"
      using ev evalResult_spec [OF _ t3(1)] recoverPanic_spec [OF _ t3(1)] k3
      by (cases out) (fastforce, fastforce)
    then obtain t4 where t4: "getTaskState s4 i = Some t4" "taskStatic t4 = taskStatic t" "isStarted t4"
      "isRunning t4 = isRunning t" "err \<noteq> None \<longrightarrow> taskResult t4 = TaskResultFailure"
      "err = None \<and> (\<forall>p. out \<noteq> ExecPanicked p) \<longrightarrow> taskResult t4 \<noteq> TaskResultFailure" by blast
    have stp5: "sched_step L (insert i A) s4 s'"
      unfolding s' using step_inst [where i = i and A = "insert i A" and s = s4 and inst = None and cfg = taskConfig]
      by simp
    have "sched_steps L (insert i A) s s'"
      using st1' stp2 steps_own [OF st3] st4 stp5
      by (meson converse_rtranclp_into_rtranclp rtranclp.rtrancl_into_rtrancl rtranclp_trans)
    moreover have "getTaskState s' i = Some (t4\<lparr>taskInst := None\<rparr>)" using t4(1) s' by simp
    moreover have "ended t err (t4\<lparr>taskInst := None\<rparr>)"
      using t4 ex by (auto simp: ended_def taskStatic_def)
    ultimately show ?thesis by blast
  qed
qed

lemma ended_result:
  assumes "setTaskResult L i r False s = Some s'" and "getTaskState s i = Some t" and "isStarted t"
    and "err \<noteq> None \<Longrightarrow> r = TaskResultFailure"
    and "err = None \<Longrightarrow> isSkipped t \<and> r = TaskResultNone"
  shows "\<exists>t'. getTaskState s' i = Some t' \<and> ended t err t'"
  using setTaskResult_self [OF assms(1,2)] assms(3-5) by (auto simp: ended_def taskStatic_def)

lemma runCondition_spec:
  assumes inv: "sched_inv s" and cov: "covers A s" and t: "getTaskState s i = Some t" "isStarted t" and run: "isRunning t"
    and res: "runCondition L i s = Some (err, s')"
  shows "sched_steps L (insert i A) s s' \<and> (\<exists>t'. getTaskState s' i = Some t' \<and> ended t err t')"
proof (cases "optIf (taskOptions t) = ''''")
  case True
  then have "runInstance L i s = Some (err, s')" using res t by (simp add: runCondition_def)
  then show ?thesis by (rule runInstance_spec [OF inv cov t run])
next
  case False
  then obtain q where q: "ResolveQuery (libs_of L) (depth L) (varHeap s) (taskVars t) (optIf (taskOptions t)) = Some q"
    using res t by (auto simp: runCondition_def bind_eq_Some_conv)
  show ?thesis
  proof (cases q)
    case (Inl e)
    then obtain x where x: "setTaskResult L i TaskResultFailure False s = Some s'" "err = Some x"
      using res t False q by (auto simp: runCondition_def bind_eq_Some_conv)
    have "sched_step L (insert i A) s s'" by (rule step_result [OF _ x(1)]) simp
    then show ?thesis using ended_result [OF x(1) t, of err] x(2) by auto
  next
    case (Inr val)
    show ?thesis
    proof (cases "val = Some (VBool True)")
      case True
      then have "runInstance L i s = Some (err, s')" using res t False q Inr by (simp add: runCondition_def)
      then show ?thesis by (rule runInstance_spec [OF inv cov t run])
    next
      case no: False
      let ?s1 = "modTask i (\<lambda>t. t\<lparr>isSkipped := True\<rparr>) s"
      have x: "setTaskResult L i TaskResultNone False ?s1 = Some s'" "err = None"
        using res t False q Inr no by (auto simp: runCondition_def bind_eq_Some_conv)
      have a: "sched_step L (insert i A) s ?s1" by (rule step_skip [OF _ t]) simp
      have b: "sched_step L (insert i A) ?s1 s'" by (rule step_result [OF _ x(1)]) simp
      have "\<exists>t'. getTaskState s' i = Some t' \<and> ended (t\<lparr>isSkipped := True\<rparr>) err t'"
        by (rule ended_result [OF x(1)]) (use t x(2) in simp_all)
      then show ?thesis using a b by (auto simp: ended_def taskStatic_def)
    qed
  qed
qed

lemma ExecuteTask_spec:
  assumes inv: "sched_inv s" and cov: "covers A s" and t: "getTaskState s i = Some t" "\<not> isStarted t"
    and res: "ExecuteTask L i s = Some (err, s')"
  shows "sched_steps L (insert i A) s s' \<and> sched_inv s' \<and>
    (\<exists>t'. getTaskState s' i = Some t' \<and> taskStatic t' = taskStatic t \<and> isStarted t' \<and> \<not> isRunning t' \<and>
       startTime t' \<noteq> None \<and> stopTime t' \<noteq> None \<and>
       ((\<forall>s. implNew L i s = None) \<and> err \<noteq> None \<longrightarrow> taskResult t' = TaskResultFailure) \<and>
       (err = None \<and> (\<forall>s p s'. implExec L i s \<noteq> Some (ExecPanicked p, s')) \<longrightarrow>
          taskResult t' \<noteq> TaskResultFailure))"
proof -
  obtain s1 s2 where s1: "startTask L i s = Some s1" and s2: "runCondition L i s1 = Some (err, s2)"
    and s3: "finishTask L i s2 = Some s'"
    using res t by (auto simp: ExecuteTask_def bind_eq_Some_conv)
  have st1: "sched_step L (insert i A) s s1" by (rule step_start [OF _ t s1]) simp
  have inv1: "sched_inv s1" by (rule sched_inv_step [OF st1 inv])
  obtain row where t1: "getTaskState s1 i = Some (t\<lparr>isStarted := True, startTime := Some (clockMilli s),
      isRunning := True, dbTaskState := row\<rparr>)"
    using startTask_task(1) [OF s1 t(1)] by blast
  from runCondition_spec [OF inv1 covers_step [OF st1 inv cov] t1 _ _ s2] obtain t2 where st2: "sched_steps L (insert i A) s1 s2"
    and t2: "getTaskState s2 i = Some t2"
      "ended (t\<lparr>isStarted := True, startTime := Some (clockMilli s), isRunning := True, dbTaskState := row\<rparr>) err t2"
    by auto
  have "isStarted t2" using t2(2) by (simp add: ended_def)
  then have st3: "sched_step L (insert i A) s2 s'" using step_finish [OF _ t2(1) _ s3] by simp
  have all: "sched_steps L (insert i A) s s'"
    using st1 st2 st3 by (meson converse_rtranclp_into_rtranclp rtranclp.rtrancl_into_rtrancl)
  have inv': "sched_inv s'" by (rule sched_inv_steps [OF all inv])
  obtain row' where t3: "getTaskState s' i = Some (t2\<lparr>isRunning := False, stopTime := Some (clockMilli s2), dbTaskState := row'\<rparr>)"
    using finishTask_task(1) [OF s3 t2(1)] by blast
  have "startTime t2 \<noteq> None"
    using sched_invD(6) [OF inv' t3] \<open>isStarted t2\<close> by (simp add: life_inv_def)
  then show ?thesis using all inv' t3 t2(2) by (auto simp: ended_def taskStatic_def)
qed

end

section \<open>Executing a task\<close>

text \<open>C3. A call of \<open>ExecuteTask\<close> that returns, on a task whose body acts on other tasks only through the
  scheduler, leaves its task started, stopped and with both times set, and the scheduler well formed. If the task could be constructed, a returned error means the
  failure result; no error and no panic means the result is not failure.
\<close>

theorem ExecuteTask_contract:
  assumes "task_body L i A" and "sched_inv s" and "covers A s" and "getTaskState s i = Some t"
    and "\<not> isStarted t" and "ExecuteTask L i s = Some (err, s')"
  shows "sched_inv s' \<and>
    (\<exists>t'. getTaskState s' i = Some t' \<and> taskStatic t' = taskStatic t \<and> isStarted t' \<and> \<not> isRunning t' \<and>
       startTime t' \<noteq> None \<and> stopTime t' \<noteq> None \<and>
       ((\<forall>s. implNew L i s = None) \<and> err \<noteq> None \<longrightarrow> taskResult t' = TaskResultFailure) \<and>
       (err = None \<and> (\<forall>s p s'. implExec L i s \<noteq> Some (ExecPanicked p, s')) \<longrightarrow>
          taskResult t' \<noteq> TaskResultFailure))"
  using task_body.ExecuteTask_spec [OF assms] by blast

text \<open>
  A library whose tasks do nothing but end with a given outcome, and a scheduler with two root
  tasks, for the evaluation of the properties on concrete states.
\<close>

definition quiet_libs :: "exec_outcome \<Rightarrow> sched_libs" where
  "quiet_libs out = \<lparr>yamlGeneralize = Inr, jqFirst = (\<lambda>_ _. Inr None), sprintfV = (\<lambda>_. ''x''),
     sprintfF = (\<lambda>_. ''0.0''),
     descriptors = [\<lparr>descName = ''sleep'', descAliases = [], descDescription = ''Sleep for a specified duration.''\<rparr>],
     yamlConfig = (\<lambda>_. Inr ''{}''), yamlVars = (\<lambda>_. Inr ''{}''), dbDriver = reliable_driver, depth = 9,
     implNew = (\<lambda>_ _. None),
     implLoad = (\<lambda>_ s. Some (Inr \<lparr>instConfig = VNil, instTimeout = 0, instFlow = FlowOther\<rparr>, s)),
     implExec = (\<lambda>_ s. Some (out, s))\<rparr>"

definition sleep_options :: TaskOptions where
  "sleep_options = \<lparr>optName = ''sleep'', optConfig = VNil, optConfigVars = [], optTitle = '''',
     optTimeout = 0, optID = '''', optIf = ''''\<rparr>"

definition two_sleeps :: scheduler where
  "two_sleeps =
     (case AddRootTask (quiet_libs (ExecReturned None)) sleep_options free_scheduler of
        Some (r, s) \<Rightarrow>
          (case AddRootTask (quiet_libs (ExecReturned None)) sleep_options s of
             Some (r2, s2) \<Rightarrow> s2 | None \<Rightarrow> s)
      | None \<Rightarrow> free_scheduler)"

lemma task_body_quiet: "i \<notin> A \<Longrightarrow> task_body (quiet_libs out) i A"
  by unfold_locales (auto simp: quiet_libs_def inst_ok_def)

lemma free_scheduler_inv: "sched_inv free_scheduler"
proof -
  have "heap_wf (fst (NewVariables [] None))"
    using newVariables_wf(1) [of "[]" None] by (simp add: NewVariables_def)
  then show ?thesis unfolding free_scheduler_def
    by (rule sched_inv_NewTaskScheduler) (simp add: NewVariables_def newVariables_def)
qed

lemma newTaskState_sleep:
  "schedDb s = None \<Longrightarrow> newTaskState (quiet_libs out) sleep_options None None cleanup s =
    (let r = registerTask sleep_options (hd (descriptors (quiet_libs out))) None None cleanup s
     in Some (Inr (fst r), snd r))"
  by (simp add: newTaskState_def quiet_libs_def sleep_options_def storeTask_def registerTask_def Let_def
      case_prod_unfold)

lemma AddRootTask_sleep:
  assumes "schedDb s = None" and "0 \<in> A"
  shows "\<exists>s' t. AddRootTask (quiet_libs out) sleep_options s = Some (Inr (taskCount s + 1), s') \<and>
    sched_step (quiet_libs out) A s s' \<and> rootTasks s' = rootTasks s @ [taskCount s + 1] \<and>
    rootCleanupTasks s' = rootCleanupTasks s \<and> schedDb s' = None \<and> taskCount s' = taskCount s + 1 \<and>
    tasksCtxErr s' = tasksCtxErr s \<and> cleanupCtxErr s' = cleanupCtxErr s \<and> parentCtxErr s' = parentCtxErr s \<and>
    getTaskState s' (taskCount s + 1) = Some t \<and> \<not> isStarted t \<and> dbTaskState t = None \<and>
    taskOptions t = sleep_options \<and> taskResult t = TaskResultNone \<and> \<not> updatedResult t \<and> \<not> isTimeout t \<and>
    (\<forall>j. j \<noteq> taskCount s + 1 \<longrightarrow> getTaskState s' j = getTaskState s j)"
proof -
  obtain s1 where n: "newTaskState (quiet_libs out) sleep_options None None False s = Some (Inr (taskCount s + 1), s1)"
    and s1: "rootTasks s1 = rootTasks s" "rootCleanupTasks s1 = rootCleanupTasks s" "schedDb s1 = None"
      "taskCount s1 = taskCount s + 1" "tasksCtxErr s1 = tasksCtxErr s" "cleanupCtxErr s1 = cleanupCtxErr s"
      "parentCtxErr s1 = parentCtxErr s"
      "\<forall>j. j \<noteq> taskCount s + 1 \<longrightarrow> getTaskState s1 j = getTaskState s j"
      "\<exists>t. getTaskState s1 (taskCount s + 1) = Some t \<and> \<not> isStarted t \<and> dbTaskState t = None \<and>
        taskOptions t = sleep_options \<and> taskResult t = TaskResultNone \<and> \<not> updatedResult t \<and> \<not> isTimeout t"
    using assms
    by (simp add: newTaskState_sleep registerTask_def Let_def case_prod_unfold getTaskState_def initTaskState_def)
  have "sched_step (quiet_libs out) A s (s1\<lparr>rootTasks := rootTasks s1 @ [taskCount s + 1]\<rparr>)"
    by (rule step_root [OF assms(2) n])
  moreover have "AddRootTask (quiet_libs out) sleep_options s =
      Some (Inr (taskCount s + 1), s1\<lparr>rootTasks := rootTasks s1 @ [taskCount s + 1]\<rparr>)"
    using n by (simp add: AddRootTask_def)
  ultimately show ?thesis using s1 by auto
qed

lemma two_sleeps_tasks:
  shows "sched_inv two_sleeps" "rootTasks two_sleeps = [1, 2]" "rootCleanupTasks two_sleeps = []"
    "schedDb two_sleeps = None" "parentCtxErr two_sleeps = None"
    "i \<in> {1, 2} \<Longrightarrow> \<exists>t. getTaskState two_sleeps i = Some t \<and> \<not> isStarted t \<and> dbTaskState t = None \<and>
       taskOptions t = sleep_options \<and> taskResult t = TaskResultNone \<and> \<not> updatedResult t \<and> \<not> isTimeout t"
proof -
  let ?L = "quiet_libs (ExecReturned None)"
  have fr: "schedDb free_scheduler = None" "rootTasks free_scheduler = []" "taskCount free_scheduler = 0"
    "rootCleanupTasks free_scheduler = []" "parentCtxErr free_scheduler = None"
    by (simp_all add: free_scheduler_def NewTaskScheduler_def)
  from AddRootTask_sleep [OF fr(1), of UNIV "ExecReturned None"] fr obtain s1 t1 where
    s1: "AddRootTask ?L sleep_options free_scheduler = Some (Inr 1, s1)"
      "sched_step ?L UNIV free_scheduler s1" "rootTasks s1 = [1]" "rootCleanupTasks s1 = []" "schedDb s1 = None"
      "taskCount s1 = 1" "parentCtxErr s1 = None" and
    t1: "getTaskState s1 1 = Some t1" "\<not> isStarted t1" "dbTaskState t1 = None"
      "taskOptions t1 = sleep_options" "taskResult t1 = TaskResultNone" "\<not> updatedResult t1" "\<not> isTimeout t1"
    by auto
  from AddRootTask_sleep [OF s1(5), of UNIV "ExecReturned None"] s1 obtain s2 t2 where
    s2: "AddRootTask ?L sleep_options s1 = Some (Inr 2, s2)"
      "sched_step ?L UNIV s1 s2" "rootTasks s2 = [1, 2]" "rootCleanupTasks s2 = []" "schedDb s2 = None"
      "parentCtxErr s2 = None" "getTaskState s2 1 = getTaskState s1 1" and
    t2: "getTaskState s2 2 = Some t2" "\<not> isStarted t2" "dbTaskState t2 = None"
      "taskOptions t2 = sleep_options" "taskResult t2 = TaskResultNone" "\<not> updatedResult t2" "\<not> isTimeout t2"
    by (auto simp: numeral_2_eq_2)
  have two: "two_sleeps = s2" using s1(1) s2(1) by (simp add: two_sleeps_def)
  show "sched_inv two_sleeps"
    unfolding two using sched_inv_step [OF s2(2)] sched_inv_step [OF s1(2)] free_scheduler_inv by blast
  show "rootTasks two_sleeps = [1, 2]" "rootCleanupTasks two_sleeps = []"
    "schedDb two_sleeps = None" "parentCtxErr two_sleeps = None"
    using s2 two by simp_all
  show "i \<in> {1, 2} \<Longrightarrow> \<exists>t. getTaskState two_sleeps i = Some t \<and> \<not> isStarted t \<and> dbTaskState t = None \<and>
       taskOptions t = sleep_options \<and> taskResult t = TaskResultNone \<and> \<not> updatedResult t \<and> \<not> isTimeout t"
    using s2(7) t1 t2 two by auto
qed

end
