(* ===== verification/SchedulerRun.thy ===== *)
theory SchedulerRun
  imports TaskExecution
begin

text \<open>
  Consequences for whole runs: \<open>ExecuteTask\<close> returns when its parts do, executes a task at most once and reports a
  panicking body as a call without error; \<open>RunTasks\<close> executes the root tasks in order up to the
  first error and then the cleanup tasks; the database row follows the task state; watchers are
  woken.
\<close>

section \<open>ExecuteTask returns\<close>

text \<open>
  A task is ready if it exists, the scopes it refers to are allocated and the scopes of the heap
  can be flattened within the granted depth.
\<close>

definition ready :: "sched_libs \<Rightarrow> nat \<Rightarrow> scheduler \<Rightarrow> bool" where
  "ready L i s \<longleftrightarrow> scope_ranked (depth L) (varHeap s) \<and> scope_inv s \<and> getTaskState s i \<noteq> None"

lemma ready_only_task:
  assumes "ready L i s" and "only_task i s s'" and "scope_ranked (depth L) (varHeap s')"
  shows "ready L i s'"
proof -
  have st: "same_tree s s'" using assms(2) by (simp add: only_task_def)
  show ?thesis
    using assms same_tree_scope_inv [OF st] same_tree_task(1) [OF st, of i] by (simp add: ready_def)
qed

lemma ready_modTask: "ready L i s \<Longrightarrow> (\<And>t. taskStatic (f t) = taskStatic t) \<Longrightarrow> ready L i (modTask i f s)"
  by (rule ready_only_task [OF _ only_task_modTask]) (simp_all add: ready_def)

lemma ready_setStatusVar: "ready L i s \<Longrightarrow> ready L i (setStatusVar i n x s)"
  by (rule ready_only_task [OF _ only_task_setStatusVar])
     (auto simp: ready_def setStatusVar_def split: option.split)

lemma updateTaskState_returns:
  assumes "ready L i s"
  shows "\<exists>err s'. updateTaskState L i s = Some (err, s') \<and> ready L i s'"
proof -
  obtain t where t: "getTaskState s i = Some t" using assms by (auto simp: ready_def)
  have refs: "taskVars t < length (varHeap s)" "taskStatusVars t < length (varHeap s)"
    using assms t unfolding ready_def scope_inv_def by blast+
  have rk: "scope_ranked (depth L) (varHeap s)" using assms by (simp add: ready_def)
  obtain title status where "Title L s t = Some title"
    "GetVarsMap (depth L) (varHeap s) (taskStatusVars t) [] False = Some status"
    using ResolvePlaceholders_total [OF rk refs(1)] scope_ranked_GetVarsMap [OF rk refs(2)]
    unfolding Title_def by blast
  then have "updateTaskState L i s \<noteq> None"
    using t by (cases "dbTaskState t"; cases "schedDb s")
      (simp_all add: updateTaskState_def Let_def case_prod_unfold)
  then obtain err s' where u: "updateTaskState L i s = Some (err, s')" by auto
  have "varHeap s' = varHeap s" by (rule updateTaskState_fields [OF u t])
  then show ?thesis using u ready_only_task [OF assms only_task_updateTaskState [OF u]] rk by auto
qed

lemma setTaskResult_returns:
  assumes "ready L i s"
  shows "\<exists>s'. setTaskResult L i r u s = Some s' \<and> ready L i s'"
proof -
  obtain t where t: "getTaskState s i = Some t" using assms by (auto simp: ready_def)
  let ?s0 = "if u then modTask i (\<lambda>t. t\<lparr>updatedResult := True\<rparr>) s else s"
  let ?s2 = "setStatusVar i ''result'' (VUint8 (of_nat (resultCode r))) (modTask i (\<lambda>t. t\<lparr>taskResult := r\<rparr>) ?s0)"
  have r0: "ready L i ?s0" using assms ready_modTask by (simp add: taskStatic_def)
  then have "ready L i ?s2" by (intro ready_setStatusVar ready_modTask) (simp_all add: taskStatic_def)
  then obtain err s3 where "updateTaskState L i ?s2 = Some (err, s3)" using updateTaskState_returns by blast
  moreover obtain t0 where "getTaskState ?s0 i = Some t0" using r0 by (auto simp: ready_def)
  ultimately obtain s' where s': "setTaskResult L i r u s = Some s'"
    by (cases "taskResult t0 = r") (auto simp: setTaskResult_def Let_def)
  have "scope_ranked (depth L) (varHeap s')"
    using assms by (simp add: ready_def setTaskResult_fields(9) [OF s' t])
  then show ?thesis using s' ready_only_task [OF assms only_task_setTaskResult [OF s']] by blast
qed

lemma startTask_returns:
  assumes "ready L i s"
  shows "\<exists>s'. startTask L i s = Some s' \<and> ready L i s'"
proof -
  have "ready L i (setStatusVar i ''running'' (VBool True) (setStatusVar i ''started'' (VBool True)
      (modTask i (\<lambda>t. t\<lparr>isStarted := True, startTime := Some (clockMilli s), isRunning := True\<rparr>) s)))"
    using assms by (intro ready_setStatusVar ready_modTask) (simp_all add: taskStatic_def)
  from updateTaskState_returns [OF this] show ?thesis by (auto simp: startTask_def Let_def)
qed

lemma finishTask_returns:
  assumes "ready L i s"
  shows "\<exists>s'. finishTask L i s = Some s' \<and> ready L i s'"
proof -
  have "ready L i (setStatusVar i ''running'' (VBool False)
      (modTask i (\<lambda>t. t\<lparr>isRunning := False, stopTime := Some (clockMilli s)\<rparr>) s))"
    using assms by (intro ready_setStatusVar ready_modTask) (simp_all add: taskStatic_def)
  from updateTaskState_returns [OF this] show ?thesis by (auto simp: finishTask_def Let_def)
qed

lemma evalResult_returns:
  assumes "ready L i s"
  shows "\<exists>out s'. evalResult L i err s = Some (out, s') \<and> ready L i s'"
proof -
  let ?s1 = "if err = None then s
    else modTask i (\<lambda>t. if taskError t = None then t\<lparr>taskError := err\<rparr> else t) s"
  have r1: "ready L i ?s1" using assms ready_modTask by (simp add: taskStatic_def)
  then obtain t where t: "getTaskState ?s1 i = Some t" by (auto simp: ready_def)
  obtain s2 where s2: "(if \<not> updatedResult t \<or> taskResult t = TaskResultNone
      then setTaskResult L i (resultFromError err t) False ?s1 else Some ?s1) = Some s2" "ready L i s2"
    using setTaskResult_returns [OF r1] r1 by (cases "\<not> updatedResult t \<or> taskResult t = TaskResultNone") auto
  then obtain t2 where "getTaskState s2 i = Some t2" by (auto simp: ready_def)
  then show ?thesis using s2 t by (simp add: evalResult_def Let_def)
qed

lemma recoverPanic_returns:
  assumes "ready L i s"
  shows "\<exists>out s'. recoverPanic L i p s = Some (out, s') \<and> ready L i s'"
proof -
  have "ready L i (if p = None then s else modTask i (\<lambda>t. t\<lparr>taskError := p\<rparr>) s)"
    using assms ready_modTask by (simp add: taskStatic_def)
  from setTaskResult_returns [OF this, of TaskResultFailure False] show ?thesis
    by (auto simp: recoverPanic_def Let_def)
qed

text \<open>A task body that returns and keeps the scheduler ready.\<close>

definition body_returns :: "sched_libs \<Rightarrow> nat \<Rightarrow> bool" where
  "body_returns L i \<longleftrightarrow>
     (\<forall>s. ready L i s \<longrightarrow> (\<exists>r s'. implLoad L i s = Some (r, s') \<and> ready L i s')) \<and>
     (\<forall>s. ready L i s \<longrightarrow> (\<exists>out s'. implExec L i s = Some (out, s') \<and> ready L i s'))"

lemma runInstance_returns:
  assumes "body_returns L i" and rd: "ready L i s"
  shows "\<exists>err s'. runInstance L i s = Some (err, s') \<and> ready L i s'"
proof (cases "implNew L i s")
  case None
  obtain r s1 where ld: "implLoad L i s = Some (r, s1)" "ready L i s1"
    using assms unfolding body_returns_def by blast
  show ?thesis
  proof (cases r)
    case (Inl e)
    then show ?thesis using None ld setTaskResult_returns [OF ld(2), of TaskResultFailure False]
      by (auto simp: runInstance_def)
  next
    case (Inr x)
    let ?s2 = "modTask i (\<lambda>t. t\<lparr>taskInst := Some x, taskConfig := instConfig x\<rparr>) s1"
    have "ready L i ?s2" by (rule ready_modTask [OF ld(2)]) (simp add: taskStatic_def)
    then obtain out s3 where s3: "implExec L i ?s2 = Some (out, s3)" "ready L i s3"
      using assms(1) unfolding body_returns_def by blast
    obtain e s4 where s4: "(case out of ExecReturned e \<Rightarrow> evalResult L i e s3
        | ExecPanicked p \<Rightarrow> recoverPanic L i p s3) = Some (e, s4)" "ready L i s4"
      using evalResult_returns [OF s3(2)] recoverPanic_returns [OF s3(2)] by (cases out) force+
    have "ready L i (modTask i (\<lambda>t. t\<lparr>taskInst := None\<rparr>) s4)"
      by (rule ready_modTask [OF s4(2)]) (simp add: taskStatic_def)
    then show ?thesis using None ld Inr s3 s4 by (simp add: runInstance_def Let_def)
  qed
qed (use rd in \<open>simp add: runInstance_def\<close>)

lemma runCondition_returns:
  assumes "body_returns L i" and rd: "ready L i s"
  shows "\<exists>err s'. runCondition L i s = Some (err, s') \<and> ready L i s'"
proof -
  obtain t where t: "getTaskState s i = Some t" using rd by (auto simp: ready_def)
  have "taskVars t < length (varHeap s)" using rd t unfolding ready_def scope_inv_def by blast
  then obtain q where q: "ResolveQuery (libs_of L) (depth L) (varHeap s) (taskVars t) (optIf (taskOptions t)) = Some q"
    using ResolveQuery_returns rd unfolding ready_def by blast
  have sk: "ready L i (modTask i (\<lambda>t. t\<lparr>isSkipped := True\<rparr>) s)"
    by (rule ready_modTask [OF rd]) (simp add: taskStatic_def)
  show ?thesis
    using t q runInstance_returns [OF assms] setTaskResult_returns [OF rd, of TaskResultFailure False]
      setTaskResult_returns [OF sk, of TaskResultNone False]
    by (cases q) (auto simp: runCondition_def)
qed

lemma ExecuteTask_total:
  assumes "body_returns L i" and "ready L i s"
  shows "\<exists>err s'. ExecuteTask L i s = Some (err, s') \<and> ready L i s'"
proof -
  obtain t where t: "getTaskState s i = Some t" using assms(2) by (auto simp: ready_def)
  obtain s1 where s1: "startTask L i s = Some s1" "ready L i s1" using startTask_returns [OF assms(2)] by blast
  obtain err s2 where s2: "runCondition L i s1 = Some (err, s2)" "ready L i s2"
    using runCondition_returns [OF assms(1) s1(2)] by blast
  obtain s3 where s3: "finishTask L i s2 = Some s3" "ready L i s3" using finishTask_returns [OF s2(2)] by blast
  show ?thesis
    using t s1 s2 s3 assms(2) by (cases "isStarted t") (simp_all add: ExecuteTask_def)
qed

lemma body_returns_quiet [simp]: "body_returns (quiet_libs out) i"
  by (simp add: body_returns_def quiet_libs_def)

lemma scope_rank_flat:
  "(\<forall>r<length h. \<exists>v. h ! r = VarScope v \<and> parentScope v = None \<and> (\<forall>s\<in>snd ` set (subScopes v). s < r)) \<Longrightarrow>
   scope_rank h (\<lambda>r sk. min r (length h))"
  unfolding scope_rank_def by fastforce

lemma two_sleeps_heap:
  "varHeap two_sleeps =
    [VarScope (empty_scope None),
     VarScope (empty_scope None), VarScope (empty_scope None\<lparr>subScopes := [(''outputs'', 1)]\<rparr>),
     VarScope (empty_scope None), VarScope (empty_scope None\<lparr>subScopes := [(''outputs'', 3)]\<rparr>)]"
  by (simp add: two_sleeps_def AddRootTask_def newTaskState_def storeTask_def quiet_libs_def
      free_scheduler_def NewTaskScheduler_def NewVariables_def newVariables_def registerTask_def newTaskScopes_def sleep_options_def Let_def
      SetSubScope_def upd_scope_def scope_of.simps slice_get_def empty_scope_def)

lemma two_sleeps_ready: "i \<in> {1, 2} \<Longrightarrow> ready (quiet_libs out) i two_sleeps"
proof -
  assume i: "i \<in> {1, 2}"
  have "scope_rank (varHeap two_sleeps) (\<lambda>r sk. min r (length (varHeap two_sleeps)))"
    by (rule scope_rank_flat)
       (simp add: two_sleeps_heap empty_scope_def All_less_Suc numeral_eq_Suc)
  moreover have "min r (length (varHeap two_sleeps)) < depth (quiet_libs out)" for r
    by (simp add: two_sleeps_heap quiet_libs_def min_def)
  moreover have "scope_inv two_sleeps" using two_sleeps_tasks(1) by (rule sched_invD)
  ultimately show ?thesis
    using two_sleeps_tasks(6) [OF i] unfolding ready_def scope_ranked_def
    by (auto simp: scope_inv_def)
qed

lemma ExecuteTask_returns_sleep: "\<exists>err s'. ExecuteTask (quiet_libs out) 1 two_sleeps = Some (err, s')"
  using ExecuteTask_total [OF _ two_sleeps_ready] by simp blast

theorem scheduler_invariant_witness:
  "sched_inv (snd (the (AddRootTask (quiet_libs (ExecReturned None)) sleep_options free_scheduler)))"
proof -
  have "schedDb free_scheduler = None" by (simp add: free_scheduler_def NewTaskScheduler_def)
  from AddRootTask_sleep [OF this, of UNIV "ExecReturned None"] obtain r s' where
    s': "AddRootTask (quiet_libs (ExecReturned None)) sleep_options free_scheduler = Some (r, s')"
      "sched_step (quiet_libs (ExecReturned None)) UNIV free_scheduler s'" by blast
  have "sched_inv s'"
  proof (rule scheduler_invariant)
    show "heap_wf (fst (NewVariables [] None))"
      using newVariables_wf(1) [of "[]" None] by (simp add: NewVariables_def)
    show "0 < length (fst (NewVariables [] None))" by (simp add: NewVariables_def newVariables_def)
    show "sched_steps (quiet_libs (ExecReturned None)) UNIV
        (NewTaskScheduler None (fst (NewVariables [] None)) 0 1) s'"
      using s'(2) unfolding free_scheduler_def by blast
  qed
  then show ?thesis using s'(1) by simp
qed

lemma two_sleeps_count: "taskCount two_sleeps = 2"
  by code_simp

lemma two_sleeps_covered: "covers {j. 1 < j} two_sleeps"
  by (simp add: two_sleeps_count)

theorem ExecuteTask_contract_witness:
  "\<exists>err s' t'. ExecuteTask (quiet_libs (ExecReturned (Some ''boom''))) 1 two_sleeps = Some (err, s') \<and>
     getTaskState s' 1 = Some t' \<and> isStarted t' \<and> \<not> isRunning t' \<and> stopTime t' \<noteq> None \<and> sched_inv s'"
proof -
  let ?L = "quiet_libs (ExecReturned (Some ''boom''))"
  obtain t where t: "getTaskState two_sleeps 1 = Some t" "\<not> isStarted t" using two_sleeps_tasks(6) [of 1] by auto
  obtain err s' where ex: "ExecuteTask ?L 1 two_sleeps = Some (err, s')"
    using ExecuteTask_total [OF body_returns_quiet two_sleeps_ready] by blast
  from ExecuteTask_contract [OF task_body_quiet [of 1 "{j. 1 < j}"] two_sleeps_tasks(1) two_sleeps_covered t ex] ex
  show ?thesis by auto
qed

section \<open>At most once, and panics\<close>

text \<open>
  A task is executed at most once: once a call of \<open>ExecuteTask\<close> on it has returned, whatever
  other goroutines do afterwards, the next call returns an error and changes nothing.
\<close>

theorem ExecuteTask_at_most_once:
  assumes "task_body L i A" and "sched_inv s" and "covers A s" and "getTaskState s i = Some t"
    and "ExecuteTask L i s = Some (err, s')" and "sched_steps L B s' s''" and "i \<notin> B"
  shows "ExecuteTask L i s'' = Some (Some ''task has already been executed'', s'')"
proof -
  have "sched_inv s' \<and> (\<exists>t'. getTaskState s' i = Some t' \<and> isStarted t')"
  proof (cases "isStarted t")
    case True
    then show ?thesis using assms(2-5) by (auto simp: ExecuteTask_def)
  next
    case False
    then show ?thesis using task_body.ExecuteTask_spec [OF assms(1-4) _ assms(5)] by blast
  qed
  then obtain t' where t': "sched_inv s'" "getTaskState s' i = Some t'" "isStarted t'" by blast
  obtain t'' where "getTaskState s'' i = Some t''" "kept t' t''"
    using rely_steps [OF assms(6,7) t'(2,1)] by blast
  then show ?thesis using t'(3) by (simp add: ExecuteTask_def kept_def)
qed

theorem ExecuteTask_at_most_once_witness:
  "\<exists>err s'. ExecuteTask (quiet_libs (ExecReturned None)) 1 two_sleeps = Some (err, s') \<and>
     ExecuteTask (quiet_libs (ExecReturned None)) 1 (s'\<lparr>clockMilli := 5\<rparr>) =
       Some (Some ''task has already been executed'', s'\<lparr>clockMilli := 5\<rparr>)"
proof -
  let ?L = "quiet_libs (ExecReturned None)"
  obtain t where t: "getTaskState two_sleeps 1 = Some t" using two_sleeps_tasks(6) [of 1] by auto
  obtain err s' where ex: "ExecuteTask ?L 1 two_sleeps = Some (err, s')"
    using ExecuteTask_total [OF body_returns_quiet two_sleeps_ready] by blast
  have "sched_steps ?L {} s' (s'\<lparr>clockMilli := 5\<rparr>)" by (rule r_into_rtranclp) (rule step_clock)
  from ExecuteTask_at_most_once [OF task_body_quiet [of 1 "{j. 1 < j}"] two_sleeps_tasks(1) two_sleeps_covered t ex this] ex
  show ?thesis by auto
qed

lemma ExecuteTask_started_run:
  assumes "getTaskState s i = Some t" and "\<not> isStarted t" and "ExecuteTask L i s = Some (err, s')"
    and "optIf (taskOptions t) = ''''"
  obtains s1 s2 t1 where "startTask L i s = Some s1" and "getTaskState s1 i = Some t1"
    and "runInstance L i s1 = Some (err, s2)" and "finishTask L i s2 = Some s'"
proof -
  obtain s1 s2 where s1: "startTask L i s = Some s1" "runCondition L i s1 = Some (err, s2)"
    "finishTask L i s2 = Some s'"
    using assms by (auto simp: ExecuteTask_def bind_eq_Some_conv)
  obtain row where t1: "getTaskState s1 i = Some (t\<lparr>isStarted := True, startTime := Some (clockMilli s),
      isRunning := True, dbTaskState := row\<rparr>)" using startTask_task(1) [OF s1(1) assms(1)] by blast
  have "runInstance L i s1 = Some (err, s2)" using s1(2) t1 assms(4) by (simp add: runCondition_def)
  then show ?thesis using that s1 t1 by blast
qed

text \<open>C38. A task whose body panics ends with the failure result, but \<open>ExecuteTask\<close> reports no error to
  its caller: the recovering function sets no return value.
\<close>

theorem ExecuteTask_panic_no_error:
  assumes "getTaskState s i = Some t" and "\<not> isStarted t"
    and "optIf (taskOptions t) = ''''" and "\<forall>s. implNew L i s = None"
    and "\<forall>s. \<exists>inst s'. implLoad L i s = Some (Inr inst, s')"
    and "\<forall>s. \<exists>p s'. implExec L i s = Some (ExecPanicked p, s')"
    and "ExecuteTask L i s = Some (err, s')"
  shows "err = None \<and> (\<exists>t'. getTaskState s' i = Some t' \<and> taskResult t' = TaskResultFailure)"
proof -
  obtain s1 s2 t1 where s1: "startTask L i s = Some s1" "getTaskState s1 i = Some t1"
      "runInstance L i s1 = Some (err, s2)" "finishTask L i s2 = Some s'"
    using ExecuteTask_started_run [OF assms(1,2,7,3)] by blast
  obtain inst s1' where ld: "implLoad L i s1 = Some (Inr inst, s1')" using assms(5) by blast
  let ?s2 = "modTask i (\<lambda>t. t\<lparr>taskInst := Some inst, taskConfig := instConfig inst\<rparr>) s1'"
  obtain p s3 where ex: "implExec L i ?s2 = Some (ExecPanicked p, s3)" using assms(6) by blast
  obtain s4 where s4: "recoverPanic L i p s3 = Some (err, s4)" "s2 = modTask i (\<lambda>t. t\<lparr>taskInst := None\<rparr>) s4"
    using s1(3) ld ex assms(4) by (auto simp: runInstance_def Let_def bind_eq_Some_conv)
  let ?s3 = "if p = None then s3 else modTask i (\<lambda>t. t\<lparr>taskError := p\<rparr>) s3"
  have rp: "err = None" "setTaskResult L i TaskResultFailure False ?s3 = Some s4"
    using s4(1) by (auto simp: recoverPanic_def Let_def bind_eq_Some_conv)
  obtain t3 where "getTaskState ?s3 i = Some t3" using setTaskResult_known [OF rp(2)] by blast
  then obtain t4 where "getTaskState s4 i = Some t4" "taskResult t4 = TaskResultFailure"
    using setTaskResult_self [OF rp(2)] by auto
  then have "getTaskState s2 i = Some (t4\<lparr>taskInst := None\<rparr>)" "taskResult t4 = TaskResultFailure"
    using s4(2) by simp_all
  then show ?thesis using finishTask_task(1) [OF s1(4)] rp(1) by auto
qed

theorem ExecuteTask_panic_no_error_witness:
  "\<exists>s' t'. ExecuteTask (quiet_libs (ExecPanicked (Some ''nil map''))) 1 two_sleeps = Some (None, s') \<and>
     getTaskState s' 1 = Some t' \<and> taskResult t' = TaskResultFailure"
proof -
  let ?L = "quiet_libs (ExecPanicked (Some ''nil map''))"
  obtain t where t: "getTaskState two_sleeps 1 = Some t" "\<not> isStarted t" "taskOptions t = sleep_options"
    using two_sleeps_tasks(6) [of 1] by auto
  obtain err s' where ex: "ExecuteTask ?L 1 two_sleeps = Some (err, s')"
    using ExecuteTask_total [OF body_returns_quiet two_sleeps_ready] by blast
  have "err = None \<and> (\<exists>t'. getTaskState s' 1 = Some t' \<and> taskResult t' = TaskResultFailure)"
    by (rule ExecuteTask_panic_no_error [OF t(1,2) _ _ _ _ ex])
       (simp_all add: t(3) sleep_options_def quiet_libs_def)
  then show ?thesis using ex by auto
qed

section \<open>Task sequences\<close>

text \<open>
  The state of a task after its turn: started, stopped, and failed only if the call of
  \<open>ExecuteTask\<close> said so or its body panicked.
\<close>

definition done_task :: "scheduler \<Rightarrow> nat \<Rightarrow> bool" where
  "done_task s i \<longleftrightarrow> (\<exists>t. getTaskState s i = Some t \<and> isStarted t \<and> \<not> isRunning t)"

definition fresh_task :: "scheduler \<Rightarrow> nat \<Rightarrow> bool" where
  "fresh_task s i \<longleftrightarrow> (\<exists>t. getTaskState s i = Some t \<and> \<not> isStarted t)"

definition failed_task :: "scheduler \<Rightarrow> nat \<Rightarrow> bool" where
  "failed_task s i \<longleftrightarrow> (\<exists>t. getTaskState s i = Some t \<and> taskResult t = TaskResultFailure)"

lemma kept_task_facts:
  assumes "sched_steps L A s s'" and "i \<notin> A" and "sched_inv s"
  shows "done_task s i \<Longrightarrow> done_task s' i" and "fresh_task s i \<Longrightarrow> fresh_task s' i"
    and "done_task s i \<Longrightarrow> failed_task s' i = failed_task s i"
  using rely_steps [OF assms(1,2) _ assms(3)]
  by (fastforce simp: done_task_def fresh_task_def failed_task_def kept_def)+

lemma execute_root:
  assumes "task_body L i (- R)" and "i \<in> R" and "sched_inv s" and "fresh_task s i"
    and "ExecuteTask L i s = Some (err, s')" and "covers (- R) s"
  shows "sched_inv s'" and "done_task s' i"
    and "j \<in> R \<Longrightarrow> j \<noteq> i \<Longrightarrow> done_task s j \<Longrightarrow> done_task s' j \<and> failed_task s' j = failed_task s j"
    and "j \<in> R \<Longrightarrow> j \<noteq> i \<Longrightarrow> fresh_task s j \<Longrightarrow> fresh_task s' j"
    and "(\<forall>s. implNew L i s = None) \<Longrightarrow> err \<noteq> None \<Longrightarrow> failed_task s' i"
    and "(\<forall>s p s'. implExec L i s \<noteq> Some (ExecPanicked p, s')) \<Longrightarrow> err = None \<Longrightarrow> \<not> failed_task s' i"
    and "covers (- R) s'"
proof -
  obtain t where t: "getTaskState s i = Some t" "\<not> isStarted t" using assms(4) by (auto simp: fresh_task_def)
  note sp = task_body.ExecuteTask_spec [OF assms(1,3,6) t assms(5)]
  have st: "sched_steps L (insert i (- R)) s s'" using sp by blast
  show "covers (- R) s'" by (rule covers_steps [OF st assms(3,6)])
  show "sched_inv s'" "done_task s' i" using sp by (auto simp: done_task_def)
  show "(\<forall>s. implNew L i s = None) \<Longrightarrow> err \<noteq> None \<Longrightarrow> failed_task s' i"
    using sp by (auto simp: failed_task_def)
  show "(\<forall>s p s'. implExec L i s \<noteq> Some (ExecPanicked p, s')) \<Longrightarrow> err = None \<Longrightarrow> \<not> failed_task s' i"
    using sp by (auto simp: failed_task_def)
  show "j \<in> R \<Longrightarrow> j \<noteq> i \<Longrightarrow> done_task s j \<Longrightarrow> done_task s' j \<and> failed_task s' j = failed_task s j"
    using kept_task_facts [OF st _ assms(3), of j] by simp
  show "j \<in> R \<Longrightarrow> j \<noteq> i \<Longrightarrow> fresh_task s j \<Longrightarrow> fresh_task s' j"
    using kept_task_facts [OF st _ assms(3), of j] by simp
qed

lemma execute_roots:
  assumes "task_body L i (- R)" and "0 \<in> R" and "sched_inv s" and "fresh_task s i"
    and "ExecuteTask L i s = Some (err, s')" and "covers (- R) s"
  shows "rootTasks s' = rootTasks s \<and> rootCleanupTasks s' = rootCleanupTasks s"
proof -
  obtain t where t: "getTaskState s i = Some t" "\<not> isStarted t" using assms(4) by (auto simp: fresh_task_def)
  have "i \<noteq> 0" using tree_invD(1) [OF sched_invD(1) [OF assms(3)], of i] t(1) by auto
  moreover have "sched_steps L (insert i (- R)) s s'"
    using task_body.ExecuteTask_spec [OF assms(1,3,6) t assms(5)] by blast
  ultimately show ?thesis using roots_steps [of L "insert i (- R)" s s'] assms(2) by simp
qed

text \<open>The tasks \<open>is\<close> have had their turn up to position \<open>n\<close> and not beyond.\<close>

definition progress :: "scheduler \<Rightarrow> nat list \<Rightarrow> nat \<Rightarrow> bool" where
  "progress s is n \<longleftrightarrow> n \<le> length is \<and>
     (\<forall>i\<in>set (take n is). done_task s i) \<and> (\<forall>i\<in>set (drop n is). fresh_task s i)"

definition never_panics :: "sched_libs \<Rightarrow> nat \<Rightarrow> bool" where
  "never_panics L i \<longleftrightarrow> (\<forall>s p s'. implExec L i s \<noteq> Some (ExecPanicked p, s'))"

definition always_built :: "sched_libs \<Rightarrow> nat \<Rightarrow> bool" where
  "always_built L i \<longleftrightarrow> (\<forall>s. implNew L i s = None)"

definition others_kept :: "nat set \<Rightarrow> nat list \<Rightarrow> scheduler \<Rightarrow> scheduler \<Rightarrow> bool" where
  "others_kept R is s s' \<longleftrightarrow>
     (\<forall>j\<in>R - set is. (done_task s j \<longrightarrow> done_task s' j \<and> failed_task s' j = failed_task s j) \<and>
       (fresh_task s j \<longrightarrow> fresh_task s' j)) \<and>
     rootTasks s' = rootTasks s \<and> rootCleanupTasks s' = rootCleanupTasks s"

lemma progress_Cons: "done_task s i \<Longrightarrow> progress s is n \<Longrightarrow> progress s (i # is) (Suc n)"
  by (auto simp: progress_def)

lemma others_kept_Cons:
  assumes "task_body L i (- R)" and "i \<in> R" and "0 \<in> R" and "sched_inv s" and "fresh_task s i"
    and "ExecuteTask L i s = Some (err, s1)" and "others_kept R is s1 s'"
    and "covers (- R) s"
  shows "others_kept R (i # is) s s'"
  using execute_root(3,4) [OF assms(1,2,4,5,6,8)] execute_roots [OF assms(1,3,4,5,6,8)] assms(7)
  by (auto simp: others_kept_def)

lemma others_kept_one:
  assumes "task_body L i (- R)" and "i \<in> R" and "0 \<in> R" and "sched_inv s" and "fresh_task s i"
    and "ExecuteTask L i s = Some (err, s1)" and "\<forall>j\<in>set is. j \<in> R \<and> j \<noteq> i \<and> fresh_task s j"
    and "covers (- R) s"
  shows "others_kept R (i # is) s s1" and "progress s1 (i # is) 1" and "\<forall>j\<in>set is. fresh_task s1 j"
  using execute_root [OF assms(1,2,4,5,6,8)] execute_roots [OF assms(1,3,4,5,6,8)] assms(7)
  by (auto simp: others_kept_def progress_def)

lemma runRootTasks_spec:
  assumes "\<forall>i\<in>set is. task_body L i (- R)" and "set is \<subseteq> R" and "0 \<in> R" and "distinct is"
    and "sched_inv s" and "\<forall>i\<in>set is. fresh_task s i" and "runRootTasks L is s = Some (err, s')"
    and "covers (- R) s"
  shows "sched_inv s' \<and> covers (- R) s' \<and> others_kept R is s s' \<and> (\<exists>n. progress s' is n \<and>
    (err = None \<longrightarrow> n = length is \<and> (\<forall>i\<in>set is. never_panics L i \<longrightarrow> \<not> failed_task s' i)) \<and>
    (err \<noteq> None \<longrightarrow> n > 0 \<and> (tasksCtxErr s' = err \<or>
       (always_built L (is ! (n - 1)) \<longrightarrow> failed_task s' (is ! (n - 1))))) \<and>
    (\<forall>j. Suc j < n \<longrightarrow> never_panics L (is ! j) \<longrightarrow> \<not> failed_task s' (is ! j)))"
  using assms
proof (induction "is" arbitrary: s)
  case Nil
  then show ?case by (auto simp: progress_def others_kept_def)
next
  case (Cons i "is")
  have tb: "task_body L i (- R)" "i \<in> R" and fr: "fresh_task s i" using Cons.prems by auto
  obtain e1 s1 where ex: "ExecuteTask L i s = Some (e1, s1)"
    using Cons.prems(7) by (auto split: option.splits)
  have rest: "\<forall>j\<in>set is. j \<in> R \<and> j \<noteq> i \<and> fresh_task s j" using Cons.prems by auto
  note one = others_kept_one [OF tb Cons.prems(3,5) fr ex rest Cons.prems(8)]
  have inv1: "sched_inv s1" by (rule execute_root(1) [OF tb Cons.prems(5) fr ex Cons.prems(8)])
  show ?case
  proof (cases "e1 = None \<and> tasksCtxErr s1 = None")
    case True
    then have "runRootTasks L is s1 = Some (err, s')" using Cons.prems(7) ex by simp
    moreover have "\<forall>i\<in>set is. task_body L i (- R)" "set is \<subseteq> R" "distinct is" using Cons.prems by auto
    ultimately obtain n where cov': "covers (- R) s'" and n: "sched_inv s'" "others_kept R is s1 s'" "progress s' is n"
      "err = None \<longrightarrow> n = length is \<and> (\<forall>i\<in>set is. never_panics L i \<longrightarrow> \<not> failed_task s' i)"
      "err \<noteq> None \<longrightarrow> n > 0 \<and> (tasksCtxErr s' = err \<or>
       (always_built L (is ! (n - 1)) \<longrightarrow> failed_task s' (is ! (n - 1))))"
      "\<And>j. Suc j < n \<longrightarrow> never_panics L (is ! j) \<longrightarrow> \<not> failed_task s' (is ! j)"
      using Cons.IH [OF _ _ Cons.prems(3) _ inv1 one(3)] execute_root(7) [OF tb Cons.prems(5) fr ex Cons.prems(8)] by blast
    have i1: "done_task s' i" "failed_task s' i = failed_task s1 i"
      using n(2) execute_root(2) [OF tb Cons.prems(5) fr ex Cons.prems(8)] tb Cons.prems(4) by (auto simp: others_kept_def)
    have good: "never_panics L i \<Longrightarrow> \<not> failed_task s1 i"
      using execute_root(6) [OF tb Cons.prems(5) fr ex Cons.prems(8)] True by (simp add: never_panics_def)
    have "\<forall>j. Suc j < Suc n \<longrightarrow> never_panics L ((i # is) ! j) \<longrightarrow> \<not> failed_task s' ((i # is) ! j)"
      using n(6) i1(2) good by (simp add: nth_Cons')
    then show ?thesis
      using n cov' i1 good progress_Cons [OF i1(1) n(3)] others_kept_Cons [OF tb Cons.prems(3,5) fr ex n(2) Cons.prems(8)]
      by (intro conjI exI [of _ "Suc n"]) (auto simp: nth_Cons')
  next
    case False
    then have s': "s' = s1" "err = (if e1 = None then tasksCtxErr s1 else e1)" "err \<noteq> None"
      using Cons.prems(7) ex by (auto split: option.splits if_splits)
    then show ?thesis
      using inv1 one(1,2) False execute_root(5,7) [OF tb Cons.prems(5) fr ex Cons.prems(8)]
      by (intro conjI exI [of _ 1]) (auto simp: always_built_def)
  qed
qed

lemma runCleanupTasks_spec:
  assumes "\<forall>i\<in>set is. task_body L i (- R)" and "set is \<subseteq> R" and "0 \<in> R" and "distinct is"
    and "sched_inv s" and "\<forall>i\<in>set is. fresh_task s i" and "runCleanupTasks L is s = Some s'"
    and "covers (- R) s"
  shows "sched_inv s' \<and> others_kept R is s s' \<and>
    (\<exists>n. progress s' is n \<and> (cleanupCtxErr s' = None \<longrightarrow> n = length is))"
  using assms
proof (induction "is" arbitrary: s)
  case Nil
  then show ?case by (auto simp: progress_def others_kept_def)
next
  case (Cons i "is")
  show ?case
  proof (cases "cleanupCtxErr s = None")
    case True
    have tb: "task_body L i (- R)" "i \<in> R" and fr: "fresh_task s i" using Cons.prems by auto
    obtain e1 s1 where ex: "ExecuteTask L i s = Some (e1, s1)" "runCleanupTasks L is s1 = Some s'"
      using Cons.prems(7) True by (auto split: option.splits)
    have rest: "\<forall>j\<in>set is. j \<in> R \<and> j \<noteq> i \<and> fresh_task s j" using Cons.prems by auto
    note one = others_kept_one [OF tb Cons.prems(3,5) fr ex(1) rest Cons.prems(8)]
    have inv1: "sched_inv s1" by (rule execute_root(1) [OF tb Cons.prems(5) fr ex(1) Cons.prems(8)])
    from Cons.IH [OF _ _ Cons.prems(3) _ inv1 one(3) ex(2)] Cons.prems execute_root(7) [OF tb Cons.prems(5) fr ex(1) Cons.prems(8)]
    obtain n where n: "sched_inv s'" "others_kept R is s1 s'" "progress s' is n"
      "cleanupCtxErr s' = None \<longrightarrow> n = length is" by auto
    have i1: "done_task s' i"
      using n(2) execute_root(2) [OF tb Cons.prems(5) fr ex(1) Cons.prems(8)] tb Cons.prems(4) by (auto simp: others_kept_def)
    show ?thesis
      using n progress_Cons [OF i1 n(3)] others_kept_Cons [OF tb Cons.prems(3,5) fr ex(1) n(2) Cons.prems(8)]
      by (intro conjI exI [of _ "Suc n"]) auto
  next
    case False
    then show ?thesis using Cons.prems
      by (intro conjI exI [of _ 0]) (auto simp: progress_def others_kept_def)
  qed
qed

lemma fresh_frame:
  "fresh_task (s\<lparr>cancelSet := b, tasksCtxErr := e, cleanupCtxErr := e'\<rparr>) i = fresh_task s i"
  "fresh_task (s\<lparr>tasksCtxErr := e\<rparr>) i = fresh_task s i"
  "done_task (s\<lparr>tasksCtxErr := e\<rparr>) i = done_task s i"
  "failed_task (s\<lparr>tasksCtxErr := e\<rparr>) i = failed_task s i"
  by (simp_all add: fresh_task_def done_task_def failed_task_def)

lemma sched_inv_ctx:
  "sched_inv s \<Longrightarrow> sched_inv (s\<lparr>cancelSet := b, tasksCtxErr := e, cleanupCtxErr := e'\<rparr>)"
  "sched_inv s \<Longrightarrow> sched_inv (s\<lparr>tasksCtxErr := e\<rparr>)"
  by (rule sched_inv_frame, assumption, simp_all add: same_tree_def)+

lemma RunTasks_spec:
  assumes "sched_inv s" and "R = insert 0 (set (rootTasks s) \<union> set (rootCleanupTasks s))"
    and "\<forall>i\<in>R. i = 0 \<or> task_body L i (- R) \<and> fresh_task s i"
    and "RunTasks L s = Some (err, s')"
  shows "\<exists>n k. progress s' (rootTasks s) n \<and> progress s' (rootCleanupTasks s) k \<and>
    (err = None \<longrightarrow> n = length (rootTasks s) \<and>
       (\<forall>i\<in>set (rootTasks s). never_panics L i \<longrightarrow> \<not> failed_task s' i)) \<and>
    (err \<noteq> None \<longrightarrow> n > 0 \<and>
       ((\<exists>s2. runRootTasks L (rootTasks s) (s\<lparr>cancelSet := True, tasksCtxErr := parentCtxErr s,
            cleanupCtxErr := parentCtxErr s\<rparr>) = Some (err, s2) \<and> tasksCtxErr s2 = err) \<or>
        (always_built L (rootTasks s ! (n - 1)) \<longrightarrow> failed_task s' (rootTasks s ! (n - 1))))) \<and>
    (cleanupCtxErr s' = None \<longrightarrow> k = length (rootCleanupTasks s)) \<and>
    (\<forall>j. Suc j < n \<longrightarrow> never_panics L (rootTasks s ! j) \<longrightarrow> \<not> failed_task s' (rootTasks s ! j))"
proof -
  let ?s1 = "s\<lparr>cancelSet := True, tasksCtxErr := parentCtxErr s, cleanupCtxErr := parentCtxErr s\<rparr>"
  obtain s2 where r: "runRootTasks L (rootTasks s) ?s1 = Some (err, s2)"
    "runCleanupTasks L (rootCleanupTasks s2) (s2\<lparr>tasksCtxErr := cancelCtx ctxCanceled (tasksCtxErr s2)\<rparr>) = Some s'"
    using assms(4) by (auto simp: RunTasks_def Let_def bind_eq_Some_conv)
  let ?s3 = "s2\<lparr>tasksCtxErr := cancelCtx ctxCanceled (tasksCtxErr s2)\<rparr>"
  note li = sched_invD(2) [OF assms(1), unfolded list_inv_def]
  have dis: "distinct (rootTasks s)" "distinct (rootCleanupTasks s)"
    using li strict_sorted_iff by blast+
  have disj: "set (rootTasks s) \<inter> set (rootCleanupTasks s) = {}" using li by fastforce
  have no0: "0 \<notin> set (rootTasks s)" "0 \<notin> set (rootCleanupTasks s)"
    using li tree_invD(1) [OF sched_invD(1) [OF assms(1)], of 0] by auto
  have body: "task_body L i (- R) \<and> fresh_task s i" if "i \<in> set (rootTasks s) \<union> set (rootCleanupTasks s)" for i
    using that no0 assms(2,3) by (metis Un_iff insertCI)
  have roots: "\<forall>i\<in>set (rootTasks s). task_body L i (- R)" "set (rootTasks s) \<subseteq> R" "0 \<in> R"
    and cleans: "\<forall>i\<in>set (rootCleanupTasks s). task_body L i (- R)" "set (rootCleanupTasks s) \<subseteq> R"
    using body assms(2) by blast+
  have cov: "covers (- R) ?s1"
    using sched_inv_roots_below [OF assms(1)] assms(2) by (fastforce simp: covers_def)
  have fr1: "\<forall>i\<in>set (rootTasks s). fresh_task ?s1 i" using body by (simp add: fresh_frame)
  obtain n where cov2: "covers (- R) s2" and n: "sched_inv s2" "others_kept R (rootTasks s) ?s1 s2" "progress s2 (rootTasks s) n"
    "err = None \<longrightarrow> n = length (rootTasks s) \<and> (\<forall>i\<in>set (rootTasks s). never_panics L i \<longrightarrow> \<not> failed_task s2 i)"
    "err \<noteq> None \<longrightarrow> n > 0 \<and> (tasksCtxErr s2 = err \<or>
       (always_built L (rootTasks s ! (n - 1)) \<longrightarrow> failed_task s2 (rootTasks s ! (n - 1))))"
    "\<forall>j. Suc j < n \<longrightarrow> never_panics L (rootTasks s ! j) \<longrightarrow> \<not> failed_task s2 (rootTasks s ! j)"
    using runRootTasks_spec [OF roots dis(1) sched_inv_ctx(1) [OF assms(1)] fr1 r(1) cov] by (elim conjE exE)
  have cov3: "covers (- R) ?s3" using cov2 by (simp add: covers_def)
  have rc: "rootCleanupTasks s2 = rootCleanupTasks s" using n(2) by (simp add: others_kept_def)
  have fr2: "\<forall>i\<in>set (rootCleanupTasks s). fresh_task ?s3 i"
  proof
    fix i assume i: "i \<in> set (rootCleanupTasks s)"
    then have "i \<in> R - set (rootTasks s)" "fresh_task ?s1 i" using cleans(2) disj body by (auto simp: fresh_frame)
    then show "fresh_task ?s3 i" using n(2) by (simp add: others_kept_def fresh_frame)
  qed
  obtain k where k: "others_kept R (rootCleanupTasks s) ?s3 s'" "progress s' (rootCleanupTasks s) k"
    "cleanupCtxErr s' = None \<longrightarrow> k = length (rootCleanupTasks s)"
    using runCleanupTasks_spec [OF cleans roots(3) dis(2) sched_inv_ctx(2) [OF n(1)] fr2 r(2) [unfolded rc] cov3]
    by (elim conjE exE)
  have kept_root: "(done_task s2 i \<longrightarrow> done_task s' i \<and> failed_task s' i = failed_task s2 i) \<and>
      (fresh_task s2 i \<longrightarrow> fresh_task s' i)" if "i \<in> set (rootTasks s)" for i
  proof -
    have "i \<in> R - set (rootCleanupTasks s)" using that roots(2) disj by auto
    then show ?thesis using k(1) by (simp add: others_kept_def fresh_frame)
  qed
  have p': "progress s' (rootTasks s) n"
    using n(3) kept_root unfolding progress_def by (meson in_set_dropD in_set_takeD)
  have same: "failed_task s' (rootTasks s ! j) = failed_task s2 (rootTasks s ! j)" if "j < n" for j
  proof -
    have len: "j < length (rootTasks s)" using n(3) that by (auto simp: progress_def)
    then have "rootTasks s ! j \<in> set (take n (rootTasks s))"
      using that by (metis in_set_conv_nth length_take min_less_iff_conj nth_take)
    then show ?thesis using n(3) kept_root by (meson in_set_takeD progress_def)
  qed
  then have last: "failed_task s' (rootTasks s ! (n - 1)) = failed_task s2 (rootTasks s ! (n - 1))" if "n > 0" using that by simp
  have before: "\<forall>j. Suc j < n \<longrightarrow> never_panics L (rootTasks s ! j) \<longrightarrow> \<not> failed_task s' (rootTasks s ! j)"
    using n(6) same by simp
  have all: "failed_task s' i = failed_task s2 i" if "err = None" "i \<in> set (rootTasks s)" for i
    using that n(3,4) kept_root by (simp add: progress_def)
  have "err \<noteq> None \<longrightarrow> n > 0 \<and>
      ((\<exists>s2. runRootTasks L (rootTasks s) ?s1 = Some (err, s2) \<and> tasksCtxErr s2 = err) \<or>
       (always_built L (rootTasks s ! (n - 1)) \<longrightarrow> failed_task s' (rootTasks s ! (n - 1))))"
    using n(5) last r(1) by blast
  moreover have "err = None \<longrightarrow> n = length (rootTasks s) \<and>
      (\<forall>i\<in>set (rootTasks s). never_panics L i \<longrightarrow> \<not> failed_task s' i)"
    using n(4) all by simp
  ultimately show ?thesis using p' k(2,3) before by (intro exI [of _ n] exI [of _ k] conjI)
qed

text \<open>C2. \<open>RunTasks\<close> executes the root tasks in their order and stops at the first error: those up to
  some position have run to their end, none but the last of these has failed unless its body
  panicked, and none after it has been started. It returns no error only
  after all of them, and then none has failed unless its body panicked. An error is due to the
  cancelled context or, for a task that could be constructed, to the failure of the last one
  executed. In any case the cleanup tasks follow in their order, all of them unless their context
  was cancelled.
\<close>

theorem RunTasks_order:
  assumes "sched_inv s" and "R = insert 0 (set (rootTasks s) \<union> set (rootCleanupTasks s))"
    and "\<forall>i\<in>R. i = 0 \<or> task_body L i (- R) \<and> fresh_task s i"
    and "RunTasks L s = Some (err, s')"
  shows "\<exists>n k. progress s' (rootTasks s) n \<and> progress s' (rootCleanupTasks s) k \<and>
    (err = None \<longrightarrow> n = length (rootTasks s) \<and>
       (\<forall>i\<in>set (rootTasks s). never_panics L i \<longrightarrow> \<not> failed_task s' i)) \<and>
    (err \<noteq> None \<longrightarrow> n > 0 \<and>
       ((\<exists>s2. runRootTasks L (rootTasks s) (s\<lparr>cancelSet := True, tasksCtxErr := parentCtxErr s,
            cleanupCtxErr := parentCtxErr s\<rparr>) = Some (err, s2) \<and> tasksCtxErr s2 = err) \<or>
        (always_built L (rootTasks s ! (n - 1)) \<longrightarrow> failed_task s' (rootTasks s ! (n - 1))))) \<and>
    (cleanupCtxErr s' = None \<longrightarrow> k = length (rootCleanupTasks s)) \<and>
    (\<forall>j. Suc j < n \<longrightarrow> never_panics L (rootTasks s ! j) \<longrightarrow> \<not> failed_task s' (rootTasks s ! j))"
  using assms by (rule RunTasks_spec)

lemma two_sleeps_run:
  "\<exists>err s'. RunTasks (quiet_libs out) two_sleeps = Some (err, s')"
proof -
  let ?L = "quiet_libs out" and ?s = "two_sleeps\<lparr>cancelSet := True, tasksCtxErr := None, cleanupCtxErr := None\<rparr>"
  have st: "ready ?L i (s\<lparr>cancelSet := b, tasksCtxErr := e, cleanupCtxErr := e'\<rparr>) = ready ?L i s" for i s b e e'
    by (simp add: ready_def scope_inv_def)
  have "ready ?L 1 ?s" using two_sleeps_ready [of 1] by (simp add: st)
  then obtain e1 s1 where s1: "ExecuteTask ?L 1 ?s = Some (e1, s1)" "ready ?L 1 s1"
    using ExecuteTask_total [OF body_returns_quiet] by blast
  have fr: "fresh_task ?s 1" "fresh_task ?s 2"
    using two_sleeps_tasks(6) [of 1] two_sleeps_tasks(6) [of 2] by (auto simp: fresh_task_def)
  have tb: "task_body ?L i (- {0, 1, 2})" if "i \<in> {1, 2}" for i by (rule task_body_quiet) (use that in auto)
  have cov: "covers (- {0, 1, 2}) ?s" using two_sleeps_count by (auto simp: covers_def)
  have inv: "sched_inv ?s" by (rule sched_inv_ctx(1) [OF two_sleeps_tasks(1)])
  have f2: "fresh_task s1 2" and i1: "sched_inv s1" and c1: "covers (- {0, 1, 2}) s1"
    using execute_root(1,7) [OF tb _ inv fr(1) s1(1) cov] execute_root(4) [OF tb _ inv fr(1) s1(1) cov, where j = 2] fr
    by simp_all
  then have "ready ?L 2 s1" using s1(2) by (auto simp: ready_def fresh_task_def)
  then obtain e2 s2 where s2: "ExecuteTask ?L 2 s1 = Some (e2, s2)"
    using ExecuteTask_total [OF body_returns_quiet] by blast
  have "\<exists>err s3. runRootTasks ?L [1, 2] ?s = Some (err, s3) \<and> (s3 = s1 \<or> s3 = s2)"
    using s1(1) s2 by (cases e1; cases e2) auto
  then obtain err s3 where s3: "runRootTasks ?L [1, 2] ?s = Some (err, s3)" "s3 = s1 \<or> s3 = s2" by blast
  have "rootCleanupTasks s1 = []" "rootCleanupTasks s2 = []"
    using execute_roots [OF tb _ inv fr(1) s1(1) cov] execute_roots [OF tb _ i1 f2 s2 c1] two_sleeps_tasks(3)
    by simp_all
  then show ?thesis using s3 two_sleeps_tasks by (auto simp: RunTasks_def)
qed

theorem RunTasks_order_witness:
  "\<exists>err s' n k. RunTasks (quiet_libs (ExecReturned None)) two_sleeps = Some (err, s') \<and>
     progress s' [1, 2] n \<and> progress s' [] k \<and> (err = None \<longrightarrow> n = 2)"
proof -
  let ?L = "quiet_libs (ExecReturned None)"
  let ?R = "insert 0 (set (rootTasks two_sleeps) \<union> set (rootCleanupTasks two_sleeps))"
  obtain err s' where r: "RunTasks ?L two_sleeps = Some (err, s')" using two_sleeps_run by blast
  have "\<forall>i\<in>?R. i = 0 \<or> task_body ?L i (- ?R) \<and> fresh_task two_sleeps i"
    using two_sleeps_tasks(6) by (auto simp: two_sleeps_tasks(2,3) fresh_task_def intro!: task_body_quiet)
  from RunTasks_order [OF two_sleeps_tasks(1) refl this r] obtain n k where
    "progress s' (rootTasks two_sleeps) n" "progress s' (rootCleanupTasks two_sleeps) k"
    "err = None \<longrightarrow> n = length (rootTasks two_sleeps) \<and> (\<forall>i\<in>set (rootTasks two_sleeps). never_panics ?L i \<longrightarrow> \<not> failed_task s' i)"
    by (elim exE conjE)
  then show ?thesis using r by (intro exI [of _ err] exI [of _ s'] exI [of _ n] exI [of _ k]) (simp add: two_sleeps_tasks)
qed

section \<open>The database row follows the task\<close>

text \<open>
  The row of a task is in step if the table holds exactly the scheduler's mirror of it, and it
  shows a task if its columns are the task's flags, result, error and times.
\<close>

definition row_in_step :: "scheduler \<Rightarrow> nat \<Rightarrow> bool" where
  "row_in_step s i \<longleftrightarrow>
     (\<exists>t row d. getTaskState s i = Some t \<and> dbTaskState t = Some row \<and> schedDb s = Some d \<and>
        map_of (taskStates d) (taskStateKey row) = Some row)"

definition row_shows :: "db_task_state \<Rightarrow> taskState \<Rightarrow> bool" where
  "row_shows row t \<longleftrightarrow> tsRunFlags row = runFlagsOf t \<and> tsTaskResult row = int (resultCode (taskResult t)) \<and>
     (\<forall>e. taskError t = Some e \<longrightarrow> tsTaskError row = e) \<and>
     (\<forall>x. startTime t = Some x \<longrightarrow> tsStartTime row = x) \<and> (\<forall>x. stopTime t = Some x \<longrightarrow> tsStopTime row = x)"

text \<open>The noted columns cover the difference between the old row and the new one.\<close>

definition covered :: "db_task_state \<Rightarrow> db_task_state \<times> string list \<Rightarrow> bool" where
  "covered row0 p \<longleftrightarrow> set (snd p) \<subseteq> set task_columns \<and>
     tsRunID (fst p) = tsRunID row0 \<and> tsTaskID (fst p) = tsTaskID row0 \<and> tsParentTask (fst p) = tsParentTask row0 \<and>
     tsName (fst p) = tsName row0 \<and> tsRefID (fst p) = tsRefID row0 \<and> tsTimeout (fst p) = tsTimeout row0 \<and>
     tsIfCond (fst p) = tsIfCond row0 \<and> tsScopeOwner (fst p) = tsScopeOwner row0 \<and>
     (''title'' \<notin> set (snd p) \<longrightarrow> tsTitle (fst p) = tsTitle row0) \<and>
     (''run_flags'' \<notin> set (snd p) \<longrightarrow> tsRunFlags (fst p) = tsRunFlags row0) \<and>
     (''start_time'' \<notin> set (snd p) \<longrightarrow> tsStartTime (fst p) = tsStartTime row0) \<and>
     (''stop_time'' \<notin> set (snd p) \<longrightarrow> tsStopTime (fst p) = tsStopTime row0) \<and>
     (''task_config'' \<notin> set (snd p) \<longrightarrow> tsTaskConfig (fst p) = tsTaskConfig row0) \<and>
     (''task_status'' \<notin> set (snd p) \<longrightarrow> tsTaskStatus (fst p) = tsTaskStatus row0) \<and>
     (''task_result'' \<notin> set (snd p) \<longrightarrow> tsTaskResult (fst p) = tsTaskResult row0) \<and>
     (''task_error'' \<notin> set (snd p) \<longrightarrow> tsTaskError (fst p) = tsTaskError row0)"

lemma covered_Nil [simp]: "covered row (row, [])"
  by (simp add: covered_def)

lemma covered_syncField [simp]:
  assumes "covered row0 p"
  shows "covered row0 (syncField c ''title'' (tsTitle_update (\<lambda>_. a)) p)"
    and "covered row0 (syncField c ''run_flags'' (tsRunFlags_update (\<lambda>_. b)) p)"
    and "covered row0 (syncField c ''start_time'' (tsStartTime_update (\<lambda>_. x)) p)"
    and "covered row0 (syncField c ''stop_time'' (tsStopTime_update (\<lambda>_. x)) p)"
    and "covered row0 (syncField c ''task_config'' (tsTaskConfig_update (\<lambda>_. a)) p)"
    and "covered row0 (syncField c ''task_status'' (tsTaskStatus_update (\<lambda>_. a)) p)"
    and "covered row0 (syncField c ''task_result'' (tsTaskResult_update (\<lambda>_. x)) p)"
    and "covered row0 (syncField c ''task_error'' (tsTaskError_update (\<lambda>_. a)) p)"
  using assms by (cases c; simp add: covered_def syncField_def task_columns_def)+

lemma covered_syncHead [simp]: "covered row0 p \<Longrightarrow> covered row0 (syncHead title t p)"
  by (cases "startTime t"; cases "stopTime t"; simp add: syncHead_def Let_def)

lemma covered_syncTail [simp]: "covered row0 p \<Longrightarrow> covered row0 (syncTail t p)"
  by (cases "taskError t"; simp add: syncTail_def Let_def)

lemma covered_merge:
  assumes "covered row0 (row, fs)" and "setTaskColumns fs row = Inr g"
  shows "g row0 = row"
  unfolding setTaskColumns_sound [OF assms(2)]
  by (rule db_task_state.equality) (use assms(1) in \<open>simp_all add: covered_def\<close>)

lemma syncTask_None:
  assumes "syncTask L title status t row = (None, p)"
  obtains cfg vs where "yamlConfig L (Config t) = Inr cfg" and "yamlVars L status = Inr vs"
    and "p = syncTail t
      (syncField (vs \<noteq> tsTaskStatus (fst (syncField (cfg \<noteq> tsTaskConfig (fst (syncHead title t (row, []))))
           ''task_config'' (tsTaskConfig_update (\<lambda>_. cfg)) (syncHead title t (row, [])))))
         ''task_status'' (tsTaskStatus_update (\<lambda>_. vs))
         (syncField (cfg \<noteq> tsTaskConfig (fst (syncHead title t (row, []))))
           ''task_config'' (tsTaskConfig_update (\<lambda>_. cfg)) (syncHead title t (row, []))))"
proof (cases "yamlConfig L (Config t)")
  case (Inl e)
  then show ?thesis using assms by (simp add: syncTask_def Let_def)
next
  case (Inr cfg)
  show ?thesis
  proof (cases "yamlVars L status")
    case (Inl e)
    then show ?thesis using assms Inr by (simp add: syncTask_def Let_def)
  next
    case (Inr vs)
    then show ?thesis using assms that \<open>yamlConfig L (Config t) = Inr cfg\<close>
      unfolding syncTask_def Let_def by (simp only: sum.case prod.inject)
  qed
qed

lemma syncTask_no_error:
  assumes "\<exists>y. yamlConfig L (Config t) = Inr y" and "\<exists>y. yamlVars L status = Inr y"
  shows "\<exists>row' fs. syncTask L title status t row = (None, row', fs)"
proof -
  have "fst (syncTask L title status t row) = None"
    using assms by (auto simp: syncTask_def Let_def)
  then show ?thesis by (metis prod.collapse)
qed

lemma syncTask_covered:
  assumes "syncTask L title status t row = (None, p)"
  shows "covered row p"
  by (rule syncTask_None [OF assms]) (simp only: covered_syncTail covered_syncField covered_syncHead covered_Nil)

text \<open>A comparison sets its column and leaves the others.\<close>

lemma syncField_value [simp]:
  "tsTitle (fst (syncField c n (tsTitle_update (\<lambda>_. a)) p)) = (if c then a else tsTitle (fst p))"
  "tsRunFlags (fst (syncField c n (tsRunFlags_update (\<lambda>_. b)) p)) = (if c then b else tsRunFlags (fst p))"
  "tsStartTime (fst (syncField c n (tsStartTime_update (\<lambda>_. x)) p)) = (if c then x else tsStartTime (fst p))"
  "tsStopTime (fst (syncField c n (tsStopTime_update (\<lambda>_. x)) p)) = (if c then x else tsStopTime (fst p))"
  "tsTaskConfig (fst (syncField c n (tsTaskConfig_update (\<lambda>_. a)) p)) = (if c then a else tsTaskConfig (fst p))"
  "tsTaskStatus (fst (syncField c n (tsTaskStatus_update (\<lambda>_. a)) p)) = (if c then a else tsTaskStatus (fst p))"
  "tsTaskResult (fst (syncField c n (tsTaskResult_update (\<lambda>_. x)) p)) = (if c then x else tsTaskResult (fst p))"
  "tsTaskError (fst (syncField c n (tsTaskError_update (\<lambda>_. a)) p)) = (if c then a else tsTaskError (fst p))"
  by (simp_all add: syncField_def)

lemma syncField_other [simp]:
  "(\<And>r. tsTitle (upd r) = tsTitle r) \<Longrightarrow> tsTitle (fst (syncField c n upd p)) = tsTitle (fst p)"
  "(\<And>r. tsRunFlags (upd r) = tsRunFlags r) \<Longrightarrow> tsRunFlags (fst (syncField c n upd p)) = tsRunFlags (fst p)"
  "(\<And>r. tsStartTime (upd r) = tsStartTime r) \<Longrightarrow> tsStartTime (fst (syncField c n upd p)) = tsStartTime (fst p)"
  "(\<And>r. tsStopTime (upd r) = tsStopTime r) \<Longrightarrow> tsStopTime (fst (syncField c n upd p)) = tsStopTime (fst p)"
  "(\<And>r. tsTaskConfig (upd r) = tsTaskConfig r) \<Longrightarrow> tsTaskConfig (fst (syncField c n upd p)) = tsTaskConfig (fst p)"
  "(\<And>r. tsTaskStatus (upd r) = tsTaskStatus r) \<Longrightarrow> tsTaskStatus (fst (syncField c n upd p)) = tsTaskStatus (fst p)"
  "(\<And>r. tsTaskResult (upd r) = tsTaskResult r) \<Longrightarrow> tsTaskResult (fst (syncField c n upd p)) = tsTaskResult (fst p)"
  "(\<And>r. tsTaskError (upd r) = tsTaskError r) \<Longrightarrow> tsTaskError (fst (syncField c n upd p)) = tsTaskError (fst p)"
  by (simp_all add: syncField_def)

lemma syncHead_values [simp]:
  "tsTitle (fst (syncHead title t p)) = title"
  "tsRunFlags (fst (syncHead title t p)) = runFlagsOf t"
  "startTime t = Some x \<Longrightarrow> tsStartTime (fst (syncHead title t p)) = x"
  "stopTime t = Some x \<Longrightarrow> tsStopTime (fst (syncHead title t p)) = x"
  by (cases "startTime t"; cases "stopTime t"; simp add: syncHead_def Let_def)+

lemma syncTail_values [simp]:
  "tsTaskResult (fst (syncTail t p)) = int (resultCode (taskResult t))"
  "taskError t = Some e \<Longrightarrow> tsTaskError (fst (syncTail t p)) = e"
  "tsTitle (fst (syncTail t p)) = tsTitle (fst p)" "tsRunFlags (fst (syncTail t p)) = tsRunFlags (fst p)"
  "tsStartTime (fst (syncTail t p)) = tsStartTime (fst p)" "tsStopTime (fst (syncTail t p)) = tsStopTime (fst p)"
  "tsTaskConfig (fst (syncTail t p)) = tsTaskConfig (fst p)" "tsTaskStatus (fst (syncTail t p)) = tsTaskStatus (fst p)"
  by (cases "taskError t"; simp add: syncTail_def Let_def)+

lemma syncTask_shows:
  assumes "syncTask L title status t row = (None, p)"
  shows "row_shows (fst p) t"
  by (rule syncTask_None [OF assms]) (simp add: row_shows_def)

lemma UpdateTaskStateStatus_row:
  assumes "UpdateTaskStateStatus drv n row fs d = Inr d'" and "covered row0 (row, fs)"
    and "map_of (taskStates d) (taskStateKey row) = Some row0"
  shows "map_of (taskStates d') (taskStateKey row) = Some row"
proof -
  obtain g where g: "setTaskColumns fs row = Inr g"
    using assms(1) by (auto simp: UpdateTaskStateStatus_def split: sum.splits)
  then have "taskStates d' = tbl_update (taskStateKey row) g (taskStates d)"
    using assms(1) by (auto simp: UpdateTaskStateStatus_def execStmt_def split: if_splits option.splits)
  then show ?thesis using assms(3) covered_merge [OF assms(2) g] by (simp add: map_of_tbl_update)
qed

text \<open>When \<open>updateTaskState\<close> returns without error, the row in the database is in step again, and
  it shows the current flags, result, error and times of the task, although only the columns that
  changed were written.
\<close>

theorem updateTaskState_row:
  assumes "row_in_step s i" and "updateTaskState L i s = Some (None, s')"
  shows "row_in_step s' i \<and>
    (\<exists>t row. getTaskState s' i = Some t \<and> dbTaskState t = Some row \<and> row_shows row t)"
proof -
  obtain t row0 d where t: "getTaskState s i = Some t" "dbTaskState t = Some row0" "schedDb s = Some d"
      "map_of (taskStates d) (taskStateKey row0) = Some row0"
    using assms(1) by (auto simp: row_in_step_def)
  obtain title status where ts: "Title L s t = Some title"
      "GetVarsMap (depth L) (varHeap s) (taskStatusVars t) [] False = Some status"
    using assms(2) t by (auto simp: updateTaskState_def bind_eq_Some_conv)
  obtain e row fs where syn: "syncTask L title status t row0 = (e, row, fs)"
    by (cases "syncTask L title status t row0")
  let ?m = "modTask i (\<lambda>t. t\<lparr>dbTaskState := Some row\<rparr>) s"
  note u = assms(2) [unfolded updateTaskState_def]
  have e: "e = None" using u t ts syn by (cases e) (simp_all add: Let_def)
  have key: "taskStateKey row = taskStateKey row0" using syncTask_key [of L title status t row0] syn by simp
  have cov: "covered row0 (row, fs)" using syncTask_covered syn e by blast
  have rs: "row_shows row (t\<lparr>dbTaskState := Some row\<rparr>)"
    using syncTask_shows [of L title status t row0 "(row, fs)"] syn e by (simp add: row_shows_def runFlagsOf_def)
  have "getTaskState s' i = Some (t\<lparr>dbTaskState := Some row\<rparr>) \<and>
      (\<exists>d'. schedDb s' = Some d' \<and> map_of (taskStates d') (taskStateKey row) = Some row)"
  proof (cases "fs = []")
    case True
    have "g row0 = row0" if "setTaskColumns [] row = Inr g" for g using that by auto
    then have "row = row0" using covered_merge [OF cov [unfolded True], of id] by simp
    moreover have "s' = ?m" using u t ts syn e True by (simp add: Let_def)
    ultimately show ?thesis using t by simp
  next
    case False
    obtain d' where d': "RunTransaction (dbDriver L) (UpdateTaskStateStatus (dbDriver L) 0 row fs) d = (None, d')"
      "s' = ?m\<lparr>schedDb := Some d'\<rparr>"
      using u t ts syn e False by (auto simp: Let_def split: prod.splits)
    have "UpdateTaskStateStatus (dbDriver L) 0 row fs d = Inr d'" using RunTransaction_cases [OF d'(1)] by simp
    from UpdateTaskStateStatus_row [OF this cov] t(4) key show ?thesis using d'(2) t(1) by simp
  qed
  then show ?thesis using rs by (auto simp: row_in_step_def)
qed

definition sleep_row :: db_task_state where
  "sleep_row = newDbTaskState 1 1 '''' sleep_options False None"

definition stored_sleep :: scheduler where
  "stored_sleep = (modTask 1 (\<lambda>t. t\<lparr>dbTaskState := Some sleep_row\<rparr>)
     (modTask 1 (\<lambda>t. t\<lparr>isStarted := True, isRunning := True, startTime := Some 7\<rparr>) two_sleeps))
       \<lparr>schedDb := Some (NewDatabase\<lparr>engine := EngineSqlite, taskStates := [((1, 1), sleep_row)]\<rparr>)\<rparr>"

lemma stored_sleep_step: "row_in_step stored_sleep 1"
proof -
  obtain t where "getTaskState two_sleeps 1 = Some t" using two_sleeps_tasks(6) [of 1] by auto
  then have "getTaskState stored_sleep 1 = Some (t\<lparr>isStarted := True, isRunning := True, startTime := Some 7,
      dbTaskState := Some sleep_row\<rparr>)" by (simp add: stored_sleep_def)
  moreover have "taskStateKey sleep_row = (1, 1)" by (simp add: sleep_row_def newDbTaskState_def)
  ultimately show ?thesis unfolding row_in_step_def by (auto simp: stored_sleep_def)
qed

lemma updateTaskState_reliable:
  assumes "updateTaskState L i s = Some (err, s')" and "\<And>c. \<exists>y. yamlConfig L c = Inr y"
    and "\<And>c. \<exists>y. yamlVars L c = Inr y" and "dbDriver L = reliable_driver"
  shows "err = None"
proof -
  obtain t where t: "getTaskState s i = Some t" using updateTaskState_known [OF assms(1)] by blast
  show ?thesis
  proof (cases "dbTaskState t")
    case None
    then show ?thesis using assms(1) t by (simp add: updateTaskState_def)
  next
    case (Some row0)
    obtain title status where ts: "Title L s t = Some title"
        "GetVarsMap (depth L) (varHeap s) (taskStatusVars t) [] False = Some status"
      using assms(1) t Some by (auto simp: updateTaskState_def bind_eq_Some_conv)
    obtain row fs where syn: "syncTask L title status t row0 = (None, row, fs)"
      using syncTask_no_error [OF assms(2,3)] by blast
    obtain g where "setTaskColumns fs row = Inr g"
      using syncTask_covered [OF syn] setTaskColumns_Inr [of fs row] by (auto simp: covered_def)
    then have "fs \<noteq> [] \<Longrightarrow> fst (RunTransaction reliable_driver (UpdateTaskStateStatus reliable_driver 0 row fs) d) = None" for d
      by (simp add: RunTransaction_reliable UpdateTaskStateStatus_def)
    then show ?thesis
      using assms(1,4) t Some ts syn
      by (cases "schedDb s") (auto simp: updateTaskState_def Let_def case_prod_unfold split: if_splits)
  qed
qed

lemma stored_sleep_ready: "ready (quiet_libs out) 1 stored_sleep"
proof -
  have "ready L i (s\<lparr>schedDb := d\<rparr>) = ready L i s" for L i s d by (simp add: ready_def scope_inv_def)
  then show ?thesis
    using two_sleeps_ready [of 1 out] unfolding stored_sleep_def
    by (simp add: ready_modTask taskStatic_def)
qed

theorem updateTaskState_row_witness:
  "\<exists>s' t row. updateTaskState (quiet_libs (ExecReturned None)) 1 stored_sleep = Some (None, s') \<and>
     row_in_step s' 1 \<and> getTaskState s' 1 = Some t \<and> dbTaskState t = Some row \<and> row_shows row t"
proof -
  let ?L = "quiet_libs (ExecReturned None)"
  obtain err s' where u: "updateTaskState ?L 1 stored_sleep = Some (err, s')"
    using updateTaskState_returns [OF stored_sleep_ready] by blast
  have "err = None" by (rule updateTaskState_reliable [OF u]) (simp_all add: quiet_libs_def)
  then show ?thesis using updateTaskState_row [OF stored_sleep_step] u by blast
qed

lemma syncField_unchanged [simp]: "syncField False n u p = p"
  by (simp add: syncField_def)

lemma syncHead_idem:
  assumes "tsTitle row = title" and "tsRunFlags row = runFlagsOf t"
    and "\<And>x. startTime t = Some x \<Longrightarrow> tsStartTime row = x" and "\<And>x. stopTime t = Some x \<Longrightarrow> tsStopTime row = x"
  shows "syncHead title t (row, fs) = (row, fs)"
  using assms by (cases "startTime t"; cases "stopTime t"; simp add: syncHead_def Let_def)

text \<open>After a pass over the columns, a second pass with the same values finds nothing to write.\<close>

lemma syncTask_idem:
  assumes "syncTask L title status t row = (None, row', fs)"
    and "yamlConfig L' = yamlConfig L" and "yamlVars L' = yamlVars L"
  shows "syncTask L' title status (t\<lparr>dbTaskState := x\<rparr>) row' = (None, row', [])"
proof -
  obtain cfg vs where y: "yamlConfig L (Config t) = Inr cfg" "yamlVars L status = Inr vs"
    and p: "(row', fs) = syncTail t
      (syncField (vs \<noteq> tsTaskStatus (fst (syncField (cfg \<noteq> tsTaskConfig (fst (syncHead title t (row, []))))
           ''task_config'' (tsTaskConfig_update (\<lambda>_. cfg)) (syncHead title t (row, [])))))
         ''task_status'' (tsTaskStatus_update (\<lambda>_. vs))
         (syncField (cfg \<noteq> tsTaskConfig (fst (syncHead title t (row, []))))
           ''task_config'' (tsTaskConfig_update (\<lambda>_. cfg)) (syncHead title t (row, []))))"
    by (rule syncTask_None [OF assms(1)])
  have row': "tsTitle row' = title" "tsTaskConfig row' = cfg" "tsTaskStatus row' = vs"
    using arg_cong [OF p, of "\<lambda>p. tsTitle (fst p)"] arg_cong [OF p, of "\<lambda>p. tsTaskConfig (fst p)"]
      arg_cong [OF p, of "\<lambda>p. tsTaskStatus (fst p)"]
    by simp_all
  note sh = syncTask_shows [OF assms(1)]
  have h: "syncHead title (t\<lparr>dbTaskState := x\<rparr>) (row', []) = (row', [])"
    using sh row'(1) by (intro syncHead_idem) (auto simp: row_shows_def runFlagsOf_def)
  have tl: "syncTail (t\<lparr>dbTaskState := x\<rparr>) (row', []) = (row', [])"
    using sh by (cases "taskError t") (simp_all add: row_shows_def syncTail_def Let_def)
  have "Config (t\<lparr>dbTaskState := x\<rparr>) = Config t" by (simp add: Config_def split: option.split)
  then show ?thesis
    using y row' by (simp add: syncTask_def Let_def assms(2,3) h tl)
qed

text \<open>A write of the task row that fails in the database is lost: the mirror already holds the new
  values, so the next \<open>updateTaskState\<close>, with a database that works again, finds no changed column,
  writes nothing and reports success.
\<close>

theorem updateTaskState_failed_write_lost:
  assumes "updateTaskState L i s = Some (Some e, s')" and "beginErr (dbDriver L) = Some be"
    and "\<forall>c. \<exists>y. yamlConfig L c = Inr y" and "\<forall>m. \<exists>y. yamlVars L m = Inr y"
  shows "schedDb s' = schedDb s \<and>
    (\<exists>s''. updateTaskState (L\<lparr>dbDriver := reliable_driver\<rparr>) i s' = Some (None, s'') \<and> schedDb s'' = schedDb s)"
proof -
  obtain t where t: "getTaskState s i = Some t" using updateTaskState_known [OF assms(1)] by blast
  obtain row0 where row0: "dbTaskState t = Some row0"
    using assms(1) t by (cases "dbTaskState t") (auto simp: updateTaskState_def)
  obtain title status where ts: "Title L s t = Some title"
      "GetVarsMap (depth L) (varHeap s) (taskStatusVars t) [] False = Some status"
    using assms(1) t row0 by (auto simp: updateTaskState_def bind_eq_Some_conv)
  obtain row fs where syn: "syncTask L title status t row0 = (None, row, fs)"
    using syncTask_no_error [of L t status title row0] assms(3,4) by blast
  let ?t = "t\<lparr>dbTaskState := Some row\<rparr>"
  let ?m = "modTask i (\<lambda>t. t\<lparr>dbTaskState := Some row\<rparr>) s"
  obtain d where d: "schedDb s = Some d" "s' = ?m\<lparr>schedDb := Some d\<rparr>"
    using assms(1,2) t row0 ts syn
    by (cases "schedDb s") (auto simp: updateTaskState_def Let_def RunTransaction_def split: if_splits)
  have get: "getTaskState s' i = Some ?t" "varHeap s' = varHeap s" "schedDb s' = Some d" using t d(2) by simp_all
  have "syncTask (L\<lparr>dbDriver := reliable_driver\<rparr>) title status ?t row = (None, row, [])"
    by (rule syncTask_idem [OF syn]) simp_all
  moreover have "Title (L\<lparr>dbDriver := reliable_driver\<rparr>) s' ?t = Some title"
    using ts(1) get(2) by (simp add: Title_def)
  ultimately have "updateTaskState (L\<lparr>dbDriver := reliable_driver\<rparr>) i s' =
      Some (None, modTask i (\<lambda>t. t\<lparr>dbTaskState := Some row\<rparr>) s')"
    using get ts(2) by (simp add: updateTaskState_def)
  then show ?thesis using d get by simp
qed

theorem updateTaskState_failed_write_lost_witness:
  "\<exists>e s' s''. updateTaskState ((quiet_libs (ExecReturned None))\<lparr>dbDriver := reliable_driver\<lparr>beginErr := Some ''down''\<rparr>\<rparr>)
       1 stored_sleep = Some (Some e, s') \<and>
     updateTaskState (quiet_libs (ExecReturned None)) 1 s' = Some (None, s'') \<and> schedDb s'' = schedDb stored_sleep"
proof -
  let ?L = "quiet_libs (ExecReturned None)"
  let ?D = "?L\<lparr>dbDriver := reliable_driver\<lparr>beginErr := Some ''down''\<rparr>\<rparr>"
  have "ready ?D 1 stored_sleep" using stored_sleep_ready [of "ExecReturned None"] by (simp add: ready_def)
  then obtain err s' where u: "updateTaskState ?D 1 stored_sleep = Some (err, s')"
    using updateTaskState_returns by blast
  obtain t where t: "getTaskState stored_sleep 1 = Some t" "dbTaskState t = Some sleep_row" "isStarted t"
    using two_sleeps_tasks(6) [of 1] by (auto simp: stored_sleep_def)
  have "err \<noteq> None"
  proof
    assume "err = None"
    with u have un: "updateTaskState ?D 1 stored_sleep = Some (None, s')" by simp
    obtain title status where ts: "Title ?D stored_sleep t = Some title"
        "GetVarsMap (depth ?D) (varHeap stored_sleep) (taskStatusVars t) [] False = Some status"
      using un t by (auto simp: updateTaskState_def bind_eq_Some_conv)
    obtain row fs where syn: "syncTask ?D title status t sleep_row = (None, row, fs)"
      using syncTask_no_error [of ?D t status title sleep_row] by (auto simp: quiet_libs_def)
    have "fs \<noteq> []"
    proof
      assume "fs = []"
      then have "row = sleep_row" using covered_merge [OF syncTask_covered [OF syn], of id] by simp
      then have "runFlagsOf t = tsRunFlags sleep_row"
        using syncTask_shows [OF syn] by (simp add: row_shows_def)
      then have "bit (runFlagsOf t) 1 = bit (tsRunFlags sleep_row) 1" by simp
      then show False
        using t(3) by (auto simp: runFlagsOf_def Let_def sleep_row_def newDbTaskState_def run_flag_defs
            bit_simps split: if_splits)
    qed
    then show False
      using un t ts syn by (auto simp: updateTaskState_def Let_def stored_sleep_def RunTransaction_def)
  qed
  then obtain e where u': "updateTaskState ?D 1 stored_sleep = Some (Some e, s')" using u by auto
  have L: "?D\<lparr>dbDriver := reliable_driver\<rparr> = ?L" by (simp add: quiet_libs_def)
  from updateTaskState_failed_write_lost [OF u', of "''down''"] u' show ?thesis
    unfolding L by (auto simp: quiet_libs_def)
qed

end
