(* ===== verification/FlowTasks.thy ===== *)
theory FlowTasks
  imports SchedulerRun
begin

text \<open>
  The sequential control flow tasks: \<open>run_tasks\<close>, \<open>run_task_options\<close>, \<open>run_external_tasks\<close>, and
  \<open>sleep\<close>, with the configuration and child creation of \<open>run_tasks_concurrent\<close>, \<open>run_task_matrix\<close> and
  \<open>run_task_background\<close>. Their \<open>LoadConfig\<close> and \<open>Execute\<close> methods are functions on the scheduler state
  that call the scheduler's own \<open>newTaskState\<close>, \<open>setTaskResult\<close> and \<open>ExecuteTask\<close>; \<open>flow_libs\<close> ties the
  knot, a scheduler library whose task bodies are these functions, nested up to a given depth.
\<close>

section \<open>Parameters\<close>

text \<open>
  YAML decoding into the option and config structs, the loader of external test files, and the
  error of a task's context, which timers and watchers set, are parameters. \<open>others\<close> is what the
  other goroutines, the watcher of the child among them, have done to the scheduler by the time
  the execution of a child returns to the task with the given index.
\<close>

record TestSchedule =
  schStartup :: bool
  schCron :: "string list"
  schSkipQueue :: bool

record TestConfig =
  cfID :: string
  cfName :: string
  cfTimeout :: int
  cfConfig :: "(string \<times> var_value) list"
  cfConfigVars :: "(string \<times> string) list"
  cfTasks :: "var_value list"
  cfCleanupTasks :: "var_value list"
  cfSchedule :: "TestSchedule option"

record flow_env =
  unmarshalOptions :: "var_value \<Rightarrow> string + TaskOptions"
  unmarshalRunTasks :: "var_value \<Rightarrow> RunTasksConfig \<Rightarrow> string + RunTasksConfig"
  unmarshalConcurrent :: "var_value \<Rightarrow> ConcurrentConfig \<Rightarrow> string + ConcurrentConfig"
  unmarshalMatrix :: "var_value \<Rightarrow> MatrixConfig \<Rightarrow> string + MatrixConfig"
  unmarshalTaskOptions :: "var_value \<Rightarrow> OptionsConfig \<Rightarrow> string + OptionsConfig"
  unmarshalBackground :: "var_value \<Rightarrow> BackgroundConfig \<Rightarrow> string + BackgroundConfig"
  unmarshalExternal :: "var_value \<Rightarrow> ExternalConfig \<Rightarrow> string + ExternalConfig"
  unmarshalSleep :: "var_value \<Rightarrow> SleepConfig \<Rightarrow> string + SleepConfig"
  readTestFile :: "string \<Rightarrow> string + TestConfig"
  ctxErr :: "nat \<Rightarrow> scheduler \<Rightarrow> go_error"
  slept :: "nat \<Rightarrow> int \<Rightarrow> scheduler \<Rightarrow> bool"
  others :: "nat \<Rightarrow> scheduler \<Rightarrow> scheduler"

section \<open>The task context\<close>

text \<open>The two functions of the task context of task \<open>i\<close>.\<close>

definition ctxNewTask ::
    "sched_libs \<Rightarrow> nat \<Rightarrow> TaskOptions \<Rightarrow> vref option \<Rightarrow> scheduler \<Rightarrow> ((string + nat) \<times> scheduler) option" where
  "ctxNewTask L i opts vars s =
     (case getTaskState s i of
        None \<Rightarrow> None
      | Some t \<Rightarrow> newTaskState L opts (Some i) vars (isCleanup t) s)"

definition ctxSetResult :: "sched_libs \<Rightarrow> nat \<Rightarrow> TaskResult \<Rightarrow> scheduler \<Rightarrow> scheduler option" where
  "ctxSetResult L i result s = setTaskResult L i result True s"

definition ParseTaskOptions :: "flow_env \<Rightarrow> var_value \<Rightarrow> string + TaskOptions" where
  "ParseTaskOptions F raw =
     (case unmarshalOptions F raw of Inl e \<Rightarrow> Inl (''error parsing task: '' @ e) | Inr opts \<Rightarrow> Inr opts)"

section \<open>Loading the configuration\<close>

text \<open>
  The part all \<open>LoadConfig\<close> methods share: the static config over the defaults, then the values of
  the config variables over that, then the validation. \<open>unm\<close> decodes YAML into the struct.
\<close>

definition applyVars ::
    "sched_libs \<Rightarrow> (var_value \<Rightarrow> 'c \<Rightarrow> string + 'c) \<Rightarrow> vars_map \<Rightarrow> 'c \<Rightarrow> string + 'c" where
  "applyVars L unm applyMap config =
     (case yamlVars L applyMap of
        Inl e \<Rightarrow> Inl (''could not marshal dynamic config vars: '' @ e)
      | Inr applyYaml \<Rightarrow>
          (case unm (VMap applyMap) config of
             Inl e \<Rightarrow> Inl (''could not unmarshal dynamic config vars: '' @ e @ [newline] @ applyYaml)
           | Inr config' \<Rightarrow> Inr config'))"

definition loadConfig ::
    "sched_libs \<Rightarrow> string \<Rightarrow> (var_value \<Rightarrow> 'c \<Rightarrow> string + 'c) \<Rightarrow> ('c \<Rightarrow> go_error) \<Rightarrow> 'c \<Rightarrow> taskState \<Rightarrow>
     scheduler \<Rightarrow> (string + 'c) option" where
  "loadConfig L taskName unm validate dflt t s =
     (case (if optConfig (taskOptions t) = VNil then Inr dflt else unm (optConfig (taskOptions t)) dflt) of
        Inl e \<Rightarrow> Some (Inl (''error parsing task config for '' @ taskName @ '': '' @ e))
      | Inr config \<Rightarrow>
          do {
            vars \<leftarrow> ConsumeVars (libs_of L) (depth L) (varHeap s) (taskVars t) (optConfigVars (taskOptions t));
            Some (case vars of
                    Inl e \<Rightarrow> Inl e
                  | Inr applyMap \<Rightarrow>
                      (case applyVars L unm applyMap config of
                         Inl e \<Rightarrow> Inl e
                       | Inr config' \<Rightarrow>
                           (case validate config' of Some e \<Rightarrow> Inl e | None \<Rightarrow> Inr config')))
          })"

text \<open>A scope for child tasks, marked with the task that owns it.\<close>

definition newChildScope :: "nat \<Rightarrow> vref \<Rightarrow> scheduler \<Rightarrow> vref \<times> scheduler" where
  "newChildScope i vars s =
     (let (h, r) = NewScope (varHeap s) vars
      in (r, s\<lparr>varHeap := SetVar h r ''scopeOwner'' (VUint64 (of_nat i))\<rparr>))"

text \<open>Publishing a scope below another one, through a filter.\<close>

definition publishScope :: "vref \<Rightarrow> string \<Rightarrow> vref \<Rightarrow> scheduler \<Rightarrow> scheduler" where
  "publishScope target name scope s =
     (let (h, f) = NewScopeFilter (varHeap s) scope in s\<lparr>varHeap := SetSubScope h target name f\<rparr>)"

definition instanceOf :: "taskState \<Rightarrow> flow_instance \<Rightarrow> task_instance" where
  "instanceOf t fl = \<lparr>instConfig = flowConfig fl, instTimeout = optTimeout (taskOptions t), instFlow = fl\<rparr>"

section \<open>Creating the child tasks\<close>

text \<open>The loop of \<open>run_tasks\<close>; \<open>n\<close> is the position of the first raw task.\<close>

fun runTasksChildren ::
    "flow_env \<Rightarrow> sched_libs \<Rightarrow> nat \<Rightarrow> vref option \<Rightarrow> nat \<Rightarrow> var_value list \<Rightarrow> scheduler \<Rightarrow>
     ((string + nat list) \<times> scheduler) option" where
  "runTasksChildren F L i vars n [] s = Some (Inr [], s)"
| "runTasksChildren F L i vars n (raw # raws) s =
     (case ParseTaskOptions F raw of
        Inl e \<Rightarrow> Some (Inl (''failed parsing child task config #'' @ showNat (n + 1) @ '' : '' @ e), s)
      | Inr opts \<Rightarrow>
          do {
            (r, s1) \<leftarrow> ctxNewTask L i opts vars s;
            case r of
              Inl e \<Rightarrow> Some (Inl (''failed initializing child task #'' @ showNat (n + 1) @ '' : '' @ e), s1)
            | Inr j \<Rightarrow>
                do {
                  (rs, s2) \<leftarrow> runTasksChildren F L i vars (n + 1) raws s1;
                  Some (case rs of Inl e \<Rightarrow> Inl e | Inr js \<Rightarrow> Inr (j # js), s2)
                }
          })"

text \<open>
  \<open>LoadConfig\<close> of \<open>run_tasks\<close>. The scope is decided by the config of the task object, which still
  is the zero value here; the loaded one is assigned at the end.
\<close>

definition runTasksLoad ::
    "flow_env \<Rightarrow> sched_libs \<Rightarrow> nat \<Rightarrow> taskState \<Rightarrow> scheduler \<Rightarrow> ((string + task_instance) \<times> scheduler) option" where
  "runTasksLoad F L i t s =
     do {
       r \<leftarrow> loadConfig L ''run_tasks'' (unmarshalRunTasks F) RunTasksValidate RunTasksDefault t s;
       case r of
         Inl e \<Rightarrow> Some (Inl e, s)
       | Inr config \<Rightarrow>
           do {
             let (vars, s1) = (if rtNewVariableScope RunTasksZero
                               then (let (r, s') = newChildScope i (taskVars t) s
                                     in (Some r, s'\<lparr>varHeap := SetSubScope (varHeap s') (taskOutputs t) ''childScope'' r\<rparr>))
                               else (None, s));
             (rs, s2) \<leftarrow> runTasksChildren F L i vars 0 (rtTasks config) s1;
             Some (case rs of Inl e \<Rightarrow> Inl e | Inr js \<Rightarrow> Inr (instanceOf t (FlowRunTasks config js)), s2)
           }
     }"

text \<open>The loop of \<open>run_tasks_concurrent\<close>: a scope per child if configured, published by position.\<close>

fun concurrentChildren ::
    "flow_env \<Rightarrow> sched_libs \<Rightarrow> nat \<Rightarrow> vref \<Rightarrow> bool \<Rightarrow> vref \<Rightarrow> nat \<Rightarrow> var_value list \<Rightarrow> scheduler \<Rightarrow>
     ((string + nat list) \<times> scheduler) option" where
  "concurrentChildren F L i vars newScope childScopes n [] s = Some (Inr [], s)"
| "concurrentChildren F L i vars newScope childScopes n (raw # raws) s =
     (case ParseTaskOptions F raw of
        Inl e \<Rightarrow> Some (Inl (''failed parsing child task config #'' @ showNat n @ '' : '' @ e), s)
      | Inr opts \<Rightarrow>
          do {
            let (taskVars', s1) = (if newScope then newChildScope i vars s else (vars, s));
            (r, s2) \<leftarrow> ctxNewTask L i opts (Some taskVars') s1;
            case r of
              Inl e \<Rightarrow> Some (Inl (''failed initializing child task #'' @ showNat n @ '' : '' @ e), s2)
            | Inr j \<Rightarrow>
                do {
                  let s3 = publishScope childScopes (showNat n) taskVars' s2;
                  (rs, s4) \<leftarrow> concurrentChildren F L i vars newScope childScopes (n + 1) raws s3;
                  Some (case rs of Inl e \<Rightarrow> Inl e | Inr js \<Rightarrow> Inr (j # js), s4)
                }
          })"

definition concurrentLoad ::
    "flow_env \<Rightarrow> sched_libs \<Rightarrow> nat \<Rightarrow> taskState \<Rightarrow> scheduler \<Rightarrow> ((string + task_instance) \<times> scheduler) option" where
  "concurrentLoad F L i t s =
     do {
       r \<leftarrow> loadConfig L ''run_tasks_concurrent'' (unmarshalConcurrent F) ConcurrentValidate ConcurrentDefault t s;
       case r of
         Inl e \<Rightarrow> Some (Inl e, s)
       | Inr config \<Rightarrow>
           do {
             let (h, childScopes) = NewVariables (varHeap s) None;
             (rs, s2) \<leftarrow> concurrentChildren F L i (taskVars t) (ccNewVariableScope config) childScopes 0
                         (ccTasks config) (s\<lparr>varHeap := h\<rparr>);
             Some (case rs of
                     Inl e \<Rightarrow> (Inl e, s2)
                   | Inr js \<Rightarrow>
                       (Inr (instanceOf t (FlowConcurrent config js)),
                        if ccNewVariableScope config
                        then s2\<lparr>varHeap := SetSubScope (varHeap s2) (taskOutputs t) ''childScopes'' childScopes\<rparr>
                        else s2))
           }
     }"

text \<open>The loop of \<open>run_task_matrix\<close>: the same child for every value, bound to a variable if named.\<close>

fun matrixChildren ::
    "flow_env \<Rightarrow> sched_libs \<Rightarrow> nat \<Rightarrow> vref \<Rightarrow> string \<Rightarrow> var_value \<Rightarrow> vref \<Rightarrow> nat \<Rightarrow> var_value list \<Rightarrow> scheduler \<Rightarrow>
     ((string + nat list) \<times> scheduler) option" where
  "matrixChildren F L i vars matrixVar raw childScopes n [] s = Some (Inr [], s)"
| "matrixChildren F L i vars matrixVar raw childScopes n (x # xs) s =
     (case ParseTaskOptions F raw of
        Inl e \<Rightarrow> Some (Inl (''failed parsing child task config #'' @ showNat n @ '' : '' @ e), s)
      | Inr opts \<Rightarrow>
          do {
            let (taskVars', s0) = newChildScope i vars s;
            let s1 = (if matrixVar \<noteq> '''' then s0\<lparr>varHeap := SetVar (varHeap s0) taskVars' matrixVar x\<rparr> else s0);
            (r, s2) \<leftarrow> ctxNewTask L i opts (Some taskVars') s1;
            case r of
              Inl e \<Rightarrow> Some (Inl (''failed initializing child task #'' @ showNat n @ '' : '' @ e), s2)
            | Inr j \<Rightarrow>
                do {
                  let s3 = publishScope childScopes (showNat n) taskVars' s2;
                  (rs, s4) \<leftarrow> matrixChildren F L i vars matrixVar raw childScopes (n + 1) xs s3;
                  Some (case rs of Inl e \<Rightarrow> Inl e | Inr js \<Rightarrow> Inr (j # js), s4)
                }
          })"

definition matrixLoad ::
    "flow_env \<Rightarrow> sched_libs \<Rightarrow> nat \<Rightarrow> taskState \<Rightarrow> scheduler \<Rightarrow> ((string + task_instance) \<times> scheduler) option" where
  "matrixLoad F L i t s =
     do {
       r \<leftarrow> loadConfig L ''run_task_matrix'' (unmarshalMatrix F) MatrixValidate MatrixDefault t s;
       case r of
         Inl e \<Rightarrow> Some (Inl e, s)
       | Inr config \<Rightarrow>
           do {
             let (h, childScopes) = NewVariables (varHeap s) None;
             raw \<leftarrow> mcTask config;
             (rs, s2) \<leftarrow> matrixChildren F L i (taskVars t) (mcMatrixVar config) raw childScopes 0
                         (mcMatrixValues config) (s\<lparr>varHeap := h\<rparr>);
             Some (case rs of
                     Inl e \<Rightarrow> (Inl e, s2)
                   | Inr js \<Rightarrow>
                       (Inr (instanceOf t (FlowMatrix config js)),
                        s2\<lparr>varHeap := SetSubScope (varHeap s2) (taskOutputs t) ''childScopes'' childScopes\<rparr>))
           }
     }"

text \<open>
  \<open>LoadConfig\<close> of \<open>run_task_background\<close>: the background task is created first, in a scope of its own;
  index 0 says that there is none.
\<close>

definition backgroundChild ::
    "flow_env \<Rightarrow> sched_libs \<Rightarrow> nat \<Rightarrow> taskState \<Rightarrow> var_value option \<Rightarrow> scheduler \<Rightarrow>
     ((string + nat) \<times> scheduler) option" where
  "backgroundChild F L i t rawTask s =
     (case rawTask of
        None \<Rightarrow> Some (Inr 0, s)
      | Some raw \<Rightarrow>
          (case ParseTaskOptions F raw of
             Inl e \<Rightarrow> Some (Inl (''failed parsing background task config: '' @ e), s)
           | Inr opts \<Rightarrow>
               do {
                 let (backgroundScope, s1) = newChildScope i (taskVars t) s;
                 let s2 = publishScope (taskOutputs t) ''backgroundScope'' backgroundScope s1;
                 (r, s3) \<leftarrow> ctxNewTask L i opts (Some backgroundScope) s2;
                 Some (case r of Inl e \<Rightarrow> Inl (''failed initializing background task: '' @ e) | Inr j \<Rightarrow> Inr j, s3)
               }))"

definition foregroundChild ::
    "flow_env \<Rightarrow> sched_libs \<Rightarrow> nat \<Rightarrow> taskState \<Rightarrow> bool \<Rightarrow> var_value \<Rightarrow> scheduler \<Rightarrow>
     ((string + nat) \<times> scheduler) option" where
  "foregroundChild F L i t newScope raw s =
     (case ParseTaskOptions F raw of
        Inl e \<Rightarrow> Some (Inl (''failed parsing foreground task config: '' @ e), s)
      | Inr opts \<Rightarrow>
          do {
            let (vars, s2) = (if newScope
                              then (let (r, s1) = newChildScope i (taskVars t) s
                                    in (r, publishScope (taskOutputs t) ''foregroundScope'' r s1))
                              else (taskVars t, s));
            (r, s3) \<leftarrow> ctxNewTask L i opts (Some vars) s2;
            Some (case r of Inl e \<Rightarrow> Inl (''failed initializing foreground task: '' @ e) | Inr j \<Rightarrow> Inr j, s3)
          })"

definition backgroundLoad ::
    "flow_env \<Rightarrow> sched_libs \<Rightarrow> nat \<Rightarrow> taskState \<Rightarrow> scheduler \<Rightarrow> ((string + task_instance) \<times> scheduler) option" where
  "backgroundLoad F L i t s =
     do {
       r \<leftarrow> loadConfig L ''run_task_background'' (unmarshalBackground F) BackgroundValidate BackgroundDefault t s;
       case r of
         Inl e \<Rightarrow> Some (Inl e, s)
       | Inr config \<Rightarrow>
           do {
             (bg, s1) \<leftarrow> backgroundChild F L i t (bcBackgroundTask config) s;
             case bg of
               Inl e \<Rightarrow> Some (Inl e, s1)
             | Inr bgTask \<Rightarrow>
                 do {
                   raw \<leftarrow> bcForegroundTask config;
                   (fg, s2) \<leftarrow> foregroundChild F L i t (bcNewVariableScope config) raw s1;
                   Some (case fg of
                           Inl e \<Rightarrow> Inl e
                         | Inr fgTask \<Rightarrow> Inr (instanceOf t (FlowBackground config fgTask bgTask)), s2)
                 }
           }
     }"

text \<open>The tasks that create their children in \<open>Execute\<close>, or have none.\<close>

definition optionsLoad ::
    "flow_env \<Rightarrow> sched_libs \<Rightarrow> nat \<Rightarrow> taskState \<Rightarrow> scheduler \<Rightarrow> ((string + task_instance) \<times> scheduler) option" where
  "optionsLoad F L i t s =
     do {
       r \<leftarrow> loadConfig L ''run_task_options'' (unmarshalTaskOptions F) OptionsValidate OptionsDefault t s;
       Some (case r of Inl e \<Rightarrow> Inl e | Inr config \<Rightarrow> Inr (instanceOf t (FlowOptions config)), s)
     }"

definition externalLoad ::
    "flow_env \<Rightarrow> sched_libs \<Rightarrow> nat \<Rightarrow> taskState \<Rightarrow> scheduler \<Rightarrow> ((string + task_instance) \<times> scheduler) option" where
  "externalLoad F L i t s =
     do {
       r \<leftarrow> loadConfig L ''run_external_tasks'' (unmarshalExternal F) ExternalValidate ExternalDefault t s;
       Some (case r of Inl e \<Rightarrow> Inl e | Inr config \<Rightarrow> Inr (instanceOf t (FlowExternal config)), s)
     }"

definition sleepLoad ::
    "flow_env \<Rightarrow> sched_libs \<Rightarrow> nat \<Rightarrow> taskState \<Rightarrow> scheduler \<Rightarrow> ((string + task_instance) \<times> scheduler) option" where
  "sleepLoad F L i t s =
     do {
       r \<leftarrow> loadConfig L ''sleep'' (unmarshalSleep F) SleepValidate SleepDefault t s;
       Some (case r of Inl e \<Rightarrow> Inl e | Inr config \<Rightarrow> Inr (instanceOf t (FlowSleep config)), s)
     }"

section \<open>Executing\<close>

text \<open>\<open>Execute\<close> of \<open>run_tasks\<close>; \<open>n\<close> is the position of the first task.\<close>

fun runTasksExecute ::
    "flow_env \<Rightarrow> sched_libs \<Rightarrow> nat \<Rightarrow> RunTasksConfig \<Rightarrow> nat \<Rightarrow> nat list \<Rightarrow> scheduler \<Rightarrow> (go_error \<times> scheduler) option" where
  "runTasksExecute F L i c n [] s = Some (None, s)"
| "runTasksExecute F L i c n (j # js) s =
     (case ExecuteTask L j s of
        None \<Rightarrow> None
      | Some (err, s0) \<Rightarrow>
          let s1 = others F i s0
          in if rtExpectFailure c
          then (if err = None
                then Some (Some (''child task #'' @ showNat (n + 1) @ '' succeeded, but should have failed''), s1)
                else runTasksExecute F L i c (n + 1) js s1)
          else if rtContinueOnFailure c then runTasksExecute F L i c (n + 1) js s1
          else (case err of
                  Some e \<Rightarrow> Some (Some (''child task #'' @ showNat (n + 1) @ '' failed: '' @ e), s1)
                | None \<Rightarrow> runTasksExecute F L i c (n + 1) js s1))"

text \<open>
  \<open>Execute\<close> of \<open>run_task_options\<close>. One turn creates a child task and executes it; \<open>k\<close> is the retry
  count.
\<close>

definition optionsChild ::
    "flow_env \<Rightarrow> sched_libs \<Rightarrow> nat \<Rightarrow> OptionsConfig \<Rightarrow> scheduler \<Rightarrow> ((string + nat) \<times> scheduler) option" where
  "optionsChild F L i c s =
     do {
       raw \<leftarrow> ocTask c;
       t \<leftarrow> getTaskState s i;
       case ParseTaskOptions F raw of
         Inl e \<Rightarrow> Some (Inl (''failed parsing child task config: '' @ e), s)
       | Inr opts \<Rightarrow>
           do {
             let (vars, s1) = (if ocNewVariableScope c
                               then (let (r, s') = newChildScope i (taskVars t) s
                                     in (r, publishScope (taskOutputs t) ''childScope'' r s'))
                               else (taskVars t, s));
             (r, s2) \<leftarrow> ctxNewTask L i opts (Some vars) s1;
             Some (case r of Inl e \<Rightarrow> Inl (''failed initializing child task: '' @ e) | Inr j \<Rightarrow> Inr j, s2)
           }
     }"

text \<open>What follows the last execution of the child.\<close>

definition optionsResult ::
    "sched_libs \<Rightarrow> nat \<Rightarrow> OptionsConfig \<Rightarrow> go_error \<Rightarrow> scheduler \<Rightarrow> (go_error \<times> scheduler) option" where
  "optionsResult L i c taskErr s =
     (if ocExpectFailure c
      then (if taskErr = None
            then do {
              s1 \<leftarrow> ctxSetResult L i TaskResultFailure s;
              Some (Some ''child task succeeded, but should have failed'', s1)
            }
            else do {
              s1 \<leftarrow> ctxSetResult L i TaskResultSuccess s;
              Some (taskErr, s1)
            })
      else if ocIgnoreFailure c
      then do {
        s1 \<leftarrow> ctxSetResult L i TaskResultSuccess s;
        Some (taskErr, s1)
      }
      else (case taskErr of
              Some e \<Rightarrow>
                do {
                  s1 \<leftarrow> ctxSetResult L i TaskResultFailure s;
                  Some (Some (''child task failed: '' @ e), s1)
                }
            | None \<Rightarrow> Some (None, s)))"

function optionsExecute ::
    "flow_env \<Rightarrow> sched_libs \<Rightarrow> nat \<Rightarrow> OptionsConfig \<Rightarrow> nat \<Rightarrow> scheduler \<Rightarrow> (go_error \<times> scheduler) option" where
  "optionsExecute F L i c k s =
     (case optionsChild F L i c s of
        None \<Rightarrow> None
      | Some (Inl e, s1) \<Rightarrow> Some (Some e, s1)
      | Some (Inr j, s1) \<Rightarrow>
          (case ExecuteTask L j s1 of
             None \<Rightarrow> None
           | Some (taskErr, s') \<Rightarrow>
               let s2 = others F i s'
               in if ocRetryOnFailure c \<and> k < unat (ocMaxRetryCount c)
               then (if taskErr \<noteq> None then optionsExecute F L i c (k + 1) s2 else Some (taskErr, s2))
               else optionsResult L i c taskErr s2))"
  by pat_completeness auto

termination
  by (relation "measure (\<lambda>(F, L, i, c, k, s). unat (ocMaxRetryCount c) - k)") auto

declare optionsExecute.simps [simp del]

text \<open>\<open>Execute\<close> of \<open>run_external_tasks\<close>: the scope of the test, its tasks, and the two loops.\<close>

fun externalChildren ::
    "flow_env \<Rightarrow> sched_libs \<Rightarrow> nat \<Rightarrow> vref \<Rightarrow> var_value list \<Rightarrow> scheduler \<Rightarrow>
     ((string + nat list) \<times> scheduler) option" where
  "externalChildren F L i vars [] s = Some (Inr [], s)"
| "externalChildren F L i vars (raw # raws) s =
     (case ParseTaskOptions F raw of
        Inl e \<Rightarrow> Some (Inl e, s)
      | Inr opts \<Rightarrow>
          do {
            (r, s1) \<leftarrow> ctxNewTask L i opts (Some vars) s;
            case r of
              Inl e \<Rightarrow> Some (Inl e, s1)
            | Inr j \<Rightarrow>
                do {
                  (rs, s2) \<leftarrow> externalChildren F L i vars raws s1;
                  Some (case rs of Inl e \<Rightarrow> Inl e | Inr js \<Rightarrow> Inr (j # js), s2)
                }
          })"

text \<open>
  The two loops end early with the error of the context, which \<open>Inl\<close> carries. The first loop
  otherwise yields the error of the first failed child.
\<close>

fun externalTaskLoop ::
    "flow_env \<Rightarrow> sched_libs \<Rightarrow> nat \<Rightarrow> bool \<Rightarrow> nat \<Rightarrow> nat list \<Rightarrow> scheduler \<Rightarrow>
     ((string + go_error) \<times> scheduler) option" where
  "externalTaskLoop F L i ignoreFailure n [] s = Some (Inr None, s)"
| "externalTaskLoop F L i ignoreFailure n (j # js) s =
     (case ctxErr F i s of
        Some e \<Rightarrow> Some (Inl e, s)
      | None \<Rightarrow>
          (case ExecuteTask L j s of
             None \<Rightarrow> None
           | Some (Some e, s1) \<Rightarrow>
               if ignoreFailure then externalTaskLoop F L i ignoreFailure (n + 1) js (others F i s1)
               else Some (Inr (Some (''child task #'' @ showNat (n + 1) @ '' failed: '' @ e)), others F i s1)
           | Some (None, s1) \<Rightarrow> externalTaskLoop F L i ignoreFailure (n + 1) js (others F i s1)))"

fun externalCleanupLoop ::
    "flow_env \<Rightarrow> sched_libs \<Rightarrow> nat \<Rightarrow> nat list \<Rightarrow> scheduler \<Rightarrow> (go_error \<times> scheduler) option" where
  "externalCleanupLoop F L i [] s = Some (None, s)"
| "externalCleanupLoop F L i (j # js) s =
     (case ctxErr F i s of
        Some e \<Rightarrow> Some (Some e, s)
      | None \<Rightarrow>
          (case ExecuteTask L j s of
             None \<Rightarrow> None
           | Some (err, s1) \<Rightarrow> externalCleanupLoop F L i js (others F i s1)))"

definition externalScope ::
    "flow_env \<Rightarrow> sched_libs \<Rightarrow> nat \<Rightarrow> taskState \<Rightarrow> ExternalConfig \<Rightarrow> TestConfig \<Rightarrow> scheduler \<Rightarrow>
     ((string + vref) \<times> scheduler) option" where
  "externalScope F L i t c test s =
     do {
       let (testVars, s1) = newChildScope i (taskVars t) s;
       let s2 = publishScope (taskOutputs t) ''childScope'' testVars s1;
       let h3 = foldl (\<lambda>h (k, x). SetDefaultVar h testVars k x) (varHeap s2) (cfConfig test);
       let h4 = foldl (\<lambda>h (k, x). SetVar h testVars k x) h3 (ecTestConfig c);
       let configVars = foldl (\<lambda>m (k, x). AList.update k x m) (cfConfigVars test) (ecTestConfigVars c);
       (err, h5) \<leftarrow> CopyVars (libs_of L) (depth L) h4 testVars (taskVars t) configVars;
       Some (case err of
               Some e \<Rightarrow> Inl (''error decoding external test configVars '' @ ecTestFile c @ '': '' @ e)
             | None \<Rightarrow> Inr testVars, s2\<lparr>varHeap := h5\<rparr>)
     }"

definition externalExecute ::
    "flow_env \<Rightarrow> sched_libs \<Rightarrow> nat \<Rightarrow> ExternalConfig \<Rightarrow> scheduler \<Rightarrow> (go_error \<times> scheduler) option" where
  "externalExecute F L i c s =
     (case readTestFile F (ecTestFile c) of
        Inl e \<Rightarrow> Some (Some e, s)
      | Inr test \<Rightarrow>
          do {
            t \<leftarrow> getTaskState s i;
            (sc, s1) \<leftarrow> externalScope F L i t c test s;
            case sc of
              Inl e \<Rightarrow> Some (Some e, s1)
            | Inr testVars \<Rightarrow>
                do {
                  (rs, s2) \<leftarrow> externalChildren F L i testVars (cfTasks test) s1;
                  case rs of
                    Inl e \<Rightarrow> Some (Some e, s2)
                  | Inr tasks \<Rightarrow>
                      do {
                        (cs, s3) \<leftarrow> externalChildren F L i testVars (cfCleanupTasks test) s2;
                        case cs of
                          Inl e \<Rightarrow> Some (Some e, s3)
                        | Inr cleanupTasks \<Rightarrow>
                            do {
                              (res, s4) \<leftarrow> externalTaskLoop F L i (ecIgnoreFailure c) 0 tasks s3;
                              case res of
                                Inl e \<Rightarrow> Some (Some e, s4)
                              | Inr resError \<Rightarrow>
                                  do {
                                    (cerr, s5) \<leftarrow> externalCleanupLoop F L i cleanupTasks s4;
                                    Some (if cerr \<noteq> None then cerr
                                          else if ecExpectFailure c
                                          then (if resError = None
                                                then Some ''test should have failed, but succeeded'' else None)
                                          else resError, s5)
                                  }
                            }
                      }
                }
          })"

text \<open>\<open>sleep\<close> ends with its timer, or with the error of its context if that is done first.\<close>

definition sleepExecute :: "flow_env \<Rightarrow> nat \<Rightarrow> SleepConfig \<Rightarrow> scheduler \<Rightarrow> (go_error \<times> scheduler) option" where
  "sleepExecute F i c s = Some (if slept F i (scDuration c) s then None else ctxErr F i s, s)"

section \<open>The task bodies\<close>

text \<open>
  The bodies by task name. The concurrent tasks wait for goroutines: their \<open>Execute\<close>, like the
  bodies of all other tasks, comes from the base library \<open>B\<close>.
\<close>

definition flowLoad ::
    "flow_env \<Rightarrow> sched_libs \<Rightarrow> nat \<Rightarrow> scheduler \<Rightarrow> ((string + task_instance) \<times> scheduler) option" where
  "flowLoad F B i s =
     (case getTaskState s i of
        None \<Rightarrow> None
      | Some t \<Rightarrow>
          (let name = descName (taskDescriptor t)
           in if name = ''run_tasks'' then runTasksLoad F B i t s
              else if name = ''run_tasks_concurrent'' then concurrentLoad F B i t s
              else if name = ''run_task_matrix'' then matrixLoad F B i t s
              else if name = ''run_task_background'' then backgroundLoad F B i t s
              else if name = ''run_task_options'' then optionsLoad F B i t s
              else if name = ''run_external_tasks'' then externalLoad F B i t s
              else if name = ''sleep'' then sleepLoad F B i t s
              else implLoad B i s))"

definition flowExecute ::
    "flow_env \<Rightarrow> sched_libs \<Rightarrow> sched_libs \<Rightarrow> nat \<Rightarrow> scheduler \<Rightarrow> (exec_outcome \<times> scheduler) option" where
  "flowExecute F B L i s =
     do {
       t \<leftarrow> getTaskState s i;
       inst \<leftarrow> taskInst t;
       case instFlow inst of
         FlowRunTasks c js \<Rightarrow> map_option (\<lambda>(err, s'). (ExecReturned err, s')) (runTasksExecute F L i c 0 js s)
       | FlowOptions c \<Rightarrow> map_option (\<lambda>(err, s'). (ExecReturned err, s')) (optionsExecute F L i c 0 s)
       | FlowExternal c \<Rightarrow> map_option (\<lambda>(err, s'). (ExecReturned err, s')) (externalExecute F L i c s)
       | FlowSleep c \<Rightarrow> map_option (\<lambda>(err, s'). (ExecReturned err, s')) (sleepExecute F i c s)
       | _ \<Rightarrow> implExec B i s
     }"

text \<open>
  A library whose task bodies may nest \<open>n\<close> deep. At depth 0 no body returns, so a result at some
  depth is the result of a run whose nesting stayed below it.
\<close>

primrec flow_libs :: "flow_env \<Rightarrow> sched_libs \<Rightarrow> nat \<Rightarrow> sched_libs" where
  "flow_libs F B 0 = B\<lparr>implLoad := flowLoad F B, implExec := \<lambda>_ _. None\<rparr>"
| "flow_libs F B (Suc n) = B\<lparr>implLoad := flowLoad F B, implExec := flowExecute F B (flow_libs F B n)\<rparr>"

section \<open>Variable scopes stay well formed\<close>

lemma CopyVars_wf:
  "CopyVars L n h r source m = Some (err, h') \<Longrightarrow> heap_wf h \<Longrightarrow> heap_wf h' \<and> length h' = length h"
proof (induction m arbitrary: h)
  case (Cons p m)
  obtain cfgName varQuery where p: "p = (cfgName, varQuery)" by (cases p)
  obtain q where q: "ResolveQuery L n h source varQuery = Some q"
    using Cons.prems(1) p by (auto split: option.splits)
  show ?case
  proof (cases q)
    case (Inl e)
    then show ?thesis using Cons.prems p q by auto
  next
    case (Inr v)
    then show ?thesis
      using Cons.prems p q Cons.IH [of h] Cons.IH [of "SetVar h r cfgName (the v)"] by (cases v) auto
  qed
qed simp

lemma length_SetDefaultVar [simp]: "length (SetDefaultVar h r name x) = length h"
  by (simp add: SetDefaultVar_def)

lemma foldl_SetVar_wf:
  "heap_wf h \<Longrightarrow> heap_wf (foldl (\<lambda>h (k, x). SetVar h r k x) h m) \<and>
    length (foldl (\<lambda>h (k, x). SetVar h r k x) h m) = length h"
  "heap_wf h \<Longrightarrow> heap_wf (foldl (\<lambda>h (k, x). SetDefaultVar h r k x) h m) \<and>
    length (foldl (\<lambda>h (k, x). SetDefaultVar h r k x) h m) = length h"
  by (induction m arbitrary: h) auto

end
