(* ===== verification/FlowContract.thy ===== *)
theory FlowContract
  imports FlowTasks
begin

text \<open>
  The sequential control flow tasks meet the contract \<open>task_body\<close> of the scheduler: all they do is made
  of scheduler steps on tasks they create themselves. With that, what \<open>run_tasks\<close> and
  \<open>run_task_options\<close> return and leave behind.
\<close>

section \<open>Steps of the bodies\<close>

text \<open>The scheduler operations do not look at the task bodies.\<close>

lemma impl_irrelevant [simp]:
  "Title (L\<lparr>implLoad := a, implExec := b\<rparr>) = Title L"
  "storeTask (L\<lparr>implLoad := a, implExec := b\<rparr>) = storeTask L"
  "newTaskState (L\<lparr>implLoad := a, implExec := b\<rparr>) = newTaskState L"
  "updateTaskState (L\<lparr>implLoad := a, implExec := b\<rparr>) = updateTaskState L"
  "setTaskResult (L\<lparr>implLoad := a, implExec := b\<rparr>) = setTaskResult L"
  "startTask (L\<lparr>implLoad := a, implExec := b\<rparr>) = startTask L"
  "finishTask (L\<lparr>implLoad := a, implExec := b\<rparr>) = finishTask L"
proof -
  let ?L = "L\<lparr>implLoad := a, implExec := b\<rparr>"
  have sel: "yamlGeneralize ?L = yamlGeneralize L" "jqFirst ?L = jqFirst L" "sprintfV ?L = sprintfV L"
    "sprintfF ?L = sprintfF L" "descriptors ?L = descriptors L" "yamlConfig ?L = yamlConfig L"
    "yamlVars ?L = yamlVars L" "dbDriver ?L = dbDriver L" "depth ?L = depth L"
    by simp_all
  show T: "Title ?L = Title L" by (intro ext) (unfold Title_def sel, rule refl)
  show S: "storeTask ?L = storeTask L" by (intro ext) (unfold storeTask_def T sel, rule refl)
  show "newTaskState ?L = newTaskState L" by (intro ext) (unfold newTaskState_def S sel, rule refl)
  have Y: "syncTask ?L = syncTask L" by (intro ext) (unfold syncTask_def sel, rule refl)
  show U: "updateTaskState ?L = updateTaskState L" by (intro ext) (unfold updateTaskState_def T Y sel, rule refl)
  show "setTaskResult ?L = setTaskResult L" by (intro ext) (unfold setTaskResult_def U, rule refl)
  show "startTask ?L = startTask L" by (intro ext) (unfold startTask_def U, rule refl)
  show "finishTask ?L = finishTask L" by (intro ext) (unfold finishTask_def U, rule refl)
qed

lemma sched_step_impl [simp]: "sched_step (L\<lparr>implLoad := a, implExec := b\<rparr>) A = sched_step L A"
proof (intro ext iffI)
  fix s s'
  show "sched_step (L\<lparr>implLoad := a, implExec := b\<rparr>) A s s' \<Longrightarrow> sched_step L A s s'"
    by (induction rule: sched_step.induct) (simp_all add: sched_step.intros)
  show "sched_step L A s s' \<Longrightarrow> sched_step (L\<lparr>implLoad := a, implExec := b\<rparr>) A s s'"
    by (induction rule: sched_step.induct)
       (rule sched_step.intros, simp_all add: sched_step.intros)+
qed

lemma flow_libs_steps [simp]: "sched_step (flow_libs F B n) A = sched_step B A"
  by (cases n) simp_all

lemma flow_libs_load [simp]: "implLoad (flow_libs F B n) = flowLoad F B"
  by (cases n) simp_all

text \<open>Operations on variable scopes change the heap and nothing else, and every scope stays valid.\<close>

definition heap_only :: "scheduler \<Rightarrow> scheduler \<Rightarrow> bool" where
  "heap_only s s' \<longleftrightarrow> (\<exists>h. s' = s\<lparr>varHeap := h\<rparr> \<and> heap_wf h \<and> length (varHeap s) \<le> length h)"

lemma heap_onlyD:
  assumes "heap_only s s'"
  shows "sched_step B A s s'" and "getTaskState s' i = getTaskState s i" and "taskCount s' = taskCount s"
    and "length (varHeap s) \<le> length (varHeap s')"
  using assms by (auto simp: heap_only_def intro: step_vars)

lemma heap_only_trans: "heap_only s s' \<Longrightarrow> heap_only s' s'' \<Longrightarrow> heap_only s s''"
  by (auto simp: heap_only_def)

lemma heap_only_refl: "sched_inv s \<Longrightarrow> heap_only s s"
  by (auto simp: heap_only_def sched_inv_def scope_inv_def intro: exI [of _ "varHeap s"])

lemma sched_inv_heap: "sched_inv s \<Longrightarrow> heap_wf (varHeap s)"
  by (simp add: sched_inv_def scope_inv_def)

lemma newChildScope_heap:
  assumes "sched_inv s" and "vars < length (varHeap s)" and "newChildScope i vars s = (r, s')"
  shows "heap_only s s'" and "r < length (varHeap s')"
proof -
  note wf = sched_inv_heap [OF assms(1)]
  obtain t where t: "scope_of (varHeap s) vars = Some t" "t < length (varHeap s)"
    using scope_of_wf [OF wf assms(2)] scope_of_lt by metis
  let ?n = "newVariables (varHeap s) (Some t)"
  have n: "heap_wf (fst ?n)" "snd ?n = length (varHeap s)" "length (fst ?n) = Suc (length (varHeap s))"
    using newVariables_wf [OF wf, of "Some t"] t(2) by auto
  have h: "s' = s\<lparr>varHeap := SetVar (fst ?n) r ''scopeOwner'' (VUint64 (of_nat i))\<rparr>" "r = snd ?n"
    using assms(3) t by (auto simp: newChildScope_def NewScope_def NewVariables_def case_prod_unfold Let_def)
  show "heap_only s s'" "r < length (varHeap s')" using h n by (auto simp: heap_only_def)
qed

lemma publishScope_heap:
  assumes "sched_inv s" and "scope < length (varHeap s)"
  shows "heap_only s (publishScope target name scope s)"
  using assms sched_inv_heap [OF assms(1)]
  by (auto simp: publishScope_def heap_only_def NewScopeFilter_def obj_wf_def
      intro!: SetSubScope_wf heap_wf_alloc)

text \<open>Creating a task through the context: the new index is fresh.\<close>

lemma ctxNewTask_steps:
  assumes "sched_inv s" and "pred_option (\<lambda>v. v < length (varHeap s)) vars"
    and "ctxNewTask B i opts vars s = Some (r, s')"
  shows "sched_step B A s s'" and "r = Inr j \<Longrightarrow> taskCount s < j"
proof -
  obtain t where t: "getTaskState s i = Some t" "newTaskState B opts (Some i) vars (isCleanup t) s = Some (r, s')"
    using assms(3) by (auto simp: ctxNewTask_def split: option.splits)
  have vp: "valid_parent s (Some i) (isCleanup t)" using t(1) by (simp add: valid_parent_def)
  show "sched_step B A s s'" by (rule step_new [OF vp _ t(2)]) (use assms(2) in auto)
  assume "r = Inr j"
  then have n: "newTaskState B opts (Some i) vars (isCleanup t) s = Some (Inr j, s')" using t(2) by simp
  have "\<And>v. vars = Some v \<Longrightarrow> v < length (varHeap s)" using assms(2) by simp
  then have "j = taskCount s + 1" using newTaskState_Inr [OF assms(1) vp _ n] by blast
  then show "taskCount s < j" by simp
qed

lemma sched_steps_trans: "sched_steps B A s s' \<Longrightarrow> sched_steps B A s' s'' \<Longrightarrow> sched_steps B A s s''"
  by (rule rtranclp_trans)

text \<open>
  The loops that create children: whatever they return is reached by steps, and all children are
  fresh. \<open>child_run_cons\<close> is one turn: a child is created after some changes of the heap, and the
  rest follows.
\<close>

definition child_run :: "sched_libs \<Rightarrow> nat set \<Rightarrow> scheduler \<Rightarrow> string + nat list \<Rightarrow> scheduler \<Rightarrow> bool" where
  "child_run B A s r s' \<longleftrightarrow> sched_steps B A s s' \<and> (\<forall>js. r = Inr js \<longrightarrow> (\<forall>j\<in>set js. taskCount s < j))"

lemma child_run_refl [simp]: "child_run B A s (Inr []) s" "child_run B A s (Inl e) s"
  by (simp_all add: child_run_def)

lemma child_created:
  assumes "sched_inv s" and "heap_only s s1" and "pred_option (\<lambda>v. v < length (varHeap s1)) vars"
    and "ctxNewTask B i opts vars s1 = Some (q, s2)"
  shows "sched_steps B A s s2" and "sched_inv s2" and "length (varHeap s1) \<le> length (varHeap s2)"
    and "taskCount s \<le> taskCount s2" and "q = Inr j \<Longrightarrow> taskCount s < j"
proof -
  note h = heap_onlyD [OF assms(2)]
  have inv1: "sched_inv s1" by (rule sched_inv_step [OF h(1) assms(1)])
  have st: "sched_step B A' s1 s2" for A' by (rule ctxNewTask_steps(1) [OF inv1 assms(3,4)])
  show "sched_steps B A s s2" using h(1) st by (meson converse_rtranclp_into_rtranclp r_into_rtranclp)
  show "sched_inv s2" by (rule sched_inv_step [OF st inv1])
  show "length (varHeap s1) \<le> length (varHeap s2)" "taskCount s \<le> taskCount s2"
    using grown_step [OF st inv1] h(3) by simp_all
  show "q = Inr j \<Longrightarrow> taskCount s < j"
    using ctxNewTask_steps(2) [OF inv1 assms(3,4), of j] h(3) by simp
qed

lemma child_run_cons:
  assumes "sched_steps B A s s2" and "sched_inv s" and "taskCount s < j" and "child_run B A s2 rs s'"
    and "r = (case rs of Inl e \<Rightarrow> Inl e | Inr js \<Rightarrow> Inr (j # js))"
  shows "child_run B A s r s'"
  using assms grown_steps [OF assms(1,2)] unfolding child_run_def
  by (cases rs) (auto intro: sched_steps_trans)

lemma runTasksChildren_run:
  assumes "sched_inv s" and "pred_option (\<lambda>v. v < length (varHeap s)) vars"
    and "runTasksChildren F B i vars n raws s = Some (r, s')"
  shows "child_run B A s r s'"
  using assms
proof (induction raws arbitrary: n s r)
  case (Cons raw raws)
  show ?case
  proof (cases "ParseTaskOptions F raw")
    case (Inr opts)
    then obtain q s1 where q: "ctxNewTask B i opts vars s = Some (q, s1)"
      using Cons.prems(3) by (auto simp: bind_eq_Some_conv)
    note c = child_created [OF Cons.prems(1) heap_only_refl [OF Cons.prems(1)] Cons.prems(2) q]
    show ?thesis
    proof (cases q)
      case (Inl e)
      then show ?thesis using Cons.prems(3) Inr q c(1) by (auto simp: child_run_def)
    next
      case j: (Inr j)
      then obtain rs where rs: "runTasksChildren F B i vars (n + 1) raws s1 = Some (rs, s')"
        "r = (case rs of Inl e \<Rightarrow> Inl e | Inr js \<Rightarrow> Inr (j # js))"
        using Cons.prems(3) Inr q by (auto simp: bind_eq_Some_conv)
      have "pred_option (\<lambda>v. v < length (varHeap s1)) vars" using c(3) Cons.prems(2) by (cases vars) simp_all
      from Cons.IH [OF c(2) this rs(1)] show ?thesis
        by (rule child_run_cons [OF c(1) Cons.prems(1) c(5) [OF j] _ rs(2)])
    qed
  qed (use Cons.prems(3) in auto)
qed simp

lemma externalChildren_run:
  assumes "sched_inv s" and "vars < length (varHeap s)"
    and "externalChildren F B i vars raws s = Some (r, s')"
  shows "child_run B A s r s'"
  using assms
proof (induction raws arbitrary: s r)
  case (Cons raw raws)
  show ?case
  proof (cases "ParseTaskOptions F raw")
    case (Inr opts)
    then obtain q s1 where q: "ctxNewTask B i opts (Some vars) s = Some (q, s1)"
      using Cons.prems(3) by (auto simp: bind_eq_Some_conv)
    have "pred_option (\<lambda>v. v < length (varHeap s)) (Some vars)" using Cons.prems(2) by simp
    note c = child_created [OF Cons.prems(1) heap_only_refl [OF Cons.prems(1)] this q]
    show ?thesis
    proof (cases q)
      case (Inl e)
      then show ?thesis using Cons.prems(3) Inr q c(1) by (auto simp: child_run_def)
    next
      case j: (Inr j)
      then obtain rs where rs: "externalChildren F B i vars raws s1 = Some (rs, s')"
        "r = (case rs of Inl e \<Rightarrow> Inl e | Inr js \<Rightarrow> Inr (j # js))"
        using Cons.prems(3) Inr q by (auto simp: bind_eq_Some_conv)
      have "vars < length (varHeap s1)" using c(3) Cons.prems(2) by simp
      from Cons.IH [OF c(2) this rs(1)] show ?thesis
        by (rule child_run_cons [OF c(1) Cons.prems(1) c(5) [OF j] _ rs(2)])
    qed
  qed (use Cons.prems(3) in auto)
qed simp

text \<open>A child in a scope of its own, which is published afterwards.\<close>

lemma scoped_child:
  assumes "sched_inv s" and "heap_only s s1" and "scope < length (varHeap s1)"
    and "ctxNewTask B i opts (Some scope) s1 = Some (q, s2)"
  shows "sched_steps B A s s2 \<and> sched_inv s2 \<and> (\<forall>j. q = Inr j \<longrightarrow> taskCount s < j) \<and>
    sched_steps B A s (publishScope target name scope s2) \<and>
    sched_inv (publishScope target name scope s2) \<and>
    length (varHeap s) \<le> length (varHeap (publishScope target name scope s2))"
proof -
  have v: "pred_option (\<lambda>v. v < length (varHeap s1)) (Some scope)" using assms(3) by simp
  note c = child_created [OF assms(1,2) v assms(4)]
  have "scope < length (varHeap s2)" using assms(3) c(3) by simp
  note p = heap_onlyD [OF publishScope_heap [OF c(2) this, of target name]]
  have "sched_steps B A s (publishScope target name scope s2)" using c(1) p(1) by (rule rtranclp.rtrancl_into_rtrancl)
  moreover have "sched_inv (publishScope target name scope s2)" by (rule sched_inv_step [OF p(1) c(2)])
  moreover have "length (varHeap s) \<le> length (varHeap (publishScope target name scope s2))"
    using heap_onlyD(4) [OF assms(2)] c(3) p(4) by simp
  ultimately show ?thesis using c(1,2,5) by blast
qed

lemma concurrentChildren_run:
  assumes "sched_inv s" and "vars < length (varHeap s)"
    and "concurrentChildren F B i vars newScope childScopes n raws s = Some (r, s')"
  shows "child_run B A s r s'"
  using assms
proof (induction raws arbitrary: n s r)
  case (Cons raw raws)
  show ?case
  proof (cases "ParseTaskOptions F raw")
    case (Inr opts)
    obtain v s1 where v: "(if newScope then newChildScope i vars s else (vars, s)) = (v, s1)"
      by (cases "if newScope then newChildScope i vars s else (vars, s)")
    have h: "heap_only s s1" "v < length (varHeap s1)"
      using v newChildScope_heap [OF Cons.prems(1,2), of i v s1] heap_only_refl [OF Cons.prems(1)] Cons.prems(2)
      by (auto split: if_splits)
    obtain q s2 where q: "ctxNewTask B i opts (Some v) s1 = Some (q, s2)"
      using Cons.prems(3) Inr v by (auto simp: bind_eq_Some_conv)
    have c: "sched_steps B A s s2" "\<forall>j. q = Inr j \<longrightarrow> taskCount s < j"
      "sched_steps B A s (publishScope childScopes (showNat n) v s2)"
      "sched_inv (publishScope childScopes (showNat n) v s2)"
      "length (varHeap s) \<le> length (varHeap (publishScope childScopes (showNat n) v s2))"
      using scoped_child [OF Cons.prems(1) h q] by blast+
    show ?thesis
    proof (cases q)
      case (Inl e)
      then show ?thesis using Cons.prems(3) Inr v q c(1) by (auto simp: child_run_def)
    next
      case j: (Inr j)
      let ?s3 = "publishScope childScopes (showNat n) v s2"
      obtain rs where rs: "concurrentChildren F B i vars newScope childScopes (n + 1) raws ?s3 = Some (rs, s')"
        "r = (case rs of Inl e \<Rightarrow> Inl e | Inr js \<Rightarrow> Inr (j # js))"
        using Cons.prems(3) Inr v q j by (auto simp: bind_eq_Some_conv)
      have "vars < length (varHeap ?s3)" using c(5) Cons.prems(2) by simp
      from Cons.IH [OF c(4) this rs(1)] show ?thesis
        using child_run_cons [OF c(3) Cons.prems(1) _ _ rs(2)] c(2) j by blast
    qed
  qed (use Cons.prems(3) in auto)
qed simp

lemma matrixChildren_run:
  assumes "sched_inv s" and "vars < length (varHeap s)"
    and "matrixChildren F B i vars matrixVar raw childScopes n xs s = Some (r, s')"
  shows "child_run B A s r s'"
  using assms
proof (induction xs arbitrary: n s r)
  case (Cons x xs)
  show ?case
  proof (cases "ParseTaskOptions F raw")
    case (Inr opts)
    obtain v s0 where v: "newChildScope i vars s = (v, s0)" by (cases "newChildScope i vars s")
    let ?s1 = "if matrixVar \<noteq> '''' then s0\<lparr>varHeap := SetVar (varHeap s0) v matrixVar x\<rparr> else s0"
    note h0 = newChildScope_heap [OF Cons.prems(1,2) v]
    have h: "heap_only s ?s1" "v < length (varHeap ?s1)" using h0 by (auto simp: heap_only_def)
    obtain q s2 where q: "ctxNewTask B i opts (Some v) ?s1 = Some (q, s2)"
      using Cons.prems(3) Inr v by (auto simp: bind_eq_Some_conv Let_def)
    have c: "sched_steps B A s s2" "\<forall>j. q = Inr j \<longrightarrow> taskCount s < j"
      "sched_steps B A s (publishScope childScopes (showNat n) v s2)"
      "sched_inv (publishScope childScopes (showNat n) v s2)"
      "length (varHeap s) \<le> length (varHeap (publishScope childScopes (showNat n) v s2))"
      using scoped_child [OF Cons.prems(1) h q] by blast+
    show ?thesis
    proof (cases q)
      case (Inl e)
      then show ?thesis using Cons.prems(3) Inr v q c(1) by (auto simp: child_run_def Let_def)
    next
      case j: (Inr j)
      let ?s3 = "publishScope childScopes (showNat n) v s2"
      obtain rs where rs: "matrixChildren F B i vars matrixVar raw childScopes (n + 1) xs ?s3 = Some (rs, s')"
        "r = (case rs of Inl e \<Rightarrow> Inl e | Inr js \<Rightarrow> Inr (j # js))"
        using Cons.prems(3) Inr v q j by (auto simp: bind_eq_Some_conv Let_def)
      have "vars < length (varHeap ?s3)" using c(5) Cons.prems(2) by simp
      from Cons.IH [OF c(4) this rs(1)] show ?thesis
        using child_run_cons [OF c(3) Cons.prems(1) _ _ rs(2)] c(2) j by blast
    qed
  qed (use Cons.prems(3) in auto)
qed simp

section \<open>Loading\<close>

definition load_run :: "sched_libs \<Rightarrow> nat set \<Rightarrow> scheduler \<Rightarrow> string + task_instance \<Rightarrow> scheduler \<Rightarrow> bool" where
  "load_run B A s r s' \<longleftrightarrow> sched_steps B A s s' \<and>
     (\<forall>inst. r = Inr inst \<longrightarrow> (\<forall>j\<in>set (flowTasks (instFlow inst)). taskCount s < j))"

lemma load_run_refl [simp]:
  "load_run B A s (Inl e) s"
  "load_run B A s (Inr (instanceOf t (FlowOptions c))) s"
  "load_run B A s (Inr (instanceOf t (FlowExternal c'))) s"
  "load_run B A s (Inr (instanceOf t (FlowSleep c''))) s"
  by (simp_all add: load_run_def instanceOf_def)

lemma sched_inv_refs:
  assumes "sched_inv s" and "getTaskState s i = Some t"
  shows "taskVars t < length (varHeap s)" and "taskOutputs t < length (varHeap s)"
  using assms by (auto simp: sched_inv_def scope_inv_def)

lemma runTasksLoad_run:
  assumes "sched_inv s" and "runTasksLoad F B i t s = Some (r, s')"
  shows "load_run B A s r s'"
proof -
  obtain q where q: "loadConfig B ''run_tasks'' (unmarshalRunTasks F) RunTasksValidate RunTasksDefault t s = Some q"
    using assms(2) by (auto simp: runTasksLoad_def bind_eq_Some_conv)
  show ?thesis
  proof (cases q)
    case (Inl e)
    then show ?thesis using assms(2) q by (auto simp: runTasksLoad_def)
  next
    case (Inr config)
    then obtain rs where rs: "runTasksChildren F B i None 0 (rtTasks config) s = Some (rs, s')"
      "r = (case rs of Inl e \<Rightarrow> Inl e | Inr js \<Rightarrow> Inr (instanceOf t (FlowRunTasks config js)))"
      using assms(2) q by (auto simp: runTasksLoad_def RunTasksZero_def bind_eq_Some_conv)
    have "child_run B A s rs s'" by (rule runTasksChildren_run [OF assms(1) _ rs(1)]) simp
    then show ?thesis using rs(2) by (cases rs) (auto simp: load_run_def child_run_def instanceOf_def)
  qed
qed

text \<open>The collection of child scopes is a new scope, attached to the outputs at the end.\<close>

lemma childScopes_heap:
  assumes "sched_inv s" and "NewVariables (varHeap s) None = (h, childScopes)"
  shows "heap_only s (s\<lparr>varHeap := h\<rparr>)" and "childScopes < length h"
  using newVariables_wf [OF sched_inv_heap [OF assms(1)], of None] assms(2)
  by (auto simp: NewVariables_def heap_only_def)

lemma attachScopes_steps:
  assumes "sched_steps B A s s2" and "sched_inv s" and "childScopes < length (varHeap s)"
  shows "sched_steps B A s (s2\<lparr>varHeap := SetSubScope (varHeap s2) target name childScopes\<rparr>)"
proof -
  have "childScopes < length (varHeap s2)" using grown_steps [OF assms(1,2)] assms(3) by simp
  then have "heap_only s2 (s2\<lparr>varHeap := SetSubScope (varHeap s2) target name childScopes\<rparr>)"
    using sched_inv_heap [OF sched_inv_steps [OF assms(1,2)]] by (auto simp: heap_only_def intro: SetSubScope_wf)
  then show ?thesis using assms(1) heap_onlyD(1) by (meson rtranclp.rtrancl_into_rtrancl)
qed

lemma scoped_children_load:
  assumes "sched_inv s" and "NewVariables (varHeap s) None = (h, childScopes)"
    and "child_run B A (s\<lparr>varHeap := h\<rparr>) rs s2"
  shows "sched_steps B A s s2"
    and "sched_steps B A s (s2\<lparr>varHeap := SetSubScope (varHeap s2) target name childScopes\<rparr>)"
    and "rs = Inr js \<Longrightarrow> \<forall>j\<in>set js. taskCount s < j"
proof -
  let ?s1 = "s\<lparr>varHeap := h\<rparr>"
  note h = childScopes_heap [OF assms(1,2)]
  have st: "sched_step B A s ?s1" by (rule heap_onlyD(1) [OF h(1)])
  have inv1: "sched_inv ?s1" by (rule sched_inv_step [OF st assms(1)])
  have s12: "sched_steps B A ?s1 s2" using assms(3) by (simp add: child_run_def)
  show "sched_steps B A s s2" using st s12 by (rule converse_rtranclp_into_rtranclp)
  have "sched_steps B A ?s1 (s2\<lparr>varHeap := SetSubScope (varHeap s2) target name childScopes\<rparr>)"
    by (rule attachScopes_steps [OF s12 inv1]) (use h(2) in simp)
  then show "sched_steps B A s (s2\<lparr>varHeap := SetSubScope (varHeap s2) target name childScopes\<rparr>)"
    using st by (rule converse_rtranclp_into_rtranclp [rotated])
  show "rs = Inr js \<Longrightarrow> \<forall>j\<in>set js. taskCount s < j" using assms(3) by (simp add: child_run_def)
qed

lemma concurrentLoad_run:
  assumes "sched_inv s" and "getTaskState s i = Some t" and "concurrentLoad F B i t s = Some (r, s')"
  shows "load_run B A s r s'"
proof -
  obtain q where q: "loadConfig B ''run_tasks_concurrent'' (unmarshalConcurrent F) ConcurrentValidate
      ConcurrentDefault t s = Some q"
    using assms(3) by (auto simp: concurrentLoad_def bind_eq_Some_conv)
  show ?thesis
  proof (cases q)
    case (Inl e)
    then show ?thesis using assms(3) q by (auto simp: concurrentLoad_def)
  next
    case (Inr config)
    obtain h cs where n: "NewVariables (varHeap s) None = (h, cs)" by (cases "NewVariables (varHeap s) None")
    note hh = childScopes_heap [OF assms(1) n]
    obtain rs s2 where rs: "concurrentChildren F B i (taskVars t) (ccNewVariableScope config) cs 0 (ccTasks config)
        (s\<lparr>varHeap := h\<rparr>) = Some (rs, s2)"
      using assms(3) q Inr n by (auto simp: concurrentLoad_def bind_eq_Some_conv)
    have inv1: "sched_inv (s\<lparr>varHeap := h\<rparr>)"
      by (rule sched_inv_step [OF heap_onlyD(1) [OF hh(1)] assms(1)])
    have "taskVars t < length (varHeap (s\<lparr>varHeap := h\<rparr>))"
      using sched_inv_refs(1) [OF assms(1,2)] heap_onlyD(4) [OF hh(1)] by simp
    then have "child_run B A (s\<lparr>varHeap := h\<rparr>) rs s2" by (rule concurrentChildren_run [OF inv1 _ rs])
    note c = scoped_children_load [OF assms(1) n this]
    show ?thesis
      using assms(3) q Inr n rs c by (cases rs) (auto simp: concurrentLoad_def load_run_def instanceOf_def)
  qed
qed

lemma matrixLoad_run:
  assumes "sched_inv s" and "getTaskState s i = Some t" and "matrixLoad F B i t s = Some (r, s')"
  shows "load_run B A s r s'"
proof -
  obtain q where q: "loadConfig B ''run_task_matrix'' (unmarshalMatrix F) MatrixValidate MatrixDefault t s = Some q"
    using assms(3) by (auto simp: matrixLoad_def bind_eq_Some_conv)
  show ?thesis
  proof (cases q)
    case (Inl e)
    then show ?thesis using assms(3) q by (auto simp: matrixLoad_def)
  next
    case (Inr config)
    obtain h cs where n: "NewVariables (varHeap s) None = (h, cs)" by (cases "NewVariables (varHeap s) None")
    note hh = childScopes_heap [OF assms(1) n]
    obtain raw rs s2 where rs: "mcTask config = Some raw" "matrixChildren F B i (taskVars t) (mcMatrixVar config) raw cs 0
        (mcMatrixValues config) (s\<lparr>varHeap := h\<rparr>) = Some (rs, s2)"
      using assms(3) q Inr n by (auto simp: matrixLoad_def bind_eq_Some_conv)
    have inv1: "sched_inv (s\<lparr>varHeap := h\<rparr>)"
      by (rule sched_inv_step [OF heap_onlyD(1) [OF hh(1)] assms(1)])
    have "taskVars t < length (varHeap (s\<lparr>varHeap := h\<rparr>))"
      using sched_inv_refs(1) [OF assms(1,2)] heap_onlyD(4) [OF hh(1)] by simp
    then have "child_run B A (s\<lparr>varHeap := h\<rparr>) rs s2" by (rule matrixChildren_run [OF inv1 _ rs(2)])
    note c = scoped_children_load [OF assms(1) n this]
    show ?thesis
      using assms(3) q Inr n rs c by (cases rs) (auto simp: matrixLoad_def load_run_def instanceOf_def)
  qed
qed

lemma backgroundChild_run:
  assumes "sched_inv s" and "getTaskState s i = Some t" and "backgroundChild F B i t rawTask s = Some (r, s')"
  shows "sched_steps B A s s'" and "r = Inr j \<Longrightarrow> j = 0 \<or> taskCount s < j"
proof -
  have "sched_steps B A s s' \<and> (\<forall>j. r = Inr j \<longrightarrow> j = 0 \<or> taskCount s < j)"
  proof (cases rawTask)
    case None
    then show ?thesis using assms(3) by (auto simp: backgroundChild_def)
  next
    case (Some raw)
    show ?thesis
    proof (cases "ParseTaskOptions F raw")
      case (Inl e)
      then show ?thesis using assms(3) Some by (auto simp: backgroundChild_def)
    next
      case (Inr opts)
      obtain v s1 where v: "newChildScope i (taskVars t) s = (v, s1)" by (cases "newChildScope i (taskVars t) s")
      note h = newChildScope_heap [OF assms(1) sched_inv_refs(1) [OF assms(1,2)] v]
      have inv1: "sched_inv s1" by (rule sched_inv_step [OF heap_onlyD(1) [OF h(1)] assms(1)])
      let ?s2 = "publishScope (taskOutputs t) ''backgroundScope'' v s1"
      note p = publishScope_heap [OF inv1 h(2), of "taskOutputs t" "''backgroundScope''"]
      obtain q where q: "ctxNewTask B i opts (Some v) ?s2 = Some (q, s')"
        "r = (case q of Inl e \<Rightarrow> Inl (''failed initializing background task: '' @ e) | Inr j \<Rightarrow> Inr j)"
        using assms(3) Some Inr v by (auto simp: backgroundChild_def bind_eq_Some_conv Let_def)
      have "v < length (varHeap ?s2)" using h(2) heap_onlyD(4) [OF p] by simp
      from scoped_child [OF assms(1) heap_only_trans [OF h(1) p] this q(1)] show ?thesis
        using q(2) by (cases q) auto
    qed
  qed
  then show "sched_steps B A s s'" and "r = Inr j \<Longrightarrow> j = 0 \<or> taskCount s < j" by blast+
qed

lemma foregroundChild_run:
  assumes "sched_inv s" and "taskVars t < length (varHeap s)" and "foregroundChild F B i t newScope raw s = Some (r, s')"
  shows "sched_steps B A s s'" and "r = Inr j \<Longrightarrow> taskCount s < j"
proof -
  have "sched_steps B A s s' \<and> (\<forall>j. r = Inr j \<longrightarrow> taskCount s < j)"
  proof (cases "ParseTaskOptions F raw")
    case (Inl e)
    then show ?thesis using assms(3) by (auto simp: foregroundChild_def)
  next
    case (Inr opts)
    obtain v0 s0 where v0: "newChildScope i (taskVars t) s = (v0, s0)" by (cases "newChildScope i (taskVars t) s")
    note h0 = newChildScope_heap [OF assms(1,2) v0]
    have inv0: "sched_inv s0" by (rule sched_inv_step [OF heap_onlyD(1) [OF h0(1)] assms(1)])
    note p = publishScope_heap [OF inv0 h0(2), of "taskOutputs t" "''foregroundScope''"]
    let ?vs = "if newScope then (v0, publishScope (taskOutputs t) ''foregroundScope'' v0 s0) else (taskVars t, s)"
    obtain q where q: "ctxNewTask B i opts (Some (fst ?vs)) (snd ?vs) = Some (q, s')"
      "r = (case q of Inl e \<Rightarrow> Inl (''failed initializing foreground task: '' @ e) | Inr j \<Rightarrow> Inr j)"
      using assms(3) Inr v0 by (auto simp: foregroundChild_def bind_eq_Some_conv Let_def split: if_splits)
    have "heap_only s (snd ?vs)" "fst ?vs < length (varHeap (snd ?vs))"
      using heap_only_trans [OF h0(1) p] heap_only_refl [OF assms(1)] h0(2) heap_onlyD(4) [OF p] assms(2) by auto
    from scoped_child [OF assms(1) this q(1)] show ?thesis using q(2) by (cases q) auto
  qed
  then show "sched_steps B A s s'" and "r = Inr j \<Longrightarrow> taskCount s < j" by blast+
qed

lemma backgroundLoad_run:
  assumes "sched_inv s" and "getTaskState s i = Some t" and "backgroundLoad F B i t s = Some (r, s')"
  shows "load_run B A s r s'"
proof -
  obtain q where q: "loadConfig B ''run_task_background'' (unmarshalBackground F) BackgroundValidate
      BackgroundDefault t s = Some q"
    using assms(3) by (auto simp: backgroundLoad_def bind_eq_Some_conv)
  show ?thesis
  proof (cases q)
    case (Inl e)
    then show ?thesis using assms(3) q by (auto simp: backgroundLoad_def)
  next
    case (Inr config)
    obtain bg s1 where bg: "backgroundChild F B i t (bcBackgroundTask config) s = Some (bg, s1)"
      using assms(3) q Inr by (auto simp: backgroundLoad_def bind_eq_Some_conv)
    note b = backgroundChild_run [OF assms(1,2) bg]
    show ?thesis
    proof (cases bg)
      case (Inl e)
      then show ?thesis using assms(3) q Inr bg b(1) by (auto simp: backgroundLoad_def load_run_def)
    next
      case bgT: (Inr bgTask)
      then obtain raw fg where fg: "foregroundChild F B i t (bcNewVariableScope config) raw s1 = Some (fg, s')"
        "r = (case fg of Inl e \<Rightarrow> Inl e | Inr fgTask \<Rightarrow> Inr (instanceOf t (FlowBackground config fgTask bgTask)))"
        using assms(3) q Inr bg by (auto simp: backgroundLoad_def bind_eq_Some_conv)
      have inv1: "sched_inv s1" by (rule sched_inv_steps [OF b(1) assms(1)])
      have gr: "taskCount s \<le> taskCount s1" "length (varHeap s) \<le> length (varHeap s1)"
        using grown_steps [OF b(1) assms(1)] by simp_all
      have "taskVars t < length (varHeap s1)" using gr(2) sched_inv_refs(1) [OF assms(1,2)] by simp
      note f = foregroundChild_run [OF inv1 this fg(1)]
      show ?thesis
      proof (cases fg)
        case (Inl e)
        then show ?thesis using fg(2) sched_steps_trans [OF b(1) f(1)] by (auto simp: load_run_def)
      next
        case fgT: (Inr fgTask)
        have "taskCount s < fgTask" using f(2) [OF fgT] gr(1) by simp
        moreover have "bgTask = 0 \<or> taskCount s < bgTask" using b(2) [OF bgT] .
        ultimately show ?thesis
          using fg(2) fgT sched_steps_trans [OF b(1) f(1)] by (auto simp: load_run_def instanceOf_def)
      qed
    qed
  qed
qed

text \<open>What is assumed of the bodies of the base library, which models every other task.\<close>

definition base_bodies :: "sched_libs \<Rightarrow> bool" where
  "base_bodies B \<longleftrightarrow>
     (\<forall>i s r s'. sched_inv s \<and> implLoad B i s = Some (r, s') \<longrightarrow> load_run B {j. taskCount s < j} s r s') \<and>
     (\<forall>i s t inst out s'. sched_inv s \<and> getTaskState s i = Some t \<and> isRunning t \<and> taskInst t = Some inst \<and>
        implExec B i s = Some (out, s') \<longrightarrow>
        sched_steps B ({j. taskCount s < j} \<union> set (flowTasks (instFlow inst))) s s')"

lemma load_run_mono: "load_run B A s r s' \<Longrightarrow> A \<subseteq> A' \<Longrightarrow> load_run B A' s r s'"
  unfolding load_run_def using sched_steps_mono by blast

lemma flowLoad_run:
  assumes "base_bodies B" and "sched_inv s" and "covers A s" and "flowLoad F B i s = Some (r, s')"
  shows "load_run B A s r s'"
proof -
  obtain t where t: "getTaskState s i = Some t" using assms(4) by (auto simp: flowLoad_def split: option.splits)
  have base: "load_run B A s r s'" if "implLoad B i s = Some (r, s')"
    using load_run_mono [of B "{j. taskCount s < j}" s r s' A] assms(1-3) that
    unfolding base_bodies_def covers_def by blast
  have rest: "optionsLoad F B i t s = Some (r, s') \<or> externalLoad F B i t s = Some (r, s') \<or>
      sleepLoad F B i t s = Some (r, s') \<Longrightarrow> load_run B A s r s'"
    by (elim disjE; clarsimp simp: optionsLoad_def externalLoad_def sleepLoad_def bind_eq_Some_conv;
        rename_tac q; case_tac q; simp)
  show ?thesis
    using assms(4) t base rest runTasksLoad_run [OF assms(2), of F B i t r s' A] concurrentLoad_run [OF assms(2) t, of F B r s' A]
      matrixLoad_run [OF assms(2) t, of F B r s' A] backgroundLoad_run [OF assms(2) t, of F B r s' A]
    unfolding flowLoad_def Let_def by (simp split: if_splits)
qed

section \<open>Executing\<close>

text \<open>
  The bodies of the library one level down, and the other goroutines, which leave the executions
  of existing tasks alone.
\<close>

definition bodies_ok :: "sched_libs \<Rightarrow> bool" where
  "bodies_ok L \<longleftrightarrow> (\<forall>j M. j \<le> M \<longrightarrow> task_body L j {k. M < k})"

definition others_ok :: "flow_env \<Rightarrow> sched_libs \<Rightarrow> bool" where
  "others_ok F B \<longleftrightarrow> (\<forall>i s. sched_inv s \<longrightarrow> sched_steps B {j. taskCount s < j} s (others F i s))"

lemma others_steps:
  assumes "others_ok F B" and "sched_inv s" and "covers A s"
  shows "sched_steps B A s (others F i s)"
proof (rule sched_steps_mono)
  show "sched_steps B {j. taskCount s < j} s (others F i s)" using assms(1,2) by (simp add: others_ok_def)
  show "{j. taskCount s < j} \<subseteq> A" using assms(3) by (auto simp: covers_def)
qed

lemma execute_child:
  assumes "bodies_ok L" and "sched_inv s" and "covers A s" and "j \<in> A"
    and "ExecuteTask L j s = Some (err, s')"
  shows "sched_steps L A s s'"
proof (cases "\<exists>t. getTaskState s j = Some t \<and> \<not> isStarted t")
  case True
  then obtain t where t: "getTaskState s j = Some t" "\<not> isStarted t" by blast
  have "j \<le> taskCount s" using tree_invD(1) [OF sched_invD(1) [OF assms(2)], of j] t(1) by simp
  then have "task_body L j {k. taskCount s < k}" using assms(1) by (simp add: bodies_ok_def)
  from task_body.ExecuteTask_spec [OF this assms(2) _ t assms(5)]
  have "sched_steps L (insert j {k. taskCount s < k}) s s'" by simp
  then show ?thesis by (rule sched_steps_mono) (use assms(3,4) in \<open>auto simp: covers_def\<close>)
next
  case False
  then have "s' = s" using assms(5) by (cases "getTaskState s j") (auto simp: ExecuteTask_def)
  then show ?thesis by simp
qed

lemma execute_then_others:
  assumes "bodies_ok L" and "sched_step L = sched_step B" and "others_ok F B" and "sched_inv s" and "covers A s"
    and "j \<in> A" and "ExecuteTask L j s = Some (err, s')"
  shows "sched_steps B A s (others F i s')" and "sched_inv (others F i s')" and "covers A (others F i s')"
proof -
  have st: "sched_steps B A s s'" using execute_child [OF assms(1,4,5,6,7)] assms(2) by simp
  have inv: "sched_inv s'" by (rule sched_inv_steps [OF st assms(4)])
  have st2: "sched_steps B A s' (others F i s')"
    by (rule others_steps [OF assms(3) inv covers_steps [OF st assms(4,5)]])
  show all: "sched_steps B A s (others F i s')" using st st2 by (rule sched_steps_trans)
  show "sched_inv (others F i s')" by (rule sched_inv_steps [OF all assms(4)])
  show "covers A (others F i s')" by (rule covers_steps [OF all assms(4,5)])
qed

lemma runTasksExecute_steps:
  assumes "bodies_ok L" and "sched_step L = sched_step B" and "others_ok F B" and "sched_inv s" and "covers A s"
    and "set js \<subseteq> A" and "runTasksExecute F L i c n js s = Some (err, s')"
  shows "sched_steps B A s s'"
  using assms
proof (induction js arbitrary: n s)
  case (Cons j js)
  obtain e s0 where ex: "ExecuteTask L j s = Some (e, s0)" using Cons.prems(7) by (auto split: option.splits)
  have "j \<in> A" using Cons.prems(6) by simp
  note o = execute_then_others [OF Cons.prems(1-5) this ex, of i]
  have "others F i s0 = s' \<or> runTasksExecute F L i c (n + 1) js (others F i s0) = Some (err, s')"
    using Cons.prems(7) ex by (cases e) (auto simp: Let_def split: if_splits)
  then show ?case
    using o Cons.IH [OF Cons.prems(1-3) o(2,3)] Cons.prems(6) by (auto intro: sched_steps_trans)
qed simp

text \<open>A task reports its own result through the context while it runs.\<close>

lemma ctxSetResult_step:
  assumes "getTaskState s i = Some t" and "isRunning t" and "ctxSetResult L i r s = Some s'"
  shows "sched_step L A s s'"
  by (rule step_report) (use assms in \<open>auto simp: ctxSetResult_def\<close>)

lemma still_running:
  assumes "sched_steps B A s s'" and "i \<notin> A" and "sched_inv s" and "getTaskState s i = Some t" and "isRunning t"
  shows "\<exists>t'. getTaskState s' i = Some t' \<and> isRunning t'"
  using rely_steps [OF assms(1,2,4,3)] assms(5) by (auto simp: kept_def)

lemma optionsResult_steps:
  assumes "getTaskState s i = Some t" and "isRunning t" and "optionsResult L i c e s = Some (err, s')"
  shows "sched_steps L A s s'"
proof -
  have "s' = s \<or> (\<exists>r. ctxSetResult L i r s = Some s')"
    using assms(3) by (cases e) (auto simp: optionsResult_def bind_eq_Some_conv split: if_splits)
  then show ?thesis using ctxSetResult_step [OF assms(1,2)] by blast
qed

lemma optionsChild_run:
  assumes "sched_inv s" and "optionsChild F L i c s = Some (r, s')"
  shows "sched_steps L A s s'" and "r = Inr j \<Longrightarrow> taskCount s < j"
proof -
  obtain raw t where rt: "ocTask c = Some raw" "getTaskState s i = Some t"
    using assms(2) by (auto simp: optionsChild_def bind_eq_Some_conv)
  have "sched_steps L A s s' \<and> (\<forall>j. r = Inr j \<longrightarrow> taskCount s < j)"
  proof (cases "ParseTaskOptions F raw")
    case (Inl e)
    then show ?thesis using assms(2) rt by (auto simp: optionsChild_def)
  next
    case (Inr opts)
    note tv = sched_inv_refs(1) [OF assms(1) rt(2)]
    obtain v0 s0 where v0: "newChildScope i (taskVars t) s = (v0, s0)" by (cases "newChildScope i (taskVars t) s")
    note h0 = newChildScope_heap [OF assms(1) tv v0]
    have inv0: "sched_inv s0" by (rule sched_inv_step [OF heap_onlyD(1) [OF h0(1)] assms(1)])
    note p = publishScope_heap [OF inv0 h0(2), of "taskOutputs t" "''childScope''"]
    let ?vs = "if ocNewVariableScope c then (v0, publishScope (taskOutputs t) ''childScope'' v0 s0) else (taskVars t, s)"
    obtain q where q: "ctxNewTask L i opts (Some (fst ?vs)) (snd ?vs) = Some (q, s')"
      "r = (case q of Inl e \<Rightarrow> Inl (''failed initializing child task: '' @ e) | Inr j \<Rightarrow> Inr j)"
      using assms(2) Inr v0 rt by (auto simp: optionsChild_def bind_eq_Some_conv Let_def split: if_splits)
    have "heap_only s (snd ?vs)" "fst ?vs < length (varHeap (snd ?vs))"
      using heap_only_trans [OF h0(1) p] heap_only_refl [OF assms(1)] h0(2) heap_onlyD(4) [OF p] tv by auto
    from scoped_child [OF assms(1) this q(1)] show ?thesis using q(2) by (cases q) auto
  qed
  then show "sched_steps L A s s'" and "r = Inr j \<Longrightarrow> taskCount s < j" by blast+
qed

lemma optionsExecute_steps:
  assumes "bodies_ok L" and "sched_step L = sched_step B" and "others_ok F B" and "sched_inv s" and "covers A s"
    and "i \<notin> A" and "getTaskState s i = Some t" and "isRunning t" and "optionsExecute F L i c k s = Some (err, s')"
  shows "sched_steps B A s s'"
  using assms(4,5,7,8,9)
proof (induction "unat (ocMaxRetryCount c) - k" arbitrary: k s t rule: less_induct)
  case less
  obtain r s1 where r: "optionsChild F L i c s = Some (r, s1)"
    using less.prems(5) by (subst (asm) optionsExecute.simps) (auto split: option.splits)
  note oc = optionsChild_run [OF less.prems(1) r]
  have st1: "sched_steps B A s s1" using oc(1) assms(2) by metis
  have inv1: "sched_inv s1" by (rule sched_inv_steps [OF st1 less.prems(1)])
  have cov1: "covers A s1" by (rule covers_steps [OF st1 less.prems(1,2)])
  show ?case
  proof (cases r)
    case (Inl e)
    then show ?thesis using less.prems(5) r st1 by (simp add: optionsExecute.simps [of F L i c k])
  next
    case (Inr j)
    obtain e s2 where ex: "ExecuteTask L j s1 = Some (e, s2)"
      using less.prems(5) r Inr by (subst (asm) optionsExecute.simps) (auto split: option.splits)
    have jA: "j \<in> A" using oc(2) [OF Inr] less.prems(2) by (simp add: covers_def)
    note o = execute_then_others [OF assms(1-3) inv1 cov1 jA ex, of i]
    have st2: "sched_steps B A s (others F i s2)" using st1 o(1) by (rule sched_steps_trans)
    obtain t2 where t2: "getTaskState (others F i s2) i = Some t2" "isRunning t2"
      using still_running [OF st2 assms(6) less.prems(1,3,4)] by blast
    consider (again) "k < unat (ocMaxRetryCount c)" "optionsExecute F L i c (k + 1) (others F i s2) = Some (err, s')"
      | (stop) "s' = others F i s2" | (res) "optionsResult L i c e (others F i s2) = Some (err, s')"
      using less.prems(5) r Inr ex by (auto simp: optionsExecute.simps [of F L i c k] Let_def split: if_splits)
    then show ?thesis
    proof cases
      case again
      from less.hyps [OF _ o(2,3) t2 again(2)] again(1) show ?thesis using st2 sched_steps_trans by auto
    next
      case stop
      then show ?thesis using st2 by simp
    next
      case res
      from optionsResult_steps [OF t2 this, of A] show ?thesis using st2 assms(2) sched_steps_trans by metis
    qed
  qed
qed

lemma externalScope_heap:
  assumes "sched_inv s" and "taskVars t < length (varHeap s)" and "externalScope F L i t c test s = Some (r, s')"
  shows "heap_only s s'" and "r = Inr v \<Longrightarrow> v < length (varHeap s')"
proof -
  obtain v0 s1 where v0: "newChildScope i (taskVars t) s = (v0, s1)" by (cases "newChildScope i (taskVars t) s")
  note h0 = newChildScope_heap [OF assms(1,2) v0]
  have inv1: "sched_inv s1" by (rule sched_inv_step [OF heap_onlyD(1) [OF h0(1)] assms(1)])
  let ?s2 = "publishScope (taskOutputs t) ''childScope'' v0 s1"
  note p = publishScope_heap [OF inv1 h0(2), of "taskOutputs t" "''childScope''"]
  let ?h3 = "foldl (\<lambda>h (k, x). SetDefaultVar h v0 k x) (varHeap ?s2) (cfConfig test)"
  let ?h4 = "foldl (\<lambda>h (k, x). SetVar h v0 k x) ?h3 (ecTestConfig c)"
  obtain err h5 where c: "CopyVars (libs_of L) (depth L) ?h4 v0 (taskVars t)
      (foldl (\<lambda>m (k, x). AList.update k x m) (cfConfigVars test) (ecTestConfigVars c)) = Some (err, h5)"
    and rs: "s' = ?s2\<lparr>varHeap := h5\<rparr>"
      "r = (case err of Some e \<Rightarrow> Inl (''error decoding external test configVars '' @ ecTestFile c @ '': '' @ e) | None \<Rightarrow> Inr v0)"
    using assms(3) v0 by (auto simp: externalScope_def bind_eq_Some_conv Let_def)
  have wf2: "heap_wf (varHeap ?s2)" using p by (auto simp: heap_only_def)
  have "heap_wf ?h4" "length ?h4 = length (varHeap ?s2)"
    using foldl_SetVar_wf(2) [OF wf2, of v0 "cfConfig test"] foldl_SetVar_wf(1) [of ?h3 v0 "ecTestConfig c"] by simp_all
  then have h5: "heap_wf h5" "length h5 = length (varHeap ?s2)" using CopyVars_wf [OF c] by simp_all
  have "heap_only ?s2 s'" unfolding rs(1) using h5 by (auto simp: heap_only_def)
  then show "heap_only s s'" using heap_only_trans [OF heap_only_trans [OF h0(1) p]] by blast
  show "r = Inr v \<Longrightarrow> v < length (varHeap s')"
    using rs h5(2) h0(2) heap_onlyD(4) [OF p] by (simp split: option.splits)
qed

lemma externalTaskLoop_steps:
  assumes "bodies_ok L" and "sched_step L = sched_step B" and "others_ok F B" and "sched_inv s" and "covers A s"
    and "set js \<subseteq> A" and "externalTaskLoop F L i ign n js s = Some (r, s')"
  shows "sched_steps B A s s'"
  using assms
proof (induction js arbitrary: n s)
  case (Cons j js)
  show ?case
  proof (cases "ctxErr F i s")
    case None
    obtain e s0 where ex: "ExecuteTask L j s = Some (e, s0)"
      using Cons.prems(7) None by (auto split: option.splits)
    have "j \<in> A" using Cons.prems(6) by simp
    note o = execute_then_others [OF Cons.prems(1-5) this ex, of i]
    have "others F i s0 = s' \<or> externalTaskLoop F L i ign (n + 1) js (others F i s0) = Some (r, s')"
      using Cons.prems(7) None ex by (cases e) (auto split: if_splits)
    then show ?thesis
      using o Cons.IH [OF Cons.prems(1-3) o(2,3)] Cons.prems(6) by (auto intro: sched_steps_trans)
  qed (use Cons.prems in auto)
qed simp

lemma externalCleanupLoop_steps:
  assumes "bodies_ok L" and "sched_step L = sched_step B" and "others_ok F B" and "sched_inv s" and "covers A s"
    and "set js \<subseteq> A" and "externalCleanupLoop F L i js s = Some (r, s')"
  shows "sched_steps B A s s'"
  using assms
proof (induction js arbitrary: s)
  case (Cons j js)
  show ?case
  proof (cases "ctxErr F i s")
    case None
    obtain e s0 where ex: "ExecuteTask L j s = Some (e, s0)"
      using Cons.prems(7) None by (auto split: option.splits)
    have "j \<in> A" using Cons.prems(6) by simp
    note o = execute_then_others [OF Cons.prems(1-5) this ex, of i]
    have "externalCleanupLoop F L i js (others F i s0) = Some (r, s')" using Cons.prems(7) None ex by simp
    then show ?thesis
      using o Cons.IH [OF Cons.prems(1-3) o(2,3)] Cons.prems(6) by (auto intro: sched_steps_trans)
  qed (use Cons.prems in auto)
qed simp

lemma covered_children:
  assumes "child_run B A s (Inr js) s'" and "covers A s"
  shows "set js \<subseteq> A"
  using assms by (auto simp: child_run_def covers_def)

lemma externalExecute_steps:
  assumes "bodies_ok L" and "sched_step L = sched_step B" and "others_ok F B" and "sched_inv s" and "covers A s"
    and "externalExecute F L i c s = Some (err, s')"
  shows "sched_steps B A s s'"
proof (cases "readTestFile F (ecTestFile c)")
  case (Inl e)
  then show ?thesis using assms(6) by (simp add: externalExecute_def)
next
  case (Inr test)
  obtain t sc s1 where t: "getTaskState s i = Some t" and sc: "externalScope F L i t c test s = Some (sc, s1)"
    using assms(6) Inr by (auto simp: externalExecute_def bind_eq_Some_conv)
  note h = externalScope_heap [OF assms(4) sched_inv_refs(1) [OF assms(4) t] sc]
  have st1: "sched_steps B A s s1" using heap_onlyD(1) [OF h(1)] by blast
  have inv1: "sched_inv s1" by (rule sched_inv_steps [OF st1 assms(4)])
  have cov1: "covers A s1" by (rule covers_steps [OF st1 assms(4,5)])
  show ?thesis
  proof (cases sc)
    case (Inl e)
    then show ?thesis using assms(6) Inr t sc st1 by (simp add: externalExecute_def)
  next
    case v: (Inr testVars)
    obtain rs s2 where rs: "externalChildren F L i testVars (cfTasks test) s1 = Some (rs, s2)"
      using assms(6) Inr t sc v by (auto simp: externalExecute_def bind_eq_Some_conv)
    have c2: "child_run L A s1 rs s2" by (rule externalChildren_run [OF inv1 h(2) [OF v] rs])
    have st2: "sched_steps B A s1 s2" using c2 assms(2) by (simp add: child_run_def)
    have inv2: "sched_inv s2" by (rule sched_inv_steps [OF st2 inv1])
    have cov2: "covers A s2" by (rule covers_steps [OF st2 inv1 cov1])
    show ?thesis
    proof (cases rs)
      case (Inl e)
      then show ?thesis using assms(6) Inr t sc v rs sched_steps_trans [OF st1 st2] by (simp add: externalExecute_def)
    next
      case ts: (Inr tasks)
      obtain cs s3 where cs: "externalChildren F L i testVars (cfCleanupTasks test) s2 = Some (cs, s3)"
        using assms(6) Inr t sc v rs ts by (auto simp: externalExecute_def bind_eq_Some_conv)
      have "testVars < length (varHeap s2)" using h(2) [OF v] grown_steps [OF st2 inv1] by simp
      then have c3: "child_run L A s2 cs s3" by (rule externalChildren_run [OF inv2 _ cs])
      have st3: "sched_steps B A s2 s3" using c3 assms(2) by (simp add: child_run_def)
      have inv3: "sched_inv s3" by (rule sched_inv_steps [OF st3 inv2])
      have cov3: "covers A s3" by (rule covers_steps [OF st3 inv2 cov2])
      have st03: "sched_steps B A s s3" using st1 st2 st3 sched_steps_trans by blast
      show ?thesis
      proof (cases cs)
        case (Inl e)
        then show ?thesis using assms(6) Inr t sc v rs ts cs st03 by (simp add: externalExecute_def)
      next
        case ct: (Inr cleanupTasks)
        obtain res s4 where res: "externalTaskLoop F L i (ecIgnoreFailure c) 0 tasks s3 = Some (res, s4)"
          using assms(6) Inr t sc v rs ts cs ct by (auto simp: externalExecute_def bind_eq_Some_conv)
        have "set tasks \<subseteq> A" "set cleanupTasks \<subseteq> A"
          using covered_children c2 c3 cov1 cov2 ts ct by blast+
        note st4 = externalTaskLoop_steps [OF assms(1-3) inv3 cov3 this(1) res]
          and cl = externalCleanupLoop_steps [OF assms(1-3) _ _ this(2)]
        have st04: "sched_steps B A s s4" by (rule sched_steps_trans [OF st03 st4])
        have "s4 = s' \<or> (\<exists>ce. externalCleanupLoop F L i cleanupTasks s4 = Some (ce, s'))"
          using assms(6) Inr t sc v rs ts cs ct res
          by (cases res) (auto simp: externalExecute_def bind_eq_Some_conv)
        then show ?thesis
          using st04 cl [OF sched_inv_steps [OF st4 inv3] covers_steps [OF st4 inv3 cov3]] sched_steps_trans by blast
      qed
    qed
  qed
qed

section \<open>The contract of the control flow tasks\<close>

lemma flowExecute_steps:
  assumes "base_bodies B" and "bodies_ok L" and "sched_step L = sched_step B" and "others_ok F B" and "sched_inv s"
    and "covers A s" and "i \<notin> A" and "getTaskState s i = Some t" and "isRunning t" and "taskInst t = Some inst"
    and "inst_ok A inst" and "flowExecute F B L i s = Some (out, s')"
  shows "sched_steps B A s s'"
proof -
  have base: "sched_steps B A s s'" if "implExec B i s = Some (out, s')"
  proof (rule sched_steps_mono)
    show "sched_steps B ({j. taskCount s < j} \<union> set (flowTasks (instFlow inst))) s s'"
      using assms(1,5,8,9,10) that unfolding base_bodies_def by blast
    show "{j. taskCount s < j} \<union> set (flowTasks (instFlow inst)) \<subseteq> A"
      using assms(6,11) by (auto simp: covers_def inst_ok_def)
  qed
  show ?thesis
  proof (cases "instFlow inst")
    case (FlowRunTasks c js)
    then obtain err where e: "runTasksExecute F L i c 0 js s = Some (err, s')"
      using assms(8,10,12) by (auto simp: flowExecute_def)
    show ?thesis
      by (rule runTasksExecute_steps [OF assms(2,3,4,5,6) _ e]) (use assms(11) FlowRunTasks in \<open>simp add: inst_ok_def\<close>)
  next
    case (FlowOptions c)
    then obtain err where e: "optionsExecute F L i c 0 s = Some (err, s')"
      using assms(8,10,12) by (auto simp: flowExecute_def)
    show ?thesis by (rule optionsExecute_steps [OF assms(2-9) e])
  next
    case (FlowExternal c)
    then obtain err where e: "externalExecute F L i c s = Some (err, s')"
      using assms(8,10,12) by (auto simp: flowExecute_def)
    show ?thesis by (rule externalExecute_steps [OF assms(2-6) e])
  next
    case (FlowSleep c)
    then show ?thesis using assms(8,10,12) by (auto simp: flowExecute_def sleepExecute_def)
  qed (use base assms(8,10,12) in \<open>simp_all add: flowExecute_def\<close>)
qed

lemma flow_task_body:
  assumes "base_bodies B" and "others_ok F B" and "i \<le> M"
  shows "task_body (flow_libs F B n) i {k. M < k}"
  using assms(3)
proof (induction n arbitrary: i M)
  case 0
  show ?case
  proof
    show "i \<notin> {k. M < k}" using 0 by simp
    fix s r s' assume inv: "sched_inv s" and cov: "covers {k. M < k} s"
    show "implLoad (flow_libs F B 0) i s = Some (r, s') \<Longrightarrow> sched_steps (flow_libs F B 0) {k. M < k} s s'"
      using flowLoad_run [OF assms(1) inv cov, of F i r s'] by (simp add: load_run_def)
    show "implLoad (flow_libs F B 0) i s = Some (Inr inst, s') \<Longrightarrow> inst_ok {k. M < k} inst" for inst
      using flowLoad_run [OF assms(1) inv cov, of F i "Inr inst" s'] cov
      by (auto simp: load_run_def inst_ok_def)
  qed simp_all
next
  case (Suc n)
  have ok: "bodies_ok (flow_libs F B n)" using Suc.IH by (simp add: bodies_ok_def)
  have same: "sched_step (flow_libs F B n) = sched_step B" by (rule ext) simp
  show ?case
  proof
    show nin: "i \<notin> {k. M < k}" using Suc.prems by simp
    fix s r s' assume inv: "sched_inv s" and cov: "covers {k. M < k} s"
    show "implLoad (flow_libs F B (Suc n)) i s = Some (r, s') \<Longrightarrow>
        sched_steps (flow_libs F B (Suc n)) {k. M < k} s s'"
      using flowLoad_run [OF assms(1) inv cov, of F i r s'] by (simp add: load_run_def)
    show "implLoad (flow_libs F B (Suc n)) i s = Some (Inr inst, s') \<Longrightarrow> inst_ok {k. M < k} inst" for inst
      using flowLoad_run [OF assms(1) inv cov, of F i "Inr inst" s'] cov
      by (auto simp: load_run_def inst_ok_def)
    fix t inst out
    assume "getTaskState s i = Some t" "isRunning t" "taskInst t = Some inst" "inst_ok {k. M < k} inst"
      "implExec (flow_libs F B (Suc n)) i s = Some (out, s')"
    then show "sched_steps (flow_libs F B (Suc n)) {k. M < k} s s'"
      using flowExecute_steps [OF assms(1) ok same assms(2) inv cov nin] by simp
  qed
qed

text \<open>
  The control flow tasks alone, with no other task and no other goroutine: the contract holds
  outright.
\<close>

definition flow_only :: "flow_env \<Rightarrow> sched_libs \<Rightarrow> nat \<Rightarrow> sched_libs" where
  "flow_only F B n = flow_libs (F\<lparr>others := \<lambda>_ s. s\<rparr>) (B\<lparr>implLoad := \<lambda>_ _. None, implExec := \<lambda>_ _. None\<rparr>) n"

lemma base_bodies_none: "base_bodies (B\<lparr>implLoad := \<lambda>_ _. None, implExec := \<lambda>_ _. None\<rparr>)"
  by (simp add: base_bodies_def)

lemma others_ok_none: "others_ok (F\<lparr>others := \<lambda>_ s. s\<rparr>) B"
  by (simp add: others_ok_def)

interpretation flow: task_body "flow_only F B n" i "{k. i + m < k}"
  for F :: flow_env and B :: sched_libs and n i m :: nat
  unfolding flow_only_def by (rule flow_task_body [OF base_bodies_none others_ok_none]) simp

section \<open>Sequences of child tasks\<close>

lemma execute_fresh:
  assumes "bodies_ok L" and "others_ok F L" and "sched_inv s" and "fresh_task s j"
    and "ExecuteTask L j s = Some (err, s0)"
  shows "sched_inv (others F i s0)" and "done_task (others F i s0) j"
    and "k \<noteq> j \<Longrightarrow> k \<le> taskCount s \<Longrightarrow> done_task s k \<Longrightarrow>
      done_task (others F i s0) k \<and> failed_task (others F i s0) k = failed_task s k"
    and "k \<noteq> j \<Longrightarrow> k \<le> taskCount s \<Longrightarrow> fresh_task s k \<Longrightarrow> fresh_task (others F i s0) k"
    and "always_built L j \<Longrightarrow> err \<noteq> None \<Longrightarrow> failed_task (others F i s0) j"
    and "never_panics L j \<Longrightarrow> err = None \<Longrightarrow> \<not> failed_task (others F i s0) j"
    and "taskCount s \<le> taskCount (others F i s0)"
proof -
  obtain t where t: "getTaskState s j = Some t" "\<not> isStarted t" using assms(4) by (auto simp: fresh_task_def)
  have jt: "j \<le> taskCount s" using tree_invD(1) [OF sched_invD(1) [OF assms(3)], of j] t(1) by simp
  then have "task_body L j {k. taskCount s < k}" using assms(1) by (simp add: bodies_ok_def)
  note sp = task_body.ExecuteTask_spec [OF this assms(3) _ t assms(5)]
  have st: "sched_steps L (insert j {k. taskCount s < k}) s s0" and inv0: "sched_inv s0" using sp by simp_all
  have gr: "taskCount s \<le> taskCount s0" using grown_steps [OF st assms(3)] by simp
  have so: "sched_steps L {k. taskCount s0 < k} s0 (others F i s0)" using assms(2) inv0 by (simp add: others_ok_def)
  show "sched_inv (others F i s0)" by (rule sched_inv_steps [OF so inv0])
  show "taskCount s \<le> taskCount (others F i s0)" using gr grown_steps [OF so inv0] by simp
  have d0: "done_task s0 j" "(always_built L j \<and> err \<noteq> None \<longrightarrow> failed_task s0 j) \<and>
      (never_panics L j \<and> err = None \<longrightarrow> \<not> failed_task s0 j)"
    using sp by (auto simp: done_task_def failed_task_def always_built_def never_panics_def)
  have keep: "(done_task s0 k \<longrightarrow> done_task (others F i s0) k \<and> failed_task (others F i s0) k = failed_task s0 k) \<and>
      (fresh_task s0 k \<longrightarrow> fresh_task (others F i s0) k)" if "k \<le> taskCount s" for k
    using kept_task_facts [OF so _ inv0, of k] that gr by simp
  show "done_task (others F i s0) j" using keep [OF jt] d0 by blast
  show "always_built L j \<Longrightarrow> err \<noteq> None \<Longrightarrow> failed_task (others F i s0) j"
    "never_panics L j \<Longrightarrow> err = None \<Longrightarrow> \<not> failed_task (others F i s0) j" using keep [OF jt] d0 by blast+
  show "k \<noteq> j \<Longrightarrow> k \<le> taskCount s \<Longrightarrow> done_task s k \<Longrightarrow>
      done_task (others F i s0) k \<and> failed_task (others F i s0) k = failed_task s k"
    "k \<noteq> j \<Longrightarrow> k \<le> taskCount s \<Longrightarrow> fresh_task s k \<Longrightarrow> fresh_task (others F i s0) k"
    using kept_task_facts [OF st _ assms(3), of k] keep [of k] by simp_all
qed

text \<open>How \<open>run_tasks\<close> judges the error of one child.\<close>

definition child_accepted :: "RunTasksConfig \<Rightarrow> go_error \<Rightarrow> bool" where
  "child_accepted c err \<longleftrightarrow>
     (if rtExpectFailure c then err \<noteq> None else rtContinueOnFailure c \<or> err = None)"

lemma runTasksExecute_Cons:
  assumes "ExecuteTask L j s = Some (e, s0)"
  shows "child_accepted c e \<Longrightarrow> runTasksExecute F L i c n (j # js) s = runTasksExecute F L i c (n + 1) js (others F i s0)"
    and "\<not> child_accepted c e \<Longrightarrow> \<exists>m. runTasksExecute F L i c n (j # js) s = Some (Some m, others F i s0)"
  using assms by (auto simp: child_accepted_def Let_def split: if_splits option.splits)

lemma fresh_known: "sched_inv s \<Longrightarrow> fresh_task s j \<Longrightarrow> j \<le> taskCount s"
  using tree_invD(1) [OF sched_invD(1), of s j] by (auto simp: fresh_task_def)

lemma done_known: "sched_inv s \<Longrightarrow> done_task s j \<Longrightarrow> j \<le> taskCount s"
  using tree_invD(1) [OF sched_invD(1), of s j] by (auto simp: done_task_def)

lemma runTasksExecute_sequence:
  assumes "bodies_ok L" and "others_ok F L" and "sched_inv s" and "distinct js"
    and "\<forall>j\<in>set js. fresh_task s j" and "runTasksExecute F L i c n js s = Some (err, s')"
  shows "sched_inv s' \<and> taskCount s \<le> taskCount s' \<and>
    (\<forall>k. k \<notin> set js \<and> k \<le> taskCount s \<and> done_task s k \<longrightarrow> done_task s' k \<and> failed_task s' k = failed_task s k) \<and>
    (\<exists>m. progress s' js m \<and>
      (err = None \<longrightarrow> m = length js \<and>
         (\<forall>j\<in>set js. (rtExpectFailure c \<and> never_panics L j \<and> always_built L j \<longrightarrow> failed_task s' j) \<and>
            (\<not> rtExpectFailure c \<and> \<not> rtContinueOnFailure c \<and> never_panics L j \<longrightarrow> \<not> failed_task s' j))) \<and>
      (err \<noteq> None \<longrightarrow> m > 0 \<and>
         (if rtExpectFailure c then never_panics L (js ! (m - 1)) \<longrightarrow> \<not> failed_task s' (js ! (m - 1))
          else \<not> rtContinueOnFailure c \<and> (always_built L (js ! (m - 1)) \<longrightarrow> failed_task s' (js ! (m - 1))))))"
  using assms(3-6)
proof (induction js arbitrary: n s)
  case Nil
  then show ?case by (auto simp: progress_def)
next
  case (Cons j js)
  have fr: "fresh_task s j" and dj: "j \<notin> set js" "distinct js" using Cons.prems by auto
  obtain e s0 where ex: "ExecuteTask L j s = Some (e, s0)" using Cons.prems(4) by (auto split: option.splits)
  let ?s1 = "others F i s0"
  note x = execute_fresh [OF assms(1,2) Cons.prems(1) fr ex, where i = i]
  have fr1: "\<forall>k\<in>set js. fresh_task ?s1 k"
  proof
    fix k assume "k \<in> set js"
    then have "k \<noteq> j" "fresh_task s k" using Cons.prems(3) dj(1) by auto
    then show "fresh_task ?s1 k" using x(4) [of k] fresh_known [OF Cons.prems(1)] by blast
  qed
  have jt: "j \<le> taskCount ?s1" using done_known [OF x(1,2)] .
  show ?case
  proof (cases "child_accepted c e")
    case True
    then have "runTasksExecute F L i c (n + 1) js ?s1 = Some (err, s')"
      using Cons.prems(4) runTasksExecute_Cons(1) [OF ex] by simp
    from Cons.IH [OF x(1) dj(2) fr1 this] obtain m where
      m: "sched_inv s'" "taskCount ?s1 \<le> taskCount s'"
        "\<And>k. k \<notin> set js \<and> k \<le> taskCount ?s1 \<and> done_task ?s1 k \<longrightarrow> done_task s' k \<and> failed_task s' k = failed_task ?s1 k"
        "progress s' js m"
        "err = None \<longrightarrow> m = length js \<and>
         (\<forall>j\<in>set js. (rtExpectFailure c \<and> never_panics L j \<and> always_built L j \<longrightarrow> failed_task s' j) \<and>
            (\<not> rtExpectFailure c \<and> \<not> rtContinueOnFailure c \<and> never_panics L j \<longrightarrow> \<not> failed_task s' j))"
        "err \<noteq> None \<longrightarrow> m > 0 \<and>
         (if rtExpectFailure c then never_panics L (js ! (m - 1)) \<longrightarrow> \<not> failed_task s' (js ! (m - 1))
          else \<not> rtContinueOnFailure c \<and> (always_built L (js ! (m - 1)) \<longrightarrow> failed_task s' (js ! (m - 1))))"
      by blast
    have j': "done_task s' j" "failed_task s' j = failed_task ?s1 j" using m(3) [of j] dj(1) jt x(2) by simp_all
    have jres: "(rtExpectFailure c \<and> always_built L j \<longrightarrow> failed_task s' j) \<and>
        (\<not> rtExpectFailure c \<and> \<not> rtContinueOnFailure c \<and> never_panics L j \<longrightarrow> \<not> failed_task s' j)"
      using True x(5,6) j'(2) by (auto simp: child_accepted_def)
    have kept: "done_task s' k \<and> failed_task s' k = failed_task s k"
      if "k \<notin> set (j # js) \<and> k \<le> taskCount s \<and> done_task s k" for k
      using x(3) [of k] m(3) [of k] that x(7) by simp
    have "err = None \<longrightarrow> Suc m = length (j # js) \<and>
         (\<forall>j\<in>set (j # js). (rtExpectFailure c \<and> never_panics L j \<and> always_built L j \<longrightarrow> failed_task s' j) \<and>
            (\<not> rtExpectFailure c \<and> \<not> rtContinueOnFailure c \<and> never_panics L j \<longrightarrow> \<not> failed_task s' j))"
      using m(5) jres by simp
    moreover have "err \<noteq> None \<longrightarrow> Suc m > 0 \<and>
         (if rtExpectFailure c then never_panics L ((j # js) ! (Suc m - 1)) \<longrightarrow> \<not> failed_task s' ((j # js) ! (Suc m - 1))
          else \<not> rtContinueOnFailure c \<and>
            (always_built L ((j # js) ! (Suc m - 1)) \<longrightarrow> failed_task s' ((j # js) ! (Suc m - 1))))"
      using m(6) by (auto simp: nth_Cons' split: if_splits)
    ultimately show ?thesis
      using m(1,2) x(7) kept progress_Cons [OF j'(1) m(4)] by (intro conjI exI [of _ "Suc m"]) auto
  next
    case False
    then obtain msg where r: "err = Some msg" "s' = ?s1"
      using Cons.prems(4) runTasksExecute_Cons(2) [OF ex False, of F i n js] by auto
    have "progress ?s1 (j # js) 1" using x(2) fr1 by (simp add: progress_def)
    then show ?thesis
      using False r x(1,3,5,6,7) by (intro conjI exI [of _ 1]) (auto simp: child_accepted_def split: if_splits)
  qed
qed

section \<open>A concrete library\<close>

text \<open>
  A task \<open>run_tasks\<close> with two \<open>sleep\<close> children and \<open>newVariableScope\<close> set, for the evaluation of the
  properties.
\<close>

definition demo_env :: flow_env where
  "demo_env =
     \<lparr>unmarshalOptions = (\<lambda>raw. case raw of
        VStr n \<Rightarrow> Inr (sleep_options\<lparr>optName := n, optConfig := VStr n\<rparr>) | _ \<Rightarrow> Inl ''not a task''),
      unmarshalRunTasks = (\<lambda>raw c. case raw of
        VStr n \<Rightarrow> Inr (c\<lparr>rtTasks := [VStr ''sleep'', VStr ''sleep''], rtNewVariableScope := True\<rparr>) | _ \<Rightarrow> Inr c),
      unmarshalConcurrent = (\<lambda>_ c. Inr c), unmarshalMatrix = (\<lambda>_ c. Inr c),
      unmarshalTaskOptions = (\<lambda>raw c. case raw of
        VStr n \<Rightarrow> Inr (c\<lparr>ocTask := Some (VStr ''sleep''), ocExpectFailure := True, ocRetryOnFailure := True,
          ocMaxRetryCount := 3\<rparr>) | _ \<Rightarrow> Inr c),
      unmarshalBackground = (\<lambda>_ c. Inr c), unmarshalExternal = (\<lambda>_ c. Inr c),
      unmarshalSleep = (\<lambda>raw c. case raw of VStr n \<Rightarrow> Inr (c\<lparr>scDuration := 5\<rparr>) | _ \<Rightarrow> Inr c),
      readTestFile = (\<lambda>_. Inl ''no such file''), ctxErr = (\<lambda>_ _. None), slept = (\<lambda>_ _ _. True),
      others = (\<lambda>_ s. s)\<rparr>"

definition demo_base :: sched_libs where
  "demo_base = (quiet_libs (ExecReturned None))
     \<lparr>descriptors := map (\<lambda>n. \<lparr>descName = n, descAliases = [], descDescription = ''''\<rparr>)
        [''run_tasks'', ''run_task_options'', ''sleep''],
      implLoad := \<lambda>_ _. None, implExec := \<lambda>_ _. None\<rparr>"

definition demo_sched :: "string \<Rightarrow> scheduler" where
  "demo_sched name =
     (case AddRootTask demo_base (sleep_options\<lparr>optName := name, optConfig := VStr name\<rparr>) free_scheduler of
        Some (r, s) \<Rightarrow> s | None \<Rightarrow> free_scheduler)"

lemma AddRootTask_inv:
  assumes "sched_inv s" and "AddRootTask L opts s = Some (r, s')"
  shows "sched_inv s'"
proof -
  obtain q s1 where q: "newTaskState L opts None None False s = Some (q, s1)"
    using assms(2) by (auto simp: AddRootTask_def bind_eq_Some_conv)
  show ?thesis
  proof (cases q)
    case (Inl e)
    then have "s' = s1" using assms(2) q by (simp add: AddRootTask_def)
    then show ?thesis using sched_inv_newTaskState [OF assms(1) _ _ q] by (simp add: valid_parent_def)
  next
    case (Inr i)
    then have "s' = s1\<lparr>rootTasks := rootTasks s1 @ [i]\<rparr>" using assms(2) q by (simp add: AddRootTask_def)
    then show ?thesis using sched_inv_step [OF step_root [of UNIV]] assms(1) q Inr by blast
  qed
qed

lemma demo_sched_inv: "sched_inv (demo_sched name)"
  using AddRootTask_inv [OF free_scheduler_inv] free_scheduler_inv
  by (cases "AddRootTask demo_base (sleep_options\<lparr>optName := name, optConfig := VStr name\<rparr>) free_scheduler")
     (auto simp: demo_sched_def)

lemma demo_bodies: "base_bodies demo_base" "others_ok demo_env demo_base"
  by (simp_all add: base_bodies_def demo_base_def others_ok_def demo_env_def)

lemma fresh_task_eval: "map_option isStarted (getTaskState s i) = Some False \<Longrightarrow> fresh_task s i"
  by (auto simp: fresh_task_def)

definition demo_task :: taskState where
  "demo_task = the (getTaskState (demo_sched ''run_tasks'') 1)"

definition demo_load :: "(string + task_instance) \<times> scheduler" where
  "demo_load = the (runTasksLoad demo_env demo_base 1 demo_task (demo_sched ''run_tasks''))"

lemma demo_known: "getTaskState (demo_sched ''run_tasks'') 1 = Some demo_task"
proof -
  have "getTaskState (demo_sched ''run_tasks'') 1 \<noteq> None" by code_simp
  then show ?thesis by (auto simp: demo_task_def)
qed

lemma demo_loaded:
  "runTasksLoad demo_env demo_base 1 demo_task (demo_sched ''run_tasks'') = Some demo_load"
proof -
  have "runTasksLoad demo_env demo_base 1 demo_task (demo_sched ''run_tasks'') \<noteq> None" by code_simp
  then show ?thesis by (auto simp: demo_load_def)
qed

lemma demo_load_inv: "sched_inv (snd demo_load)"
proof -
  have "load_run demo_base {} (demo_sched ''run_tasks'') (fst demo_load) (snd demo_load)"
    by (rule runTasksLoad_run [OF demo_sched_inv]) (use demo_loaded in simp)
  then have "sched_steps demo_base {} (demo_sched ''run_tasks'') (snd demo_load)" by (simp add: load_run_def)
  then show ?thesis using demo_sched_inv by (rule sched_inv_steps)
qed

section \<open>Properties\<close>



text \<open>C6. \<open>run_tasks\<close> executes its children in their order, each once, and stops at the first child whose
  outcome it does not accept: by default a failed one, with \<open>expectFailure\<close> one that did not fail,
  with \<open>continueOnFailure\<close> none. The children after that one are not started. It returns no error only
  after all children, and then all of them have failed if failures were expected, and none has
  failed by default, panics apart.
\<close>

theorem run_tasks_sequence:
  assumes "base_bodies B" and "others_ok F B" and "sched_inv s" and "distinct js"
    and "\<forall>j\<in>set js. fresh_task s j" and "runTasksExecute F (flow_libs F B n) i c 0 js s = Some (err, s')"
  shows "\<exists>m. progress s' js m \<and>
      (err = None \<longrightarrow> m = length js \<and>
         (\<forall>j\<in>set js. (rtExpectFailure c \<and> never_panics (flow_libs F B n) j \<and> always_built (flow_libs F B n) j \<longrightarrow>
              failed_task s' j) \<and>
            (\<not> rtExpectFailure c \<and> \<not> rtContinueOnFailure c \<and> never_panics (flow_libs F B n) j \<longrightarrow>
              \<not> failed_task s' j))) \<and>
      (err \<noteq> None \<longrightarrow> m > 0 \<and>
         (if rtExpectFailure c
          then never_panics (flow_libs F B n) (js ! (m - 1)) \<longrightarrow> \<not> failed_task s' (js ! (m - 1))
          else \<not> rtContinueOnFailure c \<and>
            (always_built (flow_libs F B n) (js ! (m - 1)) \<longrightarrow> failed_task s' (js ! (m - 1)))))"
proof -
  have ok: "bodies_ok (flow_libs F B n)" using flow_task_body [OF assms(1,2)] by (simp add: bodies_ok_def)
  have oth: "others_ok F (flow_libs F B n)" using assms(2) by (simp add: others_ok_def)
  from runTasksExecute_sequence [OF ok oth assms(3-6)] show ?thesis by blast
qed

theorem run_tasks_sequence_witness:
  "\<exists>s' m. runTasksExecute demo_env (flow_libs demo_env demo_base 2) 1 RunTasksDefault 0 [2, 3] (snd demo_load) =
     Some (None, s') \<and> progress s' [2, 3] m \<and> m = 2"
proof -
  let ?L = "flow_libs demo_env demo_base 2"
  have "map_option fst (runTasksExecute demo_env ?L 1 RunTasksDefault 0 [2, 3] (snd demo_load)) = Some None"
    by code_simp
  then obtain s' where s': "runTasksExecute demo_env ?L 1 RunTasksDefault 0 [2, 3] (snd demo_load) = Some (None, s')"
    by auto
  have "map_option isStarted (getTaskState (snd demo_load) 2) = Some False"
    "map_option isStarted (getTaskState (snd demo_load) 3) = Some False" by code_simp+
  then have "\<forall>j\<in>set [2, 3]. fresh_task (snd demo_load) j" by (simp add: fresh_task_eval)
  note fresh = this
  have "distinct [2, 3 :: nat]" by simp
  from run_tasks_sequence [OF demo_bodies demo_load_inv this fresh s']
  obtain m where m: "progress s' [2, 3] m" "m = length [2::nat, 3]" by blast
  have "m = 2" using m(2) by simp
  then have "\<exists>m. progress s' [2, 3] m \<and> m = 2" using m(1) by blast
  then show ?thesis using s' by blast
qed

section \<open>Scopes of child tasks\<close>

lemma newTaskState_vars:
  assumes "sched_inv s" and "getTaskState s i = Some t" and "newTaskState L opts (Some i) None cl s = Some (Inr j, s')"
  shows "\<exists>u. getTaskState s' j = Some u \<and> taskVars u = taskVars t \<and> parentState u = Some i"
proof -
  obtain desc where d: "GetTaskDescriptor (descriptors L) (optName opts) = Some desc"
    using assms(3) by (auto simp: newTaskState_def split: option.splits)
  obtain k s1 where reg: "registerTask opts desc (Some t) None cl s = (k, s1)"
    by (cases "registerTask opts desc (Some t) None cl s")
  have st: "storeTask L k s1 = Some (Inr j, s')" using assms(2,3) d reg by (simp add: newTaskState_def)
  have kj: "k = j"
    using st by (auto simp: storeTask_def bind_eq_Some_conv Let_def case_prod_unfold split: option.splits)
  have "taskIdx t = i" using tree_invD(2) [OF sched_invD(1) [OF assms(1)] assms(2)] .
  then have "\<exists>u. getTaskState s1 k = Some u \<and> taskVars u = taskVars t \<and> parentState u = Some i"
    using reg by (auto simp: registerTask_def Let_def case_prod_unfold getTaskState_def initTaskState_def)
  then show ?thesis using storeTask_shape [OF st] kj by auto
qed

lemma runTasksChildren_Cons:
  assumes "runTasksChildren F L i vars n (raw # raws) s = Some (Inr js, s')"
  obtains opts j s1 rs where "ctxNewTask L i opts vars s = Some (Inr j, s1)"
    and "runTasksChildren F L i vars (n + 1) raws s1 = Some (Inr rs, s')" and "js = j # rs"
proof -
  obtain opts where o: "ParseTaskOptions F raw = Inr opts" using assms by (cases "ParseTaskOptions F raw") auto
  obtain q s1 where q: "ctxNewTask L i opts vars s = Some (q, s1)" using assms o by (auto simp: bind_eq_Some_conv)
  obtain j where j: "q = Inr j" using assms o q by (cases q) auto
  obtain r s2 where r: "runTasksChildren F L i vars (n + 1) raws s1 = Some (r, s2)"
    using assms o q j by (auto simp: bind_eq_Some_conv)
  then show ?thesis using that assms o q j by (cases r) auto
qed

lemma runTasksChildren_vars:
  assumes "sched_inv s" and "getTaskState s i = Some t" and "runTasksChildren F L i None n raws s = Some (Inr js, s')"
  shows "\<forall>j\<in>set js. \<exists>u. getTaskState s' j = Some u \<and> taskVars u = taskVars t \<and> parentState u = Some i"
  using assms
proof (induction raws arbitrary: n s t js)
  case (Cons raw raws)
  obtain opts j s1 rs where c: "ctxNewTask L i opts None s = Some (Inr j, s1)"
    "runTasksChildren F L i None (n + 1) raws s1 = Some (Inr rs, s')" "js = j # rs"
    using Cons.prems(3) by (rule runTasksChildren_Cons)
  have st: "sched_step L {} s s1" by (rule ctxNewTask_steps(1) [OF Cons.prems(1) _ c(1)]) simp
  have inv1: "sched_inv s1" by (rule sched_inv_step [OF st Cons.prems(1)])
  obtain u where u: "getTaskState s1 j = Some u" "taskVars u = taskVars t" "parentState u = Some i"
    using newTaskState_vars [OF Cons.prems(1,2), of L opts "isCleanup t" j s1] c(1) Cons.prems(2)
    by (auto simp: ctxNewTask_def)
  obtain t1 where t1: "getTaskState s1 i = Some t1" "kept t t1"
    using rely_step [OF st _ Cons.prems(2,1)] by auto
  have "child_run L {} s1 (Inr rs) s'" by (rule runTasksChildren_run [OF inv1 _ c(2)]) simp
  then have "sched_steps L {} s1 s'" by (simp add: child_run_def)
  from rely_steps [OF this _ u(1) inv1] obtain u' where "getTaskState s' j = Some u'" "kept u u'" by auto
  moreover from this u have "taskVars u' = taskVars t" "parentState u' = Some i"
    by (simp_all add: kept_def taskStatic_def)
  moreover have "taskVars t1 = taskVars t" using t1(2) by (simp add: kept_def taskStatic_def)
  ultimately show ?case using Cons.IH [OF inv1 t1(1) c(2)] c(3) by auto
qed simp

text \<open>The option \<open>newVariableScope\<close> of \<open>run_tasks\<close> has no effect: whatever the loaded configuration
  says, every child is created in the variable scope of the task itself.
\<close>

theorem run_tasks_shares_scope:
  assumes "sched_inv s" and "getTaskState s i = Some t" and "runTasksLoad F L i t s = Some (Inr inst, s')"
  shows "\<exists>c js. instFlow inst = FlowRunTasks c js \<and> length js = length (rtTasks c) \<and>
    (\<forall>j\<in>set js. \<exists>u. getTaskState s' j = Some u \<and> taskVars u = taskVars t \<and> parentState u = Some i)"
proof -
  obtain q where q: "loadConfig L ''run_tasks'' (unmarshalRunTasks F) RunTasksValidate RunTasksDefault t s = Some q"
    using assms(3) by (auto simp: runTasksLoad_def bind_eq_Some_conv)
  obtain c where c: "q = Inr c" using assms(3) q by (cases q) (auto simp: runTasksLoad_def)
  obtain rs where rs: "runTasksChildren F L i None 0 (rtTasks c) s = Some (rs, s')"
    "Inr inst = (case rs of Inl e \<Rightarrow> Inl e | Inr js \<Rightarrow> Inr (instanceOf t (FlowRunTasks c js)))"
    using assms(3) q c by (auto simp: runTasksLoad_def RunTasksZero_def bind_eq_Some_conv)
  obtain js where js: "rs = Inr js" "instFlow inst = FlowRunTasks c js"
    using rs(2) by (cases rs) (auto simp: instanceOf_def)
  have "length js = length raws" if "runTasksChildren F L i vars n raws s1 = Some (Inr js, s2)" for vars n raws s1 js s2
    using that
  proof (induction raws arbitrary: n s1 js)
    case (Cons raw raws)
    from Cons.prems show ?case by (rule runTasksChildren_Cons) (use Cons.IH in fastforce)
  qed simp
  then show ?thesis using runTasksChildren_vars [OF assms(1,2)] rs(1) js by blast
qed

theorem run_tasks_shares_scope_witness:
  "\<exists>inst s' c js. runTasksLoad demo_env demo_base 1 demo_task (demo_sched ''run_tasks'') = Some (Inr inst, s') \<and>
     instFlow inst = FlowRunTasks c js \<and> rtNewVariableScope c \<and> length js = 2 \<and>
     (\<forall>j\<in>set js. \<exists>u. getTaskState s' j = Some u \<and> taskVars u = taskVars demo_task)"
proof -
  have "(case fst demo_load of Inr inst \<Rightarrow>
      (case instFlow inst of FlowRunTasks c js \<Rightarrow> rtNewVariableScope c \<and> length js = 2 | _ \<Rightarrow> False) | Inl _ \<Rightarrow> False)"
    by code_simp
  then obtain inst c js where i: "fst demo_load = Inr inst" "instFlow inst = FlowRunTasks c js"
      "rtNewVariableScope c" "length js = 2"
    by (auto split: sum.split_asm flow_instance.split_asm)
  have ld: "runTasksLoad demo_env demo_base 1 demo_task (demo_sched ''run_tasks'') = Some (Inr inst, snd demo_load)"
    using demo_loaded i(1) by (metis prod.collapse)
  from run_tasks_shares_scope [OF demo_sched_inv demo_known ld] show ?thesis using ld i by auto
qed

section \<open>The verdict of \<open>run_task_options\<close>\<close>

text \<open>The verdict of \<open>run_task_options\<close> after the last execution of its child: if no result has been
  set before and no timeout has fired, the scheduler reports no error for the task exactly if the
  child failed as expected, or if failures are ignored, or if the child reported no error.
\<close>

theorem run_task_options_verdict:
  assumes "getTaskState s i = Some t" and "taskResult t = TaskResultNone" and "\<not> isTimeout t"
    and "optionsResult L i c e s = Some (err, s1)" and "evalResult L i err s1 = Some (out, s2)"
  shows "(out = None \<longleftrightarrow> (if ocExpectFailure c then e \<noteq> None else ocIgnoreFailure c \<or> e = None)) \<and>
    (\<exists>t'. getTaskState s2 i = Some t' \<and>
       taskResult t' = (if out = None then TaskResultSuccess else TaskResultFailure))"
proof -
  let ?ok = "if ocExpectFailure c then e \<noteq> None else ocIgnoreFailure c \<or> e = None"
  have final: "out = None \<longleftrightarrow> r = TaskResultSuccess" "\<exists>t'. getTaskState s2 i = Some t' \<and> taskResult t' = r"
    if t1: "getTaskState s1 i = Some t1" "updatedResult t1" "taskResult t1 = r" "r \<noteq> TaskResultNone" for t1 r
  proof -
    let ?s = "if err = None then s1 else modTask i (\<lambda>t. if taskError t = None then t\<lparr>taskError := err\<rparr> else t) s1"
    obtain u where u: "getTaskState ?s i = Some u" "updatedResult u" "taskResult u = r"
      using t1 by (cases "err = None"; cases "taskError t1 = None") auto
    then have "s2 = ?s" "out = (if r = TaskResultFailure then Some (taskFailedError u) else None)"
      using assms(5) t1(4) by (auto simp: evalResult_def Let_def bind_eq_Some_conv split: if_splits)
    then show "out = None \<longleftrightarrow> r = TaskResultSuccess" "\<exists>t'. getTaskState s2 i = Some t' \<and> taskResult t' = r"
      using u t1(4) by (cases r; auto)+
  qed
  have set: "\<exists>t1. getTaskState s1 i = Some t1 \<and> updatedResult t1 \<and> taskResult t1 = r"
    if "setTaskResult L i r True s = Some s1" for r
    using setTaskResult_self [OF that assms(1)] by auto
  consider (good) "?ok" "setTaskResult L i TaskResultSuccess True s = Some s1"
    | (bad) "\<not> ?ok" "setTaskResult L i TaskResultFailure True s = Some s1"
    | (plain) "?ok" "err = None" "s1 = s"
    using assms(4) by (cases e) (auto simp: optionsResult_def ctxSetResult_def bind_eq_Some_conv split: if_splits)
  then show ?thesis
  proof cases
    case good
    then show ?thesis using final [where r = TaskResultSuccess] set by fastforce
  next
    case bad
    then show ?thesis using final [where r = TaskResultFailure] set by fastforce
  next
    case plain
    then obtain s3 where s3: "setTaskResult L i TaskResultSuccess False s = Some s3"
      using assms by (auto simp: evalResult_def resultFromError_def bind_eq_Some_conv)
    obtain u where u: "getTaskState s3 i = Some u" "taskResult u = TaskResultSuccess"
      using setTaskResult_self [OF s3 assms(1)] by auto
    then have "s2 = s3" "out = None" using assms plain s3 by (auto simp: evalResult_def resultFromError_def)
    then show ?thesis using plain u by auto
  qed
qed

text \<open>With \<open>retryOnFailure\<close>, a child that does not fail ends \<open>run_task_options\<close> without error while
  retries are left, also if \<open>expectFailure\<close> is set; without \<open>retryOnFailure\<close> the same run of the same
  child is an error.
\<close>

theorem run_task_options_retry_skips_expectation:
  assumes "ocExpectFailure c" and "ocRetryOnFailure c" and "k < unat (ocMaxRetryCount c)"
    and "optionsChild F L i c s = Some (Inr j, s1)" and "ExecuteTask L j s1 = Some (None, s2)"
    and "ctxSetResult L i TaskResultFailure (others F i s2) = Some s3"
  shows "optionsExecute F L i c k s = Some (None, others F i s2) \<and>
    optionsExecute F L i (c\<lparr>ocRetryOnFailure := False\<rparr>) k s =
      Some (Some ''child task succeeded, but should have failed'', s3)"
proof -
  have sel: "ocTask (c\<lparr>ocRetryOnFailure := False\<rparr>) = ocTask c"
    "ocNewVariableScope (c\<lparr>ocRetryOnFailure := False\<rparr>) = ocNewVariableScope c" by simp_all
  have "optionsChild F L i (c\<lparr>ocRetryOnFailure := False\<rparr>) s = optionsChild F L i c s"
    unfolding optionsChild_def sel ..
  then show ?thesis
    using assms by (simp add: optionsExecute.simps [of F L i _ k s] optionsResult_def Let_def)
qed

definition options_demo :: OptionsConfig where
  "options_demo = OptionsDefault\<lparr>ocTask := Some (VStr ''sleep''), ocExpectFailure := True,
     ocRetryOnFailure := True, ocMaxRetryCount := 3\<rparr>"

theorem run_task_options_retry_skips_expectation_witness:
  "\<exists>s1 s2. optionsExecute demo_env (flow_libs demo_env demo_base 2) 1 options_demo 0 (demo_sched ''run_task_options'') =
       Some (None, s1) \<and>
     optionsExecute demo_env (flow_libs demo_env demo_base 2) 1 (options_demo\<lparr>ocRetryOnFailure := False\<rparr>) 0
       (demo_sched ''run_task_options'') = Some (Some ''child task succeeded, but should have failed'', s2)"
proof -
  let ?L = "flow_libs demo_env demo_base 2" and ?s = "demo_sched ''run_task_options''"
  have "(case optionsChild demo_env ?L 1 options_demo ?s of Some (Inr j, s1) \<Rightarrow>
      (case ExecuteTask ?L j s1 of Some (None, s2) \<Rightarrow>
         ctxSetResult ?L 1 TaskResultFailure (others demo_env 1 s2) \<noteq> None | _ \<Rightarrow> False) | _ \<Rightarrow> False)"
    by code_simp
  then obtain j s1 s2 s3 where r: "optionsChild demo_env ?L 1 options_demo ?s = Some (Inr j, s1)"
    "ExecuteTask ?L j s1 = Some (None, s2)" "ctxSetResult ?L 1 TaskResultFailure (others demo_env 1 s2) = Some s3"
    by (elim case_Some_Inr case_Some_None) blast
  have "ocExpectFailure options_demo" "ocRetryOnFailure options_demo" "0 < unat (ocMaxRetryCount options_demo)"
    by (simp_all add: options_demo_def)
  from run_task_options_retry_skips_expectation [OF this r] show ?thesis by blast
qed

theorem run_task_options_verdict_witness:
  "\<exists>s1 s2 out. optionsResult demo_base 1 options_demo (Some ''boom'') (demo_sched ''run_task_options'') =
       Some (Some ''boom'', s1) \<and> evalResult demo_base 1 (Some ''boom'') s1 = Some (out, s2) \<and> out = None"
proof -
  let ?s = "demo_sched ''run_task_options''"
  have "(case optionsResult demo_base 1 options_demo (Some ''boom'') ?s of Some (err, s1) \<Rightarrow>
      err = Some ''boom'' \<and> evalResult demo_base 1 (Some ''boom'') s1 \<noteq> None | None \<Rightarrow> False)"
    by code_simp
  then obtain s1 out s2 where r: "optionsResult demo_base 1 options_demo (Some ''boom'') ?s = Some (Some ''boom'', s1)"
    "evalResult demo_base 1 (Some ''boom'') s1 = Some (out, s2)"
    by (auto split: option.split_asm)
  have "map_option (\<lambda>t. (taskResult t, isTimeout t)) (getTaskState ?s 1) = Some (TaskResultNone, False)" by code_simp
  then obtain t where t: "getTaskState ?s 1 = Some t" "taskResult t = TaskResultNone" "\<not> isTimeout t" by auto
  have "ocExpectFailure options_demo" by (simp add: options_demo_def)
  then show ?thesis using run_task_options_verdict [OF t r] r by auto
qed

end
