(* ===== verification/TaskWatch.thy ===== *)
theory TaskWatch
  imports TaskExecution
begin

text \<open>
  The result channels of the scheduler. A watcher of a task (\<open>WatchTaskPass\<close>, and the watchers of the
  flow tasks, which wait on the same channels) runs beside everything else in a test run, with
  \<open>GetTaskResultUpdateChan\<close> in its single steps, because its read lock lets several callers make a
  channel at once. The channel a watcher waits for is closed by the next change of the result, unless such a
  caller has replaced it: then the watcher is never woken.
\<close>

section \<open>Channels over one step\<close>

text \<open>
  What a step does to the channels: closed channels stay closed, only the current channel of some
  task is closed, a channel that becomes current is fresh, and a current channel that stays open
  stays current, with the result unchanged.
\<close>

definition chan_step :: "scheduler \<Rightarrow> scheduler \<Rightarrow> bool" where
  "chan_step s s' \<longleftrightarrow>
     chanCount s \<le> chanCount s' \<and> set (closedChans s) \<subseteq> set (closedChans s') \<and>
     (\<forall>c\<in>set (closedChans s'). c \<in> set (closedChans s) \<or>
        (\<exists>j t. getTaskState s j = Some t \<and> resultNotifyChan t = Some c)) \<and>
     (\<forall>j t' c. getTaskState s' j = Some t' \<and> resultNotifyChan t' = Some c \<longrightarrow>
        (\<exists>t. getTaskState s j = Some t \<and> resultNotifyChan t = Some c) \<or> chanCount s \<le> c) \<and>
     (\<forall>j t c. getTaskState s j = Some t \<and> resultNotifyChan t = Some c \<longrightarrow>
        c \<in> set (closedChans s') \<or>
        (\<exists>t'. getTaskState s' j = Some t' \<and> resultNotifyChan t' = Some c \<and> taskResult t' = taskResult t))"

definition same_chans :: "scheduler \<Rightarrow> scheduler \<Rightarrow> bool" where
  "same_chans s s' \<longleftrightarrow> chanCount s' = chanCount s \<and> closedChans s' = closedChans s \<and>
     (\<forall>j. map_option (\<lambda>t. (resultNotifyChan t, taskResult t)) (getTaskState s' j) =
          map_option (\<lambda>t. (resultNotifyChan t, taskResult t)) (getTaskState s j))"

lemma same_chans_refl [simp]: "same_chans s s"
  by (simp add: same_chans_def)

lemma same_chans_trans: "same_chans a b \<Longrightarrow> same_chans b c \<Longrightarrow> same_chans a c"
  by (simp add: same_chans_def)

lemma same_chans_modTask [simp]:
  "(\<And>t. resultNotifyChan (f t) = resultNotifyChan t \<and> taskResult (f t) = taskResult t) \<Longrightarrow>
   same_chans s (modTask i f s)"
  by (simp add: same_chans_def option.map_comp comp_def)

lemma same_chansD:
  assumes "same_chans s s'"
  shows "getTaskState s j = Some t \<Longrightarrow>
      \<exists>t'. getTaskState s' j = Some t' \<and> resultNotifyChan t' = resultNotifyChan t \<and> taskResult t' = taskResult t"
    and "getTaskState s' j = Some t' \<Longrightarrow>
      \<exists>t. getTaskState s j = Some t \<and> resultNotifyChan t = resultNotifyChan t' \<and> taskResult t = taskResult t'"
    and "chanCount s' = chanCount s" and "closedChans s' = closedChans s"
proof -
  have "map_option (\<lambda>t. (resultNotifyChan t, taskResult t)) (getTaskState s' j) =
      map_option (\<lambda>t. (resultNotifyChan t, taskResult t)) (getTaskState s j)"
    using assms by (simp add: same_chans_def)
  then show "getTaskState s j = Some t \<Longrightarrow>
      \<exists>t'. getTaskState s' j = Some t' \<and> resultNotifyChan t' = resultNotifyChan t \<and> taskResult t' = taskResult t"
    and "getTaskState s' j = Some t' \<Longrightarrow>
      \<exists>t. getTaskState s j = Some t \<and> resultNotifyChan t = resultNotifyChan t' \<and> taskResult t = taskResult t'"
    by (cases "getTaskState s' j"; cases "getTaskState s j"; simp)+
qed (use assms in \<open>simp_all add: same_chans_def\<close>)

lemma chan_stepI:
  assumes "chanCount s \<le> chanCount s'" and "set (closedChans s) \<subseteq> set (closedChans s')"
    and "\<And>c. c \<in> set (closedChans s') \<Longrightarrow> c \<in> set (closedChans s) \<or>
        (\<exists>j t. getTaskState s j = Some t \<and> resultNotifyChan t = Some c)"
    and "\<And>j t' c. getTaskState s' j = Some t' \<Longrightarrow> resultNotifyChan t' = Some c \<Longrightarrow>
        (\<exists>t. getTaskState s j = Some t \<and> resultNotifyChan t = Some c) \<or> chanCount s \<le> c"
    and "\<And>j t c. getTaskState s j = Some t \<Longrightarrow> resultNotifyChan t = Some c \<Longrightarrow>
        c \<in> set (closedChans s') \<or>
        (\<exists>t'. getTaskState s' j = Some t' \<and> resultNotifyChan t' = Some c \<and> taskResult t' = taskResult t)"
  shows "chan_step s s'"
  using assms by (simp add: chan_step_def)

lemma chan_stepD:
  assumes "chan_step s s'"
  shows "chanCount s \<le> chanCount s'" and "set (closedChans s) \<subseteq> set (closedChans s')"
    and "c \<in> set (closedChans s') \<Longrightarrow> c \<in> set (closedChans s) \<or>
        (\<exists>j t. getTaskState s j = Some t \<and> resultNotifyChan t = Some c)"
    and "getTaskState s' j = Some t' \<Longrightarrow> resultNotifyChan t' = Some c \<Longrightarrow>
        (\<exists>t. getTaskState s j = Some t \<and> resultNotifyChan t = Some c) \<or> chanCount s \<le> c"
    and "getTaskState s j = Some t \<Longrightarrow> resultNotifyChan t = Some c \<Longrightarrow>
        c \<in> set (closedChans s') \<or>
        (\<exists>t'. getTaskState s' j = Some t' \<and> resultNotifyChan t' = Some c \<and> taskResult t' = taskResult t)"
  using assms by (auto simp: chan_step_def)

lemma chan_step_same:
  assumes "chan_step s s1" and "same_chans s1 s'"
  shows "chan_step s s'"
proof (rule chan_stepI)
  note d = chan_stepD [OF assms(1)] and e = same_chansD [OF assms(2)]
  show "chanCount s \<le> chanCount s'" using d(1) e(3) by simp
  show "set (closedChans s) \<subseteq> set (closedChans s')" using d(2) e(4) by simp
  show "c \<in> set (closedChans s) \<or> (\<exists>j t. getTaskState s j = Some t \<and> resultNotifyChan t = Some c)"
    if "c \<in> set (closedChans s')" for c
    using d(3) that e(4) by simp
  show "(\<exists>t. getTaskState s j = Some t \<and> resultNotifyChan t = Some c) \<or> chanCount s \<le> c"
    if "getTaskState s' j = Some t'" "resultNotifyChan t' = Some c" for j t' c
    using e(2) [OF that(1)] d(4) that(2) by fastforce
  show "c \<in> set (closedChans s') \<or>
      (\<exists>t'. getTaskState s' j = Some t' \<and> resultNotifyChan t' = Some c \<and> taskResult t' = taskResult t)"
    if "getTaskState s j = Some t" "resultNotifyChan t = Some c" for j t c
    using d(5) [OF that] e(1,4) by fastforce
qed

lemma chan_step_refl: "chan_step s s"
  by (rule chan_stepI) auto

lemma same_chans_step: "same_chans s s' \<Longrightarrow> chan_step s s'"
  by (rule chan_step_same [OF chan_step_refl])

lemma same_chans_updateTaskState:
  assumes "updateTaskState L i s = Some (err, s')"
  shows "same_chans s s'"
proof -
  obtain t where t: "getTaskState s i = Some t" using updateTaskState_known [OF assms] by blast
  obtain row d where "s' = (modTask i (\<lambda>t. t\<lparr>dbTaskState := row\<rparr>) s)\<lparr>schedDb := d\<rparr>"
    using updateTaskState_shape [OF assms t] by blast
  then show ?thesis by (simp add: same_chans_def option.map_comp comp_def)
qed

lemma same_chans_setStatusVar [simp]: "same_chans s (setStatusVar i n x s)"
  by (simp add: same_chans_def)

lemma same_chans_startTask:
  assumes "startTask L i s = Some s'"
  shows "same_chans s s'"
proof -
  let ?s1 = "modTask i (\<lambda>t. t\<lparr>isStarted := True, startTime := Some (clockMilli s), isRunning := True\<rparr>) s"
  obtain err where upd: "updateTaskState L i
      (setStatusVar i ''running'' (VBool True) (setStatusVar i ''started'' (VBool True) ?s1)) = Some (err, s')"
    using assms by (auto simp: startTask_def Let_def bind_eq_Some_conv)
  have "same_chans s ?s1" by simp
  then show ?thesis
    using same_chans_updateTaskState [OF upd] same_chans_setStatusVar same_chans_trans by blast
qed

lemma same_chans_finishTask:
  assumes "finishTask L i s = Some s'"
  shows "same_chans s s'"
proof -
  let ?s1 = "modTask i (\<lambda>t. t\<lparr>isRunning := False, stopTime := Some (clockMilli s)\<rparr>) s"
  obtain err where upd: "updateTaskState L i (setStatusVar i ''running'' (VBool False) ?s1) = Some (err, s')"
    using assms by (auto simp: finishTask_def Let_def bind_eq_Some_conv)
  have "same_chans s ?s1" by simp
  then show ?thesis
    using same_chans_updateTaskState [OF upd] same_chans_setStatusVar same_chans_trans by blast
qed

lemma same_chans_storeTask:
  assumes "storeTask L i s = Some (r, s')"
  shows "same_chans s s'"
  using storeTask_shape [OF assms] by (elim disjE exE conjE) (auto simp: same_chans_def)

lemma chan_step_grown: "grown s i t s1 \<Longrightarrow> getTaskState s i = None \<Longrightarrow> chan_step s s1"
  unfolding grown_def chan_step_def by auto

lemma chan_step_setTaskResult:
  assumes "setTaskResult L i r u s = Some s'"
  shows "chan_step s s'"
proof -
  obtain t where t: "getTaskState s i = Some t" using setTaskResult_known [OF assms] by blast
  obtain row where t': "getTaskState s' i = Some (t\<lparr>updatedResult := updatedResult t \<or> u, taskResult := r,
        resultNotifyChan := (if taskResult t = r then resultNotifyChan t else None), dbTaskState := row\<rparr>)"
    using setTaskResult_self [OF assms t] by blast
  note f = setTaskResult_fields [OF assms t]
  have get: "getTaskState s' j = (if j = i then Some (t\<lparr>updatedResult := updatedResult t \<or> u, taskResult := r,
        resultNotifyChan := (if taskResult t = r then resultNotifyChan t else None), dbTaskState := row\<rparr>)
      else getTaskState s j)" for j
    using t' f(1) by simp
  show ?thesis
    unfolding chan_step_def get f(10,11) using t
    by (cases "taskResult t = r"; cases "resultNotifyChan t") (auto split: if_splits)
qed

lemma chan_step_updateChan:
  assumes "GetTaskResultUpdateChan i old s = (c, s')"
  shows "chan_step s s'"
  using assms
  by (auto simp: GetTaskResultUpdateChan_def chan_step_def split: option.splits if_splits)

lemma chan_step_newTaskState:
  assumes "sched_inv s" and "valid_parent s parent cleanup"
    and "\<And>v. vars = Some v \<Longrightarrow> v < length (varHeap s)"
    and "newTaskState L opts parent vars cleanup s = Some (r, s')"
  shows "chan_step s s'"
proof (cases "GetTaskDescriptor (descriptors L) (optName opts)")
  case None
  then show ?thesis using assms(4) same_chans_step by (simp add: newTaskState_def)
next
  case (Some desc)
  from newTaskState_grows [OF assms Some] obtain i t s1 where
    g: "grown s i t s1" "storeTask L i s1 = Some (r, s')" by blast
  have "getTaskState s i = None"
    using g(1) tree_invD(1) [OF sched_invD(1) [OF assms(1)], of i] by (auto simp: grown_def)
  then have "chan_step s s1" by (rule chan_step_grown [OF g(1)])
  then show ?thesis by (rule chan_step_same [OF _ same_chans_storeTask [OF g(2)]])
qed

lemma chan_step_roots [simp]:
  "chan_step s (s'\<lparr>rootTasks := xs\<rparr>) = chan_step s s'"
  "chan_step s (s'\<lparr>rootCleanupTasks := xs\<rparr>) = chan_step s s'"
  by (simp_all add: chan_step_def)

lemma sched_step_chans:
  assumes "sched_step L A s s'" and "sched_inv s"
  shows "chan_step s s'"
  using assms
proof (induction rule: sched_step.induct)
  case (step_new s parent cleanup vars opts r s')
  then show ?case using chan_step_newTaskState by blast
next
  case (step_root opts s i s')
  have "valid_parent s None False" by (simp add: valid_parent_def)
  from chan_step_newTaskState [OF step_root(3) this _ step_root(2)] show ?case by simp
next
  case (step_cleanup opts s i s')
  have "valid_parent s None True" by (simp add: valid_parent_def)
  from chan_step_newTaskState [OF step_cleanup(3) this _ step_cleanup(2)] show ?case by simp
next
  case (step_timeout s i)
  have "same_chans s (fireTimeout i s)"
    unfolding fireTimeout_def by (rule same_chans_trans [OF _ same_chans_setStatusVar]) simp
  then show ?case by (rule same_chans_step)
qed (auto intro: same_chans_startTask same_chans_finishTask chan_step_setTaskResult chan_step_updateChan
     same_chans_step simp: same_chans_def option.map_comp comp_def)

section \<open>Reading and making a channel\<close>

text \<open>
  \<open>GetTaskResultUpdateChan\<close> reads and assigns \<open>resultNotifyChan\<close> under the read lock, which two
  callers can hold together. \<open>updateChanRead\<close> is what a caller finds out first: no channel to
  return, the channel to return, or that one has to be made; \<open>updateChanMake\<close> is the assignment.
\<close>

datatype chan_read = ReadNil | ReadChan nat | ReadMake

definition updateChanRead :: "nat \<Rightarrow> TaskResult \<Rightarrow> scheduler \<Rightarrow> chan_read" where
  "updateChanRead i old s =
     (case getTaskState s i of
        None \<Rightarrow> ReadNil
      | Some t \<Rightarrow>
          if taskResult t \<noteq> old then ReadNil
          else (case resultNotifyChan t of Some c \<Rightarrow> ReadChan c | None \<Rightarrow> ReadMake))"

definition updateChanMake :: "nat \<Rightarrow> scheduler \<Rightarrow> nat \<times> scheduler" where
  "updateChanMake i s =
     (chanCount s,
      (modTask i (\<lambda>t. t\<lparr>resultNotifyChan := Some (chanCount s)\<rparr>) s)\<lparr>chanCount := chanCount s + 1\<rparr>)"

lemma updateChan_sequential:
  "GetTaskResultUpdateChan i old s =
    (case updateChanRead i old s of
       ReadNil \<Rightarrow> (None, s)
     | ReadChan c \<Rightarrow> (Some c, s)
     | ReadMake \<Rightarrow> (let (c, s') = updateChanMake i s in (Some c, s')))"
  by (simp add: GetTaskResultUpdateChan_def updateChanRead_def updateChanMake_def split: option.split)

section \<open>The watcher\<close>

text \<open>
  The watcher of task \<open>i\<close> with \<open>GetTaskResultUpdateChan\<close> in its steps: it takes the read lock and reads
  (\<open>At WatchHead\<close>), makes the channel if there is none (\<open>ToMake\<close>), and returns the channel that is then
  stored (\<open>ToReturn\<close>). The other states are those of \<open>watch_step\<close>.
\<close>

datatype race_pc = At watch_pc | ToMake | ToReturn

inductive self_step :: "nat \<Rightarrow> bool \<Rightarrow> race_pc \<times> scheduler \<Rightarrow> race_pc \<times> scheduler \<Rightarrow> bool" for i :: nat where
  self_nil: "updateChanRead i TaskResultNone s = ReadNil \<Longrightarrow> self_step i ctxDone (At WatchHead, s) (At WatchCheck, s)"
| self_found: "updateChanRead i TaskResultNone s = ReadChan c \<Longrightarrow> self_step i ctxDone (At WatchHead, s) (ToReturn, s)"
| self_none: "updateChanRead i TaskResultNone s = ReadMake \<Longrightarrow> self_step i ctxDone (At WatchHead, s) (ToMake, s)"
| self_make: "updateChanMake i s = (c, s') \<Longrightarrow> self_step i ctxDone (ToMake, s) (ToReturn, s')"
| self_return: "getTaskState s i = Some t \<Longrightarrow> resultNotifyChan t = Some c \<Longrightarrow> self_step i ctxDone (ToReturn, s) (At (WatchWait c), s)"
| self_later: "pc \<noteq> WatchHead \<Longrightarrow> watch_step i ctxDone (pc, s) (pc', s') \<Longrightarrow> self_step i ctxDone (At pc, s) (At pc', s')"

text \<open>
  Beside the watcher run all other goroutines of the test, among them callers of
  \<open>GetTaskResultUpdateChan\<close> for the same task, which share the read lock: \<open>rcMakers\<close> of them have found
  no channel and are about to store one. While somebody holds the read lock, \<open>setTaskResult\<close> waits, which
  is the only writer of the result and the only one that takes the channel away. \<open>rcReplaced\<close> records that one
  of these callers stored its channel over the one the watcher was waiting for. The context of the watcher
  may end at any time.
\<close>

record race_state =
  rcPc :: race_pc
  rcMakers :: nat
  rcReplaced :: bool
  rcSched :: scheduler

definition readLocked :: "race_state \<Rightarrow> bool" where
  "readLocked w \<longleftrightarrow> rcPc w = ToMake \<or> rcPc w = ToReturn \<or> 0 < rcMakers w"

definition unwritten :: "nat \<Rightarrow> scheduler \<Rightarrow> scheduler \<Rightarrow> bool" where
  "unwritten i s s' \<longleftrightarrow> (\<forall>t t'. getTaskState s i = Some t \<and> getTaskState s' i = Some t' \<longrightarrow>
     taskResult t' = taskResult t \<and> (resultNotifyChan t = None \<or> resultNotifyChan t' = resultNotifyChan t))"

definition waitsForCurrent :: "nat \<Rightarrow> race_state \<Rightarrow> bool" where
  "waitsForCurrent i w \<longleftrightarrow>
     (case rcPc w of At (WatchWait c) \<Rightarrow> (case getTaskState (rcSched w) i of None \<Rightarrow> False | Some t \<Rightarrow> resultNotifyChan t = Some c) | _ \<Rightarrow> False)"

inductive watched_step :: "sched_libs \<Rightarrow> nat set \<Rightarrow> nat \<Rightarrow> race_state \<Rightarrow> race_state \<Rightarrow> bool"
  for L :: sched_libs and A :: "nat set" and i :: nat where
  watched_self: "self_step i ctxDone (rcPc w, rcSched w) (pc, s) \<Longrightarrow> watched_step L A i w (w\<lparr>rcPc := pc, rcSched := s\<rparr>)"
| watched_other: "\<lbrakk>sched_step L A (rcSched w) s; readLocked w \<Longrightarrow> unwritten i (rcSched w) s\<rbrakk> \<Longrightarrow> watched_step L A i w (w\<lparr>rcSched := s\<rparr>)"
| watched_reads: "updateChanRead i old (rcSched w) = ReadMake \<Longrightarrow> watched_step L A i w (w\<lparr>rcMakers := rcMakers w + 1\<rparr>)"
| watched_makes: "\<lbrakk>rcMakers w = Suc n; updateChanMake i (rcSched w) = (c, s)\<rbrakk> \<Longrightarrow>
     watched_step L A i w (w\<lparr>rcMakers := n, rcReplaced := rcReplaced w \<or> waitsForCurrent i w, rcSched := s\<rparr>)"

definition watchStart :: "scheduler \<Rightarrow> race_state" where
  "watchStart s = \<lparr>rcPc = At WatchHead, rcMakers = 0, rcReplaced = False, rcSched = s\<rparr>"

inductive_cases watch_stepE: "watch_step i b (pc, s) (pc', s')"

text \<open>A channel a watcher holds is closed, or it is current and the result is still none.\<close>

definition chan_pending :: "nat \<Rightarrow> nat \<Rightarrow> scheduler \<Rightarrow> bool" where
  "chan_pending i c s \<longleftrightarrow> c \<in> set (closedChans s) \<or>
     (\<exists>t. getTaskState s i = Some t \<and> resultNotifyChan t = Some c \<and> taskResult t = TaskResultNone)"

lemma chan_pending_step:
  assumes "chan_step s s'" and "chan_pending i c s"
  shows "chan_pending i c s'"
  using assms(2) chan_stepD(2,5) [OF assms(1)] unfolding chan_pending_def by fastforce

definition watch_inv :: "nat \<Rightarrow> race_state \<Rightarrow> bool" where
  "watch_inv i w \<longleftrightarrow> sched_inv (rcSched w) \<and>
     (\<exists>t. getTaskState (rcSched w) i = Some t \<and>
        (rcPc w = ToMake \<longrightarrow> taskResult t = TaskResultNone) \<and>
        (rcPc w = ToReturn \<longrightarrow> taskResult t = TaskResultNone \<and> resultNotifyChan t \<noteq> None)) \<and>
     (\<forall>c. rcPc w = At (WatchWait c) \<longrightarrow> chan_pending i c (rcSched w) \<or> rcReplaced w)"

lemma sched_step_known:
  assumes "sched_step L A s s'" and "sched_inv s" and "getTaskState s i \<noteq> None"
  shows "getTaskState s' i \<noteq> None"
  using assms(3) tree_invD(1) [OF sched_invD(1) [OF assms(2)], of i] grown_step [OF assms(1,2)]
    tree_invD(1) [OF sched_invD(1) [OF sched_inv_step [OF assms(1,2)]], of i] by simp

text \<open>Storing a channel, over an earlier one or not, keeps the invariant of the scheduler.\<close>

lemma updateChanMake_task:
  "getTaskState (snd (updateChanMake i s)) j =
     (if j = i then map_option (\<lambda>t. t\<lparr>resultNotifyChan := Some (chanCount s)\<rparr>) (getTaskState s i) else getTaskState s j)"
  "closedChans (snd (updateChanMake i s)) = closedChans s"
  by (simp_all add: updateChanMake_def)

lemma sched_inv_updateChanMake:
  assumes "sched_inv s" and "getTaskState s i = Some t"
  shows "sched_inv (snd (updateChanMake i s))"
proof -
  let ?s' = "snd (updateChanMake i s)" and ?t = "t\<lparr>resultNotifyChan := Some (chanCount s)\<rparr>"
  have only: "only_task i s ?s'" using assms(2) by (simp add: updateChanMake_def only_task_def same_tree_def taskStatic_def)
  have t': "getTaskState ?s' i = Some ?t" using assms(2) by (simp add: updateChanMake_task)
  note ci = sched_invD(4) [OF assms(1), unfolded chan_inv_def]
  have count: "chanCount ?s' = Suc (chanCount s)" by (simp add: updateChanMake_def)
  have fresh: "resultNotifyChan u \<noteq> Some (chanCount s)" if "getTaskState s j = Some u" for j u
    using ci that less_irrefl_nat by blast
  have "chan_inv ?s'"
    unfolding chan_inv_def updateChanMake_task count
    using ci by (auto simp: less_Suc_eq split: if_splits dest: fresh)
  then show ?thesis
    using sched_invD(6) [OF assms] by (intro sched_inv_only_task [OF assms(1) only assms(2) t']) (auto simp: life_inv_def)
qed

lemma watch_inv_self:
  assumes "self_step i b (rcPc w, rcSched w) (pc, s)" and "watch_inv i w"
  shows "watch_inv i (w\<lparr>rcPc := pc, rcSched := s\<rparr>)"
proof -
  obtain t where t: "sched_inv (rcSched w)" "getTaskState (rcSched w) i = Some t"
    "rcPc w = ToMake \<longrightarrow> taskResult t = TaskResultNone" "rcPc w = ToReturn \<longrightarrow> taskResult t = TaskResultNone \<and> resultNotifyChan t \<noteq> None"
    using assms(2) unfolding watch_inv_def by blast
  from assms(1) show ?thesis
  proof (cases rule: self_step.cases)
    case (self_make c)
    then have s: "s = snd (updateChanMake i (rcSched w))" by simp
    show ?thesis
      using sched_inv_updateChanMake [OF t(1,2)] self_make(1,2) t(2,3) by (simp add: watch_inv_def s updateChanMake_task)
  next
    case (self_later pc0 pc')
    from self_later(4) show ?thesis
      by (rule watch_stepE) (use self_later t in \<open>auto simp: watch_inv_def\<close>)
  qed (use t in \<open>auto simp: watch_inv_def chan_pending_def updateChanRead_def split: option.splits if_splits\<close>)
qed

lemma watch_inv_other:
  assumes "sched_step L A (rcSched w) s" and "readLocked w \<Longrightarrow> unwritten i (rcSched w) s" and "watch_inv i w"
  shows "watch_inv i (w\<lparr>rcSched := s\<rparr>)"
proof -
  have inv: "sched_inv (rcSched w)" using assms(3) by (simp add: watch_inv_def)
  obtain t t' where t: "getTaskState (rcSched w) i = Some t" "getTaskState s i = Some t'"
    using sched_step_known [OF assms(1) inv, of i] assms(3) unfolding watch_inv_def by blast
  have "chan_pending i c s" if "chan_pending i c (rcSched w)" for c
    using chan_pending_step [OF sched_step_chans [OF assms(1) inv]] that by blast
  then show ?thesis
    using assms(2,3) t sched_inv_step [OF assms(1) inv] unfolding watch_inv_def readLocked_def unwritten_def by auto
qed

lemma watch_inv_step:
  assumes "watched_step L A i w w'" and "watch_inv i w"
  shows "watch_inv i w'"
  using assms
proof (induction rule: watched_step.induct)
  case (watched_makes w n c s)
  then have s: "s = snd (updateChanMake i (rcSched w))" by simp
  obtain t where t: "sched_inv (rcSched w)" "getTaskState (rcSched w) i = Some t" using watched_makes(3) unfolding watch_inv_def by blast
  have "chan_pending i d s \<or> waitsForCurrent i w" if "rcPc w = At (WatchWait d)" "chan_pending i d (rcSched w)" for d
    using that t(2) by (auto simp: chan_pending_def waitsForCurrent_def s updateChanMake_task)
  then show ?case
    using watched_makes(3) t sched_inv_updateChanMake [OF t] unfolding watch_inv_def s by (auto simp: updateChanMake_task)
qed (auto intro: watch_inv_self watch_inv_other, simp add: watch_inv_def)

lemma watch_inv_steps: "(watched_step L A i)\<^sup>*\<^sup>* w w' \<Longrightarrow> watch_inv i w \<Longrightarrow> watch_inv i w'"
  by (induction rule: rtranclp_induct) (auto intro: watch_inv_step)

lemma GetTaskResultUpdateChan_nil:
  "getTaskState s i = Some t \<Longrightarrow> taskResult t \<noteq> old \<Longrightarrow> GetTaskResultUpdateChan i old s = (None, s)"
  by (simp add: GetTaskResultUpdateChan_def)

text \<open>C36. In whatever state of an interleaved run the task has a result: unless it has returned, or another caller
  inside the read lock has stored its own channel over the one the watcher waits for, the watcher goes on by its own
  steps to the cancellation of the task context, even if its own context is never done. The steps are those
  of \<open>GetTaskResultUpdateChan\<close>: reading, making and returning a channel, with any number of concurrent callers.
\<close>

theorem watcher_never_misses:
  assumes "sched_inv s0" and "getTaskState s0 i \<noteq> None"
    and "(watched_step L A i)\<^sup>*\<^sup>* (watchStart s0) w" and "\<not> rcReplaced w"
    and "getTaskState (rcSched w) i = Some t" and "taskResult t \<noteq> TaskResultNone"
    and "\<forall>b. rcPc w \<noteq> At (WatchReturned b)"
  shows "(self_step i False)\<^sup>*\<^sup>* (rcPc w, rcSched w) (At (WatchReturned True), rcSched w)"
proof -
  have inv: "watch_inv i w"
    by (rule watch_inv_steps [OF assms(3)]) (use assms(1,2) in \<open>auto simp: watch_inv_def watchStart_def\<close>)
  then have wait: "rcPc w = At (WatchWait c) \<Longrightarrow> c \<in> set (closedChans (rcSched w))" for c
    using assms(4-6) by (auto simp: watch_inv_def chan_pending_def)
  have check: "self_step i False (At WatchCheck, rcSched w) (At (WatchReturned True), rcSched w)"
    by (rule self_later [OF _ watch_cancel [OF assms(5)]]) (use assms(6) in \<open>simp_all add: GetTaskStatus_def\<close>)
  have "(self_step i False)\<^sup>*\<^sup>* (rcPc w, rcSched w) (At WatchCheck, rcSched w)"
  proof (cases "rcPc w")
    case (At pc)
    show ?thesis
    proof (cases pc)
      case WatchHead
      have "updateChanRead i TaskResultNone (rcSched w) = ReadNil" using assms(5,6) by (simp add: updateChanRead_def)
      then show ?thesis using self_nil At WatchHead by (metis r_into_rtranclp)
    next
      case (WatchWait c)
      have "watch_step i False (WatchWait c, rcSched w) (WatchCheck, rcSched w)" using watch_woken [OF wait] At WatchWait by simp
      then show ?thesis using self_later [of "WatchWait c"] At WatchWait by (metis r_into_rtranclp watch_pc.distinct(1))
    qed (use assms(7) At in auto)
  qed (use inv assms(5,6) in \<open>auto simp: watch_inv_def\<close>)
  then show ?thesis using check by (rule rtranclp.rtrancl_into_rtrancl)
qed

definition watch_demo :: "scheduler \<Rightarrow> scheduler" where
  "watch_demo s = the (setTaskResult (quiet_libs (ExecReturned None)) 1 TaskResultSuccess True s)"

lemma watch_demo_step:
  assumes "getTaskState s 1 = Some t" and "dbTaskState t = None"
  shows "setTaskResult (quiet_libs (ExecReturned None)) 1 TaskResultSuccess True s = Some (watch_demo s)"
    and "\<exists>u. getTaskState (watch_demo s) 1 = Some u \<and> taskResult u = TaskResultSuccess"
proof -
  obtain s' where s': "setTaskResult (quiet_libs (ExecReturned None)) 1 TaskResultSuccess True s = Some s'"
    using assms that by (cases "taskResult t = TaskResultSuccess") (auto simp: setTaskResult_def updateTaskState_def Let_def)
  then show "setTaskResult (quiet_libs (ExecReturned None)) 1 TaskResultSuccess True s = Some (watch_demo s)"
    by (simp add: watch_demo_def)
  from setTaskResult_self [OF this assms(1)]
  show "\<exists>u. getTaskState (watch_demo s) 1 = Some u \<and> taskResult u = TaskResultSuccess" by auto
qed

lemma two_sleeps_first:
  "\<exists>t. getTaskState two_sleeps 1 = Some t \<and> dbTaskState t = None \<and> taskResult t = TaskResultNone \<and>
     resultNotifyChan t = None"
proof -
  obtain t where t: "getTaskState two_sleeps 1 = Some t" "dbTaskState t = None" "taskResult t = TaskResultNone"
    using two_sleeps_tasks(6) [of 1] by blast
  moreover have "map_option resultNotifyChan (getTaskState two_sleeps 1) = Some None" by code_simp
  ultimately show ?thesis by simp
qed

theorem watcher_never_misses_witness:
  "\<exists>c w. (watched_step (quiet_libs (ExecReturned None)) {1} 1)\<^sup>*\<^sup>* (watchStart two_sleeps) w \<and> rcPc w = At (WatchWait c) \<and>
     map_option taskResult (getTaskState (rcSched w) 1) = Some TaskResultSuccess \<and>
     (self_step 1 False)\<^sup>*\<^sup>* (rcPc w, rcSched w) (At (WatchReturned True), rcSched w)"
proof -
  let ?L = "quiet_libs (ExecReturned None)"
  obtain t where t: "getTaskState two_sleeps 1 = Some t" "dbTaskState t = None" "taskResult t = TaskResultNone"
    "resultNotifyChan t = None" using two_sleeps_first by blast
  let ?c = "chanCount two_sleeps" and ?s1 = "snd (updateChanMake 1 two_sleeps)"
  have read: "updateChanRead 1 TaskResultNone two_sleeps = ReadMake" using t by (simp add: updateChanRead_def)
  have t1: "getTaskState ?s1 1 = Some (t\<lparr>resultNotifyChan := Some ?c\<rparr>)" using t(1) by (simp add: updateChanMake_task)
  have "dbTaskState (t\<lparr>resultNotifyChan := Some ?c\<rparr>) = None" using t(2) by simp
  note r = watch_demo_step [OF t1 this]
  let ?w = "\<lambda>pc s. \<lparr>rcPc = pc, rcMakers = 0, rcReplaced = False, rcSched = s\<rparr>"
  have "watched_step ?L {1} 1 (watchStart two_sleeps) (?w ToMake two_sleeps)"
    using watched_self [where w = "watchStart two_sleeps" and pc = ToMake and s = two_sleeps] self_none [OF read] by (simp add: watchStart_def)
  moreover have "watched_step ?L {1} 1 (?w ToMake two_sleeps) (?w ToReturn ?s1)"
    using watched_self [where w = "?w ToMake two_sleeps" and pc = ToReturn and s = ?s1] self_make [OF prod.collapse [symmetric]] by simp
  moreover have "watched_step ?L {1} 1 (?w ToReturn ?s1) (?w (At (WatchWait ?c)) ?s1)"
    using watched_self [where w = "?w ToReturn ?s1" and pc = "At (WatchWait ?c)" and s = ?s1] self_return [OF t1] by simp
  moreover have "watched_step ?L {1} 1 (?w (At (WatchWait ?c)) ?s1) (?w (At (WatchWait ?c)) (watch_demo ?s1))"
    using watched_other [where w = "?w (At (WatchWait ?c)) ?s1" and s = "watch_demo ?s1"] step_report [OF _ r(1)]
    by (simp add: readLocked_def)
  ultimately have run: "(watched_step ?L {1} 1)\<^sup>*\<^sup>* (watchStart two_sleeps) (?w (At (WatchWait ?c)) (watch_demo ?s1))"
    by (meson rtranclp.rtrancl_into_rtrancl r_into_rtranclp)
  obtain u where u: "getTaskState (watch_demo ?s1) 1 = Some u" "taskResult u = TaskResultSuccess" using r(2) by auto
  have "(self_step 1 False)\<^sup>*\<^sup>* (At (WatchWait ?c), watch_demo ?s1) (At (WatchReturned True), watch_demo ?s1)"
    using watcher_never_misses [OF two_sleeps_tasks(1) _ run] t(1) u by simp
  then show ?thesis using run u by (intro exI [of _ ?c] exI conjI) (assumption, simp_all)
qed

section \<open>Two callers at once\<close>

text \<open>A channel that is open and current nowhere stays so.\<close>

definition orphan :: "nat \<Rightarrow> scheduler \<Rightarrow> bool" where
  "orphan c s \<longleftrightarrow> c < chanCount s \<and> c \<notin> set (closedChans s) \<and>
     (\<forall>j t. getTaskState s j = Some t \<longrightarrow> resultNotifyChan t \<noteq> Some c)"

lemma orphan_step:
  assumes "chan_step s s'" and "orphan c s"
  shows "orphan c s'"
  using assms(2) chan_stepD(1,3,4) [OF assms(1)] unfolding orphan_def by fastforce

lemma orphan_steps:
  assumes "sched_steps L A s s'" and "sched_inv s" and "orphan c s"
  shows "orphan c s'"
  using assms(1)
proof (induction rule: rtranclp_induct)
  case (step s1 s2)
  then show ?case
    using orphan_step [OF sched_step_chans] sched_inv_steps [OF step(1) assms(2)] by blast
qed (rule assms(3))

lemma updateChanMake_twice:
  assumes "sched_inv s" and "getTaskState s i = Some t" and "resultNotifyChan t = None"
  shows "sched_inv (snd (updateChanMake i (snd (updateChanMake i s))))"
    and "orphan (fst (updateChanMake i s)) (snd (updateChanMake i (snd (updateChanMake i s))))"
proof -
  let ?s2 = "snd (updateChanMake i (snd (updateChanMake i s)))"
  have get: "getTaskState ?s2 j = (if j = i then Some (t\<lparr>resultNotifyChan := Some (chanCount s + 1)\<rparr>)
      else getTaskState s j)" for j
    using assms(2) by (simp add: updateChanMake_def)
  note ci = sched_invD(4) [OF assms(1), unfolded chan_inv_def]
  show "orphan (fst (updateChanMake i s)) ?s2"
    unfolding orphan_def get using ci by (auto simp: updateChanMake_def split: if_splits)
  obtain u where "getTaskState (snd (updateChanMake i s)) i = Some u" using assms(2) by (simp add: updateChanMake_task)
  then show "sched_inv ?s2" using sched_inv_updateChanMake [OF sched_inv_updateChanMake [OF assms(1,2)]] by blast
qed

text \<open>Two watchers of a task without a channel can both decide to make one before either stores
  it. If the first has returned with its channel when the second stores its own, the first channel is overwritten: it is never closed, whatever happens to the task
  afterwards, so the first watcher waits until its own context is done.
\<close>

theorem GetTaskResultUpdateChan_race:
  assumes "sched_inv s" and "getTaskState s i = Some t"
    and "taskResult t = TaskResultNone" and "resultNotifyChan t = None"
    and "updateChanMake i s = (c1, s1)" and "updateChanMake i s1 = (c2, s2)"
    and "sched_steps L A s2 s'"
  shows "updateChanRead i TaskResultNone s = ReadMake \<and> c1 \<noteq> c2 \<and> c1 \<notin> set (closedChans s') \<and>
    (\<nexists>q. watch_step i False (WatchWait c1, s') q)"
proof -
  have "orphan c1 s2" "sched_inv s2" using updateChanMake_twice [OF assms(1,2,4)] assms(5,6) by simp_all
  then have "orphan c1 s'" using orphan_steps [OF assms(7)] by blast
  then have nc: "c1 \<notin> set (closedChans s')" by (simp add: orphan_def)
  have "c1 \<noteq> c2" using assms(5,6) by (auto simp: updateChanMake_def)
  moreover have "\<not> watch_step i False (WatchWait c1, s') q" for q
    using nc by (cases q) (auto elim: watch_stepE)
  ultimately show ?thesis using nc assms(2,3,4) by (simp add: updateChanRead_def)
qed

theorem GetTaskResultUpdateChan_race_witness:
  "let c1 = fst (updateChanMake 1 two_sleeps);
       s2 = snd (updateChanMake 1 (snd (updateChanMake 1 two_sleeps)))
   in map_option taskResult (getTaskState (watch_demo s2) 1) = Some TaskResultSuccess \<and>
      c1 \<notin> set (closedChans (watch_demo s2)) \<and>
      (\<nexists>q. watch_step 1 False (WatchWait c1, watch_demo s2) q)"
proof -
  obtain t where t: "getTaskState two_sleeps 1 = Some t" "dbTaskState t = None" "taskResult t = TaskResultNone"
    "resultNotifyChan t = None" using two_sleeps_first by blast
  let ?s1 = "snd (updateChanMake 1 two_sleeps)"
  let ?s2 = "snd (updateChanMake 1 ?s1)"
  obtain t2 where t2: "getTaskState ?s2 1 = Some t2" "dbTaskState t2 = None"
    using t by (simp add: updateChanMake_def)
  note w = watch_demo_step [OF t2]
  have "sched_steps (quiet_libs (ExecReturned None)) {1} ?s2 (watch_demo ?s2)"
    using step_report [OF _ w(1)] by blast
  from GetTaskResultUpdateChan_race [OF two_sleeps_tasks(1) t(1,3,4) prod.collapse [symmetric] prod.collapse [symmetric] this]
  show ?thesis using w(2) by (auto simp: Let_def)
qed

end
