(* ===== verification/FlowGroup.thy ===== *)
theory FlowGroup
  imports FlowTasks TaskWatch
begin

text \<open>
  \<open>Execute\<close> of \<open>run_tasks_concurrent\<close> and \<open>run_task_matrix\<close>: a goroutine per child task, a watcher
  per child that reports results on a buffered channel, and the main loop that counts the reports
  against the limits. All of them are steps of one relation that interleaves them with the rest of
  the test run. The theory shows what the result of the group says about its children, that no
  report is lost, and that a matrix without \<open>runConcurrent\<close> runs one child at a time, in order.
\<close>

section \<open>Limits and counts\<close>

text \<open>
  What the two tasks have in common. \<open>gcSequential\<close> is the matrix that chains its children by wait
  channels, \<open>gcCheckContext\<close> its look at the context before a child starts, \<open>gcUndecided\<close> the result
  if all children end before a limit is reached.
\<close>

record group_config =
  gcTasks :: "nat list"
  gcSucceedTaskCount :: u64
  gcFailTaskCount :: u64
  gcUndecided :: TaskResult
  gcSequential :: bool
  gcCheckContext :: bool

definition concurrentGroup :: "ConcurrentConfig \<Rightarrow> nat list \<Rightarrow> group_config" where
  "concurrentGroup c js =
     \<lparr>gcTasks = js, gcSucceedTaskCount = ccSucceedTaskCount c, gcFailTaskCount = ccFailTaskCount c,
      gcUndecided = (if ccFailOnUndecided c then TaskResultFailure else TaskResultSuccess),
      gcSequential = False, gcCheckContext = False\<rparr>"

definition matrixGroup :: "MatrixConfig \<Rightarrow> nat list \<Rightarrow> group_config" where
  "matrixGroup c js =
     \<lparr>gcTasks = js, gcSucceedTaskCount = mcSucceedTaskCount c, gcFailTaskCount = mcFailTaskCount c,
      gcUndecided = (if mcFailOnUndecided c \<and> length js > 0 then TaskResultFailure else TaskResultSuccess),
      gcSequential = (\<not> mcRunConcurrent c), gcCheckContext = True\<rparr>"

definition successLimit :: "group_config \<Rightarrow> u64" where
  "successLimit g = (if gcSucceedTaskCount g = 0 then of_nat (length (gcTasks g)) else gcSucceedTaskCount g)"

definition failureLimit :: "group_config \<Rightarrow> u64" where
  "failureLimit g = (if gcFailTaskCount g = 0 then of_nat (length (gcTasks g)) else gcFailTaskCount g)"

text \<open>Reading the result map yields the zero value, no result, for a task without an entry.\<close>

definition resultOf :: "(nat \<times> TaskResult) list \<Rightarrow> nat \<Rightarrow> TaskResult" where
  "resultOf m j = (case map_of m j of None \<Rightarrow> TaskResultNone | Some r \<Rightarrow> r)"

fun countResults :: "nat list \<Rightarrow> (nat \<times> TaskResult) list \<Rightarrow> u64 \<times> u64 \<times> u64 \<Rightarrow> u64 \<times> u64 \<times> u64" where
  "countResults [] m (sc, fc, pc) = (sc, fc, pc)"
| "countResults (j # js) m (sc, fc, pc) =
     (case resultOf m j of
        TaskResultSuccess \<Rightarrow> countResults js m (sc + 1, fc, pc)
      | TaskResultFailure \<Rightarrow> countResults js m (sc, fc + 1, pc)
      | TaskResultNone \<Rightarrow> countResults js m (sc, fc, pc + 1))"

text \<open>The decision after an update of the result map.\<close>

definition groupDecide :: "group_config \<Rightarrow> (nat \<times> TaskResult) list \<Rightarrow> TaskResult option" where
  "groupDecide g m =
     (let (successCount, failureCount, pendingCount) = countResults (gcTasks g) m (0, 0, 0)
      in if successCount \<ge> successLimit g then Some TaskResultSuccess
         else if failureCount \<ge> failureLimit g then Some TaskResultFailure
         else None)"

section \<open>Goroutines\<close>

text \<open>
  The watcher of a child (\<open>watchChildTask\<close>). Every state carries the result reported last; a state
  between the wait and the end of the loop body also carries \<open>taskActive\<close>.
\<close>

datatype child_watch =
    ChildUnwatched
  | ChildHead TaskResult
  | ChildWait TaskResult nat
  | ChildCheck TaskResult bool
  | ChildSend TaskResult TaskResult bool
  | ChildEnded TaskResult

inductive child_step ::
    "nat \<Rightarrow> bool \<Rightarrow> child_watch \<times> scheduler \<times> (nat \<times> TaskResult) list \<Rightarrow>
     child_watch \<times> scheduler \<times> (nat \<times> TaskResult) list \<Rightarrow> bool"
  for j :: nat and ctxDone :: bool where
  child_nochan: "GetTaskResultUpdateChan j old s = (None, s') \<Longrightarrow>
     child_step j ctxDone (ChildHead old, s, q) (ChildCheck old True, s', q)"
| child_chan: "GetTaskResultUpdateChan j old s = (Some c, s') \<Longrightarrow>
     child_step j ctxDone (ChildHead old, s, q) (ChildWait old c, s', q)"
| child_done: "ctxDone \<Longrightarrow> child_step j ctxDone (ChildWait old c, s, q) (ChildCheck old False, s, q)"
| child_timer: "child_step j ctxDone (ChildWait old c, s, q) (ChildCheck old True, s, q)"
| child_woken: "c \<in> set (closedChans s) \<Longrightarrow>
     child_step j ctxDone (ChildWait old c, s, q) (ChildCheck old True, s, q)"
| child_same: "getTaskState s j = Some t \<Longrightarrow> stResult (GetTaskStatus t) = old \<Longrightarrow>
     child_step j ctxDone (ChildCheck old active, s, q)
       (if active \<and> stIsRunning (GetTaskStatus t) then ChildHead old else ChildEnded old, s, q)"
| child_changed: "getTaskState s j = Some t \<Longrightarrow> stResult (GetTaskStatus t) \<noteq> old \<Longrightarrow>
     child_step j ctxDone (ChildCheck old active, s, q)
       (ChildSend old (stResult (GetTaskStatus t)) (active \<and> stIsRunning (GetTaskStatus t)), s, q)"
| child_send: "length q < 100 \<Longrightarrow>
     child_step j ctxDone (ChildSend old r active, s, q)
       (if active then ChildHead r else ChildEnded r, s, q @ [(j, r)])"

inductive_cases child_stepE: "child_step j b (w, s, q) (w', s', q')"

text \<open>
  A goroutine waits for its turn, executes its task, or has ended. The main goroutine is in its
  \<open>select\<close> loop, waits for the goroutines, or has returned.
\<close>

datatype go_pc = GoWaiting | GoExecuting | GoEnded

datatype main_pc = MainSelect | MainWait | MainReturned go_error

text \<open>
  \<open>grVerdict\<close> is the result the main goroutine has passed to \<open>SetResult\<close>, \<open>grClosed\<close> the positions of the
  children whose wait channel is closed, \<open>grCtxErr\<close> the error of the context of the task and
  \<open>grTaskDone\<close> whether the context of the children is done.
\<close>

record group_state =
  grSched :: scheduler
  grChan :: "(nat \<times> TaskResult) list"
  grMap :: "(nat \<times> TaskResult) list"
  grGo :: "go_pc list"
  grClosed :: "nat list"
  grWatch :: "child_watch list"
  grMain :: main_pc
  grVerdict :: "TaskResult option"
  grCtxErr :: go_error
  grTaskDone :: bool

definition groupStart :: "group_config \<Rightarrow> scheduler \<Rightarrow> group_state" where
  "groupStart g s =
     \<lparr>grSched = s, grChan = [], grMap = [], grGo = replicate (length (gcTasks g)) GoWaiting, grClosed = [],
      grWatch = replicate (length (gcTasks g)) ChildUnwatched, grMain = MainSelect, grVerdict = None,
      grCtxErr = None, grTaskDone = False\<rparr>"

definition goReady :: "group_config \<Rightarrow> group_state \<Rightarrow> nat \<Rightarrow> bool" where
  "goReady g st k \<longleftrightarrow> \<not> gcSequential g \<or> k = 0 \<or> k - 1 \<in> set (grClosed st)"

definition allEnded :: "group_state \<Rightarrow> bool" where
  "allEnded st \<longleftrightarrow> (\<forall>pc\<in>set (grGo st). pc = GoEnded)"

text \<open>
  What the rest of the run does not do: start a stopped child again or change its result.
  \<open>ExecuteTask\<close> runs a task once and settles its result before it marks it as stopped.
\<close>

definition keeps_stopped :: "nat list \<Rightarrow> scheduler \<Rightarrow> scheduler \<Rightarrow> bool" where
  "keeps_stopped js s s' \<longleftrightarrow>
     (\<forall>j\<in>set js. \<forall>t. getTaskState s j = Some t \<longrightarrow>
        (\<exists>t'. getTaskState s' j = Some t' \<and> (isStarted t \<longrightarrow> isStarted t') \<and>
           (isStarted t \<and> \<not> isRunning t \<longrightarrow> \<not> isRunning t' \<and> taskResult t' = taskResult t)))"

inductive group_step :: "sched_libs \<Rightarrow> nat set \<Rightarrow> nat \<Rightarrow> group_config \<Rightarrow> group_state \<Rightarrow> group_state \<Rightarrow> bool"
  for L :: sched_libs and A :: "nat set" and i :: nat and g :: group_config where
  group_env: "sched_step L A (grSched st) s' \<Longrightarrow> keeps_stopped (gcTasks g) (grSched st) s' \<Longrightarrow>
     group_step L A i g st (st\<lparr>grSched := s'\<rparr>)"
| group_ctx: "grCtxErr st = None \<Longrightarrow> group_step L A i g st (st\<lparr>grCtxErr := Some e, grTaskDone := True\<rparr>)"
| go_exec: "k < length (gcTasks g) \<Longrightarrow> grGo st ! k = GoWaiting \<Longrightarrow> goReady g st k \<Longrightarrow>
     \<not> (gcCheckContext g \<and> grTaskDone st) \<Longrightarrow> group_step L A i g st (st\<lparr>grGo := (grGo st)[k := GoExecuting]\<rparr>)"
| go_abandon: "k < length (gcTasks g) \<Longrightarrow> grGo st ! k = GoWaiting \<Longrightarrow> gcSequential g \<Longrightarrow> 0 < k \<Longrightarrow>
     grCtxErr st \<noteq> None \<Longrightarrow> group_step L A i g st (st\<lparr>grGo := (grGo st)[k := GoEnded]\<rparr>)"
| go_skip: "k < length (gcTasks g) \<Longrightarrow> grGo st ! k = GoWaiting \<Longrightarrow> goReady g st k \<Longrightarrow>
     gcCheckContext g \<Longrightarrow> grTaskDone st \<Longrightarrow>
     group_step L A i g st (st\<lparr>grGo := (grGo st)[k := GoEnded], grClosed := k # grClosed st\<rparr>)"
| go_spawn: "k < length (gcTasks g) \<Longrightarrow> grGo st ! k = GoExecuting \<Longrightarrow> grWatch st ! k = ChildUnwatched \<Longrightarrow>
     getTaskState (grSched st) (gcTasks g ! k) = Some t \<Longrightarrow> isStarted t \<Longrightarrow>
     group_step L A i g st (st\<lparr>grWatch := (grWatch st)[k := ChildHead TaskResultNone]\<rparr>)"
| go_end: "k < length (gcTasks g) \<Longrightarrow> grGo st ! k = GoExecuting \<Longrightarrow>
     getTaskState (grSched st) (gcTasks g ! k) = Some t \<Longrightarrow> isStarted t \<Longrightarrow> \<not> isRunning t \<Longrightarrow>
     group_step L A i g st (st\<lparr>grGo := (grGo st)[k := GoEnded], grClosed := k # grClosed st\<rparr>)"
| group_watch: "k < length (gcTasks g) \<Longrightarrow>
     child_step (gcTasks g ! k) (grTaskDone st) (grWatch st ! k, grSched st, grChan st) (w, s', q) \<Longrightarrow>
     group_step L A i g st (st\<lparr>grWatch := (grWatch st)[k := w], grSched := s', grChan := q\<rparr>)"
| main_ctx: "grMain st = MainSelect \<Longrightarrow> grCtxErr st = Some e \<Longrightarrow>
     group_step L A i g st (st\<lparr>grMain := MainReturned (Some e), grTaskDone := True\<rparr>)"
| main_update: "grMain st = MainSelect \<Longrightarrow> grChan st = (j, r) # q \<Longrightarrow>
     groupDecide g (AList.update j r (grMap st)) = None \<Longrightarrow>
     group_step L A i g st (st\<lparr>grChan := q, grMap := AList.update j r (grMap st)\<rparr>)"
| main_decide: "grMain st = MainSelect \<Longrightarrow> grChan st = (j, r) # q \<Longrightarrow>
     groupDecide g (AList.update j r (grMap st)) = Some v \<Longrightarrow> ctxSetResult L i v (grSched st) = Some s' \<Longrightarrow>
     group_step L A i g st (st\<lparr>grChan := q, grMap := AList.update j r (grMap st), grSched := s',
       grVerdict := Some v, grMain := MainWait, grTaskDone := True\<rparr>)"
| main_complete: "grMain st = MainSelect \<Longrightarrow> allEnded st \<Longrightarrow>
     ctxSetResult L i (gcUndecided g) (grSched st) = Some s' \<Longrightarrow>
     group_step L A i g st (st\<lparr>grSched := s', grVerdict := Some (gcUndecided g), grMain := MainWait, grTaskDone := True\<rparr>)"
| main_return: "grMain st = MainWait \<Longrightarrow> allEnded st \<Longrightarrow>
     group_step L A i g st (st\<lparr>grMain := MainReturned None\<rparr>)"

abbreviation group_steps :: "sched_libs \<Rightarrow> nat set \<Rightarrow> nat \<Rightarrow> group_config \<Rightarrow> group_state \<Rightarrow> group_state \<Rightarrow> bool" where
  "group_steps L A i g \<equiv> (group_step L A i g)\<^sup>*\<^sup>*"

section \<open>Counting\<close>

definition reported :: "nat list \<Rightarrow> (nat \<times> TaskResult) list \<Rightarrow> TaskResult \<Rightarrow> nat" where
  "reported js m r = length (filter (\<lambda>j. resultOf m j = r) js)"

lemma countResults_eq:
  "countResults js m (sc, fc, pc) =
     (sc + of_nat (reported js m TaskResultSuccess), fc + of_nat (reported js m TaskResultFailure),
      pc + of_nat (reported js m TaskResultNone))"
  by (induction js arbitrary: sc fc pc) (auto simp: reported_def add.assoc split: TaskResult.split)

lemma reported_le: "reported js m r \<le> length js"
  by (simp add: reported_def)

lemma reported_all: "reported js m r = length js \<longleftrightarrow> (\<forall>j\<in>set js. resultOf m j = r)"
  using length_filter_less [of _ js "\<lambda>j. resultOf m j = r"] by (auto simp: reported_def) blast

lemma reported_ge: "length js \<le> reported js m r \<longleftrightarrow> (\<forall>j\<in>set js. resultOf m j = r)"
  using reported_all [of js m r] reported_le [of js m r] by auto

lemma reported_some: "0 < reported js m r \<longleftrightarrow> (\<exists>j\<in>set js. resultOf m j = r)"
  by (auto simp: reported_def filter_empty_conv)

lemma unat_of_nat64: "n < 2 ^ 64 \<Longrightarrow> unat (of_nat n :: u64) = n"
  by (simp add: unat_of_nat take_bit_nat_eq_self)

lemma u64_le_iff: "n < 2 ^ 64 \<Longrightarrow> (w :: u64) \<le> of_nat n \<longleftrightarrow> unat w \<le> n"
  using unat_of_nat64 [of n] by (simp only: word_le_nat_alt)

text \<open>The limits as numbers, for a group of fewer than \<open>2 ^ 64\<close> children.\<close>

lemma groupDecide_nat:
  assumes "length (gcTasks g) < 2 ^ 64"
  shows "groupDecide g m =
    (if unat (successLimit g) \<le> reported (gcTasks g) m TaskResultSuccess then Some TaskResultSuccess
     else if unat (failureLimit g) \<le> reported (gcTasks g) m TaskResultFailure then Some TaskResultFailure
     else None)"
proof -
  have "reported (gcTasks g) m r < 2 ^ 64" for r
    using reported_le [of "gcTasks g" m r] assms by (rule le_less_trans)
  from u64_le_iff [OF this] show ?thesis
    by (simp only: groupDecide_def countResults_eq Let_def prod.case add_0_left)
qed

lemma unat_limit:
  assumes "length (gcTasks g) < 2 ^ 64"
  shows "gcSucceedTaskCount g = 0 \<Longrightarrow> unat (successLimit g) = length (gcTasks g)"
    and "gcFailTaskCount g = 0 \<Longrightarrow> unat (failureLimit g) = length (gcTasks g)"
  using unat_of_nat64 [OF assms] by (simp_all only: successLimit_def failureLimit_def if_True simp_thms)

section \<open>The verdict\<close>

text \<open>
  While the main loop runs, no limit is reached; when it has ended, the result is the decision on
  the map it has then, or the result for undecided groups if all children ended first.
\<close>

definition undecided :: "group_config \<Rightarrow> (nat \<times> TaskResult) list \<Rightarrow> bool" where
  "undecided g m \<longleftrightarrow> m = [] \<or> groupDecide g m = None"

definition verdict_inv :: "group_config \<Rightarrow> group_state \<Rightarrow> bool" where
  "verdict_inv g st \<longleftrightarrow>
     (case grMain st of
        MainSelect \<Rightarrow> grVerdict st = None \<and> undecided g (grMap st)
      | MainReturned (Some e) \<Rightarrow> grVerdict st = None \<and> grCtxErr st = Some e
      | _ \<Rightarrow> grTaskDone st \<and> (\<exists>v. grVerdict st = Some v \<and>
          (groupDecide g (grMap st) = Some v \<or> allEnded st \<and> v = gcUndecided g \<and> undecided g (grMap st))))"

lemma allEnded_keeps:
  assumes "group_step L A i g st st'" and "allEnded st" and "length (grGo st) = length (gcTasks g)"
  shows "allEnded st'"
  using assms
  by (induction rule: group_step.induct)
     (auto simp: allEnded_def all_set_conv_all_nth nth_list_update)

definition group_shape :: "group_config \<Rightarrow> group_state \<Rightarrow> bool" where
  "group_shape g st \<longleftrightarrow> length (grGo st) = length (gcTasks g) \<and> length (grWatch st) = length (gcTasks g)"

lemma group_shape_step: "group_step L A i g st st' \<Longrightarrow> group_shape g st \<Longrightarrow> group_shape g st'"
  by (induction rule: group_step.induct) (auto simp: group_shape_def)

lemma verdict_inv_step:
  assumes "group_step L A i g st st'" and "verdict_inv g st" and "group_shape g st"
  shows "verdict_inv g st'"
proof -
  have keep: "allEnded st \<Longrightarrow> allEnded st'"
    using allEnded_keeps [OF assms(1)] assms(3) by (simp add: group_shape_def)
  show ?thesis
    using assms(1,2) keep
    by (induction rule: group_step.induct)
       (auto simp: verdict_inv_def undecided_def allEnded_def split: main_pc.splits option.splits)
qed

lemma group_start [simp]: "verdict_inv g (groupStart g s)" "group_shape g (groupStart g s)"
  by (simp_all add: verdict_inv_def groupStart_def undecided_def group_shape_def)

lemma group_steps_inv:
  assumes "group_steps L A i g (groupStart g s) st"
  shows "verdict_inv g st" and "group_shape g st"
  using assms by (induction rule: rtranclp_induct) (auto intro: verdict_inv_step group_shape_step)

lemma group_tasks [simp]: "gcTasks (concurrentGroup c js) = js" "gcTasks (matrixGroup d js) = js"
  by (simp_all add: concurrentGroup_def matrixGroup_def)

text \<open>C8. The result \<open>run_tasks_concurrent\<close> sets with its default limits is a failure exactly if the main
  loop has been told that some child failed, in whatever order the children run, report and end.
\<close>

theorem run_tasks_concurrent_verdict:
  assumes "group_steps L A i (concurrentGroup c js) (groupStart (concurrentGroup c js) s) st"
    and "length js < 2 ^ 64" and "js \<noteq> []"
    and "ccSucceedTaskCount c = 0" and "ccFailTaskCount c = 1" and "\<not> ccFailOnUndecided c"
    and "grVerdict st = Some v"
  shows "v = (if \<exists>j\<in>set js. resultOf (grMap st) j = TaskResultFailure
              then TaskResultFailure else TaskResultSuccess)"
proof -
  let ?g = "concurrentGroup c js" and ?m = "grMap st"
  have len: "length (gcTasks ?g) < 2 ^ 64" using assms(2) by (simp add: concurrentGroup_def)
  have lim: "unat (successLimit ?g) = length js" "unat (failureLimit ?g) = 1"
    using unat_limit(1) [OF len] assms(4,5) by (simp_all add: concurrentGroup_def failureLimit_def)
  have dec: "groupDecide ?g ?m =
      (if \<forall>j\<in>set js. resultOf ?m j = TaskResultSuccess then Some TaskResultSuccess
       else if \<exists>j\<in>set js. resultOf ?m j = TaskResultFailure then Some TaskResultFailure else None)"
    using reported_some [of js ?m TaskResultFailure]
    unfolding groupDecide_nat [OF len] lim by (simp add: reported_ge Suc_le_eq)
  have "groupDecide ?g ?m = Some v \<or> v = TaskResultSuccess \<and> undecided ?g ?m"
    using group_steps_inv(1) [OF assms(1)] assms(6,7)
    by (auto simp: verdict_inv_def concurrentGroup_def split: main_pc.splits option.splits)
  then show ?thesis
  proof
    assume "groupDecide ?g ?m = Some v"
    then show ?thesis using assms(3) by (auto simp: dec split: if_splits)
  next
    assume und: "v = TaskResultSuccess \<and> undecided ?g ?m"
    then have "\<not> (\<exists>j\<in>set js. resultOf ?m j = TaskResultFailure)"
      by (cases "?m = []") (auto simp: undecided_def dec resultOf_def split: if_splits)
    then show ?thesis using und by simp
  qed
qed

text \<open>C9. The result \<open>run_task_matrix\<close> sets with its default limits is a success exactly if the main loop
  has been told that every child succeeded.
\<close>

theorem run_task_matrix_verdict:
  assumes "group_steps L A i (matrixGroup c js) (groupStart (matrixGroup c js) s) st"
    and "length js < 2 ^ 64" and "js \<noteq> []"
    and "mcSucceedTaskCount c = 0" and "mcFailTaskCount c = 0" and "mcFailOnUndecided c"
    and "grVerdict st = Some v"
  shows "v = (if \<forall>j\<in>set js. resultOf (grMap st) j = TaskResultSuccess
              then TaskResultSuccess else TaskResultFailure)"
proof -
  let ?g = "matrixGroup c js" and ?m = "grMap st"
  have len: "length (gcTasks ?g) < 2 ^ 64" using assms(2) by (simp add: matrixGroup_def)
  have lim: "unat (successLimit ?g) = length js" "unat (failureLimit ?g) = length js"
    using unat_limit [OF len] assms(4,5) by (simp_all add: matrixGroup_def)
  have dec: "groupDecide ?g ?m =
      (if \<forall>j\<in>set js. resultOf ?m j = TaskResultSuccess then Some TaskResultSuccess
       else if \<forall>j\<in>set js. resultOf ?m j = TaskResultFailure then Some TaskResultFailure else None)"
    unfolding groupDecide_nat [OF len] lim by (simp add: reported_ge)
  have "groupDecide ?g ?m = Some v \<or> v = TaskResultFailure \<and> undecided ?g ?m"
    using group_steps_inv(1) [OF assms(1)] assms(3,6,7)
    by (auto simp: verdict_inv_def matrixGroup_def split: main_pc.splits option.splits)
  then show ?thesis
  proof
    assume "groupDecide ?g ?m = Some v"
    then show ?thesis using assms(3) by (auto simp: dec split: if_splits)
  next
    assume und: "v = TaskResultFailure \<and> undecided ?g ?m"
    then have "\<not> (\<forall>j\<in>set js. resultOf ?m j = TaskResultSuccess)"
      using assms(3) by (cases "?m = []") (auto simp: undecided_def dec resultOf_def split: if_splits)
    then show ?thesis using und by simp
  qed
qed

section \<open>Reports\<close>

text \<open>
  The last report on a child is the youngest one in the channel, or else what the map holds. It
  always is what the watcher of the child remembers.
\<close>

definition lastReport :: "(nat \<times> TaskResult) list \<Rightarrow> (nat \<times> TaskResult) list \<Rightarrow> nat \<Rightarrow> TaskResult" where
  "lastReport q m j = (case map_of (rev q) j of Some r \<Rightarrow> r | None \<Rightarrow> resultOf m j)"

fun watchOld :: "child_watch \<Rightarrow> TaskResult" where
  "watchOld ChildUnwatched = TaskResultNone"
| "watchOld (ChildHead old) = old"
| "watchOld (ChildWait old c) = old"
| "watchOld (ChildCheck old active) = old"
| "watchOld (ChildSend old r active) = old"
| "watchOld (ChildEnded old) = old"

definition report_inv :: "group_config \<Rightarrow> group_state \<Rightarrow> bool" where
  "report_inv g st \<longleftrightarrow>
     (\<forall>k<length (gcTasks g). lastReport (grChan st) (grMap st) (gcTasks g ! k) = watchOld (grWatch st ! k))"

lemma lastReport_append [simp]: "lastReport (q @ [(j, r)]) m j' = (if j' = j then r else lastReport q m j')"
  by (simp add: lastReport_def)

lemma lastReport_receive [simp]: "lastReport q (AList.update j r m) = lastReport ((j, r) # q) m"
  by (auto simp: lastReport_def resultOf_def update_conv' map_add_def fun_eq_iff split: option.split)

lemma child_step_report:
  assumes "child_step j b (w, s, q) (w', s', q')"
  shows "watchOld w' = watchOld w \<and> q' = q \<or> (\<exists>r. watchOld w' = r \<and> q' = q @ [(j, r)])"
  using assms by (rule child_stepE) auto

lemma report_inv_step:
  assumes "group_step L A i g st st'" and "report_inv g st" and "group_shape g st" and "distinct (gcTasks g)"
  shows "report_inv g st'"
  using assms
proof (induction rule: group_step.induct)
  case (group_watch k st w s' q)
  then show ?case
    using child_step_report [OF group_watch(2)]
    by (auto simp: report_inv_def group_shape_def nth_list_update nth_eq_iff_index_eq)
next
  case (go_spawn k st t)
  have "watchOld (grWatch st ! k) = TaskResultNone" using go_spawn(3) by simp
  then show ?case using go_spawn by (auto simp: report_inv_def group_shape_def nth_list_update)
qed (auto simp: report_inv_def)

text \<open>
  A watcher that has decided to end while the context of the children is alive has seen its task
  stopped, with the result it reports last.
\<close>

definition stopped_with :: "scheduler \<Rightarrow> nat \<Rightarrow> TaskResult \<Rightarrow> bool" where
  "stopped_with s j r \<longleftrightarrow>
     (\<exists>t. getTaskState s j = Some t \<and> isStarted t \<and> \<not> isRunning t \<and> taskResult t = r)"

definition started_task :: "scheduler \<Rightarrow> nat \<Rightarrow> bool" where
  "started_task s j \<longleftrightarrow> (\<exists>t. getTaskState s j = Some t \<and> isStarted t)"

fun watch_ok :: "scheduler \<Rightarrow> bool \<Rightarrow> nat \<Rightarrow> child_watch \<Rightarrow> bool" where
  "watch_ok s ctxDone j ChildUnwatched = True"
| "watch_ok s ctxDone j (ChildCheck old active) = (started_task s j \<and> (active \<or> ctxDone))"
| "watch_ok s ctxDone j (ChildSend old r active) = (started_task s j \<and> (active \<or> ctxDone \<or> stopped_with s j r))"
| "watch_ok s ctxDone j (ChildEnded old) = (started_task s j \<and> (ctxDone \<or> stopped_with s j old))"
| "watch_ok s ctxDone j _ = started_task s j"

lemma watch_ok_keeps:
  assumes "keeps_stopped js s s'" and "j \<in> set js" and "watch_ok s b j w" and "b \<longrightarrow> b'"
  shows "watch_ok s' b' j w"
proof -
  have "started_task s j \<Longrightarrow> started_task s' j" "stopped_with s j r \<Longrightarrow> stopped_with s' j r" for r
    using assms(1,2) by (force simp: keeps_stopped_def started_task_def stopped_with_def)+
  then show ?thesis using assms(3,4) by (cases w) auto
qed

lemma keeps_stopped_refl [simp]: "keeps_stopped js s s"
  by (simp add: keeps_stopped_def)

lemma keeps_stopped_chan:
  assumes "GetTaskResultUpdateChan j old s = (c, s')"
  shows "keeps_stopped js s s'"
  using assms
  by (auto simp: GetTaskResultUpdateChan_def keeps_stopped_def split: option.splits if_splits)

lemma keeps_stopped_result:
  assumes "ctxSetResult L i v s = Some s'" and "i \<notin> set js"
  shows "keeps_stopped js s s'"
proof -
  have set: "setTaskResult L i v True s = Some s'" using assms(1) by (simp add: ctxSetResult_def)
  obtain t where t: "getTaskState s i = Some t" using setTaskResult_known [OF set] by blast
  have "j \<in> set js \<Longrightarrow> getTaskState s' j = getTaskState s j" for j
    using setTaskResult_fields(1) [OF set t, of j] assms(2) by auto
  then show ?thesis by (auto simp: keeps_stopped_def)
qed

lemma child_step_ok:
  assumes "child_step j b (w, s, q) (w', s', q')" and "watch_ok s b j w"
  shows "watch_ok s' b j w' \<and> keeps_stopped js s s'"
  using assms(1)
proof (rule child_stepE)
  fix old assume "w = ChildHead old" "GetTaskResultUpdateChan j old s = (None, s')" "w' = ChildCheck old True"
  moreover have "started_task s' j"
    using watch_ok_keeps [OF keeps_stopped_chan [of j old s None s' "[j]"], of j b w b] calculation assms(2) by simp
  ultimately show ?thesis by (simp add: keeps_stopped_chan)
next
  fix old c assume "w = ChildHead old" "GetTaskResultUpdateChan j old s = (Some c, s')" "w' = ChildWait old c"
  moreover have "started_task s' j"
    using watch_ok_keeps [OF keeps_stopped_chan [of j old s "Some c" s' "[j]"], of j b w b] calculation assms(2) by simp
  ultimately show ?thesis by (simp add: keeps_stopped_chan)
qed (use assms(2) in \<open>auto simp: started_task_def stopped_with_def GetTaskStatus_def\<close>)

definition watches_ok :: "group_config \<Rightarrow> group_state \<Rightarrow> bool" where
  "watches_ok g st \<longleftrightarrow>
     (\<forall>k<length (gcTasks g). watch_ok (grSched st) (grTaskDone st) (gcTasks g ! k) (grWatch st ! k))"

lemma watches_okI:
  assumes "watches_ok g st" and "keeps_stopped (gcTasks g) (grSched st) (grSched st')"
    and "grTaskDone st \<longrightarrow> grTaskDone st'" and "grWatch st' = grWatch st"
  shows "watches_ok g st'"
  using assms watch_ok_keeps [OF assms(2) nth_mem _ assms(3)] by (auto simp: watches_ok_def)

lemma watches_ok_step:
  assumes "group_step L A i g st st'" and "watches_ok g st" and "group_shape g st" and "i \<notin> set (gcTasks g)"
  shows "watches_ok g st'"
  using assms
proof (induction rule: group_step.induct)
  case (group_watch k st w s' q)
  have "watch_ok (grSched st) (grTaskDone st) (gcTasks g ! k) (grWatch st ! k)"
    using group_watch(1,3) by (simp add: watches_ok_def)
  from child_step_ok [OF group_watch(2) this]
  have ok: "watch_ok s' (grTaskDone st) (gcTasks g ! k) w" "keeps_stopped (gcTasks g) (grSched st) s'" by blast+
  have "watches_ok g (st\<lparr>grSched := s', grChan := q\<rparr>)" by (rule watches_okI [OF group_watch(3)]) (use ok in simp_all)
  then show ?case using ok group_watch(1,4) by (auto simp: watches_ok_def group_shape_def nth_list_update)
next
  case (go_spawn k st t)
  then show ?case by (auto simp: watches_ok_def group_shape_def nth_list_update started_task_def)
next
  case (group_env st s')
  then show ?case by (intro watches_okI [OF group_env(3)]) simp_all
next
  case (main_decide st j r q v s')
  have "keeps_stopped (gcTasks g) (grSched st) s'" using main_decide(4,7) by (rule keeps_stopped_result)
  then show ?case by (intro watches_okI [OF main_decide(5)]) simp_all
next
  case (main_complete st s')
  have "keeps_stopped (gcTasks g) (grSched st) s'" using main_complete(3,6) by (rule keeps_stopped_result)
  then show ?case by (intro watches_okI [OF main_complete(4)]) simp_all
next
  case (group_ctx st e)
  then show ?case by (intro watches_okI [OF group_ctx(2)]) simp_all
next
  case (main_ctx st e)
  then show ?case by (intro watches_okI [OF main_ctx(3)]) simp_all
qed (auto simp: watches_ok_def)

lemma group_steps_reports:
  assumes "group_steps L A i g (groupStart g s) st" and "distinct (gcTasks g)" and "i \<notin> set (gcTasks g)"
  shows "report_inv g st" and "watches_ok g st"
  using assms(1)
proof (induction rule: rtranclp_induct)
  case base
  show "report_inv g (groupStart g s)" "watches_ok g (groupStart g s)"
    by (simp_all add: report_inv_def watches_ok_def groupStart_def lastReport_def resultOf_def)
next
  case (step st st')
  note shape = group_steps_inv(2) [OF step(1)]
  show "report_inv g st'" "watches_ok g st'" if "report_inv g st" "watches_ok g st"
    using report_inv_step [OF step(2) _ shape assms(2)] watches_ok_step [OF step(2) _ shape assms(3)] that by blast+
qed

text \<open>C10. No final result of a child is lost: once the watcher of a child has ended, while the group is
  not decided or cancelled, the last report on the child is the result its task has stopped with;
  when the channel is empty the main loop has counted that result.
\<close>

theorem group_reports_final:
  assumes "group_steps L A i g (groupStart g s) st" and "distinct (gcTasks g)" and "i \<notin> set (gcTasks g)"
    and "k < length (gcTasks g)" and "grWatch st ! k = ChildEnded old" and "\<not> grTaskDone st"
  shows "\<exists>t. getTaskState (grSched st) (gcTasks g ! k) = Some t \<and> isStarted t \<and> \<not> isRunning t \<and>
    lastReport (grChan st) (grMap st) (gcTasks g ! k) = taskResult t \<and>
    (grChan st = [] \<longrightarrow> resultOf (grMap st) (gcTasks g ! k) = taskResult t)"
proof -
  have "stopped_with (grSched st) (gcTasks g ! k) old"
    using group_steps_reports(2) [OF assms(1-3)] assms(4-6) by (auto simp: watches_ok_def)
  moreover have "lastReport (grChan st) (grMap st) (gcTasks g ! k) = old"
    using group_steps_reports(1) [OF assms(1-3)] assms(4,5) by (simp add: report_inv_def)
  ultimately show ?thesis by (auto simp: stopped_with_def lastReport_def)
qed

section \<open>One child at a time\<close>

definition seq_inv :: "group_config \<Rightarrow> group_state \<Rightarrow> bool" where
  "seq_inv g st \<longleftrightarrow>
     (\<forall>k<length (gcTasks g). grGo st ! k = GoExecuting \<or> grCtxErr st = None \<and> grGo st ! k = GoEnded \<longrightarrow>
        (\<forall>k'<k. grGo st ! k' = GoEnded)) \<and>
     (\<forall>k\<in>set (grClosed st). k < length (gcTasks g) \<and> (\<forall>k'\<le>k. grGo st ! k' = GoEnded))"

lemma seq_invD:
  assumes "seq_inv g st"
  shows "k < length (gcTasks g) \<Longrightarrow> grGo st ! k = GoExecuting \<Longrightarrow> k' < k \<Longrightarrow> grGo st ! k' = GoEnded"
    and "k < length (gcTasks g) \<Longrightarrow> grCtxErr st = None \<Longrightarrow> grGo st ! k = GoEnded \<Longrightarrow> k' < k \<Longrightarrow>
      grGo st ! k' = GoEnded"
    and "k \<in> set (grClosed st) \<Longrightarrow> k < length (gcTasks g)"
    and "k \<in> set (grClosed st) \<Longrightarrow> k' \<le> k \<Longrightarrow> grGo st ! k' = GoEnded"
  using assms unfolding seq_inv_def by blast+

lemma seq_invI:
  assumes "\<And>k k'. k < length (gcTasks g) \<Longrightarrow> grGo st ! k = GoExecuting \<Longrightarrow> k' < k \<Longrightarrow> grGo st ! k' = GoEnded"
    and "\<And>k k'. k < length (gcTasks g) \<Longrightarrow> grCtxErr st = None \<Longrightarrow> grGo st ! k = GoEnded \<Longrightarrow> k' < k \<Longrightarrow>
      grGo st ! k' = GoEnded"
    and "\<And>k. k \<in> set (grClosed st) \<Longrightarrow> k < length (gcTasks g)"
    and "\<And>k k'. k \<in> set (grClosed st) \<Longrightarrow> k' \<le> k \<Longrightarrow> grGo st ! k' = GoEnded"
  shows "seq_inv g st"
  using assms unfolding seq_inv_def by blast

lemma goReady_ended:
  assumes "seq_inv g st" and "gcSequential g" and "goReady g st k" and "k' < k"
  shows "grGo st ! k' = GoEnded"
proof -
  have "k - 1 \<in> set (grClosed st)" using assms(2-4) by (auto simp: goReady_def)
  moreover have "k' \<le> k - 1" using assms(4) by simp
  ultimately show ?thesis by (rule seq_invD(4) [OF assms(1)])
qed

text \<open>A child whose predecessors have ended may start, or end and close its wait channel.\<close>

lemma seq_inv_go:
  assumes "seq_inv g st" and "k < length (gcTasks g)" and "grGo st ! k \<noteq> GoEnded"
    and "\<And>k'. k' < k \<Longrightarrow> grGo st ! k' = GoEnded" and "length (grGo st) = length (gcTasks g)"
    and "pc = GoExecuting \<and> grGo st ! k = GoWaiting \<and> closed = grClosed st \<or> pc = GoEnded \<and> closed = k # grClosed st"
  shows "seq_inv g (st\<lparr>grGo := (grGo st)[k := pc], grClosed := closed\<rparr>)"
proof (rule seq_invI, goal_cases)
  case (1 m m')
  then show ?case using seq_invD(1) [OF assms(1), of m m'] assms(2-6) by (auto simp: nth_list_update split: if_splits)
next
  case (2 m m')
  then show ?case using seq_invD(2) [OF assms(1), of m m'] assms(2-6) by (auto simp: nth_list_update split: if_splits)
next
  case (3 m)
  then show ?case using seq_invD(3) [OF assms(1), of m] assms(2,6) by auto
next
  case (4 m m')
  then have "m \<in> set (grClosed st) \<and> grGo st ! m' = GoEnded \<and> m' \<noteq> k \<or> m = k \<and> pc = GoEnded"
    using seq_invD(4) [OF assms(1), of m m'] assms(3,6) by auto
  then show ?case using 4 assms(2,4,5) by (auto simp: nth_list_update le_less)
qed

lemma seq_inv_frame: "seq_inv g st \<Longrightarrow> grGo st' = grGo st \<Longrightarrow> grClosed st' = grClosed st \<Longrightarrow>
    grCtxErr st' = None \<longrightarrow> grCtxErr st = None \<Longrightarrow> seq_inv g st'"
  unfolding seq_inv_def by metis

lemma seq_inv_step:
  assumes "group_step L A i g st st'" and "seq_inv g st" and "group_shape g st" and "gcSequential g"
  shows "seq_inv g st'"
  using assms
proof (induction rule: group_step.induct)
  case (go_exec k st)
  have "seq_inv g (st\<lparr>grGo := (grGo st)[k := GoExecuting], grClosed := grClosed st\<rparr>)"
    by (rule seq_inv_go [OF go_exec(5,1) _ goReady_ended [OF go_exec(5,7,3)]])
       (use go_exec(2,6) in \<open>simp_all add: group_shape_def\<close>)
  then show ?case by simp
next
  case (go_skip k st)
  show ?case
    by (rule seq_inv_go [OF go_skip(6,1) _ goReady_ended [OF go_skip(6,8,3)]])
       (use go_skip(2,7) in \<open>simp_all add: group_shape_def\<close>)
next
  case (go_end k st t)
  show ?case
    by (rule seq_inv_go [OF go_end(6,1) _ seq_invD(1) [OF go_end(6,1,2)]])
       (use go_end(2,7) in \<open>simp_all add: group_shape_def\<close>)
next
  case (go_abandon k st)
  show ?case
  proof (rule seq_invI, goal_cases)
    case (1 m m')
    then show ?case
      using seq_invD(1) [OF go_abandon(6), of m m'] go_abandon(1,7)
      by (auto simp: nth_list_update group_shape_def split: if_splits)
  next
    case (4 m m')
    then show ?case
      using seq_invD(4) [OF go_abandon(6), of m m'] go_abandon(1,7) by (auto simp: nth_list_update group_shape_def)
  qed (use go_abandon(5) seq_invD(3) [OF go_abandon(6)] in auto)
qed (auto intro: seq_inv_frame)

text \<open>C11. A matrix without \<open>runConcurrent\<close> runs one child at a time and in the order of its values: while
  a child executes, all children before it have ended and, unless the context of the task is
  cancelled, all children after it still wait.
\<close>

theorem run_task_matrix_sequential:
  assumes "group_steps L A i (matrixGroup c js) (groupStart (matrixGroup c js) s) st"
    and "\<not> mcRunConcurrent c" and "k < length js" and "grGo st ! k = GoExecuting"
  shows "(\<forall>k'<k. grGo st ! k' = GoEnded) \<and>
    (\<forall>k'<length js. k < k' \<longrightarrow> grGo st ! k' \<noteq> GoExecuting \<and> (grCtxErr st = None \<longrightarrow> grGo st ! k' = GoWaiting))"
proof -
  have seq: "gcSequential (matrixGroup c js)" using assms(2) by (simp add: matrixGroup_def)
  have inv: "seq_inv (matrixGroup c js) st"
    using assms(1)
  proof (induction rule: rtranclp_induct)
    case base
    show ?case by (simp add: seq_inv_def groupStart_def)
  next
    case (step st st')
    then show ?case using seq_inv_step [OF step(2) _ group_steps_inv(2) [OF step(1)] seq] by blast
  qed
  have "grGo st ! k' = GoWaiting \<or> grGo st ! k' = GoEnded \<and> grCtxErr st \<noteq> None" if "k' < length js" "k < k'" for k'
    using seq_invD(1,2) [OF inv, of k' k] that assms(4) by (cases "grGo st ! k'") auto
  then show ?thesis using seq_invD(1) [OF inv, of k] assms(3,4) by fastforce
qed

section \<open>A run with one child\<close>

text \<open>
  Task 1 of \<open>two_sleeps\<close> as the only child of task 2: it starts, succeeds and stops, and its watcher
  reports that.
\<close>

definition demo_started :: scheduler where
  "demo_started = the (startTask (quiet_libs (ExecReturned None)) 1 two_sleeps)"

definition demo_passed :: scheduler where
  "demo_passed = the (setTaskResult (quiet_libs (ExecReturned None)) 1 TaskResultSuccess True demo_started)"

definition demo_stopped :: scheduler where
  "demo_stopped = the (finishTask (quiet_libs (ExecReturned None)) 1 demo_passed)"

definition demo_decided :: scheduler where
  "demo_decided = the (ctxSetResult (quiet_libs (ExecReturned None)) 2 TaskResultSuccess demo_stopped)"

lemma demo_ops:
  "startTask (quiet_libs (ExecReturned None)) 1 two_sleeps = Some demo_started"
  "setTaskResult (quiet_libs (ExecReturned None)) 1 TaskResultSuccess True demo_started = Some demo_passed"
  "finishTask (quiet_libs (ExecReturned None)) 1 demo_passed = Some demo_stopped"
  "ctxSetResult (quiet_libs (ExecReturned None)) 2 TaskResultSuccess demo_stopped = Some demo_decided"
proof -
  have "startTask (quiet_libs (ExecReturned None)) 1 two_sleeps \<noteq> None"
    "setTaskResult (quiet_libs (ExecReturned None)) 1 TaskResultSuccess True demo_started \<noteq> None"
    "finishTask (quiet_libs (ExecReturned None)) 1 demo_passed \<noteq> None"
    "ctxSetResult (quiet_libs (ExecReturned None)) 2 TaskResultSuccess demo_stopped \<noteq> None"
    by code_simp+
  then show "startTask (quiet_libs (ExecReturned None)) 1 two_sleeps = Some demo_started"
    "setTaskResult (quiet_libs (ExecReturned None)) 1 TaskResultSuccess True demo_started = Some demo_passed"
    "finishTask (quiet_libs (ExecReturned None)) 1 demo_passed = Some demo_stopped"
    "ctxSetResult (quiet_libs (ExecReturned None)) 2 TaskResultSuccess demo_stopped = Some demo_decided"
    by (auto simp: demo_started_def demo_passed_def demo_stopped_def demo_decided_def)
qed

lemma demo_task:
  "map_option (\<lambda>t. (isStarted t, isRunning t, taskResult t)) (getTaskState two_sleeps 1) = Some (False, False, TaskResultNone)"
  "map_option (\<lambda>t. (isStarted t, isRunning t, taskResult t)) (getTaskState demo_started 1) = Some (True, True, TaskResultNone)"
  "map_option (\<lambda>t. (isStarted t, isRunning t, taskResult t)) (getTaskState demo_passed 1) = Some (True, True, TaskResultSuccess)"
  "map_option (\<lambda>t. (isStarted t, isRunning t, taskResult t)) (getTaskState demo_stopped 1) = Some (True, False, TaskResultSuccess)"
  by code_simp+

lemma demo_sched_steps:
  "sched_step (quiet_libs (ExecReturned None)) {1} two_sleeps demo_started"
  "sched_step (quiet_libs (ExecReturned None)) {1} demo_started demo_passed"
  "sched_step (quiet_libs (ExecReturned None)) {1} demo_passed demo_stopped"
proof -
  obtain t0 t2 where t: "getTaskState two_sleeps 1 = Some t0" "\<not> isStarted t0"
    "getTaskState demo_passed 1 = Some t2" "isStarted t2"
    using demo_task by auto
  show "sched_step (quiet_libs (ExecReturned None)) {1} two_sleeps demo_started"
    "sched_step (quiet_libs (ExecReturned None)) {1} demo_started demo_passed"
    "sched_step (quiet_libs (ExecReturned None)) {1} demo_passed demo_stopped"
    using step_start [OF _ t(1,2) demo_ops(1)] step_report [OF _ demo_ops(2)] step_finish [OF _ t(3,4) demo_ops(3)]
    by simp_all
qed

definition demo_reported :: "group_config \<Rightarrow> group_state" where
  "demo_reported g = (groupStart g demo_stopped)\<lparr>grGo := [GoExecuting], grWatch := [ChildEnded TaskResultSuccess],
     grChan := [(1, TaskResultSuccess)]\<rparr>"

lemma keeps_running:
  assumes "getTaskState s j = Some t" and "getTaskState s' j = Some t'"
    and "isStarted t \<longrightarrow> isRunning t \<and> isStarted t'"
  shows "keeps_stopped [j] s s'"
  using assms by (auto simp: keeps_stopped_def)

lemma demo_env:
  assumes "gcTasks g = [1]"
  shows "group_step (quiet_libs (ExecReturned None)) {1} 2 g (st\<lparr>grSched := two_sleeps\<rparr>) (st\<lparr>grSched := demo_started\<rparr>)"
    and "group_step (quiet_libs (ExecReturned None)) {1} 2 g (st\<lparr>grSched := demo_started\<rparr>) (st\<lparr>grSched := demo_passed\<rparr>)"
    and "group_step (quiet_libs (ExecReturned None)) {1} 2 g (st\<lparr>grSched := demo_passed\<rparr>) (st\<lparr>grSched := demo_stopped\<rparr>)"
proof -
  let ?L = "quiet_libs (ExecReturned None)"
  obtain t0 t1 t2 t3 where t: "getTaskState two_sleeps 1 = Some t0" "getTaskState demo_started 1 = Some t1"
    "getTaskState demo_passed 1 = Some t2" "getTaskState demo_stopped 1 = Some t3"
    "\<not> isStarted t0" "isStarted t1" "isRunning t1" "isStarted t2" "isRunning t2" "isStarted t3"
    using demo_task by auto
  have k: "keeps_stopped (gcTasks g) two_sleeps demo_started" "keeps_stopped (gcTasks g) demo_started demo_passed"
    "keeps_stopped (gcTasks g) demo_passed demo_stopped"
    unfolding assms
    using keeps_running [OF t(1,2)] keeps_running [OF t(2,3)] keeps_running [OF t(3,4)] t(5-10) by simp_all
  show "group_step ?L {1} 2 g (st\<lparr>grSched := two_sleeps\<rparr>) (st\<lparr>grSched := demo_started\<rparr>)"
    "group_step ?L {1} 2 g (st\<lparr>grSched := demo_started\<rparr>) (st\<lparr>grSched := demo_passed\<rparr>)"
    "group_step ?L {1} 2 g (st\<lparr>grSched := demo_passed\<rparr>) (st\<lparr>grSched := demo_stopped\<rparr>)"
    using group_env [of ?L "{1}" "st\<lparr>grSched := two_sleeps\<rparr>"] group_env [of ?L "{1}" "st\<lparr>grSched := demo_started\<rparr>"]
      group_env [of ?L "{1}" "st\<lparr>grSched := demo_passed\<rparr>"] demo_sched_steps k by simp_all
qed

lemma demo_run:
  assumes "gcTasks g = [1]"
  shows "group_steps (quiet_libs (ExecReturned None)) {1} 2 g (groupStart g two_sleeps) (demo_reported g)"
proof -
  let ?L = "quiet_libs (ExecReturned None)"
  let ?R = "group_step ?L {1} 2 g"
  define a where "a = (groupStart g two_sleeps)\<lparr>grGo := [GoExecuting]\<rparr>"
  define b where "b = a\<lparr>grSched := demo_started, grWatch := [ChildHead TaskResultNone]\<rparr>"
  define c where "c = b\<lparr>grSched := demo_stopped, grWatch := [ChildCheck TaskResultNone True]\<rparr>"
  define d where "d = c\<lparr>grWatch := [ChildSend TaskResultNone TaskResultSuccess False]\<rparr>"
  note defs = a_def b_def c_def d_def demo_reported_def groupStart_def
  obtain t1 t3 where t: "getTaskState demo_started 1 = Some t1" "isStarted t1"
    "getTaskState demo_stopped 1 = Some t3" "isStarted t3" "\<not> isRunning t3" "taskResult t3 = TaskResultSuccess"
    using demo_task by auto
  have "?R (groupStart g two_sleeps) a"
    using go_exec [of 0 g "groupStart g two_sleeps"] assms by (simp add: a_def groupStart_def goReady_def)
  moreover have "?R a (a\<lparr>grSched := demo_started\<rparr>)"
    using demo_env(1) [OF assms, of a] by (simp add: defs)
  moreover have "?R (a\<lparr>grSched := demo_started\<rparr>) b"
    using go_spawn [of 0 g "a\<lparr>grSched := demo_started\<rparr>" t1] t assms by (simp add: defs)
  moreover have "?R b (b\<lparr>grSched := demo_passed\<rparr>)" "?R (b\<lparr>grSched := demo_passed\<rparr>) (b\<lparr>grSched := demo_stopped\<rparr>)"
    using demo_env(2,3) [OF assms, of b] by (simp_all add: defs)
  moreover have "?R (b\<lparr>grSched := demo_stopped\<rparr>) c"
    using group_watch [of 0 g "b\<lparr>grSched := demo_stopped\<rparr>"] assms
      child_nochan [OF GetTaskResultUpdateChan_nil [OF t(3), of TaskResultNone]] t(6) by (simp add: defs)
  moreover have "?R c d"
    using group_watch [of 0 g c] assms child_changed [OF t(3), of TaskResultNone False True "[]"] t(5,6)
    by (simp add: defs GetTaskStatus_def)
  moreover have "?R d (demo_reported g)"
    using group_watch [of 0 g d] assms child_send [of "[]" 1 False TaskResultNone TaskResultSuccess False demo_stopped]
    by (simp add: defs)
  ultimately show ?thesis by (meson converse_rtranclp_into_rtranclp rtranclp.rtrancl_refl)
qed

lemma demo_verdict:
  assumes "gcTasks g = [1]" and "groupDecide g [(1, TaskResultSuccess)] = Some TaskResultSuccess"
  shows "\<exists>st. group_steps (quiet_libs (ExecReturned None)) {1} 2 g (groupStart g two_sleeps) st \<and>
    grVerdict st = Some TaskResultSuccess \<and> grMap st = [(1, TaskResultSuccess)]"
proof -
  have "group_step (quiet_libs (ExecReturned None)) {1} 2 g (demo_reported g)
      ((demo_reported g)\<lparr>grChan := [], grMap := [(1, TaskResultSuccess)], grSched := demo_decided,
         grVerdict := Some TaskResultSuccess, grMain := MainWait, grTaskDone := True\<rparr>)"
    using main_decide [of "demo_reported g" 1 TaskResultSuccess "[]" g TaskResultSuccess
        "quiet_libs (ExecReturned None)" 2 demo_decided] assms(2) demo_ops(4)
    by (simp add: demo_reported_def groupStart_def)
  from rtranclp.rtrancl_into_rtrancl [OF demo_run [OF assms(1)] this] show ?thesis
    by (intro exI conjI, assumption) (simp_all add: demo_reported_def groupStart_def)
qed

theorem run_tasks_concurrent_verdict_witness:
  "\<exists>st. group_steps (quiet_libs (ExecReturned None)) {1} 2 (concurrentGroup ConcurrentDefault [1])
      (groupStart (concurrentGroup ConcurrentDefault [1]) two_sleeps) st \<and>
    grVerdict st = Some TaskResultSuccess \<and> \<not> (\<exists>j\<in>set [1]. resultOf (grMap st) j = TaskResultFailure)"
proof -
  have "groupDecide (concurrentGroup ConcurrentDefault [1]) [(1, TaskResultSuccess)] = Some TaskResultSuccess" by code_simp
  from demo_verdict [OF group_tasks(1) this] obtain st where
    st: "group_steps (quiet_libs (ExecReturned None)) {1} 2 (concurrentGroup ConcurrentDefault [1])
      (groupStart (concurrentGroup ConcurrentDefault [1]) two_sleeps) st" "grVerdict st = Some TaskResultSuccess" by blast
  have "TaskResultSuccess = (if \<exists>j\<in>set [1]. resultOf (grMap st) j = TaskResultFailure
      then TaskResultFailure else TaskResultSuccess)"
    by (rule run_tasks_concurrent_verdict [OF st(1) _ _ _ _ _ st(2)]) (simp_all add: ConcurrentDefault_def)
  then show ?thesis using st by (metis TaskResult.distinct(5))
qed

theorem run_task_matrix_verdict_witness:
  "\<exists>st. group_steps (quiet_libs (ExecReturned None)) {1} 2 (matrixGroup MatrixDefault [1])
      (groupStart (matrixGroup MatrixDefault [1]) two_sleeps) st \<and>
    grVerdict st = Some TaskResultSuccess \<and> (\<forall>j\<in>set [1]. resultOf (grMap st) j = TaskResultSuccess)"
proof -
  have "groupDecide (matrixGroup MatrixDefault [1]) [(1, TaskResultSuccess)] = Some TaskResultSuccess" by code_simp
  from demo_verdict [OF group_tasks(2) this] obtain st where
    st: "group_steps (quiet_libs (ExecReturned None)) {1} 2 (matrixGroup MatrixDefault [1])
      (groupStart (matrixGroup MatrixDefault [1]) two_sleeps) st" "grVerdict st = Some TaskResultSuccess" by blast
  have "TaskResultSuccess = (if \<forall>j\<in>set [1]. resultOf (grMap st) j = TaskResultSuccess
      then TaskResultSuccess else TaskResultFailure)"
    by (rule run_task_matrix_verdict [OF st(1) _ _ _ _ _ st(2)]) (simp_all add: MatrixDefault_def)
  then show ?thesis using st by (metis TaskResult.distinct(5))
qed

theorem group_reports_final_witness:
  "\<exists>t. getTaskState demo_stopped 1 = Some t \<and>
     lastReport [(1, TaskResultSuccess)] [] 1 = taskResult t"
proof -
  let ?g = "concurrentGroup ConcurrentDefault [1]"
  have "distinct (gcTasks ?g)" "2 \<notin> set (gcTasks ?g)" "0 < length (gcTasks ?g)" by simp_all
  moreover have "grWatch (demo_reported ?g) ! 0 = ChildEnded TaskResultSuccess" "\<not> grTaskDone (demo_reported ?g)"
    by (simp_all add: demo_reported_def groupStart_def)
  ultimately show ?thesis
    using group_reports_final [OF demo_run [OF group_tasks(1)]] by (fastforce simp: demo_reported_def groupStart_def)
qed

theorem run_task_matrix_sequential_witness:
  "let g = matrixGroup MatrixDefault [1, 2]; st = (groupStart g two_sleeps)\<lparr>grGo := [GoExecuting, GoWaiting]\<rparr>
   in group_steps (quiet_libs (ExecReturned None)) {1} 3 g (groupStart g two_sleeps) st \<and> grGo st ! 1 = GoWaiting"
proof -
  let ?g = "matrixGroup MatrixDefault [1, 2]"
  let ?st = "(groupStart ?g two_sleeps)\<lparr>grGo := [GoExecuting, GoWaiting]\<rparr>"
  have run: "group_steps (quiet_libs (ExecReturned None)) {1} 3 ?g (groupStart ?g two_sleeps) ?st"
    using go_exec [of 0 ?g "groupStart ?g two_sleeps"] by (intro r_into_rtranclp) (simp add: groupStart_def goReady_def)
  have "\<not> mcRunConcurrent MatrixDefault" "0 < length [1::nat, 2]" "grGo ?st ! 0 = GoExecuting"
    by (simp_all add: MatrixDefault_def)
  from run_task_matrix_sequential [OF run this] show ?thesis using run by (simp add: groupStart_def)
qed

end
