(* ===== verification/FlowBackground.thy ===== *)
theory FlowBackground
  imports FlowGroup
begin

text \<open>
  \<open>Execute\<close> of \<open>run_task_background\<close>: a foreground and a background task, each in a goroutine, and
  a watcher of the foreground task. All three may complete the task by sending a result on a
  channel of which \<open>Execute\<close> reads one. The theory shows that no sender ever blocks, that a result
  always arrives once the foreground task has ended, and where the result comes from. It also has
  the watcher of \<open>run_task_options\<close>, which forwards the results of its child.
\<close>

section \<open>Completing the task\<close>

type_synonym bg_result = "TaskResult \<times> go_error"

text \<open>
  \<open>completeWithResult\<close> on \<open>resultChan\<close>, a channel with room for 10 results or nil; the outer option is
  None while the send has to wait.
\<close>

definition completeWithResult :: "bg_result \<Rightarrow> bg_result list option \<Rightarrow> bg_result list option option" where
  "completeWithResult x resultChan =
     (case resultChan of
        None \<Rightarrow> Some None
      | Some q \<Rightarrow> if length q < 10 then Some (Some (q @ [x])) else None)"

text \<open>What the end of the background task does, by \<open>onBackgroundComplete\<close>.\<close>

definition backgroundResult :: "string \<Rightarrow> TaskResult \<Rightarrow> bg_result option" where
  "backgroundResult onComplete result =
     (if onComplete = ''fail'' then Some (TaskResultFailure, Some ''background task completed unexpectedly'')
      else if onComplete = ''success'' \<or> onComplete = ''succeed'' then Some (TaskResultSuccess, None)
      else if onComplete = ''failOrIgnore'' \<and> result = TaskResultFailure
      then Some (TaskResultFailure, Some ''background task completed with failure'')
      else None)"

section \<open>Goroutines\<close>

text \<open>
  The background goroutine: not started, executing its task, about to send, or ended. The
  foreground goroutine always sends; its end closes \<open>foregroundChan\<close>. The watcher of the foreground
  task keeps the result it has seen last.
\<close>

datatype bg_pc = BgExecuting | BgSending bg_result | BgEnded

datatype fg_pc = FgExecuting | FgSending bg_result | FgEnded

datatype fg_watch =
    FgUnwatched
  | FgHead TaskResult
  | FgWait TaskResult nat
  | FgCheck TaskResult
  | FgComplete bg_result
  | FgReport TaskResult
  | FgReturned

datatype bg_main = BgReceive | BgReceived bg_result | BgWaiting bg_result | BgReturned bg_result

record bg_state =
  bgSched :: scheduler
  bgChan :: "bg_result list option"
  bgMain :: bg_main
  bgFg :: fg_pc
  bgBg :: bg_pc
  bgWatch :: fg_watch
  bgCancelled :: bool

definition backgroundStart :: "nat \<Rightarrow> scheduler \<Rightarrow> bg_state" where
  "backgroundStart bg s =
     \<lparr>bgSched = s, bgChan = Some [], bgMain = BgReceive, bgFg = FgExecuting,
      bgBg = (if bg = 0 then BgEnded else BgExecuting), bgWatch = FgUnwatched, bgCancelled = False\<rparr>"

definition stoppedTask :: "scheduler \<Rightarrow> nat \<Rightarrow> taskState \<Rightarrow> bool" where
  "stoppedTask s j t \<longleftrightarrow> getTaskState s j = Some t \<and> isStarted t \<and> \<not> isRunning t"

text \<open>
  The rest of the run neither starts a stopped task again nor changes its result or error:
  \<open>ExecuteTask\<close> runs a task once and settles both before it marks the task as stopped.
\<close>

definition keepsEnd :: "nat \<Rightarrow> scheduler \<Rightarrow> scheduler \<Rightarrow> bool" where
  "keepsEnd j s s' \<longleftrightarrow> (\<forall>t. stoppedTask s j t \<longrightarrow>
     (\<exists>t'. stoppedTask s' j t' \<and> taskResult t' = taskResult t \<and> taskError t' = taskError t))"

text \<open>
  The context of the foreground task, which its watcher looks at, may be done at any time, by a
  timeout for instance.
\<close>

inductive bg_step ::
    "sched_libs \<Rightarrow> nat set \<Rightarrow> nat \<Rightarrow> BackgroundConfig \<Rightarrow> nat \<Rightarrow> nat \<Rightarrow> bg_state \<Rightarrow> bg_state \<Rightarrow> bool"
  for L :: sched_libs and A :: "nat set" and i :: nat and c :: BackgroundConfig and fg bg :: nat where
  bg_env: "sched_step L A (bgSched st) s' \<Longrightarrow> keepsEnd fg (bgSched st) s' \<Longrightarrow>
     bg_step L A i c fg bg st (st\<lparr>bgSched := s'\<rparr>)"
| bg_ctx: "bg_step L A i c fg bg st (st\<lparr>bgCancelled := True\<rparr>)"
| bg_quit: "bgBg st = BgExecuting \<Longrightarrow> stoppedTask (bgSched st) bg t \<Longrightarrow> bgCancelled st \<Longrightarrow>
     bg_step L A i c fg bg st (st\<lparr>bgBg := BgEnded\<rparr>)"
| bg_done: "bgBg st = BgExecuting \<Longrightarrow> stoppedTask (bgSched st) bg t \<Longrightarrow> \<not> bgCancelled st \<Longrightarrow>
     bg_step L A i c fg bg st (st\<lparr>bgBg :=
       (case backgroundResult (bcOnBackgroundComplete c) (stResult (GetTaskStatus t)) of
          Some x \<Rightarrow> BgSending x | None \<Rightarrow> BgEnded)\<rparr>)"
| bg_send: "bgBg st = BgSending x \<Longrightarrow> completeWithResult x (bgChan st) = Some q \<Longrightarrow>
     bg_step L A i c fg bg st (st\<lparr>bgBg := BgEnded, bgChan := q\<rparr>)"
| fg_done: "bgFg st = FgExecuting \<Longrightarrow> stoppedTask (bgSched st) fg t \<Longrightarrow>
     bg_step L A i c fg bg st (st\<lparr>bgFg := FgSending (stResult (GetTaskStatus t), stError (GetTaskStatus t))\<rparr>)"
| fg_send: "bgFg st = FgSending x \<Longrightarrow> completeWithResult x (bgChan st) = Some q \<Longrightarrow>
     bg_step L A i c fg bg st (st\<lparr>bgFg := FgEnded, bgChan := q\<rparr>)"
| watch_spawn: "bgFg st = FgExecuting \<Longrightarrow> bgWatch st = FgUnwatched \<Longrightarrow>
     bg_step L A i c fg bg st (st\<lparr>bgWatch := FgHead TaskResultNone\<rparr>)"
| watch_nil: "bgWatch st = FgHead old \<Longrightarrow> GetTaskResultUpdateChan fg old (bgSched st) = (None, s') \<Longrightarrow>
     bg_step L A i c fg bg st (st\<lparr>bgWatch := FgCheck old, bgSched := s'\<rparr>)"
| watch_wait: "bgWatch st = FgHead old \<Longrightarrow> GetTaskResultUpdateChan fg old (bgSched st) = (Some n, s') \<Longrightarrow>
     bg_step L A i c fg bg st (st\<lparr>bgWatch := FgWait old n, bgSched := s'\<rparr>)"
| watch_ctx: "bgWatch st = FgWait old n \<Longrightarrow> bg_step L A i c fg bg st (st\<lparr>bgWatch := FgReturned\<rparr>)"
| watch_woken: "bgWatch st = FgWait old n \<Longrightarrow> n \<in> set (closedChans (bgSched st)) \<Longrightarrow>
     bg_step L A i c fg bg st (st\<lparr>bgWatch := FgCheck old\<rparr>)"
| watch_same: "bgWatch st = FgCheck old \<Longrightarrow> getTaskState (bgSched st) fg = Some t \<Longrightarrow>
     stResult (GetTaskStatus t) = old \<Longrightarrow> bg_step L A i c fg bg st (st\<lparr>bgWatch := FgHead old\<rparr>)"
| watch_new: "bgWatch st = FgCheck old \<Longrightarrow> getTaskState (bgSched st) fg = Some t \<Longrightarrow>
     stResult (GetTaskStatus t) = r \<Longrightarrow> r \<noteq> old \<Longrightarrow>
     bg_step L A i c fg bg st (st\<lparr>bgWatch :=
       (if bcExitOnForegroundSuccess c \<and> r = TaskResultSuccess then FgComplete (TaskResultSuccess, None)
        else if bcExitOnForegroundFailure c \<and> r = TaskResultFailure
        then FgComplete (TaskResultFailure, stError (GetTaskStatus t))
        else FgReport r)\<rparr>)"
| watch_complete: "bgWatch st = FgComplete x \<Longrightarrow> completeWithResult x (bgChan st) = Some q \<Longrightarrow>
     bg_step L A i c fg bg st (st\<lparr>bgWatch := FgReturned, bgChan := q\<rparr>)"
| watch_report: "bgWatch st = FgReport r \<Longrightarrow> ctxSetResult L i r (bgSched st) = Some s' \<Longrightarrow>
     bg_step L A i c fg bg st (st\<lparr>bgWatch := FgHead r, bgSched := s'\<rparr>)"
| main_receive: "bgMain st = BgReceive \<Longrightarrow> bgChan st = Some (x # q) \<Longrightarrow> ctxSetResult L i (fst x) (bgSched st) = Some s' \<Longrightarrow>
     bg_step L A i c fg bg st (st\<lparr>bgMain := BgReceived x, bgChan := Some q, bgSched := s'\<rparr>)"
| main_cancel: "bgMain st = BgReceived x \<Longrightarrow>
     bg_step L A i c fg bg st (st\<lparr>bgMain := BgWaiting x, bgChan := None, bgCancelled := True\<rparr>)"
| main_end: "bgMain st = BgWaiting x \<Longrightarrow> bgFg st = FgEnded \<Longrightarrow>
     bg_step L A i c fg bg st (st\<lparr>bgMain := BgReturned x\<rparr>)"

abbreviation bg_steps ::
    "sched_libs \<Rightarrow> nat set \<Rightarrow> nat \<Rightarrow> BackgroundConfig \<Rightarrow> nat \<Rightarrow> nat \<Rightarrow> bg_state \<Rightarrow> bg_state \<Rightarrow> bool" where
  "bg_steps L A i c fg bg \<equiv> (bg_step L A i c fg bg)\<^sup>*\<^sup>*"

section \<open>The watcher of \<open>run_task_options\<close>\<close>

text \<open>The result to forward for a result of the child.\<close>

definition optionsForward :: "OptionsConfig \<Rightarrow> TaskResult \<Rightarrow> TaskResult" where
  "optionsForward c currentResult =
     (if ocInvertResult c
      then (case currentResult of
              TaskResultNone \<Rightarrow> TaskResultSuccess
            | TaskResultSuccess \<Rightarrow> TaskResultNone
            | TaskResultFailure \<Rightarrow>
                if ocExpectFailure c \<or> ocIgnoreFailure c then TaskResultSuccess else TaskResultFailure)
      else currentResult)"

text \<open>\<open>watchTaskResult\<close>; its end with \<open>True\<close> has cancelled the context of the child.\<close>

datatype options_watch =
    OptHead TaskResult
  | OptWait TaskResult nat
  | OptCheck TaskResult
  | OptReturned bool

inductive options_watch_step ::
    "sched_libs \<Rightarrow> nat \<Rightarrow> OptionsConfig \<Rightarrow> nat \<Rightarrow> bool \<Rightarrow> options_watch \<times> scheduler \<Rightarrow> options_watch \<times> scheduler \<Rightarrow> bool"
  for L :: sched_libs and i :: nat and c :: OptionsConfig and j :: nat and ctxDone :: bool where
  opt_nil: "GetTaskResultUpdateChan j old s = (None, s') \<Longrightarrow>
     options_watch_step L i c j ctxDone (OptHead old, s) (OptCheck old, s')"
| opt_chan: "GetTaskResultUpdateChan j old s = (Some n, s') \<Longrightarrow>
     options_watch_step L i c j ctxDone (OptHead old, s) (OptWait old n, s')"
| opt_done: "ctxDone \<Longrightarrow> options_watch_step L i c j ctxDone (OptWait old n, s) (OptReturned False, s)"
| opt_woken: "n \<in> set (closedChans s) \<Longrightarrow>
     options_watch_step L i c j ctxDone (OptWait old n, s) (OptCheck old, s)"
| opt_same: "getTaskState s j = Some t \<Longrightarrow> stResult (GetTaskStatus t) = old \<Longrightarrow>
     options_watch_step L i c j ctxDone (OptCheck old, s) (OptHead old, s)"
| opt_new: "getTaskState s j = Some t \<Longrightarrow> stResult (GetTaskStatus t) = r \<Longrightarrow> r \<noteq> old \<Longrightarrow>
     (if ocPropagateResult c then ctxSetResult L i (optionsForward c r) s else Some s) = Some s' \<Longrightarrow>
     options_watch_step L i c j ctxDone (OptCheck old, s) (if ocExitOnResult c then OptReturned True else OptHead r, s')"

section \<open>Every send goes through\<close>

definition pendingSends :: "bg_state \<Rightarrow> nat" where
  "pendingSends st =
     (if bgBg st = BgEnded then 0 else 1) + (if bgFg st = FgEnded then 0 else 1) +
     (if bgWatch st = FgReturned then 0 else 1)"

definition bg_inv :: "bg_state \<Rightarrow> bool" where
  "bg_inv st \<longleftrightarrow>
     (case bgChan st of
        None \<Rightarrow> (\<exists>x. bgMain st = BgWaiting x \<or> bgMain st = BgReturned x)
      | Some q \<Rightarrow> length q + pendingSends st \<le> 3 \<and>
          (bgMain st = BgReceive \<and> (bgFg st = FgEnded \<longrightarrow> q \<noteq> []) \<or> (\<exists>x. bgMain st = BgReceived x)))"

lemma completeWithResult_Some:
  "completeWithResult x ch = Some ch' \<longleftrightarrow>
    ch = None \<and> ch' = None \<or> (\<exists>q. ch = Some q \<and> length q < 10 \<and> ch' = Some (q @ [x]))"
  by (auto simp: completeWithResult_def split: option.splits if_splits)

lemma bg_inv_step: "bg_step L A i c fg bg st st' \<Longrightarrow> bg_inv st \<Longrightarrow> bg_inv st'"
  by (induction rule: bg_step.induct)
     (auto simp: bg_inv_def pendingSends_def completeWithResult_Some split: option.splits if_splits)

lemma bg_inv_start: "bg_inv (backgroundStart bg s)"
  by (simp add: bg_inv_def backgroundStart_def pendingSends_def)

lemma bg_inv_steps: "bg_steps L A i c fg bg (backgroundStart bg s) st \<Longrightarrow> bg_inv st"
  by (induction rule: rtranclp_induct) (auto intro: bg_inv_step bg_inv_start)

text \<open>C13. \<open>run_task_background\<close> cannot hang on its result channel: whoever has a result to send finds
  room in it, although senders hold the lock that \<open>Execute\<close> needs, and once the foreground task has
  ended a result is there for \<open>Execute\<close> or it has one already.
\<close>

theorem run_task_background_completes:
  assumes "bg_steps L A i c fg bg (backgroundStart bg s) st"
  shows "(pendingSends st > 0 \<longrightarrow> (\<forall>x. completeWithResult x (bgChan st) \<noteq> None)) \<and>
    (bgFg st = FgEnded \<and> bgMain st = BgReceive \<longrightarrow> (\<exists>x q. bgChan st = Some (x # q)))"
  using bg_inv_steps [OF assms]
  by (auto simp: bg_inv_def completeWithResult_def neq_Nil_conv split: option.splits)

section \<open>Where the result comes from\<close>

text \<open>The results that the configuration allows before the foreground task has ended, and the one at its end.\<close>

definition earlyResult :: "BackgroundConfig \<Rightarrow> bg_result \<Rightarrow> bool" where
  "earlyResult c x \<longleftrightarrow>
     (\<exists>r. backgroundResult (bcOnBackgroundComplete c) r = Some x) \<or>
     bcExitOnForegroundSuccess c \<and> x = (TaskResultSuccess, None) \<or>
     bcExitOnForegroundFailure c \<and> fst x = TaskResultFailure"

definition endResult :: "nat \<Rightarrow> scheduler \<Rightarrow> bg_result \<Rightarrow> bool" where
  "endResult fg s x \<longleftrightarrow> (\<exists>t. stoppedTask s fg t \<and> x = (taskResult t, taskError t))"

definition source_inv :: "BackgroundConfig \<Rightarrow> nat \<Rightarrow> bg_state \<Rightarrow> bool" where
  "source_inv c fg st \<longleftrightarrow>
     (\<forall>x. bgBg st = BgSending x \<longrightarrow> earlyResult c x) \<and> (\<forall>x. bgWatch st = FgComplete x \<longrightarrow> earlyResult c x) \<and>
     (\<forall>x. bgFg st = FgSending x \<longrightarrow> endResult fg (bgSched st) x) \<and>
     (\<forall>q. bgChan st = Some q \<longrightarrow> (\<forall>x\<in>set q. earlyResult c x \<or> endResult fg (bgSched st) x)) \<and>
     (\<forall>x. bgMain st = BgReceived x \<or> bgMain st = BgWaiting x \<or> bgMain st = BgReturned x \<longrightarrow>
        earlyResult c x \<or> endResult fg (bgSched st) x)"

lemma endResult_keeps: "keepsEnd fg s s' \<Longrightarrow> endResult fg s x \<Longrightarrow> endResult fg s' x"
  by (fastforce simp: endResult_def keepsEnd_def)

lemma source_inv_sched: "source_inv c fg st \<Longrightarrow> keepsEnd fg (bgSched st) s' \<Longrightarrow> source_inv c fg (st\<lparr>bgSched := s'\<rparr>)"
  using endResult_keeps unfolding source_inv_def by fastforce

lemma keepsEnd_chan: "GetTaskResultUpdateChan j old s = (ch, s') \<Longrightarrow> keepsEnd fg s s'"
  by (auto simp: GetTaskResultUpdateChan_def keepsEnd_def stoppedTask_def split: option.splits if_splits)

lemma keepsEnd_result:
  assumes "ctxSetResult L i r s = Some s'" and "i \<noteq> fg"
  shows "keepsEnd fg s s'"
proof -
  have set: "setTaskResult L i r True s = Some s'" using assms(1) by (simp add: ctxSetResult_def)
  obtain t where "getTaskState s i = Some t" using setTaskResult_known [OF set] by blast
  from setTaskResult_fields(1) [OF set this, of fg] assms(2) show ?thesis by (auto simp: keepsEnd_def stoppedTask_def)
qed

lemma source_inv_step:
  assumes "bg_step L A i c fg bg st st'" and "source_inv c fg st" and "i \<noteq> fg"
  shows "source_inv c fg st'"
  using assms
proof (induction rule: bg_step.induct)
  case (bg_env st s')
  then show ?case by (blast intro: source_inv_sched)
next
  case (watch_nil st old s')
  from source_inv_sched [OF watch_nil(3) keepsEnd_chan [OF watch_nil(2)]] show ?case by (simp add: source_inv_def)
next
  case (watch_wait st old n s')
  from source_inv_sched [OF watch_wait(3) keepsEnd_chan [OF watch_wait(2)]] show ?case by (simp add: source_inv_def)
next
  case (watch_report st r s')
  from source_inv_sched [OF watch_report(3) keepsEnd_result [OF watch_report(2,4)]] show ?case
    by (simp add: source_inv_def)
next
  case (main_receive st x q s')
  from source_inv_sched [OF main_receive(4) keepsEnd_result [OF main_receive(3,5)]] main_receive(1,2) show ?case
    by (simp add: source_inv_def)
next
  case (fg_done st t)
  then show ?case by (auto simp: source_inv_def endResult_def GetTaskStatus_def)
next
  case (bg_done st t)
  have "backgroundResult (bcOnBackgroundComplete c) r = Some x \<Longrightarrow> earlyResult c x" for r x
    by (auto simp: earlyResult_def)
  then show ?case using bg_done(4) by (auto simp: source_inv_def split: option.splits)
next
  case (watch_new st old t r)
  have "bcExitOnForegroundSuccess c \<Longrightarrow> earlyResult c (TaskResultSuccess, None)"
    "bcExitOnForegroundFailure c \<Longrightarrow> earlyResult c (TaskResultFailure, e)" for e
    by (simp_all add: earlyResult_def)
  then show ?case using watch_new(5) by (auto simp: source_inv_def split: if_splits)
qed (auto simp: source_inv_def completeWithResult_Some simp del: split_paired_All)

lemma source_inv_start: "source_inv c fg (backgroundStart bg s)"
  by (simp add: source_inv_def backgroundStart_def)

text \<open>The result and error \<open>run_task_background\<close> returns are the ones the foreground task has stopped
  with, unless the configuration asks for an early end: by the completion of the background task
  (\<open>onBackgroundComplete\<close>) or by a result of the foreground task (\<open>exitOnForegroundSuccess\<close>,
  \<open>exitOnForegroundFailure\<close>). In every case the foreground goroutine has ended.
\<close>

theorem run_task_background_result:
  assumes "bg_steps L A i c fg bg (backgroundStart bg s) st" and "i \<noteq> fg" and "bgMain st = BgReturned (r, err)"
  shows "(\<exists>t. stoppedTask (bgSched st) fg t \<and> r = taskResult t \<and> err = taskError t) \<or>
    (\<exists>res. backgroundResult (bcOnBackgroundComplete c) res = Some (r, err)) \<or>
    bcExitOnForegroundSuccess c \<and> r = TaskResultSuccess \<and> err = None \<or>
    bcExitOnForegroundFailure c \<and> r = TaskResultFailure"
proof -
  have "source_inv c fg st"
    using assms(1)
    by (induction rule: rtranclp_induct) (auto intro: source_inv_step [OF _ _ assms(2)] source_inv_start)
  then have "earlyResult c (r, err) \<or> endResult fg (bgSched st) (r, err)"
    using assms(3) by (simp add: source_inv_def)
  then show ?thesis by (auto simp: earlyResult_def endResult_def)
qed

section \<open>A run\<close>

text \<open>Task 1 of \<open>two_sleeps\<close> as the foreground task of task 2, without a background task.\<close>

definition bg_sent :: bg_state where
  "bg_sent = (backgroundStart 0 demo_stopped)\<lparr>bgFg := FgEnded, bgChan := Some [(TaskResultSuccess, None)]\<rparr>"

lemma demo_stopped_task:
  "\<exists>t. stoppedTask demo_stopped 1 t \<and> taskResult t = TaskResultSuccess \<and> taskError t = None"
proof -
  have "map_option taskError (getTaskState demo_stopped 1) = Some None" by code_simp
  then show ?thesis using demo_task(4) by (auto simp: stoppedTask_def)
qed

lemma bg_demo_env:
  shows "bg_step (quiet_libs (ExecReturned None)) {1} 2 c 1 0 (st\<lparr>bgSched := two_sleeps\<rparr>) (st\<lparr>bgSched := demo_started\<rparr>)"
    and "bg_step (quiet_libs (ExecReturned None)) {1} 2 c 1 0 (st\<lparr>bgSched := demo_started\<rparr>) (st\<lparr>bgSched := demo_passed\<rparr>)"
    and "bg_step (quiet_libs (ExecReturned None)) {1} 2 c 1 0 (st\<lparr>bgSched := demo_passed\<rparr>) (st\<lparr>bgSched := demo_stopped\<rparr>)"
proof -
  let ?L = "quiet_libs (ExecReturned None)"
  have "keepsEnd 1 two_sleeps s'" "keepsEnd 1 demo_started s'" "keepsEnd 1 demo_passed s'" for s'
    using demo_task by (auto simp: keepsEnd_def stoppedTask_def)
  then show "bg_step ?L {1} 2 c 1 0 (st\<lparr>bgSched := two_sleeps\<rparr>) (st\<lparr>bgSched := demo_started\<rparr>)"
    "bg_step ?L {1} 2 c 1 0 (st\<lparr>bgSched := demo_started\<rparr>) (st\<lparr>bgSched := demo_passed\<rparr>)"
    "bg_step ?L {1} 2 c 1 0 (st\<lparr>bgSched := demo_passed\<rparr>) (st\<lparr>bgSched := demo_stopped\<rparr>)"
    using bg_env [of ?L "{1}" "st\<lparr>bgSched := two_sleeps\<rparr>"] bg_env [of ?L "{1}" "st\<lparr>bgSched := demo_started\<rparr>"]
      bg_env [of ?L "{1}" "st\<lparr>bgSched := demo_passed\<rparr>"] demo_sched_steps by simp_all
qed

lemma bg_demo_run: "bg_steps (quiet_libs (ExecReturned None)) {1} 2 c 1 0 (backgroundStart 0 two_sleeps) bg_sent"
proof -
  let ?R = "bg_step (quiet_libs (ExecReturned None)) {1} 2 c 1 0"
  let ?s0 = "backgroundStart 0 two_sleeps"
  obtain t where t: "stoppedTask demo_stopped 1 t" "taskResult t = TaskResultSuccess" "taskError t = None"
    using demo_stopped_task by blast
  define a where "a = ?s0\<lparr>bgSched := demo_stopped\<rparr>"
  define b where "b = a\<lparr>bgFg := FgSending (TaskResultSuccess, None)\<rparr>"
  note defs = a_def b_def bg_sent_def backgroundStart_def
  have "?R ?s0 (?s0\<lparr>bgSched := demo_started\<rparr>)" using bg_demo_env(1) [of c ?s0] by (simp add: backgroundStart_def)
  moreover have "?R (?s0\<lparr>bgSched := demo_started\<rparr>) (?s0\<lparr>bgSched := demo_passed\<rparr>)" "?R (?s0\<lparr>bgSched := demo_passed\<rparr>) a"
    unfolding a_def by (rule bg_demo_env)+
  moreover have "?R a b" using fg_done [of a 1 t] t by (simp add: defs GetTaskStatus_def)
  moreover have "?R b bg_sent"
    using fg_send [of b "(TaskResultSuccess, None)"] by (simp add: defs completeWithResult_def)
  ultimately show ?thesis by (meson converse_rtranclp_into_rtranclp rtranclp.rtrancl_refl)
qed

theorem run_task_background_completes_witness:
  "bg_steps (quiet_libs (ExecReturned None)) {1} 2 BackgroundDefault 1 0 (backgroundStart 0 two_sleeps) bg_sent \<and>
     (\<exists>x q. bgChan bg_sent = Some (x # q)) \<and> (\<forall>x. completeWithResult x (bgChan bg_sent) \<noteq> None)"
proof -
  have "bgFg bg_sent = FgEnded" "bgMain bg_sent = BgReceive" "pendingSends bg_sent > 0"
    by (simp_all add: bg_sent_def backgroundStart_def pendingSends_def)
  then show ?thesis
    using run_task_background_completes [OF bg_demo_run] bg_demo_run by blast
qed

theorem run_task_background_result_witness:
  "\<exists>st. bg_steps (quiet_libs (ExecReturned None)) {1} 2 BackgroundDefault 1 0 (backgroundStart 0 two_sleeps) st \<and>
     bgMain st = BgReturned (TaskResultSuccess, None) \<and>
     (\<exists>t. stoppedTask (bgSched st) 1 t \<and> taskResult t = TaskResultSuccess)"
proof -
  let ?R = "bg_step (quiet_libs (ExecReturned None)) {1} 2 BackgroundDefault 1 0"
  define a where "a = bg_sent\<lparr>bgMain := BgReceived (TaskResultSuccess, None), bgChan := Some [], bgSched := demo_decided\<rparr>"
  define b where "b = a\<lparr>bgMain := BgWaiting (TaskResultSuccess, None), bgChan := None, bgCancelled := True\<rparr>"
  define d where "d = b\<lparr>bgMain := BgReturned (TaskResultSuccess, None)\<rparr>"
  note defs = a_def b_def d_def bg_sent_def backgroundStart_def
  have "?R bg_sent a"
    using main_receive [of bg_sent "(TaskResultSuccess, None)" "[]"] demo_ops(4) by (simp add: defs)
  moreover have "?R a b" using main_cancel [of a "(TaskResultSuccess, None)"] by (simp add: defs)
  moreover have "?R b d" using main_end [of b "(TaskResultSuccess, None)"] by (simp add: defs)
  ultimately have run: "?R\<^sup>*\<^sup>* (backgroundStart 0 two_sleeps) d"
    using bg_demo_run [of BackgroundDefault] by (meson rtranclp.rtrancl_into_rtrancl)
  have d: "bgMain d = BgReturned (TaskResultSuccess, None)" by (simp add: d_def)
  have "\<exists>t. stoppedTask (bgSched d) 1 t \<and> TaskResultSuccess = taskResult t"
    using run_task_background_result [OF run _ d] by (auto simp: BackgroundDefault_def backgroundResult_def)
  then show ?thesis using run d by (metis (full_types))
qed

section \<open>Inverted results\<close>

text \<open>
  What \<open>invertResult\<close> forwards for a child that has a result: never a failure for a success, and
  never a success for a failure unless \<open>expectFailure\<close> or \<open>ignoreFailure\<close> is set as well.
\<close>

lemma optionsForward_invert:
  assumes "ocInvertResult c"
  shows "optionsForward c TaskResultSuccess = TaskResultNone"
    and "optionsForward c TaskResultFailure = TaskResultSuccess \<longleftrightarrow> ocExpectFailure c \<or> ocIgnoreFailure c"
  using assms by (simp_all add: optionsForward_def)

end
