(* ===== verification/TaskOrder.thy ===== *)
theory TaskOrder
  imports TaskExecution "HOL-Library.List_Lexorder" "HOL-Library.Sublist"
begin

text \<open>
  The order of \<open>sortTaskList\<close>. The loop of its comparator, which walks up the parent pointers of
  two tasks, ends for every pair of tasks and decides the lexicographic order of their paths from
  the root, so \<open>GetAllTasks\<close> lists every task once, in pre-order of the task tree.
\<close>

section \<open>Paths\<close>

text \<open>The indices from the root task down to a task. Parents have smaller indices.\<close>

fun task_path :: "scheduler \<Rightarrow> nat \<Rightarrow> nat list" where
  "task_path s i =
     (case getTaskState s i of
        None \<Rightarrow> []
      | Some t \<Rightarrow>
          (case parentState t of
             None \<Rightarrow> [i]
           | Some p \<Rightarrow> if p < i then task_path s p @ [i] else [i]))"

declare task_path.simps [simp del]

lemma task_path_root: "getTaskState s i = Some t \<Longrightarrow> parentState t = None \<Longrightarrow> task_path s i = [i]"
  by (simp add: task_path.simps)

lemma task_path_child:
  "tree_inv s \<Longrightarrow> getTaskState s i = Some t \<Longrightarrow> parentState t = Some p \<Longrightarrow>
   task_path s i = task_path s p @ [i]"
  using tree_invD(4) [of s i t p] by (simp add: task_path.simps [of s i])

lemma task_path_last: "getTaskState s i = Some t \<Longrightarrow> task_path s i \<noteq> [] \<and> last (task_path s i) = i"
  by (simp add: task_path.simps [of s i] split: option.split)

lemma task_path_inj:
  "getTaskState s i = Some t \<Longrightarrow> getTaskState s j = Some u \<Longrightarrow> task_path s i = task_path s j \<Longrightarrow> i = j"
  using task_path_last by metis

lemma task_path_length:
  assumes "tree_inv s" and "getTaskState s i = Some t"
  shows "length (task_path s i) = Suc (taskDepth t)"
  using assms(2)
proof (induction i arbitrary: t rule: less_induct)
  case (less i)
  show ?case
  proof (cases "parentState t")
    case None
    then show ?thesis using less.prems tree_invD(3) [OF assms(1) less.prems] by (simp add: task_path_root)
  next
    case (Some p)
    obtain pt where pt: "getTaskState s p = Some pt" "taskDepth t = Suc (taskDepth pt)"
      using tree_invD(5) [OF assms(1) less.prems Some] by blast
    show ?thesis
      using less.IH [OF tree_invD(4) [OF assms(1) less.prems Some] pt(1)] pt(2)
        task_path_child [OF assms(1) less.prems Some] by simp
  qed
qed

lemma task_depth_less:
  assumes "tree_inv s" and "getTaskState s i = Some t"
  shows "taskDepth t < i"
  using assms(2)
proof (induction i arbitrary: t rule: less_induct)
  case (less i)
  show ?case
  proof (cases "parentState t")
    case None
    then show ?thesis using tree_invD(1) [OF assms(1), of i] tree_invD(3) [OF assms(1) less.prems] less.prems by auto
  next
    case (Some p)
    obtain pt where pt: "getTaskState s p = Some pt" "taskDepth t = Suc (taskDepth pt)"
      using tree_invD(5) [OF assms(1) less.prems Some] by blast
    have "p < i" using tree_invD(4) [OF assms(1) less.prems Some] .
    then show ?thesis using less.IH [OF _ pt(1)] pt(2) by force
  qed
qed

section \<open>Lexicographic order\<close>

lemma lex_append_left:
  fixes xs ys zs :: "nat list"
  assumes "\<not> prefix xs ys"
  shows "xs @ zs < ys \<longleftrightarrow> xs < ys"
  using assms by (induction xs arbitrary: ys) (auto simp: neq_Nil_conv split: list.split, (case_tac ys; auto)+)

lemma lex_append_right:
  fixes xs ys zs :: "nat list"
  assumes "\<not> prefix ys xs"
  shows "xs < ys @ zs \<longleftrightarrow> xs < ys"
  using assms by (induction ys arbitrary: xs) (auto, (case_tac xs; auto)+)

lemma lex_siblings:
  fixes xs :: "nat list"
  shows "xs @ [a] < xs @ [b] \<longleftrightarrow> a < b"
  by (induction xs) auto

lemma lex_prefix:
  fixes xs :: "nat list"
  shows "xs < xs @ [a]" and "\<not> xs @ [a] < xs"
  by (induction xs) auto

section \<open>The comparator\<close>

text \<open>Two tasks with the same parent, or two root tasks, are ordered by their indices.\<close>

lemma task_path_same_parent:
  assumes "tree_inv s" and "getTaskState s i = Some a" and "getTaskState s j = Some b"
    and "parentState a = parentState b"
  shows "task_path s i < task_path s j \<longleftrightarrow> i < j"
proof (cases "parentState a")
  case None
  then show ?thesis using assms by (simp add: task_path_root)
next
  case (Some p)
  then show ?thesis
    using assms task_path_child [OF assms(1,2) Some] task_path_child [OF assms(1,3), of p]
    by (simp add: lex_siblings)
qed

lemma prefix_equal_length: "prefix xs ys \<Longrightarrow> length ys \<le> length xs \<Longrightarrow> xs = ys"
  by (auto simp: prefix_def)

text \<open>
  One turn of the loop: replacing a deeper task, or both tasks of equal depth, by the parents does
  not change the order of the paths.
\<close>

lemma step_up_left:
  assumes "tree_inv s" and "getTaskState s i = Some a" and "getTaskState s j = Some b"
    and "parentState a = Some p" and "p \<noteq> j" and "taskDepth b < taskDepth a"
  shows "task_path s i < task_path s j \<longleftrightarrow> task_path s p < task_path s j"
proof -
  obtain pt where pt: "getTaskState s p = Some pt" "taskDepth a = Suc (taskDepth pt)"
    using tree_invD(5) [OF assms(1,2,4)] by blast
  have "length (task_path s j) \<le> length (task_path s p)"
    using task_path_length [OF assms(1) pt(1)] task_path_length [OF assms(1,3)] assms(6) pt(2) by simp
  then have "\<not> prefix (task_path s p) (task_path s j)"
    using task_path_inj [OF pt(1) assms(3)] assms(5) prefix_equal_length by blast
  then show ?thesis using task_path_child [OF assms(1,2,4)] by (simp add: lex_append_left)
qed

lemma step_up_right:
  assumes "tree_inv s" and "getTaskState s i = Some a" and "getTaskState s j = Some b"
    and "parentState b = Some p" and "p \<noteq> i" and "taskDepth a < taskDepth b"
  shows "task_path s i < task_path s j \<longleftrightarrow> task_path s i < task_path s p"
proof -
  obtain pt where pt: "getTaskState s p = Some pt" "taskDepth b = Suc (taskDepth pt)"
    using tree_invD(5) [OF assms(1,3,4)] by blast
  have "length (task_path s i) \<le> length (task_path s p)"
    using task_path_length [OF assms(1) pt(1)] task_path_length [OF assms(1,2)] assms(6) pt(2) by simp
  then have "\<not> prefix (task_path s p) (task_path s i)"
    using task_path_inj [OF pt(1) assms(2)] assms(5) prefix_equal_length by blast
  then show ?thesis using task_path_child [OF assms(1,3,4)] by (simp add: lex_append_right)
qed

lemma step_up_both:
  assumes "tree_inv s" and "getTaskState s i = Some a" and "getTaskState s j = Some b"
    and "parentState a = Some p" and "parentState b = Some q" and "p \<noteq> q" and "taskDepth a = taskDepth b"
  shows "task_path s i < task_path s j \<longleftrightarrow> task_path s p < task_path s q"
proof -
  obtain pt qt where pt: "getTaskState s p = Some pt" "getTaskState s q = Some qt" "taskDepth pt = taskDepth qt"
    using tree_invD(5) [OF assms(1,2,4)] tree_invD(5) [OF assms(1,3,5)] assms(7) by auto
  have len: "length (task_path s p) = length (task_path s q)"
    using task_path_length [OF assms(1) pt(1)] task_path_length [OF assms(1) pt(2)] pt(3) by simp
  have ne: "task_path s p \<noteq> task_path s q" using task_path_inj [OF pt(1,2)] assms(6) by blast
  have "\<not> prefix (task_path s p) (task_path s q @ [j])"
    using len ne by (auto simp: prefix_snoc dest: prefix_equal_length)
  moreover have "\<not> prefix (task_path s q) (task_path s p)"
    using len ne prefix_equal_length by fastforce
  ultimately show ?thesis
    using task_path_child [OF assms(1,2,4)] task_path_child [OF assms(1,3,5)]
    by (simp add: lex_append_left lex_append_right)
qed

lemma sortLoop_path:
  assumes "tree_inv s" and "getTaskState s i = Some a" and "getTaskState s j = Some b"
    and "parentState a \<noteq> parentState b" and "taskDepth a + taskDepth b < n"
  shows "sortLoop n s a b = Some (task_path s i < task_path s j)"
  using assms(2-5)
proof (induction n arbitrary: i j a b)
  case (Suc n)
  note ti = assms(1) and a = Suc.prems(1) and b = Suc.prems(2)
  have ia: "taskIdx a = i" "taskIdx b = j" using tree_invD(2) [OF ti a] tree_invD(2) [OF ti b] by auto
  have turn: "(if parentState a' = parentState b' then Some (taskIdx a' < taskIdx b') else sortLoop n s a' b') =
      Some (task_path s i < task_path s j)"
    if a': "getTaskState s p = Some a'" and b': "getTaskState s q = Some b'"
      and eq: "task_path s i < task_path s j \<longleftrightarrow> task_path s p < task_path s q"
      and d: "taskDepth a' + taskDepth b' < n" for p q a' b'
  proof (cases "parentState a' = parentState b'")
    case True
    then show ?thesis
      using task_path_same_parent [OF ti a' b' True] eq tree_invD(2) [OF ti a'] tree_invD(2) [OF ti b'] by simp
  next
    case False
    then show ?thesis using Suc.IH [OF a' b' False d] eq by simp
  qed
  consider (ab) "parentState a = Some j" | (ba) "parentState a \<noteq> Some j" "parentState b = Some i"
    | (up) "parentState a \<noteq> Some j" "parentState b \<noteq> Some i" by blast
  then show ?case
  proof cases
    case ab
    then show ?thesis using task_path_child [OF ti a ab] ia by (simp add: sortLoop.simps(2) lex_prefix)
  next
    case ba
    then show ?thesis using task_path_child [OF ti b ba(2)] ia by (simp add: sortLoop.simps(2) lex_prefix)
  next
    case up
    consider (l) "taskDepth b < taskDepth a" | (r) "taskDepth a < taskDepth b" | (e) "taskDepth a = taskDepth b"
      by linarith
    then show ?thesis
    proof cases
      case l
      then obtain p where p: "parentState a = Some p" using tree_invD(3) [OF ti a] by (cases "parentState a") auto
      obtain pt where pt: "getTaskState s p = Some pt" "taskDepth a = Suc (taskDepth pt)"
        using tree_invD(5) [OF ti a p] by blast
      have "p \<noteq> j" using up p by auto
      from turn [OF pt(1) b step_up_left [OF ti a b p this l]] show ?thesis
        using up l p pt ia Suc.prems(4) by (simp add: sortLoop.simps(2))
    next
      case r
      then obtain p where p: "parentState b = Some p" using tree_invD(3) [OF ti b] by (cases "parentState b") auto
      obtain pt where pt: "getTaskState s p = Some pt" "taskDepth b = Suc (taskDepth pt)"
        using tree_invD(5) [OF ti b p] by blast
      have "p \<noteq> i" using up p by auto
      from turn [OF a pt(1) step_up_right [OF ti a b p this r]] show ?thesis
        using up r p pt ia Suc.prems(4) by (simp add: sortLoop.simps(2))
    next
      case e
      obtain p q where p: "parentState a = Some p" "parentState b = Some q"
        using tree_invD(3,5) [OF ti a] tree_invD(3,5) [OF ti b] e Suc.prems(3)
        by (cases "parentState a"; cases "parentState b") force+
      obtain pt qt where pt: "getTaskState s p = Some pt" "taskDepth a = Suc (taskDepth pt)"
          "getTaskState s q = Some qt" "taskDepth b = Suc (taskDepth qt)"
        using tree_invD(5) [OF ti a p(1)] tree_invD(5) [OF ti b p(2)] by blast
      have "p \<noteq> q" using p Suc.prems(3) by auto
      from turn [OF pt(1,3) step_up_both [OF ti a b p this e]] show ?thesis
        using up e p pt ia Suc.prems(4) by (simp add: sortLoop.simps(2))
    qed
  qed
qed simp

lemma taskLess_path:
  assumes "tree_inv s" and "getTaskState s i = Some a" and "getTaskState s j = Some b"
  shows "taskLess (2 * taskCount s + 1) s i j = Some (task_path s i < task_path s j)"
proof -
  have "taskDepth a < taskCount s" "taskDepth b < taskCount s"
    using task_depth_less [OF assms(1,2)] task_depth_less [OF assms(1,3)]
      tree_invD(1) [OF assms(1), of i] tree_invD(1) [OF assms(1), of j] assms(2,3) by auto
  then have "taskDepth a + taskDepth b < 2 * taskCount s + 1" by simp
  then show ?thesis
    using assms sortLoop_path [OF assms] task_path_same_parent [OF assms] tree_invD(2) [OF assms(1)]
    by (simp add: taskLess_def)
qed

section \<open>The task lists\<close>

lemma sortTaskList_preorder:
  assumes "tree_inv s" and "\<forall>i\<in>set xs. getTaskState s i \<noteq> None" and "distinct xs"
  shows "mset (sortTaskList (2 * taskCount s + 1) s xs) = mset xs \<and>
    sorted_wrt (\<lambda>i j. task_path s i < task_path s j) (sortTaskList (2 * taskCount s + 1) s xs)"
proof -
  let ?lt = "\<lambda>i j. taskLess (2 * taskCount s + 1) s i j = Some True"
  let ?ys = "sortTaskList (2 * taskCount s + 1) s xs"
  have lt: "?lt i j \<longleftrightarrow> task_path s i < task_path s j" if "i \<in> set xs" "j \<in> set xs" for i j
    using taskLess_path [OF assms(1), of i _ j] assms(2) that by fastforce
  have inj: "i = j" if "i \<in> set xs" "j \<in> set xs" "task_path s i = task_path s j" for i j
    using task_path_inj [of s i _ j] assms(2) that by fastforce
  have ord: "slice_order ?lt (set xs)"
    unfolding slice_order_def using lt by (auto intro: less_asym)
  have sorted: "sorted_wrt (\<lambda>i j. \<not> ?lt j i) ?ys"
    unfolding sortTaskList_def by (rule go_sort.srt_sorted [OF ord])
  have set: "set ?ys = set xs" and dist: "distinct ?ys"
    unfolding sortTaskList_def using assms(3) by (simp_all add: go_sort.srt_set go_sort.srt_distinct)
  have "sorted_wrt (\<lambda>i j. task_path s i < task_path s j) ?ys"
    unfolding sorted_wrt_iff_nth_less
  proof (intro allI impI)
    fix m n
    assume mn: "m < n" "n < length ?ys"
    then have mem: "?ys ! m \<in> set xs" "?ys ! n \<in> set xs" using set nth_mem by force+
    have "\<not> ?lt (?ys ! n) (?ys ! m)" using sorted mn by (simp add: sorted_wrt_iff_nth_less)
    moreover have "?ys ! m \<noteq> ?ys ! n" using dist mn by (simp add: distinct_conv_nth)
    ultimately show "task_path s (?ys ! m) < task_path s (?ys ! n)"
      using lt [OF mem(2,1)] inj [OF mem] by (meson not_less_iff_gr_or_eq)
  qed
  moreover have "mset ?ys = mset xs" unfolding sortTaskList_def by (rule go_sort.srt_mset)
  ultimately show ?thesis by blast
qed

text \<open>C37. \<open>GetAllTasks\<close> and \<open>GetAllCleanupTasks\<close>: the comparator ends for every pair of tasks, and each
  list is a permutation of the tasks of its kind in pre-order of the task tree, that is sorted by
  the path of indices from the root task, so a task stands after its parent and before the next
  sibling of its parent.
\<close>

theorem GetAllTasks_preorder:
  assumes "sched_inv s"
  shows "mset (GetAllTasks s) = mset (allTasks s) \<and>
    mset (GetAllCleanupTasks s) = mset (allCleanupTasks s) \<and>
    sorted_wrt (\<lambda>i j. task_path s i < task_path s j) (GetAllTasks s) \<and>
    sorted_wrt (\<lambda>i j. task_path s i < task_path s j) (GetAllCleanupTasks s) \<and>
    (\<forall>i j. getTaskState s i \<noteq> None \<and> getTaskState s j \<noteq> None \<longrightarrow>
       taskLess (2 * taskCount s + 1) s i j = Some (task_path s i < task_path s j))"
proof -
  note ti = sched_invD(1) [OF assms] and li = sched_invD(2) [OF assms, unfolded list_inv_def]
  have "distinct (allTasks s)" "distinct (allCleanupTasks s)"
    using li strict_sorted_iff by blast+
  then show ?thesis
    using sortTaskList_preorder [OF ti, of "allTasks s"] sortTaskList_preorder [OF ti, of "allCleanupTasks s"]
      taskLess_path [OF ti] li
    unfolding GetAllTasks_def GetAllCleanupTasks_def by blast
qed

text \<open>A tree with two root tasks where the older one gets a child last.\<close>

definition late_child :: scheduler where
  "late_child = (case newTaskState (quiet_libs (ExecReturned None)) sleep_options (Some 1) None False two_sleeps of
     Some (r, s) \<Rightarrow> s | None \<Rightarrow> two_sleeps)"

theorem GetAllTasks_preorder_witness:
  "sched_inv late_child \<and>
   mset (GetAllTasks late_child) = mset (allTasks late_child) \<and>
   mset (GetAllCleanupTasks late_child) = mset (allCleanupTasks late_child) \<and>
   sorted_wrt (\<lambda>i j. task_path late_child i < task_path late_child j) (GetAllTasks late_child) \<and>
   allTasks late_child = [1, 2, 3] \<and> GetAllTasks late_child = [1, 3, 2]"
proof -
  obtain t where t: "getTaskState two_sleeps 1 = Some t" using two_sleeps_tasks(6) [of 1] by blast
  have ev: "allTasks late_child = [1, 2, 3]" "GetAllTasks late_child = [1, 3, 2]"
    by code_simp+
  have "sched_inv late_child"
  proof (cases "newTaskState (quiet_libs (ExecReturned None)) sleep_options (Some 1) None False two_sleeps")
    case None
    then show ?thesis using two_sleeps_tasks(1) by (simp add: late_child_def)
  next
    case (Some p)
    have "valid_parent two_sleeps (Some 1) False"
      using t two_sleeps_tasks(2) sched_invD(2) [OF two_sleeps_tasks(1)]
      by (auto simp: valid_parent_def list_inv_def)
    from sched_inv_newTaskState [OF two_sleeps_tasks(1) this, of None "quiet_libs (ExecReturned None)" sleep_options "fst p" "snd p"]
    show ?thesis using Some by (simp add: late_child_def case_prod_unfold)
  qed
  then show ?thesis using GetAllTasks_preorder [of late_child] ev by blast
qed

end
