(* ===== verification/TestRun.thy ===== *)
theory TestRun
  imports FlowTasks
begin

text \<open>
  Test descriptors (\<open>test/descriptor.go\<close>) and test runs (\<open>test/test.go\<close>): loading the configuration of
  a test into a variable scope, creating a run with its row in the database and its task
  scheduler, running it, and aborting it.
\<close>

section \<open>Data\<close>

datatype TestStatus =
    TestStatusPending
  | TestStatusRunning
  | TestStatusSuccess
  | TestStatusFailure
  | TestStatusSkipped
  | TestStatusAborted

fun statusText :: "TestStatus \<Rightarrow> string" where
  "statusText TestStatusPending = ''pending''"
| "statusText TestStatusRunning = ''running''"
| "statusText TestStatusSuccess = ''success''"
| "statusText TestStatusFailure = ''failure''"
| "statusText TestStatusSkipped = ''skipped''"
| "statusText TestStatusAborted = ''aborted''"

record ExternalTestConfig =
  exID :: string
  exFile :: string
  exName :: string
  exTimeout :: "int option"
  exConfig :: "(string \<times> var_value) list"
  exConfigVars :: "(string \<times> string) list"
  exSchedule :: "TestSchedule option"

text \<open>Config and scope of a descriptor whose loading failed are nil.\<close>

record Descriptor =
  dID :: string
  dSource :: string
  dConfig :: "TestConfig option"
  dVars :: "vref option"
  dErr :: go_error

text \<open>
  What the runs share: the heap of variable scopes, the database and the clock in milliseconds. A
  scheduler holds them while an operation of its test runs.
\<close>

record world =
  wHeap :: var_heap
  wDb :: database
  wClock :: int

record test_run =
  tRunID :: u64
  tScheduler :: "scheduler option"
  tDescriptor :: Descriptor
  tConfig :: TestConfig
  tVariables :: vref
  tDbTestRun :: db_test_run
  tStatus :: TestStatus
  tStartTime :: "int option"
  tStopTime :: "int option"
  tTimeout :: int

definition enterWorld :: "world \<Rightarrow> scheduler \<Rightarrow> scheduler" where
  "enterWorld w s = s\<lparr>varHeap := wHeap w, schedDb := Some (wDb w), clockMilli := wClock w\<rparr>"

definition leaveWorld :: "world \<Rightarrow> scheduler \<Rightarrow> world" where
  "leaveWorld w s =
     \<lparr>wHeap = varHeap s, wDb = (case schedDb s of Some d \<Rightarrow> d | None \<Rightarrow> wDb w), wClock = clockMilli s\<rparr>"

section \<open>Descriptors\<close>

definition NewDescriptor :: "string \<Rightarrow> string \<Rightarrow> TestConfig \<Rightarrow> vref \<Rightarrow> Descriptor" where
  "NewDescriptor testID testSrc config variables =
     \<lparr>dID = testID, dSource = testSrc, dConfig = Some config, dVars = Some variables, dErr = None\<rparr>"

text \<open>
  The settings of a test given in the external test entry win over those of the test file; both are
  kept, as defaults and as variables.
\<close>

definition mergeExternal :: "ExternalTestConfig \<Rightarrow> TestConfig \<Rightarrow> TestConfig" where
  "mergeExternal ext config =
     config\<lparr>cfID := (if exID ext \<noteq> '''' then exID ext else cfID config),
            cfName := (if exName ext \<noteq> '''' then exName ext else cfName config),
            cfTimeout := (case exTimeout ext of Some t \<Rightarrow> t | None \<Rightarrow> cfTimeout config),
            cfSchedule := (case exSchedule ext of Some sch \<Rightarrow> Some sch | None \<Rightarrow> cfSchedule config),
            cfConfig := foldl (\<lambda>m (k, x). AList.update k x m) (cfConfig config) (exConfig ext),
            cfConfigVars := foldl (\<lambda>m (k, x). AList.update k x m) (cfConfigVars config) (exConfigVars ext)\<rparr>"

definition LoadExternalTestConfig ::
    "flow_env \<Rightarrow> sched_libs \<Rightarrow> vref \<Rightarrow> ExternalTestConfig \<Rightarrow> var_heap \<Rightarrow>
     ((string + TestConfig \<times> vref) \<times> var_heap) option" where
  "LoadExternalTestConfig F L globalVars ext h =
     (case readTestFile F (exFile ext) of
        Inl e \<Rightarrow> Some (Inl e, h)
      | Inr file \<Rightarrow>
          do {
            let (h1, testVars) = NewScope h globalVars;
            let h2 = foldl (\<lambda>h (k, x). SetDefaultVar h testVars k x) h1 (cfConfig file);
            let h3 = foldl (\<lambda>h (k, x). SetVar h testVars k x) h2 (exConfig ext);
            let config = mergeExternal ext file;
            (err, h4) \<leftarrow> CopyVars (libs_of L) (depth L) h3 testVars testVars (cfConfigVars config);
            Some (case err of
                    Some e \<Rightarrow> Inl (''error decoding external test configVars '' @ exFile ext @ '': '' @ e)
                  | None \<Rightarrow> Inr (config, testVars), h4)
          })"

fun loadLocalTests ::
    "sched_libs \<Rightarrow> vref \<Rightarrow> nat \<Rightarrow> TestConfig list \<Rightarrow> var_heap \<Rightarrow> (Descriptor list \<times> var_heap) option" where
  "loadLocalTests L globalVars n [] h = Some ([], h)"
| "loadLocalTests L globalVars n (config # configs) h =
     do {
       let testSrc = ''local-'' @ showNat (n + 1);
       let (h1, testVars) = NewScope h globalVars;
       let h2 = foldl (\<lambda>h (k, x). SetVar h testVars k x) h1 (cfConfig config);
       (err, h3) \<leftarrow> CopyVars (libs_of L) (depth L) h2 testVars globalVars (cfConfigVars config);
       let d = \<lparr>dID = (if cfID config = '''' then testSrc else cfID config), dSource = testSrc,
                dConfig = Some config, dVars = Some testVars, dErr = err\<rparr>;
       (ds, h4) \<leftarrow> loadLocalTests L globalVars (n + 1) configs h3;
       Some (d # ds, h4)
     }"

fun loadExternalTests ::
    "flow_env \<Rightarrow> sched_libs \<Rightarrow> vref \<Rightarrow> nat \<Rightarrow> ExternalTestConfig list \<Rightarrow> var_heap \<Rightarrow>
     (Descriptor list \<times> var_heap) option" where
  "loadExternalTests F L globalVars n [] h = Some ([], h)"
| "loadExternalTests F L globalVars n (ext # exts) h =
     do {
       (r, h1) \<leftarrow> LoadExternalTestConfig F L globalVars ext h;
       let testSrc = ''external:'' @ exFile ext;
       let d = (case r of
                  Inl e \<Rightarrow> \<lparr>dID = ''external-'' @ showNat n, dSource = testSrc, dConfig = None, dVars = None,
                            dErr = Some e\<rparr>
                | Inr (config, testVars) \<Rightarrow>
                    \<lparr>dID = (if cfID config \<noteq> '''' then cfID config else ''external-'' @ showNat n),
                     dSource = testSrc, dConfig = Some config, dVars = Some testVars, dErr = None\<rparr>);
       (ds, h2) \<leftarrow> loadExternalTests F L globalVars (n + 1) exts h1;
       Some (d # ds, h2)
     }"

definition LoadTestDescriptors ::
    "flow_env \<Rightarrow> sched_libs \<Rightarrow> vref \<Rightarrow> TestConfig list \<Rightarrow> ExternalTestConfig list \<Rightarrow> var_heap \<Rightarrow>
     (Descriptor list \<times> var_heap) option" where
  "LoadTestDescriptors F L globalVars localTests externalTests h =
     do {
       (ds, h1) \<leftarrow> loadLocalTests L globalVars 0 localTests h;
       (es, h2) \<leftarrow> loadExternalTests F L globalVars 0 externalTests h1;
       Some (ds @ es, h2)
     }"

section \<open>Creating a run\<close>

text \<open>The loops over the tasks and the cleanup tasks of the configuration.\<close>

fun addTasks ::
    "flow_env \<Rightarrow> sched_libs \<Rightarrow> bool \<Rightarrow> var_value list \<Rightarrow> scheduler \<Rightarrow> (go_error \<times> scheduler) option" where
  "addTasks F L cleanup [] s = Some (None, s)"
| "addTasks F L cleanup (raw # raws) s =
     (case ParseTaskOptions F raw of
        Inl e \<Rightarrow> Some (Some e, s)
      | Inr opts \<Rightarrow>
          do {
            (r, s1) \<leftarrow> (if cleanup then AddCleanupTask L opts s else AddRootTask L opts s);
            case r of Inl e \<Rightarrow> Some (Some e, s1) | Inr i \<Rightarrow> addTasks F L cleanup raws s1
          })"

text \<open>
  The row of a new run. The conversion of the timeout to 32 bits is written as if it fitted, which
  it does below 68 years.
\<close>

definition newDbTestRun :: "u64 \<Rightarrow> Descriptor \<Rightarrow> TestConfig \<Rightarrow> string \<Rightarrow> int \<Rightarrow> db_test_run" where
  "newDbTestRun runID d config configYaml timeout =
     \<lparr>trRunID = runID, trTestID = dID d, trName = cfName config, trSource = dSource d,
      trConfig = configYaml, trStartTime = 0, trStopTime = 0, trTimeout = timeout div 1000000000,
      trStatus = statusText TestStatusPending\<rparr>"

definition insertRun :: "(u64 \<Rightarrow> string + string) \<Rightarrow> db_driver \<Rightarrow> db_test_run \<Rightarrow> database \<Rightarrow> string + database" where
  "insertRun json drv run d =
     (case InsertTestRun drv 0 run d of
        Inl e \<Rightarrow> Inl e
      | Inr d1 \<Rightarrow> SetAssertoorState json drv 1 ''test.lastRunId'' (trRunID run) d1)"

definition populateTest ::
    "flow_env \<Rightarrow> sched_libs \<Rightarrow> TestConfig \<Rightarrow> scheduler \<Rightarrow> (go_error \<times> scheduler) option" where
  "populateTest F L config s =
     do {
       (err1, s1) \<leftarrow> addTasks F L False (cfTasks config) s;
       if err1 \<noteq> None then Some (err1, s1) else addTasks F L True (cfCleanupTasks config) s1
     }"

definition CreateTest ::
    "flow_env \<Rightarrow> sched_libs \<Rightarrow> (u64 \<Rightarrow> string + string) \<Rightarrow> u64 \<Rightarrow> Descriptor \<Rightarrow> (string \<times> var_value) list \<Rightarrow> world \<Rightarrow>
     ((string + test_run) \<times> world) option" where
  "CreateTest F L json runID descriptor configOverrides w =
     do {
       config \<leftarrow> dConfig descriptor;
       let timeout = (if cfTimeout config > 0 then cfTimeout config else 0);
       let (h, variables) = NewVariables (wHeap w) (dVars descriptor);
       let h1 = foldl (\<lambda>h (k, x). SetVar h variables k x) h configOverrides;
       varsMap \<leftarrow> GetVarsMap (depth L) h1 variables [] False;
       case yamlVars L varsMap of
         Inl e \<Rightarrow> Some (Inl e, w\<lparr>wHeap := h1\<rparr>)
       | Inr configYaml \<Rightarrow>
           do {
             let run = newDbTestRun runID descriptor config configYaml timeout;
             let (err, d) = RunTransaction (dbDriver L) (insertRun json (dbDriver L) run) (wDb w);
             let w1 = w\<lparr>wHeap := h1, wDb := d\<rparr>;
             case err of
               Some e \<Rightarrow> Some (Inl e, w1)
             | None \<Rightarrow>
                 do {
                   (err1, s1) \<leftarrow> populateTest F L config (enterWorld w1 (NewTaskScheduler (Some d) h1 variables runID));
                   Some (case err1 of
                           Some e \<Rightarrow> Inl e
                         | None \<Rightarrow>
                             Inr \<lparr>tRunID = runID, tScheduler = Some s1, tDescriptor = descriptor, tConfig = config,
                                  tVariables = variables, tDbTestRun = run, tStatus = TestStatusPending,
                                  tStartTime = None, tStopTime = None, tTimeout = timeout\<rparr>,
                         leaveWorld w1 s1)
                 }
           }
     }"

section \<open>Running\<close>

definition updateTestStatus :: "db_driver \<Rightarrow> test_run \<Rightarrow> world \<Rightarrow> go_error \<times> test_run \<times> world" where
  "updateTestStatus drv t w =
     (let row = (tDbTestRun t)\<lparr>trStatus := statusText (tStatus t),
                  trStartTime := (case tStartTime t of None \<Rightarrow> 0 | Some x \<Rightarrow> x),
                  trStopTime := (case tStopTime t of None \<Rightarrow> 0 | Some x \<Rightarrow> x)\<rparr>;
          (err, d) = RunTransaction drv (UpdateTestRunStatus drv 0 row) (wDb w)
      in (err, t\<lparr>tDbTestRun := row\<rparr>, w\<lparr>wDb := d\<rparr>))"

definition Validate :: "test_run \<Rightarrow> go_error \<times> test_run" where
  "Validate t =
     (if tScheduler t = None then (None, t)
      else if GetTaskCount (tScheduler t) = 0
      then (Some (''test '' @ cfName (tConfig t) @ '' has no tasks''), t\<lparr>tStatus := TestStatusFailure\<rparr>)
      else (None, t))"

text \<open>
  The end of \<open>Run\<close>: status and returned error, by the error of the given context, whether \<open>AbortTest\<close>
  was called meanwhile, and the error of \<open>RunTasks\<close>.
\<close>

definition testOutcome :: "go_error \<Rightarrow> bool \<Rightarrow> go_error \<Rightarrow> go_error \<times> TestStatus" where
  "testOutcome parentErr aborted err =
     (if parentErr \<noteq> None then (Some ''test aborted'', TestStatusAborted)
      else if aborted then (Some ''test aborted'', TestStatusAborted)
      else if err \<noteq> None then (err, TestStatusFailure)
      else (None, TestStatusSuccess))"

definition Run :: "sched_libs \<Rightarrow> bool \<Rightarrow> test_run \<Rightarrow> world \<Rightarrow> (go_error \<times> test_run \<times> world) option" where
  "Run L aborted t w =
     (case tScheduler t of
        None \<Rightarrow> Some (None, t, w)
      | Some s \<Rightarrow>
          if tStatus t \<noteq> TestStatusPending then Some (Some ''test has already been started'', t, w)
          else
            do {
              let t1 = t\<lparr>tStartTime := Some (wClock w), tStatus := TestStatusRunning\<rparr>;
              let (err1, t2, w2) = updateTestStatus (dbDriver L) t1 w;
              (err, s') \<leftarrow> RunTasks L (enterWorld w2 s);
              let w3 = leaveWorld w2 s';
              let (out, status) = testOutcome (parentCtxErr s') aborted err;
              let t3 = t2\<lparr>tScheduler := Some s', tStatus := status, tStopTime := Some (wClock w3)\<rparr>;
              let (err4, t4, w4) = updateTestStatus (dbDriver L) t3 w3;
              Some (out, t4, w4)
            })"

definition AbortTest :: "bool \<Rightarrow> test_run \<Rightarrow> test_run" where
  "AbortTest skipCleanup t =
     t\<lparr>tStatus := TestStatusAborted, tScheduler := map_option (CancelTasks skipCleanup) (tScheduler t)\<rparr>"

section \<open>Created runs are well formed\<close>

definition none_started :: "scheduler \<Rightarrow> bool" where
  "none_started s \<longleftrightarrow> (\<forall>i t. getTaskState s i = Some t \<longrightarrow> \<not> isStarted t)"

text \<open>The tasks \<open>is\<close> were made from the entries \<open>raws\<close> of the configuration, one from each in order.\<close>

definition configured :: "flow_env \<Rightarrow> scheduler \<Rightarrow> var_value list \<Rightarrow> nat list \<Rightarrow> bool" where
  "configured F s raws is \<longleftrightarrow>
     list_all2 (\<lambda>raw i. \<exists>t. getTaskState s i = Some t \<and> ParseTaskOptions F raw = Inr (taskOptions t)) raws is"

lemma newTaskState_options:
  assumes "newTaskState L opts parent vars cleanup s = Some (Inr i, s')"
  shows "\<exists>t. getTaskState s' i = Some t \<and> taskOptions t = opts"
proof -
  obtain desc where d: "GetTaskDescriptor (descriptors L) (optName opts) = Some desc"
    using assms by (cases "GetTaskDescriptor (descriptors L) (optName opts)") (auto simp: newTaskState_def)
  let ?p = "case parent of Some p \<Rightarrow> getTaskState s p | None \<Rightarrow> None"
  obtain k s1 where k: "registerTask opts desc ?p vars cleanup s = (k, s1)" by (cases "registerTask opts desc ?p vars cleanup s")
  have st: "storeTask L k s1 = Some (Inr i, s')" using assms d k by (simp add: newTaskState_def)
  have ik: "i = k"
    using st by (auto simp: storeTask_def bind_eq_Some_conv Let_def case_prod_unfold split: option.splits)
  have "\<exists>t. getTaskState s1 k = Some t \<and> taskOptions t = opts"
    using k by (auto simp: registerTask_def initTaskState_def Let_def getTaskState_def split: prod.splits)
  then show ?thesis using storeTask_shape [OF st] unfolding ik by (elim disjE exE conjE) auto
qed

lemma configured_kept:
  "configured F s raws is \<Longrightarrow> (\<And>j t. getTaskState s j = Some t \<Longrightarrow> getTaskState s' j = Some t) \<Longrightarrow> configured F s' raws is"
  unfolding configured_def by (erule list_all2_mono) blast

lemma addTask_spec:
  assumes "sched_inv s" and "none_started s"
    and "(if cleanup then AddCleanupTask L opts s else AddRootTask L opts s) = Some (Inr i, s')"
  shows "sched_inv s' \<and> none_started s' \<and>
    rootTasks s' = rootTasks s @ (if cleanup then [] else [i]) \<and>
    rootCleanupTasks s' = rootCleanupTasks s @ (if cleanup then [i] else []) \<and>
    (\<exists>t. getTaskState s' i = Some t \<and> taskOptions t = opts) \<and> (\<forall>j t. getTaskState s j = Some t \<longrightarrow> getTaskState s' j = Some t)"
proof -
  obtain s1 where n: "newTaskState L opts None None cleanup s = Some (Inr i, s1)"
    and s': "s' = (if cleanup then s1\<lparr>rootCleanupTasks := rootCleanupTasks s1 @ [i]\<rparr>
                   else s1\<lparr>rootTasks := rootTasks s1 @ [i]\<rparr>)"
  proof (cases "newTaskState L opts None None cleanup s")
    case (Some p)
    then show ?thesis
      using assms(3) that by (cases p; cases "fst p"; cases cleanup) (auto simp: AddCleanupTask_def AddRootTask_def)
  qed (use assms(3) in \<open>auto simp: AddCleanupTask_def AddRootTask_def split: if_splits\<close>)
  have "valid_parent s None cleanup" by (simp add: valid_parent_def)
  from newTaskState_Inr [OF assms(1) this _ n] obtain t where
    k: "i = taskCount s + 1" "rootTasks s1 = rootTasks s" "rootCleanupTasks s1 = rootCleanupTasks s"
    "getTaskState s1 i = Some t" "\<not> isStarted t" "\<forall>j. j \<noteq> i \<longrightarrow> getTaskState s1 j = getTaskState s j" by auto
  have "none_started s1" using k(4-6) assms(2) unfolding none_started_def by (metis option.inject)
  then have "none_started s'" by (simp add: s' none_started_def)
  moreover have "sched_inv s'"
  proof (cases cleanup)
    case True
    have "sched_step L {0} s s'" unfolding s' using step_cleanup [of "{0}" L opts s i s1] n True by simp
    then show ?thesis using sched_inv_step assms(1) by blast
  next
    case False
    have "sched_step L {0} s s'" unfolding s' using step_root [of "{0}" L opts s i s1] n False by simp
    then show ?thesis using sched_inv_step assms(1) by blast
  qed
  moreover have "getTaskState s j = Some u \<Longrightarrow> getTaskState s' j = Some u" for j u
    using k(1,6) tree_invD(1) [OF sched_invD(1) [OF assms(1)], of j] by (cases "j = i") (simp_all add: s')
  ultimately show ?thesis using k(2,3) newTaskState_options [OF n] by (simp add: s')
qed

lemma addTasks_spec:
  assumes "addTasks F L cleanup raws s = Some (None, s')" and "sched_inv s" and "none_started s"
  shows "sched_inv s' \<and> none_started s' \<and> (\<forall>j t. getTaskState s j = Some t \<longrightarrow> getTaskState s' j = Some t) \<and>
    (\<exists>is. configured F s' raws is \<and> rootTasks s' = rootTasks s @ (if cleanup then [] else is) \<and>
       rootCleanupTasks s' = rootCleanupTasks s @ (if cleanup then is else []))"
  using assms
proof (induction raws arbitrary: s)
  case (Cons raw raws)
  obtain opts i s1 where p: "ParseTaskOptions F raw = Inr opts"
    and a: "(if cleanup then AddCleanupTask L opts s else AddRootTask L opts s) = Some (Inr i, s1)"
    and r: "addTasks F L cleanup raws s1 = Some (None, s')"
  proof (cases "ParseTaskOptions F raw")
    case (Inr opts)
    then obtain r s1 where "(if cleanup then AddCleanupTask L opts s else AddRootTask L opts s) = Some (r, s1)"
      "(case r of Inl e \<Rightarrow> Some (Some e, s1) | Inr i \<Rightarrow> addTasks F L cleanup raws s1) = Some (None, s')"
      using Cons.prems(1) by (auto simp: bind_eq_Some_conv)
    then show ?thesis using that Inr by (cases r) auto
  qed (use Cons.prems(1) in simp)
  note one = addTask_spec [OF Cons.prems(2,3) a]
  from Cons.IH [OF r] one obtain "is" where
    "is": "sched_inv s'" "none_started s'" "\<forall>j t. getTaskState s1 j = Some t \<longrightarrow> getTaskState s' j = Some t" "configured F s' raws is"
    "rootTasks s' = rootTasks s1 @ (if cleanup then [] else is)"
    "rootCleanupTasks s' = rootCleanupTasks s1 @ (if cleanup then is else [])" by blast
  then have "configured F s' (raw # raws) (i # is)" using one p by (auto simp: configured_def)
  then show ?case using one "is" by (intro conjI exI [of _ "i # is"]) auto
qed (simp add: configured_def)

lemma none_started_new [simp]: "none_started (NewTaskScheduler d h vars runID)"
  by (simp add: none_started_def NewTaskScheduler_def getTaskState_def)

lemma sched_inv_world:
  assumes "sched_inv s" and "heap_wf h" and "length (varHeap s) \<le> length h"
  shows "sched_inv (s\<lparr>varHeap := h, schedDb := d, clockMilli := m\<rparr>)"
proof -
  have "sched_inv (s\<lparr>varHeap := h\<rparr>)"
    by (rule sched_inv_step [OF step_vars [OF assms(2,3), of undefined "{}"] assms(1)])
  from sched_inv_step [OF step_db [of undefined "{}" _ d] this]
  have "sched_inv (s\<lparr>varHeap := h, schedDb := d\<rparr>)" .
  from sched_inv_step [OF step_clock [of undefined "{}" _ m] this] show ?thesis .
qed

definition created :: "flow_env \<Rightarrow> test_run \<Rightarrow> scheduler \<Rightarrow> bool" where
  "created F t s \<longleftrightarrow> tScheduler t = Some s \<and> tStatus t = TestStatusPending \<and> sched_inv s \<and> none_started s \<and>
     configured F s (cfTasks (tConfig t)) (rootTasks s) \<and> configured F s (cfCleanupTasks (tConfig t)) (rootCleanupTasks s)"

lemma populateTest_spec:
  assumes "populateTest F L config s = Some (None, s')" and "sched_inv s" and "none_started s"
    and "rootTasks s = []" and "rootCleanupTasks s = []"
  shows "sched_inv s' \<and> none_started s' \<and> configured F s' (cfTasks config) (rootTasks s') \<and>
    configured F s' (cfCleanupTasks config) (rootCleanupTasks s')"
proof -
  obtain s1 where s1: "addTasks F L False (cfTasks config) s = Some (None, s1)"
    "addTasks F L True (cfCleanupTasks config) s1 = Some (None, s')"
    using assms(1) by (auto simp: populateTest_def bind_eq_Some_conv split: if_splits)
  have a: "sched_inv s1" "none_started s1" "configured F s1 (cfTasks config) (rootTasks s1)" "rootCleanupTasks s1 = []"
    using addTasks_spec [OF s1(1) assms(2,3)] assms(4,5) by auto
  note b = addTasks_spec [OF s1(2) a(1,2)]
  then show ?thesis using a(4) configured_kept [OF a(3), of s'] by auto
qed

lemma CreateTest_cases:
  assumes "CreateTest F L json runID d ov w = Some (Inr t, w')"
  obtains config h variables m y run dbase s where
    "dConfig d = Some config" and "NewVariables (wHeap w) (dVars d) = (h, variables)"
    and "RunTransaction (dbDriver L) (insertRun json (dbDriver L) run) (wDb w) = (None, dbase)"
    and "run = newDbTestRun runID d config y (if cfTimeout config > 0 then cfTimeout config else 0)"
    and "m = foldl (\<lambda>h (k, x). SetVar h variables k x) h ov"
    and "populateTest F L config (enterWorld (w\<lparr>wHeap := m, wDb := dbase\<rparr>)
        (NewTaskScheduler (Some dbase) m variables runID)) = Some (None, s)"
    and "t = \<lparr>tRunID = runID, tScheduler = Some s, tDescriptor = d, tConfig = config, tVariables = variables,
        tDbTestRun = run, tStatus = TestStatusPending, tStartTime = None, tStopTime = None,
        tTimeout = (if cfTimeout config > 0 then cfTimeout config else 0)\<rparr>"
    and "w' = leaveWorld (w\<lparr>wHeap := m, wDb := dbase\<rparr>) s"
proof -
  obtain config where c: "dConfig d = Some config" using assms by (auto simp: CreateTest_def bind_eq_Some_conv)
  obtain h variables where n: "NewVariables (wHeap w) (dVars d) = (h, variables)"
    by (cases "NewVariables (wHeap w) (dVars d)")
  define m where "m = foldl (\<lambda>h (k, x). SetVar h variables k x) h ov"
  obtain vm where vm: "GetVarsMap (depth L) m variables [] False = Some vm"
    using assms c n
    by (cases "GetVarsMap (depth L) m variables [] False") (simp_all add: CreateTest_def m_def Let_def)
  obtain y where y: "yamlVars L vm = Inr y"
    using assms c n vm by (cases "yamlVars L vm") (simp_all add: CreateTest_def m_def Let_def)
  define run where "run = newDbTestRun runID d config y (if cfTimeout config > 0 then cfTimeout config else 0)"
  obtain dbase where tx: "RunTransaction (dbDriver L) (insertRun json (dbDriver L) run) (wDb w) = (None, dbase)"
    using assms c n vm y
    by (cases "RunTransaction (dbDriver L) (insertRun json (dbDriver L) run) (wDb w)";
        cases "fst (RunTransaction (dbDriver L) (insertRun json (dbDriver L) run) (wDb w))")
       (simp_all add: CreateTest_def m_def run_def Let_def)
  note facts = assms c n vm y tx
  obtain s where s: "populateTest F L config (enterWorld (w\<lparr>wHeap := m, wDb := dbase\<rparr>)
      (NewTaskScheduler (Some dbase) m variables runID)) = Some (None, s)"
    using facts by (auto simp: CreateTest_def m_def run_def Let_def bind_eq_Some_conv split: option.splits)
  show ?thesis
    by (rule that [OF c n tx run_def m_def s])
       (use facts s in \<open>simp_all add: CreateTest_def m_def run_def Let_def\<close>)
qed

lemma CreateTest_spec:
  assumes "heap_wf (wHeap w)" and "pred_option (\<lambda>v. v < length (wHeap w)) (dVars d)"
    and "CreateTest F L json runID d ov w = Some (Inr t, w')"
  shows "\<exists>s. created F t s \<and> wHeap w' = varHeap s \<and> tRunID t = runID"
  using assms(3)
proof (rule CreateTest_cases, goal_cases)
  case (1 config h variables m y run dbase s)
  let ?s0 = "NewTaskScheduler (Some dbase) m variables runID"
  have "dVars d = Some p \<Longrightarrow> p < length (wHeap w)" for p using assms(2) by simp
  from newVariables_wf [OF assms(1) this, of "dVars d"] 1(2)
  have n: "heap_wf h" "variables < length h" by (simp_all add: NewVariables_def)
  have m: "heap_wf m" "variables < length m" using foldl_SetVar_wf(1) [OF n(1)] n(2) 1(5) by simp_all
  have "sched_inv (enterWorld (w\<lparr>wHeap := m, wDb := dbase\<rparr>) ?s0)"
    unfolding enterWorld_def
    by (rule sched_inv_world [OF sched_inv_NewTaskScheduler [OF m]]) (simp_all add: m NewTaskScheduler_def)
  from populateTest_spec [OF 1(6) this]
  have "sched_inv s" "none_started s" "configured F s (cfTasks config) (rootTasks s)"
    "configured F s (cfCleanupTasks config) (rootCleanupTasks s)"
    by (simp_all add: enterWorld_def none_started_def NewTaskScheduler_def getTaskState_def)
  then show ?case by (intro exI [of _ s]) (simp add: created_def 1(7,8) leaveWorld_def)
qed

section \<open>Running a test\<close>

lemma updateTestStatus_shape:
  "updateTestStatus drv t w = (err, t', w') \<Longrightarrow>
    (\<exists>row. t' = t\<lparr>tDbTestRun := row\<rparr>) \<and> (\<exists>d. w' = w\<lparr>wDb := d\<rparr>)"
  by (auto simp: updateTestStatus_def Let_def split: prod.splits)

lemma Run_cases:
  assumes "Run L aborted t w = Some (out, t', w')" and "tScheduler t = Some s" and "tStatus t = TestStatusPending"
  obtains err1 t2 w2 err s' status err4 where
    "updateTestStatus (dbDriver L) (t\<lparr>tStartTime := Some (wClock w), tStatus := TestStatusRunning\<rparr>) w = (err1, t2, w2)"
    and "RunTasks L (enterWorld w2 s) = Some (err, s')"
    and "testOutcome (parentCtxErr s') aborted err = (out, status)"
    and "updateTestStatus (dbDriver L) (t2\<lparr>tScheduler := Some s', tStatus := status,
        tStopTime := Some (clockMilli s')\<rparr>) (leaveWorld w2 s') = (err4, t', w')"
proof -
  let ?t1 = "t\<lparr>tStartTime := Some (wClock w), tStatus := TestStatusRunning\<rparr>"
  obtain err1 t2 w2 where u: "updateTestStatus (dbDriver L) ?t1 w = (err1, t2, w2)"
    by (cases "updateTestStatus (dbDriver L) ?t1 w")
  obtain err s' where r: "RunTasks L (enterWorld w2 s) = Some (err, s')"
    using assms u by (cases "RunTasks L (enterWorld w2 s)") (auto simp: Run_def)
  obtain out' status where o: "testOutcome (parentCtxErr s') aborted err = (out', status)"
    by (cases "testOutcome (parentCtxErr s') aborted err")
  let ?u = "updateTestStatus (dbDriver L) (t2\<lparr>tScheduler := Some s', tStatus := status,
      tStopTime := Some (clockMilli s')\<rparr>) (leaveWorld w2 s')"
  have "out' = out" "?u = (fst ?u, t', w')"
    using assms u r o by (auto simp: Run_def leaveWorld_def split: prod.splits)
  then show ?thesis using that [OF u r] o by blast
qed

lemma testOutcome_status:
  assumes "testOutcome e aborted err = (out, status)"
  shows "status \<in> {TestStatusSuccess, TestStatusFailure, TestStatusAborted}"
    and "out = None \<longleftrightarrow> status = TestStatusSuccess"
    and "status = TestStatusSuccess \<longleftrightarrow> e = None \<and> \<not> aborted \<and> err = None"
  using assms by (auto simp: testOutcome_def split: if_splits)

text \<open>C4. A created test runs the tasks of its configuration: its root tasks and cleanup tasks are made from the task and cleanup entries of the
  configuration, one from each in order and with the options parsed from it. \<open>Run\<close> executes the root tasks in order without gaps and stops at the first failed one: of those
  it has executed, none before the last has failed unless its body panicked, and none is started
  after it. The test is a success only if all of them have run and none has failed (unless its body
  panicked), and every cleanup task runs unless cancelled. \<open>Run\<close> returns no error exactly for a
  success. In between, other runs may change the shared world.
\<close>

theorem test_runs_its_tasks:
  assumes "heap_wf (wHeap w)" and "pred_option (\<lambda>v. v < length (wHeap w)) (dVars d)"
    and "CreateTest F L json runID d ov w = Some (Inr t, w1)" and "tScheduler t = Some s"
    and "heap_wf (wHeap w2)" and "length (wHeap w1) \<le> length (wHeap w2)"
    and "R = insert 0 (set (rootTasks s) \<union> set (rootCleanupTasks s))"
    and "\<forall>i\<in>R. i = 0 \<or> task_body L i (- R)"
    and "Run L aborted t w2 = Some (err, t', w3)"
  shows "list_all2 (\<lambda>raw i. \<exists>u. getTaskState s i = Some u \<and> ParseTaskOptions F raw = Inr (taskOptions u))
      (cfTasks (tConfig t)) (rootTasks s) \<and>
    list_all2 (\<lambda>raw i. \<exists>u. getTaskState s i = Some u \<and> ParseTaskOptions F raw = Inr (taskOptions u))
      (cfCleanupTasks (tConfig t)) (rootCleanupTasks s) \<and>
    (err = None \<longleftrightarrow> tStatus t' = TestStatusSuccess) \<and>
    tStatus t' \<in> {TestStatusSuccess, TestStatusFailure, TestStatusAborted} \<and>
    (\<exists>s' n. tScheduler t' = Some s' \<and> progress s' (rootTasks s) n \<and>
       (\<forall>j. Suc j < n \<longrightarrow> never_panics L (rootTasks s ! j) \<longrightarrow> \<not> failed_task s' (rootTasks s ! j)) \<and>
       (tStatus t' = TestStatusSuccess \<longrightarrow> n = length (rootTasks s) \<and>
          (\<forall>i\<in>set (rootTasks s). never_panics L i \<longrightarrow> \<not> failed_task s' i)) \<and>
       (cleanupCtxErr s' = None \<longrightarrow> progress s' (rootCleanupTasks s) (length (rootCleanupTasks s))))"
proof -
  from CreateTest_spec [OF assms(1-3)] assms(4) have c: "created F t s" "wHeap w1 = varHeap s"
    by (auto simp: created_def)
  from assms(9,4) show ?thesis
  proof (rule Run_cases)
    show "tStatus t = TestStatusPending" using c(1) by (simp add: created_def)
    fix err1 t2 wa e s' status err4
    assume u: "updateTestStatus (dbDriver L) (t\<lparr>tStartTime := Some (wClock w2), tStatus := TestStatusRunning\<rparr>) w2 = (err1, t2, wa)"
      and r: "RunTasks L (enterWorld wa s) = Some (e, s')"
      and o: "testOutcome (parentCtxErr s') aborted e = (err, status)"
      and v: "updateTestStatus (dbDriver L) (t2\<lparr>tScheduler := Some s', tStatus := status,
        tStopTime := Some (clockMilli s')\<rparr>) (leaveWorld wa s') = (err4, t', w3)"
    have wa: "wHeap wa = wHeap w2" using updateTestStatus_shape [OF u] by auto
    have inv: "sched_inv (enterWorld wa s)"
      unfolding enterWorld_def
      by (rule sched_inv_world) (use c assms(5,6) wa in \<open>simp_all add: created_def\<close>)
    have roots: "rootTasks (enterWorld wa s) = rootTasks s" "rootCleanupTasks (enterWorld wa s) = rootCleanupTasks s"
      by (simp_all add: enterWorld_def)
    have "fresh_task (enterWorld wa s) i" if "i \<in> set (rootTasks s) \<union> set (rootCleanupTasks s)" for i
      using that c(1) sched_invD(2) [of s] unfolding created_def list_inv_def none_started_def fresh_task_def
      by (fastforce simp: enterWorld_def)
    then have "\<forall>i\<in>R. i = 0 \<or> task_body L i (- R) \<and> fresh_task (enterWorld wa s) i"
      using assms(7,8) by blast
    from RunTasks_spec [OF inv _ this r, unfolded roots, OF assms(7)] obtain n k where
      n: "progress s' (rootTasks s) n" "progress s' (rootCleanupTasks s) k"
      "e = None \<longrightarrow> n = length (rootTasks s) \<and> (\<forall>i\<in>set (rootTasks s). never_panics L i \<longrightarrow> \<not> failed_task s' i)"
      "cleanupCtxErr s' = None \<longrightarrow> k = length (rootCleanupTasks s)"
      "\<forall>j. Suc j < n \<longrightarrow> never_panics L (rootTasks s ! j) \<longrightarrow> \<not> failed_task s' (rootTasks s ! j)" by (elim exE conjE)
    have t': "tStatus t' = status" "tScheduler t' = Some s'" using updateTestStatus_shape [OF v] by auto
    note st = testOutcome_status [OF o]
    have "tStatus t' = TestStatusSuccess \<longrightarrow> e = None" using st(3) t' by simp
    then show ?thesis
      using n t' st(1,2) c(1) by (intro conjI exI [of _ s'] exI [of _ n]) (auto simp: created_def configured_def)
  qed
qed

section \<open>The row of a run\<close>

definition driver_ok :: "db_driver \<Rightarrow> bool" where
  "driver_ok drv \<longleftrightarrow> beginErr drv = None \<and> execErr drv 0 = None \<and> commitErr drv = None"

lemma updateTestStatus_stores:
  assumes "driver_ok drv" and "updateTestStatus drv t w = (err, t', w')"
    and "map_of (testRuns (wDb w)) (trRunID (tDbTestRun t)) = Some row" and "trTestID row = trTestID (tDbTestRun t)"
  shows "err = None \<and> map_of (testRuns (wDb w')) (trRunID (tDbTestRun t)) =
      Some (row\<lparr>trStatus := statusText (tStatus t), trStartTime := case_option 0 id (tStartTime t),
                trStopTime := case_option 0 id (tStopTime t)\<rparr>)"
  using assms
  by (auto simp: driver_ok_def updateTestStatus_def Let_def RunTransaction_def UpdateTestRunStatus_def execStmt_def
      tbl_update_def update_conv' split: prod.splits option.splits)

lemma updateTestStatus_key:
  "updateTestStatus drv t w = (err, t', w') \<Longrightarrow>
    trRunID (tDbTestRun t') = trRunID (tDbTestRun t) \<and> trTestID (tDbTestRun t') = trTestID (tDbTestRun t)"
  by (auto simp: updateTestStatus_def Let_def split: prod.splits)

text \<open>When \<open>Run\<close> has returned, the database shows the final status of the test with its start and
  stop times, provided the database works and the tasks have not removed the row of the run.
\<close>

theorem test_status_stored:
  assumes "tScheduler t = Some s" and "tStatus t = TestStatusPending"
    and "Run L aborted t w = Some (err, t', w')" and "driver_ok (dbDriver L)"
    and "tScheduler t' = Some s'" and "schedDb s' = Some d"
    and "map_of (testRuns d) (trRunID (tDbTestRun t)) = Some row" and "trTestID row = trTestID (tDbTestRun t)"
  shows "map_of (testRuns (wDb w')) (trRunID (tDbTestRun t)) =
    Some (row\<lparr>trStatus := statusText (tStatus t'), trStartTime := wClock w, trStopTime := clockMilli s'\<rparr>)"
  using assms(3,1,2)
proof (rule Run_cases)
  fix err1 t2 w2 e sa status err4
  assume u: "updateTestStatus (dbDriver L) (t\<lparr>tStartTime := Some (wClock w), tStatus := TestStatusRunning\<rparr>) w = (err1, t2, w2)"
    and r: "RunTasks L (enterWorld w2 s) = Some (e, sa)"
    and o: "testOutcome (parentCtxErr sa) aborted e = (err, status)"
    and v: "updateTestStatus (dbDriver L) (t2\<lparr>tScheduler := Some sa, tStatus := status,
      tStopTime := Some (clockMilli sa)\<rparr>) (leaveWorld w2 sa) = (err4, t', w')"
  have t2: "tStartTime t2 = Some (wClock w)" using updateTestStatus_shape [OF u] by auto
  have t': "sa = s'" "tStatus t' = status" using updateTestStatus_shape [OF v] assms(5) by auto
  have key: "trRunID (tDbTestRun t2) = trRunID (tDbTestRun t)" "trTestID (tDbTestRun t2) = trTestID (tDbTestRun t)"
    using updateTestStatus_key [OF u] by simp_all
  have db: "wDb (leaveWorld w2 s') = d" using assms(6) by (simp add: leaveWorld_def)
  from updateTestStatus_stores [OF assms(4) v, of row] show ?thesis
    using assms(7,8) t2 t' by (simp add: key db)
qed

text \<open>
  A test that ends before its tasks start ends in memory only: \<open>Validate\<close> sets the failure of a test
  without tasks, and \<open>AbortTest\<close> the status of a test that \<open>Run\<close> then refuses to start. The world, and
  with it the row of the run, is the same afterwards.
\<close>

definition runTest :: "sched_libs \<Rightarrow> bool \<Rightarrow> test_run \<Rightarrow> world \<Rightarrow> (test_run \<times> world) option" where
  "runTest L aborted t w =
     (let (verr, t1) = Validate t
      in if verr \<noteq> None then Some (t1, w) else map_option (\<lambda>(err, t2, w2). (t2, w2)) (Run L aborted t1 w))"

lemma unstarted_test_not_stored:
  assumes "tScheduler t = Some s"
  shows "allTasks s = [] \<Longrightarrow> runTest L aborted t w = Some (t\<lparr>tStatus := TestStatusFailure\<rparr>, w)"
    and "allTasks s \<noteq> [] \<Longrightarrow> tStatus t = TestStatusAborted \<Longrightarrow> runTest L aborted t w = Some (t, w)"
  using assms by (simp_all add: runTest_def Validate_def GetTaskCount_def Run_def)

section \<open>A test with two tasks\<close>

definition test_env :: flow_env where
  "test_env = \<lparr>unmarshalOptions = (\<lambda>_. Inr sleep_options), unmarshalRunTasks = (\<lambda>_ c. Inr c),
     unmarshalConcurrent = (\<lambda>_ c. Inr c), unmarshalMatrix = (\<lambda>_ c. Inr c), unmarshalTaskOptions = (\<lambda>_ c. Inr c),
     unmarshalBackground = (\<lambda>_ c. Inr c), unmarshalExternal = (\<lambda>_ c. Inr c), unmarshalSleep = (\<lambda>_ c. Inr c),
     readTestFile = (\<lambda>_. Inl ''no such file''), ctxErr = (\<lambda>_ _. None), slept = (\<lambda>_ _ _. True),
     others = (\<lambda>_ s. s)\<rparr>"

definition test_world :: world where
  "test_world = \<lparr>wHeap = fst (NewVariables [] None), wDb = NewDatabase\<lparr>engine := EngineSqlite\<rparr>, wClock = 1000\<rparr>"

definition test_descriptor :: Descriptor where
  "test_descriptor = NewDescriptor ''demo'' ''local-1''
     \<lparr>cfID = ''demo'', cfName = ''Demo'', cfTimeout = 0, cfConfig = [], cfConfigVars = [],
      cfTasks = [VNil, VNil], cfCleanupTasks = [VNil], cfSchedule = None\<rparr> 0"

definition demo_test :: "test_run \<times> world" where
  "demo_test = (case CreateTest test_env (quiet_libs (ExecReturned None)) (\<lambda>_. Inr ''1'') 7 test_descriptor [] test_world of
     Some (Inr t, w) \<Rightarrow> (t, w) | _ \<Rightarrow> undefined)"

lemma demo_test_created:
  "CreateTest test_env (quiet_libs (ExecReturned None)) (\<lambda>_. Inr ''1'') 7 test_descriptor [] test_world =
     Some (Inr (fst demo_test), snd demo_test)"
proof -
  have "case CreateTest test_env (quiet_libs (ExecReturned None)) (\<lambda>_. Inr ''1'') 7 test_descriptor [] test_world of
      None \<Rightarrow> False | Some (Inl e, w) \<Rightarrow> False | Some (Inr t, w) \<Rightarrow> True"
    by code_simp
  then show ?thesis by (rule case_Some_Inr) (simp add: demo_test_def)
qed

lemma test_world_wf: "heap_wf (wHeap test_world)" "pred_option (\<lambda>v. v < length (wHeap test_world)) (dVars test_descriptor)"
  using newVariables_wf [of "[]" None]
  by (simp_all add: test_world_def test_descriptor_def NewDescriptor_def NewVariables_def)

lemma demo_test_run:
  "\<exists>t' w' s' d row. Run (quiet_libs (ExecReturned None)) False (fst demo_test) (snd demo_test) = Some (None, t', w') \<and>
     tStatus t' = TestStatusSuccess \<and> tScheduler t' = Some s' \<and> schedDb s' = Some d \<and>
     map_of (testRuns d) 7 = Some row \<and> trTestID row = ''demo''"
proof -
  have "map_option (\<lambda>(err, t', w'). (err, tStatus t', map_option (\<lambda>s'. map_option (\<lambda>d. map_option trTestID (map_of (testRuns d) 7))
      (schedDb s')) (tScheduler t'))) (Run (quiet_libs (ExecReturned None)) False (fst demo_test) (snd demo_test)) =
    Some (None, TestStatusSuccess, Some (Some (Some ''demo'')))"
    by code_simp
  then show ?thesis by auto
qed

theorem test_runs_its_tasks_witness:
  "\<exists>s t' w' s'. tScheduler (fst demo_test) = Some s \<and> length (rootTasks s) = 2 \<and>
     Run (quiet_libs (ExecReturned None)) False (fst demo_test) (snd demo_test) = Some (None, t', w') \<and>
     tScheduler t' = Some s' \<and> progress s' (rootTasks s) 2"
proof -
  let ?L = "quiet_libs (ExecReturned None)"
  obtain s where s: "created test_env (fst demo_test) s" "wHeap (snd demo_test) = varHeap s"
    using CreateTest_spec [OF test_world_wf demo_test_created] by blast
  obtain t' w' where run: "Run ?L False (fst demo_test) (snd demo_test) = Some (None, t', w')" "tStatus t' = TestStatusSuccess"
    using demo_test_run by blast
  have sched: "tScheduler (fst demo_test) = Some s" "heap_wf (wHeap (snd demo_test))"
    using s by (simp_all add: created_def sched_inv_def scope_inv_def)
  let ?R = "insert 0 (set (rootTasks s) \<union> set (rootCleanupTasks s))"
  have "\<forall>i\<in>?R. i = 0 \<or> task_body ?L i (- ?R)" by (simp add: task_body_quiet)
  note r = test_runs_its_tasks [OF test_world_wf demo_test_created sched(1,2) order_refl refl this run(1)]
  from r have len: "length (rootTasks s) = length (cfTasks (tConfig (fst demo_test)))"
    by (elim conjE) (simp add: list_all2_lengthD)
  have "length (cfTasks (tConfig (fst demo_test))) = 2" by code_simp
  moreover from r obtain s' n where "tScheduler t' = Some s'" "progress s' (rootTasks s) n"
    "tStatus t' = TestStatusSuccess \<longrightarrow> n = length (rootTasks s) \<and> (\<forall>i\<in>set (rootTasks s). never_panics ?L i \<longrightarrow> \<not> failed_task s' i)"
    by (elim conjE exE)
  ultimately show ?thesis using len sched(1) run by (intro exI [of _ s] exI [of _ t'] exI [of _ w'] exI [of _ s']) simp
qed

theorem test_status_stored_witness:
  "\<exists>t' w' row. Run (quiet_libs (ExecReturned None)) False (fst demo_test) (snd demo_test) = Some (None, t', w') \<and>
     map_of (testRuns (wDb w')) 7 = Some row \<and> trStatus row = ''success''"
proof -
  let ?L = "quiet_libs (ExecReturned None)"
  obtain t' w' s' d row where run: "Run ?L False (fst demo_test) (snd demo_test) = Some (None, t', w')"
    "tStatus t' = TestStatusSuccess" "tScheduler t' = Some s'" "schedDb s' = Some d"
    "map_of (testRuns d) 7 = Some row" "trTestID row = ''demo''" using demo_test_run by blast
  obtain s where s: "tScheduler (fst demo_test) = Some s" "tStatus (fst demo_test) = TestStatusPending"
    using CreateTest_spec [OF test_world_wf demo_test_created] by (auto simp: created_def)
  have key: "trRunID (tDbTestRun (fst demo_test)) = 7" "trTestID (tDbTestRun (fst demo_test)) = ''demo''" by code_simp+
  have "driver_ok (dbDriver ?L)" by (simp add: driver_ok_def quiet_libs_def reliable_driver_def)
  from test_status_stored [OF s run(1) this run(3,4), unfolded key, OF run(5,6)] show ?thesis
    using run(1,2) by auto
qed

end
