(* ===== verification/TestRegistry.thy ===== *)
theory TestRegistry
  imports TestRun
begin

text \<open>
  The test registry (\<open>testregistry.go\<close>): the map of test descriptors with their order, adding and
  deleting tests, and the test configurations kept in the database, from which external tests are
  loaded again at the next start.
\<close>

section \<open>Data\<close>

record testDescriptorEntry =
  entDescriptor :: Descriptor
  entIndex :: u64

record test_registry =
  testDescriptors :: "(string \<times> testDescriptorEntry) list"
  testDescriptorIndex :: u64

definition NewTestRegistry :: test_registry where
  "NewTestRegistry = \<lparr>testDescriptors = [], testDescriptorIndex = 0\<rparr>"

text \<open>YAML encoders and decoders of the columns of the table of test configurations.\<close>

record registry_libs =
  encodeConfig :: "(string \<times> var_value) list \<Rightarrow> string + string"
  encodeConfigVars :: "(string \<times> string) list \<Rightarrow> string + string"
  encodeCron :: "string list \<Rightarrow> string + string"
  decodeConfig :: "string \<Rightarrow> string + (string \<times> var_value) list"
  decodeConfigVars :: "string \<Rightarrow> string + (string \<times> string) list"
  decodeCron :: "string \<Rightarrow> string + string list"

section \<open>Reading\<close>

text \<open>A missing entry reads as the zero value, with index 0.\<close>

definition entryIndex :: "test_registry \<Rightarrow> string \<Rightarrow> u64" where
  "entryIndex reg testID = (case map_of (testDescriptors reg) testID of None \<Rightarrow> 0 | Some e \<Rightarrow> entIndex e)"

definition GetTestDescriptors :: "test_registry \<Rightarrow> Descriptor list" where
  "GetTestDescriptors reg =
     sort_key (\<lambda>d. entryIndex reg (dID d)) (map (entDescriptor \<circ> snd) (testDescriptors reg))"

section \<open>Configurations in the database\<close>

text \<open>Durations are in nanoseconds; the conversion to whole seconds truncates.\<close>

definition wholeSeconds :: "int \<Rightarrow> int" where
  "wholeSeconds t = (if t < 0 then - (- t div 1000000000) else t div 1000000000)"

definition externalTestCfgToDB :: "registry_libs \<Rightarrow> ExternalTestConfig \<Rightarrow> string + db_test_config" where
  "externalTestCfgToDB Y cfg =
     (let timeout = (case exTimeout cfg of Some t \<Rightarrow> wholeSeconds t | None \<Rightarrow> 0);
          startup = (case exSchedule cfg of Some sch \<Rightarrow> schStartup sch | None \<Rightarrow> True);
          cron = (case exSchedule cfg of
                    Some sch \<Rightarrow> if schCron sch \<noteq> [] then encodeCron Y (schCron sch) else Inr ''''
                  | None \<Rightarrow> Inr '''')
      in case cron of
           Inl e \<Rightarrow> Inl (''error encoding test cron schedule '' @ exID cfg @ '': '' @ e)
         | Inr cronYaml \<Rightarrow>
             (case encodeConfig Y (exConfig cfg) of
                Inl e \<Rightarrow> Inl (''error encoding test config '' @ exID cfg @ '': '' @ e)
              | Inr configYaml \<Rightarrow>
                  (case encodeConfigVars Y (exConfigVars cfg) of
                     Inl e \<Rightarrow> Inl (''error encoding test configVars '' @ exID cfg @ '': '' @ e)
                   | Inr configVarsYaml \<Rightarrow>
                       Inr \<lparr>tcTestID = exID cfg, tcSource = exFile cfg, tcName = exName cfg, tcTimeout = timeout,
                            tcConfig = configYaml, tcConfigVars = configVarsYaml, tcScheduleStartup = startup,
                            tcScheduleCronYaml = cronYaml\<rparr>)))"

text \<open>An entry of the table as an external test; None if it is skipped with an error message.\<close>

definition externalTestCfgFromDB :: "registry_libs \<Rightarrow> db_test_config \<Rightarrow> ExternalTestConfig option" where
  "externalTestCfgFromDB Y row =
     (case decodeConfig Y (tcConfig row) of
        Inl e \<Rightarrow> None
      | Inr config \<Rightarrow>
          (case decodeConfigVars Y (tcConfigVars row) of
             Inl e \<Rightarrow> None
           | Inr configVars \<Rightarrow>
               (case (if tcScheduleCronYaml row \<noteq> '''' then decodeCron Y (tcScheduleCronYaml row) else Inr []) of
                  Inl e \<Rightarrow> None
                | Inr cron \<Rightarrow>
                    Some \<lparr>exID = tcTestID row, exFile = tcSource row, exName = tcName row,
                          exTimeout = (if tcTimeout row > 0 then Some (tcTimeout row * 1000000000) else None),
                          exConfig = config, exConfigVars = configVars,
                          exSchedule = Some \<lparr>schStartup = False, schCron = cron, schSkipQueue = False\<rparr>\<rparr>)))"

section \<open>Adding and deleting\<close>

text \<open>A known test keeps its position, a new one gets the next index.\<close>

definition registerDescriptor :: "Descriptor \<Rightarrow> test_registry \<Rightarrow> test_registry" where
  "registerDescriptor d reg =
     (let old = entryIndex reg (dID d);
          counter = (if old = 0 then testDescriptorIndex reg + 1 else testDescriptorIndex reg);
          index = (if old = 0 then counter else old)
      in reg\<lparr>testDescriptorIndex := counter,
             testDescriptors := AList.update (dID d) \<lparr>entDescriptor = d, entIndex = index\<rparr> (testDescriptors reg)\<rparr>)"

definition AddLocalTest ::
    "sched_libs \<Rightarrow> vref \<Rightarrow> TestConfig \<Rightarrow> test_registry \<Rightarrow> world \<Rightarrow>
     ((string + Descriptor) \<times> test_registry \<times> world) option" where
  "AddLocalTest L globalVars config reg w =
     (if cfID config = '''' then Some (Inl ''cannot add test descriptor without ID'', reg, w)
      else
        do {
          let (h, testVars) = NewVariables (wHeap w) (Some globalVars);
          let h1 = foldl (\<lambda>h (k, x). SetVar h testVars k x) h (cfConfig config);
          (err, h2) \<leftarrow> CopyVars (libs_of L) (depth L) h1 testVars globalVars (cfConfigVars config);
          let w1 = w\<lparr>wHeap := h2\<rparr>;
          case err of
            Some e \<Rightarrow> Some (Inl (''failed decoding configVars: '' @ e), reg, w1)
          | None \<Rightarrow>
              (let d = NewDescriptor (cfID config) ''api-call'' config testVars
               in Some (Inr d, registerDescriptor d reg, w1))
        })"

text \<open>
  The external configuration given to \<open>AddExternalTest\<close> gets the id and name of the loaded test; it
  is returned as well. A failed insert is only logged.
\<close>

definition AddExternalTest ::
    "flow_env \<Rightarrow> sched_libs \<Rightarrow> registry_libs \<Rightarrow> vref \<Rightarrow> ExternalTestConfig \<Rightarrow> test_registry \<Rightarrow> world \<Rightarrow>
     ((string + Descriptor \<times> ExternalTestConfig) \<times> test_registry \<times> world) option" where
  "AddExternalTest F L Y globalVars ext reg w =
     do {
       (r, h) \<leftarrow> LoadExternalTestConfig F L globalVars ext (wHeap w);
       let w1 = w\<lparr>wHeap := h\<rparr>;
       case r of
         Inl e \<Rightarrow> Some (Inl (''failed loading test config from '' @ exFile ext @ '': '' @ e), reg, w1)
       | Inr (config, testVars) \<Rightarrow>
           if cfID config = '''' then Some (Inl ''test id missing or empty'', reg, w1)
           else if cfName config = '''' then Some (Inl ''test name missing or empty'', reg, w1)
           else if cfTasks config = [] then Some (Inl ''test must have 1 or more tasks'', reg, w1)
           else
             (let d = NewDescriptor (cfID config) (''external:'' @ exFile ext) config testVars;
                  ext' = ext\<lparr>exID := cfID config, exName := cfName config\<rparr>
              in case externalTestCfgToDB Y ext' of
                   Inl e \<Rightarrow>
                     Some (Inl (''error converting external test config '' @ exID ext' @ '' for db: '' @ e), reg, w1)
                 | Inr row \<Rightarrow>
                     (let (err, db) = RunTransaction (dbDriver L) (InsertTestConfig (dbDriver L) 0 row) (wDb w1)
                      in Some (Inr (d, ext'), registerDescriptor d reg, w1\<lparr>wDb := db\<rparr>)))
     }"

definition DeleteTest :: "db_driver \<Rightarrow> string \<Rightarrow> test_registry \<Rightarrow> world \<Rightarrow> go_error \<times> test_registry \<times> world" where
  "DeleteTest drv testID reg w =
     (case map_of (testDescriptors reg) testID of
        None \<Rightarrow> (None, reg, w)
      | Some e \<Rightarrow>
          (let (err, db) = RunTransaction drv (DeleteTestConfig drv 0 testID) (wDb w)
           in (err, reg\<lparr>testDescriptors := AList.delete testID (testDescriptors reg)\<rparr>, w\<lparr>wDb := db\<rparr>)))"

section \<open>Loading\<close>

text \<open>
  The loop over the configured external tests. One that matches a stored test by id or file is
  known; the others are added, and their rows and descriptors collected.
\<close>

fun loadExternal ::
    "flow_env \<Rightarrow> sched_libs \<Rightarrow> registry_libs \<Rightarrow> vref \<Rightarrow> ExternalTestConfig list \<Rightarrow> ExternalTestConfig list \<Rightarrow>
     test_registry \<Rightarrow> world \<Rightarrow> (db_test_config list \<times> Descriptor list \<times> test_registry \<times> world) option" where
  "loadExternal F L Y globalVars stored [] reg w = Some ([], [], reg, w)"
| "loadExternal F L Y globalVars stored (cfg # cfgs) reg w =
     (if \<exists>ext\<in>set stored. exID ext = exID cfg \<or> exFile ext = exFile cfg
      then loadExternal F L Y globalVars stored cfgs reg w
      else
        do {
          (r, reg1, w1) \<leftarrow> AddExternalTest F L Y globalVars cfg reg w;
          (rows, ds, reg2, w2) \<leftarrow> loadExternal F L Y globalVars stored cfgs reg1 w1;
          Some (case r of
                  Inl e \<Rightarrow> (rows, ds, reg2, w2)
                | Inr (d, ext') \<Rightarrow>
                    (case externalTestCfgToDB Y cfg of
                       Inl e \<Rightarrow> (rows, d # ds, reg2, w2)
                     | Inr row \<Rightarrow>
                         (row\<lparr>tcTestID := dID d, tcName := (case dConfig d of Some c \<Rightarrow> cfName c | None \<Rightarrow> '''')\<rparr> # rows,
                          d # ds, reg2, w2)))
        })"

fun insertConfigs :: "db_driver \<Rightarrow> nat \<Rightarrow> db_test_config list \<Rightarrow> database \<Rightarrow> string + database" where
  "insertConfigs drv n [] d = Inr d"
| "insertConfigs drv n (row # rows) d =
     (case InsertTestConfig drv n row d of Inl e \<Rightarrow> Inl e | Inr d1 \<Rightarrow> insertConfigs drv (n + 1) rows d1)"

text \<open>The new map: each descriptor with the next index, a later one replacing an earlier one of the same id.\<close>

fun enterDescriptors :: "Descriptor list \<Rightarrow> test_registry \<Rightarrow> test_registry" where
  "enterDescriptors [] reg = reg"
| "enterDescriptors (d # ds) reg =
     enterDescriptors ds
       (let index = testDescriptorIndex reg + 1
        in reg\<lparr>testDescriptorIndex := index,
               testDescriptors := AList.update (dID d) \<lparr>entDescriptor = d, entIndex = index\<rparr> (testDescriptors reg)\<rparr>)"

definition LoadTests ::
    "flow_env \<Rightarrow> sched_libs \<Rightarrow> registry_libs \<Rightarrow> vref \<Rightarrow> TestConfig list \<Rightarrow> ExternalTestConfig list \<Rightarrow>
     test_registry \<Rightarrow> world \<Rightarrow> (test_registry \<times> world) option" where
  "LoadTests F L Y globalVars local external reg w =
     do {
       let rows = (case GetTestConfigs (dbDriver L) (wDb w) of Inl e \<Rightarrow> [] | Inr rows \<Rightarrow> rows);
       let stored = List.map_filter (externalTestCfgFromDB Y) rows;
       (ds, h) \<leftarrow> LoadTestDescriptors F L globalVars local stored (wHeap w);
       (newRows, newDs, reg1, w1) \<leftarrow> loadExternal F L Y globalVars stored external reg (w\<lparr>wHeap := h\<rparr>);
       let w2 = (if newRows \<noteq> []
                 then w1\<lparr>wDb := snd (RunTransaction (dbDriver L) (insertConfigs (dbDriver L) 0 newRows) (wDb w1))\<rparr>
                 else w1);
       Some (enterDescriptors (ds @ newDs) (reg1\<lparr>testDescriptors := []\<rparr>), w2)
     }"

section \<open>Order\<close>

text \<open>Every entry sits under the id of its descriptor, and indices tell the entries apart.\<close>

definition reg_inv :: "test_registry \<Rightarrow> bool" where
  "reg_inv reg \<longleftrightarrow> distinct (map fst (testDescriptors reg)) \<and>
     (\<forall>(k, e)\<in>set (testDescriptors reg). dID (entDescriptor e) = k \<and> 0 < entIndex e \<and>
        entIndex e \<le> testDescriptorIndex reg) \<and>
     inj_on (entIndex \<circ> snd) (set (testDescriptors reg))"

lemma sort_key_unique:
  assumes "sorted (map f ys)" and "inj_on f (set xs)" and "mset ys = mset xs"
  shows "sort_key f xs = ys"
proof (rule map_inj_on)
  have "mset (map f (sort_key f xs)) = mset (map f ys)" using assms(3) by simp
  then show "map f (sort_key f xs) = map f ys"
    using assms(1) by (metis properties_for_sort sorted_sort_key sort_key_id_if_sorted list.map_ident)
  have "set ys = set xs" using assms(3) by (metis set_mset_mset)
  then show "inj_on f (set (sort_key f xs) \<union> set ys)" using assms(2) by simp
qed

lemma entryIndex_entry:
  assumes "reg_inv reg" and "(k, e) \<in> set (testDescriptors reg)"
  shows "entryIndex reg k = entIndex e" and "dID (entDescriptor e) = k" and "entIndex e \<noteq> 0"
    and "entIndex e \<le> testDescriptorIndex reg"
  using assms by (auto simp: reg_inv_def entryIndex_def)

lemma entryIndex_zero: "reg_inv reg \<Longrightarrow> entryIndex reg k = 0 \<longleftrightarrow> k \<notin> fst ` set (testDescriptors reg)"
  using entryIndex_entry(1,3) by (fastforce simp: entryIndex_def map_of_eq_None_iff [symmetric] split: option.splits dest: map_of_SomeD)

definition regDescriptors :: "test_registry \<Rightarrow> Descriptor list" where
  "regDescriptors reg = map (entDescriptor \<circ> snd) (testDescriptors reg)"

lemma regDescriptors_inj:
  assumes "reg_inv reg"
  shows "inj_on (\<lambda>d. entryIndex reg (dID d)) (set (regDescriptors reg))"
proof (rule inj_onI)
  fix x y
  assume xy: "x \<in> set (regDescriptors reg)" "y \<in> set (regDescriptors reg)" "entryIndex reg (dID x) = entryIndex reg (dID y)"
  obtain j e k f where x: "(j, e) \<in> set (testDescriptors reg)" "x = entDescriptor e"
    and y: "(k, f) \<in> set (testDescriptors reg)" "y = entDescriptor f" using xy(1,2) by (auto simp: regDescriptors_def)
  have "entIndex e = entIndex f"
    using xy(3) entryIndex_entry(1,2) [OF assms x(1)] entryIndex_entry(1,2) [OF assms y(1)] x(2) y(2) by simp
  then have "(j, e) = (k, f)"
    using assms x(1) y(1) unfolding reg_inv_def inj_on_def comp_def by (metis snd_conv)
  then show "x = y" using x y by simp
qed

lemma GetTestDescriptors_set [simp]: "set (GetTestDescriptors reg) = set (regDescriptors reg)"
  by (simp add: GetTestDescriptors_def regDescriptors_def)

lemma GetTestDescriptors_sorted: "sorted (map (\<lambda>d. entryIndex reg (dID d)) (GetTestDescriptors reg))"
  unfolding GetTestDescriptors_def by (rule sorted_sort_key)

lemma GetTestDescriptors_unique:
  assumes "reg_inv reg" and "sorted (map (\<lambda>d. entryIndex reg (dID d)) ds)" and "mset ds = mset (regDescriptors reg)"
  shows "GetTestDescriptors reg = ds"
  unfolding GetTestDescriptors_def
  by (rule sort_key_unique) (use assms regDescriptors_inj in \<open>simp_all add: regDescriptors_def\<close>)

lemma update_known:
  assumes "k \<in> fst ` set xs" and "distinct (map fst xs)"
  shows "AList.update k v xs = map (\<lambda>(j, e). if j = k then (k, v) else (j, e)) xs"
  using assms
proof (induction xs)
  case (Cons p xs)
  obtain j e where p: "p = (j, e)" by (cases p)
  show ?case
  proof (cases "j = k")
    case True
    have "map (\<lambda>(j, e). if j = k then (k, v) else (j, e)) xs = xs"
      by (rule map_idI) (use Cons.prems(2) p True in force)
    then show ?thesis using p True by simp
  next
    case False
    then show ?thesis using Cons p by auto
  qed
qed simp

lemma delete_filter: "AList.delete k xs = filter (\<lambda>p. fst p \<noteq> k) xs"
  by (simp add: AList.delete_eq case_prod_unfold eq_commute)

text \<open>A new entry with the next index is the last one.\<close>

definition nextEntry :: "Descriptor \<Rightarrow> test_registry \<Rightarrow> test_registry" where
  "nextEntry d reg = reg\<lparr>testDescriptorIndex := testDescriptorIndex reg + 1,
     testDescriptors := testDescriptors reg @ [(dID d, \<lparr>entDescriptor = d, entIndex = testDescriptorIndex reg + 1\<rparr>)]\<rparr>"

lemma word_less_Suc: "(n :: u64) \<noteq> -1 \<Longrightarrow> n < n + 1"
  by (metis inc_less_eq_triv_imp linorder_less_linear word_le_less_eq)

lemma reg_inv_nextEntry:
  assumes "reg_inv reg" and "dID d \<notin> fst ` set (testDescriptors reg)" and "testDescriptorIndex reg \<noteq> -1"
  shows "reg_inv (nextEntry d reg)" and "GetTestDescriptors (nextEntry d reg) = GetTestDescriptors reg @ [d]"
proof -
  note lt = word_less_Suc [OF assms(3)]
  have below: "entIndex e \<le> testDescriptorIndex reg" "entIndex e < testDescriptorIndex reg + 1"
    if "(k, e) \<in> set (testDescriptors reg)" for k e
    using entryIndex_entry(4) [OF assms(1) that] lt by (auto intro: le_less_trans)
  have pos: "0 < testDescriptorIndex reg + 1" using lt by (metis word_neq_0_conv not_less_zero word_not_simps(1))
  show inv: "reg_inv (nextEntry d reg)"
    unfolding reg_inv_def
  proof (intro conjI)
    show "distinct (map fst (testDescriptors (nextEntry d reg)))"
      using assms(1,2) by (auto simp: nextEntry_def reg_inv_def)
    show "\<forall>(k, e)\<in>set (testDescriptors (nextEntry d reg)). dID (entDescriptor e) = k \<and> 0 < entIndex e \<and>
        entIndex e \<le> testDescriptorIndex (nextEntry d reg)"
      using assms(1) below pos by (fastforce simp: nextEntry_def reg_inv_def less_imp_le)
    show "inj_on (entIndex \<circ> snd) (set (testDescriptors (nextEntry d reg)))"
      using assms(1) below(2) by (fastforce simp: nextEntry_def reg_inv_def)
  qed
  have same: "entryIndex (nextEntry d reg) (dID x) = entryIndex reg (dID x)" "entryIndex reg (dID x) \<le> testDescriptorIndex reg"
    if "x \<in> set (GetTestDescriptors reg)" for x
  proof -
    have "x \<in> set (regDescriptors reg)" using that by simp
    then obtain k e where e: "(k, e) \<in> set (testDescriptors reg)" "x = entDescriptor e"
      by (force simp: regDescriptors_def)
    note f = entryIndex_entry [OF assms(1) e(1)]
    have "(k, e) \<in> set (testDescriptors (nextEntry d reg))" using e(1) by (simp add: nextEntry_def)
    from entryIndex_entry(1) [OF inv this] f e(2)
    show "entryIndex (nextEntry d reg) (dID x) = entryIndex reg (dID x)" "entryIndex reg (dID x) \<le> testDescriptorIndex reg"
      by simp_all
  qed
  have "(dID d, \<lparr>entDescriptor = d, entIndex = testDescriptorIndex reg + 1\<rparr>) \<in> set (testDescriptors (nextEntry d reg))"
    by (simp add: nextEntry_def)
  from entryIndex_entry(1) [OF inv this] have last: "entryIndex (nextEntry d reg) (dID d) = testDescriptorIndex reg + 1" by simp
  have "map (\<lambda>x. entryIndex (nextEntry d reg) (dID x)) (GetTestDescriptors reg) =
      map (\<lambda>x. entryIndex reg (dID x)) (GetTestDescriptors reg)"
    by (rule map_cong [OF refl]) (rule same(1))
  then have "sorted (map (\<lambda>x. entryIndex (nextEntry d reg) (dID x)) (GetTestDescriptors reg))"
    using GetTestDescriptors_sorted [of reg] by (simp only:)
  then have "sorted (map (\<lambda>x. entryIndex (nextEntry d reg) (dID x)) (GetTestDescriptors reg @ [d]))"
    using same last le_less_trans [OF same(2) lt] by (simp add: sorted_append less_imp_le)
  moreover have "mset (GetTestDescriptors reg @ [d]) = mset (regDescriptors (nextEntry d reg))"
    by (simp add: GetTestDescriptors_def regDescriptors_def nextEntry_def)
  ultimately show "GetTestDescriptors (nextEntry d reg) = GetTestDescriptors reg @ [d]"
    by (rule GetTestDescriptors_unique [OF inv])
qed

text \<open>The registry as a plain list: put replaces in place or appends, enter moves to the end.\<close>

definition listPut :: "Descriptor \<Rightarrow> Descriptor list \<Rightarrow> Descriptor list" where
  "listPut d ds = (if dID d \<in> dID ` set ds then map (\<lambda>x. if dID x = dID d then d else x) ds else ds @ [d])"

definition listDelete :: "string \<Rightarrow> Descriptor list \<Rightarrow> Descriptor list" where
  "listDelete testID ds = filter (\<lambda>x. dID x \<noteq> testID) ds"

lemma reg_ids: "reg_inv reg \<Longrightarrow> dID ` set (GetTestDescriptors reg) = fst ` set (testDescriptors reg)"
  by (force simp: regDescriptors_def reg_inv_def image_iff)

lemma map_of_map_key: "map_of (map (\<lambda>(k, e). (k, f k e)) xs) k = map_option (f k) (map_of xs k)"
  by (induction xs) auto

lemma reg_map_entries:
  assumes "reg_inv reg"
    and "testDescriptors reg' = map (\<lambda>(k, e). (k, f k e)) (testDescriptors reg)"
    and "testDescriptorIndex reg' = testDescriptorIndex reg"
    and "\<And>k e. (k, e) \<in> set (testDescriptors reg) \<Longrightarrow> entIndex (f k e) = entIndex e \<and>
      entDescriptor (f k e) = h (entDescriptor e) \<and> dID (h (entDescriptor e)) = k"
  shows "reg_inv reg' \<and> GetTestDescriptors reg' = map h (GetTestDescriptors reg)"
proof -
  have inv: "reg_inv reg'"
    unfolding reg_inv_def
  proof (intro conjI)
    show "distinct (map fst (testDescriptors reg'))"
      using assms(1) by (simp add: assms(2) reg_inv_def comp_def case_prod_unfold)
    show "\<forall>(k, e)\<in>set (testDescriptors reg'). dID (entDescriptor e) = k \<and> 0 < entIndex e \<and> entIndex e \<le> testDescriptorIndex reg'"
    proof (clarify, intro conjI)
      fix k e' assume "(k, e') \<in> set (testDescriptors reg')"
      then obtain e where e: "(k, e) \<in> set (testDescriptors reg)" "e' = f k e" using assms(2) by auto
      show "dID (entDescriptor e') = k" "0 < entIndex e'" "entIndex e' \<le> testDescriptorIndex reg'"
        using assms(4) [OF e(1)] entryIndex_entry [OF assms(1) e(1)] assms(3) e(2) by (auto simp: word_neq_0_conv)
    qed
    show "inj_on (entIndex \<circ> snd) (set (testDescriptors reg'))"
    proof (rule inj_onI)
      fix p q
      assume pq: "p \<in> set (testDescriptors reg')" "q \<in> set (testDescriptors reg')"
        "(entIndex \<circ> snd) p = (entIndex \<circ> snd) q"
      obtain j e k g where e: "(j, e) \<in> set (testDescriptors reg)" "p = (j, f j e)"
        "(k, g) \<in> set (testDescriptors reg)" "q = (k, f k g)" using pq(1,2) assms(2) by auto
      then have "(entIndex \<circ> snd) (j, e) = (entIndex \<circ> snd) (k, g)" using pq(3) assms(4) by simp
      moreover have "inj_on (entIndex \<circ> snd) (set (testDescriptors reg))" using assms(1) by (simp add: reg_inv_def)
      ultimately have "(j, e) = (k, g)" using e(1,3) by (metis inj_onD)
      then show "p = q" using e by simp
    qed
  qed
  have idx: "entryIndex reg' k = entryIndex reg k" for k
  proof (cases "map_of (testDescriptors reg) k")
    case None
    then show ?thesis by (simp add: entryIndex_def assms(2) map_of_map_key)
  next
    case (Some e)
    then show ?thesis using assms(4) [OF map_of_SomeD [OF Some]] by (simp add: entryIndex_def assms(2) map_of_map_key)
  qed
  have ids: "dID (h x) = dID x" if "x \<in> set (GetTestDescriptors reg)" for x
    using that assms(1,4) by (force simp: regDescriptors_def reg_inv_def)
  have "map (\<lambda>d. entryIndex reg' (dID d)) (map h (GetTestDescriptors reg)) =
      map (\<lambda>d. entryIndex reg (dID d)) (GetTestDescriptors reg)"
    unfolding map_map comp_def idx by (rule map_cong [OF refl]) (simp add: ids)
  then have "sorted (map (\<lambda>d. entryIndex reg' (dID d)) (map h (GetTestDescriptors reg)))"
    using GetTestDescriptors_sorted [of reg] by (simp only:)
  moreover have "mset (map h (GetTestDescriptors reg)) = mset (regDescriptors reg')"
  proof -
    have "map h (regDescriptors reg) = regDescriptors reg'"
      using assms(4) by (auto simp: regDescriptors_def assms(2) comp_def case_prod_unfold)
    then show ?thesis by (metis GetTestDescriptors_def mset_map mset_sort regDescriptors_def)
  qed
  ultimately show ?thesis using inv GetTestDescriptors_unique [OF inv] by blast
qed

lemma registerDescriptor_known:
  assumes "reg_inv reg" and "dID d \<in> fst ` set (testDescriptors reg)"
  shows "reg_inv (registerDescriptor d reg) \<and>
    GetTestDescriptors (registerDescriptor d reg) = map (\<lambda>x. if dID x = dID d then d else x) (GetTestDescriptors reg)"
proof (rule reg_map_entries [OF assms(1)])
  have idx: "entryIndex reg (dID d) \<noteq> 0" using entryIndex_zero [OF assms(1)] assms(2) by blast
  let ?f = "\<lambda>k e. if k = dID d then \<lparr>entDescriptor = d, entIndex = entryIndex reg (dID d)\<rparr> else e"
  show "testDescriptors (registerDescriptor d reg) = map (\<lambda>(k, e). (k, ?f k e)) (testDescriptors reg)"
    using idx update_known [OF assms(2)] assms(1)
    by (auto simp: registerDescriptor_def reg_inv_def Let_def)
  show "testDescriptorIndex (registerDescriptor d reg) = testDescriptorIndex reg"
    using idx by (simp add: registerDescriptor_def)
  show "entIndex (?f k e) = entIndex e \<and> entDescriptor (?f k e) = (if dID (entDescriptor e) = dID d then d else entDescriptor e) \<and>
      dID (if dID (entDescriptor e) = dID d then d else entDescriptor e) = k"
    if "(k, e) \<in> set (testDescriptors reg)" for k e
    using entryIndex_entry [OF assms(1) that] by auto
qed

lemma registerDescriptor_list:
  assumes "reg_inv reg" and "testDescriptorIndex reg \<noteq> -1"
  shows "reg_inv (registerDescriptor d reg) \<and>
    GetTestDescriptors (registerDescriptor d reg) = listPut d (GetTestDescriptors reg)"
proof (cases "dID d \<in> fst ` set (testDescriptors reg)")
  case True
  then show ?thesis using registerDescriptor_known [OF assms(1)] reg_ids [OF assms(1)] by (simp add: listPut_def)
next
  case False
  then have "registerDescriptor d reg = nextEntry d reg"
    using entryIndex_zero [OF assms(1), of "dID d"] by (simp add: registerDescriptor_def nextEntry_def update_new Let_def)
  then show ?thesis using reg_inv_nextEntry [OF assms(1) False assms(2)] reg_ids [OF assms(1)] False by (simp add: listPut_def)
qed

lemma delete_list:
  assumes "reg_inv reg" and reg'_def: "reg' = reg\<lparr>testDescriptors := AList.delete testID (testDescriptors reg)\<rparr>"
  shows "reg_inv reg' \<and> GetTestDescriptors reg' = listDelete testID (GetTestDescriptors reg)"
proof -
  have td: "testDescriptors reg' = filter (\<lambda>p. fst p \<noteq> testID) (testDescriptors reg)"
    by (simp add: reg'_def delete_filter)
  have inv: "reg_inv reg'"
    using assms(1) unfolding reg_inv_def td by (auto simp: reg'_def distinct_map_filter intro: inj_on_subset)
  have ids: "dID (entDescriptor e) = k" if "(k, e) \<in> set (testDescriptors reg)" for k e
    using entryIndex_entry(2) [OF assms(1) that] .
  have idx: "entryIndex reg' k = entryIndex reg k" if "k \<noteq> testID" for k
    using that by (simp add: entryIndex_def reg'_def map_of_delete)
  have "map (\<lambda>d. entryIndex reg' (dID d)) (listDelete testID (GetTestDescriptors reg)) =
      map (\<lambda>d. entryIndex reg (dID d)) (listDelete testID (GetTestDescriptors reg))"
    by (rule map_cong [OF refl]) (simp add: listDelete_def idx)
  moreover have "sorted (map (\<lambda>d. entryIndex reg (dID d)) (listDelete testID (GetTestDescriptors reg)))"
    using GetTestDescriptors_sorted by (simp add: listDelete_def sorted_filter)
  ultimately have "sorted (map (\<lambda>d. entryIndex reg' (dID d)) (listDelete testID (GetTestDescriptors reg)))"
    by (simp only:)
  moreover have "mset (listDelete testID (GetTestDescriptors reg)) = mset (regDescriptors reg')"
  proof -
    have "filter (\<lambda>x. dID x \<noteq> testID) (regDescriptors reg) = regDescriptors reg'"
      using ids by (auto simp: regDescriptors_def td filter_map comp_def case_prod_unfold intro!: arg_cong [where f = "map _"] filter_cong)
    moreover have "mset (GetTestDescriptors reg) = mset (regDescriptors reg)"
      by (simp add: GetTestDescriptors_def regDescriptors_def)
    ultimately show ?thesis by (metis listDelete_def mset_filter)
  qed
  ultimately show ?thesis using inv GetTestDescriptors_unique [OF inv] by blast
qed

section \<open>The registry is an ordered list of tests\<close>

lemma AddLocalTest_cases:
  "AddLocalTest L g cfg reg w = Some (r, reg', w') \<Longrightarrow>
    (\<exists>e. r = Inl e) \<and> reg' = reg \<or> (\<exists>d. r = Inr d \<and> dID d = cfID cfg \<and> reg' = registerDescriptor d reg)"
  by (auto simp: AddLocalTest_def bind_eq_Some_conv NewDescriptor_def Let_def split: if_splits option.splits prod.splits)

lemma AddExternalTest_cases:
  assumes "AddExternalTest F L Y g ext reg w = Some (r, reg', w')"
  shows "(\<exists>e. r = Inl e) \<and> reg' = reg \<or> (\<exists>d ext'. r = Inr (d, ext') \<and> reg' = registerDescriptor d reg)"
proof -
  obtain x h where x: "LoadExternalTestConfig F L g ext (wHeap w) = Some (x, h)"
    using assms by (auto simp: AddExternalTest_def bind_eq_Some_conv)
  show ?thesis
  proof (cases x)
    case (Inl e)
    then show ?thesis using assms x by (auto simp: AddExternalTest_def)
  next
    case (Inr p)
    then show ?thesis
      using assms x
      by (cases p) (auto simp: AddExternalTest_def Let_def split: if_splits sum.splits prod.splits)
  qed
qed

text \<open>C14. To its users the registry is a list of tests in the order of their registration: adding a
  test with a known id replaces the test in its place, adding another one appends it, a failed
  addition changes nothing, and deleting a test removes it and keeps the order of the rest.
\<close>

theorem registry_refines_list:
  assumes "reg_inv reg" and "testDescriptorIndex reg \<noteq> -1"
  shows "(\<forall>r reg' w'. AddLocalTest L g cfg reg w = Some (r, reg', w') \<longrightarrow>
      reg_inv reg' \<and> GetTestDescriptors reg' =
        (case r of Inl e \<Rightarrow> GetTestDescriptors reg | Inr d \<Rightarrow> listPut d (GetTestDescriptors reg))) \<and>
    (\<forall>r reg' w'. AddExternalTest F L Y g ext reg w = Some (r, reg', w') \<longrightarrow>
      reg_inv reg' \<and> GetTestDescriptors reg' =
        (case r of Inl e \<Rightarrow> GetTestDescriptors reg | Inr (d, ext') \<Rightarrow> listPut d (GetTestDescriptors reg))) \<and>
    (\<forall>err reg' w'. DeleteTest drv testID reg w = (err, reg', w') \<longrightarrow>
      reg_inv reg' \<and> GetTestDescriptors reg' = listDelete testID (GetTestDescriptors reg))"
proof (intro conjI allI impI)
  note put = registerDescriptor_list [OF assms]
  fix r reg' w' assume "AddLocalTest L g cfg reg w = Some (r, reg', w')"
  from AddLocalTest_cases [OF this]
  show "reg_inv reg'" "GetTestDescriptors reg' =
      (case r of Inl e \<Rightarrow> GetTestDescriptors reg | Inr d \<Rightarrow> listPut d (GetTestDescriptors reg))"
    using assms(1) put by auto
next
  note put = registerDescriptor_list [OF assms]
  fix r reg' w' assume "AddExternalTest F L Y g ext reg w = Some (r, reg', w')"
  from AddExternalTest_cases [OF this]
  show "reg_inv reg'" "GetTestDescriptors reg' =
      (case r of Inl e \<Rightarrow> GetTestDescriptors reg | Inr (d, ext') \<Rightarrow> listPut d (GetTestDescriptors reg))"
    using assms(1) put by auto
next
  fix err reg' w' assume del: "DeleteTest drv testID reg w = (err, reg', w')"
  have "reg_inv reg' \<and> GetTestDescriptors reg' = listDelete testID (GetTestDescriptors reg)"
  proof (cases "map_of (testDescriptors reg) testID")
    case None
    then have "testID \<notin> dID ` set (GetTestDescriptors reg)"
      using reg_ids [OF assms(1)] by (simp add: map_of_eq_None_iff)
    then have "listDelete testID (GetTestDescriptors reg) = GetTestDescriptors reg"
      unfolding listDelete_def by (intro filter_True) auto
    then show ?thesis using del None assms(1) by (simp add: DeleteTest_def)
  next
    case (Some e)
    then have "reg' = reg\<lparr>testDescriptors := AList.delete testID (testDescriptors reg)\<rparr>"
      using del by (auto simp: DeleteTest_def Let_def split: prod.splits)
    then show ?thesis by (rule delete_list [OF assms(1)])
  qed
  then show "reg_inv reg'" "GetTestDescriptors reg' = listDelete testID (GetTestDescriptors reg)" by simp_all
qed

section \<open>Stored configurations\<close>

text \<open>What the code relies on of YAML: a list or map that was encoded decodes to the same value, and
  the text of a list that is not empty is not empty.\<close>

definition yaml_inverse :: "registry_libs \<Rightarrow> bool" where
  "yaml_inverse Y \<longleftrightarrow>
     (\<forall>c y. encodeConfig Y c = Inr y \<longrightarrow> decodeConfig Y y = Inr c) \<and>
     (\<forall>c y. encodeConfigVars Y c = Inr y \<longrightarrow> decodeConfigVars Y y = Inr c) \<and>
     (\<forall>c y. c \<noteq> [] \<longrightarrow> encodeCron Y c = Inr y \<longrightarrow> y \<noteq> '''' \<and> decodeCron Y y = Inr c)"

text \<open>An external test stored in the database is loaded again with the same id, file, name,
  variables and cron expressions, and with its timeout in whole seconds. Its other schedule
  settings are lost: after loading it neither starts at startup nor skips the queue, whatever was
  stored.
\<close>

theorem external_test_roundtrip:
  assumes "yaml_inverse Y" and "externalTestCfgToDB Y cfg = Inr row"
  shows "externalTestCfgFromDB Y row = Some (cfg\<lparr>
      exTimeout := (case exTimeout cfg of
                      Some t \<Rightarrow> if wholeSeconds t > 0 then Some (wholeSeconds t * 1000000000) else None
                    | None \<Rightarrow> None),
      exSchedule := Some \<lparr>schStartup = False, schCron = (case exSchedule cfg of Some sch \<Rightarrow> schCron sch | None \<Rightarrow> []),
                          schSkipQueue = False\<rparr>\<rparr>)"
proof -
  obtain cr where cr: "(case exSchedule cfg of
        Some sch \<Rightarrow> if schCron sch \<noteq> [] then encodeCron Y (schCron sch) else Inr '''' | None \<Rightarrow> Inr '''') = Inr cr"
    using assms(2) by (cases "case exSchedule cfg of
        Some sch \<Rightarrow> if schCron sch \<noteq> [] then encodeCron Y (schCron sch) else Inr '''' | None \<Rightarrow> Inr ''''")
      (simp_all add: externalTestCfgToDB_def Let_def)
  obtain c where c: "encodeConfig Y (exConfig cfg) = Inr c"
    using assms(2) cr by (cases "encodeConfig Y (exConfig cfg)") (simp_all add: externalTestCfgToDB_def Let_def)
  obtain v where v: "encodeConfigVars Y (exConfigVars cfg) = Inr v"
    using assms(2) cr c by (cases "encodeConfigVars Y (exConfigVars cfg)") (simp_all add: externalTestCfgToDB_def Let_def)
  have row: "row = \<lparr>tcTestID = exID cfg, tcSource = exFile cfg, tcName = exName cfg,
      tcTimeout = (case exTimeout cfg of Some t \<Rightarrow> wholeSeconds t | None \<Rightarrow> 0), tcConfig = c, tcConfigVars = v,
      tcScheduleStartup = (case exSchedule cfg of Some sch \<Rightarrow> schStartup sch | None \<Rightarrow> True), tcScheduleCronYaml = cr\<rparr>"
    using assms(2) cr c v by (simp add: externalTestCfgToDB_def Let_def)
  have dec: "decodeConfig Y c = Inr (exConfig cfg)" "decodeConfigVars Y v = Inr (exConfigVars cfg)"
    using assms(1) c v by (auto simp: yaml_inverse_def)
  have cron: "(if cr \<noteq> '''' then decodeCron Y cr else Inr []) =
      Inr (case exSchedule cfg of Some sch \<Rightarrow> schCron sch | None \<Rightarrow> [])"
    using assms(1) cr by (auto simp: yaml_inverse_def split: option.splits if_splits)
  show ?thesis
    unfolding externalTestCfgFromDB_def row db_test_config.select_convs dec cron sum.case
    by (cases cfg) (auto split: option.split)
qed

text \<open>Codecs of the fragment the example needs: one cron expression, no variables.\<close>

definition plain_codec :: registry_libs where
  "plain_codec = \<lparr>encodeConfig = (\<lambda>c. if c = [] then Inr ''{}'' else Inl ''unsupported''),
     encodeConfigVars = (\<lambda>c. if c = [] then Inr ''{}'' else Inl ''unsupported''),
     encodeCron = (\<lambda>c. case c of [x] \<Rightarrow> Inr (''- '' @ x) | _ \<Rightarrow> Inl ''unsupported''),
     decodeConfig = (\<lambda>_. Inr []), decodeConfigVars = (\<lambda>_. Inr []), decodeCron = (\<lambda>y. Inr [drop 2 y])\<rparr>"

lemma plain_codec_inverse: "yaml_inverse plain_codec"
  by (auto simp: yaml_inverse_def plain_codec_def split: list.splits if_splits)

definition nightly :: ExternalTestConfig where
  "nightly = \<lparr>exID = ''nightly'', exFile = ''nightly.yaml'', exName = ''Nightly'', exTimeout = Some 90500000000,
     exConfig = [], exConfigVars = [],
     exSchedule = Some \<lparr>schStartup = True, schCron = [''0 3 * * *''], schSkipQueue = True\<rparr>\<rparr>"

theorem external_test_roundtrip_witness:
  "\<exists>row. externalTestCfgToDB plain_codec nightly = Inr row \<and> tcScheduleStartup row \<and>
     externalTestCfgFromDB plain_codec row = Some (nightly\<lparr>exTimeout := Some 90000000000,
       exSchedule := Some \<lparr>schStartup = False, schCron = [''0 3 * * *''], schSkipQueue = False\<rparr>\<rparr>)"
proof -
  obtain row where row: "externalTestCfgToDB plain_codec nightly = Inr row" "tcScheduleStartup row"
    by (auto simp: externalTestCfgToDB_def plain_codec_def nightly_def)
  from external_test_roundtrip [OF plain_codec_inverse row(1)] show ?thesis
    using row by (auto simp: nightly_def wholeSeconds_def)
qed

definition demo_registry :: test_registry where
  "demo_registry = registerDescriptor (NewDescriptor ''b'' ''local-2'' (the (dConfig test_descriptor)) 0)
     (registerDescriptor (NewDescriptor ''a'' ''local-1'' (the (dConfig test_descriptor)) 0) NewTestRegistry)"

lemma reg_inv_NewTestRegistry [simp]: "reg_inv NewTestRegistry"
  by (simp add: reg_inv_def NewTestRegistry_def)

lemma demo_registry_inv: "reg_inv demo_registry" "testDescriptorIndex demo_registry \<noteq> -1"
proof -
  let ?r = "registerDescriptor (NewDescriptor ''a'' ''local-1'' (the (dConfig test_descriptor)) 0) NewTestRegistry"
  have "testDescriptorIndex NewTestRegistry \<noteq> -1" "testDescriptorIndex ?r \<noteq> -1"
    "testDescriptorIndex demo_registry \<noteq> -1" by code_simp+
  then show "reg_inv demo_registry" "testDescriptorIndex demo_registry \<noteq> -1"
    using registerDescriptor_list reg_inv_NewTestRegistry unfolding demo_registry_def by blast+
qed

theorem registry_refines_list_witness:
  "\<exists>d reg' w'. AddLocalTest (quiet_libs (ExecReturned None)) 0 (the (dConfig test_descriptor)\<lparr>cfID := ''a'', cfName := ''New''\<rparr>)
       demo_registry test_world = Some (Inr d, reg', w') \<and>
     map dID (GetTestDescriptors demo_registry) = [''a'', ''b''] \<and>
     GetTestDescriptors reg' = listPut d (GetTestDescriptors demo_registry)"
proof -
  let ?c = "the (dConfig test_descriptor)\<lparr>cfID := ''a'', cfName := ''New''\<rparr>"
  have "case AddLocalTest (quiet_libs (ExecReturned None)) 0 ?c demo_registry test_world of
      None \<Rightarrow> False | Some (Inl e, x) \<Rightarrow> False | Some (Inr d, x) \<Rightarrow> True" by code_simp
  then obtain d x where "AddLocalTest (quiet_libs (ExecReturned None)) 0 ?c demo_registry test_world = Some (Inr d, x)"
    by (rule case_Some_Inr)
  then obtain reg' w' where
    a: "AddLocalTest (quiet_libs (ExecReturned None)) 0 ?c demo_registry test_world = Some (Inr d, reg', w')"
    by (cases x) auto
  have "map dID (GetTestDescriptors demo_registry) = [''a'', ''b'']" by code_simp
  moreover have "GetTestDescriptors reg' = listPut d (GetTestDescriptors demo_registry)"
    using registry_refines_list [OF demo_registry_inv, of "quiet_libs (ExecReturned None)" 0 ?c test_world] a by fastforce
  ultimately show ?thesis using a by (intro exI [of _ d] exI [of _ reg'] exI [of _ w']) simp
qed

end
