(* ===== verification/TestRunner.thy ===== *)
theory TestRunner
  imports TestRegistry
begin

text \<open>
  The test runner (\<open>testrunner.go\<close>): run ids, the queue of test runs, the loop that executes queued
  tests with limited concurrency, the startup and cron schedules, and the coordinator's functions
  on runs. The loop is a step relation that interleaves it with the test goroutines and with
  callers that schedule, remove and abort tests.
\<close>

section \<open>Data\<close>

text \<open>
  A test run is referred to by its run id. \<open>queueNotification\<close> is a channel with room for one value,
  \<open>offQueueNotification\<close> one with room for ten runs.
\<close>

record test_runner =
  runIDCounter :: u64
  testRunMap :: "(u64 \<times> test_run) list"
  testQueue :: "u64 list"
  queueNotification :: bool
  offQueueNotification :: "u64 list"

definition NewTestRunner :: "u64 \<Rightarrow> test_runner" where
  "NewTestRunner lastRunID = \<lparr>runIDCounter = lastRunID, testRunMap = [], testQueue = [],
     queueNotification = False, offQueueNotification = []\<rparr>"

definition GetTestByRunID :: "test_runner \<Rightarrow> u64 \<Rightarrow> test_run option" where
  "GetTestByRunID c runID = map_of (testRunMap c) runID"

definition GetTestQueue :: "test_runner \<Rightarrow> test_run list" where
  "GetTestQueue c = List.map_filter (GetTestByRunID c) (testQueue c)"

definition TestID :: "test_run \<Rightarrow> string" where
  "TestID t = dID (tDescriptor t)"

section \<open>The queue\<close>

definition RemoveTestFromQueue :: "u64 \<Rightarrow> test_runner \<Rightarrow> bool \<times> test_runner" where
  "RemoveTestFromQueue runID c =
     (if runID \<in> set (testQueue c)
      then (case GetTestByRunID c runID of
              None \<Rightarrow> (False, c)
            | Some t \<Rightarrow>
                if tStatus t = TestStatusRunning then (False, c)
                else (True, c\<lparr>testQueue := remove1 runID (testQueue c),
                             testRunMap := AList.delete runID (testRunMap c)\<rparr>))
      else (False, c))"

definition createTestRun ::
    "flow_env \<Rightarrow> sched_libs \<Rightarrow> (u64 \<Rightarrow> string + string) \<Rightarrow> Descriptor \<Rightarrow> (string \<times> var_value) list \<Rightarrow> bool \<Rightarrow> bool \<Rightarrow>
     test_runner \<Rightarrow> world \<Rightarrow> ((string + u64) \<times> test_runner \<times> world) option" where
  "createTestRun F L json d overrides allowDuplicate skipQueue c w =
     (if \<not> allowDuplicate \<and> dID d \<in> TestID ` set (GetTestQueue c)
      then Some (Inl ''test already in queue'', c, w)
      else
        do {
          let runID = runIDCounter c + 1;
          let c1 = c\<lparr>runIDCounter := runID\<rparr>;
          (r, w1) \<leftarrow> CreateTest F L json runID d overrides w;
          case r of
            Inl e \<Rightarrow>
              do {
                config \<leftarrow> dConfig d;
                Some (Inl (''failed initializing test run #'' @ showNat (unat runID) @ '' '' @ [CHR 0x27] @ cfName config @
                  [CHR 0x27] @ '': '' @ e), c1, w1)
              }
          | Inr t \<Rightarrow>
              Some (Inr runID,
                c1\<lparr>testQueue := (if skipQueue then testQueue c1 else testQueue c1 @ [runID]),
                   testRunMap := AList.update runID t (testRunMap c1)\<rparr>, w1)
        })"

text \<open>The send of a run that skips the queue waits while ten runs are pending: None.\<close>

definition ScheduleTest ::
    "flow_env \<Rightarrow> sched_libs \<Rightarrow> (u64 \<Rightarrow> string + string) \<Rightarrow> Descriptor \<Rightarrow> (string \<times> var_value) list \<Rightarrow> bool \<Rightarrow> bool \<Rightarrow>
     test_runner \<Rightarrow> world \<Rightarrow> ((string + u64) \<times> test_runner \<times> world) option" where
  "ScheduleTest F L json d overrides allowDuplicate skipQueue c w =
     (case dErr d of
        Some e \<Rightarrow> Some (Inl (''cannot create test from failed test descriptor: '' @ e), c, w)
      | None \<Rightarrow>
          do {
            (r, c1, w1) \<leftarrow> createTestRun F L json d overrides allowDuplicate skipQueue c w;
            case r of
              Inl e \<Rightarrow> Some (Inl e, c1, w1)
            | Inr runID \<Rightarrow>
                if skipQueue
                then (if length (offQueueNotification c1) < 10
                      then Some (Inr runID, c1\<lparr>offQueueNotification := offQueueNotification c1 @ [runID]\<rparr>, w1)
                      else None)
                else Some (Inr runID, c1\<lparr>queueNotification := True\<rparr>, w1)
          })"

section \<open>Schedules\<close>

definition getStartupTests :: "Descriptor list \<Rightarrow> Descriptor list" where
  "getStartupTests ds =
     filter (\<lambda>d. dErr d = None \<and>
       (case dConfig d of
          None \<Rightarrow> False
        | Some config \<Rightarrow> (case cfSchedule config of None \<Rightarrow> True | Some sch \<Rightarrow> schStartup sch))) ds"

text \<open>
  The next time after a given one, in seconds, that matches a cron expression; None if the
  expression is invalid. The loop gives up at an invalid expression.
\<close>

fun cronTriggers :: "(string \<Rightarrow> int \<Rightarrow> int option) \<Rightarrow> int \<Rightarrow> string list \<Rightarrow> bool" where
  "cronTriggers cronNext cronTime [] = False"
| "cronTriggers cronNext cronTime (expr # exprs) =
     (case cronNext expr (cronTime - 1) of
        None \<Rightarrow> False
      | Some next \<Rightarrow> next = cronTime \<or> cronTriggers cronNext cronTime exprs)"

definition getCronTests :: "(string \<Rightarrow> int \<Rightarrow> int option) \<Rightarrow> int \<Rightarrow> Descriptor list \<Rightarrow> Descriptor list" where
  "getCronTests cronNext cronTime ds =
     filter (\<lambda>d. dErr d = None \<and>
       (case dConfig d of
          None \<Rightarrow> False
        | Some config \<Rightarrow>
            (case cfSchedule config of
               None \<Rightarrow> False
             | Some sch \<Rightarrow> schCron sch \<noteq> [] \<and> cronTriggers cronNext cronTime (schCron sch)))) ds"

text \<open>One round of the startup or the cron schedule: every due test is scheduled, errors are logged.\<close>

fun scheduleTests ::
    "flow_env \<Rightarrow> sched_libs \<Rightarrow> (u64 \<Rightarrow> string + string) \<Rightarrow> Descriptor list \<Rightarrow> test_runner \<Rightarrow> world \<Rightarrow>
     (test_runner \<times> world) option" where
  "scheduleTests F L json [] c w = Some (c, w)"
| "scheduleTests F L json (d # ds) c w =
     do {
       config \<leftarrow> dConfig d;
       let skipQueue = (case cfSchedule config of None \<Rightarrow> False | Some sch \<Rightarrow> schSkipQueue sch);
       (r, c1, w1) \<leftarrow> ScheduleTest F L json d [] False skipQueue c w;
       scheduleTests F L json ds c1 w1
     }"

section \<open>The coordinator's functions on runs\<close>

definition DeleteRun :: "db_driver \<Rightarrow> u64 \<Rightarrow> test_runner \<Rightarrow> world \<Rightarrow> go_error \<times> test_runner \<times> world" where
  "DeleteRun drv runID c w =
     (let delete = (\<lambda>c. let (err, db) = RunTransaction drv (DeleteTestRun drv 0 runID) (wDb w)
                        in (err, c, w\<lparr>wDb := db\<rparr>))
      in case GetTestByRunID c runID of
           None \<Rightarrow> delete c
         | Some t \<Rightarrow>
             if tStatus t \<noteq> TestStatusPending then (Some ''cannot delete running test'', c, w)
             else (let (removed, c1) = RemoveTestFromQueue runID c
                   in if removed then delete c1 else (Some ''could not remove test from queue'', c, w)))"

section \<open>The execution loop\<close>

datatype loop_pc = LoopHead | LoopAcquire u64 | LoopSleep | LoopDrain | LoopReturned

text \<open>\<open>elRunning\<close> are the runs with a goroutine and a slot of the semaphore, \<open>elStarted\<close> all runs started so far
  from the queue, \<open>elOffRunning\<close> the goroutines of \<open>RunOffQueueTestExecutionLoop\<close>.\<close>

record exec_loop =
  elRunner :: test_runner
  elWorld :: world
  elPc :: loop_pc
  elRunning :: "u64 list"
  elStarted :: "u64 list"
  elOffRunning :: "u64 list"
  elCtxDone :: bool

definition concurrencyLimit :: "u64 \<Rightarrow> nat" where
  "concurrencyLimit limit = unat (if limit < 1 then 1 else limit)"

definition loopStart :: "test_runner \<Rightarrow> world \<Rightarrow> exec_loop" where
  "loopStart c w = \<lparr>elRunner = c, elWorld = w, elPc = LoopHead, elRunning = [], elStarted = [],
     elOffRunning = [], elCtxDone = False\<rparr>"

text \<open>
  Callers may schedule a test as long as the run ids last, remove one from the queue or abort any;
  \<open>runTest\<close> of a goroutine is one step, with \<open>aborted\<close> for an abort that came meanwhile. Appending a run to the queue and the
  notification of the loop that follows it are one step.
\<close>

inductive loop_step ::
    "flow_env \<Rightarrow> sched_libs \<Rightarrow> (u64 \<Rightarrow> string + string) \<Rightarrow> u64 \<Rightarrow> exec_loop \<Rightarrow> exec_loop \<Rightarrow> bool"
  for F :: flow_env and L :: sched_libs and json :: "u64 \<Rightarrow> string + string" and limit :: u64 where
  loop_next: "elPc st = LoopHead \<Longrightarrow> testQueue (elRunner st) = runID # q \<Longrightarrow>
     loop_step F L json limit st (st\<lparr>elPc := LoopAcquire runID, elRunner := (elRunner st)\<lparr>testQueue := q\<rparr>\<rparr>)"
| loop_idle: "elPc st = LoopHead \<Longrightarrow> testQueue (elRunner st) = [] \<Longrightarrow>
     loop_step F L json limit st (st\<lparr>elPc := LoopSleep\<rparr>)"
| loop_start: "elPc st = LoopAcquire runID \<Longrightarrow> length (elRunning st) < concurrencyLimit limit \<Longrightarrow> \<not> elCtxDone st \<Longrightarrow>
     loop_step F L json limit st
       (st\<lparr>elPc := LoopHead, elRunning := runID # elRunning st, elStarted := elStarted st @ [runID]\<rparr>)"
| loop_break: "elPc st = LoopAcquire runID \<Longrightarrow> length (elRunning st) < concurrencyLimit limit \<Longrightarrow> elCtxDone st \<Longrightarrow>
     loop_step F L json limit st (st\<lparr>elPc := LoopDrain\<rparr>)"
| loop_notified: "elPc st = LoopSleep \<Longrightarrow> queueNotification (elRunner st) \<Longrightarrow>
     loop_step F L json limit st (st\<lparr>elPc := LoopHead, elRunner := (elRunner st)\<lparr>queueNotification := False\<rparr>\<rparr>)"
| loop_timer: "elPc st = LoopSleep \<Longrightarrow> loop_step F L json limit st (st\<lparr>elPc := LoopHead\<rparr>)"
| loop_ctx: "elPc st = LoopSleep \<Longrightarrow> elCtxDone st \<Longrightarrow> loop_step F L json limit st (st\<lparr>elPc := LoopDrain\<rparr>)"
| loop_return: "elPc st = LoopDrain \<Longrightarrow> elRunning st = [] \<Longrightarrow>
     loop_step F L json limit st (st\<lparr>elPc := LoopReturned\<rparr>)"
| test_done: "runID \<in> set (elRunning st) \<Longrightarrow> GetTestByRunID (elRunner st) runID = Some t \<Longrightarrow>
     runTest L aborted t (elWorld st) = Some (t', w') \<Longrightarrow>
     loop_step F L json limit st
       (st\<lparr>elRunning := remove1 runID (elRunning st), elWorld := w',
           elRunner := (elRunner st)\<lparr>testRunMap := AList.update runID t' (testRunMap (elRunner st))\<rparr>\<rparr>)"
| call_schedule: "runIDCounter (elRunner st) \<noteq> -1 \<Longrightarrow>
     ScheduleTest F L json d overrides allowDuplicate skipQueue (elRunner st) (elWorld st) = Some (r, c, w) \<Longrightarrow>
     loop_step F L json limit st (st\<lparr>elRunner := c, elWorld := w\<rparr>)"
| call_remove: "RemoveTestFromQueue runID (elRunner st) = (b, c) \<Longrightarrow>
     loop_step F L json limit st (st\<lparr>elRunner := c\<rparr>)"
| call_abort: "GetTestByRunID (elRunner st) runID = Some t \<Longrightarrow>
     loop_step F L json limit st (st\<lparr>elRunner := (elRunner st)\<lparr>testRunMap :=
       AList.update runID (AbortTest skipCleanup t) (testRunMap (elRunner st))\<rparr>\<rparr>)"
| off_queue: "offQueueNotification (elRunner st) = runID # q \<Longrightarrow>
     loop_step F L json limit st
       (st\<lparr>elOffRunning := runID # elOffRunning st, elRunner := (elRunner st)\<lparr>offQueueNotification := q\<rparr>\<rparr>)"
| off_done: "runID \<in> set (elOffRunning st) \<Longrightarrow> GetTestByRunID (elRunner st) runID = Some t \<Longrightarrow>
     runTest L aborted t (elWorld st) = Some (t', w') \<Longrightarrow>
     loop_step F L json limit st
       (st\<lparr>elOffRunning := remove1 runID (elOffRunning st), elWorld := w',
           elRunner := (elRunner st)\<lparr>testRunMap := AList.update runID t' (testRunMap (elRunner st))\<rparr>\<rparr>)"
| ctx_done: "loop_step F L json limit st (st\<lparr>elCtxDone := True\<rparr>)"

abbreviation loop_steps ::
    "flow_env \<Rightarrow> sched_libs \<Rightarrow> (u64 \<Rightarrow> string + string) \<Rightarrow> u64 \<Rightarrow> exec_loop \<Rightarrow> exec_loop \<Rightarrow> bool" where
  "loop_steps F L json limit \<equiv> (loop_step F L json limit)\<^sup>*\<^sup>*"

section \<open>The order of the queue\<close>

lemma RemoveTestFromQueue_parts:
  assumes "RemoveTestFromQueue runID c = (b, c')"
  shows "runIDCounter c' = runIDCounter c" and "queueNotification c' = queueNotification c"
    and "b \<Longrightarrow> testQueue c' = remove1 runID (testQueue c) \<and> testRunMap c' = AList.delete runID (testRunMap c)"
    and "\<not> b \<Longrightarrow> c' = c"
  using assms by (auto simp: RemoveTestFromQueue_def split: if_splits option.splits)

lemma createTestRun_parts:
  assumes "createTestRun F L json d overrides dup skip c w = Some (r, c', w')"
  shows "queueNotification c' = queueNotification c" and "offQueueNotification c' = offQueueNotification c"
    and "(case r of
            Inl e \<Rightarrow> testQueue c' = testQueue c \<and> testRunMap c' = testRunMap c \<and>
                     runIDCounter c' \<in> {runIDCounter c, runIDCounter c + 1}
          | Inr i \<Rightarrow> i = runIDCounter c + 1 \<and> runIDCounter c' = i \<and>
                     testQueue c' = testQueue c @ (if skip then [] else [i]) \<and>
                     (\<exists>t. testRunMap c' = AList.update i t (testRunMap c)) \<and>
                     (dup \<or> dID d \<notin> TestID ` set (GetTestQueue c)))"
  using assms by (auto simp: createTestRun_def Let_def split: if_splits sum.splits bind_splits prod.splits)

lemma ScheduleTest_parts:
  assumes "ScheduleTest F L json d overrides dup skip c w = Some (r, c', w')"
  obtains (refused) "testQueue c' = testQueue c" "testRunMap c' = testRunMap c"
      "queueNotification c' = queueNotification c" "runIDCounter c' \<in> {runIDCounter c, runIDCounter c + 1}"
  | (queued) t where "r = Inr (runIDCounter c + 1)" "runIDCounter c' = runIDCounter c + 1" "\<not> skip" "queueNotification c'"
      "testQueue c' = testQueue c @ [runIDCounter c + 1]"
      "testRunMap c' = AList.update (runIDCounter c + 1) t (testRunMap c)"
      "dup \<or> dID d \<notin> TestID ` set (GetTestQueue c)"
  | (offQueue) t where "r = Inr (runIDCounter c + 1)" "runIDCounter c' = runIDCounter c + 1" "skip"
      "testQueue c' = testQueue c" "testRunMap c' = AList.update (runIDCounter c + 1) t (testRunMap c)"
      "queueNotification c' = queueNotification c"
proof (cases "dErr d")
  case (Some e)
  then show thesis using assms refused by (simp add: ScheduleTest_def)
next
  case None
  then obtain r1 c1 w1 where c1: "createTestRun F L json d overrides dup skip c w = Some (r1, c1, w1)"
    using assms by (auto simp: ScheduleTest_def split: bind_splits)
  note parts = createTestRun_parts [OF c1]
  show thesis
  proof (cases r1)
    case (Inl e)
    then have "c' = c1" using assms None c1 by (simp add: ScheduleTest_def)
    then show thesis using parts Inl by (auto intro: refused)
  next
    case (Inr i)
    then show thesis using assms None c1 parts queued offQueue
      by (cases skip) (auto simp: ScheduleTest_def split: if_splits)
  qed
qed

fun pcRun :: "loop_pc \<Rightarrow> u64 list" where
  "pcRun (LoopAcquire runID) = [runID]"
| "pcRun _ = []"

definition runOrder :: "exec_loop \<Rightarrow> u64 list" where
  "runOrder st = elStarted st @ pcRun (elPc st) @ testQueue (elRunner st)"

text \<open>
  The ids of started runs, of the run that waits for a slot and of the queued runs are increasing
  and at most the counter; every queued run is registered; a sleeping loop with queued tests has
  a pending notification.
\<close>

definition loop_inv :: "u64 \<Rightarrow> u64 \<Rightarrow> exec_loop \<Rightarrow> bool" where
  "loop_inv n limit st \<longleftrightarrow>
     sorted_wrt (<) (runOrder st) \<and>
     (\<forall>i \<in> set (runOrder st). n < i \<and> i \<le> runIDCounter (elRunner st)) \<and>
     n \<le> runIDCounter (elRunner st) \<and>
     length (elRunning st) \<le> concurrencyLimit limit \<and> distinct (elRunning st) \<and>
     set (elRunning st) \<subseteq> set (elStarted st) \<and>
     set (testQueue (elRunner st)) \<subseteq> fst ` set (testRunMap (elRunner st)) \<and>
     (elPc st = LoopSleep \<and> testQueue (elRunner st) \<noteq> [] \<longrightarrow> queueNotification (elRunner st))"

lemma loop_inv_start: "loop_inv n limit (loopStart (NewTestRunner n) w)"
  by (simp add: loop_inv_def runOrder_def loopStart_def NewTestRunner_def)

lemma keys_AList_update: "fst ` set (AList.update k v al) = insert k (fst ` set al)"
  by (simp add: dom_update)

lemma keys_AList_delete: "fst ` set (AList.delete k al) = fst ` set al - {k}"
  by (force simp: AList.delete_eq)

lemma loop_inv_schedule:
  assumes inv: "loop_inv n limit st" and max: "runIDCounter (elRunner st) \<noteq> -1"
    and call: "ScheduleTest F L json d overrides dup skip (elRunner st) (elWorld st) = Some (r, c, w)"
  shows "loop_inv n limit (st\<lparr>elRunner := c, elWorld := w\<rparr>)"
proof -
  let ?i = "runIDCounter (elRunner st)"
  note lt = word_less_Suc [OF max]
  have below: "j \<le> k" if "j \<le> ?i" "k \<in> {?i, ?i + 1}" for j k
    using that lt by auto
  have fresh: "j < ?i + 1" if "j \<le> ?i" for j using that lt by auto
  from call show ?thesis
  proof (cases rule: ScheduleTest_parts)
    case refused
    then show ?thesis using inv below unfolding loop_inv_def runOrder_def by auto
  next
    case (queued t)
    then show ?thesis using inv below fresh unfolding loop_inv_def runOrder_def
      by (auto simp: sorted_wrt_append keys_AList_update)
  next
    case (offQueue t)
    then show ?thesis using inv below unfolding loop_inv_def runOrder_def
      by (auto simp: keys_AList_update)
  qed
qed

lemma in_remove1D: "a \<in> set (remove1 x xs) \<Longrightarrow> a \<in> set xs"
  by (meson notin_set_remove1)

lemma sorted_wrt_remove1: "sorted_wrt P xs \<Longrightarrow> sorted_wrt P (remove1 x xs)"
  by (induction xs) (auto dest: in_remove1D)

lemma loop_inv_remove:
  assumes inv: "loop_inv n limit st" and call: "RemoveTestFromQueue runID (elRunner st) = (b, c)"
  shows "loop_inv n limit (st\<lparr>elRunner := c\<rparr>)"
proof (cases b)
  case False
  then show ?thesis using RemoveTestFromQueue_parts(4) [OF call] inv by simp
next
  case True
  note parts = RemoveTestFromQueue_parts [OF call] True
  have sub: "set (remove1 runID (testQueue (elRunner st))) \<subseteq> set (testQueue (elRunner st))"
    by (rule set_remove1_subset)
  have "distinct (testQueue (elRunner st))" 
    using inv by (auto simp: loop_inv_def runOrder_def sorted_wrt_append strict_sorted_iff)
  then show ?thesis using inv parts sub unfolding loop_inv_def runOrder_def
    by (auto simp: sorted_wrt_append sorted_wrt_remove1 keys_AList_delete)
qed

lemma loop_inv_step:
  assumes "loop_step F L json limit st st'" and inv: "loop_inv n limit st"
  shows "loop_inv n limit st'"
  using assms
proof (cases rule: loop_step.cases)
  case (call_schedule d overrides dup skip r c w)
  then show ?thesis using loop_inv_schedule [OF inv] by blast
next
  case (call_remove runID b c)
  then show ?thesis using loop_inv_remove [OF inv] by blast
qed (use inv in \<open>auto simp: loop_inv_def runOrder_def sorted_wrt_append keys_AList_update
       length_remove1 dest: in_remove1D\<close>)

lemma loop_inv_reachable:
  "loop_steps F L json limit (loopStart (NewTestRunner n) w) st \<Longrightarrow> loop_inv n limit st"
  by (induction rule: rtranclp_induct) (auto intro: loop_inv_start loop_inv_step)

text \<open>C7. In every state the loop can reach from a new runner, however it is interleaved with tests and
  with callers: tests are started in the order of their run ids, each at most once and only with
  an id above the last stored one; the running tests are at most \<open>concurrencyLimit\<close> many and all
  started; every id that waits for a slot or in the queue is above all started ones and at most the
  counter; every queued run is registered; and a loop that sleeps while a test is queued has a
  notification pending, so no wake-up is lost.
\<close>

theorem test_queue_order:
  assumes "loop_steps F L json limit (loopStart (NewTestRunner lastRunID) w) st"
  shows "sorted_wrt (<) (elStarted st @ pcRun (elPc st) @ testQueue (elRunner st)) \<and>
    (\<forall>i \<in> set (elStarted st) \<union> set (testQueue (elRunner st)). lastRunID < i \<and> i \<le> runIDCounter (elRunner st)) \<and>
    length (elRunning st) \<le> concurrencyLimit limit \<and> distinct (elRunning st) \<and>
    set (elRunning st) \<subseteq> set (elStarted st) \<and>
    length (GetTestQueue (elRunner st)) = length (testQueue (elRunner st)) \<and>
    (elPc st = LoopSleep \<and> testQueue (elRunner st) \<noteq> [] \<longrightarrow> queueNotification (elRunner st))"
proof -
  note inv = loop_inv_reachable [OF assms]
  have "length (List.map_filter (GetTestByRunID c) q) = length q" if "set q \<subseteq> fst ` set (testRunMap c)" for c q
    using that by (induction q) (auto simp: List.map_filter_simps GetTestByRunID_def dest: weak_map_of_SomeI split: option.splits)
  then have "length (GetTestQueue (elRunner st)) = length (testQueue (elRunner st))"
    using inv by (simp add: loop_inv_def GetTestQueue_def)
  then show ?thesis using inv by (auto simp: loop_inv_def runOrder_def)
qed

theorem test_queue_order_witness:
  "\<exists>st. loop_steps test_env (quiet_libs (ExecReturned None)) (\<lambda>_. Inr ''1'') 0 (loopStart (NewTestRunner 6) test_world) st \<and>
     elStarted st = [7] \<and> elRunning st = [7] \<and> length (elRunning st) \<le> concurrencyLimit 0"
proof -
  let ?L = "quiet_libs (ExecReturned None)" and ?J = "\<lambda>_ :: u64. Inr ''1'' :: string + string"
  let ?S = "loop_step test_env ?L ?J 0" and ?s0 = "loopStart (NewTestRunner 6) test_world"
  have "map_option (\<lambda>(r, c, w). testQueue c)
    (ScheduleTest test_env ?L ?J test_descriptor [] False False (NewTestRunner 6) test_world) = Some [7]"
    by code_simp
  then obtain r c w where sched: "testQueue c = [7]"
    "ScheduleTest test_env ?L ?J test_descriptor [] False False (elRunner ?s0) (elWorld ?s0) = Some (r, c, w)"
    by (auto simp: loopStart_def)
  have s1: "?S ?s0 (?s0\<lparr>elRunner := c, elWorld := w\<rparr>)"
    by (rule call_schedule [OF _ sched(2)]) (simp add: loopStart_def NewTestRunner_def)
  let ?s2 = "?s0\<lparr>elRunner := c\<lparr>testQueue := []\<rparr>, elWorld := w, elPc := LoopAcquire 7\<rparr>"
  let ?s3 = "?s2\<lparr>elPc := LoopHead, elRunning := [7], elStarted := [7]\<rparr>"
  have s2: "?S (?s0\<lparr>elRunner := c, elWorld := w\<rparr>) ?s2"
    using loop_next [of "?s0\<lparr>elRunner := c, elWorld := w\<rparr>" 7 "[]" test_env ?L ?J 0] sched(1) by (simp add: loopStart_def)
  have s3: "?S ?s2 ?s3"
    using loop_start [of ?s2 7 0 test_env ?L ?J] by (simp add: loopStart_def concurrencyLimit_def)
  from s1 s2 s3 have "loop_steps test_env ?L ?J 0 ?s0 ?s3" by auto
  from this test_queue_order [OF this] show ?thesis by (intro exI [of _ ?s3]) simp
qed

section \<open>Consequences for the caller\<close>

text \<open>
  A run is forgotten only when it is removed from the queue: a finished run keeps its entry, so
  \<open>DeleteTestRun\<close> answers that it is running.
\<close>

lemma finished_run_not_deletable:
  assumes "GetTestByRunID c runID = Some t"
    and "tStatus t \<in> {TestStatusSuccess, TestStatusFailure, TestStatusAborted, TestStatusSkipped}"
  shows "DeleteRun drv runID c w = (Some ''cannot delete running test'', c, w)"
  using assms by (auto simp: DeleteRun_def)

text \<open>A pending run that is still queued is deleted, with its queue entry, registration and row.\<close>

lemma DeleteRun_queued:
  assumes "GetTestByRunID c runID = Some t" and "tStatus t = TestStatusPending" and "runID \<in> set (testQueue c)"
    and "RunTransaction drv (DeleteTestRun drv 0 runID) (wDb w) = (None, db)"
  shows "DeleteRun drv runID c w = (None, c\<lparr>testQueue := remove1 runID (testQueue c),
    testRunMap := AList.delete runID (testRunMap c)\<rparr>, w\<lparr>wDb := db\<rparr>)"
  using assms by (simp add: DeleteRun_def RemoveTestFromQueue_def)

text \<open>The expressions after an invalid one have no effect.\<close>

lemma cronTriggers_invalid:
  assumes "cronNext expr (cronTime - 1) = None"
  shows "cronTriggers cronNext cronTime (pre @ expr # exprs) = cronTriggers cronNext cronTime pre"
  using assms by (induction pre) (auto split: option.splits)

text \<open>With valid expressions, a test is due exactly when one of them matches the minute.\<close>

lemma cronTriggers_valid:
  assumes "\<forall>expr \<in> set exprs. cronNext expr (cronTime - 1) \<noteq> None"
  shows "cronTriggers cronNext cronTime exprs \<longleftrightarrow> (\<exists>expr \<in> set exprs. cronNext expr (cronTime - 1) = Some cronTime)"
  using assms by (induction exprs) auto

end
