(* ===== verification/BlockCache.thy ===== *)
theory BlockCache
  imports Prelude "HOL-Library.Multiset"
begin

text \<open>
  The block cache of a client pool. \<open>clients/consensus/blockcache.go\<close> and
  \<open>clients/execution/blockcache.go\<close> have the same code for storing, finding and dropping blocks and for
  the distance between two of them; it is modelled once, for any type of blocks. The theories
  \<open>ConsensusClients\<close> and \<open>ExecutionClients\<close> instantiate it.
\<close>

section \<open>The cache\<close>

text \<open>
  A block is an object at an address of \<open>blockStore\<close>; the two maps hold addresses. \<open>maxSlotIdx\<close> is an
  \<open>int64\<close>, compared with the signed order, and converted from and to slots bit by bit.
\<close>

type_synonym root = "256 word"

record 'b block_cache =
  followDistance :: "32 word"
  blockStore :: "'b list"
  blockSlotMap :: "(u64 \<times> nat list) list"
  blockRootMap :: "(root \<times> nat) list"
  maxSlotIdx :: u64

definition GetCachedBlockByRoot :: "('b, 'z) block_cache_scheme \<Rightarrow> root \<Rightarrow> nat option" where
  "GetCachedBlockByRoot c root = map_of (blockRootMap c) root"

definition blocksAt :: "('b, 'z) block_cache_scheme \<Rightarrow> u64 \<Rightarrow> nat list" where
  "blocksAt c slot = (case map_of (blockSlotMap c) slot of None \<Rightarrow> [] | Some bs \<Rightarrow> bs)"

definition cutOffSlot :: "('b, 'z) block_cache_scheme \<Rightarrow> u64" where
  "cutOffSlot c = maxSlotIdx c - ucast (followDistance c)"

definition AddBlock ::
    "(root \<Rightarrow> u64 \<Rightarrow> 'b) \<Rightarrow> root \<Rightarrow> u64 \<Rightarrow> ('b, 'z) block_cache_scheme \<Rightarrow>
     (nat option \<times> bool) \<times> ('b, 'z) block_cache_scheme" where
  "AddBlock newBlock root slot c =
     (case GetCachedBlockByRoot c root of
        Some a \<Rightarrow> ((Some a, False), c)
      | None \<Rightarrow>
          if 0 <s cutOffSlot c \<and> slot < cutOffSlot c then ((None, False), c)
          else
            let a = length (blockStore c)
            in ((Some a, True),
                c\<lparr>blockStore := blockStore c @ [newBlock root slot],
                  blockRootMap := AList.update root a (blockRootMap c),
                  blockSlotMap := AList.update slot (blocksAt c slot @ [a]) (blockSlotMap c),
                  maxSlotIdx := (if maxSlotIdx c <s 0 \<or> slot > maxSlotIdx c then slot else maxSlotIdx c)\<rparr>))"

definition GetCachedBlocksBySlot :: "('b, 'z) block_cache_scheme \<Rightarrow> u64 \<Rightarrow> nat list" where
  "GetCachedBlocksBySlot c slot = blocksAt c slot"

definition GetCachedBlocks :: "('b, 'z) block_cache_scheme \<Rightarrow> nat list" where
  "GetCachedBlocks c = concat (map (blocksAt c) (rev (sort (map fst (blockSlotMap c)))))"

definition cleanupBlockCache :: "('b \<Rightarrow> root) \<Rightarrow> ('b, 'z) block_cache_scheme \<Rightarrow> ('b, 'z) block_cache_scheme" where
  "cleanupBlockCache rootOf c =
     (let minSlot = cutOffSlot c
      in if minSlot \<le>s 0 then c
         else foldl (\<lambda>c' (slot, bs).
                if slot \<ge> minSlot then c'
                else c'\<lparr>blockRootMap := foldl (\<lambda>m a. AList.delete (rootOf (blockStore c ! a)) m) (blockRootMap c') bs,
                        blockSlotMap := AList.delete slot (blockSlotMap c')\<rparr>) c (blockSlotMap c))"

section \<open>Distance of blocks\<close>

text \<open>
  The walk from the head to its ancestors. Nothing in the cache rules out a cycle of parents, on
  which the loop would not end: None.
\<close>

partial_function (option) distanceLoop ::
    "('b, 'z) block_cache_scheme \<Rightarrow> ('b \<Rightarrow> u64) \<Rightarrow> ('b \<Rightarrow> root option) \<Rightarrow> root \<Rightarrow> u64 \<Rightarrow> nat option \<Rightarrow> u64 \<Rightarrow>
     (bool \<times> u64) option" where
  "distanceLoop c slotOf parentOf blockRoot blockSlot headBlock dist =
     (case headBlock of
        None \<Rightarrow> Some (False, 0)
      | Some h \<Rightarrow>
          if slotOf (blockStore c ! h) < blockSlot then Some (False, 0)
          else (case parentOf (blockStore c ! h) of
                  None \<Rightarrow> Some (False, 0)
                | Some parentRoot \<Rightarrow>
                    if parentRoot = blockRoot then Some (True, dist + 1)
                    else distanceLoop c slotOf parentOf blockRoot blockSlot (GetCachedBlockByRoot c parentRoot) (dist + 1)))"

declare distanceLoop.simps [code]

definition GetBlockDistance ::
    "('b \<Rightarrow> u64) \<Rightarrow> ('b \<Rightarrow> root option) \<Rightarrow> ('b, 'z) block_cache_scheme \<Rightarrow> root \<Rightarrow> root \<Rightarrow> (bool \<times> u64) option" where
  "GetBlockDistance slotOf parentOf c blockRoot headRoot =
     (if headRoot = blockRoot then Some (True, 0)
      else case GetCachedBlockByRoot c blockRoot of
             None \<Rightarrow> Some (False, 0)
           | Some b \<Rightarrow> distanceLoop c slotOf parentOf blockRoot (slotOf (blockStore c ! b)) (GetCachedBlockByRoot c headRoot) 0)"

definition IsCanonicalBlock ::
    "('b \<Rightarrow> u64) \<Rightarrow> ('b \<Rightarrow> root option) \<Rightarrow> ('b, 'z) block_cache_scheme \<Rightarrow> root \<Rightarrow> root \<Rightarrow> bool option" where
  "IsCanonicalBlock slotOf parentOf c blockRoot headRoot = map_option fst (GetBlockDistance slotOf parentOf c blockRoot headRoot)"

section \<open>Ancestors\<close>

text \<open>\<open>parentRootOf\<close> is the parent of a cached block; \<open>nthParent n\<close> follows it \<open>n\<close> times.\<close>

definition parentRootOf :: "('b \<Rightarrow> root option) \<Rightarrow> ('b, 'z) block_cache_scheme \<Rightarrow> root \<Rightarrow> root option" where
  "parentRootOf parentOf c r = Option.bind (GetCachedBlockByRoot c r) (\<lambda>a. parentOf (blockStore c ! a))"

fun nthParent :: "('b \<Rightarrow> root option) \<Rightarrow> ('b, 'z) block_cache_scheme \<Rightarrow> nat \<Rightarrow> root \<Rightarrow> root option" where
  "nthParent parentOf c 0 r = Some r"
| "nthParent parentOf c (Suc n) r = Option.bind (parentRootOf parentOf c r) (nthParent parentOf c n)"

lemma nthParent_add:
  "nthParent parentOf c (m + n) r = Option.bind (nthParent parentOf c m r) (nthParent parentOf c n)"
  by (induction m arbitrary: r) (auto split: bind_splits)

text \<open>The ancestor order of the cache: a block is on the chain of a head.\<close>

definition onChain :: "('b \<Rightarrow> root option) \<Rightarrow> ('b, 'z) block_cache_scheme \<Rightarrow> root \<Rightarrow> root \<Rightarrow> bool" where
  "onChain parentOf c r h \<longleftrightarrow>
     r = h \<or> GetCachedBlockByRoot c r \<noteq> None \<and> (\<exists>n. nthParent parentOf c n h = Some r)"

text \<open>
  What the choice of forks needs of the ancestor order: it is reflexive and transitive, and the
  ancestors of one head lie on one chain.
\<close>

locale chain_order =
  fixes linked :: "'r \<Rightarrow> 'r \<Rightarrow> bool"
  assumes linked_refl: "linked r r"
    and linked_trans: "linked a b \<Longrightarrow> linked b h \<Longrightarrow> linked a h"
    and linked_linear: "linked a h \<Longrightarrow> linked b h \<Longrightarrow> linked a b \<or> linked b a"

lemma onChain_trans:
  assumes "onChain parentOf c a b" and "onChain parentOf c b h"
  shows "onChain parentOf c a h"
proof (cases "a = b \<or> b = h")
  case False
  then obtain m n where "nthParent parentOf c m h = Some b" "nthParent parentOf c n b = Some a"
    "GetCachedBlockByRoot c a \<noteq> None" using assms by (auto simp: onChain_def)
  then have "nthParent parentOf c (m + n) h = Some a" by (simp add: nthParent_add)
  then show ?thesis using \<open>GetCachedBlockByRoot c a \<noteq> None\<close> by (auto simp: onChain_def)
qed (use assms in auto)

lemma onChain_linear:
  assumes "onChain parentOf c a h" and "onChain parentOf c b h"
  shows "onChain parentOf c a b \<or> onChain parentOf c b a"
proof (cases "a = h \<or> b = h")
  case False
  then obtain m n where a: "nthParent parentOf c m h = Some a" "GetCachedBlockByRoot c a \<noteq> None"
    and b: "nthParent parentOf c n h = Some b" "GetCachedBlockByRoot c b \<noteq> None"
    using assms by (auto simp: onChain_def)
  show ?thesis
  proof (cases "m \<le> n")
    case True
    then have "nthParent parentOf c (n - m) a = Some b"
      using nthParent_add [of parentOf c m "n - m" h] a b by simp
    then show ?thesis using b by (auto simp: onChain_def)
  next
    case False
    then have "nthParent parentOf c (m - n) b = Some a"
      using nthParent_add [of parentOf c n "m - n" h] a b by simp
    then show ?thesis using a by (auto simp: onChain_def)
  qed
qed (use assms in auto)

interpretation cache_chain: chain_order "onChain parentOf c" for parentOf c
  by unfold_locales (auto simp: onChain_def [of _ _ r r for r] intro: onChain_trans dest: onChain_linear)

section \<open>The distance is the number of parents between two blocks\<close>

text \<open>The law of both chains: a block is later than its parent. Cached blocks obey it if the nodes do.\<close>

definition slots_drop :: "('b \<Rightarrow> u64) \<Rightarrow> ('b \<Rightarrow> root option) \<Rightarrow> ('b, 'z) block_cache_scheme \<Rightarrow> bool" where
  "slots_drop slotOf parentOf c \<longleftrightarrow>
     (\<forall>(r, a) \<in> set (blockRootMap c).
        case Option.bind (parentOf (blockStore c ! a)) (GetCachedBlockByRoot c) of
          None \<Rightarrow> True
        | Some b \<Rightarrow> slotOf (blockStore c ! b) < slotOf (blockStore c ! a))"

lemma slots_dropD:
  assumes "slots_drop slotOf parentOf c" and "GetCachedBlockByRoot c r = Some a"
    and "parentOf (blockStore c ! a) = Some p" and "GetCachedBlockByRoot c p = Some b"
  shows "slotOf (blockStore c ! b) < slotOf (blockStore c ! a)"
  using assms unfolding slots_drop_def GetCachedBlockByRoot_def by (force dest: map_of_SomeD)

lemma nthParent_slot:
  assumes "slots_drop slotOf parentOf c" and "nthParent parentOf c n h = Some r"
    and "GetCachedBlockByRoot c h = Some a" and "GetCachedBlockByRoot c r = Some b"
  shows "unat (slotOf (blockStore c ! b)) + n \<le> unat (slotOf (blockStore c ! a))"
  using assms(2,3)
proof (induction n arbitrary: h a)
  case (Suc n)
  then obtain p where p: "parentOf (blockStore c ! a) = Some p" "nthParent parentOf c n p = Some r"
    by (auto simp: parentRootOf_def split: bind_splits)
  obtain a' where a': "GetCachedBlockByRoot c p = Some a'"
    using p(2) assms(4) by (cases n) (auto simp: parentRootOf_def split: bind_splits)
  then have "slotOf (blockStore c ! a') < slotOf (blockStore c ! a)"
    using slots_dropD [OF assms(1) Suc.prems(2) p(1)] by simp
  then show ?case using Suc.IH [OF p(2) a'] by (simp add: word_less_nat_alt)
qed (use assms(4) in simp)

lemma distanceLoop_linked:
  assumes law: "slots_drop slotOf parentOf c" and r: "GetCachedBlockByRoot c r = Some b"
    and "nthParent parentOf c n h = Some r" and "n > 0"
  shows "distanceLoop c slotOf parentOf r (slotOf (blockStore c ! b)) (GetCachedBlockByRoot c h) dist =
    Some (True, dist + of_nat n)"
  using assms(3,4)
proof (induction n arbitrary: h dist)
  case (Suc n)
  then obtain a p where a: "GetCachedBlockByRoot c h = Some a" "parentOf (blockStore c ! a) = Some p"
    "nthParent parentOf c n p = Some r"
    by (auto simp: parentRootOf_def split: bind_splits)
  have "\<not> slotOf (blockStore c ! a) < slotOf (blockStore c ! b)"
    using nthParent_slot [OF law Suc.prems(1) a(1) r] by (simp add: word_less_nat_alt)
  moreover have "n = 0" if "p = r" using that nthParent_slot [OF law a(3)] r by simp
  moreover have "n > 0" if "p \<noteq> r" using that a(3) by (cases n) auto
  ultimately show ?case using a Suc.IH [OF a(3), of "dist + 1"]
    by (subst distanceLoop.simps) (auto simp: algebra_simps)
qed simp

lemma distanceLoop_unlinked:
  assumes law: "slots_drop slotOf parentOf c" and "\<forall>n>0. nthParent parentOf c n h \<noteq> Some r"
  shows "distanceLoop c slotOf parentOf r s (GetCachedBlockByRoot c h) dist = Some (False, 0)"
proof -
  define k where "k = (case GetCachedBlockByRoot c h of None \<Rightarrow> 0 | Some a \<Rightarrow> Suc (unat (slotOf (blockStore c ! a))))"
  show ?thesis using assms(2) k_def
  proof (induction k arbitrary: h dist rule: less_induct)
    case (less k)
    show ?case
    proof (cases "GetCachedBlockByRoot c h")
      case None
      then show ?thesis by (simp add: distanceLoop.simps)
    next
      case (Some a)
      show ?thesis
      proof (cases "parentOf (blockStore c ! a)")
        case None
        then show ?thesis using Some by (simp add: distanceLoop.simps)
      next
        case (Some p)
        note step = \<open>GetCachedBlockByRoot c h = Some a\<close> Some
        have walk: "nthParent parentOf c (Suc n) h = nthParent parentOf c n p" for n
          using step by (simp add: parentRootOf_def)
        then have "p \<noteq> r" "\<forall>n>0. nthParent parentOf c n p \<noteq> Some r"
          using less.prems(1) nthParent.simps(1) [of parentOf c p] by (metis zero_less_Suc, metis zero_less_Suc)
        moreover have "(case GetCachedBlockByRoot c p of None \<Rightarrow> 0 | Some b \<Rightarrow> Suc (unat (slotOf (blockStore c ! b)))) < k"
          using slots_dropD [OF law step] less.prems(2) step(1) by (auto simp: word_less_nat_alt split: option.splits)
        ultimately show ?thesis using less.IH [of _ p "dist + 1"] step
          by (subst distanceLoop.simps) simp
      qed
    qed
  qed
qed

lemma distance_linked:
  assumes law: "slots_drop slotOf parentOf c" and "nthParent parentOf c n h = Some r"
    and "n = 0 \<or> GetCachedBlockByRoot c r \<noteq> None"
  shows "GetBlockDistance slotOf parentOf c r h = Some (True, of_nat n) \<and> unat (of_nat n :: u64) = n"
proof (cases "n = 0")
  case False
  then obtain b where b: "GetCachedBlockByRoot c r = Some b" using assms(3) by auto
  obtain a where a: "GetCachedBlockByRoot c h = Some a"
    using assms(2) False by (cases n) (auto simp: parentRootOf_def split: bind_splits)
  have le: "unat (slotOf (blockStore c ! b)) + n \<le> unat (slotOf (blockStore c ! a))"
    by (rule nthParent_slot [OF law assms(2) a b])
  then have "h \<noteq> r" using a b False by auto
  moreover have "unat (slotOf (blockStore c ! a)) < 2 ^ LENGTH(64)" by (rule unsigned_less)
  then have "n < 2 ^ 64" using le by simp
  ultimately show ?thesis
    using distanceLoop_linked [OF law b assms(2)] False b by (simp add: GetBlockDistance_def unat_of_nat take_bit_nat_eq_self)
qed (use assms in \<open>simp add: GetBlockDistance_def\<close>)

lemma distance_unlinked:
  assumes "slots_drop slotOf parentOf c" and "\<not> onChain parentOf c r h"
  shows "GetBlockDistance slotOf parentOf c r h = Some (False, 0)"
proof (cases "GetCachedBlockByRoot c r")
  case (Some b)
  then have "\<forall>n>0. nthParent parentOf c n h \<noteq> Some r" using assms(2) by (auto simp: onChain_def)
  then show ?thesis using distanceLoop_unlinked [OF assms(1)] Some assms(2)
    by (auto simp: GetBlockDistance_def onChain_def)
qed (use assms(2) in \<open>auto simp: GetBlockDistance_def onChain_def\<close>)

lemma IsCanonicalBlock_onChain:
  assumes "slots_drop slotOf parentOf c"
  shows "IsCanonicalBlock slotOf parentOf c r h = Some (onChain parentOf c r h)"
proof (cases "onChain parentOf c r h")
  case True
  then obtain n where "nthParent parentOf c n h = Some r" "n = 0 \<or> GetCachedBlockByRoot c r \<noteq> None"
    unfolding onChain_def using nthParent.simps(1) by metis
  then show ?thesis using distance_linked [OF assms] True by (simp add: IsCanonicalBlock_def)
qed (use distance_unlinked [OF assms] in \<open>simp add: IsCanonicalBlock_def\<close>)

section \<open>The invariant of the cache\<close>

lemma sint_u64: "sint (x :: u64) = (if uint x < 2 ^ 63 then uint x else uint x - 2 ^ 64)"
proof (cases "uint x < 2 ^ 63")
  case False
  have "uint x < 2 ^ LENGTH(64)" by (rule unsigned_less)
  then have "(uint x + 2 ^ 63 - 2 ^ 64) mod 2 ^ 64 = uint x + 2 ^ 63 - 2 ^ 64"
    using False by (intro mod_pos_pos_trivial) simp_all
  then have "(uint x + 2 ^ 63) mod 2 ^ 64 = uint x + 2 ^ 63 - 2 ^ 64" by (simp only: minus_mod_self2)
  then show ?thesis using False
    by (simp add: sint_uint signed_take_bit_eq_take_bit_shift take_bit_eq_mod)
qed (simp add: sint_uint signed_take_bit_eq_take_bit_shift take_bit_eq_mod)

text \<open>Below \<open>2\<^sup>6\<^sup>3\<close> the subtraction does not wrap: the cut-off is the difference if that is positive.\<close>

lemma cutOffSlot_cases:
  assumes "maxSlotIdx c < 2 ^ 63"
  shows "0 <s cutOffSlot c \<longleftrightarrow> unat (followDistance c) < unat (maxSlotIdx c)"
    and "cutOffSlot c \<le>s 0 \<longleftrightarrow> \<not> 0 <s cutOffSlot c"
    and "0 <s cutOffSlot c \<Longrightarrow> unat (cutOffSlot c) = unat (maxSlotIdx c) - unat (followDistance c)"
proof -
  let ?m = "uint (maxSlotIdx c)" and ?f = "uint (followDistance c)"
  have m: "?m < 2 ^ 63" using assms by (simp add: word_less_def)
  have f1: "?f < 2 ^ LENGTH(32)" by (rule unsigned_less)
  then have "uint (ucast (followDistance c) :: u64) = ?f"
    by (simp add: unsigned_ucast_eq take_bit_int_eq_self)
  note f = f1 this
  have cut: "uint (cutOffSlot c) = (if ?f \<le> ?m then ?m - ?f else ?m - ?f + 2 ^ 64)"
    using f(2) by (simp add: cutOffSlot_def uint_sub_if')
  have bounds: "0 \<le> ?m" "0 \<le> ?f" "?f < 4294967296" "?m < 9223372036854775808" using m f(1) by simp_all
  have s: "sint (cutOffSlot c) = ?m - ?f"
  proof (cases "?f \<le> ?m")
    case True
    then have "uint (cutOffSlot c) = ?m - ?f" using cut by simp
    moreover have "?m - ?f < 9223372036854775808" using bounds by linarith
    then have "?m - ?f < 2 ^ 63" by simp
    ultimately show ?thesis by (simp only: sint_u64 if_True)
  next
    case False
    then have "uint (cutOffSlot c) = ?m - ?f + 2 ^ 64" using cut by simp
    moreover have "\<not> ?m - ?f + 18446744073709551616 < 9223372036854775808" using bounds by linarith
    then have "\<not> ?m - ?f + 2 ^ 64 < 2 ^ 63" by simp
    ultimately show ?thesis by (simp add: sint_u64)
  qed
  show pos: "0 <s cutOffSlot c \<longleftrightarrow> unat (followDistance c) < unat (maxSlotIdx c)"
  proof -
    have "sint (0 :: u64) = 0" by simp
    then show ?thesis using s unfolding word_sless_alt uint_nat by linarith
  qed
  show "cutOffSlot c \<le>s 0 \<longleftrightarrow> \<not> 0 <s cutOffSlot c"
    by (simp add: word_sle_eq word_sless_alt not_less)
  show "unat (cutOffSlot c) = unat (maxSlotIdx c) - unat (followDistance c)" if "0 <s cutOffSlot c"
  proof -
    have "?f < ?m" using that s by (simp add: word_sless_alt)
    then have "uint (cutOffSlot c) = ?m - ?f" using cut by simp
    then have "int (unat (cutOffSlot c)) = int (unat (maxSlotIdx c)) - int (unat (followDistance c))"
      by (simp only: uint_nat)
    then show ?thesis by linarith
  qed
qed

text \<open>
  The two maps agree: each cached root leads to one block, which is listed under its slot, and each
  listed block is found by its root. \<open>maxSlotIdx\<close> is the latest slot, as long as slots fit an \<open>int64\<close>.
\<close>

definition cache_inv :: "('b \<Rightarrow> root) \<Rightarrow> ('b \<Rightarrow> u64) \<Rightarrow> ('b, 'z) block_cache_scheme \<Rightarrow> bool" where
  "cache_inv rootOf slotOf c \<longleftrightarrow>
     distinct (map fst (blockRootMap c)) \<and> distinct (map fst (blockSlotMap c)) \<and>
     (\<forall>(r, a) \<in> set (blockRootMap c). a < length (blockStore c) \<and> rootOf (blockStore c ! a) = r \<and>
        a \<in> set (blocksAt c (slotOf (blockStore c ! a))) \<and> slotOf (blockStore c ! a) \<le> maxSlotIdx c) \<and>
     (\<forall>(s, bs) \<in> set (blockSlotMap c). bs \<noteq> [] \<and> distinct bs \<and>
        (\<forall>a \<in> set bs. a < length (blockStore c) \<and> slotOf (blockStore c ! a) = s \<and>
           GetCachedBlockByRoot c (rootOf (blockStore c ! a)) = Some a)) \<and>
     maxSlotIdx c < 2 ^ 63"

lemma cache_invD:
  assumes "cache_inv rootOf slotOf c"
  shows "distinct (map fst (blockRootMap c))" and "distinct (map fst (blockSlotMap c))"
    and "GetCachedBlockByRoot c r = Some a \<Longrightarrow> a < length (blockStore c) \<and> rootOf (blockStore c ! a) = r \<and>
        a \<in> set (blocksAt c (slotOf (blockStore c ! a))) \<and> slotOf (blockStore c ! a) \<le> maxSlotIdx c"
    and "(s, bs) \<in> set (blockSlotMap c) \<Longrightarrow> bs \<noteq> [] \<and> distinct bs"
    and "a \<in> set (blocksAt c s) \<Longrightarrow> a < length (blockStore c) \<and> slotOf (blockStore c ! a) = s \<and>
           GetCachedBlockByRoot c (rootOf (blockStore c ! a)) = Some a"
    and "maxSlotIdx c < 2 ^ 63"
proof -
  show "a \<in> set (blocksAt c s) \<Longrightarrow> a < length (blockStore c) \<and> slotOf (blockStore c ! a) = s \<and>
           GetCachedBlockByRoot c (rootOf (blockStore c ! a)) = Some a"
    using assms unfolding cache_inv_def blocksAt_def by (fastforce dest: map_of_SomeD split: option.splits)
qed (use assms in \<open>auto simp: cache_inv_def GetCachedBlockByRoot_def dest: map_of_SomeD\<close>)

lemma cache_invI:
  assumes "distinct (map fst (blockRootMap c))" and "distinct (map fst (blockSlotMap c))"
    and "\<And>r a. GetCachedBlockByRoot c r = Some a \<Longrightarrow> a < length (blockStore c) \<and> rootOf (blockStore c ! a) = r \<and>
        a \<in> set (blocksAt c (slotOf (blockStore c ! a))) \<and> slotOf (blockStore c ! a) \<le> maxSlotIdx c"
    and "\<And>s bs. map_of (blockSlotMap c) s = Some bs \<Longrightarrow> bs \<noteq> [] \<and> distinct bs"
    and "\<And>s a. a \<in> set (blocksAt c s) \<Longrightarrow> a < length (blockStore c) \<and> slotOf (blockStore c ! a) = s \<and>
           GetCachedBlockByRoot c (rootOf (blockStore c ! a)) = Some a"
    and "maxSlotIdx c < 2 ^ 63"
  shows "cache_inv rootOf slotOf c"
proof -
  have slots: "map_of (blockSlotMap c) s = Some bs" "blocksAt c s = bs" if "(s, bs) \<in> set (blockSlotMap c)" for s bs
    using that assms(2) by (simp_all add: blocksAt_def)
  have roots: "GetCachedBlockByRoot c r = Some a" if "(r, a) \<in> set (blockRootMap c)" for r a
    using that assms(1) by (simp add: GetCachedBlockByRoot_def)
  show ?thesis unfolding cache_inv_def
    using assms(1,2,6) assms(3) [OF roots] assms(4) [OF slots(1)] assms(5) slots(2) by blast
qed

lemma foldl_delete: "foldl (\<lambda>m a. AList.delete (f a) m) m as = filter (\<lambda>(k, v). k \<notin> f ` set as) m"
proof (induction as arbitrary: m)
  case (Cons a as)
  have "filter (\<lambda>(k, v). k \<notin> f ` set as) (AList.delete (f a) m) = filter (\<lambda>(k, v). k \<notin> f ` set (a # as)) m"
    by (auto simp: AList.delete_eq intro!: filter_cong)
  then show ?case using Cons.IH by simp
qed simp

lemma cleanup_fold:
  assumes "foldl (\<lambda>c' (slot, bs).
      if slot \<ge> minSlot then c'
      else c'\<lparr>blockRootMap := foldl (\<lambda>m a. AList.delete (f a) m) (blockRootMap c') bs,
              blockSlotMap := AList.delete slot (blockSlotMap c')\<rparr>) c es = c2"
  shows "c2 = c\<lparr>blockRootMap := filter (\<lambda>(r, a). \<not> (\<exists>(s, bs) \<in> set es. s < minSlot \<and> r \<in> f ` set bs)) (blockRootMap c),
                blockSlotMap := filter (\<lambda>(s, bs). \<not> (s < minSlot \<and> s \<in> fst ` set es)) (blockSlotMap c)\<rparr>"
  using assms
proof (induction es arbitrary: c)
  case (Cons e es)
  obtain s bs where e: "e = (s, bs)" by (cases e)
  show ?case
  proof (cases "s \<ge> minSlot")
    case True
    then show ?thesis using Cons.IH [of c] Cons.prems e
      by (auto intro!: arg_cong2 [where f = "\<lambda>x y. c\<lparr>blockRootMap := x, blockSlotMap := y\<rparr>"] filter_cong)
  next
    case False
    let ?c1 = "c\<lparr>blockRootMap := filter (\<lambda>(k, v). k \<notin> f ` set bs) (blockRootMap c),
                blockSlotMap := AList.delete s (blockSlotMap c)\<rparr>"
    have "c2 = ?c1\<lparr>blockRootMap := filter (\<lambda>(r, a). \<not> (\<exists>(s, bs) \<in> set es. s < minSlot \<and> r \<in> f ` set bs)) (blockRootMap ?c1),
                blockSlotMap := filter (\<lambda>(s, bs). \<not> (s < minSlot \<and> s \<in> fst ` set es)) (blockSlotMap ?c1)\<rparr>"
      using Cons.IH [of ?c1] Cons.prems e False by (simp add: foldl_delete)
    then show ?thesis using e False
      by (auto simp: AList.delete_eq not_le intro!: arg_cong2 [where f = "\<lambda>x y. c\<lparr>blockRootMap := x, blockSlotMap := y\<rparr>"] filter_cong)
  qed
qed simp

lemma map_of_filter_key:
  assumes "distinct (map fst m)"
  shows "map_of (filter (\<lambda>(k, v). P k v) m) k = (case map_of m k of None \<Rightarrow> None | Some v \<Rightarrow> if P k v then Some v else None)"
  using assms by (induction m) (auto split: option.splits dest: map_of_SomeD simp: map_of_eq_None_iff image_iff)

lemma cleanup_effect:
  assumes inv: "cache_inv rootOf slotOf c"
  shows "GetCachedBlockByRoot (cleanupBlockCache rootOf c) r =
      (case GetCachedBlockByRoot c r of
         None \<Rightarrow> None
       | Some a \<Rightarrow> if 0 <s cutOffSlot c \<and> slotOf (blockStore c ! a) < cutOffSlot c then None else Some a)"
    and "blocksAt (cleanupBlockCache rootOf c) s = (if 0 <s cutOffSlot c \<and> s < cutOffSlot c then [] else blocksAt c s)"
    and "\<exists>rm sm. cleanupBlockCache rootOf c = c\<lparr>blockRootMap := rm, blockSlotMap := sm\<rparr> \<and>
      distinct (map fst rm) \<and> distinct (map fst sm) \<and> set sm \<subseteq> set (blockSlotMap c)"
proof -
  let ?f = "\<lambda>a. rootOf (blockStore c ! a)" and ?m = "cutOffSlot c"
  let ?P = "\<lambda>r a. \<not> (\<exists>(s, bs) \<in> set (blockSlotMap c). s < ?m \<and> r \<in> ?f ` set bs)"
  let ?Q = "\<lambda>s bs. \<not> (s < ?m \<and> s \<in> fst ` set (blockSlotMap c))"
  define c2 where "c2 = cleanupBlockCache rootOf c"
  have c2: "c2 = (if 0 <s ?m then c\<lparr>blockRootMap := filter (\<lambda>(r, a). ?P r a) (blockRootMap c),
      blockSlotMap := filter (\<lambda>(s, bs). ?Q s bs) (blockSlotMap c)\<rparr> else c)"
    using cleanup_fold [OF refl, of ?m ?f c "blockSlotMap c"] cutOffSlot_cases(2) [OF cache_invD(6) [OF inv]]
    by (simp add: c2_def cleanupBlockCache_def Let_def)
  have "?P r a \<longleftrightarrow> \<not> slotOf (blockStore c ! a) < ?m" if "GetCachedBlockByRoot c r = Some a" for a
  proof -
    note a = cache_invD(3) [OF inv that]
    have "(slotOf (blockStore c ! a), blocksAt c (slotOf (blockStore c ! a))) \<in> set (blockSlotMap c)"
      using a by (auto simp: blocksAt_def dest: map_of_SomeD split: option.splits)
    moreover have "slotOf (blockStore c ! a) = s" if "(s, bs) \<in> set (blockSlotMap c)" "r \<in> ?f ` set bs" for s bs
    proof -
      note listed = that
      have "blocksAt c s = bs" using listed(1) cache_invD(2) [OF inv] by (simp add: blocksAt_def)
      then obtain b where "b \<in> set (blocksAt c s)" "r = ?f b" using listed(2) by auto
      then show ?thesis using cache_invD(5) [OF inv, of b s] \<open>GetCachedBlockByRoot c r = Some a\<close> by simp
    qed
    ultimately show ?thesis using a by blast
  qed
  then show "GetCachedBlockByRoot (cleanupBlockCache rootOf c) r =
      (case GetCachedBlockByRoot c r of
         None \<Rightarrow> None
       | Some a \<Rightarrow> if 0 <s cutOffSlot c \<and> slotOf (blockStore c ! a) < cutOffSlot c then None else Some a)"
    unfolding c2_def [symmetric] c2 GetCachedBlockByRoot_def
    by (simp add: map_of_filter_key [OF cache_invD(1) [OF inv]] split: option.splits)
  show "blocksAt (cleanupBlockCache rootOf c) s = (if 0 <s cutOffSlot c \<and> s < cutOffSlot c then [] else blocksAt c s)"
    unfolding c2_def [symmetric] c2 blocksAt_def
    by (auto simp: map_of_filter_key [OF cache_invD(2) [OF inv]] split: option.splits dest: map_of_SomeD)
       (metis fst_conv image_eqI map_of_SomeD)
  show "\<exists>rm sm. cleanupBlockCache rootOf c = c\<lparr>blockRootMap := rm, blockSlotMap := sm\<rparr> \<and>
      distinct (map fst rm) \<and> distinct (map fst sm) \<and> set sm \<subseteq> set (blockSlotMap c)"
    unfolding c2_def [symmetric] c2 using cache_invD(1,2) [OF inv]
    by (cases "0 <s ?m") (force simp: distinct_map_filter, force)
qed

lemma cache_inv_cleanup:
  assumes inv: "cache_inv rootOf slotOf c"
  shows "cache_inv rootOf slotOf (cleanupBlockCache rootOf c)"
proof -
  let ?c = "cleanupBlockCache rootOf c"
  obtain rm sm where c: "?c = c\<lparr>blockRootMap := rm, blockSlotMap := sm\<rparr>" "distinct (map fst rm)" "distinct (map fst sm)"
    "set sm \<subseteq> set (blockSlotMap c)" using cleanup_effect(3) [OF inv] by blast
  then have same: "blockStore ?c = blockStore c" "maxSlotIdx ?c = maxSlotIdx c" "blockRootMap ?c = rm" "blockSlotMap ?c = sm"
    by simp_all
  show ?thesis
  proof (rule cache_invI, goal_cases)
    case (3 r a)
    then have "GetCachedBlockByRoot c r = Some a" "\<not> (0 <s cutOffSlot c \<and> slotOf (blockStore c ! a) < cutOffSlot c)"
      using cleanup_effect(1) [OF inv] by (auto split: option.splits if_splits)
    then show ?case using cache_invD(3) [OF inv] cleanup_effect(2) [OF inv] same by auto
  next
    case (4 s bs)
    then have "(s, bs) \<in> set (blockSlotMap c)" using c(4) same(4) map_of_SomeD by fastforce
    then show ?case by (rule cache_invD(4) [OF inv])
  next
    case (5 s a)
    then have "a \<in> set (blocksAt c s)" "\<not> (0 <s cutOffSlot c \<and> s < cutOffSlot c)"
      using cleanup_effect(2) [OF inv, of s] by (auto split: if_splits)
    then show ?case using cache_invD(5) [OF inv, of a s] cleanup_effect(1) [OF inv] same by auto
  qed (use c(2,3) same cache_invD(6) [OF inv] in simp_all)
qed

text \<open>The invariant reads the maps, the blocks and the latest slot only.\<close>

lemma cache_inv_frame:
  assumes "blockStore c' = blockStore c" and "blockRootMap c' = blockRootMap c" and "blockSlotMap c' = blockSlotMap c"
    and "maxSlotIdx c' = maxSlotIdx c"
  shows "cache_inv rootOf slotOf c' = cache_inv rootOf slotOf c"
proof -
  have "blocksAt c' = blocksAt c" "GetCachedBlockByRoot c' = GetCachedBlockByRoot c"
    using assms by (simp_all add: fun_eq_iff blocksAt_def GetCachedBlockByRoot_def)
  then show ?thesis using assms by (simp add: cache_inv_def)
qed

text \<open>Writing to a block leaves its root and slot alone.\<close>

lemma nth_update_same: "f b = f (xs ! a) \<Longrightarrow> f (xs[a := b] ! i) = f (xs ! i)"
  by (metis list_update_beyond not_le nth_list_update_eq nth_list_update_neq)

lemma cache_inv_write:
  assumes inv: "cache_inv rootOf slotOf c" and "rootOf b = rootOf (blockStore c ! a)" and "slotOf b = slotOf (blockStore c ! a)"
  shows "cache_inv rootOf slotOf (c\<lparr>blockStore := (blockStore c)[a := b]\<rparr>)"
proof -
  note same = nth_update_same [of rootOf b "blockStore c" a, OF assms(2)] nth_update_same [of slotOf b "blockStore c" a, OF assms(3)]
  have "blocksAt (c\<lparr>blockStore := st\<rparr>) = blocksAt c" "GetCachedBlockByRoot (c\<lparr>blockStore := st\<rparr>) = GetCachedBlockByRoot c" for st
    by (simp_all add: fun_eq_iff blocksAt_def GetCachedBlockByRoot_def)
  then show ?thesis using inv by (simp add: cache_inv_def same)
qed

text \<open>What the two kinds of blocks have in common: a new block has the root and slot it was made for.\<close>

locale block_kind =
  fixes newBlock :: "root \<Rightarrow> u64 \<Rightarrow> 'b" and rootOf :: "'b \<Rightarrow> root" and slotOf :: "'b \<Rightarrow> u64"
  assumes new_root: "rootOf (newBlock r s) = r" and new_slot: "slotOf (newBlock r s) = s"
begin

lemma AddBlock_new:
  assumes inv: "cache_inv rootOf slotOf c" and "AddBlock newBlock root slot c = ((Some a, True), c')"
  shows "GetCachedBlockByRoot c root = None" and "a = length (blockStore c)"
    and "blockStore c' = blockStore c @ [newBlock root slot]"
    and "GetCachedBlockByRoot c' r = (if r = root then Some a else GetCachedBlockByRoot c r)"
    and "blocksAt c' s = (if s = slot then blocksAt c s @ [a] else blocksAt c s)"
    and "maxSlotIdx c' = max slot (maxSlotIdx c)" and "followDistance c' = followDistance c"
    and "distinct (map fst (blockRootMap c'))" and "distinct (map fst (blockSlotMap c'))"
    and "map_of (blockSlotMap c') s = (if s = slot then Some (blocksAt c s @ [a]) else map_of (blockSlotMap c) s)"
proof -
  have "\<not> maxSlotIdx c <s 0"
    using cache_invD(6) [OF inv] by (simp add: word_sless_alt sint_u64 word_less_def)
  then have new: "GetCachedBlockByRoot c root = None" "a = length (blockStore c)"
    "c' = c\<lparr>blockStore := blockStore c @ [newBlock root slot],
            blockRootMap := AList.update root a (blockRootMap c),
            blockSlotMap := AList.update slot (blocksAt c slot @ [a]) (blockSlotMap c),
            maxSlotIdx := max slot (maxSlotIdx c)\<rparr>"
    using assms(2) by (auto simp: AddBlock_def Let_def max_def split: option.splits if_splits)
  then show "GetCachedBlockByRoot c root = None" "a = length (blockStore c)"
    "blockStore c' = blockStore c @ [newBlock root slot]"
    "GetCachedBlockByRoot c' r = (if r = root then Some a else GetCachedBlockByRoot c r)"
    "blocksAt c' s = (if s = slot then blocksAt c s @ [a] else blocksAt c s)"
    "maxSlotIdx c' = max slot (maxSlotIdx c)" "followDistance c' = followDistance c"
    "map_of (blockSlotMap c') s = (if s = slot then Some (blocksAt c s @ [a]) else map_of (blockSlotMap c) s)"
    by (simp_all add: GetCachedBlockByRoot_def blocksAt_def update_conv)
  show "distinct (map fst (blockRootMap c'))" "distinct (map fst (blockSlotMap c'))"
    using new(3) cache_invD(1,2) [OF inv] by (simp_all add: distinct_update)
qed

lemma cache_inv_AddBlock:
  assumes inv: "cache_inv rootOf slotOf c" and "slot < 2 ^ 63" and add: "AddBlock newBlock root slot c = (res, c')"
  shows "cache_inv rootOf slotOf c'"
proof (cases "c' = c")
  case False
  then obtain a where res: "res = (Some a, True)"
    using add by (auto simp: AddBlock_def Let_def split: option.splits if_splits)
  note new = AddBlock_new [OF inv add [unfolded res]]
  have old: "i < length (blockStore c) \<Longrightarrow> blockStore c' ! i = blockStore c ! i" for i
    by (simp add: new(3) nth_append)
  have at: "blockStore c' ! a = newBlock root slot" by (simp add: new(2,3))
  show ?thesis
  proof (rule cache_invI, goal_cases)
    case (3 r i)
    show ?case
    proof (cases "r = root")
      case True
      then show ?thesis using 3 at by (simp add: new new_root new_slot)
    next
      case False
      then have "GetCachedBlockByRoot c r = Some i" using 3 new(4) by simp
      from cache_invD(3) [OF inv this] show ?thesis using old [of i] by (auto simp: new max_def)
    qed
  next
    case (4 s bs)
    have "distinct (blocksAt c s)" using cache_invD(4) [OF inv] by (auto simp: blocksAt_def dest: map_of_SomeD split: option.splits)
    moreover have "a \<notin> set (blocksAt c s)" using cache_invD(5) [OF inv, of a s] new(2) by auto
    ultimately show ?case using 4 new(10) [of s] cache_invD(4) [OF inv] by (auto dest: map_of_SomeD split: if_splits)
  next
    case (5 s i)
    show ?case
    proof (cases "i = a")
      case True
      then have "s = slot" using 5 new(2,5) cache_invD(5) [OF inv, of i s] by (auto split: if_splits)
      then show ?thesis using True at new by (simp add: new_root new_slot)
    next
      case False
      then have i: "i \<in> set (blocksAt c s)" using 5 new(5) by (auto split: if_splits)
      from cache_invD(5) [OF inv this] new(1) show ?thesis using old [of i] by (auto simp: new(3,4))
    qed
  qed (use new assms(2) cache_invD(6) [OF inv] in \<open>auto simp: max_def\<close>)
qed (use inv in simp)

end

end
