(* ===== verification/HeadForks.thy ===== *)
theory HeadForks
  imports BlockCache "HOL-Library.Monad_Syntax"
begin

text \<open>
  The choice of a client of a pool: the clients grouped into forks by their heads, the clients of a
  fork that are ready, and the round robin over the ready ones. \<open>forks.go\<close> and \<open>runClientScheduler\<close>
  of \<open>pool.go\<close> are the same in \<open>clients/consensus\<close> and \<open>clients/execution\<close>; clients are positions in the
  list of the pool, and what the code reads of them is an argument.
\<close>

section \<open>Forks\<close>

lemma in_AList_update: "(k, v) \<in> set (AList.update k0 v0 al) \<Longrightarrow> (k, v) = (k0, v0) \<or> (k, v) \<in> set al"
  by (induction al) (auto split: if_splits)

record HeadFork =
  forkSlot :: u64
  forkRoot :: root
  ReadyClients :: "nat list"
  AllClients :: "nat list"

text \<open>
  The inner loop: the first fork that has the head on its chain takes the client; so does the first
  that the head extends, which moves to that head; a client that fits no fork starts one.
\<close>

fun assignClient :: "(root \<Rightarrow> root \<Rightarrow> bool option) \<Rightarrow> nat \<Rightarrow> u64 \<Rightarrow> root \<Rightarrow> HeadFork list \<Rightarrow> HeadFork list option" where
  "assignClient canonical client cHeadSlot cHeadRoot [] =
     Some [\<lparr>forkSlot = cHeadSlot, forkRoot = cHeadRoot, ReadyClients = [], AllClients = [client]\<rparr>]"
| "assignClient canonical client cHeadSlot cHeadRoot (fork # forks) =
     do {
       onFork \<leftarrow> (if forkRoot fork = cHeadRoot then Some True else canonical cHeadRoot (forkRoot fork));
       if onFork then Some (fork\<lparr>AllClients := AllClients fork @ [client]\<rparr> # forks)
       else do {
         extends \<leftarrow> canonical (forkRoot fork) cHeadRoot;
         if extends
         then Some (fork\<lparr>forkRoot := cHeadRoot, forkSlot := cHeadSlot, AllClients := AllClients fork @ [client]\<rparr> # forks)
         else map_option ((#) fork) (assignClient canonical client cHeadSlot cHeadRoot forks)
       }
     }"

fun groupClients :: "(root \<Rightarrow> root \<Rightarrow> bool option) \<Rightarrow> (nat \<Rightarrow> u64 \<times> root) \<Rightarrow> nat list \<Rightarrow> HeadFork list \<Rightarrow> HeadFork list option" where
  "groupClients canonical lastHead [] forks = Some forks"
| "groupClients canonical lastHead (client # clients) forks =
     do {
       forks1 \<leftarrow> assignClient canonical client (fst (lastHead client)) (snd (lastHead client)) forks;
       groupClients canonical lastHead clients forks1
     }"

fun readyClients ::
    "(root \<Rightarrow> root \<Rightarrow> (bool \<times> u64) option) \<Rightarrow> (nat \<Rightarrow> u64 \<times> root) \<Rightarrow> (nat \<Rightarrow> bool) \<Rightarrow> u64 \<Rightarrow> root \<Rightarrow> nat list \<Rightarrow> nat list option" where
  "readyClients blockDistance lastHead online forkDistance root [] = Some []"
| "readyClients blockDistance lastHead online forkDistance root (client # clients) =
     (if \<not> online client then readyClients blockDistance lastHead online forkDistance root clients
      else do {
        headDistance \<leftarrow> (if root = snd (lastHead client) then Some 0
                        else map_option snd (blockDistance (snd (lastHead client)) root));
        rest \<leftarrow> readyClients blockDistance lastHead online forkDistance root clients;
        Some (if forkDistance <s 0 \<or> headDistance \<le> forkDistance then client # rest else rest)
      })"

fun markReady ::
    "(root \<Rightarrow> root \<Rightarrow> (bool \<times> u64) option) \<Rightarrow> (nat \<Rightarrow> u64 \<times> root) \<Rightarrow> (nat \<Rightarrow> bool) \<Rightarrow> u64 \<Rightarrow> HeadFork list \<Rightarrow> HeadFork list option" where
  "markReady blockDistance lastHead online forkDistance [] = Some []"
| "markReady blockDistance lastHead online forkDistance (fork # forks) =
     do {
       ready \<leftarrow> readyClients blockDistance lastHead online forkDistance (forkRoot fork) (AllClients fork);
       rest \<leftarrow> markReady blockDistance lastHead online forkDistance forks;
       Some (fork\<lparr>ReadyClients := ready\<rparr> # rest)
     }"

text \<open>The forks are sorted by their number of ready clients, largest first.\<close>

definition moreReady :: "HeadFork \<Rightarrow> HeadFork \<Rightarrow> bool" where
  "moreReady f g \<longleftrightarrow> length (ReadyClients f) > length (ReadyClients g)"

definition computeHeadForks ::
    "(root \<Rightarrow> root \<Rightarrow> (bool \<times> u64) option) \<Rightarrow> (nat \<Rightarrow> u64 \<times> root) \<Rightarrow> (nat \<Rightarrow> bool) \<Rightarrow>
     u64 \<Rightarrow> nat list \<Rightarrow> HeadFork list option" where
  "computeHeadForks blockDistance lastHead online forkDistance clients =
     do {
       forks \<leftarrow> groupClients (\<lambda>r h. map_option fst (blockDistance r h)) lastHead clients [];
       ready \<leftarrow> markReady blockDistance lastHead online forkDistance forks;
       Some (sort_slice moreReady ready)
     }"

text \<open>\<open>IsClientReady\<close> of a fork compares client indices; a missing fork has no ready clients.\<close>

definition forkIsClientReady :: "(nat \<Rightarrow> 16 word) \<Rightarrow> HeadFork option \<Rightarrow> nat \<Rightarrow> bool" where
  "forkIsClientReady idxOf fork client =
     (case fork of None \<Rightarrow> False | Some f \<Rightarrow> \<exists>cli \<in> set (ReadyClients f). idxOf cli = idxOf client)"

section \<open>Forks partition the clients by chain\<close>

context chain_order
begin

text \<open>A head that extends one of several unlinked chains is unlinked with the others.\<close>

lemma unlinked_extend:
  "\<not> linked a b \<Longrightarrow> \<not> linked b a \<Longrightarrow> linked a h \<Longrightarrow> \<not> linked h b \<and> \<not> linked b h"
  using linked_trans linked_linear by metis

end

definition forks_inv :: "(root \<Rightarrow> root \<Rightarrow> bool) \<Rightarrow> (nat \<Rightarrow> u64 \<times> root) \<Rightarrow> HeadFork list \<Rightarrow> bool" where
  "forks_inv linked lastHead forks \<longleftrightarrow>
     sorted_wrt (\<lambda>f g. \<not> linked (forkRoot f) (forkRoot g) \<and> \<not> linked (forkRoot g) (forkRoot f)) forks \<and>
     (\<forall>f \<in> set forks. AllClients f \<noteq> [] \<and>
        (\<exists>i \<in> set (AllClients f). lastHead i = (forkSlot f, forkRoot f)) \<and>
        (\<forall>i \<in> set (AllClients f). linked (snd (lastHead i)) (forkRoot f)))"

lemma forks_inv_Cons:
  "forks_inv linked lastHead (f # fs) \<longleftrightarrow>
     (\<forall>g \<in> set fs. \<not> linked (forkRoot f) (forkRoot g) \<and> \<not> linked (forkRoot g) (forkRoot f)) \<and>
     AllClients f \<noteq> [] \<and> (\<exists>i \<in> set (AllClients f). lastHead i = (forkSlot f, forkRoot f)) \<and>
     (\<forall>i \<in> set (AllClients f). linked (snd (lastHead i)) (forkRoot f)) \<and> forks_inv linked lastHead fs"
  unfolding forks_inv_def by auto

lemma assignClient_inv:
  assumes can: "\<And>r h. canonical r h = Some (linked r h)" and ord: "chain_order linked"
    and "forks_inv linked lastHead forks"
  shows "\<exists>forks'. assignClient canonical i (fst (lastHead i)) (snd (lastHead i)) forks = Some forks' \<and>
     mset (concat (map AllClients forks')) = add_mset i (mset (concat (map AllClients forks))) \<and>
     forks_inv linked lastHead forks' \<and>
     (\<forall>f' \<in> set forks'. forkRoot f' = snd (lastHead i) \<or> (\<exists>f \<in> set forks. forkRoot f = forkRoot f'))"
  using assms(3)
proof (induction forks)
  case Nil
  then show ?case using chain_order.linked_refl [OF ord] by (simp add: forks_inv_def)
next
  case (Cons f fs)
  let ?r = "snd (lastHead i)"
  have inv: "forks_inv linked lastHead fs" and f: "AllClients f \<noteq> []" "\<exists>i \<in> set (AllClients f). lastHead i = (forkSlot f, forkRoot f)"
    "\<forall>i \<in> set (AllClients f). linked (snd (lastHead i)) (forkRoot f)"
    and apart: "\<forall>g \<in> set fs. \<not> linked (forkRoot f) (forkRoot g) \<and> \<not> linked (forkRoot g) (forkRoot f)"
    using Cons.prems by (simp_all add: forks_inv_Cons)
  consider (on) "linked ?r (forkRoot f)" | (ext) "\<not> linked ?r (forkRoot f)" "linked (forkRoot f) ?r"
    | (off) "\<not> linked ?r (forkRoot f)" "\<not> linked (forkRoot f) ?r" by blast
  then show ?case
  proof cases
    case on
    let ?f = "f\<lparr>AllClients := AllClients f @ [i]\<rparr>"
    have "assignClient canonical i (fst (lastHead i)) ?r (f # fs) = Some (?f # fs)"
      using on can by simp
    moreover have "forks_inv linked lastHead (?f # fs)"
      using inv f apart on by (auto simp: forks_inv_Cons)
    ultimately show ?thesis by (intro exI [of _ "?f # fs"]) auto
  next
    case ext
    let ?f = "f\<lparr>forkRoot := ?r, forkSlot := fst (lastHead i), AllClients := AllClients f @ [i]\<rparr>"
    have "linked (snd (lastHead j)) ?r" if "j \<in> set (AllClients f)" for j
      using chain_order.linked_trans [OF ord] that f(3) ext(2) by blast
    moreover have "\<not> linked ?r (forkRoot g) \<and> \<not> linked (forkRoot g) ?r" if "g \<in> set fs" for g
      using chain_order.unlinked_extend [OF ord] that apart ext(2) by blast
    moreover have "forkRoot f \<noteq> ?r" using ext(1) chain_order.linked_refl [OF ord] by metis
    ultimately have "forks_inv linked lastHead (?f # fs)"
      using inv chain_order.linked_refl [OF ord, of ?r] by (simp add: forks_inv_Cons)
    moreover have "assignClient canonical i (fst (lastHead i)) ?r (f # fs) = Some (?f # fs)"
      using ext can \<open>forkRoot f \<noteq> ?r\<close> by simp
    ultimately show ?thesis by (intro exI [of _ "?f # fs"]) auto
  next
    case off
    have "forkRoot f \<noteq> ?r" using off(1) chain_order.linked_refl [OF ord] by metis
    moreover from Cons.IH [OF inv] obtain fs' where
      fs': "assignClient canonical i (fst (lastHead i)) ?r fs = Some fs'" "forks_inv linked lastHead fs'"
        "mset (concat (map AllClients fs')) = add_mset i (mset (concat (map AllClients fs)))"
        "\<forall>g' \<in> set fs'. forkRoot g' = ?r \<or> (\<exists>g \<in> set fs. forkRoot g = forkRoot g')" by blast
    moreover have "\<forall>g' \<in> set fs'. \<not> linked (forkRoot f) (forkRoot g') \<and> \<not> linked (forkRoot g') (forkRoot f)"
      using fs'(4) apart off by metis
    then have "forks_inv linked lastHead (f # fs')" using f fs'(2) by (simp add: forks_inv_Cons)
    ultimately show ?thesis using off can [of ?r "forkRoot f"] can [of "forkRoot f" ?r]
      by (intro exI [of _ "f # fs'"]) auto
  qed
qed

lemma groupClients_inv:
  assumes can: "\<And>r h. canonical r h = Some (linked r h)" and ord: "chain_order linked"
    and "forks_inv linked lastHead forks"
  shows "\<exists>forks'. groupClients canonical lastHead clients forks = Some forks' \<and>
     mset (concat (map AllClients forks')) = mset clients + mset (concat (map AllClients forks)) \<and>
     forks_inv linked lastHead forks'"
  using assms(3)
proof (induction clients arbitrary: forks)
  case (Cons i clients)
  from assignClient_inv [OF can ord Cons.prems, of i] obtain forks1 where
    "assignClient canonical i (fst (lastHead i)) (snd (lastHead i)) forks = Some forks1"
    "mset (concat (map AllClients forks1)) = add_mset i (mset (concat (map AllClients forks)))"
    "forks_inv linked lastHead forks1" by blast
  with Cons.IH [of forks1] show ?case by auto
qed simp

lemma assignClient_members:
  assumes "assignClient canonical i s r forks = Some forks'" and "f' \<in> set forks'"
  shows "\<exists>xs \<in> insert [] (AllClients ` set forks). AllClients f' = xs \<or> AllClients f' = xs @ [i]"
  using assms
proof (induction forks arbitrary: forks')
  case (Cons f fs)
  then show ?case by (fastforce split: if_splits bind_splits)
qed simp

lemma groupClients_sorted:
  assumes "groupClients canonical lastHead clients [] = Some forks'" and "sorted_wrt (<) clients" and "f' \<in> set forks'"
  shows "sorted_wrt (<) (AllClients f')"
proof -
  have "sorted_wrt (<) (AllClients f')"
    if "groupClients canonical lastHead cs forks = Some forks'" "sorted_wrt (<) cs"
      "\<forall>f \<in> set forks. sorted_wrt (<) (AllClients f) \<and> (\<forall>j \<in> set (AllClients f). \<forall>i \<in> set cs. j < i)" for cs forks
    using that
  proof (induction cs arbitrary: forks)
    case (Cons i cs)
    then obtain forks1 where f1: "assignClient canonical i (fst (lastHead i)) (snd (lastHead i)) forks = Some forks1"
      "groupClients canonical lastHead cs forks1 = Some forks'" by (auto split: bind_splits)
    have "sorted_wrt (<) (AllClients f) \<and> (\<forall>j \<in> set (AllClients f). \<forall>i \<in> set cs. j < i)" if "f \<in> set forks1" for f
      using assignClient_members [OF f1(1) that] Cons.prems(2,3) by (fastforce simp: sorted_wrt_append)
    then show ?case using Cons.IH f1(2) Cons.prems(2) by simp
  qed (use assms(3) in simp)
  from this [OF assms(1,2)] show ?thesis by simp
qed

lemma readyClients_filter:
  assumes "\<And>i. i \<in> set clients \<Longrightarrow> blockDistance (snd (lastHead i)) root = Some (True, d i)"
    and "\<And>i. root = snd (lastHead i) \<Longrightarrow> d i = 0" and "\<not> forkDistance <s 0"
  shows "readyClients blockDistance lastHead online forkDistance root clients =
    Some (filter (\<lambda>i. online i \<and> d i \<le> forkDistance) clients)"
  using assms(1)
proof (induction clients)
  case (Cons i clients)
  then have "blockDistance (snd (lastHead i)) root = Some (True, d i)"
    "readyClients blockDistance lastHead online forkDistance root clients =
      Some (filter (\<lambda>i. online i \<and> d i \<le> forkDistance) clients)" by auto
  then show ?case using assms(2,3) by auto
qed simp

text \<open>
  The distances the forks are made of: every pair of heads is either linked at some distance or not
  linked at all, and the walk between them ends.
\<close>

definition distances :: "(root \<Rightarrow> root \<Rightarrow> bool) \<Rightarrow> (root \<Rightarrow> root \<Rightarrow> u64) \<Rightarrow> (root \<Rightarrow> root \<Rightarrow> (bool \<times> u64) option) \<Rightarrow> bool" where
  "distances linked d blockDistance \<longleftrightarrow>
     (\<forall>r h. blockDistance r h = Some (linked r h, if linked r h then d r h else 0)) \<and> (\<forall>r. d r r = 0)"

lemma markReady_filter:
  assumes "distances linked d blockDistance" and "\<not> forkDistance <s 0"
    and "\<forall>f \<in> set forks. \<forall>i \<in> set (AllClients f). linked (snd (lastHead i)) (forkRoot f)"
  shows "markReady blockDistance lastHead online forkDistance forks =
    Some (map (\<lambda>f. f\<lparr>ReadyClients := filter (\<lambda>i. online i \<and> d (snd (lastHead i)) (forkRoot f) \<le> forkDistance) (AllClients f)\<rparr>) forks)"
  using assms(3)
proof (induction forks)
  case (Cons f fs)
  have "readyClients blockDistance lastHead online forkDistance (forkRoot f) (AllClients f) =
      Some (filter (\<lambda>i. online i \<and> d (snd (lastHead i)) (forkRoot f) \<le> forkDistance) (AllClients f))"
    using assms(1,2) Cons.prems by (intro readyClients_filter) (auto simp: distances_def)
  then show ?case using Cons by simp
qed simp

lemma forks_inv_pairwise:
  assumes "chain_order linked" and "forks_inv linked lastHead forks"
  shows "distinct (map forkRoot forks) \<and> (\<forall>f \<in> set forks. \<forall>g \<in> set forks. linked (forkRoot f) (forkRoot g) \<longrightarrow> f = g)"
  using assms(2)
proof (induction forks)
  case (Cons f fs)
  then have "distinct (map forkRoot fs)" "\<forall>g \<in> set fs. \<forall>g' \<in> set fs. linked (forkRoot g) (forkRoot g') \<longrightarrow> g = g'"
    by (simp_all add: forks_inv_Cons)
  moreover have "\<forall>g \<in> set fs. \<not> linked (forkRoot f) (forkRoot g) \<and> \<not> linked (forkRoot g) (forkRoot f)"
    using Cons.prems by (simp add: forks_inv_Cons)
  ultimately show ?case using chain_order.linked_refl [OF assms(1), of "forkRoot f"] by (auto simp: image_iff)
qed simp

lemma slice_order_moreReady: "slice_order moreReady A"
  by (auto simp: slice_order_def moreReady_def)

lemma mset_concat_map: "mset (concat (map f xs)) = (\<Sum>x\<in>#mset xs. mset (f x))"
  by (induction xs) auto

lemma computeHeadForks_spec:
  assumes ord: "chain_order linked" and dist: "distances linked d blockDistance"
    and "\<not> forkDistance <s 0" and "sorted_wrt (<) clients"
  shows "\<exists>forks. computeHeadForks blockDistance lastHead online forkDistance clients = Some forks \<and>
    mset (concat (map AllClients forks)) = mset clients \<and>
    distinct (map forkRoot forks) \<and> (\<forall>f \<in> set forks. \<forall>g \<in> set forks. linked (forkRoot f) (forkRoot g) \<longrightarrow> f = g) \<and>
    (\<forall>f \<in> set forks. (\<exists>i \<in> set (AllClients f). lastHead i = (forkSlot f, forkRoot f)) \<and>
       (\<forall>i \<in> set (AllClients f). linked (snd (lastHead i)) (forkRoot f)) \<and>
       ReadyClients f = filter (\<lambda>i. online i \<and> d (snd (lastHead i)) (forkRoot f) \<le> forkDistance) (AllClients f) \<and>
       sorted_wrt (<) (AllClients f) \<and>
       length (ReadyClients f) \<le> length (ReadyClients (hd forks)))"
proof -
  have can: "map_option fst (blockDistance r h) = Some (linked r h)" for r h
    using dist by (simp add: distances_def)
  have "forks_inv linked lastHead []" by (simp add: forks_inv_def)
  from groupClients_inv [of "\<lambda>r h. map_option fst (blockDistance r h)", OF can ord this, of clients] obtain fs where
    fs: "groupClients (\<lambda>r h. map_option fst (blockDistance r h)) lastHead clients [] = Some fs"
      "mset (concat (map AllClients fs)) = mset clients" "forks_inv linked lastHead fs" by auto
  let ?ready = "\<lambda>f. filter (\<lambda>i. online i \<and> d (snd (lastHead i)) (forkRoot f) \<le> forkDistance) (AllClients f)"
  let ?fs = "map (\<lambda>f. f\<lparr>ReadyClients := ?ready f\<rparr>) fs"
  have "markReady blockDistance lastHead online forkDistance fs = Some ?fs"
    using fs(3) by (intro markReady_filter [OF dist assms(3)]) (simp add: forks_inv_def)
  then have res: "computeHeadForks blockDistance lastHead online forkDistance clients = Some (sort_slice moreReady ?fs)"
    using fs(1) by (simp add: computeHeadForks_def)
  have perm: "mset (sort_slice moreReady ?fs) = mset ?fs" and sorted: "sorted_wrt (\<lambda>f g. \<not> moreReady g f) (sort_slice moreReady ?fs)"
    by (rule go_sort.srt_mset, rule go_sort.srt_sorted [OF slice_order_moreReady])
  have mem: "set (sort_slice moreReady ?fs) = set ?fs" using perm by (rule mset_eq_setD)
  have inv: "forks_inv linked lastHead ?fs"
    using fs(3) by (auto simp: forks_inv_def sorted_wrt_map)
  have "mset (concat (map AllClients (sort_slice moreReady ?fs))) = mset (concat (map AllClients ?fs))"
    by (simp only: mset_concat_map perm)
  then have m: "mset (concat (map AllClients (sort_slice moreReady ?fs))) = mset clients"
    using fs(2) by (simp add: comp_def)
  have d: "distinct (map forkRoot (sort_slice moreReady ?fs))"
  proof -
    have "mset (map forkRoot (sort_slice moreReady ?fs)) = mset (map forkRoot ?fs)" by (simp only: mset_map perm)
    then show ?thesis using forks_inv_pairwise [OF ord inv] mset_eq_imp_distinct_iff by blast
  qed
  have hd: "length (ReadyClients f) \<le> length (ReadyClients (hd (sort_slice moreReady ?fs)))" if "f \<in> set (sort_slice moreReady ?fs)" for f
    using that sorted by (cases "sort_slice moreReady ?fs") (auto simp: moreReady_def not_less)
  have each: "(\<exists>i \<in> set (AllClients f). lastHead i = (forkSlot f, forkRoot f)) \<and>
       (\<forall>i \<in> set (AllClients f). linked (snd (lastHead i)) (forkRoot f)) \<and>
       ReadyClients f = filter (\<lambda>i. online i \<and> d (snd (lastHead i)) (forkRoot f) \<le> forkDistance) (AllClients f) \<and>
       sorted_wrt (<) (AllClients f)"
    if "f \<in> set (sort_slice moreReady ?fs)" for f
    using that inv groupClients_sorted [OF fs(1) assms(4)] unfolding mem forks_inv_def by auto
  have pair: "\<forall>f \<in> set (sort_slice moreReady ?fs). \<forall>g \<in> set (sort_slice moreReady ?fs). linked (forkRoot f) (forkRoot g) \<longrightarrow> f = g"
    unfolding mem using forks_inv_pairwise [OF ord inv] by blast
  show ?thesis using res m d pair each hd by blast
qed

text \<open>
  Without any law on the blocks: each fork stands at the head of one of its clients, lists some of
  the given clients in their order, and its ready clients are online.
\<close>

definition fork_shape :: "(nat \<Rightarrow> u64 \<times> root) \<Rightarrow> nat set \<Rightarrow> HeadFork \<Rightarrow> bool" where
  "fork_shape lastHead A f \<longleftrightarrow> sorted_wrt (<) (AllClients f) \<and> set (AllClients f) \<subseteq> A \<and>
     (\<exists>i \<in> set (AllClients f). lastHead i = (forkSlot f, forkRoot f)) \<and>
     sorted_wrt (<) (ReadyClients f) \<and> set (ReadyClients f) \<subseteq> set (AllClients f)"

lemma assignClient_head:
  assumes "assignClient canonical i (fst (lastHead i)) (snd (lastHead i)) forks = Some forks'"
    and "\<forall>f \<in> set forks. set (AllClients f) \<subseteq> A \<and> (\<exists>i \<in> set (AllClients f). lastHead i = (forkSlot f, forkRoot f))"
    and "i \<in> A" and "f' \<in> set forks'"
  shows "set (AllClients f') \<subseteq> A \<and> (\<exists>i \<in> set (AllClients f'). lastHead i = (forkSlot f', forkRoot f'))"
  using assms
proof (induction forks arbitrary: forks')
  case (Cons f fs)
  from Cons.prems(1) consider (on) "forks' = f\<lparr>AllClients := AllClients f @ [i]\<rparr> # fs"
    | (ext) "forks' = f\<lparr>forkRoot := snd (lastHead i), forkSlot := fst (lastHead i), AllClients := AllClients f @ [i]\<rparr> # fs"
    | (off) fs' where "forks' = f # fs'" "assignClient canonical i (fst (lastHead i)) (snd (lastHead i)) fs = Some fs'"
    by (auto split: if_splits bind_splits)
  then show ?case
  proof cases
    case off
    then show ?thesis using Cons.IH [OF off(2)] Cons.prems(2-4) by auto
  qed (use Cons.prems(2-4) in auto)
qed simp

lemma groupClients_head:
  assumes "groupClients canonical lastHead clients forks = Some forks'" and "set clients \<subseteq> A"
    and "\<forall>f \<in> set forks. set (AllClients f) \<subseteq> A \<and> (\<exists>i \<in> set (AllClients f). lastHead i = (forkSlot f, forkRoot f))"
  shows "\<forall>f' \<in> set forks'. set (AllClients f') \<subseteq> A \<and> (\<exists>i \<in> set (AllClients f'). lastHead i = (forkSlot f', forkRoot f'))"
  using assms
proof (induction clients arbitrary: forks)
  case (Cons i clients)
  from Cons.prems(1) obtain forks1 where f1: "assignClient canonical i (fst (lastHead i)) (snd (lastHead i)) forks = Some forks1"
    "groupClients canonical lastHead clients forks1 = Some forks'" by (auto split: bind_splits)
  have "i \<in> A" "set clients \<subseteq> A" using Cons.prems(2) by auto
  then show ?case using Cons.IH [OF f1(2)] assignClient_head [OF f1(1) Cons.prems(3)] by blast
qed simp

lemma readyClients_sub:
  assumes "readyClients blockDistance lastHead online forkDistance root clients = Some ready"
  shows "set ready \<subseteq> {i \<in> set clients. online i} \<and> (sorted_wrt (<) clients \<longrightarrow> sorted_wrt (<) ready)"
  using assms
proof (induction clients arbitrary: ready)
  case (Cons i clients)
  show ?case
  proof (cases "online i")
    case False
    then show ?thesis using Cons by auto
  next
    case True
    then obtain rest where rest: "readyClients blockDistance lastHead online forkDistance root clients = Some rest"
      "ready = i # rest \<or> ready = rest" using Cons.prems by (auto split: bind_splits if_splits)
    have sub: "\<forall>x \<in> set rest. x \<in> set clients" using Cons.IH [OF rest(1)] by auto
    have "sorted_wrt (<) (i # clients) \<longrightarrow> sorted_wrt (<) ready"
      using Cons.IH [OF rest(1)] rest(2) sub by fastforce
    then show ?thesis using Cons.IH [OF rest(1)] rest(2) True by auto
  qed
qed simp

lemma markReady_map:
  assumes "markReady blockDistance lastHead online forkDistance forks = Some forks'" and "f' \<in> set forks'"
  shows "\<exists>f \<in> set forks. \<exists>ready. f' = f\<lparr>ReadyClients := ready\<rparr> \<and>
    readyClients blockDistance lastHead online forkDistance (forkRoot f) (AllClients f) = Some ready"
  using assms by (induction forks arbitrary: forks') (fastforce split: bind_splits)+

lemma computeHeadForks_shape:
  assumes "computeHeadForks blockDistance lastHead online forkDistance clients = Some forks" and "sorted_wrt (<) clients"
    and "f \<in> set forks"
  shows "fork_shape lastHead (set clients) f \<and> (\<forall>i \<in> set (ReadyClients f). online i)"
proof -
  obtain fs ms where fs: "groupClients (\<lambda>r h. map_option fst (blockDistance r h)) lastHead clients [] = Some fs"
    "markReady blockDistance lastHead online forkDistance fs = Some ms" "forks = sort_slice moreReady ms"
    using assms(1) by (auto simp: computeHeadForks_def split: bind_splits)
  have "f \<in> set ms" using assms(3) fs(3) go_sort.srt_set by metis
  from markReady_map [OF fs(2) this] obtain g ready where g: "g \<in> set fs" "f = g\<lparr>ReadyClients := ready\<rparr>"
    "readyClients blockDistance lastHead online forkDistance (forkRoot g) (AllClients g) = Some ready" by blast
  then show ?thesis
    using groupClients_head [OF fs(1) order_refl] groupClients_sorted [OF fs(1) assms(2) g(1)] readyClients_sub [OF g(3)]
    by (auto simp: fork_shape_def)
qed

section \<open>Round robin\<close>

definition AnyClient :: int where "AnyClient = 0"

text \<open>The loop over the ready clients; \<open>first\<close> is \<open>firstReadyClient\<close>, \<open>lastIdx\<close> the stored index.\<close>

fun rrPick :: "(nat \<Rightarrow> 16 word) \<Rightarrow> (nat \<Rightarrow> int) \<Rightarrow> int \<Rightarrow> 16 word \<Rightarrow> nat option \<Rightarrow> nat list \<Rightarrow> nat option" where
  "rrPick idxOf typeOf clientType lastIdx first [] = first"
| "rrPick idxOf typeOf clientType lastIdx first (client # clients) =
     (if clientType \<noteq> AnyClient \<and> clientType \<noteq> typeOf client then rrPick idxOf typeOf clientType lastIdx first clients
      else let first' = (if first = None then Some client else first)
           in if idxOf client > lastIdx then Some client else rrPick idxOf typeOf clientType lastIdx first' clients)"

definition runClientScheduler ::
    "(nat \<Rightarrow> 16 word) \<Rightarrow> (nat \<Rightarrow> int) \<Rightarrow> nat list \<Rightarrow> int \<Rightarrow> (int \<times> 16 word) list \<Rightarrow> nat option \<times> (int \<times> 16 word) list" where
  "runClientScheduler idxOf typeOf ready clientType rrLastIndexes =
     (let lastIdx = (case map_of rrLastIndexes clientType of None \<Rightarrow> 0 | Some i \<Rightarrow> i)
      in case rrPick idxOf typeOf clientType lastIdx None ready of
           None \<Rightarrow> (None, rrLastIndexes)
         | Some client \<Rightarrow> (Some client, AList.update clientType (idxOf client) rrLastIndexes))"

text \<open>The answers to a number of calls in a row while the same clients are ready.\<close>

fun schedulerCalls ::
    "(nat \<Rightarrow> 16 word) \<Rightarrow> (nat \<Rightarrow> int) \<Rightarrow> nat list \<Rightarrow> int \<Rightarrow> nat \<Rightarrow> (int \<times> 16 word) list \<Rightarrow> nat option list" where
  "schedulerCalls idxOf typeOf ready clientType 0 rr = []"
| "schedulerCalls idxOf typeOf ready clientType (Suc n) rr =
     (let (c, rr') = runClientScheduler idxOf typeOf ready clientType rr
      in c # schedulerCalls idxOf typeOf ready clientType n rr')"

definition matchingClients :: "(nat \<Rightarrow> int) \<Rightarrow> int \<Rightarrow> nat list \<Rightarrow> nat list" where
  "matchingClients typeOf clientType ready = filter (\<lambda>c. clientType = AnyClient \<or> clientType = typeOf c) ready"

lemma rrPick_filter:
  "rrPick idxOf typeOf clientType lastIdx first ready =
     (let m = matchingClients typeOf clientType ready
      in case filter (\<lambda>c. idxOf c > lastIdx) m of
           c # cs \<Rightarrow> Some c
         | [] \<Rightarrow> (case first of Some c \<Rightarrow> Some c | None \<Rightarrow> (case m of [] \<Rightarrow> None | c # cs \<Rightarrow> Some c)))"
  by (induction ready arbitrary: first) (auto simp: matchingClients_def Let_def split: option.splits list.splits)

lemma rr_next:
  assumes "sorted_wrt (<) (map idxOf m)" and "j < length m" and "m = matchingClients typeOf clientType ready"
  shows "rrPick idxOf typeOf clientType (idxOf (m ! j)) None ready = Some (m ! (Suc j mod length m))"
proof -
  have le: "filter (\<lambda>c. idxOf c > idxOf (m ! j)) (take (Suc j) m) = []"
  proof -
    have "idxOf (m ! i) \<le> idxOf (m ! j)" if "i < j" for i
      using assms(1,2) that by (simp add: sorted_wrt_iff_nth_less less_imp_le)
    then show ?thesis using assms(2) by (auto simp: filter_empty_conv in_set_conv_nth less_Suc_eq not_less)
  qed
  have gt: "filter (\<lambda>c. idxOf c > idxOf (m ! j)) (drop (Suc j) m) = drop (Suc j) m"
    using assms(1,2) by (auto simp: filter_id_conv in_set_conv_nth sorted_wrt_iff_nth_less)
  have rest: "filter (\<lambda>c. idxOf c > idxOf (m ! j)) m = drop (Suc j) m"
    using le gt by (metis append_Nil append_take_drop_id filter_append)
  obtain c cs where m: "m = c # cs" using assms(2) by (cases m) auto
  show ?thesis
  proof (cases "Suc j < length m")
    case True
    then show ?thesis using rest assms(3) by (simp add: rrPick_filter Let_def Cons_nth_drop_Suc [symmetric])
  next
    case False
    then have "Suc j = length m" using assms(2) by simp
    then have "rrPick idxOf typeOf clientType (idxOf (m ! j)) None ready = (case m of [] \<Rightarrow> None | c # cs \<Rightarrow> Some c)"
      using rest by (simp add: rrPick_filter Let_def assms(3) [symmetric])
    then show ?thesis using \<open>Suc j = length m\<close> m by simp
  qed
qed

lemma schedulerCalls_from:
  assumes "sorted_wrt (<) (map idxOf m)" and "m = matchingClients typeOf clientType ready"
    and "j < length m" and "map_of rr clientType = Some (idxOf (m ! j))"
  shows "schedulerCalls idxOf typeOf ready clientType n rr = map (\<lambda>k. Some (m ! ((Suc j + k) mod length m))) [0..<n]"
  using assms(3,4)
proof (induction n arbitrary: j rr)
  case (Suc n)
  let ?j = "Suc j mod length m"
  have step: "runClientScheduler idxOf typeOf ready clientType rr = (Some (m ! ?j), AList.update clientType (idxOf (m ! ?j)) rr)"
    using rr_next [OF assms(1) Suc.prems(1) assms(2)] Suc.prems(2) by (simp add: runClientScheduler_def)
  have "schedulerCalls idxOf typeOf ready clientType n (AList.update clientType (idxOf (m ! ?j)) rr) =
      map (\<lambda>k. Some (m ! ((Suc ?j + k) mod length m))) [0..<n]"
    using Suc.prems(1) by (intro Suc.IH) (auto simp: update_conv intro!: mod_less_divisor)
  moreover have "(Suc ?j + k) mod length m = Suc (Suc j + k) mod length m" for k
    using mod_add_left_eq [of "Suc j" "length m" "Suc k"] by simp
  ultimately show ?case using step by (simp add: upt_rec [of 0 "Suc n"] map_Suc_upt [symmetric] comp_def del: upt_Suc)
qed simp

text \<open>
  The round robin is fair: while the same clients are ready, listed by ascending index, as many
  calls in a row as there are clients of the wanted type return each of them exactly once, in the
  order of the list and from wherever the last call stopped.
\<close>

lemma round_robin_fair:
  assumes "sorted_wrt (<) (map idxOf (matchingClients typeOf clientType ready))"
  shows "\<exists>k. schedulerCalls idxOf typeOf ready clientType (length (matchingClients typeOf clientType ready)) rr =
    map Some (rotate k (matchingClients typeOf clientType ready))"
proof (cases "matchingClients typeOf clientType ready")
  case Nil
  then show ?thesis by simp
next
  case (Cons c cs)
  let ?m = "matchingClients typeOf clientType ready"
  let ?lastIdx = "case map_of rr clientType of None \<Rightarrow> 0 | Some i \<Rightarrow> i"
  obtain x where x: "rrPick idxOf typeOf clientType ?lastIdx None ready = Some x" "x \<in> set ?m"
  proof (cases "filter (\<lambda>c. idxOf c > ?lastIdx) ?m")
    case Nil
    then show thesis using that [of c] Cons by (simp add: rrPick_filter Let_def)
  next
    case (Cons y ys)
    then have "y \<in> set ?m" using set_filter [of _ ?m] by (metis (no_types, lifting) list.set_intros(1) mem_Collect_eq)
    then show thesis using that [of y] Cons by (simp add: rrPick_filter Let_def)
  qed
  then obtain j where j: "j < length ?m" "x = ?m ! j" by (auto simp: in_set_conv_nth)
  obtain n where n: "length ?m = Suc n" using Cons by simp
  have "schedulerCalls idxOf typeOf ready clientType n (AList.update clientType (idxOf x) rr) =
      map (\<lambda>k. Some (?m ! ((Suc j + k) mod length ?m))) [0..<n]"
    using j by (intro schedulerCalls_from [OF assms refl]) (simp_all add: update_conv)
  then have "schedulerCalls idxOf typeOf ready clientType (Suc n) rr =
      map (\<lambda>k. Some (?m ! ((j + k) mod length ?m))) [0..<Suc n]"
    using x(1) j by (simp add: runClientScheduler_def upt_rec [of 0 "Suc n"] map_Suc_upt [symmetric] comp_def del: upt_Suc)
  also have "\<dots> = map Some (rotate j ?m)"
    using n by (intro nth_equalityI) (simp_all add: nth_rotate add.commute del: upt_Suc)
  finally show ?thesis using n by (intro exI [of _ j]) simp
qed

end
