(* ===== verification/Dispatcher.thy ===== *)
theory Dispatcher
  imports Prelude
begin

text \<open>
  Event dispatchers (\<open>clients/consensus/subscriptions.go\<close>, the same code in
  \<open>clients/execution/subscriptions.go\<close>): subscriptions are buffered channels, \<open>Fire\<close> sends to all of
  them without waiting. Subscriptions are objects at addresses, the dispatcher holds their
  addresses in a list.
\<close>

section \<open>Operations\<close>

text \<open>\<open>subscribed\<close> is \<open>s.dispatcher != nil\<close>; every subscription belongs to the one dispatcher of the model.\<close>

record 'a Subscription =
  channelCap :: nat
  channel :: "'a list"
  subscribed :: bool

record 'a Dispatcher =
  subStore :: "'a Subscription list"
  subscriptions :: "nat list"

definition newDispatcher :: "'a Dispatcher" where
  "newDispatcher = \<lparr>subStore = [], subscriptions = []\<rparr>"

definition Subscribe :: "nat \<Rightarrow> 'a Dispatcher \<Rightarrow> nat \<times> 'a Dispatcher" where
  "Subscribe capacity d =
     (length (subStore d),
      d\<lparr>subStore := subStore d @ [\<lparr>channelCap = capacity, channel = [], subscribed = True\<rparr>],
        subscriptions := subscriptions d @ [length (subStore d)]\<rparr>)"

fun indexOf :: "'a \<Rightarrow> 'a list \<Rightarrow> nat option" where
  "indexOf x [] = None"
| "indexOf x (y # ys) = (if x = y then Some 0 else map_option Suc (indexOf x ys))"

definition Unsubscribe :: "nat \<Rightarrow> 'a Dispatcher \<Rightarrow> 'a Dispatcher" where
  "Unsubscribe a d =
     (if subscribed (subStore d ! a) then d
      else case indexOf a (subscriptions d) of
             None \<Rightarrow> d
           | Some i \<Rightarrow>
               let count = length (subscriptions d);
                   subs = (if i < count - 1 then (subscriptions d)[i := subscriptions d ! (count - 1)]
                           else subscriptions d)
               in d\<lparr>subscriptions := take (count - 1) subs, subStore := (subStore d)[a := (subStore d ! a)\<lparr>subscribed := False\<rparr>]\<rparr>)"

definition SubUnsubscribe :: "nat \<Rightarrow> 'a Dispatcher \<Rightarrow> 'a Dispatcher" where
  "SubUnsubscribe a d = (if subscribed (subStore d ! a) then Unsubscribe a d else d)"

definition trySend :: "'a \<Rightarrow> 'a Subscription \<Rightarrow> 'a Subscription" where
  "trySend x s = (if length (channel s) < channelCap s then s\<lparr>channel := channel s @ [x]\<rparr> else s)"

definition Fire :: "'a \<Rightarrow> 'a Dispatcher \<Rightarrow> 'a Dispatcher" where
  "Fire x d = d\<lparr>subStore := foldl (\<lambda>st a. st[a := trySend x (st ! a)]) (subStore d) (subscriptions d)\<rparr>"

text \<open>The receiver's side, \<open>\<leftarrow> s.Channel()\<close>: nothing while the channel is empty.\<close>

definition Receive :: "nat \<Rightarrow> 'a Dispatcher \<Rightarrow> ('a \<times> 'a Dispatcher) option" where
  "Receive a d =
     (case channel (subStore d ! a) of
        [] \<Rightarrow> None
      | x # q \<Rightarrow> Some (x, d\<lparr>subStore := (subStore d)[a := (subStore d ! a)\<lparr>channel := q\<rparr>]\<rparr>))"

section \<open>Delivery\<close>

definition disp_inv :: "'a Dispatcher \<Rightarrow> bool" where
  "disp_inv d \<longleftrightarrow> distinct (subscriptions d) \<and> set (subscriptions d) = {..<length (subStore d)} \<and>
     (\<forall>s \<in> set (subStore d). subscribed s \<and> length (channel s) \<le> channelCap s)"

lemma disp_inv_new: "disp_inv newDispatcher"
  by (simp add: disp_inv_def newDispatcher_def)

lemma disp_inv_Subscribe:
  assumes "disp_inv d" and "Subscribe capacity d = (a, d')"
  shows "disp_inv d'" and "a \<notin> set (subscriptions d)" and "a \<in> set (subscriptions d')"
  using assms by (auto simp: disp_inv_def Subscribe_def)

lemma fire_store:
  assumes "distinct as" and "\<forall>a \<in> set as. a < length st"
  shows "length (foldl (\<lambda>st a. st[a := f (st ! a)]) st as) = length st"
    and "foldl (\<lambda>st a. st[a := f (st ! a)]) st as ! b = (if b \<in> set as then f (st ! b) else st ! b)"
  using assms by (induction as arbitrary: st) (auto simp: nth_list_update)

lemma Fire_store:
  assumes "disp_inv d"
  shows "subStore (Fire x d) = map (trySend x) (subStore d)"
  using assms by (intro nth_equalityI) (auto simp: Fire_def disp_inv_def fire_store)

lemma Fire_subscriptions [simp]: "subscriptions (Fire x d) = subscriptions d"
  by (simp add: Fire_def)

lemma trySend_fields [simp]:
  "channelCap (trySend x s) = channelCap s" "subscribed (trySend x s) = subscribed s"
  "length (channel s) \<le> channelCap s \<Longrightarrow> length (channel (trySend x s)) \<le> channelCap s"
  by (simp_all add: trySend_def)

lemma disp_inv_Fire: "disp_inv d \<Longrightarrow> disp_inv (Fire x d)"
  using Fire_store [of d x] Fire_subscriptions [of x d] unfolding disp_inv_def by auto

lemma disp_inv_Receive: "disp_inv d \<Longrightarrow> Receive a d = Some (x, d') \<Longrightarrow> a < length (subStore d) \<Longrightarrow> disp_inv d'"
  by (auto simp: disp_inv_def Receive_def dest!: set_update_subset_insert [THEN subsetD]
      split: list.splits) (metis (no_types, lifting) Suc_leD length_Cons nth_mem)

text \<open>
  \<open>Dispatcher.Unsubscribe\<close> returns at once for a subscription that has a dispatcher, which every
  subscription has: nothing is ever unsubscribed, and the channel is filled by every later \<open>Fire\<close>
  until it is full.
\<close>

lemma Unsubscribe_no_effect:
  assumes "disp_inv d" and "a < length (subStore d)"
  shows "Unsubscribe a d = d" and "SubUnsubscribe a d = d"
  using assms by (auto simp: Unsubscribe_def SubUnsubscribe_def disp_inv_def)

text \<open>A subscriber reads the events fired since its subscription in their order, up to the capacity.\<close>

lemma Fire_channel:
  assumes "disp_inv d" and "a < length (subStore d)"
  shows "channel (subStore (Fire x d) ! a) =
    (if length (channel (subStore d ! a)) < channelCap (subStore d ! a)
     then channel (subStore d ! a) @ [x] else channel (subStore d ! a))"
  using assms by (simp add: Fire_store trySend_def)

lemma Fires_channel:
  assumes "disp_inv d" and "Subscribe capacity d = (a, d')" and "length xs \<le> capacity"
  shows "channel (subStore (fold Fire xs d') ! a) = xs"
proof -
  have a: "a < length (subStore d')" "channel (subStore d' ! a) = []" "channelCap (subStore d' ! a) = capacity"
    using assms(2) by (auto simp: Subscribe_def)
  have "channel (subStore (fold Fire xs d2) ! a) = channel (subStore d2 ! a) @ xs"
    if "disp_inv d2" "a < length (subStore d2)" "length (channel (subStore d2 ! a)) + length xs \<le> channelCap (subStore d2 ! a)" for d2
    using that
  proof (induction xs arbitrary: d2)
    case (Cons x xs)
    then show ?case using Cons.IH [of "Fire x d2"] by (simp add: disp_inv_Fire Fire_store Fire_channel trySend_def)
  qed simp
  from this [of d'] show ?thesis using a assms disp_inv_Subscribe(1) [OF assms(1,2)] by simp
qed

end
