(* ===== verification/ConsensusClients.thy ===== *)
theory ConsensusClients
  imports HeadForks Dispatcher
begin

text \<open>
  The pool of consensus clients (\<open>clients/consensus\<close>): blocks, the block cache with genesis, chain
  specs, finality and validator set, the clients with their heads, the forks of the pool and the
  choice of a ready client, and what a client does with the answers and events of its node. The
  answers of the node (\<open>rpc.BeaconClient\<close>) are arguments; a header is given by its parent root, the
  only part the package reads, and a block body is of any type.
\<close>

section \<open>Blocks\<close>

record 'b cl_block =
  clRoot :: root
  clSlot :: u64
  clHeader :: "root option"
  clHeaderChanClosed :: bool
  clBlock :: "'b option"
  clBlockChanClosed :: bool
  clSeenMap :: "(u16 \<times> nat) list"

definition clNewBlock :: "root \<Rightarrow> u64 \<Rightarrow> 'b cl_block" where
  "clNewBlock root slot = \<lparr>clRoot = root, clSlot = slot, clHeader = None, clHeaderChanClosed = False,
     clBlock = None, clBlockChanClosed = False, clSeenMap = []\<rparr>"

definition clGetSeenBy :: "'b cl_block \<Rightarrow> nat list" where
  "clGetSeenBy b = map snd (sort_slice (\<lambda>x y. fst x < fst y) (clSeenMap b))"

definition clSetSeenBy :: "u16 \<Rightarrow> nat \<Rightarrow> 'b cl_block \<Rightarrow> 'b cl_block" where
  "clSetSeenBy idx client b = b\<lparr>clSeenMap := AList.update idx client (clSeenMap b)\<rparr>"

definition GetParentRoot :: "'b cl_block \<Rightarrow> root option" where
  "GetParentRoot b = clHeader b"

text \<open>Closing a channel twice panics; the flag says whether that would happen.\<close>

definition EnsureHeader :: "(string + root) \<Rightarrow> 'b cl_block \<Rightarrow> go_error \<times> 'b cl_block" where
  "EnsureHeader loaded b =
     (if clHeader b \<noteq> None then (None, b)
      else case loaded of
             Inl e \<Rightarrow> (Some e, b)
           | Inr h \<Rightarrow> (None, b\<lparr>clHeader := Some h, clHeaderChanClosed := True\<rparr>))"

definition clEnsureBlock :: "(string + 'b) \<Rightarrow> 'b cl_block \<Rightarrow> (bool \<times> go_error) \<times> 'b cl_block" where
  "clEnsureBlock loaded b =
     (if clBlock b \<noteq> None then ((False, None), b)
      else case loaded of
             Inl e \<Rightarrow> ((False, Some e), b)
           | Inr body \<Rightarrow> ((True, None), b\<lparr>clBlock := Some body, clBlockChanClosed := True\<rparr>))"

text \<open>
  \<open>AwaitHeader\<close> and \<open>AwaitBlock\<close> return what is stored when the channel is closed, the timeout passes or
  the context ends; they return at once on a closed channel.
\<close>

definition AwaitHeader :: "bool \<Rightarrow> 'b cl_block \<Rightarrow> root option option" where
  "AwaitHeader giveUp b = (if clHeaderChanClosed b \<or> giveUp then Some (clHeader b) else None)"

definition clAwaitBlock :: "bool \<Rightarrow> 'b cl_block \<Rightarrow> 'b option option" where
  "clAwaitBlock giveUp b = (if clBlockChanClosed b \<or> giveUp then Some (clBlock b) else None)"

section \<open>The block cache\<close>

record ChainSpec =
  PresetBase :: string
  ConfigName :: string
  MinGenesisTime :: int
  GenesisForkVersion :: u32
  AltairForkVersion :: u32
  AltairForkEpoch :: u64
  BellatrixForkVersion :: u32
  BellatrixForkEpoch :: u64
  CappellaForkVersion :: u32
  CappellaForkEpoch :: u64
  SecondsPerSlot :: int
  SlotsPerEpoch :: u64
  MaxCommitteesPerSlot :: u64

definition CheckMismatch :: "ChainSpec \<Rightarrow> ChainSpec \<Rightarrow> string list" where
  "CheckMismatch a b =
     map fst (filter snd
       [(''PresetBase'', PresetBase a \<noteq> PresetBase b), (''ConfigName'', ConfigName a \<noteq> ConfigName b),
        (''MinGenesisTime'', MinGenesisTime a \<noteq> MinGenesisTime b),
        (''GenesisForkVersion'', GenesisForkVersion a \<noteq> GenesisForkVersion b),
        (''AltairForkVersion'', AltairForkVersion a \<noteq> AltairForkVersion b),
        (''AltairForkEpoch'', AltairForkEpoch a \<noteq> AltairForkEpoch b),
        (''BellatrixForkVersion'', BellatrixForkVersion a \<noteq> BellatrixForkVersion b),
        (''BellatrixForkEpoch'', BellatrixForkEpoch a \<noteq> BellatrixForkEpoch b),
        (''CappellaForkVersion'', CappellaForkVersion a \<noteq> CappellaForkVersion b),
        (''CappellaForkEpoch'', CappellaForkEpoch a \<noteq> CappellaForkEpoch b),
        (''SecondsPerSlot'', SecondsPerSlot a \<noteq> SecondsPerSlot b),
        (''SlotsPerEpoch'', SlotsPerEpoch a \<noteq> SlotsPerEpoch b),
        (''MaxCommitteesPerSlot'', MaxCommitteesPerSlot a \<noteq> MaxCommitteesPerSlot b)])"

record Genesis =
  GenesisTime :: int
  GenesisValidatorsRoot :: root

text \<open>\<open>'v\<close> is the type of a validator set; \<open>cHasWallclock\<close> is \<open>cache.wallclock != nil\<close>.\<close>

record ('b, 'v) cl_cache = "'b cl_block block_cache" +
  cSpecs :: "ChainSpec option"
  cGenesis :: "Genesis option"
  cHasWallclock :: bool
  cFinalizedEpoch :: u64
  cFinalizedRoot :: root
  cValsetEpoch :: u64
  cValsetMap :: "'v option"
  cBlockDispatcher :: "nat Dispatcher"
  cCheckpointDispatcher :: "(u64 \<times> root) Dispatcher"

definition clNewBlockCache :: "u32 \<Rightarrow> string + ('b, 'v) cl_cache" where
  "clNewBlockCache distance =
     (if distance = 0 then Inl ''cannot initialize block cache without follow distance''
      else Inr \<lparr>followDistance = distance, blockStore = [], blockSlotMap = [], blockRootMap = [], maxSlotIdx = 0,
                cSpecs = None, cGenesis = None, cHasWallclock = False, cFinalizedEpoch = 0, cFinalizedRoot = 0,
                cValsetEpoch = 0, cValsetMap = None, cBlockDispatcher = newDispatcher,
                cCheckpointDispatcher = newDispatcher\<rparr>)"

definition SetMinFollowDistance :: "u64 \<Rightarrow> ('b, 'z) block_cache_scheme \<Rightarrow> ('b, 'z) block_cache_scheme" where
  "SetMinFollowDistance distance c =
     (let distance32 = (ucast (if distance > 10000 then 10000 else distance) :: u32)
      in if distance32 > followDistance c then c\<lparr>followDistance := distance32\<rparr> else c)"

definition SetGenesis :: "Genesis \<Rightarrow> ('b, 'v) cl_cache \<Rightarrow> go_error \<times> ('b, 'v) cl_cache" where
  "SetGenesis genesis c =
     (case cGenesis c of
        Some g \<Rightarrow>
          if GenesisTime g \<noteq> GenesisTime genesis then (Some ''genesis mismatch: GenesisTime'', c)
          else if GenesisValidatorsRoot g \<noteq> GenesisValidatorsRoot genesis
          then (Some ''genesis mismatch: GenesisValidatorsRoot'', c)
          else (None, c)
      | None \<Rightarrow> (None, c\<lparr>cGenesis := Some genesis\<rparr>))"

text \<open>The decoding of the specs by \<open>smapping\<close> is the argument \<open>decoded\<close>.\<close>

fun joinStrings :: "string \<Rightarrow> string list \<Rightarrow> string" where
  "joinStrings sep [] = []"
| "joinStrings sep [x] = x"
| "joinStrings sep (x # y # xs) = x @ sep @ joinStrings sep (y # xs)"

definition SetClientSpecs :: "(string + ChainSpec) \<Rightarrow> ('b, 'v) cl_cache \<Rightarrow> go_error \<times> ('b, 'v) cl_cache" where
  "SetClientSpecs decoded c =
     (case decoded of
        Inl e \<Rightarrow> (Some e, c)
      | Inr specs \<Rightarrow>
          let mismatches = (case cSpecs c of None \<Rightarrow> [] | Some old \<Rightarrow> CheckMismatch old specs)
          in if mismatches \<noteq> [] then (Some (''spec mismatch: '' @ joinStrings '', '' mismatches), c)
             else (None, c\<lparr>cSpecs := Some specs\<rparr>))"

definition InitWallclock :: "('b, 'v) cl_cache \<Rightarrow> ('b, 'v) cl_cache" where
  "InitWallclock c =
     (if cHasWallclock c then c
      else if cSpecs c = None \<or> cGenesis c = None then c
      else c\<lparr>cHasWallclock := True\<rparr>)"

definition SetFinalizedCheckpoint :: "u64 \<Rightarrow> root \<Rightarrow> ('b, 'v) cl_cache \<Rightarrow> ('b, 'v) cl_cache" where
  "SetFinalizedCheckpoint epoch root c =
     (if epoch \<le> cFinalizedEpoch c then c
      else c\<lparr>cFinalizedEpoch := epoch, cFinalizedRoot := root,
             cCheckpointDispatcher := Fire (epoch, root) (cCheckpointDispatcher c)\<rparr>)"

text \<open>\<open>now\<close> is the epoch of the wall clock, 0 without one or when it is not below \<open>MaxInt64\<close>.\<close>

definition wallclockEpoch :: "u64 \<Rightarrow> ('b, 'v) cl_cache \<Rightarrow> u64" where
  "wallclockEpoch now c = (if cHasWallclock c \<and> now < 2 ^ 63 - 1 then now else 0)"

definition getCachedValidatorSet :: "u64 \<Rightarrow> 'v option \<Rightarrow> ('b, 'v) cl_cache \<Rightarrow> 'v option \<times> ('b, 'v) cl_cache" where
  "getCachedValidatorSet now loaded c =
     (let epoch = wallclockEpoch now c;
          c' = (if cValsetMap c = None \<or> cValsetEpoch c < epoch
                then (case loaded of
                        None \<Rightarrow> c
                      | Some vals \<Rightarrow> c\<lparr>cValsetMap := Some vals, cValsetEpoch := epoch\<rparr>)
                else c)
      in (cValsetMap c', c'))"

definition cleanupValsetCache :: "u64 \<Rightarrow> ('b, 'v) cl_cache \<Rightarrow> ('b, 'v) cl_cache" where
  "cleanupValsetCache now c =
     (if cValsetMap c = None then c
      else if wallclockEpoch now c - cValsetEpoch c \<ge> 2 then c\<lparr>cValsetMap := None\<rparr> else c)"

definition clCleanup :: "u64 \<Rightarrow> ('b, 'v) cl_cache \<Rightarrow> ('b, 'v) cl_cache" where
  "clCleanup now c = cleanupValsetCache now (cleanupBlockCache clRoot c)"

definition clAddBlock :: "root \<Rightarrow> u64 \<Rightarrow> ('b, 'v) cl_cache \<Rightarrow> (nat option \<times> bool) \<times> ('b, 'v) cl_cache" where
  "clAddBlock = AddBlock clNewBlock"

definition clGetBlockDistance :: "('b, 'v) cl_cache \<Rightarrow> root \<Rightarrow> root \<Rightarrow> (bool \<times> u64) option" where
  "clGetBlockDistance = GetBlockDistance clSlot GetParentRoot"

definition clIsCanonicalBlock :: "('b, 'v) cl_cache \<Rightarrow> root \<Rightarrow> root \<Rightarrow> bool option" where
  "clIsCanonicalBlock = IsCanonicalBlock clSlot GetParentRoot"

interpretation cl_blocks: block_kind clNewBlock clRoot clSlot
  by unfold_locales (simp_all add: clNewBlock_def)

section \<open>Clients\<close>

datatype ClientStatus = ClientStatusOnline | ClientStatusOffline | ClientStatusSynchronizing | ClientStatusOptimistic

record cl_client =
  clientIdx :: u16
  endpointName :: string
  isOnline :: bool
  isSyncing :: bool
  isOptimistic :: bool
  versionStr :: string
  clientType :: int
  retryCounter :: u64
  lastError :: go_error
  headRoot :: root
  headSlot :: u64
  finalizedRoot :: root
  finalizedEpoch :: u64
  blockDispatcher :: "nat Dispatcher"
  checkpointDispatcher :: "(u64 \<times> root) Dispatcher"

definition newClient :: "u16 \<Rightarrow> string \<Rightarrow> cl_client" where
  "newClient idx name = \<lparr>clientIdx = idx, endpointName = name, isOnline = False, isSyncing = False, isOptimistic = False,
     versionStr = [], clientType = 0, retryCounter = 0, lastError = None, headRoot = 0, headSlot = 0, finalizedRoot = 0,
     finalizedEpoch = 0, blockDispatcher = newDispatcher, checkpointDispatcher = newDispatcher\<rparr>"

definition GetLastHead :: "cl_client \<Rightarrow> u64 \<times> root" where
  "GetLastHead c = (headSlot c, headRoot c)"

definition GetStatus :: "cl_client \<Rightarrow> ClientStatus" where
  "GetStatus c =
     (if isSyncing c then ClientStatusSynchronizing
      else if isOptimistic c then ClientStatusOptimistic
      else if isOnline c then ClientStatusOnline
      else ClientStatusOffline)"

text \<open>
  The type of a client, by the start of its version string up to the case of ASCII letters (\<open>(?i)^Name/.*\<close>); the
  patterns exclude each other, so the order in which Go visits them does not matter.
\<close>

definition toLower :: "char \<Rightarrow> char" where
  "toLower c = (let n = (of_char c :: nat) in if 65 \<le> n \<and> n \<le> 90 then char_of (n + 32) else c)"

definition hasPrefixFold :: "string \<Rightarrow> string \<Rightarrow> bool" where
  "hasPrefixFold p s \<longleftrightarrow> map toLower (take (length p) s) = p"

definition clientTypes :: "(string \<times> int) list" where
  "clientTypes = [(''lighthouse'', 1), (''lodestar'', 2), (''nimbus'', 3), (''prysm'', 4), (''teku'', 5), (''grandine'', 6),
     (''caplin'', 7)]"

definition UnknownClient :: int where "UnknownClient = -1"

definition parseClientVersion :: "string \<Rightarrow> int" where
  "parseClientVersion version =
     (case find (\<lambda>(name, t). hasPrefixFold (name @ ''/'') version) clientTypes of
        None \<Rightarrow> UnknownClient
      | Some (name, t) \<Rightarrow> t)"

definition ParseClientType :: "string \<Rightarrow> int" where
  "ParseClientType name = (case map_of clientTypes name of None \<Rightarrow> UnknownClient | Some t \<Rightarrow> t)"

definition showInt :: "int \<Rightarrow> string" where
  "showInt i = (if i < 0 then CHR ''-'' # showNat (nat (- i)) else showNat (nat i))"

definition ClientTypeString :: "int \<Rightarrow> string" where
  "ClientTypeString t =
     (case find (\<lambda>(name, t'). t' = t) clientTypes of
        None \<Rightarrow> ''unknown: '' @ showInt t
      | Some (name, t') \<Rightarrow> name)"

section \<open>The pool\<close>

record ('b, 'v) cl_pool =
  forkDistanceCfg :: u32
  clientCounter :: u16
  clients :: "cl_client list"
  blockCache :: "('b, 'v) cl_cache"
  forkCache :: "(u64 \<times> HeadFork list) list"
  rrLastIndexes :: "(int \<times> u16) list"

definition NewPool :: "u32 \<Rightarrow> u32 \<Rightarrow> string \<Rightarrow> string + ('b, 'v) cl_pool" where
  "NewPool followDist forkDist mode =
     (if mode = '''' \<or> mode = ''rr'' \<or> mode = ''roundrobin''
      then (case clNewBlockCache followDist of
              Inl e \<Rightarrow> Inl e
            | Inr cache \<Rightarrow> Inr \<lparr>forkDistanceCfg = forkDist, clientCounter = 0, clients = [], blockCache = cache,
                              forkCache = [], rrLastIndexes = []\<rparr>)
      else Inl (''unknown pool schedulerMode: '' @ mode))"

text \<open>\<open>rpc.NewBeaconClient\<close> may refuse the endpoint; the index is used up all the same.\<close>

definition AddEndpoint :: "(string + string) \<Rightarrow> ('b, 'v) cl_pool \<Rightarrow> (string + nat) \<times> ('b, 'v) cl_pool" where
  "AddEndpoint endpoint p =
     (let idx = clientCounter p; p1 = p\<lparr>clientCounter := idx + 1\<rparr>
      in case endpoint of
           Inl e \<Rightarrow> (Inl e, p1)
         | Inr name \<Rightarrow> (Inr (length (clients p)), p1\<lparr>clients := clients p @ [newClient idx name]\<rparr>))"

definition resetHeadForkCache :: "('b, 'v) cl_pool \<Rightarrow> ('b, 'v) cl_pool" where
  "resetHeadForkCache p = p\<lparr>forkCache := []\<rparr>"

definition GetHeadForks :: "u64 \<Rightarrow> ('b, 'v) cl_pool \<Rightarrow> (HeadFork list \<times> ('b, 'v) cl_pool) option" where
  "GetHeadForks distance p =
     (let forkDistance = (if distance <s 0 then ucast (forkDistanceCfg p) else distance)
      in case map_of (forkCache p) forkDistance of
           Some forks \<Rightarrow> Some (forks, p)
         | None \<Rightarrow>
             do {
               forks \<leftarrow> computeHeadForks (clGetBlockDistance (blockCache p)) (\<lambda>i. GetLastHead (clients p ! i))
                          (\<lambda>i. GetStatus (clients p ! i) = ClientStatusOnline) forkDistance [0..<length (clients p)];
               Some (forks, p\<lparr>forkCache := AList.update forkDistance forks (forkCache p)\<rparr>)
             })"

definition GetCanonicalFork :: "u64 \<Rightarrow> ('b, 'v) cl_pool \<Rightarrow> (HeadFork option \<times> ('b, 'v) cl_pool) option" where
  "GetCanonicalFork distance p =
     do {
       (forks, p1) \<leftarrow> GetHeadForks distance p;
       Some (case forks of [] \<Rightarrow> None | f # fs \<Rightarrow> Some f, p1)
     }"

definition GetReadyEndpoint :: "int \<Rightarrow> ('b, 'v) cl_pool \<Rightarrow> (nat option \<times> ('b, 'v) cl_pool) option" where
  "GetReadyEndpoint ctype p =
     do {
       (fork, p1) \<leftarrow> GetCanonicalFork (-1) p;
       case fork of
         None \<Rightarrow> Some (None, p1)
       | Some f \<Rightarrow>
           if ReadyClients f = [] then Some (None, p1)
           else
             let (c, rr) = runClientScheduler (\<lambda>i. clientIdx (clients p1 ! i)) (\<lambda>i. clientType (clients p1 ! i))
                             (ReadyClients f) ctype (rrLastIndexes p1)
             in Some (c, p1\<lparr>rrLastIndexes := rr\<rparr>)
     }"

definition IsClientReady :: "nat option \<Rightarrow> ('b, 'v) cl_pool \<Rightarrow> (bool \<times> ('b, 'v) cl_pool) option" where
  "IsClientReady client p =
     (case client of
        None \<Rightarrow> Some (False, p)
      | Some i \<Rightarrow>
          do {
            (fork, p1) \<leftarrow> GetCanonicalFork (-1) p;
            Some (case fork of None \<Rightarrow> False | Some f \<Rightarrow> i \<in> set (ReadyClients f), p1)
          })"

section \<open>What a client does\<close>

definition modClient :: "nat \<Rightarrow> (cl_client \<Rightarrow> cl_client) \<Rightarrow> ('b, 'v) cl_pool \<Rightarrow> ('b, 'v) cl_pool" where
  "modClient i f p = p\<lparr>clients := (clients p)[i := f (clients p ! i)]\<rparr>"

definition setBlock :: "nat \<Rightarrow> 'b cl_block \<Rightarrow> ('b, 'v) cl_cache \<Rightarrow> ('b, 'v) cl_cache" where
  "setBlock a b c = c\<lparr>blockStore := (blockStore c)[a := b]\<rparr>"

definition hexRoot :: "root \<Rightarrow> string" where
  "hexRoot r = map (\<lambda>k. ''0123456789abcdef'' ! unat (take_bit 4 (drop_bit (4 * k) r))) (rev [0..<64])"

definition processBlock ::
    "(root \<Rightarrow> string + root) \<Rightarrow> (root \<Rightarrow> string + 'b) \<Rightarrow> nat \<Rightarrow> root \<Rightarrow> u64 \<Rightarrow> root option \<Rightarrow> ('b, 'v) cl_pool \<Rightarrow>
     go_error \<times> ('b, 'v) cl_pool" where
  "processBlock getHeader getBlock i root slot header p =
     (case clAddBlock root slot (blockCache p) of
        ((None, isNew), c) \<Rightarrow>
          (Some (''could not add block to cache '' @ showNat (unat slot) @ '' [0x'' @ hexRoot root @ '']''), p\<lparr>blockCache := c\<rparr>)
      | ((Some a, isNew), c) \<Rightarrow>
          let b1 = clSetSeenBy (clientIdx (clients p ! i)) i (blockStore c ! a);
              (err1, b2) = EnsureHeader (case header of Some h \<Rightarrow> Inr h | None \<Rightarrow> getHeader root) b1
          in if err1 \<noteq> None then (err1, p\<lparr>blockCache := setBlock a b2 c\<rparr>)
             else
               let ((loaded, err2), b3) = clEnsureBlock (getBlock root) b2;
                   c1 = setBlock a b3 c
               in if err2 \<noteq> None then (err2, p\<lparr>blockCache := c1\<rparr>)
                  else
                    let c2 = (if loaded then c1\<lparr>cBlockDispatcher := Fire a (cBlockDispatcher c1)\<rparr> else c1);
                        p1 = p\<lparr>blockCache := c2\<rparr>
                    in if headRoot (clients p ! i) = root then (None, p1)
                       else (None, modClient i (\<lambda>cl. cl\<lparr>blockDispatcher := Fire a (blockDispatcher cl)\<rparr>)
                              (resetHeadForkCache (modClient i (\<lambda>cl. cl\<lparr>headSlot := slot, headRoot := root\<rparr>) p1))))"

definition setFinalizedHead :: "nat \<Rightarrow> u64 \<Rightarrow> root \<Rightarrow> ('b, 'v) cl_pool \<Rightarrow> ('b, 'v) cl_pool" where
  "setFinalizedHead i epoch root p =
     (if finalizedRoot (clients p ! i) = root then p
      else
        let p1 = modClient i (\<lambda>cl. cl\<lparr>finalizedEpoch := epoch, finalizedRoot := root\<rparr>) p;
            p2 = p1\<lparr>blockCache := SetFinalizedCheckpoint epoch root (blockCache p1)\<rparr>
        in modClient i (\<lambda>cl. cl\<lparr>checkpointDispatcher := Fire (epoch, root) (checkpointDispatcher cl)\<rparr>) p2)"

definition processBlockEvent ::
    "(root \<Rightarrow> string + root) \<Rightarrow> (root \<Rightarrow> string + 'b) \<Rightarrow> nat \<Rightarrow> root \<Rightarrow> u64 \<Rightarrow> ('b, 'v) cl_pool \<Rightarrow>
     go_error \<times> ('b, 'v) cl_pool" where
  "processBlockEvent getHeader getBlock i root slot p =
     (case processBlock getHeader getBlock i root slot None p of
        (Some e, p1) \<Rightarrow> (Some (''could not process block: '' @ e), p1)
      | (None, p1) \<Rightarrow> (None, resetHeadForkCache (modClient i (\<lambda>cl. cl\<lparr>headSlot := slot, headRoot := root\<rparr>) p1)))"

text \<open>The latest header has a root, a slot and a parent; None stands for an answer without one.\<close>

definition pollClientHead ::
    "(root \<Rightarrow> string + root) \<Rightarrow> (root \<Rightarrow> string + 'b) \<Rightarrow> (string + (root \<times> u64 \<times> root) option) \<Rightarrow> (string + u64 \<times> root) \<Rightarrow> nat \<Rightarrow>
     ('b, 'v) cl_pool \<Rightarrow> go_error \<times> ('b, 'v) cl_pool" where
  "pollClientHead getHeader getBlock latestHeader finality i p =
     (case latestHeader of
        Inl e \<Rightarrow> (Some (''could not get latest header: '' @ e), p)
      | Inr None \<Rightarrow> (Some ''could not find latest header'', p)
      | Inr (Some (root, slot, parent)) \<Rightarrow>
          (case processBlock getHeader getBlock i root slot (Some parent) p of
             (Some e, p1) \<Rightarrow> (Some (''could not get process block: '' @ e), p1)
           | (None, p1) \<Rightarrow>
               (case finality of
                  Inl e \<Rightarrow> (Some (''could not get finality checkpoint: '' @ e), p1)
                | Inr (epoch, froot) \<Rightarrow> (None, setFinalizedHead i epoch froot p1))))"

text \<open>The answers of the node to the calls of \<open>checkClient\<close>; the synchronization state may be missing.\<close>

record node_info =
  niInitialize :: go_error
  niVersion :: "string + string"
  niGenesis :: "string + Genesis"
  niSpecs :: "string + (string + ChainSpec)"
  niSyncing :: "string + (bool \<times> bool) option"

definition checkClient :: "node_info \<Rightarrow> nat \<Rightarrow> ('b, 'v) cl_pool \<Rightarrow> go_error \<times> ('b, 'v) cl_pool" where
  "checkClient node i p =
     (case niInitialize node of
        Some e \<Rightarrow> (Some (''initialization of attestantio/go-eth2-client failed: '' @ e), p)
      | None \<Rightarrow>
     (case niVersion node of
        Inl e \<Rightarrow> (Some (''error while fetching node version: '' @ e), p)
      | Inr version \<Rightarrow>
          let p1 = modClient i (\<lambda>cl. cl\<lparr>versionStr := version, clientType := parseClientVersion version\<rparr>) p
          in
     (case niGenesis node of
        Inl e \<Rightarrow> (Some (''error while fetching genesis: '' @ e), p1)
      | Inr genesis \<Rightarrow>
     (case SetGenesis genesis (blockCache p1) of
        (Some e, c) \<Rightarrow> (Some (''invalid genesis: '' @ e), p1\<lparr>blockCache := c\<rparr>)
      | (None, c) \<Rightarrow>
          let p2 = p1\<lparr>blockCache := c\<rparr>
          in
     (case niSpecs node of
        Inl e \<Rightarrow> (Some (''error while fetching specs: '' @ e), p2)
      | Inr specs \<Rightarrow>
     (case SetClientSpecs specs (blockCache p2) of
        (Some e, c) \<Rightarrow> (Some (''invalid node specs: '' @ e), p2\<lparr>blockCache := c\<rparr>)
      | (None, c) \<Rightarrow>
          let p3 = p2\<lparr>blockCache := InitWallclock c\<rparr>
          in
     (case niSyncing node of
        Inl e \<Rightarrow> (Some (''error while fetching synchronization status: '' @ e), p3)
      | Inr None \<Rightarrow> (Some ''could not get synchronization status'', p3)
      | Inr (Some (syncing, optimistic)) \<Rightarrow>
          (None, modClient i (\<lambda>cl. cl\<lparr>isSyncing := syncing, isOptimistic := optimistic\<rparr>) p3))))))))"

text \<open>
  The part of \<open>runClientLogic\<close> before its event loop, given the result of the first poll. Without
  specs it panics (None); they are set once \<open>checkClient\<close> has succeeded.
\<close>

definition headChecks :: "nat \<Rightarrow> ('b, 'v) cl_pool \<Rightarrow> go_error option" where
  "headChecks i p =
     (let cl = clients p ! i
      in if isSyncing cl then Some (Some ''beacon node is synchronizing'')
         else if isOptimistic cl then Some (Some ''beacon node is optimistic'')
         else do {
           specs \<leftarrow> cSpecs (blockCache p);
           let finalizedSlot = cFinalizedEpoch (blockCache p) * SlotsPerEpoch specs;
           Some (if headSlot cl < finalizedSlot
                 then Some (''beacon node is behind finalized checkpoint (node head: '' @ showNat (unat (headSlot cl)) @
                        '', finalized: '' @ showNat (unat finalizedSlot) @ '')'')
                 else None)
         })"

text \<open>One failed round of \<open>runClientLoop\<close>: the client goes offline and waits before the next try.\<close>

definition retryClient :: "string \<Rightarrow> nat \<Rightarrow> ('b, 'v) cl_pool \<Rightarrow> nat \<times> ('b, 'v) cl_pool" where
  "retryClient e i p =
     (let counter = retryCounter (clients p ! i) + 1;
          waitTime = (if counter > 10 then 300 else if counter > 5 then 60 else 10)
      in (waitTime, modClient i (\<lambda>cl. cl\<lparr>isOnline := False, lastError := Some e, retryCounter := counter\<rparr>) p))"

section \<open>The pool at work\<close>

text \<open>
  Clients come and go on and off line, receive blocks and checkpoints and poll their nodes in any
  order; the cache is cleaned up; users ask for forks and ready clients. Answers of nodes vary from
  step to step. The new head of a client and the reset of the fork cache that follows it are one step. Slots stay below \<open>2\<^sup>6\<^sup>3\<close>, as the code assumes where it converts them.
\<close>

inductive pool_step :: "('b, 'v) cl_pool \<Rightarrow> ('b, 'v) cl_pool \<Rightarrow> bool" where
  add_endpoint: "clientCounter p \<noteq> -1 \<Longrightarrow> pool_step p (snd (AddEndpoint endpoint p))"
| check_client: "i < length (clients p) \<Longrightarrow> pool_step p (snd (checkClient node i p))"
| block_event: "i < length (clients p) \<Longrightarrow> slot < 2 ^ 63 \<Longrightarrow>
     pool_step p (snd (processBlockEvent getHeader getBlock i root slot p))"
| finalized_event: "i < length (clients p) \<Longrightarrow> pool_step p (setFinalizedHead i epoch root p)"
| poll_head: "i < length (clients p) \<Longrightarrow> pred_option (\<lambda>(root, slot, parent). slot < 2 ^ 63) latest \<Longrightarrow>
     pool_step p (snd (pollClientHead getHeader getBlock (Inr latest) finality i p))"
| poll_failed: "i < length (clients p) \<Longrightarrow> pool_step p (snd (pollClientHead getHeader getBlock (Inl e) finality i p))"
| stream_ready: "i < length (clients p) \<Longrightarrow> pool_step p (modClient i (\<lambda>cl. cl\<lparr>isOnline := ready\<rparr>) p)"
| client_error: "i < length (clients p) \<Longrightarrow> pool_step p (snd (retryClient e i p))"
| client_ended: "i < length (clients p) \<Longrightarrow> pool_step p (modClient i (\<lambda>cl. cl\<lparr>retryCounter := 0\<rparr>) p)"
| cleanup: "pool_step p (p\<lparr>blockCache := clCleanup now (blockCache p)\<rparr>)"
| follow: "pool_step p (p\<lparr>blockCache := SetMinFollowDistance distance (blockCache p)\<rparr>)"
| valset: "pool_step p (p\<lparr>blockCache := snd (getCachedValidatorSet now loaded (blockCache p))\<rparr>)"
| head_forks: "GetHeadForks distance p = Some (forks, p') \<Longrightarrow> pool_step p p'"
| ready_endpoint: "GetReadyEndpoint ctype p = Some (c, p') \<Longrightarrow> pool_step p p'"
| client_ready: "IsClientReady client p = Some (b, p') \<Longrightarrow> pool_step p p'"

abbreviation pool_steps :: "('b, 'v) cl_pool \<Rightarrow> ('b, 'v) cl_pool \<Rightarrow> bool" where
  "pool_steps \<equiv> pool_step\<^sup>*\<^sup>*"

section \<open>The invariant of the pool\<close>

text \<open>
  The cache is consistent, client indices ascend, no client has seen a later finalized epoch than
  the cache, and every fork in the fork cache stands at the present head of one of its clients.
\<close>

definition pool_inv :: "('b, 'v) cl_pool \<Rightarrow> bool" where
  "pool_inv p \<longleftrightarrow>
     cache_inv clRoot clSlot (blockCache p) \<and>
     sorted_wrt (<) (map clientIdx (clients p)) \<and> (\<forall>cl \<in> set (clients p). clientIdx cl < clientCounter p) \<and>
     (\<forall>cl \<in> set (clients p). finalizedEpoch cl \<le> cFinalizedEpoch (blockCache p)) \<and>
     (\<forall>(d, forks) \<in> set (forkCache p). \<forall>f \<in> set forks.
        fork_shape (\<lambda>i. GetLastHead (clients p ! i)) {..<length (clients p)} f)"

lemma pool_invD:
  assumes "pool_inv p"
  shows "cache_inv clRoot clSlot (blockCache p)" and "sorted_wrt (<) (map clientIdx (clients p))"
    and "cl \<in> set (clients p) \<Longrightarrow> clientIdx cl < clientCounter p"
    and "cl \<in> set (clients p) \<Longrightarrow> finalizedEpoch cl \<le> cFinalizedEpoch (blockCache p)"
    and "(d, forks) \<in> set (forkCache p) \<Longrightarrow> f \<in> set forks \<Longrightarrow>
      fork_shape (\<lambda>i. GetLastHead (clients p ! i)) {..<length (clients p)} f"
  using assms unfolding pool_inv_def by auto

lemma fork_shape_cong:
  "(\<And>i. i \<in> A \<Longrightarrow> h i = h' i) \<Longrightarrow> A \<subseteq> B \<Longrightarrow> fork_shape h A f \<Longrightarrow> fork_shape h' B f"
  unfolding fork_shape_def by (metis subset_trans subsetD)

text \<open>Changing the cache alone.\<close>

lemma pool_inv_cache:
  assumes "pool_inv p" and "cache_inv clRoot clSlot c" and "cFinalizedEpoch (blockCache p) \<le> cFinalizedEpoch c"
  shows "pool_inv (p\<lparr>blockCache := c\<rparr>)"
  using assms unfolding pool_inv_def by (auto intro: order_trans)

text \<open>Changing a client but for its index; a new head goes with an empty fork cache.\<close>

lemma pool_inv_client:
  assumes inv: "pool_inv p" and i: "i < length (clients p)" and "clientIdx (f (clients p ! i)) = clientIdx (clients p ! i)"
    and "finalizedEpoch (f (clients p ! i)) \<le> cFinalizedEpoch (blockCache p)"
    and "GetLastHead (f (clients p ! i)) = GetLastHead (clients p ! i) \<or> forkCache p = []"
  shows "pool_inv (modClient i f p)"
proof -
  let ?cs = "(clients p)[i := f (clients p ! i)]"
  have "map clientIdx ?cs = map clientIdx (clients p)"
    using i assms(3) by (simp add: map_update list_update_same_conv)
  moreover have "clientIdx cl < clientCounter p \<and> finalizedEpoch cl \<le> cFinalizedEpoch (blockCache p)" if "cl \<in> set ?cs" for cl
  proof -
    have "cl = f (clients p ! i) \<or> cl \<in> set (clients p)" using that set_update_subset_insert by fast
    then show ?thesis using pool_invD(3,4) [OF inv] assms(3,4) i by (auto simp: nth_mem)
  qed
  moreover have "fork_shape (\<lambda>j. GetLastHead (?cs ! j)) {..<length ?cs} g"
    if "(d, forks) \<in> set (forkCache p)" "g \<in> set forks" for d forks g
  proof (rule fork_shape_cong [OF _ _ pool_invD(5) [OF inv that]])
    show "GetLastHead (clients p ! j) = GetLastHead (?cs ! j)" for j
      using assms(5) that i by (cases "i = j") auto
  qed simp
  ultimately show ?thesis using pool_invD(1,2) [OF inv] unfolding pool_inv_def modClient_def by auto
qed

lemma modClient_simps [simp]:
  "length (clients (modClient i f p)) = length (clients p)" "blockCache (modClient i f p) = blockCache p"
  "forkCache (modClient i f p) = forkCache p" "rrLastIndexes (modClient i f p) = rrLastIndexes p"
  "i < length (clients p) \<Longrightarrow> clients (modClient i f p) ! i = f (clients p ! i)"
  by (simp_all add: modClient_def)

lemma resetHeadForkCache_simps [simp]:
  "clients (resetHeadForkCache p) = clients p" "blockCache (resetHeadForkCache p) = blockCache p"
  "forkCache (resetHeadForkCache p) = []"
  by (simp_all add: resetHeadForkCache_def)

lemma pool_inv_reset: "pool_inv p \<Longrightarrow> pool_inv (resetHeadForkCache p)"
  by (simp add: pool_inv_def resetHeadForkCache_def)

text \<open>Setting a head and emptying the fork cache, in either order.\<close>

lemma pool_inv_setHead:
  assumes "pool_inv p" and "i < length (clients p)"
  shows "pool_inv (resetHeadForkCache (modClient i (\<lambda>cl. cl\<lparr>headSlot := slot, headRoot := root\<rparr>) p))"
proof -
  have "pool_inv (modClient i (\<lambda>cl. cl\<lparr>headSlot := slot, headRoot := root\<rparr>) (resetHeadForkCache p))"
    using assms pool_invD(4) [OF assms(1)] by (intro pool_inv_client pool_inv_reset) (auto simp: nth_mem)
  then show ?thesis by (simp add: pool_inv_def resetHeadForkCache_def modClient_def)
qed

lemma clAddBlock_inv:
  assumes "cache_inv clRoot clSlot c" and "slot < 2 ^ 63" and "clAddBlock root slot c = (res, c')"
  shows "cache_inv clRoot clSlot c'" and "cFinalizedEpoch c' = cFinalizedEpoch c"
proof -
  show "cache_inv clRoot clSlot c'"
    using cl_blocks.cache_inv_AddBlock [OF assms(1,2)] assms(3) unfolding clAddBlock_def by blast
  show "cFinalizedEpoch c' = cFinalizedEpoch c"
    using assms(3) by (auto simp: clAddBlock_def AddBlock_def Let_def split: option.splits if_splits)
qed

lemma block_writes [simp]:
  "clRoot (clSetSeenBy idx cl b) = clRoot b" "clSlot (clSetSeenBy idx cl b) = clSlot b"
  "EnsureHeader h b = (e, b') \<Longrightarrow> clRoot b' = clRoot b" "EnsureHeader h b = (e, b') \<Longrightarrow> clSlot b' = clSlot b"
  "clEnsureBlock l b = (e2, b') \<Longrightarrow> clRoot b' = clRoot b" "clEnsureBlock l b = (e2, b') \<Longrightarrow> clSlot b' = clSlot b"
  by (auto simp: clSetSeenBy_def EnsureHeader_def clEnsureBlock_def split: if_splits sum.splits)

lemma setBlock_inv:
  assumes "cache_inv clRoot clSlot c" and "clRoot b = clRoot (blockStore c ! a)" and "clSlot b = clSlot (blockStore c ! a)"
  shows "cache_inv clRoot clSlot (setBlock a b c)" and "cFinalizedEpoch (setBlock a b c) = cFinalizedEpoch c"
  using cache_inv_write [OF assms] by (simp_all add: setBlock_def)

lemma cache_inv_dispatcher:
  "cache_inv clRoot clSlot c \<Longrightarrow> cache_inv clRoot clSlot (c\<lparr>cBlockDispatcher := d\<rparr>)"
  by (subst cache_inv_frame [of _ c]) simp_all

text \<open>
  The outcomes of \<open>processBlock\<close>: the cache stays consistent and keeps the finalized epoch; with an
  error nothing else changes, without one the head of the client is the block.
\<close>

lemma processBlock_cases:
  assumes inv: "cache_inv clRoot clSlot (blockCache p)" and "slot < 2 ^ 63"
    and "processBlock getHeader getBlock i root slot header p = (err, p')"
  obtains c where "cache_inv clRoot clSlot c" "cFinalizedEpoch c = cFinalizedEpoch (blockCache p)"
    "p' = p\<lparr>blockCache := c\<rparr>" "err = None \<Longrightarrow> headRoot (clients p ! i) = root"
  | c a where "cache_inv clRoot clSlot c" "cFinalizedEpoch c = cFinalizedEpoch (blockCache p)" "err = None"
    "p' = modClient i (\<lambda>cl. cl\<lparr>blockDispatcher := Fire a (blockDispatcher cl)\<rparr>)
       (resetHeadForkCache (modClient i (\<lambda>cl. cl\<lparr>headSlot := slot, headRoot := root\<rparr>) (p\<lparr>blockCache := c\<rparr>)))"
proof -
  obtain ra isNew c where add: "clAddBlock root slot (blockCache p) = ((ra, isNew), c)"
    by (metis prod.collapse)
  note c = clAddBlock_inv [OF inv assms(2) add]
  show thesis
  proof (cases ra)
    case None
    then show thesis using that(1) [of c] c assms(3) add by (auto simp: processBlock_def)
  next
    case (Some a)
    obtain err1 b2 where b2: "EnsureHeader (case header of Some h \<Rightarrow> Inr h | None \<Rightarrow> getHeader root)
        (clSetSeenBy (clientIdx (clients p ! i)) i (blockStore c ! a)) = (err1, b2)" by fastforce
    obtain loaded err2 b3 where b3: "clEnsureBlock (getBlock root) b2 = ((loaded, err2), b3)"
      by (metis prod.collapse)
    note keeps = block_writes(3,4) [OF b2] block_writes(5,6) [OF b3] block_writes(1,2)
    have c2: "cache_inv clRoot clSlot (setBlock a b2 c)" "cFinalizedEpoch (setBlock a b2 c) = cFinalizedEpoch c"
      by (rule setBlock_inv; simp add: c keeps)+
    have c3: "cache_inv clRoot clSlot (setBlock a b3 c)" "cFinalizedEpoch (setBlock a b3 c) = cFinalizedEpoch c"
      by (rule setBlock_inv; simp add: c keeps)+
    let ?c = "if loaded then (setBlock a b3 c)\<lparr>cBlockDispatcher := Fire a (cBlockDispatcher (setBlock a b3 c))\<rparr> else setBlock a b3 c"
    have c4: "cache_inv clRoot clSlot ?c" "cFinalizedEpoch ?c = cFinalizedEpoch (blockCache p)"
      using c3 c(2) cache_inv_dispatcher by auto
    note res = assms(3) [unfolded processBlock_def add Some, simplified b2 b3 Let_def prod.case option.case]
    show thesis
    proof (cases "err1 \<noteq> None")
      case True
      then show thesis using res that(1) [of "setBlock a b2 c"] c2 c(2) by (auto split: if_splits)
    next
      case err1: False
      show thesis
      proof (cases "err2 \<noteq> None")
        case True
        then show thesis using res err1 that(1) [of "setBlock a b3 c"] c3 c(2) by (auto split: if_splits)
      next
        case err2: False
        show thesis
        proof (cases "headRoot (clients p ! i) = root")
          case True
          then show thesis using res err1 err2 that(1) [of ?c] c4 by auto
        next
          case False
          then show thesis using res err1 err2 that(2) [of ?c a] c4 by auto
        qed
      qed
    qed
  qed
qed

lemma pool_inv_processBlock:
  assumes inv: "pool_inv p" and i: "i < length (clients p)" and "slot < 2 ^ 63"
    and "processBlock getHeader getBlock i root slot header p = (err, p')"
  shows "pool_inv p'" and "length (clients p') = length (clients p)"
    and "cFinalizedEpoch (blockCache p') = cFinalizedEpoch (blockCache p)" and "err = None \<Longrightarrow> headRoot (clients p' ! i) = root"
proof -
  have "pool_inv p' \<and> length (clients p') = length (clients p) \<and>
    cFinalizedEpoch (blockCache p') = cFinalizedEpoch (blockCache p) \<and> (err = None \<longrightarrow> headRoot (clients p' ! i) = root)"
    using pool_invD(1) [OF inv] assms(3,4)
  proof (cases rule: processBlock_cases)
    case (1 c)
    then show ?thesis using pool_inv_cache [OF inv 1(1)] by auto
  next
    case (2 c a)
    let ?p = "resetHeadForkCache (modClient i (\<lambda>cl. cl\<lparr>headSlot := slot, headRoot := root\<rparr>) (p\<lparr>blockCache := c\<rparr>))"
    have "pool_inv ?p" using pool_inv_cache [OF inv 2(1)] 2(2) i by (intro pool_inv_setHead) auto
    moreover have "finalizedEpoch (clients ?p ! i) \<le> cFinalizedEpoch (blockCache ?p)"
      using pool_invD(4) [OF inv, of "clients p ! i"] i 2(2) by simp
    ultimately have "pool_inv p'" unfolding 2(4) using i by (intro pool_inv_client) (auto simp: GetLastHead_def)
    then show ?thesis using 2 i by auto
  qed
  then show "pool_inv p'" "length (clients p') = length (clients p)"
    "cFinalizedEpoch (blockCache p') = cFinalizedEpoch (blockCache p)" "err = None \<Longrightarrow> headRoot (clients p' ! i) = root" by auto
qed

lemma pool_inv_setFinalizedHead:
  assumes inv: "pool_inv p" and i: "i < length (clients p)"
  shows "pool_inv (setFinalizedHead i epoch root p)"
    and "cFinalizedEpoch (blockCache p) \<le> cFinalizedEpoch (blockCache (setFinalizedHead i epoch root p))"
proof -
  let ?c = "SetFinalizedCheckpoint epoch root (blockCache p)"
  have c: "cache_inv clRoot clSlot ?c" "cFinalizedEpoch (blockCache p) \<le> cFinalizedEpoch ?c" "epoch \<le> cFinalizedEpoch ?c"
    using pool_invD(1) [OF inv]
    by (auto simp: SetFinalizedCheckpoint_def cache_inv_frame [of "blockCache p\<lparr>cFinalizedEpoch := epoch, cFinalizedRoot := root,
      cCheckpointDispatcher := d\<rparr>" "blockCache p" for d])
  let ?p1 = "modClient i (\<lambda>cl. cl\<lparr>finalizedEpoch := epoch, finalizedRoot := root\<rparr>) (p\<lparr>blockCache := ?c\<rparr>)"
  have "pool_inv ?p1"
    using pool_inv_cache [OF inv c(1,2)] c(3) i by (intro pool_inv_client) (auto simp: GetLastHead_def)
  then have "pool_inv (modClient i (\<lambda>cl. cl\<lparr>checkpointDispatcher := Fire (epoch, root) (checkpointDispatcher cl)\<rparr>) ?p1)"
    by (rule pool_inv_client) (use i c(3) in \<open>auto simp: GetLastHead_def\<close>)
  then show "pool_inv (setFinalizedHead i epoch root p)"
    using inv by (simp add: setFinalizedHead_def Let_def modClient_def)
  show "cFinalizedEpoch (blockCache p) \<le> cFinalizedEpoch (blockCache (setFinalizedHead i epoch root p))"
    using c(2) by (simp add: setFinalizedHead_def Let_def)
qed

lemma pool_inv_GetHeadForks:
  assumes inv: "pool_inv p" and "GetHeadForks distance p = Some (forks, p')"
  shows "pool_inv p'" and "clients p' = clients p" and "blockCache p' = blockCache p" and "rrLastIndexes p' = rrLastIndexes p"
    and "f \<in> set forks \<Longrightarrow> fork_shape (\<lambda>i. GetLastHead (clients p ! i)) {..<length (clients p)} f"
proof -
  let ?d = "if distance <s 0 then ucast (forkDistanceCfg p) else distance"
  have shape: "fork_shape (\<lambda>i. GetLastHead (clients p ! i)) {..<length (clients p)} f"
    if "computeHeadForks (clGetBlockDistance (blockCache p)) (\<lambda>i. GetLastHead (clients p ! i))
          (\<lambda>i. GetStatus (clients p ! i) = ClientStatusOnline) ?d [0..<length (clients p)] = Some fs" "f \<in> set fs" for fs f
    using computeHeadForks_shape [OF that(1) _ that(2)] by (simp add: atLeast0LessThan sorted_wrt_upt)
  show "clients p' = clients p" "blockCache p' = blockCache p" "rrLastIndexes p' = rrLastIndexes p"
    using assms(2) by (auto simp: GetHeadForks_def Let_def split: option.splits bind_splits)
  show "fork_shape (\<lambda>i. GetLastHead (clients p ! i)) {..<length (clients p)} f" if "f \<in> set forks"
    using assms(2) that shape pool_invD(5) [OF inv]
    by (auto simp: GetHeadForks_def Let_def split: option.splits bind_splits dest: map_of_SomeD)
  show "pool_inv p'"
  proof (cases "p' = p")
    case False
    then have p': "p' = p\<lparr>forkCache := AList.update ?d forks (forkCache p)\<rparr>" "f \<in> set forks \<Longrightarrow>
      fork_shape (\<lambda>i. GetLastHead (clients p ! i)) {..<length (clients p)} f" for f
      using assms(2) shape by (auto simp: GetHeadForks_def Let_def split: option.splits bind_splits)
    have "(d, fs) = (?d, forks) \<or> (d, fs) \<in> set (forkCache p)" if "(d, fs) \<in> set (AList.update ?d forks (forkCache p))" for d fs
      using in_AList_update [OF that] .
    then show ?thesis using inv p' unfolding pool_inv_def by fastforce
  qed (use inv in simp)
qed

lemma pool_inv_checkClient:
  assumes inv: "pool_inv p" and i: "i < length (clients p)"
  shows "pool_inv (snd (checkClient node i p))"
    and "cFinalizedEpoch (blockCache (snd (checkClient node i p))) = cFinalizedEpoch (blockCache p)"
proof -
  have fin: "finalizedEpoch (clients p ! i) \<le> cFinalizedEpoch (blockCache p)"
    using pool_invD(4) [OF inv] i by (simp add: nth_mem)
  have step: "pool_inv ((modClient i (\<lambda>cl. cl\<lparr>versionStr := v, clientType := t\<rparr>) p)\<lparr>blockCache := c\<rparr>)"
    if "cache_inv clRoot clSlot c" "cFinalizedEpoch c = cFinalizedEpoch (blockCache p)" for v t c
  proof (rule pool_inv_cache [OF pool_inv_client [OF inv i]])
  qed (use that fin in \<open>auto simp: GetLastHead_def\<close>)
  have sync: "pool_inv (modClient i (\<lambda>cl. cl\<lparr>isSyncing := a, isOptimistic := b\<rparr>)
      ((modClient i (\<lambda>cl. cl\<lparr>versionStr := v, clientType := t\<rparr>) p)\<lparr>blockCache := c\<rparr>))"
    if "cache_inv clRoot clSlot c" "cFinalizedEpoch c = cFinalizedEpoch (blockCache p)" for v t c a b
    by (rule pool_inv_client [OF step [OF that]]) (use i fin that(2) in \<open>auto simp: GetLastHead_def\<close>)
  have ver: "pool_inv (modClient i (\<lambda>cl. cl\<lparr>versionStr := v, clientType := t\<rparr>) p)" for v t
    using step [of "blockCache p"] pool_invD(1) [OF inv] by (simp add: modClient_def)
  note ci = pool_invD(1) [OF inv]
  have gen: "cache_inv clRoot clSlot c" "cFinalizedEpoch c = cFinalizedEpoch (blockCache p)"
    if "SetGenesis g (blockCache p) = (e, c)" for g e c
    using that ci by (auto simp: SetGenesis_def cache_inv_frame [of "blockCache p\<lparr>cGenesis := x\<rparr>" "blockCache p" for x]
      split: option.splits if_splits)
  have spec: "cache_inv clRoot clSlot c2 \<and> cache_inv clRoot clSlot (InitWallclock c2)"
    "cFinalizedEpoch c2 = cFinalizedEpoch c" "cFinalizedEpoch (InitWallclock c2) = cFinalizedEpoch c"
    if "SetClientSpecs s c = (e, c2)" "cache_inv clRoot clSlot c" for s e and c c2 :: "('a, 'b) cl_cache"
  proof -
    have 2: "cache_inv clRoot clSlot c2" "cFinalizedEpoch c2 = cFinalizedEpoch c"
      using that by (auto simp: SetClientSpecs_def Let_def cache_inv_frame [of "c\<lparr>cSpecs := x\<rparr>" c for x]
        split: sum.splits option.splits if_splits)
    then show "cache_inv clRoot clSlot c2 \<and> cache_inv clRoot clSlot (InitWallclock c2)"
      "cFinalizedEpoch c2 = cFinalizedEpoch c" "cFinalizedEpoch (InitWallclock c2) = cFinalizedEpoch c"
      by (auto simp: InitWallclock_def cache_inv_frame [of "c2\<lparr>cHasWallclock := x\<rparr>" c2 for x])
  qed
  show "pool_inv (snd (checkClient node i p))"
    using inv ver step sync gen spec
    by (auto simp: checkClient_def Let_def split: option.splits sum.splits prod.splits)
  show "cFinalizedEpoch (blockCache (snd (checkClient node i p))) = cFinalizedEpoch (blockCache p)"
    using gen spec by (auto simp: checkClient_def Let_def split: option.splits sum.splits prod.splits)
qed

lemma pool_inv_events:
  assumes inv: "pool_inv p" and i: "i < length (clients p)"
  shows "slot < 2 ^ 63 \<Longrightarrow> pool_inv (snd (processBlockEvent getHeader getBlock i root slot p)) \<and>
      cFinalizedEpoch (blockCache (snd (processBlockEvent getHeader getBlock i root slot p))) = cFinalizedEpoch (blockCache p)"
    and "(\<forall>root slot parent. latest = Inr (Some (root, slot, parent)) \<longrightarrow> slot < 2 ^ 63) \<Longrightarrow>
      pool_inv (snd (pollClientHead getHeader getBlock latest finality i p)) \<and>
      cFinalizedEpoch (blockCache p) \<le> cFinalizedEpoch (blockCache (snd (pollClientHead getHeader getBlock latest finality i p)))"
proof -
  assume slot: "slot < 2 ^ 63"
  obtain err p1 where p1: "processBlock getHeader getBlock i root slot None p = (err, p1)" by fastforce
  note keep = pool_inv_processBlock [OF inv i slot p1]
  then show "pool_inv (snd (processBlockEvent getHeader getBlock i root slot p)) \<and>
      cFinalizedEpoch (blockCache (snd (processBlockEvent getHeader getBlock i root slot p))) = cFinalizedEpoch (blockCache p)"
    using p1 i pool_inv_setHead [OF keep(1)] by (auto simp: processBlockEvent_def split: option.splits)
next
  assume slots: "\<forall>root slot parent. latest = Inr (Some (root, slot, parent)) \<longrightarrow> slot < 2 ^ 63"
  show "pool_inv (snd (pollClientHead getHeader getBlock latest finality i p)) \<and>
      cFinalizedEpoch (blockCache p) \<le> cFinalizedEpoch (blockCache (snd (pollClientHead getHeader getBlock latest finality i p)))"
  proof (cases "\<exists>root slot parent. latest = Inr (Some (root, slot, parent))")
    case True
    then obtain root slot parent where l: "latest = Inr (Some (root, slot, parent))" by blast
    obtain err p1 where p1: "processBlock getHeader getBlock i root slot (Some parent) p = (err, p1)" by fastforce
    note keep = pool_inv_processBlock [OF inv i _ p1] 
    have "pool_inv p1" "i < length (clients p1)" "cFinalizedEpoch (blockCache p1) = cFinalizedEpoch (blockCache p)"
      using keep slots l i by auto
    then show ?thesis using l p1 pool_inv_setFinalizedHead [of p1 i]
      by (auto simp: pollClientHead_def split: option.splits sum.splits)
  next
    case False
    then show ?thesis using inv by (auto simp: pollClientHead_def split: sum.splits option.splits)
  qed
qed

lemma cache_steps_inv:
  assumes "cache_inv clRoot clSlot c"
  shows "cache_inv clRoot clSlot (clCleanup now c)" and "cFinalizedEpoch (clCleanup now c) = cFinalizedEpoch c"
    and "cache_inv clRoot clSlot (SetMinFollowDistance distance c)" and "cFinalizedEpoch (SetMinFollowDistance distance c) = cFinalizedEpoch c"
    and "cache_inv clRoot clSlot (snd (getCachedValidatorSet now loaded c))"
    and "cFinalizedEpoch (snd (getCachedValidatorSet now loaded c)) = cFinalizedEpoch c"
proof -
  let ?c = "cleanupBlockCache clRoot c"
  have c: "cache_inv clRoot clSlot ?c" by (rule cache_inv_cleanup [OF assms])
  obtain rm sm where eq: "?c = c\<lparr>blockRootMap := rm, blockSlotMap := sm\<rparr>" using cleanup_effect(3) [OF assms] by blast
  show "cache_inv clRoot clSlot (clCleanup now c)"
    using c by (simp add: clCleanup_def cleanupValsetCache_def cache_inv_frame [of "?c\<lparr>cValsetMap := None\<rparr>" ?c])
  show "cFinalizedEpoch (clCleanup now c) = cFinalizedEpoch c"
    by (simp add: clCleanup_def cleanupValsetCache_def eq)
  show "cache_inv clRoot clSlot (SetMinFollowDistance distance c)" "cFinalizedEpoch (SetMinFollowDistance distance c) = cFinalizedEpoch c"
    using assms by (simp_all add: SetMinFollowDistance_def Let_def cache_inv_frame [of "c\<lparr>followDistance := x\<rparr>" c for x])
  show "cache_inv clRoot clSlot (snd (getCachedValidatorSet now loaded c))"
    "cFinalizedEpoch (snd (getCachedValidatorSet now loaded c)) = cFinalizedEpoch c"
    using assms by (auto simp: getCachedValidatorSet_def Let_def cache_inv_frame [of "c\<lparr>cValsetMap := x, cValsetEpoch := y\<rparr>" c for x y]
      split: option.splits)
qed

lemma pool_inv_rr: "pool_inv (p\<lparr>rrLastIndexes := rr\<rparr>) = pool_inv p"
  by (simp add: pool_inv_def)

lemma GetCanonicalFork_parts:
  assumes "GetCanonicalFork distance p = Some (fork, p')"
  obtains forks where "GetHeadForks distance p = Some (forks, p')" "fork = (case forks of [] \<Rightarrow> None | f # fs \<Rightarrow> Some f)"
  using assms by (auto simp: GetCanonicalFork_def split: bind_splits)

lemma GetReadyEndpoint_parts:
  assumes "GetReadyEndpoint ctype p = Some (c, p')"
  obtains fork p1 rr where "GetCanonicalFork (-1) p = Some (fork, p1)" "p' = p1\<lparr>rrLastIndexes := rr\<rparr>"
proof -
  obtain fork p1 where p1: "GetCanonicalFork (-1) p = Some (fork, p1)"
    using assms by (auto simp: GetReadyEndpoint_def split: bind_splits)
  moreover have "\<exists>rr. p' = p1\<lparr>rrLastIndexes := rr\<rparr>"
    using assms p1 by (auto simp: GetReadyEndpoint_def Let_def split: option.splits if_splits prod.splits)
      (metis cl_pool.surjective cl_pool.update_convs(6))+
  ultimately show thesis using that by blast
qed

lemma pool_inv_forkUsers:
  assumes inv: "pool_inv p"
  shows "GetCanonicalFork distance p = Some (fork, p') \<Longrightarrow> pool_inv p' \<and> blockCache p' = blockCache p"
    and "GetReadyEndpoint ctype p = Some (c, p') \<Longrightarrow> pool_inv p' \<and> blockCache p' = blockCache p"
    and "IsClientReady client p = Some (b, p') \<Longrightarrow> pool_inv p' \<and> blockCache p' = blockCache p"
proof -
  show canonical: "pool_inv p' \<and> blockCache p' = blockCache p" if "GetCanonicalFork distance p = Some (fork, p')" for distance fork p'
    using that pool_inv_GetHeadForks(1,3) [OF inv] by (metis GetCanonicalFork_parts)
  show "pool_inv p' \<and> blockCache p' = blockCache p" if "GetReadyEndpoint ctype p = Some (c, p')"
    using that
  proof (rule GetReadyEndpoint_parts)
    fix fork p1 rr
    assume "GetCanonicalFork (-1) p = Some (fork, p1)" "p' = p1\<lparr>rrLastIndexes := rr\<rparr>"
    then show ?thesis using canonical by (auto simp: pool_inv_rr)
  qed
  show "pool_inv p' \<and> blockCache p' = blockCache p" if "IsClientReady client p = Some (b, p')"
    using that inv canonical by (auto simp: IsClientReady_def split: option.splits bind_splits)
qed

lemma pool_inv_AddEndpoint:
  assumes inv: "pool_inv p" and max: "clientCounter p \<noteq> -1"
  shows "pool_inv (snd (AddEndpoint endpoint p)) \<and> blockCache (snd (AddEndpoint endpoint p)) = blockCache p"
proof -
  have lt: "clientCounter p < clientCounter p + 1"
    using max by (metis inc_less_eq_triv_imp linorder_less_linear word_le_less_eq)
  have idx: "clientIdx cl < clientCounter p + 1" if "cl \<in> set (clients p)" for cl
    using pool_invD(3) [OF inv that] lt by (rule less_trans)
  show ?thesis
  proof (cases endpoint)
    case (Inl e)
    then show ?thesis using inv idx by (auto simp: pool_inv_def AddEndpoint_def Let_def)
  next
    case (Inr name)
    let ?cs = "clients p @ [newClient (clientCounter p) name]"
    have "fork_shape (\<lambda>j. GetLastHead (?cs ! j)) {..<length ?cs} g"
      if "(d, forks) \<in> set (forkCache p)" "g \<in> set forks" for d forks g
      by (rule fork_shape_cong [OF _ _ pool_invD(5) [OF inv that]]) (auto simp: nth_append)
    then show ?thesis using Inr inv idx lt pool_invD(3) [OF inv]
      unfolding pool_inv_def by (auto simp: AddEndpoint_def Let_def newClient_def sorted_wrt_append)
  qed
qed

lemma pool_inv_step:
  assumes "pool_step p p'" and inv: "pool_inv p"
  shows "pool_inv p' \<and> cFinalizedEpoch (blockCache p) \<le> cFinalizedEpoch (blockCache p')"
  using assms(1)
proof cases
  case (add_endpoint endpoint)
  then show ?thesis using pool_inv_AddEndpoint [OF inv] by auto
next
  case (check_client i node)
  then show ?thesis using pool_inv_checkClient [OF inv] by auto
next
  case (block_event i slot getHeader getBlock root)
  then show ?thesis using pool_inv_events(1) [OF inv] by auto
next
  case (finalized_event i epoch root)
  then show ?thesis using pool_inv_setFinalizedHead [OF inv] by auto
next
  case (poll_head i latest getHeader getBlock finality)
  have "\<forall>root slot parent. (Inr latest :: string + (root \<times> u64 \<times> root) option) = Inr (Some (root, slot, parent)) \<longrightarrow> slot < 2 ^ 63"
    using poll_head(3) by auto
  then show ?thesis using pool_inv_events(2) [OF inv poll_head(2)] poll_head(1) by blast
next
  case (poll_failed i getHeader getBlock e finality)
  then show ?thesis using inv by (simp add: pollClientHead_def)
next
  case (stream_ready i ready)
  have "pool_inv p'" unfolding stream_ready(1)
    by (rule pool_inv_client [OF inv stream_ready(2)]) (use stream_ready(2) pool_invD(4) [OF inv] in \<open>auto simp: GetLastHead_def nth_mem\<close>)
  then show ?thesis using stream_ready by simp
next
  case (client_error i e)
  have "pool_inv p'" unfolding client_error(1) retryClient_def Let_def snd_conv
    by (rule pool_inv_client [OF inv client_error(2)]) (use client_error(2) pool_invD(4) [OF inv] in \<open>auto simp: GetLastHead_def nth_mem\<close>)
  then show ?thesis using client_error by (simp add: retryClient_def Let_def)
next
  case (client_ended i)
  have "pool_inv p'" unfolding client_ended(1)
    by (rule pool_inv_client [OF inv client_ended(2)]) (use client_ended(2) pool_invD(4) [OF inv] in \<open>auto simp: GetLastHead_def nth_mem\<close>)
  then show ?thesis using client_ended by simp
next
  case (cleanup now)
  then show ?thesis using pool_inv_cache [OF inv] cache_steps_inv(1,2) [OF pool_invD(1) [OF inv]] by simp
next
  case (follow distance)
  then show ?thesis using pool_inv_cache [OF inv] cache_steps_inv(3,4) [OF pool_invD(1) [OF inv]] by simp
next
  case (valset now loaded)
  then show ?thesis using pool_inv_cache [OF inv] cache_steps_inv(5,6) [OF pool_invD(1) [OF inv]] by simp
next
  case (head_forks distance forks)
  then show ?thesis using pool_inv_GetHeadForks(1,3) [OF inv head_forks] by simp
next
  case (ready_endpoint ctype c)
  then show ?thesis using pool_inv_forkUsers(2) [OF inv] by auto
next
  case (client_ready client b)
  then show ?thesis using pool_inv_forkUsers(3) [OF inv] by auto
qed

lemma pool_inv_NewPool: "NewPool followDist forkDist mode = Inr p \<Longrightarrow> pool_inv p"
  by (auto simp: NewPool_def clNewBlockCache_def pool_inv_def cache_inv_def split: if_splits)

lemma pool_inv_steps:
  "pool_steps p p' \<Longrightarrow> pool_inv p \<Longrightarrow> pool_inv p' \<and> cFinalizedEpoch (blockCache p) \<le> cFinalizedEpoch (blockCache p')"
proof (induction rule: rtranclp_induct)
  case (step p1 p2)
  then show ?case using pool_inv_step [OF step(2)] by (auto intro: order_trans)
qed simp

section \<open>Properties\<close>

text \<open>
  C26. Whatever the clients, their nodes and the users of a new pool do, in any order: the two maps of
  the block cache agree and the latest slot is that of the newest block, client indices ascend, no
  client knows a later finalized epoch than the cache, the finalized epoch never goes back, and
  every fork of the fork cache stands at a head that one of its clients has at present.
\<close>

theorem consensus_pool_invariant:
  assumes "NewPool followDist forkDist mode = Inr p0" and "pool_steps p0 p" and "pool_steps p p'"
  shows "pool_inv p' \<and> cFinalizedEpoch (blockCache p) \<le> cFinalizedEpoch (blockCache p')"
  using pool_inv_steps [OF assms(2) pool_inv_NewPool [OF assms(1)]] pool_inv_steps [OF assms(3)] by blast

text \<open>
  The cleanup keeps exactly the blocks of the last \<open>followDistance\<close> slots: a block is dropped if and
  only if it is more than that many slots older than the newest, and the others are found as before,
  by root and by slot.
\<close>

theorem cleanup_keeps_follow_distance:
  assumes "cache_inv clRoot clSlot c"
  shows "GetCachedBlockByRoot (clCleanup now c) r =
      (case GetCachedBlockByRoot c r of
         None \<Rightarrow> None
       | Some a \<Rightarrow> if unat (clSlot (blockStore c ! a)) + unat (followDistance c) < unat (maxSlotIdx c) then None else Some a) \<and>
    GetCachedBlocksBySlot (clCleanup now c) s =
      (if unat s + unat (followDistance c) < unat (maxSlotIdx c) then [] else GetCachedBlocksBySlot c s)"
proof -
  have cut: "0 <s cutOffSlot c \<and> x < cutOffSlot c \<longleftrightarrow> unat x + unat (followDistance c) < unat (maxSlotIdx c)" for x
    using cutOffSlot_cases [OF cache_invD(6) [OF assms]] by (auto simp: word_less_nat_alt)
  have "GetCachedBlockByRoot (cleanupValsetCache now c2) = GetCachedBlockByRoot c2" "blocksAt (cleanupValsetCache now c2) = blocksAt c2"
    for c2 :: "('a, 'b) cl_cache"
    by (simp_all add: fun_eq_iff cleanupValsetCache_def GetCachedBlockByRoot_def blocksAt_def)
  then show ?thesis using cleanup_effect(1,2) [OF assms] by (simp add: clCleanup_def GetCachedBlocksBySlot_def cut cong: option.case_cong)
qed

text \<open>
  If every cached block is later than its parent, \<open>GetBlockDistance\<close> ends for all roots and counts the
  parents between a head and a cached ancestor, without overflow; \<open>IsCanonicalBlock\<close> holds exactly for
  the head itself and its cached ancestors.
\<close>

theorem block_distance_counts_parents:
  assumes "slots_drop clSlot GetParentRoot c"
  shows "(\<forall>n. nthParent GetParentRoot c n h = Some r \<and> (n = 0 \<or> GetCachedBlockByRoot c r \<noteq> None) \<longrightarrow>
      clGetBlockDistance c r h = Some (True, of_nat n) \<and> unat (of_nat n :: u64) = n) \<and>
    (\<not> onChain GetParentRoot c r h \<longrightarrow> clGetBlockDistance c r h = Some (False, 0)) \<and>
    clIsCanonicalBlock c r h = Some (onChain GetParentRoot c r h)"
  using distance_linked [OF assms] distance_unlinked [OF assms] IsCanonicalBlock_onChain [OF assms]
  unfolding clGetBlockDistance_def clIsCanonicalBlock_def by auto

definition headDistance :: "('b, 'v) cl_cache \<Rightarrow> root \<Rightarrow> root \<Rightarrow> u64" where
  "headDistance c r h = (case clGetBlockDistance c r h of Some (True, d) \<Rightarrow> d | _ \<Rightarrow> 0)"

lemma cl_distances:
  assumes "slots_drop clSlot GetParentRoot c"
  shows "distances (onChain GetParentRoot c) (headDistance c) (clGetBlockDistance c)"
proof -
  have "clGetBlockDistance c r h = Some (onChain GetParentRoot c r h, if onChain GetParentRoot c r h then headDistance c r h else 0)" for r h
  proof (cases "onChain GetParentRoot c r h")
    case True
    then have "map_option fst (clGetBlockDistance c r h) = Some True"
      using IsCanonicalBlock_onChain [OF assms, of r h] by (simp add: IsCanonicalBlock_def clGetBlockDistance_def)
    then show ?thesis using True by (auto simp: headDistance_def)
  next
    case False
    then show ?thesis using distance_unlinked [OF assms] by (simp add: clGetBlockDistance_def)
  qed
  then show ?thesis by (simp add: distances_def headDistance_def clGetBlockDistance_def GetBlockDistance_def)
qed

lemma forkDistance_nonneg: "\<not> (if distance <s 0 then ucast (cfg :: u32) else distance) <s (0 :: u64)"
proof -
  have "uint cfg < 2 ^ LENGTH(32)" by (rule unsigned_less)
  then have "\<not> (ucast cfg :: u64) <s 0"
    by (simp add: word_sless_alt sint_u64 unsigned_ucast_eq take_bit_int_eq_self)
  then show ?thesis by simp
qed

text \<open>
  C27. Freshly computed forks split the clients by chain: every client is in exactly one fork and its
  head is on the chain of the fork's head, the heads of two forks are on different chains, the
  ready clients of a fork are its online ones within the fork distance, and the first fork has the
  most of them.
\<close>

theorem head_forks_partition:
  assumes "slots_drop clSlot GetParentRoot (blockCache p)"
    and "d = (if distance <s 0 then ucast (forkDistanceCfg p) else distance)" and "map_of (forkCache p) d = None"
  shows "\<exists>forks p'. GetHeadForks distance p = Some (forks, p') \<and>
    mset (concat (map AllClients forks)) = mset [0..<length (clients p)] \<and>
    (\<forall>f \<in> set forks. \<forall>g \<in> set forks. onChain GetParentRoot (blockCache p) (forkRoot f) (forkRoot g) \<longrightarrow> f = g) \<and>
    (\<forall>f \<in> set forks.
       (\<forall>i \<in> set (AllClients f). onChain GetParentRoot (blockCache p) (headRoot (clients p ! i)) (forkRoot f)) \<and>
       ReadyClients f = filter (\<lambda>i. GetStatus (clients p ! i) = ClientStatusOnline \<and>
         headDistance (blockCache p) (headRoot (clients p ! i)) (forkRoot f) \<le> d) (AllClients f) \<and>
       length (ReadyClients f) \<le> length (ReadyClients (hd forks)))"
proof -
  have "\<not> d <s 0" using forkDistance_nonneg assms(2) by blast
  from computeHeadForks_spec [OF cache_chain.chain_order_axioms cl_distances [OF assms(1)] this
      sorted_wrt_upt [of 0 "length (clients p)"], of "\<lambda>i. GetLastHead (clients p ! i)" "\<lambda>i. GetStatus (clients p ! i) = ClientStatusOnline"]
  obtain forks where f: "computeHeadForks (clGetBlockDistance (blockCache p)) (\<lambda>i. GetLastHead (clients p ! i))
      (\<lambda>i. GetStatus (clients p ! i) = ClientStatusOnline) d [0..<length (clients p)] = Some forks"
    "mset (concat (map AllClients forks)) = mset [0..<length (clients p)]"
    "\<forall>f \<in> set forks. \<forall>g \<in> set forks. onChain GetParentRoot (blockCache p) (forkRoot f) (forkRoot g) \<longrightarrow> f = g"
    "\<forall>f \<in> set forks. (\<forall>i \<in> set (AllClients f). onChain GetParentRoot (blockCache p) (snd (GetLastHead (clients p ! i))) (forkRoot f)) \<and>
       ReadyClients f = filter (\<lambda>i. GetStatus (clients p ! i) = ClientStatusOnline \<and>
         headDistance (blockCache p) (snd (GetLastHead (clients p ! i))) (forkRoot f) \<le> d) (AllClients f) \<and>
       length (ReadyClients f) \<le> length (ReadyClients (hd forks))"
    by blast
  have "GetHeadForks distance p = Some (forks, p\<lparr>forkCache := AList.update d forks (forkCache p)\<rparr>)"
    using f(1) assms(3) by (simp add: GetHeadForks_def Let_def assms(2) [symmetric])
  moreover have "snd (GetLastHead cl) = headRoot cl" for cl by (simp add: GetLastHead_def)
  ultimately show ?thesis using f(2-4) by (simp only:) blast
qed

text \<open>The clients a pool returns to a number of calls of \<open>GetReadyEndpoint\<close> in a row.\<close>

fun readyCalls :: "int \<Rightarrow> nat \<Rightarrow> ('b, 'v) cl_pool \<Rightarrow> nat option list option" where
  "readyCalls ctype 0 p = Some []"
| "readyCalls ctype (Suc n) p =
     do {
       (c, p1) \<leftarrow> GetReadyEndpoint ctype p;
       cs \<leftarrow> readyCalls ctype n p1;
       Some (c # cs)
     }"

lemma GetReadyEndpoint_cached:
  assumes "map_of (forkCache p) (ucast (forkDistanceCfg p)) = Some (f # fs)" and "ReadyClients f \<noteq> []"
  shows "GetReadyEndpoint ctype p =
    (let (c, rr) = runClientScheduler (\<lambda>i. clientIdx (clients p ! i)) (\<lambda>i. clientType (clients p ! i)) (ReadyClients f)
       ctype (rrLastIndexes p)
     in Some (c, p\<lparr>rrLastIndexes := rr\<rparr>))"
  using assms by (simp add: GetReadyEndpoint_def GetCanonicalFork_def GetHeadForks_def word_sless_alt)

lemma readyCalls_cached:
  assumes "map_of (forkCache p) (ucast (forkDistanceCfg p)) = Some (f # fs)" and "ReadyClients f \<noteq> []"
  shows "readyCalls ctype n p = Some (schedulerCalls (\<lambda>i. clientIdx (clients p ! i)) (\<lambda>i. clientType (clients p ! i))
    (ReadyClients f) ctype n (rrLastIndexes p))"
  using assms
proof (induction n arbitrary: p)
  case (Suc n)
  obtain c rr where c: "runClientScheduler (\<lambda>i. clientIdx (clients p ! i)) (\<lambda>i. clientType (clients p ! i)) (ReadyClients f)
    ctype (rrLastIndexes p) = (c, rr)" by fastforce
  then show ?case using Suc.IH [of "p\<lparr>rrLastIndexes := rr\<rparr>"] Suc.prems by (simp add: GetReadyEndpoint_cached)
qed simp

text \<open>
  C28. In every reachable pool, while the forks do not change, \<open>GetReadyEndpoint\<close> takes turns: as many
  calls in a row as the first fork has ready clients of the wanted type return each of them exactly
  once, from wherever the last call stopped.
\<close>

theorem ready_endpoint_fair:
  assumes "NewPool followDist forkDist mode = Inr p0" and "pool_steps p0 p"
    and "map_of (forkCache p) (ucast (forkDistanceCfg p)) = Some (f # fs)" and "ReadyClients f \<noteq> []"
  shows "let m = matchingClients (\<lambda>i. clientType (clients p ! i)) ctype (ReadyClients f)
    in \<exists>k. readyCalls ctype (length m) p = Some (map Some (rotate k m))"
proof -
  let ?m = "matchingClients (\<lambda>i. clientType (clients p ! i)) ctype (ReadyClients f)"
  have inv: "pool_inv p" using pool_inv_steps [OF assms(2) pool_inv_NewPool [OF assms(1)]] by blast
  have "fork_shape (\<lambda>i. GetLastHead (clients p ! i)) {..<length (clients p)} f"
    using pool_invD(5) [OF inv map_of_SomeD [OF assms(3)]] by simp
  then have "sorted_wrt (<) (ReadyClients f)" "set (ReadyClients f) \<subseteq> {..<length (clients p)}"
    by (auto simp: fork_shape_def)
  then have m: "sorted_wrt (<) ?m" "set ?m \<subseteq> {..<length (clients p)}"
    by (auto simp: matchingClients_def sorted_wrt_filter)
  have "clientIdx (clients p ! i) < clientIdx (clients p ! j)" if "i < j" "j < length (clients p)" for i j
    using pool_invD(2) [OF inv] that by (simp add: sorted_wrt_iff_nth_less)
  then have "sorted_wrt (<) (map (\<lambda>i. clientIdx (clients p ! i)) ?m)"
    using m by (auto simp: sorted_wrt_map elim!: sorted_wrt_mono_rel [rotated])
  from round_robin_fair [OF this] readyCalls_cached [OF assms(3,4)] show ?thesis by (auto simp: Let_def)
qed

section \<open>What callers should know\<close>

text \<open>
  The fork cache is emptied when a head changes, not when a client goes off line: until the next
  block a client that has gone away is still reported as ready.
\<close>

lemma offline_client_stays_ready:
  assumes "map_of (forkCache p) (ucast (forkDistanceCfg p)) = Some (f # fs)" and "i \<in> set (ReadyClients f)"
  shows "\<exists>p'. IsClientReady (Some i) (modClient i (\<lambda>cl. cl\<lparr>isOnline := False\<rparr>) p) = Some (True, p')"
  using assms by (simp add: IsClientReady_def GetCanonicalFork_def GetHeadForks_def modClient_def word_sless_alt)

text \<open>The name of a client type is parsed to the type again.\<close>

lemma ParseClientType_String: "t \<in> snd ` set clientTypes \<Longrightarrow> ParseClientType (ClientTypeString t) = t"
  by (auto simp: clientTypes_def ParseClientType_def ClientTypeString_def)

text \<open>A node whose specs or genesis differ from those of the first is refused and changes nothing.\<close>

lemma SetClientSpecs_first:
  "cSpecs c = Some s \<Longrightarrow> SetClientSpecs (Inr s') c = (None, c') \<Longrightarrow> s' = s"
  by (cases s; cases s') (auto simp: SetClientSpecs_def CheckMismatch_def Let_def split: if_splits)

lemma SetGenesis_first:
  "cGenesis c = Some g \<Longrightarrow> SetGenesis g' c = (None, c') \<Longrightarrow> g' = g"
  by (cases g; cases g') (auto simp: SetGenesis_def split: if_splits)

section \<open>Witnesses\<close>

text \<open>
  Two clients of a new pool: the first has polled block 1 and then block 2, the second block 3, which
  has the same parent; both are on line.
\<close>

definition demo_start :: "(unit, unit) cl_pool" where
  "demo_start = (case NewPool 10 1 '''' of Inr p \<Rightarrow> p)"

lemma demo_start: "NewPool 10 1 '''' = Inr demo_start"
  by (simp add: demo_start_def NewPool_def clNewBlockCache_def)

abbreviation demo_poll :: "nat \<Rightarrow> root \<Rightarrow> u64 \<Rightarrow> root \<Rightarrow> (unit, unit) cl_pool \<Rightarrow> (unit, unit) cl_pool" where
  "demo_poll i root slot parent p \<equiv>
     snd (pollClientHead (\<lambda>_. Inl ''none'') (\<lambda>_. Inr ()) (Inr (Some (root, slot, parent))) (Inr (slot, root)) i p)"

definition demo_two :: "(unit, unit) cl_pool" where
  "demo_two = snd (AddEndpoint (Inr ''b'') (snd (AddEndpoint (Inr ''a'') demo_start)))"

definition demo_pool :: "(unit, unit) cl_pool" where
  "demo_pool = modClient 1 (\<lambda>cl. cl\<lparr>isOnline := True\<rparr>) (modClient 0 (\<lambda>cl. cl\<lparr>isOnline := True\<rparr>)
     (demo_poll 1 3 2 1 (demo_poll 0 2 2 1 (demo_poll 0 1 1 0 demo_two))))"

lemma demo_lengths:
  "length (clients demo_two) = 2" "length (clients (demo_poll 0 1 1 0 demo_two)) = 2"
  "length (clients (demo_poll 0 2 2 1 (demo_poll 0 1 1 0 demo_two))) = 2"
  "length (clients (demo_poll 1 3 2 1 (demo_poll 0 2 2 1 (demo_poll 0 1 1 0 demo_two)))) = 2"
  by code_simp+

lemma demo_reached: "pool_steps demo_start demo_pool"
proof -
  have "pool_step demo_start (snd (AddEndpoint (Inr ''a'') demo_start))"
    by (rule add_endpoint) (simp add: demo_start_def NewPool_def clNewBlockCache_def)
  moreover have "pool_step (snd (AddEndpoint (Inr ''a'') demo_start)) demo_two"
    unfolding demo_two_def by (rule add_endpoint) (simp add: demo_start_def NewPool_def clNewBlockCache_def AddEndpoint_def)
  moreover have "pool_step demo_two (demo_poll 0 1 1 0 demo_two)"
    by (rule poll_head) (simp_all add: demo_lengths)
  moreover have "pool_step (demo_poll 0 1 1 0 demo_two) (demo_poll 0 2 2 1 (demo_poll 0 1 1 0 demo_two))"
    by (rule poll_head) (simp_all add: demo_lengths)
  moreover have "pool_step (demo_poll 0 2 2 1 (demo_poll 0 1 1 0 demo_two))
      (demo_poll 1 3 2 1 (demo_poll 0 2 2 1 (demo_poll 0 1 1 0 demo_two)))"
    by (rule poll_head) (simp_all add: demo_lengths)
  moreover have "pool_steps p demo_pool" if "p = demo_poll 1 3 2 1 (demo_poll 0 2 2 1 (demo_poll 0 1 1 0 demo_two))" for p
  proof -
    have "pool_step p (modClient 0 (\<lambda>cl. cl\<lparr>isOnline := True\<rparr>) p)"
      unfolding that by (rule stream_ready) (use demo_lengths(4) in linarith)
    moreover have "pool_step (modClient 0 (\<lambda>cl. cl\<lparr>isOnline := True\<rparr>) p) demo_pool"
      unfolding that demo_pool_def by (rule stream_ready) (simp only: modClient_simps demo_lengths(4))
    ultimately show ?thesis by auto
  qed
  ultimately show ?thesis by (meson converse_rtranclp_into_rtranclp)
qed

theorem consensus_pool_invariant_witness:
  "pool_steps demo_start demo_pool \<and> pool_inv demo_pool \<and> cFinalizedEpoch (blockCache demo_pool) = 2"
proof -
  have "cFinalizedEpoch (blockCache demo_pool) = 2" by code_simp
  then show ?thesis using demo_reached consensus_pool_invariant [OF demo_start demo_reached rtranclp.rtrancl_refl] by blast
qed

lemma demo_slots: "slots_drop clSlot GetParentRoot (blockCache demo_pool)"
  by code_simp

theorem cleanup_keeps_follow_distance_witness:
  "GetCachedBlockByRoot (clCleanup 0 (blockCache demo_pool)) 2 = Some 1"
proof -
  have "cache_inv clRoot clSlot (blockCache demo_pool)"
    using pool_inv_steps [OF demo_reached pool_inv_NewPool [OF demo_start]] pool_invD(1) by blast
  moreover have "GetCachedBlockByRoot (blockCache demo_pool) 2 = Some 1" "unat (followDistance (blockCache demo_pool)) = 10"
    "unat (maxSlotIdx (blockCache demo_pool)) = 2" by code_simp+
  ultimately show ?thesis using cleanup_keeps_follow_distance [of "blockCache demo_pool" 0 2 0] by simp
qed

theorem block_distance_counts_parents_witness:
  "clGetBlockDistance (blockCache demo_pool) 1 3 = Some (True, 1) \<and> clGetBlockDistance (blockCache demo_pool) 2 3 = Some (False, 0)"
proof -
  have "nthParent GetParentRoot (blockCache demo_pool) 1 3 = Some 1" "GetCachedBlockByRoot (blockCache demo_pool) 1 \<noteq> None"
    by code_simp+
  then have "clGetBlockDistance (blockCache demo_pool) 1 3 = Some (True, of_nat 1)"
    using block_distance_counts_parents [OF demo_slots, of 3 1] by blast
  moreover have "clGetBlockDistance (blockCache demo_pool) 2 3 = Some (False, 0)" by code_simp
  ultimately show ?thesis by simp
qed

theorem head_forks_partition_witness:
  "\<exists>forks p'. GetHeadForks 0 demo_pool = Some (forks, p') \<and> mset (concat (map AllClients forks)) = {#0, 1#}"
proof -
  have "map_of (forkCache demo_pool) (if (0 :: u64) <s 0 then ucast (forkDistanceCfg demo_pool) else 0) = None"
    "length (clients demo_pool) = 2" by code_simp+
  moreover have "mset [0..<2] = {#0, 1#}" by (simp add: numeral_2_eq_2)
  ultimately show ?thesis using head_forks_partition [OF demo_slots refl, of 0] by metis
qed

definition demo_ready :: "(unit, unit) cl_pool" where
  "demo_ready = (case GetHeadForks (-1) (demo_poll 1 2 2 1 demo_pool) of Some (forks, p) \<Rightarrow> p)"

theorem ready_endpoint_fair_witness:
  "\<exists>k. readyCalls 0 2 demo_ready = Some (map Some (rotate k [0, 1]))"
proof -
  let ?p = "demo_poll 1 2 2 1 demo_pool"
  have "length (clients demo_pool) = 2" by code_simp
  then have "pool_step demo_pool ?p" by (intro poll_head) simp_all
  moreover have "map_option (\<lambda>(forks, p). ()) (GetHeadForks (-1) ?p) = Some ()" by code_simp
  then obtain forks p where "GetHeadForks (-1) ?p = Some (forks, p)" by auto
  then have "pool_step ?p demo_ready" unfolding demo_ready_def by (auto intro: head_forks)
  ultimately have reached: "pool_steps demo_start demo_ready" using demo_reached by (meson rtranclp.rtrancl_into_rtrancl)
  have "map_option (map ReadyClients) (map_of (forkCache demo_ready) (ucast (forkDistanceCfg demo_ready))) = Some [[0, 1]]"
    by code_simp
  then obtain f where f: "map_of (forkCache demo_ready) (ucast (forkDistanceCfg demo_ready)) = Some [f]" "ReadyClients f = [0, 1]"
    by auto
  have "matchingClients (\<lambda>i. clientType (clients demo_ready ! i)) 0 [0, 1] = [0, 1]"
    by (simp add: matchingClients_def AnyClient_def)
  then show ?thesis using ready_endpoint_fair [OF demo_start reached f(1), of 0] f(2)
    by (simp add: Let_def numeral_2_eq_2)
qed

end
