(* ===== verification/ExecutionClients.thy ===== *)
theory ExecutionClients
  imports ConsensusClients
begin

text \<open>
  The pool of execution clients (\<open>clients/execution\<close>), on the shared block cache, forks and round robin,
  and the client pool that joins both (\<open>clients/clients.go\<close>). A loaded block is given by its parent
  hash, the only part the package reads; the answers of the nodes are arguments.
\<close>

section \<open>Blocks\<close>

text \<open>
  \<open>elSeenChan\<close> is None for a nil channel, else whether the channel is closed. \<open>SetSeenBy\<close> closes it and
  leaves it in place, so a second call closes it again and panics: None.
\<close>

record el_block =
  elHash :: root
  elNumber :: u64
  elBlock :: "root option"
  elBlockChanClosed :: bool
  elSeenMap :: "(u16 \<times> nat) list"
  elSeenChan :: "bool option"

definition elNewBlock :: "root \<Rightarrow> u64 \<Rightarrow> el_block" where
  "elNewBlock hash number = \<lparr>elHash = hash, elNumber = number, elBlock = None, elBlockChanClosed = False, elSeenMap = [],
     elSeenChan = None\<rparr>"

definition GetSeenBy :: "el_block \<Rightarrow> nat list" where
  "GetSeenBy b = map snd (sort_slice (\<lambda>x y. fst x < fst y) (elSeenMap b))"

definition SetSeenBy :: "u16 \<Rightarrow> nat \<Rightarrow> el_block \<Rightarrow> el_block option" where
  "SetSeenBy idx client b =
     (let b1 = b\<lparr>elSeenMap := AList.update idx client (elSeenMap b)\<rparr>
      in case elSeenChan b1 of
           None \<Rightarrow> Some b1
         | Some closed \<Rightarrow> if closed then None else Some (b1\<lparr>elSeenChan := Some True\<rparr>))"

definition checkSeenBy :: "u16 \<Rightarrow> el_block \<Rightarrow> bool \<times> el_block" where
  "checkSeenBy idx b =
     (let ok = map_of (elSeenMap b) idx \<noteq> None
      in (ok, if \<not> ok \<and> elSeenChan b = None then b\<lparr>elSeenChan := Some False\<rparr> else b))"

definition GetParentHash :: "el_block \<Rightarrow> root option" where
  "GetParentHash b = elBlock b"

definition EnsureBlock :: "(string + root) \<Rightarrow> el_block \<Rightarrow> (bool \<times> go_error) \<times> el_block" where
  "EnsureBlock loaded b =
     (if elBlock b \<noteq> None then ((False, None), b)
      else case loaded of
             Inl e \<Rightarrow> ((False, Some e), b)
           | Inr body \<Rightarrow> ((True, None), b\<lparr>elBlock := Some body, elBlockChanClosed := True\<rparr>))"

definition AwaitBlock :: "bool \<Rightarrow> el_block \<Rightarrow> root option option" where
  "AwaitBlock giveUp b = (if elBlockChanClosed b \<or> giveUp then Some (elBlock b) else None)"

section \<open>The block cache\<close>

record el_cache = "el_block block_cache" +
  elChainID :: "string option"
  elBlockDispatcher :: "nat Dispatcher"

definition NewBlockCache :: "u32 \<Rightarrow> string + el_cache" where
  "NewBlockCache distance =
     (if distance = 0 then Inl ''cannot initialize block cache without follow distance''
      else Inr \<lparr>followDistance = distance, blockStore = [], blockSlotMap = [], blockRootMap = [], maxSlotIdx = 0,
                elChainID = None, elBlockDispatcher = newDispatcher\<rparr>)"

definition elSetClientSpecs :: "string \<Rightarrow> el_cache \<Rightarrow> go_error \<times> el_cache" where
  "elSetClientSpecs chainID c =
     (case elChainID c of
        Some old \<Rightarrow> if old \<noteq> chainID then (Some ''spec mismatch: ChainID'', c) else (None, c\<lparr>elChainID := Some chainID\<rparr>)
      | None \<Rightarrow> (None, c\<lparr>elChainID := Some chainID\<rparr>))"

text \<open>The chain id as a number: decimal digits with an optional sign, else none.\<close>

definition digitVal :: "char \<Rightarrow> nat option" where
  "digitVal c = (let n = (of_char c :: nat) in if 48 \<le> n \<and> n \<le> 57 then Some (n - 48) else None)"

fun parseDigits :: "nat \<Rightarrow> string \<Rightarrow> nat option" where
  "parseDigits acc [] = Some acc"
| "parseDigits acc (c # cs) = Option.bind (digitVal c) (\<lambda>d. parseDigits (10 * acc + d) cs)"

definition parseBigInt :: "string \<Rightarrow> int option" where
  "parseBigInt s =
     (let (neg, ds) = (case s of [] \<Rightarrow> (False, s)
                      | c # cs \<Rightarrow> if c = CHR ''-'' then (True, cs) else if c = CHR ''+'' then (False, cs) else (False, s))
      in if ds = [] then None else map_option (\<lambda>n. if neg then - int n else int n) (parseDigits 0 ds))"

definition GetChainID :: "el_cache \<Rightarrow> int option" where
  "GetChainID c = Option.bind (elChainID c) parseBigInt"

definition elAddBlock :: "root \<Rightarrow> u64 \<Rightarrow> el_cache \<Rightarrow> (nat option \<times> bool) \<times> el_cache" where
  "elAddBlock = AddBlock elNewBlock"

definition cleanupCache :: "el_cache \<Rightarrow> el_cache" where
  "cleanupCache = cleanupBlockCache elHash"

definition elGetBlockDistance :: "el_cache \<Rightarrow> root \<Rightarrow> root \<Rightarrow> (bool \<times> u64) option" where
  "elGetBlockDistance = GetBlockDistance elNumber GetParentHash"

definition elIsCanonicalBlock :: "el_cache \<Rightarrow> root \<Rightarrow> root \<Rightarrow> bool option" where
  "elIsCanonicalBlock = IsCanonicalBlock elNumber GetParentHash"

interpretation el_blocks: block_kind elNewBlock elHash elNumber
  by unfold_locales (simp_all add: elNewBlock_def)

section \<open>Clients\<close>

text \<open>\<open>elUpdateChan\<close> is the channel of block notifications, with room for ten.\<close>

record el_client =
  elIdx :: u16
  elName :: string
  elOnline :: bool
  elSyncing :: bool
  elVersionStr :: string
  elClientType :: int
  elRetryCounter :: u64
  elLastError :: go_error
  elHeadHash :: root
  elHeadNumber :: u64
  elUpdateChan :: "(root \<times> u64) list"

definition elNewClient :: "u16 \<Rightarrow> string \<Rightarrow> el_client" where
  "elNewClient idx name = \<lparr>elIdx = idx, elName = name, elOnline = False, elSyncing = False, elVersionStr = [],
     elClientType = 0, elRetryCounter = 0, elLastError = None, elHeadHash = 0, elHeadNumber = 0, elUpdateChan = []\<rparr>"

definition elGetLastHead :: "el_client \<Rightarrow> u64 \<times> root" where
  "elGetLastHead c = (elHeadNumber c, elHeadHash c)"

definition elGetStatus :: "el_client \<Rightarrow> ClientStatus" where
  "elGetStatus c =
     (if elSyncing c then ClientStatusSynchronizing else if elOnline c then ClientStatusOnline else ClientStatusOffline)"

text \<open>The send waits while ten notifications are pending: None.\<close>

definition NotifyNewBlock :: "root \<Rightarrow> u64 \<Rightarrow> el_client \<Rightarrow> el_client option" where
  "NotifyNewBlock hash number c =
     (if elOnline c
      then (if length (elUpdateChan c) < 10 then Some (c\<lparr>elUpdateChan := elUpdateChan c @ [(hash, number)]\<rparr>) else None)
      else Some c)"

definition elClientPatterns :: "(string \<times> int) list" where
  "elClientPatterns = [(''besu'', 1), (''erigon'', 2), (''ethereumjs'', 3), (''geth'', 4), (''nethermind'', 5), (''reth'', 6)]"

definition elClientTypes :: "(string \<times> int) list" where
  "elClientTypes = [(''besu'', 1), (''erigon'', 2), (''ethjs'', 3), (''geth'', 4), (''nethermind'', 5), (''reth'', 6)]"

definition elParseClientVersion :: "string \<Rightarrow> int" where
  "elParseClientVersion version =
     (case find (\<lambda>(name, t). hasPrefixFold (name @ ''/'') version) elClientPatterns of
        None \<Rightarrow> UnknownClient
      | Some (name, t) \<Rightarrow> t)"

definition elParseClientType :: "string \<Rightarrow> int" where
  "elParseClientType name = (case map_of elClientTypes name of None \<Rightarrow> UnknownClient | Some t \<Rightarrow> t)"

definition elClientTypeString :: "int \<Rightarrow> string" where
  "elClientTypeString t =
     (case find (\<lambda>(name, t'). t' = t) elClientTypes of
        None \<Rightarrow> ''unknown: '' @ showInt t
      | Some (name, t') \<Rightarrow> name)"

section \<open>The pool\<close>

record el_pool =
  elForkDistanceCfg :: u32
  elClientCounter :: u16
  elClients :: "el_client list"
  elCache :: el_cache
  elForkCache :: "(u64 \<times> HeadFork list) list"
  elRrLastIndexes :: "(int \<times> u16) list"

definition elNewPool :: "u32 \<Rightarrow> u32 \<Rightarrow> string \<Rightarrow> string + el_pool" where
  "elNewPool followDist forkDist mode =
     (if mode = '''' \<or> mode = ''rr'' \<or> mode = ''roundrobin''
      then (case NewBlockCache followDist of
              Inl e \<Rightarrow> Inl e
            | Inr cache \<Rightarrow> Inr \<lparr>elForkDistanceCfg = forkDist, elClientCounter = 0, elClients = [], elCache = cache,
                              elForkCache = [], elRrLastIndexes = []\<rparr>)
      else Inl (''unknown pool schedulerMode: '' @ mode))"

definition elAddEndpoint :: "(string + string) \<Rightarrow> el_pool \<Rightarrow> (string + nat) \<times> el_pool" where
  "elAddEndpoint endpoint p =
     (let idx = elClientCounter p; p1 = p\<lparr>elClientCounter := idx + 1\<rparr>
      in case endpoint of
           Inl e \<Rightarrow> (Inl e, p1)
         | Inr name \<Rightarrow> (Inr (length (elClients p)), p1\<lparr>elClients := elClients p @ [elNewClient idx name]\<rparr>))"

definition elResetHeadForkCache :: "el_pool \<Rightarrow> el_pool" where
  "elResetHeadForkCache p = p\<lparr>elForkCache := []\<rparr>"

definition elGetHeadForks :: "u64 \<Rightarrow> el_pool \<Rightarrow> (HeadFork list \<times> el_pool) option" where
  "elGetHeadForks distance p =
     (let forkDistance = (if distance <s 0 then ucast (elForkDistanceCfg p) else distance)
      in case map_of (elForkCache p) forkDistance of
           Some forks \<Rightarrow> Some (forks, p)
         | None \<Rightarrow>
             do {
               forks \<leftarrow> computeHeadForks (elGetBlockDistance (elCache p)) (\<lambda>i. elGetLastHead (elClients p ! i))
                          (\<lambda>i. elGetStatus (elClients p ! i) = ClientStatusOnline) forkDistance [0..<length (elClients p)];
               Some (forks, p\<lparr>elForkCache := AList.update forkDistance forks (elForkCache p)\<rparr>)
             })"

definition elGetCanonicalFork :: "u64 \<Rightarrow> el_pool \<Rightarrow> (HeadFork option \<times> el_pool) option" where
  "elGetCanonicalFork distance p =
     do {
       (forks, p1) \<leftarrow> elGetHeadForks distance p;
       Some (case forks of [] \<Rightarrow> None | f # fs \<Rightarrow> Some f, p1)
     }"

text \<open>\<open>perm\<close> is the result of \<open>rand.Perm\<close>: position \<open>i\<close> of the ready clients goes to position \<open>perm ! i\<close>.\<close>

fun placeAll :: "nat list \<Rightarrow> 'a list \<Rightarrow> 'a list \<Rightarrow> 'a list" where
  "placeAll (v # vs) (x # xs) acc = placeAll vs xs (acc[v := x])"
| "placeAll _ _ acc = acc"

definition GetReadyEndpoints :: "nat list option \<Rightarrow> el_pool \<Rightarrow> (nat list \<times> el_pool) option" where
  "GetReadyEndpoints shuffle p =
     do {
       (fork, p1) \<leftarrow> elGetCanonicalFork (-1) p;
       case fork of
         None \<Rightarrow> Some ([], p1)
       | Some f \<Rightarrow>
           (case shuffle of
              None \<Rightarrow> Some (ReadyClients f, p1)
            | Some perm \<Rightarrow> Some (placeAll perm (ReadyClients f) (replicate (length (ReadyClients f)) 0), p1))
     }"

definition elGetReadyEndpoint :: "nat list \<Rightarrow> int \<Rightarrow> el_pool \<Rightarrow> (nat option \<times> el_pool) option" where
  "elGetReadyEndpoint perm ctype p =
     do {
       (ready, p1) \<leftarrow> GetReadyEndpoints (Some perm) p;
       let (c, rr) = runClientScheduler (\<lambda>i. elIdx (elClients p1 ! i)) (\<lambda>i. elClientType (elClients p1 ! i))
                       ready ctype (elRrLastIndexes p1);
       Some (c, p1\<lparr>elRrLastIndexes := rr\<rparr>)
     }"

definition elIsClientReady :: "nat option \<Rightarrow> el_pool \<Rightarrow> (bool \<times> el_pool) option" where
  "elIsClientReady client p =
     (case client of
        None \<Rightarrow> Some (False, p)
      | Some i \<Rightarrow>
          do {
            (fork, p1) \<leftarrow> elGetCanonicalFork (-1) p;
            Some (case fork of None \<Rightarrow> False | Some f \<Rightarrow> i \<in> set (ReadyClients f), p1)
          })"

section \<open>What a client does\<close>

definition elModClient :: "nat \<Rightarrow> (el_client \<Rightarrow> el_client) \<Rightarrow> el_pool \<Rightarrow> el_pool" where
  "elModClient i f p = p\<lparr>elClients := (elClients p)[i := f (elClients p ! i)]\<rparr>"

definition elSetBlock :: "nat \<Rightarrow> el_block \<Rightarrow> el_cache \<Rightarrow> el_cache" where
  "elSetBlock a b c = c\<lparr>blockStore := (blockStore c)[a := b]\<rparr>"

definition elProcessBlock ::
    "(root \<Rightarrow> string + root) \<Rightarrow> nat \<Rightarrow> root \<Rightarrow> u64 \<Rightarrow> root option \<Rightarrow> el_pool \<Rightarrow> (go_error \<times> el_pool) option" where
  "elProcessBlock getBlock i hash number block p =
     (case elAddBlock hash number (elCache p) of
        ((None, isNew), c) \<Rightarrow> Some (Some ''could not add block to cache'', p\<lparr>elCache := c\<rparr>)
      | ((Some a, isNew), c) \<Rightarrow>
          do {
            b1 \<leftarrow> SetSeenBy (elIdx (elClients p ! i)) i (blockStore c ! a);
            let ((loaded, err), b2) = EnsureBlock (case block of Some b \<Rightarrow> Inr b | None \<Rightarrow> getBlock hash) b1;
            let c1 = elSetBlock a b2 c;
            if err \<noteq> None then Some (err, p\<lparr>elCache := c1\<rparr>)
            else do {
              let c2 = (if loaded then c1\<lparr>elBlockDispatcher := Fire a (elBlockDispatcher c1)\<rparr> else c1);
              let p1 = p\<lparr>elCache := c2\<rparr>;
              if elHeadHash (elClients p ! i) = hash then Some (None, p1)
              else Some (None, elResetHeadForkCache
                     (elModClient i (\<lambda>cl. cl\<lparr>elHeadNumber := number, elHeadHash := hash\<rparr>) p1))
            }
          })"

text \<open>A notified block is tried three times; the answers of the node may differ between tries.\<close>

fun processNotification ::
    "(root \<Rightarrow> string + root) list \<Rightarrow> nat \<Rightarrow> root \<Rightarrow> u64 \<Rightarrow> go_error \<Rightarrow> el_pool \<Rightarrow> (go_error \<times> el_pool) option" where
  "processNotification [] i hash number err p = Some (err, p)"
| "processNotification (getBlock # tries) i hash number err p =
     do {
       (err1, p1) \<leftarrow> elProcessBlock getBlock i hash number None p;
       if err1 = None then Some (None, p1) else processNotification tries i hash number err1 p1
     }"

definition elPollClientHead ::
    "(root \<Rightarrow> string + root) \<Rightarrow> (string + (root \<times> u64 \<times> root) option) \<Rightarrow> nat \<Rightarrow> el_pool \<Rightarrow> (go_error \<times> el_pool) option" where
  "elPollClientHead getBlock latestBlock i p =
     (case latestBlock of
        Inl e \<Rightarrow> Some (Some (''could not get latest block: '' @ e), p)
      | Inr None \<Rightarrow> Some (Some ''could not find latest block'', p)
      | Inr (Some (hash, number, parent)) \<Rightarrow>
          map_option (\<lambda>(err, p1). (None, p1)) (elProcessBlock getBlock i hash number (Some parent) p))"

record el_node_info =
  eniInitialize :: go_error
  eniVersion :: "string + string"
  eniChainID :: "string + string"
  eniSyncing :: "string + bool option"

definition elCheckClient :: "el_node_info \<Rightarrow> nat \<Rightarrow> el_pool \<Rightarrow> go_error \<times> el_pool" where
  "elCheckClient node i p =
     (case eniInitialize node of
        Some e \<Rightarrow> (Some (''initialization of execution client failed: '' @ e), p)
      | None \<Rightarrow>
     (case eniVersion node of
        Inl e \<Rightarrow> (Some (''error while fetching node version: '' @ e), p)
      | Inr version \<Rightarrow>
          let p1 = elModClient i (\<lambda>cl. cl\<lparr>elVersionStr := version, elClientType := elParseClientVersion version\<rparr>) p
          in
     (case eniChainID node of
        Inl e \<Rightarrow> (Some (''error while fetching specs: '' @ e), p1)
      | Inr chainID \<Rightarrow>
     (case elSetClientSpecs chainID (elCache p1) of
        (Some e, c) \<Rightarrow> (Some (''invalid node specs: '' @ e), p1\<lparr>elCache := c\<rparr>)
      | (None, c) \<Rightarrow>
          let p2 = p1\<lparr>elCache := c\<rparr>
          in
     (case eniSyncing node of
        Inl e \<Rightarrow> (Some (''error while fetching synchronization status: '' @ e), p2)
      | Inr None \<Rightarrow> (Some ''could not get synchronization status'', p2)
      | Inr (Some syncing) \<Rightarrow> (None, elModClient i (\<lambda>cl. cl\<lparr>elSyncing := syncing\<rparr>) p2))))))"

text \<open>After the first poll a client that is not synchronizing goes on line with an empty channel.\<close>

definition elStartEvents :: "nat \<Rightarrow> el_pool \<Rightarrow> go_error \<times> el_pool" where
  "elStartEvents i p =
     (if elSyncing (elClients p ! i) then (Some ''beacon node is synchronizing'', p)
      else (None, elModClient i (\<lambda>cl. cl\<lparr>elOnline := True, elUpdateChan := []\<rparr>) p))"

definition elRetryClient :: "string \<Rightarrow> nat \<Rightarrow> el_pool \<Rightarrow> nat \<times> el_pool" where
  "elRetryClient e i p =
     (let counter = elRetryCounter (elClients p ! i) + 1;
          waitTime = (if counter > 10 then 300 else if counter > 5 then 60 else 10)
      in (waitTime, elModClient i (\<lambda>cl. cl\<lparr>elOnline := False, elLastError := Some e, elRetryCounter := counter\<rparr>) p))"

section \<open>The cache under the clients\<close>

lemma el_block_writes:
  "SetSeenBy idx cl b = Some b' \<Longrightarrow> elHash b' = elHash b \<and> elNumber b' = elNumber b"
  "EnsureBlock l b = (e, b') \<Longrightarrow> elHash b' = elHash b \<and> elNumber b' = elNumber b"
  by (auto simp: SetSeenBy_def EnsureBlock_def Let_def split: if_splits sum.splits option.splits)

lemma elProcessBlock_cache:
  assumes inv: "cache_inv elHash elNumber (elCache p)" and "number < 2 ^ 63"
    and "elProcessBlock getBlock i hash number block p = Some (err, p')"
  shows "cache_inv elHash elNumber (elCache p') \<and> length (elClients p') = length (elClients p) \<and>
    (err = None \<and> i < length (elClients p) \<longrightarrow> elHeadHash (elClients p' ! i) = hash \<and>
       (elForkCache p' = [] \<or> elForkCache p' = elForkCache p \<and> elGetLastHead (elClients p' ! i) = elGetLastHead (elClients p ! i)) \<and>
       GetCachedBlockByRoot (elCache p') hash \<noteq> None)"
proof -
  obtain ra isNew c where add: "elAddBlock hash number (elCache p) = ((ra, isNew), c)" by (metis prod.collapse)
  have c: "cache_inv elHash elNumber c"
    using el_blocks.cache_inv_AddBlock [OF inv assms(2)] add unfolding elAddBlock_def by blast
  show ?thesis
  proof (cases ra)
    case None
    then show ?thesis using c assms(3) add by (auto simp: elProcessBlock_def)
  next
    case (Some a)
    have found: "GetCachedBlockByRoot c hash = Some a"
      using add Some by (auto simp: elAddBlock_def AddBlock_def Let_def GetCachedBlockByRoot_def update_conv
        split: option.splits if_splits)
    obtain b1 where b1: "SetSeenBy (elIdx (elClients p ! i)) i (blockStore c ! a) = Some b1"
      using assms(3) add Some by (auto simp: elProcessBlock_def split: bind_splits)
    obtain loaded e b2 where b2: "EnsureBlock (case block of Some b \<Rightarrow> Inr b | None \<Rightarrow> getBlock hash) b1 = ((loaded, e), b2)"
      by (metis prod.collapse)
    let ?c1 = "elSetBlock a b2 c"
    have c1: "cache_inv elHash elNumber ?c1"
      using cache_inv_write [OF c, of b2 a] el_block_writes(1) [OF b1] el_block_writes(2) [OF b2] by (simp add: elSetBlock_def)
    have c2: "cache_inv elHash elNumber (?c1\<lparr>elBlockDispatcher := d\<rparr>)" for d
      using c1 by (subst cache_inv_frame [of _ ?c1]) simp_all
    have found2: "GetCachedBlockByRoot (?c1\<lparr>elBlockDispatcher := d\<rparr>) hash = Some a" "GetCachedBlockByRoot ?c1 hash = Some a" for d
      using found by (simp_all add: GetCachedBlockByRoot_def elSetBlock_def)
    have "elProcessBlock getBlock i hash number block p =
        (if e \<noteq> None then Some (e, p\<lparr>elCache := ?c1\<rparr>)
         else let p1 = p\<lparr>elCache := (if loaded then ?c1\<lparr>elBlockDispatcher := Fire a (elBlockDispatcher ?c1)\<rparr> else ?c1)\<rparr>
              in if elHeadHash (elClients p ! i) = hash then Some (None, p1)
                 else Some (None, elResetHeadForkCache
                   (elModClient i (\<lambda>cl. cl\<lparr>elHeadNumber := number, elHeadHash := hash\<rparr>) p1)))"
      unfolding elProcessBlock_def add Some by (simp add: b1 b2 Let_def)
    then show ?thesis using assms(3) c1 c2 found2
      by (auto simp: elModClient_def elResetHeadForkCache_def Let_def split: if_splits)
  qed
qed

text \<open>
  A block that was waited for with \<open>AwaitSeenBy\<close> and is then seen by two clients closes its channel
  twice: the second client's loop panics and ends.
\<close>

lemma SetSeenBy_twice_panics:
  assumes "checkSeenBy idx0 b = (False, b1)" and "elSeenChan b = None" and "SetSeenBy idx1 cl1 b1 = Some b2"
  shows "SetSeenBy idx2 cl2 b2 = None"
  using assms by (fastforce simp: checkSeenBy_def SetSeenBy_def Let_def split: option.splits if_splits)

text \<open>The ready clients are shuffled before the round robin, which then may return one client forever.\<close>

lemma shuffled_round_robin_starves:
  "schedulerCalls of_nat (\<lambda>_. 0) [2, 1, 0] 0 5 [] = replicate 5 (Some 2)"
  by code_simp

text \<open>
  A block an execution client has processed without error is in the cache and is the client's head,
  and the cached forks are dropped when that head is new; whatever the outcome, the maps of the
  cache keep agreeing.
\<close>

theorem execution_block_processed:
  assumes "cache_inv elHash elNumber (elCache p)" and "number < 2 ^ 63" and "i < length (elClients p)"
    and "elProcessBlock getBlock i hash number block p = Some (err, p')"
  shows "cache_inv elHash elNumber (elCache p') \<and>
    (err = None \<longrightarrow> elHeadHash (elClients p' ! i) = hash \<and> GetCachedBlockByRoot (elCache p') hash \<noteq> None \<and>
       (elForkCache p' = [] \<or> elForkCache p' = elForkCache p \<and> elGetLastHead (elClients p' ! i) = elGetLastHead (elClients p ! i)))"
  using elProcessBlock_cache [OF assms(1,2,4)] assms(3) by blast

definition el_demo_pool :: el_pool where
  "el_demo_pool = (case elNewPool 10 1 '''' of Inr p \<Rightarrow> snd (elAddEndpoint (Inr ''a'') p))"

theorem execution_block_processed_witness:
  "\<exists>p'. elProcessBlock (\<lambda>_. Inr 4) 0 5 6 None el_demo_pool = Some (None, p') \<and> elHeadHash (elClients p' ! 0) = 5"
proof -
  have "map_option fst (elProcessBlock (\<lambda>_. Inr 4) 0 5 6 None el_demo_pool) = Some None" by code_simp
  then obtain p' where p': "elProcessBlock (\<lambda>_. Inr 4) 0 5 6 None el_demo_pool = Some (None, p')" by auto
  have demo: "cache_inv elHash elNumber (elCache el_demo_pool)" "0 < length (elClients el_demo_pool)"
    by (simp_all add: el_demo_pool_def elNewPool_def NewBlockCache_def elAddEndpoint_def cache_inv_def)
  from execution_block_processed [OF demo(1) _ demo(2) p'] p' show ?thesis by simp
qed

section \<open>The client pool\<close>

record ('b, 'v) client_pool =
  cpConsensus :: "('b, 'v) cl_pool"
  cpExecution :: el_pool
  cpClients :: "(string \<times> nat \<times> nat) list"

definition NewClientPool :: "string + ('b, 'v) client_pool" where
  "NewClientPool =
     (case NewPool 10 1 '''' of
        Inl e \<Rightarrow> Inl (''could not init consensus pool: '' @ e)
      | Inr cons \<Rightarrow>
          (case elNewPool 10 1 '''' of
             Inl e \<Rightarrow> Inl (''could not init execution pool: '' @ e)
           | Inr exec \<Rightarrow> Inr \<lparr>cpConsensus = cons, cpExecution = exec, cpClients = []\<rparr>))"

text \<open>The arguments say whether the RPC libraries accept the two endpoints of the client.\<close>

definition AddClient :: "string \<Rightarrow> go_error \<Rightarrow> go_error \<Rightarrow> ('b, 'v) client_pool \<Rightarrow> go_error \<times> ('b, 'v) client_pool" where
  "AddClient name consensusErr executionErr p =
     (let endpoint = (\<lambda>err. case err of Some e \<Rightarrow> Inl e | None \<Rightarrow> Inr name)
      in case AddEndpoint (endpoint consensusErr) (cpConsensus p) of
           (Inl e, cons) \<Rightarrow> (Some (''could not init consensus client: '' @ e), p\<lparr>cpConsensus := cons\<rparr>)
         | (Inr ci, cons) \<Rightarrow>
             (case elAddEndpoint (endpoint executionErr) (cpExecution p) of
                (Inl e, exec) \<Rightarrow>
                  (Some (''could not init consensus client: '' @ e), p\<lparr>cpConsensus := cons, cpExecution := exec\<rparr>)
              | (Inr ei, exec) \<Rightarrow>
                  (None, p\<lparr>cpConsensus := cons, cpExecution := exec, cpClients := cpClients p @ [(name, ci, ei)]\<rparr>)))"

text \<open>
  One consensus block passed on to the execution client: the body must arrive within the timeout and
  hold an execution payload, of which \<open>payload\<close> reads hash and number.
\<close>

definition notifyExecution ::
    "('b \<Rightarrow> string + root \<times> u64) \<Rightarrow> 'b option \<Rightarrow> nat \<Rightarrow> el_pool \<Rightarrow> el_pool option" where
  "notifyExecution payload awaited ei p =
     (case awaited of
        None \<Rightarrow> Some p
      | Some body \<Rightarrow>
          (case payload body of
             Inl e \<Rightarrow> Some p
           | Inr (hash, number) \<Rightarrow>
               map_option (\<lambda>cl. elModClient ei (\<lambda>_. cl) p) (NotifyNewBlock hash number (elClients p ! ei))))"

fun swapAll :: "(nat \<times> nat) list \<Rightarrow> 'a list \<Rightarrow> 'a list" where
  "swapAll [] xs = xs"
| "swapAll ((i, v) # ps) xs = swapAll ps (xs[v := xs ! i, i := xs ! v])"

text \<open>\<open>matchString\<close> is \<open>regexp.MatchString\<close>, False for an invalid pattern; \<open>perm\<close> is \<open>rand.Perm\<close>.\<close>

definition GetClientsByNamePatterns ::
    "(string \<Rightarrow> string \<Rightarrow> bool) \<Rightarrow> (nat \<Rightarrow> nat list) \<Rightarrow> string \<Rightarrow> string \<Rightarrow> ('b, 'v) client_pool \<Rightarrow> (string \<times> nat \<times> nat) list" where
  "GetClientsByNamePatterns matchString perm includePattern excludePattern p =
     (let cs = filter (\<lambda>(name, _). (includePattern \<noteq> '''' \<longrightarrow> matchString includePattern name) \<and>
                 (excludePattern \<noteq> '''' \<longrightarrow> \<not> matchString excludePattern name)) (cpClients p)
      in swapAll (enumerate 0 (perm (length cs))) cs)"

lemma mset_swapAll: "\<forall>(i, v) \<in> set ps. i < length xs \<and> v < length xs \<Longrightarrow> mset (swapAll ps xs) = mset xs"
proof (induction ps arbitrary: xs)
  case (Cons iv ps)
  obtain i v where iv: "iv = (i, v)" by (cases iv)
  then have "mset (xs[v := xs ! i, i := xs ! v]) = mset xs"
    using Cons.prems by (auto intro: mset_swap)
  then show ?case using Cons.IH [of "xs[v := xs ! i, i := xs ! v]"] Cons.prems iv by simp
qed simp

text \<open>The selection returns the clients whose name fits, each once, in some order.\<close>

lemma GetClientsByNamePatterns_mset:
  assumes "\<And>n. length (perm n) = n \<and> (\<forall>v \<in> set (perm n). v < n)"
  shows "mset (GetClientsByNamePatterns matchString perm inc exc p) =
    {# c \<in># mset (cpClients p). (inc \<noteq> '''' \<longrightarrow> matchString inc (fst c)) \<and> (exc \<noteq> '''' \<longrightarrow> \<not> matchString exc (fst c)) #}"
proof -
  let ?cs = "filter (\<lambda>(name, _). (inc \<noteq> '''' \<longrightarrow> matchString inc name) \<and> (exc \<noteq> '''' \<longrightarrow> \<not> matchString exc name)) (cpClients p)"
  have "\<forall>(i, v) \<in> set (enumerate 0 (perm (length ?cs))). i < length ?cs \<and> v < length ?cs"
    using assms [of "length ?cs"] by (auto simp: in_set_enumerate_eq)
  then have "mset (GetClientsByNamePatterns matchString perm inc exc p) = mset ?cs"
    unfolding GetClientsByNamePatterns_def Let_def by (rule mset_swapAll)
  then show ?thesis by (simp add: case_prod_unfold)
qed

text \<open>
  When the execution endpoint is refused, the consensus client has already been added to its pool and
  stays there without a client of the pool.
\<close>

lemma AddClient_leaves_consensus_client:
  "\<exists>p'. AddClient name None (Some e) p = (Some (''could not init consensus client: '' @ e), p') \<and>
     length (clients (cpConsensus p')) = Suc (length (clients (cpConsensus p))) \<and> cpClients p' = cpClients p"
  by (simp add: AddClient_def AddEndpoint_def elAddEndpoint_def Let_def)

end
