(* ===== verification/Wallet.thy ===== *)
theory Wallet
  imports ExecutionClients
begin

text \<open>
  Wallets (\<open>wallet/wallet.go\<close>, \<open>wallet/manager.go\<close>, \<open>wallet/walletpool.go\<close>): nonces and balances of an
  account as transactions are built, sent, included and received, the goroutines that wait for an
  inclusion, the processing of blocks by the manager, and the funding of child wallets. Keys and
  signatures, the transaction and receipt types of go-ethereum and the answers of the nodes are
  arguments; amounts are unbounded integers as \<open>big.Int\<close> is.
\<close>

section \<open>Data\<close>

record tx =
  txNonce :: u64
  txValue :: int
  txHash :: root
  txTo :: "root option"

record receipt =
  rTxHash :: root
  rEffectiveGasPrice :: int
  rGasUsed :: u64

text \<open>
  A \<open>nonceStatus\<close> is an object at an address of \<open>wStatuses\<close>, shared by the wallet's map and those who
  wait for it. \<open>wReadyClosed\<close> says whether the present \<open>readyChan\<close> is closed. A wallet address is
  given as a number, a private key as its bytes. Balances are nil until the state is loaded, which is when
  \<open>wReady\<close> is set.
\<close>

record nonceStatus =
  nsReceipt :: "receipt option"
  nsClosed :: bool

record wallet =
  wAddress :: root
  wPrivkey :: "string option"
  wReady :: bool
  wSyncing :: bool
  wReadyClosed :: bool
  pendingNonce :: u64
  pendingBalance :: int
  confirmedNonce :: u64
  confirmedBalance :: int
  lastConfirmation :: u64
  wStatuses :: "nonceStatus list"
  txNonceChans :: "(u64 \<times> nat) list"

definition loadState :: "wallet \<Rightarrow> wallet" where
  "loadState w = (if wSyncing w then w else w\<lparr>wSyncing := True, wReadyClosed := False\<rparr>)"

definition newWallet :: "root \<Rightarrow> wallet" where
  "newWallet address =
     loadState \<lparr>wAddress = address, wPrivkey = None, wReady = False, wSyncing = False, wReadyClosed = False, pendingNonce = 0,
       pendingBalance = 0, confirmedNonce = 0, confirmedBalance = 0, lastConfirmation = 0, wStatuses = [], txNonceChans = []\<rparr>"

text \<open>The end of the loading goroutine, with the nonce and the balance the node has answered.\<close>

definition stateLoaded :: "u64 \<Rightarrow> int \<Rightarrow> wallet \<Rightarrow> wallet" where
  "stateLoaded nonce balance w =
     w\<lparr>pendingNonce := nonce, confirmedNonce := nonce, pendingBalance := balance, confirmedBalance := balance,
       wReady := True, wSyncing := False, wReadyClosed := True\<rparr>"

definition ResyncState :: "wallet \<Rightarrow> wallet" where
  "ResyncState w = loadState w"

text \<open>
  Waiting for the wallet: None while neither the context has ended nor the state is loaded; when both
  have happened either may win.
\<close>

definition AwaitReady :: "go_error \<Rightarrow> bool \<Rightarrow> wallet \<Rightarrow> go_error option" where
  "AwaitReady ctxErr pickCtx w =
     (if wReadyClosed w \<and> (ctxErr = None \<or> \<not> pickCtx) then Some None
      else if ctxErr \<noteq> None then Some ctxErr else None)"

definition UseNextNonce :: "bool \<Rightarrow> wallet \<Rightarrow> u64 \<times> wallet" where
  "UseNextNonce increase w =
     (pendingNonce w, if increase then w\<lparr>pendingNonce := pendingNonce w + 1\<rparr> else w)"

section \<open>Printing a balance\<close>

definition trimRightZeros :: "string \<Rightarrow> string" where
  "trimRightZeros s = rev (dropWhile ((=) CHR ''0'') (rev s))"

text \<open>
  Integer part and fraction of the printed number \<open>s\<close>, and the digits left for the fraction. All
  length arguments are non-negative.
\<close>

definition splitAmount :: "nat \<Rightarrow> nat \<Rightarrow> nat \<Rightarrow> string \<Rightarrow> string \<times> string \<times> nat" where
  "splitAmount unitDigits maxPre digits s =
     (let l = length s
      in if l > unitDigits
         then let pre = l - unitDigits;
                  digits' = (if maxPre > 0 \<and> pre > maxPre
                             then let over = pre - maxPre in if digits < over then 0 else digits - over
                             else digits)
              in (take pre s, trimRightZeros (drop pre s), digits')
         else if l = unitDigits then (''0'', trimRightZeros s, digits)
         else if l \<noteq> 0 then (''0'', trimRightZeros (replicate (unitDigits - l) (CHR ''0'') @ s), digits)
         else (''0'', ''0'', digits))"

definition GetReadableBalance :: "nat \<Rightarrow> nat \<Rightarrow> nat \<Rightarrow> bool \<Rightarrow> bool \<Rightarrow> wallet \<Rightarrow> string" where
  "GetReadableBalance unitDigits maxPre digits addPositiveSign trimAmount w =
     (if \<not> wReady w then (if trimAmount then ''0'' else '''')
      else
      let amount = pendingBalance w;
          proceed = (if amount > 0 \<and> addPositiveSign then ''+'' else if amount < 0 then ''-'' else '''');
          (pre, post, digits') = splitAmount unitDigits maxPre digits (showNat (nat \<bar>amount\<bar>));
          full = (if post \<noteq> '''' then pre @ ''.'' @ post else pre);
          post' = take digits' post;
          trimmed = (if post' \<noteq> '''' then pre @ ''.'' @ post' else pre)
      in proceed @ (if trimAmount then trimmed else full))"

section \<open>Building and sending\<close>

text \<open>
  \<open>built\<close> is the transaction the caller's function makes with the nonce it is given, \<open>signErr\<close> the
  result of signing it. The build mutex makes the call one step.
\<close>

definition BuildTransaction ::
    "go_error \<Rightarrow> bool \<Rightarrow> (u64 \<Rightarrow> string + tx) \<Rightarrow> go_error \<Rightarrow> wallet \<Rightarrow> ((string + tx) \<times> wallet) option" where
  "BuildTransaction ctxErr pickCtx buildFn signErr w =
     (case AwaitReady ctxErr pickCtx w of
        None \<Rightarrow> None
      | Some (Some e) \<Rightarrow> Some (Inl e, w)
      | Some None \<Rightarrow>
          (case buildFn (pendingNonce w) of
             Inl e \<Rightarrow> Some (Inl e, w)
           | Inr tx \<Rightarrow>
               (case signErr of
                  Some e \<Rightarrow> Some (Inl e, w)
                | None \<Rightarrow>
                    let w1 = (if pendingNonce w < txNonce tx + 1 then w\<lparr>pendingNonce := txNonce tx + 1\<rparr> else w)
                    in Some (Inr tx, w1\<lparr>pendingBalance := pendingBalance w1 - txValue tx\<rparr>))))"

definition getTxNonceChan :: "u64 \<Rightarrow> wallet \<Rightarrow> nat option \<times> wallet" where
  "getTxNonceChan targetNonce w =
     (if confirmedNonce w > targetNonce then (None, w)
      else case map_of (txNonceChans w) targetNonce of
             Some a \<Rightarrow> (Some a, w)
           | None \<Rightarrow>
               let a = length (wStatuses w)
               in (Some a, w\<lparr>wStatuses := wStatuses w @ [\<lparr>nsReceipt = None, nsClosed = False\<rparr>],
                            txNonceChans := AList.update targetNonce a (txNonceChans w)\<rparr>))"

text \<open>
  What a waiter returns once its channel is closed: the receipt if it is that of the transaction,
  nothing for another transaction with the nonce, and else whatever \<open>loadTransactionReceipt\<close> finds.
\<close>

definition awaitedReceipt :: "receipt option \<Rightarrow> tx \<Rightarrow> nonceStatus option \<Rightarrow> receipt option" where
  "awaitedReceipt loaded tx status =
     (case status of
        None \<Rightarrow> loaded
      | Some st \<Rightarrow>
          (case nsReceipt st of
             Some r \<Rightarrow> if rTxHash r = txHash tx then Some r else None
           | None \<Rightarrow> loaded))"

definition awaitTransaction ::
    "go_error \<Rightarrow> bool \<Rightarrow> nat option \<Rightarrow> receipt option \<Rightarrow> tx \<Rightarrow> wallet \<Rightarrow> (string + receipt option) option" where
  "awaitTransaction ctxErr pickCtx nonceChan loaded tx w =
     (case nonceChan of
        None \<Rightarrow> Some (Inr (awaitedReceipt loaded tx None))
      | Some a \<Rightarrow>
          if nsClosed (wStatuses w ! a) \<and> (ctxErr = None \<or> \<not> pickCtx) then Some (Inr (awaitedReceipt loaded tx (Some (wStatuses w ! a))))
          else (case ctxErr of Some e \<Rightarrow> Some (Inl e) | None \<Rightarrow> None))"

text \<open>
  The start of \<open>SendTransaction\<close> when a confirmation is wanted: it waits until the goroutine has its
  channel. If the wait for the wallet fails, the goroutine ends without saying so and the call never
  goes on: None.
\<close>

definition confirmStart :: "go_error \<Rightarrow> bool \<Rightarrow> u64 \<Rightarrow> wallet \<Rightarrow> (nat option \<times> wallet) option" where
  "confirmStart ctxErr pickCtx nonce w =
     (case AwaitReady ctxErr pickCtx w of
        None \<Rightarrow> None
      | Some (Some e) \<Rightarrow> None
      | Some None \<Rightarrow> Some (getTxNonceChan nonce w))"

text \<open>
  The clients tried one after the other from an offset until one takes the transaction; \<open>attempt\<close> is
  the answer of a client. The list of clients tried comes with the result.
\<close>

fun tryClients :: "nat list \<Rightarrow> (nat \<Rightarrow> go_error) \<Rightarrow> u64 \<Rightarrow> nat \<Rightarrow> nat \<Rightarrow> go_error \<Rightarrow> go_error \<times> nat list" where
  "tryClients cs attempt offset i 0 err = (err, [])"
| "tryClients cs attempt offset i (Suc n) err =
     (let client = cs ! unat ((of_nat i + offset) mod of_nat (length cs));
          err' = attempt client
      in if err' = None then (None, [client])
         else let (e, tried) = tryClients cs attempt offset (i + 1) n err' in (e, client # tried))"

definition SendTransaction ::
    "go_error \<Rightarrow> bool \<Rightarrow> nat list \<Rightarrow> u64 \<Rightarrow> bool \<Rightarrow> (nat \<Rightarrow> go_error) \<Rightarrow> tx \<Rightarrow> wallet \<Rightarrow> ((go_error \<times> nat list) \<times> wallet) option" where
  "SendTransaction ctxErr pickCtx cs offset confirm attempt tx w =
     (let sent = tryClients cs attempt offset 0 (length cs) None
      in if confirm then map_option (\<lambda>(ch, w1). (sent, w1)) (confirmStart ctxErr pickCtx (txNonce tx) w)
         else Some (sent, w))"

text \<open>The rebroadcasts before the confirmation, one round over the clients each, every round one client further on.\<close>

definition rebroadcasts :: "nat list \<Rightarrow> (nat \<Rightarrow> nat \<Rightarrow> go_error) \<Rightarrow> u64 \<Rightarrow> nat \<Rightarrow> (go_error \<times> nat list) list" where
  "rebroadcasts cs attempt offset rounds =
     map (\<lambda>i. tryClients cs (attempt i) (of_nat i + offset + 1) 0 (length cs) None) [0..<rounds]"

section \<open>Processing blocks\<close>

fun closeChans :: "(u64 \<Rightarrow> bool) \<Rightarrow> (u64 \<times> nat) list \<Rightarrow> nonceStatus list \<Rightarrow> nonceStatus list" where
  "closeChans P [] sts = sts"
| "closeChans P ((n, a) # cs) sts = closeChans P cs (if P n then sts[a := (sts ! a)\<lparr>nsClosed := True\<rparr>] else sts)"

definition setReceipt :: "receipt option \<Rightarrow> u64 \<Rightarrow> wallet \<Rightarrow> wallet" where
  "setReceipt r nonce w =
     (case map_of (txNonceChans w) nonce of
        None \<Rightarrow> w
      | Some a \<Rightarrow> w\<lparr>wStatuses := (wStatuses w)[a := (wStatuses w ! a)\<lparr>nsReceipt := r\<rparr>]\<rparr>)"

definition releaseChans :: "(u64 \<Rightarrow> bool) \<Rightarrow> wallet \<Rightarrow> wallet" where
  "releaseChans P w =
     w\<lparr>wStatuses := closeChans P (txNonceChans w) (wStatuses w), txNonceChans := filter (\<lambda>(n, a). \<not> P n) (txNonceChans w)\<rparr>"

definition txFee :: "receipt \<Rightarrow> int" where
  "txFee r = rEffectiveGasPrice r * uint (rGasUsed r)"

definition processTransactionInclusion :: "u64 \<Rightarrow> tx \<Rightarrow> receipt option \<Rightarrow> wallet \<Rightarrow> wallet" where
  "processTransactionInclusion blockNumber tx r w =
     (if \<not> wReady w then w
      else
        let nonce = txNonce tx
        in if confirmedNonce w > nonce then w
           else
             let w1 = w\<lparr>lastConfirmation := blockNumber\<rparr>;
                 w2 = (case r of
                         None \<Rightarrow> w1
                       | Some rc \<Rightarrow> w1\<lparr>confirmedBalance := confirmedBalance w1 - txValue tx - txFee rc,
                                     pendingBalance := pendingBalance w1 - txFee rc\<rparr>);
                 w3 = releaseChans (\<lambda>n. n \<le> nonce) (setReceipt r nonce w2);
                 w4 = w3\<lparr>confirmedNonce := nonce + 1\<rparr>
             in if confirmedNonce w4 > pendingNonce w4
                then w4\<lparr>pendingNonce := confirmedNonce w4, pendingBalance := confirmedBalance w4\<rparr>
                else w4)"

text \<open>\<open>nonceAt\<close> is the answer of the first client that has seen the block; without one the code panics.\<close>

definition processStaleConfirmations :: "u64 \<Rightarrow> (string + u64) option \<Rightarrow> wallet \<Rightarrow> wallet option" where
  "processStaleConfirmations blockNumber nonceAt w =
     (if \<not> wReady w then Some w
      else if txNonceChans w \<noteq> [] \<and> blockNumber > lastConfirmation w + 10
      then (case nonceAt of
              None \<Rightarrow> None
            | Some answer \<Rightarrow>
                let w1 = w\<lparr>lastConfirmation := blockNumber\<rparr>
                in Some (case answer of
                           Inl e \<Rightarrow> w1
                         | Inr lastNonce \<Rightarrow>
                             if confirmedNonce w1 \<ge> lastNonce then w1 else releaseChans (\<lambda>n. n < lastNonce) w1))
      else Some w)"

definition processTransactionReceival :: "tx \<Rightarrow> wallet \<Rightarrow> wallet" where
  "processTransactionReceival tx w =
     (if \<not> wReady w then w
      else w\<lparr>pendingBalance := pendingBalance w + txValue tx, confirmedBalance := confirmedBalance w + txValue tx\<rparr>)"

text \<open>
  The retry loop of \<open>loadTransactionReceipt\<close> and \<open>loadBlockReceipts\<close>: up to six tries over the clients in
  turn; \<open>answers\<close> gives the result of a client at a try. Without clients the remainder panics: None.
\<close>

fun retryLoad :: "nat list \<Rightarrow> (nat \<Rightarrow> nat \<Rightarrow> string + 'a) \<Rightarrow> nat \<Rightarrow> nat \<Rightarrow> 'a option" where
  "retryLoad cs answers retryCount 0 = None"
| "retryLoad cs answers retryCount (Suc n) =
     (case answers retryCount (cs ! (retryCount mod length cs)) of
        Inr r \<Rightarrow> Some r
      | Inl e \<Rightarrow> retryLoad cs answers (retryCount + 1) n)"

definition loadReceipt :: "nat list \<Rightarrow> nat list \<Rightarrow> (nat \<Rightarrow> nat \<Rightarrow> string + 'a) \<Rightarrow> 'a option option" where
  "loadReceipt seenBy ready answers =
     (let cs = (if seenBy = [] then ready else seenBy)
      in if cs = [] then None else Some (retryLoad cs answers 0 6))"

section \<open>Waiting for a nonce\<close>

text \<open>
  The channels of the map are open and each stands once; every other status that was ever handed out is
  closed. So no channel is closed twice, which would panic.
\<close>

definition chans_inv :: "wallet \<Rightarrow> bool" where
  "chans_inv w \<longleftrightarrow> distinct (map fst (txNonceChans w)) \<and> distinct (map snd (txNonceChans w)) \<and>
     (\<forall>a < length (wStatuses w). nsClosed (wStatuses w ! a) \<longleftrightarrow> a \<notin> snd ` set (txNonceChans w)) \<and>
     snd ` set (txNonceChans w) \<subseteq> {..<length (wStatuses w)}"

lemma chans_inv_cong:
  "\<lbrakk>txNonceChans w' = txNonceChans w; wStatuses w' = wStatuses w\<rbrakk> \<Longrightarrow> chans_inv w' = chans_inv w"
  by (simp add: chans_inv_def)

lemma length_closeChans [simp]: "length (closeChans P cs sts) = length sts"
  by (induction P cs sts rule: closeChans.induct) auto

lemma closeChans_nth:
  "a < length sts \<Longrightarrow> snd ` set cs \<subseteq> {..<length sts} \<Longrightarrow>
   closeChans P cs sts ! a = (if \<exists>n. (n, a) \<in> set cs \<and> P n then (sts ! a)\<lparr>nsClosed := True\<rparr> else sts ! a)"
  by (induction P cs sts rule: closeChans.induct) (auto simp: nth_list_update)

lemma snd_filter_key:
  "distinct (map snd cs) \<Longrightarrow> (n, a) \<in> set cs \<Longrightarrow> a \<in> snd ` set (filter (\<lambda>(n, a). \<not> P n) cs) \<longleftrightarrow> \<not> P n"
  by (force dest: eq_key_imp_eq_value simp: distinct_map inj_on_def)

lemma releaseChans_inv:
  assumes "chans_inv w"
  shows "chans_inv (releaseChans P w)"
proof -
  let ?cs = "txNonceChans w" and ?sts = "wStatuses w"
  have d: "distinct (map snd ?cs)" and r: "snd ` set ?cs \<subseteq> {..<length ?sts}"
    and c: "\<forall>a < length ?sts. nsClosed (?sts ! a) \<longleftrightarrow> a \<notin> snd ` set ?cs"
    using assms by (auto simp: chans_inv_def)
  have "nsClosed (closeChans P ?cs ?sts ! a) \<longleftrightarrow> a \<notin> snd ` set (filter (\<lambda>(n, a). \<not> P n) ?cs)"
    if "a < length ?sts" for a
  proof (cases "a \<in> snd ` set ?cs")
    case True
    then obtain n where n: "(n, a) \<in> set ?cs" by auto
    have "(\<exists>m. (m, a) \<in> set ?cs \<and> P m) \<longleftrightarrow> P n"
      using n d by (force simp: distinct_map inj_on_def)
    with n that r c True show ?thesis by (simp add: closeChans_nth snd_filter_key [OF d n] del: set_filter)
  next
    case False
    then have "\<nexists>m. (m, a) \<in> set ?cs \<and> P m" by force
    with that r c False show ?thesis by (auto simp: closeChans_nth)
  qed
  with assms show ?thesis
    by (auto simp: chans_inv_def releaseChans_def distinct_map inj_on_def)
qed

lemma nsClosed_setReceipt [simp]:
  "b < length (wStatuses w) \<Longrightarrow> nsClosed (wStatuses (setReceipt r n w) ! b) = nsClosed (wStatuses w ! b)"
proof (cases "map_of (txNonceChans w) n")
  case (Some a)
  then show "b < length (wStatuses w) \<Longrightarrow> ?thesis" by (cases "a = b") (simp_all add: setReceipt_def)
qed (simp add: setReceipt_def)

lemma setReceipt_simps [simp]:
  "txNonceChans (setReceipt r n w) = txNonceChans w"
  "length (wStatuses (setReceipt r n w)) = length (wStatuses w)"
  "confirmedNonce (setReceipt r n w) = confirmedNonce w" "pendingNonce (setReceipt r n w) = pendingNonce w"
  "confirmedBalance (setReceipt r n w) = confirmedBalance w" "pendingBalance (setReceipt r n w) = pendingBalance w"
  "wReady (setReceipt r n w) = wReady w"
  by (auto simp: setReceipt_def split: option.splits)

lemma setReceipt_inv: "chans_inv w \<Longrightarrow> chans_inv (setReceipt r n w)"
  by (simp add: chans_inv_def)

lemma getTxNonceChan_inv:
  "chans_inv w \<Longrightarrow> chans_inv (snd (getTxNonceChan n w))"
  by (auto simp: chans_inv_def getTxNonceChan_def Let_def nth_append map_of_eq_None_iff update_new less_Suc_eq
      split: option.splits)

text \<open>A status handed out for a nonce is in the map under it, or closed.\<close>

definition waits_for :: "nat \<Rightarrow> u64 \<Rightarrow> wallet \<Rightarrow> bool" where
  "waits_for a n w \<longleftrightarrow> a < length (wStatuses w) \<and> (nsClosed (wStatuses w ! a) \<or> (n, a) \<in> set (txNonceChans w))"

lemma getTxNonceChan_waits:
  "chans_inv w \<Longrightarrow> getTxNonceChan n w = (Some a, w') \<Longrightarrow> waits_for a n w'"
  by (auto simp: chans_inv_def getTxNonceChan_def waits_for_def Let_def map_of_eq_None_iff update_new
      dest: map_of_SomeD split: if_splits option.splits)

lemma getTxNonceChan_keeps_waits: "waits_for a n w \<Longrightarrow> waits_for a n (snd (getTxNonceChan m w))"
  by (auto simp: getTxNonceChan_def waits_for_def Let_def nth_append map_of_eq_None_iff update_new split: option.splits)

lemma releaseChans_waits:
  assumes "chans_inv w" "waits_for a n w"
  shows "waits_for a n (releaseChans P w)"
proof -
  have "snd ` set (txNonceChans w) \<subseteq> {..<length (wStatuses w)}" using assms by (simp add: chans_inv_def)
  with assms(2) show ?thesis by (auto simp: waits_for_def releaseChans_def closeChans_nth)
qed

lemma setReceipt_waits: "waits_for a n w \<Longrightarrow> waits_for a n (setReceipt r m w)"
  by (auto simp: waits_for_def)

lemma waits_for_cong:
  "\<lbrakk>txNonceChans w' = txNonceChans w; wStatuses w' = wStatuses w\<rbrakk> \<Longrightarrow> waits_for a n w' = waits_for a n w"
  by (simp add: waits_for_def)

lemma releaseChans_simps [simp]:
  "confirmedNonce (releaseChans P w) = confirmedNonce w" "pendingNonce (releaseChans P w) = pendingNonce w"
  "confirmedBalance (releaseChans P w) = confirmedBalance w" "pendingBalance (releaseChans P w) = pendingBalance w"
  "wReady (releaseChans P w) = wReady w"
  "txNonceChans (releaseChans P w) = filter (\<lambda>(n, a). \<not> P n) (txNonceChans w)"
  by (simp_all add: releaseChans_def)

section \<open>The fields after an operation\<close>

text \<open>The channels after an inclusion are those of the release, whatever the balances became.\<close>

lemma inclusion_chans:
  fixes bn and r
  assumes "wReady w" "confirmedNonce w \<le> txNonce tx"
  defines "w' \<equiv> processTransactionInclusion bn tx r w"
  shows "chans_inv w \<Longrightarrow> chans_inv w'"
    and "chans_inv w \<Longrightarrow> waits_for a n w \<Longrightarrow> waits_for a n w'"
    and "txNonceChans w' = filter (\<lambda>(n, a). \<not> n \<le> txNonce tx) (txNonceChans w)"
proof -
  let ?w = "releaseChans (\<lambda>n. n \<le> txNonce tx) (setReceipt r (txNonce tx) w)"
  have eq: "txNonceChans w' = txNonceChans ?w" "wStatuses w' = wStatuses ?w"
    using assms by (auto simp: processTransactionInclusion_def setReceipt_def releaseChans_def Let_def split: option.splits)
  show "chans_inv w \<Longrightarrow> chans_inv w'"
    using chans_inv_cong [OF eq] by (simp add: releaseChans_inv setReceipt_inv)
  show "chans_inv w \<Longrightarrow> waits_for a n w \<Longrightarrow> waits_for a n w'"
    using waits_for_cong [OF eq] by (simp add: releaseChans_waits setReceipt_inv setReceipt_waits)
  show "txNonceChans w' = filter (\<lambda>(n, a). \<not> n \<le> txNonce tx) (txNonceChans w)"
    using eq(1) by simp
qed

lemma BuildTransaction_cases:
  assumes "BuildTransaction ctxErr pickCtx buildFn signErr w = Some (res, w')"
  obtains (failed) e where "res = Inl e" "w' = w"
  | (built) tx where "res = Inr tx" "buildFn (pendingNonce w) = Inr tx"
      "w' = w\<lparr>pendingNonce := if pendingNonce w < txNonce tx + 1 then txNonce tx + 1 else pendingNonce w,
             pendingBalance := pendingBalance w - txValue tx\<rparr>"
proof (cases "AwaitReady ctxErr pickCtx w")
  case None
  with assms show thesis by (simp add: BuildTransaction_def)
next
  case (Some err)
  show thesis
  proof (cases err)
    case (Some e)
    with \<open>AwaitReady ctxErr pickCtx w = Some err\<close> assms show thesis by (intro failed [of e]) (simp_all add: BuildTransaction_def)
  next
    case None
    note b = assms [unfolded BuildTransaction_def \<open>AwaitReady ctxErr pickCtx w = Some err\<close> None, simplified]
    show thesis
    proof (cases "buildFn (pendingNonce w)")
      case (Inl e)
      with b show thesis by (intro failed [of e]) simp_all
    next
      case (Inr tx)
      show thesis
      proof (cases signErr)
        case None
        from b Inr None show thesis
          by (intro built [of tx]) (auto simp: Let_def)
      next
        case (Some e)
        with b Inr show thesis by (intro failed [of e]) simp_all
      qed
    qed
  qed
qed

lemma getTxNonceChan_frame [simp]:
  "confirmedNonce (snd (getTxNonceChan n w)) = confirmedNonce w" "pendingNonce (snd (getTxNonceChan n w)) = pendingNonce w"
  "confirmedBalance (snd (getTxNonceChan n w)) = confirmedBalance w"
  "pendingBalance (snd (getTxNonceChan n w)) = pendingBalance w" "wReady (snd (getTxNonceChan n w)) = wReady w"
  by (auto simp: getTxNonceChan_def Let_def split: option.splits)

lemma getTxNonceChan_keys:
  "k \<in> fst ` set (txNonceChans (snd (getTxNonceChan n w))) \<Longrightarrow>
   k \<in> fst ` set (txNonceChans w) \<or> k = n \<and> confirmedNonce w \<le> n"
  by (force simp: getTxNonceChan_def Let_def map_of_eq_None_iff update_new split: option.splits if_splits)

lemma stale_cases:
  assumes "processStaleConfirmations bn ans w = Some w'"
  obtains (same) "w' = w"
  | (marked) l where "w' = w\<lparr>lastConfirmation := l\<rparr>"
  | (released) l below where "w' = releaseChans (\<lambda>n. n < below) (w\<lparr>lastConfirmation := l\<rparr>)"
  using assms
  by (auto simp: processStaleConfirmations_def Let_def split: if_splits option.splits sum.splits)

end
