(* ===== verification/WalletLedger.thy ===== *)
theory WalletLedger
  imports Wallet
begin

text \<open>
  What the nonces and balances of a wallet (\<open>wallet/wallet.go\<close>) mean. A wallet is run beside a ledger of what has happened since its state was last loaded: the transactions it has built,
  seen included and received. The steps are all calls on a wallet, in any order and with any arguments. The balances it reports are those of the ledger, and who waits
  for a nonce is released by its inclusion.
\<close>

section \<open>Steps\<close>

text \<open>
  \<open>lgIncluded\<close> are the inclusions taken since the last load, with the receipts that were available. \<open>lgBuilt\<close> and \<open>lgSettled\<close> are the transactions built and those included with a receipt
  since the pending balance was last set to the confirmed one.
\<close>

record ledger =
  lgWallet :: wallet
  lgLoaded :: int
  lgReceived :: "tx list"
  lgIncluded :: "(tx \<times> receipt option) list"
  lgBuilt :: "tx list"
  lgSettled :: "tx list"

definition takes :: "tx \<Rightarrow> wallet \<Rightarrow> bool" where
  "takes tx w \<longleftrightarrow> wReady w \<and> confirmedNonce w \<le> txNonce tx"

definition catchesUp :: "tx \<Rightarrow> wallet \<Rightarrow> bool" where
  "catchesUp tx w \<longleftrightarrow> pendingNonce w < txNonce tx + 1"

definition ledgerInclude :: "u64 \<Rightarrow> tx \<Rightarrow> receipt option \<Rightarrow> ledger \<Rightarrow> ledger" where
  "ledgerInclude bn tx r l =
     (let l1 = l\<lparr>lgWallet := processTransactionInclusion bn tx r (lgWallet l)\<rparr>
      in if \<not> takes tx (lgWallet l) then l1
         else let l2 = l1\<lparr>lgIncluded := (tx, r) # lgIncluded l\<rparr>
              in if catchesUp tx (lgWallet l) then l2\<lparr>lgBuilt := [], lgSettled := []\<rparr>
                 else if r = None then l2 else l2\<lparr>lgSettled := tx # lgSettled l\<rparr>)"

definition ledgerReceive :: "tx \<Rightarrow> ledger \<Rightarrow> ledger" where
  "ledgerReceive tx l =
     l\<lparr>lgWallet := processTransactionReceival tx (lgWallet l), lgReceived := (if wReady (lgWallet l) then tx # lgReceived l else lgReceived l)\<rparr>"

definition ledgerLoad :: "u64 \<Rightarrow> int \<Rightarrow> ledger \<Rightarrow> ledger" where
  "ledgerLoad nonce balance l =
     \<lparr>lgWallet = stateLoaded nonce balance (lgWallet l), lgLoaded = balance, lgReceived = [], lgIncluded = [], lgBuilt = [], lgSettled = []\<rparr>"

text \<open>Nonces taken one by one end below the last value (EIP-2681). The load of the state ends while it is under way.\<close>

inductive wallet_step :: "ledger \<Rightarrow> ledger \<Rightarrow> bool" where
  build: "BuildTransaction ctxErr pickCtx buildFn signErr (lgWallet l) = Some (Inr tx, w') \<Longrightarrow>
     wallet_step l (l\<lparr>lgWallet := w', lgBuilt := tx # lgBuilt l\<rparr>)"
| build_error: "BuildTransaction ctxErr pickCtx buildFn signErr (lgWallet l) = Some (Inl e, w') \<Longrightarrow>
     wallet_step l (l\<lparr>lgWallet := w'\<rparr>)"
| use_nonce: "\<lbrakk>pendingNonce (lgWallet l) < - 1; UseNextNonce inc (lgWallet l) = (n, w')\<rbrakk> \<Longrightarrow> wallet_step l (l\<lparr>lgWallet := w'\<rparr>)"
| taken: "wallet_step l (ledgerInclude bn tx r l)"
| receive: "wallet_step l (ledgerReceive tx l)"
| await: "wallet_step l (l\<lparr>lgWallet := snd (getTxNonceChan n (lgWallet l))\<rparr>)"
| stale: "processStaleConfirmations bn nonceAt (lgWallet l) = Some w' \<Longrightarrow> wallet_step l (l\<lparr>lgWallet := w'\<rparr>)"
| resync: "wallet_step l (l\<lparr>lgWallet := ResyncState (lgWallet l)\<rparr>)"
| loaded: "wSyncing (lgWallet l) \<Longrightarrow> wallet_step l (ledgerLoad nonce balance l)"

definition startLedger :: "root \<Rightarrow> ledger" where
  "startLedger address = \<lparr>lgWallet = newWallet address, lgLoaded = 0, lgReceived = [], lgIncluded = [], lgBuilt = [], lgSettled = []\<rparr>"

section \<open>Balances and nonces\<close>

definition txValues :: "tx list \<Rightarrow> int" where
  "txValues txs = sum_list (map txValue txs)"

definition spent :: "(tx \<times> receipt option) list \<Rightarrow> int" where
  "spent inc = (\<Sum>(tx, r) \<leftarrow> inc. case r of None \<Rightarrow> 0 | Some rc \<Rightarrow> txValue tx + txFee rc)"

definition ledger_inv :: "ledger \<Rightarrow> bool" where
  "ledger_inv l \<longleftrightarrow>
     confirmedBalance (lgWallet l) = lgLoaded l + txValues (lgReceived l) - spent (lgIncluded l) \<and>
     pendingBalance (lgWallet l) = confirmedBalance (lgWallet l) - (txValues (lgBuilt l) - txValues (lgSettled l)) \<and>
     confirmedNonce (lgWallet l) \<le> pendingNonce (lgWallet l)"

lemma txValues_simps [simp]: "txValues [] = 0" "txValues (tx # txs) = txValue tx + txValues txs"
  by (simp_all add: txValues_def)

lemma spent_simps [simp]: "spent [] = 0" "spent ((tx, r) # inc) = (case r of None \<Rightarrow> 0 | Some rc \<Rightarrow> txValue tx + txFee rc) + spent inc"
  by (simp_all add: spent_def)

lemma ledger_inv_frame:
  "\<lbrakk>ledger_inv l; confirmedBalance w' = confirmedBalance (lgWallet l); pendingBalance w' = pendingBalance (lgWallet l);
    confirmedNonce w' = confirmedNonce (lgWallet l); pendingNonce (lgWallet l) \<le> pendingNonce w'\<rbrakk> \<Longrightarrow> ledger_inv (l\<lparr>lgWallet := w'\<rparr>)"
  by (auto simp: ledger_inv_def)

lemma inclusion_fields:
  fixes bn and r
  assumes "takes tx w"
  defines "w' \<equiv> processTransactionInclusion bn tx r w"
  shows "confirmedNonce w' = txNonce tx + 1" "pendingNonce w' = (if catchesUp tx w then txNonce tx + 1 else pendingNonce w)"
    "confirmedBalance w' = confirmedBalance w - (case r of None \<Rightarrow> 0 | Some rc \<Rightarrow> txValue tx + txFee rc)"
    "pendingBalance w' = (if catchesUp tx w then confirmedBalance w' else pendingBalance w - (case r of None \<Rightarrow> 0 | Some rc \<Rightarrow> txFee rc))"
  using assms by (auto simp: takes_def catchesUp_def processTransactionInclusion_def Let_def split: option.splits)

lemma inclusion_not_taken: "\<not> takes tx w \<Longrightarrow> processTransactionInclusion bn tx r w = w"
  by (auto simp: takes_def processTransactionInclusion_def Let_def)

lemma include_ledger:
  assumes "ledger_inv l"
  shows "ledger_inv (ledgerInclude bn tx r l)"
proof (cases "takes tx (lgWallet l)")
  case True
  note f = inclusion_fields [OF True, of bn r]
  have "txNonce tx + 1 \<le> pendingNonce (lgWallet l)" if "\<not> catchesUp tx (lgWallet l)" using that by (simp add: catchesUp_def)
  then show ?thesis
    using assms True f by (cases r) (simp_all add: ledgerInclude_def ledger_inv_def Let_def)
next
  case False
  then show ?thesis using assms by (simp add: ledgerInclude_def inclusion_not_taken)
qed

lemma ledger_inv_step:
  assumes "wallet_step l l'" "ledger_inv l"
  shows "ledger_inv l'"
  using assms
proof (cases rule: wallet_step.cases)
  case (build ctxErr pickCtx buildFn signErr tx w')
  from build(2) have w: "confirmedBalance w' = confirmedBalance (lgWallet l) \<and> confirmedNonce w' = confirmedNonce (lgWallet l) \<and>
      pendingBalance w' = pendingBalance (lgWallet l) - txValue tx \<and> pendingNonce (lgWallet l) \<le> pendingNonce w'"
    by (cases rule: BuildTransaction_cases) (simp_all add: less_imp_le)
  then have "confirmedNonce w' \<le> pendingNonce w'" using assms(2) by (metis ledger_inv_def order.trans)
  then show ?thesis using assms(2) w unfolding build(1) ledger_inv_def by simp
next
  case (build_error ctxErr pickCtx buildFn signErr e w')
  from build_error(2) have "w' = lgWallet l" by (rule BuildTransaction_cases) simp_all
  with build_error assms show ?thesis by simp
next
  case (use_nonce inc n w')
  have "pendingNonce (lgWallet l) \<le> pendingNonce (lgWallet l) + 1" using unat_succ [OF use_nonce(2)] by (simp add: word_le_nat_alt)
  with use_nonce assms(2) show ?thesis by (auto simp: UseNextNonce_def intro!: ledger_inv_frame)
next
  case (stale bn nonceAt w')
  from stale(2) show ?thesis
    by (cases rule: stale_cases) (use stale(1) assms(2) in \<open>auto intro!: ledger_inv_frame\<close>)
next
  case (taken bn tx r)
  then show ?thesis using assms(2) include_ledger by simp
qed (auto simp: ledgerReceive_def processTransactionReceival_def ledger_inv_def ResyncState_def loadState_def ledgerLoad_def stateLoaded_def)

lemma startLedger_inv: "ledger_inv (startLedger address)"
  by (simp add: ledger_inv_def startLedger_def newWallet_def loadState_def)

text \<open>
  C29. Whatever calls are made on a wallet, in any order and with inclusions of its own or of other transactions, with or without receipts, as long as nonces taken one by one end below the largest number: the confirmed balance is the one last loaded plus
  what was received less the values and fees of the inclusions whose receipts were available, the pending balance is lower by the values built less those settled since it was last set
  to the confirmed one, and the pending nonce is never below the confirmed one.
\<close>

theorem wallet_matches_ledger:
  assumes "wallet_step\<^sup>*\<^sup>* (startLedger address) l"
  shows "confirmedBalance (lgWallet l) = lgLoaded l + sum_list (map txValue (lgReceived l))
           - (\<Sum>(tx, r) \<leftarrow> lgIncluded l. case r of None \<Rightarrow> 0 | Some rc \<Rightarrow> txValue tx + txFee rc) \<and>
         pendingBalance (lgWallet l) = confirmedBalance (lgWallet l) - (sum_list (map txValue (lgBuilt l)) - sum_list (map txValue (lgSettled l))) \<and>
         confirmedNonce (lgWallet l) \<le> pendingNonce (lgWallet l)"
proof -
  have "ledger_inv l" using assms by (induction rule: rtranclp_induct) (auto intro: startLedger_inv ledger_inv_step)
  then show ?thesis by (simp add: ledger_inv_def txValues_def spent_def)
qed

section \<open>Who waits for a nonce\<close>

definition closed_for_good :: "nat \<Rightarrow> wallet \<Rightarrow> bool" where
  "closed_for_good a w \<longleftrightarrow> a < length (wStatuses w) \<and> nsClosed (wStatuses w ! a)"

definition waiting_inv :: "nat \<Rightarrow> u64 \<Rightarrow> wallet \<Rightarrow> bool" where
  "waiting_inv a n w \<longleftrightarrow> chans_inv w \<and> waits_for a n w"

lemma chans_kept:
  assumes "txNonceChans w' = txNonceChans w" "wStatuses w' = wStatuses w"
  shows "chans_inv w' = chans_inv w" "waits_for a n w' = waits_for a n w" "closed_for_good a w' = closed_for_good a w"
  using chans_inv_cong [OF assms] waits_for_cong [OF assms] by (simp_all add: closed_for_good_def assms)

lemma releaseChans_closed: "chans_inv w \<Longrightarrow> closed_for_good a w \<Longrightarrow> closed_for_good a (releaseChans P w)"
  by (auto simp: closed_for_good_def releaseChans_def chans_inv_def closeChans_nth)

lemma inclusion_closed:
  assumes "chans_inv w" "closed_for_good a w"
  shows "closed_for_good a (processTransactionInclusion bn tx r w)"
proof (cases "takes tx w")
  case True
  let ?w = "releaseChans (\<lambda>n. n \<le> txNonce tx) (setReceipt r (txNonce tx) w)"
  have eq: "txNonceChans (processTransactionInclusion bn tx r w) = txNonceChans ?w" "wStatuses (processTransactionInclusion bn tx r w) = wStatuses ?w"
    using True by (auto simp: takes_def processTransactionInclusion_def setReceipt_def releaseChans_def Let_def split: option.splits)
  have "closed_for_good a (setReceipt r (txNonce tx) w)" using assms(2) by (simp add: closed_for_good_def)
  then show ?thesis using releaseChans_closed [OF setReceipt_inv [OF assms(1)]] chans_kept(3) [OF eq] by simp
qed (use assms(2) in \<open>simp add: inclusion_not_taken\<close>)

text \<open>Every step either leaves the channels alone or is one of the four operations on them.\<close>

lemma wallet_step_chans:
  assumes "wallet_step l l'"
  obtains (kept) "txNonceChans (lgWallet l') = txNonceChans (lgWallet l)" "wStatuses (lgWallet l') = wStatuses (lgWallet l)"
  | (included) bn tx r where "lgWallet l' = processTransactionInclusion bn tx r (lgWallet l)" "takes tx (lgWallet l)"
  | (awaited) n where "lgWallet l' = snd (getTxNonceChan n (lgWallet l))"
  | (released) k below where "lgWallet l' = releaseChans (\<lambda>n. n < below) (lgWallet l\<lparr>lastConfirmation := k\<rparr>)"
  using assms
proof (cases rule: wallet_step.cases)
  case (build ctxErr pickCtx buildFn signErr tx w')
  from build(2) show thesis by (rule BuildTransaction_cases) (use build(1) kept in auto)
next
  case (build_error ctxErr pickCtx buildFn signErr e w')
  from build_error(2) show thesis by (rule BuildTransaction_cases) (use build_error(1) kept in auto)
next
  case (taken bn tx r)
  then have w: "lgWallet l' = processTransactionInclusion bn tx r (lgWallet l)" by (simp add: ledgerInclude_def Let_def)
  then show thesis using included kept by (cases "takes tx (lgWallet l)") (simp_all add: inclusion_not_taken)
next
  case (stale bn nonceAt w')
  from stale(2) show thesis by (cases rule: stale_cases) (use stale(1) kept released in auto)
next
  case (await n)
  then show thesis using awaited by simp
qed (use kept in \<open>auto simp: UseNextNonce_def ledgerReceive_def processTransactionReceival_def ResyncState_def loadState_def ledgerLoad_def stateLoaded_def\<close>)

lemma wallet_step_keeps:
  assumes "wallet_step l l'" "chans_inv (lgWallet l)"
  shows "chans_inv (lgWallet l')" "waits_for a n (lgWallet l) \<Longrightarrow> waits_for a n (lgWallet l')"
    "closed_for_good a (lgWallet l) \<Longrightarrow> closed_for_good a (lgWallet l')"
proof -
  from assms(1) have "chans_inv (lgWallet l') \<and> (waits_for a n (lgWallet l) \<longrightarrow> waits_for a n (lgWallet l')) \<and>
      (closed_for_good a (lgWallet l) \<longrightarrow> closed_for_good a (lgWallet l'))"
  proof (cases rule: wallet_step_chans)
    case kept
    then show ?thesis using chans_kept [OF kept] assms(2) by simp
  next
    case (included bn tx r)
    then have t: "wReady (lgWallet l)" "confirmedNonce (lgWallet l) \<le> txNonce tx" by (simp_all add: takes_def)
    show ?thesis using inclusion_chans(1,2) [OF t] inclusion_closed assms(2) by (simp add: included(1))
  next
    case (awaited m)
    have "closed_for_good a (lgWallet l) \<Longrightarrow> closed_for_good a (snd (getTxNonceChan m (lgWallet l)))"
      by (auto simp: closed_for_good_def getTxNonceChan_def Let_def nth_append split: option.splits)
    then show ?thesis using getTxNonceChan_inv [OF assms(2)] getTxNonceChan_keeps_waits by (simp add: awaited)
  next
    case (released k below)
    let ?w = "lgWallet l\<lparr>lastConfirmation := k\<rparr>"
    have k: "chans_inv ?w" "waits_for a n ?w = waits_for a n (lgWallet l)" "closed_for_good a ?w = closed_for_good a (lgWallet l)"
      using chans_kept [of ?w "lgWallet l"] assms(2) by simp_all
    show ?thesis
      unfolding released using releaseChans_inv [OF k(1)] releaseChans_waits [OF k(1)] releaseChans_closed [OF k(1)] k(2,3) by simp
  qed
  then show "chans_inv (lgWallet l')" "waits_for a n (lgWallet l) \<Longrightarrow> waits_for a n (lgWallet l')"
    "closed_for_good a (lgWallet l) \<Longrightarrow> closed_for_good a (lgWallet l')" by simp_all
qed

lemma wallet_steps_keep:
  assumes "wallet_step\<^sup>*\<^sup>* l l'" "chans_inv (lgWallet l)"
  shows "chans_inv (lgWallet l')" "waits_for a n (lgWallet l) \<Longrightarrow> waits_for a n (lgWallet l')"
    "closed_for_good a (lgWallet l) \<Longrightarrow> closed_for_good a (lgWallet l')"
proof -
  from assms(1) have "chans_inv (lgWallet l') \<and> (waits_for a n (lgWallet l) \<longrightarrow> waits_for a n (lgWallet l')) \<and>
      (closed_for_good a (lgWallet l) \<longrightarrow> closed_for_good a (lgWallet l'))"
    by (induction rule: rtranclp_induct) (use assms(2) wallet_step_keeps in blast)+
  then show "chans_inv (lgWallet l')" "waits_for a n (lgWallet l) \<Longrightarrow> waits_for a n (lgWallet l')"
    "closed_for_good a (lgWallet l) \<Longrightarrow> closed_for_good a (lgWallet l')" by simp_all
qed

lemma startLedger_chans: "chans_inv (lgWallet (startLedger address))"
  by (simp add: startLedger_def newWallet_def loadState_def chans_inv_def)

text \<open>
  C30. A goroutine that waits for a nonce goes on once the wallet has taken the inclusion of a transaction with that or a higher nonce, whatever calls come before and after it, reloads of
  the state included: its channel is closed and stays so, and \<open>awaitTransaction\<close> returns. And the channels that are still to be closed are open, so that none is closed twice.
\<close>

theorem inclusion_releases_waiter:
  assumes "wallet_step\<^sup>*\<^sup>* (startLedger address) l" "getTxNonceChan k (lgWallet l) = (Some s, w')"
    and "wallet_step\<^sup>*\<^sup>* (l\<lparr>lgWallet := w'\<rparr>) l1"
    and "wReady (lgWallet l1)" "confirmedNonce (lgWallet l1) \<le> txNonce tx" "k \<le> txNonce tx"
    and "wallet_step\<^sup>*\<^sup>* (ledgerInclude bn tx r l1) l'"
  shows "awaitTransaction None pickCtx (Some s) found waited (lgWallet l')
           = Some (Inr (awaitedReceipt found waited (Some (wStatuses (lgWallet l') ! s)))) \<and>
         (\<forall>(n, a) \<in> set (txNonceChans (lgWallet l')). \<not> nsClosed (wStatuses (lgWallet l') ! a))"
proof -
  let ?m = "l\<lparr>lgWallet := w'\<rparr>" and ?i = "processTransactionInclusion bn tx r (lgWallet l1)"
  have c0: "chans_inv (lgWallet l)" using wallet_steps_keep(1) [OF assms(1) startLedger_chans] .
  have "wallet_step l ?m" using wallet_step.await [of l k] assms(2) by simp
  then have c1: "chans_inv (lgWallet ?m)" using wallet_step_keeps(1) c0 by blast
  have "waits_for s k (lgWallet ?m)" using getTxNonceChan_waits [OF c0 assms(2)] by simp
  then have w1: "chans_inv (lgWallet l1)" "waits_for s k (lgWallet l1)" using wallet_steps_keep [OF assms(3) c1] by blast+
  note inc = inclusion_chans [OF assms(4,5), where bn = bn and r = r]
  have "(k, s) \<notin> set (txNonceChans ?i)" unfolding inc(3) using assms(6) by auto
  then have "closed_for_good s ?i" using inc(2) [OF w1] by (simp add: waits_for_def closed_for_good_def)
  moreover have i: "lgWallet (ledgerInclude bn tx r l1) = ?i" by (simp add: ledgerInclude_def Let_def)
  moreover have "chans_inv ?i" by (rule inc(1) [OF w1(1)])
  ultimately have "closed_for_good s (lgWallet l')" "chans_inv (lgWallet l')" using wallet_steps_keep(1,3) [OF assms(7)] by simp_all
  then show ?thesis by (force simp: closed_for_good_def awaitTransaction_def chans_inv_def)
qed

section \<open>An example run\<close>

definition demoTx :: tx where
  "demoTx = \<lparr>txNonce = 5, txValue = 100, txHash = 9, txTo = None\<rparr>"

definition demoReceipt :: receipt where
  "demoReceipt = \<lparr>rTxHash = 9, rEffectiveGasPrice = 2, rGasUsed = 21\<rparr>"

definition demoLoaded :: ledger where
  "demoLoaded = ledgerLoad 5 1000 (startLedger 7)"

definition demoBuilt :: ledger where
  "demoBuilt = demoLoaded\<lparr>lgWallet := (lgWallet demoLoaded)\<lparr>pendingNonce := 6, pendingBalance := 900\<rparr>, lgBuilt := [demoTx]\<rparr>"

definition demoWaiting :: ledger where
  "demoWaiting = demoBuilt\<lparr>lgWallet := snd (getTxNonceChan 5 (lgWallet demoBuilt))\<rparr>"

definition demoIncluded :: ledger where
  "demoIncluded = ledgerInclude 12 demoTx (Some demoReceipt) demoWaiting"

lemmas demo_defs = demoTx_def demoReceipt_def demoLoaded_def demoBuilt_def demoWaiting_def demoIncluded_def startLedger_def stateLoaded_def ledgerLoad_def
  newWallet_def loadState_def getTxNonceChan_def processTransactionInclusion_def setReceipt_def releaseChans_def txFee_def

lemma demoBuilt_steps: "wallet_step\<^sup>*\<^sup>* (startLedger 7) demoBuilt"
proof -
  have "wallet_step (startLedger 7) demoLoaded"
    unfolding demoLoaded_def by (rule wallet_step.loaded) (simp add: startLedger_def newWallet_def loadState_def)
  moreover have "BuildTransaction None False (\<lambda>n. Inr demoTx) None (lgWallet demoLoaded) = Some (Inr demoTx, lgWallet demoBuilt)"
    by (simp add: BuildTransaction_def AwaitReady_def demo_defs)
  from wallet_step.build [OF this] have "wallet_step demoLoaded demoBuilt" by (simp add: demoBuilt_def demoLoaded_def ledgerLoad_def)
  ultimately show ?thesis by (meson rtranclp.rtrancl_into_rtrancl r_into_rtranclp)
qed

lemma demoWaiting_chan: "getTxNonceChan 5 (lgWallet demoBuilt) = (Some 0, lgWallet demoWaiting)"
  by (simp add: demo_defs)

theorem wallet_matches_ledger_witness:
  "pendingBalance (lgWallet demoBuilt) = confirmedBalance (lgWallet demoBuilt) - 100 \<and> confirmedBalance (lgWallet demoBuilt) = 1000"
  using wallet_matches_ledger [OF demoBuilt_steps] by (simp add: demo_defs)

theorem inclusion_releases_waiter_witness:
  "awaitTransaction None True (Some 0) None demoTx (lgWallet demoIncluded) = Some (Inr (Some demoReceipt))"
proof -
  have l: "wallet_step\<^sup>*\<^sup>* (demoBuilt\<lparr>lgWallet := lgWallet demoWaiting\<rparr>) demoWaiting" by (simp add: demoWaiting_def)
  have t: "wReady (lgWallet demoWaiting)" "confirmedNonce (lgWallet demoWaiting) \<le> txNonce demoTx" "5 \<le> txNonce demoTx"
    by (simp_all add: demo_defs)
  have i: "wallet_step\<^sup>*\<^sup>* (ledgerInclude 12 demoTx (Some demoReceipt) demoWaiting) demoIncluded" by (simp add: demoIncluded_def)
  have r: "awaitedReceipt None demoTx (Some (wStatuses (lgWallet demoIncluded) ! 0)) = Some demoReceipt"
    by (simp add: demo_defs ledgerInclude_def awaitedReceipt_def Let_def)
  show ?thesis
    using inclusion_releases_waiter [OF demoBuilt_steps demoWaiting_chan l t i, of True None demoTx] unfolding r by blast
qed

end
