(* ===== verification/Amounts.thy ===== *)
theory Amounts
  imports Wallet
begin

text \<open>
  Numbers as text: the big integers of test configurations (\<open>helper/bigint.go\<close>) and the readable form of a
  wallet's balance (\<open>GetReadableBalance\<close> of \<open>wallet/wallet.go\<close>).
\<close>

section \<open>Big integers\<close>

text \<open>
  A number is printed as \<open>big.Int.String\<close> does; the text of a \<open>BigInt\<close> is read by \<open>SetString\<close> with base ten, and \<open>null\<close> leaves the
  number as it was. In \<open>UnmarshalYAML\<close> the text is the string \<open>unmarshal\<close> has read, or its error.
\<close>

definition MarshalJSON :: "int \<Rightarrow> string" where
  "MarshalJSON b = showInt b"

definition UnmarshalJSON :: "string \<Rightarrow> int \<Rightarrow> go_error \<times> int" where
  "UnmarshalJSON p b =
     (if p = ''null'' then (None, b)
      else case parseBigInt p of
             None \<Rightarrow> (Some (''not a valid big integer: '' @ p), b)
           | Some z \<Rightarrow> (None, z))"

definition MarshalYAML :: "int \<Rightarrow> string" where
  "MarshalYAML b = showInt b"

definition UnmarshalYAML :: "string + string \<Rightarrow> int \<Rightarrow> go_error \<times> int" where
  "UnmarshalYAML unmarshal b =
     (case unmarshal of
        Inl e \<Rightarrow> (Some e, b)
      | Inr v \<Rightarrow>
          if v = ''null'' then (None, b)
          else case parseBigInt v of
                 None \<Rightarrow> (Some (''not a valid big integer: '' @ showInt b), b)
               | Some z \<Rightarrow> (None, z))"

section \<open>Digits\<close>

lemma digitVal_digit: "d < 10 \<Longrightarrow> digitVal (char_of (48 + d)) = Some d"
  by (simp add: digitVal_def of_char_of)

lemma parseDigits_append:
  "parseDigits acc (xs @ ys) = Option.bind (parseDigits acc xs) (\<lambda>a. parseDigits a ys)"
  by (induction xs arbitrary: acc) (auto split: bind_split)

lemma parseDigits_acc:
  "parseDigits acc xs = map_option (\<lambda>v. acc * 10 ^ length xs + v) (parseDigits 0 xs)"
proof (induction xs arbitrary: acc)
  case (Cons c cs)
  show ?case
  proof (cases "digitVal c")
    case (Some d)
    have "parseDigits acc (c # cs) = map_option (\<lambda>v. (10 * acc + d) * 10 ^ length cs + v) (parseDigits 0 cs)"
      by (simp add: Some Cons [of "10 * acc + d"])
    moreover have "parseDigits 0 (c # cs) = map_option (\<lambda>v. d * 10 ^ length cs + v) (parseDigits 0 cs)"
      by (simp add: Some Cons [of d])
    ultimately show ?thesis by (simp add: option.map_comp comp_def algebra_simps)
  qed simp
qed simp

lemma parseDigits_showNat: "parseDigits 0 (showNat n) = Some n"
proof (induction n rule: less_induct)
  case (less n)
  show ?case
  proof (cases "n < 10")
    case True
    then show ?thesis by (subst showNat.simps) (simp add: digitVal_digit)
  next
    case False
    with less [of "n div 10"] show ?thesis by (subst showNat.simps) (simp add: parseDigits_append digitVal_digit)
  qed
qed

lemma showNat_not_Nil [simp]: "showNat n \<noteq> []"
  by (subst showNat.simps) simp

lemma parseDigits_zeros: "parseDigits 0 (replicate k (CHR ''0'')) = Some 0"
  by (induction k) (simp_all add: digitVal_def)

lemma parse_showInt: "parseBigInt (showInt i) = Some i"
proof (cases "i < 0")
  case True
  then show ?thesis by (simp add: showInt_def parseBigInt_def parseDigits_showNat)
next
  case False
  obtain c cs where cs: "showNat (nat i) = c # cs" by (cases "showNat (nat i)") simp_all
  have "digitVal c \<noteq> None" using parseDigits_showNat [of "nat i"] cs by (auto simp: bind_eq_Some_conv)
  then have "c \<noteq> CHR ''-''" "c \<noteq> CHR ''+''" by (auto simp: digitVal_def)
  with False cs parseDigits_showNat [of "nat i"] show ?thesis by (simp add: showInt_def parseBigInt_def)
qed

text \<open>A big integer written to JSON or YAML is read back as it was.\<close>

theorem BigInt_roundtrip:
  "UnmarshalJSON (MarshalJSON b) b0 = (None, b) \<and> UnmarshalYAML (Inr (MarshalYAML b)) b0 = (None, b)"
proof -
  have "showInt b \<noteq> ''null''"
    using parse_showInt [of b] by (auto simp: parseBigInt_def digitVal_def)
  then show ?thesis by (simp add: UnmarshalJSON_def MarshalJSON_def UnmarshalYAML_def MarshalYAML_def parse_showInt)
qed

section \<open>Balances\<close>

lemma trimRightZeros_split: "s = trimRightZeros s @ replicate (length s - length (trimRightZeros s)) (CHR ''0'')"
proof -
  let ?P = "(=) (CHR ''0'')"
  have t: "takeWhile ?P (rev s) = replicate (length (takeWhile ?P (rev s))) (CHR ''0'')"
    by (rule replicate_eqI) (auto dest: set_takeWhileD)
  have s: "s = rev (dropWhile ?P (rev s)) @ rev (takeWhile ?P (rev s))"
    unfolding rev_append [symmetric] by simp
  then have "length (takeWhile ?P (rev s)) = length s - length (rev (dropWhile ?P (rev s)))"
    by (metis add_diff_cancel_left' length_append length_rev)
  with s t show ?thesis unfolding trimRightZeros_def by (metis rev_replicate)
qed

lemma length_trimRightZeros: "length (trimRightZeros s) \<le> length s"
  by (simp add: trimRightZeros_def length_dropWhile_le [of _ "rev s", simplified])

lemma last_trimRightZeros: "trimRightZeros s \<noteq> [] \<Longrightarrow> last (trimRightZeros s) \<noteq> CHR ''0''"
  unfolding trimRightZeros_def using hd_dropWhile [of "(=) (CHR ''0'')" "rev s"] by (auto simp: last_rev)

lemma parse_trimRightZeros:
  assumes "parseDigits 0 s = Some v"
  obtains q where "parseDigits 0 (trimRightZeros s) = Some q" "v = q * 10 ^ (length s - length (trimRightZeros s))"
proof -
  let ?k = "length s - length (trimRightZeros s)"
  have "Option.bind (parseDigits 0 (trimRightZeros s)) (\<lambda>a. parseDigits a (replicate ?k (CHR ''0''))) = Some v"
    using assms parseDigits_append [of 0 "trimRightZeros s" "replicate ?k (CHR ''0'')"] trimRightZeros_split [of s] by metis
  then obtain q where "parseDigits 0 (trimRightZeros s) = Some q" "parseDigits q (replicate ?k (CHR ''0'')) = Some v"
    by (auto simp: bind_eq_Some_conv)
  with that parseDigits_acc [of q "replicate ?k (CHR ''0'')"] show thesis by (simp add: parseDigits_zeros)
qed

lemma splitAmount_exact:
  assumes "splitAmount u m d (showNat n) = (pre, post, d')"
  obtains p q where "parseDigits 0 pre = Some p" "parseDigits 0 post = Some q" "length post \<le> u"
    "n = p * 10 ^ u + q * 10 ^ (u - length post)" "post \<noteq> [] \<Longrightarrow> last post \<noteq> CHR ''0''" "d' \<le> d" "m = 0 \<Longrightarrow> d' = d"
proof -
  let ?s = "showNat n"
  let ?l = "length ?s"
  obtain rest p v where r: "post = trimRightZeros rest" "length rest = u" "parseDigits 0 rest = Some v"
      "parseDigits 0 pre = Some p" "n = p * 10 ^ u + v" "d' \<le> d" "m = 0 \<Longrightarrow> d' = d"
  proof (cases "?l > u")
    case True
    let ?i = "?l - u"
    have ps: "Option.bind (parseDigits 0 (take ?i ?s)) (\<lambda>a. parseDigits a (drop ?i ?s)) = Some n"
      using parseDigits_append [of 0 "take ?i ?s" "drop ?i ?s"] by (simp add: parseDigits_showNat)
    then obtain p where p: "parseDigits 0 (take ?i ?s) = Some p" "parseDigits p (drop ?i ?s) = Some n"
      by (auto simp: bind_eq_Some_conv)
    have "length (drop ?i ?s) = u" using True by simp
    then have "map_option (\<lambda>v. p * 10 ^ u + v) (parseDigits 0 (drop ?i ?s)) = Some n"
      using parseDigits_acc [of p "drop ?i ?s"] unfolding p by (simp only:)
    then obtain v where v: "parseDigits 0 (drop ?i ?s) = Some v" "n = p * 10 ^ u + v"
      by (cases "parseDigits 0 (drop ?i ?s)") auto
    from v p True assms show thesis by (intro that [of "drop ?i ?s" v p]) (auto simp: splitAmount_def Let_def split: if_splits)
  next
    case False
    let ?z = "replicate (u - ?l) (CHR ''0'')"
    have v: "parseDigits 0 (?z @ ?s) = Some n" by (simp add: parseDigits_append parseDigits_zeros parseDigits_showNat)
    have z: "parseDigits 0 ''0'' = Some 0" by (simp add: digitVal_def)
    show thesis
    proof (rule that [of "?z @ ?s" n 0])
      show "post = trimRightZeros (?z @ ?s)" using False assms by (auto simp: splitAmount_def Let_def split: if_splits)
    qed (use v z False assms in \<open>auto simp: splitAmount_def Let_def split: if_splits\<close>)
  qed
  obtain q where "parseDigits 0 post = Some q" "v = q * 10 ^ (u - length post)"
    using parse_trimRightZeros [OF r(3)] r(1,2) by metis
  with r that [of p q] show thesis using length_trimRightZeros [of rest] last_trimRightZeros [of rest] by simp
qed

text \<open>
  C39. The readable form of a balance: a sign, an integer part and, unless it is zero, a fraction with at most
  \<open>unitDigits\<close> digits and no trailing zero that together denote the balance exactly; the trimmed form
  has the same integer part and a prefix of the fraction of at most \<open>digits\<close> digits.
\<close>

theorem GetReadableBalance_exact:
  assumes "wReady w"
  shows "\<exists>pre post p q k.
     GetReadableBalance u m d sign False w
       = (if pendingBalance w > 0 \<and> sign then ''+'' else if pendingBalance w < 0 then ''-'' else '''') @
         pre @ (if post = [] then [] else ''.'' @ post) \<and>
     GetReadableBalance u m d sign True w
       = (if pendingBalance w > 0 \<and> sign then ''+'' else if pendingBalance w < 0 then ''-'' else '''') @
         pre @ (if take k post = [] then [] else ''.'' @ take k post) \<and>
     k \<le> d \<and> (m = 0 \<longrightarrow> k = d) \<and>
     parseDigits 0 pre = Some p \<and> parseDigits 0 post = Some q \<and> length post \<le> u \<and>
     (post \<noteq> [] \<longrightarrow> last post \<noteq> CHR ''0'') \<and>
     \<bar>pendingBalance w\<bar> = int (p * 10 ^ u + q * 10 ^ (u - length post))"
proof -
  let ?sign = "if pendingBalance w > 0 \<and> sign then ''+'' else if pendingBalance w < 0 then ''-'' else ''''"
  obtain pre post k where s: "splitAmount u m d (showNat (nat \<bar>pendingBalance w\<bar>)) = (pre, post, k)" by (metis prod_cases3)
  note s' = GetReadableBalance_def s Let_def prod.case
  have full: "GetReadableBalance u m d sign False w = ?sign @ pre @ (if post = [] then [] else ''.'' @ post)"
    using assms by (cases post) (simp_all add: s')
  have trimmed: "GetReadableBalance u m d sign True w = ?sign @ pre @ (if take k post = [] then [] else ''.'' @ take k post)"
    using assms by (cases "take k post = []") (simp_all add: s' del: take_eq_Nil)
  obtain p q where "parseDigits 0 pre = Some p" "parseDigits 0 post = Some q" "length post \<le> u"
    and n: "nat \<bar>pendingBalance w\<bar> = p * 10 ^ u + q * 10 ^ (u - length post)"
    and "post \<noteq> [] \<longrightarrow> last post \<noteq> CHR ''0''" "k \<le> d" "m = 0 \<longrightarrow> k = d"
    by (rule splitAmount_exact [OF s]) blast
  moreover have "\<bar>pendingBalance w\<bar> = int (p * 10 ^ u + q * 10 ^ (u - length post))"
    unfolding n [symmetric] by simp
  ultimately show ?thesis using full trimmed by blast
qed

definition demoRich :: wallet where
  "demoRich = stateLoaded 0 345 (newWallet 1)"

theorem GetReadableBalance_exact_witness:
  "GetReadableBalance 2 0 1 True False demoRich = ''+3.45'' \<and> GetReadableBalance 2 0 1 True True demoRich = ''+3.4'' \<and>
   (\<exists>pre post p q. ''+3.45'' = ''+'' @ pre @ (if post = [] then [] else ''.'' @ post) \<and>
      parseDigits 0 pre = Some p \<and> parseDigits 0 post = Some q \<and> 345 = int (p * 10 ^ 2 + q * 10 ^ (2 - length post)))"
proof -
  have v: "GetReadableBalance 2 0 1 True False demoRich = ''+3.45''" "GetReadableBalance 2 0 1 True True demoRich = ''+3.4''"
    by code_simp+
  have b: "wReady demoRich" "pendingBalance demoRich = 345" by (simp_all add: demoRich_def stateLoaded_def)
  have sign: "(if (345 :: int) > 0 \<and> True then ''+'' else if (345 :: int) < 0 then ''-'' else '''') = ''+''"
    "\<bar>345 :: int\<bar> = 345" by simp_all
  show ?thesis
    using GetReadableBalance_exact [of demoRich 2 0 1 True, OF b(1)] unfolding v b(2) sign by blast
qed

end
