(* ===== verification/WalletPool.thy ===== *)
theory WalletPool
  imports WalletLedger Amounts
begin

text \<open>
  The wallet manager (\<open>wallet/manager.go\<close>), which applies blocks to the wallets it knows, sending to
  several clients (\<open>SendTransaction\<close> of \<open>wallet/wallet.go\<close>), and pools of child wallets that a root wallet
  funds (\<open>wallet/walletpool.go\<close>). Key arithmetic and hashing of go-ethereum are arguments.
\<close>

section \<open>The manager\<close>

text \<open>
  The wallets by address; a wallet object is referred to by its address, under which it stands for good.
\<close>

type_synonym manager = "(root \<times> wallet) list"

definition GetWalletByAddress :: "root \<Rightarrow> manager \<Rightarrow> manager" where
  "GetWalletByAddress address m =
     (case map_of m address of
        Some w \<Rightarrow> m
      | None \<Rightarrow> AList.update address (newWallet address) m)"

text \<open>\<open>addressOf\<close> is the address of a key. The result is the wallet, by address.\<close>

definition GetWalletByPrivkey :: "(string \<Rightarrow> root) \<Rightarrow> string \<Rightarrow> manager \<Rightarrow> root \<times> manager" where
  "GetWalletByPrivkey addressOf privkey m =
     (let address = addressOf privkey
      in (address, AList.map_entry address
           (\<lambda>w. if wPrivkey w = None then w\<lparr>wPrivkey := Some privkey\<rparr> else w) (GetWalletByAddress address m)))"

text \<open>
  A transaction of a block: \<open>btFrom\<close> is its recovered sender, \<open>btAuthorities\<close> the recovered authorities of a
  set-code transaction (none for other types); None is an error.
\<close>

record block_tx =
  btTx :: tx
  btFrom :: "root option"
  btAuthorities :: "root option list"

definition processAuthority :: "root option \<Rightarrow> manager \<Rightarrow> manager" where
  "processAuthority authority m = (case authority of None \<Rightarrow> m | Some a \<Rightarrow> AList.map_entry a ResyncState m)"

text \<open>
  One transaction at its index; \<open>receipts\<close> is what \<open>loadBlockReceipts\<close> returns, loaded at the first
  transaction a wallet has sent. Its panic without any client is None.
\<close>

definition processTx :: "u64 \<Rightarrow> receipt list option option \<Rightarrow> nat \<Rightarrow> block_tx \<Rightarrow> manager \<Rightarrow> manager option" where
  "processTx blockNumber receipts idx bt m =
     (case btFrom bt of
        None \<Rightarrow> Some m
      | Some from \<Rightarrow>
          Option.bind
            (case map_of m from of
               None \<Rightarrow> Some m
             | Some w \<Rightarrow>
                 (case receipts of
                    None \<Rightarrow> None
                  | Some rs \<Rightarrow>
                      let txReceipt = (case rs of None \<Rightarrow> None | Some l \<Rightarrow> if idx < length l then Some (l ! idx) else None)
                      in Some (AList.map_entry from (processTransactionInclusion blockNumber (btTx bt) txReceipt) m)))
            (\<lambda>m1.
               let m2 = (case txTo (btTx bt) of
                           None \<Rightarrow> m1
                         | Some to \<Rightarrow> AList.map_entry to (processTransactionReceival (btTx bt)) m1)
               in Some (fold processAuthority (btAuthorities bt) m2)))"

fun processTxs :: "u64 \<Rightarrow> receipt list option option \<Rightarrow> nat \<Rightarrow> block_tx list \<Rightarrow> manager \<Rightarrow> manager option" where
  "processTxs blockNumber receipts idx [] m = Some m"
| "processTxs blockNumber receipts idx (bt # bts) m =
     Option.bind (processTx blockNumber receipts idx bt m) (processTxs blockNumber receipts (idx + 1) bts)"

fun processStale :: "u64 \<Rightarrow> (root \<Rightarrow> (string + u64) option) \<Rightarrow> manager \<Rightarrow> manager option" where
  "processStale blockNumber nonceAt [] = Some []"
| "processStale blockNumber nonceAt ((a, w) # m) =
     Option.bind (processStaleConfirmations blockNumber (nonceAt a) w)
       (\<lambda>w'. Option.bind (processStale blockNumber nonceAt m) (\<lambda>m'. Some ((a, w') # m')))"

definition processBlockTransactions ::
    "u64 \<Rightarrow> block_tx list option \<Rightarrow> receipt list option option \<Rightarrow> (root \<Rightarrow> (string + u64) option) \<Rightarrow> manager \<Rightarrow> manager option" where
  "processBlockTransactions blockNumber blockData receipts nonceAt m =
     (case blockData of
        None \<Rightarrow> Some m
      | Some txs \<Rightarrow> Option.bind (processTxs blockNumber receipts 0 txs m) (processStale blockNumber nonceAt))"

text \<open>The receipts of a block, from the clients that have seen it or else the ready ones.\<close>

definition loadBlockReceipts :: "nat list \<Rightarrow> nat list \<Rightarrow> (nat \<Rightarrow> nat \<Rightarrow> string + receipt list) \<Rightarrow> receipt list option option" where
  "loadBlockReceipts seenBy ready answers = loadReceipt seenBy ready answers"

section \<open>Pools of child wallets\<close>

text \<open>Wallets are given by address. The bytes of the index come in big-endian order.\<close>

record wallet_pool =
  rootWallet :: root
  childWallets :: "root list"
  nextIdx :: u64

definition bigEndian8 :: "u64 \<Rightarrow> string" where
  "bigEndian8 i = map (\<lambda>k. char_of (unat (drop_bit (8 * (7 - k)) i) mod 256)) [0..<8]"

definition childKeyBytes :: "string \<Rightarrow> u64 \<Rightarrow> string \<Rightarrow> string" where
  "childKeyBytes privkey childIdx childSeed = privkey @ bigEndian8 childIdx @ childSeed"

text \<open>\<open>sha256\<close> and \<open>toKey\<close>, which refuses numbers out of range, are the library's.\<close>

definition newChildWallet ::
    "(string \<Rightarrow> root) \<Rightarrow> (string \<Rightarrow> string) \<Rightarrow> (string \<Rightarrow> string + string) \<Rightarrow> string \<Rightarrow> u64 \<Rightarrow> string \<Rightarrow> manager \<Rightarrow>
     (string + root) \<times> manager" where
  "newChildWallet addressOf sha256 toKey rootKey childIdx childSeed m =
     (case toKey (sha256 (childKeyBytes rootKey childIdx childSeed)) of
        Inl e \<Rightarrow> (Inl e, m)
      | Inr childKey \<Rightarrow> let (a, m') = GetWalletByPrivkey addressOf childKey m in (Inr a, m'))"

fun newChildWallets ::
    "(string \<Rightarrow> root) \<Rightarrow> (string \<Rightarrow> string) \<Rightarrow> (string \<Rightarrow> string + string) \<Rightarrow> string \<Rightarrow> string \<Rightarrow> nat \<Rightarrow> nat \<Rightarrow> manager \<Rightarrow>
     (string + root list) \<times> manager" where
  "newChildWallets addressOf sha256 toKey rootKey childSeed i 0 m = (Inr [], m)"
| "newChildWallets addressOf sha256 toKey rootKey childSeed i (Suc n) m =
     (case newChildWallet addressOf sha256 toKey rootKey (of_nat i) childSeed m of
        (Inl e, m1) \<Rightarrow> (Inl e, m1)
      | (Inr a, m1) \<Rightarrow>
          (case newChildWallets addressOf sha256 toKey rootKey childSeed (i + 1) n m1 of
             (Inl e, m2) \<Rightarrow> (Inl e, m2)
           | (Inr as, m2) \<Rightarrow> (Inr (a # as), m2)))"

definition GetWalletPoolByPrivkey ::
    "(string \<Rightarrow> root) \<Rightarrow> (string \<Rightarrow> string) \<Rightarrow> (string \<Rightarrow> string + string) \<Rightarrow> string \<Rightarrow> u64 \<Rightarrow> string \<Rightarrow> manager \<Rightarrow>
     (string + wallet_pool) \<times> manager" where
  "GetWalletPoolByPrivkey addressOf sha256 toKey privkey walletCount childSeed m =
     (let (r, m1) = GetWalletByPrivkey addressOf privkey m;
          rootKey = (case Option.bind (map_of m1 r) wPrivkey of Some k \<Rightarrow> k | None \<Rightarrow> [])
      in case newChildWallets addressOf sha256 toKey rootKey childSeed 0 (unat walletCount) m1 of
           (Inl e, m2) \<Rightarrow> (Inl e, m2)
         | (Inr as, m2) \<Rightarrow> (Inr \<lparr>rootWallet = r, childWallets = as, nextIdx = 0\<rparr>, m2))"

definition GetChildWallet :: "u64 \<Rightarrow> wallet_pool \<Rightarrow> root option" where
  "GetChildWallet index p =
     (if unat index \<ge> length (childWallets p) then None else Some (childWallets p ! unat index))"

text \<open>The index of an empty pool is out of range, which panics: None.\<close>

definition GetNextChildWallet :: "wallet_pool \<Rightarrow> (root \<times> wallet_pool) option" where
  "GetNextChildWallet p =
     (if unat (nextIdx p) \<ge> length (childWallets p) then None
      else let i = nextIdx p + 1
           in Some (childWallets p ! unat (nextIdx p),
                    p\<lparr>nextIdx := if unat i \<ge> length (childWallets p) then 0 else i\<rparr>))"

section \<open>Funding\<close>

text \<open>
  \<open>EnsureFunding\<close> first builds the refill transactions. \<open>minBalance.Sub(minBalance, \<dots>)\<close> overwrites the
  caller's number, so the bound is a part of the state. \<open>hashOf\<close> is the hash of a transaction, \<open>signErr\<close> the
  result of signing for a child. None: a wallet is still loading.
\<close>

fun planRefills ::
    "go_error \<Rightarrow> bool \<Rightarrow> (root \<Rightarrow> go_error) \<Rightarrow> (u64 \<Rightarrow> root \<Rightarrow> int \<Rightarrow> root) \<Rightarrow> int \<Rightarrow> root \<Rightarrow> root list \<Rightarrow> int \<Rightarrow> go_error \<Rightarrow> manager \<Rightarrow>
     ((string + tx list \<times> go_error \<times> int) \<times> manager) option" where
  "planRefills ctxErr pickCtx signErr hashOf refill root [] minB err m = Some (Inr ([], err, minB), m)"
| "planRefills ctxErr pickCtx signErr hashOf refill root (a # as) minB err m =
     Option.bind (map_of m a) (\<lambda>w. Option.bind (map_of m root) (\<lambda>rw.
       (case AwaitReady ctxErr pickCtx w of
          None \<Rightarrow> None
        | Some (Some e) \<Rightarrow> Some (Inl e, m)
        | Some None \<Rightarrow>
            if pendingBalance w > minB then planRefills ctxErr pickCtx signErr hashOf refill root as minB err m
            else
              let diff = minB - pendingBalance w;
                  minB' = (if refill < minB then diff else minB);
                  amount = (if refill < minB \<and> diff > refill then diff else refill);
                  buildFn = (\<lambda>nonce. Inr \<lparr>txNonce = nonce, txValue = amount, txHash = hashOf nonce a amount, txTo = Some a\<rparr>)
              in (case BuildTransaction ctxErr pickCtx buildFn (signErr a) rw of
                    None \<Rightarrow> None
                  | Some (Inl e, rw') \<Rightarrow>
                      planRefills ctxErr pickCtx signErr hashOf refill root as minB' (Some e) (AList.update root rw' m)
                  | Some (Inr tx, rw') \<Rightarrow>
                      (case planRefills ctxErr pickCtx signErr hashOf refill root as minB' err (AList.update root rw' m) of
                         None \<Rightarrow> None
                       | Some (Inl e, m') \<Rightarrow> Some (Inl e, m')
                       | Some (Inr (txs, err', minB''), m') \<Rightarrow> Some (Inr (tx # txs, err', minB''), m'))))))"

text \<open>
  Then it sends them, at most \<open>pendingLimit\<close> at a time, each to the ready clients of the canonical fork in
  order until one takes it; a goroutine per transaction waits for its inclusion and gives its place free.
\<close>

record refill_state =
  rsUnsent :: "tx list"
  rsInFlight :: "tx list"
  rsError :: go_error
  rsStopped :: bool
  rsReturned :: "go_error option"

inductive refill_step :: "u64 \<Rightarrow> nat list \<Rightarrow> refill_state \<Rightarrow> refill_state \<Rightarrow> bool" for pendingLimit cs where
  send_ok: "\<lbrakk>rsReturned s = None; \<not> rsStopped s; rsUnsent s = tx # txs; length (rsInFlight s) < unat pendingLimit;
     fst (tryClients cs attempt 0 0 (length cs) None) = None\<rbrakk> \<Longrightarrow>
     refill_step pendingLimit cs s (s\<lparr>rsUnsent := txs, rsInFlight := rsInFlight s @ [tx]\<rparr>)"
| send_error: "\<lbrakk>rsReturned s = None; \<not> rsStopped s; rsUnsent s = tx # txs; length (rsInFlight s) < unat pendingLimit;
     fst (tryClients cs attempt 0 0 (length cs) None) = Some e\<rbrakk> \<Longrightarrow>
     refill_step pendingLimit cs s (s\<lparr>rsUnsent := txs, rsError := Some e, rsStopped := True\<rparr>)"
| awaited: "\<lbrakk>tx \<in> set (rsInFlight s)\<rbrakk> \<Longrightarrow>
     refill_step pendingLimit cs s
       (s\<lparr>rsInFlight := remove1 tx (rsInFlight s), rsError := (case err of None \<Rightarrow> rsError s | Some e \<Rightarrow> Some e)\<rparr>)"
| cancelled: "\<lbrakk>rsReturned s = None; \<not> rsStopped s; rsUnsent s \<noteq> []\<rbrakk> \<Longrightarrow>
     refill_step pendingLimit cs s (s\<lparr>rsReturned := Some (Some e)\<rparr>)"
| returned: "\<lbrakk>rsReturned s = None; rsStopped s \<or> rsUnsent s = []; rsInFlight s = []\<rbrakk> \<Longrightarrow>
     refill_step pendingLimit cs s (s\<lparr>rsReturned := Some (rsError s)\<rparr>)"

text \<open>The start of the sending, and the answer when there is nothing to send or no canonical fork (a panic: None).\<close>

definition EnsureFunding ::
    "go_error \<Rightarrow> bool \<Rightarrow> (root \<Rightarrow> go_error) \<Rightarrow> (u64 \<Rightarrow> root \<Rightarrow> int \<Rightarrow> root) \<Rightarrow> int \<Rightarrow> int \<Rightarrow> nat list option \<Rightarrow> wallet_pool \<Rightarrow> manager \<Rightarrow>
     (refill_state option \<times> manager) option" where
  "EnsureFunding ctxErr pickCtx signErr hashOf minB refill forkClients p m =
     map_option (\<lambda>(res, m').
        (case res of
           Inl e \<Rightarrow> Some \<lparr>rsUnsent = [], rsInFlight = [], rsError = None, rsStopped = False, rsReturned = Some (Some e)\<rparr>
         | Inr (txs, err, minB') \<Rightarrow>
             if txs = [] then Some \<lparr>rsUnsent = [], rsInFlight = [], rsError = None, rsStopped = False, rsReturned = Some err\<rparr>
             else if forkClients = None then None
             else Some \<lparr>rsUnsent = txs, rsInFlight = [], rsError = err, rsStopped = False, rsReturned = None\<rparr>, m'))
       (planRefills ctxErr pickCtx signErr hashOf refill (rootWallet p) (childWallets p) minB None m)"

section \<open>Sending\<close>

lemma tryClients_spec:
  assumes "tryClients cs attempt offset i n err = (e, tried)"
  shows "tried = map (\<lambda>j. cs ! unat ((of_nat j + offset) mod of_nat (length cs))) [i..<i + length tried] \<and> length tried \<le> n \<and>
    (\<forall>c \<in> set (butlast tried). attempt c \<noteq> None) \<and> (if tried = [] then n = 0 \<and> e = err else e = attempt (last tried)) \<and>
    (e = None \<or> length tried = n)"
  using assms
proof (induction n arbitrary: i err e tried)
  case (Suc n)
  let ?c = "cs ! unat ((of_nat i + offset) mod of_nat (length cs))"
  show ?case
  proof (cases "attempt ?c = None")
    case True
    with Suc.prems show ?thesis by (auto simp: Let_def)
  next
    case False
    obtain e' ts where r: "tryClients cs attempt offset (i + 1) n (attempt ?c) = (e', ts)" by (metis surj_pair)
    with Suc.prems False have t: "e = e'" "tried = ?c # ts" by (auto simp: Let_def)
    have "[i..<i + length tried] = i # [i + 1..<i + 1 + length ts]" by (simp add: t upt_conv_Cons del: upt_Suc)
    with Suc.IH [OF r] t False show ?thesis by auto
  qed
qed simp

lemma rotated_clients:
  assumes "unat offset + length cs < 2 ^ 64" "k \<le> length cs"
  shows "map (\<lambda>j. cs ! unat ((of_nat j + offset) mod of_nat (length cs))) [0..<k] = take k (rotate (unat (offset :: u64)) cs)"
proof (rule nth_equalityI)
  fix j assume "j < length (map (\<lambda>j. cs ! unat ((of_nat j + offset) mod of_nat (length cs))) [0..<k])"
  then have j: "j < k" by simp
  have l: "unat (of_nat (length cs) :: u64) = length cs" "unat (of_nat j :: u64) = j"
    using assms j by (simp_all add: unat_of_nat)
  have "unat (of_nat j + offset) = unat offset + j"
    using assms j l(2) by (simp add: unat_word_ariths)
  with l(1) have "unat ((of_nat j + offset) mod of_nat (length cs) :: u64) = (unat offset + j) mod length cs"
    by (simp only: unat_mod)
  with j assms(2) show "map (\<lambda>j. cs ! unat ((of_nat j + offset) mod of_nat (length cs))) [0..<k] ! j
      = take k (rotate (unat offset) cs) ! j"
    by (simp add: nth_rotate)
qed (use assms(2) in simp)

text \<open>
  \<open>SendTransaction\<close> asks the clients in order, beginning at the offset and going round, until one
  accepts the transaction; it reports an error only when every client was asked and refused.
\<close>

theorem SendTransaction_tries_in_turn:
  assumes "SendTransaction ctxErr pickCtx cs offset confirm attempt tx w = Some ((e, tried), w')"
    and "unat offset + length cs < 2 ^ 64"
  shows "tried = take (length tried) (rotate (unat offset) cs) \<and> (\<forall>c \<in> set (butlast tried). attempt c \<noteq> None) \<and>
    (if e = None then cs = [] \<or> attempt (last tried) = None
     else tried = rotate (unat offset) cs \<and> (\<forall>c \<in> set cs. attempt c \<noteq> None))"
proof -
  have t: "tryClients cs attempt offset 0 (length cs) None = (e, tried)"
    using assms(1) by (auto simp: SendTransaction_def Let_def split: if_splits)
  note s = tryClients_spec [OF t, simplified]
  have tk: "tried = take (length tried) (rotate (unat offset) cs)"
    using rotated_clients [OF assms(2), of "length tried"] s by simp
  show ?thesis
  proof (cases e)
    case None
    with s tk show ?thesis by (auto split: if_splits)
  next
    case (Some x)
    with s have l: "length tried = length cs" "tried \<noteq> []" "attempt (last tried) = Some x" by (auto split: if_splits)
    then have "tried = rotate (unat offset) cs" using tk by simp
    moreover have "attempt c \<noteq> None" if "c \<in> set tried" for c
      using that s l append_butlast_last_id [OF l(2)] by (metis Un_iff set_append set_ConsD list.set_intros(1) empty_iff list.set(1) option.distinct(1))
    ultimately show ?thesis using Some s tk by (metis option.distinct(1) set_rotate)
  qed
qed

theorem SendTransaction_tries_in_turn_witness:
  "take 2 (rotate 1 [10, 11, 12 :: nat]) = [11, 12] \<and>
   SendTransaction None False [10, 11, 12] 1 False (\<lambda>c. if c = 12 then None else Some ''refused'') demoTx demoRich
     = Some ((None, [11, 12]), demoRich)"
proof -
  have s: "SendTransaction None False [10, 11, 12] 1 False (\<lambda>c. if c = 12 then None else Some ''refused'') demoTx demoRich
     = Some ((None, [11, 12]), demoRich)"
    by (simp add: SendTransaction_def numeral_3_eq_3 unat_mod)
  show ?thesis using SendTransaction_tries_in_turn [OF s] s by simp
qed

section \<open>Funding\<close>

lemma build_refill:
  assumes "wReadyClosed rw"
  shows "BuildTransaction None p (\<lambda>nonce. Inr (mk nonce)) None rw
    = Some (Inr (mk (pendingNonce rw)),
        rw\<lparr>pendingNonce := if pendingNonce rw < txNonce (mk (pendingNonce rw)) + 1 then txNonce (mk (pendingNonce rw)) + 1 else pendingNonce rw,
           pendingBalance := pendingBalance rw - txValue (mk (pendingNonce rw))\<rparr>)"
  using assms by (simp add: BuildTransaction_def AwaitReady_def Let_def)

text \<open>The plan when the refill amount is at least the wanted balance, for one and for all children.\<close>

lemma planRefills_full:
  assumes "minB \<le> refill" "root \<notin> set as" "\<forall>a \<in> set as. \<exists>w. map_of m a = Some w \<and> wReadyClosed w"
    and "map_of m root = Some rw" "wReadyClosed rw" "unat (pendingNonce rw) + length as < 2 ^ 64"
  shows "\<exists>txs m'. planRefills None p (\<lambda>_. None) hashOf refill root as minB err m = Some (Inr (txs, err, minB), m') \<and>
    map txTo txs = map Some (filter (\<lambda>a. pendingBalance (the (map_of m a)) \<le> minB) as) \<and>
    (\<forall>tx \<in> set txs. txValue tx = refill) \<and>
    map (unat \<circ> txNonce) txs = [unat (pendingNonce rw) ..< unat (pendingNonce rw) + length txs] \<and>
    pendingBalance (the (map_of m' root)) = pendingBalance rw - int (length txs) * refill"
  using assms
proof (induction as arbitrary: m rw)
  case (Cons a as)
  obtain w where w: "map_of m a = Some w" "wReadyClosed w" using Cons.prems(3) by auto
  have rdy: "AwaitReady None p w = Some None" using w(2) by (simp add: AwaitReady_def)
  show ?case
  proof (cases "pendingBalance w > minB")
    case True
    have "\<forall>a \<in> set as. \<exists>w. map_of m a = Some w \<and> wReadyClosed w" "root \<notin> set as" "unat (pendingNonce rw) + length as < 2 ^ 64"
      using Cons.prems by auto
    from Cons.IH [OF Cons.prems(1) this(2,1) Cons.prems(4,5) this(3)] True w rdy Cons.prems(4) show ?thesis by simp
  next
    case False
    let ?n = "pendingNonce rw"
    let ?tx = "\<lparr>txNonce = ?n, txValue = refill, txHash = hashOf ?n a refill, txTo = Some a\<rparr>"
    let ?rw = "rw\<lparr>pendingNonce := ?n + 1, pendingBalance := pendingBalance rw - refill\<rparr>"
    let ?m = "AList.update root ?rw m"
    have max: "?n < - 1" using Cons.prems(6) by (simp add: word_less_nat_alt unat_max)
    have "?n < ?n + 1" using unat_succ [OF max] by (simp add: word_less_nat_alt)
    then have b: "BuildTransaction None p (\<lambda>nonce. Inr \<lparr>txNonce = nonce, txValue = refill, txHash = hashOf nonce a refill, txTo = Some a\<rparr>)
        None rw = Some (Inr ?tx, ?rw)"
      using build_refill [OF Cons.prems(5), of p "\<lambda>nonce. \<lparr>txNonce = nonce, txValue = refill, txHash = hashOf nonce a refill, txTo = Some a\<rparr>"]
      by simp
    have other: "map_of ?m c = map_of m c" if "c \<in> set as" for c
      using that Cons.prems(2) by (auto simp: update_conv')
    have prem: "\<forall>c \<in> set as. \<exists>w. map_of ?m c = Some w \<and> wReadyClosed w" "root \<notin> set as"
      "unat (pendingNonce ?rw) + length as < 2 ^ 64" "map_of ?m root = Some ?rw" "wReadyClosed ?rw"
      using Cons.prems unat_succ [OF max] other by (auto simp: update_conv')
    from Cons.IH [OF Cons.prems(1) prem(2,1,4,5,3)] obtain txs m' where
      r: "planRefills None p (\<lambda>_. None) hashOf refill root as minB err ?m = Some (Inr (txs, err, minB), m')"
        "map txTo txs = map Some (filter (\<lambda>a. pendingBalance (the (map_of ?m a)) \<le> minB) as)"
        "\<forall>tx \<in> set txs. txValue tx = refill"
        "map (unat \<circ> txNonce) txs = [unat (pendingNonce ?rw) ..< unat (pendingNonce ?rw) + length txs]"
        "pendingBalance (the (map_of m' root)) = pendingBalance ?rw - int (length txs) * refill"
      by blast
    have "planRefills None p (\<lambda>_. None) hashOf refill root (a # as) minB err m = Some (Inr (?tx # txs, err, minB), m')"
      using w rdy Cons.prems(1,4) False r(1) b by simp
    moreover have "filter (\<lambda>a. pendingBalance (the (map_of ?m a)) \<le> minB) as
        = filter (\<lambda>a. pendingBalance (the (map_of m a)) \<le> minB) as"
      using other by (simp cong: filter_cong)
    then have "map txTo (?tx # txs) = map Some (filter (\<lambda>a. pendingBalance (the (map_of m a)) \<le> minB) (a # as))"
      using r(2) w False by simp
    moreover have "map (unat \<circ> txNonce) (?tx # txs) = [unat ?n ..< unat ?n + length (?tx # txs)]"
      using r(4) unat_succ [OF max] by (simp add: upt_conv_Cons del: upt_Suc)
    moreover have "\<forall>tx \<in> set (?tx # txs). txValue tx = refill"
        "pendingBalance (the (map_of m' root)) = pendingBalance rw - int (length (?tx # txs)) * refill"
      using r(3,5) by (simp_all add: algebra_simps)
    ultimately show ?thesis by blast
  qed
qed simp

text \<open>
  With a refill amount that reaches the wanted balance and all wallets loaded, \<open>EnsureFunding\<close> builds one
  transaction of that amount for each child whose pending balance is not above the wanted one, in the
  order of the children and with the root wallet's next nonces, and takes their sum from the root wallet's
  pending balance.
\<close>

theorem EnsureFunding_refills_poor_children:
  assumes "minB \<le> refill" "rootWallet p \<notin> set (childWallets p)"
    and "\<forall>a \<in> set (childWallets p). \<exists>w. map_of m a = Some w \<and> wReadyClosed w"
    and "map_of m (rootWallet p) = Some rw" "wReadyClosed rw" "unat (pendingNonce rw) + length (childWallets p) < 2 ^ 64"
  shows "\<exists>s m'. EnsureFunding None pickCtx (\<lambda>_. None) hashOf minB refill (Some cs) p m = Some (Some s, m') \<and>
    map txTo (rsUnsent s) = map Some (filter (\<lambda>a. pendingBalance (the (map_of m a)) \<le> minB) (childWallets p)) \<and>
    (\<forall>tx \<in> set (rsUnsent s). txValue tx = refill) \<and>
    map (unat \<circ> txNonce) (rsUnsent s) = [unat (pendingNonce rw) ..< unat (pendingNonce rw) + length (rsUnsent s)] \<and>
    pendingBalance (the (map_of m' (rootWallet p))) = pendingBalance rw - int (length (rsUnsent s)) * refill \<and>
    rsInFlight s = [] \<and> rsReturned s = (if rsUnsent s = [] then Some None else None)"
proof -
  obtain txs m' where r: "planRefills None pickCtx (\<lambda>_. None) hashOf refill (rootWallet p) (childWallets p) minB None m
        = Some (Inr (txs, None, minB), m')"
      "map txTo txs = map Some (filter (\<lambda>a. pendingBalance (the (map_of m a)) \<le> minB) (childWallets p))"
      "\<forall>tx \<in> set txs. txValue tx = refill"
      "map (unat \<circ> txNonce) txs = [unat (pendingNonce rw) ..< unat (pendingNonce rw) + length txs]"
      "pendingBalance (the (map_of m' (rootWallet p))) = pendingBalance rw - int (length txs) * refill"
    using planRefills_full [OF assms, of pickCtx hashOf None] by blast
  define s where "s = \<lparr>rsUnsent = txs, rsInFlight = [], rsError = None, rsStopped = False,
     rsReturned = (if txs = [] then Some None else None)\<rparr>"
  have "EnsureFunding None pickCtx (\<lambda>_. None) hashOf minB refill (Some cs) p m = Some (Some s, m')"
    using r(1) by (simp add: EnsureFunding_def s_def)
  moreover have "rsUnsent s = txs" "rsInFlight s = []" "rsReturned s = (if txs = [] then Some None else None)"
    by (simp_all add: s_def)
  ultimately show ?thesis using r(2-) by (intro exI [of _ s] exI [of _ m']) (simp only: simp_thms)
qed

definition demoManager :: manager where
  "demoManager = [(1, stateLoaded 7 1000 (newWallet 1)), (2, stateLoaded 0 5 (newWallet 2)), (3, stateLoaded 0 60 (newWallet 3))]"

definition demoPool :: wallet_pool where
  "demoPool = \<lparr>rootWallet = 1, childWallets = [2, 3], nextIdx = 0\<rparr>"

theorem EnsureFunding_refills_poor_children_witness:
  "\<exists>s m'. EnsureFunding None False (\<lambda>_. None) (\<lambda>n a v. 0) 50 100 (Some [0]) demoPool demoManager = Some (Some s, m') \<and>
     map txTo (rsUnsent s) = [Some 2] \<and> pendingBalance (the (map_of m' 1)) = 900"
proof -
  let ?rw = "stateLoaded 7 1000 (newWallet 1)"
  have "\<forall>a \<in> set (childWallets demoPool). \<exists>w. map_of demoManager a = Some w \<and> wReadyClosed w"
    "map_of demoManager (rootWallet demoPool) = Some ?rw" "wReadyClosed ?rw"
    "unat (pendingNonce ?rw) + length (childWallets demoPool) < 2 ^ 64" "rootWallet demoPool \<notin> set (childWallets demoPool)"
    by (simp_all add: demoPool_def demoManager_def stateLoaded_def)
  from EnsureFunding_refills_poor_children [of 50 100, OF _ this(5,1-4), of False "\<lambda>n a v. 0" "[0]"]
  obtain s m' where s: "EnsureFunding None False (\<lambda>_. None) (\<lambda>n a v. 0) 50 100 (Some [0]) demoPool demoManager = Some (Some s, m')"
    "map txTo (rsUnsent s) = map Some (filter (\<lambda>a. pendingBalance (the (map_of demoManager a)) \<le> 50) (childWallets demoPool))"
    "pendingBalance (the (map_of m' (rootWallet demoPool))) = pendingBalance ?rw - int (length (rsUnsent s)) * 100"
    by auto
  have t: "map txTo (rsUnsent s) = [Some 2]"
    using s(2) by (simp add: demoPool_def demoManager_def stateLoaded_def)
  then have "length (rsUnsent s) = 1" by (metis length_map length_Cons list.size(3) One_nat_def)
  with s(1,3) t show ?thesis
    by (intro exI [of _ s] exI [of _ m']) (simp add: demoPool_def stateLoaded_def)
qed

text \<open>
  With a smaller refill amount the subtraction overwrites the wanted balance: the second of two poor
  children, with 50 of the wanted 100, gets nothing.
\<close>

lemma EnsureFunding_overwrites_minBalance:
  "map_option (map_option rsUnsent \<circ> fst)
     (EnsureFunding None False (\<lambda>_. None) (\<lambda>n a v. 0) 100 10 (Some [0]) demoPool
       [(1, stateLoaded 7 1000 (newWallet 1)), (2, stateLoaded 0 60 (newWallet 2)), (3, stateLoaded 0 50 (newWallet 3))])
   = Some (Some [\<lparr>txNonce = 7, txValue = 40, txHash = 0, txTo = Some 2\<rparr>])"
  by (simp add: EnsureFunding_def demoPool_def AwaitReady_def BuildTransaction_def stateLoaded_def newWallet_def loadState_def Let_def)

section \<open>Sending the refills\<close>

definition refill_inv :: "u64 \<Rightarrow> tx list \<Rightarrow> refill_state \<Rightarrow> bool" where
  "refill_inv pendingLimit txs s \<longleftrightarrow> length (rsInFlight s) \<le> unat pendingLimit \<and>
     (\<exists>ts. txs = ts @ rsUnsent s \<and> set (rsInFlight s) \<subseteq> set ts)"

lemma refill_step_inv:
  assumes "refill_step lim cs s s'" "refill_inv lim txs s"
  shows "refill_inv lim txs s'"
  using assms
proof (induction rule: refill_step.induct)
  case (send_ok s tx ts attempt)
  then show ?case by (force simp: refill_inv_def intro: exI [of _ "_ @ [tx]"])
next
  case (send_error s tx ts attempt e)
  then show ?case by (force simp: refill_inv_def intro: exI [of _ "_ @ [tx]"])
next
  case (awaited tx s err)
  then show ?case using set_remove1_subset [of tx "rsInFlight s"]
    by (force simp: refill_inv_def length_remove1 split: option.splits)
qed (simp_all add: refill_inv_def)

definition refill_measure :: "refill_state \<Rightarrow> nat" where
  "refill_measure s = 2 * length (rsUnsent s) + length (rsInFlight s) + (if rsReturned s = None then 1 else 0)"

lemma refill_step_decreases: "refill_step lim cs s s' \<Longrightarrow> refill_measure s' < refill_measure s"
  by (induction rule: refill_step.induct) (auto simp: refill_measure_def length_remove1 dest: length_pos_if_in_set)

lemma tryClients_accepted: "fst (tryClients cs (\<lambda>_. None) offset i n None) = None"
  by (cases n) (simp_all add: Let_def)

lemma refill_step_progress:
  assumes "rsReturned s = None" "rsInFlight s \<noteq> [] \<or> 0 < unat lim"
  shows "\<exists>s'. refill_step lim cs s s' \<and> rsReturned s' \<in> {None, Some (rsError s)}"
proof (cases "rsInFlight s")
  case Nil
  show ?thesis
  proof (cases "rsStopped s \<or> rsUnsent s = []")
    case True
    then show ?thesis using refill_step.returned [of s lim cs] assms Nil by force
  next
    case False
    then obtain tx txs where "rsUnsent s = tx # txs" by (auto simp: neq_Nil_conv)
    with refill_step.send_ok [OF assms(1) _ this _ tryClients_accepted, of lim cs] False assms Nil show ?thesis by fastforce
  qed
next
  case (Cons tx txs)
  then show ?thesis using refill_step.awaited [of tx s lim cs None] assms(1) by force
qed

definition startRefills :: "tx list \<Rightarrow> go_error \<Rightarrow> refill_state" where
  "startRefills txs err = \<lparr>rsUnsent = txs, rsInFlight = [], rsError = err, rsStopped = False, rsReturned = None\<rparr>"

text \<open>
  While the refills are sent, never more than \<open>pendingLimit\<close> of them are unconfirmed, they are sent in
  order, at most \<open>2 n + 1\<close> steps are taken for \<open>n\<close> of them, and with a limit above zero the call can always
  go on without being cancelled until it has returned.
\<close>

theorem refills_bounded:
  assumes "(refill_step pendingLimit cs ^^ k) (startRefills txs err) s"
  shows "length (rsInFlight s) \<le> unat pendingLimit \<and>
    (\<exists>sent. txs = sent @ rsUnsent s \<and> set (rsInFlight s) \<subseteq> set sent) \<and> k \<le> 2 * length txs + 1 \<and>
    (rsReturned s = None \<longrightarrow> 0 < pendingLimit \<longrightarrow>
       (\<exists>s'. refill_step pendingLimit cs s s' \<and> rsReturned s' \<in> {None, Some (rsError s)}))"
proof -
  have "refill_inv pendingLimit txs s \<and> k + refill_measure s \<le> 2 * length txs + 1"
    using assms
  proof (induction k arbitrary: s)
    case 0
    then show ?case by (auto simp: refill_inv_def startRefills_def refill_measure_def)
  next
    case (Suc k)
    then obtain s1 where "(refill_step pendingLimit cs ^^ k) (startRefills txs err) s1" "refill_step pendingLimit cs s1 s" by auto
    with Suc.IH refill_step_inv refill_step_decreases show ?case by fastforce
  qed
  then show ?thesis
    using refill_step_progress [of s pendingLimit cs] by (auto simp: refill_inv_def word_less_nat_alt)
qed

theorem refills_bounded_witness:
  "\<exists>s. (refill_step 1 [0] ^^ 1) (startRefills [demoTx, demoTx] None) s \<and> rsInFlight s = [demoTx] \<and> length (rsInFlight s) \<le> unat (1 :: u64)"
proof -
  let ?s = "(startRefills [demoTx, demoTx] None)\<lparr>rsUnsent := [demoTx], rsInFlight := [] @ [demoTx]\<rparr>"
  have "refill_step 1 [0] (startRefills [demoTx, demoTx] None) ?s"
    using refill_step.send_ok [of "startRefills [demoTx, demoTx] None" demoTx "[demoTx]" 1 "[0]" "\<lambda>_. None", OF _ _ _ _ tryClients_accepted]
    by (simp add: startRefills_def)
  then have r: "(refill_step 1 [0] ^^ 1) (startRefills [demoTx, demoTx] None) ?s" by (simp only: relpowp_1)
  show ?thesis using refills_bounded [OF r] r by (intro exI [of _ ?s]) simp
qed

text \<open>With a limit of zero the channel has no buffer and nobody receives from it: the call can only be cancelled.\<close>

lemma refill_limit_zero:
  assumes "refill_step 0 cs s s'" "rsInFlight s = []" "rsUnsent s \<noteq> []" "\<not> rsStopped s"
  shows "\<exists>e. s' = s\<lparr>rsReturned := Some (Some e)\<rparr>"
  using assms by (induction rule: refill_step.induct) auto

section \<open>Blocks, wallet by wallet\<close>

lemma map_of_map_entry': "map_of (AList.map_entry k f m) a = (if a = k then map_option f (map_of m a) else map_of m a)"
  by (auto simp: map_of_map_entry split: option.splits)

text \<open>What a block does to the wallet of one address.\<close>

definition receiptAt :: "receipt list option \<Rightarrow> nat \<Rightarrow> receipt option" where
  "receiptAt rs idx = (case rs of None \<Rightarrow> None | Some l \<Rightarrow> if idx < length l then Some (l ! idx) else None)"

definition walletTx :: "u64 \<Rightarrow> receipt list option \<Rightarrow> nat \<Rightarrow> block_tx \<Rightarrow> root \<Rightarrow> wallet \<Rightarrow> wallet" where
  "walletTx bn rs idx bt a w =
     (case btFrom bt of
        None \<Rightarrow> w
      | Some from \<Rightarrow>
          let w1 = (if from = a then processTransactionInclusion bn (btTx bt) (receiptAt rs idx) w else w);
              w2 = (if txTo (btTx bt) = Some a then processTransactionReceival (btTx bt) w1 else w1)
          in if Some a \<in> set (btAuthorities bt) then ResyncState w2 else w2)"

fun walletTxs :: "u64 \<Rightarrow> receipt list option \<Rightarrow> nat \<Rightarrow> block_tx list \<Rightarrow> root \<Rightarrow> wallet \<Rightarrow> wallet" where
  "walletTxs bn rs idx [] a w = w"
| "walletTxs bn rs idx (bt # bts) a w = walletTxs bn rs (idx + 1) bts a (walletTx bn rs idx bt a w)"

lemma ResyncState_again: "ResyncState (ResyncState w) = ResyncState w"
  by (simp add: ResyncState_def loadState_def)

lemma map_of_authorities:
  "map_of (fold processAuthority as m) a = (if Some a \<in> set as then map_option ResyncState (map_of m a) else map_of m a)"
  by (induction as arbitrary: m)
     (auto simp: processAuthority_def map_of_map_entry' option.map_comp comp_def ResyncState_again split: option.splits)

lemma processTx_per_wallet:
  "\<exists>m'. processTx bn (Some rs) idx bt m = Some m' \<and> map_of m' a = map_option (walletTx bn rs idx bt a) (map_of m a)"
proof (cases "btFrom bt")
  case None
  then show ?thesis by (cases "map_of m a") (simp_all add: processTx_def walletTx_def)
next
  case (Some sender)
  define m1 where "m1 = (if map_of m sender = None then m
     else AList.map_entry sender (processTransactionInclusion bn (btTx bt) (receiptAt rs idx)) m)"
  define m2 where "m2 = (case txTo (btTx bt) of None \<Rightarrow> m1 | Some to \<Rightarrow> AList.map_entry to (processTransactionReceival (btTx bt)) m1)"
  have "processTx bn (Some rs) idx bt m = Some (fold processAuthority (btAuthorities bt) m2)"
    unfolding m2_def m1_def receiptAt_def by (cases "map_of m sender") (simp_all add: processTx_def Some Let_def)
  moreover have "map_of m1 a = map_option (\<lambda>w. if sender = a then processTransactionInclusion bn (btTx bt) (receiptAt rs idx) w else w) (map_of m a)"
    by (cases "map_of m a") (auto simp: m1_def map_of_map_entry')
  then have "map_of m2 a = map_option (\<lambda>w. let w1 = (if sender = a then processTransactionInclusion bn (btTx bt) (receiptAt rs idx) w else w)
      in if txTo (btTx bt) = Some a then processTransactionReceival (btTx bt) w1 else w1) (map_of m a)"
    by (cases "txTo (btTx bt)"; cases "map_of m a") (auto simp: m2_def map_of_map_entry')
  ultimately show ?thesis
    by (cases "map_of m a") (auto simp: map_of_authorities walletTx_def Some Let_def)
qed

lemma processTxs_per_wallet:
  "\<exists>m'. processTxs bn (Some rs) idx bts m = Some m' \<and> (\<forall>a. map_of m' a = map_option (walletTxs bn rs idx bts a) (map_of m a))"
proof (induction bts arbitrary: idx m)
  case (Cons bt bts)
  obtain m1 where m1: "processTx bn (Some rs) idx bt m = Some m1"
    "\<And>a. map_of m1 a = map_option (walletTx bn rs idx bt a) (map_of m a)"
    using processTx_per_wallet [of bn rs idx bt m] by (metis option.inject)
  with Cons [of "idx + 1" m1] show ?case by (auto simp: option.map_comp comp_def)
next
  case Nil
  have "map_option (walletTxs bn rs idx [] a) x = x" for a x by (cases x) simp_all
  then show ?case by (simp del: walletTxs.simps)
qed

lemma processStale_per_wallet:
  assumes "\<And>a w. map_of m a = Some w \<Longrightarrow> processStaleConfirmations bn (nonceAt a) w \<noteq> None" "distinct (map fst m)"
  shows "\<exists>m'. processStale bn nonceAt m = Some m' \<and>
    (\<forall>a. map_of m' a = Option.bind (map_of m a) (processStaleConfirmations bn (nonceAt a)))"
  using assms
proof (induction m)
  case (Cons e m)
  obtain a w where e: "e = (a, w)" by fastforce
  have "\<And>b v. map_of m b = Some v \<Longrightarrow> processStaleConfirmations bn (nonceAt b) v \<noteq> None"
    using Cons.prems by (metis (no_types, lifting) e distinct.simps(2) fst_conv list.simps(9) map_of_Cons_code(2) map_of_eq_None_iff
        option.distinct(1) image_eqI list.set_map)
  with Cons obtain m' where m': "processStale bn nonceAt m = Some m'"
      "\<forall>a. map_of m' a = Option.bind (map_of m a) (processStaleConfirmations bn (nonceAt a))" by auto
  obtain w' where "processStaleConfirmations bn (nonceAt a) w = Some w'" using Cons.prems(1) [of a w] e by auto
  with m' show ?case by (auto simp: e)
qed simp

lemma processTxs_keys: "processTxs bn rs idx bts m = Some m' \<Longrightarrow> map fst m' = map fst m"
proof (induction bts arbitrary: idx m)
  case (Cons bt bts)
  have k: "map fst (AList.map_entry x f l) = map fst l" for x :: root and f and l :: manager
    by (induction l) auto
  have f: "map fst (fold processAuthority as l) = map fst l" for as l
    by (induction as arbitrary: l) (auto simp: processAuthority_def k split: option.splits)
  obtain m1 where m1: "processTx bn rs idx bt m = Some m1" "processTxs bn rs (idx + 1) bts m1 = Some m'"
    using Cons.prems by (auto simp: bind_eq_Some_conv)
  then have "map fst m1 = map fst m"
    by (auto simp: processTx_def k f Let_def bind_eq_Some_conv split: option.splits)
  with Cons.IH [OF m1(2)] show ?case by simp
qed simp

text \<open>
  C31. A block that a client has seen and whose receipts can be asked for is applied to all wallets of the
  manager without a panic, and each wallet is changed as if it were the only one: by its own inclusions,
  receivals and resynchronisations in the order of the block, then the check for stale confirmations.
\<close>

theorem block_updates_each_wallet:
  assumes "distinct (map fst m)" "\<forall>a. nonceAt a \<noteq> None"
  shows "\<exists>m'. processBlockTransactions bn (Some txs) (Some rs) nonceAt m = Some m' \<and> map fst m' = map fst m \<and>
    (\<forall>a. map_of m' a = Option.bind (map_of m a) (\<lambda>w. processStaleConfirmations bn (nonceAt a) (walletTxs bn rs 0 txs a w)))"
proof -
  obtain m1 where m1: "processTxs bn (Some rs) 0 txs m = Some m1"
      "\<forall>a. map_of m1 a = map_option (walletTxs bn rs 0 txs a) (map_of m a)"
    using processTxs_per_wallet by blast
  have keys: "map fst m1 = map fst m" using processTxs_keys [OF m1(1)] .
  have "processStaleConfirmations bn (nonceAt a) w \<noteq> None" for a w
  proof -
    obtain y where "nonceAt a = Some y" using assms(2) by auto
    then show ?thesis by (simp add: processStaleConfirmations_def Let_def)
  qed
  then obtain m' where m': "processStale bn nonceAt m1 = Some m'"
      "\<forall>a. map_of m' a = Option.bind (map_of m1 a) (processStaleConfirmations bn (nonceAt a))"
    using processStale_per_wallet [of m1 bn nonceAt] assms(1) keys by auto
  have "map_of m' a = Option.bind (map_of m a) (\<lambda>w. processStaleConfirmations bn (nonceAt a) (walletTxs bn rs 0 txs a w))" for a
    using m1(2) m'(2) by (cases "map_of m a") simp_all
  moreover have "map fst m' = map fst m1"
    using m'(1) by (induction bn nonceAt m1 arbitrary: m' rule: processStale.induct) (auto simp: bind_eq_Some_conv)
  ultimately show ?thesis using m1(1) m'(1) keys by (auto simp: processBlockTransactions_def)
qed

definition demoTransfer :: block_tx where
  "demoTransfer = \<lparr>btTx = \<lparr>txNonce = 7, txValue = 100, txHash = 9, txTo = Some 2\<rparr>, btFrom = Some 1, btAuthorities = []\<rparr>"

theorem block_updates_each_wallet_witness:
  "\<exists>m'. processBlockTransactions 12 (Some [demoTransfer]) (Some (Some [demoReceipt])) (\<lambda>a. Some (Inr 0)) demoManager = Some m' \<and>
     map_option confirmedBalance (map_of m' 1) = Some 858 \<and> map_option confirmedBalance (map_of m' 2) = Some 105"
proof -
  have "distinct (map fst demoManager)" "\<forall>a :: root. Some (Inr 0 :: string + u64) \<noteq> None" by (simp_all add: demoManager_def)
  from block_updates_each_wallet [OF this, of 12 "[demoTransfer]" "Some [demoReceipt]"]
  obtain m' where m': "processBlockTransactions 12 (Some [demoTransfer]) (Some (Some [demoReceipt])) (\<lambda>a. Some (Inr 0)) demoManager = Some m'"
    "\<And>a. map_of m' a = Option.bind (map_of demoManager a)
       (\<lambda>w. processStaleConfirmations 12 (Some (Inr 0)) (walletTxs 12 (Some [demoReceipt]) 0 [demoTransfer] a w))" by blast
  have "map_option confirmedBalance (map_of m' 1) = Some 858" "map_option confirmedBalance (map_of m' 2) = Some 105"
    unfolding m'(2)
    by (simp_all add: demoManager_def demoTransfer_def walletTx_def receiptAt_def processTransactionReceival_def
        processStaleConfirmations_def demo_defs)
  with m'(1) show ?thesis by blast
qed

section \<open>Child wallets\<close>

lemma GetNextChildWallet_next:
  assumes "unat (nextIdx p) < length (childWallets p)" "length (childWallets p) < 2 ^ 64"
  shows "GetNextChildWallet p = Some (childWallets p ! unat (nextIdx p),
    p\<lparr>nextIdx := of_nat ((unat (nextIdx p) + 1) mod length (childWallets p))\<rparr>)"
proof -
  have u: "unat (nextIdx p + 1) = unat (nextIdx p) + 1" using assms by (simp add: unat_word_ariths)
  then have w: "nextIdx p + 1 = of_nat (unat (nextIdx p) + 1)" unfolding u [symmetric] by simp
  show ?thesis
  proof (cases "unat (nextIdx p) + 1 = length (childWallets p)")
    case True
    with assms u show ?thesis by (simp add: GetNextChildWallet_def Let_def)
  next
    case False
    then have "(unat (nextIdx p) + 1) mod length (childWallets p) = unat (nextIdx p) + 1" "\<not> unat (nextIdx p + 1) \<ge> length (childWallets p)"
      using assms u by simp_all
    with assms(1) w show ?thesis by (simp only: GetNextChildWallet_def Let_def if_False not_le refl if_not_P)
  qed
qed

fun nextChildren :: "nat \<Rightarrow> wallet_pool \<Rightarrow> root list" where
  "nextChildren 0 p = []"
| "nextChildren (Suc n) p = (case GetNextChildWallet p of None \<Rightarrow> [] | Some (a, p') \<Rightarrow> a # nextChildren n p')"

text \<open>
  Successive calls of \<open>GetNextChildWallet\<close> go round the children of a pool: call \<open>i\<close> returns child
  \<open>nextIdx + i\<close> modulo their number.
\<close>

theorem GetNextChildWallet_cycles:
  assumes "unat (nextIdx p) < length (childWallets p)" "length (childWallets p) < 2 ^ 64"
  shows "nextChildren n p = map (\<lambda>i. childWallets p ! ((unat (nextIdx p) + i) mod length (childWallets p))) [0..<n]"
  using assms
proof (induction n arbitrary: p)
  case (Suc n)
  let ?k = "length (childWallets p)" and ?j = "(unat (nextIdx p) + 1) mod length (childWallets p)"
  let ?p = "p\<lparr>nextIdx := of_nat ?j\<rparr>"
  have j: "?j < ?k" using Suc.prems(1) by (intro mod_less_divisor) linarith
  then have u: "unat (of_nat ?j :: u64) = ?j" using Suc.prems(2) by (simp add: unat_of_nat)
  have "nextChildren n ?p = map (\<lambda>i. childWallets p ! ((?j + i) mod ?k)) [0..<n]"
    using Suc.IH [of ?p] j u Suc.prems(2) by simp
  moreover have "(?j + i) mod ?k = (unat (nextIdx p) + Suc i) mod ?k" for i by (simp add: mod_simps)
  ultimately show ?case
    using GetNextChildWallet_next [OF Suc.prems] Suc.prems(1)
    by (simp add: upt_conv_Cons map_Suc_upt [symmetric] comp_def del: upt_Suc map_Suc_upt)
qed simp

theorem GetNextChildWallet_cycles_witness: "nextChildren 5 demoPool = [2, 3, 2, 3, 2]"
proof -
  have "unat (nextIdx demoPool) < length (childWallets demoPool)" "length (childWallets demoPool) < 2 ^ 64"
    by (simp_all add: demoPool_def)
  note r = GetNextChildWallet_cycles [OF this, of 5]
  show ?thesis unfolding r by code_simp
qed

text \<open>Different indices give different bytes to hash, so children differ unless the hash collides.\<close>

lemma bigEndian8_inj:
  assumes "bigEndian8 i = bigEndian8 j"
  shows "i = j"
proof (rule bit_word_eqI)
  fix n assume n: "n < LENGTH(64)"
  let ?k = "7 - n div 8"
  have k: "?k < 8" "8 * (7 - ?k) = 8 * (n div 8)" using n by auto
  have "bigEndian8 i ! ?k = bigEndian8 j ! ?k" using assms by simp
  then have "unat (drop_bit (8 * (n div 8)) i) mod 256 = unat (drop_bit (8 * (n div 8)) j) mod 256"
    using k by (simp add: bigEndian8_def char_of_eq_iff of_char_of take_bit_eq_mod)
  then have "take_bit 8 (unat (drop_bit (8 * (n div 8)) i)) = take_bit 8 (unat (drop_bit (8 * (n div 8)) j))"
    by (simp add: take_bit_eq_mod)
  then have "bit (take_bit 8 (unat (drop_bit (8 * (n div 8)) i))) (n mod 8) = bit (take_bit 8 (unat (drop_bit (8 * (n div 8)) j))) (n mod 8)"
    by simp
  then show "bit i n = bit j n" by (simp add: bit_take_bit_iff bit_unsigned_iff bit_drop_bit_eq)
qed

lemma childKeyBytes_inj: "childKeyBytes k i seed = childKeyBytes k j seed \<longleftrightarrow> i = j"
  using bigEndian8_inj by (auto simp: childKeyBytes_def bigEndian8_def)

section \<open>Where the wallet falls short\<close>

text \<open>Without a receipt the nonce is confirmed, and neither balance is charged for the transaction.\<close>

lemma inclusion_without_receipt:
  assumes "wReady w" "confirmedNonce w \<le> txNonce tx"
  shows "confirmedBalance (processTransactionInclusion bn tx None w) = confirmedBalance w"
    and "confirmedNonce (processTransactionInclusion bn tx None w) = txNonce tx + 1"
  using assms by (auto simp: processTransactionInclusion_def Let_def)

text \<open>A cancelled context before the wallet is loaded: the call waits for a goroutine that has ended.\<close>

lemma SendTransaction_hangs:
  "\<not> wReadyClosed w \<Longrightarrow> SendTransaction (Some e) pickCtx cs offset True attempt tx w = None"
  by (simp add: SendTransaction_def confirmStart_def AwaitReady_def)

lemma SendTransaction_no_clients: "SendTransaction ctxErr pickCtx [] offset False attempt tx w = Some ((None, []), w)"
  by (simp add: SendTransaction_def)

text \<open>
  Reloading the state confirms nonces and leaves those who wait for them where they are; the check for
  stale confirmations then finds nothing to do.
\<close>

lemma resync_strands_waiters:
  assumes "n \<le> nonce"
  shows "txNonceChans (stateLoaded nonce balance w) = txNonceChans w"
    and "processStaleConfirmations bn (Some (Inr n)) (stateLoaded nonce balance w) = Some w' \<Longrightarrow> txNonceChans w' = txNonceChans w"
  using assms by (auto simp: stateLoaded_def processStaleConfirmations_def Let_def split: if_splits)

end
