(* ===== verification/Float64.thy ===== *)
theory Float64
  imports Prelude "HOL-Library.Log_Nat"
begin

text \<open>
  The part of Go's \<open>float64\<close> the check tasks use: conversion of unsigned numbers, product, quotient and
  comparison of numbers that are not negative, with the rounding of IEEE 754 (53 bits, ties to even), and
  the infinity and NaN a division by zero gives. Numbers stay far from overflow and underflow.
\<close>

section \<open>Rounding\<close>

text \<open>The nearest integer, a tie going to the even one; the binary exponent of a positive number; 53 significant bits.\<close>

definition roundHalfEven :: "rat \<Rightarrow> int" where
  "roundHalfEven x =
     (let f = \<lfloor>x\<rfloor>; r = x - of_int f
      in if r < 1 / 2 then f else if r > 1 / 2 then f + 1 else if even f then f else f + 1)"

definition binExp :: "rat \<Rightarrow> int" where
  "binExp q =
     (let (n, d) = quotient_of q; e = bitlen n - bitlen d
      in if power_int 2 e \<le> q then e else e - 1)"

definition round53 :: "rat \<Rightarrow> rat" where
  "round53 q =
     (if q \<le> 0 then q
      else let e = binExp q in of_int (roundHalfEven (q * power_int 2 (52 - e))) * power_int 2 (e - 52))"

datatype float64 = FFin rat | FInf | FNaN

definition fOfNat :: "nat \<Rightarrow> float64" where
  "fOfNat n = FFin (round53 (of_nat n))"

fun fMul :: "float64 \<Rightarrow> float64 \<Rightarrow> float64" where
  "fMul (FFin a) (FFin b) = FFin (round53 (a * b))"
| "fMul FNaN b = FNaN"
| "fMul a FNaN = FNaN"
| "fMul FInf (FFin b) = (if b = 0 then FNaN else FInf)"
| "fMul (FFin a) FInf = (if a = 0 then FNaN else FInf)"
| "fMul FInf FInf = FInf"

fun fDiv :: "float64 \<Rightarrow> float64 \<Rightarrow> float64" where
  "fDiv (FFin a) (FFin b) = (if b = 0 then (if a = 0 then FNaN else FInf) else FFin (round53 (a / b)))"
| "fDiv FNaN b = FNaN"
| "fDiv a FNaN = FNaN"
| "fDiv FInf (FFin b) = FInf"
| "fDiv (FFin a) FInf = FFin 0"
| "fDiv FInf FInf = FNaN"

fun fLess :: "float64 \<Rightarrow> float64 \<Rightarrow> bool" where
  "fLess (FFin a) (FFin b) = (a < b)"
| "fLess (FFin a) FInf = True"
| "fLess a b = False"

section \<open>Rounding is monotone and exact on 53 bits\<close>

lemma roundHalfEven_of_int [simp]: "roundHalfEven (of_int i) = i"
  by (simp add: roundHalfEven_def)

lemma roundHalfEven_bounds: "of_int (roundHalfEven x) - 1 / 2 \<le> x" "x \<le> of_int (roundHalfEven x) + 1 / 2"
  unfolding roundHalfEven_def Let_def by (simp_all add: algebra_simps) linarith+

lemma roundHalfEven_mono:
  assumes "x \<le> y"
  shows "roundHalfEven x \<le> roundHalfEven y"
proof (cases "\<lfloor>x\<rfloor> = \<lfloor>y\<rfloor>")
  case True
  then show ?thesis using assms by (auto simp: roundHalfEven_def Let_def)
next
  case False
  with floor_mono [OF assms] have "\<lfloor>x\<rfloor> + 1 \<le> \<lfloor>y\<rfloor>" by linarith
  then show ?thesis by (auto simp: roundHalfEven_def Let_def)
qed

lemma power_int_nonneg: "0 \<le> k \<Longrightarrow> (power_int 2 k :: rat) = of_int (2 ^ nat k)"
  by (simp add: power_int_def)

lemma bitlen_rat_bounds:
  assumes "0 < x"
  shows "(power_int 2 (bitlen x - 1) :: rat) \<le> of_int x" and "of_int x < (power_int 2 (bitlen x) :: rat)"
proof -
  have "0 < bitlen x" using assms bitlen_eq_zero_iff [of x] bitlen_nonneg [of x] by linarith
  then have "(power_int 2 (bitlen x - 1) :: rat) = of_int (2 ^ nat (bitlen x - 1))" "(power_int 2 (bitlen x) :: rat) = of_int (2 ^ nat (bitlen x))"
    by (simp_all only: power_int_nonneg)
  with bitlen_bounds [OF assms] show "(power_int 2 (bitlen x - 1) :: rat) \<le> of_int x" "of_int x < (power_int 2 (bitlen x) :: rat)"
    by (simp_all only: of_int_le_iff of_int_less_iff)
qed

lemma binExp_bounds:
  assumes "0 < q"
  shows "power_int 2 (binExp q) \<le> q" and "q < power_int 2 (binExp q + 1)"
proof -
  obtain n d where nd: "quotient_of q = (n, d)" by fastforce
  have d: "0 < d" using quotient_of_denom_pos [OF nd] .
  have q: "q = of_int n / of_int d" using quotient_of_div [OF nd] .
  then have n: "0 < n" using assms d by (simp add: zero_less_divide_iff)
  let ?a = "bitlen n" and ?b = "bitlen d"
  note pn = bitlen_rat_bounds [OF n] and pd = bitlen_rat_bounds [OF d]
  have dpos: "(0 :: rat) < of_int d" "(0 :: rat) < of_int n" using d n by simp_all
  have up: "q < power_int 2 (?a - ?b + 1)"
  proof -
    have "of_int n < power_int 2 (?a - ?b + 1) * (power_int 2 (?b - 1) :: rat)"
      using pn(2) by (simp flip: power_int_add)
    also have "\<dots> \<le> power_int 2 (?a - ?b + 1) * of_int d" using pd(1) by (intro mult_left_mono) simp_all
    finally show ?thesis using dpos by (simp add: q pos_divide_less_eq)
  qed
  have low: "power_int 2 (?a - ?b - 1) \<le> q"
  proof -
    have "power_int 2 (?a - ?b - 1) * of_int d \<le> power_int 2 (?a - ?b - 1) * (power_int 2 ?b :: rat)"
      using pd(2) by (intro mult_left_mono) simp_all
    also have "\<dots> \<le> of_int n" using pn(1) by (simp flip: power_int_add)
    finally show ?thesis using dpos by (simp add: q pos_le_divide_eq)
  qed
  show "power_int 2 (binExp q) \<le> q" "q < power_int 2 (binExp q + 1)"
    using up low by (auto simp: binExp_def nd Let_def)
qed

lemma round53_pos:
  assumes "0 < q"
  shows "power_int 2 (binExp q) \<le> round53 q" and "round53 q \<le> power_int 2 (binExp q + 1)"
proof -
  let ?e = "binExp q"
  let ?x = "q * power_int 2 (52 - ?e)"
  have split: "power_int 2 ?e = (power_int 2 52 :: rat) * power_int 2 (?e - 52)"
    "power_int 2 (?e + 1) = (power_int 2 53 :: rat) * power_int 2 (?e - 52)"
    using power_int_add [of "2 :: rat" 52 "?e - 52"] power_int_add [of "2 :: rat" 53 "?e - 52"] by (simp_all add: algebra_simps)
  have x: "?x * power_int 2 (?e - 52) = q" by (simp add: mult.assoc flip: power_int_add)
  have "(power_int 2 52 :: rat) \<le> ?x"
    using binExp_bounds(1) [OF assms] unfolding split by (subst (asm) x [symmetric]) simp
  then have "(of_int (2 ^ 52) :: rat) \<le> ?x" by simp
  from roundHalfEven_mono [OF this] have lo: "2 ^ 52 \<le> roundHalfEven ?x" by (simp only: roundHalfEven_of_int)
  have "?x \<le> power_int 2 53"
    using binExp_bounds(2) [OF assms] unfolding split by (subst (asm) (1) x [symmetric]) simp
  then have "?x \<le> (of_int (2 ^ 53) :: rat)" by simp
  from roundHalfEven_mono [OF this] have hi: "roundHalfEven ?x \<le> 2 ^ 53" by (simp only: roundHalfEven_of_int)
  have r: "round53 q = of_int (roundHalfEven ?x) * power_int 2 (?e - 52)"
    using assms by (simp add: round53_def Let_def)
  have "(of_int (2 ^ 52) :: rat) \<le> of_int (roundHalfEven ?x)" "of_int (roundHalfEven ?x) \<le> (of_int (2 ^ 53) :: rat)"
    using lo hi by (simp_all only: of_int_le_iff)
  then show "power_int 2 ?e \<le> round53 q" "round53 q \<le> power_int 2 (?e + 1)"
    unfolding r split by (simp_all add: mult_right_mono)
qed

lemma round53_mono:
  assumes "p \<le> q"
  shows "round53 p \<le> round53 q"
proof (cases "p \<le> 0")
  case True
  show ?thesis
  proof (cases "q \<le> 0")
    case False
    then have "(0 :: rat) \<le> round53 q" using round53_pos(1) [of q] by (meson order_trans zero_le_power_int zero_le_numeral not_le)
    with True show ?thesis by (simp add: round53_def)
  qed (use True assms in \<open>simp add: round53_def\<close>)
next
  case False
  then have pq: "0 < p" "0 < q" using assms by auto
  have "(power_int 2 (binExp p) :: rat) < power_int 2 (binExp q + 1)"
    using binExp_bounds(1) [OF pq(1)] binExp_bounds(2) [OF pq(2)] assms by linarith
  then have le: "binExp p < binExp q + 1" by (meson not_le one_le_numeral power_int_increasing order.strict_iff_not)
  show ?thesis
  proof (cases "binExp p = binExp q")
    case True
    have "p * power_int 2 (52 - binExp q) \<le> q * power_int 2 (52 - binExp q)" using assms by (simp add: mult_right_mono)
    from roundHalfEven_mono [OF this] show ?thesis
      using pq True by (simp add: round53_def Let_def mult_right_mono)
  next
    case False
    then have "(power_int 2 (binExp p + 1) :: rat) \<le> power_int 2 (binExp q)" using le by (intro power_int_increasing) simp_all
    with round53_pos(2) [OF pq(1)] round53_pos(1) [OF pq(2)] show ?thesis by linarith
  qed
qed

lemma round53_nat:
  assumes "n < 2 ^ 53"
  shows "round53 (of_nat n) = of_nat n"
proof (cases "n = 0")
  case False
  let ?e = "binExp (of_nat n)"
  have pos: "(0 :: rat) < of_nat n" using False by simp
  have "(of_nat n :: rat) < of_nat (2 ^ 53)" using assms by (simp only: of_nat_less_iff)
  then have "(power_int 2 ?e :: rat) < power_int 2 53" using binExp_bounds(1) [OF pos] by simp
  then have e: "?e < 53" by (meson not_le one_le_numeral power_int_increasing order.strict_iff_not)
  have "(of_nat n :: rat) * power_int 2 (52 - ?e) = of_int (int n * 2 ^ nat (52 - ?e))"
    using e by (simp add: power_int_def)
  then have "round53 (of_nat n) = of_nat n * power_int 2 (52 - ?e) * power_int 2 (?e - 52)"
    using False roundHalfEven_of_int [of "int n * 2 ^ nat (52 - ?e)"] by (simp only: round53_def Let_def if_not_P not_le pos)
  then show ?thesis by (simp add: mult.assoc flip: power_int_add)
qed (simp add: round53_def)

text \<open>
  A percentage of numbers that fit 53 bits compares with a whole number as the exact fraction does, as far as the
  exact fraction decides it.
\<close>

definition fPercent :: "nat \<Rightarrow> nat \<Rightarrow> float64" where
  "fPercent a b = fDiv (fMul (fOfNat a) (FFin 100)) (fOfNat b)"

lemma fPercent_pos:
  assumes "100 * a < 2 ^ 53" "0 < b" "b < 2 ^ 53"
  shows "fPercent a b = FFin (round53 (of_nat (100 * a) / of_nat b))"
proof -
  have "round53 (of_nat a * 100) = of_nat (100 * a)"
    using round53_nat [OF assms(1)] by (simp add: mult.commute)
  with assms show ?thesis by (simp add: fPercent_def fOfNat_def round53_nat)
qed

lemma fPercent_reaches:
  assumes "100 * a < 2 ^ 53" "0 < b" "b < 2 ^ 53" "m < 2 ^ 53" "m * b \<le> 100 * a"
  shows "\<not> fLess (fPercent a b) (fOfNat m)"
proof -
  have "(of_nat m :: rat) \<le> of_nat (100 * a) / of_nat b"
    using assms(2,5) by (simp add: pos_le_divide_eq flip: of_nat_mult)
  from round53_mono [OF this] show ?thesis using assms by (simp add: fPercent_pos fOfNat_def round53_nat)
qed

lemma fPercent_stays:
  assumes "100 * a < 2 ^ 53" "0 < b" "b < 2 ^ 53" "m < 2 ^ 53" "100 * a \<le> m * b"
  shows "\<not> fLess (fOfNat m) (fPercent a b)"
proof -
  have "of_nat (100 * a) / of_nat b \<le> (of_nat m :: rat)"
    using assms(2,5) by (simp add: pos_divide_le_eq flip: of_nat_mult)
  from round53_mono [OF this] show ?thesis using assms by (simp add: fPercent_pos fOfNat_def round53_nat)
qed

lemma fPercent_zero: "fPercent 0 0 = FNaN"
  by (simp add: fPercent_def fOfNat_def round53_def)

end
