(* ===== verification/ClusterChecks.thy ===== *)
theory ClusterChecks
  imports ExecutionClients Scheduler Float64
begin

text \<open>
  The check tasks that watch the clients and the clock: slot range, finality, forks, reorgs, proposer
  duties, validator status, sync status and health (\<open>tasks/check_consensus_*\<close>,
  \<open>tasks/check_execution_sync_status\<close>, \<open>tasks/check_clients_are_healthy\<close>). Each loops until its context ends
  and sets its result from a check of what it observes; the observations of the iterations are
  arguments, as are the answers of nodes, the wall clock, the JSON encoding of outputs, regular
  expressions and the names of validators. Log output is left out.
\<close>

section \<open>Task context\<close>

text \<open>What a check changes: its result, its output variables and the variables of its scope.\<close>

record check_ctx =
  ccResult :: TaskResult
  ccOutputs :: vars_map
  ccVars :: vars_map

definition ctxSetResult :: "TaskResult \<Rightarrow> check_ctx \<Rightarrow> check_ctx" where
  "ctxSetResult r c = c\<lparr>ccResult := r\<rparr>"

definition setOutput :: "string \<Rightarrow> var_value \<Rightarrow> check_ctx \<Rightarrow> check_ctx" where
  "setOutput name v c = c\<lparr>ccOutputs := AList.update name v (ccOutputs c)\<rparr>"

definition setCtxVar :: "string \<Rightarrow> var_value \<Rightarrow> check_ctx \<Rightarrow> check_ctx" where
  "setCtxVar name v c = c\<lparr>ccVars := AList.update name v (ccVars c)\<rparr>"

text \<open>An output that \<open>GeneralizeData\<close> encodes; when that fails it is not set.\<close>

definition setGeneralized :: "string \<Rightarrow> string + var_value \<Rightarrow> check_ctx \<Rightarrow> check_ctx" where
  "setGeneralized name encoded c = (case encoded of Inl e \<Rightarrow> c | Inr v \<Rightarrow> setOutput name v c)"

text \<open>The result most checks give: success, or failure if misses count, or none.\<close>

definition missResult :: "bool \<Rightarrow> bool \<Rightarrow> TaskResult" where
  "missResult failOnCheckMiss pass =
     (if pass then TaskResultSuccess else if failOnCheckMiss then TaskResultFailure else TaskResultNone)"

section \<open>Slot range\<close>

record SlotRangeConfig =
  MinSlotNumber :: u64
  MaxSlotNumber :: u64
  MinEpochNumber :: u64
  MaxEpochNumber :: u64
  FailIfLower :: bool

definition slotRangeDefault :: SlotRangeConfig where
  "slotRangeDefault = \<lparr>MinSlotNumber = 0, MaxSlotNumber = - 1, MinEpochNumber = 0, MaxEpochNumber = - 1, FailIfLower = False\<rparr>"

text \<open>\<open>clock\<close> is the answer of the wall clock: slot and epoch; times are seconds.\<close>

definition runRangeCheck ::
    "SlotRangeConfig \<Rightarrow> int \<Rightarrow> int \<Rightarrow> string + u64 \<times> u64 \<Rightarrow> check_ctx \<Rightarrow> (bool \<times> bool) \<times> check_ctx" where
  "runRangeCheck cfg genesisTime now clock c =
     (if genesisTime \<ge> now then ((False, True), c)
      else case clock of
             Inl e \<Rightarrow> ((False, True), c)
           | Inr (slot, epoch) \<Rightarrow>
               let c1 = setOutput ''currentEpoch'' (VUint64 epoch) (setOutput ''currentSlot'' (VUint64 slot)
                          (setOutput ''genesisTime'' (VInt genesisTime) c))
               in (if slot < MinSlotNumber cfg then (False, True)
                   else if epoch < MinEpochNumber cfg then (False, True)
                   else if slot > MaxSlotNumber cfg then (False, False)
                   else if epoch > MaxEpochNumber cfg then (False, False)
                   else (True, False), c1))"

definition slotRangeStep :: "SlotRangeConfig \<Rightarrow> int \<times> int \<times> (string + u64 \<times> u64) \<Rightarrow> check_ctx \<Rightarrow> check_ctx" where
  "slotRangeStep cfg obs c =
     (let (genesisTime, now, clock) = obs;
          ((checkResult, isLower), c1) = runRangeCheck cfg genesisTime now clock c
      in ctxSetResult (if checkResult then TaskResultSuccess
                       else if \<not> isLower \<or> FailIfLower cfg then TaskResultFailure else TaskResultNone) c1)"

definition slotRangeExecute ::
    "SlotRangeConfig \<Rightarrow> go_error \<Rightarrow> (int \<times> int \<times> (string + u64 \<times> u64)) list \<Rightarrow> check_ctx \<Rightarrow> go_error \<times> check_ctx" where
  "slotRangeExecute cfg ctxErr obs c = (ctxErr, fold (slotRangeStep cfg) obs c)"

section \<open>Finality\<close>

record FinalityConfig =
  MinUnfinalizedEpochs :: u64
  MaxUnfinalizedEpochs :: u64
  MinFinalizedEpochs :: u64
  finFailOnCheckMiss :: bool

text \<open>The number of unfinalized epochs is a 64 bit difference, which wraps when the finalized epoch is ahead of the clock.\<close>

definition runFinalityCheck ::
    "FinalityConfig \<Rightarrow> (root \<Rightarrow> string) \<Rightarrow> string + u64 \<Rightarrow> u64 \<times> root \<Rightarrow> check_ctx \<Rightarrow> bool \<times> check_ctx" where
  "runFinalityCheck cfg rootStr clock checkpoint c =
     (case clock of
        Inl e \<Rightarrow> (False, c)
      | Inr currentEpoch \<Rightarrow>
          let (finEpoch, finRoot) = checkpoint;
              unfinalized = currentEpoch - finEpoch;
              c1 = setOutput ''unfinalizedEpochs'' (VUint64 unfinalized) (setOutput ''finalizedRoot'' (VStr (rootStr finRoot))
                     (setOutput ''finalizedEpoch'' (VUint64 finEpoch) c))
          in (if MinUnfinalizedEpochs cfg > 0 \<and> unfinalized < MinUnfinalizedEpochs cfg then False
              else if MaxUnfinalizedEpochs cfg > 0 \<and> unfinalized > MaxUnfinalizedEpochs cfg then False
              else if MinFinalizedEpochs cfg > 0 \<and> finEpoch < MinFinalizedEpochs cfg then False
              else True, c1))"

definition finalityStep ::
    "FinalityConfig \<Rightarrow> (root \<Rightarrow> string) \<Rightarrow> (string + u64) \<times> u64 \<times> root \<Rightarrow> check_ctx \<Rightarrow> check_ctx" where
  "finalityStep cfg rootStr obs c =
     (let (pass, c1) = runFinalityCheck cfg rootStr (fst obs) (snd obs) c
      in ctxSetResult (missResult (finFailOnCheckMiss cfg) pass) c1)"

definition finalityExecute ::
    "FinalityConfig \<Rightarrow> (root \<Rightarrow> string) \<Rightarrow> go_error \<Rightarrow> ((string + u64) \<times> u64 \<times> root) list \<Rightarrow> check_ctx \<Rightarrow> go_error \<times> check_ctx" where
  "finalityExecute cfg rootStr ctxErr obs c = (ctxErr, fold (finalityStep cfg rootStr) obs c)"

section \<open>Forks\<close>

record ForksConfig =
  fkMinCheckEpochCount :: u64
  MaxForkDistance :: u64
  MaxForkCount :: u64

definition forksDefault :: ForksConfig where
  "forksDefault = \<lparr>fkMinCheckEpochCount = 1, MaxForkDistance = 1, MaxForkCount = 0\<rparr>"

record ForkInfo =
  fiHeadSlot :: u64
  fiHeadRoot :: string
  fiClients :: "string list"

definition forkInfo :: "(root \<Rightarrow> string) \<Rightarrow> ('b, 'v) cl_pool \<Rightarrow> HeadFork \<Rightarrow> ForkInfo" where
  "forkInfo rootStr p f = \<lparr>fiHeadSlot = forkSlot f, fiHeadRoot = rootStr (forkRoot f),
     fiClients = map (\<lambda>i. endpointName (clients p ! i)) (AllClients f)\<rparr>"

text \<open>None: a walk over the parents of a block does not end.\<close>

definition forksRunCheck ::
    "ForksConfig \<Rightarrow> (root \<Rightarrow> string) \<Rightarrow> (ForkInfo list \<Rightarrow> string + var_value) \<Rightarrow> u64 \<Rightarrow> string + u64 \<Rightarrow> check_ctx \<Rightarrow>
     ('b, 'v) cl_pool \<Rightarrow> ((TaskResult \<times> check_ctx) \<times> ('b, 'v) cl_pool) option" where
  "forksRunCheck cfg rootStr generalize startEpoch clock c p =
     map_option (\<lambda>(forks, p').
       let c1 = setGeneralized ''forks'' (generalize (map (forkInfo rootStr p') forks)) c;
           n = (of_nat (length forks) :: u64)
       in ((if n \<ge> 1 \<and> n - 1 > MaxForkCount cfg then TaskResultFailure
            else case clock of
                   Inl e \<Rightarrow> TaskResultNone
                 | Inr epoch \<Rightarrow>
                     if fkMinCheckEpochCount cfg > 0 \<and> epoch - startEpoch < fkMinCheckEpochCount cfg then TaskResultNone
                     else TaskResultSuccess, c1), p'))
       (GetHeadForks (MaxForkDistance cfg) p)"

text \<open>
  The loop sets the result at every block; without a wall clock at the start it returns an error. An
  observation is the answer of the wall clock at a block; the pool changes between blocks as given.
\<close>

definition forksStep ::
    "ForksConfig \<Rightarrow> (root \<Rightarrow> string) \<Rightarrow> (ForkInfo list \<Rightarrow> string + var_value) \<Rightarrow> u64 \<Rightarrow> (string + u64) \<times> ('b, 'v) cl_pool \<Rightarrow>
     check_ctx \<Rightarrow> (check_ctx \<times> ('b, 'v) cl_pool) option" where
  "forksStep cfg rootStr generalize startEpoch obs c =
     map_option (\<lambda>((r, c1), p'). (ctxSetResult r c1, p')) (forksRunCheck cfg rootStr generalize startEpoch (fst obs) c (snd obs))"

section \<open>Reorgs\<close>

record ReorgsConfig =
  rgMinCheckEpochCount :: u64
  MaxReorgDistance :: u64
  MaxReorgsPerEpoch :: float64
  MaxTotalReorgs :: u64

record reorg_task =
  rtStartEpoch :: u64
  rtTotalReorgs :: u64
  rtMaxDistance :: u64
  rtLastBlock :: "nat option"
  rtCtx :: check_ctx

text \<open>From the old head towards its ancestors until one is on the chain of the new head; a block is given by its address.\<close>

partial_function (option) reorgLoop ::
    "('b, 'v) cl_cache \<Rightarrow> root \<Rightarrow> nat \<Rightarrow> u64 \<Rightarrow> (u64 \<times> u64) option" where
  "reorgLoop c newHead parentHead oldDist =
     (case GetParentRoot (blockStore c ! parentHead) of
        None \<Rightarrow> Some (oldDist, 0)
      | Some parentRoot \<Rightarrow>
          (case GetCachedBlockByRoot c parentRoot of
             None \<Rightarrow> Some (oldDist, 0)
           | Some p \<Rightarrow>
               do {
                 (linked, d) \<leftarrow> clGetBlockDistance c (clRoot (blockStore c ! p)) newHead;
                 if linked then Some (oldDist + 1, d) else reorgLoop c newHead p (oldDist + 1)
               }))"

definition processChainReorg :: "('b, 'v) cl_cache \<Rightarrow> nat \<Rightarrow> nat \<Rightarrow> reorg_task \<Rightarrow> reorg_task option" where
  "processChainReorg c oldHead newHead t =
     map_option (\<lambda>(oldDist, newDist).
       let dist = oldDist + newDist
       in t\<lparr>rtMaxDistance := (if dist > rtMaxDistance t then dist else rtMaxDistance t), rtTotalReorgs := rtTotalReorgs t + 1\<rparr>)
       (reorgLoop c (clRoot (blockStore c ! newHead)) oldHead 0)"

definition reorgsRunCheck :: "ReorgsConfig \<Rightarrow> string + u64 \<Rightarrow> reorg_task \<Rightarrow> TaskResult" where
  "reorgsRunCheck cfg clock t =
     (case clock of
        Inl e \<Rightarrow> TaskResultNone
      | Inr epoch \<Rightarrow>
          let epochCount = epoch - rtStartEpoch t
          in if rgMinCheckEpochCount cfg > 0 \<and> epochCount < rgMinCheckEpochCount cfg then TaskResultNone
             else if fLess (FFin 0) (MaxReorgsPerEpoch cfg) \<and> epochCount > 0 \<and>
                     fLess (MaxReorgsPerEpoch cfg) (fDiv (fOfNat (unat (rtTotalReorgs t))) (fOfNat (unat epochCount)))
             then TaskResultFailure
             else TaskResultSuccess)"

text \<open>
  A block event: \<open>header\<close> is the parent root of the awaited header. The task returns an error when the
  distance is exceeded, else goes on. Outer None: the walk does not end.
\<close>

definition reorgsStep ::
    "ReorgsConfig \<Rightarrow> ('b, 'v) cl_cache \<Rightarrow> (root \<Rightarrow> string) \<Rightarrow> nat \<Rightarrow> root option \<Rightarrow> string + u64 \<Rightarrow> reorg_task \<Rightarrow>
     (go_error \<times> reorg_task) option" where
  "reorgsStep cfg c rootStr block header clock t =
     (case header of
        None \<Rightarrow> Some (None, t)
      | Some parentRoot \<Rightarrow>
          do {
            (err, t1) \<leftarrow>
              (case rtLastBlock t of
                 None \<Rightarrow> Some (None, t)
               | Some l \<Rightarrow>
                   if parentRoot = clRoot (blockStore c ! l) then Some (None, t)
                   else do {
                     t1 \<leftarrow> processChainReorg c l block t;
                     if MaxReorgDistance cfg > 0 \<and> rtMaxDistance t1 > MaxReorgDistance cfg
                     then Some (Some (''max reorg distance ('' @ showNat (unat (MaxReorgDistance cfg)) @ '') exceeded:  '' @
                            rootStr (clRoot (blockStore c ! l)) @ '' -> '' @ rootStr (clRoot (blockStore c ! block)) @ '' ('' @
                            showNat (unat (rtMaxDistance t1)) @ '')''), t1\<lparr>rtCtx := ctxSetResult TaskResultFailure (rtCtx t1)\<rparr>)
                     else Some (None, t1)
                   });
            if err \<noteq> None then Some (err, t1)
            else Some (None, t1\<lparr>rtCtx := ctxSetResult (reorgsRunCheck cfg clock t1) (rtCtx t1), rtLastBlock := Some block\<rparr>)
          })"

section \<open>Proposer duties\<close>

record ProposerDutyConfig =
  pdNamePattern :: string
  pdValidatorIndex :: "u64 option"
  MinSlotDistance :: u64
  MaxSlotDistance :: u64
  pdFailOnCheckMiss :: bool

text \<open>
  The duties of an epoch by slot. A failed request, or no ready client, leaves those of the previous epoch.
\<close>

definition loadEpochDuties :: "(string + (u64 \<times> u64) list) option \<Rightarrow> (u64 \<times> u64) list option \<Rightarrow> (u64 \<times> u64) list option" where
  "loadEpochDuties answer duties =
     (case answer of
        None \<Rightarrow> duties
      | Some (Inl e) \<Rightarrow> duties
      | Some (Inr ds) \<Rightarrow> Some (foldl (\<lambda>m (slot, validator). AList.update slot validator m) [] ds))"

text \<open>\<open>matchName pattern\<close> says whether the name of a validator matches, or that the pattern is invalid.\<close>

partial_function (option) dutyLoop ::
    "ProposerDutyConfig \<Rightarrow> (string \<Rightarrow> u64 \<Rightarrow> string + bool) \<Rightarrow> (u64 \<times> u64) list \<Rightarrow> u64 \<Rightarrow> u64 \<Rightarrow> bool option" where
  "dutyLoop cfg matchName duties currentSlot slot =
     (case map_of duties slot of
        None \<Rightarrow> Some False
      | Some validator \<Rightarrow>
          if MaxSlotDistance cfg > 0 \<and> slot - currentSlot > MaxSlotDistance cfg then Some False
          else if (case pdValidatorIndex cfg of None \<Rightarrow> False | Some i \<Rightarrow> validator \<noteq> i)
          then dutyLoop cfg matchName duties currentSlot (slot + 1)
          else case (if pdNamePattern cfg = '''' then Inr True else matchName (pdNamePattern cfg) validator) of
                 Inl e \<Rightarrow> Some False
               | Inr matched \<Rightarrow>
                   if \<not> matched then dutyLoop cfg matchName duties currentSlot (slot + 1)
                   else Some (\<not> (MinSlotDistance cfg > 0 \<and> slot - currentSlot < MinSlotDistance cfg)))"

definition runProposerDutyCheck ::
    "ProposerDutyConfig \<Rightarrow> (string \<Rightarrow> u64 \<Rightarrow> string + bool) \<Rightarrow> (u64 \<times> u64) list option \<Rightarrow> u64 \<Rightarrow> bool option" where
  "runProposerDutyCheck cfg matchName duties slot =
     (case duties of None \<Rightarrow> Some False | Some ds \<Rightarrow> dutyLoop cfg matchName ds slot slot)"

definition proposerDutyStep ::
    "ProposerDutyConfig \<Rightarrow> (string \<Rightarrow> u64 \<Rightarrow> string + bool) \<Rightarrow> (u64 \<times> u64) list option \<Rightarrow> u64 \<Rightarrow> check_ctx \<Rightarrow> check_ctx option" where
  "proposerDutyStep cfg matchName duties slot c =
     map_option (\<lambda>pass. ctxSetResult (missResult (pdFailOnCheckMiss cfg) pass) c) (runProposerDutyCheck cfg matchName duties slot)"

section \<open>Validator status\<close>

record validator_info =
  viIndex :: u64
  viPubkey :: "u8 list"
  viStatus :: string
  viBalance :: u64
  viWithdrawalCreds :: "u8 list"

record ValidatorStatusConfig =
  ValidatorPubKey :: string
  vsNamePattern :: string
  vsValidatorIndex :: "u64 option"
  ValidatorStatus :: "string list"
  MinValidatorBalance :: u64
  MaxValidatorBalance :: "u64 option"
  WithdrawalCredsPrefix :: string
  vsFailOnCheckMiss :: bool
  ValidatorInfoResultVar :: string
  ValidatorPubKeyResultVar :: string

text \<open>
  The libraries: \<open>vlFromHex\<close> the bytes of a hex string, \<open>vlHexStr\<close> bytes with \<open>0x\<close>, \<open>vlCompile\<close> whether a
  pattern is valid, \<open>vlMatchName\<close> whether the name of a validator matches it, \<open>vlEncode\<close> the JSON value of a
  validator, \<open>vlInfoMap\<close> the same as a map.
\<close>

record validator_libs =
  vlFromHex :: "string \<Rightarrow> u8 list"
  vlHexStr :: "u8 list \<Rightarrow> string"
  vlCompile :: "string \<Rightarrow> bool"
  vlMatchName :: "string \<Rightarrow> u64 \<Rightarrow> bool"
  vlEncode :: "validator_info \<Rightarrow> string + var_value"
  vlInfoMap :: "validator_info \<Rightarrow> string + var_value"

definition validatorSelected :: "ValidatorStatusConfig \<Rightarrow> validator_libs \<Rightarrow> validator_info \<Rightarrow> bool" where
  "validatorSelected cfg L v \<longleftrightarrow>
     (case vsValidatorIndex cfg of None \<Rightarrow> True | Some i \<Rightarrow> viIndex v = i) \<and>
     (vsNamePattern cfg = '''' \<or> vlMatchName L (vsNamePattern cfg) (viIndex v)) \<and>
     (ValidatorPubKey cfg = '''' \<or> vlFromHex L (ValidatorPubKey cfg) = viPubkey v)"

definition validatorMeets :: "ValidatorStatusConfig \<Rightarrow> validator_libs \<Rightarrow> validator_info \<Rightarrow> bool" where
  "validatorMeets cfg L v \<longleftrightarrow>
     (ValidatorStatus cfg = [] \<or> viStatus v \<in> set (ValidatorStatus cfg)) \<and>
     \<not> (MinValidatorBalance cfg > 0 \<and> viBalance v < MinValidatorBalance cfg) \<and>
     \<not> (case MaxValidatorBalance cfg of None \<Rightarrow> False | Some m \<Rightarrow> viBalance v > m) \<and>
     (WithdrawalCredsPrefix cfg = '''' \<or>
      take (length (vlFromHex L (WithdrawalCredsPrefix cfg))) (viWithdrawalCreds v) = vlFromHex L (WithdrawalCredsPrefix cfg))"

definition validatorOutputs :: "ValidatorStatusConfig \<Rightarrow> validator_libs \<Rightarrow> validator_info \<Rightarrow> check_ctx \<Rightarrow> check_ctx" where
  "validatorOutputs cfg L v c =
     (let pubkey = VStr (vlHexStr L (viPubkey v));
          c1 = setGeneralized ''validator'' (vlEncode L v) c;
          c2 = (if ValidatorInfoResultVar cfg \<noteq> ''''
                then (case vlInfoMap L v of Inl e \<Rightarrow> c1 | Inr m \<Rightarrow> setCtxVar (ValidatorInfoResultVar cfg) m c1) else c1);
          c3 = setOutput ''pubkey'' pubkey c2
      in if ValidatorPubKeyResultVar cfg \<noteq> '''' then setCtxVar (ValidatorPubKeyResultVar cfg) pubkey c3 else c3)"

text \<open>The loop over the validators by index, up to the first index without one.\<close>

partial_function (option) validatorLoop ::
    "ValidatorStatusConfig \<Rightarrow> validator_libs \<Rightarrow> (u64 \<times> validator_info) list \<Rightarrow> u64 \<Rightarrow> check_ctx \<Rightarrow> (bool \<times> check_ctx) option" where
  "validatorLoop cfg L vs i c =
     (case map_of vs i of
        None \<Rightarrow> Some (False, c)
      | Some v \<Rightarrow>
          if \<not> validatorSelected cfg L v then validatorLoop cfg L vs (i + 1) c
          else if \<not> validatorMeets cfg L v then validatorLoop cfg L vs (i + 1) (validatorOutputs cfg L v c)
          else Some (True, validatorOutputs cfg L v c))"

definition runValidatorStatusCheck ::
    "ValidatorStatusConfig \<Rightarrow> validator_libs \<Rightarrow> (u64 \<times> validator_info) list option \<Rightarrow> check_ctx \<Rightarrow> (bool \<times> check_ctx) option" where
  "runValidatorStatusCheck cfg L validatorSet c =
     (case validatorSet of
        None \<Rightarrow> Some (False, c)
      | Some vs \<Rightarrow>
          if vsNamePattern cfg \<noteq> '''' \<and> \<not> vlCompile L (vsNamePattern cfg) then Some (False, c)
          else validatorLoop cfg L vs 0 c)"

definition validatorStatusRunCheck ::
    "ValidatorStatusConfig \<Rightarrow> validator_libs \<Rightarrow> (u64 \<times> validator_info) list option \<Rightarrow> check_ctx \<Rightarrow> check_ctx option" where
  "validatorStatusRunCheck cfg L validatorSet c =
     map_option (\<lambda>(pass, c1). ctxSetResult (missResult (vsFailOnCheckMiss cfg) pass) c1)
       (runValidatorStatusCheck cfg L validatorSet c)"

section \<open>Sync status\<close>

record SyncStatus =
  ssIsSyncing :: bool
  ssIsOptimistic :: bool
  ssHeadSlot :: u64
  ssEstimatedHighest :: u64
  ssSyncDistance :: u64

definition Percent :: "SyncStatus \<Rightarrow> float64" where
  "Percent s =
     (if \<not> ssIsSyncing s then FFin 100
      else fMul (fDiv (fOfNat (unat (ssHeadSlot s))) (fOfNat (unat (ssEstimatedHighest s)))) (FFin 100))"

record el_SyncStatus =
  esIsSyncing :: bool
  esCurrentBlock :: u64
  esHighestBlock :: u64

definition elPercent :: "el_SyncStatus \<Rightarrow> float64" where
  "elPercent s =
     (if \<not> esIsSyncing s then FFin 100
      else fMul (fDiv (fOfNat (unat (esCurrentBlock s))) (fOfNat (unat (esHighestBlock s)))) (FFin 100))"

record SyncStatusConfig =
  ExpectSyncing :: bool
  ExpectOptimistic :: bool
  ExpectMinPercent :: float64
  ExpectMaxPercent :: float64
  MinSlotHeight :: u64
  WaitForChainProgression :: bool

definition syncDefault :: SyncStatusConfig where
  "syncDefault = \<lparr>ExpectSyncing = False, ExpectOptimistic = False, ExpectMinPercent = FFin 100, ExpectMaxPercent = FFin 100,
     MinSlotHeight = 10, WaitForChainProgression = False\<rparr>"

text \<open>\<open>MinSlotHeight\<close> is a signed number.\<close>

definition syncValidate :: "SyncStatusConfig \<Rightarrow> go_error" where
  "syncValidate cfg =
     (if fLess (FFin 100) (ExpectMinPercent cfg) then Some ''expectMinPercent must be less than 100''
      else if fLess (FFin 100) (ExpectMaxPercent cfg) then Some ''ExpectMaxPercent must be less than 100''
      else if fLess (ExpectMaxPercent cfg) (ExpectMinPercent cfg) then Some ''ExpectMaxPercent must be <= ExpectMinPercent''
      else if MinSlotHeight cfg <s 0 then Some ''minSlotHeight must be >= 0''
      else None)"

text \<open>The first height that was seen of a client; zero counts as none.\<close>

definition firstHeightOf :: "(u16 \<times> u64) list \<Rightarrow> u16 \<Rightarrow> u64" where
  "firstHeightOf fh i = (case map_of fh i of None \<Rightarrow> 0 | Some h \<Rightarrow> h)"

definition noteHeight :: "u16 \<Rightarrow> u64 \<Rightarrow> (u16 \<times> u64) list \<Rightarrow> (u16 \<times> u64) list" where
  "noteHeight i h fh = (if firstHeightOf fh i = 0 then AList.update i h fh else fh)"

definition clSyncClientCheck :: "SyncStatusConfig \<Rightarrow> u16 \<Rightarrow> SyncStatus \<Rightarrow> (u16 \<times> u64) list \<Rightarrow> bool \<times> (u16 \<times> u64) list" where
  "clSyncClientCheck cfg i s fh =
     (let fh1 = noteHeight i (ssHeadSlot s) fh
      in (if ssIsSyncing s \<noteq> ExpectSyncing cfg then False
          else if ssIsOptimistic s \<noteq> ExpectOptimistic cfg then False
          else if fLess (Percent s) (ExpectMinPercent cfg) then False
          else if fLess (ExpectMaxPercent cfg) (Percent s) then False
          else if ssHeadSlot s <s MinSlotHeight cfg then False
          else if WaitForChainProgression cfg \<and> ssHeadSlot s \<le> firstHeightOf fh1 i then False
          else True, fh1))"

text \<open>For execution clients \<open>head\<close> is the last head of the client and \<open>MinSlotHeight\<close> stands for \<open>MinBlockHeight\<close>.\<close>

definition elSyncClientCheck ::
    "SyncStatusConfig \<Rightarrow> u16 \<Rightarrow> u64 \<times> el_SyncStatus \<Rightarrow> (u16 \<times> u64) list \<Rightarrow> bool \<times> (u16 \<times> u64) list" where
  "elSyncClientCheck cfg i hs fh =
     (let (head, s) = hs; fh1 = noteHeight i head fh
      in (if esIsSyncing s \<noteq> ExpectSyncing cfg then False
          else if fLess (elPercent s) (ExpectMinPercent cfg) then False
          else if fLess (ExpectMaxPercent cfg) (elPercent s) then False
          else if head <s MinSlotHeight cfg then False
          else if WaitForChainProgression cfg \<and> head \<le> firstHeightOf fh1 i then False
          else True, fh1))"

record ClientInfo =
  ciName :: string
  ciSynchronizing :: bool
  ciOptimistic :: bool
  ciSyncHead :: u64
  ciSyncDistance :: u64

text \<open>The consensus task reads the status without asking whether there is one: None is its panic.\<close>

definition clClientInfo :: "string \<Rightarrow> SyncStatus option \<Rightarrow> ClientInfo option" where
  "clClientInfo name s =
     map_option (\<lambda>s. \<lparr>ciName = name, ciSynchronizing = ssIsSyncing s, ciOptimistic = ssIsOptimistic s, ciSyncHead = ssHeadSlot s,
       ciSyncDistance = ssSyncDistance s\<rparr>) s"

definition elClientInfo :: "string \<Rightarrow> (u64 \<times> el_SyncStatus) option \<Rightarrow> ClientInfo option" where
  "elClientInfo name s =
     Some (case s of
             None \<Rightarrow> \<lparr>ciName = name, ciSynchronizing = False, ciOptimistic = False, ciSyncHead = 0, ciSyncDistance = 0\<rparr>
           | Some (head, s) \<Rightarrow> \<lparr>ciName = name, ciSynchronizing = esIsSyncing s, ciOptimistic = False, ciSyncHead = esCurrentBlock s,
               ciSyncDistance = esHighestBlock s - esCurrentBlock s\<rparr>)"

text \<open>
  One round over the selected clients, each with its name, index, answer and whether the context had
  ended after the answer, which ends the round without a result (inner None). Both tasks have this loop.
\<close>

fun syncLoop ::
    "(u16 \<Rightarrow> 's \<Rightarrow> (u16 \<times> u64) list \<Rightarrow> bool \<times> (u16 \<times> u64) list) \<Rightarrow> (string \<Rightarrow> 's option \<Rightarrow> ClientInfo option) \<Rightarrow>
     (string \<times> u16 \<times> bool \<times> (string + 's)) list \<Rightarrow> ClientInfo list \<times> ClientInfo list \<Rightarrow> (u16 \<times> u64) list \<Rightarrow>
     ((ClientInfo list \<times> ClientInfo list) option \<times> (u16 \<times> u64) list) option" where
  "syncLoop check info [] acc fh = Some (Some acc, fh)"
| "syncLoop check info ((name, i, ended, answer) # cs) (good, bad) fh =
     (if ended then Some (None, fh)
      else
        let (pass, fh1) = (case answer of Inl e \<Rightarrow> (False, fh) | Inr s \<Rightarrow> check i s fh)
        in case info name (case answer of Inl e \<Rightarrow> None | Inr s \<Rightarrow> Some s) of
             None \<Rightarrow> None
           | Some ci \<Rightarrow> syncLoop check info cs (if pass then (good @ [ci], bad) else (good, bad @ [ci])) fh1)"

definition syncProcessCheck ::
    "(u16 \<Rightarrow> 's \<Rightarrow> (u16 \<times> u64) list \<Rightarrow> bool \<times> (u16 \<times> u64) list) \<Rightarrow> (string \<Rightarrow> 's option \<Rightarrow> ClientInfo option) \<Rightarrow>
     (ClientInfo list \<Rightarrow> string + var_value) \<Rightarrow> (string \<times> u16 \<times> bool \<times> (string + 's)) list \<Rightarrow>
     (u16 \<times> u64) list \<times> check_ctx \<Rightarrow> ((u16 \<times> u64) list \<times> check_ctx) option" where
  "syncProcessCheck check info generalize cs st =
     map_option (\<lambda>(res, fh).
        (fh, case res of
               None \<Rightarrow> snd st
             | Some (good, bad) \<Rightarrow>
                 ctxSetResult (if bad = [] then TaskResultSuccess else TaskResultNone)
                   (setGeneralized ''failedClients'' (generalize bad) (setGeneralized ''goodClients'' (generalize good) (snd st)))))
       (syncLoop check info cs ([], []) (fst st))"

section \<open>Health\<close>

record HealthConfig =
  SkipConsensusCheck :: bool
  SkipExecutionCheck :: bool
  ExpectUnhealthy :: bool
  MinClientCount :: int
  MaxUnhealthyCount :: int
  hcFailOnCheckMiss :: bool
  ExecutionRPCResultVar :: string
  ConsensusRPCResultVar :: string

definition healthDefault :: HealthConfig where
  "healthDefault = \<lparr>SkipConsensusCheck = False, SkipExecutionCheck = False, ExpectUnhealthy = False, MinClientCount = 0,
     MaxUnhealthyCount = -1, hcFailOnCheckMiss = False, ExecutionRPCResultVar = '''', ConsensusRPCResultVar = ''''\<rparr>"

text \<open>A client of the pool with its name, the two status values and the two endpoint addresses.\<close>

record health_client =
  hcName :: string
  hcConsensus :: ClientStatus
  hcExecution :: ClientStatus
  hcElUrl :: string
  hcClUrl :: string

definition healthClientCheck :: "HealthConfig \<Rightarrow> health_client \<Rightarrow> bool" where
  "healthClientCheck cfg cl =
     (if \<not> SkipConsensusCheck cfg \<and> hcConsensus cl = ClientStatusOffline then False
      else if \<not> SkipExecutionCheck cfg \<and> hcExecution cl = ClientStatusOffline then False
      else True)"

fun healthLoop :: "HealthConfig \<Rightarrow> health_client list \<Rightarrow> health_client list \<times> health_client list \<Rightarrow> check_ctx \<Rightarrow>
    (health_client list \<times> health_client list) \<times> check_ctx" where
  "healthLoop cfg [] acc c = (acc, c)"
| "healthLoop cfg (cl # cls) (good, bad) c =
     (if healthClientCheck cfg cl = (\<not> ExpectUnhealthy cfg)
      then
        let good' = good @ [cl];
            c1 = (if ExecutionRPCResultVar cfg \<noteq> '''' \<and> length good' = 1
                  then setCtxVar (ExecutionRPCResultVar cfg) (VStr (hcElUrl cl)) c else c);
            c2 = (if ConsensusRPCResultVar cfg \<noteq> '''' \<and> length good' = 1
                  then setCtxVar (ConsensusRPCResultVar cfg) (VStr (hcClUrl cl)) c1 else c1)
        in healthLoop cfg cls (good', bad) c2
      else healthLoop cfg cls (good, bad @ [cl]) c)"

definition healthProcessCheck ::
    "HealthConfig \<Rightarrow> (health_client list \<Rightarrow> string + var_value) \<Rightarrow> health_client list \<Rightarrow> check_ctx \<Rightarrow> check_ctx" where
  "healthProcessCheck cfg generalize cls c =
     (let ((good, bad), c1) = healthLoop cfg cls ([], []) c;
          pass = int (length good);
          total = int (length cls);
          required = (if MinClientCount cfg = 0 then total else MinClientCount cfg);
          c2 = setGeneralized ''failedClients'' (generalize bad) (setGeneralized ''goodClients'' (generalize good) c1);
          c3 = setOutput ''goodCount'' (VInt pass) (setOutput ''failedCount'' (VInt (total - pass)) (setOutput ''totalCount'' (VInt total) c2))
      in ctxSetResult
           (if MaxUnhealthyCount cfg > -1 \<and> int (length bad) > MaxUnhealthyCount cfg then missResult (hcFailOnCheckMiss cfg) False
            else missResult (hcFailOnCheckMiss cfg) (pass \<ge> required)) c3)"

section \<open>Reorg distance\<close>

lemma nthParent_Suc_cases:
  assumes "nthParent GetParentRoot c (Suc n) h = Some a" "GetCachedBlockByRoot c h = Some b"
  obtains r where "GetParentRoot (blockStore c ! b) = Some r" "nthParent GetParentRoot c n r = Some a"
  using assms by (auto simp: parentRootOf_def bind_eq_Some_conv)

lemma reorgLoop_distance:
  assumes "nthParent GetParentRoot c (Suc k) h = Some a" "GetCachedBlockByRoot c h = Some b"
    and "cache_inv clRoot clSlot c" "clGetBlockDistance c a newHead = Some (True, d)" "GetCachedBlockByRoot c a \<noteq> None"
    and "\<forall>j < k. \<forall>r. nthParent GetParentRoot c (Suc j) h = Some r \<longrightarrow> clGetBlockDistance c r newHead = Some (False, 0)"
  shows "reorgLoop c newHead b d0 = Some (d0 + of_nat (Suc k), d)"
  using assms
proof (induction k arbitrary: h b d0)
  case 0
  obtain r where r: "GetParentRoot (blockStore c ! b) = Some r" "r = a" using nthParent_Suc_cases [OF 0(1,2)] by auto
  obtain p where p: "GetCachedBlockByRoot c a = Some p" using 0(5) by auto
  have "clRoot (blockStore c ! p) = a" using cache_invD(3) [OF 0(3) p] by simp
  with r p 0(4) show ?case by (subst reorgLoop.simps) simp
next
  case (Suc k)
  obtain r where r: "GetParentRoot (blockStore c ! b) = Some r" "nthParent GetParentRoot c (Suc k) r = Some a"
    using nthParent_Suc_cases [OF Suc.prems(1,2)] .
  obtain p where p: "GetCachedBlockByRoot c r = Some p" using r(2) by (auto simp: parentRootOf_def bind_eq_Some_conv)
  have root: "clRoot (blockStore c ! p) = r" using cache_invD(3) [OF Suc.prems(3) p] by simp
  have step: "nthParent GetParentRoot c (Suc j) h = nthParent GetParentRoot c j r" for j
    using r(1) Suc.prems(2) by (simp add: parentRootOf_def)
  have "clGetBlockDistance c r newHead = Some (False, 0)" using Suc.prems(6) step [of 0] by (auto dest: spec [of _ 0])
  moreover have "\<forall>j < k. \<forall>r'. nthParent GetParentRoot c (Suc j) r = Some r' \<longrightarrow> clGetBlockDistance c r' newHead = Some (False, 0)"
  proof (intro allI impI)
    fix j r' assume "j < k" "nthParent GetParentRoot c (Suc j) r = Some r'"
    with Suc.prems(6) step [of "Suc j"] show "clGetBlockDistance c r' newHead = Some (False, 0)" by (metis Suc_less_eq)
  qed
  ultimately show ?case
    using r(1) p root Suc.IH [OF r(2) p Suc.prems(3-5), of "d0 + 1"] by (subst reorgLoop.simps) (simp add: ac_simps)
qed

text \<open>
  C40. When the block cache is consistent, the reorg check measures a reorg by the number of blocks from the
  old head back to the nearest ancestor that the new head descends from, plus the number of blocks from
  there to the new head, keeps the largest, and counts the reorg.
\<close>

theorem reorg_distance_exact:
  assumes "slots_drop clSlot GetParentRoot c" "cache_inv clRoot clSlot c"
    and "GetCachedBlockByRoot c h = Some oldHead" "clRoot (blockStore c ! newHead) = g"
    and "nthParent GetParentRoot c (Suc k) h = Some a" "nthParent GetParentRoot c n g = Some a" "GetCachedBlockByRoot c a \<noteq> None"
    and "\<forall>j < k. \<forall>r. nthParent GetParentRoot c (Suc j) h = Some r \<longrightarrow> \<not> onChain GetParentRoot c r g"
  shows "processChainReorg c oldHead newHead t =
     Some (t\<lparr>rtMaxDistance := max (rtMaxDistance t) (of_nat (Suc k + n)), rtTotalReorgs := rtTotalReorgs t + 1\<rparr>)"
proof -
  have "clGetBlockDistance c a g = Some (True, of_nat n)"
    using distance_linked [OF assms(1,6)] assms(7) by (simp add: clGetBlockDistance_def)
  moreover have "\<forall>j < k. \<forall>r. nthParent GetParentRoot c (Suc j) h = Some r \<longrightarrow> clGetBlockDistance c r g = Some (False, 0)"
    using assms(8) distance_unlinked [OF assms(1)] unfolding clGetBlockDistance_def by blast
  ultimately have "reorgLoop c g oldHead 0 = Some (of_nat (Suc k), of_nat n)"
    using reorgLoop_distance [OF assms(5,3,2) _ assms(7), of g "of_nat n" 0] by simp
  moreover have "(of_nat (Suc k) :: u64) + of_nat n = of_nat (Suc k + n)" by simp
  ultimately show ?thesis
    unfolding processChainReorg_def assms(4) by (simp only: option.map prod.case Let_def max_def) (auto simp: not_less)
qed

definition demoReorg :: reorg_task where
  "demoReorg = \<lparr>rtStartEpoch = 0, rtTotalReorgs = 0, rtMaxDistance = 0, rtLastBlock = Some 1,
     rtCtx = \<lparr>ccResult = TaskResultNone, ccOutputs = [], ccVars = []\<rparr>\<rparr>"

theorem reorg_distance_exact_witness:
  "processChainReorg (blockCache demo_pool) 1 2 demoReorg = Some (demoReorg\<lparr>rtMaxDistance := 2, rtTotalReorgs := 1\<rparr>)"
proof -
  have inv: "cache_inv clRoot clSlot (blockCache demo_pool)"
    using pool_inv_steps [OF demo_reached pool_inv_NewPool [OF demo_start]] pool_invD(1) by blast
  have "GetCachedBlockByRoot (blockCache demo_pool) 2 = Some 1" "clRoot (blockStore (blockCache demo_pool) ! 2) = 3"
    "nthParent GetParentRoot (blockCache demo_pool) (Suc 0) 2 = Some 1" "nthParent GetParentRoot (blockCache demo_pool) 1 3 = Some 1"
    "GetCachedBlockByRoot (blockCache demo_pool) 1 \<noteq> None"
    by code_simp+
  from reorg_distance_exact [OF demo_slots inv this] show ?thesis by (simp add: demoReorg_def max_def)
qed

text \<open>The configured limit for the total number of reorgs is not read anywhere.\<close>

lemma MaxTotalReorgs_ignored:
  "reorgsStep (cfg\<lparr>MaxTotalReorgs := n\<rparr>) c rootStr block header clock t = reorgsStep cfg c rootStr block header clock t"
proof -
  have f: "MaxReorgDistance (cfg\<lparr>MaxTotalReorgs := n\<rparr>) = MaxReorgDistance cfg" "MaxReorgsPerEpoch (cfg\<lparr>MaxTotalReorgs := n\<rparr>) = MaxReorgsPerEpoch cfg"
    "rgMinCheckEpochCount (cfg\<lparr>MaxTotalReorgs := n\<rparr>) = rgMinCheckEpochCount cfg" by simp_all
  show ?thesis unfolding reorgsStep_def reorgsRunCheck_def f ..
qed

section \<open>Runs of consecutive keys\<close>

text \<open>The number of consecutive keys from a start; a map with fewer entries than 64 bit numbers has an end.\<close>

definition runLength :: "(u64 \<times> 'a) list \<Rightarrow> u64 \<Rightarrow> nat" where
  "runLength m s = length (takeWhile (\<lambda>i. map_of m (s + of_nat i) \<noteq> None) [0..<Suc (length m)])"

lemma runLength_in: "i < runLength m s \<Longrightarrow> map_of m (s + of_nat i) \<noteq> None"
proof -
  let ?P = "\<lambda>i. map_of m (s + of_nat i) \<noteq> None"
  assume i: "i < runLength m s"
  then have "takeWhile ?P [0..<Suc (length m)] ! i \<in> set (takeWhile ?P [0..<Suc (length m)])" by (simp add: runLength_def)
  moreover have "takeWhile ?P [0..<Suc (length m)] ! i = i"
    using i takeWhile_nth [of i ?P "[0..<Suc (length m)]"] length_takeWhile_le [of ?P "[0..<Suc (length m)]"]
    by (simp add: runLength_def del: upt_Suc)
  ultimately show "map_of m (s + of_nat i) \<noteq> None" by (metis (mono_tags, lifting) set_takeWhileD)
qed

lemma runLength_end:
  assumes "length m < 2 ^ 64 - 1"
  shows "runLength m s \<le> length m" and "map_of m (s + of_nat (runLength m s)) = None"
proof -
  let ?P = "\<lambda>i. map_of m (s + of_nat i) \<noteq> None"
  have le: "runLength m s \<le> Suc (length m)"
    unfolding runLength_def using length_takeWhile_le [of ?P "[0..<Suc (length m)]"] by (simp del: upt_Suc)
  have "runLength m s \<noteq> Suc (length m)"
  proof
    assume n: "runLength m s = Suc (length m)"
    let ?f = "\<lambda>i. s + of_nat i :: u64"
    have inj: "inj_on ?f {..length m}"
    proof (rule inj_onI)
      fix i j assume "i \<in> {..length m}" "j \<in> {..length m}" "?f i = ?f j"
      then have "(of_nat i :: u64) = of_nat j" "i < 2 ^ 64" "j < 2 ^ 64" using assms by auto
      then have "unat (of_nat i :: u64) = unat (of_nat j :: u64)" by (simp only:)
      with \<open>i < 2 ^ 64\<close> \<open>j < 2 ^ 64\<close> show "i = j" unfolding unat_of_nat by simp
    qed
    have "?f ` {..length m} \<subseteq> fst ` set m"
      using runLength_in [of _ m s] n by (force simp: map_of_eq_None_iff)
    then have "card (?f ` {..length m}) \<le> card (fst ` set m)" by (intro card_mono) simp_all
    also have "\<dots> \<le> length m" using card_image_le [of "set m" fst] card_length [of m] by simp
    finally show False using card_image [OF inj] by simp
  qed
  with le show l: "runLength m s \<le> length m" by simp
  then have "\<not> ?P ([0..<Suc (length m)] ! runLength m s)"
    unfolding runLength_def by (intro nth_length_takeWhile) (simp add: runLength_def del: upt_Suc)
  then show "map_of m (s + of_nat (runLength m s)) = None" using l by (simp del: upt_Suc)
qed

section \<open>Proposer duties\<close>

definition dutyMatches :: "ProposerDutyConfig \<Rightarrow> (string \<Rightarrow> u64 \<Rightarrow> string + bool) \<Rightarrow> u64 \<Rightarrow> bool" where
  "dutyMatches cfg matchName v \<longleftrightarrow> (pdValidatorIndex cfg = None \<or> pdValidatorIndex cfg = Some v) \<and>
     (pdNamePattern cfg = '''' \<or> matchName (pdNamePattern cfg) v = Inr True)"

definition dutyAt :: "(u64 \<times> u64) list \<Rightarrow> u64 \<Rightarrow> nat \<Rightarrow> u64" where
  "dutyAt duties s i = the (map_of duties (s + of_nat i))"

definition inDistance :: "ProposerDutyConfig \<Rightarrow> nat \<Rightarrow> bool" where
  "inDistance cfg i \<longleftrightarrow> (MaxSlotDistance cfg = 0 \<or> of_nat i \<le> MaxSlotDistance cfg) \<and> MinSlotDistance cfg \<le> of_nat i"

lemma of_nat_le_u64: "i \<le> j \<Longrightarrow> j < 2 ^ 64 \<Longrightarrow> (of_nat i :: u64) \<le> of_nat j"
  by (simp add: word_le_nat_alt unat_of_nat)

lemma dutyLoop_spec:
  assumes "\<And>i. i < n \<Longrightarrow> map_of duties (s + of_nat i) \<noteq> None" "map_of duties (s + of_nat n) = None" "n < 2 ^ 64"
    and "\<And>p v. \<exists>b. matchName p v = Inr b" and "i \<le> n"
  shows "dutyLoop cfg matchName duties s (s + of_nat i) =
    Some (\<exists>k. i \<le> k \<and> k < n \<and> dutyMatches cfg matchName (dutyAt duties s k) \<and>
               (\<forall>j. i \<le> j \<and> j < k \<longrightarrow> \<not> dutyMatches cfg matchName (dutyAt duties s j)) \<and> inDistance cfg k)"
  using assms(5)
proof (induction "n - i" arbitrary: i)
  case 0
  then have "i = n" by simp
  then show ?case using assms(2) by (subst dutyLoop.simps) auto
next
  case (Suc d)
  then have i: "i < n" by simp
  then obtain v where v: "map_of duties (s + of_nat i) = Some v" using assms(1) by blast
  have dv: "dutyAt duties s i = v" using v by (simp add: dutyAt_def)
  have rec: "dutyLoop cfg matchName duties s (s + of_nat i + 1) =
    Some (\<exists>k. Suc i \<le> k \<and> k < n \<and> dutyMatches cfg matchName (dutyAt duties s k) \<and>
               (\<forall>j. Suc i \<le> j \<and> j < k \<longrightarrow> \<not> dutyMatches cfg matchName (dutyAt duties s j)) \<and> inDistance cfg k)"
    using Suc.hyps(1) [of "Suc i"] Suc.hyps(2) i by (simp add: ac_simps)
  obtain b where b: "matchName (pdNamePattern cfg) v = Inr b" using assms(4) by blast
  have u: "dutyLoop cfg matchName duties s (s + of_nat i) =
     (if MaxSlotDistance cfg > 0 \<and> of_nat i > MaxSlotDistance cfg then Some False
      else if \<not> dutyMatches cfg matchName v then dutyLoop cfg matchName duties s (s + of_nat i + 1)
      else Some (MinSlotDistance cfg \<le> of_nat i))"
    by (subst dutyLoop.simps)
       (use v b in \<open>auto simp: dutyMatches_def not_less word_neq_0_conv split: option.splits\<close>)
  show ?case
  proof (cases "MaxSlotDistance cfg > 0 \<and> of_nat i > MaxSlotDistance cfg")
    case True
    then have "\<not> inDistance cfg k" if "i \<le> k" "k < n" for k
      using of_nat_le_u64 [of i k] that assms(3) by (auto simp: inDistance_def)
    then show ?thesis using u True by auto
  next
    case False
    then have max: "MaxSlotDistance cfg = 0 \<or> of_nat i \<le> MaxSlotDistance cfg" by (auto simp: not_less word_neq_0_conv)
    show ?thesis
    proof (cases "dutyMatches cfg matchName v")
      case True
      have "(\<exists>k. i \<le> k \<and> k < n \<and> dutyMatches cfg matchName (dutyAt duties s k) \<and>
               (\<forall>j. i \<le> j \<and> j < k \<longrightarrow> \<not> dutyMatches cfg matchName (dutyAt duties s j)) \<and> inDistance cfg k) = inDistance cfg i"
      proof
        assume "\<exists>k. i \<le> k \<and> k < n \<and> dutyMatches cfg matchName (dutyAt duties s k) \<and>
               (\<forall>j. i \<le> j \<and> j < k \<longrightarrow> \<not> dutyMatches cfg matchName (dutyAt duties s j)) \<and> inDistance cfg k"
        then obtain k where k: "i \<le> k" "\<forall>j. i \<le> j \<and> j < k \<longrightarrow> \<not> dutyMatches cfg matchName (dutyAt duties s j)" "inDistance cfg k" by auto
        then have "k = i" using True dv by (metis le_neq_implies_less order_refl)
        with k show "inDistance cfg i" by simp
      qed (use True dv i in auto)
      with u False True max show ?thesis by (simp add: inDistance_def)
    next
      case nm: False
      have "(\<exists>k. i \<le> k \<and> k < n \<and> dutyMatches cfg matchName (dutyAt duties s k) \<and>
               (\<forall>j. i \<le> j \<and> j < k \<longrightarrow> \<not> dutyMatches cfg matchName (dutyAt duties s j)) \<and> inDistance cfg k) =
            (\<exists>k. Suc i \<le> k \<and> k < n \<and> dutyMatches cfg matchName (dutyAt duties s k) \<and>
               (\<forall>j. Suc i \<le> j \<and> j < k \<longrightarrow> \<not> dutyMatches cfg matchName (dutyAt duties s j)) \<and> inDistance cfg k)"
        using nm dv by (metis Suc_leI Suc_leD le_neq_implies_less)
      with u False nm rec show ?thesis by simp
    qed
  qed
qed

text \<open>
  The proposer duty check always returns. It holds exactly if, among the slots from the given one on that
  have a known duty, the first one whose proposer matches is within the configured distances.
\<close>

theorem proposer_duty_check:
  assumes "length duties < 2 ^ 64 - 1" "\<And>p v. \<exists>b. matchName p v = Inr b"
  shows "runProposerDutyCheck cfg matchName (Some duties) slot =
    Some (\<exists>k < runLength duties slot. dutyMatches cfg matchName (dutyAt duties slot k) \<and>
       (\<forall>j < k. \<not> dutyMatches cfg matchName (dutyAt duties slot j)) \<and> inDistance cfg k)"
proof -
  have "runLength duties slot < 2 ^ 64" using runLength_end(1) [OF assms(1), of slot] assms(1) by linarith
  from dutyLoop_spec [OF runLength_in runLength_end(2) [OF assms(1)] this assms(2), of 0 cfg] show ?thesis
    by (simp add: runProposerDutyCheck_def)
qed

definition demoDuty :: ProposerDutyConfig where
  "demoDuty = \<lparr>pdNamePattern = '''', pdValidatorIndex = Some 7, MinSlotDistance = 1, MaxSlotDistance = 4, pdFailOnCheckMiss = False\<rparr>"

theorem proposer_duty_check_witness:
  "runProposerDutyCheck demoDuty (\<lambda>p v. Inr True) (Some [(10, 3), (11, 5), (12, 7)]) 10 = Some True"
proof -
  let ?d = "[(10, 3), (11, 5), (12, 7)] :: (u64 \<times> u64) list"
  have len: "length ?d < 2 ^ 64 - 1" and m: "\<And>p v. \<exists>b. (Inr True :: string + bool) = Inr b" by auto
  have "2 < runLength ?d 10" "dutyMatches demoDuty (\<lambda>p v. Inr True) (dutyAt ?d 10 2)" "inDistance demoDuty 2"
    "\<not> dutyMatches demoDuty (\<lambda>p v. Inr True) (dutyAt ?d 10 0)" "\<not> dutyMatches demoDuty (\<lambda>p v. Inr True) (dutyAt ?d 10 1)"
    by code_simp+
  then have "\<exists>k < runLength ?d 10. dutyMatches demoDuty (\<lambda>p v. Inr True) (dutyAt ?d 10 k) \<and>
       (\<forall>j < k. \<not> dutyMatches demoDuty (\<lambda>p v. Inr True) (dutyAt ?d 10 j)) \<and> inDistance demoDuty k"
    by (intro exI [of _ 2]) (auto simp: less_2_cases_iff)
  with proposer_duty_check [OF len m, of demoDuty 10] show ?thesis by simp
qed

section \<open>Validator status\<close>

lemma validatorLoop_spec:
  assumes "\<And>i. i < n \<Longrightarrow> map_of vs (of_nat i) \<noteq> None" "map_of vs (of_nat n) = None" "i \<le> n"
  shows "\<exists>c'. validatorLoop cfg L vs (of_nat i) c =
    Some (\<exists>k. i \<le> k \<and> k < n \<and> validatorSelected cfg L (the (map_of vs (of_nat k))) \<and> validatorMeets cfg L (the (map_of vs (of_nat k))), c')"
  using assms(3)
proof (induction "n - i" arbitrary: i c)
  case 0
  then have "i = n" by simp
  then show ?case using assms(2) by (subst validatorLoop.simps) auto
next
  case (Suc d)
  then have i: "i < n" by simp
  then obtain v where v: "map_of vs (of_nat i) = Some v" using assms(1) by blast
  let ?Q = "\<lambda>k. validatorSelected cfg L (the (map_of vs (of_nat k))) \<and> validatorMeets cfg L (the (map_of vs (of_nat k)))"
  show ?case
  proof (cases "validatorSelected cfg L v \<and> validatorMeets cfg L v")
    case True
    then have "(\<exists>k. i \<le> k \<and> k < n \<and> ?Q k) = True" using i v by (auto intro: exI [of _ i])
    then show ?thesis using True v by (subst validatorLoop.simps) auto
  next
    case False
    then have "(\<exists>k. i \<le> k \<and> k < n \<and> ?Q k) = (\<exists>k. Suc i \<le> k \<and> k < n \<and> ?Q k)"
      using v by (metis Suc_leI Suc_leD le_neq_implies_less option.sel)
    moreover have "\<exists>c'. validatorLoop cfg L vs (of_nat i + 1) c1 = Some (\<exists>k. Suc i \<le> k \<and> k < n \<and> ?Q k, c')" for c1
      using Suc.hyps(1) [of "Suc i" c1] Suc.hyps(2) i by (simp add: ac_simps)
    ultimately show ?thesis using False v by (subst validatorLoop.simps) auto
  qed
qed

text \<open>
  The validator status check always returns; it holds exactly if, among the validators with consecutive
  indices from zero on, one is selected by the index, name and key of the configuration and meets its status, balance and
  withdrawal conditions.
\<close>

theorem validator_status_check:
  assumes "length vs < 2 ^ 64 - 1" "vsNamePattern cfg = '''' \<or> vlCompile L (vsNamePattern cfg)"
  shows "map_option ccResult (validatorStatusRunCheck cfg L (Some vs) c) =
    Some (missResult (vsFailOnCheckMiss cfg)
      (\<exists>k < runLength vs 0. validatorSelected cfg L (the (map_of vs (of_nat k))) \<and> validatorMeets cfg L (the (map_of vs (of_nat k)))))"
proof -
  have in0: "map_of vs (of_nat i) \<noteq> None" if "i < runLength vs 0" for i using runLength_in [OF that] by simp
  have end0: "map_of vs (of_nat (runLength vs 0)) = None" using runLength_end(2) [OF assms(1), of 0] by simp
  from validatorLoop_spec [OF in0 end0, of 0 cfg L c] assms(2) show ?thesis
    by (auto simp: validatorStatusRunCheck_def runValidatorStatusCheck_def ctxSetResult_def)
qed

definition demoLibs :: validator_libs where
  "demoLibs = \<lparr>vlFromHex = (\<lambda>s. []), vlHexStr = (\<lambda>b. ''0x''), vlCompile = (\<lambda>p. True), vlMatchName = (\<lambda>p v. True),
     vlEncode = (\<lambda>v. Inr VNil), vlInfoMap = (\<lambda>v. Inr VNil)\<rparr>"

definition demoStatus :: ValidatorStatusConfig where
  "demoStatus = \<lparr>ValidatorPubKey = '''', vsNamePattern = '''', vsValidatorIndex = None, ValidatorStatus = [''active_ongoing''],
     MinValidatorBalance = 32, MaxValidatorBalance = None, WithdrawalCredsPrefix = '''', vsFailOnCheckMiss = True,
     ValidatorInfoResultVar = '''', ValidatorPubKeyResultVar = ''''\<rparr>"

definition demoValidators :: "(u64 \<times> validator_info) list" where
  "demoValidators =
     [(0, \<lparr>viIndex = 0, viPubkey = [], viStatus = ''active_ongoing'', viBalance = 31, viWithdrawalCreds = []\<rparr>),
      (1, \<lparr>viIndex = 1, viPubkey = [], viStatus = ''active_ongoing'', viBalance = 32, viWithdrawalCreds = []\<rparr>)]"

theorem validator_status_check_witness:
  "map_option ccResult (validatorStatusRunCheck demoStatus demoLibs (Some demoValidators) (rtCtx demoReorg)) = Some TaskResultSuccess"
proof -
  have "length demoValidators < 2 ^ 64 - 1" "vsNamePattern demoStatus = '''' \<or> vlCompile demoLibs (vsNamePattern demoStatus)"
    by (simp_all add: demoValidators_def demoStatus_def)
  note r = validator_status_check [OF this, of "rtCtx demoReorg"]
  have "1 < runLength demoValidators 0" "validatorSelected demoStatus demoLibs (the (map_of demoValidators (of_nat 1)))"
    "validatorMeets demoStatus demoLibs (the (map_of demoValidators (of_nat 1)))" by code_simp+
  then have "\<exists>k < runLength demoValidators 0. validatorSelected demoStatus demoLibs (the (map_of demoValidators (of_nat k))) \<and>
     validatorMeets demoStatus demoLibs (the (map_of demoValidators (of_nat k)))" by blast
  with r show ?thesis by (simp add: missResult_def)
qed

section \<open>Sync status and health\<close>

lemma syncLoop_result:
  assumes "\<And>i s fh. fst (check i s fh) = ok i s" "\<And>name a. info name a \<noteq> None" "\<forall>(name, i, ended, answer) \<in> set cs. \<not> ended"
  shows "\<exists>good' bad' fh'. syncLoop check info cs (good, bad) fh = Some (Some (good', bad'), fh') \<and>
    (bad' = [] \<longleftrightarrow> bad = [] \<and> (\<forall>(name, i, ended, answer) \<in> set cs. \<exists>s. answer = Inr s \<and> ok i s))"
  using assms(3)
proof (induction cs arbitrary: good bad fh)
  case (Cons x cs)
  obtain name i ended answer where x: "x = (name, i, ended, answer)" by (metis prod_cases4)
  obtain pass fh1 where r: "(case answer of Inl e \<Rightarrow> (False, fh) | Inr s \<Rightarrow> check i s fh) = (pass, fh1)" by fastforce
  have pass: "pass \<longleftrightarrow> (\<exists>s. answer = Inr s \<and> ok i s)"
  proof (cases answer)
    case (Inr s)
    then show ?thesis using r assms(1) [of i s fh] by simp
  qed (use r in simp)
  obtain ci where ci: "info name (case answer of Inl e \<Rightarrow> None | Inr s \<Rightarrow> Some s) = Some ci" using assms(2) by blast
  have e: "\<not> ended" and cs: "\<forall>(name, i, ended, answer) \<in> set cs. \<not> ended" using Cons.prems x by auto
  show ?case
  proof (cases pass)
    case True
    with e r ci have "syncLoop check info (x # cs) (good, bad) fh = syncLoop check info cs (good @ [ci], bad) fh1" by (simp add: x)
    with Cons.IH [OF cs, of "good @ [ci]" bad fh1] True pass show ?thesis by (simp add: x)
  next
    case False
    with e r ci have "syncLoop check info (x # cs) (good, bad) fh = syncLoop check info cs (good, bad @ [ci]) fh1" by (simp add: x)
    moreover obtain good' bad' fh' where "syncLoop check info cs (good, bad @ [ci]) fh1 = Some (Some (good', bad'), fh')" "bad' \<noteq> []"
      using Cons.IH [OF cs, of good "bad @ [ci]" fh1] by auto
    moreover have "\<not> (\<forall>(name, i, ended, answer) \<in> set (x # cs). \<exists>s. answer = Inr s \<and> ok i s)" using False pass x by auto
    ultimately show ?thesis by (intro exI [of _ good'] exI [of _ bad'] exI [of _ fh']) (simp only: simp_thms)
  qed
qed simp

text \<open>
  Unless it waits for progress, a round of the execution task that is not cut short succeeds exactly if
  every selected node has answered and is in the expected state.
\<close>

lemma execution_sync_result:
  assumes "\<not> WaitForChainProgression cfg" "\<forall>(name, i, ended, answer) \<in> set cs. \<not> ended"
  shows "\<exists>fh c'. syncProcessCheck (elSyncClientCheck cfg) elClientInfo generalize cs (fh0, c) = Some (fh, c') \<and>
    ccResult c' = (if \<forall>(name, i, ended, answer) \<in> set cs. \<exists>s. answer = Inr s \<and> fst (elSyncClientCheck cfg i s [])
                   then TaskResultSuccess else TaskResultNone)"
proof -
  have ok: "fst (elSyncClientCheck cfg i s fh) = fst (elSyncClientCheck cfg i s [])" for i s fh
    using assms(1) by (cases s) (simp add: elSyncClientCheck_def Let_def)
  have info: "elClientInfo name a \<noteq> None" for name a by (simp add: elClientInfo_def)
  from syncLoop_result [where check = "elSyncClientCheck cfg" and info = elClientInfo, OF ok info assms(2), of "[]" "[]" fh0]
  obtain good bad fh where "syncLoop (elSyncClientCheck cfg) elClientInfo cs ([], []) fh0 = Some (Some (good, bad), fh)"
    "bad = [] \<longleftrightarrow> (\<forall>(name, i, ended, answer) \<in> set cs. \<exists>s. answer = Inr s \<and> fst (elSyncClientCheck cfg i s []))"
    by blast
  then show ?thesis by (simp add: syncProcessCheck_def ctxSetResult_def)
qed

text \<open>A node that does not answer makes the consensus task read a status that is not there.\<close>

lemma consensus_sync_panics:
  "syncProcessCheck (clSyncClientCheck cfg) clClientInfo generalize ((name, i, False, Inl e) # cs) st = None"
  by (simp add: syncProcessCheck_def clClientInfo_def)

lemma healthLoop_lists:
  "fst (healthLoop cfg cls (good, bad) c) =
     (good @ filter (\<lambda>cl. healthClientCheck cfg cl \<noteq> ExpectUnhealthy cfg) cls, bad @ filter (\<lambda>cl. healthClientCheck cfg cl = ExpectUnhealthy cfg) cls)"
  by (induction cls arbitrary: good bad c) (auto simp: Let_def)

text \<open>
  With the default limits the health check passes exactly if every selected client is as expected.
\<close>

lemma health_default:
  assumes "MinClientCount cfg = 0" "MaxUnhealthyCount cfg = -1"
  shows "ccResult (healthProcessCheck cfg generalize cls c) =
    missResult (hcFailOnCheckMiss cfg) (\<forall>cl \<in> set cls. healthClientCheck cfg cl \<noteq> ExpectUnhealthy cfg)"
proof -
  let ?P = "\<lambda>cl. healthClientCheck cfg cl \<noteq> ExpectUnhealthy cfg"
  obtain good bad c1 where h: "healthLoop cfg cls ([], []) c = ((good, bad), c1)" by (metis prod.collapse)
  then have g: "good = filter ?P cls" using healthLoop_lists [of cfg cls "[]" "[]" c] by simp
  have "length (filter ?P cls) < length cls \<longleftrightarrow> \<not> (\<forall>cl \<in> set cls. ?P cl)"
  proof (cases "\<forall>cl \<in> set cls. ?P cl")
    case True
    then show ?thesis using filter_True [of cls ?P] by simp
  next
    case False
    then obtain cl where "cl \<in> set cls" "\<not> ?P cl" by auto
    then show ?thesis using length_filter_less [of cl cls ?P] False by simp
  qed
  then have "int (length good) \<ge> int (length cls) \<longleftrightarrow> (\<forall>cl \<in> set cls. ?P cl)" unfolding g of_nat_le_iff not_less [symmetric] by simp
  with h assms show ?thesis by (simp add: healthProcessCheck_def ctxSetResult_def Let_def)
qed

end
