(* ===== verification/AttestationStats.thy ===== *)
theory AttestationStats
  imports ClusterChecks
begin

text \<open>
  \<open>tasks/check_consensus_attestation_stats\<close>: attester duties per epoch, the aggregation of the votes that the
  blocks of an epoch and the next one include, over all forks, and the check of the percentages. The
  answers of nodes and the waiting for block bodies are arguments; a panic is None.
\<close>

section \<open>Data\<close>

text \<open>The key \<open>slot-committee\<close> of a duty is the pair.\<close>

record attesterDuty =
  adValidator :: u64
  adBalance :: u64

record attesterDuties =
  validatorCount :: u64
  validatorBalance :: u64
  adDuties :: "((u64 \<times> u64) \<times> attesterDuty list) list"

type_synonym duty_map = "(u64 \<times> (root \<times> attesterDuties) list) list"

record AttestationConfig =
  MinTargetPercent :: u64
  MaxTargetPercent :: u64
  MinHeadPercent :: u64
  MaxHeadPercent :: u64
  MinTotalPercent :: u64
  MaxTotalPercent :: u64
  asFailOnCheckMiss :: bool
  MinCheckedEpochs :: u64

definition attestationDefault :: AttestationConfig where
  "attestationDefault = \<lparr>MinTargetPercent = 0, MaxTargetPercent = 100, MinHeadPercent = 0, MaxHeadPercent = 100,
     MinTotalPercent = 0, MaxTotalPercent = 100, asFailOnCheckMiss = False, MinCheckedEpochs = 1\<rparr>"

text \<open>An attestation as go-eth2-client gives it; \<open>atCommitteeBits\<close> is read from Electra on. A bit beyond the end is not set.\<close>

record att_data =
  atSlot :: u64
  atIndex :: u64
  atHead :: root
  atTarget :: root

record attestation =
  atData :: "string + att_data"
  atBits :: "string + bool list"
  atElectra :: bool
  atCommitteeBits :: "string + bool list"

definition BitAt :: "bool list \<Rightarrow> u64 \<Rightarrow> bool" where
  "BitAt bits i \<longleftrightarrow> unat i < length bits \<and> bits ! unat i"

record vote_sums =
  targetVoteAmount :: u64
  targetVoteCount :: u64
  headVoteAmount :: u64
  headVoteCount :: u64
  totalVoteAmount :: u64
  totalVoteCount :: u64

definition noVotes :: vote_sums where
  "noVotes = \<lparr>targetVoteAmount = 0, targetVoteCount = 0, headVoteAmount = 0, headVoteCount = 0, totalVoteAmount = 0, totalVoteCount = 0\<rparr>"

text \<open>The keys of \<open>activityMap\<close>, whose values are all true. A nil \<open>attesterDuties\<close> never gets into the maps.\<close>

record epochVotes =
  evHeadRoot :: root
  evDependentRoot :: root
  evTargetRoot :: root
  evDuties :: attesterDuties
  evCurrent :: vote_sums
  evNext :: vote_sums
  evActivity :: "u64 list"

section \<open>Duties\<close>

record duty_validator =
  dvActivationEpoch :: u64
  dvExitEpoch :: u64
  dvEffectiveBalance :: u64

text \<open>Active validators and their balance; committee members whose validator is missing make the code panic.\<close>

definition activeSums :: "u64 \<Rightarrow> (u64 \<times> duty_validator) list \<Rightarrow> u64 \<times> u64" where
  "activeSums epoch validators =
     foldl (\<lambda>(n, b) (i, v). if dvActivationEpoch v \<le> epoch \<and> epoch < dvExitEpoch v then (n + 1, b + dvEffectiveBalance v) else (n, b))
       (0, 0) validators"

definition addDuty :: "u64 \<times> u64 \<Rightarrow> attesterDuty \<Rightarrow> ((u64 \<times> u64) \<times> attesterDuty list) list \<Rightarrow> ((u64 \<times> u64) \<times> attesterDuty list) list" where
  "addDuty k d ds = AList.update k ((case map_of ds k of None \<Rightarrow> [] | Some l \<Rightarrow> l) @ [d]) ds"

fun addCommittees ::
    "(u64 \<times> duty_validator) list \<Rightarrow> ((u64 \<times> u64) \<times> u64) list \<Rightarrow> ((u64 \<times> u64) \<times> attesterDuty list) list \<Rightarrow>
     ((u64 \<times> u64) \<times> attesterDuty list) list option" where
  "addCommittees validators [] ds = Some ds"
| "addCommittees validators ((k, i) # cs) ds =
     (case map_of validators i of
        None \<Rightarrow> None
      | Some v \<Rightarrow> addCommittees validators cs (addDuty k \<lparr>adValidator = i, adBalance = dvEffectiveBalance v\<rparr> ds))"

text \<open>
  \<open>statsProcessBlock\<close> at a new block: \<open>body\<close> says whether the body arrived in time, \<open>committees\<close> is the answer of the first
  client that has seen the block: slot and index of a committee with its members in order.
\<close>

definition statsProcessBlock ::
    "u64 \<Rightarrow> ('b, 'v) cl_cache \<Rightarrow> nat \<Rightarrow> bool \<Rightarrow> (u64 \<times> duty_validator) list option \<Rightarrow>
     (string + ((u64 \<times> u64) \<times> u64 list) list) option \<Rightarrow> duty_map \<Rightarrow> duty_map option" where
  "statsProcessBlock slotsPerEpoch c b body validators committees dm =
     (if \<not> body then Some dm
      else case GetParentRoot (blockStore c ! b) of
        None \<Rightarrow> None
      | Some parentRoot \<Rightarrow>
          (case GetCachedBlockByRoot c parentRoot of
             None \<Rightarrow> Some dm
           | Some p \<Rightarrow>
               if slotsPerEpoch = 0 then None
               else
                 let epoch = clSlot (blockStore c ! b) div slotsPerEpoch;
                     parentEpoch = clSlot (blockStore c ! p) div slotsPerEpoch;
                     root = clRoot (blockStore c ! p);
                     here = (case map_of dm epoch of None \<Rightarrow> [] | Some l \<Rightarrow> l);
                     dm1 = (if map_of dm epoch = None then AList.update epoch [] dm else dm)
                 in if parentEpoch = epoch then Some dm
                    else if clHeader (blockStore c ! p) = None then None
                    else if map_of here root \<noteq> None then Some dm
                    else case validators of
                           None \<Rightarrow> Some dm1
                         | Some vs \<Rightarrow>
                             (case committees of
                                None \<Rightarrow> None
                              | Some (Inl e) \<Rightarrow> Some dm1
                              | Some (Inr cs) \<Rightarrow>
                                  map_option (\<lambda>ds.
                                      AList.update epoch
                                        (AList.update root \<lparr>validatorCount = fst (activeSums epoch vs), validatorBalance = snd (activeSums epoch vs),
                                           adDuties = ds\<rparr> here) dm1)
                                    (addCommittees vs (concat (map (\<lambda>(k, members). map (Pair k) members) cs)) []))))"

section \<open>Votes\<close>

text \<open>The members of a committee with their positions: amount, count and activity after the bits from the offset on.\<close>

fun countVotes ::
    "bool list \<Rightarrow> u64 \<Rightarrow> nat \<Rightarrow> attesterDuty list \<Rightarrow> u64 \<times> u64 \<times> u64 list \<Rightarrow> u64 \<times> u64 \<times> u64 list" where
  "countVotes bits offset i [] acc = acc"
| "countVotes bits offset i (d # ds) (amount, cnt, act) =
     countVotes bits offset (i + 1) ds
       (if BitAt bits (of_nat i + offset) \<and> adValidator d \<notin> set act
        then (amount + adBalance d, cnt + 1, adValidator d # act)
        else (amount, cnt, act))"

definition dutiesAt :: "attesterDuties \<Rightarrow> u64 \<Rightarrow> u64 \<Rightarrow> attesterDuty list" where
  "dutiesAt ad slot committee = (case map_of (adDuties ad) (slot, committee) of None \<Rightarrow> [] | Some l \<Rightarrow> l)"

definition aggregateAttestationVotes ::
    "epochVotes \<Rightarrow> u64 \<Rightarrow> u64 \<Rightarrow> bool list \<Rightarrow> u64 \<Rightarrow> (u64 \<times> u64 \<times> u64) \<times> epochVotes" where
  "aggregateAttestationVotes votes slot committee bits offset =
     (let ds = dutiesAt (evDuties votes) slot committee;
          (amount, cnt, act) = countVotes bits offset 0 ds (0, 0, evActivity votes)
      in ((amount, cnt, of_nat (length ds)), votes\<lparr>evActivity := act\<rparr>))"

text \<open>
  The committees of an Electra attestation. The code adds up an offset of the committee sizes and passes 0 to the
  aggregation of each committee.
\<close>

fun electraVotes :: "u64 \<Rightarrow> bool list \<Rightarrow> bool list \<Rightarrow> u64 list \<Rightarrow> u64 \<times> u64 \<Rightarrow> epochVotes \<Rightarrow> (u64 \<times> u64) \<times> epochVotes" where
  "electraVotes slot committeeBits bits [] (amount, cnt) votes = ((amount, cnt), votes)"
| "electraVotes slot committeeBits bits (committee # cs) (amount, cnt) votes =
     (if \<not> BitAt committeeBits committee then electraVotes slot committeeBits bits cs (amount, cnt) votes
      else let ((a, n, size), votes1) = aggregateAttestationVotes votes slot committee bits 0
           in electraVotes slot committeeBits bits cs (amount + a, cnt + n) votes1)"

definition addSums :: "bool \<Rightarrow> bool \<Rightarrow> u64 \<Rightarrow> u64 \<Rightarrow> vote_sums \<Rightarrow> vote_sums" where
  "addSums target head amount cnt s =
     \<lparr>targetVoteAmount = (if target then targetVoteAmount s + amount else targetVoteAmount s),
      targetVoteCount = (if target then targetVoteCount s + cnt else targetVoteCount s),
      headVoteAmount = (if head then headVoteAmount s + amount else headVoteAmount s),
      headVoteCount = (if head then headVoteCount s + cnt else headVoteCount s),
      totalVoteAmount = totalVoteAmount s + amount, totalVoteCount = totalVoteCount s + cnt\<rparr>"

definition addVotes :: "bool \<Rightarrow> bool \<Rightarrow> bool \<Rightarrow> u64 \<Rightarrow> u64 \<Rightarrow> epochVotes \<Rightarrow> epochVotes" where
  "addVotes isNext target head amount cnt v =
     (if isNext then v\<lparr>evNext := addSums target head amount cnt (evNext v)\<rparr>
      else v\<lparr>evCurrent := addSums target head amount cnt (evCurrent v)\<rparr>)"

definition processAttestation ::
    "ChainSpec \<Rightarrow> u64 \<Rightarrow> bool \<Rightarrow> root \<Rightarrow> attestation \<Rightarrow> epochVotes \<Rightarrow> epochVotes" where
  "processAttestation specs epoch isNext parentRoot att votes =
     (case atData att of
        Inl e \<Rightarrow> votes
      | Inr d \<Rightarrow>
          if atSlot d div SlotsPerEpoch specs \<noteq> epoch then votes
          else case atBits att of
                 Inl e \<Rightarrow> votes
               | Inr bits \<Rightarrow>
                   if atElectra att
                   then (case atCommitteeBits att of
                           Inl e \<Rightarrow> votes
                         | Inr cb \<Rightarrow>
                             let ((amount, cnt), v1) = electraVotes (atSlot d) cb bits
                                   (map of_nat [0..<unat (MaxCommitteesPerSlot specs)]) (0, 0) votes
                             in addVotes isNext (atTarget d = evTargetRoot votes) (atHead d = parentRoot) amount cnt v1)
                   else let ((amount, cnt, size), v1) = aggregateAttestationVotes votes (atSlot d) (atIndex d) bits 0
                        in addVotes isNext (atTarget d = evTargetRoot votes) (atHead d = parentRoot) amount cnt v1)"

definition newEpochVotes :: "attesterDuties \<Rightarrow> epochVotes option \<Rightarrow> epochVotes" where
  "newEpochVotes duties base =
     (case base of
        None \<Rightarrow> \<lparr>evHeadRoot = 0, evDependentRoot = 0, evTargetRoot = 0, evDuties = duties, evCurrent = noVotes, evNext = noVotes, evActivity = []\<rparr>
      | Some v \<Rightarrow> v\<lparr>evHeadRoot := 0\<rparr>)"

text \<open>One block of a slot, given by its address; \<open>awaited\<close> is the attestations of its body if that has arrived.\<close>

record vote_state =
  vsHeads :: "root list"
  vsVotes :: "(root \<times> epochVotes) list"

definition voteBlock ::
    "ChainSpec \<Rightarrow> ('b, 'v) cl_cache \<Rightarrow> (nat \<Rightarrow> (string + attestation list) option) \<Rightarrow> duty_map \<Rightarrow> u64 \<Rightarrow> u64 \<Rightarrow> u64 \<Rightarrow> nat \<Rightarrow>
     vote_state \<Rightarrow> vote_state" where
  "voteBlock specs c awaited dm epoch firstSlot slot b s =
     (case awaited b of
        None \<Rightarrow> s
      | Some atts \<Rightarrow>
          (case GetParentRoot (blockStore c ! b) of
             None \<Rightarrow> s
           | Some parentRoot \<Rightarrow>
               let root = clRoot (blockStore c ! b);
                   isNext = (slot - firstSlot \<ge> SlotsPerEpoch specs);
                   store = (\<lambda>v heads. s\<lparr>vsHeads := List.insert root heads,
                     vsVotes := AList.update root
                       (case atts of Inl e \<Rightarrow> v | Inr l \<Rightarrow> fold (processAttestation specs epoch isNext parentRoot) l v) (vsVotes s)\<rparr>)
               in case map_of (vsVotes s) parentRoot of
                    Some parentVote \<Rightarrow>
                      store ((newEpochVotes (evDuties parentVote) (Some parentVote))\<lparr>evHeadRoot := root\<rparr>) (removeAll parentRoot (vsHeads s))
                  | None \<Rightarrow>
                      (case Option.bind (map_of dm epoch) (\<lambda>l. map_of l parentRoot) of
                         None \<Rightarrow> s
                       | Some duties \<Rightarrow>
                           store ((newEpochVotes duties None)\<lparr>evHeadRoot := root, evDependentRoot := parentRoot,
                                    evTargetRoot := (if slot = firstSlot then root else parentRoot)\<rparr>) (vsHeads s))))"

text \<open>
  All blocks of the epoch and the one after it, by slot. (The loop would not end if its last slot were the largest
  number.)
\<close>

definition aggregateEpochVotes ::
    "ChainSpec \<Rightarrow> ('b, 'v) cl_cache \<Rightarrow> (nat \<Rightarrow> (string + attestation list) option) \<Rightarrow> duty_map \<Rightarrow> u64 \<Rightarrow> epochVotes list" where
  "aggregateEpochVotes specs c awaited dm epoch =
     (let firstSlot = epoch * SlotsPerEpoch specs;
          lastSlot = firstSlot + 2 * SlotsPerEpoch specs;
          slots = (if lastSlot < firstSlot then [] else map (\<lambda>i. firstSlot + of_nat i) [0..<Suc (unat (lastSlot - firstSlot))]);
          s = fold (\<lambda>slot. fold (voteBlock specs c awaited dm epoch firstSlot slot) (GetCachedBlocksBySlot c slot)) slots
                \<lparr>vsHeads = [], vsVotes = []\<rparr>
      in map (\<lambda>r. the (map_of (vsVotes s) r)) (vsHeads s))"

section \<open>The check\<close>

definition sumPercent :: "u64 \<Rightarrow> u64 \<Rightarrow> u64 \<Rightarrow> float64" where
  "sumPercent a b balance = fPercent (unat (a + b)) (unat balance)"

definition percentOutside :: "u64 \<Rightarrow> u64 \<Rightarrow> float64 \<Rightarrow> bool" where
  "percentOutside mn mx p \<longleftrightarrow> mn > 0 \<and> fLess p (fOfNat (unat mn)) \<or> mx < 100 \<and> fLess (fOfNat (unat mx)) p"

definition checkEpochVotes ::
    "AttestationConfig \<Rightarrow> (float64 \<Rightarrow> var_value) \<Rightarrow> u64 \<Rightarrow> epochVotes \<Rightarrow> check_ctx \<Rightarrow> bool \<times> check_ctx" where
  "checkEpochVotes cfg floatVar epoch v c =
     (let balance = validatorBalance (evDuties v); cur = evCurrent v; nxt = evNext v;
          targetPercent = sumPercent (targetVoteAmount cur) (targetVoteAmount nxt) balance;
          headPercent = sumPercent (headVoteAmount cur) (headVoteAmount nxt) balance;
          totalPercent = sumPercent (totalVoteAmount cur) (totalVoteAmount nxt) balance;
          c1 = fold (\<lambda>(n, x). setOutput n x)
            [(''lastCheckedEpoch'', VUint64 epoch), (''validatorCount'', VUint64 (validatorCount (evDuties v))),
             (''validatorBalance'', VUint64 balance),
             (''targetVotes'', VUint64 (targetVoteCount cur + targetVoteCount nxt)), (''targetVotesPercent'', floatVar targetPercent),
             (''headVotes'', VUint64 (headVoteCount cur + headVoteCount nxt)), (''headVotesPercent'', floatVar headPercent),
             (''totalVotes'', VUint64 (totalVoteCount cur + totalVoteCount nxt)), (''totalVotesPercent'', floatVar totalPercent)] c
      in (\<not> percentOutside (MinTargetPercent cfg) (MaxTargetPercent cfg) targetPercent \<and>
          \<not> percentOutside (MinHeadPercent cfg) (MaxHeadPercent cfg) headPercent \<and>
          \<not> percentOutside (MinTotalPercent cfg) (MaxTotalPercent cfg) totalPercent, c1))"

record stats_task =
  stDutyMap :: duty_map
  stPassedEpochs :: u64
  stLastChecked :: u64
  stCtx :: check_ctx

text \<open>
  The votes come in the order of a map iteration; the first whose head is on the canonical chain is checked.
  \<open>canonical\<close> is the root of the canonical fork, None if there is none, which the code dereferences.
\<close>

fun firstCanonical :: "('b, 'v) cl_cache \<Rightarrow> root option \<Rightarrow> epochVotes list \<Rightarrow> epochVotes option option" where
  "firstCanonical c canonical [] = Some None"
| "firstCanonical c canonical (v # vs) =
     do {
       h \<leftarrow> canonical;
       on \<leftarrow> clIsCanonicalBlock c (evHeadRoot v) h;
       if on then Some (Some v) else firstCanonical c canonical vs
     }"

definition runAttestationStatsCheck ::
    "AttestationConfig \<Rightarrow> (float64 \<Rightarrow> var_value) \<Rightarrow> ('b, 'v) cl_cache \<Rightarrow> root option \<Rightarrow> u64 \<Rightarrow> epochVotes list \<Rightarrow> stats_task \<Rightarrow> stats_task option" where
  "runAttestationStatsCheck cfg floatVar c canonical epoch votes t =
     map_option (\<lambda>found.
        let t1 = t\<lparr>stDutyMap := AList.delete epoch (stDutyMap t)\<rparr>
        in case found of
             None \<Rightarrow> t1
           | Some v \<Rightarrow>
               let (pass, c1) = checkEpochVotes cfg floatVar epoch v (stCtx t1)
               in if pass
                  then let n = stPassedEpochs t1 + 1
                       in t1\<lparr>stPassedEpochs := n, stCtx := (if n \<ge> MinCheckedEpochs cfg then ctxSetResult TaskResultSuccess c1 else c1)\<rparr>
                  else t1\<lparr>stPassedEpochs := 0, stCtx := ctxSetResult (missResult (asFailOnCheckMiss cfg) False) c1\<rparr>)
       (firstCanonical c canonical votes)"

text \<open>The event of a new wall clock epoch: the epoch before the last is checked, each once.\<close>

definition statsEpochEvent ::
    "AttestationConfig \<Rightarrow> (float64 \<Rightarrow> var_value) \<Rightarrow> ChainSpec \<Rightarrow> ('b, 'v) cl_cache \<Rightarrow> (nat \<Rightarrow> (string + attestation list) option) \<Rightarrow>
     root option \<Rightarrow> u64 \<Rightarrow> stats_task \<Rightarrow> stats_task option" where
  "statsEpochEvent cfg floatVar specs c awaited canonical epoch t =
     (let checkEpoch = epoch - 2
      in if epoch < 2 \<or> checkEpoch \<le> stLastChecked t then Some t
         else map_option (\<lambda>t1. t1\<lparr>stLastChecked := checkEpoch\<rparr>)
                (runAttestationStatsCheck cfg floatVar c canonical checkEpoch
                   (aggregateEpochVotes specs c awaited (stDutyMap t) checkEpoch) t))"

definition statsStart :: "u64 \<Rightarrow> check_ctx \<Rightarrow> stats_task" where
  "statsStart currentEpoch c = \<lparr>stDutyMap = [], stPassedEpochs = 0, stLastChecked = currentEpoch, stCtx = c\<rparr>"

section \<open>Every validator is counted once\<close>

text \<open>
  The sums of a chain of blocks: the total count is the number of validators marked active, each once, and with a
  balance per validator that the duties agree on the total amount is the sum of their balances.
\<close>

definition votes_inv :: "(u64 \<Rightarrow> u64) \<Rightarrow> epochVotes \<Rightarrow> bool" where
  "votes_inv bal v \<longleftrightarrow> distinct (evActivity v) \<and>
     totalVoteCount (evCurrent v) + totalVoteCount (evNext v) = of_nat (length (evActivity v)) \<and>
     totalVoteAmount (evCurrent v) + totalVoteAmount (evNext v) = sum_list (map bal (evActivity v))"

definition balances_agree :: "(u64 \<Rightarrow> u64) \<Rightarrow> attesterDuties \<Rightarrow> bool" where
  "balances_agree bal ad \<longleftrightarrow> (\<forall>(k, ds) \<in> set (adDuties ad). \<forall>d \<in> set ds. adBalance d = bal (adValidator d))"

lemma countVotes_sums:
  assumes "\<forall>d \<in> set ds. adBalance d = bal (adValidator d)" "distinct act"
    and "countVotes bits offset i ds (amount, cnt, act) = (amount', cnt', act')"
  shows "distinct act' \<and> cnt' - cnt = of_nat (length act') - of_nat (length act) \<and>
    amount' - amount = sum_list (map bal act') - sum_list (map bal act)"
  using assms
proof (induction bits offset i ds "(amount, cnt, act)" arbitrary: amount cnt act rule: countVotes.induct)
  case (2 bits offset i d ds amount cnt act)
  show ?case
  proof (cases "BitAt bits (of_nat i + offset) \<and> adValidator d \<notin> set act")
    case True
    with 2 have "distinct act' \<and> cnt' - (cnt + 1) = of_nat (length act') - of_nat (length (adValidator d # act)) \<and>
      amount' - (amount + adBalance d) = sum_list (map bal act') - sum_list (map bal (adValidator d # act))"
      by simp
    then show ?thesis using 2(2) by (simp add: algebra_simps) 
  next
    case False
    with 2 show ?thesis by (simp only: countVotes.simps if_False) simp
  qed
qed simp

definition pending_inv :: "(u64 \<Rightarrow> u64) \<Rightarrow> u64 \<Rightarrow> u64 \<Rightarrow> epochVotes \<Rightarrow> bool" where
  "pending_inv bal a n v \<longleftrightarrow> distinct (evActivity v) \<and>
     totalVoteCount (evCurrent v) + totalVoteCount (evNext v) + n = of_nat (length (evActivity v)) \<and>
     totalVoteAmount (evCurrent v) + totalVoteAmount (evNext v) + a = sum_list (map bal (evActivity v))"

lemma votes_inv_pending: "votes_inv bal v = pending_inv bal 0 0 v"
  by (simp add: votes_inv_def pending_inv_def)

lemma dutiesAt_balances: "balances_agree bal ad \<Longrightarrow> \<forall>d \<in> set (dutiesAt ad slot committee). adBalance d = bal (adValidator d)"
  by (cases "map_of (adDuties ad) (slot, committee)") (auto simp: balances_agree_def dutiesAt_def dest: map_of_SomeD)

lemma aggregateAttestationVotes_inv:
  assumes "pending_inv bal a n v" "balances_agree bal (evDuties v)"
    and "aggregateAttestationVotes v slot committee bits offset = ((a', n', sz), v')"
  shows "pending_inv bal (a + a') (n + n') v' \<and> evDuties v' = evDuties v"
proof -
  let ?ds = "dutiesAt (evDuties v) slot committee"
  obtain act where c: "countVotes bits offset 0 ?ds (0, 0, evActivity v) = (a', n', act)" "v' = v\<lparr>evActivity := act\<rparr>"
    using assms(3) by (auto simp: aggregateAttestationVotes_def Let_def split: prod.splits)
  have "distinct (evActivity v)" using assms(1) by (simp add: pending_inv_def)
  from countVotes_sums [OF dutiesAt_balances [OF assms(2)] this c(1)]
  have "distinct act" "n' = of_nat (length act) - of_nat (length (evActivity v))"
    "a' = sum_list (map bal act) - sum_list (map bal (evActivity v))" by auto
  with assms(1) c(2) show ?thesis by (simp add: pending_inv_def flip: add.assoc)
qed

lemma electraVotes_inv:
  assumes "pending_inv bal a n v" "balances_agree bal (evDuties v)"
    and "electraVotes slot cb bits cs (a, n) v = ((a', n'), v')"
  shows "pending_inv bal a' n' v' \<and> evDuties v' = evDuties v"
  using assms
proof (induction cs arbitrary: a n v)
  case (Cons committee cs)
  show ?case
  proof (cases "BitAt cb committee")
    case True
    obtain a1 n1 sz v1 where r: "aggregateAttestationVotes v slot committee bits 0 = ((a1, n1, sz), v1)" by (metis prod.collapse)
    note s = aggregateAttestationVotes_inv [OF Cons.prems(1,2) r]
    have "electraVotes slot cb bits cs (a + a1, n + n1) v1 = ((a', n'), v')" using Cons.prems(3) True r by simp
    with Cons.IH [of "a + a1" "n + n1" v1] s Cons.prems(2) show ?thesis by simp
  qed (use Cons in simp)
qed simp

lemma addVotes_inv: "pending_inv bal a n v \<Longrightarrow> votes_inv bal (addVotes isNext target head a n v)"
  by (auto simp: pending_inv_def votes_inv_def addVotes_def addSums_def ac_simps)

lemma evDuties_addVotes [simp]: "evDuties (addVotes isNext target head a n v) = evDuties v"
  by (simp add: addVotes_def)

lemma processAttestation_inv:
  assumes "votes_inv bal v" "balances_agree bal (evDuties v)"
  shows "votes_inv bal (processAttestation specs epoch isNext parentRoot att v) \<and>
    evDuties (processAttestation specs epoch isNext parentRoot att v) = evDuties v"
proof -
  have p: "pending_inv bal 0 0 v" using assms(1) by (simp add: votes_inv_pending)
  show ?thesis
  proof (cases "processAttestation specs epoch isNext parentRoot att v = v")
    case False
    then obtain d bits where d: "atData att = Inr d" "atSlot d div SlotsPerEpoch specs = epoch" "atBits att = Inr bits"
      by (auto simp: processAttestation_def split: sum.splits if_splits)
    show ?thesis
    proof (cases "atElectra att")
      case True
      with False d obtain cb where cb: "atCommitteeBits att = Inr cb"
        by (cases "atCommitteeBits att") (auto simp: processAttestation_def)
      obtain a n v1 where e: "electraVotes (atSlot d) cb bits (map of_nat [0..<unat (MaxCommitteesPerSlot specs)]) (0, 0) v = ((a, n), v1)"
        by (metis prod.collapse)
      from electraVotes_inv [OF p assms(2) e] True d cb e show ?thesis by (simp add: processAttestation_def addVotes_inv)
    next
      case False
      obtain a n sz v1 where e: "aggregateAttestationVotes v (atSlot d) (atIndex d) bits 0 = ((a, n, sz), v1)" by (metis prod.collapse)
      from aggregateAttestationVotes_inv [OF p assms(2) e] False d e show ?thesis by (simp add: processAttestation_def addVotes_inv)
    qed
  qed (use assms in simp)
qed

lemma processAttestations_inv:
  assumes "votes_inv bal v" "balances_agree bal (evDuties v)"
  shows "votes_inv bal (fold (processAttestation specs epoch isNext parentRoot) atts v) \<and>
    evDuties (fold (processAttestation specs epoch isNext parentRoot) atts v) = evDuties v"
  using assms by (induction atts arbitrary: v) (simp_all add: processAttestation_inv)

definition vote_state_inv :: "(u64 \<Rightarrow> u64) \<Rightarrow> vote_state \<Rightarrow> bool" where
  "vote_state_inv bal s \<longleftrightarrow> set (vsHeads s) \<subseteq> fst ` set (vsVotes s) \<and>
     (\<forall>r v. map_of (vsVotes s) r = Some v \<longrightarrow> votes_inv bal v \<and> balances_agree bal (evDuties v))"

lemma voteBlock_store_inv:
  assumes "vote_state_inv bal s" "votes_inv bal v" "balances_agree bal (evDuties v)" "set heads \<subseteq> set (vsHeads s)"
  shows "vote_state_inv bal (s\<lparr>vsHeads := List.insert hd0 heads, vsVotes := AList.update hd0
      (case atts of Inl e \<Rightarrow> v | Inr l \<Rightarrow> fold (processAttestation specs epoch isNext parentRoot) l v) (vsVotes s)\<rparr>)"
proof -
  let ?v = "case atts of Inl e \<Rightarrow> v | Inr l \<Rightarrow> fold (processAttestation specs epoch isNext parentRoot) l v"
  have "votes_inv bal ?v \<and> balances_agree bal (evDuties ?v)"
    using processAttestations_inv [OF assms(2,3)] assms(2,3) by (cases atts) simp_all
  moreover have "fst ` set (AList.update hd0 ?v (vsVotes s)) = insert hd0 (fst ` set (vsVotes s))"
    using dom_update [of hd0 ?v "vsVotes s"] by simp
  ultimately show ?thesis using assms(1,4) by (auto simp: vote_state_inv_def update_conv')
qed

lemma voteBlock_inv:
  assumes "vote_state_inv bal s" "\<And>l r ad. map_of dm epoch = Some l \<Longrightarrow> map_of l r = Some ad \<Longrightarrow> balances_agree bal ad"
  shows "vote_state_inv bal (voteBlock specs c awaited dm epoch firstSlot slot b s)"
proof (cases "awaited b")
  case (Some atts)
  show ?thesis
  proof (cases "GetParentRoot (blockStore c ! b)")
    case (Some parentRoot)
    note sp = \<open>awaited b = Some atts\<close> Some
    show ?thesis
    proof (cases "map_of (vsVotes s) parentRoot")
      case (Some pv)
      with assms(1) have "votes_inv bal pv" "balances_agree bal (evDuties pv)" by (auto simp: vote_state_inv_def)
      then have "votes_inv bal ((newEpochVotes (evDuties pv) (Some pv))\<lparr>evHeadRoot := r\<rparr>)"
        "balances_agree bal (evDuties ((newEpochVotes (evDuties pv) (Some pv))\<lparr>evHeadRoot := r\<rparr>))" for r
        by (simp_all add: newEpochVotes_def votes_inv_def)
      from voteBlock_store_inv [OF assms(1) this, of "removeAll parentRoot (vsHeads s)"] show ?thesis
        unfolding voteBlock_def sp by (simp add: Some Let_def)
    next
      case None
      show ?thesis
      proof (cases "Option.bind (map_of dm epoch) (\<lambda>l. map_of l parentRoot)")
        case (Some duties)
        then have "balances_agree bal duties" using assms(2) by (auto simp: bind_eq_Some_conv)
        then have "votes_inv bal ((newEpochVotes duties None)\<lparr>evHeadRoot := r, evDependentRoot := q, evTargetRoot := t\<rparr>)"
          "balances_agree bal (evDuties ((newEpochVotes duties None)\<lparr>evHeadRoot := r, evDependentRoot := q, evTargetRoot := t\<rparr>))" for r q t
          by (simp_all add: newEpochVotes_def votes_inv_def noVotes_def)
        note r = voteBlock_store_inv [OF assms(1) this order_refl]
        show ?thesis unfolding voteBlock_def sp option.case None Some Let_def by (rule r)
      qed (use sp assms(1) None in \<open>simp add: voteBlock_def Let_def\<close>)
    qed
  qed (use Some assms(1) in \<open>simp add: voteBlock_def\<close>)
qed (use assms(1) in \<open>simp add: voteBlock_def\<close>)

lemma fold_inv: "P s \<Longrightarrow> (\<And>x s. P s \<Longrightarrow> P (f x s)) \<Longrightarrow> P (fold f xs s)"
  by (induction xs arbitrary: s) simp_all

text \<open>
  C33. In the votes aggregated for an epoch every validator is counted at most once on each fork: the total
  count of both epochs is the number of distinct validators seen voting, and the total amount is the sum of their balances.
\<close>

theorem validators_counted_once:
  assumes "\<forall>l r ad. map_of dm epoch = Some l \<and> map_of l r = Some ad \<longrightarrow> balances_agree bal ad"
  shows "\<forall>v \<in> set (aggregateEpochVotes specs c awaited dm epoch). distinct (evActivity v) \<and>
     totalVoteCount (evCurrent v) + totalVoteCount (evNext v) = of_nat (length (evActivity v)) \<and>
     totalVoteAmount (evCurrent v) + totalVoteAmount (evNext v) = sum_list (map bal (evActivity v))"
proof -
  let ?first = "epoch * SlotsPerEpoch specs"
  let ?run = "\<lambda>slots. fold (\<lambda>slot. fold (voteBlock specs c awaited dm epoch ?first slot) (GetCachedBlocksBySlot c slot)) slots
      \<lparr>vsHeads = [], vsVotes = []\<rparr>"
  have block: "vote_state_inv bal (voteBlock specs c awaited dm epoch ?first slot b s)" if "vote_state_inv bal s" for slot b s
    using voteBlock_inv [OF that, of dm epoch] assms by blast
  have base: "vote_state_inv bal \<lparr>vsHeads = [], vsVotes = []\<rparr>" by (simp add: vote_state_inv_def)
  have inv: "vote_state_inv bal (?run slots)" for slots
    by (rule fold_inv [where P = "vote_state_inv bal", OF base]) (erule fold_inv [where P = "vote_state_inv bal"], erule block)
  have "votes_inv bal (the (map_of (vsVotes (?run slots)) r))" if "r \<in> set (vsHeads (?run slots))" for slots r
  proof -
    have "set (vsHeads (?run slots)) \<subseteq> fst ` set (vsVotes (?run slots))" using inv [of slots] by (simp only: vote_state_inv_def)
    with that have "map_of (vsVotes (?run slots)) r \<noteq> None" unfolding map_of_eq_None_iff by blast
    then obtain v where v: "map_of (vsVotes (?run slots)) r = Some v" by blast
    have "votes_inv bal v" using inv [of slots] v unfolding vote_state_inv_def by blast
    with v show ?thesis by (simp only: option.sel)
  qed
  then have "\<forall>v \<in> set (aggregateEpochVotes specs c awaited dm epoch). votes_inv bal v"
    unfolding aggregateEpochVotes_def Let_def set_map by blast
  then show ?thesis unfolding votes_inv_def .
qed

text \<open>The duties the task loads agree with the effective balances of the validator set.\<close>

lemma addDuty_balances:
  assumes "\<forall>(k, ds) \<in> set al. \<forall>d \<in> set ds. adBalance d = bal (adValidator d)" "adBalance e = bal (adValidator e)"
  shows "\<forall>(k, ds) \<in> set (addDuty key e al). \<forall>d \<in> set ds. adBalance d = bal (adValidator d)"
proof -
  define l where "l = (case map_of al key of None \<Rightarrow> [] | Some l \<Rightarrow> l)"
  have "\<forall>d \<in> set l. adBalance d = bal (adValidator d)"
    using assms(1) by (cases "map_of al key") (auto simp: l_def dest: map_of_SomeD)
  with assms show ?thesis unfolding addDuty_def l_def [symmetric] by (auto dest!: in_AList_update)
qed

lemma addCommittees_balances:
  assumes "addCommittees vs cs al = Some al'" "\<forall>(k, ds) \<in> set al. \<forall>d \<in> set ds. adBalance d = dvEffectiveBalance (the (map_of vs (adValidator d)))"
  shows "\<forall>(k, ds) \<in> set al'. \<forall>d \<in> set ds. adBalance d = dvEffectiveBalance (the (map_of vs (adValidator d)))"
  using assms
proof (induction vs cs al rule: addCommittees.induct)
  case (2 vs k i cs al)
  then obtain v where v: "map_of vs i = Some v" by (auto split: option.splits)
  with 2 addDuty_balances [OF 2(3), of "\<lparr>adValidator = i, adBalance = dvEffectiveBalance v\<rparr>" k] show ?case by simp
qed simp

definition demoSpec :: ChainSpec where
  "demoSpec = \<lparr>PresetBase = '''', ConfigName = '''', MinGenesisTime = 0, GenesisForkVersion = 0, AltairForkVersion = 0,
     AltairForkEpoch = 0, BellatrixForkVersion = 0, BellatrixForkEpoch = 0, CappellaForkVersion = 0, CappellaForkEpoch = 0,
     SecondsPerSlot = 12, SlotsPerEpoch = 4, MaxCommitteesPerSlot = 2\<rparr>"

definition demoDuties :: attesterDuties where
  "demoDuties = \<lparr>validatorCount = 3, validatorBalance = 96,
     adDuties = [((0, 0), [\<lparr>adValidator = 5, adBalance = 32\<rparr>, \<lparr>adValidator = 6, adBalance = 32\<rparr>]),
                 ((0, 1), [\<lparr>adValidator = 7, adBalance = 32\<rparr>])]\<rparr>"

definition demoAtt :: "bool list \<Rightarrow> attestation" where
  "demoAtt bits = \<lparr>atData = Inr \<lparr>atSlot = 0, atIndex = 0, atHead = 1, atTarget = 0\<rparr>, atBits = Inr bits, atElectra = False, atCommitteeBits = Inr []\<rparr>"

definition demoAwaited :: "nat \<Rightarrow> (string + attestation list) option" where
  "demoAwaited b = Some (Inr (if b = 1 then [demoAtt [True, False], demoAtt [True, True]] else []))"

definition demoVotes :: "epochVotes list" where
  "demoVotes = aggregateEpochVotes demoSpec (blockCache demo_pool) demoAwaited [(0, [(0, demoDuties)])] 0"

theorem validators_counted_once_witness:
  "map evHeadRoot demoVotes = [3, 2] \<and> totalVoteCount (evCurrent (demoVotes ! 1)) + totalVoteCount (evNext (demoVotes ! 1)) = 2 \<and>
   distinct (evActivity (demoVotes ! 1))"
proof -
  have "balances_agree (\<lambda>_. 32) demoDuties" by (simp add: balances_agree_def demoDuties_def)
  then have "\<forall>l r ad. map_of [(0 :: u64, [(0 :: root, demoDuties)])] 0 = Some l \<and> map_of l r = Some ad \<longrightarrow> balances_agree (\<lambda>_. 32) ad"
    by auto
  from validators_counted_once [OF this, of demoSpec "blockCache demo_pool" demoAwaited]
  have c: "\<forall>v \<in> set demoVotes. distinct (evActivity v) \<and>
     totalVoteCount (evCurrent v) + totalVoteCount (evNext v) = of_nat (length (evActivity v))"
    unfolding demoVotes_def by blast
  have e: "map evHeadRoot demoVotes = [3, 2]" "length (evActivity (demoVotes ! 1)) = 2" by code_simp+
  then have "length demoVotes = 2" by (metis length_map length_Cons list.size(3) numeral_2_eq_2)
  then have "demoVotes ! 1 \<in> set demoVotes" by simp
  with c e show ?thesis by auto
qed

section \<open>Electra attestations\<close>

text \<open>
  An Electra attestation of two committees whose first bit only is set: the one vote is counted for both
  committees, because the bits of each are read from the start.
\<close>

definition demoElectra :: attestation where
  "demoElectra = \<lparr>atData = Inr \<lparr>atSlot = 0, atIndex = 0, atHead = 1, atTarget = 0\<rparr>, atBits = Inr [True, False, False],
     atElectra = True, atCommitteeBits = Inr [True, True]\<rparr>"

lemma electra_votes_miscounted:
  "totalVoteCount (evCurrent (processAttestation demoSpec 0 False 1 demoElectra (newEpochVotes demoDuties None))) = 2"
  by code_simp

section \<open>Percentages\<close>

definition withinPercent :: "u64 \<Rightarrow> u64 \<Rightarrow> u64 \<Rightarrow> u64 \<Rightarrow> bool" where
  "withinPercent mn mx a b \<longleftrightarrow> unat mn * unat b \<le> 100 * unat a \<and> (mx < 100 \<longrightarrow> 100 * unat a \<le> unat mx * unat b)"

lemma not_percentOutside:
  assumes "withinPercent mn mx (a1 + a2) b" "0 < b" "unat (a1 + a2) < 2 ^ 46" "unat b < 2 ^ 46" "unat mn < 2 ^ 46" "mx \<le> 100"
  shows "\<not> percentOutside mn mx (sumPercent a1 a2 b)"
proof -
  have bounds: "100 * unat (a1 + a2) < 2 ^ 53" "0 < unat b" "unat b < 2 ^ 53" "unat mn < 2 ^ 53"
    using assms(2-5) by (simp_all add: word_less_nat_alt)
  have mx: "unat mx < 2 ^ 53" using assms(6) by (simp add: word_le_nat_alt)
  show ?thesis
    using fPercent_reaches [OF bounds] fPercent_stays [OF bounds(1-3) mx] assms(1)
    by (auto simp: percentOutside_def sumPercent_def withinPercent_def)
qed

text \<open>
  C34. The check of an epoch passes when the exact percentages of the balance are within the configured
  bounds: rounding never turns a met bound into a miss, as long as the amounts fit 46 bits.
\<close>

theorem attestation_percent_exact:
  assumes "withinPercent (MinTargetPercent cfg) (MaxTargetPercent cfg) (targetVoteAmount (evCurrent v) + targetVoteAmount (evNext v)) (validatorBalance (evDuties v))"
    and "withinPercent (MinHeadPercent cfg) (MaxHeadPercent cfg) (headVoteAmount (evCurrent v) + headVoteAmount (evNext v)) (validatorBalance (evDuties v))"
    and "withinPercent (MinTotalPercent cfg) (MaxTotalPercent cfg) (totalVoteAmount (evCurrent v) + totalVoteAmount (evNext v)) (validatorBalance (evDuties v))"
    and "0 < validatorBalance (evDuties v)" "unat (validatorBalance (evDuties v)) < 2 ^ 46"
    and "\<forall>a \<in> {targetVoteAmount (evCurrent v) + targetVoteAmount (evNext v), headVoteAmount (evCurrent v) + headVoteAmount (evNext v),
               totalVoteAmount (evCurrent v) + totalVoteAmount (evNext v)}. unat a < 2 ^ 46"
    and "\<forall>m \<in> {MinTargetPercent cfg, MinHeadPercent cfg, MinTotalPercent cfg}. unat m < 2 ^ 46"
    and "\<forall>m \<in> {MaxTargetPercent cfg, MaxHeadPercent cfg, MaxTotalPercent cfg}. m \<le> 100"
  shows "fst (checkEpochVotes cfg floatVar epoch v c)"
  using not_percentOutside [OF assms(1,4)] not_percentOutside [OF assms(2,4)] not_percentOutside [OF assms(3,4)] assms(5-8)
  by (simp add: checkEpochVotes_def Let_def)

definition demoAttConfig :: AttestationConfig where
  "demoAttConfig = attestationDefault\<lparr>MinTotalPercent := 66, MinTargetPercent := 60\<rparr>"

theorem attestation_percent_exact_witness:
  "fst (checkEpochVotes demoAttConfig (\<lambda>_. VNil) 0 (demoVotes ! 1) (rtCtx demoReorg))"
proof -
  let ?v = "demoVotes ! 1"
  have s: "targetVoteAmount (evCurrent ?v) + targetVoteAmount (evNext ?v) = 64" "headVoteAmount (evCurrent ?v) + headVoteAmount (evNext ?v) = 64"
    "totalVoteAmount (evCurrent ?v) + totalVoteAmount (evNext ?v) = 64" "validatorBalance (evDuties ?v) = 96" by code_simp+
  note r = attestation_percent_exact [where cfg = demoAttConfig and v = ?v, unfolded s]
  show ?thesis by (rule r) (simp_all add: withinPercent_def demoAttConfig_def attestationDefault_def)
qed

section \<open>Passed epochs\<close>

text \<open>Success needs the configured number of passed epochs in a row; a miss starts over.\<close>

lemma stats_success_needs_epochs:
  assumes "runAttestationStatsCheck cfg floatVar c canonical epoch votes t = Some t'" "firstCanonical c canonical votes = Some (Some v)"
  shows "stPassedEpochs t' = (if fst (checkEpochVotes cfg floatVar epoch v (stCtx t)) then stPassedEpochs t + 1 else 0)"
    and "ccResult (stCtx t) = TaskResultNone \<Longrightarrow> ccResult (stCtx t') = TaskResultSuccess \<Longrightarrow> MinCheckedEpochs cfg \<le> stPassedEpochs t'"
proof -
  obtain pass c1 where p: "checkEpochVotes cfg floatVar epoch v (stCtx t) = (pass, c1)" by (metis prod.collapse)
  have out: "ccResult (setOutput n x c) = ccResult c" for n x c by (simp add: setOutput_def)
  have "ccResult (snd (checkEpochVotes cfg floatVar epoch v (stCtx t))) = ccResult (stCtx t)"
    by (simp add: checkEpochVotes_def Let_def out)
  with p have "ccResult c1 = ccResult (stCtx t)" by simp
  with assms p show "stPassedEpochs t' = (if fst (checkEpochVotes cfg floatVar epoch v (stCtx t)) then stPassedEpochs t + 1 else 0)"
    "ccResult (stCtx t) = TaskResultNone \<Longrightarrow> ccResult (stCtx t') = TaskResultSuccess \<Longrightarrow> MinCheckedEpochs cfg \<le> stPassedEpochs t'"
    by (auto simp: runAttestationStatsCheck_def ctxSetResult_def missResult_def Let_def split: if_splits)
qed

end
