(* ===== verification/BlockProposals.thy ===== *)
theory BlockProposals
  imports ClusterChecks
begin

text \<open>
  \<open>tasks/check_consensus_block_proposals\<close>: blocks are compared with the patterns, counts and operations of the
  configuration until enough have matched. Regular expressions, hex decoding, names of validators, the
  intersection of index lists and the accessors of go-eth2-client are arguments; an accessor may report an
  error. A panic is None.
\<close>

section \<open>Data\<close>

record ExpectSlashing =
  esPublicKey :: string
  esSlashingType :: string

record ExpectBlsChange =
  ebPublicKey :: string
  ebAddress :: string

record ExpectWithdrawal =
  ewPublicKey :: string
  ewAddress :: string
  ewMinAmount :: "int option"
  ewMaxAmount :: "int option"

record ExpectDepositRequest =
  edPublicKey :: string
  edWithdrawalCredentials :: string
  edAmount :: "int option"

record ExpectWithdrawalRequest =
  erSourceAddress :: string
  erValidatorPubkey :: string
  erAmount :: "int option"

record ExpectConsolidationRequest =
  ecSourceAddress :: string
  ecSourcePubkey :: string
  ecTargetPubkey :: string

record ProposalsConfig =
  CheckLookback :: int
  BlockCount :: int
  GraffitiPattern :: string
  ValidatorNamePattern :: string
  ExtraDataPattern :: string
  MinAttestationCount :: int
  MinDepositCount :: int
  MinExitCount :: int
  MinSlashingCount :: int
  MinAttesterSlashingCount :: int
  MinProposerSlashingCount :: int
  MinBlsChangeCount :: int
  MinWithdrawalCount :: int
  MinTransactionCount :: int
  MinBlobCount :: int
  MinDepositRequestCount :: int
  MinWithdrawalRequestCount :: int
  MinConsolidationRequestCount :: int
  ExpectDeposits :: "string list"
  ExpectExits :: "string list"
  ExpectSlashings :: "ExpectSlashing list"
  ExpectBlsChanges :: "ExpectBlsChange list"
  ExpectWithdrawals :: "ExpectWithdrawal list"
  ExpectDepositRequests :: "ExpectDepositRequest list"
  ExpectWithdrawalRequests :: "ExpectWithdrawalRequest list"
  ExpectConsolidationRequests :: "ExpectConsolidationRequest list"

definition proposalsDefault :: ProposalsConfig where
  "proposalsDefault = \<lparr>CheckLookback = 1, BlockCount = 1, GraffitiPattern = '''', ValidatorNamePattern = '''', ExtraDataPattern = '''',
     MinAttestationCount = 0, MinDepositCount = 0, MinExitCount = 0, MinSlashingCount = 0, MinAttesterSlashingCount = 0,
     MinProposerSlashingCount = 0, MinBlsChangeCount = 0, MinWithdrawalCount = 0, MinTransactionCount = 0, MinBlobCount = 0,
     MinDepositRequestCount = 0, MinWithdrawalRequestCount = 0, MinConsolidationRequestCount = 0, ExpectDeposits = [], ExpectExits = [],
     ExpectSlashings = [], ExpectBlsChanges = [], ExpectWithdrawals = [], ExpectDepositRequests = [], ExpectWithdrawalRequests = [],
     ExpectConsolidationRequests = []\<rparr>"

text \<open>
  A loaded block as its accessors give it; lists of which only the length is read are given by it. \<open>bdPayloadExtra\<close> is
  the extra data of the payload of its version, None where a part of the path to it is nil.
\<close>

datatype DataVersion = DataVersionPhase0 | DataVersionAltair | DataVersionBellatrix | DataVersionCapella | DataVersionDeneb
  | DataVersionElectra

record execution_requests =
  reqDeposits :: "(string \<times> u8 list \<times> u64) list"
  reqWithdrawals :: "(u8 list \<times> u8 list \<times> u64) list"
  reqConsolidations :: "(u8 list \<times> u8 list \<times> u8 list) list"

record block_data =
  bdVersion :: DataVersion
  bdPayloadExtra :: "string option"
  bdGraffiti :: "string + string"
  bdProposerIndex :: "string + u64"
  bdAttestations :: "string + nat"
  bdDeposits :: "string + string list"
  bdVoluntaryExits :: "string + u64 list"
  bdAttesterSlashings :: "string + ((string + u64 list) \<times> (string + u64 list)) list"
  bdProposerSlashings :: "string + u64 list"
  bdBlsChanges :: "string + (u64 \<times> string) list"
  bdWithdrawals :: "string + (u64 \<times> string \<times> u64) list"
  bdTransactions :: "string + nat"
  bdBlobs :: "string + nat"
  bdRequests :: "string + execution_requests"

text \<open>The libraries and services: \<open>plMatch\<close> a pattern and a text, \<open>plValidators\<close> the keys of the validator set by index.\<close>

record proposal_libs =
  plMatch :: "string \<Rightarrow> string \<Rightarrow> string + bool"
  plFromHex :: "string \<Rightarrow> u8 list"
  plName :: "u64 \<Rightarrow> string"
  plIntersect :: "u64 list \<Rightarrow> u64 list \<Rightarrow> u64 list"
  plValidators :: "(u64 \<times> string) list option"

definition EqualFold :: "string \<Rightarrow> string \<Rightarrow> bool" where
  "EqualFold a b \<longleftrightarrow> map toLower a = map toLower b"

section \<open>Blocks\<close>

definition GetExecutionExtraData :: "block_data \<Rightarrow> string + string" where
  "GetExecutionExtraData b =
     (case bdVersion b of
        DataVersionBellatrix \<Rightarrow> (case bdPayloadExtra b of None \<Rightarrow> Inl ''no bellatrix block'' | Some d \<Rightarrow> Inr d)
      | DataVersionCapella \<Rightarrow> (case bdPayloadExtra b of None \<Rightarrow> Inl ''no capella block'' | Some d \<Rightarrow> Inr d)
      | DataVersionDeneb \<Rightarrow> (case bdPayloadExtra b of None \<Rightarrow> Inl ''no denb block'' | Some d \<Rightarrow> Inr d)
      | _ \<Rightarrow> Inl ''unknown version'')"

definition GetBlockBody :: "block_data \<Rightarrow> block_data option" where
  "GetBlockBody b = (if bdVersion b = DataVersionElectra then None else Some b)"

section \<open>Checks of a block\<close>

definition patternCheck :: "proposal_libs \<Rightarrow> string \<Rightarrow> string + string \<Rightarrow> bool" where
  "patternCheck L pat txt =
     (case txt of Inl e \<Rightarrow> False | Inr s \<Rightarrow> (case plMatch L pat s of Inl e \<Rightarrow> False | Inr m \<Rightarrow> m))"

definition checkBlockGraffiti :: "ProposalsConfig \<Rightarrow> proposal_libs \<Rightarrow> block_data \<Rightarrow> bool" where
  "checkBlockGraffiti cfg L b = patternCheck L (GraffitiPattern cfg) (bdGraffiti b)"

definition checkBlockValidatorName :: "ProposalsConfig \<Rightarrow> proposal_libs \<Rightarrow> block_data \<Rightarrow> bool" where
  "checkBlockValidatorName cfg L b =
     patternCheck L (ValidatorNamePattern cfg) (case bdProposerIndex b of Inl e \<Rightarrow> Inl e | Inr i \<Rightarrow> Inr (plName L i))"

definition checkBlockExtraData :: "ProposalsConfig \<Rightarrow> proposal_libs \<Rightarrow> block_data \<Rightarrow> bool" where
  "checkBlockExtraData cfg L b = patternCheck L (ExtraDataPattern cfg) (GetExecutionExtraData b)"

definition countCheck :: "int \<Rightarrow> string + nat \<Rightarrow> bool" where
  "countCheck mn n = (case n of Inl e \<Rightarrow> False | Inr k \<Rightarrow> \<not> int k < mn)"

definition checkBlockAttestations :: "ProposalsConfig \<Rightarrow> block_data \<Rightarrow> bool" where
  "checkBlockAttestations cfg b = countCheck (MinAttestationCount cfg) (bdAttestations b)"

definition checkBlockDeposits :: "ProposalsConfig \<Rightarrow> block_data \<Rightarrow> bool" where
  "checkBlockDeposits cfg b =
     (case bdDeposits b of
        Inl e \<Rightarrow> False
      | Inr ds \<Rightarrow> \<not> int (length ds) < MinDepositCount cfg \<and> list_all (\<lambda>pubkey. list_ex (\<lambda>d. d = pubkey) ds) (ExpectDeposits cfg))"

text \<open>The operations that name a validator by index compare its key in the validator set.\<close>

definition keyIs :: "(u64 \<times> string) list \<Rightarrow> string \<Rightarrow> u64 \<Rightarrow> bool" where
  "keyIs vs pubkey i = (case map_of vs i of None \<Rightarrow> False | Some k \<Rightarrow> k = pubkey)"

definition withValidators :: "proposal_libs \<Rightarrow> 'e list \<Rightarrow> ((u64 \<times> string) list \<Rightarrow> 'e \<Rightarrow> bool) \<Rightarrow> bool" where
  "withValidators L expected found =
     (expected = [] \<or> (case plValidators L of None \<Rightarrow> False | Some vs \<Rightarrow> list_all (found vs) expected))"

definition checkBlockExits :: "ProposalsConfig \<Rightarrow> proposal_libs \<Rightarrow> block_data \<Rightarrow> bool" where
  "checkBlockExits cfg L b =
     (case bdVoluntaryExits b of
        Inl e \<Rightarrow> False
      | Inr exits \<Rightarrow> \<not> int (length exits) < MinExitCount cfg \<and>
          withValidators L (ExpectExits cfg) (\<lambda>vs pubkey. list_ex (keyIs vs pubkey) exits))"

definition attesterSlashed ::
    "proposal_libs \<Rightarrow> (u64 \<times> string) list \<Rightarrow> string \<Rightarrow> (string + u64 list) \<times> (string + u64 list) \<Rightarrow> bool" where
  "attesterSlashed L vs pubkey s =
     (case s of (Inr i1, Inr i2) \<Rightarrow> list_ex (keyIs vs pubkey) (plIntersect L i1 i2) | _ \<Rightarrow> False)"

definition checkBlockSlashings :: "ProposalsConfig \<Rightarrow> proposal_libs \<Rightarrow> block_data \<Rightarrow> bool" where
  "checkBlockSlashings cfg L b =
     (case bdAttesterSlashings b of
        Inl e \<Rightarrow> False
      | Inr atts \<Rightarrow>
          (case bdProposerSlashings b of
             Inl e \<Rightarrow> False
           | Inr props \<Rightarrow>
               \<not> int (length atts) + int (length props) < MinSlashingCount cfg \<and>
               withValidators L (ExpectSlashings cfg) (\<lambda>vs e.
                 (esSlashingType e = '''' \<or> esSlashingType e = ''attester'') \<and> list_ex (attesterSlashed L vs (esPublicKey e)) atts \<or>
                 (esSlashingType e = '''' \<or> esSlashingType e = ''proposer'') \<and> list_ex (keyIs vs (esPublicKey e)) props)))"

definition checkBlockAttesterSlashings :: "ProposalsConfig \<Rightarrow> block_data \<Rightarrow> bool" where
  "checkBlockAttesterSlashings cfg b = countCheck (MinAttesterSlashingCount cfg) (map_sum id length (bdAttesterSlashings b))"

definition checkBlockProposerSlashings :: "ProposalsConfig \<Rightarrow> block_data \<Rightarrow> bool" where
  "checkBlockProposerSlashings cfg b = countCheck (MinProposerSlashingCount cfg) (map_sum id length (bdProposerSlashings b))"

text \<open>The first change of the key decides; a wrong address ends the search.\<close>

fun findBlsChange :: "(u64 \<times> string) list \<Rightarrow> ExpectBlsChange \<Rightarrow> (u64 \<times> string) list \<Rightarrow> bool" where
  "findBlsChange vs e [] = False"
| "findBlsChange vs e ((i, address) # cs) =
     (if keyIs vs (ebPublicKey e) i then \<not> (ebAddress e \<noteq> '''' \<and> \<not> EqualFold (ebAddress e) address)
      else findBlsChange vs e cs)"

definition checkBlockBlsChanges :: "ProposalsConfig \<Rightarrow> proposal_libs \<Rightarrow> block_data \<Rightarrow> bool" where
  "checkBlockBlsChanges cfg L b =
     (case bdBlsChanges b of
        Inl e \<Rightarrow> False
      | Inr cs \<Rightarrow> \<not> int (length cs) < MinBlsChangeCount cfg \<and> withValidators L (ExpectBlsChanges cfg) (\<lambda>vs e. findBlsChange vs e cs))"

definition withdrawalFits :: "(u64 \<times> string) list \<Rightarrow> ExpectWithdrawal \<Rightarrow> u64 \<times> string \<times> u64 \<Rightarrow> bool" where
  "withdrawalFits vs e w =
     (case w of (i, address, amount) \<Rightarrow>
        keyIs vs (ewPublicKey e) i \<and>
        \<not> (ewAddress e \<noteq> '''' \<and> \<not> EqualFold (ewAddress e) address) \<and>
        \<not> (case ewMinAmount e of None \<Rightarrow> False | Some m \<Rightarrow> m > 0 \<and> m > uint amount) \<and>
        \<not> (case ewMaxAmount e of None \<Rightarrow> False | Some m \<Rightarrow> m > 0 \<and> m < uint amount))"

definition checkBlockWithdrawals :: "ProposalsConfig \<Rightarrow> proposal_libs \<Rightarrow> block_data \<Rightarrow> bool" where
  "checkBlockWithdrawals cfg L b =
     (case bdWithdrawals b of
        Inl e \<Rightarrow> False
      | Inr ws \<Rightarrow> \<not> int (length ws) < MinWithdrawalCount cfg \<and>
          withValidators L (ExpectWithdrawals cfg) (\<lambda>vs e. list_ex (withdrawalFits vs e) ws))"

definition checkBlockTransactions :: "ProposalsConfig \<Rightarrow> block_data \<Rightarrow> bool" where
  "checkBlockTransactions cfg b = countCheck (MinTransactionCount cfg) (bdTransactions b)"

definition checkBlockBlobs :: "ProposalsConfig \<Rightarrow> block_data \<Rightarrow> bool" where
  "checkBlockBlobs cfg b = countCheck (MinBlobCount cfg) (bdBlobs b)"

text \<open>A deposit request whose key and credentials fit is compared with the expected amount, which may be nil: None.\<close>

fun findDepositRequest :: "proposal_libs \<Rightarrow> ExpectDepositRequest \<Rightarrow> (string \<times> u8 list \<times> u64) list \<Rightarrow> bool option" where
  "findDepositRequest L e [] = Some False"
| "findDepositRequest L e ((pubkey, creds, amount) # ds) =
     (if edPublicKey e = '''' \<or> pubkey = edPublicKey e
      then if edWithdrawalCredentials e \<noteq> '''' \<and> plFromHex L (edWithdrawalCredentials e) \<noteq> creds then findDepositRequest L e ds
           else (case edAmount e of
                   None \<Rightarrow> None
                 | Some a \<Rightarrow> if a > 0 \<and> a \<noteq> uint amount then findDepositRequest L e ds else Some True)
      else findDepositRequest L e ds)"

fun allFound :: "('e \<Rightarrow> bool option) \<Rightarrow> 'e list \<Rightarrow> bool option" where
  "allFound f [] = Some True"
| "allFound f (e # es) = (case f e of None \<Rightarrow> None | Some False \<Rightarrow> Some False | Some True \<Rightarrow> allFound f es)"

definition checkBlockDepositRequests :: "ProposalsConfig \<Rightarrow> proposal_libs \<Rightarrow> block_data \<Rightarrow> bool option" where
  "checkBlockDepositRequests cfg L b =
     (case bdRequests b of
        Inl e \<Rightarrow> Some False
      | Inr rs \<Rightarrow>
          if int (length (reqDeposits rs)) < MinDepositRequestCount cfg then Some False
          else allFound (\<lambda>e. findDepositRequest L e (reqDeposits rs)) (ExpectDepositRequests cfg))"

definition withdrawalRequestFits :: "proposal_libs \<Rightarrow> ExpectWithdrawalRequest \<Rightarrow> u8 list \<times> u8 list \<times> u64 \<Rightarrow> bool" where
  "withdrawalRequestFits L e r =
     (case r of (source, pubkey, amount) \<Rightarrow>
        (erValidatorPubkey e = '''' \<or> pubkey = plFromHex L (erValidatorPubkey e)) \<and>
        \<not> (erSourceAddress e \<noteq> '''' \<and> plFromHex L (erSourceAddress e) \<noteq> source) \<and>
        \<not> (case erAmount e of None \<Rightarrow> False | Some a \<Rightarrow> a \<noteq> uint amount))"

definition checkBlockWithdrawalRequests :: "ProposalsConfig \<Rightarrow> proposal_libs \<Rightarrow> block_data \<Rightarrow> bool" where
  "checkBlockWithdrawalRequests cfg L b =
     (case bdRequests b of
        Inl e \<Rightarrow> False
      | Inr rs \<Rightarrow> \<not> int (length (reqWithdrawals rs)) < MinWithdrawalRequestCount cfg \<and>
          list_all (\<lambda>e. list_ex (withdrawalRequestFits L e) (reqWithdrawals rs)) (ExpectWithdrawalRequests cfg))"

definition consolidationFits :: "proposal_libs \<Rightarrow> ExpectConsolidationRequest \<Rightarrow> u8 list \<times> u8 list \<times> u8 list \<Rightarrow> bool" where
  "consolidationFits L e r =
     (case r of (source, srcKey, tgtKey) \<Rightarrow>
        (ecSourcePubkey e = '''' \<or> srcKey = plFromHex L (ecSourcePubkey e)) \<and>
        \<not> (ecSourceAddress e \<noteq> '''' \<and> plFromHex L (ecSourceAddress e) \<noteq> source) \<and>
        \<not> (ecTargetPubkey e \<noteq> '''' \<and> plFromHex L (ecTargetPubkey e) \<noteq> tgtKey))"

definition checkBlockConsolidationRequests :: "ProposalsConfig \<Rightarrow> proposal_libs \<Rightarrow> block_data \<Rightarrow> bool" where
  "checkBlockConsolidationRequests cfg L b =
     (case bdRequests b of
        Inl e \<Rightarrow> False
      | Inr rs \<Rightarrow> \<not> int (length (reqConsolidations rs)) < MinConsolidationRequestCount cfg \<and>
          list_all (\<lambda>e. list_ex (consolidationFits L e) (reqConsolidations rs)) (ExpectConsolidationRequests cfg))"

text \<open>The checks in the order of the code, each behind its guard.\<close>

fun guarded :: "(bool \<times> bool option) list \<Rightarrow> bool option" where
  "guarded [] = Some True"
| "guarded ((g, r) # cs) = (if g then (case r of None \<Rightarrow> None | Some False \<Rightarrow> Some False | Some True \<Rightarrow> guarded cs) else guarded cs)"

definition checkBlock :: "ProposalsConfig \<Rightarrow> proposal_libs \<Rightarrow> block_data option \<Rightarrow> bool option" where
  "checkBlock cfg L blockData =
     (case blockData of
        None \<Rightarrow> Some False
      | Some b \<Rightarrow> guarded
          [(ValidatorNamePattern cfg \<noteq> '''', Some (checkBlockValidatorName cfg L b)),
           (GraffitiPattern cfg \<noteq> '''', Some (checkBlockGraffiti cfg L b)),
           (ExtraDataPattern cfg \<noteq> '''', Some (checkBlockExtraData cfg L b)),
           (MinAttestationCount cfg > 0, Some (checkBlockAttestations cfg b)),
           (MinDepositCount cfg > 0 \<or> ExpectDeposits cfg \<noteq> [], Some (checkBlockDeposits cfg b)),
           (MinExitCount cfg > 0 \<or> ExpectExits cfg \<noteq> [], Some (checkBlockExits cfg L b)),
           (MinSlashingCount cfg > 0 \<or> ExpectSlashings cfg \<noteq> [], Some (checkBlockSlashings cfg L b)),
           (MinAttesterSlashingCount cfg > 0, Some (checkBlockAttesterSlashings cfg b)),
           (MinProposerSlashingCount cfg > 0, Some (checkBlockProposerSlashings cfg b)),
           (MinBlsChangeCount cfg > 0 \<or> ExpectBlsChanges cfg \<noteq> [], Some (checkBlockBlsChanges cfg L b)),
           (MinWithdrawalCount cfg > 0 \<or> ExpectWithdrawals cfg \<noteq> [], Some (checkBlockWithdrawals cfg L b)),
           (MinTransactionCount cfg > 0, Some (checkBlockTransactions cfg b)),
           (MinBlobCount cfg > 0, Some (checkBlockBlobs cfg b)),
           (MinDepositRequestCount cfg > 0 \<or> ExpectDepositRequests cfg \<noteq> [], checkBlockDepositRequests cfg L b),
           (MinWithdrawalRequestCount cfg > 0 \<or> ExpectWithdrawalRequests cfg \<noteq> [], Some (checkBlockWithdrawalRequests cfg L b)),
           (MinConsolidationRequestCount cfg > 0 \<or> ExpectConsolidationRequests cfg \<noteq> [], Some (checkBlockConsolidationRequests cfg L b))])"

section \<open>The task\<close>

record proposals_task =
  ptMatching :: "nat list"
  ptTotal :: int
  ptCtx :: check_ctx

text \<open>\<open>encHeader\<close> and \<open>encBody\<close> are the JSON values of the header and the body of a block; one that fails is nil.\<close>

definition encoded :: "(nat \<Rightarrow> string + var_value) \<Rightarrow> nat \<Rightarrow> var_value" where
  "encoded enc b = (case enc b of Inl e \<Rightarrow> VNil | Inr v \<Rightarrow> v)"

definition setMatchingBlocksOutput ::
    "(nat \<Rightarrow> string) \<Rightarrow> (nat \<Rightarrow> string + var_value) \<Rightarrow> (nat \<Rightarrow> string + var_value) \<Rightarrow> nat list \<Rightarrow> check_ctx \<Rightarrow> check_ctx" where
  "setMatchingBlocksOutput rootStr encHeader encBody bs c =
     setOutput ''matchingBlockBodies'' (VSlice (map (encoded encBody) bs))
       (setOutput ''matchingBlockHeaders'' (VSlice (map (encoded encHeader) bs))
          (setOutput ''matchingBlockRoots'' (VSlice (map (VStr \<circ> rootStr) bs)) c))"

definition checkBlockMatch ::
    "ProposalsConfig \<Rightarrow> (nat list \<Rightarrow> check_ctx \<Rightarrow> check_ctx) \<Rightarrow> nat \<Rightarrow> bool \<Rightarrow> proposals_task \<Rightarrow> bool \<times> proposals_task" where
  "checkBlockMatch cfg output b matches t =
     (let t1 = (if matches then t\<lparr>ptMatching := ptMatching t @ [b], ptTotal := ptTotal t + 1\<rparr> else t)
      in if BlockCount cfg > 0
         then if ptTotal t1 \<ge> BlockCount cfg
              then (True, t1\<lparr>ptCtx := ctxSetResult TaskResultSuccess (output (ptMatching t1) (ptCtx t1))\<rparr>)
              else (False, t1)
         else (False, t1\<lparr>ptCtx := ctxSetResult (if matches then TaskResultSuccess else TaskResultNone) (ptCtx t1)\<rparr>))"

text \<open>The newest block and its ancestors, as many as asked for.\<close>

fun lookbackBlocks :: "('b, 'v) cl_cache \<Rightarrow> nat \<Rightarrow> nat \<Rightarrow> nat list" where
  "lookbackBlocks c 0 b = [b]"
| "lookbackBlocks c (Suc k) b =
     b # (case GetParentRoot (blockStore c ! b) of
            None \<Rightarrow> []
          | Some r \<Rightarrow> (case GetCachedBlockByRoot c r of None \<Rightarrow> [] | Some p \<Rightarrow> lookbackBlocks c k p))"

definition initialBlocks :: "ProposalsConfig \<Rightarrow> ('b, 'v) cl_cache \<Rightarrow> nat list" where
  "initialBlocks cfg c =
     (if CheckLookback cfg > 0
      then (case GetCachedBlocks c of [] \<Rightarrow> [] | b # bs \<Rightarrow> rev (lookbackBlocks c (nat (CheckLookback cfg) - 1) b))
      else [])"

text \<open>
  The blocks in the order they are checked, \<open>matched\<close> being the answer of \<open>checkBlock\<close> for each: the task ends when
  one of them completes the count, else it goes on.
\<close>

fun checkBlocks ::
    "ProposalsConfig \<Rightarrow> (nat list \<Rightarrow> check_ctx \<Rightarrow> check_ctx) \<Rightarrow> (nat \<Rightarrow> bool option) \<Rightarrow> nat list \<Rightarrow> proposals_task \<Rightarrow>
     (bool \<times> proposals_task) option" where
  "checkBlocks cfg output matched [] t = Some (False, t)"
| "checkBlocks cfg output matched (b # bs) t =
     (case matched b of
        None \<Rightarrow> None
      | Some m \<Rightarrow>
          (case checkBlockMatch cfg output b m t of
             (True, t1) \<Rightarrow> Some (True, t1)
           | (False, t1) \<Rightarrow> checkBlocks cfg output matched bs t1))"

text \<open>The return value is nil when the count was reached, else the error of the context that ended the loop.\<close>

definition proposalsExecute ::
    "ProposalsConfig \<Rightarrow> (nat list \<Rightarrow> check_ctx \<Rightarrow> check_ctx) \<Rightarrow> (nat \<Rightarrow> bool option) \<Rightarrow> ('b, 'v) cl_cache \<Rightarrow> nat list \<Rightarrow> go_error \<Rightarrow>
     check_ctx \<Rightarrow> (go_error \<times> proposals_task) option" where
  "proposalsExecute cfg output matched c events ctxErr ctx =
     map_option (\<lambda>(ended, t). (if ended then None else ctxErr, t))
       (checkBlocks cfg output matched (initialBlocks cfg c @ events) \<lparr>ptMatching = [], ptTotal = 0, ptCtx = ctx\<rparr>)"

section \<open>What a match means\<close>

lemma guarded_True: "guarded cs = Some True \<longleftrightarrow> (\<forall>(g, r) \<in> set cs. g \<longrightarrow> r = Some True)"
  by (induction cs rule: guarded.induct) (auto split: option.splits bool.splits)

lemma guarded_defined: "\<forall>(g, r) \<in> set cs. r \<noteq> None \<Longrightarrow> guarded cs \<noteq> None"
  by (induction cs rule: guarded.induct) (auto split: option.splits bool.splits)

lemma allFound_True: "allFound f es = Some True \<longleftrightarrow> (\<forall>e \<in> set es. f e = Some True)"
  by (induction es) (auto split: option.splits bool.splits)

text \<open>What the configuration asks of a block, without guards, flags and loops.\<close>

definition atLeast :: "int \<Rightarrow> string + nat \<Rightarrow> bool" where
  "atLeast mn n \<longleftrightarrow> (mn > 0 \<longrightarrow> (\<exists>k. n = Inr k \<and> mn \<le> int k))"

definition patternMet :: "proposal_libs \<Rightarrow> string \<Rightarrow> string + string \<Rightarrow> bool" where
  "patternMet L pat txt \<longleftrightarrow> (pat \<noteq> '''' \<longrightarrow> (\<exists>s. txt = Inr s \<and> plMatch L pat s = Inr True))"

definition keyAt :: "proposal_libs \<Rightarrow> u64 \<Rightarrow> string \<Rightarrow> bool" where
  "keyAt L i pubkey \<longleftrightarrow> (\<exists>vs. plValidators L = Some vs \<and> map_of vs i = Some pubkey)"

definition slashingMet :: "proposal_libs \<Rightarrow> block_data \<Rightarrow> ExpectSlashing \<Rightarrow> bool" where
  "slashingMet L b e \<longleftrightarrow> (\<exists>i atts props. bdAttesterSlashings b = Inr atts \<and> bdProposerSlashings b = Inr props \<and> keyAt L i (esPublicKey e) \<and>
     (esSlashingType e \<in> {'''', ''attester''} \<and> (\<exists>i1 i2. (Inr i1, Inr i2) \<in> set atts \<and> i \<in> set i1 \<inter> set i2) \<or>
      esSlashingType e \<in> {'''', ''proposer''} \<and> i \<in> set props))"

definition blsChangeMet :: "proposal_libs \<Rightarrow> block_data \<Rightarrow> ExpectBlsChange \<Rightarrow> bool" where
  "blsChangeMet L b e \<longleftrightarrow> (\<exists>cs vs i address. bdBlsChanges b = Inr cs \<and> plValidators L = Some vs \<and>
     find (\<lambda>(i, address). keyIs vs (ebPublicKey e) i) cs = Some (i, address) \<and> (ebAddress e = '''' \<or> EqualFold (ebAddress e) address))"

definition withdrawalMet :: "proposal_libs \<Rightarrow> block_data \<Rightarrow> ExpectWithdrawal \<Rightarrow> bool" where
  "withdrawalMet L b e \<longleftrightarrow> (\<exists>ws i address amount. bdWithdrawals b = Inr ws \<and> (i, address, amount) \<in> set ws \<and> keyAt L i (ewPublicKey e) \<and>
     (ewAddress e = '''' \<or> EqualFold (ewAddress e) address) \<and>
     (\<forall>m. ewMinAmount e = Some m \<longrightarrow> m \<le> uint amount) \<and> (\<forall>m. ewMaxAmount e = Some m \<and> m > 0 \<longrightarrow> uint amount \<le> m))"

text \<open>An amount is compared if it is given and positive.\<close>

definition depositRequestMet :: "proposal_libs \<Rightarrow> block_data \<Rightarrow> ExpectDepositRequest \<Rightarrow> bool" where
  "depositRequestMet L b e \<longleftrightarrow> (\<exists>rs pubkey creds amount. bdRequests b = Inr rs \<and> (pubkey, creds, amount) \<in> set (reqDeposits rs) \<and>
     (edPublicKey e = '''' \<or> pubkey = edPublicKey e) \<and> (edWithdrawalCredentials e = '''' \<or> plFromHex L (edWithdrawalCredentials e) = creds) \<and>
     (\<forall>a. edAmount e = Some a \<and> a > 0 \<longrightarrow> a = uint amount))"

definition withdrawalRequestMet :: "proposal_libs \<Rightarrow> block_data \<Rightarrow> ExpectWithdrawalRequest \<Rightarrow> bool" where
  "withdrawalRequestMet L b e \<longleftrightarrow> (\<exists>rs source pubkey amount. bdRequests b = Inr rs \<and> (source, pubkey, amount) \<in> set (reqWithdrawals rs) \<and>
     (erValidatorPubkey e = '''' \<or> pubkey = plFromHex L (erValidatorPubkey e)) \<and>
     (erSourceAddress e = '''' \<or> source = plFromHex L (erSourceAddress e)) \<and> (\<forall>a. erAmount e = Some a \<longrightarrow> a = uint amount))"

definition consolidationMet :: "proposal_libs \<Rightarrow> block_data \<Rightarrow> ExpectConsolidationRequest \<Rightarrow> bool" where
  "consolidationMet L b e \<longleftrightarrow> (\<exists>rs source srcKey tgtKey. bdRequests b = Inr rs \<and> (source, srcKey, tgtKey) \<in> set (reqConsolidations rs) \<and>
     (ecSourcePubkey e = '''' \<or> srcKey = plFromHex L (ecSourcePubkey e)) \<and>
     (ecSourceAddress e = '''' \<or> source = plFromHex L (ecSourceAddress e)) \<and>
     (ecTargetPubkey e = '''' \<or> tgtKey = plFromHex L (ecTargetPubkey e)))"

text \<open>The extra data of a block's execution payload, which blocks have from Bellatrix on.\<close>

definition payloadExtra :: "block_data \<Rightarrow> string + string" where
  "payloadExtra b =
     (if bdVersion b \<in> {DataVersionPhase0, DataVersionAltair} then Inl ''no payload''
      else case bdPayloadExtra b of None \<Rightarrow> Inl ''no payload'' | Some d \<Rightarrow> Inr d)"

definition blockMeets :: "ProposalsConfig \<Rightarrow> proposal_libs \<Rightarrow> block_data \<Rightarrow> bool" where
  "blockMeets cfg L b \<longleftrightarrow>
     patternMet L (ValidatorNamePattern cfg) (map_sum id (plName L) (bdProposerIndex b)) \<and>
     patternMet L (GraffitiPattern cfg) (bdGraffiti b) \<and> patternMet L (ExtraDataPattern cfg) (payloadExtra b) \<and>
     atLeast (MinAttestationCount cfg) (bdAttestations b) \<and>
     (atLeast (MinDepositCount cfg) (map_sum id length (bdDeposits b)) \<and>
      (\<forall>pubkey \<in> set (ExpectDeposits cfg). \<exists>ds. bdDeposits b = Inr ds \<and> pubkey \<in> set ds)) \<and>
     (atLeast (MinExitCount cfg) (map_sum id length (bdVoluntaryExits b)) \<and>
      (\<forall>pubkey \<in> set (ExpectExits cfg). \<exists>es i. bdVoluntaryExits b = Inr es \<and> i \<in> set es \<and> keyAt L i pubkey)) \<and>
     (atLeast (MinSlashingCount cfg) (case (bdAttesterSlashings b, bdProposerSlashings b) of
          (Inr xs, Inr ys) \<Rightarrow> Inr (length xs + length ys) | _ \<Rightarrow> Inl '''') \<and> (\<forall>e \<in> set (ExpectSlashings cfg). slashingMet L b e)) \<and>
     atLeast (MinAttesterSlashingCount cfg) (map_sum id length (bdAttesterSlashings b)) \<and>
     atLeast (MinProposerSlashingCount cfg) (map_sum id length (bdProposerSlashings b)) \<and>
     (atLeast (MinBlsChangeCount cfg) (map_sum id length (bdBlsChanges b)) \<and> (\<forall>e \<in> set (ExpectBlsChanges cfg). blsChangeMet L b e)) \<and>
     (atLeast (MinWithdrawalCount cfg) (map_sum id length (bdWithdrawals b)) \<and> (\<forall>e \<in> set (ExpectWithdrawals cfg). withdrawalMet L b e)) \<and>
     atLeast (MinTransactionCount cfg) (bdTransactions b) \<and> atLeast (MinBlobCount cfg) (bdBlobs b) \<and>
     (atLeast (MinDepositRequestCount cfg) (map_sum id (length \<circ> reqDeposits) (bdRequests b)) \<and>
      (\<forall>e \<in> set (ExpectDepositRequests cfg). depositRequestMet L b e)) \<and>
     (atLeast (MinWithdrawalRequestCount cfg) (map_sum id (length \<circ> reqWithdrawals) (bdRequests b)) \<and>
      (\<forall>e \<in> set (ExpectWithdrawalRequests cfg). withdrawalRequestMet L b e)) \<and>
     (atLeast (MinConsolidationRequestCount cfg) (map_sum id (length \<circ> reqConsolidations) (bdRequests b)) \<and>
      (\<forall>e \<in> set (ExpectConsolidationRequests cfg). consolidationMet L b e))"

text \<open>Each check against its part of the specification, behind its guard.\<close>

lemma patternCheck_met: "(pat \<noteq> '''' \<longrightarrow> patternCheck L pat txt) = patternMet L pat txt"
  by (cases "txt") (auto simp: patternCheck_def patternMet_def split: sum.splits)

lemma countCheck_met: "(mn > 0 \<longrightarrow> countCheck mn n) = atLeast mn n"
  by (cases n) (auto simp: countCheck_def atLeast_def)

lemma keyIs_at: "plValidators L = Some vs \<Longrightarrow> keyIs vs pubkey i = keyAt L i pubkey"
  by (auto simp: keyIs_def keyAt_def split: option.splits)

lemma withValidators_met:
  "withValidators L es found = (\<forall>e \<in> set es. \<exists>vs. plValidators L = Some vs \<and> found vs e)"
  by (cases "plValidators L"; cases es) (auto simp: withValidators_def list_all_iff)

text \<open>Only the extra data of Electra blocks is not found.\<close>

lemma extraData_met:
  assumes "ExtraDataPattern cfg = '''' \<or> bdVersion b \<noteq> DataVersionElectra"
  shows "patternMet L (ExtraDataPattern cfg) (GetExecutionExtraData b) = patternMet L (ExtraDataPattern cfg) (payloadExtra b)"
  using assms by (cases "bdVersion b") (auto simp: patternMet_def GetExecutionExtraData_def payloadExtra_def split: option.splits)

lemma deposits_met: "(MinDepositCount cfg > 0 \<or> ExpectDeposits cfg \<noteq> [] \<longrightarrow> checkBlockDeposits cfg b) =
    (atLeast (MinDepositCount cfg) (map_sum id length (bdDeposits b)) \<and>
     (\<forall>pubkey \<in> set (ExpectDeposits cfg). \<exists>ds. bdDeposits b = Inr ds \<and> pubkey \<in> set ds))"
  by (cases "bdDeposits b"; cases "ExpectDeposits cfg")
     (auto simp: checkBlockDeposits_def atLeast_def list_all_iff list_ex_iff)

lemma exits_met: "(MinExitCount cfg > 0 \<or> ExpectExits cfg \<noteq> [] \<longrightarrow> checkBlockExits cfg L b) =
    (atLeast (MinExitCount cfg) (map_sum id length (bdVoluntaryExits b)) \<and>
     (\<forall>pubkey \<in> set (ExpectExits cfg). \<exists>es i. bdVoluntaryExits b = Inr es \<and> i \<in> set es \<and> keyAt L i pubkey))"
proof (cases "bdVoluntaryExits b")
  case (Inr es)
  have "(\<exists>vs. plValidators L = Some vs \<and> list_ex (keyIs vs pubkey) es) = (\<exists>i \<in> set es. keyAt L i pubkey)" for pubkey
  proof (cases "plValidators L")
    case (Some vs)
    then show ?thesis by (simp add: list_ex_iff keyIs_at [OF Some])
  qed (simp add: keyAt_def)
  then show ?thesis using Inr by (cases "ExpectExits cfg") (auto simp: checkBlockExits_def atLeast_def withValidators_met)
next
  case (Inl e)
  then show ?thesis by (cases "ExpectExits cfg") (auto simp: checkBlockExits_def atLeast_def)
qed

lemma slashing_found:
  assumes "\<And>xs ys. set (plIntersect L xs ys) = set xs \<inter> set ys"
    and "bdAttesterSlashings b = Inr atts" "bdProposerSlashings b = Inr props"
  shows "(\<exists>vs. plValidators L = Some vs \<and>
      ((esSlashingType e = '''' \<or> esSlashingType e = ''attester'') \<and> list_ex (attesterSlashed L vs (esPublicKey e)) atts \<or>
       (esSlashingType e = '''' \<or> esSlashingType e = ''proposer'') \<and> list_ex (keyIs vs (esPublicKey e)) props)) = slashingMet L b e"
proof (cases "plValidators L")
  case (Some vs)
  have slashed: "attesterSlashed L vs (esPublicKey e) (a1, a2) =
      (\<exists>i i1 i2. a1 = Inr i1 \<and> a2 = Inr i2 \<and> i \<in> set i1 \<inter> set i2 \<and> keyAt L i (esPublicKey e))" for a1 a2
    by (cases a1; cases a2) (auto simp: attesterSlashed_def assms(1) list_ex_iff keyIs_at [OF Some])
  have "list_ex (attesterSlashed L vs (esPublicKey e)) atts =
      (\<exists>i i1 i2. (Inr i1, Inr i2) \<in> set atts \<and> i \<in> set i1 \<inter> set i2 \<and> keyAt L i (esPublicKey e))"
    unfolding list_ex_iff Bex_def split_paired_Ex slashed by auto (intro exI conjI, assumption, rule refl, rule refl, assumption+)
  moreover have "list_ex (keyIs vs (esPublicKey e)) props = (\<exists>i \<in> set props. keyAt L i (esPublicKey e))"
    by (simp add: list_ex_iff keyIs_at [OF Some])
  moreover have "slashingMet L b e = (\<exists>i. keyAt L i (esPublicKey e) \<and>
     ((esSlashingType e = '''' \<or> esSlashingType e = ''attester'') \<and> (\<exists>i1 i2. (Inr i1, Inr i2) \<in> set atts \<and> i \<in> set i1 \<inter> set i2) \<or>
      (esSlashingType e = '''' \<or> esSlashingType e = ''proposer'') \<and> i \<in> set props))"
    by (simp add: slashingMet_def assms(2,3))
  ultimately show ?thesis unfolding Some option.inject by meson
qed (simp add: slashingMet_def keyAt_def)

lemma slashings_met:
  assumes "\<And>xs ys. set (plIntersect L xs ys) = set xs \<inter> set ys"
  shows "(MinSlashingCount cfg > 0 \<or> ExpectSlashings cfg \<noteq> [] \<longrightarrow> checkBlockSlashings cfg L b) =
    (atLeast (MinSlashingCount cfg) (case (bdAttesterSlashings b, bdProposerSlashings b) of
          (Inr xs, Inr ys) \<Rightarrow> Inr (length xs + length ys) | _ \<Rightarrow> Inl '''') \<and> (\<forall>e \<in> set (ExpectSlashings cfg). slashingMet L b e))"
proof (cases "\<exists>atts props. bdAttesterSlashings b = Inr atts \<and> bdProposerSlashings b = Inr props")
  case True
  then obtain atts props where s: "bdAttesterSlashings b = Inr atts" "bdProposerSlashings b = Inr props" by blast
  show ?thesis
    using s by (cases "ExpectSlashings cfg")
      (auto simp: checkBlockSlashings_def withValidators_met slashing_found [OF assms s] atLeast_def)
next
  case False
  then have n: "\<not> checkBlockSlashings cfg L b" "\<not> slashingMet L b e" for e
    by (auto simp: checkBlockSlashings_def slashingMet_def split: sum.splits)
  have c: "(case (bdAttesterSlashings b, bdProposerSlashings b) of
          (Inr xs, Inr ys) \<Rightarrow> Inr (length xs + length ys) | _ \<Rightarrow> Inl '''') = (Inl '''' :: string + nat)"
    using False by (auto split: sum.splits)
  show ?thesis unfolding c using n by (cases "ExpectSlashings cfg") (auto simp: atLeast_def)
qed

lemma findBlsChange_find:
  "findBlsChange vs e cs = (\<exists>i address. find (\<lambda>(i, address). keyIs vs (ebPublicKey e) i) cs = Some (i, address) \<and>
     (ebAddress e = '''' \<or> EqualFold (ebAddress e) address))"
  by (induction vs e cs rule: findBlsChange.induct) auto

lemma blsChanges_met: "(MinBlsChangeCount cfg > 0 \<or> ExpectBlsChanges cfg \<noteq> [] \<longrightarrow> checkBlockBlsChanges cfg L b) =
    (atLeast (MinBlsChangeCount cfg) (map_sum id length (bdBlsChanges b)) \<and> (\<forall>e \<in> set (ExpectBlsChanges cfg). blsChangeMet L b e))"
  by (cases "bdBlsChanges b"; cases "ExpectBlsChanges cfg")
     (auto simp: checkBlockBlsChanges_def withValidators_met findBlsChange_find atLeast_def blsChangeMet_def)

lemma withdrawal_found:
  assumes "bdWithdrawals b = Inr ws"
  shows "(\<exists>vs. plValidators L = Some vs \<and> list_ex (withdrawalFits vs e) ws) = withdrawalMet L b e"
proof (cases "plValidators L")
  case (Some vs)
  have mn: "(case ewMinAmount e of None \<Rightarrow> False | Some m \<Rightarrow> m > 0 \<and> m > uint amount) = (\<exists>m. ewMinAmount e = Some m \<and> \<not> m \<le> uint amount)"
    for amount :: u64
  proof (cases "ewMinAmount e")
    case (Some m)
    then show ?thesis by (auto simp: not_le intro: order.strict_trans1 [OF uint_ge_0])
  qed simp
  have mx: "(case ewMaxAmount e of None \<Rightarrow> False | Some m \<Rightarrow> m > 0 \<and> m < uint amount) = (\<exists>m. ewMaxAmount e = Some m \<and> m > 0 \<and> \<not> uint amount \<le> m)"
    for amount :: u64 by (cases "ewMaxAmount e") (simp_all add: not_le)
  have fits: "withdrawalFits vs e (i, address, amount) = (keyAt L i (ewPublicKey e) \<and> (ewAddress e = '''' \<or> EqualFold (ewAddress e) address) \<and>
     (\<forall>m. ewMinAmount e = Some m \<longrightarrow> m \<le> uint amount) \<and> (\<forall>m. ewMaxAmount e = Some m \<and> m > 0 \<longrightarrow> uint amount \<le> m))" for i address amount
    unfolding withdrawalFits_def prod.case mn mx keyIs_at [OF Some] by blast
  show ?thesis unfolding withdrawalMet_def list_ex_iff Bex_def split_paired_Ex assms Some by (simp add: fits)
qed (simp add: withdrawalMet_def keyAt_def)

lemma withdrawals_met: "(MinWithdrawalCount cfg > 0 \<or> ExpectWithdrawals cfg \<noteq> [] \<longrightarrow> checkBlockWithdrawals cfg L b) =
    (atLeast (MinWithdrawalCount cfg) (map_sum id length (bdWithdrawals b)) \<and> (\<forall>e \<in> set (ExpectWithdrawals cfg). withdrawalMet L b e))"
proof (cases "bdWithdrawals b")
  case (Inr ws)
  then show ?thesis
    by (cases "ExpectWithdrawals cfg") (auto simp: checkBlockWithdrawals_def withValidators_met withdrawal_found [OF Inr] atLeast_def)
next
  case (Inl e)
  then show ?thesis by (cases "ExpectWithdrawals cfg") (auto simp: checkBlockWithdrawals_def atLeast_def withdrawalMet_def)
qed

definition depositFits :: "proposal_libs \<Rightarrow> ExpectDepositRequest \<Rightarrow> string \<times> u8 list \<times> u64 \<Rightarrow> bool" where
  "depositFits L e d \<longleftrightarrow> (case d of (pubkey, creds, amount) \<Rightarrow> (edPublicKey e = '''' \<or> pubkey = edPublicKey e) \<and>
     (edWithdrawalCredentials e = '''' \<or> plFromHex L (edWithdrawalCredentials e) = creds) \<and> (\<forall>a. edAmount e = Some a \<and> a > 0 \<longrightarrow> a = uint amount))"

lemma findDepositRequest_ex:
  assumes "edAmount e \<noteq> None"
  shows "findDepositRequest L e ds = Some True \<longleftrightarrow> (\<exists>d \<in> set ds. depositFits L e d)"
proof (induction ds)
  case (Cons d ds)
  obtain a where a: "edAmount e = Some a" using assms by blast
  obtain pubkey creds amount where d: "d = (pubkey, creds, amount)" by (metis prod_cases3)
  have "findDepositRequest L e (d # ds) = Some True \<longleftrightarrow> depositFits L e d \<or> findDepositRequest L e ds = Some True"
    by (simp add: d a depositFits_def)
  with Cons show ?case by simp
qed simp

lemma findDepositRequest_met:
  assumes "bdRequests b = Inr rs" "edAmount e \<noteq> None"
  shows "findDepositRequest L e (reqDeposits rs) = Some True \<longleftrightarrow> depositRequestMet L b e"
  unfolding findDepositRequest_ex [OF assms(2)] depositRequestMet_def assms(1) Bex_def split_paired_Ex depositFits_def by auto

lemma depositRequests_met:
  assumes "\<forall>e \<in> set (ExpectDepositRequests cfg). edAmount e \<noteq> None"
  shows "(MinDepositRequestCount cfg > 0 \<or> ExpectDepositRequests cfg \<noteq> [] \<longrightarrow> checkBlockDepositRequests cfg L b = Some True) =
    (atLeast (MinDepositRequestCount cfg) (map_sum id (length \<circ> reqDeposits) (bdRequests b)) \<and>
     (\<forall>e \<in> set (ExpectDepositRequests cfg). depositRequestMet L b e))"
proof (cases "bdRequests b")
  case (Inr rs)
  have "checkBlockDepositRequests cfg L b = Some True \<longleftrightarrow>
      \<not> int (length (reqDeposits rs)) < MinDepositRequestCount cfg \<and> (\<forall>e \<in> set (ExpectDepositRequests cfg). depositRequestMet L b e)"
    using assms findDepositRequest_met [OF Inr] by (simp add: checkBlockDepositRequests_def Inr allFound_True)
  with Inr show ?thesis by (cases "ExpectDepositRequests cfg") (auto simp: atLeast_def)
next
  case (Inl e)
  then show ?thesis
    by (cases "ExpectDepositRequests cfg") (auto simp: checkBlockDepositRequests_def atLeast_def depositRequestMet_def)
qed

lemma withdrawalRequests_met: "(MinWithdrawalRequestCount cfg > 0 \<or> ExpectWithdrawalRequests cfg \<noteq> [] \<longrightarrow> checkBlockWithdrawalRequests cfg L b) =
    (atLeast (MinWithdrawalRequestCount cfg) (map_sum id (length \<circ> reqWithdrawals) (bdRequests b)) \<and>
     (\<forall>e \<in> set (ExpectWithdrawalRequests cfg). withdrawalRequestMet L b e))"
proof (cases "bdRequests b")
  case (Inr rs)
  have am: "(case erAmount e of None \<Rightarrow> False | Some a \<Rightarrow> a \<noteq> uint amount) = (\<not> (\<forall>a. erAmount e = Some a \<longrightarrow> a = uint amount))" for e and amount :: u64
    by (cases "erAmount e") simp_all
  have "list_ex (withdrawalRequestFits L e) (reqWithdrawals rs) = withdrawalRequestMet L b e" for e
    unfolding withdrawalRequestMet_def list_ex_iff Bex_def split_paired_Ex withdrawalRequestFits_def prod.case am Inr by blast
  then show ?thesis
    using Inr by (cases "ExpectWithdrawalRequests cfg") (auto simp: checkBlockWithdrawalRequests_def list_all_iff atLeast_def)
next
  case (Inl e)
  then show ?thesis
    by (cases "ExpectWithdrawalRequests cfg") (auto simp: checkBlockWithdrawalRequests_def atLeast_def withdrawalRequestMet_def)
qed

lemma consolidationRequests_met:
  "(MinConsolidationRequestCount cfg > 0 \<or> ExpectConsolidationRequests cfg \<noteq> [] \<longrightarrow> checkBlockConsolidationRequests cfg L b) =
    (atLeast (MinConsolidationRequestCount cfg) (map_sum id (length \<circ> reqConsolidations) (bdRequests b)) \<and>
     (\<forall>e \<in> set (ExpectConsolidationRequests cfg). consolidationMet L b e))"
proof (cases "bdRequests b")
  case (Inr rs)
  have "list_ex (consolidationFits L e) (reqConsolidations rs) = consolidationMet L b e" for e
    unfolding consolidationMet_def list_ex_iff Bex_def split_paired_Ex consolidationFits_def prod.case Inr by blast
  then show ?thesis
    using Inr by (cases "ExpectConsolidationRequests cfg") (auto simp: checkBlockConsolidationRequests_def list_all_iff atLeast_def)
next
  case (Inl e)
  then show ?thesis
    by (cases "ExpectConsolidationRequests cfg") (auto simp: checkBlockConsolidationRequests_def atLeast_def consolidationMet_def)
qed

lemmas checks_met = deposits_met exits_met blsChanges_met withdrawals_met withdrawalRequests_met
  consolidationRequests_met patternCheck_met countCheck_met

lemma case_map_sum: "(case x of Inl e \<Rightarrow> Inl e | Inr i \<Rightarrow> Inr (f i)) = map_sum id f x"
  by (cases x) simp_all

text \<open>
  C32. A block matches the configuration exactly when it meets every stated expectation, with two exceptions the code does not handle: an extra data pattern on Electra blocks, whose
  extra data it does not find, and expected deposit requests without an amount, which panic. Sixteen guarded checks, with their early returns,
  the validator lookups and the loops over the block's operations, decide the declarative \<open>blockMeets\<close>: patterns match, counts reach
  their minima and each expected deposit, exit, slashing, credential change, withdrawal, deposit request, withdrawal request and
  consolidation is among the block's operations. The intersection library is assumed to intersect.
\<close>

theorem checkBlock_iff:
  assumes "\<And>xs ys. set (plIntersect L xs ys) = set xs \<inter> set ys"
    and "ExtraDataPattern cfg = '''' \<or> bdVersion b \<noteq> DataVersionElectra" "\<forall>e \<in> set (ExpectDepositRequests cfg). edAmount e \<noteq> None"
  shows "checkBlock cfg L (Some b) = Some True \<longleftrightarrow> blockMeets cfg L b"
  unfolding checkBlock_def option.case guarded_True blockMeets_def list.set ball_simps prod.case option.inject eq_True
    checkBlockValidatorName_def checkBlockGraffiti_def checkBlockExtraData_def checkBlockAttestations_def
    checkBlockAttesterSlashings_def checkBlockProposerSlashings_def checkBlockTransactions_def checkBlockBlobs_def
    checks_met depositRequests_met [OF assms(3)] extraData_met [OF assms(2)] slashings_met [OF assms(1)] case_map_sum
  by (simp only: simp_thms ball_simps empty_iff)

text \<open>On an Electra block a pattern that its extra data matches fails.\<close>

lemma electra_extra_data_missed:
  assumes "bdVersion b = DataVersionElectra" "ExtraDataPattern cfg \<noteq> ''''"
  shows "\<not> checkBlockExtraData cfg L b"
  using assms by (simp add: checkBlockExtraData_def GetExecutionExtraData_def patternCheck_def)

text \<open>A library, a block with a deposit and a slashed attester, and a configuration that asks for both.\<close>

definition plainLibs :: proposal_libs where
  "plainLibs = \<lparr>plMatch = (\<lambda>p s. Inr (p = s)), plFromHex = (\<lambda>s. []), plName = (\<lambda>i. ''validator''),
     plIntersect = (\<lambda>xs ys. filter (\<lambda>x. x \<in> set ys) xs), plValidators = Some [(1, ''0x01''), (2, ''0x02'')]\<rparr>"

definition plainBlock :: block_data where
  "plainBlock = \<lparr>bdVersion = DataVersionDeneb, bdPayloadExtra = Some ''x'', bdGraffiti = Inr ''graffiti'', bdProposerIndex = Inr 1,
     bdAttestations = Inr 3, bdDeposits = Inr [''0x05''], bdVoluntaryExits = Inr [],
     bdAttesterSlashings = Inr [(Inr [1, 2], Inr [2, 3])], bdProposerSlashings = Inr [], bdBlsChanges = Inr [], bdWithdrawals = Inr [],
     bdTransactions = Inr 0, bdBlobs = Inr 0, bdRequests = Inl ''no requests''\<rparr>"

definition plainProposals :: ProposalsConfig where
  "plainProposals = proposalsDefault\<lparr>GraffitiPattern := ''graffiti'', MinAttestationCount := 2, ExpectDeposits := [''0x05''],
     ExpectSlashings := [\<lparr>esPublicKey = ''0x02'', esSlashingType = ''attester''\<rparr>]\<rparr>"

lemma plainProposals_match: "checkBlock plainProposals plainLibs (Some plainBlock) = Some True"
  by code_simp

theorem checkBlock_iff_witness: "blockMeets plainProposals plainLibs plainBlock"
  using checkBlock_iff [of plainLibs plainProposals plainBlock] plainProposals_match by (auto simp: plainLibs_def plainProposals_def proposalsDefault_def)

section \<open>How many blocks the task waits for\<close>

lemma checkBlocks_count:
  assumes "int (length (ptMatching t)) < BlockCount cfg" "ptTotal t = int (length (ptMatching t))"
    "\<And>b. b \<in> set bs \<Longrightarrow> matched b = Some (m b)"
  shows "checkBlocks cfg output matched bs t =
    (let hits = ptMatching t @ filter m bs; n = nat (BlockCount cfg)
     in if n \<le> length hits
        then Some (True, t\<lparr>ptMatching := take n hits, ptTotal := BlockCount cfg,
               ptCtx := ctxSetResult TaskResultSuccess (output (take n hits) (ptCtx t))\<rparr>)
        else Some (False, t\<lparr>ptMatching := hits, ptTotal := int (length hits)\<rparr>))"
  using assms
proof (induction bs arbitrary: t)
  case Nil
  then show ?case by (simp add: Let_def)
next
  case (Cons b bs)
  show ?case
  proof (cases "m b \<and> BlockCount cfg \<le> int (length (ptMatching t)) + 1")
    case True
    with Cons.prems have n: "BlockCount cfg = int (length (ptMatching t)) + 1" by simp
    then have "nat (BlockCount cfg) = Suc (length (ptMatching t))" by simp
    with True n Cons.prems show ?thesis by (simp add: checkBlockMatch_def Let_def)
  next
    case False
    with Cons show ?thesis by (cases "m b") (simp_all add: checkBlockMatch_def Let_def)
  qed
qed

text \<open>
  With a block count of one or more the task ends successfully exactly when that many of the blocks it saw, the lookback blocks and
  then the blocks of the cluster in order, match; its outputs then name the first so many matching blocks. Otherwise it keeps
  waiting and returns the error of its context, with no result set.
\<close>

theorem proposalsExecute_counts:
  assumes "BlockCount cfg > 0" "\<And>b. b \<in> set (initialBlocks cfg c @ events) \<Longrightarrow> matched b = Some (m b)"
    "hits = filter m (initialBlocks cfg c @ events)" "n = nat (BlockCount cfg)"
  shows "proposalsExecute cfg output matched c events ctxErr ctx =
    Some (if n \<le> length hits
          then (None, \<lparr>ptMatching = take n hits, ptTotal = BlockCount cfg, ptCtx = ctxSetResult TaskResultSuccess (output (take n hits) ctx)\<rparr>)
          else (ctxErr, \<lparr>ptMatching = hits, ptTotal = int (length hits), ptCtx = ctx\<rparr>))"
  using assms(1) unfolding proposalsExecute_def assms(3,4)
  by (subst checkBlocks_count [where m = m]) (use assms(2) in \<open>auto simp: Let_def\<close>)

theorem proposalsExecute_counts_witness:
  "map_option (ptMatching \<circ> snd) (proposalsExecute (proposalsDefault\<lparr>CheckLookback := 0, BlockCount := 2\<rparr>) (\<lambda>bs c. c) (\<lambda>b. Some (odd b))
     (projr (clNewBlockCache 4) :: (unit, unit) cl_cache) [1, 2, 3, 5] None \<lparr>ccResult = TaskResultNone, ccOutputs = [], ccVars = []\<rparr>) = Some [1, 3]"
  using proposalsExecute_counts [where cfg = "proposalsDefault\<lparr>CheckLookback := 0, BlockCount := 2\<rparr>" and m = odd
     and events = "[1, 2, 3, 5]" and matched = "\<lambda>b. Some (odd b)" and c = "projr (clNewBlockCache 4) :: (unit, unit) cl_cache", OF _ _ refl refl]
  by (simp add: initialBlocks_def proposalsDefault_def)

text \<open>
  The amount of an expected deposit request is compared through a pointer that a configuration may leave nil: the first request whose key
  and credentials fit ends the task with a panic.
\<close>

lemma deposit_request_without_amount_panics:
  assumes "edAmount e = None" "edPublicKey e = ''''" "edWithdrawalCredentials e = ''''" "ds \<noteq> []"
  shows "findDepositRequest L e ds = None"
  using assms by (cases ds) auto

end
