(* ===== verification/TxGenerators.thy ===== *)
theory TxGenerators
  imports ClusterChecks Wallet
begin

text \<open>
  The loop of the tasks that send transactions, \<open>tasks/generate_deposits\<close>, \<open>generate_consolidations\<close>,
  \<open>generate_withdrawal_requests\<close>, \<open>generate_eoa_transactions\<close> and \<open>generate_blob_transactions\<close>: they send one transaction per round,
  keep at most a number of them pending through a buffered channel, count what is outstanding in a wait group, and learn of each
  transaction's end in a callback that runs in a goroutine of the wallet. The loop and the callbacks are a step relation.
\<close>

section \<open>Data\<close>

record gen_receipt = receipt +
  grStatus :: u64

type_synonym receipt_log = "(root \<times> gen_receipt option) list"

text \<open>
  What the tasks differ in: the limits, the range of indices (no range if \<open>gcLast\<close> is zero), whether there is a wait group, whether a send sets the
  result, whether the task waits for the receipts, whether the error of the context is returned at the end of a round, and the work after the loop.
\<close>

record gen_config =
  gcPerSlot :: int
  gcTotal :: int
  gcPending :: int
  gcFirst :: u64
  gcLast :: u64
  gcWg :: bool
  gcMarks :: bool
  gcAwait :: bool
  gcReturnsErr :: bool
  gcFinish :: "root list \<Rightarrow> receipt_log \<Rightarrow> check_ctx \<Rightarrow> check_ctx"

text \<open>
  A round's call: it fails before \<open>SendTransaction\<close> has started the confirming goroutine, or all clients refuse the transaction, or it is sent.
  In the second case \<open>SendTransaction\<close> cancels the goroutine's context, whose deferred callback then runs as well.
\<close>

datatype gen_outcome = NotSent | SendFailed root | Sent root

datatype gen_pc = GTop | GCall u64 | GFailed | GCheck | GWait | GJoin | GFinished | GReturned go_error | GPanic

text \<open>
  \<open>gsSlots\<close> is the number of values in \<open>pendingChan\<close>, \<open>gsWaiting\<close> the transactions whose callback has not begun, \<open>gsHolding\<close> those whose callback has taken its
  value from the channel, \<open>gsLog\<close> the receipts in the order they were recorded, a later one hiding an earlier one of the same hash.
\<close>

record gen_state =
  gsPc :: gen_pc
  gsNext :: u64
  gsSlots :: nat
  gsWg :: nat
  gsPerSlot :: int
  gsTotal :: int
  gsSent :: "root list"
  gsWaiting :: "root list"
  gsHolding :: receipt_log
  gsLog :: receipt_log
  gsDone :: bool
  gsCtx :: check_ctx

definition genStart :: "gen_config \<Rightarrow> check_ctx \<Rightarrow> gen_state" where
  "genStart cfg c = \<lparr>gsPc = GTop, gsNext = gcFirst cfg, gsSlots = 0, gsWg = 0, gsPerSlot = 0, gsTotal = 0, gsSent = [], gsWaiting = [], gsHolding = [],
     gsLog = [], gsDone = False, gsCtx = c\<rparr>"

section \<open>Steps\<close>

definition genTake :: "gen_config \<Rightarrow> gen_state \<Rightarrow> gen_state" where
  "genTake cfg s = s\<lparr>gsPc := GCall (gsNext s), gsNext := gsNext s + 1, gsSlots := (if gcPending cfg > 0 then gsSlots s + 1 else gsSlots s),
     gsWg := (if gcWg cfg then gsWg s + 1 else gsWg s)\<rparr>"

definition genCalled :: "gen_config \<Rightarrow> gen_outcome \<Rightarrow> gen_state \<Rightarrow> gen_state" where
  "genCalled cfg out s =
     (case out of
        NotSent \<Rightarrow> s\<lparr>gsPc := GFailed\<rparr>
      | SendFailed h \<Rightarrow> s\<lparr>gsPc := GFailed, gsWaiting := gsWaiting s @ [h]\<rparr>
      | Sent h \<Rightarrow> s\<lparr>gsPc := GCheck, gsWaiting := gsWaiting s @ [h], gsPerSlot := gsPerSlot s + 1, gsTotal := gsTotal s + 1, gsSent := gsSent s @ [h],
                    gsCtx := (if gcMarks cfg then ctxSetResult TaskResultSuccess (gsCtx s) else gsCtx s)\<rparr>)"

text \<open>Taking a value from \<open>pendingChan\<close>, and \<open>pendingWg.Done\<close>, which panics below zero.\<close>

definition canRelease :: "gen_config \<Rightarrow> gen_state \<Rightarrow> bool" where
  "canRelease cfg s \<longleftrightarrow> (gcPending cfg > 0 \<longrightarrow> gsSlots s > 0)"

definition genRelease :: "gen_config \<Rightarrow> gen_state \<Rightarrow> gen_state" where
  "genRelease cfg s = (if gcPending cfg > 0 then s\<lparr>gsSlots := gsSlots s - 1\<rparr> else s)"

definition genDone :: "gen_config \<Rightarrow> gen_state \<Rightarrow> gen_state" where
  "genDone cfg s =
     (if \<not> gcWg cfg then s else if gsWg s = 0 then s\<lparr>gsPc := GPanic\<rparr> else s\<lparr>gsWg := gsWg s - 1\<rparr>)"

definition genCheck :: "gen_config \<Rightarrow> gen_state \<Rightarrow> gen_state" where
  "genCheck cfg s =
     (if gcLast cfg > 0 \<and> gsNext s \<ge> gcLast cfg then s\<lparr>gsPc := GJoin\<rparr>
      else if gcTotal cfg > 0 \<and> gsTotal s \<ge> gcTotal cfg then s\<lparr>gsPc := GJoin\<rparr>
      else if gcPerSlot cfg > 0 \<and> gsPerSlot s \<ge> gcPerSlot cfg then s\<lparr>gsPerSlot := 0, gsPc := GWait\<rparr>
      else if gsDone s then s\<lparr>gsPc := GReturned (if gcReturnsErr cfg then Some ''context canceled'' else None)\<rparr>
      else s\<lparr>gsPc := GTop\<rparr>)"

definition genConfirm :: "gen_config \<Rightarrow> root \<Rightarrow> gen_receipt option \<Rightarrow> gen_state \<Rightarrow> gen_state" where
  "genConfirm cfg h r s = genRelease cfg (s\<lparr>gsWaiting := remove1 h (gsWaiting s), gsHolding := gsHolding s @ [(h, r)]\<rparr>)"

definition genRecord :: "gen_config \<Rightarrow> root \<times> gen_receipt option \<Rightarrow> gen_state \<Rightarrow> gen_state" where
  "genRecord cfg hr s = genDone cfg (s\<lparr>gsHolding := remove1 hr (gsHolding s), gsLog := gsLog s @ [hr]\<rparr>)"

definition genJoin :: "gen_config \<Rightarrow> gen_state \<Rightarrow> gen_state" where
  "genJoin cfg s = s\<lparr>gsPc := GFinished, gsCtx := gcFinish cfg (gsSent s) (gsLog s) (gsCtx s)\<rparr>"

text \<open>\<open>outcomes i\<close> are the possible results of the call for index \<open>i\<close>; the receipt of a confirmation is arbitrary.\<close>

inductive gen_step :: "gen_config \<Rightarrow> (u64 \<Rightarrow> gen_outcome set) \<Rightarrow> gen_state \<Rightarrow> gen_state \<Rightarrow> bool" for cfg outcomes where
  cancel: "gen_step cfg outcomes s (s\<lparr>gsDone := True\<rparr>)"
| top_done: "\<lbrakk>gsPc s = GTop; gcPending cfg > 0; gsDone s\<rbrakk> \<Longrightarrow> gen_step cfg outcomes s (s\<lparr>gsPc := GReturned None\<rparr>)"
| top: "\<lbrakk>gsPc s = GTop; gcPending cfg > 0 \<longrightarrow> int (gsSlots s) < gcPending cfg\<rbrakk> \<Longrightarrow> gen_step cfg outcomes s (genTake cfg s)"
| call: "\<lbrakk>gsPc s = GCall i; out \<in> outcomes i\<rbrakk> \<Longrightarrow> gen_step cfg outcomes s (genCalled cfg out s)"
| failed: "\<lbrakk>gsPc s = GFailed; canRelease cfg s\<rbrakk> \<Longrightarrow> gen_step cfg outcomes s (genDone cfg (genRelease cfg (s\<lparr>gsPc := GCheck\<rparr>)))"
| check: "gsPc s = GCheck \<Longrightarrow> gen_step cfg outcomes s (genCheck cfg s)"
| wait_block: "gsPc s = GWait \<Longrightarrow> gen_step cfg outcomes s (s\<lparr>gsPc := GTop\<rparr>)"
| wait_done: "\<lbrakk>gsPc s = GWait; gsDone s\<rbrakk> \<Longrightarrow> gen_step cfg outcomes s (s\<lparr>gsPc := GReturned None\<rparr>)"
| join: "\<lbrakk>gsPc s = GJoin; gcWg cfg \<and> gcAwait cfg \<longrightarrow> gsWg s = 0\<rbrakk> \<Longrightarrow> gen_step cfg outcomes s (genJoin cfg s)"
| confirm: "\<lbrakk>gsPc s \<noteq> GPanic; h \<in> set (gsWaiting s); canRelease cfg s\<rbrakk> \<Longrightarrow> gen_step cfg outcomes s (genConfirm cfg h r s)"
| recorded: "\<lbrakk>gsPc s \<noteq> GPanic; hr \<in> set (gsHolding s)\<rbrakk> \<Longrightarrow> gen_step cfg outcomes s (genRecord cfg hr s)"

section \<open>While every transaction is taken\<close>

definition busy :: "gen_state \<Rightarrow> nat" where
  "busy s = (case gsPc s of GCall i \<Rightarrow> 1 | GFailed \<Rightarrow> 1 | _ \<Rightarrow> 0)"

fun looping :: "gen_pc \<Rightarrow> bool" where
  "looping GTop = True"
| "looping (GCall i) = True"
| "looping GFailed = True"
| "looping GWait = True"
| "looping pc = False"

definition more_wanted :: "gen_config \<Rightarrow> gen_state \<Rightarrow> bool" where
  "more_wanted cfg s \<longleftrightarrow> gcTotal cfg > 0 \<longrightarrow> gsTotal s < gcTotal cfg"

definition started :: "gen_config \<Rightarrow> check_ctx \<Rightarrow> root list \<Rightarrow> check_ctx" where
  "started cfg c sent = (if gcMarks cfg \<and> sent \<noteq> [] then ctxSetResult TaskResultSuccess c else c)"

text \<open>The wait group and the channel count what is outstanding; each sent transaction is at one place; the limit holds; the context is that of the sends.\<close>

definition counts_inv :: "gen_config \<Rightarrow> gen_state \<Rightarrow> bool" where
  "counts_inv cfg s \<longleftrightarrow>
     (gcWg cfg \<longrightarrow> gsWg s = length (gsWaiting s) + length (gsHolding s) + busy s) \<and>
     (gcPending cfg > 0 \<longrightarrow> gsSlots s = length (gsWaiting s) + busy s \<and> int (gsSlots s) \<le> gcPending cfg)"

definition sent_inv :: "gen_state \<Rightarrow> bool" where
  "sent_inv s \<longleftrightarrow> mset (gsSent s) = mset (gsWaiting s) + mset (map fst (gsHolding s)) + mset (map fst (gsLog s))"

definition total_inv :: "gen_config \<Rightarrow> gen_state \<Rightarrow> bool" where
  "total_inv cfg s \<longleftrightarrow> gsTotal s = int (length (gsSent s)) \<and> (gcTotal cfg > 0 \<longrightarrow> gsTotal s \<le> gcTotal cfg) \<and> (looping (gsPc s) \<longrightarrow> more_wanted cfg s)"

definition ctx_inv :: "gen_config \<Rightarrow> check_ctx \<Rightarrow> gen_state \<Rightarrow> bool" where
  "ctx_inv cfg c s \<longleftrightarrow>
     (gsPc s \<noteq> GFinished \<longrightarrow> gsCtx s = started cfg c (gsSent s)) \<and>
     (gsPc s = GFinished \<and> gcWg cfg \<and> gcAwait cfg \<longrightarrow>
        gsWaiting s = [] \<and> gsHolding s = [] \<and> gsCtx s = gcFinish cfg (gsSent s) (gsLog s) (started cfg c (gsSent s)))"

definition gen_inv :: "gen_config \<Rightarrow> check_ctx \<Rightarrow> gen_state \<Rightarrow> bool" where
  "gen_inv cfg c s \<longleftrightarrow> gsPc s \<noteq> GPanic \<and> counts_inv cfg s \<and> sent_inv s \<and> total_inv cfg s \<and> ctx_inv cfg c s"

lemma busy_simps [simp]:
  "gsPc s = GCall i \<Longrightarrow> busy s = 1" "gsPc s = GFailed \<Longrightarrow> busy s = 1" "gsPc s = GTop \<Longrightarrow> busy s = 0" "gsPc s = GCheck \<Longrightarrow> busy s = 0"
  "gsPc s = GWait \<Longrightarrow> busy s = 0" "gsPc s = GJoin \<Longrightarrow> busy s = 0" "gsPc s = GFinished \<Longrightarrow> busy s = 0" "gsPc s = GReturned e \<Longrightarrow> busy s = 0"
  by (simp_all add: busy_def)

lemma busy_cong: "gsPc s = gsPc t \<Longrightarrow> busy s = busy t"
  by (simp add: busy_def)

lemma busy_cancel [simp]: "busy (s\<lparr>gsDone := d\<rparr>) = busy s"
  by (simp add: busy_def)

lemma length_remove1_Suc: "x \<in> set xs \<Longrightarrow> Suc (length (remove1 x xs)) = length xs"
  by (metis One_nat_def Suc_pred length_pos_if_in_set length_remove1)

lemmas gen_inv_defs = counts_inv_def sent_inv_def total_inv_def ctx_inv_def more_wanted_def

lemma gen_inv_start: "gen_inv cfg c (genStart cfg c)"
  by (auto simp: gen_inv_def gen_inv_defs genStart_def busy_def started_def)

lemma gen_inv_take:
  assumes "gen_inv cfg c s" "gsPc s = GTop" "gcPending cfg > 0 \<longrightarrow> int (gsSlots s) < gcPending cfg"
  shows "gen_inv cfg c (genTake cfg s)"
  using assms unfolding gen_inv_def by (intro conjI) (auto simp: gen_inv_defs genTake_def)

lemma gen_inv_called:
  assumes "gen_inv cfg c s" "gsPc s = GCall i" "out = NotSent \<or> (\<exists>h. out = Sent h)"
  shows "gen_inv cfg c (genCalled cfg out s)"
  using assms(3)
proof
  assume "out = NotSent"
  then show ?thesis using assms(1,2) unfolding gen_inv_def by (intro conjI) (auto simp: gen_inv_defs genCalled_def)
next
  assume "\<exists>h. out = Sent h"
  then obtain h where [simp]: "out = Sent h" by blast
  show ?thesis
    using assms(1,2) unfolding gen_inv_def by (intro conjI) (auto simp: gen_inv_defs genCalled_def started_def ctxSetResult_def)
qed

lemma gen_inv_failed:
  assumes "gen_inv cfg c s" "gsPc s = GFailed"
  shows "gen_inv cfg c (genDone cfg (genRelease cfg (s\<lparr>gsPc := GCheck\<rparr>)))"
  using assms unfolding gen_inv_def by (intro conjI) (auto simp: gen_inv_defs genDone_def genRelease_def)

lemma gen_inv_check:
  assumes "gen_inv cfg c s" "gsPc s = GCheck"
  shows "gen_inv cfg c (genCheck cfg s)"
  using assms unfolding gen_inv_def by (intro conjI) (auto simp: gen_inv_defs genCheck_def not_le)

lemma gen_inv_leave:
  assumes "gen_inv cfg c s" "gsPc s = GTop \<or> gsPc s = GWait"
  shows "gen_inv cfg c (s\<lparr>gsPc := GReturned e\<rparr>)" "gen_inv cfg c (s\<lparr>gsPc := GTop\<rparr>)"
proof -
  have "busy s = 0" "looping (gsPc s)" "gsPc s \<noteq> GFinished" using assms(2) by auto
  with assms(1) show "gen_inv cfg c (s\<lparr>gsPc := GReturned e\<rparr>)" "gen_inv cfg c (s\<lparr>gsPc := GTop\<rparr>)"
    unfolding gen_inv_def by (intro conjI; auto simp: gen_inv_defs)+
qed

lemma gen_inv_confirm:
  assumes "gen_inv cfg c s" "h \<in> set (gsWaiting s)"
  shows "gen_inv cfg c (genConfirm cfg h r s)"
proof -
  let ?s = "genConfirm cfg h r s"
  have f: "gsPc ?s = gsPc s" "gsSent ?s = gsSent s" "gsTotal ?s = gsTotal s" "gsLog ?s = gsLog s" "gsCtx ?s = gsCtx s" "gsWg ?s = gsWg s"
    "gsWaiting ?s = remove1 h (gsWaiting s)" "gsHolding ?s = gsHolding s @ [(h, r)]" "gcPending cfg > 0 \<Longrightarrow> gsSlots ?s = gsSlots s - 1"
    by (simp_all add: genConfirm_def genRelease_def)
  have b: "busy ?s = busy s" by (rule busy_cong) (rule f(1))
  have l: "Suc (length (remove1 h (gsWaiting s))) = length (gsWaiting s)" using assms(2) by (rule length_remove1_Suc)
  have m: "mset (gsWaiting s) = mset (remove1 h (gsWaiting s)) + {#h#}" using assms(2) by simp
  have "counts_inv cfg ?s" using assms(1) l unfolding gen_inv_def counts_inv_def b f by (auto simp: f(9))
  moreover have "sent_inv ?s" using assms(1) unfolding gen_inv_def sent_inv_def f m by simp
  moreover have "total_inv cfg ?s" "ctx_inv cfg c ?s" "gsPc ?s \<noteq> GPanic"
    using assms unfolding gen_inv_def total_inv_def ctx_inv_def more_wanted_def f by auto
  ultimately show ?thesis by (simp add: gen_inv_def)
qed

lemma gen_inv_record:
  assumes "gen_inv cfg c s" "hr \<in> set (gsHolding s)"
  shows "gen_inv cfg c (genRecord cfg hr s)"
proof -
  let ?s = "genRecord cfg hr s"
  have l: "Suc (length (remove1 hr (gsHolding s))) = length (gsHolding s)" using assms(2) by (rule length_remove1_Suc)
  have wg: "gcWg cfg \<Longrightarrow> gsWg s \<noteq> 0" using assms(1) l by (auto simp: gen_inv_def counts_inv_def)
  have f: "gsPc ?s = gsPc s" "gsSent ?s = gsSent s" "gsTotal ?s = gsTotal s" "gsLog ?s = gsLog s @ [hr]" "gsCtx ?s = gsCtx s" "gsSlots ?s = gsSlots s"
    "gsWaiting ?s = gsWaiting s" "gsHolding ?s = remove1 hr (gsHolding s)" "gcWg cfg \<Longrightarrow> gsWg ?s = gsWg s - 1"
    using wg by (auto simp: genRecord_def genDone_def)
  have b: "busy ?s = busy s" by (rule busy_cong) (rule f(1))
  have m: "mset (map fst (gsHolding s)) = mset (map fst (remove1 hr (gsHolding s))) + {#fst hr#}"
  proof -
    have "mset (gsHolding s) = mset (remove1 hr (gsHolding s)) + {#hr#}" using assms(2) by simp
    then show ?thesis unfolding mset_map by (metis image_mset_union image_mset_single)
  qed
  have "counts_inv cfg ?s" using assms(1) l unfolding gen_inv_def counts_inv_def b f by (auto simp: f(9))
  moreover have "sent_inv ?s" using assms(1) unfolding gen_inv_def sent_inv_def f m by simp
  moreover have "total_inv cfg ?s" "ctx_inv cfg c ?s" "gsPc ?s \<noteq> GPanic"
    using assms unfolding gen_inv_def total_inv_def ctx_inv_def more_wanted_def f by auto
  ultimately show ?thesis by (simp add: gen_inv_def)
qed

lemma gen_inv_join:
  assumes "gen_inv cfg c s" "gsPc s = GJoin" "gcWg cfg \<and> gcAwait cfg \<longrightarrow> gsWg s = 0"
  shows "gen_inv cfg c (genJoin cfg s)"
  using assms unfolding gen_inv_def by (intro conjI) (auto simp: gen_inv_defs genJoin_def)

lemma gen_inv_cancel: "gen_inv cfg c s \<Longrightarrow> gen_inv cfg c (s\<lparr>gsDone := True\<rparr>)"
  unfolding gen_inv_def by (intro conjI) (auto simp: gen_inv_defs)

lemma gen_inv_step:
  assumes "gen_step cfg outcomes s t" "\<And>i h. SendFailed h \<notin> outcomes i" "gen_inv cfg c s"
  shows "gen_inv cfg c t"
  using assms(1)
proof cases
  case (call i out)
  then have "out = NotSent \<or> (\<exists>h. out = Sent h)" using assms(2) by (cases out) auto
  with call assms(3) show ?thesis by (simp add: gen_inv_called)
qed (use assms(3) in \<open>simp_all add: gen_inv_take gen_inv_failed gen_inv_check gen_inv_leave gen_inv_confirm gen_inv_record gen_inv_join gen_inv_cancel\<close>)

lemma gen_inv_reach:
  assumes "(gen_step cfg outcomes)\<^sup>*\<^sup>* (genStart cfg c) s" "\<And>i h. SendFailed h \<notin> outcomes i"
  shows "gen_inv cfg c s"
  using assms(1) by (induction rule: rtranclp_induct) (auto intro: gen_inv_start gen_inv_step simp: assms(2))

text \<open>The total limit holds whatever the clients do.\<close>

lemma total_inv_step: "gen_step cfg outcomes s t \<Longrightarrow> total_inv cfg s \<Longrightarrow> total_inv cfg t"
  by (induction rule: gen_step.induct)
     (auto simp: total_inv_def more_wanted_def genTake_def genCalled_def genDone_def genRelease_def genCheck_def genConfirm_def genRecord_def genJoin_def
       split: gen_outcome.splits)

lemma total_inv_reach: "(gen_step cfg outcomes)\<^sup>*\<^sup>* (genStart cfg c) s \<Longrightarrow> total_inv cfg s"
proof (induction rule: rtranclp_induct)
  case base
  show ?case using gen_inv_start [of cfg c] by (simp add: gen_inv_def)
qed (rule total_inv_step)

text \<open>
  C18. In every interleaving of the loop of a transaction generator and its callbacks no more transactions than the total limit are sent. As long as moreover no transaction is refused by all
  clients, the wait group never falls below zero and counts what is outstanding, no more transactions than the pending limit are unconfirmed, and every sent transaction
  is at one place: waiting for its confirmation, with its callback, or recorded with its receipt.
\<close>

theorem generator_bounds:
  assumes "(gen_step cfg outcomes)\<^sup>*\<^sup>* (genStart cfg c) s"
  shows "(gcTotal cfg > 0 \<longrightarrow> int (length (gsSent s)) \<le> gcTotal cfg) \<and>
    ((\<forall>i h. SendFailed h \<notin> outcomes i) \<longrightarrow>
       gsPc s \<noteq> GPanic \<and> (gcWg cfg \<longrightarrow> gsWg s = length (gsWaiting s) + length (gsHolding s) + busy s) \<and>
       (gcPending cfg > 0 \<longrightarrow> int (length (gsWaiting s)) \<le> gcPending cfg) \<and>
       mset (gsSent s) = mset (gsWaiting s) + mset (map fst (gsHolding s)) + mset (map fst (gsLog s)))"
proof -
  have "gcTotal cfg > 0 \<longrightarrow> int (length (gsSent s)) \<le> gcTotal cfg" using total_inv_reach [OF assms] by (auto simp: total_inv_def)
  moreover have "gen_inv cfg c s" if "\<forall>i h. SendFailed h \<notin> outcomes i" using gen_inv_reach [OF assms] that by blast
  ultimately show ?thesis by (auto simp: gen_inv_def counts_inv_def sent_inv_def)
qed

text \<open>
  A generator that waits for receipts ends only when every transaction it sent has been reported: the receipts recorded are those of the sent transactions,
  one each, and its outputs and its result are computed from them.
\<close>

lemma generator_awaits_receipts:
  assumes "(gen_step cfg outcomes)\<^sup>*\<^sup>* (genStart cfg c) s" "\<And>i h. SendFailed h \<notin> outcomes i"
    and "gsPc s = GFinished" "gcWg cfg" "gcAwait cfg"
  shows "mset (map fst (gsLog s)) = mset (gsSent s) \<and> gsCtx s = gcFinish cfg (gsSent s) (gsLog s) (started cfg c (gsSent s))"
  using gen_inv_reach [OF assms(1,2)] assms(3-5) by (simp add: gen_inv_def sent_inv_def ctx_inv_def)

text \<open>
  What the loop may wait for: the next block once the slot limit is reached, at the pending limit a confirmation, each of which lets it take the next index, and at the end the
  callbacks under way, each of which can run and counts the wait group down.
\<close>

definition waits_at_limit :: "gen_config \<Rightarrow> (u64 \<Rightarrow> gen_outcome set) \<Rightarrow> gen_state \<Rightarrow> bool" where
  "waits_at_limit cfg outcomes s \<longleftrightarrow> gsPc s = GTop \<and> gsWaiting s \<noteq> [] \<and>
     (\<forall>h \<in> set (gsWaiting s). \<forall>r. gen_step cfg outcomes s (genConfirm cfg h r s) \<and>
        gen_step cfg outcomes (genConfirm cfg h r s) (genTake cfg (genConfirm cfg h r s)))"

definition waits_for_callbacks :: "gen_config \<Rightarrow> (u64 \<Rightarrow> gen_outcome set) \<Rightarrow> gen_state \<Rightarrow> bool" where
  "waits_for_callbacks cfg outcomes s \<longleftrightarrow> gsPc s = GJoin \<and> (gsWaiting s \<noteq> [] \<or> gsHolding s \<noteq> []) \<and>
     (\<forall>h \<in> set (gsWaiting s). \<forall>r. gen_step cfg outcomes s (genConfirm cfg h r s)) \<and>
     (\<forall>hr \<in> set (gsHolding s). gen_step cfg outcomes s (genRecord cfg hr s) \<and> gsWg (genRecord cfg hr s) < gsWg s)"

lemma confirm_enabled:
  assumes "gen_inv cfg c s" "h \<in> set (gsWaiting s)"
  shows "gen_step cfg outcomes s (genConfirm cfg h r s)"
proof (rule gen_step.confirm)
  have "gsWaiting s \<noteq> []" using assms(2) by auto
  then show "canRelease cfg s" using assms(1) by (auto simp: gen_inv_def counts_inv_def canRelease_def)
qed (use assms in \<open>simp_all add: gen_inv_def\<close>)

lemma top_moves:
  assumes "gen_inv cfg c s" "gsPc s = GTop"
  shows "(\<exists>t. gen_step cfg outcomes s t \<and> gsPc t \<noteq> gsPc s) \<or> waits_at_limit cfg outcomes s"
proof (cases "gcPending cfg > 0 \<longrightarrow> int (gsSlots s) < gcPending cfg")
  case True
  have "gsPc (genTake cfg s) \<noteq> gsPc s" using assms(2) by (simp add: genTake_def)
  with gen_step.top [OF assms(2) True] show ?thesis by blast
next
  case False
  with assms have full: "gcPending cfg > 0" "int (gsSlots s) = gcPending cfg" "gsSlots s = length (gsWaiting s)"
    by (auto simp: gen_inv_def counts_inv_def)
  have "gen_step cfg outcomes (genConfirm cfg h r s) (genTake cfg (genConfirm cfg h r s))" for h r
    by (rule gen_step.top) (use assms(2) full in \<open>auto simp: genConfirm_def genRelease_def\<close>)
  moreover have "gsWaiting s \<noteq> []" using full by auto
  ultimately show ?thesis using confirm_enabled [OF assms(1)] assms(2) by (simp add: waits_at_limit_def)
qed

lemma join_moves:
  assumes "gen_inv cfg c s" "gsPc s = GJoin"
  shows "(\<exists>t. gen_step cfg outcomes s t \<and> gsPc t \<noteq> gsPc s) \<or> waits_for_callbacks cfg outcomes s"
proof (cases "gcWg cfg \<and> gcAwait cfg \<longrightarrow> gsWg s = 0")
  case True
  have "gsPc (genJoin cfg s) \<noteq> gsPc s" using assms(2) by (simp add: genJoin_def)
  with gen_step.join [OF assms(2) True] show ?thesis by blast
next
  case False
  then have wg: "gcWg cfg" "gsWg s > 0" "gsWg s = length (gsWaiting s) + length (gsHolding s)"
    using assms by (auto simp: gen_inv_def counts_inv_def)
  have "gen_step cfg outcomes s (genRecord cfg hr s) \<and> gsWg (genRecord cfg hr s) < gsWg s" if "hr \<in> set (gsHolding s)" for hr
    using gen_step.recorded [of s hr cfg outcomes] that assms wg(1,2) by (auto simp: gen_inv_def genRecord_def genDone_def)
  moreover have "gsWaiting s \<noteq> [] \<or> gsHolding s \<noteq> []" using wg by auto
  ultimately show ?thesis using confirm_enabled [OF assms(1)] assms(2) by (simp add: waits_for_callbacks_def)
qed

text \<open>
  C19. As long as no transaction is refused by all clients and its calls return, the loop of a generator is never stuck before its end: it has a step of its own, or it waits for the next
  block after a full slot, or for a confirmation at the pending limit, each of which lets it go on, or at its end for callbacks that can all run and count the wait group down.
\<close>

theorem generator_never_stuck:
  assumes "(gen_step cfg outcomes)\<^sup>*\<^sup>* (genStart cfg c) s" "\<And>i h. SendFailed h \<notin> outcomes i" "\<And>i. outcomes i \<noteq> {}"
    and "\<And>e. gsPc s \<noteq> GFinished \<and> gsPc s \<noteq> GReturned e" "gsPc s \<noteq> GWait"
  shows "(\<exists>t. gen_step cfg outcomes s t \<and> gsPc t \<noteq> gsPc s) \<or> waits_at_limit cfg outcomes s \<or> waits_for_callbacks cfg outcomes s"
proof -
  note inv = gen_inv_reach [OF assms(1,2)]
  show ?thesis
  proof (cases "gsPc s")
    case GTop
    with inv top_moves show ?thesis by blast
  next
    case (GCall i)
    obtain out where "out \<in> outcomes i" using assms(3) by blast
    with GCall have "gen_step cfg outcomes s (genCalled cfg out s)" by (rule gen_step.call)
    moreover have "gsPc (genCalled cfg out s) \<noteq> gsPc s" using GCall by (auto simp: genCalled_def split: gen_outcome.split)
    ultimately show ?thesis by blast
  next
    case GFailed
    then have "canRelease cfg s" using inv by (auto simp: gen_inv_def counts_inv_def canRelease_def)
    with GFailed have "gen_step cfg outcomes s (genDone cfg (genRelease cfg (s\<lparr>gsPc := GCheck\<rparr>)))" by (rule gen_step.failed)
    moreover have "gsPc (genDone cfg (genRelease cfg (s\<lparr>gsPc := GCheck\<rparr>))) \<noteq> gsPc s" using GFailed by (simp add: genDone_def genRelease_def)
    ultimately show ?thesis by blast
  next
    case GCheck
    have "gsPc (genCheck cfg s) \<noteq> gsPc s" using GCheck by (simp add: genCheck_def)
    with gen_step.check [OF GCheck] show ?thesis by blast
  next
    case GJoin
    with inv join_moves show ?thesis by blast
  qed (use assms(4,5) inv in \<open>auto simp: gen_inv_def\<close>)
qed

text \<open>A generator of one transaction, after its call and at its end.\<close>

definition singleCalled :: "gen_config \<Rightarrow> root \<Rightarrow> check_ctx \<Rightarrow> gen_state" where
  "singleCalled cfg h c = genCalled cfg (Sent h) (genTake cfg (genStart cfg c))"

definition singleEnd :: "gen_config \<Rightarrow> root \<Rightarrow> gen_receipt option \<Rightarrow> check_ctx \<Rightarrow> gen_state" where
  "singleEnd cfg h r c = genJoin cfg (genRecord cfg (h, r) (genConfirm cfg h r (genCheck cfg (singleCalled cfg h c))))"

lemmas gen_eval = genStart_def genTake_def genCalled_def genCheck_def genConfirm_def genRecord_def genRelease_def genDone_def genJoin_def canRelease_def
  singleCalled_def

lemma single_called:
  assumes "\<And>i. outcomes i = {Sent h}"
  shows "(gen_step cfg outcomes)\<^sup>*\<^sup>* (genStart cfg c) (singleCalled cfg h c)"
proof -
  have "gen_step cfg outcomes (genStart cfg c) (genTake cfg (genStart cfg c))" by (rule gen_step.top) (simp_all add: gen_eval)
  moreover have "gen_step cfg outcomes (genTake cfg (genStart cfg c)) (singleCalled cfg h c)"
    unfolding singleCalled_def by (rule gen_step.call) (simp_all add: gen_eval assms)
  ultimately show ?thesis by (meson rtranclp.rtrancl_into_rtrancl r_into_rtranclp)
qed

lemma single_run:
  assumes "\<And>i. outcomes i = {Sent h}" "gcTotal cfg = 1" "gcWg cfg"
  shows "(gen_step cfg outcomes)\<^sup>*\<^sup>* (genStart cfg c) (singleEnd cfg h r c)"
proof -
  let ?s2 = "singleCalled cfg h c"
  let ?s3 = "genCheck cfg ?s2"
  let ?s4 = "genConfirm cfg h r ?s3"
  let ?s5 = "genRecord cfg (h, r) ?s4"
  have "gen_step cfg outcomes ?s2 ?s3" by (rule gen_step.check) (simp add: gen_eval)
  moreover have "gen_step cfg outcomes ?s3 ?s4" by (rule gen_step.confirm) (simp_all add: gen_eval assms)
  moreover have "gen_step cfg outcomes ?s4 ?s5" by (rule gen_step.recorded) (simp_all add: gen_eval assms)
  moreover have "gen_step cfg outcomes ?s5 (singleEnd cfg h r c)"
    unfolding singleEnd_def by (rule gen_step.join) (simp_all add: gen_eval assms)
  ultimately show ?thesis using single_called [of outcomes h cfg c, OF assms(1)] by (meson rtranclp.rtrancl_into_rtrancl)
qed

definition demoGen :: gen_config where
  "demoGen = \<lparr>gcPerSlot = 0, gcTotal = 1, gcPending = 1, gcFirst = 0, gcLast = 0, gcWg = True, gcMarks = True, gcAwait = True, gcReturnsErr = False,
     gcFinish = (\<lambda>sent receipts c. c)\<rparr>"

definition demoGenCtx :: check_ctx where
  "demoGenCtx = \<lparr>ccResult = TaskResultNone, ccOutputs = [], ccVars = []\<rparr>"

theorem generator_bounds_witness:
  "gsWg (singleCalled demoGen 7 demoGenCtx) = 1 \<and> length (gsWaiting (singleCalled demoGen 7 demoGenCtx)) \<le> 1"
proof -
  have "gsWg (singleCalled demoGen 7 demoGenCtx) = 1" by (simp add: gen_eval demoGen_def)
  moreover have "int (length (gsWaiting (singleCalled demoGen 7 demoGenCtx))) \<le> 1"
    using generator_bounds [of demoGen "\<lambda>i. {Sent 7}", OF single_called] by (simp add: demoGen_def)
  ultimately show ?thesis by simp
qed

definition demoJoining :: gen_state where
  "demoJoining = genCheck demoGen (singleCalled demoGen 7 demoGenCtx)"

theorem generator_never_stuck_witness: "waits_for_callbacks demoGen (\<lambda>i. {Sent 7}) demoJoining"
proof -
  have "gen_step demoGen (\<lambda>i. {Sent 7}) (singleCalled demoGen 7 demoGenCtx) demoJoining"
    unfolding demoJoining_def by (rule gen_step.check) (simp add: gen_eval)
  then have run: "(gen_step demoGen (\<lambda>i. {Sent 7}))\<^sup>*\<^sup>* (genStart demoGen demoGenCtx) demoJoining"
    using single_called [of "\<lambda>i. {Sent 7}" 7 demoGen demoGenCtx] by (meson rtranclp.rtrancl_into_rtrancl)
  have s: "gsPc demoJoining = GJoin" "gsWg demoJoining = 1" by (simp_all add: demoJoining_def gen_eval demoGen_def)
  have "gsPc t = gsPc demoJoining" if "gen_step demoGen (\<lambda>i. {Sent 7}) demoJoining t" for t
    using that s by (cases rule: gen_step.cases) (auto simp: demoGen_def genConfirm_def genRelease_def genRecord_def genDone_def)
  with generator_never_stuck [OF run] s show ?thesis by (auto simp: waits_at_limit_def)
qed

section \<open>When a transaction is refused\<close>

text \<open>
  When all clients refuse a transaction, its callback runs although the call has reported the failure: the loop and the callback both release
  the transaction. Without others under way the wait group falls below zero, which panics in the callback's goroutine and ends the process.
\<close>

lemma refused_transaction_panics:
  fixes c
  defines "s \<equiv> genTake (demoGen\<lparr>gcPending := 0\<rparr>) (genStart (demoGen\<lparr>gcPending := 0\<rparr>) c)"
  shows "\<exists>t. (gen_step (demoGen\<lparr>gcPending := 0\<rparr>) (\<lambda>i. {SendFailed 7}))\<^sup>*\<^sup>* (genStart (demoGen\<lparr>gcPending := 0\<rparr>) c) t \<and> gsPc t = GPanic"
proof -
  let ?cfg = "demoGen\<lparr>gcPending := 0\<rparr>" and ?out = "\<lambda>i :: u64. {SendFailed 7}"
  let ?s2 = "genCalled ?cfg (SendFailed 7) s"
  let ?s3 = "genDone ?cfg (genRelease ?cfg (?s2\<lparr>gsPc := GCheck\<rparr>))"
  let ?s4 = "genConfirm ?cfg 7 None ?s3"
  have "gen_step ?cfg ?out (genStart ?cfg c) s" unfolding s_def by (rule gen_step.top) (simp_all add: gen_eval demoGen_def)
  moreover have "gen_step ?cfg ?out s ?s2" by (rule gen_step.call [where i = 0]) (simp_all add: s_def gen_eval demoGen_def)
  moreover have "gen_step ?cfg ?out ?s2 ?s3" by (rule gen_step.failed) (simp_all add: s_def gen_eval demoGen_def)
  moreover have "gen_step ?cfg ?out ?s3 ?s4" by (rule gen_step.confirm) (simp_all add: s_def gen_eval demoGen_def)
  moreover have "gen_step ?cfg ?out ?s4 (genRecord ?cfg (7, None) ?s4)" by (rule gen_step.recorded) (simp_all add: s_def gen_eval demoGen_def)
  ultimately have "(gen_step ?cfg ?out)\<^sup>*\<^sup>* (genStart ?cfg c) (genRecord ?cfg (7, None) ?s4)" by (meson rtranclp.rtrancl_into_rtrancl r_into_rtranclp)
  moreover have "gsPc (genRecord ?cfg (7, None) ?s4) = GPanic" by (simp add: s_def gen_eval demoGen_def)
  ultimately show ?thesis by blast
qed

end
