(* ===== verification/ValidatorOps.thy ===== *)
theory ValidatorOps
  imports ClusterChecks
begin

text \<open>
  The tasks that send signed operations of validators: \<open>tasks/generate_exits\<close>, \<open>tasks/generate_bls_changes\<close> and
  \<open>tasks/generate_slashings\<close>. They go through the key indices of a mnemonic, with the same loop and the same limits. Key
  derivation, hashing, signing and encoding are libraries, the validator set, the clients and their answers come with
  each round. The chain specification and genesis are taken as loaded. A panic is None.
\<close>

section \<open>Data\<close>

record op_validator =
  ovIndex :: u64
  ovPubkey :: "u8 list"
  ovExitEpoch :: u64
  ovStatus :: string
  ovCreds :: "u8 list"

record OpConfig =
  ocLimitPerSlot :: int
  ocLimitTotal :: int
  ocMnemonic :: string
  ocStartIndex :: int
  ocIndexCount :: int
  ocClientPattern :: string
  ocExcludeClientPattern :: string

record ExitsConfig = OpConfig +
  ExitEpoch :: int

record BlsConfig = OpConfig +
  TargetAddress :: string

record SlashingsConfig = OpConfig +
  SlashingType :: string

definition exitsDefault :: ExitsConfig where
  "exitsDefault = \<lparr>ocLimitPerSlot = 0, ocLimitTotal = 0, ocMnemonic = '''', ocStartIndex = 0, ocIndexCount = 0, ocClientPattern = '''',
     ocExcludeClientPattern = '''', ExitEpoch = 0\<rparr>"

definition blsDefault :: BlsConfig where
  "blsDefault = \<lparr>ocLimitPerSlot = 0, ocLimitTotal = 0, ocMnemonic = '''', ocStartIndex = 0, ocIndexCount = 0, ocClientPattern = '''',
     ocExcludeClientPattern = '''', TargetAddress = ''''\<rparr>"

definition slashingsDefault :: SlashingsConfig where
  "slashingsDefault = \<lparr>ocLimitPerSlot = 0, ocLimitTotal = 0, ocMnemonic = '''', ocStartIndex = 0, ocIndexCount = 0, ocClientPattern = '''',
     ocExcludeClientPattern = '''', SlashingType = ''attester''\<rparr>"

definition exitsValidate :: "'z OpConfig_scheme \<Rightarrow> go_error" where
  "exitsValidate c =
     (if ocLimitPerSlot c = 0 \<and> ocLimitTotal c = 0 \<and> ocIndexCount c = 0
      then Some ''either limitPerSlot or limitTotal or indexCount must be set''
      else if ocMnemonic c = '''' then Some ''mnemonic must be set'' else None)"

definition blsValidate :: "BlsConfig \<Rightarrow> go_error" where
  "blsValidate c =
     (case exitsValidate c of
        Some e \<Rightarrow> Some e
      | None \<Rightarrow> if TargetAddress c = '''' then Some ''targetAddress must be set'' else None)"

text \<open>White space as \<open>strings.TrimSpace\<close> sees it in ASCII text.\<close>

definition isSpace :: "char \<Rightarrow> bool" where
  "isSpace c \<longleftrightarrow> of_char c \<in> {9, 10, 11, 12, 13, 32 :: nat}"

definition trimSpace :: "string \<Rightarrow> string" where
  "trimSpace s = rev (dropWhile isSpace (rev (dropWhile isSpace s)))"

definition mnemonicToSeed :: "(string \<Rightarrow> bool) \<Rightarrow> (string \<Rightarrow> u8 list) \<Rightarrow> string \<Rightarrow> string + u8 list" where
  "mnemonicToSeed isValid newSeed mnemonic =
     (let m = trimSpace mnemonic in if isValid m then Inr (newSeed m) else Inl ''mnemonic is not valid'')"

text \<open>
  Loading the configuration: \<open>unmarshal\<close> reads the static part over the defaults, \<open>consume\<close> the part from variables, \<open>decodeAddr\<close> the target address.
  What a task keeps is the configuration, the seed and, for BLS changes, the address.
\<close>

definition opLoadConfig ::
    "('c \<Rightarrow> string + 'c) \<Rightarrow> ('c \<Rightarrow> string + 'c) \<Rightarrow> ('c \<Rightarrow> go_error) \<Rightarrow> ('c \<Rightarrow> string) \<Rightarrow> (string \<Rightarrow> bool) \<Rightarrow> (string \<Rightarrow> u8 list) \<Rightarrow> 'c \<Rightarrow> string + 'c \<times> u8 list" where
  "opLoadConfig unmarshal consume validate mnemonicOf isValid newSeed config0 =
     (case unmarshal config0 of
        Inl e \<Rightarrow> Inl (''error parsing task config: '' @ e)
      | Inr config1 \<Rightarrow>
          (case consume config1 of
             Inl e \<Rightarrow> Inl e
           | Inr config \<Rightarrow>
               (case validate config of
                  Some e \<Rightarrow> Inl e
                | None \<Rightarrow>
                    (case mnemonicToSeed isValid newSeed (mnemonicOf config) of
                       Inl e \<Rightarrow> Inl e
                     | Inr seed \<Rightarrow> Inr (config, seed)))))"

definition exitsLoadConfig ::
    "(ExitsConfig \<Rightarrow> string + ExitsConfig) \<Rightarrow> (ExitsConfig \<Rightarrow> string + ExitsConfig) \<Rightarrow> (string \<Rightarrow> bool) \<Rightarrow> (string \<Rightarrow> u8 list) \<Rightarrow> string + ExitsConfig \<times> u8 list" where
  "exitsLoadConfig unmarshal consume isValid newSeed = opLoadConfig unmarshal consume exitsValidate ocMnemonic isValid newSeed exitsDefault"

definition slashingsLoadConfig ::
    "(SlashingsConfig \<Rightarrow> string + SlashingsConfig) \<Rightarrow> (SlashingsConfig \<Rightarrow> string + SlashingsConfig) \<Rightarrow> (string \<Rightarrow> bool) \<Rightarrow> (string \<Rightarrow> u8 list) \<Rightarrow>
     string + SlashingsConfig \<times> u8 list" where
  "slashingsLoadConfig unmarshal consume isValid newSeed = opLoadConfig unmarshal consume exitsValidate ocMnemonic isValid newSeed slashingsDefault"

definition blsLoadConfig ::
    "(BlsConfig \<Rightarrow> string + BlsConfig) \<Rightarrow> (BlsConfig \<Rightarrow> string + BlsConfig) \<Rightarrow> (string \<Rightarrow> bool) \<Rightarrow> (string \<Rightarrow> u8 list) \<Rightarrow> (string \<Rightarrow> string + root) \<Rightarrow>
     string + BlsConfig \<times> u8 list \<times> root" where
  "blsLoadConfig unmarshal consume isValid newSeed decodeAddr =
     (case opLoadConfig unmarshal consume blsValidate ocMnemonic isValid newSeed blsDefault of
        Inl e \<Rightarrow> Inl e
      | Inr (config, seed) \<Rightarrow>
          (case decodeAddr (TargetAddress config) of
             Inl e \<Rightarrow> Inl (''cannot decode execution addr: '' @ e)
           | Inr addr \<Rightarrow> Inr (config, seed, addr)))"

text \<open>
  The libraries, for the seed of the task: \<open>olKey\<close> derives the key at a path, \<open>olConvert\<close> converts it for signing,
  \<open>olDomain\<close> takes the kind of message, the fork version and the root of the genesis validators.
\<close>

record 'k op_libs =
  olKey :: "string \<Rightarrow> string + 'k"
  olPub :: "'k \<Rightarrow> u8 list"
  olConvert :: "'k \<Rightarrow> go_error"
  olSign :: "'k \<Rightarrow> root \<Rightarrow> u8 list"
  olDomain :: "string \<Rightarrow> u32 \<Rightarrow> root \<Rightarrow> root"
  olSigningRoot :: "root \<Rightarrow> root \<Rightarrow> root"

definition validatorKeyPath :: "u64 \<Rightarrow> string" where
  "validatorKeyPath accountIdx = ''m/12381/3600/'' @ showNat (unat accountIdx) @ ''/0/0''"

definition withdrAccPath :: "u64 \<Rightarrow> string" where
  "withdrAccPath accountIdx = ''m/12381/3600/'' @ showNat (unat accountIdx) @ ''/0''"

definition findValidator :: "op_validator list \<Rightarrow> u8 list \<Rightarrow> op_validator option" where
  "findValidator vs pubkey = find (\<lambda>v. ovPubkey v = pubkey) vs"

text \<open>
  A round's view of the network: the validators, the client \<open>GetReadyEndpoint\<close> would return, those the name patterns select, the
  head slot of a client, the wallclock, and the fork state loaded at the start.
\<close>

record op_env =
  oeValidators :: "op_validator list"
  oeReady :: "nat option"
  oeByName :: "nat list"
  oeHead :: "nat \<Rightarrow> u64"
  oeSlot :: u64
  oeEpoch :: u64
  oeSpecs :: ChainSpec
  oeGenesisRoot :: root
  oeForkVersion :: u32
  oeForkEpoch :: u64

definition chooseClient :: "'z OpConfig_scheme \<Rightarrow> op_env \<Rightarrow> string + nat option" where
  "chooseClient cfg env =
     (if ocClientPattern cfg = '''' \<and> ocExcludeClientPattern cfg = '''' then Inr (oeReady env)
      else case oeByName env of [] \<Rightarrow> Inl ''no client found with pattern'' | c # cs \<Rightarrow> Inr (Some c))"

definition divSlots :: "u64 \<Rightarrow> u64 \<Rightarrow> u64 option" where
  "divSlots slot n = (if n = 0 then None else Some (slot div n))"

section \<open>Voluntary exits\<close>

record VoluntaryExit =
  vxIndex :: u64
  vxEpoch :: u64

text \<open>The exit epoch is the configured one, or that of the head of the client, which may be nil.\<close>

definition exitEpochOf :: "ExitsConfig \<Rightarrow> op_env \<Rightarrow> nat option \<Rightarrow> u64 option" where
  "exitEpochOf cfg env client =
     (if ExitEpoch cfg \<ge> 0 then Some (of_int (ExitEpoch cfg))
      else case client of None \<Rightarrow> None | Some c \<Rightarrow> divSlots (oeHead env c) (SlotsPerEpoch (oeSpecs env)))"

definition exitForkVersion :: "op_env \<Rightarrow> u32" where
  "exitForkVersion env =
     (if oeForkEpoch env \<ge> CappellaForkEpoch (oeSpecs env) then CappellaForkVersion (oeSpecs env) else oeForkVersion env)"

definition signMessage :: "'k op_libs \<Rightarrow> 'k \<Rightarrow> string \<Rightarrow> u32 \<Rightarrow> root \<Rightarrow> root \<Rightarrow> u8 list" where
  "signMessage L k kind version genesisRoot msgRoot = olSign L k (olSigningRoot L msgRoot (olDomain L kind version genesisRoot))"

definition generateVoluntaryExit ::
    "ExitsConfig \<Rightarrow> 'k op_libs \<Rightarrow> (VoluntaryExit \<Rightarrow> string + root) \<Rightarrow> (nat \<Rightarrow> VoluntaryExit \<times> u8 list \<Rightarrow> go_error) \<Rightarrow> op_env \<Rightarrow> u64 \<Rightarrow>
     (string + VoluntaryExit \<times> u8 list) option" where
  "generateVoluntaryExit cfg L hashRoot submit env accountIdx =
     (case olKey L (validatorKeyPath accountIdx) of
        Inl e \<Rightarrow> Some (Inl (''failed generating validator key: '' @ e))
      | Inr k \<Rightarrow>
          (case findValidator (oeValidators env) (olPub L k) of
             None \<Rightarrow> Some (Inl ''validator not found'')
           | Some v \<Rightarrow>
               if ovExitEpoch v \<noteq> 18446744073709551615 then Some (Inl ''validator is already exited'')
               else
                 (case chooseClient cfg env of
                    Inl e \<Rightarrow> Some (Inl e)
                  | Inr client \<Rightarrow>
                      (case exitEpochOf cfg env client of
                         None \<Rightarrow> None
                       | Some epoch \<Rightarrow>
                           let operation = \<lparr>vxIndex = ovIndex v, vxEpoch = epoch\<rparr>
                           in (case hashRoot operation of
                                 Inl e \<Rightarrow> Some (Inl (''failed to generate root for exit operation: '' @ e))
                               | Inr r \<Rightarrow>
                                   (case olConvert L k of
                                      Some e \<Rightarrow> Some (Inl (''failed converting validator priv key: '' @ e))
                                    | None \<Rightarrow>
                                        let signed = (operation, signMessage L k ''voluntary_exit'' (exitForkVersion env) (oeGenesisRoot env) r)
                                        in (case client of
                                              None \<Rightarrow> None
                                            | Some c \<Rightarrow> Some (case submit c signed of Some e \<Rightarrow> Inl e | None \<Rightarrow> Inr signed))))))))"

section \<open>Changes of BLS credentials\<close>

record BlsChange =
  bcIndex :: u64
  bcFrom :: "u8 list"
  bcTo :: root

text \<open>
  \<open>hashRoot\<close> cannot fail here. \<open>toJson\<close> and \<open>fromJson\<close> are the way into the type of the client library, \<open>encode\<close> the generalized output value (nil when
  that fails); \<open>AwaitReadyEndpoint\<close> returns no client only when the context has ended. The output of the latest change is set before the client is chosen.
\<close>

definition generateBlsChange ::
    "BlsConfig \<Rightarrow> root \<Rightarrow> 'k op_libs \<Rightarrow> u32 \<Rightarrow> (BlsChange \<Rightarrow> root) \<Rightarrow> (BlsChange \<times> u8 list \<Rightarrow> string + 'j) \<Rightarrow> ('j \<Rightarrow> go_error) \<Rightarrow>
     (BlsChange \<times> u8 list \<Rightarrow> string + var_value) \<Rightarrow> string \<Rightarrow> (nat \<Rightarrow> BlsChange \<times> u8 list \<Rightarrow> go_error) \<Rightarrow> op_env \<Rightarrow> u64 \<Rightarrow> check_ctx \<Rightarrow>
     (string + var_value) \<times> check_ctx" where
  "generateBlsChange cfg targetAddr L genesisVersion hashRoot toJson fromJson encode ctxErr submit env accountIdx c =
     (case olKey L (validatorKeyPath accountIdx) of
        Inl e \<Rightarrow> (Inl (''failed generating validator key: '' @ e), c)
      | Inr k \<Rightarrow>
          (case findValidator (oeValidators env) (olPub L k) of
             None \<Rightarrow> (Inl ''validator not found'', c)
           | Some v \<Rightarrow>
               if hd (ovCreds v) \<noteq> 0 then (Inl ''validator does not have 0x00 withdrawal creds'', c)
               else
                 (case olKey L (withdrAccPath accountIdx) of
                    Inl e \<Rightarrow> (Inl (''failed generating key: '' @ e), c)
                  | Inr wk \<Rightarrow>
                      (case olConvert L wk of
                         Some e \<Rightarrow> (Inl (''failed converting validator priv key: '' @ e), c)
                       | None \<Rightarrow>
                           let msg = \<lparr>bcIndex = ovIndex v, bcFrom = olPub L wk, bcTo = targetAddr\<rparr>;
                               signed = (msg, signMessage L wk ''bls_to_execution_change'' genesisVersion (oeGenesisRoot env) (hashRoot msg))
                           in (case toJson signed of
                                 Inl e \<Rightarrow> (Inl e, c)
                               | Inr j \<Rightarrow>
                                   let res = (case encode signed of Inl e \<Rightarrow> VNil | Inr d \<Rightarrow> d);
                                       c1 = setOutput ''latestBlsChange'' res c
                                   in (case chooseClient cfg env of
                                         Inl e \<Rightarrow> (Inl e, c1)
                                       | Inr None \<Rightarrow> (Inl ctxErr, c1)
                                       | Inr (Some client) \<Rightarrow>
                                           (case fromJson j of
                                              Some e \<Rightarrow> (Inl e, c1)
                                            | None \<Rightarrow> (case submit client signed of Some e \<Rightarrow> (Inl e, c1) | None \<Rightarrow> (Inr res, c1)))))))))"

section \<open>Slashings\<close>

record checkpoint =
  cpEpoch :: u64
  cpRoot :: root

record AttestationData =
  sdSlot :: u64
  sdIndex :: u64
  sdBeaconRoot :: root
  sdSource :: checkpoint
  sdTarget :: checkpoint

record IndexedAttestation =
  iaIndices :: "u64 list"
  iaData :: AttestationData
  iaSignature :: "u8 list"

record BlockHeader =
  bhSlot :: u64
  bhProposer :: u64
  bhParentRoot :: root
  bhStateRoot :: root
  bhBodyRoot :: root

definition surroundSource :: "u64 \<Rightarrow> checkpoint" where
  "surroundSource epoch = \<lparr>cpEpoch = epoch, cpRoot = 0x1010101010101010101010101010101010101010101010101010101010101010\<rparr>"

definition surroundData :: "u64 \<Rightarrow> u64 \<Rightarrow> u64 \<Rightarrow> root \<Rightarrow> AttestationData" where
  "surroundData slot source target targetRoot =
     \<lparr>sdSlot = slot, sdIndex = 0, sdBeaconRoot = 0x00000000219ab540356cBB839Cbe05303d7705Fa424242424242424242424242,
      sdSource = surroundSource source, sdTarget = \<lparr>cpEpoch = target, cpRoot = targetRoot\<rparr>\<rparr>"

definition generateSurroundAttesterSlashing ::
    "'k op_libs \<Rightarrow> (AttestationData \<Rightarrow> string + root) \<Rightarrow> op_env \<Rightarrow> u64 \<Rightarrow> 'k \<Rightarrow> (string + IndexedAttestation \<times> IndexedAttestation) option" where
  "generateSurroundAttesterSlashing L hashRoot env validatorIndex k =
     (if oeEpoch env < 4 then Some (Inl ''current epoch too low (require epoch >= 4)'')
      else
        let perEpoch = SlotsPerEpoch (oeSpecs env); slot1 = oeSlot env; slot2 = slot1 - perEpoch - 2
        in (case (divSlots slot1 perEpoch, divSlots slot2 perEpoch) of
              (Some targetEpoch1, Some targetEpoch2) \<Rightarrow>
                let data1 = surroundData slot1 (targetEpoch1 - 3) targetEpoch1 0xaaaaaaaaaaaaaaaaaaaaaaaaaaaaaaaaaaaaaaaaaaaaaaaaaaaaaaaaaaaaaaaa;
                    data2 = surroundData slot2 targetEpoch2 targetEpoch2 0xbbbbbbbbbbbbbbbbbbbbbbbbbbbbbbbbbbbbbbbbbbbbbbbbbbbbbbbbbbbbbbbb;
                    sign = signMessage L k ''beacon_attester'' (oeForkVersion env) (oeGenesisRoot env)
                in Some (case olConvert L k of
                           Some e \<Rightarrow> Inl (''failed converting validator priv key: '' @ e)
                         | None \<Rightarrow>
                             (case hashRoot data1 of
                                Inl e \<Rightarrow> Inl (''cannot build attestation1 data tree root: '' @ e)
                              | Inr r1 \<Rightarrow>
                                  (case hashRoot data2 of
                                     Inl e \<Rightarrow> Inl (''cannot build attestation2 data tree root: '' @ e)
                                   | Inr r2 \<Rightarrow> Inr (\<lparr>iaIndices = [validatorIndex], iaData = data1, iaSignature = sign r1\<rparr>,
                                                   \<lparr>iaIndices = [validatorIndex], iaData = data2, iaSignature = sign r2\<rparr>))))
            | _ \<Rightarrow> None))"

definition generateProposerSlashing ::
    "'k op_libs \<Rightarrow> (BlockHeader \<Rightarrow> string + root) \<Rightarrow> op_env \<Rightarrow> u64 \<Rightarrow> 'k \<Rightarrow> string + (BlockHeader \<times> u8 list) \<times> (BlockHeader \<times> u8 list)" where
  "generateProposerSlashing L hashRoot env validatorIndex k =
     (let header = \<lambda>state body. \<lparr>bhSlot = oeSlot env, bhProposer = validatorIndex,
            bhParentRoot = 0x1010101010101010101010101010101010101010101010101010101010101010, bhStateRoot = state, bhBodyRoot = body\<rparr>;
          header1 = header 0xaaaaaaaaaaaaaaaaaaaaaaaaaaaaaaaaaaaaaaaaaaaaaaaaaaaaaaaaaaaaaaaa 0xa1a1a1a1a1a1a1a1a1a1a1a1a1a1a1a1a1a1a1a1a1a1a1a1a1a1a1a1a1a1a1a1;
          header2 = header 0xbbbbbbbbbbbbbbbbbbbbbbbbbbbbbbbbbbbbbbbbbbbbbbbbbbbbbbbbbbbbbbbb 0xb1b1b1b1b1b1b1b1b1b1b1b1b1b1b1b1b1b1b1b1b1b1b1b1b1b1b1b1b1b1b1b1;
          sign = signMessage L k ''beacon_proposer'' (oeForkVersion env) (oeGenesisRoot env)
      in (case olConvert L k of
            Some e \<Rightarrow> Inl (''failed converting validator priv key: '' @ e)
          | None \<Rightarrow>
              (case hashRoot header1 of
                 Inl e \<Rightarrow> Inl (''cannot build header1 data tree root: '' @ e)
               | Inr r1 \<Rightarrow>
                   (case hashRoot header2 of
                      Inl e \<Rightarrow> Inl (''cannot build header2 data tree root: '' @ e)
                    | Inr r2 \<Rightarrow> Inr ((header1, sign r1), (header2, sign r2))))))"

datatype slashing = AttesterSlashing "IndexedAttestation \<times> IndexedAttestation" | ProposerSlashing "(BlockHeader \<times> u8 list) \<times> (BlockHeader \<times> u8 list)"

definition buildSlashing ::
    "SlashingsConfig \<Rightarrow> 'k op_libs \<Rightarrow> (AttestationData \<Rightarrow> string + root) \<Rightarrow> (BlockHeader \<Rightarrow> string + root) \<Rightarrow> op_env \<Rightarrow> u64 \<Rightarrow> 'k \<Rightarrow>
     (string + slashing) option" where
  "buildSlashing cfg L attRoot headerRoot env validatorIndex k =
     (if SlashingType cfg = ''attester'' \<or> SlashingType cfg = ''surround_attester''
      then map_option (map_sum (\<lambda>e. ''failed generating slashing: '' @ e) AttesterSlashing) (generateSurroundAttesterSlashing L attRoot env validatorIndex k)
      else if SlashingType cfg = ''proposer''
      then Some (map_sum (\<lambda>e. ''failed generating slashing: '' @ e) ProposerSlashing (generateProposerSlashing L headerRoot env validatorIndex k))
      else Some (Inl (''unknown slashing type: '' @ SlashingType cfg)))"

definition generateSlashing ::
    "SlashingsConfig \<Rightarrow> 'k op_libs \<Rightarrow> (AttestationData \<Rightarrow> string + root) \<Rightarrow> (BlockHeader \<Rightarrow> string + root) \<Rightarrow> (nat \<Rightarrow> slashing \<Rightarrow> go_error) \<Rightarrow>
     op_env \<Rightarrow> u64 \<Rightarrow> (string + slashing) option" where
  "generateSlashing cfg L attRoot headerRoot submit env accountIdx =
     (case olKey L (validatorKeyPath accountIdx) of
        Inl e \<Rightarrow> Some (Inl (''failed generating validator key: '' @ e))
      | Inr k \<Rightarrow>
          (case findValidator (oeValidators env) (olPub L k) of
             None \<Rightarrow> Some (Inl ''validator not found'')
           | Some v \<Rightarrow>
               if ovStatus v \<noteq> ''active_ongoing'' then Some (Inl ''validator is not active'')
               else
                 (case buildSlashing cfg L attRoot headerRoot env (ovIndex v) k of
                    None \<Rightarrow> None
                  | Some (Inl e) \<Rightarrow> Some (Inl e)
                  | Some (Inr s) \<Rightarrow>
                      (case chooseClient cfg env of
                         Inl e \<Rightarrow> Some (Inl e)
                       | Inr None \<Rightarrow> None
                       | Inr (Some c) \<Rightarrow> Some (case submit c s of Some e \<Rightarrow> Inl e | None \<Rightarrow> Inr s)))))"

section \<open>The loop over the key indices\<close>

text \<open>
  A round: generating and sending the operation of a key index, which may change the outputs; whether the wait for the next block, if
  there is one, ends with a block (else with the context); and the error of the context at the end of the round.
\<close>

record 'a op_round =
  orGenerate :: "u64 \<Rightarrow> check_ctx \<Rightarrow> ((string + 'a) \<times> check_ctx) option"
  orBlock :: bool
  orCtxErr :: go_error

text \<open>\<open>osSent\<close> lists what was sent with its key index, \<open>osBlocks\<close> counts the blocks taken from the subscription.\<close>

record 'a op_state =
  osNext :: u64
  osLast :: u64
  osPerSlot :: int
  osTotal :: int
  osSent :: "(u64 \<times> 'a) list"
  osBlocks :: nat
  osCtx :: check_ctx

datatype op_end = OpRunning | OpBroke | OpReturned go_error

definition opFirst :: "'z OpConfig_scheme \<Rightarrow> u64" where
  "opFirst cfg = (if ocStartIndex cfg > 0 then of_int (ocStartIndex cfg) else 0)"

definition opStart :: "'z OpConfig_scheme \<Rightarrow> check_ctx \<Rightarrow> 'a op_state" where
  "opStart cfg c = \<lparr>osNext = opFirst cfg, osLast = (if ocIndexCount cfg > 0 then opFirst cfg + of_int (ocIndexCount cfg) else 0),
     osPerSlot = 0, osTotal = 0, osSent = [], osBlocks = 0, osCtx = c\<rparr>"

text \<open>One call of the generating function, with the counting and the outputs of a success.\<close>

definition opAttempt ::
    "((u64 \<times> 'a) list \<Rightarrow> check_ctx \<Rightarrow> check_ctx) \<Rightarrow> 'a op_round \<Rightarrow> 'a op_state \<Rightarrow> 'a op_state option" where
  "opAttempt onSent r s =
     map_option (\<lambda>(res, c).
         case res of
           Inl e \<Rightarrow> s\<lparr>osNext := osNext s + 1, osCtx := c\<rparr>
         | Inr x \<Rightarrow> let sent = osSent s @ [(osNext s, x)]
                   in s\<lparr>osNext := osNext s + 1, osPerSlot := osPerSlot s + 1, osTotal := osTotal s + 1, osSent := sent, osCtx := onSent sent c\<rparr>)
       (orGenerate r (osNext s) (osCtx s))"

fun opLoop ::
    "'z OpConfig_scheme \<Rightarrow> ((u64 \<times> 'a) list \<Rightarrow> check_ctx \<Rightarrow> check_ctx) \<Rightarrow> 'a op_round list \<Rightarrow> 'a op_state \<Rightarrow> (op_end \<times> 'a op_state) option" where
  "opLoop cfg onSent [] s = Some (OpRunning, s)"
| "opLoop cfg onSent (r # rs) s =
     (case opAttempt onSent r s of
        None \<Rightarrow> None
      | Some s1 \<Rightarrow>
          if osLast s1 > 0 \<and> osNext s1 \<ge> osLast s1 then Some (OpBroke, s1)
          else if ocLimitTotal cfg > 0 \<and> osTotal s1 \<ge> ocLimitTotal cfg then Some (OpBroke, s1)
          else if ocLimitPerSlot cfg > 0 \<and> osPerSlot s1 \<ge> ocLimitPerSlot cfg
          then if orBlock r then opLoop cfg onSent rs (s1\<lparr>osPerSlot := 0, osBlocks := osBlocks s1 + 1\<rparr>)
               else Some (OpReturned None, s1\<lparr>osPerSlot := 0\<rparr>)
          else (case orCtxErr r of
                  Some e \<Rightarrow> Some (OpReturned (Some e), s1)
                | None \<Rightarrow> opLoop cfg onSent rs s1))"

definition markSent :: "(u64 \<times> 'a) list \<Rightarrow> check_ctx \<Rightarrow> check_ctx" where
  "markSent sent = ctxSetResult TaskResultSuccess"

definition blsSent :: "(u64 \<times> var_value) list \<Rightarrow> check_ctx \<Rightarrow> check_ctx" where
  "blsSent sent c = ctxSetResult TaskResultSuccess (setOutput ''blsChanges'' (VSlice (map snd sent)) c)"

definition exitRound ::
    "ExitsConfig \<Rightarrow> 'k op_libs \<Rightarrow> (VoluntaryExit \<Rightarrow> string + root) \<Rightarrow> (nat \<Rightarrow> VoluntaryExit \<times> u8 list \<Rightarrow> go_error) \<times> op_env \<times> bool \<times> go_error \<Rightarrow>
     (VoluntaryExit \<times> u8 list) op_round" where
  "exitRound cfg L hashRoot = (\<lambda>(submit, env, block, err).
     \<lparr>orGenerate = (\<lambda>i c. map_option (\<lambda>x. (x, c)) (generateVoluntaryExit cfg L hashRoot submit env i)), orBlock = block, orCtxErr = err\<rparr>)"

definition slashingRound ::
    "SlashingsConfig \<Rightarrow> 'k op_libs \<Rightarrow> (AttestationData \<Rightarrow> string + root) \<Rightarrow> (BlockHeader \<Rightarrow> string + root) \<Rightarrow>
     (nat \<Rightarrow> slashing \<Rightarrow> go_error) \<times> op_env \<times> bool \<times> go_error \<Rightarrow> slashing op_round" where
  "slashingRound cfg L attRoot headerRoot = (\<lambda>(submit, env, block, err).
     \<lparr>orGenerate = (\<lambda>i c. map_option (\<lambda>x. (x, c)) (generateSlashing cfg L attRoot headerRoot submit env i)), orBlock = block, orCtxErr = err\<rparr>)"

definition blsRound ::
    "BlsConfig \<Rightarrow> root \<Rightarrow> 'k op_libs \<Rightarrow> u32 \<Rightarrow> (BlsChange \<Rightarrow> root) \<Rightarrow> (BlsChange \<times> u8 list \<Rightarrow> string + 'j) \<Rightarrow> ('j \<Rightarrow> go_error) \<Rightarrow>
     (BlsChange \<times> u8 list \<Rightarrow> string + var_value) \<Rightarrow> string \<Rightarrow> (nat \<Rightarrow> BlsChange \<times> u8 list \<Rightarrow> go_error) \<times> op_env \<times> bool \<times> go_error \<Rightarrow> var_value op_round" where
  "blsRound cfg targetAddr L genesisVersion hashRoot toJson fromJson encode ctxErr = (\<lambda>(submit, env, block, err).
     \<lparr>orGenerate = (\<lambda>i c. Some (generateBlsChange cfg targetAddr L genesisVersion hashRoot toJson fromJson encode ctxErr submit env i c)),
      orBlock = block, orCtxErr = err\<rparr>)"

text \<open>
  \<open>chain\<close> is the result of \<open>loadChainState\<close>; the fork state it loads is part of each round's environment. The tasks differ in what
  they do after the loop.
\<close>

definition exitsExecute ::
    "ExitsConfig \<Rightarrow> go_error \<Rightarrow> (VoluntaryExit \<times> u8 list) op_round list \<Rightarrow> check_ctx \<Rightarrow> (op_end \<times> (VoluntaryExit \<times> u8 list) op_state) option" where
  "exitsExecute cfg chain rounds c =
     (case chain of
        Some e \<Rightarrow> Some (OpReturned (Some e), opStart cfg c)
      | None \<Rightarrow>
          map_option (\<lambda>(e, s).
              if e = OpBroke
              then (OpReturned None, if osTotal s = 0 then s\<lparr>osCtx := ctxSetResult TaskResultFailure (osCtx s)\<rparr> else s)
              else (e, s))
            (opLoop cfg markSent rounds (opStart cfg c)))"

definition slashingsExecute ::
    "SlashingsConfig \<Rightarrow> go_error \<Rightarrow> slashing op_round list \<Rightarrow> check_ctx \<Rightarrow> (op_end \<times> slashing op_state) option" where
  "slashingsExecute cfg chain rounds c =
     (case chain of
        Some e \<Rightarrow> Some (OpReturned (Some e), opStart cfg c)
      | None \<Rightarrow>
          map_option (\<lambda>(e, s). (if e = OpBroke then OpReturned None else e, s)) (opLoop cfg markSent rounds (opStart cfg c)))"

definition blsExecute :: "BlsConfig \<Rightarrow> var_value op_round list \<Rightarrow> check_ctx \<Rightarrow> (op_end \<times> var_value op_state) option" where
  "blsExecute cfg rounds c =
     map_option (\<lambda>(e, s).
         if e = OpBroke then (OpReturned None, s\<lparr>osCtx := setOutput ''blsChanges'' (VSlice (map snd (osSent s))) (osCtx s)\<rparr>) else (e, s))
       (opLoop cfg blsSent rounds (opStart cfg c))"

section \<open>Loading\<close>

lemma opLoadConfig_valid:
  "opLoadConfig unmarshal consume validate mnemonicOf isValid newSeed config0 = Inr (config, seed) \<Longrightarrow>
     validate config = None \<and> isValid (trimSpace (mnemonicOf config)) \<and> seed = newSeed (trimSpace (mnemonicOf config))"
  by (auto simp: opLoadConfig_def mnemonicToSeed_def Let_def split: sum.splits option.splits if_splits)

lemma trimSpace_ends:
  assumes "trimSpace s \<noteq> []"
  shows "\<not> isSpace (hd (trimSpace s)) \<and> \<not> isSpace (last (trimSpace s))"
proof -
  let ?u = "dropWhile isSpace s" let ?v = "dropWhile isSpace (rev ?u)"
  have v: "?v \<noteq> []" using assms by (simp add: trimSpace_def)
  have last: "\<not> isSpace (hd ?v)" using hd_dropWhile [OF v] .
  have u: "?u \<noteq> []" using v by (metis dropWhile.simps(1) rev.simps(1))
  obtain ys where "rev ?u = ys @ ?v" by (metis takeWhile_dropWhile_id)
  then have "?u = rev ?v @ rev ys" by (metis rev_append rev_rev_ident)
  then have "hd (rev ?v) = hd ?u" using v by (metis hd_append2 rev_is_Nil_conv)
  with hd_dropWhile [OF u] last v show ?thesis by (simp add: trimSpace_def last_rev)
qed

text \<open>The seed of a loaded task is that of its mnemonic without the white space around it, so such space never changes the keys.\<close>

lemma exitsLoadConfig_seed:
  "exitsLoadConfig unmarshal consume isValid newSeed = Inr (config, seed) \<Longrightarrow>
     exitsValidate config = None \<and> seed = newSeed (trimSpace (ocMnemonic config))"
  unfolding exitsLoadConfig_def by (drule opLoadConfig_valid) simp

section \<open>Limits\<close>

text \<open>What holds at the top of each round, after \<open>n\<close> of them.\<close>

definition op_counts :: "'z OpConfig_scheme \<Rightarrow> nat \<Rightarrow> 'a op_state \<Rightarrow> bool" where
  "op_counts cfg n s \<longleftrightarrow>
     unat (osNext s) = unat (opFirst cfg) + n \<and>
     sorted_wrt (<) (map (unat \<circ> fst) (osSent s)) \<and>
     (\<forall>p \<in> set (osSent s). unat (opFirst cfg) \<le> unat (fst p) \<and> unat (fst p) < unat (opFirst cfg) + n) \<and>
     osTotal s = int (length (osSent s)) \<and>
     (ocLimitTotal cfg > 0 \<longrightarrow> osTotal s \<le> ocLimitTotal cfg) \<and>
     (ocLimitPerSlot cfg > 0 \<longrightarrow> osTotal s \<le> ocLimitPerSlot cfg * (int (osBlocks s) + 1))"

text \<open>The sends since the last block, and that no limit is reached.\<close>

definition op_slot :: "'z OpConfig_scheme \<Rightarrow> 'a op_state \<Rightarrow> bool" where
  "op_slot cfg s \<longleftrightarrow>
     (ocLimitPerSlot cfg > 0 \<longrightarrow> osPerSlot s \<le> ocLimitPerSlot cfg \<and> osTotal s \<le> osPerSlot s + ocLimitPerSlot cfg * int (osBlocks s))"

definition op_open :: "'z OpConfig_scheme \<Rightarrow> 'a op_state \<Rightarrow> bool" where
  "op_open cfg s \<longleftrightarrow> op_slot cfg s \<and>
     (osLast s > 0 \<longrightarrow> osNext s < osLast s) \<and> (ocLimitTotal cfg > 0 \<longrightarrow> osTotal s < ocLimitTotal cfg) \<and>
     (ocLimitPerSlot cfg > 0 \<longrightarrow> osPerSlot s < ocLimitPerSlot cfg)"

lemma opAttempt_counts:
  assumes "op_counts cfg n s" "op_open cfg s" "opAttempt onSent r s = Some s1" "unat (opFirst cfg) + Suc n < 2 ^ 64"
  shows "op_counts cfg (Suc n) s1 \<and> op_slot cfg s1 \<and> osLast s1 = osLast s"
proof -
  have nxt: "unat (osNext s + 1) = Suc (unat (osNext s))"
    using assms(1,4) by (simp add: op_counts_def unat_word_ariths)
  obtain res c where g: "orGenerate r (osNext s) (osCtx s) = Some (res, c)"
    using assms(3) by (auto simp: opAttempt_def)
  show ?thesis
  proof (cases res)
    case (Inl e)
    have s1: "s1 = s\<lparr>osNext := osNext s + 1, osCtx := c\<rparr>" using assms(3) g Inl by (simp add: opAttempt_def)
    have "\<forall>p \<in> set (osSent s). unat (opFirst cfg) \<le> unat (fst p) \<and> unat (fst p) < unat (opFirst cfg) + Suc n"
      using assms(1) by (simp add: op_counts_def less_Suc_eq)
    then show ?thesis using assms(1,2) nxt by (simp add: s1 op_counts_def op_open_def op_slot_def) metis
  next
    case (Inr x)
    let ?sent = "osSent s @ [(osNext s, x)]"
    have s1: "s1 = s\<lparr>osNext := osNext s + 1, osPerSlot := osPerSlot s + 1, osTotal := osTotal s + 1, osSent := ?sent, osCtx := onSent ?sent c\<rparr>"
      using assms(3) g Inr by (simp add: opAttempt_def Let_def)
    have slot: "ocLimitPerSlot cfg > 0 \<Longrightarrow> osTotal s + 1 \<le> ocLimitPerSlot cfg * (int (osBlocks s) + 1)"
      using assms(2) by (simp add: op_open_def op_slot_def distrib_left)
    have "sorted_wrt (<) (map (unat \<circ> fst) ?sent)" "\<forall>p \<in> set ?sent. unat (opFirst cfg) \<le> unat (fst p) \<and> unat (fst p) < unat (opFirst cfg) + Suc n"
      using assms(1) by (auto simp: op_counts_def sorted_wrt_append less_Suc_eq)
    moreover have "unat (osNext s + 1) = unat (opFirst cfg) + Suc n" "osTotal s = int (length (osSent s))"
      using assms(1) nxt by (simp_all add: op_counts_def)
    ultimately have "op_counts cfg (Suc n) s1"
      using assms(2) slot by (simp add: s1 op_counts_def op_open_def add1_zle_eq)
    moreover have "op_slot cfg s1" using assms(2) by (auto simp: s1 op_open_def op_slot_def)
    ultimately show ?thesis by (simp add: s1)
  qed
qed

lemma opLoop_counts:
  assumes "op_counts cfg n s" "op_open cfg s" "opLoop cfg onSent rs s = Some (e, t)" "unat (opFirst cfg) + n + length rs < 2 ^ 64"
  shows "\<exists>k \<le> length rs. op_counts cfg (n + k) t \<and>
     (osLast s > 0 \<longrightarrow> unat (opFirst cfg) + n + k \<le> unat (osLast s)) \<and> (e = OpRunning \<longrightarrow> k = length rs \<and> op_open cfg t \<and> osLast t = osLast s) \<and>
     (e = OpBroke \<longrightarrow> osLast s > 0 \<and> unat (osLast s) = unat (opFirst cfg) + n + k \<or> ocLimitTotal cfg > 0 \<and> osTotal t = ocLimitTotal cfg)"
  using assms
proof (induction rs arbitrary: n s)
  case Nil
  then show ?case by (auto simp: op_counts_def op_open_def word_less_nat_alt)
next
  case (Cons r rs)
  from Cons.prems(3) obtain s1 where s1: "opAttempt onSent r s = Some s1" by (auto split: option.splits)
  have c1: "op_counts cfg (Suc n) s1" "op_slot cfg s1" "osLast s1 = osLast s"
    using opAttempt_counts [OF Cons.prems(1,2) s1] Cons.prems(4) by auto
  have nxt: "unat (osNext s1) = unat (opFirst cfg) + Suc n" using c1(1) by (simp add: op_counts_def)
  have le: "osLast s > 0 \<longrightarrow> unat (opFirst cfg) + Suc n \<le> unat (osLast s)"
    using Cons.prems(1,2) by (auto simp: op_counts_def op_open_def word_less_nat_alt)
  have len: "unat (opFirst cfg) + Suc n + length rs < 2 ^ 64" using Cons.prems(4) by simp
  have step: ?case if o: "op_counts cfg (Suc n) s'" "op_open cfg s'" "osLast s' = osLast s" "opLoop cfg onSent rs s' = Some (e, t)" for s'
  proof -
    from Cons.IH [OF o(1,2,4) len] obtain k where "k \<le> length rs" "op_counts cfg (Suc n + k) t"
      "osLast s' > 0 \<longrightarrow> unat (opFirst cfg) + Suc n + k \<le> unat (osLast s')" "e = OpRunning \<longrightarrow> k = length rs \<and> op_open cfg t \<and> osLast t = osLast s'"
      "e = OpBroke \<longrightarrow> osLast s' > 0 \<and> unat (osLast s') = unat (opFirst cfg) + Suc n + k \<or> ocLimitTotal cfg > 0 \<and> osTotal t = ocLimitTotal cfg"
      by blast
    then show ?thesis using o(3) by (intro exI [of _ "Suc k"]) auto
  qed
  have stop: ?case if "op_counts cfg (Suc n) t" "e \<noteq> OpRunning"
    "e = OpBroke \<longrightarrow> osLast s > 0 \<and> unat (osLast s) = unat (opFirst cfg) + Suc n \<or> ocLimitTotal cfg > 0 \<and> osTotal t = ocLimitTotal cfg"
    using that le by (intro exI [of _ "Suc 0"]) auto
  have last: "osLast s > 0 \<and> osNext s1 \<ge> osLast s \<Longrightarrow> unat (osLast s) = unat (opFirst cfg) + Suc n"
    using le nxt by (auto simp: word_le_nat_alt)
  have full: "ocLimitTotal cfg > 0 \<and> osTotal s1 \<ge> ocLimitTotal cfg \<Longrightarrow> osTotal s1 = ocLimitTotal cfg"
    using c1(1) by (auto simp: op_counts_def)
  consider "osLast s > 0 \<and> osNext s1 \<ge> osLast s \<or> ocLimitTotal cfg > 0 \<and> osTotal s1 \<ge> ocLimitTotal cfg"
    | "\<not> (osLast s > 0 \<and> osNext s1 \<ge> osLast s)" "\<not> (ocLimitTotal cfg > 0 \<and> osTotal s1 \<ge> ocLimitTotal cfg)" by blast
  then show ?case
  proof cases
    case 1
    then have "t = s1" "e = OpBroke" using Cons.prems(3) s1 c1(3) by (auto split: if_splits)
    with 1 last full c1(1) show ?thesis by (intro stop) auto
  next
    case 2
    show ?thesis
    proof (cases "ocLimitPerSlot cfg > 0 \<and> osPerSlot s1 \<ge> ocLimitPerSlot cfg")
      case wait: True
      let ?s = "s1\<lparr>osPerSlot := 0, osBlocks := osBlocks s1 + 1\<rparr>"
      have "op_counts cfg (Suc n) ?s" "op_open cfg ?s" "op_counts cfg (Suc n) (s1\<lparr>osPerSlot := 0\<rparr>)"
        using c1 2 wait by (auto simp: op_counts_def op_open_def op_slot_def distrib_left not_le)
      with 2 wait s1 c1(3) Cons.prems(3) step [of ?s] stop show ?thesis by (auto split: if_splits)
    next
      case False
      then have "op_open cfg s1" using c1 2 by (auto simp: op_open_def not_le)
      with 2 False s1 c1 Cons.prems(3) step [of s1] stop show ?thesis by (auto split: if_splits option.splits)
    qed
  qed
qed

lemma opLoop_countsE:
  assumes "op_counts cfg n s" "op_open cfg s" "opLoop cfg onSent rs s = Some (e, t)" "unat (opFirst cfg) + n + length rs < 2 ^ 64"
  obtains k where "op_counts cfg (n + k) t" "osLast s > 0 \<Longrightarrow> unat (opFirst cfg) + n + k \<le> unat (osLast s)"
    "e = OpRunning \<Longrightarrow> k = length rs" "e = OpRunning \<Longrightarrow> op_open cfg t" "e = OpRunning \<Longrightarrow> osLast t = osLast s"
    "e = OpBroke \<Longrightarrow> osLast s > 0 \<and> unat (osLast s) = unat (opFirst cfg) + n + k \<or> ocLimitTotal cfg > 0 \<and> osTotal t = ocLimitTotal cfg"
  using opLoop_counts [OF assms] by (elim exE conjE) (rule that; simp)

lemma opStart_open:
  assumes "unat (opFirst cfg) + nat (ocIndexCount cfg) < 2 ^ 64"
  shows "op_counts cfg 0 (opStart cfg c :: 'a op_state)" "op_open cfg (opStart cfg c :: 'a op_state)"
    and "osLast (opStart cfg c :: 'a op_state) > 0 \<longleftrightarrow> 0 < ocIndexCount cfg"
    and "0 < ocIndexCount cfg \<Longrightarrow> unat (osLast (opStart cfg c :: 'a op_state)) = unat (opFirst cfg) + nat (ocIndexCount cfg)"
proof -
  show l: "unat (osLast (opStart cfg c :: 'a op_state)) = unat (opFirst cfg) + nat (ocIndexCount cfg)" if "0 < ocIndexCount cfg"
  proof -
    have "(of_int (ocIndexCount cfg) :: u64) = of_nat (nat (ocIndexCount cfg))" using that by (simp add: of_nat_nat)
    then have "unat (of_int (ocIndexCount cfg) :: u64) = nat (ocIndexCount cfg)" using assms by (simp only: unat_of_nat) simp
    with that assms show ?thesis by (simp add: opStart_def unat_word_ariths)
  qed
  show p: "osLast (opStart cfg c :: 'a op_state) > 0 \<longleftrightarrow> 0 < ocIndexCount cfg"
  proof (cases "0 < ocIndexCount cfg")
    case True
    then have "0 < unat (osLast (opStart cfg c :: 'a op_state))" using l [OF True] by linarith
    with True show ?thesis by (simp only: word_less_nat_alt unat_0)
  qed (simp add: opStart_def)
  show "op_counts cfg 0 (opStart cfg c :: 'a op_state)" by (simp add: op_counts_def opStart_def)
  have "osNext (opStart cfg c :: 'a op_state) = opFirst cfg" by (simp add: opStart_def)
  then show "op_open cfg (opStart cfg c :: 'a op_state)"
    using l unfolding op_open_def p by (auto simp: op_slot_def word_less_nat_alt) (simp_all add: opStart_def)
qed

text \<open>
  C22. The generator loop of exits, credential changes and slashings sends at most one operation per key index, in ascending order of the
  indices and inside the configured range, never more than the total limit, and in all never more than the slot limit times one more than the number of block events it has taken. This is no bound per slot:
  the subscription buffers ten events, and the loop takes them without waiting. When
  it breaks off, the range is used up or the total limit is reached.
\<close>

theorem operations_within_limits:
  fixes rs :: "'a op_round list"
  assumes "opLoop cfg onSent rs (opStart cfg c) = Some (e, s)"
    and "unat (opFirst cfg) + nat (ocIndexCount cfg) < 2 ^ 64" "unat (opFirst cfg) + length rs < 2 ^ 64"
  shows "sorted_wrt (<) (map (unat \<circ> fst) (osSent s)) \<and>
    (\<forall>p \<in> set (osSent s). unat (opFirst cfg) \<le> unat (fst p) \<and> (0 < ocIndexCount cfg \<longrightarrow> unat (fst p) < unat (opFirst cfg) + nat (ocIndexCount cfg))) \<and>
    (0 < ocLimitTotal cfg \<longrightarrow> int (length (osSent s)) \<le> ocLimitTotal cfg) \<and>
    (0 < ocLimitPerSlot cfg \<longrightarrow> int (length (osSent s)) \<le> ocLimitPerSlot cfg * (int (osBlocks s) + 1)) \<and>
    (e = OpBroke \<longrightarrow> 0 < ocIndexCount cfg \<and> unat (osNext s) = unat (opFirst cfg) + nat (ocIndexCount cfg) \<or>
                     0 < ocLimitTotal cfg \<and> int (length (osSent s)) = ocLimitTotal cfg)"
proof -
  note st = opStart_open [OF assms(2), of c, where 'a = 'a]
  have len: "unat (opFirst cfg) + 0 + length rs < 2 ^ 64" using assms(3) by simp
  obtain k where k: "op_counts cfg k s" "0 < ocIndexCount cfg \<Longrightarrow> unat (opFirst cfg) + k \<le> unat (osLast (opStart cfg c :: 'a op_state))"
    "e = OpBroke \<Longrightarrow> 0 < ocIndexCount cfg \<and> unat (osLast (opStart cfg c :: 'a op_state)) = unat (opFirst cfg) + k \<or> ocLimitTotal cfg > 0 \<and> osTotal s = ocLimitTotal cfg"
    by (rule opLoop_countsE [OF st(1,2) assms(1) len, unfolded add_0_left add_0_right st(3)]) (rule that; blast)
  have "unat (fst p) < unat (opFirst cfg) + nat (ocIndexCount cfg)" if "p \<in> set (osSent s)" "0 < ocIndexCount cfg" for p
    using k(1) k(2) [OF that(2)] st(4) [OF that(2)] that(1) unfolding op_counts_def by fastforce
  moreover have "e = OpBroke \<Longrightarrow> 0 < ocIndexCount cfg \<and> unat (osNext s) = unat (opFirst cfg) + nat (ocIndexCount cfg) \<or>
                     0 < ocLimitTotal cfg \<and> int (length (osSent s)) = ocLimitTotal cfg"
    using k(1,3) st(4) unfolding op_counts_def by auto
  ultimately show ?thesis using k(1) unfolding op_counts_def by (simp, metis)
qed

text \<open>
  C23. With an index count the loop ends: as long as the context lives and blocks keep coming, it has broken off after at most as many rounds as
  there are indices.
\<close>

theorem operations_terminate:
  fixes rs :: "'a op_round list"
  assumes "0 < ocIndexCount cfg" "unat (opFirst cfg) + nat (ocIndexCount cfg) < 2 ^ 64" "length rs = nat (ocIndexCount cfg)"
    and "\<And>r i c. r \<in> set rs \<Longrightarrow> orGenerate r i c \<noteq> None \<and> orBlock r \<and> orCtxErr r = None"
  shows "\<exists>s. opLoop cfg onSent rs (opStart cfg c) = Some (OpBroke, s)"
proof -
  have ends: "\<exists>e s'. opLoop cfg onSent rs' s = Some (e, s') \<and> (e = OpRunning \<or> e = OpBroke)" if "set rs' \<subseteq> set rs" for rs' s
    using that
  proof (induction rs' arbitrary: s)
    case (Cons r rs')
    from Cons.prems have r: "orBlock r" "orCtxErr r = None" "orGenerate r i c \<noteq> None" for i c using assms(4) by auto
    obtain s1 where "opAttempt onSent r s = Some s1"
      using r(3) [of "osNext s" "osCtx s"] by (auto simp: opAttempt_def)
    with Cons r show ?case by simp
  qed simp
  then obtain e s where es: "opLoop cfg onSent rs (opStart cfg c) = Some (e, s)" "e = OpRunning \<or> e = OpBroke" by blast
  note st = opStart_open [OF assms(2), of c, where 'a = 'a]
  have len: "unat (opFirst cfg) + 0 + length rs < 2 ^ 64" using assms(2,3) by simp
  have "e \<noteq> OpRunning"
  proof
    assume "e = OpRunning"
    with es(1) have run: "opLoop cfg onSent rs (opStart cfg c) = Some (OpRunning, s)" by simp
    have "op_counts cfg (length rs) s" "op_open cfg s" "osLast s = osLast (opStart cfg c :: 'a op_state)"
      using opLoop_counts [OF st(1,2) run len] by auto
    then have "unat (osNext s) = unat (osLast s)" "osNext s < osLast s"
      using st(3,4) assms(1,3) by (auto simp: op_counts_def op_open_def)
    then show False by (simp add: word_less_nat_alt)
  qed
  with es show ?thesis by blast
qed

text \<open>Three indices from five on, of which the second fails, at one operation per block.\<close>

definition demoOps :: ExitsConfig where
  "demoOps = exitsDefault\<lparr>ocLimitPerSlot := 1, ocStartIndex := 5, ocIndexCount := 3\<rparr>"

definition demoOpRound :: "u64 op_round" where
  "demoOpRound = \<lparr>orGenerate = (\<lambda>i c. Some (if i = 6 then Inl ''validator not found'' else Inr i, c)), orBlock = True, orCtxErr = None\<rparr>"

definition demoOpRun :: "(op_end \<times> u64 op_state) option" where
  "demoOpRun = opLoop demoOps markSent (replicate 3 demoOpRound) (opStart demoOps \<lparr>ccResult = TaskResultNone, ccOutputs = [], ccVars = []\<rparr>)"

lemma demoOps_first [simp]: "opFirst demoOps = 5" "ocIndexCount demoOps = 3" "ocLimitPerSlot demoOps = 1" "ocLimitTotal demoOps = 0"
  by (simp_all add: opFirst_def demoOps_def exitsDefault_def)

theorem operations_within_limits_witness:
  "\<exists>e s. demoOpRun = Some (e, s) \<and> osSent s = [(5, 5), (7, 7)] \<and> length (osSent s) \<le> Suc (osBlocks s)"
proof -
  have "map_option (osSent \<circ> snd) demoOpRun = Some [(5, 5), (7, 7)]" by code_simp
  then obtain e s where s: "demoOpRun = Some (e, s)" "osSent s = [(5, 5), (7, 7)]" by auto
  from operations_within_limits [OF s(1) [unfolded demoOpRun_def]] s show ?thesis by (intro exI [of _ e] exI [of _ s]) simp
qed

theorem operations_terminate_witness: "\<exists>s. demoOpRun = Some (OpBroke, s)"
  unfolding demoOpRun_def by (rule operations_terminate) (auto simp: demoOpRound_def)

text \<open>
  Without an index count nothing ends the loop once the validators of the mnemonic are used up: every further index fails, a failure counts
  for no limit, and the loop goes on at full speed without waiting for a block or setting a result.
\<close>

lemma failing_rounds_spin:
  assumes "osLast s = 0" "ocLimitTotal cfg > 0 \<longrightarrow> osTotal s < ocLimitTotal cfg" "ocLimitPerSlot cfg > 0 \<longrightarrow> osPerSlot s < ocLimitPerSlot cfg"
    and "\<And>r i c. r \<in> set rs \<Longrightarrow> (\<exists>e. orGenerate r i c = Some (Inl e, c)) \<and> orCtxErr r = None"
  shows "opLoop cfg onSent rs s = Some (OpRunning, s\<lparr>osNext := osNext s + of_nat (length rs)\<rparr>)"
  using assms
proof (induction rs arbitrary: s)
  case (Cons r rs)
  obtain e where e: "orGenerate r (osNext s) (osCtx s) = Some (Inl e, osCtx s)" using Cons.prems(4) [of r] by auto
  have c: "orCtxErr r = None" using Cons.prems(4) [of r] by simp
  let ?s = "s\<lparr>osNext := osNext s + 1\<rparr>"
  have "opLoop cfg onSent rs ?s = Some (OpRunning, ?s\<lparr>osNext := osNext ?s + of_nat (length rs)\<rparr>)"
    using Cons.prems by (intro Cons.IH) auto
  with Cons.prems(1-3) e c show ?case by (auto simp: opAttempt_def not_le ac_simps)
qed simp

section \<open>The slashing is one\<close>

lemma surround_epochs:
  fixes n S :: nat
  assumes "2 \<le> S" "4 \<le> n div S"
  shows "S + 2 \<le> n" "n div S - 3 < (n - S - 2) div S" "(n - S - 2) div S < n div S"
proof -
  have n: "4 * S \<le> n" using assms by (simp add: less_eq_div_iff_mult_less_eq)
  then show "S + 2 \<le> n" using assms(1) by linarith
  obtain q r where qr: "n = q * S + r" "r < S" "q = n div S" using assms(1) by (metis div_mod_decomp mod_less_divisor less_le_trans zero_less_numeral)
  obtain p where p: "q = p + 4" using assms(2) qr(3) by (metis add.commute le_iff_add)
  have "(p + 2) * S \<le> n - S - 2" using qr(1) assms(1) unfolding p by (simp add: algebra_simps)
  then have "p + 2 \<le> (n - S - 2) div S" using assms(1) by (simp add: less_eq_div_iff_mult_less_eq)
  then show "n div S - 3 < (n - S - 2) div S" using qr(3) p by simp
  have "0 < q * S" using p assms(1) by simp
  then have "n - S - 2 < q * S" using qr(1,2) by linarith
  then show "(n - S - 2) div S < n div S" using assms(1) qr(3) by (simp add: div_less_iff_less_mult)
qed

text \<open>
  C24. The two attestations built for a slashing make a surround vote by the rule of the consensus specification: from epoch four on and with two or more slots per
  epoch, no subtraction underflows, the first source lies before the second, the second target lies before the first, and both are votes of the given
  validator alone, each signed over its own data.
\<close>

theorem surround_slashing_slashable:
  assumes "generateSurroundAttesterSlashing L hashRoot env validatorIndex k = Some (Inr (a1, a2))"
    and "oeEpoch env = oeSlot env div SlotsPerEpoch (oeSpecs env)" "2 \<le> SlotsPerEpoch (oeSpecs env)"
  shows "cpEpoch (sdSource (iaData a1)) < cpEpoch (sdSource (iaData a2)) \<and> cpEpoch (sdTarget (iaData a2)) < cpEpoch (sdTarget (iaData a1)) \<and>
    (\<forall>a \<in> {a1, a2}. iaIndices a = [validatorIndex] \<and>
       (\<exists>r. hashRoot (iaData a) = Inr r \<and> iaSignature a = signMessage L k ''beacon_attester'' (oeForkVersion env) (oeGenesisRoot env) r))"
proof -
  let ?S = "SlotsPerEpoch (oeSpecs env)" and ?n = "oeSlot env"
  have nz: "?S \<noteq> 0" using assms(3) by auto
  have S: "2 \<le> unat ?S" using assms(3) by (simp add: word_le_nat_alt)
  have e: "4 \<le> unat ?n div unat ?S" using assms(1,2) by (auto simp: generateSurroundAttesterSlashing_def word_less_nat_alt unat_div not_less split: if_splits)
  note se = surround_epochs [OF S e]
  have u2: "unat (?n - ?S - 2) = unat ?n - unat ?S - 2"
    using se(1) by (simp add: unat_sub_if' word_le_nat_alt)
  have t: "unat (?n div ?S) = unat ?n div unat ?S" "unat ((?n - ?S - 2) div ?S) = (unat ?n - unat ?S - 2) div unat ?S"
    by (simp_all add: unat_div u2)
  have u3: "unat (?n div ?S - 3) = unat ?n div unat ?S - 3" using e by (simp add: unat_sub_if' t(1))
  have "?n div ?S - 3 < (?n - ?S - 2) div ?S" "(?n - ?S - 2) div ?S < ?n div ?S"
    using se(2,3) by (simp_all add: word_less_nat_alt t u3)
  with assms(1) nz show ?thesis
    by (auto simp: generateSurroundAttesterSlashing_def divSlots_def surroundData_def surroundSource_def Let_def split: if_splits option.splits sum.splits)
qed

definition demoOpLibs :: "unit op_libs" where
  "demoOpLibs = \<lparr>olKey = (\<lambda>path. Inr ()), olPub = (\<lambda>k. [1]), olConvert = (\<lambda>k. None), olSign = (\<lambda>k r. [ucast r]),
     olDomain = (\<lambda>kind version r. r + ucast version), olSigningRoot = (\<lambda>r d. r + d)\<rparr>"

definition demoOpEnv :: op_env where
  "demoOpEnv = \<lparr>oeValidators = [\<lparr>ovIndex = 9, ovPubkey = [1], ovExitEpoch = 18446744073709551615, ovStatus = ''active_ongoing'', ovCreds = [0]\<rparr>],
     oeReady = Some 0, oeByName = [], oeHead = (\<lambda>c. 33), oeSlot = 33, oeEpoch = 4,
     oeSpecs = \<lparr>PresetBase = ''minimal'', ConfigName = '''', MinGenesisTime = 0, GenesisForkVersion = 0, AltairForkVersion = 1, AltairForkEpoch = 0,
       BellatrixForkVersion = 2, BellatrixForkEpoch = 0, CappellaForkVersion = 3, CappellaForkEpoch = 0, SecondsPerSlot = 6, SlotsPerEpoch = 8,
       MaxCommitteesPerSlot = 4\<rparr>, oeGenesisRoot = 7, oeForkVersion = 4, oeForkEpoch = 2\<rparr>"

definition demoSurround :: "IndexedAttestation \<times> IndexedAttestation" where
  "demoSurround = projr (the (generateSurroundAttesterSlashing demoOpLibs (\<lambda>d. Inr (ucast (sdSlot d))) demoOpEnv 9 ()))"

theorem surround_slashing_slashable_witness:
  "cpEpoch (sdSource (iaData (fst demoSurround))) < cpEpoch (sdSource (iaData (snd demoSurround))) \<and>
   cpEpoch (sdTarget (iaData (snd demoSurround))) < cpEpoch (sdTarget (iaData (fst demoSurround)))"
proof -
  have "generateSurroundAttesterSlashing demoOpLibs (\<lambda>d. Inr (ucast (sdSlot d))) demoOpEnv 9 () = Some (Inr (fst demoSurround, snd demoSurround))"
    by (simp add: demoSurround_def generateSurroundAttesterSlashing_def demoOpEnv_def demoOpLibs_def divSlots_def Let_def)
  from surround_slashing_slashable [OF this] show ?thesis by (simp add: demoOpEnv_def)
qed

text \<open>
  An exit that was sent is that of the validator whose key is derived at the index, which had not exited, signed under the Capella version from that
  fork on.
\<close>

lemma generateVoluntaryExit_sent:
  assumes "generateVoluntaryExit cfg L hashRoot submit env i = Some (Inr (op, sig))"
  shows "\<exists>k v r. olKey L (validatorKeyPath i) = Inr k \<and> v \<in> set (oeValidators env) \<and> ovPubkey v = olPub L k \<and> ovExitEpoch v = 18446744073709551615 \<and>
    vxIndex op = ovIndex v \<and> hashRoot op = Inr r \<and> sig = signMessage L k ''voluntary_exit'' (exitForkVersion env) (oeGenesisRoot env) r"
  using assms
  by (auto simp: generateVoluntaryExit_def findValidator_def find_Some_iff Let_def split: sum.splits option.splits if_splits) (metis nth_mem)

text \<open>Without a ready client the task panics instead of counting a failure.\<close>

lemma exit_without_client_panics:
  assumes "olKey L (validatorKeyPath i) = Inr k" "findValidator (oeValidators env) (olPub L k) = Some v" "ovExitEpoch v = 18446744073709551615"
    and "ocClientPattern cfg = ''''" "ocExcludeClientPattern cfg = ''''" "oeReady env = None" "ExitEpoch cfg < 0"
  shows "generateVoluntaryExit cfg L hashRoot submit env i = None"
  using assms by (simp add: generateVoluntaryExit_def chooseClient_def exitEpochOf_def)

end
