(* ===== verification/TxRequests.thy ===== *)
theory TxRequests
  imports TxGenerators ValidatorOps WalletPool
begin

text \<open>
  The transactions of the generator tasks: deposits, consolidations, withdrawal requests, plain and blob transactions, with their
  configurations, what their loops do at the end, and the calls through the wallet. Key derivation, hashing, hex decoding, random numbers, blob sidecars
  and the contract binding are libraries. A panic, and a call that does not return, is None.
\<close>

section \<open>Configurations\<close>

record DepositsConfig =
  dcLimitPerSlot :: int
  dcLimitTotal :: int
  dcLimitPending :: int
  dcMnemonic :: string
  dcStartIndex :: int
  dcIndexCount :: int
  dcPublicKey :: string
  dcWalletPrivkey :: string
  dcDepositContract :: string
  dcDepositAmount :: u64
  dcTxFeeCap :: int
  dcTxTipCap :: int
  dcWithdrawalCredentials :: string
  dcTopUpDeposit :: bool
  dcClientPattern :: string
  dcExcludeClientPattern :: string
  dcAwaitReceipt :: bool
  dcFailOnReject :: bool
  dcTransactionsResultVar :: string
  dcReceiptsResultVar :: string
  dcPubkeysResultVar :: string

definition depositsDefault :: DepositsConfig where
  "depositsDefault = \<lparr>dcLimitPerSlot = 0, dcLimitTotal = 0, dcLimitPending = 0, dcMnemonic = '''', dcStartIndex = 0, dcIndexCount = 0, dcPublicKey = '''',
     dcWalletPrivkey = '''', dcDepositContract = '''', dcDepositAmount = 32, dcTxFeeCap = 100000000000, dcTxTipCap = 1000000000,
     dcWithdrawalCredentials = '''', dcTopUpDeposit = False, dcClientPattern = '''', dcExcludeClientPattern = '''', dcAwaitReceipt = False,
     dcFailOnReject = False, dcTransactionsResultVar = '''', dcReceiptsResultVar = '''', dcPubkeysResultVar = ''''\<rparr>"

definition depositsValidate :: "DepositsConfig \<Rightarrow> go_error" where
  "depositsValidate c =
     (if dcLimitPerSlot c = 0 \<and> dcLimitTotal c = 0 \<and> dcIndexCount c = 0 then Some ''either limitPerSlot or limitTotal or indexCount must be set''
      else if dcMnemonic c = '''' \<and> dcPublicKey c = '''' then Some ''mnemonic or publickey must be set''
      else if dcMnemonic c \<noteq> '''' \<and> dcPublicKey c \<noteq> '''' then Some ''only one of mnemonic or publickey must be set''
      else if dcPublicKey c \<noteq> '''' \<and> \<not> dcTopUpDeposit c then Some ''publicKey can only be used with topUpDeposit''
      else if dcWalletPrivkey c = '''' then Some ''walletPrivkey must be set''
      else if dcDepositContract c = '''' then Some ''depositContract must be set''
      else if dcDepositAmount c = 0 then Some ''depositAmount must be > 0'' else None)"

record RequestConfig =
  rqLimitPerSlot :: int
  rqLimitTotal :: int
  rqLimitPending :: int
  rqSourceMnemonic :: string
  rqSourceStartIndex :: int
  rqSourceStartValidatorIndex :: "u64 option"
  rqSourceIndexCount :: int
  rqWalletPrivkey :: string
  rqContract :: string
  rqTxAmount :: int
  rqTxFeeCap :: int
  rqTxTipCap :: int
  rqTxGasLimit :: u64
  rqClientPattern :: string
  rqExcludeClientPattern :: string
  rqAwaitReceipt :: bool
  rqFailOnReject :: bool

record ConsolidationsConfig = RequestConfig +
  ccTargetPublicKey :: string
  ccTargetValidatorIndex :: "u64 option"
  ccConsolidationEpoch :: "u64 option"

record WithdrawalsConfig = RequestConfig +
  wcSourcePubkey :: string
  wcWithdrawAmount :: u64

definition consolidationsDefault :: ConsolidationsConfig where
  "consolidationsDefault = \<lparr>rqLimitPerSlot = 0, rqLimitTotal = 0, rqLimitPending = 0, rqSourceMnemonic = '''', rqSourceStartIndex = 0,
     rqSourceStartValidatorIndex = None, rqSourceIndexCount = 0, rqWalletPrivkey = '''', rqContract = ''0x0000BBdDc7CE488642fb579F8B00f3a590007251'',
     rqTxAmount = 500000000000000000, rqTxFeeCap = 100000000000, rqTxTipCap = 1000000000, rqTxGasLimit = 200000, rqClientPattern = '''',
     rqExcludeClientPattern = '''', rqAwaitReceipt = False, rqFailOnReject = False, ccTargetPublicKey = '''', ccTargetValidatorIndex = None,
     ccConsolidationEpoch = None\<rparr>"

definition withdrawalsDefault :: WithdrawalsConfig where
  "withdrawalsDefault = \<lparr>rqLimitPerSlot = 0, rqLimitTotal = 0, rqLimitPending = 0, rqSourceMnemonic = '''', rqSourceStartIndex = 0,
     rqSourceStartValidatorIndex = None, rqSourceIndexCount = 0, rqWalletPrivkey = '''', rqContract = ''0x00000961Ef480Eb55e80D19ad83579A64c007002'',
     rqTxAmount = 500000000000000000, rqTxFeeCap = 100000000000, rqTxTipCap = 1000000000, rqTxGasLimit = 200000, rqClientPattern = '''',
     rqExcludeClientPattern = '''', rqAwaitReceipt = False, rqFailOnReject = False, wcSourcePubkey = '''', wcWithdrawAmount = 0\<rparr>"

definition consolidationsValidate :: "ConsolidationsConfig \<Rightarrow> go_error" where
  "consolidationsValidate c =
     (if rqLimitTotal c = 0 \<and> rqSourceIndexCount c = 0 then Some ''either limitTotal or indexCount must be set''
      else if rqSourceMnemonic c = '''' \<and> rqSourceStartValidatorIndex c = None
      then Some ''either sourceMnemonic with sourceStartIndex or sourceStartValidatorIndex must be set''
      else if ccTargetValidatorIndex c = None \<and> ccTargetPublicKey c = '''' then Some ''either targetValidatorIndex or targetPublicKey must be set'' else None)"

definition withdrawalsValidate :: "WithdrawalsConfig \<Rightarrow> go_error" where
  "withdrawalsValidate c =
     (if rqLimitTotal c = 0 \<and> rqLimitPerSlot c = 0 then Some ''either limitTotal or limitPerSlot must be set''
      else if wcSourcePubkey c = '''' \<and> rqSourceMnemonic c = '''' \<and> rqSourceStartValidatorIndex c = None
      then Some ''either sourcePubkey or sourceMnemonic with sourceStartIndex or sourceStartValidatorIndex must be set'' else None)"

record TxConfig =
  tcLimitPerBlock :: int
  tcLimitTotal :: int
  tcLimitPending :: int
  tcPrivateKey :: string
  tcChildWallets :: u64
  tcWalletSeed :: string
  tcRefillPendingLimit :: u64
  tcRefillFeeCap :: int
  tcRefillTipCap :: int
  tcRefillAmount :: int
  tcRefillMinBalance :: int
  tcFeeCap :: int
  tcTipCap :: int
  tcGasLimit :: u64
  tcTargetAddress :: string
  tcRandomTarget :: bool
  tcCallData :: string
  tcRandomAmount :: bool
  tcAmount :: int
  tcClientPattern :: string
  tcExcludeClientPattern :: string

record EoaConfig = TxConfig +
  ecLegacyTxType :: bool
  ecContractDeployment :: bool
  ecAwaitReceipt :: bool
  ecFailOnReject :: bool
  ecFailOnSuccess :: bool

record BlobConfig = TxConfig +
  bcBlobSidecars :: u64
  bcBlobFeeCap :: int
  bcBlobData :: string

definition eoaDefault :: EoaConfig where
  "eoaDefault = \<lparr>tcLimitPerBlock = 0, tcLimitTotal = 0, tcLimitPending = 0, tcPrivateKey = '''', tcChildWallets = 0, tcWalletSeed = '''',
     tcRefillPendingLimit = 200, tcRefillFeeCap = 500000000000, tcRefillTipCap = 1000000000, tcRefillAmount = 1000000000000000000,
     tcRefillMinBalance = 500000000000000000, tcFeeCap = 100000000000, tcTipCap = 1000000000, tcGasLimit = 50000, tcTargetAddress = '''',
     tcRandomTarget = False, tcCallData = '''', tcRandomAmount = False, tcAmount = 0, tcClientPattern = '''', tcExcludeClientPattern = '''',
     ecLegacyTxType = False, ecContractDeployment = False, ecAwaitReceipt = False, ecFailOnReject = False, ecFailOnSuccess = False\<rparr>"

definition blobDefault :: BlobConfig where
  "blobDefault = \<lparr>tcLimitPerBlock = 0, tcLimitTotal = 0, tcLimitPending = 0, tcPrivateKey = '''', tcChildWallets = 0, tcWalletSeed = '''',
     tcRefillPendingLimit = 200, tcRefillFeeCap = 500000000000, tcRefillTipCap = 1000000000, tcRefillAmount = 1000000000000000000,
     tcRefillMinBalance = 500000000000000000, tcFeeCap = 100000000000, tcTipCap = 2000000000, tcGasLimit = 100000, tcTargetAddress = '''',
     tcRandomTarget = False, tcCallData = '''', tcRandomAmount = False, tcAmount = 0, tcClientPattern = '''', tcExcludeClientPattern = '''',
     bcBlobSidecars = 1, bcBlobFeeCap = 10000000000, bcBlobData = ''''\<rparr>"

definition eoaValidate :: "'z TxConfig_scheme \<Rightarrow> go_error" where
  "eoaValidate c =
     (if tcLimitPerBlock c = 0 \<and> tcLimitTotal c = 0 \<and> tcLimitPending c = 0 then Some ''either limitPerBlock or limitTotal or limitPending must be set''
      else if tcPrivateKey c = '''' then Some ''privateKey must be set'' else None)"

text \<open>
  Loading the configuration of the three tasks that call a contract: the seed is made only from a configured mnemonic. \<open>toKey\<close> decodes the key of the wallet,
  \<open>seedErr\<close> and \<open>keyErr\<close> wrap the errors.
\<close>

definition requestLoadConfig ::
    "('c \<Rightarrow> string + 'c) \<Rightarrow> ('c \<Rightarrow> string + 'c) \<Rightarrow> ('c \<Rightarrow> go_error) \<Rightarrow> ('c \<Rightarrow> string) \<Rightarrow> ('c \<Rightarrow> string) \<Rightarrow> (string \<Rightarrow> bool) \<Rightarrow> (string \<Rightarrow> u8 list) \<Rightarrow>
     (string \<Rightarrow> string + 'p) \<Rightarrow> (string \<Rightarrow> string) \<Rightarrow> (string \<Rightarrow> string) \<Rightarrow> 'c \<Rightarrow> string + 'c \<times> u8 list option \<times> 'p" where
  "requestLoadConfig unmarshal consume validate mnemonicOf privkeyOf isValid newSeed toKey seedErr keyErr config0 =
     (case unmarshal config0 of
        Inl e \<Rightarrow> Inl (''error parsing task config: '' @ e)
      | Inr config1 \<Rightarrow>
          (case consume config1 of
             Inl e \<Rightarrow> Inl e
           | Inr config \<Rightarrow>
               (case validate config of
                  Some e \<Rightarrow> Inl e
                | None \<Rightarrow>
                    (case (if mnemonicOf config \<noteq> '''' then map_sum seedErr Some (mnemonicToSeed isValid newSeed (mnemonicOf config)) else Inr None) of
                       Inl e \<Rightarrow> Inl e
                     | Inr seed \<Rightarrow> (case toKey (privkeyOf config) of Inl e \<Rightarrow> Inl (keyErr e) | Inr key \<Rightarrow> Inr (config, seed, key))))))"

definition depositsLoadConfig where
  "depositsLoadConfig unmarshal consume isValid newSeed toKey =
     requestLoadConfig unmarshal consume depositsValidate dcMnemonic dcWalletPrivkey isValid newSeed toKey id id depositsDefault"

definition consolidationsLoadConfig where
  "consolidationsLoadConfig unmarshal consume isValid newSeed toKey =
     requestLoadConfig unmarshal consume consolidationsValidate rqSourceMnemonic rqWalletPrivkey isValid newSeed toKey id id consolidationsDefault"

definition withdrawalsLoadConfig where
  "withdrawalsLoadConfig unmarshal consume isValid newSeed toKey =
     requestLoadConfig unmarshal consume withdrawalsValidate rqSourceMnemonic rqWalletPrivkey isValid newSeed toKey
       ((@) ''failed parsing sourceMnemonic: '') ((@) ''failed parsing walletPrivKey: '') withdrawalsDefault"

text \<open>
  The tasks with plain and blob transactions take the wallet of the key, or a pool of child wallets of it; \<open>addrErr\<close> is the decoding of the target address.
\<close>

type_synonym tx_wallet = "root + wallet_pool"

definition loadTxWallet ::
    "(string \<Rightarrow> root) \<Rightarrow> (string \<Rightarrow> string) \<Rightarrow> (string \<Rightarrow> string + string) \<Rightarrow> 'z TxConfig_scheme \<Rightarrow> string \<Rightarrow> manager \<Rightarrow> (string + tx_wallet) \<times> manager" where
  "loadTxWallet addressOf sha256 toKey config privKey m =
     (if tcChildWallets config = 0 then apfst (Inr \<circ> Inl) (GetWalletByPrivkey addressOf privKey m)
      else apfst (map_sum ((@) ''cannot initialize wallet pool: '') Inr)
             (GetWalletPoolByPrivkey addressOf sha256 toKey privKey (tcChildWallets config) (tcWalletSeed config) m))"

definition txLoadConfig ::
    "('z TxConfig_scheme \<Rightarrow> string + 'z TxConfig_scheme) \<Rightarrow> ('z TxConfig_scheme \<Rightarrow> string + 'z TxConfig_scheme) \<Rightarrow> (string \<Rightarrow> string + string) \<Rightarrow> (string \<Rightarrow> root) \<Rightarrow>
     (string \<Rightarrow> string) \<Rightarrow> (string \<Rightarrow> string + string) \<Rightarrow> (string \<Rightarrow> go_error) \<Rightarrow> 'z TxConfig_scheme \<Rightarrow> manager \<Rightarrow> (string + 'z TxConfig_scheme \<times> tx_wallet) \<times> manager" where
  "txLoadConfig unmarshal consume hexToKey addressOf sha256 toKey addrErr config0 m =
     (case unmarshal config0 of
        Inl e \<Rightarrow> (Inl (''error parsing task config: '' @ e), m)
      | Inr config1 \<Rightarrow>
          (case consume config1 of
             Inl e \<Rightarrow> (Inl e, m)
           | Inr config \<Rightarrow>
               (case eoaValidate config of
                  Some e \<Rightarrow> (Inl e, m)
                | None \<Rightarrow>
                    (case hexToKey (tcPrivateKey config) of
                       Inl e \<Rightarrow> (Inl e, m)
                     | Inr privKey \<Rightarrow>
                         (case loadTxWallet addressOf sha256 toKey config privKey m of
                            (Inl e, m1) \<Rightarrow> (Inl e, m1)
                          | (Inr tw, m1) \<Rightarrow>
                              (case (if tcTargetAddress config \<noteq> '''' then addrErr (tcTargetAddress config) else None) of
                                 Some e \<Rightarrow> (Inl (''cannot decode execution addr: '' @ e), m1)
                               | None \<Rightarrow> (Inr (config, tw), m1)))))))"

section \<open>Building and sending\<close>

definition executionClients :: "string \<Rightarrow> string \<Rightarrow> nat list \<Rightarrow> nat list \<Rightarrow> string + nat list" where
  "executionClients clientPattern excludePattern ready byName =
     (if clientPattern = '''' \<and> excludePattern = '''' then (if ready = [] then Inl ''no ready clients available'' else Inr ready)
      else if byName = [] then Inl ''no client found with pattern'' else Inr byName)"

text \<open>The wallet and the nodes during a call: the context, the signing of the transaction and the answer of each client.\<close>

record send_env =
  seCtxErr :: go_error
  sePickCtx :: bool
  seSignErr :: go_error
  seAttempt :: "nat \<Rightarrow> go_error"

definition sendBuilt :: "send_env \<Rightarrow> nat list \<Rightarrow> u64 \<Rightarrow> tx \<Rightarrow> wallet \<Rightarrow> (go_error \<times> wallet) option" where
  "sendBuilt E cs offset tx w =
     map_option (\<lambda>((err, tried), w1). (err, w1)) (SendTransaction (seCtxErr E) (sePickCtx E) cs offset True (seAttempt E) tx w)"

definition requestSend :: "send_env \<Rightarrow> string + nat list \<Rightarrow> (u64 \<Rightarrow> string + tx) \<Rightarrow> wallet \<Rightarrow> (gen_outcome \<times> wallet) option" where
  "requestSend E chosen buildFn w =
     (case chosen of
        Inl e \<Rightarrow> Some (NotSent, w)
      | Inr cs \<Rightarrow>
          (case AwaitReady (seCtxErr E) (sePickCtx E) w of
             None \<Rightarrow> None
           | Some (Some e) \<Rightarrow> Some (NotSent, w)
           | Some None \<Rightarrow>
               (case BuildTransaction (seCtxErr E) (sePickCtx E) buildFn (seSignErr E) w of
                  None \<Rightarrow> None
                | Some (Inl e, w1) \<Rightarrow> Some (NotSent, w1)
                | Some (Inr tx, w1) \<Rightarrow>
                    (case sendBuilt E cs 0 tx w1 of
                       None \<Rightarrow> None
                     | Some (Some e, w2) \<Rightarrow> Some (SendFailed (txHash tx), w2)
                     | Some (None, w2) \<Rightarrow> Some (Sent (txHash tx), w2)))))"

text \<open>\<open>copy\<close> into a slice.\<close>

definition goCopy :: "u8 list \<Rightarrow> u8 list \<Rightarrow> u8 list" where
  "goCopy dst src = take (length dst) src @ drop (length src) dst"

section \<open>Deposits\<close>

record DepositData =
  ddPubkey :: "u8 list"
  ddCreds :: "u8 list"
  ddAmount :: u64
  ddSignature :: "u8 list"

text \<open>The seed of the task is nil exactly if no mnemonic is configured. \<open>hash\<close> is the hash of a withdrawal key.\<close>

definition depositKey :: "DepositsConfig \<Rightarrow> 'k op_libs \<Rightarrow> (string \<Rightarrow> u8 list) \<Rightarrow> u64 \<Rightarrow> string + 'k option \<times> u8 list" where
  "depositKey cfg L fromHex accountIdx =
     (if dcMnemonic cfg \<noteq> ''''
      then (case olKey L (validatorKeyPath accountIdx) of
              Inl e \<Rightarrow> Inl (''failed generating validator key: '' @ e)
            | Inr k \<Rightarrow> Inr (Some k, olPub L k))
      else Inr (None, fromHex (dcPublicKey cfg)))"

definition depositCreds :: "DepositsConfig \<Rightarrow> 'k op_libs \<Rightarrow> (string \<Rightarrow> u8 list) \<Rightarrow> (u8 list \<Rightarrow> u8 list) \<Rightarrow> u64 \<Rightarrow> string + u8 list" where
  "depositCreds cfg L fromHex hash accountIdx =
     (if dcWithdrawalCredentials cfg \<noteq> '''' then Inr (fromHex (dcWithdrawalCredentials cfg))
      else if dcTopUpDeposit cfg then Inr (replicate 32 0)
      else (case olKey L (withdrAccPath accountIdx) of
              Inl e \<Rightarrow> Inl (''failed generating key: '' @ e)
            | Inr k \<Rightarrow> Inr ((hash (olPub L k))[0 := 0])))"

text \<open>The credentials are converted to an array of 32 bytes, which panics for fewer; a longer slice is cut.\<close>

definition depositData ::
    "DepositsConfig \<Rightarrow> 'k op_libs \<Rightarrow> (string \<Rightarrow> u8 list) \<Rightarrow> (u8 list \<Rightarrow> u8 list) \<Rightarrow> (DepositData \<Rightarrow> root) \<Rightarrow> u32 \<Rightarrow> u64 \<Rightarrow> (string + DepositData) option" where
  "depositData cfg L fromHex hash msgRoot genesisVersion accountIdx =
     (case depositKey cfg L fromHex accountIdx of
        Inl e \<Rightarrow> Some (Inl e)
      | Inr (key, pubkey) \<Rightarrow>
          (case depositCreds cfg L fromHex hash accountIdx of
             Inl e \<Rightarrow> Some (Inl e)
           | Inr creds \<Rightarrow>
               if length creds < 32 then None
               else
                 let d = \<lparr>ddPubkey = goCopy (replicate 48 0) pubkey, ddCreds = take 32 creds, ddAmount = dcDepositAmount cfg * 1000000000,
                          ddSignature = replicate 96 0\<rparr>
                 in if dcTopUpDeposit cfg then Some (Inr d)
                    else (case key of
                            None \<Rightarrow> None
                          | Some k \<Rightarrow>
                              Some (case olConvert L k of
                                      Some e \<Rightarrow> Inl ''cannot convert validator priv key''
                                    | None \<Rightarrow> Inr (d\<lparr>ddSignature := goCopy (replicate 96 0) (signMessage L k ''deposit'' genesisVersion 0 (msgRoot d))\<rparr>)))))"

definition depositValue :: "DepositData \<Rightarrow> int" where
  "depositValue d = uint (ddAmount d) * 1000000000"

text \<open>\<open>contract\<close> makes the call of the deposit contract with a nonce and a value.\<close>

definition generateDeposit ::
    "DepositsConfig \<Rightarrow> 'k op_libs \<Rightarrow> (string \<Rightarrow> u8 list) \<Rightarrow> (u8 list \<Rightarrow> u8 list) \<Rightarrow> (DepositData \<Rightarrow> root) \<Rightarrow> u32 \<Rightarrow>
     (DepositData \<Rightarrow> u64 \<Rightarrow> int \<Rightarrow> string + tx) \<Rightarrow> nat list \<Rightarrow> nat list \<Rightarrow> send_env \<Rightarrow> u64 \<Rightarrow> wallet \<Rightarrow> (gen_outcome \<times> wallet) option" where
  "generateDeposit cfg L fromHex hash msgRoot genesisVersion contract ready byName E accountIdx w =
     (case depositData cfg L fromHex hash msgRoot genesisVersion accountIdx of
        None \<Rightarrow> None
      | Some (Inl e) \<Rightarrow> Some (NotSent, w)
      | Some (Inr d) \<Rightarrow>
          requestSend E (executionClients (dcClientPattern cfg) (dcExcludeClientPattern cfg) ready byName)
            (\<lambda>nonce. contract d nonce (depositValue d)) w)"

section \<open>Consolidations and withdrawal requests\<close>

definition sourceValidator ::
    "'z RequestConfig_scheme \<Rightarrow> 'k op_libs \<Rightarrow> op_validator list \<Rightarrow> u64 \<Rightarrow> string + op_validator option" where
  "sourceValidator cfg L vs accountIdx =
     (if rqSourceMnemonic cfg \<noteq> ''''
      then (case olKey L (validatorKeyPath accountIdx) of
              Inl e \<Rightarrow> Inl (''failed generating validator key: '' @ e)
            | Inr k \<Rightarrow> Inr (findValidator vs (olPub L k)))
      else (case rqSourceStartValidatorIndex cfg of
              None \<Rightarrow> Inr None
            | Some i \<Rightarrow> Inr (find (\<lambda>v. ovIndex v = i + accountIdx) vs)))"

definition targetValidator :: "ConsolidationsConfig \<Rightarrow> (string \<Rightarrow> u8 list) \<Rightarrow> op_validator list \<Rightarrow> op_validator option" where
  "targetValidator cfg fromHex vs =
     (case ccTargetValidatorIndex cfg of
        None \<Rightarrow> findValidator vs (fromHex (ccTargetPublicKey cfg))
      | Some i \<Rightarrow> find (\<lambda>v. ovIndex v = i) vs)"

definition consolidationCallData :: "u8 list \<Rightarrow> u8 list \<Rightarrow> u8 list" where
  "consolidationCallData source target = goCopy (replicate 48 0) source @ goCopy (replicate 48 0) target"

text \<open>\<open>hashTx\<close> is the hash of a dynamic fee transaction with the gas settings of the task.\<close>

definition requestTx :: "'z RequestConfig_scheme \<Rightarrow> (string \<Rightarrow> root) \<Rightarrow> (u64 \<Rightarrow> int \<Rightarrow> root \<Rightarrow> u8 list \<Rightarrow> root) \<Rightarrow> u8 list \<Rightarrow> u64 \<Rightarrow> string + tx" where
  "requestTx cfg hexToAddress hashTx txData nonce =
     (let to = hexToAddress (rqContract cfg)
      in Inr \<lparr>txNonce = nonce, txValue = rqTxAmount cfg, txHash = hashTx nonce (rqTxAmount cfg) to txData, txTo = Some to\<rparr>)"

definition generateConsolidation ::
    "ConsolidationsConfig \<Rightarrow> 'k op_libs \<Rightarrow> (string \<Rightarrow> u8 list) \<Rightarrow> (string \<Rightarrow> root) \<Rightarrow> (u64 \<Rightarrow> int \<Rightarrow> root \<Rightarrow> u8 list \<Rightarrow> root) \<Rightarrow>
     op_validator list \<Rightarrow> nat list \<Rightarrow> nat list \<Rightarrow> send_env \<Rightarrow> u64 \<Rightarrow> wallet \<Rightarrow> (gen_outcome \<times> wallet) option" where
  "generateConsolidation cfg L fromHex hexToAddress hashTx vs ready byName E accountIdx w =
     (case sourceValidator cfg L vs accountIdx of
        Inl e \<Rightarrow> Some (NotSent, w)
      | Inr None \<Rightarrow> Some (NotSent, w)
      | Inr (Some source) \<Rightarrow>
          (case targetValidator cfg fromHex vs of
             None \<Rightarrow> Some (NotSent, w)
           | Some target \<Rightarrow>
               requestSend E (executionClients (rqClientPattern cfg) (rqExcludeClientPattern cfg) ready byName)
                 (requestTx cfg hexToAddress hashTx (consolidationCallData (ovPubkey source) (ovPubkey target))) w))"

text \<open>The eight bytes of an amount, the highest first.\<close>

definition amountBytes :: "u64 \<Rightarrow> u8 list" where
  "amountBytes a = map (\<lambda>k. ucast (drop_bit (8 * (7 - k)) a)) [0..<8]"

definition withdrawalCallData :: "u8 list \<Rightarrow> u64 \<Rightarrow> u8 list" where
  "withdrawalCallData pubkey amount = goCopy (replicate 48 0) pubkey @ goCopy (replicate 8 0) (amountBytes amount)"

definition withdrawalIndex :: "WithdrawalsConfig \<Rightarrow> u64 \<Rightarrow> u64" where
  "withdrawalIndex cfg accountIdx = (if rqSourceIndexCount cfg > 0 then accountIdx mod of_int (rqSourceIndexCount cfg) else accountIdx)"

definition withdrawalSource :: "WithdrawalsConfig \<Rightarrow> 'k op_libs \<Rightarrow> (string \<Rightarrow> u8 list) \<Rightarrow> op_validator list \<Rightarrow> u64 \<Rightarrow> string + u8 list" where
  "withdrawalSource cfg L fromHex vs accountIdx =
     (if wcSourcePubkey cfg \<noteq> '''' then Inr (fromHex (wcSourcePubkey cfg))
      else (case sourceValidator cfg L vs (withdrawalIndex cfg accountIdx) of
              Inl e \<Rightarrow> Inl e
            | Inr None \<Rightarrow> Inl ''source validator not found in validator set''
            | Inr (Some v) \<Rightarrow> Inr (ovPubkey v)))"

definition generateWithdrawal ::
    "WithdrawalsConfig \<Rightarrow> 'k op_libs \<Rightarrow> (string \<Rightarrow> u8 list) \<Rightarrow> (string \<Rightarrow> root) \<Rightarrow> (u64 \<Rightarrow> int \<Rightarrow> root \<Rightarrow> u8 list \<Rightarrow> root) \<Rightarrow>
     op_validator list \<Rightarrow> nat list \<Rightarrow> nat list \<Rightarrow> send_env \<Rightarrow> u64 \<Rightarrow> wallet \<Rightarrow> (gen_outcome \<times> wallet) option" where
  "generateWithdrawal cfg L fromHex hexToAddress hashTx vs ready byName E accountIdx w =
     (case withdrawalSource cfg L fromHex vs accountIdx of
        Inl e \<Rightarrow> Some (NotSent, w)
      | Inr pubkey \<Rightarrow>
          requestSend E (executionClients (rqClientPattern cfg) (rqExcludeClientPattern cfg) ready byName)
            (requestTx cfg hexToAddress hashTx (withdrawalCallData pubkey (wcWithdrawAmount cfg))) w)"

section \<open>Plain and blob transactions\<close>

text \<open>
  The target is drawn, configured or the wallet itself. A random amount is drawn below the configured one; the library panics when that is not
  positive, and its error leaves the configured amount.
\<close>

definition eoaTarget :: "EoaConfig \<Rightarrow> root \<Rightarrow> root \<Rightarrow> root \<Rightarrow> root option" where
  "eoaTarget cfg drawn configured own =
     (if ecContractDeployment cfg then None
      else Some (if tcRandomTarget cfg then drawn else if tcTargetAddress cfg \<noteq> '''' then configured else own))"

definition blobTarget :: "BlobConfig \<Rightarrow> root \<Rightarrow> root \<Rightarrow> root \<Rightarrow> root" where
  "blobTarget cfg drawn configured own = (if tcRandomTarget cfg then drawn else if tcTargetAddress cfg \<noteq> '''' then configured else own)"

definition eoaAmount :: "'z TxConfig_scheme \<Rightarrow> string + int \<Rightarrow> int option" where
  "eoaAmount cfg drawn =
     (if tcRandomAmount cfg
      then if tcAmount cfg \<le> 0 then None else Some (case drawn of Inl e \<Rightarrow> tcAmount cfg | Inr n \<Rightarrow> n)
      else Some (tcAmount cfg))"

text \<open>
  The transaction is built before the clients are chosen, its amount while the wallet is held. \<open>isNonceErr\<close> says whether the text of an error contains \<open>nonce\<close>,
  after which the wallet is reloaded.
\<close>

definition buildWithAmount ::
    "send_env \<Rightarrow> int option \<Rightarrow> (int \<Rightarrow> u64 \<Rightarrow> tx) \<Rightarrow> wallet \<Rightarrow> ((string + tx) \<times> wallet) option" where
  "buildWithAmount E amount mkTx w =
     (case AwaitReady (seCtxErr E) (sePickCtx E) w of
        None \<Rightarrow> None
      | Some (Some e) \<Rightarrow> Some (Inl e, w)
      | Some None \<Rightarrow>
          (case amount of
             None \<Rightarrow> None
           | Some a \<Rightarrow> BuildTransaction (seCtxErr E) (sePickCtx E) (\<lambda>nonce. Inr (mkTx a nonce)) (seSignErr E) w))"

definition generateEoaTransaction ::
    "EoaConfig \<Rightarrow> (u64 \<Rightarrow> int \<Rightarrow> root option \<Rightarrow> root) \<Rightarrow> root \<Rightarrow> root \<Rightarrow> string + int \<Rightarrow> (string \<Rightarrow> bool) \<Rightarrow> nat list \<Rightarrow> nat list \<Rightarrow> send_env \<Rightarrow> u64 \<Rightarrow> wallet \<Rightarrow>
     (gen_outcome \<times> wallet) option" where
  "generateEoaTransaction cfg hashTx drawnTarget targetAddr drawnAmount isNonceErr ready byName E txIndex w =
     (let to = eoaTarget cfg drawnTarget targetAddr (wAddress w)
      in (case buildWithAmount E (eoaAmount cfg drawnAmount)
                 (\<lambda>amount nonce. \<lparr>txNonce = nonce, txValue = amount, txHash = hashTx nonce amount to, txTo = to\<rparr>) w of
            None \<Rightarrow> None
          | Some (Inl e, w1) \<Rightarrow> Some (NotSent, w1)
          | Some (Inr tx, w1) \<Rightarrow>
              (case executionClients (tcClientPattern cfg) (tcExcludeClientPattern cfg) ready byName of
                 Inl e \<Rightarrow> Some (NotSent, w1)
               | Inr cs \<Rightarrow>
                   (case sendBuilt E cs txIndex tx w1 of
                      None \<Rightarrow> None
                    | Some (Some e, w2) \<Rightarrow> Some (SendFailed (txHash tx), if isNonceErr e then ResyncState w2 else w2)
                    | Some (None, w2) \<Rightarrow> Some (Sent (txHash tx), w2)))))"

text \<open>The fields of a blob transaction have 256 bits; converting a larger number panics.\<close>

definition blobAmount :: "BlobConfig \<Rightarrow> string + int \<Rightarrow> int option" where
  "blobAmount cfg drawn =
     (case eoaAmount cfg drawn of
        None \<Rightarrow> None
      | Some amount \<Rightarrow> if \<bar>amount\<bar> < 2 ^ 256 \<and> \<bar>bcBlobFeeCap cfg\<bar> < 2 ^ 256 \<and> \<bar>tcTipCap cfg\<bar> < 2 ^ 256 \<and> \<bar>tcFeeCap cfg\<bar> < 2 ^ 256 then Some amount else None)"

definition blobRefs :: "BlobConfig \<Rightarrow> string list" where
  "blobRefs cfg = replicate (unat (bcBlobSidecars cfg)) (if bcBlobData cfg \<noteq> '''' then bcBlobData cfg else ''identifier,random'')"

definition generateBlobTransaction ::
    "BlobConfig \<Rightarrow> (string list \<Rightarrow> u64 \<Rightarrow> string + 's) \<Rightarrow> ('s \<Rightarrow> u64 \<Rightarrow> int \<Rightarrow> root \<Rightarrow> root) \<Rightarrow> root \<Rightarrow> root \<Rightarrow> string + int \<Rightarrow> nat list \<Rightarrow> nat list \<Rightarrow> send_env \<Rightarrow> u64 \<Rightarrow>
     wallet \<Rightarrow> (gen_outcome \<times> wallet) option" where
  "generateBlobTransaction cfg sidecar hashTx drawnTarget targetAddr drawnAmount ready byName E txIndex w =
     (case sidecar (blobRefs cfg) txIndex of
        Inl e \<Rightarrow> Some (NotSent, w)
      | Inr sc \<Rightarrow>
          let to = blobTarget cfg drawnTarget targetAddr (wAddress w)
          in (case buildWithAmount E (blobAmount cfg drawnAmount)
                     (\<lambda>amount nonce. \<lparr>txNonce = nonce, txValue = amount, txHash = hashTx sc nonce amount to, txTo = Some to\<rparr>) w of
                None \<Rightarrow> None
              | Some (Inl e, w1) \<Rightarrow> Some (NotSent, w1)
              | Some (Inr tx, w1) \<Rightarrow>
                  (case executionClients (tcClientPattern cfg) (tcExcludeClientPattern cfg) ready byName of
                     Inl e \<Rightarrow> Some (NotSent, w1)
                   | Inr cs \<Rightarrow>
                       (case sendBuilt E cs txIndex tx w1 of
                          None \<Rightarrow> None
                        | Some (Some e, w2) \<Rightarrow> Some (SendFailed (txHash tx), w2)
                        | Some (None, w2) \<Rightarrow> Some (Sent (txHash tx), w2)))))"

text \<open>A round takes the task's wallet, or the next child of its pool, which is nil, and dereferenced, for an empty pool.\<close>

definition nextTxWallet :: "tx_wallet \<Rightarrow> (root \<times> tx_wallet) option" where
  "nextTxWallet tw = (case tw of Inl a \<Rightarrow> Some (a, Inl a) | Inr p \<Rightarrow> map_option (apsnd Inr) (GetNextChildWallet p))"

definition withTxWallet ::
    "(wallet \<Rightarrow> (gen_outcome \<times> wallet) option) \<Rightarrow> tx_wallet \<Rightarrow> manager \<Rightarrow> (gen_outcome \<times> tx_wallet \<times> manager) option" where
  "withTxWallet generate tw m =
     (case nextTxWallet tw of
        None \<Rightarrow> None
      | Some (a, tw1) \<Rightarrow>
          (case map_of m a of
             None \<Rightarrow> None
           | Some w \<Rightarrow> map_option (\<lambda>(out, w1). (out, tw1, AList.map_entry a (\<lambda>_. w1) m)) (generate w)))"

text \<open>
  Before the loop: the task awaits its wallet, or the root wallet of its pool and the funding of the children. The refills run as in \<open>EnsureFunding\<close>; \<open>signErr\<close>, \<open>hashOf\<close> and
  \<open>forkClients\<close> are its parameters. The last arguments are the error returned and the wallets then.
\<close>

inductive tx_funding ::
    "'z TxConfig_scheme \<Rightarrow> send_env \<Rightarrow> (root \<Rightarrow> go_error) \<Rightarrow> (u64 \<Rightarrow> root \<Rightarrow> int \<Rightarrow> root) \<Rightarrow> nat list option \<Rightarrow> wallet_pool \<Rightarrow> manager \<Rightarrow> go_error \<Rightarrow> manager \<Rightarrow> bool"
  for cfg E signErr hashOf forkClients where
  ends: "\<lbrakk>EnsureFunding (seCtxErr E) (sePickCtx E) signErr hashOf (tcRefillMinBalance cfg) (tcRefillAmount cfg) forkClients p m = Some (Some s, m');
      (refill_step (tcRefillPendingLimit cfg) (case forkClients of None \<Rightarrow> [] | Some cs \<Rightarrow> cs))\<^sup>*\<^sup>* s s'; rsReturned s' = Some r\<rbrakk> \<Longrightarrow>
    tx_funding cfg E signErr hashOf forkClients p m r m'"

inductive tx_begin ::
    "'z TxConfig_scheme \<Rightarrow> send_env \<Rightarrow> (root \<Rightarrow> go_error) \<Rightarrow> (u64 \<Rightarrow> root \<Rightarrow> int \<Rightarrow> root) \<Rightarrow> nat list option \<Rightarrow> tx_wallet \<Rightarrow> manager \<Rightarrow> go_error \<Rightarrow> manager \<Rightarrow> bool"
  for cfg E signErr hashOf forkClients where
  own: "\<lbrakk>map_of m a = Some w; AwaitReady (seCtxErr E) (sePickCtx E) w = Some r\<rbrakk> \<Longrightarrow> tx_begin cfg E signErr hashOf forkClients (Inl a) m r m"
| root_error: "\<lbrakk>map_of m (rootWallet p) = Some w; AwaitReady (seCtxErr E) (sePickCtx E) w = Some (Some e)\<rbrakk> \<Longrightarrow>
    tx_begin cfg E signErr hashOf forkClients (Inr p) m (Some e) m"
| funded: "\<lbrakk>map_of m (rootWallet p) = Some w; AwaitReady (seCtxErr E) (sePickCtx E) w = Some None; tx_funding cfg E signErr hashOf forkClients p m r m'\<rbrakk> \<Longrightarrow>
    tx_begin cfg E signErr hashOf forkClients (Inr p) m r m'"

section \<open>After the loop\<close>

text \<open>A receipt as an output value; one that is missing or cannot be encoded is nil.\<close>

definition receiptValue :: "(gen_receipt \<Rightarrow> string + var_value) \<Rightarrow> receipt_log \<Rightarrow> root \<Rightarrow> var_value" where
  "receiptValue encode receipts h =
     (case map_of (rev receipts) h of
        Some (Some r) \<Rightarrow> (case encode r of Inl e \<Rightarrow> VNil | Inr v \<Rightarrow> v)
      | _ \<Rightarrow> VNil)"

definition rejected :: "receipt_log \<Rightarrow> root \<Rightarrow> bool" where
  "rejected receipts h = (case map_of (rev receipts) h of Some (Some r) \<Rightarrow> grStatus r = 0 | _ \<Rightarrow> True)"

definition checkRejected :: "bool \<Rightarrow> root list \<Rightarrow> receipt_log \<Rightarrow> check_ctx \<Rightarrow> check_ctx" where
  "checkRejected failOnReject sent receipts c =
     (if failOnReject \<and> list_ex (rejected receipts) sent then ctxSetResult TaskResultFailure c else c)"

definition setResultVar :: "string \<Rightarrow> var_value \<Rightarrow> check_ctx \<Rightarrow> check_ctx" where
  "setResultVar name v c = (if name \<noteq> '''' then setCtxVar name v c else c)"

text \<open>\<open>pubkeyOf\<close> gives the validator key of the deposit with a hash.\<close>

definition depositsFinish ::
    "DepositsConfig \<Rightarrow> (root \<Rightarrow> string) \<Rightarrow> (root \<Rightarrow> string) \<Rightarrow> (gen_receipt \<Rightarrow> string + var_value) \<Rightarrow> root list \<Rightarrow> receipt_log \<Rightarrow> check_ctx \<Rightarrow> check_ctx" where
  "depositsFinish cfg pubkeyOf hashStr encode sent receipts c =
     (let pubkeys = VSlice (map (VStr \<circ> pubkeyOf) sent); hashes = VSlice (map (VStr \<circ> hashStr) sent);
          rcpts = VSlice (map (receiptValue encode receipts) sent);
          c1 = setOutput ''validatorPubkeys'' pubkeys (setResultVar (dcPubkeysResultVar cfg) pubkeys c);
          c2 = setOutput ''depositTransactions'' hashes (setResultVar (dcTransactionsResultVar cfg) hashes c1);
          c3 = setOutput ''depositReceipts'' rcpts (setResultVar (dcReceiptsResultVar cfg) rcpts c2)
      in checkRejected (dcFailOnReject cfg) sent receipts c3)"

definition requestsFinish ::
    "'z RequestConfig_scheme \<Rightarrow> (root \<Rightarrow> string) \<Rightarrow> (gen_receipt \<Rightarrow> string + var_value) \<Rightarrow> root list \<Rightarrow> receipt_log \<Rightarrow> check_ctx \<Rightarrow> check_ctx" where
  "requestsFinish cfg hashStr encode sent receipts c =
     checkRejected (rqFailOnReject cfg) sent receipts
       (setOutput ''transactionReceipts'' (VSlice (map (receiptValue encode receipts) sent))
         (setOutput ''transactionHashes'' (VSlice (map (VStr \<circ> hashStr) sent)) c))"

definition confirmedWith :: "(u64 \<Rightarrow> bool) \<Rightarrow> receipt_log \<Rightarrow> nat" where
  "confirmedWith P receipts = length (filter (\<lambda>(h, r). case r of None \<Rightarrow> False | Some rc \<Rightarrow> P (grStatus rc)) receipts)"

definition eoaFinish :: "EoaConfig \<Rightarrow> root list \<Rightarrow> receipt_log \<Rightarrow> check_ctx \<Rightarrow> check_ctx" where
  "eoaFinish cfg sent receipts c =
     (if ecFailOnSuccess cfg \<and> confirmedWith (\<lambda>s. s \<noteq> 0) receipts > 0 then ctxSetResult TaskResultFailure c
      else if ecFailOnReject cfg \<and> confirmedWith (\<lambda>s. s = 0) receipts > 0 then ctxSetResult TaskResultFailure c
      else if sent = [] then ctxSetResult TaskResultFailure c else c)"

section \<open>The tasks as generators\<close>

definition rangeEnd :: "u64 \<Rightarrow> int \<Rightarrow> u64" where
  "rangeEnd first indexCount = (if indexCount > 0 then first + of_int indexCount else 0)"

definition rangeStart :: "int \<Rightarrow> u64" where
  "rangeStart startIndex = (if startIndex > 0 then of_int startIndex else 0)"

definition depositsGen :: "DepositsConfig \<Rightarrow> (root \<Rightarrow> string) \<Rightarrow> (root \<Rightarrow> string) \<Rightarrow> (gen_receipt \<Rightarrow> string + var_value) \<Rightarrow> gen_config" where
  "depositsGen cfg pubkeyOf hashStr encode =
     \<lparr>gcPerSlot = dcLimitPerSlot cfg, gcTotal = dcLimitTotal cfg, gcPending = dcLimitPending cfg, gcFirst = rangeStart (dcStartIndex cfg),
      gcLast = rangeEnd (rangeStart (dcStartIndex cfg)) (dcIndexCount cfg), gcWg = True, gcMarks = True, gcAwait = dcAwaitReceipt cfg,
      gcReturnsErr = False, gcFinish = depositsFinish cfg pubkeyOf hashStr encode\<rparr>"

definition consolidationsGen :: "ConsolidationsConfig \<Rightarrow> (root \<Rightarrow> string) \<Rightarrow> (gen_receipt \<Rightarrow> string + var_value) \<Rightarrow> gen_config" where
  "consolidationsGen cfg hashStr encode =
     \<lparr>gcPerSlot = rqLimitPerSlot cfg, gcTotal = rqLimitTotal cfg, gcPending = rqLimitPending cfg, gcFirst = rangeStart (rqSourceStartIndex cfg),
      gcLast = rangeEnd (rangeStart (rqSourceStartIndex cfg)) (rqSourceIndexCount cfg), gcWg = True, gcMarks = True, gcAwait = rqAwaitReceipt cfg,
      gcReturnsErr = False, gcFinish = requestsFinish cfg hashStr encode\<rparr>"

definition withdrawalsGen :: "WithdrawalsConfig \<Rightarrow> (root \<Rightarrow> string) \<Rightarrow> (gen_receipt \<Rightarrow> string + var_value) \<Rightarrow> gen_config" where
  "withdrawalsGen cfg hashStr encode =
     \<lparr>gcPerSlot = rqLimitPerSlot cfg, gcTotal = rqLimitTotal cfg, gcPending = rqLimitPending cfg, gcFirst = rangeStart (rqSourceStartIndex cfg),
      gcLast = 0, gcWg = True, gcMarks = True, gcAwait = rqAwaitReceipt cfg, gcReturnsErr = False, gcFinish = requestsFinish cfg hashStr encode\<rparr>"

definition eoaGen :: "EoaConfig \<Rightarrow> gen_config" where
  "eoaGen cfg =
     \<lparr>gcPerSlot = tcLimitPerBlock cfg, gcTotal = tcLimitTotal cfg, gcPending = tcLimitPending cfg, gcFirst = 0, gcLast = 0, gcWg = True, gcMarks = False,
      gcAwait = ecAwaitReceipt cfg, gcReturnsErr = True, gcFinish = eoaFinish cfg\<rparr>"

definition blobGen :: "BlobConfig \<Rightarrow> gen_config" where
  "blobGen cfg =
     \<lparr>gcPerSlot = tcLimitPerBlock cfg, gcTotal = tcLimitTotal cfg, gcPending = tcLimitPending cfg, gcFirst = 0, gcLast = 0, gcWg = False, gcMarks = False,
      gcAwait = False, gcReturnsErr = True, gcFinish = (\<lambda>sent receipts c. c)\<rparr>"

section \<open>Verdicts\<close>

lemma ccResult_simps [simp]:
  "ccResult (setOutput n v c) = ccResult c" "ccResult (setResultVar n v c) = ccResult c" "ccResult (ctxSetResult r c) = r"
  "ccOutputs (ctxSetResult r c) = ccOutputs c" "ccOutputs (checkRejected f sent receipts c) = ccOutputs c" "ccOutputs (setResultVar n v c) = ccOutputs c"
  by (simp_all add: setOutput_def setResultVar_def setCtxVar_def ctxSetResult_def checkRejected_def)

lemma ccResult_checkRejected:
  "ccResult (checkRejected f sent receipts c) = (if f \<and> (\<exists>h \<in> set sent. rejected receipts h) then TaskResultFailure else ccResult c)"
  by (auto simp: checkRejected_def list_ex_iff)

text \<open>
  C20. A deposit task that waits for its receipts, in a network where no deposit is refused by all clients, records one receipt per deposit, lists the deposits in the order they were
  sent, and its result is success if it sent any, unless rejections count and one of its deposits has no receipt or a failed one.
\<close>

theorem deposits_verdict:
  assumes "(gen_step (depositsGen cfg pubkeyOf hashStr encode) outcomes)\<^sup>*\<^sup>* (genStart (depositsGen cfg pubkeyOf hashStr encode) c) s"
    and "\<And>i h. SendFailed h \<notin> outcomes i" "gsPc s = GFinished" "dcAwaitReceipt cfg"
  shows "mset (map fst (gsLog s)) = mset (gsSent s) \<and>
    map_of (ccOutputs (gsCtx s)) ''depositTransactions'' = Some (VSlice (map (VStr \<circ> hashStr) (gsSent s))) \<and>
    ccResult (gsCtx s) =
      (if dcFailOnReject cfg \<and> (\<exists>h \<in> set (gsSent s). rejected (gsLog s) h) then TaskResultFailure
       else if gsSent s = [] then ccResult c else TaskResultSuccess)"
proof -
  have f: "mset (map fst (gsLog s)) = mset (gsSent s)"
    "gsCtx s = depositsFinish cfg pubkeyOf hashStr encode (gsSent s) (gsLog s) (started (depositsGen cfg pubkeyOf hashStr encode) c (gsSent s))"
    using generator_awaits_receipts [OF assms(1-3)] assms(4) by (simp_all add: depositsGen_def)
  then show ?thesis
    unfolding f(2) depositsFinish_def Let_def ccResult_checkRejected
    by (simp add: started_def depositsGen_def setOutput_def map_of_update)
qed

text \<open>One deposit, whose transaction fails on chain.\<close>

definition demoDeposits :: DepositsConfig where
  "demoDeposits = depositsDefault\<lparr>dcLimitTotal := 1, dcAwaitReceipt := True, dcFailOnReject := True\<rparr>"

definition demoDepositsGen :: gen_config where
  "demoDepositsGen = depositsGen demoDeposits (\<lambda>h. ''0x01'') (\<lambda>h. ''0x07'') (\<lambda>r. Inr VNil)"

definition demoRejected :: gen_receipt where
  "demoRejected = \<lparr>rTxHash = 7, rEffectiveGasPrice = 1, rGasUsed = 21000, grStatus = 0\<rparr>"

theorem deposits_verdict_witness: "ccResult (gsCtx (singleEnd demoDepositsGen 7 (Some demoRejected) demoGenCtx)) = TaskResultFailure"
proof -
  let ?s = "singleEnd demoDepositsGen 7 (Some demoRejected) demoGenCtx"
  have run: "(gen_step demoDepositsGen (\<lambda>i. {Sent 7}))\<^sup>*\<^sup>* (genStart demoDepositsGen demoGenCtx) ?s"
    by (rule single_run) (simp_all add: demoDepositsGen_def depositsGen_def demoDeposits_def)
  have e: "gsPc ?s = GFinished" "gsSent ?s = [7]" "gsLog ?s = [(7, Some demoRejected)]"
    by (simp_all add: singleEnd_def gen_eval demoDepositsGen_def depositsGen_def demoDeposits_def depositsDefault_def rangeEnd_def)
  show ?thesis
    using deposits_verdict [OF run [unfolded demoDepositsGen_def], folded demoDepositsGen_def] e
    by (simp add: demoDeposits_def rejected_def demoRejected_def)
qed

section \<open>Data of the calls\<close>

text \<open>What the system contracts read from the data: the key, and the amount with the highest byte first.\<close>

definition readAmount :: "u8 list \<Rightarrow> int" where
  "readAmount bs = foldl (\<lambda>acc b. acc * 256 + uint b) 0 bs"

lemma goCopy_full: "length src = length dst \<Longrightarrow> goCopy dst src = src"
  by (simp add: goCopy_def)

lemma length_amountBytes [simp]: "length (amountBytes a) = 8"
  by (simp add: amountBytes_def)

lemma uint_byte: "uint (ucast (drop_bit n (a :: u64)) :: u8) = uint a div 2 ^ n mod 256"
proof -
  have "uint (ucast (drop_bit n a) :: u8) = take_bit 8 (uint (drop_bit n a))" by (simp add: unsigned_ucast_eq)
  also have "\<dots> = take_bit 8 (drop_bit n (uint a))" using take_bit_int_eq_self [OF uint_ge_0, of a 64] uint_lt2p [of a] by (simp add: unsigned_drop_bit_eq)
  finally show ?thesis by (simp add: take_bit_eq_mod drop_bit_eq_div)
qed

lemma readAmount_amountBytes: "readAmount (amountBytes a) = uint a"
proof -
  let ?x = "uint a"
  have step: "?x div (m * 256) * 256 + ?x div m mod 256 = ?x div m" for m :: int
    by (simp add: zdiv_zmult2_eq)
  have "?x div 2 ^ 56 < 256" using uint_lt2p [of a] by (simp add: div_less_iff_less_mult)
  then have b: "?x div 2 ^ 56 mod 256 = ?x div 2 ^ 56" by (simp add: pos_imp_zdiv_nonneg_iff)
  have bytes: "amountBytes a = map (\<lambda>k. ucast (drop_bit k a)) [56, 48, 40, 32, 24, 16, 8, 0]" by (simp add: amountBytes_def upt_rec)
  have s48: "?x div 2 ^ 56 * 256 + ?x div 2 ^ 48 mod 256 = ?x div 2 ^ 48" using step [of "2 ^ 48"] by simp
  have s40: "?x div 2 ^ 48 * 256 + ?x div 2 ^ 40 mod 256 = ?x div 2 ^ 40" using step [of "2 ^ 40"] by simp
  have s32: "?x div 2 ^ 40 * 256 + ?x div 2 ^ 32 mod 256 = ?x div 2 ^ 32" using step [of "2 ^ 32"] by simp
  have s24: "?x div 2 ^ 32 * 256 + ?x div 2 ^ 24 mod 256 = ?x div 2 ^ 24" using step [of "2 ^ 24"] by simp
  have s16: "?x div 2 ^ 24 * 256 + ?x div 2 ^ 16 mod 256 = ?x div 2 ^ 16" using step [of "2 ^ 16"] by simp
  have s8: "?x div 2 ^ 16 * 256 + ?x div 2 ^ 8 mod 256 = ?x div 2 ^ 8" using step [of "2 ^ 8"] by simp
  have s0: "?x div 2 ^ 8 * 256 + ?x div 2 ^ 0 mod 256 = ?x div 2 ^ 0" using step [of "2 ^ 0"] by simp
  have "readAmount (amountBytes a) = ((((((?x div 2 ^ 56 * 256 + ?x div 2 ^ 48 mod 256) * 256 + ?x div 2 ^ 40 mod 256) * 256 + ?x div 2 ^ 32 mod 256) * 256 +
      ?x div 2 ^ 24 mod 256) * 256 + ?x div 2 ^ 16 mod 256) * 256 + ?x div 2 ^ 8 mod 256) * 256 + ?x div 2 ^ 0 mod 256"
    unfolding readAmount_def bytes list.map foldl.simps uint_byte b by simp
  also have "\<dots> = ?x" unfolding s48 s40 s32 s24 s16 s8 s0 by simp
  finally show ?thesis .
qed

text \<open>
  C25. The data of a withdrawal request is the 48 bytes of the key followed by the amount in eight bytes, that of a consolidation the two keys: the system contracts read back
  exactly the key, the amount and the keys that were put in.
\<close>

theorem request_data_roundtrip:
  assumes "length pubkey = 48" "length target = 48"
  shows "length (withdrawalCallData pubkey amount) = 56 \<and> take 48 (withdrawalCallData pubkey amount) = pubkey \<and>
    readAmount (drop 48 (withdrawalCallData pubkey amount)) = uint amount \<and>
    length (consolidationCallData pubkey target) = 96 \<and> take 48 (consolidationCallData pubkey target) = pubkey \<and>
    drop 48 (consolidationCallData pubkey target) = target"
  using assms by (simp add: withdrawalCallData_def consolidationCallData_def goCopy_full readAmount_amountBytes)

theorem request_data_roundtrip_witness: "readAmount (drop 48 (withdrawalCallData (replicate 48 5) 70000)) = 70000"
  using request_data_roundtrip [of "replicate 48 5" "replicate 48 6" 70000] by simp

section \<open>Amounts, indices and nonces\<close>

text \<open>
  A deposit of up to 18446744073 ETH is sent with exactly that value in wei; above, the product in gwei wraps and a smaller amount is deposited.
\<close>

lemma deposit_value_exact:
  assumes "depositData cfg L fromHex hash msgRoot version i = Some (Inr d)" "dcDepositAmount cfg \<le> 18446744073"
  shows "depositValue d = uint (dcDepositAmount cfg) * 10 ^ 18"
proof -
  have "ddAmount d = dcDepositAmount cfg * 1000000000"
    using assms(1) by (auto simp: depositData_def Let_def split: sum.splits option.splits if_splits)
  moreover have "uint (dcDepositAmount cfg) * 1000000000 < 2 ^ 64" using assms(2) by (simp add: word_le_def)
  ultimately show ?thesis by (simp add: depositValue_def uint_word_ariths)
qed

lemma deposit_amount_wraps: "(18446744074 :: u64) * 1000000000 = 290448384"
  by simp

text \<open>
  The index of a withdrawal request is taken modulo the index count, from the configured start on: the range does not begin at the start index, which has no effect on the keys used
  when it is a multiple of the count.
\<close>

lemma withdrawal_start_index_lost:
  assumes "rqSourceIndexCount cfg = 5" "rqSourceStartIndex cfg = 10"
  shows "map (withdrawalIndex cfg) [rangeStart (rqSourceStartIndex cfg), 11, 12, 13, 14] = [0, 1, 2, 3, 4]"
  using assms by (simp add: withdrawalIndex_def rangeStart_def)

text \<open>A refused request has used its nonce: the wallet's next transaction gets a higher one, which no node can include before the gap is filled.\<close>

lemma sendBuilt_pendingNonce: "sendBuilt E cs offset tx w = Some (r, w') \<Longrightarrow> pendingNonce w' = pendingNonce w"
  by (auto simp: sendBuilt_def SendTransaction_def confirmStart_def Let_def split: option.splits if_splits)
    (metis getTxNonceChan_frame(2) snd_conv)

lemma refused_request_leaves_gap:
  assumes "requestSend E chosen buildFn w = Some (SendFailed h, w')" "\<And>n t. buildFn n = Inr t \<Longrightarrow> txNonce t = n" "pendingNonce w < - 1"
  shows "pendingNonce w' = pendingNonce w + 1"
proof -
  obtain tx w1 r where b: "BuildTransaction (seCtxErr E) (sePickCtx E) buildFn (seSignErr E) w = Some (Inr tx, w1)"
      and s: "\<exists>cs. sendBuilt E cs 0 tx w1 = Some (r, w')"
    using assms(1) by (auto simp: requestSend_def split: sum.splits option.splits prod.splits)
  have "pendingNonce w < pendingNonce w + 1"
    using unat_succ [OF assms(3)] by (simp add: word_less_nat_alt)
  with b assms(2) have "pendingNonce w1 = pendingNonce w + 1"
    by (auto elim: BuildTransaction_cases)
  with s show ?thesis using sendBuilt_pendingNonce by metis
qed

text \<open>A random amount below a configured amount of zero, the default, panics in the random number library once the wallet is loaded.\<close>

lemma random_amount_default_panics:
  "AwaitReady (seCtxErr E) (sePickCtx E) w = Some None \<Longrightarrow>
     generateEoaTransaction (eoaDefault\<lparr>tcRandomAmount := True\<rparr>) hashTx drawnTarget targetAddr drawn isNonceErr ready byName E i w = None"
  by (simp add: generateEoaTransaction_def buildWithAmount_def eoaAmount_def eoaDefault_def)

text \<open>Without a client the plain and the blob transaction have used a nonce that is never sent.\<close>

lemma no_client_uses_nonce:
  assumes "buildWithAmount E (eoaAmount cfg drawn)
      (\<lambda>amount nonce. \<lparr>txNonce = nonce, txValue = amount, txHash = hashTx nonce amount (eoaTarget cfg dt ta (wAddress w)), txTo = eoaTarget cfg dt ta (wAddress w)\<rparr>) w
      = Some (Inr tx, w1)"
    and "executionClients (tcClientPattern cfg) (tcExcludeClientPattern cfg) ready byName = Inl e" "pendingNonce w < - 1"
  shows "generateEoaTransaction cfg hashTx dt ta drawn isNonceErr ready byName E i w = Some (NotSent, w1) \<and> pendingNonce w1 = pendingNonce w + 1"
proof -
  obtain a where b: "BuildTransaction (seCtxErr E) (sePickCtx E) (\<lambda>nonce. Inr \<lparr>txNonce = nonce, txValue = a,
      txHash = hashTx nonce a (eoaTarget cfg dt ta (wAddress w)), txTo = eoaTarget cfg dt ta (wAddress w)\<rparr>) (seSignErr E) w = Some (Inr tx, w1)"
    using assms(1) by (auto simp: buildWithAmount_def split: option.splits)
  have "pendingNonce w < pendingNonce w + 1" using unat_succ [OF assms(3)] by (simp add: word_less_nat_alt)
  with b have "pendingNonce w1 = pendingNonce w + 1" by (auto elim: BuildTransaction_cases)
  then show ?thesis using assms(1,2) by (simp add: generateEoaTransaction_def Let_def)
qed

text \<open>A round touches one wallet: that of the task, or the child whose turn it is.\<close>

lemma withTxWallet_frame:
  assumes "withTxWallet generate tw m = Some (out, tw', m')"
  obtains a w w' where "nextTxWallet tw = Some (a, tw')" "map_of m a = Some w" "generate w = Some (out, w')" "map_of m' a = Some w'"
    "\<And>b. b \<noteq> a \<Longrightarrow> map_of m' b = map_of m b"
proof -
  obtain a w w' where "nextTxWallet tw = Some (a, tw')" "map_of m a = Some w" "generate w = Some (out, w')" "m' = AList.map_entry a (\<lambda>_. w') m"
    using assms by (auto simp: withTxWallet_def split: option.splits)
  then show thesis by (intro that) (auto simp: map_of_map_entry)
qed

text \<open>
  Every run of the refills can be continued to its end, so a task whose wallets can be planned for always gets past the funding: with clients on the fork and a pending limit above zero.
\<close>

lemma refills_reach_end:
  assumes "0 < pendingLimit"
  shows "\<exists>s'. (refill_step pendingLimit cs)\<^sup>*\<^sup>* s s' \<and> rsReturned s' \<noteq> None"
proof (induction s rule: measure_induct_rule [of refill_measure])
  case (less s)
  show ?case
  proof (cases "rsReturned s")
    case None
    then obtain s1 where "refill_step pendingLimit cs s s1"
      using refill_step_progress [of s pendingLimit cs] assms by (auto simp: word_less_nat_alt)
    with less [OF refill_step_decreases] show ?thesis by (meson converse_rtranclp_into_rtranclp)
  qed auto
qed

lemma funding_ends:
  assumes "EnsureFunding (seCtxErr E) (sePickCtx E) signErr hashOf (tcRefillMinBalance cfg) (tcRefillAmount cfg) forkClients p m = Some (Some s, m')"
    "0 < tcRefillPendingLimit cfg"
  shows "\<exists>r. tx_funding cfg E signErr hashOf forkClients p m r m'"
  using refills_reach_end [OF assms(2), of "case forkClients of None \<Rightarrow> [] | Some cs \<Rightarrow> cs" s] tx_funding.ends [OF assms(1)] by blast

text \<open>A task that passes its beginning has loaded the wallet it sends from, or that it funds from.\<close>

lemma begin_wallet_loaded:
  assumes "tx_begin cfg E signErr hashOf forkClients tw m None m'"
  shows "\<exists>w. map_of m (case tw of Inl a \<Rightarrow> a | Inr p \<Rightarrow> rootWallet p) = Some w \<and> wReadyClosed w"
  using assms by (cases rule: tx_begin.cases) (auto simp: AwaitReady_def split: if_splits)

text \<open>What a loaded task keeps: a valid configuration, and a seed exactly if it has a mnemonic.\<close>

lemma depositsLoadConfig_seed:
  "depositsLoadConfig unmarshal consume isValid newSeed toKey = Inr (config, seed, key) \<Longrightarrow>
     depositsValidate config = None \<and> (seed = None \<longleftrightarrow> dcMnemonic config = '''')"
  by (auto simp: depositsLoadConfig_def requestLoadConfig_def mnemonicToSeed_def Let_def split: sum.splits option.splits if_splits)

text \<open>So a deposit that is not a top-up has the key it is signed with.\<close>

lemma valid_deposit_has_key:
  assumes "depositsValidate cfg = None" "\<not> dcTopUpDeposit cfg" "depositKey cfg L fromHex i = Inr (key, pubkey)"
  shows "key \<noteq> None"
  using assms by (auto simp: depositsValidate_def depositKey_def split: if_splits sum.splits)

text \<open>Withdrawal credentials of fewer than 32 bytes panic.\<close>

lemma short_credentials_panic:
  assumes "dcMnemonic cfg = ''''" "dcWithdrawalCredentials cfg \<noteq> ''''" "length (fromHex (dcWithdrawalCredentials cfg)) < 32"
  shows "depositData cfg L fromHex hash msgRoot version i = None"
  using assms by (simp add: depositData_def depositKey_def depositCreds_def)

end
