(* ===== verification/Logging.thy ===== *)
theory Logging
  imports Database
begin

text \<open>
  The log scopes of tasks and of the coordinator (\<open>logger\<close>): a ring buffer in memory, or a buffer that is written to the database when it is full,
  two seconds after an entry or on request. A panic is None or \<open>LogPanic\<close>. The forwarding to the parent logger is left out.
\<close>

section \<open>Entries and scopes\<close>

record log_entry =
  leTime :: int
  leLevel :: u32
  leMessage :: string
  leData :: "(string \<times> string) list"

record log_options =
  loRunID :: u64
  loTaskID :: u64
  loBufferSize :: u64
  loDatabase :: bool

definition scopeOptions :: "log_options option \<Rightarrow> log_options" where
  "scopeOptions options =
     (let o1 = (case options of None \<Rightarrow> \<lparr>loRunID = 0, loTaskID = 0, loBufferSize = 0, loDatabase = False\<rparr> | Some o0 \<Rightarrow> o0)
      in if loBufferSize o1 = 0 then o1\<lparr>loBufferSize := 100\<rparr> else o1)"

text \<open>\<open>yaml\<close> encodes the fields of an entry.\<close>

definition taskLog :: "log_options \<Rightarrow> ((string \<times> string) list \<Rightarrow> string + string) \<Rightarrow> u64 \<Rightarrow> log_entry \<Rightarrow> db_task_log" where
  "taskLog opts yaml logIdx e =
     \<lparr>tlRunID = loRunID opts, tlTaskID = loTaskID opts, tlLogIndex = logIdx, tlLogTime = leTime e, tlLogLevel = leLevel e,
      tlLogFields = (if leData e = [] then '''' else case yaml (leData e) of Inl err \<Rightarrow> '''' | Inr fieldsYaml \<Rightarrow> fieldsYaml),
      tlLogMessage = leMessage e\<rparr>"

section \<open>The buffer in memory\<close>

record logMemBuffer =
  mbSize :: u64
  mbIdx :: u64
  mbBuf :: "db_task_log list"
  mbLastIdx :: u64

definition newLogMemBuffer :: "u64 \<Rightarrow> logMemBuffer" where
  "newLogMemBuffer bufferSize = \<lparr>mbSize = bufferSize, mbIdx = 0, mbBuf = [], mbLastIdx = 0\<rparr>"

definition memFire :: "log_options \<Rightarrow> ((string \<times> string) list \<Rightarrow> string + string) \<Rightarrow> log_entry \<Rightarrow> logMemBuffer \<Rightarrow> logMemBuffer option" where
  "memFire opts yaml e b =
     (let logIdx = mbLastIdx b + 1; l = taskLog opts yaml logIdx e; b1 = b\<lparr>mbLastIdx := logIdx\<rparr>
      in if mbIdx b \<ge> mbSize b
         then if mbSize b = 0 then None
              else let bufIdx = unat (mbIdx b mod mbSize b)
                   in if bufIdx < length (mbBuf b) then Some (b1\<lparr>mbBuf := (mbBuf b)[bufIdx := l], mbIdx := mbIdx b + 1\<rparr>) else None
         else Some (b1\<lparr>mbBuf := mbBuf b @ [l], mbIdx := mbIdx b + 1\<rparr>))"

definition memWindow :: "logMemBuffer \<Rightarrow> db_task_log list option" where
  "memWindow b =
     (if mbIdx b \<ge> mbSize b
      then if mbSize b = 0 then None
           else let firstIdx = unat (mbIdx b mod mbSize b) in Some (drop firstIdx (mbBuf b) @ take firstIdx (mbBuf b))
      else Some (take (unat (mbIdx b)) (mbBuf b)))"

definition logPage :: "u64 \<Rightarrow> u64 \<Rightarrow> db_task_log list \<Rightarrow> db_task_log list" where
  "logPage fromIdx limit entries =
     (case entries of
        [] \<Rightarrow> []
      | e # _ \<Rightarrow>
          if tlLogIndex e < fromIdx \<and> unat (fromIdx - tlLogIndex e) \<ge> length entries then []
          else
            let rest = (if tlLogIndex e < fromIdx then drop (unat (fromIdx - tlLogIndex e)) entries else entries)
            in if limit \<noteq> 0 \<and> length rest > unat limit then take (unat limit) rest else rest)"

definition memGetLogEntries :: "u64 \<Rightarrow> u64 \<Rightarrow> logMemBuffer \<Rightarrow> db_task_log list option" where
  "memGetLogEntries fromIdx limit b = map_option (logPage fromIdx limit) (memWindow b)"

section \<open>The buffer before the database\<close>

text \<open>
  The flush timer is a goroutine: it waits for its channel to be closed or for two seconds, then takes the buffer's mutex and flushes, and clears the \<open>flushing\<close>
  flag, which is set in all states but the first.
\<close>

datatype flush_chan = NoChan | OpenChan | ClosedChan

datatype flush_timer = TimerIdle | TimerSelect | TimerFlush | TimerEnd

record logDBWriter =
  dwSize :: u64
  dwLastIdx :: u64
  dwFlushIdx :: u64
  dwBufIdx :: u64
  dwBuf :: "db_task_log list"
  dwChan :: flush_chan
  dwTimer :: flush_timer

datatype log_end = LogOk logDBWriter database | LogPanic | LogDeadlock

definition newLogDBWriter :: "u64 \<Rightarrow> logDBWriter" where
  "newLogDBWriter bufferSize =
     \<lparr>dwSize = bufferSize, dwLastIdx = 0, dwFlushIdx = 0, dwBufIdx = 0, dwBuf = [], dwChan = NoChan, dwTimer = TimerIdle\<rparr>"

definition appendLog :: "log_options \<Rightarrow> ((string \<times> string) list \<Rightarrow> string + string) \<Rightarrow> log_entry \<Rightarrow> logDBWriter \<Rightarrow> logDBWriter" where
  "appendLog opts yaml e w =
     (let logIdx = dwLastIdx w + 1
      in w\<lparr>dwLastIdx := logIdx, dwBuf := dwBuf w @ [taskLog opts yaml logIdx e], dwBufIdx := dwBufIdx w + 1\<rparr>)"

definition flushDelayed :: "logDBWriter \<Rightarrow> logDBWriter" where
  "flushDelayed w = (if dwTimer w \<noteq> TimerIdle then w else w\<lparr>dwTimer := TimerSelect, dwChan := OpenChan\<rparr>)"

definition closeChan :: "logDBWriter \<Rightarrow> logDBWriter option" where
  "closeChan w = (case dwChan w of NoChan \<Rightarrow> Some w | OpenChan \<Rightarrow> Some (w\<lparr>dwChan := ClosedChan\<rparr>) | ClosedChan \<Rightarrow> None)"

primrec insertLogs :: "db_driver \<Rightarrow> nat \<Rightarrow> db_task_log list \<Rightarrow> database \<Rightarrow> string + database" where
  "insertLogs drv n [] d = Inr d"
| "insertLogs drv n (l # ls) d = (case InsertTaskLog drv n l d of Inl e \<Rightarrow> Inl e | Inr d' \<Rightarrow> insertLogs drv (n + 1) ls d')"

definition flushStore :: "db_driver \<Rightarrow> db_task_log list \<Rightarrow> database \<Rightarrow> go_error \<times> database" where
  "flushStore drv buf = RunTransaction drv (insertLogs drv 0 buf)"

definition flushClear :: "logDBWriter \<Rightarrow> logDBWriter" where
  "flushClear w = w\<lparr>dwBuf := [], dwBufIdx := 0, dwFlushIdx := dwLastIdx w\<rparr>"

text \<open>
  A failed write is logged to the scope itself: the hook asks for the buffer's mutex, which the logging call and the timer hold, and for the flush mutex if the buffer
  is full. \<open>errEntry\<close> is the entry of that message, \<open>locked\<close> whether the caller holds the buffer's mutex.
\<close>

definition flushToDB ::
    "log_options \<Rightarrow> ((string \<times> string) list \<Rightarrow> string + string) \<Rightarrow> (string \<Rightarrow> log_entry) \<Rightarrow> db_driver \<Rightarrow> bool \<Rightarrow> logDBWriter \<Rightarrow> database \<Rightarrow> log_end" where
  "flushToDB opts yaml errEntry drv locked w d =
     (case closeChan w of
        None \<Rightarrow> LogPanic
      | Some w1 \<Rightarrow>
          if dwBuf w1 = [] then LogOk w1 d
          else (case flushStore drv (dwBuf w1) d of
                  (None, d') \<Rightarrow> LogOk (flushClear w1) d'
                | (Some e, d') \<Rightarrow>
                    if locked \<or> dwBufIdx w1 \<ge> dwSize w1 then LogDeadlock
                    else LogOk (flushDelayed (appendLog opts yaml (errEntry e) w1)) d'))"

definition dbFire ::
    "log_options \<Rightarrow> ((string \<times> string) list \<Rightarrow> string + string) \<Rightarrow> (string \<Rightarrow> log_entry) \<Rightarrow> db_driver \<Rightarrow> log_entry \<Rightarrow> logDBWriter \<Rightarrow> database \<Rightarrow> log_end" where
  "dbFire opts yaml errEntry drv e w d =
     (case (if dwBufIdx w \<ge> dwSize w then flushToDB opts yaml errEntry drv True w d else LogOk w d) of
        LogOk w1 d1 \<Rightarrow> LogOk (flushDelayed (appendLog opts yaml e w1)) d1
      | r \<Rightarrow> r)"

definition timerFlush ::
    "log_options \<Rightarrow> ((string \<times> string) list \<Rightarrow> string + string) \<Rightarrow> (string \<Rightarrow> log_entry) \<Rightarrow> db_driver \<Rightarrow> logDBWriter \<Rightarrow> database \<Rightarrow> log_end" where
  "timerFlush opts yaml errEntry drv w d =
     (case flushToDB opts yaml errEntry drv True w d of LogOk w1 d1 \<Rightarrow> LogOk (w1\<lparr>dwTimer := TimerEnd\<rparr>) d1 | r \<Rightarrow> r)"

text \<open>
  The entries in the buffer answer a request that starts at or below the first of them, else the database is asked. A slice bound out of range panics.
\<close>

definition bufferPage :: "u64 \<Rightarrow> u64 \<Rightarrow> db_task_log list \<Rightarrow> db_task_log list" where
  "bufferPage fromIdx limit buf =
     (let firstIdx = tlLogIndex (hd buf)
      in if firstIdx > fromIdx \<and> length buf \<le> unat (firstIdx - fromIdx) then []
         else
           let rest = (if firstIdx > fromIdx then drop (unat (firstIdx - fromIdx)) buf else buf)
           in if limit = 0 \<or> length rest \<le> unat limit then rest else take (unat limit) rest)"

definition joinPages :: "u64 \<Rightarrow> db_task_log list \<Rightarrow> db_task_log list \<Rightarrow> db_task_log list option" where
  "joinPages limit dbEntries buf =
     (let overlap = (dbEntries \<noteq> [] \<and> tlLogIndex (last dbEntries) \<ge> tlLogIndex (hd buf));
          k = unat (tlLogIndex (last dbEntries) - tlLogIndex (hd buf) + 1)
      in if overlap \<and> k > length buf then None
         else
           let joined = dbEntries @ (if overlap then drop k buf else buf)
           in Some (if length joined > unat limit then take (unat limit) joined else joined))"

definition dbGetLogEntries :: "log_options \<Rightarrow> db_driver \<Rightarrow> u64 \<Rightarrow> u64 \<Rightarrow> logDBWriter \<Rightarrow> database \<Rightarrow> db_task_log list option" where
  "dbGetLogEntries opts drv fromIdx limit w d =
     (let buf = take (unat (dwBufIdx w)) (dwBuf w)
      in if buf \<noteq> [] \<and> tlLogIndex (hd buf) \<ge> fromIdx then Some (bufferPage fromIdx limit buf)
         else (case GetTaskLogs drv (loRunID opts) (loTaskID opts) fromIdx limit d of
                 Inl e \<Rightarrow> Some []
               | Inr dbEntries \<Rightarrow>
                   if length dbEntries = unat limit \<or> buf = [] then Some dbEntries else joinPages limit dbEntries buf))"

text \<open>A scope has one of the two buffers.\<close>

datatype log_scope = MemScope logMemBuffer | DbScope logDBWriter

definition NewLogger :: "log_options option \<Rightarrow> log_options \<times> log_scope" where
  "NewLogger options =
     (let opts = scopeOptions options
      in (opts, if loDatabase opts then DbScope (newLogDBWriter (loBufferSize opts)) else MemScope (newLogMemBuffer (loBufferSize opts))))"

definition GetLogEntryCount :: "log_scope \<Rightarrow> u64" where
  "GetLogEntryCount sc = (case sc of MemScope b \<Rightarrow> mbLastIdx b | DbScope w \<Rightarrow> dwLastIdx w)"

definition GetLogEntries :: "log_options \<Rightarrow> db_driver \<Rightarrow> u64 \<Rightarrow> u64 \<Rightarrow> log_scope \<Rightarrow> database \<Rightarrow> db_task_log list option" where
  "GetLogEntries opts drv fromIdx limit sc d =
     (case sc of MemScope b \<Rightarrow> memGetLogEntries fromIdx limit b | DbScope w \<Rightarrow> dbGetLogEntries opts drv fromIdx limit w d)"

text \<open>The log of a stored run is read from the database; its number of entries is kept once it is known.\<close>

record logDBReader =
  lrRunID :: u64
  lrTaskID :: u64
  lrLastIdx :: "u64 option"

definition NewLogDBReader :: "u64 \<Rightarrow> u64 \<Rightarrow> logDBReader" where
  "NewLogDBReader testRunID taskID = \<lparr>lrRunID = testRunID, lrTaskID = taskID, lrLastIdx = None\<rparr>"

definition readerEntryCount :: "db_driver \<Rightarrow> database \<Rightarrow> logDBReader \<Rightarrow> u64 \<times> logDBReader" where
  "readerEntryCount drv d lr =
     (case lrLastIdx lr of
        Some n \<Rightarrow> (n, lr)
      | None \<Rightarrow> (case GetLastLogIndex drv (lrRunID lr) (lrTaskID lr) d of Inl e \<Rightarrow> (0, lr) | Inr n \<Rightarrow> (n, lr\<lparr>lrLastIdx := Some n\<rparr>)))"

definition readerEntries :: "db_driver \<Rightarrow> u64 \<Rightarrow> u64 \<Rightarrow> database \<Rightarrow> logDBReader \<Rightarrow> db_task_log list" where
  "readerEntries drv fromIdx limit d lr =
     (case GetTaskLogs drv (lrRunID lr) (lrTaskID lr) fromIdx limit d of Inl e \<Rightarrow> [] | Inr dbEntries \<Rightarrow> dbEntries)"

section \<open>The contract of a buffer\<close>

text \<open>A buffer stands for the history of the entries it was given, which it numbers from one.\<close>

primrec fireAll :: "('e \<Rightarrow> 's \<Rightarrow> 's option) \<Rightarrow> 'e list \<Rightarrow> 's \<Rightarrow> 's option" where
  "fireAll fire [] s = Some s"
| "fireAll fire (e # es) s = Option.bind (fire e s) (fireAll fire es)"

definition history :: "log_options \<Rightarrow> ((string \<times> string) list \<Rightarrow> string + string) \<Rightarrow> log_entry list \<Rightarrow> db_task_log list" where
  "history opts yaml es = map (\<lambda>i. taskLog opts yaml (of_nat (Suc i)) (es ! i)) [0..<length es]"

locale log_sink =
  fixes fire :: "'e \<Rightarrow> 's \<Rightarrow> 's option"
    and mk :: "nat \<Rightarrow> 'e \<Rightarrow> 'l"
    and holds :: "'s \<Rightarrow> 'l list \<Rightarrow> bool"
  assumes fire_holds: "holds s ls \<Longrightarrow> Suc (length ls) < 2 ^ 64 \<Longrightarrow> fire e s = Some s' \<Longrightarrow> holds s' (ls @ [mk (Suc (length ls)) e])"
begin

lemma fires_hold:
  "holds s ls \<Longrightarrow> length ls + length es < 2 ^ 64 \<Longrightarrow> fireAll fire es s = Some s' \<Longrightarrow>
     holds s' (ls @ map (\<lambda>i. mk (Suc (length ls + i)) (es ! i)) [0..<length es])"
proof (induction es arbitrary: s ls)
  case (Cons e es)
  then obtain s1 where s1: "fire e s = Some s1" "fireAll fire es s1 = Some s'" by (auto simp: bind_eq_Some_conv)
  have "holds s1 (ls @ [mk (Suc (length ls)) e])" using fire_holds s1(1) Cons.prems(1,2) by simp
  from Cons.IH [OF this _ s1(2)] Cons.prems(2)
  have "holds s' ((ls @ [mk (Suc (length ls)) e]) @ map (\<lambda>i. mk (Suc (length ls + Suc i)) (es ! i)) [0..<length es])" by simp
  then show ?case by (simp add: upt_conv_Cons map_Suc_upt [symmetric] comp_def del: upt_Suc map_Suc_upt)
qed simp

end

lemma length_history [simp]: "length (history opts yaml es) = length es"
  by (simp add: history_def)

lemma history_nth: "i < length es \<Longrightarrow> history opts yaml es ! i = taskLog opts yaml (of_nat (Suc i)) (es ! i)"
  by (simp add: history_def)

lemma history_snoc: "history opts yaml (es @ [e]) = history opts yaml es @ [taskLog opts yaml (of_nat (Suc (length es))) e]"
  by (simp add: history_def nth_append)

lemma history_index: "i < length es \<Longrightarrow> length es < 2 ^ 64 \<Longrightarrow> unat (tlLogIndex (history opts yaml es ! i)) = Suc i"
  by (simp add: history_nth taskLog_def unat_of_nat del: of_nat_Suc)

section \<open>The ring buffer\<close>

text \<open>The last entries of the history stand at their numbers modulo the size.\<close>

definition mem_holds :: "logMemBuffer \<Rightarrow> db_task_log list \<Rightarrow> bool" where
  "mem_holds b ls \<longleftrightarrow> mbSize b \<noteq> 0 \<and> length ls < 2 ^ 64 \<and> unat (mbIdx b) = length ls \<and> unat (mbLastIdx b) = length ls \<and>
     length (mbBuf b) = min (unat (mbSize b)) (length ls) \<and>
     (\<forall>i < length ls. length ls \<le> i + unat (mbSize b) \<longrightarrow> mbBuf b ! (i mod unat (mbSize b)) = ls ! i)"

lemma unat_eq_of_nat: "unat (a :: u64) = n \<Longrightarrow> a = of_nat n"
  by auto

lemma mod_distinct:
  assumes "i < n" "n < i + (k :: nat)"
  shows "i mod k \<noteq> n mod k"
proof
  assume "i mod k = n mod k"
  then have "k dvd n - i" using assms(1) mod_eq_dvd_iff_nat by (metis less_imp_le)
  then show False using assms by (auto dest: dvd_imp_le)
qed

lemma memFire_holds:
  assumes "mem_holds b ls" "Suc (length ls) < 2 ^ 64"
  shows "\<exists>b'. memFire opts yaml e b = Some b' \<and> mem_holds b' (ls @ [taskLog opts yaml (of_nat (Suc (length ls))) e])"
proof -
  let ?n = "length ls" let ?k = "unat (mbSize b)"
  have b: "mbSize b \<noteq> 0" "unat (mbIdx b) = ?n" "unat (mbLastIdx b) = ?n" "length (mbBuf b) = min ?k ?n"
    and at: "\<And>i. i < ?n \<Longrightarrow> ?n \<le> i + ?k \<Longrightarrow> mbBuf b ! (i mod ?k) = ls ! i"
    using assms(1) by (auto simp: mem_holds_def)
  have k: "0 < ?k" using b(1) by (simp add: unat_gt_0)
  let ?l = "taskLog opts yaml (of_nat (Suc ?n)) e"
  have idx: "mbLastIdx b + 1 = of_nat (Suc ?n)" "mbIdx b + 1 = of_nat (Suc ?n)"
    using unat_eq_of_nat [OF b(2)] unat_eq_of_nat [OF b(3)] by (simp_all add: add.commute)
  have m: "unat (mbIdx b mod mbSize b) = ?n mod ?k" by (simp add: unat_mod b(2))
  have un: "unat (of_nat (Suc ?n) :: u64) = Suc ?n" using assms(2) by (simp add: unat_of_nat del: of_nat_Suc)
  show ?thesis
  proof (cases "?k \<le> ?n")
    case True
    let ?b = "b\<lparr>mbLastIdx := of_nat (Suc ?n), mbBuf := (mbBuf b)[?n mod ?k := ?l], mbIdx := of_nat (Suc ?n)\<rparr>"
    have lt: "?n mod ?k < length (mbBuf b)" using b(4) True k by simp
    have "memFire opts yaml e b = Some ?b"
      using True lt b(1) by (simp add: memFire_def Let_def word_le_nat_alt b(2) m idx del: of_nat_Suc)
    moreover have "mem_holds ?b (ls @ [?l])"
      unfolding mem_holds_def
    proof (intro conjI allI impI)
      fix i assume i: "i < length (ls @ [?l])" "length (ls @ [?l]) \<le> i + unat (mbSize ?b)"
      show "mbBuf ?b ! (i mod unat (mbSize ?b)) = (ls @ [?l]) ! i"
      proof (cases "i = ?n")
        case False
        then have "i mod ?k \<noteq> ?n mod ?k" using i by (intro mod_distinct) auto
        with False i at [of i] show ?thesis by (simp add: nth_append)
      qed (use lt in simp)
    qed (use assms(2) b True un in \<open>auto simp del: of_nat_Suc\<close>)
    ultimately show ?thesis by blast
  next
    case False
    let ?b = "b\<lparr>mbLastIdx := of_nat (Suc ?n), mbBuf := mbBuf b @ [?l], mbIdx := of_nat (Suc ?n)\<rparr>"
    have "memFire opts yaml e b = Some ?b"
      using False by (simp add: memFire_def Let_def word_le_nat_alt b(2) idx del: of_nat_Suc)
    moreover have "mem_holds ?b (ls @ [?l])"
      unfolding mem_holds_def using False b assms(2) un at
      by (auto simp: nth_append less_Suc_eq simp del: of_nat_Suc)
    ultimately show ?thesis by blast
  qed
qed

interpretation mem_log: log_sink "memFire opts yaml" "\<lambda>i. taskLog opts yaml (of_nat i)" mem_holds for opts yaml
  by unfold_locales (metis memFire_holds option.inject)

lemma memFire_all: "mem_holds b ls \<Longrightarrow> length ls + length es < 2 ^ 64 \<Longrightarrow> \<exists>b'. fireAll (memFire opts yaml) es b = Some b'"
proof (induction es arbitrary: b ls)
  case (Cons e es)
  then obtain b1 where "memFire opts yaml e b = Some b1" "mem_holds b1 (ls @ [taskLog opts yaml (of_nat (Suc (length ls))) e])"
    using memFire_holds [of b ls opts yaml e] by auto
  with Cons.IH [of b1] Cons.prems(2) show ?case by simp
qed simp

text \<open>The window is the end of the history.\<close>

lemma memWindow_holds:
  assumes "mem_holds b ls"
  shows "memWindow b = Some (drop (length ls - unat (mbSize b)) ls)"
proof -
  let ?n = "length ls" let ?k = "unat (mbSize b)"
  have b: "mbSize b \<noteq> 0" "unat (mbIdx b) = ?n" "length (mbBuf b) = min ?k ?n"
    and at: "\<And>i. i < ?n \<Longrightarrow> ?n \<le> i + ?k \<Longrightarrow> mbBuf b ! (i mod ?k) = ls ! i"
    using assms by (auto simp: mem_holds_def)
  show ?thesis
  proof (cases "?k \<le> ?n")
    case True
    then have l: "length (mbBuf b) = ?k" using b(3) by simp
    have k: "0 < ?k" using b(1) by (simp add: unat_gt_0)
    have "rotate ?n (mbBuf b) = drop (?n - ?k) ls"
    proof (rule nth_equalityI)
      fix j assume "j < length (rotate ?n (mbBuf b))"
      then have j: "j < ?k" using l by simp
      have "(?n + j) mod ?k = (?n - ?k + j) mod ?k" using True by (metis add.commute add.left_commute le_add_diff_inverse mod_add_self1)
      then show "rotate ?n (mbBuf b) ! j = drop (?n - ?k) ls ! j"
        using j l True at [of "?n - ?k + j"] by (simp add: nth_rotate)
    qed (use l True in simp)
    then show ?thesis
      using True b(1) by (simp add: memWindow_def Let_def word_le_nat_alt b(2) unat_mod rotate_drop_take l)
  next
    case False
    then have l: "length (mbBuf b) = ?n" using b(3) by simp
    moreover have "mbBuf b = ls" using False l at by (intro nth_equalityI) auto
    ultimately show ?thesis using False by (simp add: memWindow_def word_le_nat_alt b(2))
  qed
qed

text \<open>Entries with consecutive numbers: those from a number on are a suffix.\<close>

definition numbered :: "nat \<Rightarrow> db_task_log list \<Rightarrow> bool" where
  "numbered c ls \<longleftrightarrow> (\<forall>i < length ls. unat (tlLogIndex (ls ! i)) = c + i)"

lemma numbered_Cons: "numbered c (l # ls) \<longleftrightarrow> unat (tlLogIndex l) = c \<and> numbered (Suc c) ls"
  by (auto simp: numbered_def All_less_Suc2)

lemma numbered_drop: "numbered c ls \<Longrightarrow> numbered (c + k) (drop k ls)"
  by (simp add: numbered_def add.assoc)

lemma numbered_history: "length es < 2 ^ 64 \<Longrightarrow> numbered 1 (history opts yaml es)"
  by (simp add: numbered_def history_index)

lemma filter_numbered: "numbered c ls \<Longrightarrow> filter (\<lambda>l. fromIdx \<le> tlLogIndex l) ls = drop (unat fromIdx - c) ls"
proof (induction ls arbitrary: c)
  case (Cons l ls)
  then have l: "unat (tlLogIndex l) = c" and ls: "numbered (Suc c) ls" by (auto simp: numbered_Cons)
  show ?case
  proof (cases "unat fromIdx \<le> c")
    case True
    then show ?thesis using l Cons.IH [OF ls] by (simp add: word_le_nat_alt)
  next
    case False
    then have "unat fromIdx - c = Suc (unat fromIdx - Suc c)" by simp
    with False l Cons.IH [OF ls] show ?thesis by (simp add: word_le_nat_alt)
  qed
qed simp

definition firstEntries :: "u64 \<Rightarrow> 'a list \<Rightarrow> 'a list" where
  "firstEntries limit xs = (if limit = 0 then xs else take (unat limit) xs)"

lemma logPage_numbered:
  assumes "numbered c ls"
  shows "logPage fromIdx limit ls = firstEntries limit (filter (\<lambda>l. fromIdx \<le> tlLogIndex l) ls)"
proof (cases ls)
  case (Cons l ls')
  then have l: "unat (tlLogIndex l) = c" using assms by (simp add: numbered_Cons)
  have "tlLogIndex l < fromIdx \<Longrightarrow> unat (fromIdx - tlLogIndex l) = unat fromIdx - c"
    using l by (simp add: unat_sub less_imp_le)
  moreover have "\<not> tlLogIndex l < fromIdx \<Longrightarrow> unat fromIdx - c = 0" using l by (simp add: word_less_nat_alt)
  ultimately show ?thesis
    unfolding filter_numbered [OF assms] using Cons by (auto simp: logPage_def firstEntries_def Let_def)
qed (simp add: logPage_def firstEntries_def)

lemma memFire_size: "memFire opts yaml e b = Some b' \<Longrightarrow> mbSize b' = mbSize b"
  by (auto simp: memFire_def Let_def split: if_splits)

lemma fireAll_size: "fireAll (memFire opts yaml) es b = Some b' \<Longrightarrow> mbSize b' = mbSize b"
  by (induction es arbitrary: b) (auto simp: bind_eq_Some_conv dest: memFire_size)

text \<open>
  C16. Logging in memory never fails, and reading returns, of the last entries that the buffer has room for, those from the wanted number on in order, cut at the limit.
\<close>

theorem memory_log_reads_back:
  assumes "loBufferSize opts \<noteq> 0" "length es < 2 ^ 64"
  shows "\<exists>b. fireAll (memFire opts yaml) es (newLogMemBuffer (loBufferSize opts)) = Some b \<and> mbLastIdx b = of_nat (length es) \<and>
    memGetLogEntries fromIdx limit b =
      Some (firstEntries limit (filter (\<lambda>l. fromIdx \<le> tlLogIndex l) (drop (length es - unat (loBufferSize opts)) (history opts yaml es))))"
proof -
  let ?b0 = "newLogMemBuffer (loBufferSize opts)"
  have start: "mem_holds ?b0 []" using assms(1) by (simp add: mem_holds_def newLogMemBuffer_def)
  then obtain b where b: "fireAll (memFire opts yaml) es ?b0 = Some b" using memFire_all assms(2) by fastforce
  then have holds: "mem_holds b (history opts yaml es)"
    using mem_log.fires_hold [OF start _ b] assms(2) by (simp add: history_def)
  have size: "mbSize b = loBufferSize opts" using fireAll_size [OF b] by (simp add: newLogMemBuffer_def)
  have "memGetLogEntries fromIdx limit b =
      Some (firstEntries limit (filter (\<lambda>l. fromIdx \<le> tlLogIndex l) (drop (length es - unat (loBufferSize opts)) (history opts yaml es))))"
    using memWindow_holds [OF holds] logPage_numbered [OF numbered_drop [OF numbered_history [OF assms(2)]]]
    by (simp add: memGetLogEntries_def size)
  moreover have "mbLastIdx b = of_nat (length es)" using holds by (auto simp: mem_holds_def intro!: unat_eq_of_nat)
  ultimately show ?thesis using b by blast
qed

definition demoLogs :: log_options where
  "demoLogs = \<lparr>loRunID = 1, loTaskID = 2, loBufferSize = 2, loDatabase = False\<rparr>"

definition demoYaml :: "(string \<times> string) list \<Rightarrow> string + string" where
  "demoYaml kvs = Inl ''unsupported''"

definition demoEntry :: "string \<Rightarrow> log_entry" where
  "demoEntry m = \<lparr>leTime = 0, leLevel = 4, leMessage = m, leData = []\<rparr>"

theorem memory_log_reads_back_witness:
  "\<exists>b. fireAll (memFire demoLogs demoYaml) [demoEntry ''a'', demoEntry ''b'', demoEntry ''c''] (newLogMemBuffer 2) = Some b \<and>
     map_option (map tlLogMessage) (memGetLogEntries 2 5 b) = Some [''b'', ''c'']"
proof -
  from memory_log_reads_back [of demoLogs "[demoEntry ''a'', demoEntry ''b'', demoEntry ''c'']" demoYaml 2 5]
  obtain b where "fireAll (memFire demoLogs demoYaml) [demoEntry ''a'', demoEntry ''b'', demoEntry ''c''] (newLogMemBuffer 2) = Some b"
    "memGetLogEntries 2 5 b = Some (firstEntries 5 (filter (\<lambda>l. 2 \<le> tlLogIndex l)
       (drop 1 (history demoLogs demoYaml [demoEntry ''a'', demoEntry ''b'', demoEntry ''c'']))))"
    by (auto simp: demoLogs_def)
  then show ?thesis by (intro exI [of _ b]) (simp add: firstEntries_def history_def taskLog_def demoEntry_def upt_rec)
qed

section \<open>Nothing is lost on the way to the database\<close>

text \<open>
  The runs of a writer: logging, \<open>Flush\<close>, and the steps of its timer, for the entries \<open>es\<close> logged so far. Logging and the flush of the timer hold the buffer's mutex and are one step each, a
  log call at the point where it appends. \<open>Flush\<close> holds the flush mutex only, so its statements are steps of their own, between which entries are logged as long as the buffer is not full: it closes the
  channel, writes the buffer, empties it and resets its counters. Who needs to flush meanwhile waits for it; a log call that has waited flushes
  even if the buffer is empty by then. \<open>lost\<close> are the positions of the entries logged between the write and the emptying of a \<open>Flush\<close>.
\<close>

datatype flush_phase = NoFlush | FlushBegun | FlushWritten | FlushEmptied

inductive log_run ::
    "log_options \<Rightarrow> ((string \<times> string) list \<Rightarrow> string + string) \<Rightarrow> (string \<Rightarrow> log_entry) \<Rightarrow> db_driver \<Rightarrow> database \<Rightarrow>
     log_entry list \<Rightarrow> nat set \<Rightarrow> flush_phase \<Rightarrow> log_end \<Rightarrow> bool"
  for opts yaml errEntry drv d0 where
  start: "log_run opts yaml errEntry drv d0 [] {} NoFlush (LogOk (newLogDBWriter (loBufferSize opts)) d0)"
| fire: "log_run opts yaml errEntry drv d0 es lost NoFlush (LogOk w d) \<Longrightarrow>
    log_run opts yaml errEntry drv d0 (es @ [e]) lost NoFlush (dbFire opts yaml errEntry drv e w d)"
| fire_waited: "log_run opts yaml errEntry drv d0 es lost NoFlush (LogOk w d) \<Longrightarrow>
    log_run opts yaml errEntry drv d0 (es @ [e]) lost NoFlush
      (case flushToDB opts yaml errEntry drv True w d of LogOk w1 d1 \<Rightarrow> LogOk (flushDelayed (appendLog opts yaml e w1)) d1 | r \<Rightarrow> r)"
| fire_meanwhile: "\<lbrakk>log_run opts yaml errEntry drv d0 es lost ph (LogOk w d); ph = FlushBegun \<or> ph = FlushEmptied; dwBufIdx w < dwSize w\<rbrakk> \<Longrightarrow>
    log_run opts yaml errEntry drv d0 (es @ [e]) lost ph (dbFire opts yaml errEntry drv e w d)"
| fire_lost: "\<lbrakk>log_run opts yaml errEntry drv d0 es lost FlushWritten (LogOk w d); dwBufIdx w < dwSize w\<rbrakk> \<Longrightarrow>
    log_run opts yaml errEntry drv d0 (es @ [e]) (insert (length es) lost) FlushWritten (dbFire opts yaml errEntry drv e w d)"
| flush_begin: "log_run opts yaml errEntry drv d0 es lost NoFlush (LogOk w d) \<Longrightarrow>
    log_run opts yaml errEntry drv d0 es lost FlushBegun (case closeChan w of None \<Rightarrow> LogPanic | Some w1 \<Rightarrow> LogOk w1 d)"
| flush_nothing: "\<lbrakk>log_run opts yaml errEntry drv d0 es lost FlushBegun (LogOk w d); dwBuf w = []\<rbrakk> \<Longrightarrow>
    log_run opts yaml errEntry drv d0 es lost NoFlush (LogOk w d)"
| flush_write: "\<lbrakk>log_run opts yaml errEntry drv d0 es lost FlushBegun (LogOk w d); dwBuf w \<noteq> []; flushStore drv (dwBuf w) d = (None, d')\<rbrakk> \<Longrightarrow>
    log_run opts yaml errEntry drv d0 es lost FlushWritten (LogOk w d')"
| flush_fails: "\<lbrakk>log_run opts yaml errEntry drv d0 es lost FlushBegun (LogOk w d); dwBuf w \<noteq> []; flushStore drv (dwBuf w) d = (Some err, d')\<rbrakk> \<Longrightarrow>
    log_run opts yaml errEntry drv d0 (es @ [errEntry err]) lost NoFlush
      (if dwBufIdx w \<ge> dwSize w then LogDeadlock else LogOk (flushDelayed (appendLog opts yaml (errEntry err) w)) d')"
| flush_empty: "log_run opts yaml errEntry drv d0 es lost FlushWritten (LogOk w d) \<Longrightarrow>
    log_run opts yaml errEntry drv d0 es lost FlushEmptied (LogOk (w\<lparr>dwBuf := []\<rparr>) d)"
| flush_end: "log_run opts yaml errEntry drv d0 es lost FlushEmptied (LogOk w d) \<Longrightarrow>
    log_run opts yaml errEntry drv d0 es lost NoFlush (LogOk (w\<lparr>dwBufIdx := 0, dwFlushIdx := dwLastIdx w\<rparr>) d)"
| timer_closed: "\<lbrakk>log_run opts yaml errEntry drv d0 es lost ph (LogOk w d); dwTimer w = TimerSelect; dwChan w = ClosedChan\<rbrakk> \<Longrightarrow>
    log_run opts yaml errEntry drv d0 es lost ph (LogOk (w\<lparr>dwChan := NoChan, dwTimer := TimerEnd\<rparr>) d)"
| timer_due: "\<lbrakk>log_run opts yaml errEntry drv d0 es lost ph (LogOk w d); dwTimer w = TimerSelect\<rbrakk> \<Longrightarrow>
    log_run opts yaml errEntry drv d0 es lost ph (LogOk (w\<lparr>dwChan := NoChan, dwTimer := TimerFlush\<rparr>) d)"
| timer_flush: "\<lbrakk>log_run opts yaml errEntry drv d0 es lost NoFlush (LogOk w d); dwTimer w = TimerFlush\<rbrakk> \<Longrightarrow>
    log_run opts yaml errEntry drv d0 es lost NoFlush (timerFlush opts yaml errEntry drv w d)"
| timer_end: "\<lbrakk>log_run opts yaml errEntry drv d0 es lost ph (LogOk w d); dwTimer w = TimerEnd\<rbrakk> \<Longrightarrow>
    log_run opts yaml errEntry drv d0 es lost ph (LogOk (w\<lparr>dwTimer := TimerIdle\<rparr>) d)"

text \<open>The rows of the task are the entries flushed, the buffer holds the others; \<open>n\<close> entries were numbered.\<close>

definition db_holds :: "log_options \<Rightarrow> nat \<Rightarrow> logDBWriter \<times> database \<Rightarrow> db_task_log list \<Rightarrow> bool" where
  "db_holds opts n s ls \<longleftrightarrow>
     (case s of (w, d) \<Rightarrow> taskLogRows (loRunID opts) (loTaskID opts) d @ dwBuf w = ls \<and> dwLastIdx w = of_nat n \<and> engine d = EngineSqlite \<and> db_wf d)"

definition keptLog :: "log_options \<Rightarrow> ((string \<times> string) list \<Rightarrow> string + string) \<Rightarrow> log_entry list \<Rightarrow> nat set \<Rightarrow> db_task_log list" where
  "keptLog opts yaml es lost = nths (history opts yaml es) (- lost)"

text \<open>Writing entries with new numbers appends them to the rows of the task.\<close>

lemma insert_new_log:
  assumes "db_wf d" "engine d = EngineSqlite" "tlRunID l = run" "tlTaskID l = task" "tlLogIndex l \<notin> tlLogIndex ` set (taskLogRows run task d)"
  shows "\<exists>d'. InsertTaskLog reliable_driver n l d = Inr d' \<and> db_wf d' \<and> engine d' = EngineSqlite \<and> taskLogRows run task d' = taskLogRows run task d @ [l]"
proof -
  have k: "keyed taskLogKey (taskLogs d)" using assms(1) by (simp add: db_wf_def)
  have "map_of (taskLogs d) (taskLogKey l) = None"
  proof (rule ccontr)
    assume "map_of (taskLogs d) (taskLogKey l) \<noteq> None"
    then obtain r where r: "map_of (taskLogs d) (taskLogKey l) = Some r" by blast
    then have "taskLogKey r = taskLogKey l" using keyed_lookup [OF k] by simp
    moreover have "r \<in> snd ` set (taskLogs d)" using r by (force dest: map_of_SomeD)
    ultimately have "r \<in> set (taskLogRows run task d)" using assms(3,4) by (auto simp: taskLogRows_def)
    with \<open>taskLogKey r = taskLogKey l\<close> assms(5) show False by (metis prod.inject rev_image_eqI)
  qed
  then have "AList.update (taskLogKey l) l (taskLogs d) = taskLogs d @ [(taskLogKey l, l)]" by (simp add: update_new map_of_eq_None_iff)
  moreover have i: "InsertTaskLog reliable_driver n l d = Inr (d\<lparr>taskLogs := AList.update (taskLogKey l) l (taskLogs d)\<rparr>)"
    using assms(2) by (simp add: InsertTaskLog_def upsert_def)
  moreover have "db_wf (d\<lparr>taskLogs := AList.update (taskLogKey l) l (taskLogs d)\<rparr>)"
    using db_stmt_keeps [where handler = "InsertTaskLog reliable_driver n l", OF db_stmt.intros(10) i assms(1)] by simp
  ultimately show ?thesis using assms(2-4) by (auto simp: taskLogRows_def)
qed

lemma insertLogs_append:
  assumes "db_wf d" "engine d = EngineSqlite" "\<forall>l \<in> set ls. tlRunID l = run \<and> tlTaskID l = task"
    "distinct (map tlLogIndex (taskLogRows run task d @ ls))"
  shows "\<exists>d'. insertLogs reliable_driver n ls d = Inr d' \<and> db_wf d' \<and> engine d' = EngineSqlite \<and> taskLogRows run task d' = taskLogRows run task d @ ls"
  using assms
proof (induction ls arbitrary: n d)
  case (Cons l ls)
  have fresh: "tlLogIndex l \<notin> tlLogIndex ` set (taskLogRows run task d)" using Cons.prems(4) by auto
  obtain d1 where d1: "InsertTaskLog reliable_driver n l d = Inr d1" "db_wf d1" "engine d1 = EngineSqlite"
      "taskLogRows run task d1 = taskLogRows run task d @ [l]"
    using insert_new_log [OF Cons.prems(1,2) _ _ fresh, of n] Cons.prems(3) by (meson list.set_intros(1))
  have "distinct (map tlLogIndex (taskLogRows run task d1 @ ls))" "\<forall>l \<in> set ls. tlRunID l = run \<and> tlTaskID l = task"
    unfolding d1(4) using Cons.prems(3,4) by simp_all
  from Cons.IH [OF d1(2,3) this(2,1), of "n + 1"]
  have "\<exists>d'. insertLogs reliable_driver (n + 1) ls d1 = Inr d' \<and> db_wf d' \<and> engine d' = EngineSqlite \<and>
    taskLogRows run task d' = taskLogRows run task d @ l # ls" unfolding d1(4) by (simp only: append_assoc append_Cons append_Nil)
  then show ?case unfolding insertLogs.simps d1(1) by (simp only: sum.case)
qed simp

lemma distinct_numbered: "numbered c ls \<Longrightarrow> distinct (map tlLogIndex ls)"
  by (simp add: distinct_conv_nth numbered_def) (metis add_left_cancel)

lemma history_ids: "l \<in> set (history opts yaml es) \<Longrightarrow> tlRunID l = loRunID opts \<and> tlTaskID l = loTaskID opts"
  by (auto simp: history_def taskLog_def)

lemma keptLog_all [simp]: "keptLog opts yaml es {} = history opts yaml es"
  by (simp add: keptLog_def nths_all)

lemma keptLog_snoc:
  "keptLog opts yaml (es @ [e]) lost =
     keptLog opts yaml es lost @ (if length es \<in> lost then [] else [taskLog opts yaml (of_nat (Suc (length es))) e])"
  by (simp add: keptLog_def history_snoc nths_append del: of_nat_Suc)

lemma keptLog_lost [simp]: "keptLog opts yaml es (insert (length es) lost) = keptLog opts yaml es lost"
proof -
  have "nths (history opts yaml es) A = nths (history opts yaml es) B" if "\<And>i. i < length es \<Longrightarrow> i \<in> A \<longleftrightarrow> i \<in> B" for A B
    unfolding nths_def using that by (intro arg_cong [of _ _ "map fst"] filter_cong) (auto simp: in_set_zip)
  then show ?thesis by (simp add: keptLog_def)
qed

lemma keptLog_distinct:
  assumes "length es < 2 ^ 64"
  shows "distinct (map tlLogIndex (keptLog opts yaml es lost))"
proof -
  have "nths (map tlLogIndex (history opts yaml es)) (- lost) = map tlLogIndex (keptLog opts yaml es lost)" by (simp add: keptLog_def nths_map)
  then show ?thesis using distinct_nthsI [OF distinct_numbered [OF numbered_history [OF assms]]] by metis
qed

lemma keptLog_ids: "l \<in> set (keptLog opts yaml es lost) \<Longrightarrow> tlRunID l = loRunID opts \<and> tlTaskID l = loTaskID opts"
  using history_ids [of l opts yaml es] by (auto simp: keptLog_def dest: in_set_nthsD)

lemma flushStore_holds:
  assumes "db_holds opts n (w, d) (keptLog opts yaml es lost)" "length es < 2 ^ 64"
  shows "\<exists>d'. flushStore reliable_driver (dwBuf w) d = (None, d') \<and> db_holds opts n (w\<lparr>dwBuf := []\<rparr>, d') (keptLog opts yaml es lost)"
proof -
  let ?rows = "taskLogRows (loRunID opts) (loTaskID opts) d"
  have h: "?rows @ dwBuf w = keptLog opts yaml es lost" "engine d = EngineSqlite" "db_wf d" using assms(1) by (auto simp: db_holds_def)
  have "distinct (map tlLogIndex (?rows @ dwBuf w))" unfolding h(1) by (rule keptLog_distinct [OF assms(2)])
  moreover have "\<forall>l \<in> set (dwBuf w). tlRunID l = loRunID opts \<and> tlTaskID l = loTaskID opts"
    using keptLog_ids [of _ opts yaml es lost] h(1) by (metis UnCI set_append)
  ultimately obtain d' where "insertLogs reliable_driver 0 (dwBuf w) d = Inr d'" "db_wf d'" "engine d' = EngineSqlite"
      "taskLogRows (loRunID opts) (loTaskID opts) d' = ?rows @ dwBuf w"
    using insertLogs_append [OF h(3,2)] by blast
  then show ?thesis using assms(1) by (auto simp: flushStore_def RunTransaction_def db_holds_def reliable_driver_def)
qed

lemma closeChan_fields:
  assumes "closeChan w = Some w1"
  shows "dwBuf w1 = dwBuf w" "dwLastIdx w1 = dwLastIdx w" "dwBufIdx w1 = dwBufIdx w" "dwSize w1 = dwSize w"
  using assms by (auto simp: closeChan_def split: flush_chan.splits)

lemma db_holds_flush:
  assumes "db_holds opts n (w, d) (keptLog opts yaml es lost)" "length es < 2 ^ 64"
  shows "flushToDB opts yaml errEntry reliable_driver locked w d = LogPanic \<or>
    (\<exists>w' d'. flushToDB opts yaml errEntry reliable_driver locked w d = LogOk w' d' \<and> db_holds opts n (w', d') (keptLog opts yaml es lost))"
proof (cases "closeChan w")
  case (Some w1)
  note w1 = closeChan_fields [OF Some]
  then have "db_holds opts n (w1, d) (keptLog opts yaml es lost)" using assms(1) by (simp add: db_holds_def)
  from flushStore_holds [OF this assms(2)] obtain d' where
    "flushStore reliable_driver (dwBuf w1) d = (None, d')" "db_holds opts n (w1\<lparr>dwBuf := []\<rparr>, d') (keptLog opts yaml es lost)" by blast
  then show ?thesis
    using Some w1 assms(1) by (auto simp: flushToDB_def flushClear_def db_holds_def)
qed (simp add: flushToDB_def)

lemma flushDelayed_fields [simp]: "dwBuf (flushDelayed w) = dwBuf w" "dwLastIdx (flushDelayed w) = dwLastIdx w"
  by (simp_all add: flushDelayed_def)

lemma db_holds_append:
  assumes "db_holds opts (length es) (w, d) (keptLog opts yaml es lost)" "length es \<notin> lost"
  shows "db_holds opts (Suc (length es)) (flushDelayed (appendLog opts yaml e w), d) (keptLog opts yaml (es @ [e]) lost)"
  using assms by (auto simp: db_holds_def appendLog_def Let_def keptLog_snoc add.commute)

lemma db_holds_fire:
  assumes "db_holds opts (length es) (w, d) (keptLog opts yaml es lost)" "length es < 2 ^ 64" "length es \<notin> lost"
  shows "dbFire opts yaml errEntry reliable_driver e w d = LogPanic \<or>
    (\<exists>w' d'. dbFire opts yaml errEntry reliable_driver e w d = LogOk w' d' \<and> db_holds opts (Suc (length es)) (w', d') (keptLog opts yaml (es @ [e]) lost))"
proof (cases "dwBufIdx w \<ge> dwSize w")
  case True
  from db_holds_flush [OF assms(1,2), of errEntry True] True show ?thesis
    using db_holds_append [OF _ assms(3)] by (auto simp: dbFire_def)
next
  case False
  then show ?thesis using db_holds_append [OF assms(1,3)] by (auto simp: dbFire_def)
qed

definition dbFireOk ::
    "log_options \<Rightarrow> ((string \<times> string) list \<Rightarrow> string + string) \<Rightarrow> (string \<Rightarrow> log_entry) \<Rightarrow> log_entry \<Rightarrow> logDBWriter \<times> database \<Rightarrow> (logDBWriter \<times> database) option" where
  "dbFireOk opts yaml errEntry e s = (case dbFire opts yaml errEntry reliable_driver e (fst s) (snd s) of LogOk w d \<Rightarrow> Some (w, d) | _ \<Rightarrow> None)"

interpretation db_log: log_sink "dbFireOk opts yaml errEntry" "\<lambda>i. taskLog opts yaml (of_nat i)"
  "\<lambda>s ls. \<exists>es. ls = history opts yaml es \<and> db_holds opts (length es) s ls" for opts yaml errEntry
proof unfold_locales
  fix s ls e s'
  assume "\<exists>es. ls = history opts yaml es \<and> db_holds opts (length es) s ls" "Suc (length ls) < 2 ^ 64" "dbFireOk opts yaml errEntry e s = Some s'"
  then obtain es where es: "ls = history opts yaml es" "db_holds opts (length es) (fst s, snd s) (keptLog opts yaml es {})" "length es < 2 ^ 64"
    and f: "dbFireOk opts yaml errEntry e s = Some s'" by (auto simp del: of_nat_Suc)
  from db_holds_fire [OF es(2,3), of errEntry e] f have "db_holds opts (length (es @ [e])) s' (history opts yaml (es @ [e]))"
    by (auto simp: dbFireOk_def)
  then show "\<exists>es. ls @ [taskLog opts yaml (of_nat (Suc (length ls))) e] = history opts yaml es \<and>
      db_holds opts (length es) s' (ls @ [taskLog opts yaml (of_nat (Suc (length ls))) e])"
    unfolding es(1) length_history history_snoc [symmetric] by blast
qed

text \<open>So logging alone, from an empty log, leaves the numbered entries in the rows and the buffer.\<close>

lemma db_log_fires:
  assumes "db_holds opts 0 s []" "length es < 2 ^ 64" "fireAll (dbFireOk opts yaml errEntry) es s = Some (w, d)"
  shows "taskLogRows (loRunID opts) (loTaskID opts) d @ dwBuf w = history opts yaml es"
proof -
  have "[] = history opts yaml []" by (simp add: history_def)
  with db_log.fires_hold [of "[]" opts yaml s es errEntry "(w, d)"] assms show ?thesis
    by (auto simp: db_holds_def history_def)
qed

text \<open>What has been written and is not yet emptied counts as written.\<close>

definition pendingWriter :: "flush_phase \<Rightarrow> logDBWriter \<Rightarrow> logDBWriter" where
  "pendingWriter ph w = (if ph = FlushWritten then w\<lparr>dwBuf := []\<rparr> else w)"

definition run_holds ::
    "log_options \<Rightarrow> ((string \<times> string) list \<Rightarrow> string + string) \<Rightarrow> log_entry list \<Rightarrow> nat set \<Rightarrow> flush_phase \<Rightarrow> log_end \<Rightarrow> bool" where
  "run_holds opts yaml es lost ph r \<longleftrightarrow> lost \<subseteq> {..<length es} \<and>
     (case r of LogPanic \<Rightarrow> True | LogDeadlock \<Rightarrow> False
      | LogOk w d \<Rightarrow> db_holds opts (length es) (pendingWriter ph w, d) (keptLog opts yaml es lost))"

lemma run_holds_fire:
  assumes "run_holds opts yaml es lost ph (LogOk w d)" "length es < 2 ^ 64" "ph \<noteq> FlushWritten"
  shows "run_holds opts yaml (es @ [e]) lost ph (dbFire opts yaml errEntry reliable_driver e w d)"
proof -
  have "length es \<notin> lost" "lost \<subseteq> {..<Suc (length es)}" using assms(1) by (auto simp: run_holds_def)
  then show ?thesis
    using db_holds_fire [of opts es w d yaml lost errEntry e] assms by (auto simp: run_holds_def pendingWriter_def)
qed

lemma run_holds_waited:
  assumes "run_holds opts yaml es lost NoFlush (LogOk w d)" "length es < 2 ^ 64"
  shows "run_holds opts yaml (es @ [e]) lost NoFlush
    (case flushToDB opts yaml errEntry reliable_driver True w d of LogOk w1 d1 \<Rightarrow> LogOk (flushDelayed (appendLog opts yaml e w1)) d1 | r \<Rightarrow> r)"
proof -
  have l: "length es \<notin> lost" "lost \<subseteq> {..<Suc (length es)}" and h: "db_holds opts (length es) (w, d) (keptLog opts yaml es lost)"
    using assms(1) by (auto simp: run_holds_def pendingWriter_def)
  from db_holds_flush [OF h assms(2), of errEntry True] show ?thesis
    using db_holds_append [OF _ l(1)] l(2) by (auto simp: run_holds_def pendingWriter_def)
qed

lemma run_holds_lost:
  assumes "run_holds opts yaml es lost FlushWritten (LogOk w d)" "dwBufIdx w < dwSize w"
  shows "run_holds opts yaml (es @ [e]) (insert (length es) lost) FlushWritten (dbFire opts yaml errEntry drv e w d)"
proof -
  have "dbFire opts yaml errEntry drv e w d = LogOk (flushDelayed (appendLog opts yaml e w)) d"
    using assms(2) [folded not_le] by (simp add: dbFire_def)
  then show ?thesis
    using assms(1) by (auto simp: run_holds_def pendingWriter_def db_holds_def keptLog_snoc appendLog_def Let_def add.commute)
qed

lemma log_run_holds:
  assumes "log_run opts yaml errEntry reliable_driver d0 es lost ph r" "length es < 2 ^ 64"
    and "db_wf d0" "engine d0 = EngineSqlite" "taskLogRows (loRunID opts) (loTaskID opts) d0 = []"
  shows "run_holds opts yaml es lost ph r"
  using assms(1,2)
proof (induction rule: log_run.induct)
  case start
  then show ?case using assms(3-5) by (simp add: run_holds_def pendingWriter_def db_holds_def newLogDBWriter_def history_def)
next
  case (fire es lost w d e)
  then show ?case using run_holds_fire by simp
next
  case (fire_waited es lost w d e)
  then show ?case using run_holds_waited by simp
next
  case (fire_meanwhile es lost ph w d e)
  then show ?case by (intro run_holds_fire) auto
next
  case (fire_lost es lost w d e)
  then show ?case using run_holds_lost by simp
next
  case (flush_begin es lost w d)
  then show ?case
    by (auto simp: run_holds_def pendingWriter_def db_holds_def closeChan_fields split: option.split)
next
  case (flush_write es lost w d d')
  then have "db_holds opts (length es) (w, d) (keptLog opts yaml es lost)" by (simp add: run_holds_def pendingWriter_def)
  from flushStore_holds [OF this flush_write.prems] flush_write show ?case by (auto simp: run_holds_def pendingWriter_def)
next
  case (flush_fails es lost w d err d')
  then have "db_holds opts (length es) (w, d) (keptLog opts yaml es lost)" by (simp add: run_holds_def pendingWriter_def)
  then have "fst (flushStore reliable_driver (dwBuf w) d) = None" using flushStore_holds flush_fails.prems by fastforce
  then show ?case using flush_fails(3) by simp
next
  case (timer_flush es lost w d)
  then have "db_holds opts (length es) (w, d) (keptLog opts yaml es lost)" by (simp add: run_holds_def pendingWriter_def)
  from db_holds_flush [OF this timer_flush.prems, of errEntry True] timer_flush show ?case
    by (auto simp: timerFlush_def run_holds_def pendingWriter_def db_holds_def)
qed (auto simp: run_holds_def pendingWriter_def db_holds_def split: if_splits)

text \<open>
  C15. With a working SQLite database, in every interleaving of logging, the timer and the statements of \<open>Flush\<close>, as long as no flush panics: the rows of the task followed by the buffer are the entries logged so far,
  numbered from one, in order and each once, except those logged between the write of a \<open>Flush\<close> and its emptying of the buffer, which are lost. Between the two the rows alone are these
  entries. And no call waits for itself.
\<close>

theorem database_log_complete:
  assumes "log_run opts yaml errEntry reliable_driver d0 es lost ph r" "length es < 2 ^ 64"
    and "db_wf d0" "engine d0 = EngineSqlite" "taskLogRows (loRunID opts) (loTaskID opts) d0 = []"
  shows "r \<noteq> LogDeadlock \<and>
    (\<forall>w d. r = LogOk w d \<longrightarrow>
       taskLogRows (loRunID opts) (loTaskID opts) d @ (if ph = FlushWritten then [] else dwBuf w) = nths (history opts yaml es) (- lost) \<and>
       dwLastIdx w = of_nat (length es))"
  using log_run_holds [OF assms] by (auto simp: run_holds_def pendingWriter_def db_holds_def keptLog_def split: if_splits)

definition demoDbLogs :: log_options where
  "demoDbLogs = \<lparr>loRunID = 1, loTaskID = 2, loBufferSize = 2, loDatabase = True\<rparr>"

definition demoLogRun :: log_end where
  "demoLogRun =
     (let fire = dbFire demoDbLogs demoYaml demoEntry reliable_driver;
          fireOn = (\<lambda>e r. case r of LogOk w d \<Rightarrow> fire e w d | x \<Rightarrow> x)
      in fireOn (demoEntry ''c'') (fireOn (demoEntry ''b'') (fire (demoEntry ''a'') (newLogDBWriter 2) (NewDatabase\<lparr>engine := EngineSqlite\<rparr>))))"

lemma demoLogRun_run:
  "log_run demoDbLogs demoYaml demoEntry reliable_driver (NewDatabase\<lparr>engine := EngineSqlite\<rparr>) [demoEntry ''a'', demoEntry ''b'', demoEntry ''c''] {} NoFlush demoLogRun"
proof -
  let ?d = "NewDatabase\<lparr>engine := EngineSqlite\<rparr>"
  let ?fire = "dbFire demoDbLogs demoYaml demoEntry reliable_driver"
  obtain w1 d1 where r1: "?fire (demoEntry ''a'') (newLogDBWriter 2) ?d = LogOk w1 d1" "dwBufIdx w1 = 1" "dwSize w1 = 2" "dwChan w1 = OpenChan"
    by (simp add: dbFire_def newLogDBWriter_def appendLog_def flushDelayed_def Let_def)
  have "\<not> dwSize w1 \<le> dwBufIdx w1" using r1(2,3) by (simp add: word_le_nat_alt)
  then obtain w2 d2 where r2: "?fire (demoEntry ''b'') w1 d1 = LogOk w2 d2" by (simp add: dbFire_def)
  have "log_run demoDbLogs demoYaml demoEntry reliable_driver ?d [] {} NoFlush (LogOk (newLogDBWriter 2) ?d)"
    using log_run.start [of demoDbLogs demoYaml demoEntry reliable_driver ?d] by (simp add: demoDbLogs_def)
  from log_run.fire [OF this, of "demoEntry ''a''", unfolded r1(1)]
  have "log_run demoDbLogs demoYaml demoEntry reliable_driver ?d [demoEntry ''a''] {} NoFlush (LogOk w1 d1)" by simp
  from log_run.fire [OF this, of "demoEntry ''b''", unfolded r2]
  have "log_run demoDbLogs demoYaml demoEntry reliable_driver ?d [demoEntry ''a'', demoEntry ''b''] {} NoFlush (LogOk w2 d2)" by simp
  from log_run.fire [OF this, of "demoEntry ''c''"] show ?thesis by (simp add: demoLogRun_def Let_def r1(1) r2)
qed

theorem database_log_complete_witness:
  "\<exists>w d. demoLogRun = LogOk w d \<and> map tlLogMessage (taskLogRows 1 2 d) = [''a'', ''b''] \<and>
     map tlLogMessage (taskLogRows 1 2 d @ dwBuf w) = [''a'', ''b'', ''c'']"
proof -
  have "(case demoLogRun of LogOk w d \<Rightarrow> map tlLogMessage (taskLogRows 1 2 d) = [''a'', ''b''] | _ \<Rightarrow> False)" by code_simp
  then obtain w d where r: "demoLogRun = LogOk w d" "map tlLogMessage (taskLogRows 1 2 d) = [''a'', ''b'']"
    by (auto split: log_end.splits)
  have "taskLogRows 1 2 d @ dwBuf w = history demoDbLogs demoYaml [demoEntry ''a'', demoEntry ''b'', demoEntry ''c'']"
    using database_log_complete [OF demoLogRun_run] r(1)
    by (simp add: demoDbLogs_def db_wf_def NewDatabase_def taskLogRows_def nths_all)
  moreover have "map tlLogMessage (history demoDbLogs demoYaml [demoEntry ''a'', demoEntry ''b'', demoEntry ''c'']) = [''a'', ''b'', ''c'']"
    by (simp add: history_def taskLog_def demoEntry_def upt_rec)
  ultimately show ?thesis using r by metis
qed

section \<open>Where the log falls short\<close>

text \<open>
  A write that fails while the buffer's mutex is held is logged to the same buffer: the call waits for itself. On PostgreSQL every write of a log row is refused, so the timer of the
  first entry ends there and all later log calls of the task wait for ever.
\<close>

lemma failed_flush_deadlocks:
  assumes "dwBuf w \<noteq> []" "dwChan w \<noteq> ClosedChan" "flushStore drv (dwBuf w) d = (Some err, d')"
  shows "flushToDB opts yaml errEntry drv True w d = LogDeadlock"
  using assms by (cases "dwChan w") (auto simp: flushToDB_def closeChan_def)

lemma pgsql_timer_deadlocks:
  assumes "engine d = EnginePgsql" "dwBuf w \<noteq> []" "dwChan w = NoChan" "dwTimer w = TimerFlush"
  shows "timerFlush opts yaml errEntry drv w d = LogDeadlock"
proof -
  obtain l ls where buf: "dwBuf w = l # ls" using assms(2) by (cases "dwBuf w") auto
  have "\<exists>e. insertLogs drv 0 (dwBuf w) d = Inl e"
    using assms(1) by (cases "execErr drv 0") (simp_all add: buf InsertTaskLog_def upsert_def)
  then have "\<exists>e'. flushStore drv (dwBuf w) d = (Some e', d)"
    by (cases "beginErr drv") (auto simp: flushStore_def RunTransaction_def)
  then obtain e' where "flushStore drv (dwBuf w) d = (Some e', d)" by blast
  from failed_flush_deadlocks [OF assms(2) _ this] assms(3) show ?thesis by (simp add: timerFlush_def)
qed

text \<open>After a flush the channel stays closed until the timer's goroutine runs; a second flush before that closes it again and panics.\<close>

lemma second_flush_panics:
  assumes "dwChan w = OpenChan" "flushToDB opts yaml errEntry drv locked w d = LogOk w' d'" "fst (flushStore drv (dwBuf w) d) = None"
  shows "flushToDB opts yaml errEntry drv locked' w' d' = LogPanic"
proof -
  have "dwChan w' = ClosedChan"
    using assms by (auto simp: flushToDB_def closeChan_def flushClear_def split: if_splits prod.splits)
  then show ?thesis by (simp add: flushToDB_def closeChan_def)
qed

text \<open>\<open>Flush\<close> does not take the buffer's mutex: an entry logged between its write and its clearing of the buffer is in neither.\<close>

lemma flush_race_loses_entry:
  assumes "dwBuf w \<noteq> []" "flushStore reliable_driver (dwBuf w) d = (None, d')" "dwBufIdx w < dwSize w"
    and "dbFire opts yaml errEntry reliable_driver e w d' = LogOk w1 d1"
  shows "d1 = d' \<and> dwBuf w1 = dwBuf w @ [taskLog opts yaml (dwLastIdx w + 1) e] \<and> dwBuf (flushClear w1) = [] \<and> dwFlushIdx (flushClear w1) = dwLastIdx w + 1"
proof -
  have "\<not> dwSize w \<le> dwBufIdx w" using assms(3) by simp
  with assms(4) have "w1 = flushDelayed (appendLog opts yaml e w)" "d1 = d'" by (auto simp: dbFire_def)
  then show ?thesis by (simp add: flushDelayed_def appendLog_def flushClear_def Let_def)
qed

text \<open>
  Reading from the database is wrong whenever entries are buffered, unless the wanted number is that of the first of them: from a lower number on, the stored entries are left out and as many
  buffered ones are skipped; from a higher one on, buffered entries below it are returned.
\<close>

lemma stored_entries_left_out:
  assumes "dwBuf w \<noteq> []" "dwBufIdx w = of_nat (length (dwBuf w))" "length (dwBuf w) < 2 ^ 64" "fromIdx \<le> tlLogIndex (hd (dwBuf w))"
    and "dbGetLogEntries opts drv fromIdx limit w d = Some ls"
  shows "set ls \<subseteq> set (dwBuf w)"
proof -
  have "take (unat (dwBufIdx w)) (dwBuf w) = dwBuf w" using assms(2,3) by (simp add: unat_of_nat)
  then have "ls = bufferPage fromIdx limit (dwBuf w)" using assms by (simp add: dbGetLogEntries_def)
  then show ?thesis by (auto simp: bufferPage_def Let_def dest: in_set_takeD in_set_dropD split: if_splits)
qed

lemma page_wrong_example:
  "case demoLogRun of
     LogOk w d \<Rightarrow> map_option (map tlLogMessage) (dbGetLogEntries demoDbLogs reliable_driver 1 10 w d) = Some [] \<and>
       map_option (map tlLogMessage) (dbGetLogEntries demoDbLogs reliable_driver 4 10 w d) = Some [''c'']
   | _ \<Rightarrow> False"
  by code_simp

text \<open>With an empty buffer the page is the one asked for, and a reader of the stored run sees the same log.\<close>

lemma stored_page:
  assumes "db_holds opts (length es) (w, d) (history opts yaml es)" "dwBuf w = []" "length es < 2 ^ 64"
  shows "GetTaskLogs reliable_driver (loRunID opts) (loTaskID opts) fromIdx limit d =
    Inr (take (unat limit) (filter (\<lambda>l. fromIdx \<le> tlLogIndex l) (history opts yaml es)))"
proof -
  have rows: "taskLogRows (loRunID opts) (loTaskID opts) d = history opts yaml es" using assms(1,2) by (simp add: db_holds_def)
  have "sorted (map tlLogIndex (history opts yaml es))"
    using numbered_history [OF assms(3)] by (auto simp: sorted_iff_nth_mono numbered_def word_le_nat_alt)
  then have "sorted (map tlLogIndex (filter (\<lambda>l. fromIdx \<le> tlLogIndex l) (history opts yaml es)))" by (rule sorted_filter)
  then have "sort_key tlLogIndex (filter (\<lambda>l. fromIdx \<le> tlLogIndex l) (history opts yaml es)) = filter (\<lambda>l. fromIdx \<le> tlLogIndex l) (history opts yaml es)"
    by (rule sort_key_id_if_sorted)
  with rows show ?thesis by (simp add: GetTaskLogs_def reliable_driver_def)
qed

lemma flushed_page:
  assumes "db_holds opts (length es) (w, d) (history opts yaml es)" "dwBuf w = []" "length es < 2 ^ 64"
  shows "dbGetLogEntries opts reliable_driver fromIdx limit w d =
    Some (take (unat limit) (filter (\<lambda>l. fromIdx \<le> tlLogIndex l) (history opts yaml es)))"
  using stored_page [OF assms, of fromIdx limit] assms(2) by (simp add: dbGetLogEntries_def)

lemma foldr_max_bounds:
  fixes xs :: "u64 list"
  shows "x \<in> set xs \<Longrightarrow> x \<le> foldr max xs 0" "(\<And>x. x \<in> set xs \<Longrightarrow> x \<le> m) \<Longrightarrow> foldr max xs 0 \<le> m"
  by (induction xs) (auto simp: le_max_iff_disj)

lemma reader_sees_log:
  assumes "db_holds opts (length es) (w, d) (history opts yaml es)" "dwBuf w = []" "length es < 2 ^ 64"
  shows "fst (readerEntryCount reliable_driver d (NewLogDBReader (loRunID opts) (loTaskID opts))) = of_nat (length es)"
    and "readerEntries reliable_driver fromIdx limit d (NewLogDBReader (loRunID opts) (loTaskID opts)) =
      take (unat limit) (filter (\<lambda>l. fromIdx \<le> tlLogIndex l) (history opts yaml es))"
proof -
  let ?is = "map tlLogIndex (history opts yaml es)"
  have rows: "taskLogRows (loRunID opts) (loTaskID opts) d = history opts yaml es" using assms(1,2) by (simp add: db_holds_def)
  have idx: "unat (tlLogIndex (history opts yaml es ! i)) = Suc i" if "i < length es" for i using history_index that assms(3) by simp
  have n: "unat (of_nat (length es) :: u64) = length es" using assms(3) by (simp add: unat_of_nat)
  have "x \<le> of_nat (length es)" if "x \<in> set ?is" for x
    using that idx n by (auto simp: in_set_conv_nth word_le_nat_alt)
  then have "foldr max ?is 0 \<le> of_nat (length es)" by (rule foldr_max_bounds(2))
  moreover have "of_nat (length es) \<le> foldr max ?is 0"
  proof (cases es rule: rev_cases)
    case (snoc es' e)
    then have "of_nat (length es) \<in> set ?is" by (simp add: history_snoc taskLog_def del: of_nat_Suc)
    then show ?thesis by (rule foldr_max_bounds(1))
  qed simp
  ultimately show "fst (readerEntryCount reliable_driver d (NewLogDBReader (loRunID opts) (loTaskID opts))) = of_nat (length es)"
    using rows by (simp add: readerEntryCount_def NewLogDBReader_def GetLastLogIndex_def reliable_driver_def)
qed (simp add: readerEntries_def NewLogDBReader_def stored_page [OF assms])

end
