(* ===== verification/ValidatorNames.thy ===== *)
theory ValidatorNames
  imports Amounts
begin

text \<open>
  The names of validators (\<open>names\<close>), loaded from ranges of indices in a file, from an inventory service and from the configuration. The file and the service are
  parameters. The loop over a range is a partial function: None is a load that never ends.
\<close>

section \<open>Ranges\<close>

fun splitOn :: "char \<Rightarrow> string \<Rightarrow> string list" where
  "splitOn c [] = [[]]"
| "splitOn c (x # xs) = (if x = c then [] # splitOn c xs else (x # hd (splitOn c xs)) # tl (splitOn c xs))"

definition parseUint :: "string \<Rightarrow> u64 option" where
  "parseUint s =
     (if s = '''' then None
      else (case parseDigits 0 s of None \<Rightarrow> None | Some n \<Rightarrow> if n < 2 ^ 64 then Some (of_nat n) else None))"

text \<open>A single number stands for itself and the next one, the largest for nothing.\<close>

definition parseRange :: "string \<Rightarrow> (u64 \<times> u64) option" where
  "parseRange idxStr =
     (let rangeParts = splitOn (CHR ''-'') idxStr
      in (case parseUint (rangeParts ! 0) of
            None \<Rightarrow> None
          | Some minIdx \<Rightarrow>
              if length rangeParts > 1 then map_option (Pair minIdx) (parseUint (rangeParts ! 1)) else Some (minIdx, minIdx + 1)))"

type_synonym name_map = "(u64 \<times> string) list"

partial_function (option) nameRange :: "string \<Rightarrow> u64 \<Rightarrow> u64 \<Rightarrow> name_map \<Rightarrow> nat \<Rightarrow> (name_map \<times> nat) option" where
  "nameRange name idx maxIdx names nameCount =
     (if idx \<le> maxIdx then nameRange name (idx + 1) maxIdx (AList.update idx name names) (nameCount + 1) else Some (names, nameCount))"

text \<open>The entries come in the order of the iteration over the Go map.\<close>

fun parseNamesMap :: "(string \<times> string) list \<Rightarrow> name_map \<Rightarrow> nat \<Rightarrow> (name_map \<times> nat) option" where
  "parseNamesMap [] names nameCount = Some (names, nameCount)"
| "parseNamesMap ((idxStr, name) # entries) names nameCount =
     (case parseRange idxStr of
        None \<Rightarrow> parseNamesMap entries names nameCount
      | Some (minIdx, maxIdx) \<Rightarrow>
          (case nameRange name minIdx maxIdx names nameCount of
             None \<Rightarrow> None
           | Some (names1, n1) \<Rightarrow> parseNamesMap entries names1 n1))"

section \<open>Loading and reading\<close>

record names_config =
  ncInventoryYaml :: string
  ncInventoryURL :: string
  ncInventory :: "(string \<times> string) list option"

text \<open>An error of the file or the service leaves the names as they are; the service may also answer that there is nothing.\<close>

definition loadFromYaml :: "(string \<Rightarrow> string + (string \<times> string) list) \<Rightarrow> string \<Rightarrow> name_map \<Rightarrow> (go_error \<times> name_map) option" where
  "loadFromYaml readYaml fileName names =
     (case readYaml fileName of
        Inl e \<Rightarrow> Some (Some e, names)
      | Inr namesYaml \<Rightarrow> map_option (\<lambda>(names', n). (None, names')) (parseNamesMap namesYaml names 0))"

definition loadFromRangesAPI :: "(string \<Rightarrow> string + (string \<times> string) list option) \<Rightarrow> string \<Rightarrow> name_map \<Rightarrow> (go_error \<times> name_map) option" where
  "loadFromRangesAPI fetch apiURL names =
     (case fetch apiURL of
        Inl e \<Rightarrow> Some (Some e, names)
      | Inr None \<Rightarrow> Some (None, names)
      | Inr (Some ranges) \<Rightarrow> map_option (\<lambda>(names', n). (None, names')) (parseNamesMap ranges names 0))"

definition LoadValidatorNames ::
    "(string \<Rightarrow> string + (string \<times> string) list) \<Rightarrow> (string \<Rightarrow> string + (string \<times> string) list option) \<Rightarrow> names_config option \<Rightarrow> name_map option" where
  "LoadValidatorNames readYaml fetch config =
     (case config of
        None \<Rightarrow> Some []
      | Some cfg \<Rightarrow>
          Option.bind (if ncInventoryYaml cfg \<noteq> '''' then map_option snd (loadFromYaml readYaml (ncInventoryYaml cfg) []) else Some []) (\<lambda>names1.
          Option.bind (if ncInventoryURL cfg \<noteq> '''' then map_option snd (loadFromRangesAPI fetch (ncInventoryURL cfg) names1) else Some names1) (\<lambda>names2.
            case ncInventory cfg of
              None \<Rightarrow> Some names2
            | Some inventory \<Rightarrow> map_option fst (parseNamesMap inventory names2 0))))"

text \<open>While the names are loaded, and before, a validator has no name.\<close>

definition GetValidatorName :: "bool \<Rightarrow> name_map option \<Rightarrow> u64 \<Rightarrow> string" where
  "GetValidatorName locked names index =
     (if locked then '''' else case names of None \<Rightarrow> '''' | Some m \<Rightarrow> (case map_of m index of None \<Rightarrow> '''' | Some name \<Rightarrow> name))"

section \<open>What the names are\<close>

definition covers :: "string \<Rightarrow> u64 \<Rightarrow> bool" where
  "covers idxStr i = (case parseRange idxStr of None \<Rightarrow> False | Some (lo, hi) \<Rightarrow> lo \<le> i \<and> i \<le> hi)"

definition endless :: "string \<Rightarrow> bool" where
  "endless idxStr = (case parseRange idxStr of None \<Rightarrow> False | Some (lo, hi) \<Rightarrow> hi = - 1)"

text \<open>The last entry of a list of ranges that covers an index gives its name.\<close>

definition named :: "(string \<times> string) list \<Rightarrow> u64 \<Rightarrow> string option" where
  "named entries i = map_option snd (find (\<lambda>e. covers (fst e) i) (rev entries))"

text \<open>A range that ends below the largest number is filled, one that reaches it never ends.\<close>

lemma nameRange_fills:
  assumes "hi \<noteq> - 1"
  shows "\<exists>names'. nameRange name idx hi names n = Some (names', n + (Suc (unat hi) - unat idx)) \<and>
    (\<forall>i. map_of names' i = (if idx \<le> i \<and> i \<le> hi then Some name else map_of names i))"
proof (induction "Suc (unat hi) - unat idx" arbitrary: idx names n rule: less_induct)
  case less
  show ?case
  proof (cases "idx \<le> hi")
    case True
    then have "idx < - 1" using assms by (metis word_order.not_eq_extremum order_le_less_trans)
    then have s: "unat (idx + 1) = Suc (unat idx)" by (rule unat_succ)
    have lt: "Suc (unat hi) - unat (idx + 1) < Suc (unat hi) - unat idx" using True s by (simp add: word_le_nat_alt)
    have cov: "(idx + 1 \<le> i \<and> i \<le> hi) \<or> i = idx \<longleftrightarrow> idx \<le> i \<and> i \<le> hi" for i
      using True s by (auto simp: word_le_nat_alt word_unat_eq_iff)
    obtain names' where names': "nameRange name (idx + 1) hi (AList.update idx name names) (n + 1) = Some (names', n + 1 + (Suc (unat hi) - unat (idx + 1)))"
        "\<And>i. map_of names' i = (if idx + 1 \<le> i \<and> i \<le> hi then Some name else map_of (AList.update idx name names) i)"
      using less.hyps [OF lt] by blast
    have "nameRange name idx hi names n = Some (names', n + (Suc (unat hi) - unat idx))"
      using True names'(1) s by (subst nameRange.simps) (simp add: word_le_nat_alt)
    moreover have "map_of names' i = (if idx \<le> i \<and> i \<le> hi then Some name else map_of names i)" for i
      unfolding names'(2) cov [of i, symmetric] by simp
    ultimately show ?thesis by blast
  next
    case False
    then show ?thesis by (subst nameRange.simps) (auto simp: word_le_nat_alt)
  qed
qed

lemma nameRange_endless: "nameRange name idx (- 1) names n = None"
proof -
  have "hi \<noteq> - 1" if "nameRange name idx hi names n = Some r" for hi :: u64 and r
    by (rule nameRange.raw_induct [where P = "\<lambda>name idx hi names n r. hi \<noteq> - 1", OF _ that]) (auto split: if_splits)
  then show ?thesis by (metis not_None_eq)
qed

lemma find_append: "find P (xs @ ys) = (case find P xs of None \<Rightarrow> find P ys | Some x \<Rightarrow> Some x)"
  by (induction xs) auto

lemma named_append: "named (es @ fs) i = (case named fs i of None \<Rightarrow> named es i | Some name \<Rightarrow> Some name)"
  by (auto simp: named_def find_append split: option.split)

lemma named_single: "named [(idxStr, name)] i = (if covers idxStr i then Some name else None)"
  by (simp add: named_def)

lemma parseNamesMap_named:
  assumes "list_all (\<lambda>e. \<not> endless (fst e)) entries"
  shows "\<exists>names' n'. parseNamesMap entries names n = Some (names', n') \<and>
    (\<forall>i. map_of names' i = (case named entries i of None \<Rightarrow> map_of names i | Some name \<Rightarrow> Some name))"
  using assms
proof (induction entries arbitrary: names n)
  case Nil
  then show ?case by (simp add: named_def)
next
  case (Cons e entries)
  obtain idxStr name where e: "e = (idxStr, name)" by (cases e)
  have named: "named (e # entries) i = (case named entries i of None \<Rightarrow> if covers idxStr i then Some name else None | Some m \<Rightarrow> Some m)" for i
    using named_append [of "[(idxStr, name)]" entries i] by (auto simp: e named_single split: option.split)
  show ?case
  proof (cases "parseRange idxStr")
    case None
    then have "named (e # entries) i = named entries i" for i by (auto simp: named covers_def split: option.split)
    with Cons None e show ?thesis by simp
  next
    case (Some r)
    obtain lo hi where r: "r = (lo, hi)" by (cases r)
    have hi: "hi \<noteq> - 1" using Cons.prems Some by (simp add: e r endless_def)
    obtain names1 where n1: "nameRange name lo hi names n = Some (names1, n + (Suc (unat hi) - unat lo))"
        "\<And>i. map_of names1 i = (if lo \<le> i \<and> i \<le> hi then Some name else map_of names i)"
      using nameRange_fills [OF hi] by blast
    obtain names' n' where n2: "parseNamesMap entries names1 (n + (Suc (unat hi) - unat lo)) = Some (names', n')"
        "\<And>i. map_of names' i = (case named entries i of None \<Rightarrow> map_of names1 i | Some m \<Rightarrow> Some m)"
      using Cons.IH [of names1 "n + (Suc (unat hi) - unat lo)"] Cons.prems by auto
    have "map_of names' i = (case named (e # entries) i of None \<Rightarrow> map_of names i | Some m \<Rightarrow> Some m)" for i
      by (auto simp: n2(2) n1(2) named covers_def Some r split: option.split)
    with n1(1) n2(1) Some show ?thesis by (simp add: e r)
  qed
qed

text \<open>The entries of the sources, in the order they are applied.\<close>

definition yamlEntries :: "(string \<Rightarrow> string + (string \<times> string) list) \<Rightarrow> names_config \<Rightarrow> (string \<times> string) list" where
  "yamlEntries readYaml cfg = (if ncInventoryYaml cfg = '''' then [] else case readYaml (ncInventoryYaml cfg) of Inl e \<Rightarrow> [] | Inr es \<Rightarrow> es)"

definition apiEntries :: "(string \<Rightarrow> string + (string \<times> string) list option) \<Rightarrow> names_config \<Rightarrow> (string \<times> string) list" where
  "apiEntries fetch cfg = (if ncInventoryURL cfg = '''' then [] else case fetch (ncInventoryURL cfg) of Inr (Some es) \<Rightarrow> es | _ \<Rightarrow> [])"

definition configEntries :: "names_config \<Rightarrow> (string \<times> string) list" where
  "configEntries cfg = (case ncInventory cfg of None \<Rightarrow> [] | Some es \<Rightarrow> es)"

definition parsed :: "(string \<times> string) list \<Rightarrow> name_map \<Rightarrow> name_map option" where
  "parsed es names = map_option fst (parseNamesMap es names 0)"

lemma parsed_Nil [simp]: "parsed [] names = Some names"
  by (simp add: parsed_def)

lemma LoadValidatorNames_parsed:
  "LoadValidatorNames readYaml fetch (Some cfg) =
     Option.bind (parsed (yamlEntries readYaml cfg) []) (\<lambda>names1. Option.bind (parsed (apiEntries fetch cfg) names1) (parsed (configEntries cfg)))"
proof -
  have y: "(if ncInventoryYaml cfg \<noteq> '''' then map_option snd (loadFromYaml readYaml (ncInventoryYaml cfg) []) else Some []) = parsed (yamlEntries readYaml cfg) []"
    by (auto simp: loadFromYaml_def yamlEntries_def parsed_def option.map_comp comp_def case_prod_beta split: sum.split)
  have a: "(if ncInventoryURL cfg \<noteq> '''' then map_option snd (loadFromRangesAPI fetch (ncInventoryURL cfg) names1) else Some names1) = parsed (apiEntries fetch cfg) names1" for names1
    by (auto simp: loadFromRangesAPI_def apiEntries_def parsed_def option.map_comp comp_def case_prod_beta split: sum.split option.split)
  have c: "(case ncInventory cfg of None \<Rightarrow> Some names2 | Some inventory \<Rightarrow> map_option fst (parseNamesMap inventory names2 0)) = parsed (configEntries cfg) names2" for names2
    by (simp add: configEntries_def parsed_def split: option.split)
  show ?thesis unfolding LoadValidatorNames_def option.case y a c ..
qed

lemma parsed_named:
  assumes "list_all (\<lambda>e. \<not> endless (fst e)) es"
  shows "\<exists>names'. parsed es names = Some names' \<and> (\<forall>i. map_of names' i = (case named es i of None \<Rightarrow> map_of names i | Some name \<Rightarrow> Some name))"
  using parseNamesMap_named [OF assms, of names 0] by (auto simp: parsed_def)

lemma names_loaded_parsed:
  assumes "list_all (\<lambda>e. \<not> endless (fst e)) (yamlEntries readYaml cfg @ apiEntries fetch cfg @ configEntries cfg)"
  shows "\<exists>names. LoadValidatorNames readYaml fetch (Some cfg) = Some names \<and>
    (\<forall>i. GetValidatorName False (Some names) i =
      (case named (yamlEntries readYaml cfg @ apiEntries fetch cfg @ configEntries cfg) i of None \<Rightarrow> '''' | Some name \<Rightarrow> name))"
proof -
  have es: "list_all (\<lambda>e. \<not> endless (fst e)) (yamlEntries readYaml cfg)" "list_all (\<lambda>e. \<not> endless (fst e)) (apiEntries fetch cfg)"
    "list_all (\<lambda>e. \<not> endless (fst e)) (configEntries cfg)" using assms by simp_all
  obtain n1 where n1: "parsed (yamlEntries readYaml cfg) [] = Some n1"
      "\<And>i. map_of n1 i = (case named (yamlEntries readYaml cfg) i of None \<Rightarrow> map_of [] i | Some name \<Rightarrow> Some name)"
    using parsed_named [OF es(1)] by blast
  obtain n2 where n2: "parsed (apiEntries fetch cfg) n1 = Some n2"
      "\<And>i. map_of n2 i = (case named (apiEntries fetch cfg) i of None \<Rightarrow> map_of n1 i | Some name \<Rightarrow> Some name)"
    using parsed_named [OF es(2)] by blast
  obtain n3 where n3: "parsed (configEntries cfg) n2 = Some n3"
      "\<And>i. map_of n3 i = (case named (configEntries cfg) i of None \<Rightarrow> map_of n2 i | Some name \<Rightarrow> Some name)"
    using parsed_named [OF es(3)] by blast
  have "map_of n3 i = named (yamlEntries readYaml cfg @ apiEntries fetch cfg @ configEntries cfg) i" for i
    by (auto simp: n1(2) n2(2) n3(2) named_append split: option.split)
  then show ?thesis using n1(1) n2(1) n3(1) by (simp add: LoadValidatorNames_parsed GetValidatorName_def)
qed

section \<open>Entries as they are written\<close>

text \<open>
  An entry is written as one index, as a range of indices, or as some other text that does not start with a digit. What it names is said without the parser: a range names its indices,
  a single index names itself and, which is not what it says, the next one.
\<close>

datatype name_entry = OneIndex nat | IndexRange nat nat | OtherText string

fun renderEntry :: "name_entry \<Rightarrow> string" where
  "renderEntry (OneIndex n) = showNat n"
| "renderEntry (IndexRange lo hi) = showNat lo @ ''-'' @ showNat hi"
| "renderEntry (OtherText s) = s"

fun names_index :: "name_entry \<Rightarrow> nat \<Rightarrow> bool" where
  "names_index (OneIndex n) i = (i = n \<or> i = n + 1)"
| "names_index (IndexRange lo hi) i = (lo \<le> i \<and> i \<le> hi)"
| "names_index (OtherText s) i = False"

text \<open>The indices fit 64 bits, and the last index named is not the largest number.\<close>

fun entry_ok :: "name_entry \<Rightarrow> bool" where
  "entry_ok (OneIndex n) = (n + 1 < 2 ^ 64 - 1)"
| "entry_ok (IndexRange lo hi) = (lo < 2 ^ 64 \<and> hi < 2 ^ 64 - 1)"
| "entry_ok (OtherText s) = (s = '''' \<or> digitVal (hd s) = None)"

lemma showNat_no_dash: "set (showNat n) \<subseteq> {c. c \<noteq> CHR ''-''}"
proof (induction n rule: less_induct)
  case (less n)
  have "char_of (48 + m) \<noteq> CHR ''-''" if "m < 10" for m :: nat
  proof
    assume "char_of (48 + m) = CHR ''-''"
    then have "digitVal (CHR ''-'') = Some m" using digitVal_digit [OF that] by simp
    then show False by (simp add: digitVal_def)
  qed
  with less [of "n div 10"] show ?case by (subst showNat.simps) auto
qed

lemma splitOn_none: "set s \<subseteq> {x. x \<noteq> c} \<Longrightarrow> splitOn c s = [s]"
  by (induction s) auto

lemma splitOn_join: "set s \<subseteq> {x. x \<noteq> c} \<Longrightarrow> splitOn c (s @ c # t) = s # splitOn c t"
  by (induction s) auto

lemma parseUint_showNat: "n < 2 ^ 64 \<Longrightarrow> parseUint (showNat n) = Some (of_nat n)"
  by (simp add: parseUint_def parseDigits_showNat)

lemma parseUint_other: "s = '''' \<or> digitVal (hd s) = None \<Longrightarrow> parseUint s = None"
  by (cases s) (auto simp: parseUint_def)

lemma splitOn_hd: "splitOn c s \<noteq> [] \<and> (hd (splitOn c s) = '''' \<or> s \<noteq> '''' \<and> hd (hd (splitOn c s)) = hd s)"
  by (induction s) auto

lemma parseRange_render:
  assumes "entry_ok e"
  shows "parseRange (renderEntry e) =
    (case e of OneIndex n \<Rightarrow> Some (of_nat n, of_nat (n + 1)) | IndexRange lo hi \<Rightarrow> Some (of_nat lo, of_nat hi) | OtherText s \<Rightarrow> None)"
proof (cases e)
  case (OneIndex n)
  then show ?thesis using assms by (simp add: parseRange_def splitOn_none [OF showNat_no_dash] parseUint_showNat add.commute)
next
  case (IndexRange lo hi)
  then show ?thesis
    using assms by (simp add: parseRange_def splitOn_join [OF showNat_no_dash] splitOn_none [OF showNat_no_dash] parseUint_showNat)
next
  case (OtherText s)
  let ?p = "splitOn (CHR ''-'') s ! 0"
  have "?p = '''' \<or> digitVal (hd ?p) = None"
    using assms OtherText splitOn_hd [of "CHR ''-''" s] by (auto simp: hd_conv_nth)
  then show ?thesis using OtherText parseUint_other [of ?p] by (simp add: parseRange_def Let_def)
qed

lemma covers_render:
  assumes "entry_ok e"
  shows "covers (renderEntry e) i = names_index e (unat i)" "\<not> endless (renderEntry e)"
proof -
  have u: "unat (of_nat n :: u64) = n" if "n < 2 ^ 64" for n using that by (simp add: unat_of_nat)
  have m: "(of_nat n :: u64) \<noteq> - 1" if "n < 2 ^ 64 - 1" for n
  proof
    assume "(of_nat n :: u64) = - 1"
    then have "unat (of_nat n :: u64) = 2 ^ 64 - 1" by (simp add: unat_max)
    with that show False by (simp add: unat_of_nat)
  qed
  show "covers (renderEntry e) i = names_index e (unat i)"
    unfolding covers_def parseRange_render [OF assms] using assms
    by (cases e) (auto simp: word_le_nat_alt u simp del: of_nat_Suc of_nat_add)
  show "\<not> endless (renderEntry e)"
    unfolding endless_def parseRange_render [OF assms] using assms m by (cases e) (auto simp del: of_nat_Suc of_nat_add)
qed

lemma named_render:
  "list_all (entry_ok \<circ> fst) es \<Longrightarrow> named (map (apfst renderEntry) es) i = map_option snd (find (\<lambda>e. names_index (fst e) (unat i)) (rev es))"
proof (induction es rule: rev_induct)
  case (snoc e es)
  then show ?case by (auto simp: named_def covers_render apfst_def map_prod_def split: prod.splits)
qed (simp add: named_def)

text \<open>
  C17. Loading validator names ends, for entries whose indices stay below the largest number, and a validator then has the name of the last entry that names its index, the configuration
  going before the service and that before the file, and none if no entry does. A range names its indices, but a single index names itself and the next one. The entries of one source come in
  the order in which its Go map is iterated.
\<close>

theorem validator_names_loaded:
  assumes "yamlEntries readYaml cfg @ apiEntries fetch cfg @ configEntries cfg = map (apfst renderEntry) es" "list_all (entry_ok \<circ> fst) es"
  shows "\<exists>names. LoadValidatorNames readYaml fetch (Some cfg) = Some names \<and>
    (\<forall>i. GetValidatorName False (Some names) i =
      (case find (\<lambda>e. names_index (fst e) (unat i)) (rev es) of None \<Rightarrow> '''' | Some e \<Rightarrow> snd e))"
proof -
  have "list_all (\<lambda>e. \<not> endless (fst e)) (map (apfst renderEntry) es)"
    using assms(2) by (auto simp: list_all_iff covers_render)
  then obtain names where "LoadValidatorNames readYaml fetch (Some cfg) = Some names"
      "\<And>i. GetValidatorName False (Some names) i = (case named (map (apfst renderEntry) es) i of None \<Rightarrow> '''' | Some name \<Rightarrow> name)"
    using names_loaded_parsed [of readYaml cfg fetch] assms(1) by auto
  then show ?thesis by (auto simp: named_render [OF assms(2)] option.case_eq_if map_option_case)
qed

definition demoNames :: names_config where
  "demoNames = \<lparr>ncInventoryYaml = '''', ncInventoryURL = '''', ncInventory = Some [(''0-3'', ''lighthouse''), (''x'', ''broken''), (''2'', ''teku'')]\<rparr>"

theorem validator_names_loaded_witness:
  "\<exists>names. LoadValidatorNames (\<lambda>f. Inl ''no file'') (\<lambda>u. Inl ''no service'') (Some demoNames) = Some names \<and>
     map (GetValidatorName False (Some names)) [1, 2, 4] = [''lighthouse'', ''teku'', '''']"
proof -
  let ?es = "[(IndexRange 0 3, ''lighthouse''), (OtherText ''x'', ''broken''), (OneIndex 2, ''teku'')]"
  have "showNat 0 = ''0''" "showNat 2 = ''2''" "showNat 3 = ''3''" by code_simp+
  then have entries: "yamlEntries (\<lambda>f. Inl ''no file'') demoNames @ apiEntries (\<lambda>u. Inl ''no service'') demoNames @ configEntries demoNames = map (apfst renderEntry) ?es"
    by (simp add: yamlEntries_def apiEntries_def configEntries_def demoNames_def)
  have "list_all (entry_ok \<circ> fst) ?es" by (simp add: digitVal_def)
  from validator_names_loaded [OF entries this] show ?thesis by auto
qed

section \<open>Two surprises\<close>

text \<open>A single index also names the next validator, and a range up to the largest index never ends loading.\<close>

lemma single_index_names_two: "parseRange ''7'' = Some (7, 8)"
  by (simp add: parseRange_def parseUint_def digitVal_def)

lemma largest_index_never_loads:
  assumes "ncInventoryYaml cfg = ''''" "ncInventoryURL cfg = ''''" "ncInventory cfg = Some ((idxStr, name) # entries)" "endless idxStr"
  shows "LoadValidatorNames readYaml fetch (Some cfg) = None"
  using assms by (auto simp: LoadValidatorNames_def endless_def nameRange_endless split: option.splits)

lemma endless_range: "endless (''0-'' @ showNat 18446744073709551615)"
proof -
  have "splitOn (CHR ''-'') (''0-'' @ showNat 18446744073709551615) = [''0'', showNat 18446744073709551615]"
    using splitOn_none [OF showNat_no_dash] by simp
  then show ?thesis by (simp add: endless_def parseRange_def parseUint_def parseDigits_showNat digitVal_def)
qed

end
