(* ===== verification/EthCall.thy ===== *)
theory EthCall
  imports ClusterChecks
begin

text \<open>
  The check of a contract call (\<open>tasks/check_eth_call\<close>): the call is sent to all matching clients for a block, and their results are compared with each other and with the expected one. Hex
  decoding and the answers of the clients are parameters. A nil result is None.
\<close>

section \<open>Model\<close>

record EthCallConfig =
  kcEthCallData :: string
  kcExpectResult :: string
  kcIgnoreResults :: "string list"
  kcCallAddress :: string
  kcBlockNumber :: u64
  kcFailOnMismatch :: bool
  kcClientPattern :: string
  kcExcludeClientPattern :: string

definition ethCallDefault :: EthCallConfig where
  "ethCallDefault = \<lparr>kcEthCallData = ''0x'', kcExpectResult = '''', kcIgnoreResults = [], kcCallAddress = ''0x0000000000000000000000000000000000000000'',
     kcBlockNumber = 0, kcFailOnMismatch = False, kcClientPattern = '''', kcExcludeClientPattern = ''''\<rparr>"

definition ethCallLoad ::
    "(EthCallConfig \<Rightarrow> string + EthCallConfig) \<Rightarrow> (EthCallConfig \<Rightarrow> string + EthCallConfig) \<Rightarrow> (string \<Rightarrow> u8 list) \<Rightarrow> string + EthCallConfig \<times> u8 list list" where
  "ethCallLoad unmarshal consume fromHex =
     (case unmarshal ethCallDefault of
        Inl e \<Rightarrow> Inl (''error parsing task config: '' @ e)
      | Inr config1 \<Rightarrow>
          (case consume config1 of
             Inl e \<Rightarrow> Inl e
           | Inr config \<Rightarrow> Inr (config, map fromHex (kcIgnoreResults config))))"

definition ignoreResult :: "u8 list list \<Rightarrow> u8 list \<Rightarrow> bool" where
  "ignoreResult ignoreResults r = list_ex (\<lambda>x. r = x) ignoreResults"

definition bytesOf :: "u8 list option \<Rightarrow> u8 list" where
  "bytesOf b = (case b of None \<Rightarrow> [] | Some bs \<Rightarrow> bs)"

definition ethMismatch :: "EthCallConfig \<Rightarrow> bool \<Rightarrow> check_ctx \<Rightarrow> check_ctx" where
  "ethMismatch cfg ignored c = ctxSetResult (if kcFailOnMismatch cfg \<and> \<not> ignored then TaskResultFailure else TaskResultNone) c"

text \<open>
  The libraries and the network of one check: \<open>eeSeen\<close> is whether a client has seen the block in time (always if there is no block), \<open>eeCall\<close> its answer.
\<close>

record eth_env =
  eeFromHex :: "string \<Rightarrow> u8 list"
  eeHex :: "u8 list \<Rightarrow> string"
  eeIgnore :: "u8 list list"
  eeSeen :: "nat \<Rightarrow> bool"
  eeCall :: "nat \<Rightarrow> string + u8 list option"

fun ethCallLoop :: "EthCallConfig \<Rightarrow> eth_env \<Rightarrow> nat list \<Rightarrow> u8 list option \<Rightarrow> nat \<Rightarrow> check_ctx \<Rightarrow> check_ctx" where
  "ethCallLoop cfg E [] callResult checkedClients c = (if checkedClients > 0 then ctxSetResult TaskResultSuccess c else c)"
| "ethCallLoop cfg E (client # cs) callResult checkedClients c =
     (if \<not> eeSeen E client then ethCallLoop cfg E cs callResult checkedClients c
      else (case eeCall E client of
              Inl e \<Rightarrow> ctxSetResult TaskResultFailure c
            | Inr fetched \<Rightarrow>
                if callResult \<noteq> None \<and> bytesOf callResult \<noteq> bytesOf fetched then ethMismatch cfg (ignoreResult (eeIgnore E) (bytesOf fetched)) c
                else
                  let c1 = (if callResult = None then setOutput ''callResult'' (VStr (eeHex E (bytesOf fetched))) c else c);
                      r1 = (if callResult = None then fetched else callResult)
                  in if kcExpectResult cfg \<noteq> '''' \<and> bytesOf fetched \<noteq> eeFromHex E (kcExpectResult cfg)
                     then ethMismatch cfg (ignoreResult (eeIgnore E) (bytesOf fetched)) c1
                     else ethCallLoop cfg E cs r1 (checkedClients + 1) c1))"

definition ethRunCheck :: "EthCallConfig \<Rightarrow> eth_env \<Rightarrow> nat list \<Rightarrow> nat list \<Rightarrow> check_ctx \<Rightarrow> check_ctx" where
  "ethRunCheck cfg E ready byName c =
     (let clients1 = (if kcClientPattern cfg = '''' \<and> kcExcludeClientPattern cfg = '''' then ready else byName)
      in if clients1 = [] then ctxSetResult TaskResultFailure c else ethCallLoop cfg E clients1 None 0 c)"

text \<open>
  The task: the newest cached block first, then the events, each with its number and the check at that time, which gets the number and whether the block itself is given. The result says
  whether the task has returned.
\<close>

type_synonym eth_check = "u64 \<Rightarrow> bool \<Rightarrow> check_ctx \<Rightarrow> check_ctx"

definition latestNumber :: "u64 list \<Rightarrow> u64 option" where
  "latestNumber cached = foldl (\<lambda>latest n. case latest of None \<Rightarrow> Some n | Some m \<Rightarrow> if n > m then Some n else Some m) None cached"

fun ethEvents :: "EthCallConfig \<Rightarrow> (u64 \<times> eth_check) list \<Rightarrow> check_ctx \<Rightarrow> bool \<times> check_ctx" where
  "ethEvents cfg [] c = (False, c)"
| "ethEvents cfg ((number, check) # events) c =
     (if kcBlockNumber cfg = 0 then ethEvents cfg events (check number True c)
      else if number \<ge> kcBlockNumber cfg then (True, check (kcBlockNumber cfg) (number = kcBlockNumber cfg) c)
      else ethEvents cfg events c)"

definition ethCallExecute :: "EthCallConfig \<Rightarrow> u64 list \<Rightarrow> eth_check \<Rightarrow> (u64 \<times> eth_check) list \<Rightarrow> check_ctx \<Rightarrow> bool \<times> check_ctx" where
  "ethCallExecute cfg cached check events c =
     (case latestNumber cached of
        None \<Rightarrow> ethEvents cfg events c
      | Some number \<Rightarrow>
          if kcBlockNumber cfg = 0 then ethEvents cfg events (check number True c)
          else if number \<ge> kcBlockNumber cfg then (True, check (kcBlockNumber cfg) False c)
          else ethEvents cfg events c)"

section \<open>The verdict\<close>

definition answering :: "eth_env \<Rightarrow> nat list \<Rightarrow> nat list" where
  "answering E cs = filter (eeSeen E) cs"


lemma answering_simps [simp]:
  "answering E [] = []" "answering E (client # cs) = (if eeSeen E client then client # answering E cs else answering E cs)"
  by (simp_all add: answering_def)






section \<open>Blocks\<close>

text \<open>With a block number the check runs once, for that number, as soon as the cache or an event reaches it.\<close>

lemma ethEvents_once:
  assumes "kcBlockNumber cfg \<noteq> 0" "ethEvents cfg events c = (fin, c')"
  shows "case find (\<lambda>(n, check). n \<ge> kcBlockNumber cfg) events of
      None \<Rightarrow> \<not> fin \<and> c' = c
    | Some (n, check) \<Rightarrow> fin \<and> c' = check (kcBlockNumber cfg) (n = kcBlockNumber cfg) c"
  using assms(2) by (induction events arbitrary: c) (use assms(1) in \<open>auto split: if_splits\<close>)

text \<open>A check that no client could answer leaves the result of an earlier block in place.\<close>

lemma unanswered_keeps_result: "answering E cs = [] \<Longrightarrow> ethCallLoop cfg E cs None 0 c = c"
  by (induction cs) (auto split: if_splits)

text \<open>A result on the list of ignored ones that is not the expected one ends the check with no result; the other clients are not asked.\<close>

lemma ignored_result_ends_check:
  assumes "eeSeen E client" "eeCall E client = Inr (Some bs)" "ignoreResult (eeIgnore E) bs"
    and "kcExpectResult cfg \<noteq> ''''" "bs \<noteq> eeFromHex E (kcExpectResult cfg)"
  shows "ccResult (ethCallLoop cfg E (client # cs) None k c) = TaskResultNone"
  using assms by (simp add: bytesOf_def ethMismatch_def ctxSetResult_def Let_def)

text \<open>A first nil result is not compared: a different second one passes.\<close>

lemma nil_result_not_compared:
  assumes "kcExpectResult cfg = ''''" "eeSeen E 1" "eeSeen E 2" "eeCall E 1 = Inr None" "eeCall E 2 = Inr (Some [7])"
  shows "ccResult (ethCallLoop cfg E [1, 2] None 0 c) = TaskResultSuccess"
  using assms by (simp add: Let_def bytesOf_def ctxSetResult_def)

end
