(* ===== verification/TxTask.thy ===== *)
theory TxTask
  imports TxRequests ValidatorNames
begin

text \<open>
  The task that sends one transaction and judges its receipt (\<open>tasks/generate_transaction\<close>). Wallets stand in the store of the manager, since the wallet of an authorization may
  be the sender's. Hashing, signing, blob sidecars, random numbers and the clients are parameters. A panic is a value, because what was done before it stays.
\<close>

section \<open>Configuration\<close>

record tx_authorization =
  auChainID :: u64
  auNonce :: "u64 option"
  auCodeAddress :: string
  auSignerPrivkey :: string

record expected_event =
  xeTopic0 :: string
  xeTopic1 :: string
  xeTopic2 :: string
  xeData :: string

record TransactionConfig =
  xcPrivateKey :: string
  xcLegacyTxType :: bool
  xcBlobTxType :: bool
  xcSetCodeTxType :: bool
  xcBlobFeeCap :: "int option"
  xcFeeCap :: "int option"
  xcTipCap :: "int option"
  xcGasLimit :: u64
  xcTargetAddress :: string
  xcRandomTarget :: bool
  xcContractDeployment :: bool
  xcCallData :: string
  xcBlobData :: string
  xcRandomAmount :: bool
  xcAmount :: "int option"
  xcNonce :: "u64 option"
  xcAuthorizations :: "tx_authorization list"
  xcClientPattern :: string
  xcExcludeClientPattern :: string
  xcAwaitReceipt :: bool
  xcFailOnReject :: bool
  xcFailOnSuccess :: bool
  xcExpectEvents :: "expected_event list"
  xcTransactionHashResultVar :: string
  xcTransactionReceiptResultVar :: string
  xcContractAddressResultVar :: string

definition transactionDefault :: TransactionConfig where
  "transactionDefault = \<lparr>xcPrivateKey = '''', xcLegacyTxType = False, xcBlobTxType = False, xcSetCodeTxType = False, xcBlobFeeCap = None, xcFeeCap = Some 100000000000,
     xcTipCap = Some 1000000000, xcGasLimit = 50000, xcTargetAddress = '''', xcRandomTarget = False, xcContractDeployment = False, xcCallData = '''', xcBlobData = '''',
     xcRandomAmount = False, xcAmount = Some 0, xcNonce = None, xcAuthorizations = [], xcClientPattern = '''', xcExcludeClientPattern = '''', xcAwaitReceipt = True,
     xcFailOnReject = False, xcFailOnSuccess = False, xcExpectEvents = [], xcTransactionHashResultVar = '''', xcTransactionReceiptResultVar = '''',
     xcContractAddressResultVar = ''''\<rparr>"

definition transactionValidate :: "TransactionConfig \<Rightarrow> go_error" where
  "transactionValidate c = (if xcPrivateKey c = '''' then Some ''privateKey must be set'' else None)"

record tx_task =
  xtConfig :: TransactionConfig
  xtWallet :: root
  xtAuthWallets :: "root list"
  xtTargetAddr :: root
  xtData :: "u8 list option"

fun loadAuthWallets ::
    "(string \<Rightarrow> string + string) \<Rightarrow> (string \<Rightarrow> root) \<Rightarrow> tx_authorization list \<Rightarrow> manager \<Rightarrow> (string + root list) \<times> manager" where
  "loadAuthWallets hexToKey addressOf [] m = (Inr [], m)"
| "loadAuthWallets hexToKey addressOf (a # as) m =
     (case hexToKey (auSignerPrivkey a) of
        Inl e \<Rightarrow> (Inl e, m)
      | Inr privKey \<Rightarrow>
          let (r, m1) = GetWalletByPrivkey addressOf privKey m
          in apfst (map_sum id ((#) r)) (loadAuthWallets hexToKey addressOf as m1))"

text \<open>The address field of a new task is zero.\<close>

definition transactionLoad ::
    "(TransactionConfig \<Rightarrow> string + TransactionConfig) \<Rightarrow> (TransactionConfig \<Rightarrow> string + TransactionConfig) \<Rightarrow> (string \<Rightarrow> string + string) \<Rightarrow> (string \<Rightarrow> root) \<Rightarrow>
     (string \<Rightarrow> string + root) \<Rightarrow> (string \<Rightarrow> u8 list) \<Rightarrow> manager \<Rightarrow> (string + tx_task) \<times> manager" where
  "transactionLoad unmarshal consume hexToKey addressOf parseAddr fromHex m =
     (case unmarshal transactionDefault of
        Inl e \<Rightarrow> (Inl (''error parsing task config: '' @ e), m)
      | Inr config1 \<Rightarrow>
          (case consume config1 of
             Inl e \<Rightarrow> (Inl e, m)
           | Inr config \<Rightarrow>
               (case transactionValidate config of
                  Some e \<Rightarrow> (Inl e, m)
                | None \<Rightarrow>
                    (case hexToKey (xcPrivateKey config) of
                       Inl e \<Rightarrow> (Inl e, m)
                     | Inr privKey \<Rightarrow>
                         let (w, m1) = GetWalletByPrivkey addressOf privKey m
                         in (case (if xcSetCodeTxType config then loadAuthWallets hexToKey addressOf (xcAuthorizations config) m1 else (Inr [], m1)) of
                               (Inl e, m2) \<Rightarrow> (Inl e, m2)
                             | (Inr auths, m2) \<Rightarrow>
                                 (case (if xcTargetAddress config \<noteq> '''' then parseAddr (xcTargetAddress config) else Inr 0) of
                                    Inl e \<Rightarrow> (Inl (''cannot decode execution addr: '' @ e), m2)
                                  | Inr target \<Rightarrow>
                                      (Inr \<lparr>xtConfig = config, xtWallet = w, xtAuthWallets = auths, xtTargetAddr = target,
                                            xtData = (if xcCallData config \<noteq> '''' then Some (fromHex (xcCallData config)) else None)\<rparr>, m2)))))))"

section \<open>Building the transaction\<close>

record auth_entry =
  aeChainID :: u64
  aeAddress :: root
  aeNonce :: u64

datatype 's tx_kind =
    LegacyTx (gasPrice: int)
  | BlobTx (blobFeeCap: int) (gasTipCap: int) (gasFeeCap: int) (sidecar: 's)
  | SetCodeTx (txChainID: int) (gasTipCap: int) (gasFeeCap: int) (authEntries: "auth_entry list")
  | DynamicFeeTx (txChainID: int) (gasTipCap: int) (gasFeeCap: int)

record 's full_tx = tx +
  ftGas :: u64
  ftData :: "u8 list"
  ftKind :: "'s tx_kind"

record 's tx_libs =
  xlFromHex :: "string \<Rightarrow> u8 list"
  xlHexAddress :: "string \<Rightarrow> root"
  xlDrawnTarget :: root
  xlDrawnAmount :: "string + int"
  xlSidecar :: "string list \<Rightarrow> string + 's"
  xlChainID :: int
  xlSignAuth :: "nat \<Rightarrow> go_error"
  xlHash :: "u64 \<Rightarrow> int \<Rightarrow> root option \<Rightarrow> u64 \<Rightarrow> u8 list \<Rightarrow> 's tx_kind \<Rightarrow> root"

datatype 'a go_result = GoPanic | GoError string | GoValue 'a

definition deref :: "'a option \<Rightarrow> ('a \<Rightarrow> 'b go_result) \<Rightarrow> 'b go_result" where
  "deref p f = (case p of None \<Rightarrow> GoPanic | Some v \<Rightarrow> f v)"

text \<open>Conversion to 256 bits panics on an overflow; a negative number is taken modulo \<open>2 ^ 256\<close>.\<close>

definition mustFromBig :: "int \<Rightarrow> int option" where
  "mustFromBig n = (if \<bar>n\<bar> < 2 ^ 256 then Some (n mod 2 ^ 256) else None)"

definition txTarget :: "tx_task \<Rightarrow> 's tx_libs \<Rightarrow> root option" where
  "txTarget T L =
     (if xcContractDeployment (xtConfig T) then None
      else Some (if xcRandomTarget (xtConfig T) then xlDrawnTarget L
                 else if xcTargetAddress (xtConfig T) \<noteq> '''' then xtTargetAddr T else xtWallet T))"

text \<open>Drawing below a number that is not positive panics; an error of drawing leaves the amount.\<close>

definition txAmountOf :: "TransactionConfig \<Rightarrow> string + int \<Rightarrow> int option" where
  "txAmountOf cfg drawn =
     (case xcAmount cfg of
        None \<Rightarrow> None
      | Some amount \<Rightarrow>
          if xcRandomAmount cfg
          then if amount \<le> 0 then None else Some (case drawn of Inl e \<Rightarrow> amount | Inr n \<Rightarrow> n)
          else Some amount)"

definition useNonceOf :: "root \<Rightarrow> manager \<Rightarrow> u64 \<times> manager" where
  "useNonceOf r m =
     (case map_of m r of
        None \<Rightarrow> (0, m)
      | Some w \<Rightarrow> (fst (UseNextNonce True w), AList.map_entry r (snd \<circ> UseNextNonce True) m))"

fun authList ::
    "'s tx_libs \<Rightarrow> nat \<Rightarrow> (tx_authorization \<times> root) list \<Rightarrow> manager \<Rightarrow> (string + auth_entry list) \<times> manager" where
  "authList L idx [] m = (Inr [], m)"
| "authList L idx ((a, r) # as) m =
     (let (nonce, m1) = (case auNonce a of Some n \<Rightarrow> (n, m) | None \<Rightarrow> useNonceOf r m)
      in (case xlSignAuth L idx of
            Some e \<Rightarrow> (Inl e, m1)
          | None \<Rightarrow>
              apfst (map_sum id ((#) \<lparr>aeChainID = auChainID a, aeAddress = xlHexAddress L (auCodeAddress a), aeNonce = nonce\<rparr>))
                (authList L (idx + 1) as m1)))"

text \<open>The fields in common.\<close>

definition mkTx :: "tx_task \<Rightarrow> 's tx_libs \<Rightarrow> u64 \<Rightarrow> int \<Rightarrow> root option \<Rightarrow> 's tx_kind \<Rightarrow> 's full_tx" where
  "mkTx T L nonce amount to kind =
     (let data = (case xtData T of Some d \<Rightarrow> d | None \<Rightarrow> [])
      in \<lparr>txNonce = nonce, txValue = amount, txHash = xlHash L nonce amount to (xcGasLimit (xtConfig T)) data kind, txTo = to,
          ftGas = xcGasLimit (xtConfig T), ftData = data, ftKind = kind\<rparr>)"

definition big256 :: "int option \<Rightarrow> (int \<Rightarrow> 'b go_result) \<Rightarrow> 'b go_result" where
  "big256 p f = deref p (\<lambda>n. deref (mustFromBig n) f)"

definition buildBlob :: "tx_task \<Rightarrow> 's tx_libs \<Rightarrow> u64 \<Rightarrow> int \<Rightarrow> root option \<Rightarrow> 's full_tx go_result" where
  "buildBlob T L nonce amount to =
     (let cfg = xtConfig T; blobData = (if xcBlobData cfg = '''' then ''identifier'' else xcBlobData cfg)
      in (case to of
            None \<Rightarrow> GoError ''contract deployment not supported with blob transactions''
          | Some addr \<Rightarrow>
              (case xlSidecar L (splitOn (CHR '';'') blobData) of
                 Inl e \<Rightarrow> GoError e
               | Inr sc \<Rightarrow>
                   big256 (xcBlobFeeCap cfg) (\<lambda>blobFee. big256 (xcTipCap cfg) (\<lambda>tip. big256 (xcFeeCap cfg) (\<lambda>fee. big256 (Some amount) (\<lambda>v.
                     GoValue (mkTx T L nonce v to (BlobTx blobFee tip fee sc)))))))))"

definition buildSetCode :: "tx_task \<Rightarrow> 's tx_libs \<Rightarrow> u64 \<Rightarrow> int \<Rightarrow> root option \<Rightarrow> auth_entry list \<Rightarrow> 's full_tx go_result" where
  "buildSetCode T L nonce amount to auths =
     big256 (Some (xlChainID L)) (\<lambda>chain. big256 (xcTipCap (xtConfig T)) (\<lambda>tip. big256 (xcFeeCap (xtConfig T)) (\<lambda>fee.
       deref to (\<lambda>addr. big256 (Some amount) (\<lambda>v. GoValue (mkTx T L nonce v to (SetCodeTx chain tip fee auths)))))))"

definition buildTx :: "tx_task \<Rightarrow> 's tx_libs \<Rightarrow> u64 \<Rightarrow> manager \<Rightarrow> 's full_tx go_result \<times> manager" where
  "buildTx T L nonce0 m =
     (let cfg = xtConfig T; to = txTarget T L
      in (case txAmountOf cfg (xlDrawnAmount L) of
            None \<Rightarrow> (GoPanic, m)
          | Some amount \<Rightarrow>
              let nonce = (case xcNonce cfg of Some n \<Rightarrow> n | None \<Rightarrow> nonce0)
              in if xcLegacyTxType cfg then (deref (xcFeeCap cfg) (\<lambda>fee. GoValue (mkTx T L nonce amount to (LegacyTx fee))), m)
                 else if xcBlobTxType cfg then (buildBlob T L nonce amount to, m)
                 else if xcSetCodeTxType cfg
                 then (case authList L 0 (zip (xcAuthorizations cfg) (xtAuthWallets T)) m of
                         (Inl e, m1) \<Rightarrow> (GoError e, m1)
                       | (Inr auths, m1) \<Rightarrow> (buildSetCode T L nonce amount to auths, m1))
                 else (deref (xcTipCap cfg) (\<lambda>tip. deref (xcFeeCap cfg) (\<lambda>fee.
                         GoValue (mkTx T L nonce amount to (DynamicFeeTx (xlChainID L) tip fee)))), m)))"

text \<open>
  \<open>BuildTransaction\<close> with a function that may change wallets, the sender's too. None is a wallet that is not ready.
\<close>

definition builtUpdate :: "'z tx_scheme \<Rightarrow> wallet \<Rightarrow> wallet" where
  "builtUpdate tx w =
     (let w1 = (if pendingNonce w < txNonce tx + 1 then w\<lparr>pendingNonce := txNonce tx + 1\<rparr> else w)
      in w1\<lparr>pendingBalance := pendingBalance w1 - txValue tx\<rparr>)"

definition generateTransaction :: "send_env \<Rightarrow> tx_task \<Rightarrow> 's tx_libs \<Rightarrow> manager \<Rightarrow> ('s full_tx go_result \<times> manager) option" where
  "generateTransaction E T L m =
     (case map_of m (xtWallet T) of
        None \<Rightarrow> None
      | Some w \<Rightarrow>
          (case AwaitReady (seCtxErr E) (sePickCtx E) w of
             None \<Rightarrow> None
           | Some (Some e) \<Rightarrow> Some (GoError e, m)
           | Some None \<Rightarrow>
               (case buildTx T L (pendingNonce w) m of
                  (GoValue tx, m1) \<Rightarrow>
                    (case seSignErr E of
                       Some e \<Rightarrow> Some (GoError e, m1)
                     | None \<Rightarrow> Some (GoValue tx, AList.map_entry (xtWallet T) (builtUpdate tx) m1))
                | (r, m1) \<Rightarrow> Some (r, m1))))"

section \<open>Sending and judging\<close>

record event_log =
  elTopics :: "u8 list list"
  elData :: "u8 list"

record tx_receipt = gen_receipt +
  trContractAddress :: root
  trLogs :: "event_log list"

definition topicMatches :: "(string \<Rightarrow> u8 list) \<Rightarrow> string \<Rightarrow> nat \<Rightarrow> event_log \<Rightarrow> bool" where
  "topicMatches fromHex topic i l \<longleftrightarrow> \<not> (topic \<noteq> '''' \<and> (length (elTopics l) < i + 1 \<or> fromHex topic \<noteq> elTopics l ! i))"

definition eventMatches :: "(string \<Rightarrow> u8 list) \<Rightarrow> expected_event \<Rightarrow> event_log \<Rightarrow> bool" where
  "eventMatches fromHex x l \<longleftrightarrow> topicMatches fromHex (xeTopic0 x) 0 l \<and> topicMatches fromHex (xeTopic1 x) 1 l \<and>
     topicMatches fromHex (xeTopic2 x) 2 l \<and> \<not> (xeData x \<noteq> '''' \<and> fromHex (xeData x) \<noteq> elData l)"

fun foundEvent :: "(string \<Rightarrow> u8 list) \<Rightarrow> expected_event \<Rightarrow> event_log list \<Rightarrow> bool" where
  "foundEvent fromHex x [] = False"
| "foundEvent fromHex x (l # logs) = (if \<not> eventMatches fromHex x l then foundEvent fromHex x logs else True)"

fun expectEvents :: "(string \<Rightarrow> u8 list) \<Rightarrow> expected_event list \<Rightarrow> event_log list \<Rightarrow> go_error" where
  "expectEvents fromHex [] logs = None"
| "expectEvents fromHex (x # xs) logs = (if \<not> foundEvent fromHex x logs then Some ''expected event not fired'' else expectEvents fromHex xs logs)"

text \<open>\<open>encodeTx\<close>, \<open>marshalTx\<close> and \<open>encodeReceipt\<close> give the outputs, \<open>hexOf\<close> prints hashes and addresses.\<close>

record 's out_libs =
  olEncodeTx :: "'s full_tx \<Rightarrow> string + var_value"
  olMarshalTx :: "'s full_tx \<Rightarrow> string + string"
  olEncodeReceipt :: "tx_receipt \<Rightarrow> string + var_value"
  olHex :: "root \<Rightarrow> string"

definition receiptOutputs :: "TransactionConfig \<Rightarrow> 's out_libs \<Rightarrow> tx_receipt \<Rightarrow> check_ctx \<Rightarrow> check_ctx" where
  "receiptOutputs cfg OL r c =
     (let address = VStr (olHex OL (trContractAddress r));
          c1 = setOutput ''contractAddress'' address (setResultVar (xcContractAddressResultVar cfg) address c)
      in (case olEncodeReceipt OL r of
            Inl e \<Rightarrow> c1
          | Inr v \<Rightarrow> setResultVar (xcTransactionReceiptResultVar cfg) v (setOutput ''receipt'' v c1)))"

definition judgeReceipt :: "TransactionConfig \<Rightarrow> (string \<Rightarrow> u8 list) \<Rightarrow> 's out_libs \<Rightarrow> string + tx_receipt option \<Rightarrow> check_ctx \<Rightarrow> go_error \<times> check_ctx" where
  "judgeReceipt cfg fromHex OL awaited c =
     (case awaited of
        Inl e \<Rightarrow> (Some (''failed waiting for tx receipt: '' @ e), c)
      | Inr None \<Rightarrow> (Some ''tx receipt not found'', c)
      | Inr (Some r) \<Rightarrow>
          if xcFailOnSuccess cfg \<and> grStatus r > 0 then (Some ''transaction succeeded, but expected rejection'', c)
          else if xcFailOnReject cfg \<and> grStatus r = 0 then (Some ''transaction rejected, but expected success'', c)
          else (expectEvents fromHex (xcExpectEvents cfg) (trLogs r), receiptOutputs cfg OL r c))"

fun sendFirst :: "(nat \<Rightarrow> go_error) \<Rightarrow> nat list \<Rightarrow> go_error \<Rightarrow> go_error" where
  "sendFirst attempt [] err = err"
| "sendFirst attempt (client # cs) err = (case attempt client of None \<Rightarrow> None | Some e \<Rightarrow> sendFirst attempt cs (Some e))"

fun awaitWallets :: "string \<Rightarrow> send_env \<Rightarrow> root list \<Rightarrow> manager \<Rightarrow> go_error option" where
  "awaitWallets what E [] m = Some None"
| "awaitWallets what E (r # rs) m =
     (case map_of m r of
        None \<Rightarrow> None
      | Some w \<Rightarrow>
          (case AwaitReady (seCtxErr E) (sePickCtx E) w of
             None \<Rightarrow> None
           | Some (Some e) \<Rightarrow> Some (Some (what @ e))
           | Some None \<Rightarrow> awaitWallets what E rs m))"

definition sentOutputs :: "TransactionConfig \<Rightarrow> 's out_libs \<Rightarrow> 's full_tx \<Rightarrow> check_ctx \<Rightarrow> check_ctx" where
  "sentOutputs cfg OL tx c =
     setOutput ''transactionHash'' (VStr (olHex OL (txHash tx))) (setResultVar (xcTransactionHashResultVar cfg) (VStr (olHex OL (txHash tx))) c)"

definition resyncAuths :: "root list \<Rightarrow> manager \<Rightarrow> manager" where
  "resyncAuths rs m = fold (\<lambda>r. AList.map_entry r ResyncState) rs m"

text \<open>
  The task. While it waits for the receipt others change the wallets: \<open>awaitTx\<close> is what \<open>AwaitTransaction\<close> returns and the wallets then. None is a call that waits for good.
\<close>

definition transactionExecute ::
    "send_env \<Rightarrow> tx_task \<Rightarrow> 's tx_libs \<Rightarrow> 's out_libs \<Rightarrow> nat list \<Rightarrow> nat list \<Rightarrow> ('s full_tx \<Rightarrow> manager \<Rightarrow> ((string + tx_receipt option) \<times> manager) option) \<Rightarrow>
     check_ctx \<Rightarrow> manager \<Rightarrow> (unit go_result \<times> check_ctx \<times> manager) option" where
  "transactionExecute E T L OL ready byName awaitTx c m =
     (let cfg = xtConfig T
      in (case awaitWallets ''cannot load wallet state: '' E [xtWallet T] m of
            None \<Rightarrow> None
          | Some (Some e) \<Rightarrow> Some (GoError e, c, m)
          | Some None \<Rightarrow>
              (case (if xcSetCodeTxType cfg then awaitWallets ''cannot load authorization wallet state: '' E (xtAuthWallets T) m else Some None) of
                 None \<Rightarrow> None
               | Some (Some e) \<Rightarrow> Some (GoError e, c, m)
               | Some None \<Rightarrow>
                   (case generateTransaction E T L m of
                      None \<Rightarrow> None
                    | Some (GoPanic, m1) \<Rightarrow> Some (GoPanic, c, m1)
                    | Some (GoError e, m1) \<Rightarrow> Some (GoError e, c, m1)
                    | Some (GoValue tx, m1) \<Rightarrow>
                        let c1 = setGeneralized ''transactionHex'' (map_sum id VStr (olMarshalTx OL tx)) (setGeneralized ''transaction'' (olEncodeTx OL tx) c)
                        in (case executionClients (xcClientPattern cfg) (xcExcludeClientPattern cfg) ready byName of
                              Inl e \<Rightarrow> Some (GoError e, c1, m1)
                            | Inr cs \<Rightarrow>
                                (case sendFirst (seAttempt E) cs None of
                                   Some e \<Rightarrow> Some (GoError e, c1, m1)
                                 | None \<Rightarrow>
                                     let c2 = sentOutputs cfg OL tx c1
                                     in if xcAwaitReceipt cfg
                                        then (case awaitTx tx m1 of
                                                None \<Rightarrow> None
                                              | Some (awaited, m2) \<Rightarrow>
                                                  (case judgeReceipt cfg (xlFromHex L) OL awaited c2 of
                                                     (Some e, c3) \<Rightarrow> Some (GoError e, c3, m2)
                                                   | (None, c3) \<Rightarrow> Some (GoValue (), c3, resyncAuths (xtAuthWallets T) m2)))
                                        else Some (GoValue (), c2, resyncAuths (xtAuthWallets T) m1)))))))"

section \<open>The verdict\<close>

definition log_fires :: "(string \<Rightarrow> u8 list) \<Rightarrow> expected_event \<Rightarrow> event_log \<Rightarrow> bool" where
  "log_fires fromHex x l \<longleftrightarrow>
     list_all (\<lambda>(i, t). t = '''' \<or> (i < length (elTopics l) \<and> elTopics l ! i = fromHex t)) [(0, xeTopic0 x), (1, xeTopic1 x), (2, xeTopic2 x)] \<and>
     (xeData x = '''' \<or> elData l = fromHex (xeData x))"

definition receipt_wanted :: "TransactionConfig \<Rightarrow> (string \<Rightarrow> u8 list) \<Rightarrow> tx_receipt \<Rightarrow> bool" where
  "receipt_wanted cfg fromHex r \<longleftrightarrow>
     \<not> (xcFailOnSuccess cfg \<and> grStatus r \<noteq> 0) \<and> \<not> (xcFailOnReject cfg \<and> grStatus r = 0) \<and>
     list_all (\<lambda>x. list_ex (log_fires fromHex x) (trLogs r)) (xcExpectEvents cfg)"

lemma topicMatches_iff: "topicMatches fromHex t i l \<longleftrightarrow> t = '''' \<or> (i < length (elTopics l) \<and> elTopics l ! i = fromHex t)"
  by (auto simp: topicMatches_def)

lemma eventMatches_fires: "eventMatches fromHex x l = log_fires fromHex x l"
  by (auto simp: eventMatches_def log_fires_def topicMatches_iff)

lemma foundEvent_ex: "foundEvent fromHex x ls = list_ex (log_fires fromHex x) ls"
  by (induction ls) (auto simp: eventMatches_fires)

lemma expectEvents_None: "expectEvents fromHex xs ls = None \<longleftrightarrow> list_all (\<lambda>x. list_ex (log_fires fromHex x) ls) xs"
  by (induction xs) (auto simp: foundEvent_ex)

lemma judgeReceipt_wanted: "fst (judgeReceipt cfg fromHex OL (Inr (Some r)) c) = None \<longleftrightarrow> receipt_wanted cfg fromHex r"
  by (auto simp: judgeReceipt_def receipt_wanted_def expectEvents_None word_neq_0_conv)

lemma sendFirst_taken: "\<exists>client \<in> set cs. attempt client = None \<Longrightarrow> sendFirst attempt cs err = None"
  by (induction cs arbitrary: err) (auto split: option.splits)

lemma sendFirst_refused: "\<forall>client \<in> set cs. attempt client \<noteq> None \<Longrightarrow> cs \<noteq> [] \<Longrightarrow> sendFirst attempt cs err = attempt (last cs)"
  by (induction cs arbitrary: err) (auto split: option.splits)

definition ready_wallets :: "root list \<Rightarrow> manager \<Rightarrow> bool" where
  "ready_wallets rs m = list_all (\<lambda>r. case map_of m r of None \<Rightarrow> False | Some w \<Rightarrow> wReadyClosed w) rs"

lemma awaitWallets_ready: "ready_wallets rs m \<Longrightarrow> seCtxErr E = None \<Longrightarrow> awaitWallets what E rs m = Some None"
  by (induction rs) (auto simp: ready_wallets_def AwaitReady_def split: option.splits)

lemma awaits_ready:
  assumes "ready_wallets (r # rs) m" "seCtxErr E = None"
  shows "awaitWallets what E [r] m = Some None" "awaitWallets what E rs m = Some None"
  by (rule awaitWallets_ready; use assms in \<open>simp add: ready_wallets_def\<close>)+

lemma setResultVar_outputs [simp]: "ccOutputs (setResultVar name v c) = ccOutputs c" "ccResult (setResultVar name v c) = ccResult c"
  by (simp_all add: setResultVar_def setCtxVar_def)

lemma outputs_kept: "name \<noteq> other \<Longrightarrow> map_of (ccOutputs (setOutput other v c)) name = map_of (ccOutputs c) name"
  by (simp add: setOutput_def update_conv')

lemma judgeReceipt_outputs:
  "name \<notin> {''contractAddress'', ''receipt''} \<Longrightarrow> map_of (ccOutputs (snd (judgeReceipt cfg fromHex OL awaited c))) name = map_of (ccOutputs c) name"
  by (auto simp: judgeReceipt_def receiptOutputs_def Let_def outputs_kept split: sum.splits option.splits)

lemma sentOutputs_hash: "map_of (ccOutputs (sentOutputs cfg OL tx c)) ''transactionHash'' = Some (VStr (olHex OL (txHash tx)))"
  by (simp add: sentOutputs_def setOutput_def update_conv')

text \<open>
  C21. Let the wallets be ready, the transaction built, some client of the configured ones take it, and its receipt come. The task then returns, with success exactly if the receipt is
  the wanted one: not successful where that counts as failure, not rejected where that does, and every expected event among its logs, compared by the topics 0 to 2 and the data that are given; the configuration has no \<open>topic3\<close>. The hash is an output in either case, and on
  success the authorization wallets are reloaded.
\<close>

theorem transaction_verdict:
  assumes "seCtxErr E = None" "ready_wallets (xtWallet T # xtAuthWallets T) m" "generateTransaction E T L m = Some (GoValue tx, m1)"
    and "executionClients (xcClientPattern (xtConfig T)) (xcExcludeClientPattern (xtConfig T)) ready byName = Inr cs" "client \<in> set cs" "seAttempt E client = None"
    and "xcAwaitReceipt (xtConfig T)" "awaitTx tx m1 = Some (Inr (Some r), m2)"
  shows "\<exists>res c' m'. transactionExecute E T L OL ready byName awaitTx c m = Some (res, c', m') \<and>
    (res = GoValue () \<longleftrightarrow> receipt_wanted (xtConfig T) (xlFromHex L) r) \<and> res \<noteq> GoPanic \<and>
    map_of (ccOutputs c') ''transactionHash'' = Some (VStr (olHex OL (txHash tx))) \<and>
    m' = (if receipt_wanted (xtConfig T) (xlFromHex L) r then resyncAuths (xtAuthWallets T) m2 else m2)"
proof -
  let ?cfg = "xtConfig T"
  note w = awaits_ready [OF assms(2,1)]
  have s: "sendFirst (seAttempt E) cs None = None" using assms(5,6) by (auto intro: sendFirst_taken)
  define c1 where "c1 = setGeneralized ''transactionHex'' (map_sum id VStr (olMarshalTx OL tx)) (setGeneralized ''transaction'' (olEncodeTx OL tx) c)"
  obtain err c3 where j: "judgeReceipt ?cfg (xlFromHex L) OL (Inr (Some r)) (sentOutputs ?cfg OL tx c1) = (err, c3)"
    by (cases "judgeReceipt ?cfg (xlFromHex L) OL (Inr (Some r)) (sentOutputs ?cfg OL tx c1)")
  have e: "err = None \<longleftrightarrow> receipt_wanted ?cfg (xlFromHex L) r" using judgeReceipt_wanted [of ?cfg "xlFromHex L" OL r "sentOutputs ?cfg OL tx c1"] by (simp add: j)
  have h: "map_of (ccOutputs c3) ''transactionHash'' = Some (VStr (olHex OL (txHash tx)))"
    using judgeReceipt_outputs [of "''transactionHash''" ?cfg "xlFromHex L" OL "Inr (Some r)" "sentOutputs ?cfg OL tx c1"] by (simp add: j sentOutputs_hash)
  have "transactionExecute E T L OL ready byName awaitTx c m =
      (case err of Some e \<Rightarrow> Some (GoError e, c3, m2) | None \<Rightarrow> Some (GoValue (), c3, resyncAuths (xtAuthWallets T) m2))"
    using assms(3,4,7,8) j by (simp add: transactionExecute_def Let_def w s del: awaitWallets.simps flip: c1_def split: option.splits)
  with e h show ?thesis by (cases err) auto
qed

definition demoTxTask :: tx_task where
  "demoTxTask = \<lparr>xtConfig = transactionDefault\<lparr>xcFailOnReject := True, xcExpectEvents := [\<lparr>xeTopic0 = ''01'', xeTopic1 = '''', xeTopic2 = '''', xeData = ''''\<rparr>]\<rparr>,
     xtWallet = 7, xtAuthWallets = [], xtTargetAddr = 0, xtData = None\<rparr>"

definition demoTxLibs :: "unit tx_libs" where
  "demoTxLibs = \<lparr>xlFromHex = (\<lambda>s. [1]), xlHexAddress = (\<lambda>s. 0), xlDrawnTarget = 0, xlDrawnAmount = Inr 0, xlSidecar = (\<lambda>s. Inr ()), xlChainID = 1,
     xlSignAuth = (\<lambda>i. None), xlHash = (\<lambda>nonce amount to gas data kind. 99)\<rparr>"

definition demoTxOut :: "unit out_libs" where
  "demoTxOut = \<lparr>olEncodeTx = (\<lambda>tx. Inl ''unencodable''), olMarshalTx = (\<lambda>tx. Inr ''0x02''), olEncodeReceipt = (\<lambda>r. Inr (VStr ''receipt'')), olHex = (\<lambda>h. ''0x99'')\<rparr>"

definition demoTxStore :: manager where
  "demoTxStore = [(7, stateLoaded 3 100 (newWallet 7))]"

definition demoTxEnv :: send_env where
  "demoTxEnv = \<lparr>seCtxErr = None, sePickCtx = False, seSignErr = None, seAttempt = (\<lambda>client. if client = 1 then Some ''refused'' else None)\<rparr>"

definition demoTxReceipt :: tx_receipt where
  "demoTxReceipt = \<lparr>rTxHash = 99, rEffectiveGasPrice = 1, rGasUsed = 21000, grStatus = 1, trContractAddress = 0, trLogs = [\<lparr>elTopics = [[2]], elData = []\<rparr>, \<lparr>elTopics = [[1]], elData = []\<rparr>]\<rparr>"

lemma demoTx_built:
  "generateTransaction demoTxEnv demoTxTask demoTxLibs demoTxStore =
     Some (GoValue (mkTx demoTxTask demoTxLibs 3 0 (Some 7) (DynamicFeeTx 1 1000000000 100000000000)),
       [(7, (stateLoaded 3 100 (newWallet 7))\<lparr>pendingNonce := 4\<rparr>)])"
  by (simp add: generateTransaction_def demoTxStore_def demoTxEnv_def demoTxTask_def demoTxLibs_def AwaitReady_def stateLoaded_def newWallet_def loadState_def
      buildTx_def txTarget_def txAmountOf_def transactionDefault_def deref_def mkTx_def builtUpdate_def Let_def)

theorem transaction_verdict_witness:
  "\<exists>c' m'. transactionExecute demoTxEnv demoTxTask demoTxLibs demoTxOut [1, 2] [] (\<lambda>tx m. Some (Inr (Some demoTxReceipt), m)) demoGenCtx demoTxStore =
     Some (GoValue (), c', m')"
proof -
  have "ready_wallets (xtWallet demoTxTask # xtAuthWallets demoTxTask) demoTxStore"
    by (simp add: ready_wallets_def demoTxTask_def demoTxStore_def stateLoaded_def)
  moreover have "receipt_wanted (xtConfig demoTxTask) (xlFromHex demoTxLibs) demoTxReceipt"
    by (simp add: receipt_wanted_def demoTxTask_def demoTxReceipt_def demoTxLibs_def transactionDefault_def log_fires_def)
  moreover have "executionClients (xcClientPattern (xtConfig demoTxTask)) (xcExcludeClientPattern (xtConfig demoTxTask)) [1, 2] [] = Inr [1, 2]"
    by (simp add: executionClients_def demoTxTask_def transactionDefault_def)
  moreover have "seCtxErr demoTxEnv = None" "seAttempt demoTxEnv 2 = None" "xcAwaitReceipt (xtConfig demoTxTask)"
    by (simp_all add: demoTxEnv_def demoTxTask_def transactionDefault_def)
  ultimately show ?thesis
    using transaction_verdict [OF _ _ demoTx_built, where client = 2 and ready = "[1, 2]" and byName = "[]" and cs = "[1, 2]" and OL = demoTxOut and c = demoGenCtx
        and awaitTx = "\<lambda>tx m. Some (Inr (Some demoTxReceipt), m)"] by fastforce
qed

section \<open>Nonces of authorizations\<close>

lemma map_of_useNonceOf:
  "map_of (snd (useNonceOf r m)) a = (if a = r then map_option (\<lambda>w. w\<lparr>pendingNonce := pendingNonce w + 1\<rparr>) (map_of m a) else map_of m a)"
  by (auto simp: useNonceOf_def UseNextNonce_def map_of_map_entry' split: option.splits)

lemma fst_useNonceOf: "map_of m r = Some w \<Longrightarrow> fst (useNonceOf r m) = pendingNonce w"
  by (simp add: useNonceOf_def UseNextNonce_def)

text \<open>The entries of a wallet whose nonce is not configured.\<close>

definition own_entry :: "root \<Rightarrow> tx_authorization \<times> root \<Rightarrow> bool" where
  "own_entry r a \<longleftrightarrow> snd a = r \<and> auNonce (fst a) = None"

definition taken_nonces :: "root \<Rightarrow> (tx_authorization \<times> root) list \<Rightarrow> auth_entry list \<Rightarrow> u64 list" where
  "taken_nonces r as es = map (aeNonce \<circ> snd) (filter (own_entry r \<circ> fst) (zip as es))"

text \<open>They get consecutive nonces from the pending one on, which then stands behind the last of them; no other field of a wallet changes.\<close>

lemma authList_nonces:
  assumes "authList L idx as m = (Inr es, m')" "map_of m r = Some w"
  shows "length es = length as \<and> taken_nonces r as es = map (\<lambda>i. pendingNonce w + of_nat i) [0..<length (filter (own_entry r) as)] \<and>
    map_of m' r = Some (w\<lparr>pendingNonce := pendingNonce w + of_nat (length (filter (own_entry r) as))\<rparr>)"
  using assms
proof (induction L idx as m arbitrary: es m' w rule: authList.induct)
  case (1 L idx m)
  then show ?case by (simp add: taken_nonces_def)
next
  case (2 L idx a r' as m)
  obtain nonce m1 where n: "(case auNonce a of Some n \<Rightarrow> (n, m) | None \<Rightarrow> useNonceOf r' m) = (nonce, m1)" by fastforce
  have s: "xlSignAuth L idx = None" using "2.prems"(1) n by (auto split: option.splits)
  then obtain es' where r: "authList L (idx + 1) as m1 = (Inr es', m')"
      and es: "es = \<lparr>aeChainID = auChainID a, aeAddress = xlHexAddress L (auCodeAddress a), aeNonce = nonce\<rparr> # es'"
    using "2.prems"(1) n by (cases "authList L (idx + 1) as m1"; cases "fst (authList L (idx + 1) as m1)") (auto split: option.splits)
  define w1 where "w1 = (if own_entry r (a, r') then w\<lparr>pendingNonce := pendingNonce w + 1\<rparr> else w)"
  have m1: "map_of m1 r = Some w1"
    using n "2.prems"(2) map_of_useNonceOf [of r' m r] by (auto simp: w1_def own_entry_def split: option.splits if_splits)
  have o: "own_entry r (a, r') \<Longrightarrow> nonce = pendingNonce w"
    using n fst_useNonceOf [of m r w] "2.prems"(2) by (auto simp: own_entry_def)
  show ?case
    using "2.IH" [OF n [symmetric] refl s r m1] es o
    by (auto simp: taken_nonces_def w1_def comp_def upt_conv_Cons map_Suc_upt [symmetric] algebra_simps simp del: upt_Suc)
qed

section \<open>Building through the wallet\<close>

text \<open>Without authorizations the transaction is what \<open>BuildTransaction\<close> of the sender's wallet gives, and only that wallet changes.\<close>

lemma generateTransaction_builds:
  assumes "map_of m (xtWallet T) = Some w" "xcLegacyTxType (xtConfig T) \<or> xcBlobTxType (xtConfig T) \<or> \<not> xcSetCodeTxType (xtConfig T)"
    and "fst (buildTx T L (pendingNonce w) m) = GoValue tx" "generateTransaction E T L m = Some (res, m')"
  obtains res' w' where "BuildTransaction (seCtxErr E) (sePickCtx E) (\<lambda>nonce. Inr (tx.truncate tx)) (seSignErr E) w = Some (res', w')"
    and "map_of m' = (map_of m)(xtWallet T \<mapsto> w')" "(res = GoValue tx) = (res' = Inr (tx.truncate tx))"
proof -
  have b: "buildTx T L (pendingNonce w) m = (GoValue tx, m)"
    using assms(2,3) by (cases "buildTx T L (pendingNonce w) m") (auto simp: buildTx_def Let_def split: option.splits if_splits)
  have u: "map_of (AList.map_entry (xtWallet T) f m) = (map_of m)(xtWallet T \<mapsto> f w)" for f
    using assms(1) by (auto simp: map_of_map_entry')
  consider (failed) e where "AwaitReady (seCtxErr E) (sePickCtx E) w = Some (Some e)" | (unsigned) e where "AwaitReady (seCtxErr E) (sePickCtx E) w = Some None" "seSignErr E = Some e"
    | (built) "AwaitReady (seCtxErr E) (sePickCtx E) w = Some None" "seSignErr E = None"
    using assms(1,4) by (auto simp: generateTransaction_def split: option.splits)
  then show thesis
  proof cases
    case built
    with assms(1,4) b show thesis
      by (intro that [of "Inr (tx.truncate tx)" "builtUpdate tx w"]) (auto simp: generateTransaction_def BuildTransaction_def builtUpdate_def Let_def tx.defs u)
  qed (use assms(1,4) b that in \<open>auto simp: generateTransaction_def BuildTransaction_def fun_upd_idem\<close>)
qed

text \<open>A configuration whose numbers are there and fit does not panic.\<close>

definition fits :: "int option \<Rightarrow> bool" where
  "fits p = (case p of None \<Rightarrow> False | Some n \<Rightarrow> \<bar>n\<bar> < 2 ^ 256)"

definition safe_tx :: "TransactionConfig \<Rightarrow> 's tx_libs \<Rightarrow> bool" where
  "safe_tx cfg L \<longleftrightarrow> fits (xcAmount cfg) \<and> fits (xcFeeCap cfg) \<and> fits (xcTipCap cfg) \<and> fits (Some (xlChainID L)) \<and> (xcBlobTxType cfg \<longrightarrow> fits (xcBlobFeeCap cfg)) \<and>
     (xcRandomAmount cfg \<longrightarrow> xcAmount cfg \<noteq> Some 0 \<and> (case xlDrawnAmount L of Inl e \<Rightarrow> True | Inr n \<Rightarrow> fits (Some n))) \<and>
     (case xcAmount cfg of None \<Rightarrow> False | Some n \<Rightarrow> 0 \<le> n) \<and>
     (xcSetCodeTxType cfg \<longrightarrow> \<not> xcContractDeployment cfg)"

lemma big256_fits: "fits p \<Longrightarrow> big256 p f = f (the p mod 2 ^ 256)"
  by (auto simp: fits_def big256_def deref_def mustFromBig_def split: option.splits)

lemma safe_amount: "safe_tx cfg L \<Longrightarrow> \<exists>amount. txAmountOf cfg (xlDrawnAmount L) = Some amount \<and> fits (Some amount)"
  by (auto simp: safe_tx_def fits_def txAmountOf_def split: option.splits sum.splits)

lemma buildTx_no_panic:
  assumes "safe_tx (xtConfig T) L"
  shows "fst (buildTx T L nonce m) \<noteq> GoPanic"
proof -
  obtain amount where a: "txAmountOf (xtConfig T) (xlDrawnAmount L) = Some amount" "fits (Some amount)" using safe_amount [OF assms] by blast
  have f: "fits (xcFeeCap (xtConfig T))" "fits (xcTipCap (xtConfig T))" "fits (Some (xlChainID L))" using assms by (simp_all add: safe_tx_def)
  have "xcBlobTxType (xtConfig T) \<Longrightarrow> buildBlob T L n amount to \<noteq> GoPanic" for n to
    using assms a(2) f by (simp add: buildBlob_def Let_def safe_tx_def big256_fits split: option.split sum.split)
  moreover have "xcSetCodeTxType (xtConfig T) \<Longrightarrow> buildSetCode T L n amount (txTarget T L) auths \<noteq> GoPanic" for n auths
    using assms a(2) f by (simp add: buildSetCode_def safe_tx_def txTarget_def deref_def big256_fits)
  moreover have "deref p (\<lambda>x. GoValue (g x)) \<noteq> GoPanic" if "fits p" for p and g :: "int \<Rightarrow> 'a full_tx"
    using that by (auto simp: deref_def fits_def split: option.splits)
  ultimately show ?thesis using a(1) f
    by (auto simp: buildTx_def Let_def deref_def fits_def split: option.splits prod.splits sum.splits)
qed

lemma transactionExecute_no_panic:
  assumes "safe_tx (xtConfig T) L" "transactionExecute E T L OL ready byName awaitTx c m = Some (res, c', m')"
  shows "res \<noteq> GoPanic"
proof -
  have "buildTx T L n m \<noteq> (GoPanic, m1)" for n m1 using buildTx_no_panic [OF assms(1), of n m] by auto
  then have "generateTransaction E T L m \<noteq> Some (GoPanic, m1)" for m1
    by (auto simp: generateTransaction_def split: option.splits prod.splits go_result.splits)
  then show ?thesis using assms(2)
    by (auto simp: transactionExecute_def Let_def simp del: awaitWallets.simps split: option.splits prod.splits go_result.splits sum.splits if_splits)
qed

section \<open>What goes wrong\<close>

text \<open>The blob type needs a fee cap that has no default, and a random amount below the default one cannot be drawn: both panic.\<close>

lemma blob_default_panics:
  assumes "xtConfig T = transactionDefault\<lparr>xcPrivateKey := k, xcBlobTxType := True\<rparr>" "xlSidecar L [''identifier''] = Inr sc"
  shows "fst (buildTx T L nonce m) = GoPanic"
  using assms by (simp add: buildTx_def buildBlob_def txTarget_def txAmountOf_def transactionDefault_def big256_def deref_def Let_def)

lemma random_default_amount_panics:
  "xtConfig T = transactionDefault\<lparr>xcPrivateKey := k, xcRandomAmount := True\<rparr> \<Longrightarrow> fst (buildTx T L nonce m) = GoPanic"
  by (simp add: buildTx_def txAmountOf_def transactionDefault_def)

text \<open>A contract deployment with set-code type is not refused, as for blobs, but panics, and the authorization wallets have given their nonces.\<close>

lemma set_code_deployment_panics:
  assumes "xtConfig T = transactionDefault\<lparr>xcPrivateKey := k, xcSetCodeTxType := True, xcContractDeployment := True, xcAuthorizations := [a]\<rparr>"
    and "xtAuthWallets T = [r]" "auNonce a = None" "xlSignAuth L 0 = None" "map_of m r = Some w" "xlChainID L = 1"
  shows "\<exists>m'. buildTx T L nonce m = (GoPanic, m') \<and> map_of m' r = Some (w\<lparr>pendingNonce := pendingNonce w + 1\<rparr>)"
proof -
  have "map_of (snd (useNonceOf r m)) r = Some (w\<lparr>pendingNonce := pendingNonce w + 1\<rparr>)" using assms(5) by (simp add: map_of_useNonceOf)
  with assms show ?thesis
    by (auto simp: buildTx_def buildSetCode_def txTarget_def txAmountOf_def transactionDefault_def big256_def deref_def mustFromBig_def Let_def split: prod.splits)
qed

text \<open>
  A sender that authorizes itself gives the authorization the nonce of the transaction, which is used up when the authorization is looked at; both together count as one nonce.
\<close>

lemma self_authorization_same_nonce:
  assumes "xcSetCodeTxType (xtConfig T)" "\<not> xcLegacyTxType (xtConfig T)" "\<not> xcBlobTxType (xtConfig T)" "xcNonce (xtConfig T) = None"
    and "xcAuthorizations (xtConfig T) = [a]" "auNonce a = None" "xtAuthWallets T = [xtWallet T]" "map_of m (xtWallet T) = Some w"
    and "buildTx T L (pendingNonce w) m = (GoValue tx, m')"
  shows "map aeNonce (authEntries (ftKind tx)) = [txNonce tx] \<and> txNonce tx = pendingNonce w \<and> map_option pendingNonce (map_of m' (xtWallet T)) = Some (txNonce tx + 1)"
proof -
  obtain es m1 where l: "authList L 0 [(a, xtWallet T)] m = (Inr es, m1)"
    using assms(1-3,5,7,9) by (auto simp: buildTx_def Let_def simp del: authList.simps split: option.splits prod.splits sum.splits)
  have "map aeNonce es = [pendingNonce w] \<and> map_of m1 (xtWallet T) = Some (w\<lparr>pendingNonce := pendingNonce w + 1\<rparr>)"
    using authList_nonces [OF l assms(8)] assms(6) by (auto simp: taken_nonces_def own_entry_def length_Suc_conv)
  with assms(1-5,7,9) l show ?thesis
    by (auto simp: buildTx_def buildSetCode_def big256_def deref_def mkTx_def Let_def simp del: authList.simps split: option.splits)
qed

text \<open>When no client takes the transaction, the wallets keep the nonces of authorizations that were never sent.\<close>

lemma refused_skips_resync:
  assumes "seCtxErr E = None" "ready_wallets (xtWallet T # xtAuthWallets T) m" "generateTransaction E T L m = Some (GoValue tx, m1)"
    and "executionClients (xcClientPattern (xtConfig T)) (xcExcludeClientPattern (xtConfig T)) ready byName = Inr cs" "cs \<noteq> []" "\<forall>client \<in> set cs. seAttempt E client = Some e"
  shows "\<exists>c'. transactionExecute E T L OL ready byName awaitTx c m = Some (GoError e, c', m1)"
proof -
  note w = awaits_ready [OF assms(2,1)]
  have "sendFirst (seAttempt E) cs None = Some e" using sendFirst_refused [of cs "seAttempt E"] assms(5,6) by simp
  with w assms(3,4) show ?thesis by (simp add: transactionExecute_def Let_def del: awaitWallets.simps)
qed

end
