(* ===== verification/Spec2Isabelle.thy ===== *)
theory Spec2Isabelle
  imports FlowContract FlowBackground TaskOrder TestRunner WalletPool AttestationStats BlockProposals TxRequests Logging ValidatorNames EthCall TxTask
begin

text \<open>
  A verification library for assertoor, the Ethereum testnet test runner. All source paths are below
  \<open>src/pkg/coordinator\<close>.

  \<^bold>\<open>The program.\<close> The coordinator keeps a registry of tests and runs them. A test is a tree of tasks that a scheduler
  creates, executes with their conditions and timeouts, and records in a database. Control flow tasks run other tasks in sequence,
  concurrently, over a matrix of values or in the background; check tasks watch the clients of the network; generator tasks send
  operations and transactions through wallets. Tasks exchange values through scopes of variables. Pools of consensus and execution
  clients follow the chain with a block cache, group the clients into forks and hand out ready clients.

  \<^bold>\<open>Theories and sources.\<close>

  \<^item> \<open>Prelude\<close>: machine integers, Go maps as association lists, \<open>sort.Slice\<close>, Go errors, the collections of facts.
  \<^item> \<open>Variables\<close> (\<open>vars\<close>, \<open>types/vars.go\<close>): scopes are objects of a store at addresses, so that sharing and later assignments are
    visible; lookup, flattening, placeholders, queries and scope filters. Lookup and flattening recurse over scopes that may be cyclic: \<open>GetVarsMap\<close> and what
    calls it take a recursion depth, at whose end the result is None like that of a call that never returns; a depth above the rank of a scope is enough (\<open>scope_ranked\<close>).
  \<^item> \<open>Database\<close> (\<open>db\<close>): one association list per table, a transaction with the failures of handler, driver and commit.
  \<^item> \<open>FlowConfig\<close> (\<open>config.go\<close> and \<open>LoadConfig\<close> of the flow tasks): default, decoding, variables, validation.
  \<^item> \<open>Scheduler\<close>, \<open>SchedulerInv\<close>, \<open>TaskExecution\<close>, \<open>SchedulerRun\<close>, \<open>TaskWatch\<close>, \<open>TaskOrder\<close> (\<open>scheduler\<close>, \<open>tasks/tasks.go\<close>, \<open>types\<close>): the scheduler
    state is a record with a store of task states; one definition per operation; \<open>ExecuteTask\<close> and \<open>RunTasks\<close> take the body
    of a task as an argument (None is a body that does not return). \<open>TaskExecution\<close> has the step relation of all atomic operations, the
    invariant by rule induction and the locale \<open>task_body\<close> of what the scheduler asks of bodies.
    \<open>TaskOrder\<close> shows that the comparator of the task lists ends and sorts in pre-order.
  \<^item> \<open>FlowTasks\<close>, \<open>FlowContract\<close>, \<open>FlowGroup\<close>, \<open>FlowBackground\<close> (\<open>tasks/run_*\<close>, \<open>tasks/sleep\<close>): sequential tasks as functions over the nesting
    depth (a depth above that of the configuration is enough, as the contract states for all depths); goroutines as step relations.
  \<^item> \<open>TestRun\<close>, \<open>TestRegistry\<close>, \<open>TestRunner\<close> (\<open>test\<close>, \<open>testregistry.go\<close>, \<open>testrunner.go\<close>, \<open>coordinator.go\<close>): descriptors, runs, the registry as a
    refinement of a list of descriptors, and the queue loop as a step relation.
  \<^item> \<open>Dispatcher\<close>, \<open>BlockCache\<close>, \<open>HeadForks\<close>, \<open>ConsensusClients\<close>, \<open>ExecutionClients\<close> (\<open>clients\<close>): one model of the code that both layers
    have in common, used by both pools; walks along parents are partial functions that end when slots drop.
  \<^item> \<open>Wallet\<close>, \<open>WalletLedger\<close>, \<open>Amounts\<close>, \<open>WalletPool\<close> (\<open>wallet\<close>, \<open>helper/bigint.go\<close>): balances and nonces beside a ledger, waiting for
    confirmations, blocks applied by the manager, funding of child wallets.
  \<^item> \<open>Float64\<close>, \<open>ClusterChecks\<close>, \<open>AttestationStats\<close>, \<open>BlockProposals\<close> (\<open>tasks/check_*\<close>): rounding of \<open>float64\<close> products and quotients,
    and the check tasks as steps per event.
  \<^item> \<open>ValidatorOps\<close> (\<open>tasks/generate_exits\<close>, \<open>generate_bls_changes\<close>, \<open>generate_slashings\<close>): operations signed with keys of a mnemonic, and the
    loop over key indices, which the three tasks share.
  \<^item> \<open>TxGenerators\<close>, \<open>TxRequests\<close> (\<open>tasks/generate_deposits\<close>, \<open>generate_consolidations\<close>, \<open>generate_withdrawal_requests\<close>,
    \<open>generate_eoa_transactions\<close>, \<open>generate_blob_transactions\<close>): the loop and the callbacks of the wallet as a step relation whose instances are the
    five tasks; data of the calls, building and sending through the wallet, outputs and verdicts.
  \<^item> \<open>Logging\<close> (\<open>logger\<close>): the ring buffer of a log scope, and the buffer before the database with its flush timer.
  \<^item> \<open>ValidatorNames\<close> (\<open>names\<close>), \<open>EthCall\<close> (\<open>tasks/check_eth_call\<close>): names of validators loaded from ranges; the comparison of the answers to a contract call.
  \<^item> \<open>TxTask\<close> (\<open>tasks/generate_transaction\<close>): one transaction of any kind, with the wallets of its authorizations, and the judgement of its receipt.

  \<^bold>\<open>What the lemmas show.\<close> The scheduler keeps its invariant under every interleaving; a call of \<open>ExecuteTask\<close> that returns leaves a
  stopped task with a result that fits its error, panics apart; runs execute root and cleanup tasks in
  order. Sequential flow tasks meet that contract, and the verdicts of groups follow from those of the children, for all their interleavings.
  A watcher of a task is woken by its result unless a concurrent caller replaced its channel.
  Database rows mirror states in memory, transactions are atomic. Variable lookup agrees with the flattened map. Test runs start
  in the order of their ids within the limit. The cache maps agree and are cut at the follow distance, distances are those of
  the parent relation, forks partition the clients, and round robin is fair while forks do not change. Wallets match a ledger under all their calls, and inclusions wake
  who waits. The checks decide declarative specifications of what their configurations ask for.
  Generators stay within their limits in every interleaving with the confirmations, are never stuck while nodes take their transactions, and end with the
  verdict their receipts call for; slashings are slashable and request data reads back.
  The log buffers refine the list of the entries logged, less those logged in the middle of an unlocked \<open>Flush\<close>.
  Names are those of the last entry that names an index, and loading ends unless an entry reaches the largest index.
  A single transaction is judged by status and events; authorizations of a wallet get consecutive nonces.
  Lemmas outside the manifest prove the defects the model showed, on concrete states where that says more.

  \<^bold>\<open>Conventions.\<close> A Go panic, a nil dereference and a call that never returns are None of an option type or a panicked state, as the texts
  say; errors are \<open>Inl\<close> or an optional string. A select that may take either of two ready cases has an argument for
  the choice. Lists of answers stand for the environment; each property states what it asks of them. Where a recursion has a depth or fuel argument
  (flattening of scopes, nesting of flow tasks), its end is None and never a result; what is said of a result holds for every depth that gives one.

  \<^bold>\<open>Steps.\<close> A step of a relation is a section under one lock or a statement outside of locks, with these exceptions, where a step joins two: a head update and the reset of
  the fork cache, the append to the test queue and its notification, and \<open>GetTaskResultUpdateChan\<close> in the relations of groups and background tasks. Log calls are left out
  of all operations but those of \<open>Logging\<close>.

  \<^bold>\<open>Parameters.\<close> go-ethereum, go-eth2-client, YAML and JSON codecs, gojq, regular expressions, SQL drivers, hashing, keys, signatures and
  the answers of nodes are arguments of the definitions; hypotheses on them are named in the properties.

  \<^bold>\<open>Not modelled.\<close> The web server with its API, handlers and templates and the generated API documentation, which only read the state
  modelled here; the RPC clients and event streams of \<open>clients/*/rpc\<close>, which translate to HTTP; \<open>utils/sentry\<close> and
  \<open>utils/tx_load_tool\<close> with the transaction pool tasks, which are network protocols; blob encoding, metrics, build
  information and the command line; the generated deposit contract binding; tasks that wrap one call of a library or of the
  operating system.
\<close>

end
